(* ===== verification/Prelude.thy ===== *)
theory Prelude
  imports Main "HOL-Library.Word"
begin

text \<open>
  What every component of the firmware model shares.

  \<^item> The machine types of the C code: \<open>u8\<close>, \<open>u16\<close>, \<open>u32\<close>, \<open>u64\<close> are
    words that wrap around as the C types do, a byte array is a list of \<open>u8\<close>, and an array
    accessed through a pointer is read and written by checked operations: an access
    outside the array is the value \<open>Inl OutOfBounds\<close> or \<open>Inl BufferOverflow\<close>, never an
    unspecified one.
  \<^item> The computations: \<open>fault + 'a\<close> for code that can fault, \<open>(fault + 'a) option\<close>
    for code with a loop that may not end (\<open>None\<close> is "does not return").
  \<^item> The events the firmware causes outside its own memory (a frame given to the
    transport, a GPIO level, a timer, a reboot), as one datatype.
  \<^item> Two interfaces used by several components: \<open>machine\<close> (a step function with an
    invariant) and \<open>enum_codec\<close> (a C enum and its byte codes).
\<close>

unbundle bit_operations_syntax

section \<open>Machine types\<close>

type_synonym u8 = "8 word"
type_synonym u16 = "16 word"
type_synonym u32 = "32 word"
type_synonym u64 = "64 word"
type_synonym bytes = "u8 list"

named_theorems comp_simps "rules for computations that may fault"
named_theorems wire_simps "rules for lengths and layouts of encoded data"

section \<open>Computations that may fault, or may not return\<close>

datatype fault = OutOfBounds | BufferOverflow | InvalidFree | NullDeref

definition bindE :: "fault + 'a \<Rightarrow> ('a \<Rightarrow> fault + 'b) \<Rightarrow> fault + 'b" where
  "bindE m f = (case m of Inl e \<Rightarrow> Inl e | Inr x \<Rightarrow> f x)"

lemma bindE_simps [simp, comp_simps]:
  "bindE (Inr x) f = f x"
  "bindE (Inl e) f = Inl e"
  by (simp_all add: bindE_def)

lemma bindE_Inr_iff [comp_simps]:
  "bindE m f = Inr y \<longleftrightarrow> (\<exists>x. m = Inr x \<and> f x = Inr y)"
  by (cases m) auto

lemma bindE_cong [fundef_cong]:
  "m = m' \<Longrightarrow> (\<And>x. m' = Inr x \<Longrightarrow> f x = f' x) \<Longrightarrow> bindE m f = bindE m' f'"
  by (cases m') auto

type_synonym 'a comp = "(fault + 'a) option"

definition bindC :: "'a comp \<Rightarrow> ('a \<Rightarrow> 'b comp) \<Rightarrow> 'b comp" where
  "bindC m f = (case m of None \<Rightarrow> None | Some (Inl e) \<Rightarrow> Some (Inl e) | Some (Inr x) \<Rightarrow> f x)"

definition liftC :: "fault + 'a \<Rightarrow> 'a comp" where
  "liftC m = Some m"

definition retC :: "'a \<Rightarrow> 'a comp" where
  "retC x = Some (Inr x)"

lemma bindC_simps [simp, comp_simps]:
  "bindC None f = None"
  "bindC (Some (Inl e)) f = Some (Inl e)"
  "bindC (Some (Inr x)) f = f x"
  "bindC (retC x) f = f x"
  by (simp_all add: bindC_def retC_def)

lemma liftC_simps [simp, comp_simps]:
  "liftC (Inr x) = Some (Inr x)"
  "liftC (Inl e) = Some (Inl e)"
  by (simp_all add: liftC_def)

lemma bindC_Some_Inr_iff [comp_simps]:
  "bindC m f = Some (Inr y) \<longleftrightarrow> (\<exists>x. m = Some (Inr x) \<and> f x = Some (Inr y))"
  by (simp add: bindC_def split: option.splits sum.splits)

section \<open>Arrays accessed through pointers\<close>

definition slice :: "nat \<Rightarrow> nat \<Rightarrow> 'a list \<Rightarrow> 'a list" where
  "slice i n xs = take n (drop i xs)"

lemma length_slice [simp, wire_simps]:
  "i + n \<le> length xs \<Longrightarrow> length (slice i n xs) = n"
  by (simp add: slice_def)

lemma slice_0 [simp]: "slice i 0 xs = []"
  by (simp add: slice_def)

lemma slice_append_left [wire_simps]:
  "i + n \<le> length xs \<Longrightarrow> slice i n (xs @ ys) = slice i n xs"
  by (simp add: slice_def)

lemma slice_append_right [wire_simps]:
  "length xs \<le> i \<Longrightarrow> slice i n (xs @ ys) = slice (i - length xs) n ys"
  by (simp add: slice_def)

lemma slice_all [simp]: "n = length xs \<Longrightarrow> slice 0 n xs = xs"
  by (simp add: slice_def)

lemma nth_slice [simp]:
  "i + n \<le> length xs \<Longrightarrow> k < n \<Longrightarrow> slice i n xs ! k = xs ! (i + k)"
  by (simp add: slice_def)

lemma slice_take [simp]: "i + n \<le> m \<Longrightarrow> slice i n (take m xs) = slice i n xs"
  by (simp add: slice_def drop_take min_def)

definition write_at :: "'a list \<Rightarrow> nat \<Rightarrow> 'a list \<Rightarrow> 'a list" where
  "write_at xs i ys = take i xs @ ys @ drop (i + length ys) xs"

lemma length_write_at [simp, wire_simps]:
  "i + length ys \<le> length xs \<Longrightarrow> length (write_at xs i ys) = length xs"
  by (simp add: write_at_def)

lemma take_write_at [simp]:
  "n \<le> i \<Longrightarrow> i \<le> length xs \<Longrightarrow> take n (write_at xs i ys) = take n xs"
  by (simp add: write_at_def min_def)

lemma take_write_at_end:
  "i \<le> length xs \<Longrightarrow> take (i + length ys) (write_at xs i ys) = take i xs @ ys"
  by (simp add: write_at_def)

lemma slice_write_at [simp]:
  "i \<le> length xs \<Longrightarrow> n = length ys \<Longrightarrow> slice i n (write_at xs i ys) = ys"
  by (simp add: slice_def write_at_def)

lemma write_at_single:
  "i < length xs \<Longrightarrow> write_at xs i [y] = xs[i := y]"
  by (simp add: write_at_def upd_conv_take_nth_drop)

text \<open>A checked read of one byte and of a run of bytes, and a checked write of a run.\<close>

definition rd :: "'a list \<Rightarrow> nat \<Rightarrow> fault + 'a" where
  "rd xs i = (if i < length xs then Inr (xs ! i) else Inl OutOfBounds)"

definition rd_bytes :: "'a list \<Rightarrow> nat \<Rightarrow> nat \<Rightarrow> fault + 'a list" where
  "rd_bytes xs i n = (if i + n \<le> length xs then Inr (slice i n xs) else Inl OutOfBounds)"

definition wr_bytes :: "'a list \<Rightarrow> nat \<Rightarrow> 'a list \<Rightarrow> fault + 'a list" where
  "wr_bytes xs i ys =
     (if i + length ys \<le> length xs then Inr (write_at xs i ys) else Inl BufferOverflow)"

lemma rd_ok [simp, comp_simps]: "i < length xs \<Longrightarrow> rd xs i = Inr (xs ! i)"
  by (simp add: rd_def)

lemma rd_bytes_ok [simp, comp_simps]: "i + n \<le> length xs \<Longrightarrow> rd_bytes xs i n = Inr (slice i n xs)"
  by (simp add: rd_bytes_def)

lemma wr_bytes_ok [simp, comp_simps]:
  "i + length ys \<le> length xs \<Longrightarrow> wr_bytes xs i ys = Inr (write_at xs i ys)"
  by (simp add: wr_bytes_def)

lemma rd_Inr_iff [comp_simps]: "rd xs i = Inr x \<longleftrightarrow> i < length xs \<and> x = xs ! i"
  by (auto simp: rd_def)

text \<open>
  C strings: a NUL-terminated string is modelled by the bytes before its terminator.
  \<open>strncpy_field n s\<close> is \<open>memset(dst, 0, n); strncpy(dst, s, n)\<close> on a field of n bytes.
\<close>

definition strncpy_field :: "nat \<Rightarrow> bytes \<Rightarrow> bytes" where
  "strncpy_field n s = take n s @ replicate (n - length s) 0"

lemma length_strncpy_field [simp, wire_simps]: "length (strncpy_field n s) = n"
  by (simp add: strncpy_field_def)

definition ascii :: "string \<Rightarrow> bytes" where
  "ascii s = map (\<lambda>c. of_nat (of_char c)) s"

lemma length_ascii [simp, wire_simps]: "length (ascii s) = length s"
  by (simp add: ascii_def)

section \<open>Word facts\<close>

lemma unat_lt_u8 [simp]: "unat (x :: u8) < 256"
  by (rule order.strict_trans2 [OF unsigned_less]) simp

lemma unat_lt_u16 [simp]: "unat (x :: u16) < 65536"
  by (rule order.strict_trans2 [OF unsigned_less]) simp

lemma unat_lt_u32: "unat (x :: u32) < 4294967296"
  by (rule order.strict_trans2 [OF unsigned_less]) simp

lemma unat_u16_add: "unat (x :: u16) + unat y < 65536 \<Longrightarrow> unat (x + y) = unat x + unat y"
  using unat_add_lem [of x y] by simp

lemma unat_of_nat_u16 [simp]: "n < 65536 \<Longrightarrow> unat (of_nat n :: u16) = n"
  by (simp add: unat_of_nat take_bit_eq_mod)

lemma unat_of_nat_u8 [simp]: "n < 256 \<Longrightarrow> unat (of_nat n :: u8) = n"
  by (simp add: unat_of_nat take_bit_eq_mod)

section \<open>Events\<close>

text \<open>
  What the firmware does to the world outside its memory. \<open>TxFrame\<close> is a frame handed
  to a service's send callback; \<open>WsSend\<close> is a frame given to the WebSocket client, \<open>UdpTo\<close> a datagram with its
  address and port.
\<close>

datatype event =
    TxFrame bytes
  | WsSend bytes
  | UdpSend bytes
  | UdpTo bytes u16 bytes
  | GpioSet nat bool
  | GpioIntr bool
  | BleNotify string
  | TimerStart
  | TimerStop
  | DelayMs nat
  | Restart
  | FlashBegin
  | FlashWrite bytes
  | FlashAbort
  | FlashEnd
  | SetBootPartition
  | SpawnTask string
  | BleAdvertise bytes
  | WifiConnect
  | WifiDisconnect
  | WsStart bytes
  | WsStop
  | WsDestroy

section \<open>A step function with an invariant\<close>

text \<open>
  The contract of a component that reacts to events one after the other: each step keeps
  its invariant. Every run then keeps it, and every state passed through has it.
\<close>

locale machine =
  fixes step :: "'s \<Rightarrow> 'e \<Rightarrow> 's"
    and inv :: "'s \<Rightarrow> bool"
  assumes step_inv: "inv s \<Longrightarrow> inv (step s e)"
begin

lemma run_inv: "inv s \<Longrightarrow> inv (foldl step s es)"
  by (induction es arbitrary: s) (auto intro: step_inv)

lemma run_prefix_inv: "inv s \<Longrightarrow> inv (foldl step s (take n es))"
  by (rule run_inv)

end

section \<open>Enumerations and their byte codes\<close>

text \<open>
  The C code casts a received byte to an enum and switches on it. \<open>code\<close> gives an
  enumerator its value, \<open>decode\<close> is the switch: \<open>None\<close> is its default branch.
\<close>

locale enum_codec =
  fixes code :: "'e \<Rightarrow> u8"
    and decode :: "u8 \<Rightarrow> 'e option"
  assumes decode_code: "decode (code x) = Some x"
    and code_decode: "decode b = Some x \<Longrightarrow> code x = b"
begin

lemma code_inj: "code x = code y \<longleftrightarrow> x = y"
  by (metis decode_code option.inject)

lemma decode_iff: "decode b = Some x \<longleftrightarrow> b = code x"
  using decode_code code_decode by auto

lemma decode_None_iff: "decode b = None \<longleftrightarrow> b \<notin> range code"
  using decode_iff by (metis not_None_eq rangeE rangeI)

end

end
