(* ===== verification/Bytes.thy ===== *)
theory Bytes
  imports Prelude
begin

text \<open>
  The byte-order helpers of \<open>main/ykp_core/ykp_packet.c\<close> (the same \<open>write_u32_be\<close> is
  repeated in \<open>ykp_security.c\<close>). A writer is modelled by the bytes it stores at its
  pointer, a reader by the value it computes from the bytes at its pointer.
\<close>

definition write_u16_be :: "u16 \<Rightarrow> bytes" where
  "write_u16_be v = [ucast (drop_bit 8 v AND 0xFF), ucast (v AND 0xFF)]"

definition write_u32_be :: "u32 \<Rightarrow> bytes" where
  "write_u32_be v =
     [ucast (drop_bit 24 v AND 0xFF), ucast (drop_bit 16 v AND 0xFF),
      ucast (drop_bit 8 v AND 0xFF), ucast (v AND 0xFF)]"

definition read_u16_be :: "u8 \<Rightarrow> u8 \<Rightarrow> u16" where
  "read_u16_be p0 p1 = push_bit 8 (ucast p0) OR ucast p1"

definition read_u32_be :: "u8 \<Rightarrow> u8 \<Rightarrow> u8 \<Rightarrow> u8 \<Rightarrow> u32" where
  "read_u32_be p0 p1 p2 p3 =
     push_bit 24 (ucast p0) OR push_bit 16 (ucast p1) OR push_bit 8 (ucast p2) OR ucast p3"

text \<open>\<open>cbor_encode_uint\<close> and \<open>ykp_tlv_read_uint64\<close> do the same for 64 bits with a loop.\<close>

definition be64_bytes :: "u64 \<Rightarrow> bytes" where
  "be64_bytes v = map (\<lambda>i. ucast (drop_bit (i * 8) v AND 0xFF)) [7, 6, 5, 4, 3, 2, 1, 0]"

text \<open>\<open>memcpy\<close> of a \<open>uint32_t\<close> or \<open>uint16_t\<close> on the little-endian target.\<close>

definition le32 :: "u32 \<Rightarrow> bytes" where
  "le32 v = [ucast v, ucast (drop_bit 8 v), ucast (drop_bit 16 v), ucast (drop_bit 24 v)]"

definition le16 :: "u16 \<Rightarrow> bytes" where
  "le16 v = [ucast v, ucast (drop_bit 8 v)]"

lemma length_le [simp, wire_simps]: "length (le32 v) = 4" "length (le16 w) = 2"
  by (simp_all add: le32_def le16_def)

lemma length_write_be [simp, wire_simps]:
  "length (write_u16_be v) = 2" "length (write_u32_be w) = 4" "length (be64_bytes x) = 8"
  by (simp_all add: write_u16_be_def write_u32_be_def be64_bytes_def)

section \<open>Round trips\<close>

lemma ucast_and_255 [simp]: "(ucast ((x :: 'a::len word) AND 0xFF) :: u8) = ucast x"
proof (rule bit_word_eqI)
  fix n assume "n < LENGTH(8)"
  have "bit (mask 8 :: 'a word) n" if "n < LENGTH('a)"
    using that \<open>n < LENGTH(8)\<close> by (simp add: bit_mask_iff)
  then have "bit (0xFF :: 'a word) n" if "n < LENGTH('a)"
    using that by (simp add: mask_eq_exp_minus_1)
  then show "bit (ucast (x AND 0xFF) :: u8) n = bit (ucast x :: u8) n"
    by (auto simp: bit_simps dest: bit_imp_le_length)
qed

lemma read_write_u16 [simp]: "read_u16_be (ucast (drop_bit 8 v)) (ucast v) = v"
  by (rule bit_word_eqI) (auto simp: read_u16_be_def bit_simps)

lemma read_write_u32 [simp]:
  "read_u32_be (ucast (drop_bit 24 v)) (ucast (drop_bit 16 v)) (ucast (drop_bit 8 v)) (ucast v) = v"
proof (rule bit_word_eqI)
  fix n :: nat assume "n < LENGTH(32)"
  then consider "n < 8" | "8 \<le> n" "n < 16" | "16 \<le> n" "n < 24" | "24 \<le> n" "n < 32" by fastforce
  then show "bit (read_u32_be (ucast (drop_bit 24 v)) (ucast (drop_bit 16 v))
      (ucast (drop_bit 8 v)) (ucast v)) n = bit v n"
    by cases (auto simp: read_u32_be_def bit_simps)
qed

lemma read_u16_be_write:
  "read_u16_be (write_u16_be v ! 0) (write_u16_be v ! 1) = v"
  by (simp add: write_u16_be_def)

lemma read_u32_be_write:
  "read_u32_be (write_u32_be v ! 0) (write_u32_be v ! 1) (write_u32_be v ! 2) (write_u32_be v ! 3) = v"
  by (simp add: write_u32_be_def numeral_2_eq_2 numeral_3_eq_3)

lemma write_u32_be_inj: "write_u32_be v = write_u32_be w \<longleftrightarrow> v = w"
  by (metis read_u32_be_write)

lemma write_u16_be_inj: "write_u16_be v = write_u16_be w \<longleftrightarrow> v = w"
  by (metis read_u16_be_write)

end
