(* ===== verification/Cbor.thy ===== *)
theory Cbor
  imports Bytes
begin

text \<open>
  \<open>main/ykp_core/ykp_cbor.h\<close>: the CBOR encoder. The encoder state is the C struct
  \<open>cbor_encoder_t\<close>; \<open>size_t\<close> values (buffer sizes below 65536) are \<open>nat\<close>. A write that
  does not fit sets the sticky \<open>overflow\<close> flag and leaves the buffer alone.

  The contract of every encoding function is the locale \<open>appender\<close>: with room for the
  value's encoding it appends exactly that encoding, without room it sets \<open>overflow\<close>, and
  it never writes outside the buffer nor changes the bytes already written. The functions
  are interpreted below with the encodings of RFC 8949 (\<open>uint_bytes\<close>, \<open>int_bytes\<close>, ...).
\<close>

record cbor_encoder =
  enc_buf :: bytes
  enc_size :: nat
  enc_len :: nat
  enc_overflow :: bool

definition cbor_encoder_init :: "bytes \<Rightarrow> nat \<Rightarrow> cbor_encoder" where
  "cbor_encoder_init buf sz =
     \<lparr>enc_buf = buf, enc_size = sz, enc_len = 0, enc_overflow = False\<rparr>"

definition cbor_write_byte :: "cbor_encoder \<Rightarrow> u8 \<Rightarrow> cbor_encoder" where
  "cbor_write_byte enc b =
     (if enc_len enc < enc_size enc
      then enc\<lparr>enc_buf := (enc_buf enc)[enc_len enc := b], enc_len := enc_len enc + 1\<rparr>
      else enc\<lparr>enc_overflow := True\<rparr>)"

definition cbor_write_bytes :: "cbor_encoder \<Rightarrow> bytes \<Rightarrow> nat \<Rightarrow> cbor_encoder" where
  "cbor_write_bytes enc data n =
     (if enc_len enc + n \<le> enc_size enc
      then enc\<lparr>enc_buf := write_at (enc_buf enc) (enc_len enc) (take n data),
               enc_len := enc_len enc + n\<rparr>
      else enc\<lparr>enc_overflow := True\<rparr>)"

definition cbor_encode_map_header :: "cbor_encoder \<Rightarrow> nat \<Rightarrow> cbor_encoder" where
  "cbor_encode_map_header enc pairs =
     (if pairs < 24 then cbor_write_byte enc (0xA0 OR of_nat pairs)
      else cbor_write_byte (cbor_write_byte enc 0xB8) (of_nat pairs))"

definition cbor_encode_key :: "cbor_encoder \<Rightarrow> u8 \<Rightarrow> cbor_encoder" where
  "cbor_encode_key enc key =
     (if key < 24 then cbor_write_byte enc key
      else cbor_write_byte (cbor_write_byte enc 0x18) key)"

definition cbor_encode_uint :: "cbor_encoder \<Rightarrow> u64 \<Rightarrow> cbor_encoder" where
  "cbor_encode_uint enc val =
     (if val < 24 then cbor_write_byte enc (ucast val)
      else if val \<le> 0xFF then cbor_write_byte (cbor_write_byte enc 0x18) (ucast val)
      else if val \<le> 0xFFFF then
        cbor_write_byte (cbor_write_byte (cbor_write_byte enc 0x19)
          (ucast (drop_bit 8 val AND 0xFF))) (ucast (val AND 0xFF))
      else if val \<le> 0xFFFFFFFF then
        cbor_write_byte (cbor_write_byte (cbor_write_byte (cbor_write_byte (cbor_write_byte enc 0x1A)
          (ucast (drop_bit 24 val AND 0xFF))) (ucast (drop_bit 16 val AND 0xFF)))
          (ucast (drop_bit 8 val AND 0xFF))) (ucast (val AND 0xFF))
      else
        foldl (\<lambda>e i. cbor_write_byte e (ucast (drop_bit (i * 8) val AND 0xFF)))
          (cbor_write_byte enc 0x1B) [7, 6, 5, 4, 3, 2, 1, 0])"

text \<open>\<open>int64_t\<close> values are words read as signed; \<open>-1 - val\<close> is computed on the word.\<close>

definition cbor_encode_int :: "cbor_encoder \<Rightarrow> u64 \<Rightarrow> cbor_encoder" where
  "cbor_encode_int enc val =
     (if 0 \<le> sint val then cbor_encode_uint enc val
      else let uv = -1 - val in
        if uv < 24 then cbor_write_byte enc (0x20 OR ucast uv)
        else if uv \<le> 0xFF then cbor_write_byte (cbor_write_byte enc 0x38) (ucast uv)
        else if uv \<le> 0xFFFF then
          cbor_write_byte (cbor_write_byte (cbor_write_byte enc 0x39)
            (ucast (drop_bit 8 uv AND 0xFF))) (ucast (uv AND 0xFF))
        else
          cbor_write_byte (cbor_write_byte (cbor_write_byte (cbor_write_byte
            (cbor_write_byte enc 0x3A)
            (ucast (drop_bit 24 uv AND 0xFF))) (ucast (drop_bit 16 uv AND 0xFF)))
            (ucast (drop_bit 8 uv AND 0xFF))) (ucast (uv AND 0xFF)))"

definition cbor_encode_bool :: "cbor_encoder \<Rightarrow> bool \<Rightarrow> cbor_encoder" where
  "cbor_encode_bool enc val = cbor_write_byte enc (if val then 0xF5 else 0xF4)"

text \<open>\<open>str\<close> is the C string's bytes before its terminator, so \<open>strlen\<close> is its length.\<close>

definition cbor_encode_str :: "cbor_encoder \<Rightarrow> bytes \<Rightarrow> cbor_encoder" where
  "cbor_encode_str enc str =
     (let len = length str;
          enc1 = (if len < 24 then cbor_write_byte enc (0x60 OR of_nat len)
                  else cbor_write_byte (cbor_write_byte enc 0x78) (of_nat len))
      in cbor_write_bytes enc1 str len)"

definition cbor_encode_bytes :: "cbor_encoder \<Rightarrow> bytes \<Rightarrow> nat \<Rightarrow> cbor_encoder" where
  "cbor_encode_bytes enc data len =
     (let enc1 = (if len < 24 then cbor_write_byte enc (0x40 OR of_nat len)
                  else cbor_write_byte (cbor_write_byte enc 0x58) (of_nat len))
      in cbor_write_bytes enc1 data len)"

section \<open>What the encoders emit\<close>

text \<open>
  \<open>enc_wf\<close>: the declared size lies inside the array and the fill level inside the size.
  \<open>enc_out\<close> is what has been written so far. \<open>emit\<close> writes a list of bytes one by one.
\<close>

definition enc_wf :: "cbor_encoder \<Rightarrow> bool" where
  "enc_wf e \<longleftrightarrow> enc_size e \<le> length (enc_buf e) \<and> enc_len e \<le> enc_size e"

definition enc_out :: "cbor_encoder \<Rightarrow> bytes" where
  "enc_out e = take (enc_len e) (enc_buf e)"

definition enc_room :: "cbor_encoder \<Rightarrow> nat" where
  "enc_room e = enc_size e - enc_len e"

definition emit :: "cbor_encoder \<Rightarrow> bytes \<Rightarrow> cbor_encoder" where
  "emit e bs = foldl cbor_write_byte e bs"

text \<open>What one encoding step may do to the encoder, whether or not the value fits.\<close>

definition enc_ext :: "cbor_encoder \<Rightarrow> cbor_encoder \<Rightarrow> bool" where
  "enc_ext e e' \<longleftrightarrow>
     enc_size e' = enc_size e \<and> length (enc_buf e') = length (enc_buf e) \<and>
     enc_len e \<le> enc_len e' \<and> take (enc_len e) (enc_buf e') = enc_out e \<and>
     (enc_overflow e \<longrightarrow> enc_overflow e')"

locale appender =
  fixes put :: "cbor_encoder \<Rightarrow> 'v \<Rightarrow> cbor_encoder"
    and enc_of :: "'v \<Rightarrow> bytes"
  assumes put_wf: "enc_wf e \<Longrightarrow> enc_wf (put e v)"
    and put_ext: "enc_wf e \<Longrightarrow> enc_ext e (put e v)"
    and put_fits: "enc_wf e \<Longrightarrow> length (enc_of v) \<le> enc_room e \<Longrightarrow>
      enc_out (put e v) = enc_out e @ enc_of v \<and> enc_overflow (put e v) = enc_overflow e"
    and put_over: "enc_wf e \<Longrightarrow> enc_room e < length (enc_of v) \<Longrightarrow> enc_overflow (put e v)"
begin

lemma put_len:
  assumes "enc_wf e" "length (enc_of v) \<le> enc_room e"
  shows "enc_len (put e v) = enc_len e + length (enc_of v)"
proof -
  have "enc_len x \<le> length (enc_buf x)" if "enc_wf x" for x
    using that by (simp add: enc_wf_def)
  then have "length (enc_out x) = enc_len x" if "enc_wf x" for x
    using that by (simp add: enc_out_def)
  then show ?thesis
    using assms put_fits [OF assms] put_wf [OF assms(1), of v] by (metis length_append)
qed

lemma put_overflow_iff:
  "enc_wf e \<Longrightarrow> \<not> enc_overflow e \<Longrightarrow> enc_overflow (put e v) \<longleftrightarrow> enc_room e < length (enc_of v)"
  by (meson linorder_not_le put_fits put_over)

end

subsection \<open>Writing single bytes\<close>

lemma write_byte_ext: "enc_wf e \<Longrightarrow> enc_ext e (cbor_write_byte e b)"
  by (auto simp: enc_ext_def cbor_write_byte_def enc_out_def enc_wf_def)

lemma write_byte_wf: "enc_wf e \<Longrightarrow> enc_wf (cbor_write_byte e b)"
  by (auto simp: cbor_write_byte_def enc_wf_def)

lemma enc_ext_refl [simp]: "enc_ext e e"
  by (simp add: enc_ext_def enc_out_def)

lemma enc_ext_trans:
  assumes "enc_ext a b" "enc_ext b c" shows "enc_ext a c"
proof -
  have "take (enc_len a) (enc_buf c) = take (enc_len a) (take (enc_len b) (enc_buf c))"
    using assms(1) by (simp add: enc_ext_def min_def)
  also have "\<dots> = take (enc_len a) (enc_buf b)"
    using assms by (simp add: enc_ext_def enc_out_def min_def)
  finally show ?thesis
    using assms by (simp add: enc_ext_def)
qed

lemma write_byte_out:
  "enc_wf e \<Longrightarrow> 0 < enc_room e \<Longrightarrow>
   enc_out (cbor_write_byte e b) = enc_out e @ [b] \<and>
   enc_overflow (cbor_write_byte e b) = enc_overflow e \<and>
   enc_room (cbor_write_byte e b) = enc_room e - 1"
  by (auto simp: cbor_write_byte_def enc_out_def enc_wf_def enc_room_def take_Suc_conv_app_nth)

lemma write_byte_full:
  "enc_room e = 0 \<Longrightarrow> enc_overflow (cbor_write_byte e b) \<and> enc_room (cbor_write_byte e b) = 0"
  by (auto simp: cbor_write_byte_def enc_room_def)

interpretation byte_put: appender cbor_write_byte "\<lambda>b. [b]"
  by unfold_locales
    (auto simp: write_byte_wf write_byte_ext write_byte_out write_byte_full)

lemma emit_simps [simp]:
  "emit e [] = e" "emit e (b # bs) = emit (cbor_write_byte e b) bs"
  by (simp_all add: emit_def)

lemma emit_wf: "enc_wf e \<Longrightarrow> enc_wf (emit e bs)"
  by (induction bs arbitrary: e) (auto simp: write_byte_wf)

lemma emit_ext: "enc_wf e \<Longrightarrow> enc_ext e (emit e bs)"
  by (induction bs arbitrary: e)
    (auto intro: enc_ext_trans write_byte_ext write_byte_wf)

lemma emit_fits:
  "enc_wf e \<Longrightarrow> length bs \<le> enc_room e \<Longrightarrow>
   enc_out (emit e bs) = enc_out e @ bs \<and> enc_overflow (emit e bs) = enc_overflow e"
proof (induction bs arbitrary: e)
  case (Cons b bs)
  have "0 < enc_room e" using Cons.prems(2) by simp
  note w = write_byte_out [OF Cons.prems(1) this, of b]
  show ?case
    using Cons.IH [of "cbor_write_byte e b"] Cons.prems w by (auto simp: write_byte_wf)
qed simp

lemma emit_over: "enc_wf e \<Longrightarrow> enc_room e < length bs \<Longrightarrow> enc_overflow (emit e bs)"
proof (induction bs arbitrary: e)
  case (Cons b bs)
  show ?case
  proof (cases "enc_room e = 0")
    case True
    have "enc_overflow (cbor_write_byte e b)" using True write_byte_full by blast
    moreover have "enc_ext (cbor_write_byte e b) (emit (cbor_write_byte e b) bs)"
      using Cons.prems by (simp add: emit_ext write_byte_wf)
    ultimately show ?thesis by (simp add: enc_ext_def)
  next
    case False
    then show ?thesis
      using Cons write_byte_out [of e b] by (auto simp: write_byte_wf)
  qed
qed simp

interpretation emits: appender emit "\<lambda>bs. bs"
  by unfold_locales (auto simp: emit_wf emit_ext emit_fits emit_over)

subsection \<open>Writing a run of bytes at once\<close>

lemma write_bytes_ext: "enc_wf e \<Longrightarrow> enc_ext e (cbor_write_bytes e d (length d))"
  by (auto simp: enc_ext_def cbor_write_bytes_def enc_out_def enc_wf_def)

lemma write_bytes_wf: "enc_wf e \<Longrightarrow> enc_wf (cbor_write_bytes e d (length d))"
  by (auto simp: cbor_write_bytes_def enc_wf_def)

lemma write_bytes_out:
  "enc_wf e \<Longrightarrow> length d \<le> enc_room e \<Longrightarrow>
   enc_out (cbor_write_bytes e d (length d)) = enc_out e @ d \<and>
   enc_overflow (cbor_write_bytes e d (length d)) = enc_overflow e"
  by (auto simp: cbor_write_bytes_def enc_out_def enc_wf_def enc_room_def take_write_at_end)

lemma write_bytes_over:
  "enc_wf e \<Longrightarrow> enc_room e < length d \<Longrightarrow> enc_overflow (cbor_write_bytes e d (length d))"
  by (auto simp: cbor_write_bytes_def enc_wf_def enc_room_def)

interpretation run_put: appender "\<lambda>e d. cbor_write_bytes e d (length d)" "\<lambda>d. d"
  by unfold_locales (auto simp: write_bytes_wf write_bytes_ext write_bytes_out write_bytes_over)

subsection \<open>One encoder after another\<close>

locale appender_pair = fst: appender put1 enc1 + snd: appender put2 enc2
  for put1 :: "cbor_encoder \<Rightarrow> 'v \<Rightarrow> cbor_encoder" and enc1 :: "'v \<Rightarrow> bytes"
    and put2 :: "cbor_encoder \<Rightarrow> 'w \<Rightarrow> cbor_encoder" and enc2 :: "'w \<Rightarrow> bytes"
begin

definition put_both :: "cbor_encoder \<Rightarrow> 'v \<times> 'w \<Rightarrow> cbor_encoder" where
  "put_both e p = put2 (put1 e (Product_Type.fst p)) (Product_Type.snd p)"

lemma put_both_ext: "enc_wf e \<Longrightarrow> enc_ext e (put_both e p)"
  unfolding put_both_def by (meson enc_ext_trans fst.put_ext fst.put_wf snd.put_ext)

lemma room_after:
  assumes "enc_wf e" "length (enc1 v) \<le> enc_room e"
  shows "enc_room (put1 e v) = enc_room e - length (enc1 v)"
  using fst.put_len [OF assms] fst.put_ext [OF assms(1), of v]
  by (simp add: enc_room_def enc_ext_def)

lemma put_both_fits:
  assumes "enc_wf e" "length (enc1 v) + length (enc2 w) \<le> enc_room e"
  shows "enc_out (put_both e (v, w)) = enc_out e @ enc1 v @ enc2 w \<and>
    enc_overflow (put_both e (v, w)) = enc_overflow e"
proof -
  have 1: "length (enc1 v) \<le> enc_room e" using assms(2) by simp
  have "length (enc2 w) \<le> enc_room (put1 e v)" using room_after [OF assms(1) 1] assms(2) by simp
  then show ?thesis
    using fst.put_fits [OF assms(1) 1] snd.put_fits [OF fst.put_wf [OF assms(1)]]
    by (simp add: put_both_def)
qed

lemma put_both_over:
  assumes "enc_wf e" "enc_room e < length (enc1 v) + length (enc2 w)"
  shows "enc_overflow (put_both e (v, w))"
proof (cases "length (enc1 v) \<le> enc_room e")
  case True
  then have "enc_room (put1 e v) < length (enc2 w)"
    using room_after [OF assms(1) True] assms(2) by simp
  then show ?thesis using snd.put_over [OF fst.put_wf [OF assms(1)]] by (simp add: put_both_def)
next
  case False
  then have "enc_overflow (put1 e v)" using assms(1) by (simp add: fst.put_over)
  then show ?thesis
    using snd.put_ext [OF fst.put_wf [OF assms(1)]] by (simp add: put_both_def enc_ext_def)
qed

end

sublocale appender_pair \<subseteq> both: appender put_both
  "\<lambda>p. enc1 (Product_Type.fst p) @ enc2 (Product_Type.snd p)"
proof unfold_locales
  show "enc_wf e \<Longrightarrow> enc_wf (put_both e p)" for e p
    by (simp add: put_both_def fst.put_wf snd.put_wf)
qed (auto simp: put_both_ext put_both_fits put_both_over)

interpretation head_run: appender_pair emit "\<lambda>bs. bs"
  "\<lambda>e d. cbor_write_bytes e d (length d)" "\<lambda>d. d"
  by unfold_locales

section \<open>The encodings of RFC 8949 and the functions that emit them\<close>

definition cbor_head :: "u8 \<Rightarrow> u64 \<Rightarrow> bytes" where
  "cbor_head major v =
     (if v < 24 then [major OR ucast v]
      else if v \<le> 0xFF then [major OR 0x18, ucast v]
      else if v \<le> 0xFFFF then (major OR 0x19) # write_u16_be (ucast v)
      else if v \<le> 0xFFFFFFFF then (major OR 0x1A) # write_u32_be (ucast v)
      else (major OR 0x1B) # be64_bytes v)"

definition key_bytes :: "u8 \<Rightarrow> bytes" where
  "key_bytes k = (if k < 24 then [k] else [0x18, k])"

definition uint_bytes :: "u64 \<Rightarrow> bytes" where
  "uint_bytes v = cbor_head 0x00 v"

definition int32_bytes :: "32 word \<Rightarrow> bytes" where
  "int32_bytes v =
     (if 0 \<le> sint v then cbor_head 0x00 (ucast v) else cbor_head 0x20 (ucast (-1 - v)))"

definition str_head :: "u8 \<Rightarrow> nat \<Rightarrow> bytes" where
  "str_head major n = (if n < 24 then [major OR of_nat n] else [major OR 0x18, of_nat n])"

definition str_bytes :: "u8 \<Rightarrow> bytes \<Rightarrow> bytes" where
  "str_bytes major s = str_head major (length s) @ s"

lemma length_cbor_head: "length (cbor_head m v) \<le> 9"
  by (simp add: cbor_head_def)

lemma encode_key_emit: "cbor_encode_key e k = emit e (key_bytes k)"
  by (simp add: cbor_encode_key_def key_bytes_def)

lemma ucast_drop_narrow [simp]:
  "(ucast (drop_bit 8 (ucast (v :: u64) :: u16)) :: u8) = ucast (drop_bit 8 v)"
  "(ucast (ucast v :: u16) :: u8) = ucast v"
  "(ucast (drop_bit 8 (ucast v :: u32)) :: u8) = ucast (drop_bit 8 v)"
  "(ucast (drop_bit 16 (ucast v :: u32)) :: u8) = ucast (drop_bit 16 v)"
  "(ucast (drop_bit 24 (ucast v :: u32)) :: u8) = ucast (drop_bit 24 v)"
  "(ucast (ucast v :: u32) :: u8) = ucast v"
  by (auto intro!: bit_word_eqI simp: bit_simps)

lemma cbor_head_cases:
  fixes v :: u64
  obtains (tiny) "v < 24" | (one) "\<not> v < 24" "v \<le> 0xFF" | (two) "\<not> v < 24" "\<not> v \<le> 0xFF" "v \<le> 0xFFFF"
  | (four) "\<not> v < 24" "\<not> v \<le> 0xFF" "\<not> v \<le> 0xFFFF" "v \<le> 0xFFFFFFFF"
  | (eight) "\<not> v < 24" "\<not> v \<le> 0xFF" "\<not> v \<le> 0xFFFF" "\<not> v \<le> 0xFFFFFFFF"
  by blast

lemma encode_uint_emit: "cbor_encode_uint e v = emit e (uint_bytes v)"
  by (cases v rule: cbor_head_cases)
    (simp_all add: cbor_encode_uint_def uint_bytes_def cbor_head_def write_u16_be_def
      write_u32_be_def be64_bytes_def)

lemma sint_neg_iff: "sint (v :: u32) < 0 \<longleftrightarrow> bit v 31"
  by (simp add: sint_uint not_le signed_take_bit_negative_iff bit_uint_iff)

lemma scast_nonneg: "0 \<le> sint (v :: u32) \<Longrightarrow> (scast v :: u64) = ucast v"
proof (rule bit_word_eqI)
  fix n assume "0 \<le> sint v" "n < LENGTH(64)"
  then have "\<not> bit v 31" using sint_neg_iff [of v] by simp
  then show "bit (scast v :: u64) n = bit (ucast v :: u64) n"
    using \<open>n < LENGTH(64)\<close> bit_imp_le_length [of v n]
    by (cases "n = 31") (auto simp: bit_simps min_def)
qed

lemma not_scast_neg: "sint (v :: u32) < 0 \<Longrightarrow> NOT (scast v :: u64) = ucast (NOT v)"
proof (rule bit_word_eqI)
  fix n assume "sint v < 0" "n < LENGTH(64)"
  then have b: "bit v 31" using sint_neg_iff [of v] by simp
  then show "bit (NOT (scast v :: u64)) n = bit (ucast (NOT v) :: u64) n"
    using \<open>n < LENGTH(64)\<close> by (cases "n = 31") (auto simp: bit_simps min_def not_less)
qed

lemma minus_one_minus: "-1 - (x :: 'a::len word) = NOT x"
  by (simp add: not_eq_complement)

lemma ucast32_le: "(ucast (v :: u32) :: u64) \<le> 0xFFFFFFFF"
  using unat_lt_u32 [of v] by (simp add: word_le_nat_alt unsigned_ucast_eq take_bit_eq_mod)

lemma sint_scast: "sint (scast (v :: u32) :: u64) = sint v"
  using sint_greater_eq [of v] sint_less [of v]
  by (simp add: signed_scast_eq signed_take_bit_int_eq_self)

lemma encode_int32_emit: "cbor_encode_int e (scast (v :: 32 word)) = emit e (int32_bytes v)"
proof (cases "0 \<le> sint v")
  case True
  then have "cbor_encode_int e (scast v) = cbor_encode_uint e (scast v)"
    by (simp add: cbor_encode_int_def sint_scast)
  with True show ?thesis
    by (simp add: encode_uint_emit uint_bytes_def int32_bytes_def scast_nonneg)
next
  case False
  define uv :: u64 where "uv = ucast (NOT v)"
  have uv: "-1 - (scast v :: u64) = uv"
    using False by (simp add: uv_def minus_one_minus not_scast_neg)
  have "uv \<le> 0xFFFFFFFF" by (simp add: uv_def ucast32_le)
  then show ?thesis using False uv unfolding uv_def [symmetric]
    by (cases uv rule: cbor_head_cases)
      (simp_all add: cbor_encode_int_def sint_scast int32_bytes_def Let_def minus_one_minus
        cbor_head_def write_u16_be_def write_u32_be_def flip: uv_def)
qed

lemma encode_str_both: "cbor_encode_str e s = head_run.put_both e (str_head 0x60 (length s), s)"
  by (simp add: cbor_encode_str_def head_run.put_both_def str_head_def Let_def)

lemma encode_bytes_both:
  "cbor_encode_bytes e d (length d) = head_run.put_both e (str_head 0x40 (length d), d)"
  by (simp add: cbor_encode_bytes_def head_run.put_both_def str_head_def Let_def)

interpretation key_put: appender cbor_encode_key key_bytes
  by unfold_locales (auto simp: encode_key_emit emit_wf emit_ext emit_fits emit_over)

interpretation uint_put: appender cbor_encode_uint uint_bytes
  by unfold_locales (auto simp: encode_uint_emit emit_wf emit_ext emit_fits emit_over)

interpretation int32_put: appender "\<lambda>e v. cbor_encode_int e (scast v)" int32_bytes
  by unfold_locales (auto simp: encode_int32_emit emit_wf emit_ext emit_fits emit_over)

interpretation str_put: appender cbor_encode_str "str_bytes 0x60"
  by unfold_locales
    (auto simp: encode_str_both str_bytes_def head_run.both.put_wf head_run.both.put_ext
      head_run.both.put_fits head_run.both.put_over)

interpretation bytes_put: appender "\<lambda>e d. cbor_encode_bytes e d (length d)" "str_bytes 0x40"
  by unfold_locales
    (auto simp: encode_bytes_both str_bytes_def head_run.both.put_wf head_run.both.put_ext
      head_run.both.put_fits head_run.both.put_over)

end
