(* ===== verification/Float16.thy ===== *)
theory Float16
  imports Cbor
begin

text \<open>
  Half-precision floats: \<open>float32_to_float16\<close> and \<open>cbor_encode_float16\<close> of
  \<open>main/ykp_core/ykp_cbor.h\<close>, and the decoding inside \<open>ykp_tlv_read_float\<close> of
  \<open>main/ykp_core/ykp_packet.c\<close>. A C \<open>float\<close> is its 32 bits, which is what the code works
  on after \<open>memcpy\<close>. The signed exponents are \<open>int\<close>: they stay within -127 and 143.

  The decoder's normalising loop is a \<open>partial_function\<close>: it would not end on a
  mantissa without a bit below 11. \<open>normalise_returns\<close> shows that it ends on every
  mantissa the decoder gives it.
\<close>

type_synonym float_bits = u32

definition float32_to_float16 :: "float_bits \<Rightarrow> u16" where
  "float32_to_float16 f =
     (let sign = drop_bit 16 f AND 0x8000;
          exponent = uint (drop_bit 23 f AND 0xFF) - 127;
          mantissa = f AND 0x007FFFFF
      in if drop_bit 23 f AND 0xFF = 0 then ucast sign
         else if drop_bit 23 f AND 0xFF = 0xFF then
           ucast (sign OR 0x7C00 OR (if mantissa \<noteq> 0 then 0x0200 else 0))
         else let new_exp = exponent + 15 in
           if 31 \<le> new_exp then ucast (sign OR 0x7C00)
           else if new_exp \<le> 0 then
             (if new_exp < -10 then ucast sign
              else let mantissa = drop_bit (nat (1 - new_exp)) (mantissa OR 0x00800000)
                in ucast (sign OR drop_bit 13 mantissa))
           else ucast (sign OR push_bit 10 (word_of_int new_exp) OR drop_bit 13 mantissa))"

definition cbor_encode_float16 :: "cbor_encoder \<Rightarrow> float_bits \<Rightarrow> cbor_encoder" where
  "cbor_encode_float16 enc val =
     (let f16 = float32_to_float16 val
      in cbor_write_byte (cbor_write_byte (cbor_write_byte enc 0xF9)
           (ucast (drop_bit 8 f16 AND 0xFF))) (ucast (f16 AND 0xFF)))"

partial_function (option) normalise :: "u32 \<Rightarrow> int \<Rightarrow> (u32 \<times> int) option" where
  "normalise mantissa exponent =
     (if mantissa AND 0x0400 = 0 then normalise (push_bit 1 mantissa) (exponent - 1)
      else Some (mantissa, exponent))"

declare normalise.simps [code]

definition float16_to_float32 :: "u16 \<Rightarrow> float_bits option" where
  "float16_to_float32 f16 =
     (let sign = push_bit 16 (ucast (f16 AND 0x8000));
          exponent = uint (drop_bit 10 (f16 AND 0x7C00));
          mantissa = ucast (f16 AND 0x03FF)
      in if exponent = 0 then
           (if mantissa = 0 then Some sign
            else map_option (\<lambda>(m, e).
                sign OR push_bit 23 (word_of_int e) OR push_bit 13 (m AND 0x03FF))
              (normalise mantissa (127 - 15)))
         else if exponent = 31 then Some (sign OR 0x7F800000 OR push_bit 13 mantissa)
         else Some (sign OR push_bit 23 (word_of_int (exponent - 15 + 127)) OR push_bit 13 mantissa))"

section \<open>Encoding a float\<close>

definition float16_bytes :: "float_bits \<Rightarrow> bytes" where
  "float16_bytes f = 0xF9 # write_u16_be (float32_to_float16 f)"

lemma encode_float16_emit: "cbor_encode_float16 e f = emit e (float16_bytes f)"
  by (simp add: cbor_encode_float16_def float16_bytes_def write_u16_be_def Let_def)

interpretation float_put: appender cbor_encode_float16 float16_bytes
  by unfold_locales (auto simp: encode_float16_emit emit_wf emit_ext emit_fits emit_over)

section \<open>The loop ends\<close>

lemma and_400: "(m :: u32) AND 0x400 = 0 \<longleftrightarrow> \<not> bit m 10"
proof -
  have "(0x400 :: u32) = push_bit 10 1" by simp
  then show ?thesis by (metis and_exp_eq_0_iff_not_bit mult_1 push_bit_eq_mult)
qed

text \<open>
  The loop shifts the mantissa until bit 10 is set: with the top bit of the mantissa at
  position \<open>10 - k\<close> it makes \<open>k\<close> turns.
\<close>

lemma normalise_shift:
  assumes "bit m (10 - k)" "k \<le> 10" "\<And>n. 10 - k < n \<Longrightarrow> n \<le> 10 \<Longrightarrow> \<not> bit m n"
  shows "normalise m e = Some (push_bit k m, e - int k)"
  using assms
proof (induction k arbitrary: m e)
  case 0
  then show ?case by (simp add: normalise.simps [of m] and_400)
next
  case (Suc k)
  then have nb: "\<not> bit m 10" by simp
  have "normalise (push_bit 1 m) (e - 1) = Some (push_bit k (push_bit 1 m), e - 1 - int k)"
  proof (rule Suc.IH)
    show "bit (push_bit 1 m) (10 - k)"
      unfolding bit_push_bit_iff using Suc.prems(1,2) by (simp, arith)
    show "k \<le> 10" using Suc.prems(2) by simp
    show "\<not> bit (push_bit 1 m) n" if "10 - k < n" "n \<le> 10" for n
      unfolding bit_push_bit_iff using Suc.prems(3) [of "n - 1"] that Suc.prems(2) by auto
  qed
  moreover have "push_bit k (push_bit 1 m) = push_bit (Suc k) m"
    by (simp add: push_bit_push_bit add.commute)
  ultimately show ?case using nb by (simp add: normalise.simps [of m] and_400)
qed

lemma normalise_top:
  assumes "(m :: u32) \<noteq> 0" "m < 0x400"
  obtains k where "1 \<le> k" "k \<le> 10" "bit m (10 - k)" "\<And>n. 10 - k < n \<Longrightarrow> \<not> bit m n"
proof -
  let ?B = "{n. bit m n}"
  have "\<not> bit m n" if "10 \<le> n" for n
  proof -
    have "unat m < 2 ^ 10" using assms(2) by (simp add: word_less_nat_alt)
    then have "drop_bit 10 (unat m) = 0" by (simp add: drop_bit_eq_div)
    then have "\<not> bit (drop_bit 10 (unat m)) (n - 10)" by simp
    then have "\<not> bit (unat m) n" using that by (simp add: bit_drop_bit_eq)
    then show ?thesis by (auto simp: bit_unsigned_iff dest: bit_imp_le_length)
  qed
  then have sub: "?B \<subseteq> {..<10}" using linorder_not_less by blast
  then have fin: "finite ?B" by (rule finite_subset) simp
  have ne: "?B \<noteq> {}" using assms(1) bit_eq_iff [of m 0] by auto
  define t where "t = Max ?B"
  have t: "bit m t" "t < 10" using Max_in [OF fin ne] sub by (auto simp: t_def)
  have top: "\<not> bit m n" if "t < n" for n using Max_ge [OF fin, of n] that leD unfolding t_def by blast
  show ?thesis by (rule that [of "10 - t"]) (use t top in auto)
qed

lemma normalise_returns:
  assumes "m \<noteq> 0" "m < 0x400"
  shows "\<exists>m' e'. normalise m e = Some (m', e')"
proof -
  obtain k where "k \<le> 10" "bit m (10 - k)" "\<And>n. 10 - k < n \<Longrightarrow> \<not> bit m n"
    using normalise_top [OF assms] by blast
  then show ?thesis using normalise_shift by blast
qed

section \<open>Normal numbers\<close>

text \<open>
  For a float whose exponent a half can hold (bias 127, \<open>113 .. 142\<close>), encoding and
  decoding drops the low 13 bits of the mantissa and nothing else.
\<close>

definition exp8 :: "float_bits \<Rightarrow> int" where
  "exp8 f = uint (drop_bit 23 f AND 0xFF)"

text \<open>Bits of the masks; bits of word numerals are those of the integer numerals.\<close>

lemma bit_mask_num [simp]:
  "bit (0xFF :: int) n \<longleftrightarrow> n < 8" "bit (0x7FFFFF :: int) n \<longleftrightarrow> n < 23"
  "bit (0x8000 :: int) n \<longleftrightarrow> n = 15" "bit (0x3FF :: int) n \<longleftrightarrow> n < 10"
  "bit (0x7C00 :: int) n \<longleftrightarrow> 10 \<le> n \<and> n < 15" "bit (0x1FFF :: int) n \<longleftrightarrow> n < 13"
  "bit (0x1F :: int) n \<longleftrightarrow> n < 5" "bit (0x80000000 :: int) n \<longleftrightarrow> n = 31"
  "bit (0x7FE000 :: int) n \<longleftrightarrow> 13 \<le> n \<and> n < 23"
  "bit (0x7F800000 :: int) n \<longleftrightarrow> 23 \<le> n \<and> n < 31"
proof -
  have m: "(0xFF :: int) = mask 8" "(0x7FFFFF :: int) = mask 23" "(0x8000 :: int) = push_bit 15 1"
    "(0x3FF :: int) = mask 10" "(0x7C00 :: int) = push_bit 10 (mask 5)" "(0x1FFF :: int) = mask 13"
    "(0x1F :: int) = mask 5" "(0x80000000 :: int) = push_bit 31 1"
    "(0x7FE000 :: int) = push_bit 13 (mask 10)" "(0x7F800000 :: int) = push_bit 23 (mask 8)"
    by (simp_all add: mask_eq_exp_minus_1)
  show "bit (0xFF :: int) n \<longleftrightarrow> n < 8" "bit (0x7FFFFF :: int) n \<longleftrightarrow> n < 23"
    "bit (0x8000 :: int) n \<longleftrightarrow> n = 15" "bit (0x3FF :: int) n \<longleftrightarrow> n < 10"
    "bit (0x7C00 :: int) n \<longleftrightarrow> 10 \<le> n \<and> n < 15" "bit (0x1FFF :: int) n \<longleftrightarrow> n < 13"
    "bit (0x1F :: int) n \<longleftrightarrow> n < 5" "bit (0x80000000 :: int) n \<longleftrightarrow> n = 31"
    "bit (0x7FE000 :: int) n \<longleftrightarrow> 13 \<le> n \<and> n < 23"
    "bit (0x7F800000 :: int) n \<longleftrightarrow> 23 \<le> n \<and> n < 31"
    unfolding m bit_push_bit_iff bit_mask_iff bit_1_iff by auto
qed

lemma bit_small_word:
  assumes "unat (w :: u32) < 2 ^ k" "k \<le> n" shows "\<not> bit w n"
proof -
  have "drop_bit k (unat w) = 0" using assms(1) by (simp add: drop_bit_eq_div)
  then have "\<not> bit (drop_bit k (unat w)) (n - k)" by simp
  then have "\<not> bit (unat w) n" using assms(2) by (simp add: bit_drop_bit_eq)
  then show ?thesis by (auto simp: bit_unsigned_iff dest: bit_imp_le_length)
qed

lemma normal_encode:
  assumes "113 \<le> exp8 f" "exp8 f \<le> 142"
  shows "float32_to_float16 f =
    ucast ((drop_bit 16 f AND 0x8000) OR push_bit 10 (word_of_int (exp8 f - 112)) OR
      drop_bit 13 (f AND 0x007FFFFF))"
proof -
  have "drop_bit 23 f AND 0xFF \<noteq> 0" "drop_bit 23 f AND 0xFF \<noteq> 0xFF"
    using assms by (auto simp: exp8_def)
  then show ?thesis
    using assms by (simp add: float32_to_float16_def exp8_def Let_def)
qed

lemma uint_of_exp [simp]: "0 \<le> x \<Longrightarrow> x < 256 \<Longrightarrow> uint (word_of_int x :: u32) = x"
  by (simp add: uint_word_of_int take_bit_eq_mod)

lemma uint_of_exp16 [simp]: "0 \<le> x \<Longrightarrow> x < 256 \<Longrightarrow> uint (word_of_int x :: u16) = x"
  by (simp add: uint_word_of_int take_bit_eq_mod)

lemma half_fields:
  fixes f :: u32 and x :: int
  assumes x: "0 \<le> x" "x < 32"
  defines "h \<equiv> ucast ((drop_bit 16 f AND 0x8000) OR push_bit 10 (word_of_int x) OR
    drop_bit 13 (f AND 0x007FFFFF)) :: u16"
  shows "drop_bit 10 (h AND 0x7C00) = word_of_int x"
    and "push_bit 16 (ucast (h AND 0x8000)) = (f AND 0x80000000)"
    and "push_bit 13 (ucast (h AND 0x3FF)) = (f AND 0x7FE000)"
proof -
  have "take_bit 5 x = x" using x by (simp add: take_bit_eq_mod)
  then have x5: "bit x n \<Longrightarrow> n < 5" for n by (metis bit_take_bit_iff)
  have bh: "bit h n = (n < 16 \<and> (n = 15 \<and> bit f 31 \<or> 10 \<le> n \<and> n < 15 \<and> bit x (n - 10) \<or>
      n < 10 \<and> bit f (13 + n)))" for n
    unfolding h_def by (cases "n = 15") (auto simp: bit_simps dest: x5)
  show "drop_bit 10 (h AND 0x7C00) = word_of_int x"
    by (rule bit_word_eqI) (auto simp: bit_simps bh dest: x5)
  show "push_bit 16 (ucast (h AND 0x8000)) = (f AND 0x80000000)"
  proof (rule bit_word_eqI)
    fix n :: nat assume "n < LENGTH(32)"
    then show "bit (push_bit 16 (ucast (h AND 0x8000)) :: u32) n = bit (f AND 0x80000000) n"
      by (cases "n = 31") (auto simp: bit_simps bh)
  qed
  show "push_bit 13 (ucast (h AND 0x3FF)) = (f AND 0x7FE000)"
    by (rule bit_word_eqI) (auto simp: bit_simps bh)
qed

lemma normal_truncates:
  assumes "113 \<le> exp8 f" "exp8 f \<le> 142"
  shows "float16_to_float32 (float32_to_float16 f) = Some (f AND NOT 0x1FFF)"
proof -
  let ?x = "exp8 f - 112"
  have x: "0 \<le> ?x" "?x < 32" using assms by simp_all
  note hf = half_fields [OF x, of f]
  have "uint (word_of_int ?x :: u16) = ?x" using x by (intro uint_of_exp16) simp_all
  moreover have "?x \<noteq> 0" "?x \<noteq> 31" "?x - 15 + 127 = exp8 f" using assms by simp_all
  ultimately have "float16_to_float32 (float32_to_float16 f) =
      Some ((f AND 0x80000000) OR push_bit 23 (word_of_int (exp8 f)) OR
        (f AND 0x7FE000))"
    by (simp only: float16_to_float32_def normal_encode [OF assms] hf Let_def if_False)
  moreover have "word_of_int (exp8 f) = drop_bit 23 f AND 0xFF"
    by (simp add: exp8_def)
  moreover have "(f AND 0x80000000) OR push_bit 23 (drop_bit 23 f AND 0xFF) OR
      (f AND 0x7FE000) = f AND NOT 0x1FFF"
    by (rule bit_word_eqI)
      (auto simp: bit_simps)
  ultimately show ?thesis by simp
qed

section \<open>Subnormal halves\<close>

text \<open>
  Magnitudes in units of \<open>2 ^ -149\<close>, the smallest positive float: \<open>float_units\<close> for a
  finite float, \<open>half_units\<close> for a finite half.
\<close>

definition float_units :: "float_bits \<Rightarrow> nat" where
  "float_units f =
     (let e = unat (drop_bit 23 f AND 0xFF); m = unat (f AND 0x7FFFFF)
      in if e = 0 then m else (2 ^ 23 + m) * 2 ^ (e - 1))"

definition half_units :: "u16 \<Rightarrow> nat" where
  "half_units h =
     (let e = unat (drop_bit 10 (h AND 0x7C00)); m = unat (h AND 0x3FF)
      in if e = 0 then m * 2 ^ 125 else (2 ^ 10 + m) * 2 ^ (e + 124))"

lemma float_units_fields:
  fixes e q s :: u32
  assumes "e < 0x100" "q < 0x400" "s AND 0x7FFFFFFF = 0" "e \<noteq> 0"
  shows "float_units (s OR push_bit 23 e OR push_bit 13 q) =
    (2 ^ 23 + unat q * 2 ^ 13) * 2 ^ (unat e - 1)"
proof -
  have e: "\<not> bit e n" if "8 \<le> n" for n
    by (rule bit_small_word [of _ 8]) (use assms(1) that in \<open>simp_all add: word_less_nat_alt\<close>)
  have q: "\<not> bit q n" if "10 \<le> n" for n
    by (rule bit_small_word [of _ 10]) (use assms(2) that in \<open>simp_all add: word_less_nat_alt\<close>)
  have "(0x7FFFFFFF :: u32) = mask 31" by (simp add: mask_eq_exp_minus_1)
  then have z: "\<not> bit (s AND mask 31) n" for n using assms(3) by simp
  have s: "\<not> bit s n" if "n < 31" for n
    using z [of n] that by (auto simp: bit_and_iff bit_mask_iff)
  have e8: "n < 8" if "bit e n" for n using e [of n] that by (meson not_le)
  have q10: "n < 10" if "bit q n" for n using q [of n] that by (meson not_le)
  have s31: "31 \<le> n" if "bit s n" for n using s [of n] that by (meson not_le)
  let ?r = "s OR push_bit 23 e OR push_bit 13 q"
  have 1: "drop_bit 23 ?r AND 0xFF = e"
  proof (rule bit_word_eqI)
    fix n :: nat assume "n < LENGTH(32)"
    show "bit (drop_bit 23 ?r AND 0xFF) n = bit e n"
      using e8 [of n] q10 [of "n + 10"] s31 [of "n + 23"]
      by (cases "n < 8") (auto simp: bit_simps add.commute)
  qed
  have 2: "?r AND 0x7FFFFF = push_bit 13 q"
  proof (rule bit_word_eqI)
    fix n :: nat assume "n < LENGTH(32)"
    show "bit (?r AND 0x7FFFFF) n = bit (push_bit 13 q) n"
      using q10 [of "n - 13"] s31 [of n]
      by (cases "n < 23") (auto simp: bit_simps)
  qed
  have "unat (push_bit 13 q) = unat q * 2 ^ 13"
    using assms(2) by (simp add: push_bit_eq_mult unat_word_ariths word_less_nat_alt)
  moreover have "unat e \<noteq> 0" using assms(4) by (simp add: unsigned_eq_0_iff)
  ultimately show ?thesis
    by (simp only: float_units_def 1 2 Let_def if_False) 
qed

lemma nat_bit_ge: "bit (n :: nat) i \<Longrightarrow> 2 ^ i \<le> n"
  by (metis bit_iff_odd div_less even_zero not_le)

lemma word_top_lt:
  assumes "\<And>n. t \<le> n \<Longrightarrow> \<not> bit (m :: u32) n" shows "unat m < 2 ^ t"
proof -
  have "take_bit t m = m"
    by (rule bit_word_eqI) (use assms not_less in \<open>auto simp: bit_take_bit_iff\<close>)
  then have "unat m = take_bit t (unat m)" by (metis unsigned_take_bit_eq)
  then show ?thesis by (metis take_bit_nat_less_exp)
qed

lemma subnormal_scaled:
  fixes m :: u32
  assumes "1 \<le> k" "k \<le> 10" "bit m (10 - k)" "\<And>n. 10 - k < n \<Longrightarrow> \<not> bit m n"
  shows "1024 \<le> unat m * 2 ^ k" and "unat (push_bit k m AND 0x3FF) = unat m * 2 ^ k - 1024"
proof -
  have "bit (unat m) (10 - k)" using assms(3) by (simp add: bit_unsigned_iff)
  then have "2 ^ (10 - k) * 2 ^ k \<le> unat m * 2 ^ k" by (intro mult_le_mono1 nat_bit_ge)
  then show ge: "1024 \<le> unat m * 2 ^ k"
    using assms(2) by (simp flip: power_add)
  have "unat m < 2 ^ (11 - k)"
    by (rule word_top_lt) (use assms(1,2,4) in auto)
  then have "unat m * 2 ^ k < 2 ^ (11 - k) * 2 ^ k" by simp
  then have lt: "unat m * 2 ^ k < 2048" using assms(2) by (simp flip: power_add)
  have "unat (push_bit k m) = unat m * 2 ^ k"
    unfolding unsigned_push_bit_eq using lt by (simp add: push_bit_eq_mult take_bit_nat_eq_self)
  moreover have "push_bit k m AND 0x3FF = take_bit 10 (push_bit k m)"
    by (simp add: take_bit_eq_mask mask_eq_exp_minus_1)
  ultimately have "unat (push_bit k m AND 0x3FF) = (unat m * 2 ^ k) mod 1024"
    by (simp only: unsigned_take_bit_eq) (simp add: take_bit_eq_mod)
  then show "unat (push_bit k m AND 0x3FF) = unat m * 2 ^ k - 1024"
    using ge lt by (simp add: mod_if)
qed

text \<open>
  Every subnormal half decodes to half of its value: the normalising loop starts from
  exponent \<open>127 - 15\<close> where the subnormal exponent is \<open>127 - 14\<close>.
\<close>

lemma sign_bits_only: "push_bit 16 (ucast ((h :: u16) AND 0x8000)) AND 0x7FFFFFFF = (0 :: u32)"
proof -
  have "(0x7FFFFFFF :: u32) = mask 31" by (simp add: mask_eq_exp_minus_1)
  moreover have "push_bit 16 (ucast (h AND 0x8000)) AND mask 31 = (0 :: u32)"
    by (rule bit_word_eqI) (auto simp: bit_simps)
  ultimately show ?thesis by simp
qed

lemma half_mantissa:
  fixes h :: u16
  shows "unat (ucast (h AND 0x3FF) :: u32) = unat (h AND 0x3FF)" "(ucast (h AND 0x3FF) :: u32) < 0x400"
proof -
  have "unat (h AND 0x3FF) < 2 ^ 32" by (rule order.strict_trans [OF unat_lt_u16]) simp
  then show u: "unat (ucast (h AND 0x3FF) :: u32) = unat (h AND 0x3FF)"
    by (simp only: unsigned_ucast_eq) (simp add: take_bit_nat_eq_self)
  have "h AND 0x3FF \<le> 0x3FF" by (rule word_and_le1)
  then have "unat (h AND 0x3FF) \<le> 0x3FF" by (simp add: word_le_nat_alt)
  then show "(ucast (h AND 0x3FF) :: u32) < 0x400" by (simp add: u word_less_nat_alt)
qed

lemma subnormal_decode:
  fixes h :: u16
  assumes e: "h AND 0x7C00 = 0" and m: "m = ucast (h AND 0x3FF)" "m \<noteq> 0"
    and norm: "normalise m 112 = Some (m', e')"
  shows "float16_to_float32 h = Some (push_bit 16 (ucast (h AND 0x8000)) OR
    push_bit 23 (word_of_int e') OR push_bit 13 (m' AND 0x3FF))"
proof -
  have z: "uint (drop_bit 10 (0 :: u16)) = 0" by simp
  have c: "(127 :: int) - 15 = 112" by simp
  have "(ucast (h AND 0x3FF) :: u32) \<noteq> 0" using m by simp
  then show ?thesis
    by (simp only: float16_to_float32_def Let_def e z c norm [unfolded m(1)] if_True if_False
        option.map(2) prod.case simp_thms)
qed

lemma half_arith:
  assumes "k \<le> (10 :: nat)"
  shows "2 * ((x * 2 ^ k) * 2 ^ 13 * 2 ^ (111 - k)) = (x * 2 ^ 125 :: nat)"
proof -
  have "2 ^ k * (2 ^ 13 * (2 ^ (111 - k) * 2)) = (2 ^ (k + (13 + ((111 - k) + 1))) :: nat)"
    by (simp only: power_add power_one_right)
  also have "k + (13 + ((111 - k) + 1)) = 125" using assms by simp
  finally have "x * (2 ^ k * (2 ^ 13 * (2 ^ (111 - k) * 2))) = x * 2 ^ 125" by (simp only:)
  then show ?thesis by (simp only: ac_simps)
qed

lemma subnormal_half:
  assumes e: "h AND 0x7C00 = 0" and m: "h AND 0x3FF \<noteq> 0"
  shows "\<exists>f. float16_to_float32 h = Some f \<and> 2 * float_units f = half_units h"
proof -
  define m where "m = (ucast (h AND 0x3FF) :: u32)"
  have um: "unat m = unat (h AND 0x3FF)" and m10: "m < 0x400"
    unfolding m_def by (rule half_mantissa)+
  have m0: "m \<noteq> 0" using assms(2) um by (metis unsigned_0 unsigned_eq_0_iff)
  obtain k where k: "1 \<le> k" "k \<le> 10" "bit m (10 - k)" "\<And>n. 10 - k < n \<Longrightarrow> \<not> bit m n"
    using normalise_top [OF m0 m10] by blast
  have norm: "normalise m 112 = Some (push_bit k m, 112 - int k)"
    by (rule normalise_shift) (use k in auto)
  note q = subnormal_scaled [OF k]
  let ?s = "push_bit 16 (ucast (h AND 0x8000)) :: u32"
  let ?e = "word_of_int (112 - int k) :: u32"
  let ?q = "push_bit k m AND 0x3FF"
  have ui: "uint ?e = 112 - int k" using k(2) by (intro uint_of_exp) simp_all
  then have ue: "unat ?e = 112 - k" by (simp add: unat_eq_nat_uint)
  have e8: "?e < 0x100" unfolding word_less_nat_alt ue using k(1) by simp
  have e0: "?e \<noteq> 0" using ue k(2) by auto
  have q10: "?q < 0x400"
    using word_and_le1 [of "push_bit k m" "0x3FF"] by (rule order.strict_trans1) simp
  define f where "f = ?s OR push_bit 23 ?e OR push_bit 13 ?q"
  have "float16_to_float32 h = Some f"
    unfolding f_def by (rule subnormal_decode [OF e m_def m0 norm])
  moreover have "float_units f = (2 ^ 23 + unat ?q * 2 ^ 13) * 2 ^ (unat ?e - 1)"
    unfolding f_def by (rule float_units_fields [OF e8 q10 sign_bits_only e0])
  then have "float_units f = (unat m * 2 ^ k) * 2 ^ 13 * 2 ^ (111 - k)"
    using q(1) by (simp only: q(2) ue) (simp add: diff_mult_distrib)
  then have "2 * float_units f = half_units h"
    using half_arith [OF k(2), of "unat m"] by (simp only: half_units_def e um) simp
  ultimately show ?thesis by blast
qed

section \<open>Properties\<close>

text \<open>
  A float whose exponent a half-precision float has too (113 to 142) comes back from
  the wire with the low 13 bits of its mantissa cleared and nothing else changed: the
  rounding is a truncation, never a change of sign or exponent.
\<close>

lemma float_normal_roundtrip:
  assumes "113 \<le> exp8 f" "exp8 f \<le> 142"
  shows "float16_to_float32 (float32_to_float16 f) = Some (f AND NOT 0x1FFF)"
  using assms by (rule normal_truncates)

text \<open>21.5 (\<open>0x41AC0000\<close>) is carried exactly.\<close>

lemma float_normal_roundtrip_instance:
  "float16_to_float32 (float32_to_float16 0x41AC0000) = Some 0x41AC0000"
  using float_normal_roundtrip [of "0x41AC0000"] by (simp add: exp8_def)

text \<open>
  Every subnormal half decodes, and to half of its value: the decoder starts its
  normalising loop from exponent 112 where the exponent of a subnormal half is 113. The
  loop ends on each of them.
\<close>

lemma float_subnormal_halved:
  assumes "h AND 0x7C00 = 0" "h AND 0x3FF \<noteq> 0"
  shows "\<exists>f. float16_to_float32 h = Some f \<and> 2 * float_units f = half_units h"
  using assms by (rule subnormal_half)

lemma float_subnormal_halved_instance:
  "\<exists>f. float16_to_float32 0x0200 = Some f \<and> 2 * float_units f = half_units 0x0200"
  by (rule float_subnormal_halved) simp_all

end
