(* ===== verification/Constants.thy ===== *)
theory Constants
  imports Prelude
begin

text \<open>
  \<open>main/ykp_core/ykp_constants.h\<close>: the sizes, flag masks and enumerations of the protocol.
  Each C enum is a datatype with the source's enumerators and a \<open>_code\<close> function. An enum
  that the code switches on after a cast from a received byte has a decoder too, and is an
  \<open>enum_codec\<close>.
\<close>

definition YKP_MAGIC_0 :: u8 where "YKP_MAGIC_0 = 0x59"
definition YKP_MAGIC_1 :: u8 where "YKP_MAGIC_1 = 0x4B"
definition YKP_VERSION :: u8 where "YKP_VERSION = 0x05"

definition YKP_HEADER_SIZE :: nat where "YKP_HEADER_SIZE = 33"
definition YKP_AUTH_TAG_SIZE :: nat where "YKP_AUTH_TAG_SIZE = 16"
definition YKP_MIN_PACKET :: nat where "YKP_MIN_PACKET = YKP_HEADER_SIZE + YKP_AUTH_TAG_SIZE"
definition YKP_DEVICE_ID_LEN :: nat where "YKP_DEVICE_ID_LEN = 8"

definition YKP_FLAG_QOS_MASK :: u8 where "YKP_FLAG_QOS_MASK = 0x03"
definition YKP_FLAG_ENCRYPTED :: u8 where "YKP_FLAG_ENCRYPTED = 0x04"
definition YKP_FLAG_ACK :: u8 where "YKP_FLAG_ACK = 0x10"

definition YKP_KEY_ROTATE_PACKET_COUNT :: u32 where "YKP_KEY_ROTATE_PACKET_COUNT = 1000"
definition YKP_KEY_ROTATE_INTERVAL_MS :: int where "YKP_KEY_ROTATE_INTERVAL_MS = 1800000"
definition YKP_REPLAY_WINDOW_SIZE :: u32 where "YKP_REPLAY_WINDOW_SIZE = 64"

lemmas size_defs = YKP_HEADER_SIZE_def YKP_AUTH_TAG_SIZE_def YKP_MIN_PACKET_def
  YKP_DEVICE_ID_LEN_def

lemmas const_defs = size_defs YKP_MAGIC_0_def YKP_MAGIC_1_def YKP_VERSION_def
  YKP_FLAG_QOS_MASK_def YKP_FLAG_ENCRYPTED_def YKP_FLAG_ACK_def

section \<open>Quality of service and routes\<close>

datatype ykp_qos_t = YKP_QOS_0 | YKP_QOS_1 | YKP_QOS_2

fun qos_code :: "ykp_qos_t \<Rightarrow> u8" where
  "qos_code YKP_QOS_0 = 0"
| "qos_code YKP_QOS_1 = 1"
| "qos_code YKP_QOS_2 = 2"

datatype ykp_route_t = ROUTE_DIRECT | ROUTE_GROUP | ROUTE_BROADCAST | ROUTE_LOCATION
  | ROUTE_CAPABILITY | ROUTE_CLOUD | ROUTE_LOCAL | ROUTE_GATEWAY

fun route_code :: "ykp_route_t \<Rightarrow> u8" where
  "route_code ROUTE_DIRECT = 0x01"
| "route_code ROUTE_GROUP = 0x02"
| "route_code ROUTE_BROADCAST = 0x03"
| "route_code ROUTE_LOCATION = 0x04"
| "route_code ROUTE_CAPABILITY = 0x05"
| "route_code ROUTE_CLOUD = 0x06"
| "route_code ROUTE_LOCAL = 0x07"
| "route_code ROUTE_GATEWAY = 0x08"

section \<open>Services\<close>

datatype ykp_service_t = SVC_RELAY | SVC_SENSOR | SVC_MOTOR | SVC_HEALTH | SVC_OTA
  | SVC_SECURITY | SVC_DISCOVERY | SVC_GROUP | SVC_AUTOMATION

fun service_code :: "ykp_service_t \<Rightarrow> u8" where
  "service_code SVC_RELAY = 0x01"
| "service_code SVC_SENSOR = 0x02"
| "service_code SVC_MOTOR = 0x03"
| "service_code SVC_HEALTH = 0x04"
| "service_code SVC_OTA = 0x05"
| "service_code SVC_SECURITY = 0x06"
| "service_code SVC_DISCOVERY = 0x07"
| "service_code SVC_GROUP = 0x08"
| "service_code SVC_AUTOMATION = 0x09"

definition service_decode :: "u8 \<Rightarrow> ykp_service_t option" where
  "service_decode b =
     (if b = 0x01 then Some SVC_RELAY else if b = 0x02 then Some SVC_SENSOR
      else if b = 0x03 then Some SVC_MOTOR else if b = 0x04 then Some SVC_HEALTH
      else if b = 0x05 then Some SVC_OTA else if b = 0x06 then Some SVC_SECURITY
      else if b = 0x07 then Some SVC_DISCOVERY else if b = 0x08 then Some SVC_GROUP
      else if b = 0x09 then Some SVC_AUTOMATION else None)"

interpretation svc: enum_codec service_code service_decode
proof unfold_locales
  show "service_decode (service_code x) = Some x" for x
    by (cases x) (simp_all add: service_decode_def)
  show "service_decode b = Some x \<Longrightarrow> service_code x = b" for b x
    by (auto simp: service_decode_def split: if_splits)
qed

section \<open>Actions\<close>

datatype ykp_relay_action_t = RELAY_ON | RELAY_OFF | RELAY_TOGGLE | RELAY_STATUS | RELAY_ACK

fun relay_action_code :: "ykp_relay_action_t \<Rightarrow> u8" where
  "relay_action_code RELAY_ON = 0x01"
| "relay_action_code RELAY_OFF = 0x02"
| "relay_action_code RELAY_TOGGLE = 0x03"
| "relay_action_code RELAY_STATUS = 0x04"
| "relay_action_code RELAY_ACK = 0x05"

definition relay_action_decode :: "u8 \<Rightarrow> ykp_relay_action_t option" where
  "relay_action_decode b =
     (if b = 0x01 then Some RELAY_ON else if b = 0x02 then Some RELAY_OFF
      else if b = 0x03 then Some RELAY_TOGGLE else if b = 0x04 then Some RELAY_STATUS
      else if b = 0x05 then Some RELAY_ACK else None)"

interpretation relay_act: enum_codec relay_action_code relay_action_decode
proof unfold_locales
  show "relay_action_decode (relay_action_code x) = Some x" for x
    by (cases x) (simp_all add: relay_action_decode_def)
  show "relay_action_decode b = Some x \<Longrightarrow> relay_action_code x = b" for b x
    by (auto simp: relay_action_decode_def split: if_splits)
qed

datatype ykp_sensor_action_t = SENSOR_REPORT | SENSOR_ALERT | SENSOR_CALIBRATE | SENSOR_ACK

fun sensor_action_code :: "ykp_sensor_action_t \<Rightarrow> u8" where
  "sensor_action_code SENSOR_REPORT = 0x01"
| "sensor_action_code SENSOR_ALERT = 0x02"
| "sensor_action_code SENSOR_CALIBRATE = 0x03"
| "sensor_action_code SENSOR_ACK = 0x04"

datatype ykp_health_action_t = HEALTH_REPORT | HEALTH_REQUEST | HEALTH_ALERT

fun health_action_code :: "ykp_health_action_t \<Rightarrow> u8" where
  "health_action_code HEALTH_REPORT = 0x01"
| "health_action_code HEALTH_REQUEST = 0x02"
| "health_action_code HEALTH_ALERT = 0x03"

datatype ykp_ota_action_t = OTA_BEGIN | OTA_CHUNK | OTA_MISSING | OTA_COMPLETE | OTA_VERIFY
  | OTA_INSTALL | OTA_REBOOT | OTA_FAIL

fun ota_action_code :: "ykp_ota_action_t \<Rightarrow> u8" where
  "ota_action_code OTA_BEGIN = 0x01"
| "ota_action_code OTA_CHUNK = 0x02"
| "ota_action_code OTA_MISSING = 0x03"
| "ota_action_code OTA_COMPLETE = 0x04"
| "ota_action_code OTA_VERIFY = 0x05"
| "ota_action_code OTA_INSTALL = 0x06"
| "ota_action_code OTA_REBOOT = 0x07"
| "ota_action_code OTA_FAIL = 0x08"

definition ota_action_decode :: "u8 \<Rightarrow> ykp_ota_action_t option" where
  "ota_action_decode b =
     (if b = 0x01 then Some OTA_BEGIN else if b = 0x02 then Some OTA_CHUNK
      else if b = 0x03 then Some OTA_MISSING else if b = 0x04 then Some OTA_COMPLETE
      else if b = 0x05 then Some OTA_VERIFY else if b = 0x06 then Some OTA_INSTALL
      else if b = 0x07 then Some OTA_REBOOT else if b = 0x08 then Some OTA_FAIL else None)"

interpretation ota_act: enum_codec ota_action_code ota_action_decode
proof unfold_locales
  show "ota_action_decode (ota_action_code x) = Some x" for x
    by (cases x) (simp_all add: ota_action_decode_def)
  show "ota_action_decode b = Some x \<Longrightarrow> ota_action_code x = b" for b x
    by (auto simp: ota_action_decode_def split: if_splits)
qed

datatype ykp_sec_action_t = SEC_HELLO | SEC_CHALLENGE | SEC_ECDH_RESPONSE | SEC_SESSION_ACTIVE
  | SEC_KEY_ROTATE | SEC_KEY_ROTATE_ACK | SEC_SESSION_CLOSE | SEC_ERROR

fun sec_action_code :: "ykp_sec_action_t \<Rightarrow> u8" where
  "sec_action_code SEC_HELLO = 0x01"
| "sec_action_code SEC_CHALLENGE = 0x02"
| "sec_action_code SEC_ECDH_RESPONSE = 0x03"
| "sec_action_code SEC_SESSION_ACTIVE = 0x04"
| "sec_action_code SEC_KEY_ROTATE = 0x05"
| "sec_action_code SEC_KEY_ROTATE_ACK = 0x06"
| "sec_action_code SEC_SESSION_CLOSE = 0x07"
| "sec_action_code SEC_ERROR = 0x08"

definition sec_action_decode :: "u8 \<Rightarrow> ykp_sec_action_t option" where
  "sec_action_decode b =
     (if b = 0x01 then Some SEC_HELLO else if b = 0x02 then Some SEC_CHALLENGE
      else if b = 0x03 then Some SEC_ECDH_RESPONSE else if b = 0x04 then Some SEC_SESSION_ACTIVE
      else if b = 0x05 then Some SEC_KEY_ROTATE else if b = 0x06 then Some SEC_KEY_ROTATE_ACK
      else if b = 0x07 then Some SEC_SESSION_CLOSE else if b = 0x08 then Some SEC_ERROR
      else None)"

interpretation sec_act: enum_codec sec_action_code sec_action_decode
proof unfold_locales
  show "sec_action_decode (sec_action_code x) = Some x" for x
    by (cases x) (simp_all add: sec_action_decode_def)
  show "sec_action_decode b = Some x \<Longrightarrow> sec_action_code x = b" for b x
    by (auto simp: sec_action_decode_def split: if_splits)
qed

datatype ykp_disc_action_t = DISC_REQUEST | DISC_REPLY | DISC_REGISTER

fun disc_action_code :: "ykp_disc_action_t \<Rightarrow> u8" where
  "disc_action_code DISC_REQUEST = 0x01"
| "disc_action_code DISC_REPLY = 0x02"
| "disc_action_code DISC_REGISTER = 0x03"

section \<open>TLV types\<close>

datatype ykp_tlv_type_t = TLV_DEVICE_ID | TLV_TIMESTAMP | TLV_STATE | TLV_VALUE_INT
  | TLV_VALUE_FLOAT | TLV_VALUE_STR | TLV_ERROR_CODE | TLV_FIRMWARE_VER | TLV_PUBLIC_KEY
  | TLV_NONCE | TLV_SIGNATURE | TLV_CHUNK_INDEX | TLV_CHUNK_DATA | TLV_HASH | TLV_GROUP_ID
  | TLV_RULE_ID | TLV_CAPABILITIES | TLV_RSSI | TLV_IP_ADDRESS | TLV_DIRECTION | TLV_SPEED

fun tlv_code :: "ykp_tlv_type_t \<Rightarrow> u8" where
  "tlv_code TLV_DEVICE_ID = 0x01"
| "tlv_code TLV_TIMESTAMP = 0x02"
| "tlv_code TLV_STATE = 0x03"
| "tlv_code TLV_VALUE_INT = 0x04"
| "tlv_code TLV_VALUE_FLOAT = 0x05"
| "tlv_code TLV_VALUE_STR = 0x06"
| "tlv_code TLV_ERROR_CODE = 0x07"
| "tlv_code TLV_FIRMWARE_VER = 0x08"
| "tlv_code TLV_PUBLIC_KEY = 0x09"
| "tlv_code TLV_NONCE = 0x0A"
| "tlv_code TLV_SIGNATURE = 0x0B"
| "tlv_code TLV_CHUNK_INDEX = 0x0C"
| "tlv_code TLV_CHUNK_DATA = 0x0D"
| "tlv_code TLV_HASH = 0x0E"
| "tlv_code TLV_GROUP_ID = 0x0F"
| "tlv_code TLV_RULE_ID = 0x10"
| "tlv_code TLV_CAPABILITIES = 0x11"
| "tlv_code TLV_RSSI = 0x12"
| "tlv_code TLV_IP_ADDRESS = 0x13"
| "tlv_code TLV_DIRECTION = 0x14"
| "tlv_code TLV_SPEED = 0x15"

text \<open>Every TLV type fits the one-byte CBOR key.\<close>

lemma tlv_code_small [simp]: "tlv_code t < 24"
  by (cases t) simp_all

end
