(* ===== verification/Tlv.thy ===== *)
theory Tlv
  imports Float16 Constants
begin

text \<open>
  The TLV layer of \<open>main/ykp_core/ykp_packet.c\<close>: the builder (\<open>ykp_tlv_builder_init\<close>,
  \<open>ykp_tlv_add_*\<close>, \<open>ykp_tlv_builder_len\<close>) writes an indefinite-length CBOR map, the finder
  \<open>ykp_tlv_find\<close> walks it and the readers \<open>ykp_tlv_read_*\<close> decode one value.

  Pointers: \<open>tlv_value\<close> is the array from the C pointer to the end of the object it points
  into, so that a read beyond the object is \<open>Inl OutOfBounds\<close>. The index \<open>i\<close> of the finder is
  a \<open>uint16_t\<close> and wraps; its loop is a \<open>partial_function\<close>, since a wrapped index can bring
  it back to where it was (\<open>find_loops_forever\<close>).

  What the layer promises is the locale \<open>tlv_codec\<close>: what was added under a type is what
  the finder and the reader of that value type return. It is interpreted for the eight value
  types of the builder.
\<close>

record ykp_tlv_t =
  tlv_type :: u8
  tlv_length :: u16
  tlv_value :: bytes

record ykp_tlv_builder_t =
  tb_buf :: bytes
  tb_cap :: u16
  tb_len :: u16

section \<open>The builder\<close>

definition ykp_tlv_builder_init :: "bytes \<Rightarrow> u16 \<Rightarrow> ykp_tlv_builder_t" where
  "ykp_tlv_builder_init buf cap = \<lparr>tb_buf = buf[0 := 0xBF], tb_cap = cap, tb_len = 1\<rparr>"

definition tlv_to_cbor :: "ykp_tlv_builder_t \<Rightarrow> cbor_encoder" where
  "tlv_to_cbor b =
     \<lparr>enc_buf = tb_buf b, enc_size = unat (tb_cap b), enc_len = unat (tb_len b),
      enc_overflow = False\<rparr>"

text \<open>The encoder shares the builder's buffer, so its writes are the builder's.\<close>

definition cbor_to_tlv :: "ykp_tlv_builder_t \<Rightarrow> cbor_encoder \<Rightarrow> ykp_tlv_builder_t" where
  "cbor_to_tlv b enc = b\<lparr>tb_buf := enc_buf enc, tb_len := of_nat (enc_len enc)\<rparr>"

definition ykp_tlv_add_uint8 :: "ykp_tlv_builder_t \<Rightarrow> u8 \<Rightarrow> u8 \<Rightarrow> bool \<times> ykp_tlv_builder_t" where
  "ykp_tlv_add_uint8 b type val =
     (let enc = cbor_encode_uint (cbor_encode_key (tlv_to_cbor b) type) (ucast val)
      in (\<not> enc_overflow enc, cbor_to_tlv b enc))"

definition ykp_tlv_add_uint16 :: "ykp_tlv_builder_t \<Rightarrow> u8 \<Rightarrow> u16 \<Rightarrow> bool \<times> ykp_tlv_builder_t" where
  "ykp_tlv_add_uint16 b type val =
     (let enc = cbor_encode_uint (cbor_encode_key (tlv_to_cbor b) type) (ucast val)
      in (\<not> enc_overflow enc, cbor_to_tlv b enc))"

definition ykp_tlv_add_uint32 :: "ykp_tlv_builder_t \<Rightarrow> u8 \<Rightarrow> u32 \<Rightarrow> bool \<times> ykp_tlv_builder_t" where
  "ykp_tlv_add_uint32 b type val =
     (let enc = cbor_encode_uint (cbor_encode_key (tlv_to_cbor b) type) (ucast val)
      in (\<not> enc_overflow enc, cbor_to_tlv b enc))"

definition ykp_tlv_add_int32 :: "ykp_tlv_builder_t \<Rightarrow> u8 \<Rightarrow> u32 \<Rightarrow> bool \<times> ykp_tlv_builder_t" where
  "ykp_tlv_add_int32 b type val =
     (let enc = cbor_encode_int (cbor_encode_key (tlv_to_cbor b) type) (scast val)
      in (\<not> enc_overflow enc, cbor_to_tlv b enc))"

definition ykp_tlv_add_float :: "ykp_tlv_builder_t \<Rightarrow> u8 \<Rightarrow> float_bits \<Rightarrow> bool \<times> ykp_tlv_builder_t" where
  "ykp_tlv_add_float b type val =
     (let enc = cbor_encode_float16 (cbor_encode_key (tlv_to_cbor b) type) val
      in (\<not> enc_overflow enc, cbor_to_tlv b enc))"

definition ykp_tlv_add_uint64 :: "ykp_tlv_builder_t \<Rightarrow> u8 \<Rightarrow> u64 \<Rightarrow> bool \<times> ykp_tlv_builder_t" where
  "ykp_tlv_add_uint64 b type val =
     (let enc = cbor_encode_uint (cbor_encode_key (tlv_to_cbor b) type) val
      in (\<not> enc_overflow enc, cbor_to_tlv b enc))"

text \<open>\<open>data\<close> is the array of the C arguments \<open>data\<close>, \<open>len\<close>: \<open>len\<close> is its length.\<close>

definition ykp_tlv_add_bytes :: "ykp_tlv_builder_t \<Rightarrow> u8 \<Rightarrow> bytes \<Rightarrow> bool \<times> ykp_tlv_builder_t" where
  "ykp_tlv_add_bytes b type data =
     (let enc = cbor_encode_bytes (cbor_encode_key (tlv_to_cbor b) type) data (length data)
      in (\<not> enc_overflow enc, cbor_to_tlv b enc))"

definition ykp_tlv_add_string :: "ykp_tlv_builder_t \<Rightarrow> u8 \<Rightarrow> bytes \<Rightarrow> bool \<times> ykp_tlv_builder_t" where
  "ykp_tlv_add_string b type str =
     (let enc = cbor_encode_str (cbor_encode_key (tlv_to_cbor b) type) str
      in (\<not> enc_overflow enc, cbor_to_tlv b enc))"

definition ykp_tlv_builder_len :: "ykp_tlv_builder_t \<Rightarrow> u16 \<times> ykp_tlv_builder_t" where
  "ykp_tlv_builder_len b =
     (if tb_len b < tb_cap b
      then (tb_len b + 1, b\<lparr>tb_buf := (tb_buf b)[unat (tb_len b) := 0xFF]\<rparr>)
      else (tb_cap b, b\<lparr>tb_buf := (tb_buf b)[unat (tb_cap b) - 1 := 0xFF]\<rparr>))"

section \<open>The finder\<close>

text \<open>
  The length of one value: \<open>tlv_skip\<close> is the code from the read of \<open>val_hdr\<close> to the end
  of the chain of conditionals and gives the index after the value. Majors \<open>0x80\<close>, \<open>0xA0\<close>
  and \<open>0xC0\<close> match no branch.
\<close>

definition tlv_skip :: "bytes \<Rightarrow> u16 \<Rightarrow> fault + u16" where
  "tlv_skip buf i =
     bindE (rd buf (unat i)) (\<lambda>val_hdr.
       let major = val_hdr AND 0xE0; info = val_hdr AND 0x1F; i = i + 1
       in if major = 0x00 \<or> major = 0x20 then
            Inr (if info < 24 then i
                 else if info = 0x18 then i + 1
                 else if info = 0x19 then i + 2
                 else if info = 0x1A then i + 4
                 else if info = 0x1B then i + 8 else i)
          else if major = 0x40 \<or> major = 0x60 then
            (if info < 24 then Inr (i + ucast info)
             else if info = 0x18 then
               bindE (rd buf (unat i)) (\<lambda>str_len. Inr (i + 1 + ucast str_len))
             else if info = 0x19 then
               bindE (rd buf (unat i)) (\<lambda>p0. bindE (rd buf (unat i + 1)) (\<lambda>p1.
                 Inr (i + 2 + read_u16_be p0 p1)))
             else Inr i)
          else if major = 0xE0 then
            Inr (if info = 25 then i + 2
                 else if info = 26 then i + 4
                 else if info = 27 then i + 8 else i)
          else Inr i)"

text \<open>One turn of the loop: the result of the function, or the index of the next turn.\<close>

definition tlv_find_step ::
  "bytes \<Rightarrow> u16 \<Rightarrow> u8 \<Rightarrow> bool \<Rightarrow> u16 \<Rightarrow> fault + (ykp_tlv_t option + u16)" where
  "tlv_find_step buf buf_len type indefinite i =
     (if \<not> i < buf_len then Inr (Inl None)
      else bindE (rd buf (unat i)) (\<lambda>key_hdr.
        if indefinite \<and> key_hdr = 0xFF then Inr (Inl None)
        else if \<not> key_hdr < 24 \<and> key_hdr \<noteq> 0x18 then Inr (Inl None)
        else bindE (if key_hdr < 24 then Inr (key_hdr, i + 1)
                    else bindE (rd buf (unat (i + 1))) (\<lambda>k. Inr (k, i + 1 + 1)))
          (\<lambda>(key, val_start).
            bindE (tlv_skip buf val_start) (\<lambda>i.
              if key = type
              then Inr (Inl (Some \<lparr>tlv_type = key, tlv_length = i - val_start,
                                   tlv_value = drop (unat val_start) buf\<rparr>))
              else Inr (Inr i)))))"

partial_function (option) tlv_find_loop ::
  "bytes \<Rightarrow> u16 \<Rightarrow> u8 \<Rightarrow> bool \<Rightarrow> u16 \<Rightarrow> (fault + ykp_tlv_t option) option" where
  "tlv_find_loop buf buf_len type indefinite i =
     (case tlv_find_step buf buf_len type indefinite i of
        Inl e \<Rightarrow> Some (Inl e)
      | Inr (Inl r) \<Rightarrow> Some (Inr r)
      | Inr (Inr j) \<Rightarrow> tlv_find_loop buf buf_len type indefinite j)"

declare tlv_find_loop.simps [code]

definition ykp_tlv_find :: "bytes \<Rightarrow> u16 \<Rightarrow> u8 \<Rightarrow> (fault + ykp_tlv_t option) option" where
  "ykp_tlv_find buf buf_len type =
     (if buf_len < 2 then retC None
      else bindC (liftC (rd buf 0)) (\<lambda>header.
        if header = 0xBF then tlv_find_loop buf buf_len type True 1
        else if header AND 0xE0 = 0xA0 then
          (if header AND 0x1F = 0x18
           then bindC (liftC (rd buf 1)) (\<lambda>pairs. tlv_find_loop buf buf_len type False 2)
           else tlv_find_loop buf buf_len type False 1)
        else retC None))"

section \<open>The readers\<close>

definition ykp_tlv_read_uint8 :: "ykp_tlv_t \<Rightarrow> fault + u8 option" where
  "ykp_tlv_read_uint8 tlv =
     (if tlv_length tlv < 1 then Inr None
      else bindE (rd (tlv_value tlv) 0) (\<lambda>val_hdr.
        if val_hdr AND 0xE0 = 0 then
          (let info = val_hdr AND 0x1F in
            if info < 24 then Inr (Some info)
            else if info = 0x18 then bindE (rd (tlv_value tlv) 1) (\<lambda>b. Inr (Some b))
            else Inr None)
        else Inr None))"

definition rd_u16 :: "bytes \<Rightarrow> nat \<Rightarrow> fault + u16" where
  "rd_u16 p k = bindE (rd p k) (\<lambda>p0. bindE (rd p (k + 1)) (\<lambda>p1. Inr (read_u16_be p0 p1)))"

definition rd_u32 :: "bytes \<Rightarrow> nat \<Rightarrow> fault + u32" where
  "rd_u32 p k =
     bindE (rd p k) (\<lambda>p0. bindE (rd p (k + 1)) (\<lambda>p1. bindE (rd p (k + 2)) (\<lambda>p2.
       bindE (rd p (k + 3)) (\<lambda>p3. Inr (read_u32_be p0 p1 p2 p3)))))"

definition ykp_tlv_read_uint16 :: "ykp_tlv_t \<Rightarrow> fault + u16 option" where
  "ykp_tlv_read_uint16 tlv =
     (if tlv_length tlv < 1 then Inr None
      else bindE (rd (tlv_value tlv) 0) (\<lambda>val_hdr.
        if val_hdr AND 0xE0 = 0 then
          (let info = val_hdr AND 0x1F in
            if info < 24 then Inr (Some (ucast info))
            else if info = 0x18 then bindE (rd (tlv_value tlv) 1) (\<lambda>b. Inr (Some (ucast b)))
            else if info = 0x19 then bindE (rd_u16 (tlv_value tlv) 1) (\<lambda>w. Inr (Some w))
            else Inr None)
        else Inr None))"

definition ykp_tlv_read_uint32 :: "ykp_tlv_t \<Rightarrow> fault + u32 option" where
  "ykp_tlv_read_uint32 tlv =
     (if tlv_length tlv < 1 then Inr None
      else bindE (rd (tlv_value tlv) 0) (\<lambda>val_hdr.
        if val_hdr AND 0xE0 = 0 then
          (let info = val_hdr AND 0x1F in
            if info < 24 then Inr (Some (ucast info))
            else if info = 0x18 then bindE (rd (tlv_value tlv) 1) (\<lambda>b. Inr (Some (ucast b)))
            else if info = 0x19 then bindE (rd_u16 (tlv_value tlv) 1) (\<lambda>w. Inr (Some (ucast w)))
            else if info = 0x1A then bindE (rd_u32 (tlv_value tlv) 1) (\<lambda>w. Inr (Some w))
            else Inr None)
        else Inr None))"

definition ykp_tlv_read_int32 :: "ykp_tlv_t \<Rightarrow> fault + u32 option" where
  "ykp_tlv_read_int32 tlv =
     (if tlv_length tlv < 1 then Inr None
      else bindE (rd (tlv_value tlv) 0) (\<lambda>val_hdr.
        let major = val_hdr AND 0xE0; info = val_hdr AND 0x1F in
        if major = 0 then ykp_tlv_read_uint32 tlv
        else if major = 0x20 then
          bindE (if info < 24 then Inr (ucast info :: u64)
                 else if info = 0x18 then bindE (rd (tlv_value tlv) 1) (\<lambda>b. Inr (ucast b))
                 else if info = 0x19 then bindE (rd_u16 (tlv_value tlv) 1) (\<lambda>w. Inr (ucast w))
                 else if info = 0x1A then bindE (rd_u32 (tlv_value tlv) 1) (\<lambda>w. Inr (ucast w))
                 else Inr 0)
            (\<lambda>uv. Inr (Some (ucast (-1 - uv))))
        else Inr None))"

text \<open>
  \<open>0xFA\<close> copies the four bytes as they lie in memory: the target is little-endian.
\<close>

definition ykp_tlv_read_float :: "ykp_tlv_t \<Rightarrow> (fault + float_bits option) option" where
  "ykp_tlv_read_float tlv =
     (if tlv_length tlv < 1 then retC None
      else bindC (liftC (rd (tlv_value tlv) 0)) (\<lambda>hdr.
        if hdr = 0xF9 then
          bindC (liftC (rd_u16 (tlv_value tlv) 1)) (\<lambda>f16.
            map_option (\<lambda>f32. Inr (Some f32)) (float16_to_float32 f16))
        else if hdr = 0xFA then
          bindC (liftC (rd_bytes (tlv_value tlv) 1 4)) (\<lambda>bs.
            retC (Some (read_u32_be (bs ! 3) (bs ! 2) (bs ! 1) (bs ! 0))))
        else retC None))"

definition ykp_tlv_read_uint64 :: "ykp_tlv_t \<Rightarrow> fault + u64 option" where
  "ykp_tlv_read_uint64 tlv =
     (if tlv_length tlv < 1 then Inr None
      else bindE (rd (tlv_value tlv) 0) (\<lambda>val_hdr.
        if val_hdr AND 0xE0 = 0 then
          (let info = val_hdr AND 0x1F in
            if info < 24 then Inr (Some (ucast info))
            else if info = 0x18 then bindE (rd (tlv_value tlv) 1) (\<lambda>b. Inr (Some (ucast b)))
            else if info = 0x19 then bindE (rd_u16 (tlv_value tlv) 1) (\<lambda>w. Inr (Some (ucast w)))
            else if info = 0x1A then bindE (rd_u32 (tlv_value tlv) 1) (\<lambda>w. Inr (Some (ucast w)))
            else if info = 0x1B then
              bindE (rd_bytes (tlv_value tlv) 1 8) (\<lambda>bs.
                Inr (Some (foldl (\<lambda>out b. push_bit 8 out OR ucast b) 0 bs)))
            else Inr None)
        else Inr None))"

section \<open>Values and maps\<close>

text \<open>
  The values the builder writes, their encoding, and the map of a list of entries.
  \<open>cval_ok\<close> bounds a string by 255 bytes: longer ones lose their length (the encoder's
  one-byte length field, \<open>long_string_misparsed\<close>).
\<close>

datatype cval = VUint u64 | VInt32 u32 | VFloat float_bits | VBytes bytes | VStr bytes

fun cval_bytes :: "cval \<Rightarrow> bytes" where
  "cval_bytes (VUint v) = uint_bytes v"
| "cval_bytes (VInt32 v) = int32_bytes v"
| "cval_bytes (VFloat f) = float16_bytes f"
| "cval_bytes (VBytes d) = str_bytes 0x40 d"
| "cval_bytes (VStr s) = str_bytes 0x60 s"

fun cval_ok :: "cval \<Rightarrow> bool" where
  "cval_ok (VBytes d) = (length d < 256)"
| "cval_ok (VStr s) = (length s < 256)"
| "cval_ok _ = True"

definition entry_bytes :: "u8 \<times> cval \<Rightarrow> bytes" where
  "entry_bytes kv = key_bytes (fst kv) @ cval_bytes (snd kv)"

definition entries_bytes :: "(u8 \<times> cval) list \<Rightarrow> bytes" where
  "entries_bytes kvs = concat (map entry_bytes kvs)"

definition map_bytes :: "(u8 \<times> cval) list \<Rightarrow> bytes" where
  "map_bytes kvs = 0xBF # entries_bytes kvs @ [0xFF]"

lemma entries_bytes_simps [simp]:
  "entries_bytes [] = []" "entries_bytes (kv # kvs) = entry_bytes kv @ entries_bytes kvs"
  "entries_bytes (kvs @ kvs') = entries_bytes kvs @ entries_bytes kvs'"
  by (simp_all add: entries_bytes_def)

section \<open>The masks of a CBOR head byte\<close>

lemma u8_lt_24:
  assumes "(w :: u8) < 24"
  shows "w \<in> {0, 1, 2, 3, 4, 5, 6, 7, 8, 9, 10, 11, 12, 13, 14, 15, 16, 17, 18, 19, 20, 21, 22, 23}"
proof -
  have "unat w \<in> {..<24}" using assms by (simp add: word_less_nat_alt)
  then have "unat w \<in> {0, 1, 2, 3, 4, 5, 6, 7, 8, 9, 10, 11, 12, 13, 14, 15, 16, 17, 18, 19, 20,
      21, 22, 23}"
    by (simp add: numeral_eq_Suc lessThan_Suc) blast
  moreover have unat_of_nat_self: "(of_nat (unat w) :: u8) = w" by simp
  ultimately have "(of_nat (unat w) :: u8) \<in> of_nat ` {0, 1, 2, 3, 4, 5, 6, 7, 8, 9, 10, 11, 12, 13, 14,
      15, 16, 17, 18, 19, 20, 21, 22, 23}"
    by (metis imageI)
  then show ?thesis by (simp only: image_insert image_empty unat_of_nat_self) simp
qed

lemma small_masks:
  assumes "(w :: u8) < 24"
  shows "w AND 0xE0 = 0" "w AND 0x1F = w" "(0x20 OR w) AND 0xE0 = 0x20" "(0x20 OR w) AND 0x1F = w"
    "(0x40 OR w) AND 0xE0 = 0x40" "(0x40 OR w) AND 0x1F = w"
    "(0x60 OR w) AND 0xE0 = 0x60" "(0x60 OR w) AND 0x1F = w"
  using u8_lt_24 [OF assms] by (elim insertE; simp)+

lemma ucast_small: "(v :: u64) < 24 \<Longrightarrow> (ucast v :: u8) < 24"
  using unat_lt_u8 [of "ucast v"]
  by (simp add: word_less_nat_alt unsigned_ucast_eq take_bit_eq_mod)

lemma of_nat_small: "n < 24 \<Longrightarrow> (of_nat n :: u8) < 24"
  by (simp add: word_less_nat_alt)

lemma ucast_of_nat: "n < 256 \<Longrightarrow> ucast (of_nat n :: u8) = (of_nat n :: u16)"
  by (simp add: unsigned_of_nat take_bit_nat_eq_self)

section \<open>Skipping one value\<close>

lemma rd_at:
  assumes "drop n buf = xs @ rest" "k < length xs"
  shows "rd buf (n + k) = Inr (xs ! k)"
proof -
  have "n + k < length buf" using arg_cong [OF assms(1), of length] assms(2) by simp
  moreover have "buf ! (n + k) = drop n buf ! k" using calculation by simp
  ultimately show ?thesis using assms by (simp add: nth_append)
qed

lemma rd_at0: "drop n buf = x # rest \<Longrightarrow> rd buf n = Inr x"
  using rd_at [of n buf "[x]" rest 0] by simp

lemma rd_at1: "drop n buf = x # y # rest \<Longrightarrow> rd buf (Suc n) = Inr y"
  using rd_at [of n buf "[x, y]" rest 1] by simp

lemma unat_u16_inc: "unat (i :: u16) + 1 < 65536 \<Longrightarrow> unat (i + 1) = Suc (unat i)"
  by (simp add: unat_u16_add)

lemma cbor_head_cons:
  assumes "m = 0 \<or> m = 0x20"
  shows "\<exists>h t. cbor_head m v = h # t \<and> h AND 0xE0 = m \<and>
    (h AND 0x1F < 24 \<and> t = [] \<or> h AND 0x1F = 0x18 \<and> length t = 1 \<or>
     h AND 0x1F = 0x19 \<and> length t = 2 \<or> h AND 0x1F = 0x1A \<and> length t = 4 \<or>
     h AND 0x1F = 0x1B \<and> length t = 8)"
  using assms small_masks [OF ucast_small]
  by (cases v rule: cbor_head_cases) (elim disjE; simp add: cbor_head_def ucast_small)+

lemma skip_head:
  assumes "drop (unat i) buf = cbor_head m v @ rest" "m = 0 \<or> m = 0x20"
  shows "tlv_skip buf i = Inr (i + of_nat (length (cbor_head m v)))"
proof -
  obtain h t where ht: "cbor_head m v = h # t" "h AND 0xE0 = m"
    "h AND 0x1F < 24 \<and> t = [] \<or> h AND 0x1F = 0x18 \<and> length t = 1 \<or>
     h AND 0x1F = 0x19 \<and> length t = 2 \<or> h AND 0x1F = 0x1A \<and> length t = 4 \<or>
     h AND 0x1F = 0x1B \<and> length t = 8"
    using cbor_head_cons [OF assms(2)] by blast
  have "rd buf (unat i) = Inr h" using assms(1) ht(1) by (intro rd_at0) simp
  with ht assms(2) show ?thesis by (elim disjE) (simp_all add: tlv_skip_def Let_def)
qed

lemma skip_string:
  assumes buf: "drop (unat i) buf = str_bytes m s @ rest" and m: "m = 0x40 \<or> m = 0x60"
    and s: "length s < 256" and fit: "unat i + 1 < 65536"
  shows "tlv_skip buf i = Inr (i + of_nat (length (str_bytes m s)))"
proof (cases "length s < 24")
  case True
  then have "rd buf (unat i) = Inr (m OR of_nat (length s))"
    using buf by (intro rd_at0) (simp add: str_bytes_def str_head_def)
  with True m small_masks [OF of_nat_small [OF True]] of_nat_small [OF True] show ?thesis
    by (elim disjE)
      (simp_all add: tlv_skip_def Let_def str_bytes_def str_head_def ucast_of_nat)
next
  case False
  then have b: "drop (unat i) buf = (m OR 0x18) # of_nat (length s) # s @ rest"
    using buf by (simp add: str_bytes_def str_head_def)
  have "rd buf (unat (i + 1)) = Inr (of_nat (length s))"
    using rd_at1 [OF b] fit by (simp add: unat_u16_inc)
  with rd_at0 [OF b] m False s show ?thesis
    by (elim disjE)
      (simp_all add: tlv_skip_def Let_def str_bytes_def str_head_def ucast_of_nat)
qed

lemma skip_cval:
  assumes b: "drop (unat i) buf = cval_bytes v @ rest" and v: "cval_ok v"
    and fit: "unat i + 1 < 65536"
  shows "tlv_skip buf i = Inr (i + of_nat (length (cval_bytes v)))"
proof (cases v)
  case (VUint x)
  then show ?thesis using b by (simp add: uint_bytes_def skip_head)
next
  case (VInt32 x)
  then show ?thesis using b by (auto simp: int32_bytes_def skip_head)
next
  case (VFloat f)
  then have "rd buf (unat i) = Inr 0xF9"
    using b by (intro rd_at0) (simp add: float16_bytes_def)
  then show ?thesis using VFloat by (simp add: tlv_skip_def float16_bytes_def Let_def)
next
  case (VBytes d)
  then show ?thesis using b v fit by (simp add: skip_string)
next
  case (VStr s)
  then show ?thesis using b v fit by (simp add: skip_string)
qed

section \<open>Finding an entry\<close>

text \<open>What the finder returns for value \<open>v\<close>: its head bytes included, then what follows it.\<close>

definition tlv_of :: "u8 \<Rightarrow> cval \<Rightarrow> bytes \<Rightarrow> ykp_tlv_t" where
  "tlv_of ty v tail =
     \<lparr>tlv_type = ty, tlv_length = of_nat (length (cval_bytes v)), tlv_value = cval_bytes v @ tail\<rparr>"

definition tlv_lookup :: "(u8 \<times> cval) list \<Rightarrow> u8 \<Rightarrow> (fault + ykp_tlv_t option) option \<Rightarrow> bool" where
  "tlv_lookup kvs ty r =
     (case map_of kvs ty of None \<Rightarrow> r = Some (Inr None)
      | Some v \<Rightarrow> (\<exists>tail. r = Some (Inr (Some (tlv_of ty v tail)))))"

lemma cval_bytes_pos: "0 < length (cval_bytes v)"
  by (cases v) (auto simp: uint_bytes_def int32_bytes_def float16_bytes_def str_bytes_def
      str_head_def cbor_head_def)

lemma u16_add_of_nat:
  "unat (i :: u16) + n < 65536 \<Longrightarrow> unat (i + of_nat n) = unat i + n"
  by (subst unat_u16_add) (auto)

lemma find_step_entry:
  assumes buf: "drop (unat i) buf = entry_bytes (k, v) @ rest" and v: "cval_ok v"
    and fit: "unat i + length (entry_bytes (k, v)) \<le> 65535"
    and len: "i < len"
  shows "\<exists>j. unat j = unat i + length (entry_bytes (k, v)) \<and>
    tlv_find_step buf len ty True i =
      (if k = ty then Inr (Inl (Some (tlv_of ty v rest))) else Inr (Inr j))"
proof -
  define n where "n = length (key_bytes k)"
  define s where "s = i + of_nat n"
  define j where "j = s + of_nat (length (cval_bytes v))"
  have n: "n = 1 \<and> k < 24 \<or> n = 2 \<and> \<not> k < 24" by (simp add: n_def key_bytes_def)
  have fit': "unat i + (n + length (cval_bytes v)) \<le> 65535"
    using fit by (simp add: entry_bytes_def n_def)
  have us: "unat s = unat i + n" unfolding s_def using fit' by (intro u16_add_of_nat) simp
  then have uj: "unat j = unat i + length (entry_bytes (k, v))"
    unfolding j_def using fit' by (subst u16_add_of_nat) (simp_all add: entry_bytes_def n_def)
  have bs: "drop (unat s) buf = cval_bytes v @ rest"
  proof -
    have "drop (unat s) buf = drop n (drop (unat i) buf)" by (simp add: us add.commute)
    then show ?thesis by (simp add: buf entry_bytes_def n_def)
  qed
  have skip: "tlv_skip buf s = Inr j"
    unfolding j_def using fit' cval_bytes_pos [of v] us by (intro skip_cval [OF bs v]) linarith
  have lt: "unat i + 1 < 65536" using fit' n by linarith
  have js: "j - s = of_nat (length (cval_bytes v))" by (simp add: j_def)
  show ?thesis
  proof (intro exI conjI)
    show "unat j = unat i + length (entry_bytes (k, v))" by (rule uj)
    show "tlv_find_step buf len ty True i =
      (if k = ty then Inr (Inl (Some (tlv_of ty v rest))) else Inr (Inr j))"
    proof (cases "k < 24")
      case True
      then have "s = i + 1" using n by (simp add: s_def)
      moreover have "rd buf (unat i) = Inr k"
        using buf True by (intro rd_at0) (simp add: entry_bytes_def key_bytes_def)
      moreover have "k \<noteq> 0xFF" using True by auto
      ultimately show ?thesis
        using skip bs js len True by (simp add: tlv_find_step_def tlv_of_def)
    next
      case False
      then have s: "s = i + 1 + 1" using n by (simp add: s_def)
      have b: "drop (unat i) buf = 0x18 # k # cval_bytes v @ rest"
        using buf False by (simp add: entry_bytes_def key_bytes_def)
      have r: "rd buf (unat (i + 1)) = Inr k" using rd_at1 [OF b] lt by (simp add: unat_u16_inc)
      from skip bs js have sk: "tlv_skip buf (i + 1 + 1) = Inr j"
        "drop (unat (i + 1 + 1)) buf = cval_bytes v @ rest"
        "j - (i + 1 + 1) = of_nat (length (cval_bytes v))" by (simp_all only: s)
      show ?thesis
        using len rd_at0 [OF b] r sk by (simp add: tlv_find_step_def tlv_of_def)
    qed
  qed
qed

lemma find_loop_lookup:
  assumes "drop (unat i) buf = entries_bytes kvs @ 0xFF # rest"
    and "\<forall>kv \<in> set kvs. cval_ok (snd kv)"
    and "unat i + length (entries_bytes kvs) < unat len"
  shows "tlv_lookup kvs ty (tlv_find_loop buf len ty True i)"
  using assms
proof (induction kvs arbitrary: i)
  case Nil
  then have "rd buf (unat i) = Inr 0xFF" by (intro rd_at0) simp
  then have "tlv_find_step buf len ty True i = Inr (Inl None)"
    by (simp add: tlv_find_step_def)
  then show ?case by (simp add: tlv_lookup_def tlv_find_loop.simps [of _ _ _ _ i])
next
  case (Cons kv kvs)
  obtain k v where kv: "kv = (k, v)" by (cases kv)
  let ?rest = "entries_bytes kvs @ 0xFF # rest"
  have b: "drop (unat i) buf = entry_bytes (k, v) @ ?rest" using Cons.prems(1) kv by simp
  have len: "unat len < 65536" by simp
  have fit: "unat i + length (entry_bytes (k, v)) \<le> 65535" and il: "i < len"
    using Cons.prems(3) kv len by (auto simp: word_less_nat_alt simp del: unat_lt_u16)
  obtain j where uj: "unat j = unat i + length (entry_bytes (k, v))"
    and st: "tlv_find_step buf len ty True i =
      (if k = ty then Inr (Inl (Some (tlv_of ty v ?rest))) else Inr (Inr j))"
    using find_step_entry [OF b _ fit il] Cons.prems(2) kv by fastforce
  show ?case
  proof (cases "k = ty")
    case True
    then show ?thesis using st kv
      by (auto simp: tlv_lookup_def tlv_find_loop.simps [of _ _ _ _ i])
  next
    case False
    have bj: "drop (unat j) buf = ?rest"
    proof -
      have "drop (unat j) buf = drop (length (entry_bytes (k, v))) (drop (unat i) buf)"
        by (simp add: uj add.commute)
      then show ?thesis by (simp add: b)
    qed
    have "tlv_lookup kvs ty (tlv_find_loop buf len ty True j)"
      by (rule Cons.IH [OF bj]) (use Cons.prems kv uj in auto)
    then show ?thesis using False st kv
      by (simp add: tlv_lookup_def tlv_find_loop.simps [of _ _ _ _ i])
  qed
qed

lemma find_map:
  assumes "\<forall>kv \<in> set kvs. cval_ok (snd kv)" "length (map_bytes kvs) = unat len"
  shows "tlv_lookup kvs ty (ykp_tlv_find (map_bytes kvs @ rest) len ty)"
proof -
  have "\<not> len < 2" using assms(2) by (simp add: map_bytes_def word_less_nat_alt)
  then have "ykp_tlv_find (map_bytes kvs @ rest) len ty =
      tlv_find_loop (map_bytes kvs @ rest) len ty True 1"
    by (simp add: ykp_tlv_find_def map_bytes_def)
  moreover have "tlv_lookup kvs ty (tlv_find_loop (map_bytes kvs @ rest) len ty True 1)"
    by (rule find_loop_lookup [where rest = rest]) (use assms in \<open>auto simp: map_bytes_def\<close>)
  ultimately show ?thesis by simp
qed

section \<open>What a builder holds\<close>

definition tb_holds :: "ykp_tlv_builder_t \<Rightarrow> (u8 \<times> cval) list \<Rightarrow> bool" where
  "tb_holds b kvs \<longleftrightarrow> enc_wf (tlv_to_cbor b) \<and> enc_out (tlv_to_cbor b) = 0xBF # entries_bytes kvs"

lemma tb_holds_init:
  assumes "0 < cap" "unat cap \<le> length buf"
  shows "tb_holds (ykp_tlv_builder_init buf cap) []"
proof -
  have c: "1 \<le> unat cap" using assms(1) by (simp add: word_less_nat_alt)
  then obtain x xs where "buf = x # xs" using assms(2) by (cases buf) auto
  then show ?thesis using c assms
    by (simp add: tb_holds_def tlv_to_cbor_def ykp_tlv_builder_init_def enc_wf_def enc_out_def)
qed

lemma tlv_cbor_tlv:
  assumes "enc_wf e" "enc_size e = unat (tb_cap b)"
  shows "enc_wf (tlv_to_cbor (cbor_to_tlv b e))"
    "enc_out (tlv_to_cbor (cbor_to_tlv b e)) = enc_out e"
    "tb_cap (cbor_to_tlv b e) = tb_cap b"
proof -
  have "enc_len e \<le> unat (tb_cap b)" using assms by (simp add: enc_wf_def)
  then have "enc_len e < 65536" by (rule le_less_trans) simp
  then show "enc_wf (tlv_to_cbor (cbor_to_tlv b e))"
    "enc_out (tlv_to_cbor (cbor_to_tlv b e)) = enc_out e"
    "tb_cap (cbor_to_tlv b e) = tb_cap b"
    using assms by (simp_all add: tlv_to_cbor_def cbor_to_tlv_def enc_wf_def enc_out_def)
qed

lemma tb_len_entries:
  assumes "tb_holds b kvs" shows "unat (tb_len b) = 1 + length (entries_bytes kvs)"
proof -
  have wf: "enc_wf (tlv_to_cbor b)" and out: "enc_out (tlv_to_cbor b) = 0xBF # entries_bytes kvs"
    using assms by (simp_all add: tb_holds_def)
  have "length (enc_out (tlv_to_cbor b)) = unat (tb_len b)"
    using wf by (simp add: enc_out_def enc_wf_def tlv_to_cbor_def)
  then show ?thesis unfolding out by simp
qed

text \<open>An operation that adds one value: key, then value, through the shared encoder.\<close>

locale tlv_adder = val: appender putv encv
  for putv :: "cbor_encoder \<Rightarrow> 'v \<Rightarrow> cbor_encoder" and encv :: "'v \<Rightarrow> bytes" +
  fixes add :: "ykp_tlv_builder_t \<Rightarrow> u8 \<Rightarrow> 'v \<Rightarrow> bool \<times> ykp_tlv_builder_t"
    and cval :: "'v \<Rightarrow> cval"
  assumes add_eq: "add b k v =
      (let enc = putv (cbor_encode_key (tlv_to_cbor b) k) v
       in (\<not> enc_overflow enc, cbor_to_tlv b enc))"
    and encv_eq: "encv v = cval_bytes (cval v)"

sublocale tlv_adder \<subseteq> pair: appender_pair cbor_encode_key key_bytes putv encv
  by unfold_locales

context tlv_adder
begin

lemma add_pair:
  "add b k v = (\<not> enc_overflow (pair.put_both (tlv_to_cbor b) (k, v)),
    cbor_to_tlv b (pair.put_both (tlv_to_cbor b) (k, v)))"
  by (simp add: add_eq pair.put_both_def Let_def)

lemma entry_eq: "key_bytes k @ encv v = entry_bytes (k, cval v)"
  by (simp add: entry_bytes_def encv_eq)

lemma add_ok_iff:
  assumes "tb_holds b kvs"
  shows "fst (add b k v) \<longleftrightarrow>
    length (entry_bytes (k, cval v)) \<le> unat (tb_cap b) - unat (tb_len b)"
proof -
  have "enc_wf (tlv_to_cbor b)" "\<not> enc_overflow (tlv_to_cbor b)"
    using assms by (simp_all add: tb_holds_def tlv_to_cbor_def)
  note * = pair.both.put_overflow_iff [OF this, of "(k, v)"]
  have r: "enc_room (tlv_to_cbor b) = unat (tb_cap b) - unat (tb_len b)"
    by (simp add: enc_room_def tlv_to_cbor_def)
  show ?thesis
    unfolding add_pair fst_conv * r Product_Type.fst_conv Product_Type.snd_conv entry_eq not_less ..
qed

lemma add_holds:
  assumes "tb_holds b kvs" "fst (add b k v)"
  shows "tb_holds (snd (add b k v)) (kvs @ [(k, cval v)])"
proof -
  let ?e = "tlv_to_cbor b" and ?e' = "pair.put_both (tlv_to_cbor b) (k, v)"
  have wf: "enc_wf ?e" and out: "enc_out ?e = 0xBF # entries_bytes kvs"
    using assms(1) by (simp_all add: tb_holds_def)
  have "\<not> enc_overflow ?e'" using assms(2) by (simp add: add_pair)
  then have "length (key_bytes k @ encv v) \<le> enc_room ?e"
    using pair.both.put_over [OF wf, of "(k, v)"] not_less by (metis fst_conv snd_conv)
  then have "enc_out ?e' = enc_out ?e @ entry_bytes (k, cval v)"
    using pair.both.put_fits [OF wf, of "(k, v)"] by (simp add: entry_bytes_def encv_eq)
  moreover have "enc_size ?e' = unat (tb_cap b)"
    using pair.both.put_ext [OF wf, of "(k, v)"] by (simp add: enc_ext_def tlv_to_cbor_def)
  ultimately show ?thesis
    using tlv_cbor_tlv [of ?e' b] pair.both.put_wf [OF wf, of "(k, v)"] out
    by (simp add: tb_holds_def add_pair)
qed

lemma add_frame:
  assumes "tb_holds b kvs"
  shows "tb_cap (snd (add b k v)) = tb_cap b" "length (tb_buf (snd (add b k v))) = length (tb_buf b)"
proof -
  have "enc_wf (tlv_to_cbor b)" using assms by (simp add: tb_holds_def)
  from pair.both.put_ext [OF this, of "(k, v)"]
  show "tb_cap (snd (add b k v)) = tb_cap b" "length (tb_buf (snd (add b k v))) = length (tb_buf b)"
    by (simp_all add: add_pair cbor_to_tlv_def enc_ext_def tlv_to_cbor_def)
qed

lemma add_fits:
  assumes "tb_holds b kvs" "1 + length (entries_bytes (kvs @ [(k, cval v)])) \<le> unat (tb_cap b)"
  shows "fst (add b k v) \<and> tb_holds (snd (add b k v)) (kvs @ [(k, cval v)]) \<and>
    tb_cap (snd (add b k v)) = tb_cap b"
proof -
  note tb_len_entries [OF assms(1)]
  then have "fst (add b k v)" using assms(2) by (simp add: add_ok_iff [OF assms(1)])
  then show ?thesis using add_holds [OF assms(1)] add_frame(1) [OF assms(1)] by blast
qed

end

interpretation u8_adder: tlv_adder "\<lambda>e v. cbor_encode_uint e (ucast v)"
  "\<lambda>v. uint_bytes (ucast v)" ykp_tlv_add_uint8 "\<lambda>v. VUint (ucast v)"
  by unfold_locales (auto simp: ykp_tlv_add_uint8_def uint_put.put_wf uint_put.put_ext
      uint_put.put_fits uint_put.put_over)

interpretation u16_adder: tlv_adder "\<lambda>e v. cbor_encode_uint e (ucast v)"
  "\<lambda>v. uint_bytes (ucast v)" ykp_tlv_add_uint16 "\<lambda>v. VUint (ucast v)"
  by unfold_locales (auto simp: ykp_tlv_add_uint16_def uint_put.put_wf uint_put.put_ext
      uint_put.put_fits uint_put.put_over)

interpretation u32_adder: tlv_adder "\<lambda>e v. cbor_encode_uint e (ucast v)"
  "\<lambda>v. uint_bytes (ucast v)" ykp_tlv_add_uint32 "\<lambda>v. VUint (ucast v)"
  by unfold_locales (auto simp: ykp_tlv_add_uint32_def uint_put.put_wf uint_put.put_ext
      uint_put.put_fits uint_put.put_over)

interpretation u64_adder: tlv_adder cbor_encode_uint uint_bytes ykp_tlv_add_uint64 VUint
  by unfold_locales (auto simp: ykp_tlv_add_uint64_def)

interpretation i32_adder: tlv_adder "\<lambda>e v. cbor_encode_int e (scast v)" int32_bytes
  ykp_tlv_add_int32 VInt32
  by unfold_locales (auto simp: ykp_tlv_add_int32_def)

interpretation float_adder: tlv_adder cbor_encode_float16 float16_bytes ykp_tlv_add_float VFloat
  by unfold_locales (auto simp: ykp_tlv_add_float_def)

interpretation bytes_adder: tlv_adder "\<lambda>e d. cbor_encode_bytes e d (length d)" "str_bytes 0x40"
  ykp_tlv_add_bytes VBytes
  by unfold_locales (auto simp: ykp_tlv_add_bytes_def)

interpretation str_adder: tlv_adder cbor_encode_str "str_bytes 0x60" ykp_tlv_add_string VStr
  by unfold_locales (auto simp: ykp_tlv_add_string_def)

section \<open>Reading back\<close>

lemma rd_u16_write [simp]: "rd_u16 (h # write_u16_be w @ tail) (Suc 0) = Inr w"
  by (simp add: rd_u16_def write_u16_be_def numeral_2_eq_2)

lemma rd_u32_write [simp]: "rd_u32 (h # write_u32_be w @ tail) (Suc 0) = Inr w"
  by (simp add: rd_u32_def write_u32_be_def numeral_2_eq_2 numeral_3_eq_3)

lemma foldl_be64: "foldl (\<lambda>out b. push_bit 8 out OR ucast b) 0 (be64_bytes v) = (v :: u64)"
proof -
  have step: "push_bit 8 (drop_bit (n + 8) v) OR ucast (ucast (drop_bit n v) :: u8) = drop_bit n v"
    for n
  proof (rule bit_word_eqI)
    fix k :: nat assume "k < LENGTH(64)"
    then show "bit (push_bit 8 (drop_bit (n + 8) v) OR ucast (ucast (drop_bit n v) :: u8)) k =
        bit (drop_bit n v) k"
      by (cases "k < 8") (auto simp: bit_simps ac_simps)
  qed
  have "drop_bit 64 v = 0" by (rule bit_word_eqI) (auto simp: bit_simps dest: bit_imp_le_length)
  then show ?thesis
    using step [of 56] step [of 48] step [of 40] step [of 32] step [of 24] step [of 16] step [of 8]
      step [of 0]
    by (simp add: be64_bytes_def)
qed

lemma rd_bytes_be64 [simp]: "rd_bytes (h # be64_bytes v @ tail) (Suc 0) 8 = Inr (be64_bytes v)"
  by (simp add: slice_def)

lemma tlv_of_sel [simp]:
  "tlv_value (tlv_of k v tail) = cval_bytes v @ tail" "tlv_type (tlv_of k v tail) = k"
  by (simp_all add: tlv_of_def)

lemma cval_length: "cval_ok v \<Longrightarrow> length (cval_bytes v) < 65536"
  using le_less_trans [OF length_cbor_head, of 65536]
  by (cases v) (auto simp: uint_bytes_def int32_bytes_def float16_bytes_def str_bytes_def
      str_head_def)

lemma tlv_of_length [simp]: "cval_ok v \<Longrightarrow> tlv_length (tlv_of k v tail) \<noteq> 0"
proof -
  assume "cval_ok v"
  then have "unat (tlv_length (tlv_of k v tail)) = length (cval_bytes v)"
    using cval_length [of v] by (simp add: tlv_of_def)
  then show ?thesis using cval_bytes_pos [of v] by force
qed

lemma take_bit_word_small: "unat (v :: u64) < 2 ^ n \<Longrightarrow> take_bit n v = v"
  by (metis unsigned_take_bit_eq take_bit_nat_eq_self unsigned_word_eqI)

lemma ucast_ucast_take:
  "(ucast (ucast v :: u8) :: u64) = take_bit 8 v"
  "(ucast (ucast v :: u16) :: u64) = take_bit 16 v"
  "(ucast (ucast v :: u32) :: u64) = take_bit 32 v"
  by (auto intro!: bit_word_eqI simp: bit_simps)

lemma ucast_narrow:
  "v \<le> 0xFF \<Longrightarrow> (ucast (ucast (v :: u64) :: u8) :: u32) = ucast v"
  "v \<le> 0xFF \<Longrightarrow> (ucast (ucast (v :: u64) :: u8) :: u16) = ucast v"
  "v \<le> 0xFFFF \<Longrightarrow> (ucast (ucast (v :: u64) :: u16) :: u32) = ucast v"
proof -
  have "(ucast (ucast v :: u8) :: u32) = ucast (take_bit 8 v)"
    "(ucast (ucast v :: u8) :: u16) = ucast (take_bit 8 v)"
    "(ucast (ucast v :: u16) :: u32) = ucast (take_bit 16 v)"
    by (auto intro!: bit_word_eqI simp: bit_simps)
  then show "v \<le> 0xFF \<Longrightarrow> (ucast (ucast v :: u8) :: u32) = ucast v"
    "v \<le> 0xFF \<Longrightarrow> (ucast (ucast v :: u8) :: u16) = ucast v"
    "v \<le> 0xFFFF \<Longrightarrow> (ucast (ucast v :: u16) :: u32) = ucast v"
    by (simp_all add: take_bit_word_small word_le_nat_alt)
qed

lemma ucast_narrow_small:
  "v < 24 \<Longrightarrow> (ucast (ucast (v :: u64) :: u8) :: u32) = ucast v"
  "v < 24 \<Longrightarrow> (ucast (ucast (v :: u64) :: u8) :: u16) = ucast v"
  by (rule ucast_narrow; simp add: word_less_nat_alt word_le_nat_alt)+

lemma ucast_widen [simp]:
  "(ucast (ucast (x :: u32) :: u64) :: u32) = x" "(ucast (ucast (y :: u16) :: u64) :: u16) = y"
  "(ucast (ucast (z :: u8) :: u64) :: u8) = z"
  by (auto intro!: bit_word_eqI simp: bit_simps)

lemma ucast_not_widen: "(ucast (NOT (ucast (NOT x) :: u64)) :: u32) = x"
  by (auto intro!: bit_word_eqI simp: bit_simps)

lemma ucast_back:
  "(v :: u64) \<le> 0xFF \<Longrightarrow> (ucast (ucast v :: u8) :: u64) = v"
  "(v :: u64) \<le> 0xFFFF \<Longrightarrow> (ucast (ucast v :: u16) :: u64) = v"
  "(v :: u64) \<le> 0xFFFFFFFF \<Longrightarrow> (ucast (ucast v :: u32) :: u64) = v"
  by (simp_all add: take_bit_word_small word_le_nat_alt ucast_ucast_take)

lemma read_uint64_head:
  "ykp_tlv_read_uint64 (tlv_of k (VUint v) tail) = Inr (Some v)"
proof (cases v rule: cbor_head_cases)
  case tiny
  then have "v \<le> 0xFF" by (simp add: word_less_nat_alt word_le_nat_alt)
  with tiny show ?thesis
    by (simp add: ykp_tlv_read_uint64_def uint_bytes_def cbor_head_def small_masks ucast_small
        ucast_back)
qed (simp_all add: ykp_tlv_read_uint64_def uint_bytes_def cbor_head_def ucast_back foldl_be64)

lemma read_uint32_head:
  "v \<le> 0xFFFFFFFF \<Longrightarrow> ykp_tlv_read_uint32 (tlv_of k (VUint v) tail) = Inr (Some (ucast v))"
proof (cases v rule: cbor_head_cases)
  case tiny
  then show ?thesis
    by (simp add: ykp_tlv_read_uint32_def uint_bytes_def cbor_head_def small_masks ucast_small
        ucast_narrow_small)
qed (simp_all add: ykp_tlv_read_uint32_def uint_bytes_def cbor_head_def ucast_narrow)

lemma read_uint16_head:
  "v \<le> 0xFFFF \<Longrightarrow> ykp_tlv_read_uint16 (tlv_of k (VUint v) tail) = Inr (Some (ucast v))"
proof (cases v rule: cbor_head_cases)
  case tiny
  then show ?thesis
    by (simp add: ykp_tlv_read_uint16_def uint_bytes_def cbor_head_def small_masks ucast_small
        ucast_narrow_small)
qed (simp_all add: ykp_tlv_read_uint16_def uint_bytes_def cbor_head_def ucast_narrow)

lemma read_uint8_head:
  "v \<le> 0xFF \<Longrightarrow> ykp_tlv_read_uint8 (tlv_of k (VUint v) tail) = Inr (Some (ucast v))"
proof (cases v rule: cbor_head_cases)
  case tiny
  then show ?thesis
    by (simp add: ykp_tlv_read_uint8_def uint_bytes_def cbor_head_def small_masks ucast_small)
qed (auto simp: ykp_tlv_read_uint8_def uint_bytes_def cbor_head_def)

lemma read_float_head:
  "ykp_tlv_read_float (tlv_of k (VFloat f) tail) =
   map_option (\<lambda>x. Inr (Some x)) (float16_to_float32 (float32_to_float16 f))"
  by (simp add: ykp_tlv_read_float_def float16_bytes_def)

lemma read_int32_neg:
  assumes "u \<le> 0xFFFFFFFF" "tlv_value t = cbor_head 0x20 u @ tail" "tlv_length t \<noteq> 0"
  shows "ykp_tlv_read_int32 t = Inr (Some (ucast (-1 - u)))"
proof (cases u rule: cbor_head_cases)
  case tiny
  then have "u \<le> 0xFF" by (simp add: word_less_nat_alt word_le_nat_alt)
  with tiny assms show ?thesis
    by (simp add: ykp_tlv_read_int32_def cbor_head_def small_masks ucast_small Let_def ucast_back)
qed (use assms in \<open>simp_all add: ykp_tlv_read_int32_def cbor_head_def Let_def ucast_back\<close>)

lemma read_int32_pos:
  assumes "tlv_value t = cbor_head 0 u @ tail" "tlv_length t \<noteq> 0"
  shows "ykp_tlv_read_int32 t = ykp_tlv_read_uint32 t"
proof -
  obtain h s where "cbor_head 0 u = h # s" "h AND 0xE0 = 0"
    using cbor_head_cons [of 0 u] by blast
  with assms show ?thesis by (simp add: ykp_tlv_read_int32_def Let_def)
qed

lemma read_int32_head: "ykp_tlv_read_int32 (tlv_of k (VInt32 v) tail) = Inr (Some v)"
proof (cases "0 \<le> sint v")
  case True
  let ?t = "tlv_of k (VInt32 v) tail"
  have eq: "?t = tlv_of k (VUint (ucast v)) tail"
    using True by (simp add: tlv_of_def int32_bytes_def uint_bytes_def)
  have "ykp_tlv_read_int32 ?t = ykp_tlv_read_uint32 ?t"
    by (rule read_int32_pos [of _ "ucast v" tail]) (use True in \<open>simp_all add: int32_bytes_def\<close>)
  then show ?thesis unfolding eq by (simp add: read_uint32_head ucast32_le ucast_widen)
next
  case False
  have "ykp_tlv_read_int32 (tlv_of k (VInt32 v) tail) =
      Inr (Some (ucast (-1 - (ucast (-1 - v) :: u64))))"
    by (rule read_int32_neg [where tail = tail])
      (use False in \<open>simp_all add: ucast32_le int32_bytes_def\<close>)
  then show ?thesis by (simp add: minus_one_minus ucast_not_widen)
qed

section \<open>The contract of the layer\<close>

lemma builder_len_map:
  assumes "tb_holds b kvs" "tb_len b < tb_cap b"
  shows "\<exists>rest. tb_buf (snd (ykp_tlv_builder_len b)) = map_bytes kvs @ rest"
    and "unat (fst (ykp_tlv_builder_len b)) = length (map_bytes kvs)"
proof -
  have out: "take (unat (tb_len b)) (tb_buf b) = 0xBF # entries_bytes kvs"
    and len: "unat (tb_cap b) \<le> length (tb_buf b)" "unat (tb_len b) < unat (tb_cap b)"
    using assms by (auto simp: tb_holds_def enc_wf_def enc_out_def tlv_to_cbor_def word_less_nat_alt)
  have n: "length (0xBF # entries_bytes kvs) = unat (tb_len b)"
    unfolding out [symmetric] using len by simp
  have "(tb_buf b)[unat (tb_len b) := 0xFF] =
      (0xBF # entries_bytes kvs) @ [0xFF] @ drop (Suc (unat (tb_len b))) (tb_buf b)"
    using len by (simp add: upd_conv_take_nth_drop out)
  then show "\<exists>rest. tb_buf (snd (ykp_tlv_builder_len b)) = map_bytes kvs @ rest"
    using assms(2) by (simp add: ykp_tlv_builder_len_def map_bytes_def)
  have "unat (tb_len b) + 1 < 65536" using len(2) unat_lt_u16 [of "tb_cap b"] by linarith
  then show "unat (fst (ykp_tlv_builder_len b)) = length (map_bytes kvs)"
    using assms(2) n by (simp add: ykp_tlv_builder_len_def map_bytes_def unat_u16_inc)
qed

text \<open>The payload a finished builder yields.\<close>

lemma builder_payload:
  assumes "tb_holds b kvs" "length (map_bytes kvs) \<le> unat (tb_cap b)"
  shows "take (unat (fst (ykp_tlv_builder_len b))) (tb_buf (snd (ykp_tlv_builder_len b))) = map_bytes kvs"
    "unat (fst (ykp_tlv_builder_len b)) = length (map_bytes kvs)"
    "length (map_bytes kvs) \<le> length (tb_buf (snd (ykp_tlv_builder_len b)))"
proof -
  have "tb_len b < tb_cap b"
    using assms tb_len_entries [OF assms(1)] by (simp add: word_less_nat_alt map_bytes_def)
  note l = builder_len_map [OF assms(1) this]
  show u: "unat (fst (ykp_tlv_builder_len b)) = length (map_bytes kvs)" by (rule l(2))
  show "take (unat (fst (ykp_tlv_builder_len b))) (tb_buf (snd (ykp_tlv_builder_len b))) = map_bytes kvs"
    "length (map_bytes kvs) \<le> length (tb_buf (snd (ykp_tlv_builder_len b)))"
    using l(1) u by auto
qed

text \<open>
  What an adder and a reader promise together. \<open>ok\<close> is the domain on which the reader
  returns \<open>view\<close> of the value: the value itself for all types but \<open>float\<close>, whose mantissa
  is cut to ten bits.
\<close>

locale tlv_codec = tlv_adder putv encv add cval
  for putv :: "cbor_encoder \<Rightarrow> 'v \<Rightarrow> cbor_encoder" and encv add cval +
  fixes read :: "ykp_tlv_t \<Rightarrow> (fault + 'r option) option"
    and ok :: "'v \<Rightarrow> bool" and view :: "'v \<Rightarrow> 'r"
  assumes read_ok: "ok v \<Longrightarrow> read (tlv_of k (cval v) tail) = Some (Inr (Some (view v)))"
    and ok_cval: "ok v \<Longrightarrow> cval_ok (cval v)"
begin

text \<open>An entry of a finished builder is found and read back: the first one under its type.\<close>

lemma built_read:
  assumes b: "tb_holds b kvs" "tb_len b < tb_cap b"
    and kvs: "\<forall>kv \<in> set kvs. cval_ok (snd kv)" "map_of kvs k = Some (cval v)" and v: "ok v"
  shows "bindC (ykp_tlv_find (tb_buf (snd (ykp_tlv_builder_len b)))
      (fst (ykp_tlv_builder_len b)) k) (\<lambda>r. case r of None \<Rightarrow> retC None | Some t \<Rightarrow> read t) =
    Some (Inr (Some (view v)))"
proof -
  obtain rest where buf: "tb_buf (snd (ykp_tlv_builder_len b)) = map_bytes kvs @ rest"
    using builder_len_map(1) [OF b] by blast
  have "tlv_lookup kvs k (ykp_tlv_find (map_bytes kvs @ rest) (fst (ykp_tlv_builder_len b)) k)"
    by (rule find_map) (use kvs builder_len_map(2) [OF b] in simp_all)
  then show ?thesis using kvs(2) v by (auto simp: tlv_lookup_def buf read_ok)
qed

lemma add_read:
  assumes b: "tb_holds b kvs" "\<forall>kv \<in> set kvs. cval_ok (snd kv)" "map_of kvs k = None"
    and add: "add b k v = (True, b')" "tb_len b' < tb_cap b'" and v: "ok v"
  shows "bindC (ykp_tlv_find (tb_buf (snd (ykp_tlv_builder_len b')))
      (fst (ykp_tlv_builder_len b')) k) (\<lambda>r. case r of None \<Rightarrow> retC None | Some t \<Rightarrow> read t) =
    Some (Inr (Some (view v)))"
proof (rule built_read)
  show "tb_holds b' (kvs @ [(k, cval v)])" using add_holds [OF b(1), of k v] add by simp
  show "\<forall>kv \<in> set (kvs @ [(k, cval v)]). cval_ok (snd kv)" using b(2) v ok_cval by auto
  show "map_of (kvs @ [(k, cval v)]) k = Some (cval v)" using b(3) by (simp add: map_add_def)
qed (use add v in simp_all)

end

text \<open>Every value of a narrower type is below the bound of the reader of that type.\<close>

lemma ucast_bounds:
  "(ucast (v :: u8) :: u64) \<le> 0xFF" "(ucast (w :: u16) :: u64) \<le> 0xFFFF"
  using unat_lt_u8 [of v] unat_lt_u16 [of w]
  by (simp_all add: word_le_nat_alt unsigned_ucast_eq take_bit_nat_eq_self del: unat_lt_u8 unat_lt_u16)

interpretation u8_codec: tlv_codec "\<lambda>e v. cbor_encode_uint e (ucast v)"
  "\<lambda>v. uint_bytes (ucast v)" ykp_tlv_add_uint8 "\<lambda>v. VUint (ucast v)"
  "\<lambda>t. Some (ykp_tlv_read_uint8 t)" "\<lambda>v. True" "\<lambda>v. v"
  by unfold_locales (simp_all add: read_uint8_head ucast_bounds)

interpretation u16_codec: tlv_codec "\<lambda>e v. cbor_encode_uint e (ucast v)"
  "\<lambda>v. uint_bytes (ucast v)" ykp_tlv_add_uint16 "\<lambda>v. VUint (ucast v)"
  "\<lambda>t. Some (ykp_tlv_read_uint16 t)" "\<lambda>v. True" "\<lambda>v. v"
  by unfold_locales (simp_all add: read_uint16_head ucast_bounds)

interpretation u32_codec: tlv_codec "\<lambda>e v. cbor_encode_uint e (ucast v)"
  "\<lambda>v. uint_bytes (ucast v)" ykp_tlv_add_uint32 "\<lambda>v. VUint (ucast v)"
  "\<lambda>t. Some (ykp_tlv_read_uint32 t)" "\<lambda>v. True" "\<lambda>v. v"
  by unfold_locales (simp_all add: read_uint32_head ucast32_le)

interpretation u64_codec: tlv_codec cbor_encode_uint uint_bytes ykp_tlv_add_uint64 VUint
  "\<lambda>t. Some (ykp_tlv_read_uint64 t)" "\<lambda>v. True" "\<lambda>v. v"
  by unfold_locales (simp_all add: read_uint64_head)

interpretation i32_codec: tlv_codec "\<lambda>e v. cbor_encode_int e (scast v)" int32_bytes
  ykp_tlv_add_int32 VInt32 "\<lambda>t. Some (ykp_tlv_read_int32 t)" "\<lambda>v. True" "\<lambda>v. v"
  by unfold_locales (simp_all add: read_int32_head)

interpretation float_codec: tlv_codec cbor_encode_float16 float16_bytes ykp_tlv_add_float VFloat
  ykp_tlv_read_float "\<lambda>f. 113 \<le> exp8 f \<and> exp8 f \<le> 142" "\<lambda>f. f AND NOT 0x1FFF"
  by unfold_locales (simp_all add: read_float_head normal_truncates)

text \<open>
  There is no reader for byte strings: the code uses \<open>value\<close> and \<open>length\<close> of the entry as
  they are. What it sees is the CBOR head followed by the bytes.
\<close>

definition tlv_raw :: "ykp_tlv_t \<Rightarrow> fault + bytes option" where
  "tlv_raw t = bindE (rd_bytes (tlv_value t) 0 (unat (tlv_length t))) (\<lambda>d. Inr (Some d))"

lemma tlv_raw_of:
  assumes "cval_ok v" shows "tlv_raw (tlv_of k v tail) = Inr (Some (cval_bytes v))"
proof -
  have "unat (tlv_length (tlv_of k v tail)) = length (cval_bytes v)"
    using cval_length [OF assms] by (simp add: tlv_of_def)
  then show ?thesis by (simp add: tlv_raw_def slice_def)
qed

interpretation bytes_codec: tlv_codec "\<lambda>e d. cbor_encode_bytes e d (length d)" "str_bytes 0x40"
  ykp_tlv_add_bytes VBytes "\<lambda>t. Some (tlv_raw t)" "\<lambda>d. length d < 256" "str_bytes 0x40"
  by unfold_locales (simp_all add: tlv_raw_of)

interpretation str_codec: tlv_codec cbor_encode_str "str_bytes 0x60" ykp_tlv_add_string VStr
  "\<lambda>t. Some (tlv_raw t)" "\<lambda>s. length s < 256" "str_bytes 0x60"
  by unfold_locales (simp_all add: tlv_raw_of)

section \<open>Properties\<close>

text \<open>
  C1. The finder is the lookup of the list of entries: on the map of any list of values
  (strings up to 255 bytes), whatever follows it in memory, \<open>ykp_tlv_find\<close> ends and returns
  the first value under the type with its length, and "not found" if there is none.
\<close>

theorem tlv_find_is_lookup:
  assumes "\<forall>kv \<in> set kvs. cval_ok (snd kv)" "length (map_bytes kvs) = unat len"
  shows "case map_of kvs ty of
      None \<Rightarrow> ykp_tlv_find (map_bytes kvs @ rest) len ty = Some (Inr None)
    | Some v \<Rightarrow> (\<exists>t. ykp_tlv_find (map_bytes kvs @ rest) len ty = Some (Inr (Some t)) \<and>
        tlv_type t = ty \<and> tlv_length t = of_nat (length (cval_bytes v)) \<and>
        take (length (cval_bytes v)) (tlv_value t) = cval_bytes v)"
  using find_map [OF assms, of ty rest]
  by (auto simp: tlv_lookup_def tlv_of_def split: option.splits)

theorem tlv_find_is_lookup_witness:
  "\<exists>t. ykp_tlv_find (map_bytes [(3, VUint 1), (9, VBytes [7, 7])] @ [1, 2]) 8 9 = Some (Inr (Some t)) \<and>
    tlv_type t = 9 \<and> tlv_length t = 3 \<and> take 3 (tlv_value t) = [0x42, 7, 7]"
proof -
  have b: "cval_bytes (VBytes [7, 7]) = [0x42, 7, 7]" by code_simp
  show ?thesis
    using tlv_find_is_lookup [where kvs = "[(3, VUint 1), (9, VBytes [7, 7])]" and len = 8 and ty = 9
          and rest = "[1, 2]"]
    by (simp add: b) (simp add: map_bytes_def entry_bytes_def key_bytes_def uint_bytes_def
        cbor_head_def str_bytes_def str_head_def numeral_3_eq_3)
qed

text \<open>
  What \<open>ykp_tlv_add_int32\<close> adds to a builder, under a type not used before, is what
  \<open>ykp_tlv_find\<close> and \<open>ykp_tlv_read_int32\<close> return from the finished buffer, for every signed
  32-bit value and every content of the builder.
\<close>

lemma tlv_int32_roundtrip:
  assumes "tb_holds b kvs" "\<forall>kv \<in> set kvs. cval_ok (snd kv)" "map_of kvs k = None"
    and "ykp_tlv_add_int32 b k v = (True, b')" "tb_len b' < tb_cap b'"
    and "ykp_tlv_builder_len b' = (n, b'')"
  shows "bindC (ykp_tlv_find (tb_buf b'') n k)
      (\<lambda>r. case r of None \<Rightarrow> retC None | Some t \<Rightarrow> Some (ykp_tlv_read_int32 t)) =
    Some (Inr (Some v))"
  using i32_codec.add_read [OF assms(1-5)] assms(6) by simp

lemma tlv_int32_roundtrip_instance:
  "bindC (ykp_tlv_find [0xBF, 4, 0x38, 0x63, 0xFF, 0, 0, 0] 5 4)
      (\<lambda>r. case r of None \<Rightarrow> retC None | Some t \<Rightarrow> Some (ykp_tlv_read_int32 t)) =
    Some (Inr (Some (-100)))"
proof -
  let ?b = "ykp_tlv_builder_init (replicate 8 0) 8"
  have 1: "tb_holds ?b []" by (rule tb_holds_init) simp_all
  have 2: "ykp_tlv_add_int32 ?b 4 (-100) =
      (True, \<lparr>tb_buf = [0xBF, 4, 0x38, 0x63, 0, 0, 0, 0], tb_cap = 8, tb_len = 4\<rparr>)"
    by code_simp
  have 3: "ykp_tlv_builder_len \<lparr>tb_buf = [0xBF, 4, 0x38, 0x63, 0, 0, 0, 0], tb_cap = 8, tb_len = 4\<rparr> =
      (5, \<lparr>tb_buf = [0xBF, 4, 0x38, 0x63, 0xFF, 0, 0, 0], tb_cap = 8, tb_len = 4\<rparr>)"
    by code_simp
  show ?thesis using tlv_int32_roundtrip [OF 1 _ _ 2 _ 3] by simp
qed

text \<open>
  A byte string is not read back as it was added: what the code gets as \<open>value\<close> and
  \<open>length\<close> is the CBOR head of the string followed by its bytes, one byte more for strings
  below 24 bytes and two more from there to 255.
\<close>

lemma tlv_bytes_keep_head:
  assumes "tb_holds b kvs" "\<forall>kv \<in> set kvs. cval_ok (snd kv)" "map_of kvs k = None"
    and "ykp_tlv_add_bytes b k d = (True, b')" "tb_len b' < tb_cap b'"
    and "ykp_tlv_builder_len b' = (n, b'')" and "length d < 256"
  shows "bindC (ykp_tlv_find (tb_buf b'') n k)
      (\<lambda>r. case r of None \<Rightarrow> retC None | Some t \<Rightarrow> Some (tlv_raw t)) =
    Some (Inr (Some ((if length d < 24 then [0x40 OR of_nat (length d)]
                      else [0x58, of_nat (length d)]) @ d)))"
proof -
  have "str_bytes 0x40 d = (if length d < 24 then [0x40 OR of_nat (length d)]
      else [0x58, of_nat (length d)]) @ d"
    by (simp add: str_bytes_def str_head_def)
  then show ?thesis using bytes_codec.add_read [OF assms(1-5,7)] assms(6) by simp
qed

lemma tlv_bytes_keep_head_instance:
  "bindC (ykp_tlv_find [0xBF, 10, 0x42, 1, 2, 0xFF, 0, 0] 6 10)
      (\<lambda>r. case r of None \<Rightarrow> retC None | Some t \<Rightarrow> Some (tlv_raw t)) =
    Some (Inr (Some [0x42, 1, 2]))"
proof -
  let ?b = "ykp_tlv_builder_init (replicate 8 0) 8"
  have 1: "tb_holds ?b []" by (rule tb_holds_init) simp_all
  have 2: "ykp_tlv_add_bytes ?b 10 [1, 2] =
      (True, \<lparr>tb_buf = [0xBF, 10, 0x42, 1, 2, 0, 0, 0], tb_cap = 8, tb_len = 5\<rparr>)"
    by code_simp
  have 3: "ykp_tlv_builder_len \<lparr>tb_buf = [0xBF, 10, 0x42, 1, 2, 0, 0, 0], tb_cap = 8, tb_len = 5\<rparr> =
      (6, \<lparr>tb_buf = [0xBF, 10, 0x42, 1, 2, 0xFF, 0, 0], tb_cap = 8, tb_len = 5\<rparr>)"
    by code_simp
  show ?thesis using tlv_bytes_keep_head [OF 1 _ _ 2 _ 3] by simp
qed

end
