(* ===== verification/Tlv_Walk.thy ===== *)
theory Tlv_Walk
  imports Tlv
begin

text \<open>
  How \<open>ykp_tlv_find\<close> (\<open>main/ykp_core/ykp_packet.c\<close>) behaves on bytes that did not come
  from the builder: which bytes it may read, when it ends, and the input on which it does
  not end.
\<close>

section \<open>Reads\<close>

text \<open>A turn that starts below \<open>buf_len\<close> reads at most four bytes past it.\<close>

lemma unat_u16_inc_le: "unat ((i :: u16) + 1) \<le> unat i + 1"
  by (cases "i = 0xFFFF") (auto simp: unat_plus_if')

lemma skip_reads: "unat i + 2 < length buf \<Longrightarrow> tlv_skip buf i \<noteq> Inl e"
  using unat_u16_inc_le [of i]
  by (auto simp: tlv_skip_def Let_def rd_def bindE_def split: if_splits)

lemma step_reads:
  assumes "unat len + 4 \<le> length buf" shows "tlv_find_step buf len ty ind i \<noteq> Inl e"
proof (cases "i < len")
  case True
  then have i: "unat i < unat len" by (simp add: word_less_nat_alt)
  have 1: "unat (i + 1) \<le> unat i + 1" "unat (i + 1 + 1) \<le> unat i + 2"
    using unat_u16_inc_le [of i] unat_u16_inc_le [of "i + 1"] by simp_all
  have s: "tlv_skip buf (i + 1) \<noteq> Inl e" "tlv_skip buf (i + 1 + 1) \<noteq> Inl e" for e
    by (rule skip_reads; use 1 i assms in linarith)+
  have r: "rd buf (unat i) = Inr (buf ! unat i)" "rd buf (unat (i + 1)) = Inr (buf ! unat (i + 1))"
    using 1 i assms by simp_all
  show ?thesis
    using True s by (auto simp: tlv_find_step_def r bindE_def split: if_splits sum.splits)
qed (simp add: tlv_find_step_def)

text \<open>The turns of the loop as a relation, and what a result says: some turn returned it.\<close>

definition find_moves :: "bytes \<Rightarrow> u16 \<Rightarrow> u8 \<Rightarrow> bool \<Rightarrow> u16 \<Rightarrow> u16 \<Rightarrow> bool" where
  "find_moves buf len ty ind i j \<longleftrightarrow> tlv_find_step buf len ty ind i = Inr (Inr j)"

lemma loop_trace:
  assumes "tlv_find_loop buf len ty ind i = Some r"
  shows "\<exists>j. (find_moves buf len ty ind)\<^sup>*\<^sup>* i j \<and>
    tlv_find_step buf len ty ind j = (case r of Inl e \<Rightarrow> Inl e | Inr x \<Rightarrow> Inr (Inl x))"
  using assms
proof (induction rule: tlv_find_loop.raw_induct [rotated, consumes 1, where P = "\<lambda>buf len ty ind i r.
    \<exists>j. (find_moves buf len ty ind)\<^sup>*\<^sup>* i j \<and>
      tlv_find_step buf len ty ind j = (case r of Inl e \<Rightarrow> Inl e | Inr x \<Rightarrow> Inr (Inl x))"])
  case (1 loop buf len ty ind i r)
  show ?case
  proof (cases "tlv_find_step buf len ty ind i")
    case (Inl e)
    then show ?thesis using 1(2) by (intro exI [of _ i]) auto
  next
    case s: (Inr x)
    show ?thesis
    proof (cases x)
      case (Inl y)
      then show ?thesis using 1(2) s by (intro exI [of _ i]) auto
    next
      case (Inr k)
      then have "loop buf len ty ind k = Some r" using 1(2) s by simp
      from 1(1) [OF this] obtain j where j: "(find_moves buf len ty ind)\<^sup>*\<^sup>* k j"
        "tlv_find_step buf len ty ind j = (case r of Inl e \<Rightarrow> Inl e | Inr x \<Rightarrow> Inr (Inl x))"
        by blast
      moreover have "find_moves buf len ty ind i k" using s Inr by (simp add: find_moves_def)
      ultimately show ?thesis by (meson converse_rtranclp_into_rtranclp)
    qed
  qed
qed

lemma loop_reads:
  assumes "unat len + 4 \<le> length buf" shows "tlv_find_loop buf len ty ind i \<noteq> Some (Inl e)"
  using loop_trace [of buf len ty ind i "Inl e"] step_reads [OF assms] by auto

lemma find_reads:
  assumes "unat len + 4 \<le> length buf" shows "ykp_tlv_find buf len ty \<noteq> Some (Inl e)"
  using assms loop_reads [OF assms]
  by (auto simp: ykp_tlv_find_def retC_def bindC_def rd_def split: if_splits)

section \<open>An input on which the loop does not end\<close>

text \<open>
  A string head with a 16-bit length of \<open>0xFFFC\<close> at index 2 brings the \<open>uint16_t\<close> index
  back to 1, for every type but the key of that entry.
\<close>

lemma find_moves_back:
  assumes "ty \<noteq> 1" "2 \<le> len" "buf = 0xBF # 0x01 # 0x59 # 0xFF # 0xFC # rest"
  shows "tlv_find_step buf len ty True 1 = Inr (Inr 1)"
proof -
  have len: "1 < len" using assms(2) by (rule less_le_trans [rotated]) simp
  have "read_u16_be 0xFF 0xFC = 0xFFFC" by (simp add: read_u16_be_def)
  then have "tlv_skip buf 2 = Inr 1"
    by (simp add: tlv_skip_def assms(3) Let_def)
  then show ?thesis using assms(1) len by (simp add: tlv_find_step_def assms(3))
qed

lemma find_stuck:
  assumes "tlv_find_step buf len ty ind i = Inr (Inr i)"
  shows "tlv_find_loop buf len ty ind i = None"
proof (rule ccontr)
  assume "tlv_find_loop buf len ty ind i \<noteq> None"
  then obtain r where "tlv_find_loop buf len ty ind i = Some r" by blast
  from loop_trace [OF this] obtain j where
    j: "(find_moves buf len ty ind)\<^sup>*\<^sup>* i j"
    "tlv_find_step buf len ty ind j = (case r of Inl e \<Rightarrow> Inl e | Inr x \<Rightarrow> Inr (Inl x))" by blast
  from j(1) have "j = i"
    by (induction rule: rtranclp_induct) (use assms in \<open>auto simp: find_moves_def\<close>)
  then show False using j(2) assms by (cases r) auto
qed

section \<open>When it ends\<close>

text \<open>
  A turn moves the index forward by what it read; the only way back is a 16-bit string length
  that wraps. \<open>small_heads\<close> excludes it: no string head in the buffer claims 64768 bytes
  or more.
\<close>

definition small_heads :: "bytes \<Rightarrow> bool" where
  "small_heads buf \<longleftrightarrow>
     (\<forall>n < length buf. buf ! n AND 0x1F = 0x19 \<and> n + 1 < length buf \<longrightarrow> buf ! (n + 1) < 0xFD)"

lemma unat_read_u16: "unat (read_u16_be a b) = unat a * 256 + unat b"
proof -
  have "push_bit 8 (ucast a) AND ucast b = (0 :: u16)"
    by (rule bit_word_eqI) (auto simp: bit_simps dest: bit_imp_le_length)
  then have "read_u16_be a b = push_bit 8 (ucast a) + ucast b"
    unfolding read_u16_be_def by (rule disjunctive_add_eq_or [symmetric])
  moreover have "unat (push_bit 8 (ucast a) :: u16) = unat a * 256"
    unfolding unsigned_push_bit_eq
    using unat_lt_u8 [of a]
    by (simp add: push_bit_eq_mult unsigned_ucast_eq take_bit_nat_eq_self del: unat_lt_u8)
  moreover have "unat (ucast b :: u16) = unat b"
    using unat_lt_u8 [of b] by (simp add: unsigned_ucast_eq take_bit_nat_eq_self del: unat_lt_u8)
  moreover have "unat a * 256 + unat b < 65536" using unat_lt_u8 [of a] unat_lt_u8 [of b] by linarith
  ultimately show ?thesis by (simp add: unat_u16_add)
qed

text \<open>How far one value reaches: at most 258 bytes without a 16-bit length.\<close>

definition reaches :: "bytes \<Rightarrow> u16 \<Rightarrow> nat \<Rightarrow> bool" where
  "reaches buf i d \<longleftrightarrow> 1 \<le> d \<and> (d \<le> 258 \<or>
    unat i + 2 < length buf \<and> buf ! unat i AND 0x1F = 0x19 \<and>
    d = 3 + unat (buf ! (unat i + 1)) * 256 + unat (buf ! (unat i + 2)))"

lemma skip_string_advance:
  assumes h: "rd buf (unat i) = Inr h" "h AND 0xE0 = 0x40 \<or> h AND 0xE0 = 0x60"
    and s: "tlv_skip buf i = Inr j" and i: "unat i + 1 < 65536"
  shows "\<exists>d. j = i + of_nat d \<and> reaches buf i d"
proof -
  let ?info = "h AND 0x1F"
  note u = unat_u16_inc [OF i]
  have s': "(if ?info < 24 then Inr (i + 1 + ucast ?info)
     else if ?info = 0x18 then bindE (rd buf (unat (i + 1))) (\<lambda>l. Inr (i + 1 + 1 + ucast l))
     else if ?info = 0x19 then bindE (rd buf (unat (i + 1))) (\<lambda>p0.
       bindE (rd buf (unat (i + 1) + 1)) (\<lambda>p1. Inr (i + 1 + 2 + read_u16_be p0 p1)))
     else Inr (i + 1)) = Inr j"
    using s h by (auto simp: tlv_skip_def Let_def)
  consider (tiny) "?info < 24" "j = i + 1 + ucast ?info" | (none) "j = i + 1"
    | (one) b where "j = i + 1 + 1 + ucast (b :: u8)"
    | (two) p0 p1 where "?info = 0x19" "rd buf (unat (i + 1)) = Inr p0"
        "rd buf (unat (i + 1) + 1) = Inr p1" "j = i + 1 + 2 + read_u16_be p0 p1"
    using s' by (simp only: bindE_Inr_iff split: if_splits) auto
  then show ?thesis
  proof cases
    case none
    then show ?thesis by (intro exI [of _ 1]) (simp add: reaches_def)
  next
    case tiny
    then have "unat ?info < 24" by (simp add: word_less_nat_alt)
    then show ?thesis using tiny
      by (intro exI [of _ "1 + unat ?info"]) (simp add: algebra_simps reaches_def)
  next
    case (one b)
    then show ?thesis using unat_lt_u8 [of b]
      by (intro exI [of _ "2 + unat b"]) (simp add: algebra_simps reaches_def del: unat_lt_u8)
  next
    case (two p0 p1)
    have "j = i + of_nat (3 + unat (read_u16_be p0 p1))"
      using two(4) by (simp add: algebra_simps)
    moreover have "buf ! unat i = h" "buf ! (unat i + 1) = p0" "buf ! (unat i + 2) = p1"
      "unat i + 2 < length buf" using two(2,3) h(1) u by (auto simp: rd_Inr_iff)
    ultimately show ?thesis using two(1)
      by (intro exI [of _ "3 + unat (read_u16_be p0 p1)"]) (simp add: unat_read_u16 reaches_def)
  qed
qed

lemma skip_advance:
  assumes s: "tlv_skip buf i = Inr j" and i: "unat i + 1 < 65536"
  shows "\<exists>d. j = i + of_nat d \<and> reaches buf i d"
proof -
  obtain h where h: "rd buf (unat i) = Inr h" using s by (cases "rd buf (unat i)") (auto simp: tlv_skip_def)
  show ?thesis
  proof (cases "h AND 0xE0 = 0x40 \<or> h AND 0xE0 = 0x60")
    case True
    then show ?thesis using skip_string_advance [OF h _ s i] by blast
  next
    case False
    then have "j \<in> {i + 1, i + 1 + 1, i + 1 + 2, i + 1 + 4, i + 1 + 8}"
      using s h by (auto simp: tlv_skip_def Let_def split: if_splits)
    then have "j \<in> (\<lambda>d. i + of_nat d) ` {1, 2, 3, 5, 9}" by (simp add: algebra_simps)
    moreover have "reaches buf i d" if "d \<in> {1, 2, 3, 5, 9}" for d
      using that by (auto simp: reaches_def)
    ultimately show ?thesis by blast
  qed
qed

lemma reaches_bound:
  assumes "reaches buf i d" "small_heads buf" shows "d \<le> 64770"
proof (cases "d \<le> 258")
  case False
  then have r: "unat i + 2 < length buf" "buf ! unat i AND 0x1F = 0x19"
    and d: "d = 3 + unat (buf ! (unat i + 1)) * 256 + unat (buf ! (unat i + 2))"
    using assms(1) by (auto simp: reaches_def)
  have "buf ! (unat i + 1) < 0xFD" using assms(2) r unfolding small_heads_def by simp
  then have "unat (buf ! (unat i + 1)) \<le> 252" by (simp add: word_less_nat_alt)
  then show ?thesis using d unat_lt_u8 [of "buf ! (unat i + 2)"] by linarith
qed simp

lemma step_progress:
  assumes s: "tlv_find_step buf len ty ind i = Inr (Inr j)"
    and len: "unat len \<le> 512" and b: "small_heads buf"
  shows "i < len \<and> unat i < unat j"
proof -
  have il: "i < len" using s by (auto simp: tlv_find_step_def split: if_splits)
  then have i: "unat i < 512" using len by (simp add: word_less_nat_alt)
  have u1: "unat (i + 1) = unat i + 1" using i by (simp add: unat_u16_inc)
  have u2: "unat (i + 1 + 1) = unat i + 2" using i unat_u16_inc [of "i + 1"] u1 by linarith
  obtain v where v: "v = i + 1 \<or> v = i + 1 + 1" "tlv_skip buf v = Inr j"
    using s il by (auto simp: tlv_find_step_def bindE_Inr_iff split: if_splits)
  then have uv: "unat i < unat v" "unat v < 514" using u1 u2 i by auto
  obtain d where d: "j = v + of_nat d" "reaches buf v d"
    using skip_advance [OF v(2)] uv by auto
  then have "1 \<le> d" "d \<le> 64770" using reaches_bound [OF _ b] by (auto simp: reaches_def)
  then have "unat j = unat v + d" using d(1) uv by (simp add: u16_add_of_nat)
  then show ?thesis using il uv by simp
qed

lemma loop_ends:
  assumes len: "unat len \<le> 512" and b: "small_heads buf"
  shows "tlv_find_loop buf len ty ind i \<noteq> None"
proof (induction "unat len - unat i" arbitrary: i rule: less_induct)
  case less
  show ?case
  proof (cases "\<exists>j. tlv_find_step buf len ty ind i = Inr (Inr j)")
    case True
    then obtain j where s: "tlv_find_step buf len ty ind i = Inr (Inr j)" by blast
    from step_progress [OF s len b] have "unat len - unat j < unat len - unat i"
      unfolding word_less_nat_alt by linarith
    then show ?thesis using less s by (simp add: tlv_find_loop.simps [of _ _ _ _ i])
  next
    case False
    then show ?thesis
      by (auto simp: tlv_find_loop.simps [of _ _ _ _ i] split: sum.splits)
  qed
qed

lemma find_ends:
  assumes "unat len \<le> 512" "small_heads buf"
  shows "ykp_tlv_find buf len ty \<noteq> None"
  using loop_ends [OF assms]
  by (auto simp: ykp_tlv_find_def retC_def bindC_def rd_def split: if_splits)

section \<open>Definite maps\<close>

text \<open>The declared number of pairs is read and never used: the entry after it is found.\<close>

lemma find_past_pairs:
  "ykp_tlv_find [0xA1, 0x01, 0x05, 0x02, 0x07] 5 2 =
   Some (Inr (Some \<lparr>tlv_type = 2, tlv_length = 1, tlv_value = [0x07]\<rparr>))"
  by code_simp

section \<open>Properties\<close>

text \<open>
  Memory safety of the finder on any bytes: if the object behind \<open>buf\<close> has four bytes
  more than \<open>buf_len\<close>, \<open>ykp_tlv_find\<close> never reads outside it. A packet in the receive buffer
  has them: 16 bytes of authentication tag follow the payload.
\<close>

lemma tlv_find_reads_inside:
  assumes "unat len + 4 \<le> length buf"
  shows "ykp_tlv_find buf len ty \<noteq> Some (Inl e)"
  using assms by (rule find_reads)

lemma tlv_find_reads_inside_instance:
  "ykp_tlv_find [0xA1, 1, 0x59, 1, 2, 3, 4, 5] 4 1 \<noteq> Some (Inl OutOfBounds)"
  by (rule tlv_find_reads_inside) simp

text \<open>
  Without those bytes it does read outside: a map whose last byte is the head of a
  string with a two-byte length makes the finder read past \<open>buf_len\<close>.
\<close>

lemma tlv_find_reads_beyond:
  "ykp_tlv_find [0xBF, 0x18, 0x01, 0x59] 4 1 = Some (Inl OutOfBounds)"
  by code_simp

text \<open>
  C18. Termination: on every buffer of at most 512 bytes in which no byte that could be the
  head of a 16-bit length is followed by a byte from \<open>0xFD\<close> up, \<open>ykp_tlv_find\<close> returns
  (a fault, a read outside the bytes given, counts as returning).
\<close>

theorem tlv_find_terminates:
  assumes "unat len \<le> 512" "small_heads buf"
  shows "\<exists>r. ykp_tlv_find buf len ty = Some r"
  using find_ends [OF assms] by blast

theorem tlv_find_terminates_witness:
  "\<exists>r. ykp_tlv_find [0xBF, 1, 0x59, 0xFC, 0xFF, 0, 0, 0] 8 2 = Some r"
proof (rule tlv_find_terminates)
  show "small_heads [0xBF, 1, 0x59, 0xFC, 0xFF, 0, 0, 0]" by code_simp
qed simp

text \<open>
  C15. The bound is needed: five bytes make \<open>ykp_tlv_find\<close> loop for ever, for every type but 1
  and every \<open>buf_len\<close> from 2 on. The length \<open>0xFFFC\<close> of the string at index 2 wraps the
  16-bit index back to 1. The bytes can arrive in any unauthenticated security packet.
\<close>

theorem tlv_find_hangs:
  assumes "ty \<noteq> 1" "2 \<le> len"
  shows "ykp_tlv_find (0xBF # 0x01 # 0x59 # 0xFF # 0xFC # rest) len ty = None"
proof -
  have "\<not> len < 2" using assms(2) by simp
  then show ?thesis
    using find_stuck [OF find_moves_back [OF assms refl]] by (simp add: ykp_tlv_find_def)
qed

theorem tlv_find_hangs_witness:
  "ykp_tlv_find [0xBF, 0x01, 0x59, 0xFF, 0xFC] 5 10 = None"
  by (rule tlv_find_hangs) simp_all

end
