(* ===== verification/Packet.thy ===== *)
theory Packet
  imports Tlv
begin

text \<open>
  Packets: \<open>main/ykp_core/ykp_packet.h\<close> and the packet functions of
  \<open>main/ykp_core/ykp_packet.c\<close>.

  The payload pointer of \<open>ykp_packet_t\<close> is NULL, a heap block with its contents, or the
  static receive buffer \<open>s_rx_payload_buf\<close>, whose contents are an argument of the functions
  that read or write it. \<open>free\<close> of the static buffer is the fault \<open>InvalidFree\<close>. Lengths are
  \<open>uint16_t\<close> and wrap as in the code.

  The lemmas: every output byte of \<open>ykp_packet_serialise\<close> and where it overflows, every
  result of \<open>ykp_packet_parse\<close>, and that the two are inverse on what either accepts.
\<close>

record ykp_header_t =
  h_magic_0 :: u8
  h_magic_1 :: u8
  h_version :: u8
  h_flags :: u8
  h_packet_id :: u32
  h_session_id :: u32
  h_source_id :: bytes
  h_dest_id :: bytes
  h_route_type :: u8
  h_service_id :: u8
  h_action_id :: u8
  h_payload_len :: u16

datatype payload_ptr = PNull | PHeap bytes | PStatic

record ykp_packet_t =
  p_header :: ykp_header_t
  p_payload :: payload_ptr
  p_auth_tag :: bytes
  p_payload_len :: u16

definition YKP_STATIC_PAYLOAD_BUF :: nat where "YKP_STATIC_PAYLOAD_BUF = 512"

section \<open>Allocation and release\<close>

definition zero_header :: ykp_header_t where
  "zero_header =
     \<lparr>h_magic_0 = 0, h_magic_1 = 0, h_version = 0, h_flags = 0, h_packet_id = 0,
      h_session_id = 0, h_source_id = replicate 8 0, h_dest_id = replicate 8 0,
      h_route_type = 0, h_service_id = 0, h_action_id = 0, h_payload_len = 0\<rparr>"

definition zero_packet :: ykp_packet_t where
  "zero_packet =
     \<lparr>p_header = zero_header, p_payload = PNull, p_auth_tag = replicate 16 0, p_payload_len = 0\<rparr>"

text \<open>\<open>calloc\<close> may fail: NULL is \<open>None\<close>.\<close>

definition ykp_packet_alloc :: "bool \<Rightarrow> ykp_packet_t option" where
  "ykp_packet_alloc calloc_ok = (if calloc_ok then Some zero_packet else None)"

definition free_ptr :: "payload_ptr \<Rightarrow> fault + unit" where
  "free_ptr p = (if p = PStatic then Inl InvalidFree else Inr ())"

definition ykp_packet_free_payload :: "ykp_packet_t option \<Rightarrow> fault + ykp_packet_t option" where
  "ykp_packet_free_payload pkt =
     (case pkt of None \<Rightarrow> Inr None
      | Some p \<Rightarrow>
          bindE (if p_payload p \<noteq> PNull \<and> p_payload p \<noteq> PStatic then free_ptr (p_payload p)
                 else Inr ())
            (\<lambda>_. Inr (Some (p\<lparr>p_payload := PNull\<rparr>))))"

definition ykp_packet_free :: "ykp_packet_t option \<Rightarrow> fault + unit" where
  "ykp_packet_free pkt =
     (case pkt of None \<Rightarrow> Inr ()
      | Some p \<Rightarrow>
          (if p_payload p \<noteq> PNull \<and> p_payload p \<noteq> PStatic then free_ptr (p_payload p) else Inr ()))"

section \<open>Building a packet\<close>

text \<open>An id is NULL or the bytes of a C string; \<open>qos\<close> and the service are the C enums.\<close>

definition ykp_packet_set_header ::
  "ykp_packet_t \<Rightarrow> u32 \<Rightarrow> u32 \<Rightarrow> bytes option \<Rightarrow> bytes option \<Rightarrow> ykp_route_t \<Rightarrow> ykp_service_t \<Rightarrow>
   u8 \<Rightarrow> ykp_qos_t \<Rightarrow> bool \<Rightarrow> ykp_packet_t" where
  "ykp_packet_set_header pkt packet_id session_id source_id dest_id route service action qos encrypted =
     pkt\<lparr>p_header := (p_header pkt)\<lparr>
       h_magic_0 := YKP_MAGIC_0, h_magic_1 := YKP_MAGIC_1, h_version := YKP_VERSION,
       h_flags := (let flags = qos_code qos AND YKP_FLAG_QOS_MASK
                   in if encrypted then flags OR YKP_FLAG_ENCRYPTED else flags),
       h_packet_id := packet_id, h_session_id := session_id,
       h_route_type := route_code route, h_service_id := service_code service,
       h_action_id := action,
       h_source_id := (case source_id of None \<Rightarrow> replicate YKP_DEVICE_ID_LEN 0
                       | Some s \<Rightarrow> strncpy_field YKP_DEVICE_ID_LEN s),
       h_dest_id := (case dest_id of None \<Rightarrow> replicate YKP_DEVICE_ID_LEN 0
                     | Some s \<Rightarrow> strncpy_field YKP_DEVICE_ID_LEN s)\<rparr>\<rparr>"

text \<open>\<open>payload\<close>: NULL, or the array the pointer points to; \<open>malloc_ok\<close>: whether malloc succeeds.\<close>

definition ykp_packet_set_payload ::
  "bool \<Rightarrow> ykp_packet_t \<Rightarrow> bytes option \<Rightarrow> u16 \<Rightarrow> fault + ykp_packet_t" where
  "ykp_packet_set_payload malloc_ok pkt payload len =
     bindE (if p_payload pkt \<noteq> PNull then free_ptr (p_payload pkt) else Inr ()) (\<lambda>_.
       case payload of
         None \<Rightarrow> Inr (pkt\<lparr>p_payload := PNull, p_payload_len := 0,
                          p_header := (p_header pkt)\<lparr>h_payload_len := 0\<rparr>\<rparr>)
       | Some data \<Rightarrow>
           if len = 0
           then Inr (pkt\<lparr>p_payload := PNull, p_payload_len := 0,
                         p_header := (p_header pkt)\<lparr>h_payload_len := 0\<rparr>\<rparr>)
           else if \<not> malloc_ok then Inr (pkt\<lparr>p_payload := PNull\<rparr>)
           else bindE (rd_bytes data 0 (unat len)) (\<lambda>copy.
             Inr (pkt\<lparr>p_payload := PHeap copy, p_payload_len := len,
                      p_header := (p_header pkt)\<lparr>h_payload_len := len\<rparr>\<rparr>)))"

section \<open>The wire format\<close>

text \<open>The bytes from the magic to \<open>PAYLOAD_LEN\<close> as \<open>ykp_packet_serialise\<close> writes them.\<close>

definition header_bytes :: "ykp_header_t \<Rightarrow> u16 \<Rightarrow> bytes" where
  "header_bytes h payload_len =
     [YKP_MAGIC_0, YKP_MAGIC_1, YKP_VERSION, h_flags h] @
     write_u32_be (h_packet_id h) @ write_u32_be (h_session_id h) @
     h_source_id h @ h_dest_id h @
     [h_route_type h, h_service_id h, h_action_id h] @ write_u16_be payload_len"

definition payload_mem :: "bytes \<Rightarrow> ykp_packet_t \<Rightarrow> bytes" where
  "payload_mem rx pkt = (case p_payload pkt of PNull \<Rightarrow> [] | PHeap d \<Rightarrow> d | PStatic \<Rightarrow> rx)"

text \<open>The result is the return value and the output array.\<close>

definition ykp_packet_serialise ::
  "bytes \<Rightarrow> ykp_packet_t \<Rightarrow> bytes \<Rightarrow> u16 \<Rightarrow> fault + u16 \<times> bytes" where
  "ykp_packet_serialise rx pkt out out_size =
     (let total = of_nat YKP_HEADER_SIZE + p_payload_len pkt + of_nat YKP_AUTH_TAG_SIZE
      in if out_size < total then Inr (0, out)
         else
           bindE (if p_payload_len pkt \<noteq> 0 \<and> p_payload pkt \<noteq> PNull
                  then rd_bytes (payload_mem rx pkt) 0 (unat (p_payload_len pkt)) else Inr [])
             (\<lambda>payload.
               bindE (wr_bytes out 0
                   (header_bytes (p_header pkt) (p_payload_len pkt) @ payload @ p_auth_tag pkt))
                 (\<lambda>out'. Inr (total, out'))))"

definition ykp_packet_validate_header :: "bytes \<Rightarrow> u16 \<Rightarrow> fault + bool" where
  "ykp_packet_validate_header raw raw_len =
     (if raw_len < of_nat YKP_MIN_PACKET then Inr False
      else bindE (rd raw 0) (\<lambda>m0. bindE (rd raw 1) (\<lambda>m1.
        if m0 \<noteq> YKP_MAGIC_0 \<or> m1 \<noteq> YKP_MAGIC_1 then Inr False
        else bindE (rd raw 2) (\<lambda>v. Inr (v = YKP_VERSION)))))"

text \<open>The header fields read from the array.\<close>

definition read_header :: "bytes \<Rightarrow> fault + ykp_header_t" where
  "read_header raw =
     bindE (rd raw 0) (\<lambda>m0. bindE (rd raw 1) (\<lambda>m1. bindE (rd raw 2) (\<lambda>ver. bindE (rd raw 3) (\<lambda>fl.
     bindE (rd_u32 raw 4) (\<lambda>pid. bindE (rd_u32 raw 8) (\<lambda>sid.
     bindE (rd_bytes raw 12 YKP_DEVICE_ID_LEN) (\<lambda>src.
     bindE (rd_bytes raw 20 YKP_DEVICE_ID_LEN) (\<lambda>dst.
     bindE (rd raw 28) (\<lambda>rt. bindE (rd raw 29) (\<lambda>sv. bindE (rd raw 30) (\<lambda>ac.
     bindE (rd_u16 raw 31) (\<lambda>len.
       Inr \<lparr>h_magic_0 = m0, h_magic_1 = m1, h_version = ver, h_flags = fl, h_packet_id = pid,
            h_session_id = sid, h_source_id = src, h_dest_id = dst, h_route_type = rt,
            h_service_id = sv, h_action_id = ac, h_payload_len = len\<rparr>))))))))))))"

text \<open>The result is the return value, the packet and the static receive buffer.\<close>

definition ykp_packet_parse ::
  "bytes \<Rightarrow> u16 \<Rightarrow> ykp_packet_t \<Rightarrow> bytes \<Rightarrow> fault + bool \<times> ykp_packet_t \<times> bytes" where
  "ykp_packet_parse raw raw_len pkt rx =
     bindE (ykp_packet_validate_header raw raw_len) (\<lambda>valid.
     if \<not> valid then Inr (False, pkt, rx)
     else bindE (read_header raw) (\<lambda>h.
       let pkt = pkt\<lparr>p_header := h\<rparr>;
           payload_len = h_payload_len h;
           expected = of_nat YKP_HEADER_SIZE + payload_len + of_nat YKP_AUTH_TAG_SIZE
       in if raw_len < expected then Inr (False, pkt, rx)
          else if 0 < payload_len then
            (if YKP_STATIC_PAYLOAD_BUF < unat payload_len then Inr (False, pkt, rx)
             else bindE (rd_bytes raw YKP_HEADER_SIZE (unat payload_len)) (\<lambda>pl.
               bindE (wr_bytes rx 0 pl) (\<lambda>rx.
               bindE (rd_bytes raw (YKP_HEADER_SIZE + unat payload_len) YKP_AUTH_TAG_SIZE) (\<lambda>tag.
               Inr (True, pkt\<lparr>p_payload := PStatic, p_payload_len := payload_len,
                              p_auth_tag := tag\<rparr>, rx)))))
          else bindE (rd_bytes raw YKP_HEADER_SIZE YKP_AUTH_TAG_SIZE) (\<lambda>tag.
               Inr (True, pkt\<lparr>p_payload := PNull, p_payload_len := 0, p_auth_tag := tag\<rparr>, rx))))"

section \<open>Serialising\<close>

text \<open>What a packet must satisfy for its bytes to be the format: array sizes, payload present.\<close>

definition pkt_wf :: "bytes \<Rightarrow> ykp_packet_t \<Rightarrow> bool" where
  "pkt_wf rx pkt \<longleftrightarrow>
     length (h_source_id (p_header pkt)) = 8 \<and> length (h_dest_id (p_header pkt)) = 8 \<and>
     length (p_auth_tag pkt) = 16 \<and>
     (p_payload pkt = PNull \<longrightarrow> p_payload_len pkt = 0) \<and>
     (p_payload pkt \<noteq> PNull \<longrightarrow> unat (p_payload_len pkt) \<le> length (payload_mem rx pkt))"

definition payload_of :: "bytes \<Rightarrow> ykp_packet_t \<Rightarrow> bytes" where
  "payload_of rx pkt = take (unat (p_payload_len pkt)) (payload_mem rx pkt)"

definition wire :: "bytes \<Rightarrow> ykp_packet_t \<Rightarrow> bytes" where
  "wire rx pkt =
     header_bytes (p_header pkt) (p_payload_len pkt) @ payload_of rx pkt @ p_auth_tag pkt"

lemma length_header_bytes [simp, wire_simps]:
  "length (h_source_id h) = 8 \<Longrightarrow> length (h_dest_id h) = 8 \<Longrightarrow> length (header_bytes h n) = 33"
  by (simp add: header_bytes_def)

lemma length_payload_of:
  "pkt_wf rx pkt \<Longrightarrow> length (payload_of rx pkt) = unat (p_payload_len pkt)"
  by (cases "p_payload pkt") (auto simp: pkt_wf_def payload_of_def)

lemma length_wire: "pkt_wf rx pkt \<Longrightarrow> length (wire rx pkt) = 49 + unat (p_payload_len pkt)"
  by (simp add: wire_def length_payload_of) (simp add: pkt_wf_def)

lemma total_eq: "of_nat YKP_HEADER_SIZE + n + of_nat YKP_AUTH_TAG_SIZE = (49 + n :: u16)"
  by (simp add: size_defs)

lemma serialise_eq:
  assumes "pkt_wf rx pkt"
  shows "ykp_packet_serialise rx pkt out out_size =
    (if out_size < 49 + p_payload_len pkt then Inr (0, out)
     else bindE (wr_bytes out 0 (wire rx pkt)) (\<lambda>out'. Inr (49 + p_payload_len pkt, out')))"
proof -
  have "(if p_payload_len pkt \<noteq> 0 \<and> p_payload pkt \<noteq> PNull
      then rd_bytes (payload_mem rx pkt) 0 (unat (p_payload_len pkt)) else Inr []) =
      Inr (payload_of rx pkt)"
    using assms by (auto simp: pkt_wf_def payload_of_def slice_def)
  then show ?thesis by (simp only: ykp_packet_serialise_def total_eq Let_def bindE_simps wire_def)
qed

text \<open>Below 65487 payload bytes the total does not wrap: nothing is written outside the buffer.\<close>

lemma serialise_safe:
  assumes wf: "pkt_wf rx pkt" and small: "unat (p_payload_len pkt) \<le> 65486"
    and out: "unat out_size \<le> length out"
  shows "ykp_packet_serialise rx pkt out out_size =
    (if unat out_size < 49 + unat (p_payload_len pkt) then Inr (0, out)
     else Inr (49 + p_payload_len pkt, wire rx pkt @ drop (49 + unat (p_payload_len pkt)) out))"
proof -
  have u: "unat (49 + p_payload_len pkt) = 49 + unat (p_payload_len pkt)"
    using small by (subst unat_u16_add) simp_all
  show ?thesis
    using length_wire [OF wf] out u
    by (simp add: serialise_eq [OF wf] word_less_nat_alt write_at_def del: unat_lt_u16)
qed

text \<open>From 65487 on it wraps and the size check passes for a small buffer.\<close>

lemma serialise_overflow:
  assumes wf: "pkt_wf rx pkt" and big: "65487 \<le> unat (p_payload_len pkt)"
    and out: "49 \<le> out_size" "length out < 65536"
  shows "ykp_packet_serialise rx pkt out out_size = Inl BufferOverflow"
proof -
  have "unat (49 + p_payload_len pkt) = 49 + unat (p_payload_len pkt) - 65536"
    using big unat_lt_u16 [of "p_payload_len pkt"]
    by (simp add: unat_word_ariths mod_if del: unat_lt_u16)
  then have "unat (49 + p_payload_len pkt) < 49"
    using unat_lt_u16 [of "p_payload_len pkt"] by linarith
  then have "\<not> out_size < 49 + p_payload_len pkt"
    using out(1) by (simp add: word_less_nat_alt word_le_nat_alt)
  moreover have "length out < length (wire rx pkt)" using length_wire [OF wf] out(2) big by simp
  ultimately show ?thesis by (simp add: serialise_eq [OF wf] wr_bytes_def)
qed

section \<open>Parsing\<close>

text \<open>The header at the start of an array, in one equation each way.\<close>

lemma bit_u8_beyond [simp]: "8 \<le> n \<Longrightarrow> \<not> bit (b :: u8) n"
  using bit_imp_le_length [of b n] by auto

lemma write_read_u32: "write_u32_be (read_u32_be a b c d) = [a, b, c, d]"
  by (auto simp: write_u32_be_def read_u32_be_def bit_simps intro!: bit_word_eqI)

lemma write_read_u16: "write_u16_be (read_u16_be a b) = [a, b]"
  by (auto simp: write_u16_be_def read_u16_be_def bit_simps intro!: bit_word_eqI)

lemma split_12:
  assumes "12 \<le> length xs"
  shows "\<exists>a b c d e f g h i j k l r. xs = a # b # c # d # e # f # g # h # i # j # k # l # r"
  using assms by (auto simp: Suc_le_length_iff numeral_eq_Suc)

lemma split_5:
  assumes "5 \<le> length xs" shows "\<exists>a b c d e r. xs = a # b # c # d # e # r"
  using assms by (auto simp: Suc_le_length_iff numeral_eq_Suc)

lemma header_split:
  assumes "33 \<le> length raw"
  obtains m0 m1 v fl a b c d e f g h src dst rt sv ac l0 l1 rest where
    "raw = [m0, m1, v, fl, a, b, c, d, e, f, g, h] @ src @ dst @ [rt, sv, ac, l0, l1] @ rest"
    "length src = 8" "length dst = 8"
proof -
  obtain m0 m1 v fl a b c d e f g h r1 where
    r1: "raw = m0 # m1 # v # fl # a # b # c # d # e # f # g # h # r1"
    using split_12 [of raw] assms by auto
  then have "5 \<le> length (drop 16 r1)" using assms by simp
  then obtain rt sv ac l0 l1 r2 where r2: "drop 16 r1 = rt # sv # ac # l0 # l1 # r2"
    using split_5 by blast
  have "take 8 (drop 8 r1) @ drop 16 r1 = drop 8 r1"
    using append_take_drop_id [of 8 "drop 8 r1"] by simp
  then have "r1 = take 8 r1 @ take 8 (drop 8 r1) @ drop 16 r1" by (metis append_take_drop_id)
  then show ?thesis
    using r1 r2 assms by (intro that [of m0 m1 v fl a b c d e f g h "take 8 r1" "take 8 (drop 8 r1)"
          rt sv ac l0 l1 r2]) simp_all
qed

lemma read_header_at:
  assumes "raw = [m0, m1, v, fl, a, b, c, d, e, f, g, h] @ src @ dst @ [rt, sv, ac, l0, l1] @ rest"
    "length src = 8" "length dst = 8"
  shows "read_header raw = Inr \<lparr>h_magic_0 = m0, h_magic_1 = m1, h_version = v, h_flags = fl,
    h_packet_id = read_u32_be a b c d, h_session_id = read_u32_be e f g h, h_source_id = src,
    h_dest_id = dst, h_route_type = rt, h_service_id = sv, h_action_id = ac,
    h_payload_len = read_u16_be l0 l1\<rparr>"
  using assms
  by (simp add: read_header_def rd_u32_def rd_u16_def size_defs slice_def nth_append)

lemma header_bytes_read:
  assumes "raw = [m0, m1, v, fl, a, b, c, d, e, f, g, h] @ src @ dst @ [rt, sv, ac, l0, l1] @ rest"
    "length src = 8" "length dst = 8" "m0 = YKP_MAGIC_0" "m1 = YKP_MAGIC_1" "v = YKP_VERSION"
    "read_header raw = Inr hdr"
  shows "header_bytes hdr (h_payload_len hdr) = take 33 raw"
    "length (h_source_id hdr) = 8" "length (h_dest_id hdr) = 8"
  using assms(7) unfolding read_header_at [OF assms(1-3)]
  by (auto simp: header_bytes_def write_read_u32 write_read_u16 assms(1-6))

lemma read_header_bytes:
  assumes "length (h_source_id h) = 8" "length (h_dest_id h) = 8"
  shows "read_header (header_bytes h n @ rest) = Inr (h\<lparr>h_magic_0 := YKP_MAGIC_0,
    h_magic_1 := YKP_MAGIC_1, h_version := YKP_VERSION, h_payload_len := n\<rparr>)"
proof -
  let ?p = "h_packet_id h" and ?s = "h_session_id h"
  have "header_bytes h n @ rest = [YKP_MAGIC_0, YKP_MAGIC_1, YKP_VERSION, h_flags h,
      ucast (drop_bit 24 ?p), ucast (drop_bit 16 ?p), ucast (drop_bit 8 ?p), ucast ?p,
      ucast (drop_bit 24 ?s), ucast (drop_bit 16 ?s), ucast (drop_bit 8 ?s), ucast ?s] @
      h_source_id h @ h_dest_id h @ [h_route_type h, h_service_id h, h_action_id h,
      ucast (drop_bit 8 n), ucast n] @ rest"
    by (simp add: header_bytes_def write_u32_be_def write_u16_be_def)
  from read_header_at [OF this assms] show ?thesis by simp
qed

text \<open>The outcome of parsing in terms of the header in the array.\<close>

definition accepted :: "ykp_header_t \<Rightarrow> u16 \<Rightarrow> bool" where
  "accepted h raw_len \<longleftrightarrow> h_magic_0 h = YKP_MAGIC_0 \<and> h_magic_1 h = YKP_MAGIC_1 \<and>
     h_version h = YKP_VERSION \<and> 49 + unat (h_payload_len h) \<le> unat raw_len \<and>
     unat (h_payload_len h) \<le> 512"

lemma expected_wraps:
  assumes "unat (n :: u16) \<le> 512" shows "unat (49 + n) = 49 + unat n"
  using assms by (subst unat_u16_add) simp_all

lemma min_packet_eq: "(raw_len :: u16) < of_nat YKP_MIN_PACKET \<longleftrightarrow> unat raw_len < 49"
  by (simp add: size_defs word_less_nat_alt)

lemma parse_eq:
  assumes raw: "49 \<le> unat raw_len" "unat raw_len \<le> length raw" and rx: "length rx = 512"
    and h: "read_header raw = Inr h"
  shows "\<exists>pkt' rx'. ykp_packet_parse raw raw_len pkt rx = Inr (accepted h raw_len, pkt', rx') \<and>
    length rx' = 512 \<and>
    (accepted h raw_len \<longrightarrow>
      (let n = unat (h_payload_len h) in
       pkt' = \<lparr>p_header = h, p_payload = if n = 0 then PNull else PStatic,
         p_auth_tag = slice (33 + n) 16 raw, p_payload_len = h_payload_len h\<rparr> \<and>
       rx' = write_at rx 0 (slice 33 n raw)))"
proof -
  have m: "rd raw 0 = Inr (h_magic_0 h)" "rd raw 1 = Inr (h_magic_1 h)" "rd raw 2 = Inr (h_version h)"
    using h by (auto simp: read_header_def bindE_Inr_iff)
  have valid: "ykp_packet_validate_header raw raw_len =
      Inr (h_magic_0 h = YKP_MAGIC_0 \<and> h_magic_1 h = YKP_MAGIC_1 \<and> h_version h = YKP_VERSION)"
    using raw by (simp only: ykp_packet_validate_header_def min_packet_eq m) auto
  let ?n = "h_payload_len h"
  show ?thesis
  proof (cases "h_magic_0 h = YKP_MAGIC_0 \<and> h_magic_1 h = YKP_MAGIC_1 \<and> h_version h = YKP_VERSION")
    case False
    then show ?thesis using rx by (auto simp: ykp_packet_parse_def valid accepted_def)
  next
    case magic: True
    show ?thesis
    proof (cases "unat ?n \<le> 512")
      case False
      then show ?thesis using magic rx h
        by (auto simp: ykp_packet_parse_def valid accepted_def Let_def YKP_STATIC_PAYLOAD_BUF_def
            word_less_nat_alt)
    next
      case True
      have e: "raw_len < 49 + ?n \<longleftrightarrow> unat raw_len < 49 + unat ?n"
        by (simp add: word_less_nat_alt expected_wraps [OF True])
      show ?thesis
      proof (cases "49 + unat ?n \<le> unat raw_len")
        case False
        then show ?thesis using magic rx h True
          by (auto simp: ykp_packet_parse_def valid accepted_def Let_def total_eq e)
      next
        case fits: True
        then have "33 + unat ?n + 16 \<le> length raw" using raw by simp
        moreover have "\<not> raw_len < 49" using raw(1) by (simp add: word_less_nat_alt)
        ultimately show ?thesis using magic rx h True fits
          by (cases "?n = 0"; cases pkt)
            (simp_all add: ykp_packet_parse_def valid accepted_def Let_def total_eq e size_defs
              YKP_STATIC_PAYLOAD_BUF_def word_gt_0 unsigned_eq_0_iff write_at_def)
      qed
    qed
  qed
qed

text \<open>Parsing never reads outside the array, never writes outside the receive buffer.\<close>

lemma read_header_ok: "33 \<le> length raw \<Longrightarrow> \<exists>h. read_header raw = Inr h"
  using header_split [of raw] read_header_at by metis

lemma parse_short:
  "unat raw_len < 49 \<Longrightarrow> ykp_packet_parse raw raw_len pkt rx = Inr (False, pkt, rx)"
  by (simp add: ykp_packet_parse_def ykp_packet_validate_header_def min_packet_eq)

lemma parse_total:
  assumes "unat raw_len \<le> length raw" "length rx = 512"
  shows "\<exists>ok pkt' rx'. ykp_packet_parse raw raw_len pkt rx = Inr (ok, pkt', rx') \<and> length rx' = 512"
proof (cases "unat raw_len < 49")
  case True
  then show ?thesis using assms(2) parse_short by blast
next
  case False
  then obtain h where "read_header raw = Inr h" using read_header_ok [of raw] assms(1) by auto
  from parse_eq [OF _ assms this, of pkt] False show ?thesis by auto
qed

text \<open>What is accepted is a frame: serialising the packet gives the bytes back.\<close>

lemma parse_accepts:
  assumes p: "ykp_packet_parse raw raw_len pkt rx = Inr (True, pkt', rx')"
    and raw: "unat raw_len \<le> length raw" "length rx = 512"
  shows "pkt_wf rx' pkt' \<and> unat (p_payload_len pkt') \<le> 512 \<and>
    49 + unat (p_payload_len pkt') \<le> unat raw_len \<and>
    wire rx' pkt' = take (49 + unat (p_payload_len pkt')) raw"
proof -
  have 49: "49 \<le> unat raw_len" using p parse_short by (metis Inr_inject Pair_inject not_less)
  then have "33 \<le> length raw" using raw(1) by simp
  from header_split [OF this] obtain m0 m1 v fl a b c d e f g i src dst rt sv ac l0 l1 rest where
    s: "raw = [m0, m1, v, fl, a, b, c, d, e, f, g, i] @ src @ dst @ [rt, sv, ac, l0, l1] @ rest"
      "length src = 8" "length dst = 8" by metis
  obtain h where h: "read_header raw = Inr h" using read_header_at [OF s] by blast
  have acc: "accepted h raw_len" and
    pk: "pkt' = \<lparr>p_header = h, p_payload = if unat (h_payload_len h) = 0 then PNull else PStatic,
         p_auth_tag = slice (33 + unat (h_payload_len h)) 16 raw, p_payload_len = h_payload_len h\<rparr>" and
    r: "rx' = write_at rx 0 (slice 33 (unat (h_payload_len h)) raw)"
    using parse_eq [OF 49 raw h, of pkt] p by (auto simp: Let_def)
  let ?n = "unat (h_payload_len h)"
  have fits: "?n \<le> 512" "49 + ?n \<le> length raw" using acc raw by (auto simp: accepted_def)
  have "m0 = YKP_MAGIC_0" "m1 = YKP_MAGIC_1" "v = YKP_VERSION"
    using acc h by (auto simp: accepted_def read_header_at [OF s])
  note hb = header_bytes_read [OF s this h]
  have pl: "payload_of rx' pkt' = slice 33 ?n raw"
    using fits by (simp add: payload_of_def payload_mem_def pk r write_at_def)
  have "wire rx' pkt' = take 33 raw @ slice 33 ?n raw @ slice (33 + ?n) 16 raw"
    by (simp add: wire_def pl) (simp add: pk hb)
  also have "\<dots> = take (33 + (?n + 16)) raw"
    unfolding take_add slice_def by (simp add: add.commute)
  also have "33 + (?n + 16) = 49 + ?n" by simp
  finally have "wire rx' pkt' = take (49 + ?n) raw" .
  moreover have "pkt_wf rx' pkt'"
    using fits raw(2) hb by (auto simp: pkt_wf_def pk r payload_mem_def unsigned_eq_0_iff)
  ultimately show ?thesis using acc by (simp add: pk accepted_def)
qed

text \<open>And every packet the firmware can hold is accepted from its bytes, with equal contents.\<close>

lemma parse_wire:
  assumes wf: "pkt_wf rx0 pkt" and n: "unat (p_payload_len pkt) \<le> 512"
    and raw: "take (length (wire rx0 pkt)) raw = wire rx0 pkt"
    and len: "length (wire rx0 pkt) \<le> unat raw_len" "unat raw_len \<le> length raw"
    and rx: "length rx = 512"
  shows "\<exists>pkt' rx'. ykp_packet_parse raw raw_len q rx = Inr (True, pkt', rx') \<and>
    p_header pkt' = (p_header pkt)\<lparr>h_magic_0 := YKP_MAGIC_0, h_magic_1 := YKP_MAGIC_1,
      h_version := YKP_VERSION, h_payload_len := p_payload_len pkt\<rparr> \<and>
    payload_of rx' pkt' = payload_of rx0 pkt \<and> p_auth_tag pkt' = p_auth_tag pkt \<and>
    p_payload_len pkt' = p_payload_len pkt"
proof -
  let ?n = "unat (p_payload_len pkt)"
  have lw: "length (wire rx0 pkt) = 49 + ?n" by (rule length_wire [OF wf])
  define tail where "tail = drop (49 + ?n) raw"
  have s: "raw = header_bytes (p_header pkt) (p_payload_len pkt) @ payload_of rx0 pkt @
      p_auth_tag pkt @ tail"
    using append_take_drop_id [of "49 + ?n" raw] raw unfolding lw by (simp add: tail_def wire_def)
  have ids: "length (h_source_id (p_header pkt)) = 8" "length (h_dest_id (p_header pkt)) = 8"
    "length (p_auth_tag pkt) = 16" using wf by (auto simp: pkt_wf_def)
  let ?h = "(p_header pkt)\<lparr>h_magic_0 := YKP_MAGIC_0, h_magic_1 := YKP_MAGIC_1,
      h_version := YKP_VERSION, h_payload_len := p_payload_len pkt\<rparr>"
  have h: "read_header raw = Inr ?h" unfolding s by (rule read_header_bytes [OF ids(1,2)])
  have acc: "accepted ?h raw_len" using len lw n by (simp add: accepted_def)
  have lh: "length (header_bytes (p_header pkt) (p_payload_len pkt)) = 33" using ids by simp
  have lp: "length (payload_of rx0 pkt) = ?n" by (rule length_payload_of [OF wf])
  have sl: "slice 33 ?n raw = payload_of rx0 pkt" "slice (33 + ?n) 16 raw = p_auth_tag pkt"
    unfolding s slice_def using lh lp ids by simp_all
  from parse_eq [OF _ len(2) rx h, of q] acc len lw obtain pkt' rx' where
    p: "ykp_packet_parse raw raw_len q rx = Inr (True, pkt', rx')"
    and pk: "pkt' = \<lparr>p_header = ?h, p_payload = if ?n = 0 then PNull else PStatic,
       p_auth_tag = slice (33 + ?n) 16 raw, p_payload_len = p_payload_len pkt\<rparr>"
    and r: "rx' = write_at rx 0 (slice 33 ?n raw)"
    by (auto simp: Let_def)
  have "payload_of rx' pkt' = payload_of rx0 pkt"
    unfolding payload_of_def [of rx'] using lp rx n
    by (auto simp: pk r sl payload_mem_def write_at_def)
  then show ?thesis using p by (simp add: pk sl)
qed

lemma free_payload_never_faults:
  "\<exists>p. ykp_packet_free_payload pkt = Inr p"
  by (auto simp: ykp_packet_free_payload_def free_ptr_def split: option.splits)

section \<open>Properties\<close>

text \<open>
  C8. Round trip: a packet of up to 512 payload bytes, serialised into any buffer that the
  size check accepts and parsed from it, comes back with the same header fields (magic,
  version and length filled in), payload and authentication tag.
\<close>

theorem packet_roundtrip:
  assumes wf: "pkt_wf rx0 pkt" and n: "unat (p_payload_len pkt) \<le> 512"
    and ser: "ykp_packet_serialise rx0 pkt out out_size = Inr (n_out, raw)" "n_out \<noteq> 0"
    and out: "unat out_size \<le> length out" and rx: "length rx = 512"
  shows "\<exists>pkt' rx'. ykp_packet_parse raw n_out q rx = Inr (True, pkt', rx') \<and>
    p_header pkt' = (p_header pkt)\<lparr>h_magic_0 := YKP_MAGIC_0, h_magic_1 := YKP_MAGIC_1,
      h_version := YKP_VERSION, h_payload_len := p_payload_len pkt\<rparr> \<and>
    payload_of rx' pkt' = payload_of rx0 pkt \<and> p_auth_tag pkt' = p_auth_tag pkt"
proof -
  have "unat (p_payload_len pkt) \<le> 65486" using n by simp
  from serialise_safe [OF wf this out] ser have
    s: "49 + unat (p_payload_len pkt) \<le> unat out_size" "n_out = 49 + p_payload_len pkt"
      "raw = wire rx0 pkt @ drop (49 + unat (p_payload_len pkt)) out"
    by (auto split: if_splits)
  have t: "unat n_out = 49 + unat (p_payload_len pkt)" using s(2) expected_wraps [OF n] by simp
  have "\<exists>pkt' rx'. ykp_packet_parse raw n_out q rx = Inr (True, pkt', rx') \<and>
    p_header pkt' = (p_header pkt)\<lparr>h_magic_0 := YKP_MAGIC_0, h_magic_1 := YKP_MAGIC_1,
      h_version := YKP_VERSION, h_payload_len := p_payload_len pkt\<rparr> \<and>
    payload_of rx' pkt' = payload_of rx0 pkt \<and> p_auth_tag pkt' = p_auth_tag pkt \<and>
    p_payload_len pkt' = p_payload_len pkt"
    by (rule parse_wire [OF wf n _ _ _ rx]) (use s t out length_wire [OF wf] in simp_all)
  then show ?thesis by blast
qed

theorem packet_roundtrip_witness:
  "\<exists>pkt' rx'. ykp_packet_parse (snd (projr (ykp_packet_serialise [] (zero_packet\<lparr>p_payload :=
      PHeap [5, 6], p_payload_len := 2\<rparr>) (replicate 60 0) 60))) 51 zero_packet (replicate 512 0) =
      Inr (True, pkt', rx') \<and> payload_of rx' pkt' = [5, 6]"
proof -
  let ?p = "zero_packet\<lparr>p_payload := PHeap [5, 6], p_payload_len := 2\<rparr>"
  have wf: "pkt_wf [] ?p" by (simp add: pkt_wf_def zero_packet_def zero_header_def payload_mem_def)
  have "ykp_packet_serialise [] ?p (replicate 60 0) 60 = Inr (51, wire [] ?p @ replicate 9 0)"
    using serialise_safe [OF wf, of 60 "replicate 60 0"] by (simp add: zero_packet_def)
  from packet_roundtrip [OF wf _ this, of "replicate 512 0" zero_packet] this
  show ?thesis by (auto simp: zero_packet_def payload_of_def payload_mem_def)
qed

text \<open>
  Parsing is memory safe on every input: whatever the bytes and their number, nothing is
  read outside the array and nothing written outside the 512-byte receive buffer.
\<close>

lemma parse_memory_safe:
  assumes "unat raw_len \<le> length raw" "length rx = 512"
  shows "\<exists>ok pkt' rx'. ykp_packet_parse raw raw_len pkt rx = Inr (ok, pkt', rx') \<and> length rx' = 512"
  by (rule parse_total [OF assms])

lemma parse_memory_safe_instance:
  "\<exists>ok pkt' rx'. ykp_packet_parse (0x59 # 0x4B # 5 # replicate 46 0xFF) 49 zero_packet
      (replicate 512 0) = Inr (ok, pkt', rx') \<and> length rx' = 512"
  by (rule parse_memory_safe) simp_all

text \<open>
  C16. Nothing is accepted that is not a frame: if \<open>ykp_packet_parse\<close> returns true, the packet
  is well formed, its payload has at most 512 bytes, the frame lies inside the input, and
  the bytes of the frame are exactly the bytes that serialising the packet produces.
\<close>

theorem parse_accepts_frames_only:
  assumes "ykp_packet_parse raw raw_len pkt rx = Inr (True, pkt', rx')"
    and "unat raw_len \<le> length raw" "length rx = 512"
  shows "pkt_wf rx' pkt' \<and> unat (p_payload_len pkt') \<le> 512 \<and>
    49 + unat (p_payload_len pkt') \<le> unat raw_len \<and>
    wire rx' pkt' = take (49 + unat (p_payload_len pkt')) raw"
  by (rule parse_accepts [OF assms])

theorem parse_accepts_frames_only_witness:
  "\<exists>pkt' rx'. ykp_packet_parse (0x59 # 0x4B # 5 # replicate 46 0) 49 zero_packet (replicate 512 0) =
      Inr (True, pkt', rx') \<and> wire rx' pkt' = 0x59 # 0x4B # 5 # replicate 46 0"
proof -
  let ?raw = "0x59 # 0x4B # 5 # replicate 46 0 :: bytes"
  have 46: "replicate 46 (0 :: u8) = [0, 0, 0, 0, 0, 0, 0, 0, 0, 0, 0, 0, 0, 0, 0, 0, 0, 0, 0, 0, 0, 0, 0, 0,
      0, 0, 0, 0, 0, 0, 0, 0, 0, 0, 0, 0, 0, 0, 0, 0, 0, 0, 0, 0, 0, 0]"
    by code_simp
  have h: "read_header ?raw = Inr (zero_header\<lparr>h_magic_0 := 0x59, h_magic_1 := 0x4B, h_version := 5\<rparr>)"
    unfolding 46 by code_simp
  have "accepted (zero_header\<lparr>h_magic_0 := 0x59, h_magic_1 := 0x4B, h_version := 5\<rparr>) 49"
    by (simp add: accepted_def const_defs zero_header_def)
  then obtain pkt' rx' where p: "ykp_packet_parse ?raw 49 zero_packet (replicate 512 0) = Inr (True, pkt', rx')"
    and n: "p_payload_len pkt' = 0"
    using parse_eq [OF _ _ _ h, of 49 "replicate 512 0" zero_packet]
    by (auto simp: Let_def zero_header_def)
  from parse_accepts_frames_only [OF p] n show ?thesis using p by auto
qed

text \<open>
  Serialising stays inside the output buffer for every packet with at most 65486 payload
  bytes: with room it returns the length and writes the frame at the start of the buffer,
  without room it returns 0 and writes nothing.
\<close>

lemma serialise_in_bounds:
  assumes "pkt_wf rx pkt" "unat (p_payload_len pkt) \<le> 65486" "unat out_size \<le> length out"
  shows "ykp_packet_serialise rx pkt out out_size =
    (if unat out_size < 49 + unat (p_payload_len pkt) then Inr (0, out)
     else Inr (49 + p_payload_len pkt, wire rx pkt @ drop (49 + unat (p_payload_len pkt)) out))"
  by (rule serialise_safe [OF assms])

lemma serialise_in_bounds_instance:
  "ykp_packet_serialise [] zero_packet (replicate 48 0) 48 = Inr (0, replicate 48 0)"
  using serialise_in_bounds [of "[]" zero_packet 48 "replicate 48 0"]
  by (simp add: pkt_wf_def zero_packet_def zero_header_def)

text \<open>
  From 65487 payload bytes on the 16-bit total wraps, the size check passes and the
  frame is written beyond the end of every output buffer below 64 KiB.
\<close>

lemma serialise_total_wraps:
  assumes "pkt_wf rx pkt" "65487 \<le> unat (p_payload_len pkt)" "49 \<le> out_size" "length out < 65536"
  shows "ykp_packet_serialise rx pkt out out_size = Inl BufferOverflow"
  by (rule serialise_overflow [OF assms])

lemma serialise_total_wraps_instance:
  "ykp_packet_serialise [] (zero_packet\<lparr>p_payload := PHeap (replicate 65500 0), p_payload_len := 65500\<rparr>)
     (replicate 1400 0) 1400 = Inl BufferOverflow"
  by (rule serialise_total_wraps)
    (simp_all add: pkt_wf_def zero_packet_def zero_header_def payload_mem_def)

text \<open>
  Setting the payload of a packet that points to the receive buffer frees static memory,
  whatever the new payload: the guard that \<open>ykp_packet_free\<close> and
  \<open>ykp_packet_free_payload\<close> have is missing there.
\<close>

lemma set_payload_frees_static:
  assumes "p_payload pkt = PStatic"
  shows "ykp_packet_set_payload ok pkt data len = Inl InvalidFree \<and>
    ykp_packet_free (Some pkt) = Inr () \<and>
    ykp_packet_free_payload (Some pkt) = Inr (Some (pkt\<lparr>p_payload := PNull\<rparr>))"
  using assms
  by (simp add: ykp_packet_set_payload_def ykp_packet_free_def ykp_packet_free_payload_def free_ptr_def)

lemma set_payload_frees_static_instance:
  "ykp_packet_set_payload True (zero_packet\<lparr>p_payload := PStatic\<rparr>) (Some [1]) 1 = Inl InvalidFree"
  using set_payload_frees_static [of "zero_packet\<lparr>p_payload := PStatic\<rparr>" True "Some [1]" 1] by simp

end
