(* ===== verification/Replay.thy ===== *)
theory Replay
  imports Constants
begin

text \<open>
  Replay protection: \<open>main/ykp_core/ykp_replay.c\<close>. The context is the C struct; \<open>check\<close>
  returns the C return value and the new context.

  The specification is the set of ids accepted so far and \<open>replay_spec\<close>, which accepts an id
  that is not 0, not in the set and not 64 or more below the largest one. \<open>replay_abs\<close>
  relates a context to that set; \<open>check_refines\<close> is the refinement.

  What a client of a replay guard relies on is the locale \<open>replay_guard\<close>: whatever order
  the ids arrive in, no id is accepted twice. It is interpreted here on the window.
\<close>

record ykp_replay_ctx_t =
  highest_id :: u32
  window_bits :: u64
  initialised :: bool

definition ykp_replay_init :: "ykp_replay_ctx_t \<Rightarrow> ykp_replay_ctx_t" where
  "ykp_replay_init ctx = ctx\<lparr>highest_id := 0, window_bits := 0, initialised := True\<rparr>"

definition ykp_replay_reset :: "ykp_replay_ctx_t \<Rightarrow> ykp_replay_ctx_t" where
  "ykp_replay_reset ctx = ykp_replay_init ctx"

definition ykp_replay_check :: "ykp_replay_ctx_t \<Rightarrow> u32 \<Rightarrow> bool \<times> ykp_replay_ctx_t" where
  "ykp_replay_check ctx pkt_id =
     (let ctx = (if \<not> initialised ctx then ykp_replay_init ctx else ctx)
      in if pkt_id = 0 then (False, ctx)
         else if highest_id ctx = 0 \<and> window_bits ctx = 0 then
           (True, ctx\<lparr>highest_id := pkt_id, window_bits := 1\<rparr>)
         else if highest_id ctx < pkt_id then
           (let shift = pkt_id - highest_id ctx
            in (True, ctx\<lparr>window_bits :=
                  if YKP_REPLAY_WINDOW_SIZE \<le> shift then 1
                  else push_bit (unat shift) (window_bits ctx) OR 1,
                  highest_id := pkt_id\<rparr>))
         else
           (let diff = highest_id ctx - pkt_id
            in if YKP_REPLAY_WINDOW_SIZE \<le> diff then (False, ctx)
               else let b = push_bit (unat diff) 1
                 in if window_bits ctx AND b \<noteq> 0 then (False, ctx)
                    else (True, ctx\<lparr>window_bits := window_bits ctx OR b\<rparr>)))"

section \<open>What a replay guard promises\<close>

locale replay_guard =
  fixes check :: "'s \<Rightarrow> 'i \<Rightarrow> bool \<times> 's"
    and seen :: "'s \<Rightarrow> 'i set \<Rightarrow> bool"
  assumes accept: "seen s S \<Longrightarrow> check s i = (True, s') \<Longrightarrow> i \<notin> S \<and> seen s' (insert i S)"
    and reject: "seen s S \<Longrightarrow> check s i = (False, s') \<Longrightarrow> seen s' S"
begin

text \<open>The ids accepted from a sequence of ids, in order, and the state after it.\<close>

fun accepts :: "'s \<Rightarrow> 'i list \<Rightarrow> 'i list \<times> 's" where
  "accepts s [] = ([], s)"
| "accepts s (i # is) =
     (let (ok, s') = check s i; (acc, s'') = accepts s' is
      in (if ok then i # acc else acc, s''))"

lemma accepts_distinct:
  assumes "seen s S"
  shows "distinct (fst (accepts s is)) \<and> set (fst (accepts s is)) \<inter> S = {} \<and>
    seen (snd (accepts s is)) (S \<union> set (fst (accepts s is)))"
  using assms
proof (induction "is" arbitrary: s S)
  case (Cons i "is")
  obtain ok s' where c: "check s i = (ok, s')" by (cases "check s i")
  show ?case
  proof (cases ok)
    case True
    then have *: "i \<notin> S" "seen s' (insert i S)" using accept [OF Cons.prems, of i s'] c by auto
    from Cons.IH [OF *(2)] show ?thesis using c True *(1) by (auto simp: case_prod_beta)
  next
    case False
    then have "seen s' S" using reject [OF Cons.prems, of i s'] c by simp
    from Cons.IH [OF this] show ?thesis using c False by (simp add: case_prod_beta)
  qed
qed simp

text \<open>An id accepted once is rejected ever after.\<close>

lemma no_replay:
  assumes "seen s S" "check s i = (True, s')"
  shows "\<not> fst (check (snd (accepts s' is)) i)"
proof
  assume ok: "fst (check (snd (accepts s' is)) i)"
  have "seen s' (insert i S)" using accept [OF assms] by simp
  from accepts_distinct [OF this, of "is"]
  have "seen (snd (accepts s' is)) (insert i S \<union> set (fst (accepts s' is)))" by simp
  from accept [OF this, of i] ok show False
    by (cases "check (snd (accepts s' is)) i") auto
qed

end

section \<open>The specification\<close>

definition replay_spec :: "u32 set \<Rightarrow> u32 \<Rightarrow> bool" where
  "replay_spec S i \<longleftrightarrow> i \<noteq> 0 \<and> i \<notin> S \<and> (\<forall>j \<in> S. unat j < unat i + 64)"

text \<open>
  The context holds the largest id and, in bit d, whether the id d below it was accepted.
  Ids further below are not represented: nothing can accept them any more.
\<close>

definition replay_abs :: "ykp_replay_ctx_t \<Rightarrow> u32 set \<Rightarrow> bool" where
  "replay_abs c S \<longleftrightarrow> 0 \<notin> S \<and>
     (if S = {} then \<not> initialised c \<or> highest_id c = 0 \<and> window_bits c = 0
      else initialised c \<and> highest_id c \<in> S \<and> (\<forall>j \<in> S. j \<le> highest_id c) \<and>
        (\<forall>d < 64. bit (window_bits c) d \<longleftrightarrow>
           d \<le> unat (highest_id c) \<and> of_nat (unat (highest_id c) - d) \<in> S))"

lemma replay_abs_init: "replay_abs (ykp_replay_init c) {}"
  by (simp add: replay_abs_def ykp_replay_init_def)

lemma bit_and_single:
  "(w :: u64) AND push_bit n 1 \<noteq> 0 \<longleftrightarrow> bit w n" "(w :: u64) AND 2 ^ n = 0 \<longleftrightarrow> \<not> bit w n"
  using and_exp_eq_0_iff_not_bit [of w n] by (simp_all add: push_bit_eq_mult)

lemma unat_diff: "(b :: u32) \<le> a \<Longrightarrow> unat (a - b) = unat a - unat b"
  by (simp add: unat_sub)

lemma of_nat_unat32 [simp]: "n \<le> unat (x :: u32) \<Longrightarrow> unat (of_nat n :: u32) = n"
  using unat_lt_u32 [of x] by (simp add: unat_of_nat take_bit_nat_eq_self)

text \<open>The new window represents the old ids and the new one.\<close>

lemma window_advance:
  fixes S :: "u32 set" and w :: u64
  assumes hi: "h < i" and shift: "unat (i - h) < 64"
    and w: "\<forall>d < 64. bit w d \<longleftrightarrow> d \<le> unat h \<and> of_nat (unat h - d) \<in> S"
    and S: "\<forall>j \<in> S. j \<le> h" and d: "d < 64"
  shows "bit (push_bit (unat (i - h)) w OR 1) d \<longleftrightarrow>
    d \<le> unat i \<and> of_nat (unat i - d) \<in> insert i S"
proof -
  have u: "unat (i - h) = unat i - unat h" "unat h < unat i"
    using hi unat_diff [of h i] by (simp_all add: word_less_nat_alt order.strict_implies_order)
  have notin: "of_nat (unat i - d) \<notin> S" if "d < unat i - unat h"
  proof
    assume "of_nat (unat i - d) \<in> S"
    then have "unat (of_nat (unat i - d) :: u32) \<le> unat h" using S word_le_nat_alt by blast
    moreover have "unat (of_nat (unat i - d) :: u32) = unat i - d" by (rule of_nat_unat32 [of _ i]) simp
    ultimately show False using that u(2) by simp
  qed
  have same: "of_nat (unat i - d) = i \<longleftrightarrow> d = 0" if "d \<le> unat i"
  proof
    assume "of_nat (unat i - d) = i"
    then have "unat i - d = unat i" using of_nat_unat32 [of "unat i - d" i] by simp
    then show "d = 0" using that u(2) by linarith
  qed simp
  show ?thesis
  proof (cases "d < unat i - unat h")
    case True
    then show ?thesis using notin same u d
      unfolding bit_or_iff bit_push_bit_iff by (auto simp: bit_1_iff)
  next
    case False
    then have "unat h - (d - (unat i - unat h)) = unat i - d" using u(2) by linarith
    moreover have "bit w (d - (unat i - unat h)) \<longleftrightarrow> d - (unat i - unat h) \<le> unat h \<and>
        of_nat (unat h - (d - (unat i - unat h))) \<in> S" using w d by simp
    ultimately have "bit w (d - (unat i - unat h)) \<longleftrightarrow> d \<le> unat i \<and> of_nat (unat i - d) \<in> S"
      using False u(2) by auto
    then show ?thesis using False same u d
      unfolding bit_or_iff bit_push_bit_iff by (auto simp: bit_1_iff)
  qed
qed

lemma of_nat_diff_eq:
  assumes "d \<le> unat (h :: u32)" "i \<le> h"
  shows "of_nat (unat h - d) = i \<longleftrightarrow> d = unat h - unat i"
proof -
  have "unat (of_nat (unat h - d) :: u32) = unat h - d" by (rule of_nat_unat32 [of _ h]) simp
  then have "of_nat (unat h - d) = i \<longleftrightarrow> unat h - d = unat i" by (metis word_unat_eq_iff)
  then show ?thesis using assms by (auto simp: word_le_nat_alt)
qed

lemma window_mark:
  fixes S :: "u32 set" and w :: u64
  assumes i: "i \<le> h" and w: "\<forall>d < 64. bit w d \<longleftrightarrow> d \<le> unat h \<and> of_nat (unat h - d) \<in> S"
    and diff: "unat (h - i) < 64" and d: "d < 64"
  shows "bit (w OR push_bit (unat (h - i)) 1) d \<longleftrightarrow> d \<le> unat h \<and> of_nat (unat h - d) \<in> insert i S"
proof -
  have "bit (push_bit (unat (h - i)) 1 :: u64) d \<longleftrightarrow> d = unat h - unat i"
    unfolding bit_push_bit_iff using d by (auto simp: bit_1_iff unat_diff [OF i])
  then show ?thesis
    using w d of_nat_diff_eq [OF _ i, of d] i by (auto simp: bit_or_iff word_le_nat_alt)
qed

lemma window_fresh:
  fixes S :: "u32 set"
  assumes S: "\<forall>j \<in> S. j \<le> h" and far: "S = {} \<or> unat h + 64 \<le> unat i" and d: "d < 64"
  shows "bit (1 :: u64) d \<longleftrightarrow> d \<le> unat i \<and> of_nat (unat i - d) \<in> insert i S"
proof -
  have "of_nat (unat i - d) \<notin> S" if "d \<le> unat i"
  proof
    assume s: "of_nat (unat i - d) \<in> S"
    then have "unat (of_nat (unat i - d) :: u32) \<le> unat h" using S word_le_nat_alt by blast
    moreover have "unat (of_nat (unat i - d) :: u32) = unat i - d" by (rule of_nat_unat32 [of _ i]) simp
    ultimately show False using far d s by auto
  qed
  then show ?thesis using of_nat_diff_eq [of d i i] by (auto simp: bit_1_iff)
qed

section \<open>The refinement\<close>

lemma check_nonempty:
  assumes abs: "replay_abs c S" "S \<noteq> {}" and i: "i \<noteq> 0"
  shows "fst (ykp_replay_check c i) = replay_spec S i \<and>
    replay_abs (snd (ykp_replay_check c i)) (if replay_spec S i then insert i S else S)"
proof -
  let ?h = "highest_id c"
  have c: "initialised c" "?h \<in> S" "\<forall>j \<in> S. j \<le> ?h" "0 \<notin> S"
    and w: "\<forall>d < 64. bit (window_bits c) d \<longleftrightarrow> d \<le> unat ?h \<and> of_nat (unat ?h - d) \<in> S"
    using abs by (auto simp: replay_abs_def)
  have h0: "?h \<noteq> 0" using c by auto
  show ?thesis
  proof (cases "?h < i")
    case True
    have "i \<notin> S" using c(3) True by auto
    moreover have "unat j < unat i + 64" if "j \<in> S" for j
      using c(3) that True by (fastforce simp: word_le_nat_alt word_less_nat_alt)
    ultimately have sp: "replay_spec S i" using i by (simp add: replay_spec_def)
    have hi: "\<forall>j \<in> insert i S. j \<le> i" using c(3) True by auto
    have far: "unat ?h + 64 \<le> unat i" if "YKP_REPLAY_WINDOW_SIZE \<le> i - ?h"
      using that True unat_diff [of ?h i]
      by (simp add: YKP_REPLAY_WINDOW_SIZE_def word_le_nat_alt word_less_nat_alt)
    have near: "unat (i - ?h) < 64" if "\<not> YKP_REPLAY_WINDOW_SIZE \<le> i - ?h"
      using that by (simp add: YKP_REPLAY_WINDOW_SIZE_def word_le_nat_alt)
    show ?thesis
      using True i h0 c(1,4) sp hi window_advance [OF True near w c(3)]
        window_fresh [OF c(3), of i] far
      by (auto simp: ykp_replay_check_def replay_abs_def Let_def)
  next
    case False
    then have le: "i \<le> ?h" by simp
    have far: "\<not> replay_spec S i" if "YKP_REPLAY_WINDOW_SIZE \<le> ?h - i"
      using that unat_diff [OF le] c(2)
      by (fastforce simp: YKP_REPLAY_WINDOW_SIZE_def word_le_nat_alt replay_spec_def)
    have near: "unat (?h - i) < 64" if "\<not> YKP_REPLAY_WINDOW_SIZE \<le> ?h - i"
      using that by (simp add: YKP_REPLAY_WINDOW_SIZE_def word_le_nat_alt)
    show ?thesis
    proof (cases "YKP_REPLAY_WINDOW_SIZE \<le> ?h - i")
      case True
      then show ?thesis
        using far [OF True] False i h0 c(1) abs(1) by (simp add: ykp_replay_check_def Let_def)
    next
      case small: False
      have "of_nat (unat ?h - unat (?h - i)) = i"
        using le of_nat_diff_eq [of "unat (?h - i)" ?h i] unat_diff [OF le] by simp
      then have b: "bit (window_bits c) (unat (?h - i)) \<longleftrightarrow> i \<in> S"
        using w near [OF small] unat_diff [OF le] by simp
      have "unat j < unat i + 64" if "j \<in> S" for j
        using c(3) that near [OF small] unat_diff [OF le]
        by (fastforce simp: word_le_nat_alt)
      then have sp: "replay_spec S i \<longleftrightarrow> i \<notin> S" using i by (auto simp: replay_spec_def)
      have mark: "\<forall>d < 64. bit (window_bits c OR push_bit (unat (?h - i)) 1) d \<longleftrightarrow>
          d \<le> unat ?h \<and> of_nat (unat ?h - d) \<in> insert i S"
        using window_mark [OF le w near [OF small]] by blast
      show ?thesis
      proof (cases "i \<in> S")
        case True
        then show ?thesis using small b sp False i h0 c(1) abs(1)
          by (simp add: ykp_replay_check_def Let_def bit_and_single)
      next
        case notin: False
        then have "ykp_replay_check c i =
            (True, c\<lparr>window_bits := window_bits c OR push_bit (unat (?h - i)) 1\<rparr>)"
          using small b False i h0 c(1) bit_and_single [of "window_bits c" "unat (?h - i)"]
          by (simp add: ykp_replay_check_def Let_def)
        then show ?thesis using notin sp mark c i le by (simp add: replay_abs_def)
      qed
    qed
  qed
qed

lemma check_refines:
  assumes "replay_abs c S"
  shows "fst (ykp_replay_check c i) = replay_spec S i \<and>
    replay_abs (snd (ykp_replay_check c i)) (if replay_spec S i then insert i S else S)"
proof (cases "i = 0")
  case True
  then show ?thesis using assms
    by (auto simp: ykp_replay_check_def replay_spec_def replay_abs_def ykp_replay_init_def Let_def
        split: if_splits)
next
  case i: False
  show ?thesis
  proof (cases "S = {}")
    case True
    then show ?thesis using assms i window_fresh [of "{}" 0 i]
      by (auto simp: ykp_replay_check_def replay_spec_def replay_abs_def ykp_replay_init_def Let_def)
  next
    case False
    then show ?thesis using check_nonempty [OF assms _ i] by blast
  qed
qed

interpretation window_guard: replay_guard ykp_replay_check replay_abs
proof unfold_locales
  fix c S i c'
  assume a: "replay_abs c S"
  show "i \<notin> S \<and> replay_abs c' (insert i S)" if "ykp_replay_check c i = (True, c')"
    using check_refines [OF a, of i] that by (simp add: replay_spec_def split: if_splits)
  show "replay_abs c' S" if "ykp_replay_check c i = (False, c')"
    using check_refines [OF a, of i] that by (simp split: if_splits)
qed

section \<open>Properties\<close>

text \<open>
  C2. Refinement: whatever ids a context has accepted before, \<open>ykp_replay_check\<close> accepts an
  id exactly when the specification does (not 0, not accepted before, less than 64 below
  the largest accepted one), and afterwards represents the set with that id.
\<close>

theorem replay_check_refines_spec:
  assumes "replay_abs c S"
  shows "fst (ykp_replay_check c i) = replay_spec S i \<and>
    replay_abs (snd (ykp_replay_check c i)) (if replay_spec S i then insert i S else S)"
  by (rule check_refines [OF assms])

theorem replay_check_refines_spec_witness:
  "fst (ykp_replay_check \<lparr>highest_id = 0, window_bits = 0, initialised = False\<rparr> 7)"
proof -
  have "replay_abs \<lparr>highest_id = 0, window_bits = 0, initialised = False\<rparr> {}"
    by (simp add: replay_abs_def)
  from replay_check_refines_spec [OF this, of 7] show ?thesis by (simp add: replay_spec_def)
qed

text \<open>
  No packet id is accepted twice after a reset of the window: over every sequence of
  arriving ids, in every order, the accepted ids are pairwise different.
\<close>

lemma replay_never_accepts_twice:
  "distinct (fst (window_guard.accepts (ykp_replay_reset c) ids))"
  using window_guard.accepts_distinct [of "ykp_replay_reset c" "{}" ids] replay_abs_init
  by (simp add: ykp_replay_reset_def)

text \<open>
  An accepted id stays rejected for ever: after it was accepted in any state with a
  history, no sequence of further packets makes it acceptable again.
\<close>

lemma replay_accepted_stays_rejected:
  assumes "replay_abs c S" "ykp_replay_check c i = (True, c')"
  shows "\<not> fst (ykp_replay_check (snd (window_guard.accepts c' ids)) i)"
  by (rule window_guard.no_replay [OF assms])

lemma replay_accepted_stays_rejected_instance:
  "\<not> fst (ykp_replay_check (snd (window_guard.accepts
     \<lparr>highest_id = 5, window_bits = 1, initialised = True\<rparr> [6, 70, 200])) 5)"
proof -
  have "ykp_replay_check \<lparr>highest_id = 0, window_bits = 0, initialised = False\<rparr> 5 =
      (True, \<lparr>highest_id = 5, window_bits = 1, initialised = True\<rparr>)"
    by (simp add: ykp_replay_check_def ykp_replay_init_def)
  moreover have "replay_abs \<lparr>highest_id = 0, window_bits = 0, initialised = False\<rparr> {}"
    by (simp add: replay_abs_def)
  ultimately show ?thesis by (rule replay_accepted_stays_rejected [rotated])
qed

end
