(* ===== verification/Qos.thy ===== *)
theory Qos
  imports Constants
begin

text \<open>
  The QoS engine: \<open>main/ykp_core/ykp_qos.c\<close>. The engine is the C struct; \<open>send_fn\<close> and
  \<open>timer\<close> are whether those pointers are set. A call to \<open>send_fn\<close> is the event \<open>TxFrame\<close>,
  \<open>xTimerStart\<close> and \<open>xTimerStop\<close> are \<open>TimerStart\<close> and \<open>TimerStop\<close>. The readings of
  \<open>esp_timer_get_time() / 1000\<close> are arguments (milliseconds since boot, an \<open>int\<close>: the
  64-bit microsecond counter does not overflow in the life of a device).

  The C loops over the slots are folds over the indices 0 .. 31, so that
  \<open>check_and_stop_timer\<close> sees the slots as they are in the middle of a loop.

  The lemmas: the invariant of the slots (the engine is a \<open>machine\<close>), what each operation
  does to every slot, the exact number of retransmissions (\<open>tick_budget\<close>), and that due
  ticks empty the queue.
\<close>

definition QOS_MAX_PENDING :: nat where "QOS_MAX_PENDING = 32"
definition QOS_RETRY_DELAY_MS :: int where "QOS_RETRY_DELAY_MS = 500"
definition QOS_MAX_RETRIES :: u8 where "QOS_MAX_RETRIES = 3"
definition QOS_DATA_SIZE :: nat where "QOS_DATA_SIZE = 1400"

lemmas qos_consts = QOS_MAX_PENDING_def QOS_RETRY_DELAY_MS_def QOS_MAX_RETRIES_def
  QOS_DATA_SIZE_def

record ykp_pending_t =
  pd_packet_id :: u32
  pd_data :: bytes
  pd_data_len :: u16
  pd_qos :: ykp_qos_t
  pd_retries :: u8
  pd_next_retry_ms :: int
  pd_sent_time_ms :: int
  pd_waiting_pubrec :: bool
  pd_waiting_pubcomp :: bool
  pd_active :: bool

record ykp_qos_engine_t =
  qe_slots :: "ykp_pending_t list"
  qe_send_fn :: bool
  qe_timer :: bool

text \<open>A zeroed slot (\<open>memset\<close>).\<close>

definition pending_zero :: ykp_pending_t where
  "pending_zero =
     \<lparr>pd_packet_id = 0, pd_data = replicate QOS_DATA_SIZE 0, pd_data_len = 0, pd_qos = YKP_QOS_0,
      pd_retries = 0, pd_next_retry_ms = 0, pd_sent_time_ms = 0, pd_waiting_pubrec = False,
      pd_waiting_pubcomp = False, pd_active = False\<rparr>"

definition check_and_stop_timer :: "ykp_qos_engine_t \<Rightarrow> event list" where
  "check_and_stop_timer e =
     (if \<not> list_ex pd_active (qe_slots e) \<and> qe_timer e then [TimerStop] else [])"

definition ykp_qos_init :: "bool \<Rightarrow> ykp_qos_engine_t" where
  "ykp_qos_init send_fn =
     \<lparr>qe_slots = replicate QOS_MAX_PENDING pending_zero, qe_send_fn = send_fn, qe_timer = False\<rparr>"

text \<open>\<open>if (engine->send_fn) engine->send_fn(data, len)\<close>.\<close>

definition send_fn :: "ykp_qos_engine_t \<Rightarrow> bytes \<Rightarrow> event list" where
  "send_fn e d = (if qe_send_fn e then [TxFrame d] else [])"

fun first_inactive :: "ykp_pending_t list \<Rightarrow> nat option" where
  "first_inactive [] = None"
| "first_inactive (p # ps) = (if \<not> pd_active p then Some 0 else map_option Suc (first_inactive ps))"

text \<open>
  \<open>data\<close> is the array of \<open>len\<close> bytes. \<open>now1\<close> and \<open>now2\<close> are the two readings of the timer.
\<close>

definition ykp_qos_enqueue ::
  "ykp_qos_engine_t \<Rightarrow> int \<Rightarrow> int \<Rightarrow> u32 \<Rightarrow> bytes \<Rightarrow> u16 \<Rightarrow> ykp_qos_t \<Rightarrow>
   bool \<times> ykp_qos_engine_t \<times> event list" where
  "ykp_qos_enqueue e now1 now2 packet_id data len qos =
     (if len = 0 then (False, e, [])
      else if qos = YKP_QOS_0 then (True, e, send_fn e (take (unat len) data))
      else case first_inactive (qe_slots e) of
          None \<Rightarrow> (False, e, [])
        | Some i \<Rightarrow>
            let p = qe_slots e ! i;
                n = (if unat len < QOS_DATA_SIZE then len else of_nat QOS_DATA_SIZE);
                p' = p\<lparr>pd_packet_id := packet_id, pd_data_len := n,
                       pd_data := write_at (pd_data p) 0 (take (unat n) data), pd_qos := qos,
                       pd_retries := 0, pd_next_retry_ms := now1, pd_sent_time_ms := now2,
                       pd_waiting_pubrec := (qos = YKP_QOS_2), pd_waiting_pubcomp := False,
                       pd_active := True\<rparr>
            in (True, e\<lparr>qe_slots := (qe_slots e)[i := p']\<rparr>,
                send_fn e (take (unat len) data) @ (if qe_timer e then [TimerStart] else [])))"

fun first_qos1 :: "u32 \<Rightarrow> ykp_pending_t list \<Rightarrow> nat option" where
  "first_qos1 packet_id [] = None"
| "first_qos1 packet_id (p # ps) =
     (if pd_active p \<and> pd_packet_id p = packet_id \<and> pd_qos p = YKP_QOS_1 then Some 0
      else map_option Suc (first_qos1 packet_id ps))"

text \<open>\<open>rtt0\<close> is the global \<open>g_last_rtt_ms\<close> before the call; its new value is returned.\<close>

definition ykp_qos_ack ::
  "ykp_qos_engine_t \<Rightarrow> int \<Rightarrow> u32 \<Rightarrow> u32 \<Rightarrow> ykp_qos_engine_t \<times> u32 \<times> event list" where
  "ykp_qos_ack e now rtt0 packet_id =
     (case first_qos1 packet_id (qe_slots e) of
        None \<Rightarrow> (e, rtt0, [])
      | Some i \<Rightarrow>
          let p = qe_slots e ! i;
              e = e\<lparr>qe_slots := (qe_slots e)[i := p\<lparr>pd_active := False\<rparr>]\<rparr>;
              rtt = now - pd_sent_time_ms p
          in (e, if 0 \<le> rtt \<and> rtt < 10000 then word_of_int rtt else rtt0, check_and_stop_timer e))"

definition ykp_qos_pubrec :: "ykp_qos_engine_t \<Rightarrow> u32 \<Rightarrow> ykp_qos_engine_t" where
  "ykp_qos_pubrec e packet_id =
     e\<lparr>qe_slots := map (\<lambda>p.
         if pd_active p \<and> pd_packet_id p = packet_id \<and> pd_qos p = YKP_QOS_2
         then p\<lparr>pd_waiting_pubrec := False, pd_waiting_pubcomp := True\<rparr> else p) (qe_slots e)\<rparr>"

definition pubcomp_slot ::
  "u32 \<Rightarrow> ykp_qos_engine_t \<times> event list \<Rightarrow> nat \<Rightarrow> ykp_qos_engine_t \<times> event list" where
  "pubcomp_slot packet_id = (\<lambda>(e, evs) i.
     let p = qe_slots e ! i
     in if pd_active p \<and> pd_packet_id p = packet_id \<and> pd_qos p = YKP_QOS_2 \<and> pd_waiting_pubcomp p
        then let e = e\<lparr>qe_slots := (qe_slots e)[i := p\<lparr>pd_active := False\<rparr>]\<rparr>
          in (e, evs @ check_and_stop_timer e)
        else (e, evs))"

definition ykp_qos_pubcomp :: "ykp_qos_engine_t \<Rightarrow> u32 \<Rightarrow> ykp_qos_engine_t \<times> event list" where
  "ykp_qos_pubcomp e packet_id = foldl (pubcomp_slot packet_id) (e, []) [0..<QOS_MAX_PENDING]"

definition tick_slot ::
  "int \<Rightarrow> ykp_qos_engine_t \<times> event list \<Rightarrow> nat \<Rightarrow> ykp_qos_engine_t \<times> event list" where
  "tick_slot now_ms = (\<lambda>(e, evs) i.
     let p = qe_slots e ! i
     in if \<not> pd_active p then (e, evs)
        else if now_ms < pd_next_retry_ms p then (e, evs)
        else if QOS_MAX_RETRIES \<le> pd_retries p then
          let e = e\<lparr>qe_slots := (qe_slots e)[i := p\<lparr>pd_active := False\<rparr>]\<rparr>
          in (e, evs @ check_and_stop_timer e)
        else
          let r = pd_retries p + 1;
              shift = (if r < 10 then unat r else 10);
              p' = p\<lparr>pd_retries := r,
                     pd_next_retry_ms := now_ms + push_bit shift QOS_RETRY_DELAY_MS\<rparr>
          in (e\<lparr>qe_slots := (qe_slots e)[i := p']\<rparr>,
              evs @ send_fn e (take (unat (pd_data_len p)) (pd_data p))))"

definition ykp_qos_tick :: "ykp_qos_engine_t \<Rightarrow> int \<Rightarrow> ykp_qos_engine_t \<times> event list" where
  "ykp_qos_tick e now_ms = foldl (tick_slot now_ms) (e, []) [0..<QOS_MAX_PENDING]"

section \<open>What a loop over the slots does\<close>

text \<open>A fold that at each index replaces slot i by \<open>f\<close> of it maps \<open>f\<close> over the slots.\<close>

lemma upd_map_prefix:
  assumes "n < length xs"
  shows "(map f (take n xs) @ drop n xs)[n := f (xs ! n)] = map f (take (Suc n) xs) @ drop (Suc n) xs"
  using assms by (simp add: list_update_append take_Suc_conv_app_nth Cons_nth_drop_Suc [symmetric])

lemma slot_loop:
  assumes step: "\<And>e evs i. i < length (qe_slots e) \<Longrightarrow>
      fst (g (e, evs) i) = e\<lparr>qe_slots := (qe_slots e)[i := f (qe_slots e ! i)]\<rparr>"
    and n: "n \<le> length (qe_slots e)"
  shows "fst (foldl g (e, evs) [0..<n]) =
    e\<lparr>qe_slots := map f (take n (qe_slots e)) @ drop n (qe_slots e)\<rparr>"
  using n
proof (induction n)
  case (Suc n)
  obtain e1 evs1 where s: "foldl g (e, evs) [0..<n] = (e1, evs1)" by fastforce
  have e1: "e1 = e\<lparr>qe_slots := map f (take n (qe_slots e)) @ drop n (qe_slots e)\<rparr>"
    using Suc s by simp
  have n: "n < length (qe_slots e)" using Suc.prems by simp
  have "fst (g (e1, evs1) n) = e1\<lparr>qe_slots := (qe_slots e1)[n := f (qe_slots e1 ! n)]\<rparr>"
    using n by (intro step) (simp add: e1)
  then show ?case using n upd_map_prefix [OF n, of f] by (simp add: s) (simp add: e1 nth_append)
qed simp

definition tick_pending :: "int \<Rightarrow> ykp_pending_t \<Rightarrow> ykp_pending_t" where
  "tick_pending now p =
     (if \<not> pd_active p \<or> now < pd_next_retry_ms p then p
      else if 3 \<le> pd_retries p then p\<lparr>pd_active := False\<rparr>
      else p\<lparr>pd_retries := pd_retries p + 1,
             pd_next_retry_ms := now + 500 * 2 ^ unat (pd_retries p + 1)\<rparr>)"

lemma tick_slot_fst:
  assumes "i < length (qe_slots e)"
  shows "fst (tick_slot now (e, evs) i) =
    e\<lparr>qe_slots := (qe_slots e)[i := tick_pending now (qe_slots e ! i)]\<rparr>"
proof -
  let ?p = "qe_slots e ! i"
  have "pd_retries ?p + 1 < 10" if "\<not> 3 \<le> pd_retries ?p"
  proof -
    have "unat (pd_retries ?p) < 3" using that by (simp add: word_le_nat_alt)
    then have "unat (pd_retries ?p + 1) < 10" by (subst unat_add_lem [THEN iffD1]) simp_all
    then show ?thesis by (simp add: word_less_nat_alt)
  qed
  then show ?thesis
    by (auto simp: tick_slot_def Let_def tick_pending_def qos_consts push_bit_eq_mult list_update_id)
qed

lemma tick_slots:
  assumes "length (qe_slots e) = 32"
  shows "fst (ykp_qos_tick e now) = e\<lparr>qe_slots := map (tick_pending now) (qe_slots e)\<rparr>"
  using slot_loop [where g = "tick_slot now" and f = "tick_pending now" and n = 32 and e = e
      and evs = "[]", OF tick_slot_fst] assms
  by (simp add: ykp_qos_tick_def QOS_MAX_PENDING_def)

definition pubcomp_pending :: "u32 \<Rightarrow> ykp_pending_t \<Rightarrow> ykp_pending_t" where
  "pubcomp_pending packet_id p =
     (if pd_active p \<and> pd_packet_id p = packet_id \<and> pd_qos p = YKP_QOS_2 \<and> pd_waiting_pubcomp p
      then p\<lparr>pd_active := False\<rparr> else p)"

lemma pubcomp_slots:
  assumes "length (qe_slots e) = 32"
  shows "fst (ykp_qos_pubcomp e packet_id) =
    e\<lparr>qe_slots := map (pubcomp_pending packet_id) (qe_slots e)\<rparr>"
proof -
  have "fst (pubcomp_slot packet_id (e, evs) i) =
      e\<lparr>qe_slots := (qe_slots e)[i := pubcomp_pending packet_id (qe_slots e ! i)]\<rparr>" for e evs i
    by (auto simp: pubcomp_slot_def pubcomp_pending_def Let_def list_update_id)
  from slot_loop [where g = "pubcomp_slot packet_id" and n = 32 and e = e and evs = "[]", OF this]
  show ?thesis using assms by (simp add: ykp_qos_pubcomp_def QOS_MAX_PENDING_def)
qed

section \<open>The frames a tick sends\<close>

fun tx_frames :: "event list \<Rightarrow> bytes list" where
  "tx_frames [] = []"
| "tx_frames (TxFrame d # evs) = d # tx_frames evs"
| "tx_frames (_ # evs) = tx_frames evs"

lemma tx_frames_append [simp]: "tx_frames (xs @ ys) = tx_frames xs @ tx_frames ys"
  by (induction xs rule: tx_frames.induct) auto

lemma tx_frames_send [simp]: "tx_frames (send_fn e d) = (if qe_send_fn e then [d] else [])"
  by (simp add: send_fn_def)

lemma tx_frames_stop [simp]: "tx_frames (check_and_stop_timer e) = []"
  by (simp add: check_and_stop_timer_def)

definition retry_frames :: "bool \<Rightarrow> int \<Rightarrow> ykp_pending_t \<Rightarrow> bytes list" where
  "retry_frames snd_ok now p =
     (if pd_active p \<and> pd_next_retry_ms p \<le> now \<and> \<not> 3 \<le> pd_retries p \<and> snd_ok
      then [take (unat (pd_data_len p)) (pd_data p)] else [])"

lemma tick_slot_frames:
  "tx_frames (snd (tick_slot now (e, evs) i)) =
   tx_frames evs @ retry_frames (qe_send_fn e) now (qe_slots e ! i)"
  by (auto simp: tick_slot_def Let_def retry_frames_def qos_consts)

lemma tick_loop_frames:
  assumes "n \<le> length (qe_slots e)"
  shows "tx_frames (snd (foldl (tick_slot now) (e, []) [0..<n])) =
    concat (map (retry_frames (qe_send_fn e) now) (take n (qe_slots e)))"
  using assms
proof (induction n)
  case (Suc n)
  obtain e1 evs1 where s: "foldl (tick_slot now) (e, []) [0..<n] = (e1, evs1)" by fastforce
  have "e1 = e\<lparr>qe_slots := map (tick_pending now) (take n (qe_slots e)) @ drop n (qe_slots e)\<rparr>"
    using slot_loop [where g = "tick_slot now" and f = "tick_pending now" and n = n and e = e
      and evs = "[]", OF tick_slot_fst] Suc.prems s by simp
  then have e1: "qe_slots e1 ! n = qe_slots e ! n" "qe_send_fn e1 = qe_send_fn e"
    using Suc.prems by (simp_all add: nth_append)
  have "tx_frames evs1 = concat (map (retry_frames (qe_send_fn e) now) (take n (qe_slots e)))"
    using Suc s by simp
  then show ?case using Suc.prems
    by (simp add: s tick_slot_frames e1 take_Suc_conv_app_nth)
qed simp

lemma tick_frames:
  "length (qe_slots e) = 32 \<Longrightarrow> tx_frames (snd (ykp_qos_tick e now)) =
   concat (map (retry_frames (qe_send_fn e) now) (qe_slots e))"
  by (simp add: ykp_qos_tick_def QOS_MAX_PENDING_def tick_loop_frames)

section \<open>Retransmissions are bounded\<close>

text \<open>How often a slot can still be sent again.\<close>

definition slot_budget :: "ykp_pending_t \<Rightarrow> nat" where
  "slot_budget p = (if pd_active p then 3 - unat (pd_retries p) else 0)"

definition qos_budget :: "ykp_qos_engine_t \<Rightarrow> nat" where
  "qos_budget e = sum_list (map slot_budget (qe_slots e))"

lemma retries_inc: "\<not> 3 \<le> (r :: u8) \<Longrightarrow> unat (r + 1) = unat r + 1"
  by (subst unat_add_lem [THEN iffD1]) (simp_all add: word_le_nat_alt)

lemma slot_tick_budget:
  "length (retry_frames True now p) + slot_budget (tick_pending now p) = slot_budget p"
  by (auto simp: retry_frames_def tick_pending_def slot_budget_def retries_inc word_le_nat_alt)

lemma tick_budget:
  assumes "length (qe_slots e) = 32" "qe_send_fn e"
  shows "length (tx_frames (snd (ykp_qos_tick e now))) + qos_budget (fst (ykp_qos_tick e now)) =
    qos_budget e"
proof -
  have "length (concat (map (retry_frames True now) ps)) +
      sum_list (map slot_budget (map (tick_pending now) ps)) = sum_list (map slot_budget ps)" for ps
    by (induction ps) (use slot_tick_budget in \<open>auto simp: algebra_simps\<close>)
  then show ?thesis using assms by (simp add: tick_frames tick_slots qos_budget_def)
qed

text \<open>A run of ticks: the engine after it and all that was sent.\<close>

fun run_ticks :: "ykp_qos_engine_t \<Rightarrow> int list \<Rightarrow> ykp_qos_engine_t \<times> event list" where
  "run_ticks e [] = (e, [])"
| "run_ticks e (t # ts) =
     (let (e1, evs1) = ykp_qos_tick e t; (e2, evs2) = run_ticks e1 ts in (e2, evs1 @ evs2))"

lemma tick_frame_fields:
  assumes "length (qe_slots e) = 32"
  shows "length (qe_slots (fst (ykp_qos_tick e t))) = 32"
    "qe_send_fn (fst (ykp_qos_tick e t)) = qe_send_fn e"
  using assms by (simp_all add: tick_slots)

lemma run_ticks_budget:
  assumes "length (qe_slots e) = 32" "qe_send_fn e"
  shows "length (tx_frames (snd (run_ticks e ts))) + qos_budget (fst (run_ticks e ts)) = qos_budget e"
  using assms
proof (induction ts arbitrary: e)
  case (Cons t ts)
  obtain e1 evs1 where t1: "ykp_qos_tick e t = (e1, evs1)" by fastforce
  have "length (qe_slots e1) = 32" "qe_send_fn e1"
    using tick_frame_fields [OF Cons.prems(1), of t] Cons.prems t1 by simp_all
  from Cons.IH [OF this] tick_budget [OF Cons.prems, of t] t1 show ?case
    by (simp add: case_prod_beta)
qed simp

section \<open>Due ticks empty the queue\<close>

text \<open>After four ticks four seconds apart a slot whose first retry is due is inactive.\<close>

lemma four_ticks_slot:
  assumes r: "pd_retries p \<le> 3" and due: "pd_active p \<Longrightarrow> pd_next_retry_ms p \<le> t1"
    and t: "t1 + 4000 \<le> t2" "t2 + 4000 \<le> t3" "t3 + 4000 \<le> t4"
  shows "\<not> pd_active (tick_pending t4 (tick_pending t3 (tick_pending t2 (tick_pending t1 p))))"
proof (cases "pd_active p")
  case True
  have "unat (pd_retries p) \<le> 3" using r by (simp add: word_le_nat_alt)
  then have "unat (pd_retries p) \<in> {0, 1, 2, 3}" by auto
  moreover have "pd_retries p = of_nat (unat (pd_retries p))" by simp
  ultimately have "pd_retries p \<in> {0, 1, 2, 3}" by (elim insertE) simp_all
  then show ?thesis using True due t by (auto simp: tick_pending_def)
qed (simp add: tick_pending_def)

lemma four_ticks:
  assumes e: "length (qe_slots e) = 32" "\<forall>p \<in> set (qe_slots e). pd_retries p \<le> 3"
    and due: "\<forall>p \<in> set (qe_slots e). pd_active p \<longrightarrow> pd_next_retry_ms p \<le> t1"
    and t: "t1 + 4000 \<le> t2" "t2 + 4000 \<le> t3" "t3 + 4000 \<le> t4"
  shows "\<forall>p \<in> set (qe_slots (fst (run_ticks e [t1, t2, t3, t4]))). \<not> pd_active p"
proof -
  have "qe_slots (fst (run_ticks e [t1, t2, t3, t4])) =
      map (tick_pending t4) (map (tick_pending t3) (map (tick_pending t2) (map (tick_pending t1) (qe_slots e))))"
    using e(1) by (simp add: case_prod_beta tick_slots)
  then show ?thesis using four_ticks_slot [OF _ _ t] e(2) due by auto
qed

section \<open>The timer is stopped exactly when the queue becomes empty\<close>

definition timer_rel :: "ykp_qos_engine_t \<Rightarrow> ykp_qos_engine_t \<times> event list \<Rightarrow> bool" where
  "timer_rel e0 = (\<lambda>(e, evs).
     qe_timer e = qe_timer e0 \<and> length (qe_slots e) = length (qe_slots e0) \<and>
     (list_ex pd_active (qe_slots e) \<longrightarrow> list_ex pd_active (qe_slots e0)) \<and>
     (TimerStop \<in> set evs \<longleftrightarrow> qe_timer e0 \<and> list_ex pd_active (qe_slots e0) \<and>
        \<not> list_ex pd_active (qe_slots e)))"

lemma list_ex_nth: "i < length xs \<Longrightarrow> P (xs ! i) \<Longrightarrow> list_ex P xs"
  by (auto simp: list_ex_iff)

lemma list_ex_update:
  "i < length xs \<Longrightarrow> P x \<Longrightarrow> list_ex P (xs[i := x])"
  by (rule list_ex_nth [of i]) simp_all

lemma list_ex_update_weaken:
  "list_ex P (xs[i := x]) \<Longrightarrow> \<not> P x \<Longrightarrow> list_ex P xs"
  unfolding list_ex_iff using set_update_subset_insert [of xs i x] by blast

lemma stop_iff: "TimerStop \<in> set (check_and_stop_timer e) \<longleftrightarrow>
    qe_timer e \<and> \<not> list_ex pd_active (qe_slots e)"
  by (auto simp: check_and_stop_timer_def)

lemma timer_rel_off:
  assumes r: "timer_rel e0 (e, evs)" and i: "i < length (qe_slots e)" "pd_active (qe_slots e ! i)"
    and e': "e' = e\<lparr>qe_slots := (qe_slots e)[i := p]\<rparr>" "\<not> pd_active p"
  shows "timer_rel e0 (e', evs @ check_and_stop_timer e')"
proof -
  have "list_ex pd_active (qe_slots e)" using i by (rule list_ex_nth)
  moreover have "list_ex pd_active (qe_slots e') \<Longrightarrow> list_ex pd_active (qe_slots e)"
    using list_ex_update_weaken [of pd_active "qe_slots e" i p] e' by simp
  ultimately show ?thesis using r e'(1) by (auto simp: timer_rel_def stop_iff)
qed

lemma timer_rel_on:
  assumes r: "timer_rel e0 (e, evs)" and i: "i < length (qe_slots e)" "pd_active (qe_slots e ! i)"
    and e': "e' = e\<lparr>qe_slots := (qe_slots e)[i := p]\<rparr>" "pd_active p" "TimerStop \<notin> set evs'"
  shows "timer_rel e0 (e', evs @ evs')"
proof -
  have "list_ex pd_active (qe_slots e)" using i by (rule list_ex_nth)
  moreover have "list_ex pd_active (qe_slots e')" using list_ex_update [of i "qe_slots e"] i e' by simp
  ultimately show ?thesis using r e' by (auto simp: timer_rel_def)
qed

lemma tick_slot_timer:
  assumes "timer_rel e0 s" "i < length (qe_slots e0)" shows "timer_rel e0 (tick_slot now s i)"
proof -
  obtain e evs where s: "s = (e, evs)" by (cases s)
  have i: "i < length (qe_slots e)" using assms by (simp add: s timer_rel_def)
  show ?thesis
    using assms(1) timer_rel_off [OF assms(1) [unfolded s] i _ refl]
      timer_rel_on [OF assms(1) [unfolded s] i _ refl]
    by (auto simp: s tick_slot_def Let_def send_fn_def)
qed

lemma pubcomp_slot_timer:
  assumes "timer_rel e0 s" "i < length (qe_slots e0)" shows "timer_rel e0 (pubcomp_slot k s i)"
proof -
  obtain e evs where s: "s = (e, evs)" by (cases s)
  have i: "i < length (qe_slots e)" using assms by (simp add: s timer_rel_def)
  show ?thesis
    using assms(1) timer_rel_off [OF assms(1) [unfolded s] i _ refl]
    by (auto simp: s pubcomp_slot_def Let_def)
qed

lemma timer_loop:
  assumes step: "\<And>s i. timer_rel e0 s \<Longrightarrow> i < length (qe_slots e0) \<Longrightarrow> timer_rel e0 (g s i)"
    and n: "n \<le> length (qe_slots e0)"
  shows "timer_rel e0 (foldl g (e0, []) [0..<n])"
  using n
proof (induction n)
  case 0
  show ?case by (simp add: timer_rel_def)
next
  case (Suc n)
  then show ?case using step [of "foldl g (e0, []) [0..<n]" n] by simp
qed

lemma tick_stops_timer:
  assumes "length (qe_slots e) = 32"
  shows "TimerStop \<in> set (snd (ykp_qos_tick e now)) \<longleftrightarrow>
    qe_timer e \<and> list_ex pd_active (qe_slots e) \<and> \<not> list_ex pd_active (qe_slots (fst (ykp_qos_tick e now)))"
  using timer_loop [of e "tick_slot now" 32, OF tick_slot_timer] assms
  by (simp add: ykp_qos_tick_def QOS_MAX_PENDING_def timer_rel_def case_prod_beta)

lemma pubcomp_stops_timer:
  assumes "length (qe_slots e) = 32"
  shows "TimerStop \<in> set (snd (ykp_qos_pubcomp e k)) \<longleftrightarrow>
    qe_timer e \<and> list_ex pd_active (qe_slots e) \<and> \<not> list_ex pd_active (qe_slots (fst (ykp_qos_pubcomp e k)))"
  using timer_loop [of e "pubcomp_slot k" 32, OF pubcomp_slot_timer] assms
  by (simp add: ykp_qos_pubcomp_def QOS_MAX_PENDING_def timer_rel_def case_prod_beta)

section \<open>The invariant\<close>

definition pending_ok :: "ykp_pending_t \<Rightarrow> bool" where
  "pending_ok p \<longleftrightarrow> length (pd_data p) = QOS_DATA_SIZE \<and>
     unat (pd_data_len p) \<le> QOS_DATA_SIZE \<and> pd_retries p \<le> 3 \<and>
     (pd_active p \<longrightarrow> pd_data_len p \<noteq> 0 \<and> pd_qos p \<noteq> YKP_QOS_0 \<and>
        (pd_qos p = YKP_QOS_1 \<longrightarrow> \<not> pd_waiting_pubrec p \<and> \<not> pd_waiting_pubcomp p) \<and>
        (pd_qos p = YKP_QOS_2 \<longrightarrow> pd_waiting_pubrec p = (\<not> pd_waiting_pubcomp p)))"

definition qos_inv :: "ykp_qos_engine_t \<Rightarrow> bool" where
  "qos_inv e \<longleftrightarrow> length (qe_slots e) = 32 \<and> (\<forall>p \<in> set (qe_slots e). pending_ok p)"

lemma pending_ok_off: "pending_ok p \<Longrightarrow> pending_ok (p\<lparr>pd_active := False\<rparr>)"
  by (simp add: pending_ok_def)

lemma pending_ok_tick: "pending_ok p \<Longrightarrow> pending_ok (tick_pending now p)"
  by (auto simp: pending_ok_def tick_pending_def word_le_nat_alt retries_inc)

lemma inv_map: "qos_inv e \<Longrightarrow> (\<And>p. pending_ok p \<Longrightarrow> pending_ok (f p)) \<Longrightarrow>
    qos_inv (e\<lparr>qe_slots := map f (qe_slots e)\<rparr>)"
  by (auto simp: qos_inv_def)

lemma inv_update: "qos_inv e \<Longrightarrow> pending_ok p \<Longrightarrow> qos_inv (e\<lparr>qe_slots := (qe_slots e)[i := p]\<rparr>)"
  by (auto simp: qos_inv_def dest!: set_update_subset_insert [THEN subsetD])

lemma init_inv: "qos_inv (ykp_qos_init s)"
  by (auto simp: qos_inv_def ykp_qos_init_def qos_consts pending_zero_def pending_ok_def)

lemma first_inactive_Some:
  "first_inactive ps = Some i \<Longrightarrow> i < length ps \<and> \<not> pd_active (ps ! i) \<and> (\<forall>j < i. pd_active (ps ! j))"
  by (induction ps arbitrary: i) (auto simp: less_Suc_eq_0_disj split: if_splits)

lemma first_inactive_None: "first_inactive ps = None \<longleftrightarrow> (\<forall>p \<in> set ps. pd_active p)"
  by (induction ps) auto

lemma first_qos1_Some:
  "first_qos1 k ps = Some i \<Longrightarrow> i < length ps \<and> pd_active (ps ! i) \<and> pd_packet_id (ps ! i) = k \<and>
   pd_qos (ps ! i) = YKP_QOS_1"
  by (induction ps arbitrary: i) (auto split: if_splits)

lemma first_qos1_None:
  "first_qos1 k ps = None \<longleftrightarrow>
   (\<forall>p \<in> set ps. \<not> (pd_active p \<and> pd_packet_id p = k \<and> pd_qos p = YKP_QOS_1))"
  by (induction ps) auto

text \<open>The slot that a message gets, and the bytes stored for its retransmission.\<close>

definition enqueued :: "ykp_pending_t \<Rightarrow> int \<Rightarrow> int \<Rightarrow> u32 \<Rightarrow> bytes \<Rightarrow> u16 \<Rightarrow> ykp_qos_t \<Rightarrow> ykp_pending_t" where
  "enqueued p now1 now2 packet_id data len qos =
     (let n = (if unat len < QOS_DATA_SIZE then len else of_nat QOS_DATA_SIZE) in
      p\<lparr>pd_packet_id := packet_id, pd_data_len := n,
        pd_data := write_at (pd_data p) 0 (take (unat n) data), pd_qos := qos,
        pd_retries := 0, pd_next_retry_ms := now1, pd_sent_time_ms := now2,
        pd_waiting_pubrec := (qos = YKP_QOS_2), pd_waiting_pubcomp := False, pd_active := True\<rparr>)"

lemma enqueue_eq:
  assumes "len \<noteq> 0" "qos \<noteq> YKP_QOS_0"
  shows "ykp_qos_enqueue e now1 now2 k data len qos =
    (case first_inactive (qe_slots e) of None \<Rightarrow> (False, e, [])
     | Some i \<Rightarrow> (True, e\<lparr>qe_slots := (qe_slots e)[i := enqueued (qe_slots e ! i) now1 now2 k data len qos]\<rparr>,
         send_fn e (take (unat len) data) @ (if qe_timer e then [TimerStart] else [])))"
  using assms by (auto simp: ykp_qos_enqueue_def enqueued_def Let_def split: option.splits)

lemma enqueued_ok:
  assumes "pending_ok p" "len \<noteq> 0" "qos \<noteq> YKP_QOS_0" "length data = unat len"
  shows "pending_ok (enqueued p now1 now2 k data len qos)"
    and "take (unat (pd_data_len (enqueued p now1 now2 k data len qos)))
      (pd_data (enqueued p now1 now2 k data len qos)) = take 1400 data"
proof -
  have "length (pd_data p) = 1400" using assms(1) by (simp add: pending_ok_def QOS_DATA_SIZE_def)
  then show "pending_ok (enqueued p now1 now2 k data len qos)"
    using assms by (auto simp: pending_ok_def enqueued_def Let_def QOS_DATA_SIZE_def min_def)
  show "take (unat (pd_data_len (enqueued p now1 now2 k data len qos)))
      (pd_data (enqueued p now1 now2 k data len qos)) = take 1400 data"
    using assms(4) by (auto simp: enqueued_def Let_def QOS_DATA_SIZE_def write_at_def)
qed

lemma enqueue_inv:
  assumes "qos_inv e" "length data = unat len"
  shows "qos_inv (fst (snd (ykp_qos_enqueue e now1 now2 k data len qos)))"
proof (cases "len = 0 \<or> qos = YKP_QOS_0")
  case True
  then show ?thesis using assms(1) by (auto simp: ykp_qos_enqueue_def)
next
  case False
  show ?thesis
  proof (cases "first_inactive (qe_slots e)")
    case None
    then show ?thesis using assms(1) False by (simp add: enqueue_eq)
  next
    case (Some i)
    then have "pending_ok (qe_slots e ! i)"
      using first_inactive_Some [OF Some] assms(1) by (simp add: qos_inv_def)
    then show ?thesis using False Some assms inv_update [OF assms(1) enqueued_ok(1)]
      by (simp add: enqueue_eq)
  qed
qed

section \<open>The engine as a machine\<close>

datatype qos_event = QEnqueue int int u32 bytes ykp_qos_t | QAck int u32 u32 | QPubrec u32
  | QPubcomp u32 | QTick int

text \<open>The caller gives \<open>ykp_qos_enqueue\<close> an array and its length, below 65536.\<close>

fun qos_step :: "ykp_qos_engine_t \<Rightarrow> qos_event \<Rightarrow> ykp_qos_engine_t" where
  "qos_step e (QEnqueue now1 now2 k data qos) =
     (if length data < 65536
      then fst (snd (ykp_qos_enqueue e now1 now2 k data (of_nat (length data)) qos)) else e)"
| "qos_step e (QAck now rtt k) = fst (ykp_qos_ack e now rtt k)"
| "qos_step e (QPubrec k) = ykp_qos_pubrec e k"
| "qos_step e (QPubcomp k) = fst (ykp_qos_pubcomp e k)"
| "qos_step e (QTick now) = fst (ykp_qos_tick e now)"

lemma ack_inv: "qos_inv e \<Longrightarrow> qos_inv (fst (ykp_qos_ack e now rtt k))"
  by (auto simp: ykp_qos_ack_def Let_def qos_inv_def pending_ok_off
      dest!: first_qos1_Some set_update_subset_insert [THEN subsetD] split: option.splits)

lemma pubrec_inv: "qos_inv e \<Longrightarrow> qos_inv (ykp_qos_pubrec e k)"
  unfolding ykp_qos_pubrec_def by (rule inv_map) (auto simp: pending_ok_def)

lemma qos_step_inv: "qos_inv e \<Longrightarrow> qos_inv (qos_step e ev)"
proof (cases ev)
  case (QPubcomp k)
  assume e: "qos_inv e"
  then have "qos_step e ev = e\<lparr>qe_slots := map (pubcomp_pending k) (qe_slots e)\<rparr>"
    using QPubcomp by (simp add: pubcomp_slots qos_inv_def)
  then show ?thesis using inv_map [OF e, of "pubcomp_pending k"]
    by (simp add: pubcomp_pending_def pending_ok_off)
next
  case (QTick now)
  assume e: "qos_inv e"
  then have "qos_step e ev = e\<lparr>qe_slots := map (tick_pending now) (qe_slots e)\<rparr>"
    using QTick by (simp add: tick_slots qos_inv_def)
  then show ?thesis using inv_map [OF e pending_ok_tick] by simp
qed (auto simp: enqueue_inv ack_inv pubrec_inv)

interpretation qos_machine: machine qos_step qos_inv
  by unfold_locales (rule qos_step_inv)

section \<open>Enqueueing and acknowledging\<close>

lemma budget_update:
  assumes "i < length xs" "\<not> pd_active (xs ! i)"
  shows "sum_list (map slot_budget (xs[i := p])) = sum_list (map slot_budget xs) + slot_budget p"
  using assms
proof (induction xs arbitrary: i)
  case (Cons x xs)
  then show ?case by (cases i) (auto simp: slot_budget_def)
qed simp

lemma enqueue_budget:
  assumes "len \<noteq> 0" "qos \<noteq> YKP_QOS_0" "ykp_qos_enqueue e now1 now2 k data len qos = (True, e', evs)"
  shows "qos_budget e' = qos_budget e + 3"
proof -
  obtain i where i: "first_inactive (qe_slots e) = Some i"
    "e' = e\<lparr>qe_slots := (qe_slots e)[i := enqueued (qe_slots e ! i) now1 now2 k data len qos]\<rparr>"
    using assms by (auto simp: enqueue_eq split: option.splits)
  then show ?thesis
    using first_inactive_Some [OF i(1)]
    by (simp add: qos_budget_def budget_update) (simp add: slot_budget_def enqueued_def Let_def)
qed

text \<open>A message is sent again by the first tick after it is queued, whatever the time passed.\<close>

lemma set_nth_mem_list: "i < length xs \<Longrightarrow> x \<in> set (f (xs ! i)) \<Longrightarrow> x \<in> set (concat (map f xs))"
  by auto

lemma enqueue_retry:
  assumes e: "qos_inv e" "qe_send_fn e" and len: "len \<noteq> 0" "qos \<noteq> YKP_QOS_0" "length data = unat len"
    and q: "ykp_qos_enqueue e now1 now2 k data len qos = (True, e', evs)" and t: "now1 \<le> now"
  shows "data \<in> set (tx_frames evs)" and "take 1400 data \<in> set (tx_frames (snd (ykp_qos_tick e' now)))"
proof -
  obtain i where i: "first_inactive (qe_slots e) = Some i"
    and e': "e' = e\<lparr>qe_slots := (qe_slots e)[i := enqueued (qe_slots e ! i) now1 now2 k data len qos]\<rparr>"
    and evs: "evs = send_fn e (take (unat len) data) @ (if qe_timer e then [TimerStart] else [])"
    using q len by (auto simp: enqueue_eq split: option.splits)
  note il = first_inactive_Some [OF i]
  show "data \<in> set (tx_frames evs)" using e(2) len(3) by (simp add: evs)
  let ?p = "enqueued (qe_slots e ! i) now1 now2 k data len qos"
  have ok: "pending_ok (qe_slots e ! i)" using il e(1) by (simp add: qos_inv_def)
  have "retry_frames True now ?p = [take (unat (pd_data_len ?p)) (pd_data ?p)]"
    using t by (simp add: retry_frames_def enqueued_def Let_def)
  then have "take 1400 data \<in> set (retry_frames True now (qe_slots e' ! i))"
    using enqueued_ok(2) [OF ok len] il by (simp add: e')
  moreover have "i < length (qe_slots e')" using il by (simp add: e')
  ultimately have "take 1400 data \<in> set (concat (map (retry_frames True now) (qe_slots e')))"
    by (intro set_nth_mem_list [of i])
  moreover have "length (qe_slots e') = 32" "qe_send_fn e'" using e by (simp_all add: e' qos_inv_def)
  ultimately show "take 1400 data \<in> set (tx_frames (snd (ykp_qos_tick e' now)))"
    by (simp only: tick_frames)
qed

lemma first_inactive_init: "first_inactive (qe_slots (ykp_qos_init s)) = Some 0"
proof -
  have "replicate QOS_MAX_PENDING pending_zero = pending_zero # replicate 31 pending_zero"
    unfolding QOS_MAX_PENDING_def by (subst replicate_Suc [symmetric]) simp
  then show ?thesis by (simp add: ykp_qos_init_def) (simp add: pending_zero_def)
qed

lemma enqueue_init:
  assumes "len \<noteq> 0" "qos \<noteq> YKP_QOS_0"
  shows "ykp_qos_enqueue (ykp_qos_init s) now1 now2 k data len qos =
    (True, (ykp_qos_init s)\<lparr>qe_slots := (qe_slots (ykp_qos_init s))
      [0 := enqueued pending_zero now1 now2 k data len qos]\<rparr>, send_fn (ykp_qos_init s) (take (unat len) data))"
  using enqueue_eq [OF assms, of "ykp_qos_init s"] first_inactive_init [of s]
  by (simp add: ykp_qos_init_def QOS_MAX_PENDING_def)

section \<open>Properties\<close>

text \<open>
  C19. Every operation of the engine keeps the slot invariant, in any order and any number:
  32 slots, stored lengths within the 1400-byte arrays, at most three retries counted, only
  QoS 1 and 2 messages waiting, and each QoS 2 message in exactly one of its two phases.
\<close>

theorem qos_invariant:
  "qos_inv (foldl qos_step (ykp_qos_init s) evs)"
  by (rule qos_machine.run_inv [OF init_inv])

text \<open>
  C17. Retransmissions are counted exactly: over any sequence of ticks, the frames sent plus
  what the slots can still send is the budget before, and a message that enters the queue
  adds three to it. So no message is sent more than four times, whatever the times.
\<close>

theorem qos_retransmissions_bounded:
  assumes "length (qe_slots e) = 32" "qe_send_fn e" "len \<noteq> 0" "qos \<noteq> YKP_QOS_0"
    and "ykp_qos_enqueue e now1 now2 k data len qos = (True, e', evs)"
  shows "length (tx_frames (snd (run_ticks e' ts))) + qos_budget (fst (run_ticks e' ts)) =
    qos_budget e + 3"
proof -
  have "qos_budget e' = qos_budget e + 3" by (rule enqueue_budget [OF assms(3-5)])
  moreover have "length (qe_slots e') = 32 \<and> qe_send_fn e'"
    using assms by (auto simp: enqueue_eq split: option.splits)
  ultimately show ?thesis using run_ticks_budget [of e' ts] by simp
qed

theorem qos_retransmissions_bounded_witness:
  "\<exists>e'. length (tx_frames (snd (run_ticks e' [1, 2, 3, 4, 5]))) + qos_budget (fst (run_ticks e' [1, 2, 3, 4, 5])) = 3"
proof -
  let ?e = "ykp_qos_init True"
  obtain e' evs where q: "ykp_qos_enqueue ?e 0 0 7 [1, 2] 2 YKP_QOS_1 = (True, e', evs)"
    by (simp add: enqueue_init)
  have b: "qos_budget ?e = 0"
    by (simp add: qos_budget_def ykp_qos_init_def slot_budget_def pending_zero_def sum_list_replicate)
  show ?thesis
    using qos_retransmissions_bounded [OF _ _ _ _ q, of "[1, 2, 3, 4, 5]"] b
    by (intro exI [of _ e']) (simp add: ykp_qos_init_def QOS_MAX_PENDING_def)
qed

text \<open>
  Liveness: four ticks, each four seconds or more after the one before, empty every queue
  whose messages are due at the first of them, acknowledged or not.
\<close>

lemma qos_ticks_empty_queue:
  assumes "qos_inv e" "\<forall>p \<in> set (qe_slots e). pd_active p \<longrightarrow> pd_next_retry_ms p \<le> t1"
    and "t1 + 4000 \<le> t2" "t2 + 4000 \<le> t3" "t3 + 4000 \<le> t4"
  shows "\<forall>p \<in> set (qe_slots (fst (run_ticks e [t1, t2, t3, t4]))). \<not> pd_active p"
  by (rule four_ticks) (use assms in \<open>auto simp: qos_inv_def pending_ok_def\<close>)

lemma qos_ticks_empty_queue_instance:
  "filter pd_active (qe_slots (fst (run_ticks (fst (snd
     (ykp_qos_enqueue (ykp_qos_init True) 0 0 7 [1] 1 YKP_QOS_2))) [0, 4000, 8000, 12000]))) = []"
proof -
  let ?e = "fst (snd (ykp_qos_enqueue (ykp_qos_init True) 0 0 7 [1] 1 YKP_QOS_2))"
  have 1: "qos_inv ?e" by (rule enqueue_inv [OF init_inv]) simp
  have 2: "\<forall>p \<in> set (qe_slots ?e). pd_active p \<longrightarrow> pd_next_retry_ms p \<le> 0"
    by (auto simp: enqueue_init dest!: set_update_subset_insert [THEN subsetD])
      (auto simp: enqueued_def Let_def ykp_qos_init_def pending_zero_def)
  show ?thesis
    using qos_ticks_empty_queue [OF 1 2, of 4000 8000 12000] by (simp add: filter_empty_conv)
qed

text \<open>
  The retry timer is stopped by a tick exactly when that tick makes the last waiting
  message give up: never while a message waits, never again by a tick that finds none.
\<close>

lemma qos_tick_stops_timer:
  assumes "length (qe_slots e) = 32"
  shows "TimerStop \<in> set (snd (ykp_qos_tick e now)) \<longleftrightarrow>
    qe_timer e \<and> list_ex pd_active (qe_slots e) \<and> \<not> list_ex pd_active (qe_slots (fst (ykp_qos_tick e now)))"
  by (rule tick_stops_timer [OF assms])

lemma qos_tick_stops_timer_instance:
  "TimerStop \<notin> set (snd (ykp_qos_tick (ykp_qos_init True) 0))"
  using qos_tick_stops_timer [of "ykp_qos_init True" 0]
  by (simp add: ykp_qos_init_def QOS_MAX_PENDING_def)

text \<open>
  There is no delay before the first retry: a queued message is sent when it is queued
  and again by the first tick, even at the same millisecond, cut to 1400 bytes.
\<close>

lemma qos_first_retry_immediate:
  assumes "qos_inv e" "qe_send_fn e" "len \<noteq> 0" "qos \<noteq> YKP_QOS_0" "length data = unat len"
    and "ykp_qos_enqueue e now1 now2 k data len qos = (True, e', evs)"
  shows "data \<in> set (tx_frames evs) \<and> take 1400 data \<in> set (tx_frames (snd (ykp_qos_tick e' now1)))"
  using enqueue_retry [OF assms, of now1] by simp

lemma qos_first_retry_immediate_instance:
  "\<exists>e' evs. ykp_qos_enqueue (ykp_qos_init True) 0 0 7 [1, 2] 2 YKP_QOS_1 = (True, e', evs) \<and>
    [1, 2] \<in> set (tx_frames (snd (ykp_qos_tick e' 0)))"
proof -
  obtain e' evs where q: "ykp_qos_enqueue (ykp_qos_init True) 0 0 7 [1, 2] 2 YKP_QOS_1 = (True, e', evs)"
    by (simp add: enqueue_init)
  from qos_first_retry_immediate [OF init_inv _ _ _ _ q] q show ?thesis
    by (simp add: ykp_qos_init_def)
qed

end
