(* ===== verification/Nvs.thy ===== *)
theory Nvs
  imports Prelude
begin

text \<open>
  The configuration store: \<open>main/config/nvs_config.c\<close>. The flash driver (\<open>nvs_flash_init\<close>,
  \<open>nvs_open\<close>, \<open>nvs_get_str\<close>, ...) is not part of this repository: it is a parameter, the
  record \<open>nvs_driver\<close> over a type of flash states. \<open>nvs_laws\<close> is what its documentation
  promises of reads after writes; the lemmas that need it have it as a hypothesis.

  A C string is its bytes before the terminator, a read into a buffer of \<open>max_len\<close> bytes
  returns the bytes or \<open>None\<close> (not found, or too long for the buffer).
\<close>

datatype nvs_err = NVS_ESP_OK | NVS_NO_FREE_PAGES | NVS_NEW_VERSION_FOUND | NVS_FAIL

record 'n nvs_driver =
  nvs_flash_init :: "'n \<Rightarrow> nvs_err \<times> 'n"
  nvs_flash_erase :: "'n \<Rightarrow> 'n"
  nvs_open :: "'n \<Rightarrow> bool \<Rightarrow> bool"
  nvs_get_str :: "'n \<Rightarrow> string \<Rightarrow> nat \<Rightarrow> bytes option"
  nvs_set_str :: "'n \<Rightarrow> string \<Rightarrow> bytes \<Rightarrow> 'n option"
  nvs_get_blob :: "'n \<Rightarrow> string \<Rightarrow> nat \<Rightarrow> bytes option"
  nvs_set_blob :: "'n \<Rightarrow> string \<Rightarrow> bytes \<Rightarrow> 'n option"
  nvs_get_u32 :: "'n \<Rightarrow> string \<Rightarrow> u32 option"
  nvs_set_u32 :: "'n \<Rightarrow> string \<Rightarrow> u32 \<Rightarrow> 'n option"
  nvs_commit :: "'n \<Rightarrow> 'n"

definition nvs_config_init :: "'n nvs_driver \<Rightarrow> 'n \<Rightarrow> bool \<times> 'n" where
  "nvs_config_init d n =
     (let (err, n) = nvs_flash_init d n;
          (err, n) = (if err = NVS_NO_FREE_PAGES \<or> err = NVS_NEW_VERSION_FOUND
                      then nvs_flash_init d (nvs_flash_erase d n) else (err, n))
      in (err = NVS_ESP_OK, n))"

text \<open>The flag is true for \<open>NVS_READWRITE\<close>; the result is whether the handle is not 0.\<close>

definition open_nvs :: "'n nvs_driver \<Rightarrow> 'n \<Rightarrow> bool \<Rightarrow> bool" where
  "open_nvs d n readwrite = nvs_open d n readwrite"

definition nvs_config_get_str :: "'n nvs_driver \<Rightarrow> 'n \<Rightarrow> string \<Rightarrow> nat \<Rightarrow> bytes option" where
  "nvs_config_get_str d n key max_len =
     (if \<not> open_nvs d n False then None else nvs_get_str d n key max_len)"

definition nvs_config_set_str :: "'n nvs_driver \<Rightarrow> 'n \<Rightarrow> string \<Rightarrow> bytes \<Rightarrow> bool \<times> 'n" where
  "nvs_config_set_str d n key val =
     (if \<not> open_nvs d n True then (False, n)
      else case nvs_set_str d n key val of None \<Rightarrow> (False, n) | Some n' \<Rightarrow> (True, nvs_commit d n'))"

definition nvs_config_get_blob :: "'n nvs_driver \<Rightarrow> 'n \<Rightarrow> string \<Rightarrow> nat \<Rightarrow> bytes option" where
  "nvs_config_get_blob d n key len =
     (if \<not> open_nvs d n False then None else nvs_get_blob d n key len)"

definition nvs_config_set_blob :: "'n nvs_driver \<Rightarrow> 'n \<Rightarrow> string \<Rightarrow> bytes \<Rightarrow> bool \<times> 'n" where
  "nvs_config_set_blob d n key data =
     (if \<not> open_nvs d n True then (False, n)
      else case nvs_set_blob d n key data of None \<Rightarrow> (False, n) | Some n' \<Rightarrow> (True, nvs_commit d n'))"

definition nvs_config_get_u32 :: "'n nvs_driver \<Rightarrow> 'n \<Rightarrow> string \<Rightarrow> u32 option" where
  "nvs_config_get_u32 d n key =
     (if \<not> open_nvs d n False then None else nvs_get_u32 d n key)"

definition nvs_config_set_u32 :: "'n nvs_driver \<Rightarrow> 'n \<Rightarrow> string \<Rightarrow> u32 \<Rightarrow> bool \<times> 'n" where
  "nvs_config_set_u32 d n key val =
     (if \<not> open_nvs d n True then (False, n)
      else case nvs_set_u32 d n key val of None \<Rightarrow> (False, n) | Some n' \<Rightarrow> (True, nvs_commit d n'))"

definition nvs_config_incr_restart_count :: "'n nvs_driver \<Rightarrow> 'n \<Rightarrow> u32 \<times> 'n" where
  "nvs_config_incr_restart_count d n =
     (let count = (case nvs_config_get_u32 d n ''restart_count'' of None \<Rightarrow> 0 | Some c \<Rightarrow> c) + 1
      in (count, snd (nvs_config_set_u32 d n ''restart_count'' count)))"

definition nvs_config_is_provisioned :: "'n nvs_driver \<Rightarrow> 'n \<Rightarrow> bool" where
  "nvs_config_is_provisioned d n = (nvs_config_get_str d n ''device_id'' 16 \<noteq> None)"

definition nvs_config_get_device_id :: "'n nvs_driver \<Rightarrow> 'n \<Rightarrow> nat \<Rightarrow> bytes option" where
  "nvs_config_get_device_id d n max_len = nvs_config_get_str d n ''device_id'' max_len"

definition nvs_config_get_device_type :: "'n nvs_driver \<Rightarrow> 'n \<Rightarrow> nat \<Rightarrow> bytes option" where
  "nvs_config_get_device_type d n max_len = nvs_config_get_str d n ''device_type'' max_len"

definition nvs_config_get_wifi_ssid :: "'n nvs_driver \<Rightarrow> 'n \<Rightarrow> nat \<Rightarrow> bytes option" where
  "nvs_config_get_wifi_ssid d n max_len = nvs_config_get_str d n ''wifi_ssid'' max_len"

definition nvs_config_get_wifi_password :: "'n nvs_driver \<Rightarrow> 'n \<Rightarrow> nat \<Rightarrow> bytes option" where
  "nvs_config_get_wifi_password d n max_len = nvs_config_get_str d n ''wifi_password'' max_len"

definition nvs_config_get_server_url :: "'n nvs_driver \<Rightarrow> 'n \<Rightarrow> nat \<Rightarrow> bytes" where
  "nvs_config_get_server_url d n max_len =
     (case nvs_config_get_str d n ''server_url'' max_len of
        None \<Rightarrow> take (max_len - 1) (ascii ''wss://ykp-router.onrender.com/ws'')
      | Some s \<Rightarrow> s)"

section \<open>What the driver's documentation promises\<close>

text \<open>
  A value written is the value read, other keys keep their values, and committing does not
  change what is read. A string needs room for its terminator in the buffer.
\<close>

definition nvs_laws :: "'n nvs_driver \<Rightarrow> bool" where
  "nvs_laws d \<longleftrightarrow>
     (\<forall>n k v n' j m. nvs_set_str d n k v = Some n' \<longrightarrow>
        nvs_get_str d n' j m = (if j = k then if length v < m then Some v else None
                                else nvs_get_str d n j m)) \<and>
     (\<forall>n k v n' j. nvs_set_u32 d n k v = Some n' \<longrightarrow>
        nvs_get_u32 d n' j = (if j = k then Some v else nvs_get_u32 d n j)) \<and>
     (\<forall>n j m. nvs_get_str d (nvs_commit d n) j m = nvs_get_str d n j m \<and>
        nvs_get_u32 d (nvs_commit d n) j = nvs_get_u32 d n j) \<and>
     (\<forall>n k v n' j m. nvs_set_u32 d n k v = Some n' \<longrightarrow> j \<noteq> k \<longrightarrow> nvs_get_str d n' j m = nvs_get_str d n j m)"

lemma set_get_str:
  assumes "nvs_laws d" "nvs_config_set_str d n k v = (True, n')" "open_nvs d n' False"
  shows "nvs_config_get_str d n' j m =
    (if j = k then if length v < m then Some v else None else nvs_get_str d n j m)"
proof -
  obtain n1 where n1: "nvs_set_str d n k v = Some n1" "n' = nvs_commit d n1"
    using assms(2) by (auto simp: nvs_config_set_str_def split: if_splits option.splits)
  have "nvs_get_str d n1 j m =
      (if j = k then if length v < m then Some v else None else nvs_get_str d n j m)"
    using assms(1) n1(1) unfolding nvs_laws_def by blast
  moreover have "nvs_get_str d (nvs_commit d n1) j m = nvs_get_str d n1 j m"
    using assms(1) unfolding nvs_laws_def by blast
  ultimately show ?thesis using assms(3) n1(2) by (simp add: nvs_config_get_str_def)
qed

lemma set_get_u32:
  assumes "nvs_laws d" "nvs_config_set_u32 d n k v = (True, n')" "open_nvs d n' False"
  shows "nvs_config_get_u32 d n' k = Some v"
proof -
  obtain n1 where n1: "nvs_set_u32 d n k v = Some n1" "n' = nvs_commit d n1"
    using assms(2) by (auto simp: nvs_config_set_u32_def split: if_splits option.splits)
  have "\<forall>n k v n' j. nvs_set_u32 d n k v = Some n' \<longrightarrow>
      nvs_get_u32 d n' j = (if j = k then Some v else nvs_get_u32 d n j)"
    using assms(1) unfolding nvs_laws_def by (rule conjunct1 [OF conjunct2])
  from this [rule_format, OF n1(1), of k] have "nvs_get_u32 d n1 k = Some v" by simp
  moreover have "nvs_get_u32 d (nvs_commit d n1) k = nvs_get_u32 d n1 k"
    using assms(1) unfolding nvs_laws_def by blast
  ultimately show ?thesis using assms(3) n1(2) by (simp add: nvs_config_get_u32_def)
qed

text \<open>The same for a flash that accepts every write.\<close>

definition nvs_accepts :: "'n nvs_driver \<Rightarrow> bool" where
  "nvs_accepts d \<longleftrightarrow> (\<forall>n k v w. fst (nvs_config_set_str d n k v) \<and> fst (nvs_config_set_u32 d n k w) \<and> open_nvs d n False)"

lemma accepts_get_str:
  assumes "nvs_laws d" "nvs_accepts d"
  shows "nvs_config_get_str d (snd (nvs_config_set_str d n k v)) j m =
    (if j = k then if length v < m then Some v else None else nvs_config_get_str d n j m)"
proof -
  have "nvs_config_set_str d n k v = (True, snd (nvs_config_set_str d n k v))"
    using assms(2) by (simp add: nvs_accepts_def prod_eq_iff)
  from set_get_str [OF assms(1) this] show ?thesis
    using assms(2) by (simp add: nvs_accepts_def nvs_config_get_str_def)
qed

lemma accepts_get_str_u32:
  assumes "nvs_laws d" "nvs_accepts d" "j \<noteq> k"
  shows "nvs_config_get_str d (snd (nvs_config_set_u32 d n k v)) j m = nvs_config_get_str d n j m"
proof -
  have "nvs_config_set_u32 d n k v = (True, snd (nvs_config_set_u32 d n k v))"
    using assms(2) by (simp add: nvs_accepts_def prod_eq_iff)
  then obtain n1 where n1: "nvs_set_u32 d n k v = Some n1" "snd (nvs_config_set_u32 d n k v) = nvs_commit d n1"
    by (auto simp: nvs_config_set_u32_def split: if_splits option.splits)
  have "nvs_get_str d n1 j m = nvs_get_str d n j m" "nvs_get_str d (nvs_commit d n1) j m = nvs_get_str d n1 j m"
    using assms(1,3) n1(1) unfolding nvs_laws_def by blast+
  then show ?thesis using assms(2) n1(2) by (simp add: nvs_accepts_def nvs_config_get_str_def)
qed

text \<open>A failed write changes nothing.\<close>

lemma set_fails_unchanged:
  "nvs_config_set_str d n k v = (False, n') \<Longrightarrow> n' = n"
  "nvs_config_set_u32 d n k w = (False, n') \<Longrightarrow> n' = n"
  by (auto simp: nvs_config_set_str_def nvs_config_set_u32_def split: if_splits option.splits)

text \<open>An instance of the driver: strings and numbers in maps, no blobs. It satisfies the laws.\<close>

definition map_driver :: "((string \<Rightarrow> bytes option) \<times> (string \<Rightarrow> u32 option)) nvs_driver" where
  "map_driver =
     \<lparr>nvs_flash_init = (\<lambda>n. (NVS_ESP_OK, n)), nvs_flash_erase = (\<lambda>n. (Map.empty, Map.empty)),
      nvs_open = (\<lambda>n w. True),
      nvs_get_str = (\<lambda>n k m. case fst n k of None \<Rightarrow> None | Some v \<Rightarrow> if length v < m then Some v else None),
      nvs_set_str = (\<lambda>n k v. Some ((fst n)(k \<mapsto> v), snd n)),
      nvs_get_blob = (\<lambda>n k m. None), nvs_set_blob = (\<lambda>n k v. None),
      nvs_get_u32 = (\<lambda>n k. snd n k), nvs_set_u32 = (\<lambda>n k v. Some (fst n, (snd n)(k \<mapsto> v))),
      nvs_commit = (\<lambda>n. n)\<rparr>"

lemma map_driver_laws: "nvs_laws map_driver"
  by (auto simp: nvs_laws_def map_driver_def)

lemma map_driver_accepts: "nvs_accepts map_driver"
  by (simp add: nvs_accepts_def map_driver_def nvs_config_set_str_def nvs_config_set_u32_def open_nvs_def)

section \<open>Properties\<close>

text \<open>
  The restart counter: when the flash accepts the write, the count returned is what the
  next boot reads, and the next boot returns one more (wrapping at 32 bits), whatever else
  the store holds; a store that cannot be read counts from 0.
\<close>

lemma restart_count_increments:
  assumes "nvs_laws d" "nvs_config_incr_restart_count d n = (c, n')" "open_nvs d n' False"
    and "fst (nvs_config_set_u32 d n ''restart_count'' c)"
  shows "fst (nvs_config_incr_restart_count d n') = c + 1"
proof -
  have n': "n' = snd (nvs_config_set_u32 d n ''restart_count'' c)"
    using assms(2) by (auto simp: nvs_config_incr_restart_count_def Let_def)
  then have "nvs_config_set_u32 d n ''restart_count'' c = (True, n')"
    using assms(4) by (cases "nvs_config_set_u32 d n ''restart_count'' c") simp
  from set_get_u32 [OF assms(1) this assms(3)] show ?thesis
    by (simp add: nvs_config_incr_restart_count_def Let_def)
qed

lemma restart_count_increments_instance:
  "fst (nvs_config_incr_restart_count map_driver (Map.empty, [''restart_count'' \<mapsto> 42])) = 42 + 1"
proof (rule restart_count_increments [OF map_driver_laws])
  show "nvs_config_incr_restart_count map_driver (Map.empty, [''restart_count'' \<mapsto> 41]) =
      (42, (Map.empty, [''restart_count'' \<mapsto> 42]))"
    by (simp add: nvs_config_incr_restart_count_def nvs_config_get_u32_def nvs_config_set_u32_def
        map_driver_def open_nvs_def)
qed (simp_all add: map_driver_def open_nvs_def nvs_config_set_u32_def)

end
