(* ===== verification/Security.thy ===== *)
theory Security
  imports Nvs Bytes Constants
begin

text \<open>
  \<open>main/ykp_core/ykp_security.c\<close>: keys, ECDH with HKDF, AES-GCM and ECDSA over the PSA crypto
  API, and the static memory pool given to the crypto library.

  The PSA functions are not part of this repository: they are the parameter record \<open>psa\<close>.
  A failing call is \<open>None\<close> or \<open>False\<close>. The attributes set before an import only select the
  algorithm and are the same for every call of a function, so they are not arguments. A key
  handle of a generated key is a number, an imported key is its bytes. Documented laws of
  the API that a lemma needs (\<open>aead_laws\<close>) are its hypotheses.

  \<open>size_t\<close> has 32 bits on the target, which matters for the pool only.
\<close>

record psa =
  psa_crypto_init :: bool
  psa_generate_key :: "nat option"
  psa_export_key :: "nat \<Rightarrow> bytes option"
  psa_export_public_key :: "nat \<Rightarrow> bytes option"
  psa_import_key :: "bytes \<Rightarrow> bool"
  psa_raw_key_agreement :: "bytes \<Rightarrow> bytes \<Rightarrow> bytes option"
  psa_hkdf_sha256 :: "bytes \<Rightarrow> bytes \<Rightarrow> bytes \<Rightarrow> nat \<Rightarrow> bytes option"
  psa_aead_encrypt :: "bytes \<Rightarrow> bytes \<Rightarrow> bytes \<Rightarrow> bytes \<Rightarrow> bytes option"
  psa_aead_decrypt :: "bytes \<Rightarrow> bytes \<Rightarrow> bytes \<Rightarrow> bytes \<Rightarrow> bytes option"
  psa_hash_sha256 :: "bytes \<Rightarrow> bytes option"
  psa_sign_hash :: "bytes \<Rightarrow> bytes \<Rightarrow> bytes option"
  psa_verify_hash :: "bytes \<Rightarrow> bytes \<Rightarrow> bytes \<Rightarrow> bool"

record ykp_session_keys_t =
  sk_session_key :: bytes
  sk_session_id :: u32
  sk_key_ver :: u32
  sk_active :: bool

record ykp_security_ctx_t =
  sc_device_private_key :: bytes
  sc_device_public_key :: bytes
  sc_server_public_key :: bytes
  sc_ota_verify_key :: bytes
  sc_ephemeral_private :: bytes
  sc_ephemeral_public :: bytes
  sc_session :: ykp_session_keys_t

definition YKP_AES_KEY_LEN :: nat where "YKP_AES_KEY_LEN = 32"
definition YKP_EC_PUBKEY_LEN :: nat where "YKP_EC_PUBKEY_LEN = 65"
definition YKP_EC_PRIVKEY_LEN :: nat where "YKP_EC_PRIVKEY_LEN = 32"
definition YKP_NONCE_LEN :: nat where "YKP_NONCE_LEN = 16"
definition YKP_SHA256_LEN :: nat where "YKP_SHA256_LEN = 32"

lemmas key_sizes = YKP_AES_KEY_LEN_def YKP_EC_PUBKEY_LEN_def YKP_EC_PRIVKEY_LEN_def
  YKP_NONCE_LEN_def YKP_SHA256_LEN_def

section \<open>The memory pool\<close>

record mbedtls_pool =
  mp_mem :: bytes
  mp_offset :: u32

definition MBEDTLS_POOL_SIZE :: u32 where "MBEDTLS_POOL_SIZE = 8192"

text \<open>The result is the index of the block in the pool, or NULL; \<open>memset\<close> is checked.\<close>

definition mbedtls_pool_calloc ::
  "mbedtls_pool \<Rightarrow> u32 \<Rightarrow> u32 \<Rightarrow> fault + (u32 option \<times> mbedtls_pool)" where
  "mbedtls_pool_calloc p n elem_size =
     (let total = (n * elem_size + 3) AND NOT 3
      in if mp_offset p + total \<le> MBEDTLS_POOL_SIZE then
           bindE (wr_bytes (mp_mem p) (unat (mp_offset p)) (replicate (unat total) 0)) (\<lambda>mem.
             Inr (Some (mp_offset p), \<lparr>mp_mem = mem, mp_offset = mp_offset p + total\<rparr>))
         else Inr (None, p))"

definition mbedtls_pool_free :: "mbedtls_pool \<Rightarrow> u32 option \<Rightarrow> mbedtls_pool" where
  "mbedtls_pool_free p ptr = p"

section \<open>Keys\<close>

definition session_keys_zero :: ykp_session_keys_t where
  "session_keys_zero =
     \<lparr>sk_session_key = replicate YKP_AES_KEY_LEN 0, sk_session_id = 0, sk_key_ver = 0, sk_active = False\<rparr>"

definition security_ctx_zero :: ykp_security_ctx_t where
  "security_ctx_zero =
     \<lparr>sc_device_private_key = replicate YKP_EC_PRIVKEY_LEN 0,
      sc_device_public_key = replicate YKP_EC_PUBKEY_LEN 0,
      sc_server_public_key = replicate YKP_EC_PUBKEY_LEN 0,
      sc_ota_verify_key = replicate YKP_EC_PUBKEY_LEN 0,
      sc_ephemeral_private = replicate YKP_EC_PRIVKEY_LEN 0,
      sc_ephemeral_public = replicate YKP_EC_PUBKEY_LEN 0, sc_session = session_keys_zero\<rparr>"

text \<open>A value of at most n bytes read or exported into the first bytes of a field.\<close>

definition into_field :: "bytes \<Rightarrow> bytes option \<Rightarrow> bytes" where
  "into_field field val = (case val of None \<Rightarrow> field | Some v \<Rightarrow> write_at field 0 v)"

definition store_exported ::
  "'n nvs_driver \<Rightarrow> string \<Rightarrow> bytes option \<Rightarrow> 'n \<Rightarrow> 'n" where
  "store_exported d key val n =
     (case val of None \<Rightarrow> n | Some v \<Rightarrow> snd (nvs_config_set_blob d n key v))"

definition ykp_security_init ::
  "psa \<Rightarrow> 'n nvs_driver \<Rightarrow> 'n \<Rightarrow> bool \<times> ykp_security_ctx_t \<times> 'n" where
  "ykp_security_init ops d n =
     (let ctx = security_ctx_zero
      in if \<not> psa_crypto_init ops then (False, ctx, n)
         else
           let stored = nvs_config_get_blob d n ''private_key'' YKP_EC_PRIVKEY_LEN;
               gen = (case stored of
                   Some k \<Rightarrow> Some (ctx\<lparr>sc_device_private_key := into_field (sc_device_private_key ctx) (Some k)\<rparr>, n)
                 | None \<Rightarrow>
                     (case psa_generate_key ops of
                        None \<Rightarrow> None
                      | Some key_id \<Rightarrow>
                          let priv = psa_export_key ops key_id;
                              n = store_exported d ''private_key'' priv n;
                              pub = psa_export_public_key ops key_id;
                              n = store_exported d ''public_key'' pub n
                          in Some (ctx\<lparr>sc_device_private_key := into_field (sc_device_private_key ctx) priv,
                                       sc_device_public_key := into_field (sc_device_public_key ctx) pub\<rparr>, n)))
           in case gen of
                None \<Rightarrow> (False, ctx, n)
              | Some (ctx, n) \<Rightarrow>
                  (True, ctx\<lparr>sc_device_public_key := into_field (sc_device_public_key ctx)
                               (nvs_config_get_blob d n ''public_key'' YKP_EC_PUBKEY_LEN),
                             sc_server_public_key := into_field (sc_server_public_key ctx)
                               (nvs_config_get_blob d n ''server_pub_key'' YKP_EC_PUBKEY_LEN),
                             sc_ota_verify_key := into_field (sc_ota_verify_key ctx)
                               (nvs_config_get_blob d n ''ota_verify_key'' YKP_EC_PUBKEY_LEN)\<rparr>, n))"

text \<open>The pool offset goes back to 0 first.\<close>

definition ykp_security_gen_ephemeral ::
  "psa \<Rightarrow> mbedtls_pool \<Rightarrow> ykp_security_ctx_t \<Rightarrow> bool \<times> ykp_security_ctx_t \<times> mbedtls_pool" where
  "ykp_security_gen_ephemeral ops pool ctx =
     (let pool = pool\<lparr>mp_offset := 0\<rparr>
      in case psa_generate_key ops of
           None \<Rightarrow> (False, ctx, pool)
         | Some key_id \<Rightarrow>
             (case psa_export_key ops key_id of
                None \<Rightarrow> (False, ctx, pool)
              | Some priv \<Rightarrow>
                  let ctx = ctx\<lparr>sc_ephemeral_private := into_field (sc_ephemeral_private ctx) (Some priv)\<rparr>
                  in case psa_export_public_key ops key_id of
                       None \<Rightarrow> (False, ctx, pool)
                     | Some pub \<Rightarrow>
                         (True, ctx\<lparr>sc_ephemeral_public := into_field (sc_ephemeral_public ctx) (Some pub)\<rparr>,
                          pool)))"

text \<open>
  \<open>server_ephemeral_pub\<close> and \<open>nonce\<close> are the arrays behind the pointers; the code reads 65
  bytes and \<open>nonce_len\<close> bytes of them.
\<close>

definition ykp_security_derive_session_key ::
  "psa \<Rightarrow> ykp_security_ctx_t \<Rightarrow> bytes \<Rightarrow> bytes \<Rightarrow> u16 \<Rightarrow> u32 \<Rightarrow> fault + bool \<times> ykp_security_ctx_t" where
  "ykp_security_derive_session_key ops ctx server_ephemeral_pub nonce nonce_len session_id =
     (if \<not> psa_import_key ops (sc_ephemeral_private ctx) then Inr (False, ctx)
      else bindE (rd_bytes server_ephemeral_pub 0 YKP_EC_PUBKEY_LEN) (\<lambda>pub.
        case psa_raw_key_agreement ops (sc_ephemeral_private ctx) pub of
          None \<Rightarrow> Inr (False, ctx)
        | Some shared_secret \<Rightarrow>
            if \<not> psa_import_key ops shared_secret then Inr (False, ctx)
            else bindE (rd_bytes nonce 0 (unat nonce_len)) (\<lambda>salt.
              case psa_hkdf_sha256 ops salt shared_secret (ascii ''ykp-session-v5'') YKP_AES_KEY_LEN of
                None \<Rightarrow> Inr (False, ctx)
              | Some key \<Rightarrow>
                  Inr (True, ctx\<lparr>sc_session := \<lparr>sk_session_key = key, sk_session_id = session_id,
                    sk_key_ver = sk_key_ver (sc_session ctx) + 1, sk_active = True\<rparr>\<rparr>))))"

section \<open>Encryption\<close>

definition gcm_iv :: "u32 \<Rightarrow> u32 \<Rightarrow> bytes" where
  "gcm_iv key_ver packet_id = write_u32_be key_ver @ write_u32_be packet_id @ replicate 4 0"

text \<open>
  \<open>plaintext\<close> is the array of \<open>plaintext_len\<close> bytes, encrypted in place; the result is the new
  array and the tag, or \<open>None\<close> for a return value of false.
\<close>

definition ykp_security_encrypt ::
  "psa \<Rightarrow> ykp_session_keys_t \<Rightarrow> u32 \<Rightarrow> bytes \<Rightarrow> bytes \<Rightarrow> (bytes \<times> bytes) option" where
  "ykp_security_encrypt ops keys packet_id aad plaintext =
     (if \<not> sk_active keys then None
      else let iv = gcm_iv (sk_key_ver keys) packet_id
        in if \<not> psa_import_key ops (sk_session_key keys) then None
           else if 256 < length plaintext + YKP_AUTH_TAG_SIZE then None
           else case psa_aead_encrypt ops (sk_session_key keys) iv aad plaintext of
               None \<Rightarrow> None
             | Some buf \<Rightarrow> Some (take (length plaintext) buf,
                               slice (length plaintext) YKP_AUTH_TAG_SIZE buf))"

definition ykp_security_decrypt ::
  "psa \<Rightarrow> ykp_session_keys_t \<Rightarrow> u32 \<Rightarrow> bytes \<Rightarrow> bytes \<Rightarrow> bytes \<Rightarrow> bytes option" where
  "ykp_security_decrypt ops keys packet_id aad ciphertext auth_tag =
     (if \<not> sk_active keys then None
      else let iv = gcm_iv (sk_key_ver keys) packet_id
        in if \<not> psa_import_key ops (sk_session_key keys) then None
           else if 256 < length ciphertext + YKP_AUTH_TAG_SIZE then None
           else psa_aead_decrypt ops (sk_session_key keys) iv aad (ciphertext @ auth_tag))"

section \<open>Signatures, hashes, random numbers\<close>

definition ykp_security_sha256 :: "psa \<Rightarrow> bytes \<Rightarrow> bytes option" where
  "ykp_security_sha256 ops data = psa_hash_sha256 ops data"

definition ykp_security_sign :: "psa \<Rightarrow> ykp_security_ctx_t \<Rightarrow> bytes \<Rightarrow> bytes option" where
  "ykp_security_sign ops ctx data =
     (case ykp_security_sha256 ops data of
        None \<Rightarrow> None
      | Some hash \<Rightarrow>
          if \<not> psa_import_key ops (sc_device_private_key ctx) then None
          else psa_sign_hash ops (sc_device_private_key ctx) hash)"

definition ykp_security_verify :: "psa \<Rightarrow> ykp_security_ctx_t \<Rightarrow> bytes \<Rightarrow> bytes \<Rightarrow> bool" where
  "ykp_security_verify ops ctx data sig =
     (if length sig < 64 then False
      else case ykp_security_sha256 ops data of
          None \<Rightarrow> False
        | Some hash \<Rightarrow>
            if \<not> psa_import_key ops (sc_ota_verify_key ctx) then False
            else psa_verify_hash ops (sc_ota_verify_key ctx) hash sig)"

text \<open>The random bytes are an argument.\<close>

definition ykp_security_random :: "(nat \<Rightarrow> bytes) \<Rightarrow> nat \<Rightarrow> bool \<times> bytes" where
  "ykp_security_random esp_fill_random len = (True, esp_fill_random len)"

section \<open>The pool stays inside its array\<close>

lemma align_4: "unat ((w :: u32) AND NOT 3) = unat w div 4 * 4"
proof -
  have "(3 :: u32) = mask 2" by (simp add: mask_eq_exp_minus_1)
  moreover have "w AND NOT (mask 2) = push_bit 2 (drop_bit 2 w)"
  proof (rule bit_word_eqI)
    fix n :: nat assume "n < LENGTH(32)"
    then show "bit (w AND NOT (mask 2)) n = bit (push_bit 2 (drop_bit 2 w)) n"
      unfolding bit_push_bit_iff bit_and_iff bit_not_iff bit_mask_iff bit_drop_bit_eq comp_def
      by (cases "2 \<le> n") (auto dest: le_Suc_ex)
  qed
  moreover have "unat (push_bit 2 (drop_bit 2 w)) = unat w div 4 * 4"
    unfolding unsigned_push_bit_eq unsigned_drop_bit_eq
    using unat_lt_u32 [of w]
    by (simp add: push_bit_eq_mult drop_bit_eq_div take_bit_nat_eq_self)
  ultimately show ?thesis by (simp only:)
qed

definition pool_inv :: "mbedtls_pool \<Rightarrow> bool" where
  "pool_inv p \<longleftrightarrow> length (mp_mem p) = 8192 \<and> mp_offset p \<le> MBEDTLS_POOL_SIZE"

text \<open>Requests below 4 GiB minus the pool do not wrap.\<close>

definition small_request :: "u32 \<Rightarrow> u32 \<Rightarrow> bool" where
  "small_request n s \<longleftrightarrow> unat n * unat s < 4294950000"

lemma pool_total:
  assumes "small_request n s"
  shows "unat ((n * s + 3) AND NOT 3) = (unat n * unat s + 3) div 4 * 4"
    and "unat n * unat s \<le> unat ((n * s + 3) AND NOT 3)" "unat ((n * s + 3) AND NOT 3) < 4294955000"
proof -
  have m: "unat (n * s) = unat n * unat s"
    using assms by (simp add: small_request_def unat_word_ariths)
  then have "unat (n * s + 3) = unat n * unat s + 3"
    using assms by (simp add: small_request_def unat_word_ariths)
  then show t: "unat ((n * s + 3) AND NOT 3) = (unat n * unat s + 3) div 4 * 4"
    by (simp only: align_4)
  show "unat n * unat s \<le> unat ((n * s + 3) AND NOT 3)" unfolding t by presburger
  show "unat ((n * s + 3) AND NOT 3) < 4294955000"
    unfolding t using assms unfolding small_request_def by presburger
qed

lemma calloc_inv:
  assumes p: "pool_inv p" and r: "small_request n s"
  shows "\<exists>ptr p'. mbedtls_pool_calloc p n s = Inr (ptr, p') \<and> pool_inv p' \<and>
    (case ptr of None \<Rightarrow> p' = p
     | Some i \<Rightarrow> i = mp_offset p \<and> unat i + unat n * unat s \<le> unat (mp_offset p') \<and>
         (\<forall>k < unat i. mp_mem p' ! k = mp_mem p ! k))"
proof -
  define total where "total = (n * s + 3) AND NOT 3"
  note t = pool_total [OF r, folded total_def]
  have o: "unat (mp_offset p) \<le> 8192" using p by (simp add: pool_inv_def MBEDTLS_POOL_SIZE_def word_le_nat_alt)
  have sum: "unat (mp_offset p + total) = unat (mp_offset p) + unat total"
    using o t(3) by (subst unat_add_lem [THEN iffD1]) simp_all
  show ?thesis
  proof (cases "mp_offset p + total \<le> MBEDTLS_POOL_SIZE")
    case True
    then have fit: "unat (mp_offset p) + unat total \<le> 8192"
      by (simp add: word_le_nat_alt MBEDTLS_POOL_SIZE_def sum)
    then have "mbedtls_pool_calloc p n s = Inr (Some (mp_offset p),
        \<lparr>mp_mem = write_at (mp_mem p) (unat (mp_offset p)) (replicate (unat total) 0),
         mp_offset = mp_offset p + total\<rparr>)"
      using True p
      by (simp only: mbedtls_pool_calloc_def Let_def flip: total_def) (simp add: pool_inv_def)
    then show ?thesis using True p fit t(2) o
      by (auto simp: pool_inv_def sum write_at_def nth_append)
  next
    case False
    then have "mbedtls_pool_calloc p n s = Inr (None, p)"
      by (simp only: mbedtls_pool_calloc_def Let_def if_False flip: total_def)
    then show ?thesis using p by simp
  qed
qed

text \<open>The pool under a sequence of requests.\<close>

definition pool_step :: "mbedtls_pool \<Rightarrow> u32 \<times> u32 \<Rightarrow> mbedtls_pool" where
  "pool_step p r =
     (if small_request (fst r) (snd r)
      then case mbedtls_pool_calloc p (fst r) (snd r) of Inl _ \<Rightarrow> p | Inr (_, p') \<Rightarrow> p'
      else p)"

interpretation pool_machine: machine pool_step pool_inv
proof
  show "pool_inv p \<Longrightarrow> pool_inv (pool_step p r)" for p r
    using calloc_inv [of p "fst r" "snd r"] by (auto simp: pool_step_def)
qed

section \<open>Encryption and decryption\<close>

text \<open>
  What PSA documents of \<open>psa_aead_encrypt\<close> and \<open>psa_aead_decrypt\<close> for AES-GCM: the output is the
  ciphertext and a 16-byte tag, and decrypts to the plaintext under the same key, IV and
  additional data.
\<close>

definition aead_laws :: "psa \<Rightarrow> bool" where
  "aead_laws ops \<longleftrightarrow>
     (\<forall>k iv aad p c. psa_aead_encrypt ops k iv aad p = Some c \<longrightarrow>
        length c = length p + 16 \<and> psa_aead_decrypt ops k iv aad c = Some p)"

lemma decrypt_encrypt:
  assumes "aead_laws ops" "ykp_security_encrypt ops keys pid aad p = Some (c, tag)"
  shows "ykp_security_decrypt ops keys pid aad c tag = Some p \<and> length c = length p \<and> length tag = 16"
proof -
  obtain buf where b: "psa_aead_encrypt ops (sk_session_key keys) (gcm_iv (sk_key_ver keys) pid) aad p = Some buf"
    "c = take (length p) buf" "tag = slice (length p) 16 buf" "sk_active keys"
    "psa_import_key ops (sk_session_key keys)" "length p + 16 \<le> 256"
    using assms(2) by (auto simp: ykp_security_encrypt_def Let_def size_defs split: if_splits option.splits)
  then have l: "length buf = length p + 16"
    and d: "psa_aead_decrypt ops (sk_session_key keys) (gcm_iv (sk_key_ver keys) pid) aad buf = Some p"
    using assms(1) unfolding aead_laws_def by blast+
  have "c @ tag = buf" using b(2,3) l by (simp add: slice_def)
  then show ?thesis using b l d by (simp add: ykp_security_decrypt_def Let_def size_defs)
qed

lemma gcm_iv_inj: "gcm_iv v i = gcm_iv w j \<longleftrightarrow> v = w \<and> i = j"
  by (auto simp: gcm_iv_def write_u32_be_inj)

lemma length_gcm_iv: "length (gcm_iv v i) = 12"
  by (simp add: gcm_iv_def)

lemma crypt_limit:
  "240 < length p \<Longrightarrow> ykp_security_encrypt ops keys pid aad p = None"
  "240 < length p \<Longrightarrow> ykp_security_decrypt ops keys pid aad p tag = None"
  by (simp_all add: ykp_security_encrypt_def ykp_security_decrypt_def Let_def size_defs)

lemma crypt_inactive:
  "\<not> sk_active keys \<Longrightarrow> ykp_security_decrypt ops keys pid aad p tag = None"
  by (simp add: ykp_security_decrypt_def)

text \<open>An instance of the API for witnesses: no confidentiality, but lengths and laws hold.\<close>

definition plain_psa :: psa where
  "plain_psa =
     \<lparr>psa_crypto_init = True, psa_generate_key = Some 0, psa_export_key = (\<lambda>k. Some (replicate 32 1)),
      psa_export_public_key = (\<lambda>k. Some (replicate 65 2)), psa_import_key = (\<lambda>k. True),
      psa_raw_key_agreement = (\<lambda>a b. Some (replicate 32 3)),
      psa_hkdf_sha256 = (\<lambda>s k i n. Some (replicate n 4)),
      psa_aead_encrypt = (\<lambda>k iv aad p. Some (p @ replicate 16 9)),
      psa_aead_decrypt = (\<lambda>k iv aad c. if drop (length c - 16) c = replicate 16 9
                                       then Some (take (length c - 16) c) else None),
      psa_hash_sha256 = (\<lambda>d. Some (replicate 32 5)), psa_sign_hash = (\<lambda>k h. Some (replicate 64 6)),
      psa_verify_hash = (\<lambda>k h s. s = replicate 64 6)\<rparr>"

lemma plain_psa_aead: "aead_laws plain_psa"
  by (simp add: aead_laws_def plain_psa_def)

end
