(* ===== verification/Session.thy ===== *)
theory Session
  imports Security
begin

text \<open>
  The session manager: \<open>main/ykp_core/ykp_session.c\<close>. The security context that the session
  points to is passed and returned; the readings of the timer are arguments, in
  milliseconds.

  The lemmas: the packet ids a session hands out are pairwise different for 2 ^ 32 calls,
  when rotation becomes due, and what a reset leaves.
\<close>

datatype ykp_session_state_t = SESSION_STATE_IDLE | SESSION_STATE_HELLO_SENT
  | SESSION_STATE_ECDH_SENT | SESSION_STATE_ACTIVE | SESSION_STATE_ROTATING | SESSION_STATE_CLOSED

record ykp_session_t =
  ss_state :: ykp_session_state_t
  ss_session_id :: u32
  ss_packet_counter :: u32
  ss_rx_counter :: u32
  ss_key_rotate_at :: u32
  ss_session_start_ms :: int
  ss_server_nonce :: bytes
  ss_needs_key_rotate :: bool

definition ykp_session_init :: ykp_session_t where
  "ykp_session_init =
     \<lparr>ss_state = SESSION_STATE_IDLE, ss_session_id = 0, ss_packet_counter = 1, ss_rx_counter = 0,
      ss_key_rotate_at = YKP_KEY_ROTATE_PACKET_COUNT, ss_session_start_ms = 0,
      ss_server_nonce = replicate YKP_NONCE_LEN 0, ss_needs_key_rotate = False\<rparr>"

definition ykp_session_next_packet_id :: "ykp_session_t \<Rightarrow> int \<Rightarrow> u32 \<times> ykp_session_t" where
  "ykp_session_next_packet_id s now_ms =
     (let s = s\<lparr>ss_packet_counter := ss_packet_counter s + 1\<rparr>;
          s = (if 0 < ss_session_start_ms s \<and> YKP_KEY_ROTATE_INTERVAL_MS \<le> now_ms - ss_session_start_ms s
               then s\<lparr>ss_needs_key_rotate := True\<rparr> else s);
          s = (if ss_key_rotate_at s \<le> ss_packet_counter s then s\<lparr>ss_needs_key_rotate := True\<rparr> else s)
      in (ss_packet_counter s, s))"

definition ykp_session_set_active :: "ykp_session_t \<Rightarrow> int \<Rightarrow> u32 \<Rightarrow> ykp_session_t" where
  "ykp_session_set_active s now_ms session_id =
     s\<lparr>ss_session_id := session_id, ss_state := SESSION_STATE_ACTIVE, ss_session_start_ms := now_ms,
       ss_packet_counter := 1, ss_needs_key_rotate := False\<rparr>"

text \<open>\<open>nonce\<close> is the array from the pointer to the end of the object it points into.\<close>

definition ykp_session_store_nonce :: "ykp_session_t \<Rightarrow> bytes \<Rightarrow> u16 \<Rightarrow> fault + ykp_session_t" where
  "ykp_session_store_nonce s nonce len =
     (let copy_len = (if unat len < YKP_NONCE_LEN then unat len else YKP_NONCE_LEN)
      in bindE (rd_bytes nonce 0 copy_len) (\<lambda>bs.
           Inr (s\<lparr>ss_server_nonce := write_at (ss_server_nonce s) 0 bs\<rparr>)))"

definition ykp_session_is_active :: "ykp_session_t \<Rightarrow> bool" where
  "ykp_session_is_active s = (ss_state s = SESSION_STATE_ACTIVE)"

definition ykp_session_reset ::
  "ykp_session_t \<Rightarrow> ykp_security_ctx_t \<Rightarrow> ykp_session_t \<times> ykp_security_ctx_t" where
  "ykp_session_reset s sec =
     (s\<lparr>ss_state := SESSION_STATE_IDLE, ss_session_id := 0, ss_packet_counter := 1,
        ss_needs_key_rotate := False, ss_session_start_ms := 0,
        ss_server_nonce := replicate YKP_NONCE_LEN 0\<rparr>,
      sec\<lparr>sc_session := (sc_session sec)\<lparr>sk_active := False\<rparr>\<rparr>)"

definition ykp_session_rotation_due :: "ykp_session_t \<Rightarrow> bool" where
  "ykp_session_rotation_due s = ss_needs_key_rotate s"

section \<open>Packet ids\<close>

text \<open>The ids handed out at a sequence of times.\<close>

fun session_ids :: "ykp_session_t \<Rightarrow> int list \<Rightarrow> u32 list" where
  "session_ids s [] = []"
| "session_ids s (t # ts) =
     (let (i, s') = ykp_session_next_packet_id s t in i # session_ids s' ts)"

lemma next_id:
  "fst (ykp_session_next_packet_id s t) = ss_packet_counter s + 1"
  "ss_packet_counter (snd (ykp_session_next_packet_id s t)) = ss_packet_counter s + 1"
  by (simp_all add: ykp_session_next_packet_id_def Let_def)

lemma session_ids_eq:
  "session_ids s ts = map (\<lambda>k. ss_packet_counter s + of_nat k) [1..<length ts + 1]"
proof (induction ts arbitrary: s)
  case (Cons t ts)
  obtain i s' where n: "ykp_session_next_packet_id s t = (i, s')" by fastforce
  have i: "i = ss_packet_counter s + 1" "ss_packet_counter s' = ss_packet_counter s + 1"
    using next_id [of s t] n by simp_all
  have "session_ids s (t # ts) = i # map (\<lambda>k. ss_packet_counter s' + of_nat k) [1..<length ts + 1]"
    using Cons n by simp
  also have "\<dots> = map (\<lambda>k. ss_packet_counter s + of_nat k) (1 # map Suc [1..<length ts + 1])"
    by (simp add: i algebra_simps)
  also have "1 # map Suc [1..<length ts + 1] = [1..<length (t # ts) + 1]"
    by (simp add: map_Suc_upt upt_conv_Cons del: upt_Suc)
  finally show ?case .
qed simp

lemma of_nat_inj_u32:
  "j < 4294967296 \<Longrightarrow> k < 4294967296 \<Longrightarrow> (of_nat j :: u32) = of_nat k \<longleftrightarrow> j = k"
proof -
  have u: "unat (of_nat n :: u32) = n" if "n < 4294967296" for n
    using that by (simp add: unat_of_nat take_bit_nat_eq_self)
  show "j < 4294967296 \<Longrightarrow> k < 4294967296 \<Longrightarrow> (of_nat j :: u32) = of_nat k \<longleftrightarrow> j = k"
    using u [of j] u [of k] by metis
qed

lemma session_ids_distinct:
  assumes "length ts \<le> 4294967296" shows "distinct (session_ids s ts)"
proof -
  have "inj_on (\<lambda>k. ss_packet_counter s + of_nat k) {1..<length ts + 1}"
  proof (rule inj_onI)
    fix j k assume j: "j \<in> {1..<length ts + 1}" and k: "k \<in> {1..<length ts + 1}"
      and eq: "ss_packet_counter s + of_nat j = ss_packet_counter s + (of_nat k :: u32)"
    obtain j' k' where jk: "j = Suc j'" "k = Suc k'" using j k by (cases j; cases k) auto
    then have "(of_nat j' :: u32) = of_nat k'" using eq by simp
    moreover have "j' < 4294967296" "k' < 4294967296" using j k jk assms by simp_all
    ultimately have "j' = k'" using of_nat_inj_u32 by blast
    then show "j = k" using jk by simp
  qed
  then show ?thesis unfolding session_ids_eq distinct_map set_upt by simp
qed

text \<open>Rotation is asked for by the count at the 999th id of a session.\<close>

lemma rotation_by_count:
  assumes "ss_key_rotate_at s = YKP_KEY_ROTATE_PACKET_COUNT" "999 \<le> unat (ss_packet_counter s)"
    "unat (ss_packet_counter s) < 4294967295"
  shows "ykp_session_rotation_due (snd (ykp_session_next_packet_id s t))"
proof -
  have "unat (ss_packet_counter s + 1) = unat (ss_packet_counter s) + 1"
    using assms(3) by (subst unat_add_lem [THEN iffD1]) simp_all
  then have "YKP_KEY_ROTATE_PACKET_COUNT \<le> ss_packet_counter s + 1"
    using assms(2) by (simp add: word_le_nat_alt YKP_KEY_ROTATE_PACKET_COUNT_def)
  then show ?thesis using assms(1)
    by (simp add: ykp_session_next_packet_id_def ykp_session_rotation_due_def Let_def)
qed

lemma reset_inactive:
  "\<not> ykp_session_is_active (fst (ykp_session_reset s sec))"
  "\<not> sk_active (sc_session (snd (ykp_session_reset s sec)))"
  "ss_server_nonce (fst (ykp_session_reset s sec)) = replicate 16 0"
  by (simp_all add: ykp_session_reset_def ykp_session_is_active_def YKP_NONCE_LEN_def)

lemma store_nonce_bytes:
  assumes "unat len \<le> length nonce" "length (ss_server_nonce s) = 16"
  shows "\<exists>s'. ykp_session_store_nonce s nonce len = Inr s' \<and> length (ss_server_nonce s') = 16 \<and>
    ss_server_nonce s' = take (min (unat len) 16) nonce @ drop (min (unat len) 16) (ss_server_nonce s)"
  using assms
  by (auto simp: ykp_session_store_nonce_def Let_def YKP_NONCE_LEN_def write_at_def slice_def min_def)

section \<open>Properties\<close>

text \<open>
  No AES-GCM IV is used twice under one key version while a session hands out packet ids:
  the ids of up to 2 ^ 32 consecutive calls are pairwise different whatever the times, and the
  12-byte IVs built from them as well.
\<close>

lemma session_ivs_distinct:
  assumes "length ts \<le> 4294967296"
  shows "distinct (session_ids s ts) \<and> distinct (map (gcm_iv v) (session_ids s ts))"
proof -
  have d: "distinct (session_ids s ts)" by (rule session_ids_distinct [OF assms])
  moreover have "inj (gcm_iv v)" by (rule injI) (simp add: gcm_iv_inj)
  ultimately show ?thesis by (simp add: distinct_map inj_on_subset [OF _ subset_UNIV])
qed

lemma session_ivs_distinct_instance:
  "distinct (map (gcm_iv 7) (session_ids ykp_session_init [10, 20, 20, 30]))"
  using session_ivs_distinct [of "[10, 20, 20, 30]" ykp_session_init 7] by (simp del: session_ids.simps)

text \<open>
  Decrypting what was encrypted gives the plaintext back, under the documented law of the
  AEAD: same keys, packet id and additional data, for every payload up to 240 bytes; the
  ciphertext has the length of the plaintext and the tag 16 bytes.
\<close>

lemma decrypt_inverts_encrypt:
  assumes "aead_laws ops" "ykp_security_encrypt ops keys pid aad p = Some (c, tag)"
  shows "ykp_security_decrypt ops keys pid aad c tag = Some p \<and> length c = length p \<and> length tag = 16"
  by (rule decrypt_encrypt [OF assms])

lemma decrypt_inverts_encrypt_instance:
  "ykp_security_decrypt plain_psa \<lparr>sk_session_key = [], sk_session_id = 1, sk_key_ver = 1, sk_active = True\<rparr>
     5 [] [1, 2, 3] (replicate 16 9) = Some [1, 2, 3]"
proof -
  let ?k = "\<lparr>sk_session_key = [], sk_session_id = 1, sk_key_ver = 1, sk_active = True\<rparr>"
  have "ykp_security_encrypt plain_psa ?k 5 [] [1, 2, 3] = Some ([1, 2, 3], replicate 16 9)"
    by (simp add: ykp_security_encrypt_def plain_psa_def size_defs slice_def Let_def)
  from decrypt_inverts_encrypt [OF plain_psa_aead this] show ?thesis by simp
qed

text \<open>
  Payloads above 240 bytes can be neither encrypted nor decrypted, whatever the keys and
  the crypto library, although the parser accepts payloads up to 512 bytes: an encrypted
  packet of 241 to 512 bytes is always dropped.
\<close>

lemma crypt_size_limit:
  assumes "240 < length p"
  shows "ykp_security_encrypt ops keys pid aad p = None \<and> ykp_security_decrypt ops keys pid aad p tag = None"
  using crypt_limit [OF assms] by simp

lemma crypt_size_limit_instance:
  "ykp_security_decrypt plain_psa session_keys_zero 5 [] (replicate 241 0) [] = None"
  using crypt_size_limit [of "replicate 241 0" plain_psa session_keys_zero 5 "[]" "[]"] by simp

text \<open>
  The static pool never writes outside its 8192 bytes for requests whose size does not
  wrap: a block starts at the old offset, has at least the requested size, and leaves the
  bytes of earlier blocks alone.
\<close>

lemma pool_calloc_safe:
  assumes "pool_inv p" "small_request n s"
  shows "\<exists>ptr p'. mbedtls_pool_calloc p n s = Inr (ptr, p') \<and> pool_inv p' \<and>
    (case ptr of None \<Rightarrow> p' = p
     | Some i \<Rightarrow> i = mp_offset p \<and> unat i + unat n * unat s \<le> unat (mp_offset p') \<and>
         (\<forall>k < unat i. mp_mem p' ! k = mp_mem p ! k))"
  by (rule calloc_inv [OF assms])

lemma pool_calloc_safe_instance:
  "\<exists>ptr p'. mbedtls_pool_calloc \<lparr>mp_mem = replicate 8192 0, mp_offset = 100\<rparr> 3 5 = Inr (ptr, p') \<and> pool_inv p'"
proof -
  have 1: "pool_inv \<lparr>mp_mem = replicate 8192 0, mp_offset = 100\<rparr>"
    by (simp add: pool_inv_def MBEDTLS_POOL_SIZE_def)
  have 2: "small_request 3 5" by (simp add: small_request_def)
  show ?thesis using pool_calloc_safe [OF 1 2] by blast
qed

text \<open>
  The size arithmetic of the pool wraps: with 16 bytes in use, a request of
  \<open>0xFFFFFFF0\<close> bytes passes the check and the clearing of the block leaves the pool.
\<close>

lemma pool_calloc_wraps:
  assumes "length (mp_mem p) = 8192" "mp_offset p = 16"
  shows "mbedtls_pool_calloc p 1 0xFFFFFFF0 = Inl BufferOverflow"
proof -
  have "((1 :: u32) * 0xFFFFFFF0 + 3) AND NOT 3 = 0xFFFFFFF0" by simp
  then show ?thesis
    using assms by (simp add: mbedtls_pool_calloc_def Let_def MBEDTLS_POOL_SIZE_def wr_bytes_def)
qed

lemma pool_calloc_wraps_instance:
  "mbedtls_pool_calloc \<lparr>mp_mem = replicate 8192 0, mp_offset = 16\<rparr> 1 0xFFFFFFF0 = Inl BufferOverflow"
  by (rule pool_calloc_wraps) simp_all

end
