(* ===== verification/Transmit.thy ===== *)
theory Transmit
  imports Packet
begin

text \<open>
  The sequence every sender of the firmware goes through: allocate a packet, set its header,
  set the payload from a TLV builder, serialise into an array on the stack, hand it to the
  send callback, free the packet. \<open>tx_packet\<close> is that sequence with the header and payload of
  the caller; \<open>calloc_ok\<close> and \<open>malloc_ok\<close> say whether the two allocations succeed and
  \<open>send_set\<close> whether the callback is set. The arrays on the stack start with unknown
  contents; none of it is sent, so they are taken as zeros.

  \<open>tx_frame\<close> says which frame is sent, \<open>frame_parses\<close> what the receiver gets from it.
\<close>

definition tx_packet ::
  "bool \<Rightarrow> bool \<Rightarrow> bool \<Rightarrow> (ykp_packet_t \<Rightarrow> ykp_packet_t) \<Rightarrow> (bytes \<times> u16) option \<Rightarrow> nat \<Rightarrow>
   fault + event list" where
  "tx_packet calloc_ok malloc_ok send_set set_hdr payload raw_size =
     (case ykp_packet_alloc calloc_ok of
        None \<Rightarrow> Inr []
      | Some pkt \<Rightarrow>
          bindE (case payload of
                   None \<Rightarrow> Inr (set_hdr pkt)
                 | Some (buf, len) \<Rightarrow> ykp_packet_set_payload malloc_ok (set_hdr pkt) (Some buf) len) (\<lambda>pkt.
          bindE (ykp_packet_serialise [] pkt (replicate raw_size 0) (of_nat raw_size)) (\<lambda>(raw_len, raw).
          bindE (ykp_packet_free (Some pkt)) (\<lambda>_.
            Inr (if 0 < raw_len \<and> send_set then [TxFrame (take (unat raw_len) raw)] else [])))))"

text \<open>The events of a service, with the frames given to the send callback \<open>f\<close>.\<close>

definition deliver :: "(bytes \<Rightarrow> event list) \<Rightarrow> event list \<Rightarrow> event list" where
  "deliver f evs = concat (map (\<lambda>e. case e of TxFrame d \<Rightarrow> f d | _ \<Rightarrow> [e]) evs)"

lemma deliver_simps [simp]:
  "deliver f [] = []" "deliver f (xs @ ys) = deliver f xs @ deliver f ys"
  "deliver f (TxFrame d # evs) = f d @ deliver f evs"
  by (simp_all add: deliver_def)

text \<open>The header of a fresh packet.\<close>

definition fresh_header ::
  "u32 \<Rightarrow> u32 \<Rightarrow> bytes option \<Rightarrow> bytes option \<Rightarrow> ykp_route_t \<Rightarrow> ykp_service_t \<Rightarrow> u8 \<Rightarrow> ykp_qos_t \<Rightarrow> bool \<Rightarrow>
   ykp_header_t" where
  "fresh_header pid sid src dst rt sv ac qos enc =
     p_header (ykp_packet_set_header zero_packet pid sid src dst rt sv ac qos enc)"

lemma set_header_zero:
  "ykp_packet_set_header zero_packet pid sid src dst rt sv ac qos enc =
   zero_packet\<lparr>p_header := fresh_header pid sid src dst rt sv ac qos enc\<rparr>"
  by (simp add: fresh_header_def ykp_packet_set_header_def)

lemma fresh_header_ids [simp]:
  "length (h_source_id (fresh_header pid sid src dst rt sv ac qos enc)) = 8"
  "length (h_dest_id (fresh_header pid sid src dst rt sv ac qos enc)) = 8"
  by (auto simp: fresh_header_def ykp_packet_set_header_def size_defs split: option.splits)

lemma fresh_header_sel [simp]:
  "h_packet_id (fresh_header pid sid src dst rt sv ac qos enc) = pid"
  "h_session_id (fresh_header pid sid src dst rt sv ac qos enc) = sid"
  "h_service_id (fresh_header pid sid src dst rt sv ac qos enc) = service_code sv"
  "h_action_id (fresh_header pid sid src dst rt sv ac qos enc) = ac"
  "h_route_type (fresh_header pid sid src dst rt sv ac qos enc) = route_code rt"
  by (simp_all add: fresh_header_def ykp_packet_set_header_def)

text \<open>The frame of a header and a payload, with the zero tag of a packet never encrypted.\<close>

definition plain_frame :: "ykp_header_t \<Rightarrow> bytes \<Rightarrow> bytes" where
  "plain_frame h pl = header_bytes h (of_nat (length pl)) @ pl @ replicate 16 0"

definition sent_packet :: "ykp_header_t \<Rightarrow> bytes \<Rightarrow> ykp_packet_t" where
  "sent_packet h pl =
     \<lparr>p_header = h\<lparr>h_payload_len := of_nat (length pl)\<rparr>,
      p_payload = if pl = [] then PNull else PHeap pl,
      p_auth_tag = replicate 16 0, p_payload_len = of_nat (length pl)\<rparr>"

lemma sent_packet_wf:
  assumes "length (h_source_id h) = 8" "length (h_dest_id h) = 8" "length pl < 65536"
  shows "pkt_wf [] (sent_packet h pl)" "wire [] (sent_packet h pl) = plain_frame h pl"
    "payload_of [] (sent_packet h pl) = pl"
  using assms
  by (auto simp: pkt_wf_def sent_packet_def payload_mem_def wire_def payload_of_def plain_frame_def
      header_bytes_def)

lemma length_plain_frame:
  "length (h_source_id h) = 8 \<Longrightarrow> length (h_dest_id h) = 8 \<Longrightarrow> length (plain_frame h pl) = 49 + length pl"
  by (simp add: plain_frame_def)

text \<open>With memory available and a payload that fits, exactly this frame is sent.\<close>

lemma serialise_sent:
  assumes h: "length (h_source_id h) = 8" "length (h_dest_id h) = 8"
    and n: "49 + length pl \<le> raw_size" "raw_size < 65536"
  shows "ykp_packet_serialise [] (sent_packet h pl) (replicate raw_size 0) (of_nat raw_size) =
    Inr (of_nat (49 + length pl), plain_frame h pl @ replicate (raw_size - (49 + length pl)) 0)"
proof -
  have len: "length pl < 65536" "unat (of_nat (length pl) :: u16) = length pl" using n by simp_all
  show ?thesis
    using serialise_safe [OF sent_packet_wf(1) [OF h len(1)], of "of_nat raw_size" "replicate raw_size 0"]
      n len sent_packet_wf(2) [OF h len(1)]
    by (simp add: sent_packet_def)
qed

lemma tx_frame:
  assumes n: "0 < len" "unat len \<le> length buf" "49 + unat len \<le> raw_size" "raw_size < 65536"
  shows "tx_packet True True send_set
      (\<lambda>p. ykp_packet_set_header p pid sid src dst rt sv ac qos enc) (Some (buf, len)) raw_size =
    Inr (if send_set then [TxFrame (plain_frame (fresh_header pid sid src dst rt sv ac qos enc)
      (take (unat len) buf))] else [])"
proof -
  let ?h = "fresh_header pid sid src dst rt sv ac qos enc"
  let ?pl = "take (unat len) buf"
  have lp: "length ?pl = unat len" using n by simp
  have pl: "?pl \<noteq> []" using n by (auto simp: word_less_nat_alt)
  have set: "ykp_packet_set_payload True (zero_packet\<lparr>p_header := ?h\<rparr>) (Some buf) len =
      Inr (sent_packet ?h ?pl)"
    using n pl lp
    by (simp add: ykp_packet_set_payload_def zero_packet_def sent_packet_def slice_def word_gt_0)
  have ser: "ykp_packet_serialise [] (sent_packet ?h ?pl) (replicate raw_size 0) (of_nat raw_size) =
      Inr (of_nat (49 + unat len), plain_frame ?h ?pl @ replicate (raw_size - (49 + unat len)) 0)"
    using serialise_sent [of ?h ?pl raw_size] n lp by (simp del: of_nat_add)
  have u: "unat (of_nat (49 + unat len) :: u16) = 49 + unat len" using n by (intro unat_of_nat_u16) simp
  then have pos: "(0 :: u16) < of_nat (49 + unat len)" by (simp add: word_less_nat_alt del: of_nat_add)
  have tk: "take (49 + unat len) (plain_frame ?h ?pl @ replicate (raw_size - (49 + unat len)) 0) =
      plain_frame ?h ?pl"
    using length_plain_frame [of ?h ?pl] lp by simp
  have fr: "ykp_packet_free (Some (sent_packet ?h ?pl)) = Inr ()"
    by (simp add: ykp_packet_free_def sent_packet_def free_ptr_def)
  show ?thesis
    unfolding tx_packet_def ykp_packet_alloc_def set_header_zero if_True option.case prod.case set
      bindE_simps ser fr u tk using pos by (simp del: of_nat_add)
qed

text \<open>A packet sent without a payload.\<close>

lemma tx_frame_empty:
  assumes n: "49 \<le> raw_size" "raw_size < 65536"
  shows "tx_packet True True send_set
      (\<lambda>p. ykp_packet_set_header p pid sid src dst rt sv ac qos enc) None raw_size =
    Inr (if send_set then [TxFrame (plain_frame (fresh_header pid sid src dst rt sv ac qos enc) [])]
      else [])"
proof -
  let ?h = "fresh_header pid sid src dst rt sv ac qos enc"
  have e: "zero_packet\<lparr>p_header := ?h\<rparr> = sent_packet ?h []"
    by (simp add: zero_packet_def sent_packet_def fresh_header_def ykp_packet_set_header_def
        zero_header_def)
  have ser: "ykp_packet_serialise [] (sent_packet ?h []) (replicate raw_size 0) (of_nat raw_size) =
      Inr (49, plain_frame ?h [] @ replicate (raw_size - 49) 0)"
    using serialise_sent [of ?h "[]" raw_size] n by simp
  have fr: "ykp_packet_free (Some (sent_packet ?h [])) = Inr ()"
    by (simp add: ykp_packet_free_def sent_packet_def)
  have u: "unat (49 :: u16) = 49" by simp
  have tk: "take 49 (plain_frame ?h [] @ replicate (raw_size - 49) 0) = plain_frame ?h []"
    using length_plain_frame [of ?h "[]"] by simp
  show ?thesis
    unfolding tx_packet_def ykp_packet_alloc_def set_header_zero if_True option.case prod.case e
      bindE_simps ser fr u tk by simp
qed

text \<open>Whatever allocations fail, a sender does not fault; it sends one frame or nothing.\<close>

lemma tx_safe:
  assumes "unat len \<le> length buf" "49 + unat len \<le> raw_size" "raw_size < 65536"
  shows "\<exists>evs. tx_packet calloc_ok malloc_ok send_set
    (\<lambda>p. ykp_packet_set_header p pid sid src dst rt sv ac qos enc) (Some (buf, len)) raw_size = Inr evs"
proof -
  have size: "49 \<le> raw_size" using assms(2) by simp
  have none: "\<exists>evs. tx_packet True True send_set
      (\<lambda>p. ykp_packet_set_header p pid sid src dst rt sv ac qos enc) None raw_size = Inr evs"
    using tx_frame_empty [OF size assms(3), of send_set pid sid src dst rt sv ac qos enc] by auto
  let ?p = "ykp_packet_set_header zero_packet pid sid src dst rt sv ac qos enc"
  have empty: "ykp_packet_set_payload malloc_ok ?p (Some buf) len = Inr ?p" if "len = 0 \<or> \<not> malloc_ok"
    using that by (auto simp: ykp_packet_set_payload_def ykp_packet_set_header_def zero_packet_def zero_header_def)
  consider "\<not> calloc_ok" | "calloc_ok" "len = 0 \<or> \<not> malloc_ok" | "calloc_ok" "malloc_ok" "0 < len"
    using word_gt_0 [of len] by blast
  then show ?thesis
  proof cases
    case 2
    have "tx_packet calloc_ok malloc_ok send_set
        (\<lambda>p. ykp_packet_set_header p pid sid src dst rt sv ac qos enc) (Some (buf, len)) raw_size =
      tx_packet True True send_set (\<lambda>p. ykp_packet_set_header p pid sid src dst rt sv ac qos enc) None raw_size"
      unfolding tx_packet_def ykp_packet_alloc_def using 2(1) by (simp add: empty [OF 2(2)])
    then show ?thesis using none by simp
  next
    case 3
    then show ?thesis
      using tx_frame [OF 3(3) assms, of send_set pid sid src dst rt sv ac qos enc] by auto
  qed (simp add: tx_packet_def ykp_packet_alloc_def)
qed

lemma tx_events:
  assumes "tx_packet c m s f p n = Inr evs" shows "evs = [] \<or> (\<exists>d. evs = [TxFrame d])"
  using assms
  by (auto simp: tx_packet_def bindE_Inr_iff case_prod_beta split: option.splits if_splits)

text \<open>What the receiver of the frame parses from it.\<close>

lemma frame_parses:
  assumes h: "length (h_source_id h) = 8" "length (h_dest_id h) = 8" and pl: "length pl \<le> 512"
    and rx: "length rx = 512"
  shows "\<exists>pkt' rx'. ykp_packet_parse (plain_frame h pl) (of_nat (49 + length pl)) q rx = Inr (True, pkt', rx') \<and>
    p_header pkt' = h\<lparr>h_magic_0 := YKP_MAGIC_0, h_magic_1 := YKP_MAGIC_1, h_version := YKP_VERSION,
      h_payload_len := of_nat (length pl)\<rparr> \<and>
    payload_of rx' pkt' = pl \<and> unat (p_payload_len pkt') = length pl"
proof -
  have l: "length pl < 65536" using pl by simp
  note w = sent_packet_wf [OF h l]
  have u: "unat (of_nat (49 + length pl) :: u16) = 49 + length pl" using pl by (intro unat_of_nat_u16) simp
  have "\<exists>pkt' rx'. ykp_packet_parse (plain_frame h pl) (of_nat (49 + length pl)) q rx = Inr (True, pkt', rx') \<and>
    p_header pkt' = (p_header (sent_packet h pl))\<lparr>h_magic_0 := YKP_MAGIC_0, h_magic_1 := YKP_MAGIC_1,
      h_version := YKP_VERSION, h_payload_len := p_payload_len (sent_packet h pl)\<rparr> \<and>
    payload_of rx' pkt' = payload_of [] (sent_packet h pl) \<and> p_auth_tag pkt' = p_auth_tag (sent_packet h pl) \<and>
    p_payload_len pkt' = p_payload_len (sent_packet h pl)"
    by (rule parse_wire [OF w(1) _ _ _ _ rx])
      (use w pl u length_plain_frame [OF h] in \<open>simp_all add: sent_packet_def del: of_nat_add\<close>)
  then obtain pkt' rx' where p: "ykp_packet_parse (plain_frame h pl) (of_nat (49 + length pl)) q rx =
      Inr (True, pkt', rx')" "p_header pkt' = (p_header (sent_packet h pl))\<lparr>h_magic_0 := YKP_MAGIC_0,
      h_magic_1 := YKP_MAGIC_1, h_version := YKP_VERSION, h_payload_len := p_payload_len (sent_packet h pl)\<rparr>"
    "payload_of rx' pkt' = pl" "p_payload_len pkt' = of_nat (length pl)"
    using w(3) by (auto simp: sent_packet_def)
  then show ?thesis using l by (auto simp: sent_packet_def)
qed

text \<open>The frame of a header, a payload and a tag, and the packet the receiver gets from it.\<close>

definition tagged_frame :: "ykp_header_t \<Rightarrow> bytes \<Rightarrow> bytes \<Rightarrow> bytes" where
  "tagged_frame h pl tag = header_bytes h (of_nat (length pl)) @ pl @ tag"

definition received :: "ykp_header_t \<Rightarrow> bytes \<Rightarrow> bytes \<Rightarrow> ykp_packet_t" where
  "received h pl tag =
     \<lparr>p_header = h\<lparr>h_magic_0 := YKP_MAGIC_0, h_magic_1 := YKP_MAGIC_1, h_version := YKP_VERSION,
                   h_payload_len := of_nat (length pl)\<rparr>,
      p_payload = if pl = [] then PNull else PStatic, p_auth_tag = tag, p_payload_len = of_nat (length pl)\<rparr>"

lemma received_sel [simp]:
  "h_packet_id (p_header (received h pl tag)) = h_packet_id h" "h_flags (p_header (received h pl tag)) = h_flags h"
  "h_session_id (p_header (received h pl tag)) = h_session_id h" "h_source_id (p_header (received h pl tag)) = h_source_id h"
  "h_service_id (p_header (received h pl tag)) = h_service_id h" "h_action_id (p_header (received h pl tag)) = h_action_id h"
  "p_auth_tag (received h pl tag) = tag" "p_payload_len (received h pl tag) = of_nat (length pl)"
  "p_payload (received h pl tag) = (if pl = [] then PNull else PStatic)"
  by (simp_all add: received_def)

lemma plain_frame_tagged: "plain_frame h pl = tagged_frame h pl (replicate 16 0)"
  by (simp add: plain_frame_def tagged_frame_def)

lemma length_tagged_frame:
  "length (h_source_id h) = 8 \<Longrightarrow> length (h_dest_id h) = 8 \<Longrightarrow> length tag = 16 \<Longrightarrow>
   length (tagged_frame h pl tag) = 49 + length pl"
  by (simp add: tagged_frame_def)

lemma parse_frame:
  assumes h: "length (h_source_id h) = 8" "length (h_dest_id h) = 8" and tag: "length tag = 16"
    and pl: "length pl \<le> 512" and rx: "length rx = 512"
  shows "ykp_packet_parse (tagged_frame h pl tag) (of_nat (length (tagged_frame h pl tag))) q rx =
    Inr (True, received h pl tag, write_at rx 0 pl)"
proof -
  let ?f = "tagged_frame h pl tag"
  let ?h = "h\<lparr>h_magic_0 := YKP_MAGIC_0, h_magic_1 := YKP_MAGIC_1, h_version := YKP_VERSION,
    h_payload_len := of_nat (length pl)\<rparr>"
  have len: "length ?f = 49 + length pl" by (rule length_tagged_frame [OF h tag])
  have u: "unat (of_nat (length ?f) :: u16) = 49 + length pl" "unat (of_nat (length pl) :: u16) = length pl"
    using pl unfolding len by (intro unat_of_nat_u16, simp)+
  have rh: "read_header ?f = Inr ?h" unfolding tagged_frame_def by (rule read_header_bytes [OF h])
  have acc: "accepted ?h (of_nat (length ?f))" using u pl by (simp add: accepted_def)
  have 49: "49 \<le> unat (of_nat (length ?f) :: u16)" "unat (of_nat (length ?f) :: u16) \<le> length ?f"
    by (simp_all only: u(1)) (simp_all add: len)
  have lh: "length (header_bytes h (of_nat (length pl))) = 33" using h by simp
  have sl: "slice 33 (length pl) ?f = pl" "slice (33 + length pl) 16 ?f = tag"
    unfolding tagged_frame_def slice_def using lh tag by simp_all
  have n: "unat (h_payload_len ?h) = length pl" using u(2) by simp
  from parse_eq [OF 49 rx rh, of q] acc obtain pkt' rx' where
    p: "ykp_packet_parse ?f (of_nat (length ?f)) q rx = Inr (True, pkt', rx')"
    "pkt' = \<lparr>p_header = ?h, p_payload = if length pl = 0 then PNull else PStatic, p_auth_tag = tag,
      p_payload_len = of_nat (length pl)\<rparr>" "rx' = write_at rx 0 pl"
    unfolding Let_def n sl by auto
  then show ?thesis by (simp add: received_def)
qed

end
