(* ===== verification/Relay.thy ===== *)
theory Relay
  imports Transmit Tlv Session
begin

text \<open>
  The relay service: \<open>main/services/relay_service.c\<close>. The static variables of the file are the
  record \<open>relay\<close>; what the service does outside its memory are events: GPIO levels (pin 4 is
  the relay, pin 2 the LED), the frame given to the send callback, the BLE notification.
  Outcomes of allocations, whether BLE is connected, the level of the button and the time
  are arguments.

  The invariant of the service is that the two output pins and the state agree
  (\<open>relay_ok\<close>): the service is a \<open>machine\<close> over commands and button presses.
\<close>

definition GPIO_RELAY_OUTPUT :: nat where "GPIO_RELAY_OUTPUT = 4"
definition GPIO_STATUS_LED :: nat where "GPIO_STATUS_LED = 2"
definition GPIO_BUTTON_INPUT :: nat where "GPIO_BUTTON_INPUT = 0"

record relay =
  rl_state :: bool
  rl_send :: bool
  rl_device_id :: bytes
  rl_session :: bool

definition send_ack ::
  "bool \<Rightarrow> bool \<Rightarrow> relay \<Rightarrow> u32 \<Rightarrow> u32 \<Rightarrow> bytes \<Rightarrow> fault + event list" where
  "send_ack calloc_ok malloc_ok r packet_id session_id dest_id =
     (let b = ykp_tlv_builder_init (replicate 64 0) 64;
          b = snd (ykp_tlv_add_uint8 b (tlv_code TLV_STATE) (if rl_state r then 1 else 0));
          (n, b) = ykp_tlv_builder_len b
      in tx_packet calloc_ok malloc_ok (rl_send r)
           (\<lambda>p. ykp_packet_set_header p packet_id session_id (Some (rl_device_id r)) (Some dest_id)
                 ROUTE_DIRECT SVC_RELAY (relay_action_code RELAY_ACK) YKP_QOS_1 False)
           (Some (tb_buf b, n)) 256)"

definition notify_ble_sync :: "bool \<Rightarrow> relay \<Rightarrow> event list" where
  "notify_ble_sync ble_connected r =
     (if ble_connected
      then [BleNotify (''{\"status\": \"state_changed\", \"relay_state\": '' @
              (if rl_state r then ''true'' else ''false'') @ ''}'')]
      else [])"

definition button_isr_handler :: "event list" where
  "button_isr_handler = [GpioIntr False, TimerStart]"

text \<open>The levels of both outputs after a change of the state.\<close>

definition set_outputs :: "bool \<Rightarrow> event list" where
  "set_outputs on = [GpioSet GPIO_RELAY_OUTPUT on, GpioSet GPIO_STATUS_LED on]"

text \<open>\<open>button_low\<close>: \<open>gpio_get_level(GPIO_BUTTON_INPUT) == 0\<close>. \<open>s\<close> is the session.\<close>

definition button_debounce_timer_callback ::
  "bool \<Rightarrow> bool \<Rightarrow> bool \<Rightarrow> bool \<Rightarrow> int \<Rightarrow> relay \<Rightarrow> ykp_session_t \<Rightarrow>
   fault + relay \<times> ykp_session_t \<times> event list" where
  "button_debounce_timer_callback calloc_ok malloc_ok ble_connected button_low now r s =
     (if button_low then
        let r = r\<lparr>rl_state := \<not> rl_state r\<rparr>;
            (pkt_id, s) = (if rl_session r then ykp_session_next_packet_id s now else (0, s));
            sess_id = (if rl_session r then ss_session_id s else 0)
        in bindE (send_ack calloc_ok malloc_ok r pkt_id sess_id (ascii ''SERVER'')) (\<lambda>evs.
             Inr (r, s, set_outputs (rl_state r) @ evs @ notify_ble_sync ble_connected r @ [GpioIntr True]))
      else Inr (r, s, [GpioIntr True]))"

text \<open>\<open>device_id\<close> is what \<open>nvs_config_get_device_id\<close> reads into the zeroed array.\<close>

definition relay_service_init :: "bool \<Rightarrow> bool \<Rightarrow> bytes option \<Rightarrow> relay \<Rightarrow> relay \<times> event list" where
  "relay_service_init send_fn session device_id r =
     (r\<lparr>rl_send := send_fn, rl_session := session,
        rl_device_id := (case device_id of None \<Rightarrow> rl_device_id r | Some i \<Rightarrow> i)\<rparr>,
      set_outputs False)"

definition relay_service_handle ::
  "bool \<Rightarrow> bool \<Rightarrow> bool \<Rightarrow> relay \<Rightarrow> u8 \<Rightarrow> u32 \<Rightarrow> u32 \<Rightarrow> bytes \<Rightarrow> fault + relay \<times> event list" where
  "relay_service_handle calloc_ok malloc_ok ble_connected r action_id packet_id session_id dest_id =
     (let finish = (\<lambda>r evs0. bindE (send_ack calloc_ok malloc_ok r packet_id session_id dest_id) (\<lambda>evs.
            Inr (r, evs0 @ evs @ notify_ble_sync ble_connected r)))
      in case relay_action_decode action_id of
           Some RELAY_ON \<Rightarrow> finish (r\<lparr>rl_state := True\<rparr>) (set_outputs True)
         | Some RELAY_OFF \<Rightarrow> finish (r\<lparr>rl_state := False\<rparr>) (set_outputs False)
         | Some RELAY_TOGGLE \<Rightarrow>
             let r = r\<lparr>rl_state := \<not> rl_state r\<rparr> in finish r (set_outputs (rl_state r))
         | Some RELAY_STATUS \<Rightarrow> finish r []
         | _ \<Rightarrow> Inr (r, []))"

definition relay_service_get_state :: "relay \<Rightarrow> bool" where
  "relay_service_get_state r = rl_state r"

section \<open>The acknowledgement\<close>

definition ack_header :: "relay \<Rightarrow> u32 \<Rightarrow> u32 \<Rightarrow> bytes \<Rightarrow> ykp_header_t" where
  "ack_header r packet_id session_id dest_id =
     fresh_header packet_id session_id (Some (rl_device_id r)) (Some dest_id)
       ROUTE_DIRECT SVC_RELAY (relay_action_code RELAY_ACK) YKP_QOS_1 False"

definition ack_entries :: "relay \<Rightarrow> (u8 \<times> cval) list" where
  "ack_entries r = [(3, VUint (ucast (if rl_state r then 1 else 0 :: u8)))]"

lemma ack_payload:
  "map_bytes (ack_entries r) = [0xBF, 3, if rl_state r then 1 else 0, 0xFF]"
  by (simp add: map_bytes_def ack_entries_def entry_bytes_def key_bytes_def uint_bytes_def cbor_head_def)

lemma ack_built:
  defines "b r \<equiv> ykp_tlv_builder_len (snd (ykp_tlv_add_uint8 (ykp_tlv_builder_init (replicate 64 0) 64)
    (tlv_code TLV_STATE) (if rl_state r then 1 else 0)))"
  shows "take (unat (fst (b r))) (tb_buf (snd (b r))) = map_bytes (ack_entries r)"
    and "unat (fst (b r)) = length (map_bytes (ack_entries r))"
    and "unat (fst (b r)) \<le> length (tb_buf (snd (b r)))"
proof -
  let ?init = "ykp_tlv_builder_init (replicate 64 0) 64"
  let ?b = "snd (ykp_tlv_add_uint8 ?init (tlv_code TLV_STATE) (if rl_state r then 1 else 0))"
  have b0: "tb_holds ?init []" by (rule tb_holds_init) simp_all
  have c0: "tb_cap ?init = 64" by (simp add: ykp_tlv_builder_init_def)
  have b: "tb_holds ?b (ack_entries r)" "tb_cap ?b = 64"
    using u8_adder.add_fits [OF b0, of 3 "if rl_state r then 1 else 0"] c0
    by (auto simp: ack_entries_def entry_bytes_def key_bytes_def uint_bytes_def cbor_head_def)
  have fit: "length (map_bytes (ack_entries r)) \<le> unat (tb_cap ?b)"
    unfolding b(2) by (simp add: ack_payload)
  show "take (unat (fst (b r))) (tb_buf (snd (b r))) = map_bytes (ack_entries r)"
    "unat (fst (b r)) = length (map_bytes (ack_entries r))"
    "unat (fst (b r)) \<le> length (tb_buf (snd (b r)))"
    unfolding b_def using builder_payload [OF b(1) fit] by simp_all
qed

lemma send_ack_eq:
  "send_ack True True r pid sid dst =
   Inr (if rl_send r then [TxFrame (plain_frame (ack_header r pid sid dst) (map_bytes (ack_entries r)))]
        else [])"
proof -
  let ?b = "snd (ykp_tlv_add_uint8 (ykp_tlv_builder_init (replicate 64 0) 64) (tlv_code TLV_STATE)
    (if rl_state r then 1 else 0))"
  note p = ack_built [of r]
  have n: "unat (fst (ykp_tlv_builder_len ?b)) = 4" using p(2) by (simp add: ack_payload)
  then have pos: "0 < fst (ykp_tlv_builder_len ?b)" by (simp add: word_less_nat_alt)
  have "tx_packet True True (rl_send r)
      (\<lambda>p. ykp_packet_set_header p pid sid (Some (rl_device_id r)) (Some dst)
         ROUTE_DIRECT SVC_RELAY (relay_action_code RELAY_ACK) YKP_QOS_1 False)
      (Some (tb_buf (snd (ykp_tlv_builder_len ?b)), fst (ykp_tlv_builder_len ?b))) 256 =
    Inr (if rl_send r then [TxFrame (plain_frame (ack_header r pid sid dst)
      (take (unat (fst (ykp_tlv_builder_len ?b))) (tb_buf (snd (ykp_tlv_builder_len ?b)))))] else [])"
    unfolding ack_header_def by (rule tx_frame) (use pos n p in simp_all)
  then show ?thesis unfolding p(1) by (simp add: send_ack_def Let_def case_prod_beta)
qed

text \<open>Whatever allocations fail, the acknowledgement does not fault: it is one frame or nothing.\<close>

lemma send_ack_total:
  "\<exists>evs. send_ack calloc_ok malloc_ok r pid sid dst = Inr evs \<and> (evs = [] \<or> (\<exists>f. evs = [TxFrame f]))"
proof -
  let ?b = "snd (ykp_tlv_add_uint8 (ykp_tlv_builder_init (replicate 64 0) 64) (tlv_code TLV_STATE)
    (if rl_state r then 1 else 0))"
  have "\<exists>evs. send_ack calloc_ok malloc_ok r pid sid dst = Inr evs"
    unfolding send_ack_def Let_def case_prod_beta
    by (rule tx_safe) (use ack_built [of r] in \<open>simp_all add: ack_payload\<close>)
  then show ?thesis using tx_events unfolding send_ack_def Let_def case_prod_beta by blast
qed

text \<open>What the receiver of the acknowledgement reads.\<close>

definition read_state :: "bytes \<Rightarrow> u16 \<Rightarrow> (fault + u8 option) option" where
  "read_state payload len =
     bindC (ykp_tlv_find payload len (tlv_code TLV_STATE))
       (\<lambda>r. case r of None \<Rightarrow> retC None | Some t \<Rightarrow> Some (ykp_tlv_read_uint8 t))"

lemma ack_read:
  "read_state (map_bytes (ack_entries r) @ rest) 4 = Some (Inr (Some (if rl_state r then 1 else 0)))"
proof -
  have "tlv_lookup (ack_entries r) 3 (ykp_tlv_find (map_bytes (ack_entries r) @ rest) 4 3)"
    by (rule find_map) (simp_all add: ack_payload, simp add: ack_entries_def)
  then show ?thesis
    using read_uint8_head [of "ucast (if rl_state r then 1 else 0 :: u8)" 3]
    by (auto simp: tlv_lookup_def ack_entries_def read_state_def)
qed

section \<open>State and outputs agree\<close>

text \<open>The levels of the pins after a list of events.\<close>

fun pins_after :: "(nat \<Rightarrow> bool) \<Rightarrow> event list \<Rightarrow> nat \<Rightarrow> bool" where
  "pins_after pins [] = pins"
| "pins_after pins (GpioSet p v # evs) = pins_after (pins(p := v)) evs"
| "pins_after pins (_ # evs) = pins_after pins evs"

lemma pins_after_append [simp]: "pins_after pins (xs @ ys) = pins_after (pins_after pins xs) ys"
  by (induction pins xs rule: pins_after.induct) (simp_all del: fun_upd_apply)

lemma pins_after_other [simp]:
  "pins_after pins (notify_ble_sync c r) = pins"
  "pins_after pins (if b then [TxFrame f] else []) = pins"
  by (simp_all add: notify_ble_sync_def)

definition relay_ok :: "relay \<times> (nat \<Rightarrow> bool) \<Rightarrow> bool" where
  "relay_ok s \<longleftrightarrow> snd s GPIO_RELAY_OUTPUT = rl_state (fst s) \<and> snd s GPIO_STATUS_LED = rl_state (fst s)"

text \<open>The first two components of an input say whether \<open>calloc\<close> and \<open>malloc\<close> succeed while it is handled.\<close>

datatype relay_input =
  RelayCommand bool bool bool u8 u32 u32 bytes
| RelayButton bool bool bool bool int ykp_session_t

fun relay_step :: "relay \<times> (nat \<Rightarrow> bool) \<Rightarrow> relay_input \<Rightarrow> relay \<times> (nat \<Rightarrow> bool)" where
  "relay_step (r, pins) (RelayCommand c m ble action pid sid dst) =
     (case relay_service_handle c m ble r action pid sid dst of
        Inl _ \<Rightarrow> (r, pins) | Inr (r', evs) \<Rightarrow> (r', pins_after pins evs))"
| "relay_step (r, pins) (RelayButton c m ble low now s) =
     (case button_debounce_timer_callback c m ble low now r s of
        Inl _ \<Rightarrow> (r, pins) | Inr (r', s', evs) \<Rightarrow> (r', pins_after pins evs))"

lemma outputs_ok:
  "pins_after pins (set_outputs b) GPIO_RELAY_OUTPUT = b"
  "pins_after pins (set_outputs b) GPIO_STATUS_LED = b"
  by (simp_all add: set_outputs_def GPIO_RELAY_OUTPUT_def GPIO_STATUS_LED_def)

lemma send_ack_pins:
  obtains evs where "send_ack c m r pid sid dst = Inr evs" "\<And>pins. pins_after pins evs = pins"
proof -
  obtain evs where "send_ack c m r pid sid dst = Inr evs" "evs = [] \<or> (\<exists>f. evs = [TxFrame f])"
    using send_ack_total by blast
  then show thesis by (intro that) auto
qed

text \<open>No input faults, and each leaves the pins as the state says.\<close>

lemma handle_pins:
  assumes "relay_ok (r, pins)"
  shows "\<exists>r' evs. relay_service_handle c m ble r action pid sid dst = Inr (r', evs) \<and>
    relay_ok (r', pins_after pins evs)"
proof -
  have f: "\<exists>evs. send_ack c m r pid sid dst = Inr evs \<and> (\<forall>pins. pins_after pins evs = pins)" for r
    by (rule send_ack_pins [of c m r pid sid dst]) blast
  obtain g where "\<And>r. send_ack c m r pid sid dst = Inr (g r)" "\<And>r pins. pins_after pins (g r) = pins"
    using f by metis
  then show ?thesis using assms
    by (auto simp: relay_ok_def relay_service_handle_def Let_def outputs_ok
        split: option.splits ykp_relay_action_t.splits)
qed

lemma button_pins:
  assumes "relay_ok (r, pins)"
  shows "\<exists>r' s' evs. button_debounce_timer_callback c m ble low now r s = Inr (r', s', evs) \<and>
    relay_ok (r', pins_after pins evs)"
proof -
  have f: "\<exists>evs. send_ack c m r pid sid dst = Inr evs \<and> (\<forall>pins. pins_after pins evs = pins)" for r pid sid dst
    by (rule send_ack_pins [of c m r pid sid dst]) blast
  obtain g where "\<And>r p sid dst. send_ack c m r p sid dst = Inr (g r p sid dst)"
    "\<And>r p sid dst pins. pins_after pins (g r p sid dst) = pins"
    using f by metis
  then show ?thesis using assms
    by (auto simp: relay_ok_def button_debounce_timer_callback_def Let_def outputs_ok case_prod_beta)
qed

lemma relay_step_ok: "relay_ok s \<Longrightarrow> relay_ok (relay_step s i)"
proof (cases s; cases i)
  fix r pins c m ble action pid sid dst
  assume "relay_ok s" "s = (r, pins)" "i = RelayCommand c m ble action pid sid dst"
  then show ?thesis using handle_pins [of r pins c m ble action pid sid dst] by auto
next
  fix r pins c m ble low now se
  assume "relay_ok s" "s = (r, pins)" "i = RelayButton c m ble low now se"
  then show ?thesis using button_pins [of r pins c m ble low now se] by auto
qed

interpretation relay_machine: machine relay_step relay_ok
  by unfold_locales (rule relay_step_ok)

section \<open>Properties\<close>

text \<open>
  C22. The relay output, the status LED and the state the firmware reports agree after the
  start of the service and after every sequence of commands (known or unknown actions) and
  button interrupts, pressed or not, whatever allocations of the acknowledgements fail.
\<close>

theorem relay_outputs_follow_state:
  assumes "\<not> rl_state r"
  shows "relay_ok (foldl relay_step
    (fst (relay_service_init send ses dev r), pins_after pins (snd (relay_service_init send ses dev r))) is)"
proof -
  have "relay_ok (fst (relay_service_init send ses dev r), pins_after pins (snd (relay_service_init send ses dev r)))"
    using assms by (simp add: relay_ok_def relay_service_init_def outputs_ok)
  then show ?thesis by (rule relay_machine.run_inv)
qed

definition relay_off :: relay where
  "relay_off = \<lparr>rl_state = False, rl_send = True, rl_device_id = [], rl_session = False\<rparr>"

theorem relay_outputs_follow_state_witness:
  "relay_ok (foldl relay_step
    (fst (relay_service_init True True None relay_off),
     pins_after (\<lambda>_. True) (snd (relay_service_init True True None relay_off)))
    [RelayCommand True True True 3 1 1 [], RelayButton True False False True 0 ykp_session_init,
     RelayCommand False True False 9 1 1 []])"
  by (rule relay_outputs_follow_state) (simp add: relay_off_def)

text \<open>
  Every known command is answered with one frame that carries the new state: the frame
  parses, is addressed to the sender with the packet and session id of the command, and the
  receiver reads from it 1 for on and 0 for off. Unknown actions change nothing and are not
  answered.
\<close>

lemma relay_ack_reports_state:
  assumes "rl_send r" "length rx = 512"
    and "relay_service_handle True True ble r action pid sid dst = Inr (r', evs)"
  shows "(if action \<in> {1, 2, 3, 4} then
      \<exists>f pkt rx'. TxFrame f \<in> set evs \<and>
        ykp_packet_parse f (of_nat (length f)) zero_packet rx = Inr (True, pkt, rx') \<and>
        h_packet_id (p_header pkt) = pid \<and> h_session_id (p_header pkt) = sid \<and>
        read_state (payload_of rx' pkt) (p_payload_len pkt) =
          Some (Inr (Some (if rl_state r' then 1 else 0)))
    else r' = r \<and> evs = [])"
proof (cases "action \<in> {1, 2, 3, 4}")
  case True
  let ?f = "plain_frame (ack_header r' pid sid dst) (map_bytes (ack_entries r'))"
  have "rl_send r' = True \<and> TxFrame ?f \<in> set evs"
    using assms True
    by (auto simp: relay_service_handle_def relay_action_decode_def send_ack_eq Let_def)
  moreover have len: "length (map_bytes (ack_entries r')) = 4" by (simp add: ack_payload)
  obtain pkt rx' where p: "ykp_packet_parse ?f (of_nat (49 + 4)) zero_packet rx = Inr (True, pkt, rx')"
    "p_header pkt = (ack_header r' pid sid dst)\<lparr>h_magic_0 := YKP_MAGIC_0, h_magic_1 := YKP_MAGIC_1,
      h_version := YKP_VERSION, h_payload_len := of_nat 4\<rparr>"
    "payload_of rx' pkt = map_bytes (ack_entries r')" "unat (p_payload_len pkt) = 4"
    using frame_parses [of "ack_header r' pid sid dst" "map_bytes (ack_entries r')" rx zero_packet]
      assms(2) unfolding len by (auto simp: ack_header_def)
  have "length ?f = 49 + 4"
    using len by (simp add: length_plain_frame ack_header_def)
  moreover have "p_payload_len pkt = 4"
  proof -
    have "p_payload_len pkt = of_nat (unat (p_payload_len pkt))" by simp
    also have "\<dots> = 4" unfolding p(4) by simp
    finally show ?thesis .
  qed
  ultimately show ?thesis
    using True p ack_read [of r' "[]"] by (auto simp: ack_header_def)
next
  case False
  then have "relay_action_decode action \<notin> {Some RELAY_ON, Some RELAY_OFF, Some RELAY_TOGGLE, Some RELAY_STATUS}"
    by (auto simp: relay_action_decode_def)
  then show ?thesis using False assms(3)
    by (auto simp: relay_service_handle_def Let_def split: option.splits ykp_relay_action_t.splits)
qed

lemma relay_ack_reports_state_instance:
  "\<exists>r' evs f. relay_service_handle True True False relay_off 1 7 9 [] = Inr (r', evs) \<and> TxFrame f \<in> set evs"
proof -
  obtain r' evs where e: "relay_service_handle True True False relay_off 1 7 9 [] = Inr (r', evs)"
    by (simp add: relay_service_handle_def relay_action_decode_def send_ack_eq Let_def)
  from relay_ack_reports_state [OF _ _ e, of "replicate 512 0"] show ?thesis
    using e by (auto simp: relay_off_def)
qed

end
