(* ===== verification/Ota.thy ===== *)
theory Ota
  imports Transmit Tlv_Walk
begin

text \<open>
  Firmware update over the air: \<open>main/services/ota_service.c\<close>. The static variables of the
  file are the record \<open>ota\<close>; the running SHA-256 operation is the bytes it has been fed, or
  \<open>None\<close> when there is no operation. The ESP-IDF functions (\<open>esp_ota_begin\<close>, \<open>esp_ota_write\<close>,
  ...), the hash function and the outcomes of allocations are the parameter record
  \<open>ota_env\<close>; their effects are events. \<open>oe_garbage\<close> is the contents of \<open>computed_hash\<close> when
  \<open>psa_hash_finish\<close> fails and leaves it uninitialised.

  The handlers are computations of \<open>'a comp\<close>, since \<open>ykp_tlv_find\<close> may not return.

  The lemmas: what is hashed is what was written to flash, in order and without gaps
  (\<open>ota_ok\<close>, the service is a \<open>machine\<close>); over the life of an update, with the list of its
  events beside the state (\<open>ota_tracks\<close>, a second \<open>machine\<close>), when a hash is running and what
  \<open>OTA_COMPLETE\<close> compares; what \<open>OTA_BEGIN\<close> does with a hash; that
  \<open>OTA_INSTALL\<close> asks for nothing.
\<close>

record ota_state_t =
  ot_version :: bytes
  ot_firmware_size :: u32
  ot_chunk_size :: u16
  ot_chunks_total :: u16
  ot_sha256 :: bytes
  ot_ecdsa_sig :: bytes
  ot_active :: bool
  ot_next_expected_chunk :: u16

record ota =
  os_state :: ota_state_t
  os_send :: bool
  os_device_id :: bytes
  os_partition :: bool
  os_sha :: "bytes option"

record ota_env =
  oe_calloc :: bool
  oe_malloc :: bool
  oe_partition :: bool
  oe_begin :: bool
  oe_write :: "bytes \<Rightarrow> bool"
  oe_end :: bool
  oe_set_boot :: "bool \<Rightarrow> bool"
  oe_sha256 :: "bytes \<Rightarrow> bytes option"
  oe_garbage :: bytes

definition ota_state_zero :: ota_state_t where
  "ota_state_zero =
     \<lparr>ot_version = replicate 16 0, ot_firmware_size = 0, ot_chunk_size = 0, ot_chunks_total = 0,
      ot_sha256 = replicate 32 0, ot_ecdsa_sig = replicate 64 0, ot_active = False,
      ot_next_expected_chunk = 0\<rparr>"

definition send_ota_pkt :: "ota_env \<Rightarrow> ota \<Rightarrow> ykp_ota_action_t \<Rightarrow> fault + event list" where
  "send_ota_pkt env u action =
     tx_packet (oe_calloc env) (oe_malloc env) (os_send u)
       (\<lambda>p. ykp_packet_set_header p 0 0 (Some (os_device_id u)) (Some (ascii ''SERVER''))
             ROUTE_CLOUD SVC_OTA (ota_action_code action) YKP_QOS_1 False)
       None 64"

definition ota_service_init :: "bool \<Rightarrow> bytes option \<Rightarrow> ota \<Rightarrow> ota" where
  "ota_service_init send_fn device_id u =
     u\<lparr>os_send := send_fn,
       os_device_id := (case device_id of None \<Rightarrow> os_device_id u | Some i \<Rightarrow> i)\<rparr>"

definition ota_service_is_active :: "ota \<Rightarrow> bool" where
  "ota_service_is_active u = ot_active (os_state u)"

text \<open>\<open>if (ykp_tlv_find(...)) memcpy(field, tlv.value, min(tlv.length, n))\<close>.\<close>

definition copy_tlv :: "bytes \<Rightarrow> u16 \<Rightarrow> ykp_tlv_type_t \<Rightarrow> nat \<Rightarrow> bytes \<Rightarrow> bytes comp" where
  "copy_tlv payload len ty n field =
     bindC (ykp_tlv_find payload len (tlv_code ty)) (\<lambda>r.
       case r of
         None \<Rightarrow> retC field
       | Some t \<Rightarrow>
           liftC (bindE (rd_bytes (tlv_value t) 0 (min (unat (tlv_length t)) n)) (\<lambda>v.
             Inr (write_at field 0 v))))"

text \<open>The hash: \<open>None\<close> is the rejection of a field that is not 32 bytes long.\<close>

definition read_hash :: "bytes \<Rightarrow> u16 \<Rightarrow> bytes \<Rightarrow> bytes option comp" where
  "read_hash payload len field =
     bindC (ykp_tlv_find payload len (tlv_code TLV_HASH)) (\<lambda>r.
       case r of
         None \<Rightarrow> retC (Some field)
       | Some t \<Rightarrow>
           if tlv_length t \<noteq> 32 then retC None
           else liftC (bindE (rd_bytes (tlv_value t) 0 32) (\<lambda>v. Inr (Some v))))"

definition read_size :: "bytes \<Rightarrow> u16 \<Rightarrow> u32 comp" where
  "read_size payload len =
     bindC (ykp_tlv_find payload len (tlv_code TLV_VALUE_INT)) (\<lambda>r.
       case r of
         None \<Rightarrow> retC 0
       | Some t \<Rightarrow>
           liftC (bindE (ykp_tlv_read_uint32 t) (\<lambda>v. Inr (case v of None \<Rightarrow> 0 | Some x \<Rightarrow> x))))"

definition ota_fail :: "ota_env \<Rightarrow> ota \<Rightarrow> event list \<Rightarrow> (ota \<times> event list) comp" where
  "ota_fail env u evs0 = liftC (bindE (send_ota_pkt env u OTA_FAIL) (\<lambda>evs. Inr (u, evs0 @ evs)))"

text \<open>Opening the partition, once the metadata is in the state.\<close>

definition ota_open :: "ota_env \<Rightarrow> ota \<Rightarrow> (ota \<times> event list) comp" where
  "ota_open env u =
     (let u = u\<lparr>os_partition := oe_partition env\<rparr>
      in if \<not> oe_partition env then ota_fail env u []
         else if \<not> oe_begin env then ota_fail env u []
         else retC (u\<lparr>os_sha := Some [],
                      os_state := (os_state u)\<lparr>ot_active := True, ot_next_expected_chunk := 0\<rparr>\<rparr>,
                    [FlashBegin]))"

definition ota_begin :: "ota_env \<Rightarrow> ota \<Rightarrow> bytes \<Rightarrow> u16 \<Rightarrow> (ota \<times> event list) comp" where
  "ota_begin env u payload len =
     bindC (copy_tlv payload len TLV_FIRMWARE_VER 15 (ot_version ota_state_zero)) (\<lambda>version.
     bindC (read_size payload len) (\<lambda>fsize.
     let st = ota_state_zero\<lparr>ot_version := version, ot_firmware_size := fsize\<rparr>
     in bindC (read_hash payload len (ot_sha256 st)) (\<lambda>hash.
        case hash of
          None \<Rightarrow> ota_fail env (u\<lparr>os_state := st\<rparr>) []
        | Some h \<Rightarrow>
            bindC (copy_tlv payload len TLV_SIGNATURE 64 (ot_ecdsa_sig st)) (\<lambda>sig.
              ota_open env (u\<lparr>os_state :=
                st\<lparr>ot_sha256 := h, ot_ecdsa_sig := sig, ot_chunk_size := 4096,
                   ot_chunks_total := ucast ((fsize + 4095) div 4096)\<rparr>\<rparr>)))))"

definition send_missing :: "ota_env \<Rightarrow> ota \<Rightarrow> fault + event list" where
  "send_missing env u =
     (let b = ykp_tlv_builder_init (replicate 8 0) 8;
          b = snd (ykp_tlv_add_uint16 b (tlv_code TLV_CHUNK_INDEX) (ot_next_expected_chunk (os_state u)));
          (n, b) = ykp_tlv_builder_len b
      in tx_packet (oe_calloc env) (oe_malloc env) (os_send u)
           (\<lambda>p. ykp_packet_set_header p 0 0 (Some (os_device_id u)) (Some (ascii ''SERVER''))
                 ROUTE_CLOUD SVC_OTA (ota_action_code OTA_MISSING) YKP_QOS_1 False)
           (Some (tb_buf b, n)) 80)"

definition read_chunk_index :: "bytes \<Rightarrow> u16 \<Rightarrow> u16 comp" where
  "read_chunk_index payload len =
     bindC (ykp_tlv_find payload len (tlv_code TLV_CHUNK_INDEX)) (\<lambda>r.
       case r of
         None \<Rightarrow> retC 0
       | Some t \<Rightarrow>
           liftC (bindE (ykp_tlv_read_uint16 t) (\<lambda>v. Inr (case v of None \<Rightarrow> 0 | Some x \<Rightarrow> x))))"

text \<open>Writing the data of the expected chunk.\<close>

definition ota_write_chunk :: "ota_env \<Rightarrow> ota \<Rightarrow> ykp_tlv_t \<Rightarrow> (ota \<times> event list) comp" where
  "ota_write_chunk env u t =
     bindC (liftC (rd_bytes (tlv_value t) 0 (unat (tlv_length t)))) (\<lambda>data.
       if \<not> oe_write env data
       then bindC (liftC (send_ota_pkt env u OTA_FAIL)) (\<lambda>evs.
              retC (u\<lparr>os_state := (os_state u)\<lparr>ot_active := False\<rparr>\<rparr>, evs))
       else retC (u\<lparr>os_sha := map_option (\<lambda>d. d @ data) (os_sha u),
                    os_state := (os_state u)\<lparr>ot_next_expected_chunk :=
                      ot_next_expected_chunk (os_state u) + 1\<rparr>\<rparr>,
                  [FlashWrite data]))"

definition ota_chunk :: "ota_env \<Rightarrow> ota \<Rightarrow> bytes \<Rightarrow> u16 \<Rightarrow> (ota \<times> event list) comp" where
  "ota_chunk env u payload len =
     (if \<not> ot_active (os_state u) then retC (u, [])
      else bindC (read_chunk_index payload len) (\<lambda>chunk_idx.
        if chunk_idx \<noteq> ot_next_expected_chunk (os_state u)
        then liftC (bindE (send_missing env u) (\<lambda>evs. Inr (u, evs)))
        else bindC (ykp_tlv_find payload len (tlv_code TLV_CHUNK_DATA)) (\<lambda>r.
          case r of None \<Rightarrow> retC (u, []) | Some t \<Rightarrow> ota_write_chunk env u t)))"

text \<open>\<open>psa_hash_finish\<close> writes the hash only if it succeeds; \<open>psa_hash_abort\<close> ends the operation.\<close>

definition finish_hash :: "ota_env \<Rightarrow> ota \<Rightarrow> bytes" where
  "finish_hash env u =
     (case os_sha u of
        None \<Rightarrow> oe_garbage env
      | Some d \<Rightarrow> (case oe_sha256 env d of None \<Rightarrow> oe_garbage env | Some h \<Rightarrow> h))"

definition ota_complete :: "ota_env \<Rightarrow> ota \<Rightarrow> (ota \<times> event list) comp" where
  "ota_complete env u =
     (if \<not> ot_active (os_state u) then retC (u, [])
      else let computed_hash = finish_hash env u;
               u = u\<lparr>os_sha := None\<rparr>;
               off = u\<lparr>os_state := (os_state u)\<lparr>ot_active := False\<rparr>\<rparr>
        in if computed_hash \<noteq> ot_sha256 (os_state u)
           then bindC (liftC (send_ota_pkt env u OTA_FAIL)) (\<lambda>evs. retC (off, FlashAbort # evs))
           else if \<not> oe_end env
           then bindC (liftC (send_ota_pkt env u OTA_FAIL)) (\<lambda>evs. retC (off, evs))
           else bindC (liftC (send_ota_pkt env u OTA_VERIFY)) (\<lambda>evs. retC (u, FlashEnd # evs)))"

definition ota_install :: "ota_env \<Rightarrow> ota \<Rightarrow> (ota \<times> event list) comp" where
  "ota_install env u =
     (if \<not> oe_set_boot env (os_partition u) then ota_fail env u []
      else bindC (liftC (send_ota_pkt env u OTA_REBOOT)) (\<lambda>evs.
             retC (u, SetBootPartition # evs @ [DelayMs 500, Restart])))"

definition ota_service_handle ::
  "ota_env \<Rightarrow> ota \<Rightarrow> bytes \<Rightarrow> u16 \<Rightarrow> u8 \<Rightarrow> (ota \<times> event list) comp" where
  "ota_service_handle env u payload len action_id =
     (case ota_action_decode action_id of
        Some OTA_BEGIN \<Rightarrow> ota_begin env u payload len
      | Some OTA_CHUNK \<Rightarrow> ota_chunk env u payload len
      | Some OTA_COMPLETE \<Rightarrow> ota_complete env u
      | Some OTA_INSTALL \<Rightarrow> ota_install env u
      | _ \<Rightarrow> retC (u, []))"

section \<open>What is hashed is what is written\<close>

text \<open>The bytes written to the partition since it was last opened.\<close>

fun flash_after :: "bytes \<Rightarrow> event list \<Rightarrow> bytes" where
  "flash_after log [] = log"
| "flash_after log (FlashBegin # evs) = flash_after [] evs"
| "flash_after log (FlashWrite d # evs) = flash_after (log @ d) evs"
| "flash_after log (_ # evs) = flash_after log evs"

lemma flash_after_append [simp]: "flash_after log (xs @ ys) = flash_after (flash_after log xs) ys"
  by (induction log xs rule: flash_after.induct) auto

lemma tx_no_flash:
  "tx_packet c m s f p n = Inr evs \<Longrightarrow> flash_after log evs = log"
  using tx_events by fastforce

lemma send_no_flash:
  "send_ota_pkt env u a = Inr evs \<Longrightarrow> flash_after log evs = log"
  "send_missing env u = Inr evs \<Longrightarrow> flash_after log evs = log"
  by (auto simp: send_ota_pkt_def send_missing_def Let_def case_prod_beta dest: tx_no_flash)

definition ota_ok :: "ota \<times> bytes \<Rightarrow> bool" where
  "ota_ok s \<longleftrightarrow> (\<forall>d. os_sha (fst s) = Some d \<longrightarrow> d = snd s)"

type_synonym ota_input = "ota_env \<times> bytes \<times> u16 \<times> u8"

definition ota_step :: "ota \<times> bytes \<Rightarrow> ota_input \<Rightarrow> ota \<times> bytes" where
  "ota_step s i =
     (case s of (u, log) \<Rightarrow> case i of (env, payload, len, action) \<Rightarrow>
        (case ota_service_handle env u payload len action of
           Some (Inr (u', evs)) \<Rightarrow> (u', flash_after log evs)
         | _ \<Rightarrow> (u, log)))"

lemmas comp_inv = bindC_Some_Inr_iff bindE_Inr_iff liftC_def retC_def

lemma ota_fail_ok:
  "ota_fail env u [] = Some (Inr (u', evs)) \<Longrightarrow> u' = u \<and> flash_after log evs = log"
  by (auto simp: ota_fail_def comp_inv dest: send_no_flash)

lemma ota_ok_frame:
  "ota_ok (u, log) \<Longrightarrow> os_sha u' = os_sha u \<Longrightarrow> log' = log \<Longrightarrow> ota_ok (u', log')"
  by (simp add: ota_ok_def)

lemma ota_open_ok:
  assumes "ota_ok (u, log)" "ota_open env u = Some (Inr (u', evs))"
  shows "ota_ok (u', flash_after log evs)"
  using assms
  by (auto simp: ota_open_def Let_def retC_def ota_ok_def dest!: ota_fail_ok [where log = log]
      split: if_splits)

lemma ota_begin_ok:
  assumes ok: "ota_ok (u, log)" and b: "ota_begin env u payload len = Some (Inr (u', evs))"
  shows "ota_ok (u', flash_after log evs)"
proof -
  have "(\<exists>st. ota_fail env (u\<lparr>os_state := st\<rparr>) [] = Some (Inr (u', evs))) \<or>
      (\<exists>st. ota_open env (u\<lparr>os_state := st\<rparr>) = Some (Inr (u', evs)))"
    using b unfolding ota_begin_def Let_def bindC_Some_Inr_iff
    by (elim exE conjE) (auto simp: bindC_Some_Inr_iff split: option.splits)
  then show ?thesis
  proof (elim disjE exE)
    fix st assume "ota_fail env (u\<lparr>os_state := st\<rparr>) [] = Some (Inr (u', evs))"
    from ota_fail_ok [OF this, of log] show ?thesis using ok by (auto intro: ota_ok_frame)
  next
    fix st assume "ota_open env (u\<lparr>os_state := st\<rparr>) = Some (Inr (u', evs))"
    from ota_open_ok [OF _ this] show ?thesis using ok by (simp add: ota_ok_def)
  qed
qed

lemma ota_write_chunk_ok:
  assumes "ota_ok (u, log)" "ota_write_chunk env u t = Some (Inr (u', evs))"
  shows "ota_ok (u', flash_after log evs)"
  using assms
  by (auto simp: ota_write_chunk_def comp_inv ota_ok_def dest!: send_no_flash(1) [where log = log]
      split: if_splits)

lemma ota_chunk_ok:
  assumes ok: "ota_ok (u, log)" and c: "ota_chunk env u payload len = Some (Inr (u', evs))"
  shows "ota_ok (u', flash_after log evs)"
proof -
  consider "u' = u" "evs = []" | "u' = u" "send_missing env u = Inr evs"
    | t where "ota_write_chunk env u t = Some (Inr (u', evs))"
    using c by (auto simp: ota_chunk_def comp_inv split: if_splits option.splits)
  then show ?thesis using ok ota_write_chunk_ok by cases (auto simp: send_no_flash)
qed

lemma ota_complete_ok:
  assumes "ota_ok (u, log)" "ota_complete env u = Some (Inr (u', evs))"
  shows "ota_ok (u', flash_after log evs)"
  using assms
  by (auto simp: ota_complete_def comp_inv ota_ok_def Let_def split: option.splits if_splits)

lemma ota_install_ok:
  assumes "ota_ok (u, log)" "ota_install env u = Some (Inr (u', evs))"
  shows "ota_ok (u', flash_after log evs)"
  using assms
  by (auto simp: ota_install_def comp_inv ota_ok_def send_no_flash dest!: ota_fail_ok [where log = log]
      split: if_splits)

lemma ota_step_ok: "ota_ok s \<Longrightarrow> ota_ok (ota_step s i)"
proof -
  assume ok: "ota_ok s"
  obtain u log where s: "s = (u, log)" by (cases s)
  obtain env payload len action where i: "i = (env, payload, len, action)" by (cases i)
  have "ota_ok (u', flash_after log evs)"
    if "ota_service_handle env u payload len action = Some (Inr (u', evs))" for u' evs
    using that ok s ota_begin_ok ota_chunk_ok ota_complete_ok ota_install_ok
    by (auto simp: ota_service_handle_def retC_def split: option.splits ykp_ota_action_t.splits)
  then show ?thesis using ok s i by (auto simp: ota_step_def split: option.splits sum.splits)
qed

interpretation ota_machine: machine ota_step ota_ok
  by unfold_locales (rule ota_step_ok)

section \<open>The life of an update\<close>

text \<open>Whether the partition has been closed since it was last opened; \<open>b\<close> is the answer for no events.\<close>

fun closed_after :: "bool \<Rightarrow> event list \<Rightarrow> bool" where
  "closed_after b [] = b"
| "closed_after b (FlashBegin # evs) = closed_after False evs"
| "closed_after b (FlashEnd # evs) = closed_after True evs"
| "closed_after b (_ # evs) = closed_after b evs"

lemma closed_after_append [simp]: "closed_after b (xs @ ys) = closed_after (closed_after b xs) ys"
  by (induction b xs rule: closed_after.induct) auto

text \<open>The service with the list of all its events: a message whose handling faults or does not return changes nothing.\<close>

definition ota_log_step :: "ota \<times> event list \<Rightarrow> ota_input \<Rightarrow> ota \<times> event list" where
  "ota_log_step s i =
     (case s of (u, log) \<Rightarrow> case i of (env, payload, len, action) \<Rightarrow>
        (case ota_service_handle env u payload len action of
           Some (Inr (u', evs)) \<Rightarrow> (u', log @ evs)
         | _ \<Rightarrow> (u, log)))"

text \<open>While an update is active, a hash is running exactly until the partition is closed, over the bytes written.\<close>

definition ota_tracks :: "ota \<times> event list \<Rightarrow> bool" where
  "ota_tracks s \<longleftrightarrow> (ot_active (os_state (fst s)) \<longrightarrow>
     os_sha (fst s) = (if closed_after True (snd s) then None else Some (flash_after [] (snd s))))"

lemma send_neutral:
  assumes "send_ota_pkt env u a = Inr evs \<or> send_missing env u = Inr evs"
  shows "flash_after d evs = d" "closed_after b evs = b" "FlashEnd \<notin> set evs" "FlashAbort \<notin> set evs"
proof -
  have "evs = [] \<or> (\<exists>f. evs = [TxFrame f])"
    using assms by (auto simp: send_ota_pkt_def send_missing_def Let_def case_prod_beta dest: tx_events)
  then show "flash_after d evs = d" "closed_after b evs = b" "FlashEnd \<notin> set evs" "FlashAbort \<notin> set evs" by auto
qed

lemmas send_ota_neutral = send_neutral [OF disjI1] and send_missing_neutral = send_neutral [OF disjI2]

lemma ota_fail_tracks:
  "ota_fail env u [] = Some (Inr (u', evs)) \<Longrightarrow> u' = u \<and> (\<exists>a. send_ota_pkt env u a = Inr evs)"
  by (auto simp: ota_fail_def comp_inv)

lemma begin_tracks:
  assumes "ota_begin env u payload len = Some (Inr (u', evs))"
  shows "\<not> ot_active (os_state u') \<or> evs = [FlashBegin] \<and> os_sha u' = Some []"
proof -
  have z: "ot_active ota_state_zero = False" by (simp add: ota_state_zero_def)
  consider st where "\<not> ot_active st" "ota_fail env (u\<lparr>os_state := st\<rparr>) [] = Some (Inr (u', evs))"
    | st where "\<not> ot_active st" "ota_open env (u\<lparr>os_state := st\<rparr>) = Some (Inr (u', evs))"
  proof -
    obtain ver n hash where r: "(case hash of
          None \<Rightarrow> ota_fail env (u\<lparr>os_state := ota_state_zero\<lparr>ot_version := ver, ot_firmware_size := n\<rparr>\<rparr>) []
        | Some h \<Rightarrow> bindC (copy_tlv payload len TLV_SIGNATURE 64
              (ot_ecdsa_sig (ota_state_zero\<lparr>ot_version := ver, ot_firmware_size := n\<rparr>))) (\<lambda>sig.
            ota_open env (u\<lparr>os_state := ota_state_zero\<lparr>ot_version := ver, ot_firmware_size := n,
              ot_sha256 := h, ot_ecdsa_sig := sig, ot_chunk_size := 4096,
              ot_chunks_total := ucast ((n + 4095) div 4096)\<rparr>\<rparr>))) = Some (Inr (u', evs))"
      using assms unfolding ota_begin_def Let_def bindC_Some_Inr_iff by blast
    show thesis
    proof (cases hash)
      case None
      show thesis by (rule that(1) [OF _ r [unfolded None option.case]]) (simp add: z)
    next
      case (Some h)
      obtain sig where o: "ota_open env (u\<lparr>os_state := ota_state_zero\<lparr>ot_version := ver, ot_firmware_size := n,
              ot_sha256 := h, ot_ecdsa_sig := sig, ot_chunk_size := 4096,
              ot_chunks_total := ucast ((n + 4095) div 4096)\<rparr>\<rparr>) = Some (Inr (u', evs))"
        using r unfolding Some option.case bindC_Some_Inr_iff by blast
      show thesis by (rule that(2) [OF _ o]) (simp add: z)
    qed
  qed
  then show ?thesis
    by cases (auto simp: ota_open_def Let_def retC_def dest!: ota_fail_tracks split: if_splits)
qed

lemma chunk_tracks:
  assumes "ota_chunk env u payload len = Some (Inr (u', evs))" "ot_active (os_state u')"
  shows "ot_active (os_state u) \<and> os_sha u' = map_option (\<lambda>d. flash_after d evs) (os_sha u) \<and> closed_after b evs = b"
proof -
  consider "u' = u" "evs = []" | "u' = u" "send_missing env u = Inr evs"
    | t where "ota_write_chunk env u t = Some (Inr (u', evs))"
    using assms(1) by (auto simp: ota_chunk_def comp_inv split: if_splits option.splits)
  then show ?thesis
  proof cases
    case 1
    then show ?thesis using assms(2) by (simp add: option.map_ident)
  next
    case 2
    then show ?thesis using assms(2) by (simp add: send_missing_neutral [OF 2(2)] option.map_ident)
  next
    case (3 t)
    have "ot_active (os_state u)"
      using assms by (cases "ot_active (os_state u)") (auto simp: ota_chunk_def retC_def)
    then show ?thesis
      using 3 assms(2) by (auto simp: ota_write_chunk_def comp_inv split: if_splits)
  qed
qed

lemma chunk_sha:
  assumes "ota_chunk env u payload len = Some (Inr (u', evs))" "os_sha u = None"
  shows "os_sha u' = None"
  using assms
  by (auto simp: ota_chunk_def ota_write_chunk_def comp_inv split: if_splits option.splits)

text \<open>What \<open>OTA_COMPLETE\<close> does with an active update; it always returns.\<close>

lemma complete_returns: "\<exists>u' evs. ota_service_handle env u payload len 4 = Some (Inr (u', evs))"
proof -
  have m: "tx_packet c m s f None n = tx_packet c True s f None n" for c m s f n
    unfolding tx_packet_def option.case by simp
  have "\<exists>evs. send_ota_pkt env u a = Inr evs" for u a
  proof (cases "oe_calloc env")
    case True
    then show ?thesis unfolding send_ota_pkt_def m [of _ "oe_malloc env"] by (simp add: tx_frame_empty)
  qed (simp add: send_ota_pkt_def tx_packet_def ykp_packet_alloc_def)
  then obtain g where "\<And>u a. send_ota_pkt env u a = Inr (g u a)" by metis
  then show ?thesis
    by (auto simp: ota_service_handle_def ota_action_decode_def ota_complete_def Let_def retC_def liftC_def)
qed

lemma complete_cases:
  assumes "ota_complete env u = Some (Inr (u', evs))" "ot_active (os_state u)"
  shows "(FlashEnd \<in> set evs \<longleftrightarrow> finish_hash env u = ot_sha256 (os_state u) \<and> oe_end env) \<and>
    (FlashAbort \<in> set evs \<longleftrightarrow> finish_hash env u \<noteq> ot_sha256 (os_state u)) \<and>
    (ot_active (os_state u') \<longleftrightarrow> FlashEnd \<in> set evs)"
  using assms
  by (auto simp: ota_complete_def comp_inv Let_def send_ota_neutral(3,4) split: if_splits)

lemma complete_tracks:
  assumes "ota_complete env u = Some (Inr (u', evs))" "ot_active (os_state u')"
  shows "os_sha u' = None \<and> closed_after b evs"
  using assms by (auto simp: ota_complete_def comp_inv Let_def send_ota_neutral(2) split: if_splits)

lemma ota_log_step_tracks: "ota_tracks s \<Longrightarrow> ota_tracks (ota_log_step s i)"
proof -
  assume ok: "ota_tracks s"
  obtain u log where s: "s = (u, log)" by (cases s)
  obtain env payload len action where i: "i = (env, payload, len, action)" by (cases i)
  have "ota_tracks (u', log @ evs)"
    if h: "ota_service_handle env u payload len action = Some (Inr (u', evs))" for u' evs
  proof -
    consider "ota_begin env u payload len = Some (Inr (u', evs))" | "ota_chunk env u payload len = Some (Inr (u', evs))"
      | "ota_complete env u = Some (Inr (u', evs))" | "ota_install env u = Some (Inr (u', evs))" | "u' = u" "evs = []"
      using h by (auto simp: ota_service_handle_def retC_def split: option.splits ykp_ota_action_t.splits)
    then show ?thesis
    proof cases
      case 1
      then show ?thesis using begin_tracks by (fastforce simp: ota_tracks_def)
    next
      case 2
      show ?thesis
      proof (cases "ot_active (os_state u')")
        case True
        from chunk_tracks [OF 2 this, of "closed_after True log"] show ?thesis using ok s by (simp add: ota_tracks_def)
      qed (simp add: ota_tracks_def)
    next
      case 3
      then show ?thesis using complete_tracks by (fastforce simp: ota_tracks_def)
    next
      case 4
      then have "u' = u" "flash_after d evs = d" "closed_after b evs = b" for d b
        by (auto simp: ota_install_def comp_inv send_ota_neutral dest!: ota_fail_tracks split: if_splits)
      then show ?thesis using ok s by (simp add: ota_tracks_def)
    next
      case 5
      then show ?thesis using ok s by simp
    qed
  qed
  then show ?thesis using ok s i by (auto simp: ota_log_step_def split: option.splits sum.splits)
qed

interpretation ota_log_machine: machine ota_log_step ota_tracks
  by unfold_locales (rule ota_log_step_tracks)

section \<open>The messages of an update\<close>

text \<open>The metadata of \<open>OTA_BEGIN\<close> and a chunk, as entries of the map the server sends.\<close>

definition begin_entries :: "bytes \<Rightarrow> u32 \<Rightarrow> bytes \<Rightarrow> bytes \<Rightarrow> (u8 \<times> cval) list" where
  "begin_entries ver n hash sig =
     [(8, VStr ver), (4, VUint (ucast n)), (14, VBytes hash), (11, VBytes sig)]"

definition chunk_entries :: "u16 \<Rightarrow> bytes \<Rightarrow> (u8 \<times> cval) list" where
  "chunk_entries i d = [(12, VUint (ucast i)), (13, VBytes d)]"

lemma find_entry:
  assumes "\<forall>kv \<in> set kvs. cval_ok (snd kv)" "length (map_bytes kvs) = unat len" "map_of kvs ty = Some v"
  obtains tail where "ykp_tlv_find (map_bytes kvs @ rest) len ty = Some (Inr (Some (tlv_of ty v tail)))"
  using find_map [OF assms(1,2), of ty rest] assms(3) by (auto simp: tlv_lookup_def)

lemma tlv_of_length_cval: "cval_ok v \<Longrightarrow> unat (tlv_length (tlv_of k v tail)) = length (cval_bytes v)"
  using cval_length [of v] by (simp add: tlv_of_def)

lemma copy_tlv_entry:
  assumes "ykp_tlv_find payload len (tlv_code ty) = Some (Inr (Some (tlv_of k v tail)))" "cval_ok v"
  shows "copy_tlv payload len ty n field = Some (Inr (write_at field 0 (take n (cval_bytes v))))"
  using assms tlv_of_length_cval [OF assms(2)] by (simp add: copy_tlv_def slice_def min_def)

lemma hash_length_bytes:
  assumes "length hash = 32" shows "tlv_length (tlv_of k (VBytes hash) tail) = 34"
  using assms by (simp add: tlv_of_def str_bytes_def str_head_def)

lemma begin_rejected:
  assumes ver: "length ver < 256" and hash: "length hash = 32" and sig: "length sig < 256"
    and len: "length (map_bytes (begin_entries ver n hash sig)) = unat len"
    and env: "oe_calloc env" "oe_malloc env"
  shows "\<exists>u'. ota_service_handle env u (map_bytes (begin_entries ver n hash sig) @ rest) len 1 =
      Some (Inr (u', if os_send u then [TxFrame (plain_frame (fresh_header 0 0 (Some (os_device_id u))
        (Some (ascii ''SERVER'')) ROUTE_CLOUD SVC_OTA (ota_action_code OTA_FAIL) YKP_QOS_1 False) [])] else [])) \<and>
    \<not> ot_active (os_state u') \<and> os_send u' = os_send u"
proof -
  let ?kvs = "begin_entries ver n hash sig" and ?p = "map_bytes (begin_entries ver n hash sig) @ rest"
  have ok: "\<forall>kv \<in> set ?kvs. cval_ok (snd kv)" using assms by (simp add: begin_entries_def)
  obtain t1 where 1: "ykp_tlv_find ?p len 8 = Some (Inr (Some (tlv_of 8 (VStr ver) t1)))"
    using find_entry [OF ok len, of 8 "VStr ver"] by (auto simp: begin_entries_def)
  obtain t2 where 2: "ykp_tlv_find ?p len 4 = Some (Inr (Some (tlv_of 4 (VUint (ucast n)) t2)))"
    using find_entry [OF ok len, of 4 "VUint (ucast n)"] by (auto simp: begin_entries_def)
  obtain t3 where 3: "ykp_tlv_find ?p len 14 = Some (Inr (Some (tlv_of 14 (VBytes hash) t3)))"
    using find_entry [OF ok len, of 14 "VBytes hash"] by (auto simp: begin_entries_def)
  have rs: "read_size ?p len = Some (Inr n)"
    using 2 by (simp add: read_size_def read_uint32_head ucast32_le)
  have rh: "read_hash ?p len field = Some (Inr None)" for field
    using 3 hash_length_bytes [OF hash, of 14 t3] by (simp add: read_hash_def retC_def)
  have cp: "copy_tlv ?p len TLV_FIRMWARE_VER 15 field = Some (Inr (write_at field 0 (take 15 (cval_bytes (VStr ver)))))"
    for field using copy_tlv_entry [of ?p len TLV_FIRMWARE_VER 8 "VStr ver" t1] 1 ver by simp
  show ?thesis
    unfolding ota_service_handle_def ota_begin_def cp rs bindC_simps Let_def rh
    using env
    by (simp add: ota_action_decode_def ota_fail_def send_ota_pkt_def tx_frame_empty ota_state_zero_def)
qed

lemma chunk_expected:
  assumes d: "length d < 256" and len: "length (map_bytes (chunk_entries i d)) = unat len"
    and u: "ot_active (os_state u)" "ot_next_expected_chunk (os_state u) = i"
    and w: "oe_write env (str_bytes 0x40 d)"
  shows "ota_service_handle env u (map_bytes (chunk_entries i d) @ rest) len 2 =
    Some (Inr (u\<lparr>os_sha := map_option (\<lambda>x. x @ str_bytes 0x40 d) (os_sha u),
      os_state := (os_state u)\<lparr>ot_next_expected_chunk := i + 1\<rparr>\<rparr>, [FlashWrite (str_bytes 0x40 d)]))"
proof -
  let ?p = "map_bytes (chunk_entries i d) @ rest"
  have ok: "\<forall>kv \<in> set (chunk_entries i d). cval_ok (snd kv)" using d by (simp add: chunk_entries_def)
  obtain t1 where 1: "ykp_tlv_find ?p len 12 = Some (Inr (Some (tlv_of 12 (VUint (ucast i)) t1)))"
    using find_entry [OF ok len, of 12 "VUint (ucast i)"] by (auto simp: chunk_entries_def)
  obtain t2 where 2: "ykp_tlv_find ?p len 13 = Some (Inr (Some (tlv_of 13 (VBytes d) t2)))"
    using find_entry [OF ok len, of 13 "VBytes d"] by (auto simp: chunk_entries_def)
  have ri: "read_chunk_index ?p len = Some (Inr i)"
    using 1 by (simp add: read_chunk_index_def read_uint16_head ucast_bounds)
  have "tlv_raw (tlv_of 13 (VBytes d) t2) = Inr (Some (str_bytes 0x40 d))"
    using tlv_raw_of [of "VBytes d" 13 t2] d by simp
  then have "rd_bytes (tlv_value (tlv_of 13 (VBytes d) t2)) 0 (unat (tlv_length (tlv_of 13 (VBytes d) t2))) =
      Inr (str_bytes 0x40 d)"
    by (simp add: tlv_raw_def bindE_Inr_iff)
  then have "ota_write_chunk env u (tlv_of 13 (VBytes d) t2) =
    Some (Inr (u\<lparr>os_sha := map_option (\<lambda>x. x @ str_bytes 0x40 d) (os_sha u),
      os_state := (os_state u)\<lparr>ot_next_expected_chunk := i + 1\<rparr>\<rparr>, [FlashWrite (str_bytes 0x40 d)]))"
    using w u(2) by (simp only: ota_write_chunk_def liftC_simps bindC_simps) (simp add: retC_def)
  then show ?thesis
    using u 2 by (simp add: ota_service_handle_def ota_action_decode_def ota_chunk_def ri)
qed

lemma chunk_unexpected:
  assumes d: "length d < 256" and len: "length (map_bytes (chunk_entries i d)) = unat len"
    and u: "ot_next_expected_chunk (os_state u) \<noteq> i"
    and h: "ota_service_handle env u (map_bytes (chunk_entries i d) @ rest) len 2 = Some (Inr (u', evs))"
  shows "u' = u \<and> flash_after log evs = log"
proof -
  let ?p = "map_bytes (chunk_entries i d) @ rest"
  have ok: "\<forall>kv \<in> set (chunk_entries i d). cval_ok (snd kv)" using d by (simp add: chunk_entries_def)
  obtain t1 where 1: "ykp_tlv_find ?p len 12 = Some (Inr (Some (tlv_of 12 (VUint (ucast i)) t1)))"
    using find_entry [OF ok len, of 12 "VUint (ucast i)"] by (auto simp: chunk_entries_def)
  have ri: "read_chunk_index ?p len = Some (Inr i)"
    using 1 by (simp add: read_chunk_index_def read_uint16_head ucast_bounds)
  show ?thesis using h u
    by (auto simp: ota_service_handle_def ota_action_decode_def ota_chunk_def ri comp_inv
        send_no_flash split: if_splits)
qed

section \<open>Properties\<close>

text \<open>
  C20. Through every sequence of update messages, in any order and with any outcome of the flash
  driver, the bytes fed to the running hash are exactly the bytes written to the partition
  since it was opened.
\<close>

theorem ota_hashes_what_it_writes:
  assumes "os_sha u = None" "foldl ota_step (u, log) is = (u', log')" "os_sha u' = Some d"
  shows "d = log'"
proof -
  have "ota_ok (u, log)" using assms(1) by (simp add: ota_ok_def)
  from ota_machine.run_inv [OF this, of "is"] show ?thesis using assms by (simp add: ota_ok_def)
qed

definition ota_idle :: ota where
  "ota_idle = \<lparr>os_state = ota_state_zero, os_send = True, os_device_id = [], os_partition = False, os_sha = None\<rparr>"

definition ota_env_ok :: ota_env where
  "ota_env_ok = \<lparr>oe_calloc = True, oe_malloc = True, oe_partition = True, oe_begin = True,
     oe_write = (\<lambda>d. True), oe_end = True, oe_set_boot = (\<lambda>p. p), oe_sha256 = (\<lambda>d. Some (replicate 32 0)),
     oe_garbage = []\<rparr>"

theorem ota_hashes_what_it_writes_witness:
  "os_sha (fst (foldl ota_step (ota_idle, []) [(ota_env_ok, [0xBF, 0xFF], 2, 1),
     (ota_env_ok, [0xBF, 13, 0x41, 7, 0xFF], 5, 2)])) = Some [0x41, 7] \<and>
   snd (foldl ota_step (ota_idle, []) [(ota_env_ok, [0xBF, 0xFF], 2, 1),
     (ota_env_ok, [0xBF, 13, 0x41, 7, 0xFF], 5, 2)]) = [0x41, 7]"
proof -
  let ?is = "[(ota_env_ok, [0xBF, 0xFF], 2, 1), (ota_env_ok, [0xBF, 13, 0x41, 7, 0xFF], 5, 2)]"
  obtain u' log' where f: "foldl ota_step (ota_idle, []) ?is = (u', log')" by fastforce
  have "os_sha (fst (foldl ota_step (ota_idle, []) ?is)) = Some [0x41, 7]" by code_simp
  then have s: "os_sha u' = Some [0x41, 7]" unfolding f by simp
  have "[0x41, 7] = log'"
    by (rule ota_hashes_what_it_writes [OF _ f s]) (simp add: ota_idle_def)
  then show ?thesis using f s by simp
qed

text \<open>
  Every update whose metadata carries a 32-byte hash as a byte string is refused at its
  beginning, whatever its version, size and signature: the length the check sees is 34, the
  CBOR head included. The service answers with a failure and stays inactive.
\<close>

lemma ota_begin_refuses_hash:
  assumes "length ver < 256" "length hash = 32" "length sig < 256"
    and "length (map_bytes (begin_entries ver n hash sig)) = unat len"
    and "oe_calloc env" "oe_malloc env" "os_send u"
  shows "\<exists>u' f. ota_service_handle env u (map_bytes (begin_entries ver n hash sig) @ rest) len 1 =
      Some (Inr (u', [TxFrame f])) \<and> \<not> ot_active (os_state u') \<and>
    f ! 29 = service_code SVC_OTA \<and> f ! 30 = ota_action_code OTA_FAIL"
proof -
  let ?h = "fresh_header 0 0 (Some (os_device_id u)) (Some (ascii ''SERVER'')) ROUTE_CLOUD SVC_OTA
    (ota_action_code OTA_FAIL) YKP_QOS_1 False"
  have "plain_frame ?h [] ! 29 = 5" "plain_frame ?h [] ! 30 = 8"
    using fresh_header_ids [of 0 0 "Some (os_device_id u)" "Some (ascii ''SERVER'')" ROUTE_CLOUD SVC_OTA
      "ota_action_code OTA_FAIL" YKP_QOS_1 False]
    by (simp_all add: plain_frame_def header_bytes_def nth_append write_u32_be_def write_u16_be_def)
  then show ?thesis using begin_rejected [OF assms(1-6), of u rest] assms(7) by auto
qed

lemma ota_begin_refuses_hash_instance:
  "\<exists>u' f. ota_service_handle ota_env_ok ota_idle
     (map_bytes (begin_entries [] 4096 (replicate 32 1) []) @ []) 45 1 = Some (Inr (u', [TxFrame f])) \<and>
    \<not> ot_active (os_state u')"
proof -
  have l: "length (map_bytes (begin_entries [] 4096 (replicate 32 1) [])) = unat (45 :: u16)"
    by (simp add: map_bytes_def begin_entries_def entry_bytes_def key_bytes_def uint_bytes_def
        cbor_head_def str_bytes_def str_head_def)
  have "\<exists>u' f. ota_service_handle ota_env_ok ota_idle
     (map_bytes (begin_entries [] 4096 (replicate 32 1) []) @ []) 45 1 = Some (Inr (u', [TxFrame f])) \<and>
    \<not> ot_active (os_state u') \<and> f ! 29 = service_code SVC_OTA \<and> f ! 30 = ota_action_code OTA_FAIL"
    by (rule ota_begin_refuses_hash [OF _ _ _ l]) (simp_all add: ota_env_ok_def ota_idle_def)
  then show ?thesis by blast
qed

text \<open>
  Chunks are written in order only: a chunk with another index than the expected one
  changes neither the state nor the flash, and the expected one is written and advances the
  index by one. What is written is not the chunk but the chunk with its CBOR head in front.
\<close>

lemma ota_chunks_in_order:
  assumes "length d < 256" "length (map_bytes (chunk_entries i d)) = unat len"
    and "ot_active (os_state u)" "oe_write env (str_bytes 0x40 d)"
    and "ota_service_handle env u (map_bytes (chunk_entries i d) @ rest) len 2 = Some (Inr (u', evs))"
  shows "if i = ot_next_expected_chunk (os_state u)
    then ot_next_expected_chunk (os_state u') = i + 1 \<and> flash_after log evs = log @ str_bytes 0x40 d
    else u' = u \<and> flash_after log evs = log"
  using chunk_unexpected [OF assms(1,2) _ assms(5), of log] chunk_expected [OF assms(1-3) _ assms(4), of rest]
    assms(5)
  by auto

lemma ota_chunks_in_order_instance:
  "\<exists>u' evs. ota_service_handle ota_env_ok (ota_idle\<lparr>os_state := ota_state_zero\<lparr>ot_active := True\<rparr>\<rparr>)
     (map_bytes (chunk_entries 0 [7]) @ []) 7 2 = Some (Inr (u', evs)) \<and> flash_after [] evs = [0x41, 7]"
proof -
  let ?u = "ota_idle\<lparr>os_state := ota_state_zero\<lparr>ot_active := True\<rparr>\<rparr>"
  have l: "length (map_bytes (chunk_entries 0 [7])) = unat (7 :: u16)"
    by (simp add: map_bytes_def chunk_entries_def entry_bytes_def key_bytes_def uint_bytes_def
        cbor_head_def str_bytes_def str_head_def)
  have u: "ot_active (os_state ?u)" "ot_next_expected_chunk (os_state ?u) = 0"
    by (simp_all add: ota_idle_def ota_state_zero_def)
  have w: "oe_write ota_env_ok (str_bytes 0x40 [7])" by (simp add: ota_env_ok_def)
  obtain u' evs where e: "ota_service_handle ota_env_ok ?u (map_bytes (chunk_entries 0 [7]) @ []) 7 2 =
      Some (Inr (u', evs))"
    using chunk_expected [OF _ l u w, of "[]"] by simp
  from ota_chunks_in_order [OF _ l u(1) w e, of "[]"] u(2) e show ?thesis
    by (auto simp: str_bytes_def str_head_def)
qed

text \<open>
  C21. What \<open>OTA_COMPLETE\<close> verifies. After every sequence of update messages from an inactive
  service, with any outcome of flash and allocations, an \<open>OTA_COMPLETE\<close> of an active update
  returns; it aborts the partition exactly if the 32 bytes compared are not the announced hash
  (32 zeros if \<open>OTA_BEGIN\<close> announced none); it closes the partition exactly if they are and
  the driver agrees; and the update stays active exactly if the partition was closed. The bytes
  compared are the SHA-256 of exactly the bytes written since the partition was opened if it has
  not been closed since and the hash can be computed; in the two other cases, a repeated
  \<open>OTA_COMPLETE\<close> and a failed \<open>psa_hash_finish\<close>, they are whatever the uninitialised
  \<open>computed_hash\<close> holds.
\<close>

theorem ota_complete_checks_hash:
  assumes "\<not> ot_active (os_state u)" "foldl ota_log_step (u, []) is = (u1, log)" "ot_active (os_state u1)"
  shows "let compared = (if closed_after True log then oe_garbage env
           else case oe_sha256 env (flash_after [] log) of None \<Rightarrow> oe_garbage env | Some h \<Rightarrow> h)
    in \<exists>u2 evs. ota_service_handle env u1 payload len 4 = Some (Inr (u2, evs)) \<and>
       (FlashEnd \<in> set evs \<longleftrightarrow> compared = ot_sha256 (os_state u1) \<and> oe_end env) \<and>
       (FlashAbort \<in> set evs \<longleftrightarrow> compared \<noteq> ot_sha256 (os_state u1)) \<and>
       (ot_active (os_state u2) \<longleftrightarrow> FlashEnd \<in> set evs)"
proof -
  have "ota_tracks (u, [])" using assms(1) by (simp add: ota_tracks_def)
  from ota_log_machine.run_inv [OF this, of "is"]
  have "os_sha u1 = (if closed_after True log then None else Some (flash_after [] log))"
    using assms(2,3) by (simp add: ota_tracks_def)
  then have f: "finish_hash env u1 = (if closed_after True log then oe_garbage env
      else case oe_sha256 env (flash_after [] log) of None \<Rightarrow> oe_garbage env | Some h \<Rightarrow> h)"
    by (simp add: finish_hash_def)
  obtain u2 evs where h: "ota_service_handle env u1 payload len 4 = Some (Inr (u2, evs))"
    using complete_returns by fast
  then have "ota_complete env u1 = Some (Inr (u2, evs))"
    by (simp add: ota_service_handle_def ota_action_decode_def)
  from complete_cases [OF this assms(3)] h show ?thesis unfolding Let_def f [symmetric] by blast
qed

definition ota_env_sha :: "bytes \<Rightarrow> bytes \<Rightarrow> ota_env" where
  "ota_env_sha d garbage = ota_env_ok\<lparr>oe_sha256 := \<lambda>x. Some (replicate 32 (if x = d then 0 else 1)), oe_garbage := garbage\<rparr>"

text \<open>An update without announced hash, so that 32 zeros are announced, and one chunk.\<close>

definition short_update :: "ota_input list" where
  "short_update = [(ota_env_ok, [0xBF, 0xFF], 2, 1), (ota_env_ok, [0xBF, 13, 0x41, 7, 0xFF], 5, 2)]"

lemma short_update_run:
  "foldl ota_log_step (ota_idle, []) short_update =
    (ota_idle\<lparr>os_partition := True, os_sha := Some [0x41, 7], os_state := ota_state_zero\<lparr>ot_active := True,
       ot_chunk_size := 4096, ot_next_expected_chunk := 1\<rparr>\<rparr>, [FlashBegin, FlashWrite [0x41, 7]])"
  by code_simp

theorem ota_complete_checks_hash_witness:
  "\<exists>u1 u2 evs. foldl ota_log_step (ota_idle, []) short_update = (u1, [FlashBegin, FlashWrite [0x41, 7]]) \<and>
    ota_service_handle (ota_env_sha [0x41, 7] []) u1 [] 0 4 = Some (Inr (u2, evs)) \<and>
    FlashEnd \<in> set evs \<and> ot_active (os_state u2)"
proof -
  define u1 where "u1 = fst (foldl ota_log_step (ota_idle, []) short_update)"
  have run: "foldl ota_log_step (ota_idle, []) short_update = (u1, [FlashBegin, FlashWrite [0x41, 7]])"
    by (simp add: u1_def short_update_run)
  have active: "ot_active (os_state u1)" and hash: "ot_sha256 (os_state u1) = replicate 32 0"
    by (simp_all add: u1_def short_update_run ota_state_zero_def)
  have idle: "\<not> ot_active (os_state ota_idle)" by (simp add: ota_idle_def ota_state_zero_def)
  from ota_complete_checks_hash [OF idle run active, of "ota_env_sha [0x41, 7] []" "[]" 0] run
  show ?thesis by (simp add: hash ota_env_sha_def ota_env_ok_def Let_def) blast
qed

text \<open>
  A second \<open>OTA_COMPLETE\<close> compares nothing that was written: the one that closes the partition
  leaves the update active and ends the hash, so that until the next \<open>OTA_BEGIN\<close> the announced
  hash is compared with the uninitialised array, more chunks or not.
\<close>

lemma second_complete_compares_garbage:
  assumes "ota_service_handle env u p len 4 = Some (Inr (u1, evs))" "ot_active (os_state u1)"
    and "ota_service_handle env' u1 p' len' 2 = Some (Inr (u2, evs'))"
  shows "finish_hash env2 u1 = oe_garbage env2 \<and> finish_hash env2 u2 = oe_garbage env2"
proof -
  have 1: "os_sha u1 = None"
    using complete_tracks [of env u u1 evs] assms(1,2) by (simp add: ota_service_handle_def ota_action_decode_def)
  have c: "ota_chunk env' u1 p' len' = Some (Inr (u2, evs'))"
    using assms(3) by (simp add: ota_service_handle_def ota_action_decode_def)
  have "os_sha u2 = None" using 1 chunk_sha [OF c] by simp
  with 1 show ?thesis by (simp add: finish_hash_def)
qed

text \<open>
  An update whose hash cannot be computed is accepted if the stack happens to hold the announced
  bytes, here the zeros of an \<open>OTA_BEGIN\<close> that announces no hash.
\<close>

lemma failed_hash_accepted:
  "\<exists>u1 log u2 evs. foldl ota_log_step (ota_idle, []) short_update = (u1, log) \<and>
    ota_service_handle (ota_env_ok\<lparr>oe_sha256 := \<lambda>x. None, oe_garbage := replicate 32 0\<rparr>) u1 [] 0 4 =
      Some (Inr (u2, evs)) \<and> FlashEnd \<in> set evs"
proof -
  let ?env = "ota_env_ok\<lparr>oe_sha256 := \<lambda>x. None, oe_garbage := replicate 32 0\<rparr>"
  let ?u1 = "fst (foldl ota_log_step (ota_idle, []) short_update)"
  have active: "ot_active (os_state ?u1)" and hash: "ot_sha256 (os_state ?u1) = replicate 32 0"
    by (simp_all add: short_update_run ota_state_zero_def)
  obtain u2 evs where h: "ota_service_handle ?env ?u1 [] 0 4 = Some (Inr (u2, evs))"
    using complete_returns by fast
  then have c: "ota_complete ?env ?u1 = Some (Inr (u2, evs))"
    by (simp add: ota_service_handle_def ota_action_decode_def)
  have "finish_hash ?env ?u1 = replicate 32 0" by (simp add: finish_hash_def short_update_run)
  with complete_cases [OF c active] have "FlashEnd \<in> set evs" by (simp add: hash ota_env_ok_def)
  then show ?thesis using h by (metis surj_pair fst_conv)
qed

text \<open>
  \<open>OTA_INSTALL\<close> is not tied to any update: in every state of the service, active or not,
  with no byte written and no hash checked, it selects the update partition for the next
  boot and restarts, if only the driver accepts the partition.
\<close>

lemma ota_install_unconditional:
  assumes "oe_calloc env" "oe_malloc env" "oe_set_boot env (os_partition u)"
  shows "\<exists>evs. ota_service_handle env u payload len 6 = Some (Inr (u, SetBootPartition # evs @ [DelayMs 500, Restart]))"
  using assms
  by (simp add: ota_service_handle_def ota_action_decode_def ota_install_def send_ota_pkt_def
      tx_frame_empty retC_def)

lemma ota_install_unconditional_instance:
  "\<exists>evs. ota_service_handle ota_env_ok (ota_idle\<lparr>os_partition := True\<rparr>) [] 0 6 =
     Some (Inr (ota_idle\<lparr>os_partition := True\<rparr>, SetBootPartition # evs @ [DelayMs 500, Restart]))"
  by (rule ota_install_unconditional) (simp_all add: ota_env_ok_def)

end
