(* ===== verification/Reports.thy ===== *)
theory Reports
  imports Transmit Tlv
begin

text \<open>
  The health and sensor reports: \<open>main/services/health_service.c\<close> and
  \<open>main/services/sensor_service.c\<close>. The measured values (heap sizes, number of tasks, RSSI,
  time, sensor readings) are arguments. The heap percentage and the stack audit only reach
  the log and are left out. A C conversion of an integer to \<open>float\<close> is \<open>float_of_nat\<close>, which
  rounds to nearest, ties to even.

  The lemmas give the frame each report sends, for all values: every entry fits.
\<close>

section \<open>Integers to floats\<close>

fun bit_len :: "nat \<Rightarrow> nat" where
  "bit_len n = (if n = 0 then 0 else Suc (bit_len (n div 2)))"

declare bit_len.simps [simp del]

definition float_of_nat :: "nat \<Rightarrow> float_bits" where
  "float_of_nat n =
     (if n = 0 then 0
      else let e = bit_len n - 1
        in if e \<le> 23 then of_nat ((127 + e) * 2 ^ 23 + (n * 2 ^ (23 - e) - 2 ^ 23))
           else let s = e - 23; q = n div 2 ^ s; r = n mod 2 ^ s; h = 2 ^ (s - 1);
                    q' = (if h < r \<or> r = h \<and> odd q then q + 1 else q)
             in of_nat ((127 + e) * 2 ^ 23 + (q' - 2 ^ 23)))"

lemma float_of_nat_45: "float_of_nat 45 = 0x42340000"
  by (simp add: float_of_nat_def bit_len.simps)

section \<open>The health report\<close>

record health =
  hs_send :: bool
  hs_device_id :: bytes
  hs_restart_count :: u32

definition YKP_FIRMWARE_VERSION :: bytes where "YKP_FIRMWARE_VERSION = ascii ''1.2.1''"

definition health_service_init :: "bool \<Rightarrow> bytes option \<Rightarrow> u32 option \<Rightarrow> health \<Rightarrow> health" where
  "health_service_init send_fn device_id restart_count h =
     h\<lparr>hs_send := send_fn,
       hs_device_id := (case device_id of None \<Rightarrow> hs_device_id h | Some i \<Rightarrow> i),
       hs_restart_count := (case restart_count of None \<Rightarrow> hs_restart_count h | Some c \<Rightarrow> c)\<rparr>"

text \<open>2% per live task, at most 95%; \<open>task_count * 2\<close> is computed on 32 bits.\<close>

definition cpu_usage :: "u32 \<Rightarrow> float_bits" where
  "cpu_usage task_count =
     (if 95 < unat (task_count * 2) then float_of_nat 95 else float_of_nat (unat (task_count * 2)))"

definition health_service_send_report ::
  "bool \<Rightarrow> bool \<Rightarrow> health \<Rightarrow> u32 \<Rightarrow> u32 \<Rightarrow> u32 \<Rightarrow> u8 \<Rightarrow> u64 \<Rightarrow> u32 \<Rightarrow> fault + event list" where
  "health_service_send_report calloc_ok malloc_ok h free_heap min_heap task_count rssi uptime_sec last_rtt =
     (if \<not> hs_send h then Inr []
      else
        let b = ykp_tlv_builder_init (replicate 256 0) 256;
            b = snd (ykp_tlv_add_float b (tlv_code TLV_VALUE_FLOAT) (cpu_usage task_count));
            b = snd (ykp_tlv_add_uint32 b (tlv_code TLV_VALUE_INT) free_heap);
            b = snd (ykp_tlv_add_uint32 b (tlv_code TLV_VALUE_INT) min_heap);
            b = snd (ykp_tlv_add_uint8 b (tlv_code TLV_RSSI) rssi);
            b = snd (ykp_tlv_add_float b (tlv_code TLV_VALUE_FLOAT) (float_of_nat 45));
            b = snd (ykp_tlv_add_float b (tlv_code TLV_VALUE_FLOAT) (float_of_nat 0));
            b = snd (ykp_tlv_add_float b (tlv_code TLV_VALUE_FLOAT) (float_of_nat (unat last_rtt)));
            b = snd (ykp_tlv_add_uint64 b (tlv_code TLV_TIMESTAMP) uptime_sec);
            b = snd (ykp_tlv_add_uint32 b (tlv_code TLV_VALUE_INT) (hs_restart_count h));
            b = snd (ykp_tlv_add_string b (tlv_code TLV_DEVICE_ID) (hs_device_id h));
            b = snd (ykp_tlv_add_string b (tlv_code TLV_FIRMWARE_VER) YKP_FIRMWARE_VERSION);
            (n, b) = ykp_tlv_builder_len b
        in tx_packet calloc_ok malloc_ok (hs_send h)
             (\<lambda>p. ykp_packet_set_header p 0 0 (Some (hs_device_id h)) (Some (ascii ''SERVER''))
                   ROUTE_CLOUD SVC_HEALTH (health_action_code HEALTH_REPORT) YKP_QOS_1 False)
             (Some (tb_buf b, n)) 512)"

section \<open>The sensor report\<close>

record sensor_reading_t =
  sr_temperature :: float_bits
  sr_humidity :: float_bits
  sr_motion :: bool
  sr_light_raw :: u16
  sr_valid :: bool

record sensor =
  sn_send :: bool
  sn_device_id :: bytes

definition sensor_service_init :: "bool \<Rightarrow> bytes option \<Rightarrow> sensor \<Rightarrow> sensor" where
  "sensor_service_init send_fn device_id s =
     s\<lparr>sn_send := send_fn,
       sn_device_id := (case device_id of None \<Rightarrow> sn_device_id s | Some i \<Rightarrow> i)\<rparr>"

text \<open>
  The code makes up temperature and humidity from random numbers; they are arguments, as are
  the level of the motion pin and the random number for the light value.
\<close>

definition sensor_service_read :: "float_bits \<Rightarrow> float_bits \<Rightarrow> bool \<Rightarrow> u32 \<Rightarrow> sensor_reading_t" where
  "sensor_service_read temperature humidity pir_level random =
     \<lparr>sr_temperature = temperature, sr_humidity = humidity, sr_motion = pir_level,
      sr_light_raw = ucast (random mod 4096), sr_valid = True\<rparr>"

definition sensor_service_send_report ::
  "bool \<Rightarrow> bool \<Rightarrow> sensor \<Rightarrow> sensor_reading_t \<Rightarrow> u64 \<Rightarrow> fault + event list" where
  "sensor_service_send_report calloc_ok malloc_ok s r now_sec =
     (let b = ykp_tlv_builder_init (replicate 128 0) 128;
          b = snd (ykp_tlv_add_float b (tlv_code TLV_VALUE_FLOAT) (sr_temperature r));
          b = snd (ykp_tlv_add_float b (tlv_code TLV_VALUE_FLOAT) (sr_humidity r));
          b = snd (ykp_tlv_add_uint8 b (tlv_code TLV_STATE) (if sr_motion r then 1 else 0));
          b = snd (ykp_tlv_add_uint16 b (tlv_code TLV_VALUE_INT) (sr_light_raw r));
          b = snd (ykp_tlv_add_uint64 b (tlv_code TLV_TIMESTAMP) now_sec);
          b = snd (ykp_tlv_add_string b (tlv_code TLV_DEVICE_ID) (sn_device_id s));
          (n, b) = ykp_tlv_builder_len b
      in tx_packet calloc_ok malloc_ok (sn_send s)
           (\<lambda>p. ykp_packet_set_header p 0 0 (Some (sn_device_id s)) (Some (ascii ''SERVER''))
                 ROUTE_CLOUD SVC_SENSOR (sensor_action_code SENSOR_REPORT) YKP_QOS_1 False)
           (Some (tb_buf b, n)) 300)"

section \<open>Every entry fits\<close>

text \<open>A builder of capacity \<open>c\<close> that holds \<open>kvs\<close> in at most \<open>n\<close> bytes.\<close>

definition tb_fill :: "ykp_tlv_builder_t \<Rightarrow> u16 \<Rightarrow> nat \<Rightarrow> (u8 \<times> cval) list \<Rightarrow> bool" where
  "tb_fill b c n kvs \<longleftrightarrow> tb_holds b kvs \<and> tb_cap b = c \<and> length (entries_bytes kvs) \<le> n"

context tlv_adder
begin

lemma add_room:
  assumes "tb_fill b c n kvs" "length (entry_bytes (k, cval v)) \<le> m" "n + m < unat c"
  shows "tb_fill (snd (add b k v)) c (n + m) (kvs @ [(k, cval v)])"
  using assms add_fits [of b kvs k v] by (simp add: tb_fill_def)

lemma add_fill:
  assumes "tb_fill b c n kvs" "length (entry_bytes (k, cval v)) \<le> 11" "n + 12 \<le> unat c"
  shows "tb_fill (snd (add b k v)) c (n + 11) (kvs @ [(k, cval v)])"
  using assms by (intro add_room) simp_all

end

lemma entry_small:
  "length (entry_bytes (tlv_code t, VUint v)) \<le> 11" "length (entry_bytes (tlv_code t, VFloat f)) \<le> 11"
  "length s \<le> 9 \<Longrightarrow> length (entry_bytes (tlv_code t, VStr s)) \<le> 11"
  using length_cbor_head [of 0 v]
  by (simp_all add: entry_bytes_def key_bytes_def uint_bytes_def float16_bytes_def str_bytes_def str_head_def)

lemma fill_init: "0 < c \<Longrightarrow> unat c \<le> length buf \<Longrightarrow> tb_fill (ykp_tlv_builder_init buf c) c 0 []"
  using tb_holds_init [of c buf] by (simp add: tb_fill_def ykp_tlv_builder_init_def)

lemma fill_frame:
  assumes f: "tb_fill b c n kvs" and n: "n + 2 \<le> unat c" "unat c + 49 \<le> raw_size" "raw_size < 65536"
  shows "tx_packet True True send_set
      (\<lambda>p. ykp_packet_set_header p pid sid src dst rt sv ac qos enc)
      (Some (tb_buf (snd (ykp_tlv_builder_len b)), fst (ykp_tlv_builder_len b))) raw_size =
    Inr (if send_set then [TxFrame (plain_frame (fresh_header pid sid src dst rt sv ac qos enc) (map_bytes kvs))]
      else [])"
proof -
  have m: "length (map_bytes kvs) \<le> unat (tb_cap b)" "tb_holds b kvs"
    using f n(1) by (simp_all add: tb_fill_def map_bytes_def)
  note p = builder_payload [OF m(2,1)]
  have "tb_cap b = c" using f by (simp add: tb_fill_def)
  then have len: "length (map_bytes kvs) + 49 \<le> raw_size" using m(1) n(2) by simp
  have "0 < length (map_bytes kvs)" by (simp add: map_bytes_def)
  then have pos: "0 < fst (ykp_tlv_builder_len b)" using p(2) by (simp add: word_less_nat_alt)
  have "tx_packet True True send_set
      (\<lambda>p. ykp_packet_set_header p pid sid src dst rt sv ac qos enc)
      (Some (tb_buf (snd (ykp_tlv_builder_len b)), fst (ykp_tlv_builder_len b))) raw_size =
    Inr (if send_set then [TxFrame (plain_frame (fresh_header pid sid src dst rt sv ac qos enc)
      (take (unat (fst (ykp_tlv_builder_len b))) (tb_buf (snd (ykp_tlv_builder_len b)))))] else [])"
    by (rule tx_frame) (use pos p len n in simp_all)
  then show ?thesis unfolding p(1) .
qed

definition health_entries :: "health \<Rightarrow> u32 \<Rightarrow> u32 \<Rightarrow> u32 \<Rightarrow> u8 \<Rightarrow> u64 \<Rightarrow> u32 \<Rightarrow> (u8 \<times> cval) list" where
  "health_entries h free_heap min_heap task_count rssi uptime_sec last_rtt =
     [(tlv_code TLV_VALUE_FLOAT, VFloat (cpu_usage task_count)),
      (tlv_code TLV_VALUE_INT, VUint (ucast free_heap)), (tlv_code TLV_VALUE_INT, VUint (ucast min_heap)),
      (tlv_code TLV_RSSI, VUint (ucast rssi)), (tlv_code TLV_VALUE_FLOAT, VFloat (float_of_nat 45)),
      (tlv_code TLV_VALUE_FLOAT, VFloat (float_of_nat 0)),
      (tlv_code TLV_VALUE_FLOAT, VFloat (float_of_nat (unat last_rtt))),
      (tlv_code TLV_TIMESTAMP, VUint uptime_sec), (tlv_code TLV_VALUE_INT, VUint (ucast (hs_restart_count h))),
      (tlv_code TLV_DEVICE_ID, VStr (hs_device_id h)), (tlv_code TLV_FIRMWARE_VER, VStr YKP_FIRMWARE_VERSION)]"

definition sensor_entries :: "sensor \<Rightarrow> sensor_reading_t \<Rightarrow> u64 \<Rightarrow> (u8 \<times> cval) list" where
  "sensor_entries s r now_sec =
     [(tlv_code TLV_VALUE_FLOAT, VFloat (sr_temperature r)), (tlv_code TLV_VALUE_FLOAT, VFloat (sr_humidity r)),
      (tlv_code TLV_STATE, VUint (ucast (if sr_motion r then 1 else 0 :: u8))),
      (tlv_code TLV_VALUE_INT, VUint (ucast (sr_light_raw r))), (tlv_code TLV_TIMESTAMP, VUint now_sec),
      (tlv_code TLV_DEVICE_ID, VStr (sn_device_id s))]"

lemmas fill_steps =
  float_adder.add_fill [OF _ entry_small(2)] u8_adder.add_fill [OF _ entry_small(1)]
  u16_adder.add_fill [OF _ entry_small(1)] u32_adder.add_fill [OF _ entry_small(1)]
  u64_adder.add_fill [OF _ entry_small(1)] str_adder.add_fill [OF _ entry_small(3)]

text \<open>The builder after all entries of a report, the entries in the order they were added.\<close>

lemma sensor_fill:
  assumes "length (sn_device_id s) \<le> 9"
  shows "tb_fill (snd (ykp_tlv_add_string (snd (ykp_tlv_add_uint64 (snd (ykp_tlv_add_uint16 (snd
      (ykp_tlv_add_uint8 (snd (ykp_tlv_add_float (snd (ykp_tlv_add_float (ykp_tlv_builder_init
      (replicate 128 0) 128) (tlv_code TLV_VALUE_FLOAT) (sr_temperature r))) (tlv_code
      TLV_VALUE_FLOAT) (sr_humidity r))) (tlv_code TLV_STATE) (if sr_motion r then 1 else 0)))
      (tlv_code TLV_VALUE_INT) (sr_light_raw r))) (tlv_code TLV_TIMESTAMP) (now))) (tlv_code
      TLV_DEVICE_ID) (sn_device_id s)))
      128 (0 + 11 + 11 + 11 + 11 + 11 + 11)
      (((((([] @ [(tlv_code TLV_VALUE_FLOAT, VFloat (sr_temperature r))]) @ [(tlv_code
      TLV_VALUE_FLOAT, VFloat (sr_humidity r))]) @ [(tlv_code TLV_STATE, VUint (ucast (if
      sr_motion r then 1 else 0 :: u8)))]) @ [(tlv_code TLV_VALUE_INT, VUint (ucast (sr_light_raw
      r)))]) @ [(tlv_code TLV_TIMESTAMP, VUint now)]) @ [(tlv_code TLV_DEVICE_ID, VStr
      (sn_device_id s))])"
  by (intro fill_steps fill_init) (use assms in simp_all)

lemma sensor_frame:
  assumes "length (sn_device_id s) \<le> 8" "sn_send s"
  shows "sensor_service_send_report True True s r now = Inr [TxFrame (plain_frame
    (fresh_header 0 0 (Some (sn_device_id s)) (Some (ascii ''SERVER'')) ROUTE_CLOUD SVC_SENSOR
      (sensor_action_code SENSOR_REPORT) YKP_QOS_1 False) (map_bytes (sensor_entries s r now)))]"
proof -
  have dev: "length (sn_device_id s) \<le> 9" using assms(1) by simp
  show ?thesis
    unfolding sensor_service_send_report_def Let_def case_prod_beta
    by (subst fill_frame [OF sensor_fill [OF dev, of r now]]) (simp_all add: sensor_entries_def assms(2))
qed

lemma health_fill:
  assumes "length (hs_device_id h) \<le> 9"
  shows "tb_fill (snd (ykp_tlv_add_string (snd (ykp_tlv_add_string (snd (ykp_tlv_add_uint32 (snd
      (ykp_tlv_add_uint64 (snd (ykp_tlv_add_float (snd (ykp_tlv_add_float (snd (ykp_tlv_add_float
      (snd (ykp_tlv_add_uint8 (snd (ykp_tlv_add_uint32 (snd (ykp_tlv_add_uint32 (snd
      (ykp_tlv_add_float (ykp_tlv_builder_init (replicate 256 0) 256) (tlv_code TLV_VALUE_FLOAT)
      (cpu_usage tc))) (tlv_code TLV_VALUE_INT) (fh))) (tlv_code TLV_VALUE_INT) (mh))) (tlv_code
      TLV_RSSI) (rssi))) (tlv_code TLV_VALUE_FLOAT) (float_of_nat 45))) (tlv_code TLV_VALUE_FLOAT)
      (float_of_nat 0))) (tlv_code TLV_VALUE_FLOAT) (float_of_nat (unat rtt)))) (tlv_code
      TLV_TIMESTAMP) (up))) (tlv_code TLV_VALUE_INT) (hs_restart_count h))) (tlv_code
      TLV_DEVICE_ID) (hs_device_id h))) (tlv_code TLV_FIRMWARE_VER) (YKP_FIRMWARE_VERSION)))
      256 (0 + 11 + 11 + 11 + 11 + 11 + 11 + 11 + 11 + 11 + 11 + 11)
      ((((((((((([] @ [(tlv_code TLV_VALUE_FLOAT, VFloat (cpu_usage tc))]) @ [(tlv_code
      TLV_VALUE_INT, VUint (ucast fh))]) @ [(tlv_code TLV_VALUE_INT, VUint (ucast mh))]) @
      [(tlv_code TLV_RSSI, VUint (ucast rssi))]) @ [(tlv_code TLV_VALUE_FLOAT, VFloat
      (float_of_nat 45))]) @ [(tlv_code TLV_VALUE_FLOAT, VFloat (float_of_nat 0))]) @ [(tlv_code
      TLV_VALUE_FLOAT, VFloat (float_of_nat (unat rtt)))]) @ [(tlv_code TLV_TIMESTAMP, VUint up)])
      @ [(tlv_code TLV_VALUE_INT, VUint (ucast (hs_restart_count h)))]) @ [(tlv_code
      TLV_DEVICE_ID, VStr (hs_device_id h))]) @ [(tlv_code TLV_FIRMWARE_VER, VStr
      YKP_FIRMWARE_VERSION)])"
  by (intro fill_steps fill_init) (use assms in \<open>simp_all add: YKP_FIRMWARE_VERSION_def\<close>)

lemma health_frame:
  assumes "length (hs_device_id h) \<le> 8" "hs_send h"
  shows "health_service_send_report True True h fh mh tc rssi up rtt = Inr [TxFrame (plain_frame
    (fresh_header 0 0 (Some (hs_device_id h)) (Some (ascii ''SERVER'')) ROUTE_CLOUD SVC_HEALTH
      (health_action_code HEALTH_REPORT) YKP_QOS_1 False)
    (map_bytes (health_entries h fh mh tc rssi up rtt)))]"
proof -
  have dev: "length (hs_device_id h) \<le> 9" using assms(1) by simp
  show ?thesis
    unfolding health_service_send_report_def Let_def case_prod_beta
    by (subst fill_frame [OF health_fill [OF dev]]) (simp_all add: health_entries_def assms(2))
qed

section \<open>Properties\<close>

lemma health_entries_ok:
  "length (hs_device_id h) \<le> 8 \<Longrightarrow> \<forall>kv \<in> set (health_entries h fh mh tc rssi up rtt). cval_ok (snd kv)"
  by (simp add: health_entries_def YKP_FIRMWARE_VERSION_def)

lemma health_payload_bound:
  assumes "length (hs_device_id h) \<le> 8"
  shows "length (map_bytes (health_entries h fh mh tc rssi up rtt)) \<le> 256"
proof -
  have dev: "length (hs_device_id h) \<le> 9" using assms by simp
  have "tb_fill b c n kvs \<Longrightarrow> length (entries_bytes kvs) \<le> n" for b c n kvs by (simp add: tb_fill_def)
  from this [OF health_fill [OF dev, of tc fh mh rssi rtt up]] show ?thesis
    by (simp add: map_bytes_def health_entries_def)
qed

definition read_u32_entry :: "bytes \<Rightarrow> u16 \<Rightarrow> u8 \<Rightarrow> (fault + u32 option) option" where
  "read_u32_entry payload len ty =
     bindC (ykp_tlv_find payload len ty) (\<lambda>r. case r of None \<Rightarrow> retC None | Some t \<Rightarrow> Some (ykp_tlv_read_uint32 t))"

text \<open>
  A health report is one frame, whatever the values: all eleven entries fit the buffers, the
  frame parses, and its payload is the map of the entries. Of the three values sent under
  \<open>TLV_VALUE_INT\<close> only the first can be found: a receiver that looks entries up reads the
  free heap and never the minimum heap or the restart count.
\<close>

lemma health_report_one_frame:
  assumes "length (hs_device_id h) \<le> 8" "hs_send h" "length rx = 512"
  shows "\<exists>f pkt rx'. health_service_send_report True True h fh mh tc rssi up rtt = Inr [TxFrame f] \<and>
    ykp_packet_parse f (of_nat (length f)) zero_packet rx = Inr (True, pkt, rx') \<and>
    payload_of rx' pkt = map_bytes (health_entries h fh mh tc rssi up rtt) \<and>
    read_u32_entry (payload_of rx' pkt) (p_payload_len pkt) (tlv_code TLV_VALUE_INT) = Some (Inr (Some fh))"
proof -
  let ?kvs = "health_entries h fh mh tc rssi up rtt"
  let ?h = "fresh_header 0 0 (Some (hs_device_id h)) (Some (ascii ''SERVER'')) ROUTE_CLOUD SVC_HEALTH
      (health_action_code HEALTH_REPORT) YKP_QOS_1 False"
  let ?f = "plain_frame ?h (map_bytes ?kvs)"
  note b = health_payload_bound [OF assms(1), of fh mh tc rssi up rtt]
  obtain pkt rx' where p: "ykp_packet_parse ?f (of_nat (49 + length (map_bytes ?kvs))) zero_packet rx =
      Inr (True, pkt, rx')" "payload_of rx' pkt = map_bytes ?kvs" "unat (p_payload_len pkt) = length (map_bytes ?kvs)"
    using frame_parses [of ?h "map_bytes ?kvs" rx zero_packet] b assms(3) by auto
  have "tlv_lookup ?kvs 4 (ykp_tlv_find (map_bytes ?kvs @ []) (p_payload_len pkt) 4)"
    by (rule find_map) (use health_entries_ok [OF assms(1)] p(3) in simp_all)
  then obtain tail where "ykp_tlv_find (map_bytes ?kvs) (p_payload_len pkt) 4 =
      Some (Inr (Some (tlv_of 4 (VUint (ucast fh)) tail)))"
    by (auto simp: tlv_lookup_def health_entries_def)
  then have "read_u32_entry (map_bytes ?kvs) (p_payload_len pkt) (tlv_code TLV_VALUE_INT) = Some (Inr (Some fh))"
    by (simp add: read_u32_entry_def read_uint32_head ucast32_le)
  moreover have "length ?f = 49 + length (map_bytes ?kvs)" by (simp add: length_plain_frame)
  ultimately show ?thesis
    using p health_frame [OF assms(1,2), of fh mh tc rssi up rtt] by (intro exI [of _ ?f] exI [of _ pkt] exI [of _ rx']) simp
qed

lemma health_report_one_frame_instance:
  "\<exists>f. health_service_send_report True True \<lparr>hs_send = True, hs_device_id = [65], hs_restart_count = 3\<rparr>
     1000 900 12 0xC4 60 45 = Inr [TxFrame f]"
  using health_report_one_frame [of "\<lparr>hs_send = True, hs_device_id = [65], hs_restart_count = 3\<rparr>" "replicate 512 0"
      1000 900 12 "0xC4" 60 45] by auto

end
