(* ===== verification/Legacy_Udp.thy ===== *)
theory Legacy_Udp
  imports Relay Security Nvs
begin

text \<open>
  The server for the older app: \<open>main/transport/legacy_udp.c\<close>. The record \<open>legacy\<close> holds the
  static variables of the file and the locals of \<open>udp_server_task\<close> that live across datagrams;
  \<open>udp_server_step\<close> is one turn of its endless loop, for one received datagram. Times are
  32-bit milliseconds and their differences wrap as in the code.

  The socket, the time and the random number are arguments, the PSA functions are the parameter
  record \<open>psa\<close>, commands go to the relay service. \<open>lu_key_id\<close> is the key that was
  imported; with none (the import failed) nothing decrypts.
\<close>

definition CMD_ON :: u8 where "CMD_ON = 1"
definition CMD_OFF :: u8 where "CMD_OFF = 2"
definition CMD_PING :: u8 where "CMD_PING = 3"
definition CMD_ACK :: u8 where "CMD_ACK = 4"
definition CMD_STATE :: u8 where "CMD_STATE = 5"

lemmas cmd_defs = CMD_ON_def CMD_OFF_def CMD_PING_def CMD_ACK_def CMD_STATE_def

record legacy =
  lu_key_id :: "bytes option"
  lu_session_id :: u32
  lu_tx_counter :: u32
  lu_rx_counter :: u32
  lu_packet_count :: u32
  lu_last_rate_check_ms :: u32
  lu_last_activity_ms :: u32

section \<open>Keys and start\<close>

text \<open>
  \<open>nvs_get_blob\<close> on a handle that could not be opened fails. Errors of the derivation are
  ignored by the code: the key then keeps its value.
\<close>

definition load_or_derive_keys ::
  "psa \<Rightarrow> 'n nvs_driver \<Rightarrow> 'n \<Rightarrow> bytes \<Rightarrow> bytes \<times> 'n" where
  "load_or_derive_keys ops d n shared_aes_key =
     (if \<not> psa_crypto_init ops then (shared_aes_key, n)
      else case (if nvs_open d n True then nvs_get_blob d n ''aes_master'' 32 else None) of
          Some k \<Rightarrow> (write_at shared_aes_key 0 k, n)
        | None \<Rightarrow>
            let key = (case psa_hkdf_sha256 ops (ascii ''Phase1_Salt'')
                              (ascii ''Test_Secret_IKM_Phase1_App'') (ascii ''UDP_AES_GCM_256'') 32 of
                         None \<Rightarrow> shared_aes_key | Some k \<Rightarrow> k);
                n = (if nvs_open d n True
                     then nvs_commit d (case nvs_set_blob d n ''aes_master'' key of None \<Rightarrow> n | Some n' \<Rightarrow> n')
                     else n)
            in (key, n))"

text \<open>The state before the loop: \<open>udp_server_task\<close> up to \<open>while (1)\<close>.\<close>

definition udp_server_init :: "psa \<Rightarrow> bytes \<Rightarrow> u32 \<Rightarrow> legacy" where
  "udp_server_init ops shared_aes_key now_ms =
     \<lparr>lu_key_id = (if psa_import_key ops shared_aes_key then Some shared_aes_key else None),
      lu_session_id = 0, lu_tx_counter = 1, lu_rx_counter = 0, lu_packet_count = 0,
      lu_last_rate_check_ms = now_ms, lu_last_activity_ms = now_ms\<rparr>"

definition legacy_udp_start :: "psa \<Rightarrow> 'n nvs_driver \<Rightarrow> 'n \<Rightarrow> u32 \<Rightarrow> legacy \<times> 'n" where
  "legacy_udp_start ops d n now_ms =
     (let (key, n) = load_or_derive_keys ops d n (replicate 32 0)
      in (udp_server_init ops key now_ms, n))"

section \<open>One datagram\<close>

text \<open>\<open>memcpy\<close> into a \<open>uint32_t\<close> on the little-endian target.\<close>

definition read_le32 :: "bytes \<Rightarrow> nat \<Rightarrow> u32" where
  "read_le32 buf i = read_u32_be (buf ! (i + 3)) (buf ! (i + 2)) (buf ! (i + 1)) (buf ! i)"

text \<open>The rate limiter: the new state, and whether the datagram is handled.\<close>

definition rate_limit :: "legacy \<Rightarrow> u32 \<Rightarrow> legacy \<times> bool" where
  "rate_limit st now_ms =
     (let st = (if 1000 < now_ms - lu_last_rate_check_ms st
                then st\<lparr>lu_packet_count := 0, lu_last_rate_check_ms := now_ms\<rparr> else st)
      in if 20 < lu_packet_count st then (st, False)
         else (st\<lparr>lu_packet_count := lu_packet_count st + 1\<rparr>, True))"

definition session_expired :: "legacy \<Rightarrow> u32 \<Rightarrow> bool" where
  "session_expired st now_ms \<longleftrightarrow> 300000 < now_ms - lu_last_activity_ms st"

definition expire_session :: "legacy \<Rightarrow> u32 \<Rightarrow> u32 \<Rightarrow> legacy" where
  "expire_session st now_ms random =
     (if session_expired st now_ms
      then st\<lparr>lu_session_id := random, lu_rx_counter := 0, lu_last_activity_ms := now_ms\<rparr> else st)"

text \<open>The checks on a command: its counter and opcode, or \<open>None\<close> if it is dropped.\<close>

definition open_command :: "psa \<Rightarrow> legacy \<Rightarrow> bytes \<Rightarrow> (u32 \<times> u8) option" where
  "open_command ops st buf =
     (if length buf \<noteq> 25 then None
      else let incoming_session_id = read_le32 buf 0; incoming_counter = read_le32 buf 4
        in if incoming_session_id \<noteq> lu_session_id st then None
           else if incoming_counter \<le> lu_rx_counter st \<and> lu_rx_counter st \<noteq> 0 then None
           else case lu_key_id st of
               None \<Rightarrow> None
             | Some k \<Rightarrow>
                 (case psa_aead_decrypt ops k (take 8 buf @ replicate 4 0) [] (slice 8 17 buf) of
                    Some [opcode] \<Rightarrow> Some (incoming_counter, opcode)
                  | _ \<Rightarrow> None))"

text \<open>The effect of an opcode: the relay, its events and the answer, if there is one.\<close>

definition run_opcode ::
  "bool \<Rightarrow> bool \<Rightarrow> bool \<Rightarrow> legacy \<Rightarrow> relay \<Rightarrow> u8 \<Rightarrow> fault + relay \<times> event list \<times> u8 option" where
  "run_opcode calloc_ok malloc_ok ble st r opcode =
     (let handle = (\<lambda>action.
            bindE (relay_service_handle calloc_ok malloc_ok ble r (relay_action_code action)
                     (lu_tx_counter st) (lu_session_id st) (ascii ''APP'')) (\<lambda>(r, evs).
              Inr (r, evs, Some CMD_ACK)))
      in if opcode = CMD_ON then handle RELAY_ON
         else if opcode = CMD_OFF then handle RELAY_OFF
         else if opcode = CMD_STATE
         then Inr (r, [], Some (if relay_service_get_state r then CMD_ON else CMD_OFF))
         else Inr (r, [], None))"

definition send_reply :: "psa \<Rightarrow> legacy \<Rightarrow> u8 \<Rightarrow> legacy \<times> event list" where
  "send_reply ops st tx_plaintext =
     (let h = le32 (lu_session_id st) @ le32 (lu_tx_counter st)
      in case lu_key_id st of
           None \<Rightarrow> (st, [])
         | Some k \<Rightarrow>
             (case psa_aead_encrypt ops k (h @ replicate 4 0) [] [tx_plaintext] of
                None \<Rightarrow> (st, [])
              | Some c \<Rightarrow> (st\<lparr>lu_tx_counter := lu_tx_counter st + 1\<rparr>, [UdpSend (h @ c)])))"

definition handle_datagram ::
  "psa \<Rightarrow> bool \<Rightarrow> bool \<Rightarrow> bool \<Rightarrow> legacy \<Rightarrow> relay \<Rightarrow> u32 \<Rightarrow> bytes \<Rightarrow>
   fault + legacy \<times> relay \<times> event list" where
  "handle_datagram ops calloc_ok malloc_ok ble st r now_ms buf =
     (if buf = [CMD_PING]
      then Inr (st\<lparr>lu_last_activity_ms := now_ms\<rparr>, r, [UdpSend (CMD_ACK # le32 (lu_session_id st))])
      else case open_command ops st buf of
          None \<Rightarrow> Inr (st, r, [])
        | Some (counter, opcode) \<Rightarrow>
            let st = st\<lparr>lu_rx_counter := counter, lu_last_activity_ms := now_ms\<rparr>
            in bindE (run_opcode calloc_ok malloc_ok ble st r opcode) (\<lambda>(r, evs, reply).
                 case reply of
                   None \<Rightarrow> Inr (st, r, evs)
                 | Some p \<Rightarrow> let (st, out) = send_reply ops st p in Inr (st, r, evs @ out)))"

text \<open>\<open>recvfrom\<close> stores at most 127 bytes of the datagram; an empty one is ignored.\<close>

definition udp_server_step ::
  "psa \<Rightarrow> bool \<Rightarrow> bool \<Rightarrow> bool \<Rightarrow> legacy \<Rightarrow> relay \<Rightarrow> u32 \<Rightarrow> u32 \<Rightarrow> bytes \<Rightarrow>
   fault + legacy \<times> relay \<times> event list" where
  "udp_server_step ops calloc_ok malloc_ok ble st r now_ms random datagram =
     (let buf = take 127 datagram
      in if buf = [] then Inr (st, r, [])
         else let (st, pass) = rate_limit st now_ms
           in if \<not> pass then Inr (st, r, [])
              else handle_datagram ops calloc_ok malloc_ok ble (expire_session st now_ms random) r now_ms buf)"

section \<open>Byte order\<close>

lemma read_le32_le32 [simp]: "read_le32 (le32 v @ ys) 0 = v"
  by (simp add: read_le32_def le32_def numeral_2_eq_2 numeral_3_eq_3)

lemma read_le32_second [simp]: "read_le32 (le32 v @ le32 w @ ys) 4 = w"
proof -
  have "(le32 v @ zs) ! (4 + k) = zs ! k" for zs k by (simp add: nth_append)
  from this [of "le32 w @ ys" 0] this [of "le32 w @ ys" 1] this [of "le32 w @ ys" 2] this [of "le32 w @ ys" 3]
  have "read_le32 (le32 v @ le32 w @ ys) 4 = read_le32 (le32 w @ ys) 0"
    by (simp add: read_le32_def numeral_2_eq_2)
  then show ?thesis by simp
qed

lemma le32_of_read: "le32 (read_le32 [b0, b1, b2, b3] 0) = [b0, b1, b2, b3]"
proof -
  have "ucast (drop_bit k (read_u32_be b3 b2 b1 b0)) =
      (if k = 0 then b0 else if k = 8 then b1 else if k = 16 then b2 else b3)"
    if "k \<in> {0, 8, 16, 24}" for k
    by (rule bit_word_eqI) (use that in \<open>auto simp: read_u32_be_def bit_simps dest: bit_imp_le_length\<close>)
  from this [of 0] this [of 8] this [of 16] this [of 24]
  show ?thesis by (simp add: read_le32_def le32_def numeral_2_eq_2 numeral_3_eq_3)
qed

section \<open>Commands and sessions along a run\<close>

lemma relay_handle_on_off:
  "\<exists>evs. relay_service_handle cl ml ble r (relay_action_code RELAY_ON) pid sid dst =
     Inr (r\<lparr>rl_state := True\<rparr>, evs)"
  "\<exists>evs. relay_service_handle cl ml ble r (relay_action_code RELAY_OFF) pid sid dst =
     Inr (r\<lparr>rl_state := False\<rparr>, evs)"
proof -
  have "\<exists>evs. send_ack cl ml r pid sid dst = Inr evs" for r using send_ack_total by blast
  then obtain g where "\<And>r. send_ack cl ml r pid sid dst = Inr (g r)" by metis
  then show "\<exists>evs. relay_service_handle cl ml ble r (relay_action_code RELAY_ON) pid sid dst =
     Inr (r\<lparr>rl_state := True\<rparr>, evs)"
    "\<exists>evs. relay_service_handle cl ml ble r (relay_action_code RELAY_OFF) pid sid dst =
     Inr (r\<lparr>rl_state := False\<rparr>, evs)"
    by (auto simp: relay_service_handle_def relay_action_decode_def)
qed

lemma run_opcode_total:
  "\<exists>r' evs p. run_opcode cl ml ble st r opcode = Inr (r', evs, p)"
  using relay_handle_on_off [of cl ml ble r "lu_tx_counter st" "lu_session_id st" "ascii ''APP''"]
  by (auto simp: run_opcode_def Let_def)

lemma send_reply_fields:
  "lu_rx_counter (fst (send_reply ops st p)) = lu_rx_counter st"
  "lu_session_id (fst (send_reply ops st p)) = lu_session_id st"
  by (simp_all add: send_reply_def Let_def split: option.splits)

text \<open>
  One received datagram: whether \<open>calloc\<close> and \<open>malloc\<close> succeed while it is handled, whether BLE
  is connected, the time, the random number, the bytes.
\<close>

type_synonym legacy_input = "bool \<times> bool \<times> bool \<times> u32 \<times> u32 \<times> bytes"

fun legacy_step :: "psa \<Rightarrow> legacy \<times> relay \<Rightarrow> legacy_input \<Rightarrow> legacy \<times> relay" where
  "legacy_step ops (st, r) (cl, ml, ble, now, rnd, d) =
     (case udp_server_step ops cl ml ble st r now rnd d of
        Inl _ \<Rightarrow> (st, r) | Inr (st', r', evs) \<Rightarrow> (st', r'))"

text \<open>Whether a datagram starts a new session, and the command it makes the server run.\<close>

fun new_session :: "legacy \<Rightarrow> legacy_input \<Rightarrow> bool" where
  "new_session st (cl, ml, ble, now, rnd, d) \<longleftrightarrow>
     d \<noteq> [] \<and> snd (rate_limit st now) \<and> session_expired (fst (rate_limit st now)) now"

fun command_of :: "psa \<Rightarrow> legacy \<Rightarrow> legacy_input \<Rightarrow> (u32 \<times> u8) option" where
  "command_of ops st (cl, ml, ble, now, rnd, d) =
     (if d = [] \<or> \<not> snd (rate_limit st now) \<or> take 127 d = [CMD_PING] then None
      else open_command ops (expire_session (fst (rate_limit st now)) now rnd) (take 127 d))"

text \<open>The counters of the commands run in the current session, oldest first.\<close>

fun session_log :: "psa \<Rightarrow> legacy \<times> relay \<Rightarrow> legacy_input list \<Rightarrow> u32 list \<Rightarrow> u32 list" where
  "session_log ops s [] acc = acc"
| "session_log ops s (i # is) acc =
     session_log ops (legacy_step ops s i) is
       ((if new_session (fst s) i then [] else acc) @
        (case command_of ops (fst s) i of None \<Rightarrow> [] | Some (c, _) \<Rightarrow> [c]))"

lemma rate_limit_fields:
  "lu_rx_counter (fst (rate_limit st now)) = lu_rx_counter st"
  "lu_last_activity_ms (fst (rate_limit st now)) = lu_last_activity_ms st"
  by (simp_all add: rate_limit_def Let_def)

lemma handle_datagram_rx:
  "\<exists>st' r' evs. handle_datagram ops cl ml ble st r now buf = Inr (st', r', evs) \<and>
     lu_rx_counter st' =
       (case (if buf = [CMD_PING] then None else open_command ops st buf) of
          None \<Rightarrow> lu_rx_counter st | Some (c, _) \<Rightarrow> c)"
proof (cases "buf = [CMD_PING] \<or> open_command ops st buf = None")
  case False
  then obtain c opc where oc: "buf \<noteq> [CMD_PING]" "open_command ops st buf = Some (c, opc)" by auto
  let ?st = "st\<lparr>lu_rx_counter := c, lu_last_activity_ms := now\<rparr>"
  obtain r' evs p where "run_opcode cl ml ble ?st r opc = Inr (r', evs, p)"
    using run_opcode_total by blast
  then show ?thesis using oc
    by (cases p) (auto simp: handle_datagram_def Let_def case_prod_beta send_reply_fields)
qed (auto simp: handle_datagram_def)

lemma legacy_step_rx:
  "lu_rx_counter (fst (legacy_step ops (st, r) i)) =
     (case command_of ops st i of
        Some (c, _) \<Rightarrow> c
      | None \<Rightarrow> if new_session st i then 0 else lu_rx_counter st)"
proof -
  obtain cl ml ble now rnd d where i: "i = (cl, ml, ble, now, rnd, d)" by (cases i) auto
  let ?st = "expire_session (fst (rate_limit st now)) now rnd"
  obtain st' r' evs where h: "handle_datagram ops cl ml ble ?st r now (take 127 d) = Inr (st', r', evs)"
    "lu_rx_counter st' = (case (if take 127 d = [CMD_PING] then None else open_command ops ?st (take 127 d)) of
          None \<Rightarrow> lu_rx_counter ?st | Some (c, _) \<Rightarrow> c)"
    using handle_datagram_rx by blast
  have e: "lu_rx_counter ?st = (if session_expired (fst (rate_limit st now)) now then 0 else lu_rx_counter st)"
    by (simp add: expire_session_def rate_limit_fields)
  show ?thesis using h e
    by (auto simp: i udp_server_step_def Let_def case_prod_beta rate_limit_fields split: option.splits)
qed

lemma command_of_above:
  assumes "command_of ops st i = Some (c, opc)"
  shows "new_session st i \<or> lu_rx_counter st = 0 \<or> lu_rx_counter st < c"
proof -
  obtain cl ml ble now rnd d where i: "i = (cl, ml, ble, now, rnd, d)" by (cases i) auto
  show ?thesis using assms
    by (auto simp: i open_command_def Let_def expire_session_def rate_limit_fields
        split: if_splits option.splits list.splits)
qed

text \<open>The log against the last counter: nonzero counters rise, and none is above the last.\<close>

definition log_ok :: "u32 \<Rightarrow> u32 list \<Rightarrow> bool" where
  "log_ok rx acc \<longleftrightarrow> sorted_wrt (<) (filter (\<lambda>c. c \<noteq> 0) acc) \<and> (\<forall>c \<in> set acc. c \<le> rx)"

lemma log_ok_step:
  assumes "log_ok (lu_rx_counter st) acc"
  shows "log_ok (lu_rx_counter (fst (legacy_step ops (st, r) i)))
    ((if new_session st i then [] else acc) @
     (case command_of ops st i of None \<Rightarrow> [] | Some (c, _) \<Rightarrow> [c]))"
proof (cases "command_of ops st i")
  case None
  then show ?thesis using assms unfolding legacy_step_rx log_ok_def by simp
next
  case (Some a)
  obtain c opc where a: "a = (c, opc)" by (cases a)
  have le: "x \<le> lu_rx_counter st" if "x \<in> set acc" for x using assms that by (simp add: log_ok_def)
  have "new_session st i \<or> lu_rx_counter st = 0 \<or> lu_rx_counter st < c"
    using command_of_above Some a by blast
  then consider "new_session st i" | "\<not> new_session st i" "\<forall>x \<in> set acc. x < c \<or> x = 0"
    using le by (cases "new_session st i") (auto intro: order.strict_trans1)
  then show ?thesis
  proof cases
    case 1
    then show ?thesis unfolding legacy_step_rx log_ok_def by (simp add: Some a)
  next
    case 2
    then have "\<forall>x \<in> set acc. x \<le> c" by (auto intro: less_imp_le)
    with 2 show ?thesis using assms unfolding legacy_step_rx log_ok_def
      by (auto simp: Some a sorted_wrt_append)
  qed
qed

lemma session_log_ok:
  "log_ok (lu_rx_counter (fst s)) acc \<Longrightarrow> \<exists>rx. log_ok rx (session_log ops s is acc)"
proof (induction "is" arbitrary: s acc)
  case (Cons i "is")
  show ?case
    unfolding session_log.simps
    by (rule Cons.IH) (use log_ok_step [OF Cons.prems, of ops "snd s" i] in simp)
qed auto

text \<open>The header of a command the server runs is its session id and the counter.\<close>

lemma open_command_header:
  assumes "length buf = 25" "open_command ops st buf = Some (c, opc)"
  shows "take 8 buf = le32 (lu_session_id st) @ le32 c"
proof -
  obtain b0 b1 b2 b3 b4 b5 b6 b7 rest where b: "buf = b0 # b1 # b2 # b3 # b4 # b5 # b6 # b7 # rest"
    using assms(1) by (auto simp: length_Suc_conv eval_nat_numeral)
  have r: "read_le32 buf 0 = read_le32 [b0, b1, b2, b3] 0" "read_le32 buf 4 = read_le32 [b4, b5, b6, b7] 0"
    by (simp_all add: b read_le32_def numeral_2_eq_2 numeral_3_eq_3 eval_nat_numeral)
  have "read_le32 buf 0 = lu_session_id st" "read_le32 buf 4 = c"
    using assms by (auto simp: open_command_def Let_def split: if_splits option.splits list.splits)
  then show ?thesis using le32_of_read r by (simp add: b)
qed

text \<open>
  While no command with another counter has been run, a command with counter 0 is accepted
  again and again: the comparison is skipped for a last counter of 0.
\<close>

lemma zero_counter_replays:
  assumes "open_command ops st buf = Some (0, opc)"
    and "handle_datagram ops cl ml ble st r now buf = Inr (st', r', evs)"
  shows "open_command ops st' buf = Some (0, opc)"
proof -
  obtain r1 evs1 p where run: "run_opcode cl ml ble
      (st\<lparr>lu_rx_counter := 0, lu_last_activity_ms := now\<rparr>) r opc = Inr (r1, evs1, p)"
    using run_opcode_total by blast
  have "buf \<noteq> [CMD_PING]" using assms(1) by (auto simp: open_command_def)
  then have "lu_rx_counter st' = 0 \<and> lu_session_id st' = lu_session_id st \<and> lu_key_id st' = lu_key_id st"
    using assms run
    by (auto simp: handle_datagram_def Let_def send_reply_def split: option.splits)
  then show ?thesis using assms(1) by (simp add: open_command_def Let_def split: if_splits)
qed

section \<open>The rate limiter\<close>

fun rate_run :: "legacy \<Rightarrow> u32 list \<Rightarrow> nat" where
  "rate_run st [] = 0"
| "rate_run st (now # nows) =
     (let (st', pass) = rate_limit st now in (if pass then 1 else 0) + rate_run st' nows)"

lemma rate_run_window:
  assumes "\<forall>now \<in> set nows. now - lu_last_rate_check_ms st \<le> 1000" "lu_packet_count st \<le> 21"
  shows "rate_run st nows \<le> 21 - unat (lu_packet_count st)"
  using assms
proof (induction nows arbitrary: st)
  case (Cons now nows)
  show ?case
  proof (cases "20 < lu_packet_count st")
    case True
    then have "lu_packet_count st = 21" using Cons.prems(2)
      by (simp add: word_less_nat_alt word_le_nat_alt word_unat_eq_iff)
    then show ?thesis using Cons.IH [of st] Cons.prems True
      by (simp add: rate_limit_def linorder_not_less)
  next
    case False
    let ?st = "st\<lparr>lu_packet_count := lu_packet_count st + 1\<rparr>"
    have le: "unat (lu_packet_count st) \<le> 20" using False by (simp add: word_less_nat_alt)
    then have u: "unat (lu_packet_count st + 1) = unat (lu_packet_count st) + 1"
      by (subst unat_add_lem [THEN iffD1]) simp_all
    then have "lu_packet_count ?st \<le> 21" using le by (simp add: word_le_nat_alt)
    have "rate_run ?st nows \<le> 21 - unat (lu_packet_count ?st)"
      using Cons.IH [of ?st] Cons.prems \<open>lu_packet_count ?st \<le> 21\<close> by simp
    moreover have "\<not> 1000 < now - lu_last_rate_check_ms st" using Cons.prems(1) by (simp add: linorder_not_less)
    then have "rate_limit st now = (?st, True)" using False by (simp add: rate_limit_def)
    ultimately show ?thesis using u le by simp
  qed
qed simp

section \<open>Properties\<close>

text \<open>
  C27. Within a session, however datagrams, their times and losses follow each other, no command is run twice
  under a counter other than 0: the counters of the commands the server runs rise strictly.
\<close>

theorem legacy_counters_rise:
  "sorted_wrt (<) (filter (\<lambda>c. c \<noteq> 0) (session_log ops s is []))"
  using session_log_ok [of s "[]" ops "is"] by (simp add: log_ok_def)

text \<open>
  C26. A command the app encrypts for the current session under a new counter is run: the relay
  takes the commanded state (a state query leaves it), and the app can decrypt the
  answer under the server's next counter: the acknowledgement, or the state that was asked for. The
  relay service may fail to allocate its own acknowledgement.
\<close>

theorem legacy_command_executed:
  assumes laws: "aead_laws ops" and key: "lu_key_id st = Some k"
    and enc: "psa_aead_encrypt ops k (le32 (lu_session_id st) @ le32 n @ replicate 4 0) [] [opc] = Some c"
    and fresh: "lu_rx_counter st < n \<or> lu_rx_counter st = 0"
    and opc: "opc = CMD_ON \<or> opc = CMD_OFF \<or> opc = CMD_STATE"
    and out: "\<And>p. psa_aead_encrypt ops k
        (le32 (lu_session_id st) @ le32 (lu_tx_counter st) @ replicate 4 0) [] [p] \<noteq> None"
  shows "\<exists>st' r' evs a.
    handle_datagram ops cl ml ble st r now (le32 (lu_session_id st) @ le32 n @ c) =
      Inr (st', r', evs @ [UdpSend (le32 (lu_session_id st) @ le32 (lu_tx_counter st) @ a)]) \<and>
    psa_aead_decrypt ops k (le32 (lu_session_id st) @ le32 (lu_tx_counter st) @ replicate 4 0) [] a =
      Some [if opc = CMD_STATE then (if rl_state r then CMD_ON else CMD_OFF) else CMD_ACK] \<and>
    rl_state r' = (opc = CMD_ON \<or> opc = CMD_STATE \<and> rl_state r) \<and>
    lu_rx_counter st' = n \<and> lu_tx_counter st' = lu_tx_counter st + 1"
proof -
  let ?d = "le32 (lu_session_id st) @ le32 n @ c"
  let ?st = "st\<lparr>lu_rx_counter := n, lu_last_activity_ms := now\<rparr>"
  let ?p = "if opc = CMD_STATE then (if rl_state r then CMD_ON else CMD_OFF) else CMD_ACK"
  have lc: "length c = 17" and dec: "psa_aead_decrypt ops k
      (le32 (lu_session_id st) @ le32 n @ replicate 4 0) [] c = Some [opc]"
    using laws enc unfolding aead_laws_def by force+
  have sl: "slice 8 17 ?d = c" "take 8 ?d = le32 (lu_session_id st) @ le32 n"
    using lc by (simp_all add: slice_def)
  have "length ?d = 25" "?d \<noteq> [CMD_PING]" using lc by (auto simp: le32_def)
  then have oc: "open_command ops st ?d = Some (n, opc)"
    using fresh key dec sl by (auto simp: open_command_def Let_def)
  obtain a where a: "psa_aead_encrypt ops k
      (le32 (lu_session_id st) @ le32 (lu_tx_counter st) @ replicate 4 0) [] [?p] = Some a"
    using out by blast
  have ad: "psa_aead_decrypt ops k
      (le32 (lu_session_id st) @ le32 (lu_tx_counter st) @ replicate 4 0) [] a = Some [?p]"
    using laws a unfolding aead_laws_def by blast
  obtain evs where run: "run_opcode cl ml ble ?st r opc =
      Inr (r\<lparr>rl_state := (opc = CMD_ON \<or> opc = CMD_STATE \<and> rl_state r)\<rparr>, evs, Some ?p)"
    using opc relay_handle_on_off [of cl ml ble r "lu_tx_counter st" "lu_session_id st" "ascii ''APP''"]
    by (auto simp: run_opcode_def Let_def cmd_defs relay_service_get_state_def)
  have rep: "send_reply ops ?st ?p = (?st\<lparr>lu_tx_counter := lu_tx_counter st + 1\<rparr>,
      [UdpSend (le32 (lu_session_id st) @ le32 (lu_tx_counter st) @ a)])"
    using a key by (simp add: send_reply_def Let_def)
  have "handle_datagram ops cl ml ble st r now ?d =
      Inr (?st\<lparr>lu_tx_counter := lu_tx_counter st + 1\<rparr>,
        r\<lparr>rl_state := (opc = CMD_ON \<or> opc = CMD_STATE \<and> rl_state r)\<rparr>,
        evs @ [UdpSend (le32 (lu_session_id st) @ le32 (lu_tx_counter st) @ a)])"
    using oc run rep \<open>?d \<noteq> [CMD_PING]\<close> by (simp add: handle_datagram_def Let_def split del: if_split)
  then show ?thesis using ad by (force split del: if_split)
qed

definition legacy_fresh :: legacy where
  "legacy_fresh = udp_server_init plain_psa (replicate 32 7) 0"

theorem legacy_command_executed_witness:
  "\<exists>st' r' evs a.
    handle_datagram plain_psa True True False legacy_fresh relay_off 5
      (le32 0 @ le32 1 @ CMD_ON # replicate 16 9) =
      Inr (st', r', evs @ [UdpSend (le32 0 @ le32 1 @ a)]) \<and>
    psa_aead_decrypt plain_psa (replicate 32 7) (le32 0 @ le32 1 @ replicate 4 0) [] a = Some [CMD_ACK] \<and>
    rl_state r' \<and> lu_rx_counter st' = 1 \<and> lu_tx_counter st' = 2"
  using legacy_command_executed [of plain_psa legacy_fresh "replicate 32 7" 1 CMD_ON "CMD_ON # replicate 16 9"
      True True False relay_off 5]
  by (simp add: plain_psa_aead) (simp add: plain_psa_def legacy_fresh_def udp_server_init_def cmd_defs)

text \<open>
  Both directions use one key, and the initialisation vector of a datagram is its session id and
  counter: a command that carries the counter the server sends next is answered
  under the same key and vector (the first command of an app that counts from 1, since the
  server's counter starts there).
\<close>

lemma legacy_reply_reuses_iv:
  assumes "length buf = 25" "open_command ops st buf = Some (lu_tx_counter st, opc)"
    and "opc = CMD_ON \<or> opc = CMD_OFF \<or> opc = CMD_STATE" "lu_key_id st = Some k"
    and "\<And>p. psa_aead_encrypt ops k (take 8 buf @ replicate 4 0) [] [p] \<noteq> None"
  shows "\<exists>st' r' evs p a.
    handle_datagram ops cl ml ble st r now buf = Inr (st', r', evs @ [UdpSend (take 8 buf @ a)]) \<and>
    psa_aead_encrypt ops k (take 8 buf @ replicate 4 0) [] [p] = Some a"
proof -
  let ?st = "st\<lparr>lu_rx_counter := lu_tx_counter st, lu_last_activity_ms := now\<rparr>"
  have h: "take 8 buf = le32 (lu_session_id st) @ le32 (lu_tx_counter st)"
    using assms(1,2) by (rule open_command_header)
  obtain r' evs p where run: "run_opcode cl ml ble ?st r opc = Inr (r', evs, Some p)"
    using assms(3) relay_handle_on_off [of cl ml ble r "lu_tx_counter st" "lu_session_id st" "ascii ''APP''"]
    by (auto simp: run_opcode_def Let_def cmd_defs)
  obtain a where a: "psa_aead_encrypt ops k (take 8 buf @ replicate 4 0) [] [p] = Some a"
    using assms(5) by blast
  have "send_reply ops ?st p = (?st\<lparr>lu_tx_counter := lu_tx_counter st + 1\<rparr>, [UdpSend (take 8 buf @ a)])"
    using a assms(4) by (simp add: send_reply_def Let_def h)
  moreover have "buf \<noteq> [CMD_PING]" using assms(1) by auto
  ultimately have "handle_datagram ops cl ml ble st r now buf =
      Inr (?st\<lparr>lu_tx_counter := lu_tx_counter st + 1\<rparr>, r', evs @ [UdpSend (take 8 buf @ a)])"
    using assms(2) run by (simp add: handle_datagram_def Let_def)
  then show ?thesis using a by blast
qed

lemma legacy_reply_reuses_iv_instance:
  "\<exists>st' r' evs p a.
    handle_datagram plain_psa True True False legacy_fresh relay_off 5
      [0, 0, 0, 0, 1, 0, 0, 0, CMD_STATE, 9, 9, 9, 9, 9, 9, 9, 9, 9, 9, 9, 9, 9, 9, 9, 9] =
      Inr (st', r', evs @ [UdpSend ([0, 0, 0, 0, 1, 0, 0, 0] @ a)]) \<and>
    psa_aead_encrypt plain_psa (replicate 32 7) ([0, 0, 0, 0, 1, 0, 0, 0] @ replicate 4 0) [] [p] = Some a"
proof -
  let ?d = "[0, 0, 0, 0, 1, 0, 0, 0, CMD_STATE, 9, 9, 9, 9, 9, 9, 9, 9, 9, 9, 9, 9, 9, 9, 9, 9]"
  have "open_command plain_psa legacy_fresh ?d = Some (lu_tx_counter legacy_fresh, CMD_STATE)"
    by code_simp
  from legacy_reply_reuses_iv [OF _ this, of "replicate 32 7" True True False relay_off 5]
  show ?thesis by (simp add: plain_psa_def legacy_fresh_def udp_server_init_def)
qed

end
