(* ===== verification/Cstring.thy ===== *)
theory Cstring
  imports Prelude
begin

text \<open>
  C strings in fixed-size character arrays, and the formatting the firmware does with
  \<open>snprintf\<close>. An array is its bytes with its full size; \<open>cstr\<close> is the string in it. A string
  written by \<open>strcpy\<close>, \<open>strncpy\<close>, \<open>strcat\<close> or \<open>snprintf\<close> overwrites the array from the start (or from
  the terminator) and leaves what is behind as it was; reading a string from an array
  that has no terminator is the fault \<open>OutOfBounds\<close>.
\<close>

section \<open>Strings in arrays\<close>

definition cstr :: "bytes \<Rightarrow> bytes" where
  "cstr f = takeWhile (\<lambda>b. b \<noteq> 0) f"

definition rd_cstr :: "bytes \<Rightarrow> fault + bytes" where
  "rd_cstr f = (if 0 \<in> set f then Inr (cstr f) else Inl OutOfBounds)"

definition strcpy_to :: "bytes \<Rightarrow> bytes \<Rightarrow> fault + bytes" where
  "strcpy_to field s = wr_bytes field 0 (s @ [0])"

definition strncpy_to :: "bytes \<Rightarrow> nat \<Rightarrow> bytes \<Rightarrow> fault + bytes" where
  "strncpy_to field n s = wr_bytes field 0 (strncpy_field n s)"

definition strcat_to :: "bytes \<Rightarrow> bytes \<Rightarrow> fault + bytes" where
  "strcat_to field s =
     (if 0 \<in> set field then wr_bytes field (length (cstr field)) (s @ [0]) else Inl OutOfBounds)"

text \<open>What \<open>snprintf\<close> leaves of a formatted text in a buffer of \<open>n\<close> bytes, without the terminator.\<close>

definition snprintf :: "nat \<Rightarrow> bytes \<Rightarrow> bytes" where
  "snprintf n s = take (n - 1) s"

definition snprintf_to :: "bytes \<Rightarrow> bytes \<Rightarrow> bytes" where
  "snprintf_to field s = write_at field 0 (snprintf (length field) s @ [0])"

definition c_string :: "bytes \<Rightarrow> bool" where
  "c_string s \<longleftrightarrow> 0 \<notin> set s"

text \<open>\<open>strchr\<close>: the index of the first occurrence in the string.\<close>

definition strchr :: "bytes \<Rightarrow> u8 \<Rightarrow> nat option" where
  "strchr f c = (let s = cstr f in if c \<in> set s then Some (length (takeWhile (\<lambda>b. b \<noteq> c) s)) else None)"

lemma c_string_append [simp]: "c_string (x @ y) \<longleftrightarrow> c_string x \<and> c_string y"
  by (auto simp: c_string_def)

lemma c_string_cstr [simp]: "c_string (cstr f)"
  by (auto simp: c_string_def cstr_def dest: set_takeWhileD)

lemma length_cstr: "0 \<in> set f \<Longrightarrow> length (cstr f) < length f"
  unfolding cstr_def by (metis (mono_tags, lifting) length_takeWhile_le nat_less_le takeWhile_eq_all_conv takeWhile_eq_take take_all)

lemma cstr_append [simp]: "c_string s \<Longrightarrow> cstr (s @ 0 # rest) = s"
  by (auto simp: c_string_def cstr_def takeWhile_append)

lemma cstr_no_zero: "c_string s \<Longrightarrow> cstr s = s"
  by (auto simp: c_string_def cstr_def)

lemma split_cstr: "0 \<in> set f \<Longrightarrow> \<exists>rest. f = cstr f @ 0 # rest"
  unfolding cstr_def by (metis (mono_tags, lifting) hd_dropWhile list.collapse takeWhile_dropWhile_id
      takeWhile_eq_all_conv append.right_neutral)

section \<open>A terminated array of a given size\<close>

definition field_ok :: "nat \<Rightarrow> bytes \<Rightarrow> bool" where
  "field_ok n f \<longleftrightarrow> length f = n \<and> 0 \<in> set f"

lemma rd_field [simp]: "field_ok n f \<Longrightarrow> rd_cstr f = Inr (cstr f)"
  by (simp add: field_ok_def rd_cstr_def)

lemma field_cstr: "field_ok n f \<Longrightarrow> length (cstr f) < n"
  using length_cstr by (auto simp: field_ok_def)

lemma field_zero [simp]: "0 < n \<Longrightarrow> field_ok n (replicate n 0)"
  by (simp add: field_ok_def)

lemma strcpy_field:
  assumes "field_ok n f" "length s < n"
  shows "\<exists>f'. strcpy_to f s = Inr f' \<and> field_ok n f' \<and> (c_string s \<longrightarrow> cstr f' = s)"
  using assms by (simp add: strcpy_to_def field_ok_def write_at_def)

lemma strncpy_field_ok:
  assumes "length f = n" "0 < n" "f ! (n - 1) = 0"
  shows "\<exists>f'. strncpy_to f (n - 1) s = Inr f' \<and> length f' = n \<and> f' ! (n - 1) = 0 \<and>
    (c_string s \<longrightarrow> cstr f' = take (n - 1) s)"
proof -
  have d: "drop (n - 1) f = [0]"
    using assms by (metis Cons_nth_drop_Suc One_nat_def Suc_pred diff_less drop_all order_refl zero_less_one)
  have "strncpy_to f (n - 1) s = Inr (strncpy_field (n - 1) s @ [0])"
    using assms d by (simp add: strncpy_to_def write_at_def)
  moreover have "cstr (strncpy_field (n - 1) s @ [0]) = take (n - 1) s" if "c_string s"
  proof -
    have "c_string (take (n - 1) s)" using that by (auto simp: c_string_def dest: in_set_takeD)
    then show ?thesis
      by (cases "n - 1 - length s") (simp_all add: strncpy_field_def)
  qed
  ultimately show ?thesis using assms by (simp add: nth_append)
qed

lemma last_zero_field: "length f = n \<Longrightarrow> 0 < n \<Longrightarrow> f ! (n - 1) = 0 \<Longrightarrow> field_ok n f"
  using nth_mem [of "n - 1" f] by (simp add: field_ok_def)

lemma snprintf_field:
  assumes "length f = n" "0 < n"
  shows "field_ok n (snprintf_to f s)" "c_string s \<Longrightarrow> cstr (snprintf_to f s) = take (n - 1) s"
proof -
  have l: "length (take (n - 1) s) < n" using assms(2) by simp
  show "field_ok n (snprintf_to f s)"
    using assms l by (simp add: snprintf_to_def snprintf_def field_ok_def write_at_def)
  have "c_string s \<Longrightarrow> c_string (take (n - 1) s)" by (auto simp: c_string_def dest: in_set_takeD)
  then show "c_string s \<Longrightarrow> cstr (snprintf_to f s) = take (n - 1) s"
    using assms by (simp add: snprintf_to_def snprintf_def write_at_def)
qed

lemma strcat_field:
  assumes "field_ok n f" "length (cstr f) + length s < n" "c_string s"
  shows "\<exists>f'. strcat_to f s = Inr f' \<and> field_ok n f' \<and> cstr f' = cstr f @ s"
proof -
  obtain rest where f: "f = cstr f @ 0 # rest" using assms(1) split_cstr unfolding field_ok_def by blast
  let ?f' = "write_at f (length (cstr f)) (s @ [0])"
  have t: "take (length (cstr f)) f = cstr f" by (metis append_eq_conv_conj f)
  have w: "?f' = (cstr f @ s) @ 0 # drop (length (cstr f) + length s + 1) f" by (simp add: write_at_def t)
  have "c_string (cstr f @ s)" using assms(3) c_string_cstr [of f] by (simp add: c_string_def)
  then have "cstr ?f' = cstr f @ s" unfolding w by (rule cstr_append)
  moreover have "strcat_to f s = Inr ?f'" "field_ok n ?f'"
    using assms by (simp_all add: strcat_to_def field_ok_def, simp add: w)
  ultimately show ?thesis by blast
qed

section \<open>Numbers\<close>

fun dec :: "nat \<Rightarrow> bytes" where
  "dec n = (if n < 10 then [of_nat (48 + n)] else dec (n div 10) @ [of_nat (48 + n mod 10)])"

declare dec.simps [simp del]

definition dec_int :: "int \<Rightarrow> bytes" where
  "dec_int i = (if i < 0 then 45 # dec (nat (- i)) else dec (nat i))"

definition hex_digit :: "nat \<Rightarrow> u8" where
  "hex_digit d = of_nat (if d < 10 then 48 + d else 87 + d)"

definition hex8 :: "u32 \<Rightarrow> bytes" where
  "hex8 v = map (\<lambda>i. hex_digit (unat v div 16 ^ i mod 16)) [7, 6, 5, 4, 3, 2, 1, 0]"

lemma length_hex8 [simp]: "length (hex8 v) = 8"
  by (simp add: hex8_def)

lemma length_dec: "n < 10 ^ Suc k \<Longrightarrow> length (dec n) \<le> Suc k"
proof (induction k arbitrary: n)
  case 0
  then show ?case by (simp add: dec.simps)
next
  case (Suc k)
  have "n div 10 < 10 ^ Suc k" using Suc.prems by (simp add: less_mult_imp_div_less mult.commute)
  from Suc.IH [OF this] show ?case by (simp add: dec.simps [of n])
qed

lemma of_nat_u8_nonzero: "0 < m \<Longrightarrow> m < 256 \<Longrightarrow> (of_nat m :: u8) \<noteq> 0"
  by (metis less_irrefl unat_of_nat_u8 unsigned_0)

lemma c_string_dec [simp]: "c_string (dec n)"
proof (induction n rule: dec.induct)
  case (1 n)
  have "(of_nat (48 + n mod 10) :: u8) \<noteq> 0" "n < 10 \<Longrightarrow> (of_nat (48 + n) :: u8) \<noteq> 0"
    by (rule of_nat_u8_nonzero; simp)+
  then show ?case using 1 unfolding dec.simps [of n] by (simp add: c_string_def del: of_nat_add of_nat_numeral)
qed

lemma c_string_hex8 [simp]: "c_string (hex8 v)"
proof -
  have "hex_digit d \<noteq> 0" if "d < 16" for d
    unfolding hex_digit_def by (rule of_nat_u8_nonzero) (use that in auto)
  then show ?thesis unfolding c_string_def hex8_def by (simp add: eq_commute [of 0])
qed

end
