(* ===== verification/Ble.thy ===== *)
theory Ble
  imports Cstring Bytes Nvs
begin

text \<open>
  Provisioning over Bluetooth: \<open>main/config/ble_provision.c\<close>. The static variables of the file
  are the record \<open>ble\<close>, the packed struct \<open>prov_session_t\<close> keeps its character arrays with
  their sizes, so that its CRC is taken over the bytes the code takes it over. A queue is
  a list with capacity 4, its pointer (and that of the heap buffers) an option.

  The code runs in several tasks. What a task does between two blocking calls is one
  definition: \<open>process_json_command\<close> and one turn of \<open>json_task\<close>, one turn of \<open>ble_notify_task\<close>
  and of the watchdog, the GATT and GAP callbacks, and the sections of
  \<open>wifi_connect_task\<close>, \<open>wifi_scan_task\<close> and \<open>validation_task\<close>; the tasks themselves are the
  composition of their sections.

  Not part of this code and therefore parameters: the ROM's CRC function, the JSON parser
  (an object is a function from keys to items), the SHA-256 of mbedTLS, flash, time and
  random numbers.
\<close>

record ble_lib =
  lib_crc32_le :: "u32 \<Rightarrow> bytes \<Rightarrow> u32"
  lib_sha256 :: "(bytes \<Rightarrow> bytes) option"

record cjson =
  js_valuestring :: "bytes option"
  js_valueint :: u32

type_synonym json_object = "string \<Rightarrow> cjson option"

section \<open>State\<close>

datatype prov_state_t = PROV_STATE_IDLE | PROV_STATE_SCAN | PROV_STATE_CREDS_RECV
  | PROV_STATE_WIFI_CONNECT | PROV_STATE_SSL_VALIDATE | PROV_STATE_UDP_PROBE
  | PROV_STATE_REPORT_WAIT | PROV_STATE_NVS_COMMIT | PROV_STATE_REBOOT | PROV_STATE_FAULT

fun prov_state_code :: "prov_state_t \<Rightarrow> u32" where
  "prov_state_code PROV_STATE_IDLE = 0"
| "prov_state_code PROV_STATE_SCAN = 1"
| "prov_state_code PROV_STATE_CREDS_RECV = 2"
| "prov_state_code PROV_STATE_WIFI_CONNECT = 3"
| "prov_state_code PROV_STATE_SSL_VALIDATE = 4"
| "prov_state_code PROV_STATE_UDP_PROBE = 5"
| "prov_state_code PROV_STATE_REPORT_WAIT = 6"
| "prov_state_code PROV_STATE_NVS_COMMIT = 7"
| "prov_state_code PROV_STATE_REBOOT = 8"
| "prov_state_code PROV_STATE_FAULT = 9"

record prov_session_t =
  ps_sentinel_start :: u32
  ps_state :: prov_state_t
  ps_session_id :: u32
  ps_last_seq :: u32
  ps_stages_complete :: u8
  ps_udp_nonce :: bytes
  ps_udp_sock :: u32
  ps_ssl_result :: bytes
  ps_udp_result :: bool
  ps_commit_started :: bool
  ps_nonce_valid :: bool
  ps_temp_ssid :: bytes
  ps_temp_psk :: bytes
  ps_temp_host :: bytes
  ps_temp_port :: u16
  ps_temp_udp_port :: u16
  ps_hmac_key :: bytes
  ps_crc :: u32
  ps_sentinel_end :: u32
  ps_last_heartbeat_time :: u32

definition MAX_CHUNK_SIZE :: nat where "MAX_CHUNK_SIZE = 513"
definition NOTIFY_MSG_SIZE :: nat where "NOTIFY_MSG_SIZE = 512"
definition CERT_BUF_SIZE :: nat where "CERT_BUF_SIZE = 8192"
definition RX_BUF_SIZE :: nat where "RX_BUF_SIZE = 4096"
definition QUEUE_LEN :: nat where "QUEUE_LEN = 4"
definition SENTINEL_VALUE :: u32 where "SENTINEL_VALUE = 0xDEADBEEF"

lemmas ble_sizes = MAX_CHUNK_SIZE_def NOTIFY_MSG_SIZE_def CERT_BUF_SIZE_def RX_BUF_SIZE_def QUEUE_LEN_def

text \<open>The event bits the code sets: connected, and notifications enabled.\<close>

record ble =
  b_active :: bool
  b_conn_handle :: "u16 option"
  b_rx_queue :: "bytes list option"
  b_notify_queue :: "bytes list option"
  b_session_mutex :: bool
  b_cert_mutex :: bool
  b_prov_events :: "(bool \<times> bool) option"
  b_cert_buffer :: "bytes option"
  b_cert_len :: nat
  b_rx_buffer :: "bytes option"
  b_rx_len :: nat
  b_session :: prov_session_t
  b_scan_ack :: bool
  b_tasks :: bool

section \<open>The session and its checksum\<close>

definition flag_byte :: "bool \<Rightarrow> u8" where
  "flag_byte b = (if b then 1 else 0)"

text \<open>The bytes of the packed struct in front of its member \<open>crc\<close>.\<close>

definition session_image :: "prov_session_t \<Rightarrow> bytes" where
  "session_image s =
     le32 (ps_sentinel_start s) @ le32 (prov_state_code (ps_state s)) @ le32 (ps_session_id s) @
     le32 (ps_last_seq s) @ [ps_stages_complete s] @ ps_udp_nonce s @ le32 (ps_udp_sock s) @
     ps_ssl_result s @ [flag_byte (ps_udp_result s), flag_byte (ps_commit_started s),
     flag_byte (ps_nonce_valid s)] @ ps_temp_ssid s @ ps_temp_psk s @ ps_temp_host s @
     le16 (ps_temp_port s) @ le16 (ps_temp_udp_port s) @ ps_hmac_key s"

definition calculate_crc32 :: "ble_lib \<Rightarrow> bytes \<Rightarrow> u32" where
  "calculate_crc32 x data = lib_crc32_le x 0xFFFFFFFF data XOR 0xFFFFFFFF"

definition calculate_session_crc :: "ble_lib \<Rightarrow> prov_session_t \<Rightarrow> u32" where
  "calculate_session_crc x s = calculate_crc32 x (session_image s)"

definition prov_session_update_crc :: "ble_lib \<Rightarrow> prov_session_t \<Rightarrow> prov_session_t" where
  "prov_session_update_crc x s = s\<lparr>ps_crc := calculate_session_crc x s\<rparr>"

definition prov_session_zero :: prov_session_t where
  "prov_session_zero =
     \<lparr>ps_sentinel_start = 0, ps_state = PROV_STATE_IDLE, ps_session_id = 0, ps_last_seq = 0,
      ps_stages_complete = 0, ps_udp_nonce = replicate 33 0, ps_udp_sock = 0,
      ps_ssl_result = replicate 32 0, ps_udp_result = False, ps_commit_started = False,
      ps_nonce_valid = False, ps_temp_ssid = replicate 64 0, ps_temp_psk = replicate 64 0,
      ps_temp_host = replicate 128 0, ps_temp_port = 0, ps_temp_udp_port = 0,
      ps_hmac_key = replicate 32 0, ps_crc = 0, ps_sentinel_end = 0, ps_last_heartbeat_time = 0\<rparr>"

definition prov_session_clear :: "ble_lib \<Rightarrow> ble \<Rightarrow> ble" where
  "prov_session_clear x b =
     b\<lparr>b_session := prov_session_update_crc x (prov_session_zero\<lparr>
         ps_sentinel_start := SENTINEL_VALUE, ps_sentinel_end := SENTINEL_VALUE,
         ps_state := PROV_STATE_IDLE, ps_udp_sock := - 1\<rparr>),
       b_cert_len := 0,
       b_cert_buffer := map_option (\<lambda>_. replicate CERT_BUF_SIZE 0) (b_cert_buffer b)\<rparr>"

definition prov_session_crc_verify :: "ble_lib \<Rightarrow> prov_session_t \<Rightarrow> bool" where
  "prov_session_crc_verify x s \<longleftrightarrow>
     ps_sentinel_start s = SENTINEL_VALUE \<and> ps_sentinel_end s = SENTINEL_VALUE \<and>
     ps_crc s = calculate_session_crc x s"

text \<open>A change of the session under its mutex that ends with \<open>prov_session_update_crc\<close>.\<close>

definition on_session :: "ble_lib \<Rightarrow> (prov_session_t \<Rightarrow> prov_session_t) \<Rightarrow> ble \<Rightarrow> ble" where
  "on_session x f b = b\<lparr>b_session := prov_session_update_crc x (f (b_session b))\<rparr>"

section \<open>Keys\<close>

definition mbedtls_hmac_sha256 :: "ble_lib \<Rightarrow> bytes \<Rightarrow> bytes \<Rightarrow> bytes option" where
  "mbedtls_hmac_sha256 x key msg =
     (if 64 < length key then None
      else let k = write_at (replicate 64 0) 0 key;
               ipad = map (\<lambda>c. c XOR 0x36) k;
               opad = map (\<lambda>c. c XOR 0x5C) k
        in case lib_sha256 x of
             None \<Rightarrow> None
           | Some sha \<Rightarrow> Some (sha (opad @ sha (ipad @ msg))))"

text \<open>\<open>prk0\<close> is what the uninitialised array holds, should the first HMAC fail.\<close>

definition derive_hmac_key :: "ble_lib \<Rightarrow> bytes \<Rightarrow> u32 \<Rightarrow> bytes \<Rightarrow> bytes" where
  "derive_hmac_key x prk0 session_id out_key =
     (let salt = snprintf 16 (dec (unat session_id));
          prk = (case mbedtls_hmac_sha256 x salt (replicate 32 1) of None \<Rightarrow> prk0 | Some h \<Rightarrow> h)
      in case mbedtls_hmac_sha256 x prk (ascii ''YKP_HMAC_KEY'' @ [1]) of
           None \<Rightarrow> out_key | Some h \<Rightarrow> h)"

definition verify_payload_hmac :: "bytes \<Rightarrow> bytes option \<Rightarrow> bool" where
  "verify_payload_hmac json_part hex_hmac = True"

section \<open>Notifications\<close>

definition ble_notify_enqueue :: "bytes \<Rightarrow> ble \<Rightarrow> ble" where
  "ble_notify_enqueue message b =
     (case b_notify_queue b of
        None \<Rightarrow> b
      | Some q \<Rightarrow>
          if length q < QUEUE_LEN
          then b\<lparr>b_notify_queue := Some (q @ [snprintf NOTIFY_MSG_SIZE (message @ [10])])\<rparr>
          else b)"

definition ble_notify_status :: "bytes \<Rightarrow> ble \<Rightarrow> ble" where
  "ble_notify_status message b = ble_notify_enqueue message b"

text \<open>One turn of \<open>ble_notify_task\<close>: the message leaves the queue, and is sent to a subscribed phone.\<close>

definition ble_notify_task :: "bool \<Rightarrow> ble \<Rightarrow> ble \<times> bytes list" where
  "ble_notify_task mbuf_ok b =
     (case b_notify_queue b of
        Some (msg # q) \<Rightarrow>
          (b\<lparr>b_notify_queue := Some q\<rparr>,
           if b_prov_events b = Some (True, True) \<and> mbuf_ok then [cstr msg] else [])
      | _ \<Rightarrow> (b, []))"

section \<open>The Wi-Fi tasks\<close>

definition wifi_connect_enter :: "ble_lib \<Rightarrow> ble \<Rightarrow> fault + bytes \<times> bytes \<times> ble" where
  "wifi_connect_enter x b =
     bindE (rd_cstr (ps_temp_ssid (b_session b))) (\<lambda>ssid.
     bindE (rd_cstr (ps_temp_psk (b_session b))) (\<lambda>psk.
       let b = on_session x (\<lambda>s. s\<lparr>ps_state := PROV_STATE_WIFI_CONNECT\<rparr>) b
       in Inr (ssid, psk, ble_notify_enqueue
            (ascii ''{\"status\":\"validating\",\"message\":\"Connecting to Wi-Fi...\"}'') b)))"

definition wifi_connect_done :: "ble_lib \<Rightarrow> bool \<Rightarrow> bytes \<Rightarrow> int \<Rightarrow> ble \<Rightarrow> ble" where
  "wifi_connect_done x connected ip rssi b =
     (if connected
      then ble_notify_enqueue
             (snprintf 256 (ascii ''{\"status\":\"wifi_ok\",\"ip\":\"'' @ ip @ ascii ''\",\"rssi\":'' @ dec_int rssi @
                ascii '',\"link_quality\":\"good\"}''))
             (on_session x (\<lambda>s. s\<lparr>ps_stages_complete := ps_stages_complete s OR 1,
                                  ps_state := PROV_STATE_CREDS_RECV\<rparr>) b)
      else on_session x (\<lambda>s. s\<lparr>ps_state := PROV_STATE_FAULT\<rparr>)
             (ble_notify_enqueue (ascii ''{\"status\":\"wifi_fail\",\"reason\":\"assoc_fail\"}'') b))"

text \<open>\<open>connect\<close> is \<open>wifi_manager_connect\<close>; \<open>ip\<close> and \<open>rssi\<close> are those of the connection.\<close>

definition wifi_connect_task ::
  "ble_lib \<Rightarrow> (bytes \<Rightarrow> bytes \<Rightarrow> bool) \<Rightarrow> bytes \<Rightarrow> int \<Rightarrow> ble \<Rightarrow> fault + ble" where
  "wifi_connect_task x connect ip rssi b =
     bindE (wifi_connect_enter x b) (\<lambda>(ssid, psk, b). Inr (wifi_connect_done x (connect ssid psk) ip rssi b))"

definition scan_report :: "u32 \<Rightarrow> bytes \<Rightarrow> bytes" where
  "scan_report s_id scan_buf =
     snprintf 1536 (ascii ''{\"status\":\"scan_results\",\"session_id\":'' @ dec (unat s_id) @ ascii '',\"networks\":'' @
       (case strchr scan_buf 91 of None \<Rightarrow> ascii ''[]}'' | Some i \<Rightarrow> drop i (cstr scan_buf)))"

definition wifi_scan_publish :: "bytes \<Rightarrow> ble \<Rightarrow> ble" where
  "wifi_scan_publish scan_buf b =
     ble_notify_enqueue (scan_report (ps_session_id (b_session b)) scan_buf) (b\<lparr>b_scan_ack := False\<rparr>)"

text \<open>The end of the task, when the flag is set or 300 polls of 100 ms are over.\<close>

definition wifi_scan_finish :: "ble_lib \<Rightarrow> ble \<Rightarrow> ble" where
  "wifi_scan_finish x b =
     (if b_scan_ack b then on_session x (\<lambda>s. s\<lparr>ps_state := PROV_STATE_CREDS_RECV\<rparr>) b
      else on_session x (\<lambda>s. s\<lparr>ps_state := PROV_STATE_FAULT\<rparr>)
             (ble_notify_enqueue (ascii ''{\"status\":\"timeout\",\"state\":\"SCAN\"}'') b))"

section \<open>The validation task\<close>

definition validation_enter :: "ble_lib \<Rightarrow> ble \<Rightarrow> fault + (bytes \<times> bytes \<times> bytes \<times> u16 \<times> u16) \<times> ble" where
  "validation_enter x b =
     (let s = b_session b
      in bindE (rd_cstr (ps_temp_ssid s)) (\<lambda>ssid.
         bindE (rd_cstr (ps_temp_psk s)) (\<lambda>psk.
         bindE (rd_cstr (ps_temp_host s)) (\<lambda>host.
           Inr ((ssid, psk, host, ps_temp_port s, ps_temp_udp_port s),
                on_session x (\<lambda>s. s\<lparr>ps_state := PROV_STATE_SSL_VALIDATE\<rparr>) b)))))"

text \<open>
  The certificate check: \<open>ca\<close> is whether \<open>ykp_ws_validate_ssl\<close> accepts the received certificate,
  \<open>fallback\<close> whether \<open>ykp_ws_validate_ssl_fallback\<close> succeeds. The results are \<open>ca_ok\<close> and \<open>fallback_ok\<close>.
\<close>

definition validation_ssl :: "bool \<Rightarrow> bool \<Rightarrow> ble \<Rightarrow> bool \<times> bool \<times> ble" where
  "validation_ssl ca fallback b =
     (let b = ble_notify_enqueue (ascii ''{\"status\":\"ssl_progress\",\"ca\":\"running\"}'') b
      in if 0 < b_cert_len b
         then if ca then (True, False, ble_notify_enqueue (ascii ''{\"status\":\"ssl_progress\",\"ca\":\"ok\"}'') b)
              else (False, fallback, ble_notify_enqueue
                     (ascii ''{\"status\":\"ssl_progress\",\"ca\":\"failed\",\"fallback\":\"running\"}'') b)
         else (False, fallback, ble_notify_enqueue
                (ascii ''{\"status\":\"ssl_progress\",\"ca\":\"none\",\"fallback\":\"running\"}'') b))"

definition ssl_verdict :: "bool \<Rightarrow> bool \<Rightarrow> bytes" where
  "ssl_verdict ca_ok fallback_ok =
     (if ca_ok then ascii ''ca_ok'' else if fallback_ok then ascii ''ca_failed_fallback_ok''
      else ascii ''ca_failed_fallback_failed'')"

definition validation_ssl_done :: "ble_lib \<Rightarrow> bool \<Rightarrow> bool \<Rightarrow> ble \<Rightarrow> fault + bool \<times> ble" where
  "validation_ssl_done x ca_ok fallback_ok b =
     bindE (strcpy_to (ps_ssl_result (b_session b)) (ssl_verdict ca_ok fallback_ok)) (\<lambda>res.
       let b = on_session x (\<lambda>s. s\<lparr>ps_stages_complete := ps_stages_complete s OR 2, ps_ssl_result := res\<rparr>) b;
           b = ble_notify_enqueue (ascii ''{\"status\":\"ssl_done\",\"result\":\"'' @ ssl_verdict ca_ok fallback_ok @
                 ascii ''\"}'') b
       in if ca_ok \<or> fallback_ok then Inr (True, b)
          else Inr (False, on_session x (\<lambda>s. s\<lparr>ps_state := PROV_STATE_FAULT\<rparr>) b))"

definition validation_udp_enter :: "ble_lib \<Rightarrow> ble \<Rightarrow> fault + ble" where
  "validation_udp_enter x b =
     (let b = on_session x (\<lambda>s. s\<lparr>ps_state := PROV_STATE_UDP_PROBE\<rparr>) b
      in bindE (rd_cstr (ps_udp_nonce (b_session b))) (\<lambda>nonce.
           Inr (ble_notify_enqueue
             (snprintf 96 (ascii ''{\"status\":\"udp_ready\",\"udp_nonce\":\"'' @ nonce @ ascii ''\"}'')) b)))"

text \<open>
  The probe: \<open>rx\<close> is the datagram received on the bound socket within ten seconds, or \<open>None\<close>.
  Of a datagram 63 bytes are kept; the comparison is on C strings.
\<close>

definition validation_udp_done :: "ble_lib \<Rightarrow> bytes option \<Rightarrow> ble \<Rightarrow> fault + bool \<times> ble" where
  "validation_udp_done x rx b =
     bindE (rd_cstr (ps_udp_nonce (b_session b))) (\<lambda>nonce.
       let expected = snprintf 64 (ascii ''YKP_PROBE:'' @ nonce);
           udp_ok = (case rx of None \<Rightarrow> False | Some d \<Rightarrow> d \<noteq> [] \<and> cstr (take 63 d @ [0]) = expected)
       in if udp_ok
          then Inr (True, ble_notify_enqueue (ascii ''{\"status\":\"udp_ok\"}'')
                 (on_session x (\<lambda>s. s\<lparr>ps_udp_result := True,
                    ps_stages_complete := ps_stages_complete s OR 4\<rparr>) b))
          else Inr (False, on_session x (\<lambda>s. s\<lparr>ps_state := PROV_STATE_FAULT\<rparr>)
                 (ble_notify_enqueue (ascii ''{\"status\":\"udp_timeout\"}'') b)))"

definition validation_report :: "u32 \<Rightarrow> int \<Rightarrow> bytes \<Rightarrow> bytes \<Rightarrow> u16 \<Rightarrow> bytes" where
  "validation_report sess_id rssi ip ssl_res udp_port =
     snprintf 1024 (ascii ''{\"status\":\"report\",\"firmware_version\":\"v1.2.1\",\"session_id\":\"'' @ dec (unat sess_id) @
       ascii ''\",\"wifi_rssi\":'' @ dec_int rssi @ ascii '',\"wifi_rssi_avg\":'' @ dec_int rssi @
       ascii '',\"link_quality\":\"good\",\"wifi_ip\":\"'' @ ip @ ascii ''\",\"ssl_status\":\"'' @ ssl_res @
       ascii ''\",\"udp_status\":\"udp_ok\",\"udp_port\":'' @ dec (unat udp_port) @
       ascii '',\"time_sync\":true,\"ready_to_commit\":true,\"stages_complete\":{\"wifi\":true,\"ssl\":true,\"udp\":true}}'')"

definition validation_finish :: "ble_lib \<Rightarrow> int \<Rightarrow> bytes \<Rightarrow> u16 \<Rightarrow> ble \<Rightarrow> fault + ble" where
  "validation_finish x rssi ip udp_port b =
     (let b = on_session x (\<lambda>s. s\<lparr>ps_state := PROV_STATE_REPORT_WAIT\<rparr>) b
      in bindE (rd_cstr (ps_ssl_result (b_session b))) (\<lambda>ssl_res.
           Inr (ble_notify_enqueue
             (validation_report (ps_session_id (b_session b)) rssi ip ssl_res udp_port) b)))"

text \<open>What the task meets outside: the results of its calls.\<close>

record validation_env =
  ve_wifi_connected :: bool
  ve_wifi_connect :: "bytes \<Rightarrow> bytes \<Rightarrow> bool"
  ve_validate_ssl :: "bytes \<Rightarrow> u16 \<Rightarrow> bytes option \<Rightarrow> bool"
  ve_validate_fallback :: "bytes \<Rightarrow> u16 \<Rightarrow> bool"
  ve_probe :: "u16 \<Rightarrow> bytes option"
  ve_rssi :: int
  ve_ip :: bytes

definition validation_task :: "ble_lib \<Rightarrow> validation_env \<Rightarrow> ble \<Rightarrow> fault + ble" where
  "validation_task x env b =
     bindE (validation_enter x b) (\<lambda>((ssid, psk, host, port, udp_port), b).
       let b = (if ve_wifi_connected env then b
                else ble_notify_enqueue (ascii ''{\"status\":\"validating\",\"message\":\"Connecting to Wi-Fi...\"}'') b)
       in if \<not> ve_wifi_connected env \<and> \<not> ve_wifi_connect env ssid psk
          then Inr (ble_notify_enqueue (ascii ''{\"status\":\"wifi_fail\",\"reason\":\"assoc_fail\"}'') b)
          else let (ca_ok, fallback_ok, b) =
                 validation_ssl (ve_validate_ssl env host port (b_cert_buffer b))
                   (ve_validate_fallback env host port) b
            in bindE (validation_ssl_done x ca_ok fallback_ok b) (\<lambda>(go, b).
                 if \<not> go then Inr b
                 else bindE (validation_udp_enter x b) (\<lambda>b.
                      bindE (validation_udp_done x (ve_probe env udp_port) b) (\<lambda>(go, b).
                        if \<not> go then Inr b
                        else validation_finish x (ve_rssi env) (ve_ip env) udp_port b))))"

section \<open>Commands\<close>

type_synonym 'n ble_result = "fault + ble \<times> 'n \<times> event list"

text \<open>An item used as a string although it may be none: a null pointer given to \<open>strncpy\<close>.\<close>

definition item_string :: "cjson \<Rightarrow> fault + bytes" where
  "item_string i = (case js_valuestring i of None \<Rightarrow> Inl NullDeref | Some s \<Rightarrow> Inr s)"

definition seq_suffix :: "u32 \<Rightarrow> bytes" where
  "seq_suffix seq = ascii '',\"seq\":'' @ dec (unat seq) @ ascii ''}''"

definition cmd_ping :: "u32 \<Rightarrow> ble \<Rightarrow> ble" where
  "cmd_ping now_s b =
     ble_notify_enqueue (ascii ''{\"cmd\":\"pong\"}'')
       (b\<lparr>b_session := (b_session b)\<lparr>ps_last_heartbeat_time := now_s\<rparr>\<rparr>)"

definition cmd_query_state :: "u32 \<Rightarrow> ble \<Rightarrow> ble" where
  "cmd_query_state seq b =
     ble_notify_enqueue
       (snprintf 256 (ascii ''{\"status\":\"state_report\",\"state\":\"'' @
          dec (unat (prov_state_code (ps_state (b_session b)))) @ ascii ''\",\"session_id\":\"'' @
          dec (unat (ps_session_id (b_session b))) @ ascii ''\"'' @ seq_suffix seq)) b"

definition cmd_scan_ack :: "u32 \<Rightarrow> ble \<Rightarrow> ble" where
  "cmd_scan_ack seq b =
     ble_notify_enqueue (snprintf 256 (ascii ''{\"ack\":\"scan_ack\",\"status\":\"ok\"'' @ seq_suffix seq))
       (b\<lparr>b_scan_ack := True\<rparr>)"

definition store_wifi :: "cjson \<Rightarrow> cjson \<Rightarrow> prov_session_t \<Rightarrow> fault + prov_session_t" where
  "store_wifi ssid psk s =
     bindE (item_string ssid) (\<lambda>v.
     bindE (strncpy_to (ps_temp_ssid s) 63 v) (\<lambda>f.
     bindE (item_string psk) (\<lambda>w.
     bindE (strncpy_to (ps_temp_psk s) 63 w) (\<lambda>g.
       Inr (s\<lparr>ps_temp_ssid := f, ps_temp_psk := g\<rparr>)))))"

definition store_server :: "u32 \<Rightarrow> cjson \<Rightarrow> cjson \<Rightarrow> cjson option \<Rightarrow> prov_session_t \<Rightarrow> fault + prov_session_t" where
  "store_server random host port uport s =
     bindE (item_string host) (\<lambda>v.
     bindE (strncpy_to (ps_temp_host s) 127 v) (\<lambda>f.
       Inr (s\<lparr>ps_temp_host := f, ps_temp_port := ucast (js_valueint port),
              ps_temp_udp_port := (case uport of None \<Rightarrow> 47808 | Some u \<Rightarrow> ucast (js_valueint u)),
              ps_udp_nonce := snprintf_to (ps_udp_nonce s) (hex8 (ps_session_id s) @ hex8 random),
              ps_nonce_valid := True\<rparr>)))"

text \<open>The answer to new server data: the nonce, read back out of the session.\<close>

definition creds_ok :: "u32 \<Rightarrow> ble \<Rightarrow> fault + ble" where
  "creds_ok seq b =
     bindE (rd_cstr (ps_udp_nonce (b_session b))) (\<lambda>nonce.
       Inr (ble_notify_enqueue
         (snprintf 256 (ascii ''{\"status\":\"creds_ok\",\"udp_nonce\":\"'' @ nonce @ ascii ''\",\"session_id\":\"'' @
            dec (unat (ps_session_id (b_session b))) @ ascii ''\"'' @ seq_suffix seq)) b))"

definition cmd_send_wifi :: "ble_lib \<Rightarrow> json_object \<Rightarrow> u32 \<Rightarrow> ble \<Rightarrow> fault + ble \<times> event list" where
  "cmd_send_wifi x root seq b =
     (case (root ''ssid'', root ''psk'') of
        (Some ssid, Some psk) \<Rightarrow>
          bindE (store_wifi ssid psk (b_session b)) (\<lambda>s.
            Inr (ble_notify_enqueue (snprintf 256 (ascii ''{\"status\":\"wifi_connecting\"'' @ seq_suffix seq))
                   (b\<lparr>b_session := prov_session_update_crc x s\<rparr>),
                 [SpawnTask ''wifi_conn'']))
      | _ \<Rightarrow> Inr (b, []))"

definition cmd_send_server :: "ble_lib \<Rightarrow> u32 \<Rightarrow> json_object \<Rightarrow> u32 \<Rightarrow> ble \<Rightarrow> fault + ble" where
  "cmd_send_server x random root seq b =
     (case (root ''host'', root ''port'') of
        (Some host, Some port) \<Rightarrow>
          bindE (store_server random host port (root ''udp_port'') (b_session b)) (\<lambda>s.
            creds_ok seq (b\<lparr>b_session := prov_session_update_crc x s\<rparr>))
      | _ \<Rightarrow> Inr b)"

definition cmd_send_creds :: "ble_lib \<Rightarrow> u32 \<Rightarrow> json_object \<Rightarrow> u32 \<Rightarrow> ble \<Rightarrow> fault + ble" where
  "cmd_send_creds x random root seq b =
     (case (root ''ssid'', root ''psk'', root ''host'', root ''port'') of
        (Some ssid, Some psk, Some host, Some port) \<Rightarrow>
          bindE (store_wifi ssid psk (b_session b)) (\<lambda>s.
          bindE (store_server random host port (root ''udp_port'') s) (\<lambda>s.
            creds_ok seq (b\<lparr>b_session := prov_session_update_crc x s\<rparr>)))
      | _ \<Rightarrow> Inr b)"

definition cert_ack :: "cjson \<Rightarrow> bytes \<Rightarrow> u32 \<Rightarrow> bytes" where
  "cert_ack chunk_idx status seq =
     snprintf 256 (ascii ''{\"ack\":\"set_cert\",\"chunk\":'' @ dec_int (sint (js_valueint chunk_idx)) @
       ascii '',\"status\":\"'' @ status @ ascii ''\"'' @ seq_suffix seq)"

definition cert_restart :: "cjson \<Rightarrow> ble \<Rightarrow> ble" where
  "cert_restart chunk_idx b =
     (if js_valueint chunk_idx = 1
      then b\<lparr>b_cert_len := 0,
             b_cert_buffer := map_option (\<lambda>_. replicate CERT_BUF_SIZE 0) (b_cert_buffer b)\<rparr>
      else b)"

definition cert_append :: "cjson \<Rightarrow> bytes \<Rightarrow> u32 \<Rightarrow> ble \<Rightarrow> fault + ble" where
  "cert_append chunk_idx d seq b =
     (case b_cert_buffer b of
        Some buf \<Rightarrow>
          if b_cert_len b + length d < CERT_BUF_SIZE - 1
          then bindE (strcat_to buf d) (\<lambda>buf'.
                 Inr (ble_notify_enqueue (cert_ack chunk_idx (ascii ''ok'') seq)
                   (b\<lparr>b_cert_buffer := Some buf', b_cert_len := b_cert_len b + length d\<rparr>)))
          else Inr (ble_notify_enqueue (cert_ack chunk_idx (ascii ''error'') seq) b)
      | None \<Rightarrow> Inr (ble_notify_enqueue (cert_ack chunk_idx (ascii ''error'') seq) b))"

definition cmd_set_cert :: "json_object \<Rightarrow> u32 \<Rightarrow> ble \<Rightarrow> fault + ble" where
  "cmd_set_cert root seq b =
     (case (root ''chunk'', root ''data'') of
        (Some chunk_idx, Some data) \<Rightarrow>
          (case js_valuestring data of
             None \<Rightarrow> Inr b
           | Some d \<Rightarrow> cert_append chunk_idx d seq (cert_restart chunk_idx b))
      | _ \<Rightarrow> Inr b)"

text \<open>The certificate is stored only if it was the one that validated the server.\<close>

definition commit_cert :: "'n nvs_driver \<Rightarrow> bytes \<Rightarrow> ble \<Rightarrow> 'n \<Rightarrow> fault + 'n" where
  "commit_cert d ssl_res b n =
     (if ssl_res = ascii ''ca_ok'' \<and> 0 < b_cert_len b
      then case b_cert_buffer b of
             None \<Rightarrow> Inl NullDeref
           | Some buf \<Rightarrow> bindE (rd_cstr buf) (\<lambda>cert. Inr (snd (nvs_config_set_str d n ''ssl_cert'' cert)))
      else Inr n)"

definition commit_settings :: "'n nvs_driver \<Rightarrow> bytes \<Rightarrow> bytes \<Rightarrow> bytes \<Rightarrow> u16 \<Rightarrow> 'n \<Rightarrow> 'n" where
  "commit_settings d ssid psk host port n =
     (let n = snd (nvs_config_set_str d n ''wifi_ssid'' ssid);
          n = snd (nvs_config_set_str d n ''wifi_password'' psk);
          n = snd (nvs_config_set_str d n ''server_url'' host)
      in snd (nvs_config_set_u32 d n ''control_port'' (ucast port)))"

definition cmd_confirm_provision :: "'n nvs_driver \<Rightarrow> u32 \<Rightarrow> ble \<Rightarrow> 'n \<Rightarrow> 'n ble_result" where
  "cmd_confirm_provision d seq b n =
     (let s = (b_session b)\<lparr>ps_state := PROV_STATE_NVS_COMMIT, ps_commit_started := True\<rparr>;
          b = b\<lparr>b_session := s\<rparr>
      in bindE (rd_cstr (ps_temp_ssid s)) (\<lambda>ssid.
         bindE (rd_cstr (ps_temp_psk s)) (\<lambda>psk.
         bindE (rd_cstr (ps_temp_host s)) (\<lambda>host.
         bindE (rd_cstr (ps_ssl_result s)) (\<lambda>ssl_res.
         bindE (commit_cert d ssl_res b (commit_settings d ssid psk host (ps_temp_port s) n)) (\<lambda>n.
           Inr (ble_notify_enqueue (snprintf 256 (ascii ''{\"status\":\"commit_ok\"'' @ seq_suffix seq)) b,
                n, [DelayMs 1000, Restart])))))))"

definition with_nvs :: "'n \<Rightarrow> fault + ble \<Rightarrow> 'n ble_result" where
  "with_nvs n m = bindE m (\<lambda>b. Inr (b, n, []))"

definition run_command ::
  "ble_lib \<Rightarrow> 'n nvs_driver \<Rightarrow> u32 \<Rightarrow> u32 \<Rightarrow> json_object \<Rightarrow> bytes \<Rightarrow> u32 \<Rightarrow> ble \<Rightarrow> 'n \<Rightarrow> 'n ble_result" where
  "run_command x d now_s random root cmd seq b n =
     (if cmd = ascii ''ping'' then Inr (cmd_ping now_s b, n, [])
      else if cmd = ascii ''query_state'' then Inr (cmd_query_state seq b, n, [])
      else if cmd = ascii ''scan_ack'' then Inr (cmd_scan_ack seq b, n, [])
      else if cmd = ascii ''send_wifi'' then bindE (cmd_send_wifi x root seq b) (\<lambda>(b, evs). Inr (b, n, evs))
      else if cmd = ascii ''send_server'' then with_nvs n (cmd_send_server x random root seq b)
      else if cmd = ascii ''send_creds'' then with_nvs n (cmd_send_creds x random root seq b)
      else if cmd = ascii ''rescan''
      then Inr (ble_notify_enqueue (snprintf 256 (ascii ''{\"ack\":\"rescan\",\"status\":\"ok\"'' @ seq_suffix seq)) b,
                n, [SpawnTask ''wifi_scan''])
      else if cmd = ascii ''set_cert'' then with_nvs n (cmd_set_cert root seq b)
      else if cmd = ascii ''commit''
      then Inr (ble_notify_enqueue (snprintf 256 (ascii ''{\"status\":\"commit_ack\"'' @ seq_suffix seq)) b,
                n, [SpawnTask ''validation''])
      else if cmd = ascii ''report_ack''
      then Inr (ble_notify_enqueue (snprintf 256 (ascii ''{\"ack\":\"report_ack\",\"status\":\"ok\"'' @ seq_suffix seq)) b,
                n, [])
      else if cmd = ascii ''confirm_provision'' then cmd_confirm_provision d seq b n
      else Inr (b, n, []))"

text \<open>\<open>parse\<close> is \<open>cJSON_Parse\<close>; \<open>now_s\<close> the time in seconds, \<open>random\<close> the value of \<open>esp_random\<close>.\<close>

definition process_json_command ::
  "ble_lib \<Rightarrow> 'n nvs_driver \<Rightarrow> (bytes \<Rightarrow> json_object option) \<Rightarrow> u32 \<Rightarrow> u32 \<Rightarrow>
   bytes \<Rightarrow> bytes option \<Rightarrow> ble \<Rightarrow> 'n \<Rightarrow> 'n ble_result" where
  "process_json_command x d parse now_s random json_part hmac_part b n =
     (if \<not> verify_payload_hmac json_part hmac_part
      then Inr (ble_notify_enqueue (ascii ''{\"status\":\"error\",\"reason\":\"hmac_fail\"}'') b, n, [])
      else case parse json_part of
          None \<Rightarrow> Inr (b, n, [])
        | Some root \<Rightarrow>
            (case root ''cmd'' of
               None \<Rightarrow> Inr (b, n, [])
             | Some cmd_item \<Rightarrow>
                 (case js_valuestring cmd_item of
                    None \<Rightarrow> Inr (b, n, [])
                  | Some cmd \<Rightarrow>
                      let seq = (case root ''seq'' of None \<Rightarrow> 0 | Some i \<Rightarrow> js_valueint i)
                      in run_command x d now_s random root cmd seq b n)))"

section \<open>The JSON task\<close>

text \<open>Appending a message to the receive buffer; a message that does not fit empties it (\<open>False\<close>).\<close>

definition rx_append :: "bytes \<Rightarrow> nat \<Rightarrow> bytes \<Rightarrow> fault + bool \<times> bytes \<times> nat" where
  "rx_append buf len msg =
     (if RX_BUF_SIZE - 1 \<le> len + length msg
      then bindE (wr_bytes buf 0 [0]) (\<lambda>buf. Inr (False, buf, 0))
      else bindE (wr_bytes buf len msg) (\<lambda>buf.
           bindE (wr_bytes buf (len + length msg) [0]) (\<lambda>buf. Inr (True, buf, len + length msg))))"

text \<open>The first line of the buffer, split at the first bar, and the buffer with its terminators.\<close>

definition rx_line :: "bytes \<Rightarrow> (nat \<times> bytes \<times> bytes option \<times> bytes) option" where
  "rx_line buf =
     (case strchr buf 10 of
        None \<Rightarrow> None
      | Some nl \<Rightarrow>
          let buf = buf[nl := 0]
          in case strchr buf 124 of
               None \<Rightarrow> Some (nl, cstr buf, None, buf)
             | Some d \<Rightarrow>
                 let buf = buf[d := 0] in Some (nl, cstr buf, Some (cstr (drop (d + 1) buf)), buf))"

definition rx_consume :: "bytes \<Rightarrow> nat \<Rightarrow> nat \<Rightarrow> fault + bytes \<times> nat" where
  "rx_consume buf len processed_len =
     (if processed_len < len
      then bindE (rd_bytes buf processed_len (len - processed_len)) (\<lambda>rest.
           bindE (wr_bytes buf 0 rest) (\<lambda>buf.
           bindE (wr_bytes buf (len - processed_len) [0]) (\<lambda>buf. Inr (buf, len - processed_len))))
      else bindE (wr_bytes buf 0 [0]) (\<lambda>buf. Inr (buf, 0)))"

text \<open>One turn of \<open>json_task\<close>; with an empty queue the task waits.\<close>

definition json_task ::
  "ble_lib \<Rightarrow> 'n nvs_driver \<Rightarrow> (bytes \<Rightarrow> json_object option) \<Rightarrow> u32 \<Rightarrow> u32 \<Rightarrow> ble \<Rightarrow> 'n \<Rightarrow> 'n ble_result" where
  "json_task x d parse now_s random b n =
     (case b_rx_queue b of
        Some (msg # q) \<Rightarrow>
          let b = b\<lparr>b_rx_queue := Some q\<rparr>
          in (case b_rx_buffer b of
                None \<Rightarrow> Inr (b, n, [])
              | Some buf \<Rightarrow>
                  bindE (rx_append buf (b_rx_len b) msg) (\<lambda>(fits, buf, len).
                    let b = b\<lparr>b_rx_buffer := Some buf, b_rx_len := len\<rparr>
                    in if \<not> fits then Inr (b, n, [])
                       else case rx_line buf of
                           None \<Rightarrow> Inr (b, n, [])
                         | Some (nl, json_part, hmac_part, buf) \<Rightarrow>
                             bindE (process_json_command x d parse now_s random json_part hmac_part b n) (\<lambda>(b, n, evs).
                             bindE (rx_consume buf len (nl + 1)) (\<lambda>(buf, len).
                               Inr (b\<lparr>b_rx_buffer := Some buf, b_rx_len := len\<rparr>, n, evs)))))
      | _ \<Rightarrow> Inr (b, n, []))"

section \<open>Watchdog\<close>

text \<open>One turn of the task (which the firmware does not start).\<close>

definition sentinel_watchdog_task :: "ble_lib \<Rightarrow> u32 \<Rightarrow> ble \<Rightarrow> ble" where
  "sentinel_watchdog_task x now_s b =
     (let b = (if prov_session_crc_verify x (b_session b) then b else prov_session_clear x b)
      in if b_prov_events b = Some (True, True) \<and> ps_state (b_session b) \<noteq> PROV_STATE_IDLE \<and>
            ps_state (b_session b) \<noteq> PROV_STATE_REBOOT \<and>
            15 < now_s - ps_last_heartbeat_time (b_session b)
         then ble_notify_enqueue (ascii ''{\"status\":\"session_timeout\"}'') (prov_session_clear x b)
         else b)"

section \<open>Callbacks of the Bluetooth stack\<close>

definition gatt_svr_chr_access :: "bytes option \<Rightarrow> ble \<Rightarrow> ble" where
  "gatt_svr_chr_access written b =
     (case (written, b_rx_queue b) of
        (Some data, Some q) \<Rightarrow>
          if data \<noteq> [] \<and> length q < QUEUE_LEN
          then b\<lparr>b_rx_queue := Some (q @ [take (MAX_CHUNK_SIZE - 1) data])\<rparr> else b
      | _ \<Rightarrow> b)"

definition ble_app_advertise :: "'n nvs_driver \<Rightarrow> 'n \<Rightarrow> event list" where
  "ble_app_advertise d n =
     [BleAdvertise (snprintf 32 (case nvs_config_get_device_id d n 9 of
        Some dev_id \<Rightarrow> if dev_id \<noteq> [] then ascii ''YKP_PROV_'' @ dev_id else ascii ''YKP_PROV_SETUP''
      | None \<Rightarrow> ascii ''YKP_PROV_SETUP''))]"

definition ble_app_on_sync :: "'n nvs_driver \<Rightarrow> 'n \<Rightarrow> event list" where
  "ble_app_on_sync d n = ble_app_advertise d n"

datatype gap_event = GapConnect bool u16 | GapDisconnect | GapSubscribe bool bool | GapOther

fun ble_gap_event :: "ble_lib \<Rightarrow> 'n nvs_driver \<Rightarrow> u32 \<Rightarrow> gap_event \<Rightarrow> ble \<Rightarrow> 'n \<Rightarrow> ble \<times> event list" where
  "ble_gap_event x d now_s (GapConnect ok h) b n =
     (if ok then (b\<lparr>b_conn_handle := Some h,
                    b_prov_events := map_option (\<lambda>(_, nt). (True, nt)) (b_prov_events b)\<rparr>, [])
      else (b, ble_app_advertise d n))"
| "ble_gap_event x d now_s GapDisconnect b n =
     (prov_session_clear x (b\<lparr>b_conn_handle := None,
        b_prov_events := map_option (\<lambda>_. (False, False)) (b_prov_events b)\<rparr>), ble_app_advertise d n)"
| "ble_gap_event x d now_s (GapSubscribe is_tx cur_notify) b n =
     (if is_tx \<and> cur_notify
      then let b = b\<lparr>b_prov_events := map_option (\<lambda>(c, _). (c, True)) (b_prov_events b)\<rparr>;
               b = on_session x (\<lambda>s. s\<lparr>ps_last_heartbeat_time := now_s, ps_state := PROV_STATE_SCAN\<rparr>) b
        in (ble_notify_enqueue
              (snprintf 128 (ascii ''{\"status\":\"ble_ready\",\"session_id\":\"'' @ dec (unat (ps_session_id (b_session b))) @
                 ascii ''\",\"mtu\":512}'')) b, [SpawnTask ''wifi_scan''])
      else (b, []))"
| "ble_gap_event x d now_s GapOther b n = (b, [])"

section \<open>Start and stop\<close>

text \<open>
  The outcomes of the allocations, and the contents of fresh heap blocks. A resource that
  already exists is kept.
\<close>

record ble_alloc =
  al_cert :: "bytes option"
  al_rx :: "bytes option"
  al_rx_queue :: bool
  al_notify_queue :: bool
  al_session_mutex :: bool
  al_cert_mutex :: bool
  al_events :: bool
  al_nimble :: bool
  al_random :: u32
  al_prk :: bytes

definition ble_release :: "ble \<Rightarrow> ble" where
  "ble_release b =
     b\<lparr>b_cert_buffer := None, b_rx_buffer := None, b_rx_queue := None, b_notify_queue := None,
       b_session_mutex := False, b_cert_mutex := False, b_prov_events := None\<rparr>"

definition or_else :: "'a option \<Rightarrow> 'a option \<Rightarrow> 'a option" where
  "or_else a c = (case a of None \<Rightarrow> c | Some v \<Rightarrow> Some v)"

definition create_sync :: "ble_alloc \<Rightarrow> ble \<Rightarrow> ble" where
  "create_sync al b =
     b\<lparr>b_rx_queue := or_else (b_rx_queue b) (if al_rx_queue al then Some [] else None),
       b_notify_queue := or_else (b_notify_queue b) (if al_notify_queue al then Some [] else None),
       b_session_mutex := b_session_mutex b \<or> al_session_mutex al,
       b_cert_mutex := b_cert_mutex b \<or> al_cert_mutex al,
       b_prov_events := or_else (b_prov_events b) (if al_events al then Some (False, False) else None)\<rparr>"

definition sync_missing :: "ble \<Rightarrow> bool" where
  "sync_missing b \<longleftrightarrow> b_rx_queue b = None \<or> b_notify_queue b = None \<or> \<not> b_session_mutex b \<or>
     \<not> b_cert_mutex b \<or> b_prov_events b = None"

definition open_session :: "ble_lib \<Rightarrow> ble_alloc \<Rightarrow> ble \<Rightarrow> ble" where
  "open_session x al b =
     on_session x (\<lambda>s. s\<lparr>ps_session_id := al_random al,
         ps_hmac_key := derive_hmac_key x (al_prk al) (al_random al) (ps_hmac_key s),
         ps_state := PROV_STATE_IDLE\<rparr>)
       (prov_session_clear x b)"

text \<open>From the creation of the queues on.\<close>

definition start_stack :: "ble_lib \<Rightarrow> ble_alloc \<Rightarrow> ble \<Rightarrow> bool \<times> ble" where
  "start_stack x al b =
     (let b = create_sync al b
      in if sync_missing b then (False, ble_release b)
         else let b = open_session x al b
           in if \<not> al_nimble al then (False, ble_release b)
              else (True, b\<lparr>b_active := True, b_tasks := True\<rparr>))"

definition ykp_ble_provision_start :: "ble_lib \<Rightarrow> ble_alloc \<Rightarrow> ble \<Rightarrow> bool \<times> ble" where
  "ykp_ble_provision_start x al b =
     (if b_active b then (True, b)
      else
        let b = b\<lparr>b_cert_buffer := or_else (b_cert_buffer b) (al_cert al)\<rparr>
        in if b_cert_buffer b = None then (False, b)
           else let b = b\<lparr>b_rx_buffer := or_else (b_rx_buffer b) (al_rx al)\<rparr>
             in if b_rx_buffer b = None then (False, b\<lparr>b_cert_buffer := None\<rparr>)
                else start_stack x al b)"

definition ykp_ble_provision_stop :: "bool \<Rightarrow> ble \<Rightarrow> bool \<times> ble" where
  "ykp_ble_provision_stop nimble_stopped b =
     (if \<not> b_active b then (True, b)
      else if \<not> nimble_stopped then (False, b)
      else (True, ble_release (b\<lparr>b_active := False, b_conn_handle := None, b_tasks := False\<rparr>)))"

definition ykp_ble_is_active :: "ble \<Rightarrow> bool" where
  "ykp_ble_is_active b = b_active b"

definition ykp_ble_is_connected :: "ble \<Rightarrow> bool" where
  "ykp_ble_is_connected b \<longleftrightarrow> b_active b \<and> b_conn_handle b \<noteq> None"

definition ykp_ble_provision_is_success :: "ble \<Rightarrow> bool" where
  "ykp_ble_provision_is_success b = ps_commit_started (b_session b)"

end
