(* ===== verification/Ble_Safety.thy ===== *)
theory Ble_Safety
  imports Ble
begin

text \<open>
  The invariant of the provisioning code (\<open>ble_ok\<close>): every array has its size and every string in the
  session its terminator, the queues and accumulators are within their bounds, the
  certificate length is the length of the certificate, and the checksum of the session is
  valid unless a commit has begun. Every section of every task keeps it, in whatever order they
  interleave (\<open>ble_machine\<close>), and none of them reads or writes outside an array. The one fault left
  is a null pointer: a JSON item that is not a string where the code expects one.
\<close>

definition session_ok :: "prov_session_t \<Rightarrow> bool" where
  "session_ok s \<longleftrightarrow>
     field_ok 33 (ps_udp_nonce s) \<and> field_ok 32 (ps_ssl_result s) \<and>
     length (ps_temp_ssid s) = 64 \<and> ps_temp_ssid s ! 63 = 0 \<and>
     length (ps_temp_psk s) = 64 \<and> ps_temp_psk s ! 63 = 0 \<and>
     length (ps_temp_host s) = 128 \<and> ps_temp_host s ! 127 = 0 \<and>
     ps_sentinel_start s = SENTINEL_VALUE \<and> ps_sentinel_end s = SENTINEL_VALUE"

definition sealed :: "ble_lib \<Rightarrow> prov_session_t \<Rightarrow> bool" where
  "sealed x s \<longleftrightarrow> ps_crc s = calculate_session_crc x s \<or> ps_commit_started s"

definition queues_ok :: "ble \<Rightarrow> bool" where
  "queues_ok b \<longleftrightarrow>
     (\<forall>q. b_rx_queue b = Some q \<longrightarrow> length q \<le> QUEUE_LEN \<and> (\<forall>m \<in> set q. length m < MAX_CHUNK_SIZE)) \<and>
     (\<forall>q. b_notify_queue b = Some q \<longrightarrow> length q \<le> QUEUE_LEN \<and> (\<forall>m \<in> set q. length m < NOTIFY_MSG_SIZE))"

definition buffers_ok :: "ble \<Rightarrow> bool" where
  "buffers_ok b \<longleftrightarrow>
     (\<forall>buf. b_cert_buffer b = Some buf \<longrightarrow> field_ok CERT_BUF_SIZE buf \<and> length (cstr buf) = b_cert_len b) \<and>
     (\<forall>buf. b_rx_buffer b = Some buf \<longrightarrow> length buf = RX_BUF_SIZE) \<and>
     b_rx_len b < RX_BUF_SIZE - 1 \<and>
     (b_rx_queue b \<noteq> None \<longrightarrow> b_cert_buffer b \<noteq> None \<and> b_rx_buffer b \<noteq> None)"

definition ble_ok :: "ble_lib \<Rightarrow> ble \<Rightarrow> bool" where
  "ble_ok x b \<longleftrightarrow> session_ok (b_session b) \<and> sealed x (b_session b) \<and> queues_ok b \<and> buffers_ok b"

section \<open>The checksum\<close>

lemma update_crc_sel [simp]:
  "session_ok (prov_session_update_crc x s) = session_ok s"
  "sealed x (prov_session_update_crc x s)"
  "session_image (s\<lparr>ps_crc := c\<rparr>) = session_image s"
  "session_image (s\<lparr>ps_last_heartbeat_time := t\<rparr>) = session_image s"
  by (simp_all add: session_ok_def sealed_def prov_session_update_crc_def calculate_session_crc_def session_image_def)

lemma crc_verify_sealed:
  "session_ok s \<Longrightarrow> sealed x s \<Longrightarrow> \<not> ps_commit_started s \<Longrightarrow> prov_session_crc_verify x s"
  by (simp add: session_ok_def sealed_def prov_session_crc_verify_def)

lemma update_crc_fields [simp]:
  "ps_udp_nonce (prov_session_update_crc x s) = ps_udp_nonce s"
  "ps_ssl_result (prov_session_update_crc x s) = ps_ssl_result s"
  "ps_session_id (prov_session_update_crc x s) = ps_session_id s"
  "ps_state (prov_session_update_crc x s) = ps_state s"
  "ps_stages_complete (prov_session_update_crc x s) = ps_stages_complete s"
  by (simp_all add: prov_session_update_crc_def)

lemma session_fields:
  assumes "session_ok s"
  shows "field_ok 33 (ps_udp_nonce s)" "field_ok 32 (ps_ssl_result s)"
    "field_ok 64 (ps_temp_ssid s)" "field_ok 64 (ps_temp_psk s)" "field_ok 128 (ps_temp_host s)"
  using assms by (auto simp: session_ok_def intro: last_zero_field)

lemma rd_session [simp]:
  assumes "session_ok s"
  shows "rd_cstr (ps_udp_nonce s) = Inr (cstr (ps_udp_nonce s))"
    "rd_cstr (ps_ssl_result s) = Inr (cstr (ps_ssl_result s))"
    "rd_cstr (ps_temp_ssid s) = Inr (cstr (ps_temp_ssid s))"
    "rd_cstr (ps_temp_psk s) = Inr (cstr (ps_temp_psk s))"
    "rd_cstr (ps_temp_host s) = Inr (cstr (ps_temp_host s))"
  using session_fields [OF assms] rd_field by blast+

text \<open>Changes that do not touch the arrays.\<close>

lemma session_ok_simps [simp]:
  "session_ok (s\<lparr>ps_state := a\<rparr>) = session_ok s"
  "session_ok (s\<lparr>ps_stages_complete := c\<rparr>) = session_ok s"
  "session_ok (s\<lparr>ps_last_heartbeat_time := t\<rparr>) = session_ok s"
  "session_ok (s\<lparr>ps_session_id := i\<rparr>) = session_ok s"
  "session_ok (s\<lparr>ps_hmac_key := k\<rparr>) = session_ok s"
  "session_ok (s\<lparr>ps_udp_result := u\<rparr>) = session_ok s"
  "session_ok (s\<lparr>ps_commit_started := u\<rparr>) = session_ok s"
  by (simp_all add: session_ok_def)

section \<open>Building blocks\<close>

lemma enqueue_sel [simp]:
  "b_session (ble_notify_enqueue m b) = b_session b"
  "b_rx_queue (ble_notify_enqueue m b) = b_rx_queue b"
  "b_cert_buffer (ble_notify_enqueue m b) = b_cert_buffer b"
  "b_cert_len (ble_notify_enqueue m b) = b_cert_len b"
  "b_rx_buffer (ble_notify_enqueue m b) = b_rx_buffer b"
  "b_rx_len (ble_notify_enqueue m b) = b_rx_len b"
  "b_prov_events (ble_notify_enqueue m b) = b_prov_events b"
  "b_scan_ack (ble_notify_enqueue m b) = b_scan_ack b"
  by (simp_all add: ble_notify_enqueue_def split: option.splits)

lemma enqueue_buffers [simp]: "buffers_ok (ble_notify_enqueue m b) = buffers_ok b"
  by (simp add: buffers_ok_def)

lemma enqueue_queues [simp]: "queues_ok b \<Longrightarrow> queues_ok (ble_notify_enqueue m b)"
  by (auto simp: queues_ok_def ble_notify_enqueue_def ble_sizes snprintf_def split: option.splits)

lemma enqueue_ok [simp]: "ble_ok x b \<Longrightarrow> ble_ok x (ble_notify_enqueue m b)"
  by (auto simp: ble_ok_def)

lemma on_session_sel [simp]:
  "b_session (on_session x f b) = prov_session_update_crc x (f (b_session b))"
  "b_rx_queue (on_session x f b) = b_rx_queue b"
  "b_cert_buffer (on_session x f b) = b_cert_buffer b"
  "b_cert_len (on_session x f b) = b_cert_len b"
  "queues_ok (on_session x f b) = queues_ok b"
  "buffers_ok (on_session x f b) = buffers_ok b"
  by (simp_all add: on_session_def queues_ok_def buffers_ok_def)

lemma on_session_ok [simp]:
  "ble_ok x b \<Longrightarrow> session_ok (f (b_session b)) \<Longrightarrow> ble_ok x (on_session x f b)"
  by (simp add: ble_ok_def)

lemma set_session_ok:
  "ble_ok x b \<Longrightarrow> session_ok s \<Longrightarrow> sealed x s \<Longrightarrow> ble_ok x (b\<lparr>b_session := s\<rparr>)"
  by (simp add: ble_ok_def queues_ok_def buffers_ok_def)

lemma ble_ok_session: "ble_ok x b \<Longrightarrow> session_ok (b_session b)"
  by (simp add: ble_ok_def)

lemma field_cert_zero [simp]: "field_ok CERT_BUF_SIZE (replicate CERT_BUF_SIZE 0)" "cstr (replicate n 0) = []"
  by (simp_all add: CERT_BUF_SIZE_def cstr_def takeWhile_eq_Nil_iff)

lemma clear_ok:
  assumes "queues_ok b" "b_rx_len b < RX_BUF_SIZE - 1"
    and "\<forall>buf. b_rx_buffer b = Some buf \<longrightarrow> length buf = RX_BUF_SIZE"
    and "b_rx_queue b \<noteq> None \<longrightarrow> b_cert_buffer b \<noteq> None \<and> b_rx_buffer b \<noteq> None"
  shows "ble_ok x (prov_session_clear x b)"
proof -
  have "session_ok (b_session (prov_session_clear x b))"
    by (simp add: prov_session_clear_def) (simp add: session_ok_def prov_session_zero_def field_ok_def)
  moreover have "sealed x (b_session (prov_session_clear x b))" by (simp add: prov_session_clear_def)
  moreover have "queues_ok (prov_session_clear x b)" "buffers_ok (prov_session_clear x b)"
    using assms by (auto simp: prov_session_clear_def queues_ok_def buffers_ok_def)
  ultimately show ?thesis by (simp add: ble_ok_def)
qed

lemma clear_keeps_ok: "ble_ok x b \<Longrightarrow> ble_ok x (prov_session_clear x b)"
  by (rule clear_ok) (auto simp: ble_ok_def buffers_ok_def)

section \<open>The tasks\<close>

lemma notify_task_ok: "ble_ok x b \<Longrightarrow> ble_ok x (fst (ble_notify_task mb b))"
  by (auto simp: ble_notify_task_def ble_ok_def queues_ok_def buffers_ok_def split: option.splits list.splits)

lemma scan_ack_ok [simp]: "ble_ok x (b\<lparr>b_scan_ack := a\<rparr>) = ble_ok x b"
  by (simp add: ble_ok_def queues_ok_def buffers_ok_def)

lemma wifi_connect_enter_ok:
  assumes "ble_ok x b"
  shows "\<exists>b'. wifi_connect_enter x b =
      Inr (cstr (ps_temp_ssid (b_session b)), cstr (ps_temp_psk (b_session b)), b') \<and> ble_ok x b'"
  using assms ble_ok_session [OF assms] by (simp add: wifi_connect_enter_def Let_def)

lemma wifi_connect_done_ok: "ble_ok x b \<Longrightarrow> ble_ok x (wifi_connect_done x c ip rssi b)"
  using ble_ok_session [of x b] by (simp add: wifi_connect_done_def)

lemma scan_publish_ok: "ble_ok x b \<Longrightarrow> ble_ok x (wifi_scan_publish buf b)"
  by (simp add: wifi_scan_publish_def)

lemma scan_finish_ok: "ble_ok x b \<Longrightarrow> ble_ok x (wifi_scan_finish x b)"
  using ble_ok_session [of x b] by (simp add: wifi_scan_finish_def)

lemma validation_enter_ok:
  assumes "ble_ok x b"
  shows "\<exists>v b'. validation_enter x b = Inr (v, b') \<and> ble_ok x b'"
  using assms ble_ok_session [OF assms] by (simp add: validation_enter_def Let_def)

lemma validation_ssl_ok: "ble_ok x b \<Longrightarrow> ble_ok x (snd (snd (validation_ssl ca fb b)))"
  by (auto simp: validation_ssl_def Let_def)

lemma verdict_short: "length (ssl_verdict ca fb) < 32"
  by (simp add: ssl_verdict_def)

lemma validation_ssl_done_ok:
  assumes "ble_ok x b"
  shows "\<exists>b'. validation_ssl_done x ca fb b = Inr (ca \<or> fb, b') \<and> ble_ok x b'"
proof -
  obtain f where f: "strcpy_to (ps_ssl_result (b_session b)) (ssl_verdict ca fb) = Inr f" "field_ok 32 f"
    using strcpy_field [OF session_fields(2) [OF ble_ok_session [OF assms]] verdict_short] by blast
  let ?b = "on_session x (\<lambda>s. s\<lparr>ps_stages_complete := ps_stages_complete s OR 2, ps_ssl_result := f\<rparr>) b"
  have "session_ok ((b_session b)\<lparr>ps_stages_complete := w, ps_ssl_result := f\<rparr>)" for w
    using ble_ok_session [OF assms] f(2) by (simp add: session_ok_def)
  then have "ble_ok x ?b" "session_ok (b_session ?b)" using assms by simp_all
  then show ?thesis using f(1) by (simp add: validation_ssl_done_def Let_def)
qed

lemma validation_udp_enter_ok:
  assumes "ble_ok x b"
  shows "\<exists>b'. validation_udp_enter x b = Inr b' \<and> ble_ok x b'"
  using assms ble_ok_session [OF assms] by (simp add: validation_udp_enter_def Let_def)

lemma validation_udp_done_ok:
  assumes "ble_ok x b"
  shows "\<exists>go b'. validation_udp_done x rx b = Inr (go, b') \<and> ble_ok x b'"
  using assms ble_ok_session [OF assms] by (simp add: validation_udp_done_def Let_def) blast

lemma validation_finish_ok:
  assumes "ble_ok x b"
  shows "\<exists>b'. validation_finish x rssi ip port b = Inr b' \<and> ble_ok x b'"
  using assms ble_ok_session [OF assms] by (simp add: validation_finish_def Let_def)

lemma watchdog_ok: "ble_ok x b \<Longrightarrow> ble_ok x (sentinel_watchdog_task x now b)"
  using clear_keeps_ok by (auto simp: sentinel_watchdog_task_def Let_def)

section \<open>Callbacks\<close>

lemma gatt_access_ok: "ble_ok x b \<Longrightarrow> ble_ok x (gatt_svr_chr_access w b)"
  by (auto simp: gatt_svr_chr_access_def ble_ok_def queues_ok_def buffers_ok_def ble_sizes split: option.splits)

lemma events_ok [simp]:
  "ble_ok x (b\<lparr>b_prov_events := e\<rparr>) = ble_ok x b"
  "ble_ok x (b\<lparr>b_conn_handle := h\<rparr>) = ble_ok x b"
  "ble_ok x (b\<lparr>b_conn_handle := h, b_prov_events := e\<rparr>) = ble_ok x b"
  by (simp_all add: ble_ok_def queues_ok_def buffers_ok_def)

lemma gap_event_ok:
  assumes "ble_ok x b"
  shows "ble_ok x (fst (ble_gap_event x d now ev b n))"
proof (cases ev)
  case (GapSubscribe t c)
  have "ble_ok x (on_session x (\<lambda>s. s\<lparr>ps_last_heartbeat_time := now, ps_state := PROV_STATE_SCAN\<rparr>)
      (b\<lparr>b_prov_events := e\<rparr>))" for e
    using assms ble_ok_session [OF assms] by (intro on_session_ok) simp_all
  then show ?thesis using assms GapSubscribe by (auto simp: Let_def)
qed (use assms clear_keeps_ok in auto)

section \<open>Commands\<close>

text \<open>A string item is a C string.\<close>

definition object_ok :: "json_object \<Rightarrow> bool" where
  "object_ok root \<longleftrightarrow> (\<forall>k i s. root k = Some i \<longrightarrow> js_valuestring i = Some s \<longrightarrow> c_string s)"

definition ok_or_null :: "(ble \<Rightarrow> bool) \<Rightarrow> fault + ble \<Rightarrow> bool" where
  "ok_or_null P r \<longleftrightarrow> (case r of Inl e \<Rightarrow> e = NullDeref | Inr b \<Rightarrow> P b)"

lemma item_string_cases: "item_string i = Inl NullDeref \<or> (\<exists>s. item_string i = Inr s)"
  by (simp add: item_string_def split: option.splits)

lemma store_wifi_ok:
  assumes "session_ok s"
  shows "store_wifi i j s = Inl NullDeref \<or> (\<exists>s'. store_wifi i j s = Inr s' \<and> session_ok s')"
proof -
  have f: "\<exists>f. strncpy_to (ps_temp_ssid s) 63 v = Inr f \<and> length f = 64 \<and> f ! 63 = 0"
    and g: "\<exists>f. strncpy_to (ps_temp_psk s) 63 v = Inr f \<and> length f = 64 \<and> f ! 63 = 0" for v
    using assms strncpy_field_ok [of "ps_temp_ssid s" 64 v] strncpy_field_ok [of "ps_temp_psk s" 64 v]
    by (auto simp: session_ok_def)
  show ?thesis
  proof (cases "item_string i = Inl NullDeref \<or> item_string j = Inl NullDeref")
    case True
    then show ?thesis
    proof (cases "item_string i = Inl NullDeref")
      case False
      then obtain v where "item_string i = Inr v" using item_string_cases by metis
      then show ?thesis using True f [of v] by (auto simp: store_wifi_def)
    qed (simp add: store_wifi_def)
  next
    case False
    then obtain v w where "item_string i = Inr v" "item_string j = Inr w"
      using item_string_cases by metis
    then show ?thesis using f [of v] g [of w] assms by (auto simp: store_wifi_def session_ok_def)
  qed
qed

lemma store_server_ok:
  assumes "session_ok s"
  shows "store_server r h p u s = Inl NullDeref \<or> (\<exists>s'. store_server r h p u s = Inr s' \<and> session_ok s')"
proof (cases "item_string h = Inl NullDeref")
  case False
  then obtain v where v: "item_string h = Inr v" using item_string_cases by metis
  have "\<exists>f. strncpy_to (ps_temp_host s) 127 v = Inr f \<and> length f = 128 \<and> f ! 127 = 0"
    using assms strncpy_field_ok [of "ps_temp_host s" 128 v] by (auto simp: session_ok_def)
  moreover have "field_ok 33 (snprintf_to (ps_udp_nonce s) t)" for t
    using assms by (intro snprintf_field) (simp_all add: session_ok_def field_ok_def)
  ultimately show ?thesis using v assms by (auto simp: store_server_def session_ok_def)
qed (simp add: store_server_def)

lemma creds_ok_ok:
  assumes "ble_ok x b"
  shows "\<exists>b'. creds_ok seq b = Inr b' \<and> ble_ok x b'"
  using assms ble_ok_session [OF assms] by (simp add: creds_ok_def)

lemma send_wifi_ok:
  assumes "ble_ok x b"
  shows "cmd_send_wifi x root seq b = Inl NullDeref \<or>
    (\<exists>b' evs. cmd_send_wifi x root seq b = Inr (b', evs) \<and> ble_ok x b')"
proof (cases "root ''ssid'' = None \<or> root ''psk'' = None")
  case True
  then show ?thesis using assms by (auto simp: cmd_send_wifi_def split: option.splits)
next
  case False
  then obtain i j where ij: "root ''ssid'' = Some i" "root ''psk'' = Some j" by auto
  from store_wifi_ok [OF ble_ok_session [OF assms], of i j] show ?thesis
    using assms ij by (auto simp: cmd_send_wifi_def set_session_ok)
qed

lemma store_server_creds_ok:
  assumes "ble_ok x b" "session_ok s"
  shows "bindE (store_server r h p u s) (\<lambda>s. creds_ok seq (b\<lparr>b_session := prov_session_update_crc x s\<rparr>)) = Inl NullDeref \<or>
    (\<exists>b'. bindE (store_server r h p u s) (\<lambda>s. creds_ok seq (b\<lparr>b_session := prov_session_update_crc x s\<rparr>)) = Inr b' \<and>
      ble_ok x b')"
proof -
  have "\<exists>b'. creds_ok seq (b\<lparr>b_session := prov_session_update_crc x s'\<rparr>) = Inr b' \<and> ble_ok x b'"
    if "session_ok s'" for s'
    using assms(1) that by (intro creds_ok_ok set_session_ok) simp_all
  with store_server_ok [OF assms(2), of r h p u] show ?thesis by auto
qed

lemma send_server_ok:
  assumes "ble_ok x b"
  shows "cmd_send_server x r root seq b = Inl NullDeref \<or>
    (\<exists>b'. cmd_send_server x r root seq b = Inr b' \<and> ble_ok x b')"
  using assms store_server_creds_ok [OF assms ble_ok_session [OF assms]]
  by (simp add: cmd_send_server_def split: option.splits)

lemma send_creds_ok:
  assumes "ble_ok x b"
  shows "cmd_send_creds x r root seq b = Inl NullDeref \<or>
    (\<exists>b'. cmd_send_creds x r root seq b = Inr b' \<and> ble_ok x b')"
proof (cases "root ''ssid'' = None \<or> root ''psk'' = None \<or> root ''host'' = None \<or> root ''port'' = None")
  case True
  then show ?thesis using assms by (auto simp: cmd_send_creds_def split: option.splits)
next
  case False
  then obtain i j h p where "root ''ssid'' = Some i" "root ''psk'' = Some j" "root ''host'' = Some h"
    "root ''port'' = Some p" by auto
  then have eq: "cmd_send_creds x r root seq b = bindE (store_wifi i j (b_session b)) (\<lambda>s.
      bindE (store_server r h p (root ''udp_port'') s) (\<lambda>s.
        creds_ok seq (b\<lparr>b_session := prov_session_update_crc x s\<rparr>)))"
    by (simp add: cmd_send_creds_def)
  from store_wifi_ok [OF ble_ok_session [OF assms], of i j]
  consider "store_wifi i j (b_session b) = Inl NullDeref"
    | s where "store_wifi i j (b_session b) = Inr s" "session_ok s" by blast
  then show ?thesis
    by cases (simp_all add: eq store_server_creds_ok [OF assms])
qed

lemma buffers_append:
  assumes "ble_ok x b" "b_cert_buffer b = Some buf" "b_cert_len b + length d < CERT_BUF_SIZE - 1" "c_string d"
  shows "\<exists>f. strcat_to buf d = Inr f \<and> ble_ok x (b\<lparr>b_cert_buffer := Some f, b_cert_len := b_cert_len b + length d\<rparr>)"
proof -
  have "field_ok CERT_BUF_SIZE buf" "length (cstr buf) = b_cert_len b"
    using assms(1,2) by (auto simp: ble_ok_def buffers_ok_def)
  then obtain f where "strcat_to buf d = Inr f" "field_ok CERT_BUF_SIZE f" "cstr f = cstr buf @ d"
    using strcat_field [of CERT_BUF_SIZE buf d] assms(3,4) by (auto simp: CERT_BUF_SIZE_def)
  then show ?thesis using assms(1) \<open>length (cstr buf) = _\<close>
    by (auto simp: ble_ok_def buffers_ok_def queues_ok_def)
qed

lemma cert_restart_ok: "ble_ok x b \<Longrightarrow> ble_ok x (cert_restart c b)"
  by (auto simp: cert_restart_def ble_ok_def buffers_ok_def queues_ok_def)

lemma cert_append_ok:
  assumes "ble_ok x b" "c_string d"
  shows "\<exists>b'. cert_append c d seq b = Inr b' \<and> ble_ok x b'"
  using assms(1) buffers_append [OF assms(1) _ _ assms(2)]
  by (fastforce simp: cert_append_def split: option.splits)

lemma set_cert_ok:
  assumes "ble_ok x b" "object_ok root"
  shows "\<exists>b'. cmd_set_cert root seq b = Inr b' \<and> ble_ok x b'"
proof (cases "\<exists>c i d. root ''chunk'' = Some c \<and> root ''data'' = Some i \<and> js_valuestring i = Some d")
  case True
  then obtain c i d where r: "root ''chunk'' = Some c" "root ''data'' = Some i" "js_valuestring i = Some d" by blast
  moreover have "c_string d" using assms(2) r(2,3) unfolding object_ok_def by blast
  ultimately show ?thesis using cert_append_ok [OF cert_restart_ok [OF assms(1)]] by (simp add: cmd_set_cert_def)
qed (use assms(1) in \<open>auto simp: cmd_set_cert_def split: option.splits\<close>)

lemma confirm_ok:
  assumes "ble_ok x b" "b_rx_queue b \<noteq> None"
  shows "\<exists>b' n' evs. cmd_confirm_provision d seq b n = Inr (b', n', evs) \<and> ble_ok x b'"
proof -
  let ?s = "(b_session b)\<lparr>ps_state := PROV_STATE_NVS_COMMIT, ps_commit_started := True\<rparr>"
  have s: "session_ok ?s" using ble_ok_session [OF assms(1)] by simp
  have "sealed x ?s" by (simp add: sealed_def)
  then have b: "ble_ok x (b\<lparr>b_session := ?s\<rparr>)" using assms(1) s by (simp add: set_session_ok)
  obtain buf where "b_cert_buffer b = Some buf" "field_ok CERT_BUF_SIZE buf"
    using assms by (auto simp: ble_ok_def buffers_ok_def)
  then have c: "\<exists>n'. commit_cert d r (b\<lparr>b_session := ?s\<rparr>) n = Inr n'" for r n
    by (simp add: commit_cert_def)
  from c [of "cstr (ps_ssl_result ?s)"] obtain n' where "commit_cert d (cstr (ps_ssl_result ?s))
      (b\<lparr>b_session := ?s\<rparr>) (commit_settings d (cstr (ps_temp_ssid ?s)) (cstr (ps_temp_psk ?s))
        (cstr (ps_temp_host ?s)) (ps_temp_port ?s) n) = Inr n'" by blast
  then show ?thesis
    using b rd_session [OF s] by (simp add: cmd_confirm_provision_def Let_def)
qed


definition result_ok :: "ble_lib \<Rightarrow> 'n ble_result \<Rightarrow> bool" where
  "result_ok x r \<longleftrightarrow> (case r of Inl e \<Rightarrow> e = NullDeref | Inr (b, n, evs) \<Rightarrow> ble_ok x b)"

lemma result_ok_simps [simp]:
  "result_ok x (Inr (b, n, evs)) = ble_ok x b"
  "result_ok x (Inl e) = (e = NullDeref)"
  by (simp_all add: result_ok_def)

lemma with_nvs_ok:
  "m = Inl NullDeref \<or> (\<exists>b'. m = Inr b' \<and> ble_ok x b') \<Longrightarrow> result_ok x (with_nvs n m)"
  by (auto simp: with_nvs_def)

lemma ping_ok: "ble_ok x b \<Longrightarrow> ble_ok x (cmd_ping now b)"
  unfolding cmd_ping_def
  by (intro enqueue_ok set_session_ok) (simp_all add: ble_ok_def sealed_def calculate_session_crc_def)

lemma result_if:
  "result_ok x r \<Longrightarrow> result_ok x r' \<Longrightarrow> result_ok x (if c then r else r')"
  by simp

lemma run_command_ok:
  assumes "ble_ok x b" "object_ok root" "b_rx_queue b \<noteq> None"
  shows "result_ok x (run_command x d now rnd root cmd seq b n)"
proof -
  have w: "result_ok x (bindE (cmd_send_wifi x root seq b) (\<lambda>(b, evs). Inr (b, n, evs)))"
    using send_wifi_ok [OF assms(1), of root seq] by auto
  have c: "result_ok x (cmd_confirm_provision d seq b n)"
    using confirm_ok [OF assms(1,3)] by (metis result_ok_simps(1))
  note cmds = w c with_nvs_ok [OF send_server_ok [OF assms(1)]] with_nvs_ok [OF send_creds_ok [OF assms(1)]]
    with_nvs_ok [OF disjI2 [OF set_cert_ok [OF assms(1,2)]]]
  show ?thesis
    unfolding run_command_def
    by (intro result_if cmds; simp add: assms(1) ping_ok cmd_query_state_def cmd_scan_ack_def)
qed

definition parse_ok :: "(bytes \<Rightarrow> json_object option) \<Rightarrow> bool" where
  "parse_ok parse \<longleftrightarrow> (\<forall>t root. parse t = Some root \<longrightarrow> object_ok root)"

lemma process_ok:
  assumes "ble_ok x b" "parse_ok parse" "b_rx_queue b \<noteq> None"
  shows "result_ok x (process_json_command x d parse now rnd json hmac b n)"
  using assms run_command_ok [OF assms(1) _ assms(3), where d = d and n = n]
  by (auto simp: process_json_command_def verify_payload_hmac_def parse_ok_def Let_def split: option.splits)

section \<open>The receive buffer\<close>

lemma rx_append_ok:
  assumes "length buf = RX_BUF_SIZE" "len < RX_BUF_SIZE - 1"
  shows "\<exists>fits buf' len'. rx_append buf len msg = Inr (fits, buf', len') \<and> length buf' = RX_BUF_SIZE \<and>
    len' < RX_BUF_SIZE - 1 \<and> (fits \<longrightarrow> len' = len + length msg \<and> buf' ! len' = 0)"
  using assms by (auto simp: rx_append_def RX_BUF_SIZE_def write_at_single)

lemma strchr_bound:
  assumes "strchr buf c = Some i"
  shows "i < length (cstr buf)"
proof -
  have "c \<in> set (cstr buf)" "i = length (takeWhile (\<lambda>b. b \<noteq> c) (cstr buf))"
    using assms by (auto simp: strchr_def Let_def split: if_splits)
  then show ?thesis
    by (metis (mono_tags, lifting) length_takeWhile_le nat_less_le takeWhile_eq_all_conv takeWhile_eq_take take_all)
qed

lemma length_cstr_le: "length (cstr buf) \<le> length buf"
  by (simp add: cstr_def length_takeWhile_le)

lemma cstr_stops: "i < length buf \<Longrightarrow> buf ! i = 0 \<Longrightarrow> length (cstr buf) \<le> i"
  unfolding cstr_def by (metis (mono_tags, lifting) linorder_not_le nth_mem set_takeWhileD takeWhile_nth)

lemma rx_line_ok:
  assumes "rx_line buf = Some (nl, json, hmac, buf')" "len < length buf" "buf ! len = 0"
  shows "nl < len" "length buf' = length buf"
proof -
  have "strchr buf 10 = Some nl" "length buf' = length buf"
    using assms(1) by (auto simp: rx_line_def Let_def split: option.splits)
  then show "nl < len" "length buf' = length buf"
    using strchr_bound cstr_stops [OF assms(2,3)] by (auto intro: less_le_trans)
qed

lemma rx_consume_ok:
  assumes "length buf = RX_BUF_SIZE" "len < RX_BUF_SIZE - 1"
  shows "\<exists>buf' len'. rx_consume buf len k = Inr (buf', len') \<and> length buf' = RX_BUF_SIZE \<and> len' < RX_BUF_SIZE - 1"
  using assms by (auto simp: rx_consume_def RX_BUF_SIZE_def)

lemma set_rx_ok:
  "ble_ok x b \<Longrightarrow> length buf = RX_BUF_SIZE \<Longrightarrow> len < RX_BUF_SIZE - 1 \<Longrightarrow>
   ble_ok x (b\<lparr>b_rx_buffer := Some buf, b_rx_len := len\<rparr>)"
  by (auto simp: ble_ok_def buffers_ok_def queues_ok_def)

lemma pop_rx_ok:
  "ble_ok x b \<Longrightarrow> b_rx_queue b = Some (m # q) \<Longrightarrow> ble_ok x (b\<lparr>b_rx_queue := Some q\<rparr>)"
  by (auto simp: ble_ok_def buffers_ok_def queues_ok_def)

lemma process_consume_ok:
  assumes "result_ok x r" "length buf = RX_BUF_SIZE" "len < RX_BUF_SIZE - 1"
  shows "result_ok x (bindE r (\<lambda>(b, n, evs). bindE (rx_consume buf len k) (\<lambda>(buf, len).
    Inr (b\<lparr>b_rx_buffer := Some buf, b_rx_len := len\<rparr>, n, evs))))"
proof (cases r)
  case (Inr v)
  obtain b n evs where "v = (b, n, evs)" by (cases v) auto
  with Inr assms(1) rx_consume_ok [OF assms(2,3), of k] show ?thesis by (auto simp: set_rx_ok)
qed (use assms(1) in simp)

lemma json_task_ok:
  assumes "ble_ok x b" "parse_ok parse"
  shows "result_ok x (json_task x d parse now rnd b n)"
proof (cases "\<exists>m q buf. b_rx_queue b = Some (m # q) \<and> b_rx_buffer b = Some buf")
  case True
  then obtain m q buf where q: "b_rx_queue b = Some (m # q)" "b_rx_buffer b = Some buf" by blast
  let ?b = "b\<lparr>b_rx_queue := Some q\<rparr>"
  have b: "ble_ok x ?b" using assms(1) q(1) by (rule pop_rx_ok)
  have l: "length buf = RX_BUF_SIZE" "b_rx_len b < RX_BUF_SIZE - 1"
    using assms(1) q(2) by (auto simp: ble_ok_def buffers_ok_def)
  from rx_append_ok [OF l, of m] obtain fits buf1 len1 where a: "rx_append buf (b_rx_len b) m = Inr (fits, buf1, len1)"
    "length buf1 = RX_BUF_SIZE" "len1 < RX_BUF_SIZE - 1" "fits \<Longrightarrow> buf1 ! len1 = 0" by blast
  let ?b1 = "?b\<lparr>b_rx_buffer := Some buf1, b_rx_len := len1\<rparr>"
  have b1: "ble_ok x ?b1" using b a(2,3) by (rule set_rx_ok)
  show ?thesis
  proof (cases "fits \<and> rx_line buf1 \<noteq> None")
    case True
    then obtain nl json hmac buf2 where r: "rx_line buf1 = Some (nl, json, hmac, buf2)" by auto
    have "length buf2 = RX_BUF_SIZE" using rx_line_ok(2) [OF r, of len1] True a by (simp add: RX_BUF_SIZE_def)
    then show ?thesis
      using True a q r process_consume_ok [OF process_ok [OF b1 assms(2), where d = d and n = n] _ a(3)]
      by (simp add: json_task_def)
  next
    case False
    then show ?thesis using a q b1 by (cases "rx_line buf1") (auto simp: json_task_def Let_def)
  qed
next
  case False
  then show ?thesis using assms(1) pop_rx_ok [OF assms(1)]
    by (auto simp: json_task_def split: option.splits list.splits)
qed


section \<open>Start and stop\<close>

text \<open>A heap block has the size that was asked for.\<close>

definition alloc_ok :: "ble_alloc \<Rightarrow> bool" where
  "alloc_ok al \<longleftrightarrow>
     (\<forall>c. al_cert al = Some c \<longrightarrow> length c = CERT_BUF_SIZE) \<and>
     (\<forall>c. al_rx al = Some c \<longrightarrow> length c = RX_BUF_SIZE)"

lemma release_ok: "session_ok (b_session b) \<Longrightarrow> sealed x (b_session b) \<Longrightarrow> b_rx_len b < RX_BUF_SIZE - 1 \<Longrightarrow>
  ble_ok x (ble_release b)"
  by (simp add: ble_release_def ble_ok_def queues_ok_def buffers_ok_def)

text \<open>The state of the static variables when the firmware boots.\<close>

definition ble_boot :: ble where
  "ble_boot =
     \<lparr>b_active = False, b_conn_handle = None, b_rx_queue = None, b_notify_queue = None,
      b_session_mutex = False, b_cert_mutex = False, b_prov_events = None, b_cert_buffer = None,
      b_cert_len = 0, b_rx_buffer = None, b_rx_len = 0, b_session = prov_session_zero,
      b_scan_ack = False, b_tasks = False\<rparr>"

text \<open>What the stack needs of a state to start in it; the certificate buffer may hold anything.\<close>

definition startable :: "ble \<Rightarrow> bool" where
  "startable b \<longleftrightarrow> queues_ok b \<and> b_rx_len b < RX_BUF_SIZE - 1 \<and>
     (\<forall>buf. b_rx_buffer b = Some buf \<longrightarrow> length buf = RX_BUF_SIZE)"

lemma or_else_simps [simp]: "or_else None c = c" "or_else (Some v) c = Some v"
  by (simp_all add: or_else_def)

lemma create_sync_sel [simp]:
  "b_cert_buffer (create_sync al b) = b_cert_buffer b" "b_rx_buffer (create_sync al b) = b_rx_buffer b"
  "b_session (create_sync al b) = b_session b" "b_rx_len (create_sync al b) = b_rx_len b"
  by (simp_all add: create_sync_def)

lemma create_sync_startable: "startable b \<Longrightarrow> startable (create_sync al b)"
  by (auto simp: startable_def create_sync_def queues_ok_def or_else_def ble_sizes split: option.splits if_splits)

lemma open_session_ok:
  assumes "startable b" "b_cert_buffer b \<noteq> None" "b_rx_buffer b \<noteq> None"
  shows "ble_ok x (open_session x al b)"
proof -
  have "ble_ok x (prov_session_clear x b)" using assms by (intro clear_ok) (auto simp: startable_def)
  then show ?thesis using ble_ok_session by (simp add: open_session_def)
qed

lemma active_ok [simp]: "ble_ok x (b\<lparr>b_active := a, b_tasks := t\<rparr>) = ble_ok x b"
  by (simp add: ble_ok_def queues_ok_def buffers_ok_def)

text \<open>A start that succeeds leaves a good state; one that fails keeps a good session good.\<close>

lemma start_stack_ok:
  assumes "startable b" "b_cert_buffer b \<noteq> None" "b_rx_buffer b \<noteq> None"
    and "start_stack x al b = (ok, b')" "ok \<or> session_ok (b_session b) \<and> sealed x (b_session b)"
  shows "ble_ok x b'"
proof -
  have n: "ble_ok x (open_session x al (create_sync al b))"
    using assms(1-3) by (intro open_session_ok create_sync_startable) simp_all
  then have "ble_ok x (ble_release (open_session x al (create_sync al b)))"
    by (intro release_ok) (simp_all add: ble_ok_def buffers_ok_def)
  moreover have "ble_ok x (ble_release (create_sync al b))" if "\<not> ok"
    using that assms(1,5) by (intro release_ok) (simp_all add: startable_def)
  ultimately show ?thesis using n assms(4) by (auto simp: start_stack_def Let_def split: if_splits)
qed

lemma ok_startable: "ble_ok x b \<Longrightarrow> startable b"
  by (simp add: ble_ok_def startable_def buffers_ok_def)

lemma buffers_startable:
  "startable b \<Longrightarrow> alloc_ok al \<Longrightarrow>
   startable (b\<lparr>b_cert_buffer := c, b_rx_buffer := or_else (b_rx_buffer b) (al_rx al)\<rparr>)"
  by (auto simp: startable_def alloc_ok_def queues_ok_def or_else_def split: option.splits)

lemma or_else_None: "or_else a c = None \<longleftrightarrow> a = None \<and> c = None"
  by (cases a) simp_all

lemma no_buffer_ok:
  "ble_ok x b \<Longrightarrow> b_cert_buffer b = None \<Longrightarrow> ble_ok x (b\<lparr>b_cert_buffer := None\<rparr>)"
  "ble_ok x b \<Longrightarrow> b_rx_buffer b = None \<Longrightarrow> ble_ok x (b\<lparr>b_rx_buffer := None, b_cert_buffer := None\<rparr>)"
  by (simp_all add: ble_ok_def queues_ok_def buffers_ok_def)

lemma start_ok:
  assumes "startable b" "alloc_ok al" "ykp_ble_provision_start x al b = (ok, b')"
    and "ok \<and> \<not> b_active b \<or> ble_ok x b"
  shows "ble_ok x b'"
proof -
  let ?c = "or_else (b_cert_buffer b) (al_cert al)" and ?r = "or_else (b_rx_buffer b) (al_rx al)"
  let ?b = "b\<lparr>b_cert_buffer := ?c, b_rx_buffer := ?r\<rparr>"
  have st: "startable ?b" using assms(1,2) by (rule buffers_startable)
  consider "b_active b" | "\<not> b_active b" "?c = None" | "\<not> b_active b" "?c \<noteq> None" "?r = None"
    | "\<not> b_active b" "?c \<noteq> None" "?r \<noteq> None" by blast
  then show ?thesis
  proof cases
    case 1
    then show ?thesis using assms(3,4) by (simp add: ykp_ble_provision_start_def)
  next
    case 2
    then show ?thesis using assms(3,4) no_buffer_ok(1) [of x b]
      by (auto simp: ykp_ble_provision_start_def or_else_None)
  next
    case 3
    then show ?thesis using assms(3,4) no_buffer_ok(2) [of x b]
      by (auto simp: ykp_ble_provision_start_def or_else_None)
  next
    case 4
    then have s: "start_stack x al ?b = (ok, b')" using assms(3)
      by (auto simp: ykp_ble_provision_start_def Let_def)
    show ?thesis by (rule start_stack_ok [OF st _ _ s]) (use 4 assms(4) in \<open>auto simp: ble_ok_def\<close>)
  qed
qed

lemma stop_ok:
  assumes "ble_ok x b"
  shows "ble_ok x (snd (ykp_ble_provision_stop ns b))"
proof -
  have "ble_ok x (ble_release (b\<lparr>b_active := False, b_conn_handle := None, b_tasks := False\<rparr>))"
    using assms by (intro release_ok) (simp_all add: ble_ok_def buffers_ok_def)
  then show ?thesis using assms by (simp add: ykp_ble_provision_stop_def)
qed


section \<open>All interleavings\<close>

text \<open>
  One step of the system: a callback, a turn of a task, or a section of one of the short-lived tasks,
  in any order and with any results of the calls they make. The result is a fault or the next
  state.
\<close>

inductive ble_step ::
  "ble_lib \<Rightarrow> 'n nvs_driver \<Rightarrow> (bytes \<Rightarrow> json_object option) \<Rightarrow> ble \<times> 'n \<Rightarrow> fault + ble \<times> 'n \<Rightarrow> bool"
  for x :: ble_lib and d :: "'n nvs_driver" and parse :: "bytes \<Rightarrow> json_object option"
where
  Gatt: "ble_step x d parse (b, n) (Inr (gatt_svr_chr_access w b, n))"
| Gap: "ble_step x d parse (b, n) (Inr (fst (ble_gap_event x d now ev b n), n))"
| Json: "ble_step x d parse (b, n)
           (bindE (json_task x d parse now rnd b n) (\<lambda>(b', n', evs). Inr (b', n')))"
| Notify: "ble_step x d parse (b, n) (Inr (fst (ble_notify_task m b), n))"
| Status: "ble_step x d parse (b, n) (Inr (ble_notify_status msg b, n))"
| Watchdog: "ble_step x d parse (b, n) (Inr (sentinel_watchdog_task x now b, n))"
| Wifi_enter: "ble_step x d parse (b, n) (bindE (wifi_connect_enter x b) (\<lambda>(s, p, b'). Inr (b', n)))"
| Wifi_done: "ble_step x d parse (b, n) (Inr (wifi_connect_done x c ip rssi b, n))"
| Scan_publish: "ble_step x d parse (b, n) (Inr (wifi_scan_publish buf b, n))"
| Scan_finish: "ble_step x d parse (b, n) (Inr (wifi_scan_finish x b, n))"
| Val_enter: "ble_step x d parse (b, n) (bindE (validation_enter x b) (\<lambda>(v, b'). Inr (b', n)))"
| Val_ssl: "ble_step x d parse (b, n) (Inr (snd (snd (validation_ssl ca fb b)), n))"
| Val_ssl_done: "ble_step x d parse (b, n) (bindE (validation_ssl_done x ca fb b) (\<lambda>(go, b'). Inr (b', n)))"
| Val_udp_enter: "ble_step x d parse (b, n) (bindE (validation_udp_enter x b) (\<lambda>b'. Inr (b', n)))"
| Val_udp_done: "ble_step x d parse (b, n) (bindE (validation_udp_done x rx b) (\<lambda>(go, b'). Inr (b', n)))"
| Val_finish: "ble_step x d parse (b, n) (bindE (validation_finish x rssi ip port b) (\<lambda>b'. Inr (b', n)))"
| Start: "alloc_ok al \<Longrightarrow> ble_step x d parse (b, n) (Inr (snd (ykp_ble_provision_start x al b), n))"
| Stop: "ble_step x d parse (b, n) (Inr (snd (ykp_ble_provision_stop ns b), n))"

text \<open>What can happen after a first successful start.\<close>

inductive ble_reach ::
  "ble_lib \<Rightarrow> 'n nvs_driver \<Rightarrow> (bytes \<Rightarrow> json_object option) \<Rightarrow> fault + ble \<times> 'n \<Rightarrow> bool"
  for x :: ble_lib and d :: "'n nvs_driver" and parse :: "bytes \<Rightarrow> json_object option"
where
  Boot: "alloc_ok al \<Longrightarrow> ykp_ble_provision_start x al ble_boot = (True, b) \<Longrightarrow> ble_reach x d parse (Inr (b, n))"
| Step: "ble_reach x d parse (Inr s) \<Longrightarrow> ble_step x d parse s r \<Longrightarrow> ble_reach x d parse r"

definition outcome_ok :: "ble_lib \<Rightarrow> fault + ble \<times> 'n \<Rightarrow> bool" where
  "outcome_ok x r \<longleftrightarrow> (case r of Inl e \<Rightarrow> e = NullDeref | Inr (b, n) \<Rightarrow> ble_ok x b)"

lemma outcome_ok_simps [simp]:
  "outcome_ok x (Inr (b, n)) = ble_ok x b" "outcome_ok x (Inl e) = (e = NullDeref)"
  by (simp_all add: outcome_ok_def)

lemma result_outcome:
  "result_ok x r \<Longrightarrow> outcome_ok x (bindE r (\<lambda>(b', n', evs). Inr (b', n')))"
  by (cases r) auto

lemma status_ok: "ble_ok x b \<Longrightarrow> ble_ok x (ble_notify_status m b)"
  by (simp add: ble_notify_status_def)

lemma ble_step_ok:
  assumes "ble_step x d parse s r" "ble_ok x (fst s)" "parse_ok parse"
  shows "outcome_ok x r"
  using assms(1,2)
proof cases
  case (Json b n now rnd)
  then show ?thesis using assms(2,3) by (simp add: result_outcome json_task_ok)
next
  case (Start al b n)
  then show ?thesis using start_ok [OF ok_startable, of x b al x] assms(2)
    by (cases "ykp_ble_provision_start x al b") auto
next
  case (Wifi_enter b n)
  then show ?thesis using wifi_connect_enter_ok [of x b] assms(2) by auto
next
  case (Val_enter b n)
  then show ?thesis using validation_enter_ok [of x b] assms(2) by auto
next
  case (Val_ssl_done b n ca fb)
  then show ?thesis using validation_ssl_done_ok [of x b ca fb] assms(2) by auto
next
  case (Val_udp_enter b n)
  then show ?thesis using validation_udp_enter_ok [of x b] assms(2) by auto
next
  case (Val_udp_done b n rx)
  then show ?thesis using validation_udp_done_ok [of x b rx] assms(2) by auto
next
  case (Val_finish b n rssi ip port)
  then show ?thesis using validation_finish_ok [of x b rssi ip port] assms(2) by auto
qed (simp_all add: gatt_access_ok gap_event_ok notify_task_ok status_ok watchdog_ok wifi_connect_done_ok
    scan_publish_ok scan_finish_ok validation_ssl_ok stop_ok)

lemma boot_startable: "startable ble_boot"
  by (simp add: startable_def ble_boot_def queues_ok_def RX_BUF_SIZE_def)

lemma ble_reach_ok:
  assumes "ble_reach x d parse r" "parse_ok parse"
  shows "outcome_ok x r"
  using assms(1)
proof induction
  case (Boot al b n)
  then have "ble_ok x b" by (intro start_ok [OF boot_startable]) (auto simp: ble_boot_def)
  then show ?case by simp
next
  case (Step s r)
  then show ?case using ble_step_ok [OF _ _ assms(2)] by (cases s) auto
qed

section \<open>Properties\<close>

text \<open>
  C23. However callbacks, task turns and task sections interleave after the first start, and
  whatever a phone writes, no array of the provisioning code is read or written out of bounds,
  and every state has its queues and accumulators within their limits, its strings
  terminated, and a session whose checksum verifies unless a commit has begun. The only fault
  is the null pointer of a JSON value that is not a string.
\<close>

theorem ble_memory_safe:
  assumes "ble_reach x d parse r" "parse_ok parse"
  shows "case r of
      Inl e \<Rightarrow> e = NullDeref
    | Inr (b, n) \<Rightarrow>
        ble_ok x b \<and> (ps_commit_started (b_session b) \<or> prov_session_crc_verify x (b_session b))"
proof -
  have "outcome_ok x r" using assms by (rule ble_reach_ok)
  moreover have "ps_commit_started s \<or> prov_session_crc_verify x s" if "session_ok s" "sealed x s" for s
    using crc_verify_sealed [OF that] by blast
  ultimately show ?thesis by (auto simp: outcome_ok_def ble_ok_def split: sum.splits)
qed

definition nvs0 :: "(string \<Rightarrow> bytes option) \<times> (string \<Rightarrow> u32 option)" where
  "nvs0 = (Map.empty, Map.empty)"

definition lib0 :: ble_lib where
  "lib0 = \<lparr>lib_crc32_le = (\<lambda>c d. c + of_nat (length d)), lib_sha256 = Some (\<lambda>d. replicate 32 5)\<rparr>"

definition alloc0 :: ble_alloc where
  "alloc0 = \<lparr>al_cert = Some (replicate 8192 7), al_rx = Some (replicate 4096 7), al_rx_queue = True,
     al_notify_queue = True, al_session_mutex = True, al_cert_mutex = True, al_events = True,
     al_nimble = True, al_random = 9, al_prk = []\<rparr>"

theorem ble_memory_safe_witness:
  "case Inr (gatt_svr_chr_access (Some [123, 125, 10]) (snd (ykp_ble_provision_start lib0 alloc0 ble_boot)), nvs0)
   of Inl e \<Rightarrow> e = NullDeref
    | Inr (b, n) \<Rightarrow>
        ble_ok lib0 b \<and> (ps_commit_started (b_session b) \<or> prov_session_crc_verify lib0 (b_session b))"
proof (rule ble_memory_safe [where d = map_driver and parse = "\<lambda>t. None"])
  have "fst (ykp_ble_provision_start lib0 alloc0 ble_boot)"
    by (simp add: ykp_ble_provision_start_def start_stack_def create_sync_def sync_missing_def ble_boot_def alloc0_def Let_def)
  then have "ykp_ble_provision_start lib0 alloc0 ble_boot = (True, snd (ykp_ble_provision_start lib0 alloc0 ble_boot))"
    by (simp add: prod_eq_iff)
  then have "ble_reach lib0 map_driver (\<lambda>t. None) (Inr (snd (ykp_ble_provision_start lib0 alloc0 ble_boot), nvs0))"
    by (rule ble_reach.Boot [rotated]) (simp add: alloc_ok_def alloc0_def ble_sizes)
  then show "ble_reach lib0 map_driver (\<lambda>t. None) (Inr (gatt_svr_chr_access (Some [123, 125, 10])
      (snd (ykp_ble_provision_start lib0 alloc0 ble_boot)), nvs0))"
    by (rule ble_reach.Step) (rule ble_step.Gatt)
  show "parse_ok (\<lambda>t. None)" by (simp add: parse_ok_def)
qed

end
