(* ===== verification/Ble_Protocol.thy ===== *)
theory Ble_Protocol
  imports Ble_Safety
begin

text \<open>
  What the provisioning commands do: how the bytes a phone writes become command lines, when the
  validation task reports success, and what a commit stores.
\<close>

section \<open>From writes to lines\<close>

text \<open>The command and the HMAC of a line, split at the first bar.\<close>

definition split_line :: "bytes \<Rightarrow> bytes \<times> bytes option" where
  "split_line l = (takeWhile (\<lambda>c. c \<noteq> 124) l, if 124 \<in> set l then Some (tl (dropWhile (\<lambda>c. c \<noteq> 124) l)) else None)"

definition plain_text :: "bytes \<Rightarrow> bool" where
  "plain_text l \<longleftrightarrow> 0 \<notin> set l \<and> 10 \<notin> set l"

lemma plain_text_c_string: "plain_text l \<Longrightarrow> c_string l"
  by (simp add: plain_text_def c_string_def)

lemma append_text:
  assumes "length buf = RX_BUF_SIZE" "take (length p) buf = p" "length p + length m < RX_BUF_SIZE - 1"
  shows "\<exists>rest. rx_append buf (length p) m = Inr (True, p @ m @ 0 # rest, length p + length m) \<and>
    length (p @ m @ 0 # rest) = RX_BUF_SIZE"
proof -
  let ?buf = "p @ m @ drop (length p + length m) buf"
  have w: "wr_bytes buf (length p) m = Inr ?buf"
    using assms by (simp add: write_at_def)
  have l: "length ?buf = RX_BUF_SIZE" using assms by simp
  have "wr_bytes ?buf (length p + length m) [0] =
      Inr (p @ m @ 0 # drop (length p + length m + 1) buf)"
    using assms l by (simp add: write_at_def)
  then show ?thesis using w assms(3) assms(1) by (auto simp: rx_append_def)
qed

lemma strchr_absent: "plain_text l \<Longrightarrow> strchr (l @ 0 # rest) 10 = None"
  by (simp add: strchr_def plain_text_c_string Let_def) (simp add: plain_text_def)

lemma takeWhile_first:
  "c \<notin> set l \<Longrightarrow> takeWhile (\<lambda>b. b \<noteq> c) (l @ c # r) = l"
  "c \<notin> set l \<Longrightarrow> dropWhile (\<lambda>b. b \<noteq> c) (l @ c # r) = c # r"
  by (induction l) auto

lemma strchr_first:
  assumes "c_string (l @ c # r)" "c \<notin> set l"
  shows "strchr (l @ c # r @ 0 # rest) c = Some (length l)"
proof -
  have "cstr (l @ c # r @ 0 # rest) = l @ c # r" using cstr_append [OF assms(1), of rest] by simp
  then show ?thesis using assms(2) by (simp add: strchr_def takeWhile_first)
qed

lemma split_at_bar:
  assumes "124 \<in> set (l :: bytes)"
  shows "\<exists>a r. l = a @ 124 # r \<and> 124 \<notin> set a \<and> split_line l = (a, Some r)"
proof -
  obtain a r where l: "l = a @ 124 # r" "124 \<notin> set a" using split_list_first [OF assms] by blast
  then have "split_line l = (a, Some r)" by (simp add: split_line_def takeWhile_first)
  then show ?thesis using l by blast
qed

lemma line_of_text:
  assumes "plain_text l" "length (l @ 10 # 0 # rest) = n"
  shows "\<exists>buf'. rx_line (l @ 10 # 0 # rest) =
    Some (length l, fst (split_line l), snd (split_line l), buf') \<and> length buf' = n"
proof -
  let ?b = "l @ 0 # 0 # rest"
  have c: "c_string l" using assms(1) by (rule plain_text_c_string)
  have "strchr (l @ 10 # 0 # rest) 10 = Some (length l)"
    using strchr_first [of l 10 "[]" rest] assms(1) c by (simp add: plain_text_def c_string_def)
  moreover have "(l @ 10 # 0 # rest)[length l := 0] = ?b" by simp
  ultimately have eq: "rx_line (l @ 10 # 0 # rest) =
      (case strchr ?b 124 of
         None \<Rightarrow> Some (length l, cstr ?b, None, ?b)
       | Some d \<Rightarrow> let buf = ?b[d := 0] in Some (length l, cstr buf, Some (cstr (drop (d + 1) buf)), buf))"
    by (simp add: rx_line_def Let_def)
  show ?thesis
  proof (cases "124 \<in> set l")
    case False
    then have "strchr ?b 124 = None" using c by (simp add: strchr_def)
    moreover have "split_line l = (l, None)" using False by (auto simp: split_line_def intro: takeWhile_eq_all_conv [THEN iffD2])
    ultimately show ?thesis using c assms(2) by (simp add: eq)
  next
    case True
    then obtain a r where l: "l = a @ 124 # r" "124 \<notin> set a" "split_line l = (a, Some r)"
      using split_at_bar by blast
    have car: "c_string a" "c_string r" using c l(1) by (simp_all add: c_string_def)
    have "strchr ?b 124 = Some (length a)" using strchr_first [of a 124 r "0 # rest"] c l(1,2) by simp
    moreover have "?b[length a := 0] = a @ 0 # r @ 0 # 0 # rest" using l(1) by simp
    moreover have "drop (length a + 1) (a @ 0 # r @ 0 # 0 # rest) = r @ 0 # 0 # rest" by simp
    ultimately have "rx_line (l @ 10 # 0 # rest) = Some (length l, a, Some r, a @ 0 # r @ 0 # 0 # rest)"
      using car by (simp add: eq)
    then show ?thesis using l assms(2) by simp
  qed
qed


text \<open>So many turns of the JSON task.\<close>

primrec json_turns ::
  "ble_lib \<Rightarrow> 'n nvs_driver \<Rightarrow> (bytes \<Rightarrow> json_object option) \<Rightarrow> u32 \<Rightarrow> u32 \<Rightarrow> nat \<Rightarrow> ble \<Rightarrow> 'n \<Rightarrow> 'n ble_result" where
  "json_turns x d parse now rnd 0 b n = Inr (b, n, [])"
| "json_turns x d parse now rnd (Suc k) b n =
     bindE (json_task x d parse now rnd b n) (\<lambda>(b, n, evs).
     bindE (json_turns x d parse now rnd k b n) (\<lambda>(b, n, evs'). Inr (b, n, evs @ evs')))"

text \<open>The end of a turn that has run a command and used up the buffer.\<close>

definition rx_emptied :: "bytes \<Rightarrow> ble \<times> 'n \<times> event list \<Rightarrow> 'n ble_result" where
  "rx_emptied buf r = Inr ((fst r)\<lparr>b_rx_buffer := Some buf, b_rx_len := 0\<rparr>, snd r)"

text \<open>The buffer holds the text of an unfinished line.\<close>

definition holding :: "ble \<Rightarrow> bytes \<Rightarrow> bool" where
  "holding b p \<longleftrightarrow> b_rx_len b = length p \<and>
     (\<exists>buf. b_rx_buffer b = Some buf \<and> length buf = RX_BUF_SIZE \<and> take (length p) buf = p)"

lemma json_task_partial:
  assumes "b_rx_queue b = Some (m # q)" "holding b p" "plain_text (p @ m)" "length (p @ m) < RX_BUF_SIZE - 1"
  shows "\<exists>buf. json_task x d parse now rnd b n =
      Inr (b\<lparr>b_rx_queue := Some q, b_rx_buffer := Some buf, b_rx_len := length (p @ m)\<rparr>, n, []) \<and>
    length buf = RX_BUF_SIZE \<and> take (length (p @ m)) buf = p @ m"
proof -
  obtain buf where h: "b_rx_buffer b = Some buf" "length buf = RX_BUF_SIZE" "take (length p) buf = p"
    "b_rx_len b = length p" using assms(2) by (auto simp: holding_def)
  obtain rest where r: "rx_append buf (length p) m = Inr (True, p @ m @ 0 # rest, length p + length m)"
    "length (p @ m @ 0 # rest) = RX_BUF_SIZE" using append_text [OF h(2,3), of m] assms(4) by auto
  have "rx_line (p @ m @ 0 # rest) = None"
    using strchr_absent [OF assms(3), of rest] by (simp add: rx_line_def)
  then show ?thesis using assms(1) h r by (auto simp: json_task_def)
qed

lemma json_task_line:
  assumes "b_rx_queue b = Some ((m @ [10]) # q)" "holding b p" "plain_text (p @ m)"
    and "length (p @ m) + 1 < RX_BUF_SIZE - 1"
  shows "\<exists>buf buf'. json_task x d parse now rnd b n =
      bindE (process_json_command x d parse now rnd (fst (split_line (p @ m))) (snd (split_line (p @ m)))
        (b\<lparr>b_rx_queue := Some q, b_rx_buffer := Some buf, b_rx_len := length (p @ m) + 1\<rparr>) n) (rx_emptied buf')"
proof -
  obtain buf where h: "b_rx_buffer b = Some buf" "length buf = RX_BUF_SIZE" "take (length p) buf = p"
    "b_rx_len b = length p" using assms(2) by (auto simp: holding_def)
  obtain rest where r: "rx_append buf (length p) (m @ [10]) =
      Inr (True, p @ m @ 10 # 0 # rest, length p + length m + 1)" "length (p @ m @ 10 # 0 # rest) = RX_BUF_SIZE"
    using append_text [OF h(2,3), of "m @ [10]"] assms(4) by auto
  obtain buf1 where l: "rx_line (p @ m @ 10 # 0 # rest) = Some (length (p @ m), fst (split_line (p @ m)),
      snd (split_line (p @ m)), buf1)" "length buf1 = RX_BUF_SIZE"
    using line_of_text [OF assms(3), of rest] r(2) by auto
  have c: "rx_consume buf1 (length p + length m + 1) (length (p @ m) + 1) = Inr (write_at buf1 0 [0], 0)"
    using l(2) by (simp add: rx_consume_def RX_BUF_SIZE_def)
  have e: "(\<lambda>(b, n, evs). Inr (b\<lparr>b_rx_buffer := Some f, b_rx_len := 0\<rparr>, n, evs)) = rx_emptied f" for f
    by (auto simp: rx_emptied_def)
  show ?thesis using assms(1) h r l c by (auto simp: json_task_def e)
qed

lemma json_turns_line:
  assumes "b_rx_queue b = Some (ms @ [m @ [10]])" "holding b p" "plain_text (p @ concat ms @ m)"
    and "length (p @ concat ms @ m) + 1 < RX_BUF_SIZE - 1"
  shows "\<exists>buf buf'. json_turns x d parse now rnd (Suc (length ms)) b n =
      bindE (process_json_command x d parse now rnd
          (fst (split_line (p @ concat ms @ m))) (snd (split_line (p @ concat ms @ m)))
        (b\<lparr>b_rx_queue := Some [], b_rx_buffer := Some buf, b_rx_len := length (p @ concat ms @ m) + 1\<rparr>) n)
      (rx_emptied buf')"
  using assms
proof (induction ms arbitrary: b p)
  case Nil
  have id: "bindE r (\<lambda>(b, n, evs). bindE (Inr (b, n, [])) (\<lambda>(b, n, evs'). Inr (b, n, evs @ evs'))) = r"
    for r :: "'a ble_result" by (cases r) auto
  obtain buf buf' where "json_task x d parse now rnd b n =
      bindE (process_json_command x d parse now rnd (fst (split_line (p @ m))) (snd (split_line (p @ m)))
        (b\<lparr>b_rx_queue := Some [], b_rx_buffer := Some buf, b_rx_len := length (p @ m) + 1\<rparr>) n) (rx_emptied buf')"
    using json_task_line [of b m "[]" p] Nil by fastforce
  then show ?case by (simp only: list.size(3) json_turns.simps id concat.simps append_Nil) blast
next
  case (Cons k ms)
  have pk: "plain_text (p @ k)" "length (p @ k) < RX_BUF_SIZE - 1" using Cons.prems(3,4) by (auto simp: plain_text_def)
  obtain buf where k: "json_task x d parse now rnd b n =
      Inr (b\<lparr>b_rx_queue := Some (ms @ [m @ [10]]), b_rx_buffer := Some buf, b_rx_len := length (p @ k)\<rparr>, n, [])"
    "length buf = RX_BUF_SIZE" "take (length (p @ k)) buf = p @ k"
    using json_task_partial [OF _ Cons.prems(2) pk] Cons.prems(1) by fastforce
  let ?b = "b\<lparr>b_rx_queue := Some (ms @ [m @ [10]]), b_rx_buffer := Some buf, b_rx_len := length (p @ k)\<rparr>"
  have "holding ?b (p @ k)" using k(2,3) by (simp add: holding_def)
  from Cons.IH [OF _ this] Cons.prems(3,4) obtain buf1 buf2 where
    "json_turns x d parse now rnd (Suc (length ms)) ?b n =
      bindE (process_json_command x d parse now rnd
          (fst (split_line (p @ k @ concat ms @ m))) (snd (split_line (p @ k @ concat ms @ m)))
        (b\<lparr>b_rx_queue := Some [], b_rx_buffer := Some buf1, b_rx_len := length (p @ k @ concat ms @ m) + 1\<rparr>) n)
      (rx_emptied buf2)"
    by auto
  moreover have id: "bindE r (\<lambda>(b, n, evs'). Inr (b, n, [] @ evs')) = r" for r :: "'a ble_result"
    by (cases r) auto
  ultimately show ?case using k(1) by (simp only: json_turns.simps(2) [of x d parse now rnd "Suc (length ms)"] list.size(4) add_Suc_right add_0_right
        bindE_simps(1) prod.case id concat.simps append_assoc) auto
qed

section \<open>The verdict of the validation task\<close>

lemma enqueue_state [simp]:
  "ps_state (b_session (ble_notify_enqueue m b)) = ps_state (b_session b)"
  by simp

definition probe_answered :: "bytes option \<Rightarrow> bytes \<Rightarrow> bool" where
  "probe_answered rx nonce \<longleftrightarrow>
     (case rx of None \<Rightarrow> False
      | Some d \<Rightarrow> d \<noteq> [] \<and> cstr (take 63 d @ [0]) = snprintf 64 (ascii ''YKP_PROBE:'' @ nonce))"

lemma udp_done_state:
  assumes "ble_ok x b"
  shows "\<exists>b'. validation_udp_done x rx b =
      Inr (probe_answered rx (cstr (ps_udp_nonce (b_session b))), b') \<and> ble_ok x b' \<and>
    (ps_state (b_session b') = (if probe_answered rx (cstr (ps_udp_nonce (b_session b)))
       then ps_state (b_session b) else PROV_STATE_FAULT))"
  using assms ble_ok_session [OF assms]
  by (simp add: validation_udp_done_def Let_def probe_answered_def)

lemma udp_enter_state:
  assumes "ble_ok x b"
  shows "\<exists>b'. validation_udp_enter x b = Inr b' \<and> ble_ok x b' \<and>
    ps_udp_nonce (b_session b') = ps_udp_nonce (b_session b) \<and> ps_state (b_session b') = PROV_STATE_UDP_PROBE"
  using assms ble_ok_session [OF assms] by (simp add: validation_udp_enter_def Let_def)

lemma ssl_done_state:
  assumes "ble_ok x b"
  shows "\<exists>b'. validation_ssl_done x ca fb b = Inr (ca \<or> fb, b') \<and> ble_ok x b' \<and>
    ps_udp_nonce (b_session b') = ps_udp_nonce (b_session b) \<and>
    (\<not> ca \<longrightarrow> \<not> fb \<longrightarrow> ps_state (b_session b') = PROV_STATE_FAULT)"
proof -
  obtain b' where b': "validation_ssl_done x ca fb b = Inr (ca \<or> fb, b')" "ble_ok x b'"
    using validation_ssl_done_ok [OF assms] by blast
  then have "ps_udp_nonce (b_session b') = ps_udp_nonce (b_session b) \<and>
      (\<not> ca \<longrightarrow> \<not> fb \<longrightarrow> ps_state (b_session b') = PROV_STATE_FAULT)"
    by (auto simp: validation_ssl_done_def Let_def bindE_Inr_iff split: if_splits)
  then show ?thesis using b' by blast
qed

lemma finish_state:
  assumes "ble_ok x b"
  shows "\<exists>b'. validation_finish x rssi ip port b = Inr b' \<and> ps_state (b_session b') = PROV_STATE_REPORT_WAIT"
  using assms ble_ok_session [OF assms] by (simp add: validation_finish_def Let_def)

text \<open>From the verdict on the certificate on.\<close>

lemma after_ssl_state:
  assumes "ble_ok x b" and
    r: "r = bindE (validation_ssl_done x ca fb b) (\<lambda>(go, b).
         if \<not> go then Inr b
         else bindE (validation_udp_enter x b) (\<lambda>b. bindE (validation_udp_done x rx b) (\<lambda>(go, b).
                if \<not> go then Inr b else validation_finish x rssi ip port b)))"
  shows "\<exists>b'. r = Inr b' \<and> (ps_state (b_session b') = PROV_STATE_REPORT_WAIT \<longleftrightarrow>
    (ca \<or> fb) \<and> probe_answered rx (cstr (ps_udp_nonce (b_session b))))"
proof -
  obtain b1 where b1: "validation_ssl_done x ca fb b = Inr (ca \<or> fb, b1)" "ble_ok x b1"
    "ps_udp_nonce (b_session b1) = ps_udp_nonce (b_session b)"
    "\<not> ca \<longrightarrow> \<not> fb \<longrightarrow> ps_state (b_session b1) = PROV_STATE_FAULT" using ssl_done_state [OF assms(1)] by blast
  obtain b2 where b2: "validation_udp_enter x b1 = Inr b2" "ble_ok x b2"
    "ps_udp_nonce (b_session b2) = ps_udp_nonce (b_session b1)" "ps_state (b_session b2) = PROV_STATE_UDP_PROBE"
    using udp_enter_state [OF b1(2)] by blast
  obtain b3 where b3: "validation_udp_done x rx b2 = Inr (probe_answered rx (cstr (ps_udp_nonce (b_session b2))), b3)"
    "ble_ok x b3" "ps_state (b_session b3) = (if probe_answered rx (cstr (ps_udp_nonce (b_session b2)))
       then ps_state (b_session b2) else PROV_STATE_FAULT)" using udp_done_state [OF b2(2)] by blast
  obtain b4 where b4: "validation_finish x rssi ip port b3 = Inr b4" "ps_state (b_session b4) = PROV_STATE_REPORT_WAIT"
    using finish_state [OF b3(2)] by blast
  show ?thesis using b1 b2 b3 b4 unfolding r by auto
qed

section \<open>Selecting a command\<close>

lemma ascii_inj [simp]: "ascii s = ascii t \<longleftrightarrow> s = t"
proof -
  have "c = e" if "(of_nat (of_char c) :: u8) = of_nat (of_char e)" for c e :: char
  proof -
    have "unat (of_nat (of_char c) :: u8) = unat (of_nat (of_char e) :: u8)" using that by simp
    then have "(of_char c :: nat) = of_char e" by (simp del: unat_of_nat of_nat_of_char)
    then show ?thesis by simp
  qed
  then show ?thesis unfolding ascii_def by (auto dest!: map_injective intro: injI)
qed

lemma run_confirm: "run_command x d now rnd root (ascii ''confirm_provision'') seq b n = cmd_confirm_provision d seq b n"
  by (simp add: run_command_def)

lemma run_send_wifi: "run_command x d now rnd root (ascii ''send_wifi'') seq b n =
    bindE (cmd_send_wifi x root seq b) (\<lambda>(b, evs). Inr (b, n, evs))"
  by (simp add: run_command_def)

lemma commit_cert_cases:
  assumes "b_cert_buffer b = Some buf" "field_ok k buf"
  shows "\<exists>n'. commit_cert d r b n = Inr n' \<and>
    (n' = n \<or> (\<exists>c. n' = snd (nvs_config_set_str d n ''ssl_cert'' c) \<and> r = ascii ''ca_ok''))"
proof (cases "r = ascii ''ca_ok'' \<and> 0 < b_cert_len b")
  case True
  then show ?thesis using assms by (simp add: commit_cert_def) blast
qed (auto simp: commit_cert_def)

section \<open>Properties\<close>

text \<open>
  However a command line of up to 4092 bytes is cut into the writes of the phone, the task runs
  exactly one command once the line feed arrives: the text before the first bar is its JSON, the
  rest its HMAC. The buffer is empty afterwards.
\<close>

lemma ble_line_framing:
  assumes "b_rx_queue b = Some (ms @ [m @ [10]])" "b_rx_len b = 0" "b_rx_buffer b = Some buf0"
    "length buf0 = RX_BUF_SIZE" "plain_text (concat ms @ m)" "length (concat ms @ m) + 1 < RX_BUF_SIZE - 1"
  shows "\<exists>buf buf'. json_turns x d parse now rnd (Suc (length ms)) b n =
      bindE (process_json_command x d parse now rnd (fst (split_line (concat ms @ m))) (snd (split_line (concat ms @ m)))
        (b\<lparr>b_rx_queue := Some [], b_rx_buffer := Some buf, b_rx_len := length (concat ms @ m) + 1\<rparr>) n)
      (\<lambda>r. Inr ((fst r)\<lparr>b_rx_buffer := Some buf', b_rx_len := 0\<rparr>, snd r))"
proof -
  have "holding b []" using assms(2-4) by (simp add: holding_def)
  then show ?thesis
    using json_turns_line [OF assms(1), of "[]" x d parse now rnd n, unfolded rx_emptied_def [abs_def]] assms(5,6)
    by (simp del: json_turns.simps)
qed

lemma ble_line_framing_instance:
  "\<exists>buf buf'. json_turns lib0 map_driver (\<lambda>t. None) 0 0 2
      (ble_boot\<lparr>b_rx_queue := Some [[123], [125, 124, 65, 10]], b_rx_buffer := Some (replicate 4096 0)\<rparr>) nvs0 =
    bindE (process_json_command lib0 map_driver (\<lambda>t. None) 0 0 [123, 125] (Some [65])
      (ble_boot\<lparr>b_rx_queue := Some [], b_rx_buffer := Some buf, b_rx_len := 5\<rparr>) nvs0)
    (\<lambda>r. Inr ((fst r)\<lparr>b_rx_buffer := Some buf', b_rx_len := 0\<rparr>, snd r))"
proof -
  let ?b = "ble_boot\<lparr>b_rx_queue := Some [[123], [125, 124, 65, 10]], b_rx_buffer := Some (replicate 4096 0)\<rparr>"
  have "split_line [123, 125, 124, 65] = ([123, 125], Some [65])" by (simp add: split_line_def)
  moreover have "b_rx_queue ?b = Some ([[123]] @ [[125, 124, 65] @ [10]])" "b_rx_len ?b = 0"
    "b_rx_buffer ?b = Some (replicate 4096 0)" "length (replicate 4096 (0 :: u8)) = RX_BUF_SIZE"
    "plain_text (concat [[123]] @ [125, 124, 65])" "length (concat [[123 :: u8]] @ [125, 124, 65]) + 1 < RX_BUF_SIZE - 1"
    by (simp_all add: ble_boot_def RX_BUF_SIZE_def plain_text_def)
  note ble_line_framing [OF this, of lib0 map_driver "\<lambda>t. None" 0 0 nvs0]
  ultimately show ?thesis by (simp del: json_turns.simps add: eval_nat_numeral)
qed

text \<open>
  C24. The validation task always ends without a fault, and ends in the state that reports success
  exactly if the network is there, the server's certificate was accepted (under the received
  certificate, if there is one, or by the fallback) and the phone answered the UDP probe with
  the nonce of the session.
\<close>

theorem validation_reports_success:
  assumes "ble_ok x b"
  shows "\<exists>b'. validation_task x env b = Inr b' \<and>
    (ps_state (b_session b') = PROV_STATE_REPORT_WAIT \<longleftrightarrow>
      (let s = b_session b; host = cstr (ps_temp_host s); port = ps_temp_port s
       in (ve_wifi_connected env \<or> ve_wifi_connect env (cstr (ps_temp_ssid s)) (cstr (ps_temp_psk s))) \<and>
          (0 < b_cert_len b \<and> ve_validate_ssl env host port (b_cert_buffer b) \<or>
           ve_validate_fallback env host port) \<and>
          probe_answered (ve_probe env (ps_temp_udp_port s)) (cstr (ps_udp_nonce s))))"
proof -
  let ?s = "b_session b"
  let ?v = "(cstr (ps_temp_ssid ?s), cstr (ps_temp_psk ?s), cstr (ps_temp_host ?s), ps_temp_port ?s, ps_temp_udp_port ?s)"
  let ?b0 = "on_session x (\<lambda>s. s\<lparr>ps_state := PROV_STATE_SSL_VALIDATE\<rparr>) b"
  have s: "session_ok ?s" using assms by (rule ble_ok_session)
  have e: "validation_enter x b = Inr (?v, ?b0)" using s by (simp add: validation_enter_def Let_def)
  have b0: "ble_ok x ?b0" "ps_state (b_session ?b0) \<noteq> PROV_STATE_REPORT_WAIT" using assms s by simp_all
  define b1 where "b1 = (if ve_wifi_connected env then ?b0
      else ble_notify_enqueue (ascii ''{\"status\":\"validating\",\"message\":\"Connecting to Wi-Fi...\"}'') ?b0)"
  have b1: "ble_ok x b1" "b_session b1 = b_session ?b0" "b_cert_len b1 = b_cert_len b" "b_cert_buffer b1 = b_cert_buffer b"
    using b0(1) by (simp_all add: b1_def)
  let ?ca = "ve_validate_ssl env (cstr (ps_temp_host ?s)) (ps_temp_port ?s) (b_cert_buffer b)"
  let ?fb = "ve_validate_fallback env (cstr (ps_temp_host ?s)) (ps_temp_port ?s)"
  obtain ca fb b2 where ssl: "validation_ssl ?ca ?fb b1 = (ca, fb, b2)" by (cases "validation_ssl ?ca ?fb b1") auto
  have b2: "ble_ok x b2" "b_session b2 = b_session b1" "ca \<or> fb \<longleftrightarrow> 0 < b_cert_len b \<and> ?ca \<or> ?fb"
    using ssl validation_ssl_ok [OF b1(1), of ?ca ?fb] b1(3)
    by (auto simp: validation_ssl_def Let_def split: if_splits)
  show ?thesis
  proof (cases "ve_wifi_connected env \<or> ve_wifi_connect env (cstr (ps_temp_ssid ?s)) (cstr (ps_temp_psk ?s))")
    case False
    then have "validation_task x env b =
        Inr (ble_notify_enqueue (ascii ''{\"status\":\"wifi_fail\",\"reason\":\"assoc_fail\"}'') b1)"
      by (simp add: validation_task_def e b1_def Let_def)
    then show ?thesis using False b1(2) by simp
  next
    case True
    then have r: "validation_task x env b = bindE (validation_ssl_done x ca fb b2) (\<lambda>(go, b).
         if \<not> go then Inr b
         else bindE (validation_udp_enter x b) (\<lambda>b. bindE (validation_udp_done x (ve_probe env (ps_temp_udp_port ?s)) b) (\<lambda>(go, b).
                if \<not> go then Inr b else validation_finish x (ve_rssi env) (ve_ip env) (ps_temp_udp_port ?s) b)))"
      using ssl b1(4) unfolding validation_task_def e b1_def [symmetric] bindE_simps prod.case Let_def by auto
    have "ps_udp_nonce (b_session b2) = ps_udp_nonce ?s" using b2(2) b1(2) by simp
    with after_ssl_state [OF b2(1) r] b2(3) True show ?thesis by (simp add: Let_def)
  qed
qed


definition validation_env0 :: "bytes \<Rightarrow> validation_env" where
  "validation_env0 probe =
     \<lparr>ve_wifi_connected = True, ve_wifi_connect = (\<lambda>s p. False), ve_validate_ssl = (\<lambda>h p c. False),
      ve_validate_fallback = (\<lambda>h p. True), ve_probe = (\<lambda>p. Some probe), ve_rssi = - 40, ve_ip = ascii ''10.0.0.2''\<rparr>"

lemma started0_ok: "ble_ok lib0 (snd (ykp_ble_provision_start lib0 alloc0 ble_boot))"
proof (rule start_ok [OF boot_startable])
  show "alloc_ok alloc0" by (simp add: alloc_ok_def alloc0_def ble_sizes)
  show "ykp_ble_provision_start lib0 alloc0 ble_boot =
      (fst (ykp_ble_provision_start lib0 alloc0 ble_boot), snd (ykp_ble_provision_start lib0 alloc0 ble_boot))" by simp
  show "fst (ykp_ble_provision_start lib0 alloc0 ble_boot) \<and> \<not> b_active ble_boot \<or> ble_ok lib0 ble_boot"
    by (simp add: ykp_ble_provision_start_def start_stack_def create_sync_def sync_missing_def ble_boot_def alloc0_def Let_def)
qed

theorem validation_reports_success_witness:
  "\<exists>b'. validation_task lib0 (validation_env0 (ascii ''YKP_PROBE:'')) (snd (ykp_ble_provision_start lib0 alloc0 ble_boot)) =
      Inr b' \<and> ps_state (b_session b') = PROV_STATE_REPORT_WAIT"
proof -
  let ?b = "snd (ykp_ble_provision_start lib0 alloc0 ble_boot)"
  have "ps_udp_nonce (b_session ?b) = replicate 33 0"
    by (simp add: ykp_ble_provision_start_def start_stack_def create_sync_def sync_missing_def ble_boot_def alloc0_def
        Let_def open_session_def prov_session_clear_def prov_session_zero_def)
  moreover have "cstr (ascii ''YKP_PROBE:'' @ [0]) = ascii ''YKP_PROBE:''"
    by (rule cstr_append) (simp add: c_string_def ascii_def)
  then have "probe_answered (Some (ascii ''YKP_PROBE:'')) []"
    by (simp add: probe_answered_def snprintf_def) (simp add: ascii_def)
  ultimately show ?thesis
    using validation_reports_success [OF started0_ok, of "validation_env0 (ascii ''YKP_PROBE:'')"]
    by (simp add: validation_env0_def)
qed

text \<open>What the flash holds after a commit: the three settings, and everything else as before.\<close>

lemma confirm_flash:
  assumes "ble_ok x b" "b_rx_queue b \<noteq> None" "nvs_laws d" "nvs_accepts d"
  shows "\<exists>b' n'. run_command x d now rnd root (ascii ''confirm_provision'') seq b n =
      Inr (b', n', [DelayMs 1000, Restart]) \<and>
    (\<forall>k m. k \<noteq> ''control_port'' \<longrightarrow> k \<noteq> ''ssl_cert'' \<or> cstr (ps_ssl_result (b_session b)) \<noteq> ascii ''ca_ok'' \<longrightarrow>
      nvs_config_get_str d n' k m =
      (if k = ''server_url'' then
         if length (cstr (ps_temp_host (b_session b))) < m then Some (cstr (ps_temp_host (b_session b))) else None
       else if k = ''wifi_password'' then
         if length (cstr (ps_temp_psk (b_session b))) < m then Some (cstr (ps_temp_psk (b_session b))) else None
       else if k = ''wifi_ssid'' then
         if length (cstr (ps_temp_ssid (b_session b))) < m then Some (cstr (ps_temp_ssid (b_session b))) else None
       else nvs_config_get_str d n k m))"
proof -
  let ?s = "(b_session b)\<lparr>ps_state := PROV_STATE_NVS_COMMIT, ps_commit_started := True\<rparr>"
  let ?n = "commit_settings d (cstr (ps_temp_ssid ?s)) (cstr (ps_temp_psk ?s)) (cstr (ps_temp_host ?s)) (ps_temp_port ?s) n"
  have s: "session_ok ?s" using ble_ok_session [OF assms(1)] by simp
  obtain buf where "b_cert_buffer (b\<lparr>b_session := ?s\<rparr>) = Some buf" "field_ok CERT_BUF_SIZE buf"
    using assms(1,2) by (auto simp: ble_ok_def buffers_ok_def)
  from commit_cert_cases [OF this, of d "cstr (ps_ssl_result ?s)" ?n] obtain n' where n': "commit_cert d (cstr (ps_ssl_result ?s)) (b\<lparr>b_session := ?s\<rparr>) ?n = Inr n'"
    "n' = ?n \<or> (\<exists>c. n' = snd (nvs_config_set_str d ?n ''ssl_cert'' c) \<and> cstr (ps_ssl_result ?s) = ascii ''ca_ok'')"
    by blast
  then have run: "\<exists>b'. run_command x d now rnd root (ascii ''confirm_provision'') seq b n = Inr (b', n', [DelayMs 1000, Restart])"
    using rd_session [OF s] by (simp add: run_confirm cmd_confirm_provision_def Let_def)
  have get: "nvs_config_get_str d ?n k m =
      (if k = ''server_url'' then if length (cstr (ps_temp_host ?s)) < m then Some (cstr (ps_temp_host ?s)) else None
       else if k = ''wifi_password'' then if length (cstr (ps_temp_psk ?s)) < m then Some (cstr (ps_temp_psk ?s)) else None
       else if k = ''wifi_ssid'' then if length (cstr (ps_temp_ssid ?s)) < m then Some (cstr (ps_temp_ssid ?s)) else None
       else nvs_config_get_str d n k m)" if "k \<noteq> ''control_port''" for k m
    using that by (simp add: commit_settings_def Let_def accepts_get_str_u32 accepts_get_str assms(3,4))
  have keep: "nvs_config_get_str d n' k m = nvs_config_get_str d ?n k m"
    if "k \<noteq> ''ssl_cert'' \<or> cstr (ps_ssl_result ?s) \<noteq> ascii ''ca_ok''" for k m
    using n'(2) that by (auto simp: accepts_get_str assms(3,4))
  from run obtain b' where r: "run_command x d now rnd root (ascii ''confirm_provision'') seq b n = Inr (b', n', [DelayMs 1000, Restart])"
    by blast
  show ?thesis
    by (intro exI [of _ b'] exI [of _ n'] conjI r allI impI) (use keep get in simp)
qed

text \<open>
  C25. A commit needs nothing but the command: in every state in which commands are read, the credentials
  last received are stored, whether or not anything was validated, and the device restarts; when flash
  accepts the writes, the next boot reads them back. The certificate is stored only if it
  verified the server.
\<close>

theorem confirm_provision_stores:
  assumes "ble_ok x b" "b_rx_queue b \<noteq> None" "nvs_laws d" "nvs_accepts d"
  shows "\<exists>b' n'. run_command x d now rnd root (ascii ''confirm_provision'') seq b n =
      Inr (b', n', [DelayMs 1000, Restart]) \<and>
    nvs_config_get_wifi_ssid d n' 64 = Some (cstr (ps_temp_ssid (b_session b))) \<and>
    nvs_config_get_wifi_password d n' 64 = Some (cstr (ps_temp_psk (b_session b))) \<and>
    nvs_config_get_str d n' ''server_url'' 128 = Some (cstr (ps_temp_host (b_session b))) \<and>
    (cstr (ps_ssl_result (b_session b)) \<noteq> ascii ''ca_ok'' \<longrightarrow>
      nvs_config_get_str d n' ''ssl_cert'' m = nvs_config_get_str d n ''ssl_cert'' m)"
proof -
  have s: "session_ok (b_session b)" by (rule ble_ok_session [OF assms(1)])
  have len: "length (cstr (ps_temp_ssid (b_session b))) < 64" "length (cstr (ps_temp_psk (b_session b))) < 64"
    "length (cstr (ps_temp_host (b_session b))) < 128"
    using session_fields [OF s] field_cstr by blast+
  show ?thesis
    using confirm_flash [OF assms, of now rnd root seq n] len
    unfolding nvs_config_get_wifi_ssid_def nvs_config_get_wifi_password_def by auto
qed

theorem confirm_provision_stores_witness:
  "\<exists>b' n'. run_command lib0 map_driver 0 0 Map.empty (ascii ''confirm_provision'') 7
      (snd (ykp_ble_provision_start lib0 alloc0 ble_boot)) nvs0 = Inr (b', n', [DelayMs 1000, Restart]) \<and>
    nvs_config_get_wifi_ssid map_driver n' 64 = Some []"
proof -
  let ?b = "snd (ykp_ble_provision_start lib0 alloc0 ble_boot)"
  have "ps_temp_ssid (b_session ?b) = replicate 64 0" "b_rx_queue ?b \<noteq> None"
    by (simp_all add: ykp_ble_provision_start_def start_stack_def create_sync_def sync_missing_def ble_boot_def alloc0_def
        Let_def open_session_def prov_session_clear_def prov_session_zero_def prov_session_update_crc_def)
  then show ?thesis
    using confirm_provision_stores [OF started0_ok _ map_driver_laws map_driver_accepts, of 0 0 Map.empty 7 nvs0 0] by auto
qed

text \<open>
  An item that is not a string where a string is expected stops the firmware: \<open>send_wifi\<close> with a
  number for the network name passes a null pointer to \<open>strncpy\<close>.
\<close>

lemma send_wifi_null_crash:
  assumes "parse json = Some root" "root ''cmd'' = Some c" "js_valuestring c = Some (ascii ''send_wifi'')"
    and "root ''ssid'' = Some i" "js_valuestring i = None" "root ''psk'' = Some j"
  shows "process_json_command x d parse now rnd json hmac b n = Inl NullDeref"
  using assms by (simp add: process_json_command_def verify_payload_hmac_def Let_def run_send_wifi cmd_send_wifi_def
      store_wifi_def item_string_def)

lemma send_wifi_null_crash_instance:
  "process_json_command lib0 map_driver
     (\<lambda>t. Some [''cmd'' \<mapsto> \<lparr>js_valuestring = Some (ascii ''send_wifi''), js_valueint = 0\<rparr>,
                ''ssid'' \<mapsto> \<lparr>js_valuestring = None, js_valueint = 5\<rparr>,
                ''psk'' \<mapsto> \<lparr>js_valuestring = Some [], js_valueint = 0\<rparr>])
     0 0 [] None (snd (ykp_ble_provision_start lib0 alloc0 ble_boot)) nvs0 = Inl NullDeref"
  by (rule send_wifi_null_crash) (rule refl | simp)+

end
