(* ===== verification/Websocket.thy ===== *)
theory Websocket
  imports Cstring Nvs
begin

text \<open>
  The WebSocket transport and the checks of the server's certificate:
  \<open>main/transport/ykp_websocket.c\<close>. The client library (\<open>esp_websocket_client\<close>), the X.509 parser of mbedTLS,
  the TLS handshake and the sockets are parameters; frames sent are events.

  The certificate a phone stored is read from flash, sanitised (\<open>clean_cert\<close>), checked, and put in front of
  the built-in certificates. The arrays of 2048 and 8192 bytes are never overrun
  (\<open>clean_cert_length\<close>), and the sanitiser is idempotent.
\<close>

section \<open>Connection\<close>

record ws =
  ws_client :: bool
  ws_connected :: bool
  ws_rx_cb :: bool
  ws_conn_cb :: bool
  ws_disc_cb :: bool
  ws_uri :: bytes

definition ws_off :: ws where
  "ws_off = \<lparr>ws_client = False, ws_connected = False, ws_rx_cb = False, ws_conn_cb = False, ws_disc_cb = False,
    ws_uri = []\<rparr>"

datatype ws_event = WS_EVENT_CONNECTED | WS_EVENT_DISCONNECTED | WS_EVENT_DATA u8 bytes | WS_EVENT_ERROR | WS_EVENT_OTHER

datatype ws_callback = CbConnected | CbDisconnected | CbRx bytes u16

text \<open>The new state and the callback made, if any. The length is narrowed to 16 bits by the call.\<close>

fun ws_event_handler :: "ws_event \<Rightarrow> ws \<Rightarrow> ws \<times> ws_callback option" where
  "ws_event_handler WS_EVENT_CONNECTED w = (w\<lparr>ws_connected := True\<rparr>, if ws_conn_cb w then Some CbConnected else None)"
| "ws_event_handler WS_EVENT_DISCONNECTED w =
     (w\<lparr>ws_connected := False\<rparr>, if ws_disc_cb w then Some CbDisconnected else None)"
| "ws_event_handler (WS_EVENT_DATA op_code data) w =
     (w, if op_code = 0x02 \<and> data \<noteq> [] \<and> ws_rx_cb w then Some (CbRx data (of_nat (length data))) else None)"
| "ws_event_handler WS_EVENT_ERROR w = (w, None)"
| "ws_event_handler WS_EVENT_OTHER w = (w, None)"

text \<open>\<open>started\<close>: whether \<open>esp_websocket_client_start\<close> returns \<open>ESP_OK\<close>.\<close>

definition ykp_ws_connect :: "bool \<Rightarrow> ws \<Rightarrow> bool \<times> event list" where
  "ykp_ws_connect started w = (if \<not> ws_client w then (False, []) else (started, [WsStart (ws_uri w)]))"

text \<open>\<open>sent\<close>: what \<open>esp_websocket_client_send_bin\<close> returns, the number of bytes sent or -1.\<close>

definition ykp_ws_send :: "int \<Rightarrow> ws \<Rightarrow> bytes \<Rightarrow> bool \<times> event list" where
  "ykp_ws_send sent w data =
     (if \<not> ws_client w \<or> \<not> ws_connected w then (False, [])
      else (sent = int (length data), [WsSend data]))"

text \<open>\<open>up\<close>: what \<open>esp_websocket_client_is_connected\<close> says of the client.\<close>

definition ykp_ws_is_connected :: "bool \<Rightarrow> ws \<Rightarrow> bool" where
  "ykp_ws_is_connected up w = (ws_connected w \<and> up)"

definition ykp_ws_disconnect :: "ws \<Rightarrow> ws \<times> event list" where
  "ykp_ws_disconnect w =
     (w\<lparr>ws_client := False, ws_connected := False\<rparr>, if ws_client w then [WsStop, WsDestroy] else [])"

definition ykp_ws_register_rx_cb :: "bool \<Rightarrow> ws \<Rightarrow> ws" where
  "ykp_ws_register_rx_cb cb w = w\<lparr>ws_rx_cb := cb\<rparr>"

definition ykp_ws_register_connected_cb :: "bool \<Rightarrow> ws \<Rightarrow> ws" where
  "ykp_ws_register_connected_cb cb w = w\<lparr>ws_conn_cb := cb\<rparr>"

definition ykp_ws_register_disconnected_cb :: "bool \<Rightarrow> ws \<Rightarrow> ws" where
  "ykp_ws_register_disconnected_cb cb w = w\<lparr>ws_disc_cb := cb\<rparr>"

section \<open>Certificates\<close>

text \<open>The lines of the built-in certificates, each ended by a line feed.\<close>

definition FALLBACK_CA_PEM_lines :: "string list" where
  "FALLBACK_CA_PEM_lines =
    [''-----BEGIN CERTIFICATE-----'',
     ''MIICCjCCAZGgAwIBAgIQbkepyIuUtui7OyrYorLBmTAKBggqhkjOPQQDAzBHMQsw'',
     ''CQYDVQQGEwJVUzEiMCAGA1UEChMZR29vZ2xlIFRydXN0IFNlcnZpY2VzIExMQzEU'',
     ''MBIGA1UEAxMLR1RTIFJvb3QgUjQwHhcNMTYwNjIyMDAwMDAwWhcNMzYwNjIyMDAw'',
     ''MDAwWjBHMQswCQYDVQQGEwJVUzEiMCAGA1UEChMZR29vZ2xlIFRydXN0IFNlcnZp'',
     ''Y2VzIExMQzEUMBIGA1UEAxMLR1RTIFJvb3QgUjQwdjAQBgcqhkjOPQIBBgUrgQQA'',
     ''IgNiAATzdHOnaItgrkO4NcWBMHtLSZ37wWHO5t5GvWvVYRg1rkDdc/eJkTBa6zzu'',
     ''hXyiQHY7qca4R9gq55KRanPpsXI5nymfopjTX15YhmUPoYRlBtHci8nHc8iMai/l'',
     ''xKvRHYqjQjBAMA4GA1UdDwEB/wQEAwIBBjAPBgNVHRMBAf8EBTADAQH/MB0GA1Ud'',
     ''DgQWBBSATNbrdP9JNqPV2Py1PsVq8JQdjDAKBggqhkjOPQQDAwNnADBkAjBqUFJ0'',
     ''CMRw3J5QdCHojXohw0+WbhXRIjVhLfoIN+4Zba3bssx9BzT1YBkstTTZbyACMANx'',
     ''sbqjYAuG7ZoIapVon+Kz4ZNkfF6Tpt95LY2F45TPI11xzPKwTdb+mciUqXWi4w=='',
     ''-----END CERTIFICATE-----'',
     ''-----BEGIN CERTIFICATE-----'',
     ''MIIFWjCCA0KgAwIBAgIQbkepxUtHDA3sM9CJuRz04TANBgkqhkiG9w0BAQwFADBH'',
     ''MQswCQYDVQQGEwJVUzEiMCAGA1UEChMZR29vZ2xlIFRydXN0IFNlcnZpY2VzIExM'',
     ''QzEUMBIGA1UEAxMLR1RTIFJvb3QgUjEwHhcNMTYwNjIyMDAwMDAwWhcNMzYwNjIy'',
     ''MDAwMDAwWjBHMQswCQYDVQQGEwJVUzEiMCAGA1UEChMZR29vZ2xlIFRydXN0IFNl'',
     ''cnZpY2VzIExMQzEUMBIGA1UEAxMLR1RTIFJvb3QgUjEwggIiMA0GCSqGSIb3DQEB'',
     ''AQUAA4ICDwAwggIKAoICAQC2EQKLHuOhd5s73L+UPreVp0A8of2C+X0yBoJx9vaM'',
     ''f/vo27xqLpeXo4xL+Sv2sfnOhB2x+cWX3u+58qPpvBKJXqeqUqv4IyfLpLGcY9vX'',
     ''mX7wCl7raKb0xlpHDU0QM+NOsROjyBhsS+z8CZDfnWQpJSMHobTSPS5g4M/SCYe7'',
     ''zUjwTcLCeoiKu7rPWRnWr4+wB7CeMfGCwcDfLqZtbBkOtdh+JhpFAz2weaSUKK0P'',
     ''fyblqAj+lug8aJRT7oM6iCsVlgmy4HqMLnXWnOunVmSPlk9orj2XwoSPwLxAwAtc'',
     ''vfaHszVsrBhQf4TgTM2S0yDpM7xSma8ytSmzJSq0SPly4cpk9+aCEI3oncKKiPo4'',
     ''Zor8Y/kB+Xj9e1x3+naH+uzfsQ55lVe0vSbv1gHR6xYKu44LtcXFilWr06zqkUsp'',
     ''zBmkMiVOKvFlRNACzqrOSbTqn3yDsEB750Orp2yjj32JgfpMpf/VjsPOS+C12LOO'',
     ''Rc92wO1AK/1TD7Cn1TsNsYqiA94xrcx36m97PtbfkSIS5r762DL8EGMUUXLeXdYW'',
     ''k70paDPvOmbsB4om3xPXV2V4J95eSRQAogB/mqghtqmxlbCluQ0WEdrHbEg8QOB+'',
     ''DVrNVjzRlwW5y0vtOUucxD/SVRNuJLDWcfr0wbrM7Rv1/oFB2ACYPTrIrnqYNxgF'',
     ''lQIDAQABo0IwQDAOBgNVHQ8BAf8EBAMCAQYwDwYDVR0TAQH/BAUwAwEB/zAdBgNV'',
     ''HQ4EFgQU5K8rJnEaK0gnhS9SZizv8IkTcT4wDQYJKoZIhvcNAQEMBQADggIBADiW'',
     ''Cu49tJYeX++dnAsznyvgyv3SjgofQXSlfKqE1OXyHuY3UjKcC9FhHb8owbZEKTV1'',
     ''d5iyfNm9dKyKaOOpMQkpAWBz40d8U6iQSifvS9efk+eCNs6aaAyC58/UEBZvXw6Z'',
     ''XPYfcX3v73svfuo21pdwCxXu11xWajOl40k4DLh9+42FpLFZXvRq4d2h9mREruZR'',
     ''gyFmxhE+885H7pwoHyXa/6xmld01D1zvICxi/ZG6qcz8WpyTgYMpl0p8WnK0OdC3'',
     ''d8t5/Wk6kjftbjhlRn7pYL15iJdfOBL07q9bgsiG1eGZbYwE8na6SfZu6W0eX6Dv'',
     ''J4J2QPim01hcDyxC2kLGe4g0x8HYRZvBPsVhHdljUEn2NIVq4BjFbkerQUIpm/Zg'',
     ''DdIx02OYI5NaAIFItO/Nis3Jz5nu2Z6qNuFoS3FJFDYoOj0dzpqPJeaAcWErtXvM'',
     ''+SUWgeExX6GjfhaknBZqlxi9dnKlC54dNuYvoS++cJEPqOba+MSSQGwlfnuzCdyy'',
     ''F62ARPBopY+Udf90WuioAnwMCeKpSwughQtiue+hMZL77/ZRBIls6Kl0obsXs7X9'',
     ''SQ98POyDGCBDTtWTurQ0sR8WNh8M5mQ5Fkzc4P4dyKliPUDqysU0ArSuiYgzNdws'',
     ''E3PYJ/HQcu51OyLemGhmW/HGY0dVHLqlCFF1pkgl'',
     ''-----END CERTIFICATE-----'',
     ''-----BEGIN CERTIFICATE-----'',
     ''MIIFazCCA1OgAwIBAgIRAIIQz7DSQONZRGPgu2OCiwAwDQYJKoZIhvcNAQELBQAw'',
     ''TzELMAkGA1UEBhMCVVMxKTAnBgNVBAoTIEludGVybmV0IFNlY3VyaXR5IFJlc2Vh'',
     ''cmNoIEdyb3VwMRUwEwYDVQQDEwxJU1JHIFJvb3QgWDEwHhcNMTUwNjA0MTEwNDM4'',
     ''WhcNMzUwNjA0MTEwNDM4WjBPMQswCQYDVQQGEwJVUzEpMCcGA1UEChMgSW50ZXJu'',
     ''ZXQgU2VjdXJpdHkgUmVzZWFyY2ggR3JvdXAxFTATBgNVBAMTDElTUkcgUm9vdCBY'',
     ''MTCCAiIwDQYJKoZIhvcNAQEBBQADggIPADCCAgoCggIBAK3oJHP0FDfzm54rVygc'',
     ''h77ct984kIxuPOZXoHj3dcKi/vVqbvYATyjb3miGbESTtrFj/RQSa78f0uoxmyF+'',
     ''0TM8ukj13Xnfs7j/EvEhmkvBioZxaUpmZmyPfjxwv60pIgbz5MDmgK7iS4+3mX6U'',
     ''A5/TR5d8mUgjU+g4rk8Kb4Mu0UlXjIB0ttov0DiNewNwIRt18jA8+o+u3dpjq+sW'',
     ''T8KOEUt+zwvo/7V3LvSye0rgTBIlDHCNAymg4VMk7BPZ7hm/ELNKjD+Jo2FR3qyH'',
     ''B5T0Y3HsLuJvW5iB4YlcNHlsdu87kGJ55tukmi8mxdAQ4Q7e2RCOFvu396j3x+UC'',
     ''B5iPNgiV5+I3lg02dZ77DnKxHZu8A/lJBdiB3QW0KtZB6awBdpUKD9jf1b0SHzUv'',
     ''KBds0pjBqAlkd25HN7rOrFleaJ1/ctaJxQZBKT5ZPt0m9STJEadao0xAH0ahmbWn'',
     ''OlFuhjuefXKnEgV4We0+UXgVCwOPjdAvBbI+e0ocS3MFEvzG6uBQE3xDk3SzynTn'',
     ''jh8BCNAw1FtxNrQHusEwMFxIt4I7mKZ9YIqioymCzLq9gwQbooMDQaHWBfEbwrbw'',
     ''qHyGO0aoSCqI3Haadr8faqU9GY/rOPNk3sgrDQoo//fb4hVC1CLQJ13hef4Y53CI'',
     ''rU7m2Ys6xt0nUW7/vGT1M0NPAgMBAAGjQjBAMA4GA1UdDwEB/wQEAwIBBjAPBgNV'',
     ''HRMBAf8EBTADAQH/MB0GA1UdDgQWBBR5tFnme7bl5AFzgAiIyBpY9umbbjANBgkq'',
     ''hkiG9w0BAQsFAAOCAgEAVR9YqbyyqFDQDLHYGmkgJykIrGF1XIpu+ILlaS/V9lZL'',
     ''ubhzEFnTIZd+50xx+7LSYK05qAvqFyFWhfFQDlnrzuBZ6brJFe+GnY+EgPbk6ZGQ'',
     ''3BebYhtF8GaV0nxvwuo77x/Py9auJ/GpsMiu/X1+mvoiBOv/2X/qkSsisRcOj/KK'',
     ''NFtY2PwByVS5uCbMiogziUwthDyC3+6WVwW6LLv3xLfHTjuCvjHIInNzktHCgKQ5'',
     ''ORAzI4JMPJ+GslWYHb4phowim57iaztXOoJwTdwJx4nLCgdNbOhdjsnvzqvHu7Ur'',
     ''TkXWStAmzOVyyghqpZXjFaH3pO3JLF+l+/+sKAIuvtd7u+Nxe5AW0wdeRlN8NwdC'',
     ''jNPElpzVmbUq4JUagEiuTDkHzsxHpFKVK7q4+63SM1N95R1NbdWhscdCb+ZAJzVc'',
     ''oyi3B43njTOQ5yOf+1CceWxG1bQVs5ZufpsMljq4Ui0/1lvh+wjChP4kqKOJ2qxq'',
     ''4RgqsahDYVvTH9w7jXbyLeiNdd8XM2w9U/t7y0Ff/9yi0GE44Za4rF2LN9d11TPA'',
     ''mRGunUHBcnWEvgJBQl9nJEiU0Zsnvgc/ubhPgXRR4Xq37Z0j4r7g1SgEEzwxA57d'',
     ''emyPxgcYxn/eR44/KJ4EBs+lVDR3veyJm+kXQ99b21/+jh5Xos1AnX5iItreGCc='',
     ''-----END CERTIFICATE-----'',
     ''-----BEGIN CERTIFICATE-----'',
     ''MIIB4TCCAYegAwIBAgIRKjikHJYKBN5CsiilC+g0mAIwCgYIKoZIzj0EAwIwUDEk'',
     ''MCIGA1UECxMbR2xvYmFsU2lnbiBFQ0MgUm9vdCBDQSAtIFI0MRMwEQYDVQQKEwpH'',
     ''bG9iYWxTaWduMRMwEQYDVQQDEwpHbG9iYWxTaWduMB4XDTEyMTExMzAwMDAwMFoX'',
     ''DTM4MDExOTAzMTQwN1owUDEkMCIGA1UECxMbR2xvYmFsU2lnbiBFQ0MgUm9vdCBD'',
     ''QSAtIFI0MRMwEQYDVQQKEwpHbG9iYWxTaWduMRMwEQYDVQQDEwpHbG9iYWxTaWdu'',
     ''MFkwEwYHKoZIzj0CAQYIKoZIzj0DAQcDQgAEuMZ5049sJQ6fLjkZHAOkrprlOQcJ'',
     ''FspjsbmG+IpXwVfOQvpzofdlQv8ewQCybnMO/8ch5RikqtlxP6jUuc6MHaNCMEAw'',
     ''DgYDVR0PAQH/BAQDAgEGMA8GA1UdEwEB/wQFMAMBAf8wHQYDVR0OBBYEFFSwe61F'',
     ''uOJAf/sKbvu+M8k8o4TVMAoGCCqGSM49BAMCA0gAMEUCIQDckqGgE6bPA7DmxCGX'',
     ''kPoUVy0D7O48027KqGx2vKLeuwIgJ6iFJzWbVsaj8kfSt24bAgAXqmemFZHe+pTs'',
     ''ewv4n4Q='',
     ''-----END CERTIFICATE-----'']"

definition FALLBACK_CA_PEM :: bytes where
  "FALLBACK_CA_PEM = concat (map (\<lambda>l. ascii l @ [10]) FALLBACK_CA_PEM_lines)"

definition CERT_BUF :: nat where "CERT_BUF = 2048"
definition COMBINED_BUF :: nat where "COMBINED_BUF = 8192"

text \<open>The loop that turns backslash-n into a line feed; \<open>k\<close> is the index it writes to.\<close>

fun clean_cert :: "nat \<Rightarrow> bytes \<Rightarrow> bytes" where
  "clean_cert k [] = []"
| "clean_cert k (c # cs) =
     (if \<not> k < CERT_BUF - 2 then []
      else if c = 92 \<and> cs \<noteq> [] \<and> hd cs = 110 then 10 # clean_cert (Suc k) (tl cs)
      else c # clean_cert (Suc k) cs)"

definition final_newline :: "bytes \<Rightarrow> bytes" where
  "final_newline s = (if s \<noteq> [] \<and> last s \<noteq> 10 then s @ [10] else s)"

definition strstr :: "bytes \<Rightarrow> bytes \<Rightarrow> bool" where
  "strstr s pat = list_ex (\<lambda>i. take (length pat) (drop i s) = pat) [0..<Suc (length s)]"

text \<open>
  The custom certificate: \<open>x509_ok\<close> is whether mbedTLS parses it. The result is the certificate, if it is used,
  and the flash, from which a certificate that does not parse is erased.
\<close>

definition load_custom_cert :: "(bytes \<Rightarrow> bool) \<Rightarrow> 'n nvs_driver \<Rightarrow> 'n \<Rightarrow> bytes option \<times> 'n" where
  "load_custom_cert x509_ok d n =
     (case nvs_config_get_str d n ''ssl_cert'' CERT_BUF of
        None \<Rightarrow> (None, n)
      | Some cert \<Rightarrow>
          if cert = [] then (None, n)
          else let cleaned = final_newline (clean_cert 0 cert)
            in if \<not> strstr cleaned (ascii ''-----END CERTIFICATE-----'') then (None, n)
               else if \<not> x509_ok cleaned then (None, snd (nvs_config_set_str d n ''ssl_cert'' []))
               else (Some cleaned, n))"

definition combine_certs :: "bytes option \<Rightarrow> bytes \<Rightarrow> bytes" where
  "combine_certs custom fallback =
     (let c = (case custom of
                 None \<Rightarrow> []
               | Some s \<Rightarrow>
                   let c = take (COMBINED_BUF - 1) s
                   in if c \<noteq> [] \<and> last c \<noteq> 10 \<and> length c < COMBINED_BUF - 2 then c @ [10] else c)
      in c @ take (COMBINED_BUF - length c - 1) fallback)"

text \<open>
  \<open>init_ok\<close>: whether \<open>esp_websocket_client_init\<close> gives a client. The third result is the certificate list; the
  timeouts and the task parameters in its configuration are constants.
\<close>

definition ykp_ws_init ::
  "(bytes \<Rightarrow> bool) \<Rightarrow> bool \<Rightarrow> 'n nvs_driver \<Rightarrow> 'n \<Rightarrow> bytes \<Rightarrow> ws \<Rightarrow> bool \<times> ws \<times> bytes \<times> 'n" where
  "ykp_ws_init x509_ok init_ok d n server_url w =
     (let (custom, n) = load_custom_cert x509_ok d n;
          pem = combine_certs custom FALLBACK_CA_PEM
      in (init_ok, w\<lparr>ws_client := init_ok, ws_uri := server_url\<rparr>, pem, n))"

section \<open>Trying the server\<close>

definition ykp_ws_validate_tcp :: "(bytes \<Rightarrow> bytes \<Rightarrow> bool) \<Rightarrow> bool \<Rightarrow> bool \<Rightarrow> bytes \<Rightarrow> u16 \<Rightarrow> bool" where
  "ykp_ws_validate_tcp resolves socket_ok connect_ok host port =
     (resolves host (snprintf 6 (dec (unat port))) \<and> socket_ok \<and> connect_ok)"

text \<open>
  The handshake loop: attempt \<open>i\<close> returns \<open>ret i\<close> (1 done, -1 failed, otherwise in progress), after which the clock
  shows \<open>clock i\<close> microseconds. \<open>None\<close>: the loop does not end.
\<close>

partial_function (option) ssl_handshake :: "(nat \<Rightarrow> int) \<Rightarrow> (nat \<Rightarrow> int) \<Rightarrow> int \<Rightarrow> nat \<Rightarrow> int option" where
  "ssl_handshake ret clock start i =
     (if ret i = 1 then Some 1
      else if ret i = - 1 then Some (- 1)
      else if 8000000 < clock i - start then Some (- 1)
      else ssl_handshake ret clock start (Suc i))"

datatype ssl_result = SSL_OK | CERT_INVALID | CERT_EXPIRED

text \<open>\<open>now\<close> is the system time after the handshake, to tell an unset clock from a bad certificate.\<close>

definition ykp_ws_validate_ssl ::
  "bool \<Rightarrow> (bytes \<Rightarrow> u16 \<Rightarrow> bytes \<Rightarrow> nat \<Rightarrow> int) \<Rightarrow> (nat \<Rightarrow> int) \<Rightarrow> int \<Rightarrow> int \<Rightarrow> bytes \<Rightarrow> u16 \<Rightarrow> bytes \<Rightarrow> ssl_result option" where
  "ykp_ws_validate_ssl tls_ok conn clock start now host port ca_cert =
     (if \<not> tls_ok then Some CERT_INVALID
      else map_option (\<lambda>ret.
        if ret = 1 then SSL_OK else if now < 1000000000 then CERT_EXPIRED else CERT_INVALID)
        (ssl_handshake (conn host port ca_cert) clock start 0))"

definition ykp_ws_validate_ssl_fallback ::
  "bool \<Rightarrow> (bytes \<Rightarrow> u16 \<Rightarrow> bytes \<Rightarrow> nat \<Rightarrow> int) \<Rightarrow> (nat \<Rightarrow> int) \<Rightarrow> int \<Rightarrow> int \<Rightarrow> bytes \<Rightarrow> u16 \<Rightarrow> ssl_result option" where
  "ykp_ws_validate_ssl_fallback tls_ok conn clock start now host port =
     ykp_ws_validate_ssl tls_ok conn clock start now host port FALLBACK_CA_PEM"

definition ykp_ws_tls_destroy_safe :: "'t option option \<Rightarrow> 't option option" where
  "ykp_ws_tls_destroy_safe handle = map_option (\<lambda>_. None) handle"

section \<open>The sanitiser\<close>

lemma clean_cert_length: "k \<le> CERT_BUF - 2 \<Longrightarrow> k + length (clean_cert k s) \<le> CERT_BUF - 2"
  by (induction k s rule: clean_cert.induct) auto

lemma final_newline_length: "length (final_newline (clean_cert 0 s)) < CERT_BUF"
  using clean_cert_length [of 0 s] by (auto simp: final_newline_def CERT_BUF_def)

lemma clean_cert_set: "set (clean_cert k s) \<subseteq> insert 10 (set s)"
  by (induction k s rule: clean_cert.induct) (auto dest: list.set_sel(2))

text \<open>What the result cannot contain: a backslash followed by an n.\<close>

fun no_escape :: "bytes \<Rightarrow> bool" where
  "no_escape (c # e # cs) \<longleftrightarrow> \<not> (c = 92 \<and> e = 110) \<and> no_escape (e # cs)"
| "no_escape _ \<longleftrightarrow> True"

lemma clean_cert_hd: "clean_cert k s \<noteq> [] \<Longrightarrow> hd (clean_cert k s) = 110 \<Longrightarrow> hd s = 110"
  by (cases s) (auto split: if_splits)

lemma no_escape_Cons: "no_escape (c # s) \<longleftrightarrow> \<not> (c = 92 \<and> s \<noteq> [] \<and> hd s = 110) \<and> no_escape s"
  by (cases s) auto

lemma clean_cert_no_escape: "no_escape (clean_cert k s)"
proof (induction k s rule: clean_cert.induct)
  case (2 k c cs)
  then show ?case using clean_cert_hd [of "Suc k" cs]
    by (cases "cs = []") (auto simp: no_escape_Cons)
qed simp

lemma no_escape_fixed:
  "no_escape s \<Longrightarrow> k + length s \<le> CERT_BUF - 2 \<Longrightarrow> clean_cert k s = s"
  by (induction k s rule: clean_cert.induct) (auto simp: no_escape_Cons)

text \<open>Without the bound of the array, the loop replaces every backslash-n.\<close>

fun unescape :: "bytes \<Rightarrow> bytes" where
  "unescape [] = []"
| "unescape [c] = [c]"
| "unescape (c # e # cs) = (if c = 92 \<and> e = 110 then 10 # unescape cs else c # unescape (e # cs))"

lemma clean_cert_unescape: "k + length s \<le> CERT_BUF - 2 \<Longrightarrow> clean_cert k s = unescape s"
  by (induction s arbitrary: k rule: unescape.induct) auto

lemma unescape_id: "no_escape s \<Longrightarrow> unescape s = s"
  by (induction s rule: unescape.induct) auto

section \<open>The handshake loop\<close>

lemma ssl_handshake_unfold:
  "ssl_handshake ret clock start i =
     (if ret i = 1 then Some 1 else if ret i = - 1 then Some (- 1)
      else if 8000000 < clock i - start then Some (- 1) else ssl_handshake ret clock start (Suc i))"
  by (subst ssl_handshake.simps) simp

text \<open>Attempt \<open>i\<close> neither ends the handshake nor comes too late.\<close>

definition in_progress :: "(nat \<Rightarrow> int) \<Rightarrow> (nat \<Rightarrow> int) \<Rightarrow> int \<Rightarrow> nat \<Rightarrow> bool" where
  "in_progress ret clock start i \<longleftrightarrow> ret i \<noteq> 1 \<and> ret i \<noteq> - 1 \<and> clock i - start \<le> 8000000"

lemma ssl_handshake_skip:
  assumes "\<forall>j. k \<le> j \<and> j < k + m \<longrightarrow> in_progress ret clock start j"
  shows "ssl_handshake ret clock start k = ssl_handshake ret clock start (k + m)"
  using assms
proof (induction m)
  case (Suc m)
  then have "in_progress ret clock start (k + m)" by simp
  then have "ssl_handshake ret clock start (k + m) = ssl_handshake ret clock start (Suc (k + m))"
    by (subst ssl_handshake_unfold) (simp add: in_progress_def)
  with Suc show ?case by simp
qed simp

text \<open>The first attempt that is not in progress decides.\<close>

lemma ssl_handshake_first:
  assumes "\<forall>j < i. in_progress ret clock start j" "\<not> in_progress ret clock start i"
  shows "ssl_handshake ret clock start 0 = Some (if ret i = 1 then 1 else - 1)"
proof -
  have "ssl_handshake ret clock start 0 = ssl_handshake ret clock start i"
    using ssl_handshake_skip [of 0 i] assms(1) by simp
  also have "\<dots> = Some (if ret i = 1 then 1 else - 1)"
    using assms(2) by (subst ssl_handshake_unfold) (auto simp: in_progress_def)
  finally show ?thesis .
qed

lemma ssl_handshake_ends:
  assumes "\<And>i. start + int i * 100000 \<le> clock i"
  shows "\<exists>i. (\<forall>j < i. in_progress ret clock start j) \<and> \<not> in_progress ret clock start i"
proof -
  have "\<not> in_progress ret clock start 81" using assms [of 81] by (simp add: in_progress_def)
  then show ?thesis using exists_least_iff [of "\<lambda>i. \<not> in_progress ret clock start i"] by blast
qed

section \<open>The certificate list\<close>

lemma length_fallback: "length FALLBACK_CA_PEM = 5336"
  by (simp add: FALLBACK_CA_PEM_def FALLBACK_CA_PEM_lines_def)

lemma final_newline_last: "final_newline s \<noteq> [] \<Longrightarrow> last (final_newline s) = 10"
  by (simp add: final_newline_def split: if_splits)

lemma combine_whole:
  assumes "length c < CERT_BUF" "c \<noteq> [] \<Longrightarrow> last c = 10"
  shows "combine_certs (Some c) FALLBACK_CA_PEM = c @ FALLBACK_CA_PEM"
proof -
  have "take (COMBINED_BUF - length c - 1) FALLBACK_CA_PEM = FALLBACK_CA_PEM"
    using assms(1) by (intro take_all) (simp add: length_fallback CERT_BUF_def COMBINED_BUF_def)
  then show ?thesis using assms by (auto simp: combine_certs_def Let_def CERT_BUF_def COMBINED_BUF_def)
qed

section \<open>Properties\<close>

text \<open>
  C28. A certificate of up to 2046 bytes that a phone stored and mbedTLS accepts is trusted whole:
  the client gets the certificate with every backslash-n turned into a line feed and a final line
  feed, followed by all built-in certificates. The loop over the fixed array agrees with
  the plain replacement, and neither array cuts anything off.
\<close>

theorem stored_cert_trusted:
  assumes "nvs_config_get_str d n ''ssl_cert'' CERT_BUF = Some cert" "cert \<noteq> []" "length cert \<le> 2046"
    and "strstr (final_newline (unescape cert)) (ascii ''-----END CERTIFICATE-----'')"
    and "x509_ok (final_newline (unescape cert))"
  shows "ykp_ws_init x509_ok init_ok d n server_url w =
    (init_ok, w\<lparr>ws_client := init_ok, ws_uri := server_url\<rparr>, final_newline (unescape cert) @ FALLBACK_CA_PEM, n)"
proof -
  have c: "clean_cert 0 cert = unescape cert" using assms(3) by (intro clean_cert_unescape) (simp add: CERT_BUF_def)
  then have "load_custom_cert x509_ok d n = (Some (final_newline (unescape cert)), n)"
    using assms by (simp add: load_custom_cert_def Let_def)
  moreover have "combine_certs (Some (final_newline (unescape cert))) FALLBACK_CA_PEM =
      final_newline (unescape cert) @ FALLBACK_CA_PEM"
    using final_newline_length [of cert] final_newline_last by (intro combine_whole) (simp_all add: c)
  ultimately show ?thesis by (simp add: ykp_ws_init_def)
qed

theorem stored_cert_trusted_witness:
  "ykp_ws_init (\<lambda>c. True) True map_driver ([''ssl_cert'' \<mapsto> ascii ''-----END CERTIFICATE-----''], Map.empty) [119] ws_off =
    (True, ws_off\<lparr>ws_client := True, ws_uri := [119]\<rparr>, final_newline (unescape (ascii ''-----END CERTIFICATE-----'')) @ FALLBACK_CA_PEM,
     ([''ssl_cert'' \<mapsto> ascii ''-----END CERTIFICATE-----''], Map.empty))"
proof (rule stored_cert_trusted)
  show "strstr (final_newline (unescape (ascii ''-----END CERTIFICATE-----''))) (ascii ''-----END CERTIFICATE-----'')"
    by code_simp
qed (simp_all add: map_driver_def nvs_config_get_str_def open_nvs_def CERT_BUF_def ascii_def)

text \<open>
  The handshake loop ends: since it waits 100 ms between attempts, some result is returned after at most
  82 attempts. Success is reported exactly if an attempt completes before any has failed and
  before one was found to end more than eight seconds after the start.
\<close>

lemma validate_ssl_terminates:
  assumes "tls_ok" "\<And>i. start + int i * 100000 \<le> clock i"
  shows "\<exists>r. ykp_ws_validate_ssl tls_ok conn clock start now host port cert = Some r \<and>
    (r = SSL_OK \<longleftrightarrow>
      (\<exists>i \<le> 81. conn host port cert i = 1 \<and> (\<forall>j < i. in_progress (conn host port cert) clock start j)))"
proof -
  let ?ret = "conn host port cert"
  obtain i where i: "\<forall>j < i. in_progress ?ret clock start j" "\<not> in_progress ?ret clock start i"
    using ssl_handshake_ends [OF assms(2)] by blast
  have "\<not> in_progress ?ret clock start 81" using assms(2) [of 81] by (simp add: in_progress_def)
  then have "i \<le> 81" using i(1) by (meson linorder_not_le)
  have "k = i" if "?ret k = 1" "\<forall>j < k. in_progress ?ret clock start j" for k
    using that i by (metis in_progress_def linorder_neqE_nat)
  then have "(\<exists>k \<le> 81. ?ret k = 1 \<and> (\<forall>j < k. in_progress ?ret clock start j)) \<longleftrightarrow> ?ret i = 1"
    using i(1) \<open>i \<le> 81\<close> by blast
  then show ?thesis using assms(1) ssl_handshake_first [OF i] by (simp add: ykp_ws_validate_ssl_def)
qed

lemma validate_ssl_terminates_instance:
  "\<exists>r. ykp_ws_validate_ssl True (\<lambda>h p c i. 0) (\<lambda>i. int i * 100000) 0 0 [] 443 [] = Some r \<and>
    (r = SSL_OK \<longleftrightarrow>
      (\<exists>i \<le> 81. (0 :: int) = 1 \<and> (\<forall>j < i. in_progress (\<lambda>i. 0) (\<lambda>i. int i * 100000) 0 j)))"
  using validate_ssl_terminates [of True 0 "\<lambda>i. int i * 100000" "\<lambda>h p c i. 0" 0 "[]" 443 "[]"] by simp

end
