(* ===== verification/Wifi.thy ===== *)
theory Wifi
  imports Cstring
begin

text \<open>
  The Wi-Fi manager: \<open>main/wifi/wifi_manager.c\<close>. The static variables of the file are the
  record \<open>wifi\<close>, with one field per bit of the event group; the Wi-Fi driver is not part of this
  repository: its events, the outcome of a scan and the access points it found are arguments.

  The lemmas: what the state says about the event bits and the stored address after every
  sequence of operations (the manager is a \<open>machine\<close>), when a connection attempt succeeds, and
  that the text of a scan is complete and inside its buffer.
\<close>

datatype wifi_state_t = WIFI_STATE_DISCONNECTED | WIFI_STATE_CONNECTING | WIFI_STATE_CONNECTED | WIFI_STATE_FAILED

record wifi =
  wf_connected_bit :: bool
  wf_fail_bit :: bool
  wf_state :: wifi_state_t
  wf_reason :: u8
  wf_on_connect :: bool
  wf_on_disconnect :: bool
  wf_ip :: bytes
  wf_started :: bool

text \<open>The static variables before any call.\<close>

definition wifi_zero :: wifi where
  "wifi_zero =
     \<lparr>wf_connected_bit = False, wf_fail_bit = False, wf_state = WIFI_STATE_DISCONNECTED, wf_reason = 0,
      wf_on_connect = False, wf_on_disconnect = False, wf_ip = replicate 20 0, wf_started = False\<rparr>"

datatype wifi_event = STA_START | STA_DISCONNECTED u8 | STA_GOT_IP u8 u8 u8 u8 | WIFI_EVENT_OTHER

datatype wifi_callback = OnConnect bytes | OnDisconnect u8

section \<open>Events\<close>

definition ip_text :: "u8 \<Rightarrow> u8 \<Rightarrow> u8 \<Rightarrow> u8 \<Rightarrow> bytes" where
  "ip_text a b c d = dec (unat a) @ [46] @ dec (unat b) @ [46] @ dec (unat c) @ [46] @ dec (unat d)"

fun wifi_event_handler :: "wifi_event \<Rightarrow> wifi \<Rightarrow> wifi \<times> wifi_callback list" where
  "wifi_event_handler STA_START w = (w, [])"
| "wifi_event_handler (STA_DISCONNECTED reason) w =
     (w\<lparr>wf_reason := reason, wf_state := WIFI_STATE_FAILED, wf_fail_bit := True\<rparr>,
      if wf_on_disconnect w then [OnDisconnect reason] else [])"
| "wifi_event_handler (STA_GOT_IP a b c d) w =
     (let w = w\<lparr>wf_ip := snprintf_to (wf_ip w) (ip_text a b c d), wf_state := WIFI_STATE_CONNECTED,
                wf_reason := 0, wf_connected_bit := True\<rparr>
      in (w, if wf_on_connect w then [OnConnect (cstr (wf_ip w))] else []))"
| "wifi_event_handler WIFI_EVENT_OTHER w = (w, [])"

section \<open>Operations\<close>

text \<open>A new event group has no bit set; the other calls start the network stack and register the handler.\<close>

definition wifi_manager_init :: "wifi \<Rightarrow> bool \<times> wifi" where
  "wifi_manager_init w = (True, w\<lparr>wf_connected_bit := False, wf_fail_bit := False\<rparr>)"

text \<open>The configuration given to \<open>esp_wifi_set_config\<close>: arrays of 32 and 64 bytes.\<close>

record wifi_config =
  wc_ssid :: bytes
  wc_password :: bytes

definition wifi_manager_connect_async :: "bytes \<Rightarrow> bytes \<Rightarrow> wifi \<Rightarrow> wifi \<times> wifi_config" where
  "wifi_manager_connect_async ssid password w =
     (w\<lparr>wf_started := True, wf_connected_bit := False, wf_fail_bit := False,
        wf_state := WIFI_STATE_CONNECTING, wf_reason := 0\<rparr>,
      \<lparr>wc_ssid = strncpy_field 31 ssid @ [0], wc_password = strncpy_field 63 password @ [0]\<rparr>)"

text \<open>
  \<open>xEventGroupWaitBits\<close> on either bit: \<open>es\<close> are the events that arrive within the timeout; the wait ends with
  the first that leaves a bit set.
\<close>

fun wait_bits :: "wifi_event list \<Rightarrow> wifi \<Rightarrow> wifi \<times> wifi_callback list" where
  "wait_bits [] w = (w, [])"
| "wait_bits (e # es) w =
     (if wf_connected_bit w \<or> wf_fail_bit w then (w, [])
      else let (w, cbs) = wifi_event_handler e w; (w, cbs') = wait_bits es w in (w, cbs @ cbs'))"

definition wifi_manager_connect ::
  "bytes \<Rightarrow> bytes \<Rightarrow> wifi_event list \<Rightarrow> wifi \<Rightarrow> bool \<times> wifi \<times> wifi_config \<times> wifi_callback list" where
  "wifi_manager_connect ssid password es w =
     (let (w, cfg) = wifi_manager_connect_async ssid password w; (w, cbs) = wait_bits es w
      in (wf_connected_bit w, w, cfg, cbs))"

definition wifi_manager_disconnect :: "wifi \<Rightarrow> wifi \<times> event list" where
  "wifi_manager_disconnect w = (w\<lparr>wf_state := WIFI_STATE_DISCONNECTED\<rparr>, [WifiDisconnect])"

definition wifi_manager_is_connected :: "wifi \<Rightarrow> bool" where
  "wifi_manager_is_connected w = (wf_state w = WIFI_STATE_CONNECTED)"

definition wifi_manager_get_state :: "wifi \<Rightarrow> wifi_state_t" where
  "wifi_manager_get_state w = wf_state w"

definition wifi_manager_get_disconnect_reason :: "wifi \<Rightarrow> u8" where
  "wifi_manager_get_disconnect_reason w = wf_reason w"

definition wifi_manager_register_callbacks :: "bool \<Rightarrow> bool \<Rightarrow> wifi \<Rightarrow> wifi" where
  "wifi_manager_register_callbacks on_connect on_disconnect w =
     w\<lparr>wf_on_connect := on_connect, wf_on_disconnect := on_disconnect\<rparr>"

text \<open>\<open>ap\<close>: the RSSI of the access point, if the station has one. The result is the \<open>int8_t\<close> as a byte.\<close>

definition wifi_manager_get_rssi :: "u8 option \<Rightarrow> u8" where
  "wifi_manager_get_rssi ap = (case ap of Some rssi \<Rightarrow> rssi | None \<Rightarrow> 0)"

text \<open>\<open>len\<close> is a \<open>size_t\<close> of at least 1 in every call.\<close>

definition wifi_manager_get_ip :: "bytes \<Rightarrow> nat \<Rightarrow> wifi \<Rightarrow> fault + bytes" where
  "wifi_manager_get_ip out len w = bindE (rd_cstr (wf_ip w)) (\<lambda>ip. strncpy_to out (len - 1) ip)"

section \<open>Scans\<close>

record wifi_ap_record_t =
  ap_ssid :: bytes
  ap_rssi :: u8

text \<open>\<open>scan_ok\<close>: whether the scan for this name succeeds, \<open>ap_count\<close>: how many access points it found.\<close>

definition wifi_manager_scan_for_ssid :: "(bytes \<Rightarrow> bool) \<Rightarrow> (bytes \<Rightarrow> u16) \<Rightarrow> bytes option \<Rightarrow> wifi \<Rightarrow> bool \<times> wifi" where
  "wifi_manager_scan_for_ssid scan_ok ap_count target w =
     (case target of
        None \<Rightarrow> (False, w)
      | Some ssid \<Rightarrow>
          if ssid = [] then (False, w)
          else (scan_ok ssid \<and> 0 < ap_count ssid, w\<lparr>wf_started := True\<rparr>))"

text \<open>
  \<open>snprintf(out + offset, max_len - offset, ...)\<close> on an array of \<open>max_len\<close> bytes: the size wraps to a huge one when
  the offset is past the end.
\<close>

definition snprintf_at :: "bytes \<Rightarrow> nat \<Rightarrow> bytes \<Rightarrow> fault + bytes" where
  "snprintf_at out offset s =
     (if length out < offset then Inl BufferOverflow
      else if offset = length out then Inr out
      else Inr (write_at out offset (take (length out - offset - 1) s @ [0])))"

definition ap_json :: "wifi_ap_record_t \<Rightarrow> bytes \<Rightarrow> bytes" where
  "ap_json ap ssid = ascii ''{\"ssid\":\"'' @ ssid @ ascii ''\",\"rssi\":'' @ dec_int (sint (ap_rssi ap)) @ ascii ''}''"

text \<open>The loop over the records; the last one has no comma.\<close>

fun scan_loop :: "wifi_ap_record_t list \<Rightarrow> bytes \<Rightarrow> nat \<Rightarrow> fault + bytes \<times> nat" where
  "scan_loop [] out offset = Inr (out, offset)"
| "scan_loop (ap # aps) out offset =
     bindE (rd_cstr (ap_ssid ap)) (\<lambda>ssid.
       let s = ap_json ap ssid @ (if aps \<noteq> [] then ascii '','' else [])
       in bindE (snprintf_at out offset s) (\<lambda>out.
            scan_loop aps out (if length s < length out - offset then offset + length s else offset)))"

text \<open>
  \<open>aps\<close>: the access points the driver found, of which it copies at most as many as asked for. The result is
  the number of access points, the buffer and the state.
\<close>

definition wifi_manager_scan ::
  "bool \<Rightarrow> bool \<Rightarrow> wifi_ap_record_t list \<Rightarrow> bytes \<Rightarrow> wifi \<Rightarrow> fault + nat \<times> bytes \<times> wifi" where
  "wifi_manager_scan scan_ok malloc_ok aps json_out w =
     (let w = w\<lparr>wf_started := True\<rparr>
      in if \<not> scan_ok \<or> aps = [] \<or> \<not> malloc_ok
         then bindE (snprintf_at json_out 0 (ascii ''{\"scan_results\":[]}'')) (\<lambda>out. Inr (0, out, w))
         else let ap_list = take 10 aps; head = ascii ''{\"scan_results\":[''
           in bindE (snprintf_at json_out 0 head) (\<lambda>out.
              bindE (scan_loop ap_list out (length head)) (\<lambda>(out, offset).
              bindE (snprintf_at out offset (ascii '']}'')) (\<lambda>out.
                Inr (length ap_list, out, w)))))"

section \<open>What the state says\<close>

definition wifi_ok :: "wifi \<Rightarrow> bool" where
  "wifi_ok w \<longleftrightarrow> field_ok 20 (wf_ip w) \<and>
     (wf_state w = WIFI_STATE_CONNECTED \<longrightarrow> wf_connected_bit w \<and> wf_reason w = 0 \<and>
        (\<exists>a b c d. cstr (wf_ip w) = ip_text a b c d)) \<and>
     (wf_state w = WIFI_STATE_FAILED \<longrightarrow> wf_fail_bit w) \<and>
     (wf_state w = WIFI_STATE_CONNECTING \<longrightarrow> \<not> wf_connected_bit w \<and> \<not> wf_fail_bit w)"

lemma length_dec_u8: "length (dec (unat (a :: u8))) \<le> 3"
  using length_dec [of "unat a" 2] unat_lt_u8 [of a] by simp

lemma ip_text_ok: "c_string (ip_text a b c d)" "length (ip_text a b c d) \<le> 15"
  using length_dec_u8 [of a] length_dec_u8 [of b] length_dec_u8 [of c] length_dec_u8 [of d]
  by (auto simp: ip_text_def) (auto simp: c_string_def dest: c_string_dec [unfolded c_string_def, THEN notE])

lemma got_ip_field:
  assumes "field_ok 20 f"
  shows "field_ok 20 (snprintf_to f (ip_text a b c d))" "cstr (snprintf_to f (ip_text a b c d)) = ip_text a b c d"
  using assms snprintf_field [of f 20 "ip_text a b c d"] ip_text_ok [of a b c d] by (simp_all add: field_ok_def)

datatype wifi_input = WifiEvent wifi_event | WifiConnectCall bytes bytes | WifiDisconnectCall
  | WifiScan "wifi_ap_record_t list" bytes | WifiFind bytes

fun wifi_step :: "wifi \<Rightarrow> wifi_input \<Rightarrow> wifi" where
  "wifi_step w (WifiEvent e) = fst (wifi_event_handler e w)"
| "wifi_step w (WifiConnectCall ssid password) = fst (wifi_manager_connect_async ssid password w)"
| "wifi_step w WifiDisconnectCall = fst (wifi_manager_disconnect w)"
| "wifi_step w (WifiScan aps buf) =
     (case wifi_manager_scan True True aps buf w of Inl _ \<Rightarrow> w | Inr (_, _, w') \<Rightarrow> w')"
| "wifi_step w (WifiFind ssid) = snd (wifi_manager_scan_for_ssid (\<lambda>_. True) (\<lambda>_. 1) (Some ssid) w)"

lemma scan_state: "wifi_manager_scan so mo aps buf w = Inr (n, out, w') \<Longrightarrow> w' = w\<lparr>wf_started := True\<rparr>"
  by (auto simp: wifi_manager_scan_def Let_def bindE_Inr_iff split: if_splits)

lemma ok_started: "wifi_ok w \<Longrightarrow> wifi_ok (w\<lparr>wf_started := True\<rparr>)"
  by (simp add: wifi_ok_def)

lemma event_ok: "wifi_ok w \<Longrightarrow> wifi_ok (fst (wifi_event_handler e w))"
  by (cases e) (auto simp: wifi_ok_def Let_def got_ip_field)

interpretation wifi_machine: machine wifi_step wifi_ok
proof
  fix w i
  assume w: "wifi_ok w"
  show "wifi_ok (wifi_step w i)"
  proof (cases i)
    case (WifiEvent e)
    then show ?thesis using event_ok [OF w] by simp
  next
    case (WifiScan aps buf)
    then show ?thesis using w ok_started [OF w] scan_state [of True True aps buf w]
      by (auto split: sum.splits)
  qed (use w in \<open>auto simp: wifi_ok_def wifi_manager_connect_async_def wifi_manager_disconnect_def
         wifi_manager_scan_for_ssid_def\<close>)
qed

section \<open>A connection attempt\<close>

fun first_verdict :: "wifi_event list \<Rightarrow> bool option" where
  "first_verdict [] = None"
| "first_verdict (STA_GOT_IP a b c d # es) = Some True"
| "first_verdict (STA_DISCONNECTED r # es) = Some False"
| "first_verdict (_ # es) = first_verdict es"

lemma wait_bits_set: "wf_connected_bit w \<or> wf_fail_bit w \<Longrightarrow> wait_bits es w = (w, [])"
  by (cases es) auto

lemma wait_bits_verdict:
  assumes "\<not> wf_connected_bit w" "\<not> wf_fail_bit w"
  shows "wf_connected_bit (fst (wait_bits es w)) \<longleftrightarrow> first_verdict es = Some True"
  using assms
  by (induction es rule: first_verdict.induct) (auto simp: wait_bits_set Let_def case_prod_beta)

text \<open>An attempt succeeds exactly if an address is assigned before a disconnection is reported and before the timeout.\<close>

lemma connect_succeeds_iff:
  "fst (wifi_manager_connect ssid password es w) \<longleftrightarrow> first_verdict es = Some True"
  by (simp add: wifi_manager_connect_def wifi_manager_connect_async_def wait_bits_verdict case_prod_beta)

text \<open>
  The name of the network is cut to 31 bytes and the password to 63, although a network name may
  have 32 bytes and a hexadecimal key 64.
\<close>

lemma connect_config:
  assumes "c_string ssid" "c_string password"
  shows "cstr (wc_ssid (snd (wifi_manager_connect_async ssid password w))) = take 31 ssid"
    "cstr (wc_password (snd (wifi_manager_connect_async ssid password w))) = take 63 password"
proof -
  have "cstr (strncpy_field n s @ [0]) = take n s" if "c_string s" for n s
  proof -
    have "c_string (take n s)" using that by (auto simp: c_string_def dest: in_set_takeD)
    then show ?thesis by (cases "n - length s") (simp_all add: strncpy_field_def)
  qed
  then show "cstr (wc_ssid (snd (wifi_manager_connect_async ssid password w))) = take 31 ssid"
    "cstr (wc_password (snd (wifi_manager_connect_async ssid password w))) = take 63 password"
    using assms by (simp_all add: wifi_manager_connect_async_def)
qed

section \<open>The text of a scan\<close>

text \<open>Formatting at the terminator of the text so far, with room, appends.\<close>

lemma snprintf_append:
  assumes "length t + length s < length (t @ 0 # rest)"
  shows "\<exists>rest'. snprintf_at (t @ 0 # rest) (length t) s = Inr ((t @ s) @ 0 # rest') \<and>
    length ((t @ s) @ 0 # rest') = length (t @ 0 # rest)"
proof -
  let ?out = "t @ 0 # rest"
  have tk: "take (length ?out - length t - 1) s = s" using assms by simp
  have "snprintf_at ?out (length t) s = Inr (write_at ?out (length t) (s @ [0]))"
    unfolding snprintf_at_def tk using assms by simp
  moreover have "write_at ?out (length t) (s @ [0]) = (t @ s) @ 0 # drop (length s + 1) (0 # rest)"
    by (simp add: write_at_def)
  moreover have "length ((t @ s) @ 0 # drop (length s + 1) (0 # rest)) = length ?out" using assms by simp
  ultimately show ?thesis by metis
qed

lemma snprintf_start:
  assumes "length s < length out"
  shows "\<exists>rest. snprintf_at out 0 s = Inr (s @ 0 # rest) \<and> length (s @ 0 # rest) = length out"
proof -
  have tk: "take (length out - 1) s = s" using assms by simp
  then have "snprintf_at out 0 s = Inr (s @ 0 # drop (length s + 1) out)"
    using assms by (auto simp: snprintf_at_def write_at_def)
  moreover have "length (s @ 0 # drop (length s + 1) out) = length out" using assms by simp
  ultimately show ?thesis by blast
qed

fun aps_json :: "wifi_ap_record_t list \<Rightarrow> bytes" where
  "aps_json [] = []"
| "aps_json (ap # aps) = ap_json ap (cstr (ap_ssid ap)) @ (if aps \<noteq> [] then ascii '','' else []) @ aps_json aps"

lemma length_dec_int_u8: "length (dec_int (sint (r :: u8))) \<le> 4"
proof -
  have "- 128 \<le> sint r" "sint r < 128"
    using sint_greater_eq [of r] sint_less [of r] by simp_all
  then have "nat (sint r) < 10 ^ Suc 2" "nat (- sint r) < 10 ^ Suc 2" by simp_all
  from this [THEN length_dec] show ?thesis unfolding dec_int_def by (auto simp del: power_Suc)
qed

lemma length_ap_json:
  assumes "field_ok 33 (ap_ssid ap)" shows "length (ap_json ap (cstr (ap_ssid ap))) \<le> 55"
  using field_cstr [OF assms] length_dec_int_u8 [of "ap_rssi ap"] by (simp add: ap_json_def)

lemma scan_loop_text:
  assumes "\<forall>ap \<in> set aps. field_ok 33 (ap_ssid ap)" "length t + 56 * length aps < length (t @ 0 # rest)"
  shows "\<exists>rest'. scan_loop aps (t @ 0 # rest) (length t) = Inr ((t @ aps_json aps) @ 0 # rest', length (t @ aps_json aps)) \<and>
    length ((t @ aps_json aps) @ 0 # rest') = length (t @ 0 # rest) \<and> length (aps_json aps) \<le> 56 * length aps"
  using assms
proof (induction aps arbitrary: t rest)
  case (Cons ap aps)
  let ?s = "ap_json ap (cstr (ap_ssid ap)) @ (if aps \<noteq> [] then ascii '','' else [])"
  have f: "field_ok 33 (ap_ssid ap)" "\<forall>ap \<in> set aps. field_ok 33 (ap_ssid ap)" using Cons.prems(1) by simp_all
  have s: "length ?s \<le> 56" using length_ap_json [OF f(1)] by simp
  have fit: "length t + length ?s < length (t @ 0 # rest)" using Cons.prems(2) s by simp
  obtain rest1 where a: "snprintf_at (t @ 0 # rest) (length t) ?s = Inr ((t @ ?s) @ 0 # rest1)"
    "length ((t @ ?s) @ 0 # rest1) = length (t @ 0 # rest)"
    using snprintf_append [OF fit] by blast
  have "length (t @ ?s) + 56 * length aps < length ((t @ ?s) @ 0 # rest1)"
    unfolding a(2) using Cons.prems(2) s by simp
  from Cons.IH [OF f(2) this] obtain rest2 where
    b: "scan_loop aps ((t @ ?s) @ 0 # rest1) (length (t @ ?s)) =
      Inr (((t @ ?s) @ aps_json aps) @ 0 # rest2, length ((t @ ?s) @ aps_json aps))"
      "length (((t @ ?s) @ aps_json aps) @ 0 # rest2) = length ((t @ ?s) @ 0 # rest1)"
      "length (aps_json aps) \<le> 56 * length aps" by blast
  have eq: "scan_loop (ap # aps) (t @ 0 # rest) (length t) = scan_loop aps ((t @ ?s) @ 0 # rest1) (length (t @ ?s))"
  proof -
    have off: "(if length ?s < length ((t @ ?s) @ 0 # rest1) - length t then length t + length ?s else length t) =
        length (t @ ?s)" by simp
    show ?thesis unfolding scan_loop.simps rd_field [OF f(1)] bindE_simps Let_def a(1) off ..
  qed
  have "(t @ ?s) @ aps_json aps = t @ aps_json (ap # aps)" by simp
  then show ?case using b s a(2) unfolding eq by (auto simp del: append.simps)
qed simp

section \<open>Properties\<close>

text \<open>
  C39. A scan reports what it found: into every buffer of at least 580 bytes the text written is the
  complete list of the first ten access points, with its terminator, whatever their names and
  signal strengths; nothing is cut off and nothing is written outside the buffer.
\<close>

theorem wifi_scan_complete:
  assumes "580 \<le> length buf" "\<forall>ap \<in> set aps. field_ok 33 (ap_ssid ap)" "aps \<noteq> []"
  shows "\<exists>out. wifi_manager_scan True True aps buf w =
      Inr (min (length aps) 10, (ascii ''{\"scan_results\":['' @ aps_json (take 10 aps) @ ascii '']}'') @ 0 # out,
        w\<lparr>wf_started := True\<rparr>) \<and>
    length ((ascii ''{\"scan_results\":['' @ aps_json (take 10 aps) @ ascii '']}'') @ 0 # out) = length buf"
proof -
  let ?h = "ascii ''{\"scan_results\":[''" and ?l = "take 10 aps" and ?e = "ascii '']}''"
  have h: "length ?h = 17" "length ?e = 2" by simp_all
  have "length ?h < length buf" using assms(1) by simp
  from snprintf_start [OF this] obtain r1 where 1: "snprintf_at buf 0 ?h = Inr (?h @ 0 # r1)"
    "length (?h @ 0 # r1) = length buf" by blast
  have l: "\<forall>ap \<in> set ?l. field_ok 33 (ap_ssid ap)" "length ?l \<le> 10" using assms(2) by (auto dest: in_set_takeD)
  then have "length ?h + 56 * length ?l < length (?h @ 0 # r1)" unfolding 1(2) h using assms(1) by simp
  from scan_loop_text [OF l(1) this] obtain r2 where
    2: "scan_loop ?l (?h @ 0 # r1) (length ?h) = Inr ((?h @ aps_json ?l) @ 0 # r2, length (?h @ aps_json ?l))"
      "length ((?h @ aps_json ?l) @ 0 # r2) = length buf" "length (aps_json ?l) \<le> 56 * length ?l"
    unfolding 1(2) by blast
  have "length (?h @ aps_json ?l) + length ?e < length ((?h @ aps_json ?l) @ 0 # r2)"
    using assms(1) 2(3) l(2) h unfolding 2(2) by simp
  from snprintf_append [OF this] obtain r3 where
    3: "snprintf_at ((?h @ aps_json ?l) @ 0 # r2) (length (?h @ aps_json ?l)) ?e =
      Inr (((?h @ aps_json ?l) @ ?e) @ 0 # r3)"
      "length (((?h @ aps_json ?l) @ ?e) @ 0 # r3) = length buf"
    unfolding 2(2) by blast
  have "wifi_manager_scan True True aps buf w = Inr (length ?l, ((?h @ aps_json ?l) @ ?e) @ 0 # r3, w\<lparr>wf_started := True\<rparr>)"
    using assms(3) by (simp only: wifi_manager_scan_def Let_def simp_thms if_False 1(1) bindE_simps 2(1) prod.case 3(1))
  then show ?thesis using 3(2) by (intro exI [of _ r3]) (simp add: min.commute)
qed

theorem wifi_scan_complete_witness:
  "\<exists>out w. wifi_manager_scan True True [\<lparr>ap_ssid = 65 # replicate 32 0, ap_rssi = 0xC4\<rparr>] (replicate 1280 7) wifi_zero =
    Inr (1, (ascii ''{\"scan_results\":['' @ ascii ''{\"ssid\":\"A\",\"rssi\":-60}'' @ ascii '']}'') @ 0 # out, w)"
proof -
  let ?ap = "\<lparr>ap_ssid = 65 # replicate 32 0, ap_rssi = 0xC4\<rparr>"
  have j: "aps_json (take 10 [?ap]) = ascii ''{\"ssid\":\"A\",\"rssi\":-60}''" by code_simp
  have 1: "580 \<le> length (replicate 1280 (7 :: u8))" "\<forall>ap \<in> set [?ap]. field_ok 33 (ap_ssid ap)" "[?ap] \<noteq> []"
    by (simp_all add: field_ok_def)
  from wifi_scan_complete [OF 1, of wifi_zero] show ?thesis unfolding j by auto
qed

text \<open>The state of the manager over every sequence of events and calls.\<close>

lemma wifi_state_truthful: "wifi_ok (foldl wifi_step wifi_zero is)"
  by (rule wifi_machine.run_inv) (simp add: wifi_ok_def wifi_zero_def)

end
