(* ===== verification/Discovery.thy ===== *)
theory Discovery
  imports Reports Wifi Nvs
begin

text \<open>
  The UDP transport and the discovery service: \<open>main/transport/ykp_udp.c\<close> and
  \<open>main/discovery/ykp_discovery.c\<close>. The sockets and the address functions \<open>inet_pton\<close> and
  \<open>inet_ntop\<close> belong to the network stack: their results are arguments. Tasks are one turn of their loop.

  The lemmas: the reply to a request, and that a packet with a payload makes the handler free the
  static receive buffer.
\<close>

section \<open>The UDP transport\<close>

record udp =
  ud_sock :: bool
  ud_port :: u16
  ud_rx_cb :: bool
  ud_rx_running :: bool

definition udp_zero :: udp where
  "udp_zero = \<lparr>ud_sock = False, ud_port = 4210, ud_rx_cb = False, ud_rx_running = False\<rparr>"

definition ykp_udp_init :: "bool \<Rightarrow> bool \<Rightarrow> u16 \<Rightarrow> udp \<Rightarrow> bool \<times> udp" where
  "ykp_udp_init socket_ok bind_ok port u =
     (let u = u\<lparr>ud_port := port, ud_sock := socket_ok\<rparr>
      in if \<not> socket_ok then (False, u)
         else if \<not> bind_ok then (False, u\<lparr>ud_sock := False\<rparr>)
         else (True, u))"

text \<open>\<open>sent\<close>: what \<open>sendto\<close> returns.\<close>

definition ykp_udp_send :: "int \<Rightarrow> udp \<Rightarrow> bytes \<Rightarrow> u16 \<Rightarrow> bytes \<Rightarrow> bool \<times> event list" where
  "ykp_udp_send sent u dest_ip dest_port data =
     (if \<not> ud_sock u then (False, []) else (sent = int (length data), [UdpTo dest_ip dest_port data]))"

definition ykp_udp_broadcast :: "int \<Rightarrow> udp \<Rightarrow> u16 \<Rightarrow> bytes \<Rightarrow> bool \<times> event list" where
  "ykp_udp_broadcast sent u dest_port data = ykp_udp_send sent u (ascii ''255.255.255.255'') dest_port data"

definition ykp_udp_register_rx_cb :: "bool \<Rightarrow> udp \<Rightarrow> udp" where
  "ykp_udp_register_rx_cb cb u = u\<lparr>ud_rx_cb := cb\<rparr>"

text \<open>
  A turn of the receive loop: \<open>None\<close> ends it; otherwise the array and the length given to the callback, if it
  is called. \<open>datagram\<close> is what arrives, cut to the 1400 bytes of the array, or \<open>None\<close> for an error.
\<close>

definition udp_rx_task :: "udp \<Rightarrow> bytes option \<Rightarrow> (bytes \<times> u16) option option" where
  "udp_rx_task u datagram =
     (if \<not> ud_rx_running u then None
      else Some (case datagram of
          None \<Rightarrow> None
        | Some d \<Rightarrow>
            let buf = take 1400 d
            in if 0 < length buf \<and> ud_rx_cb u then Some (buf, of_nat (length buf)) else None))"

definition ykp_udp_start_rx_task :: "udp \<Rightarrow> udp \<times> event list" where
  "ykp_udp_start_rx_task u = (u\<lparr>ud_rx_running := True\<rparr>, [SpawnTask ''udp_rx''])"

definition ykp_udp_stop :: "udp \<Rightarrow> udp" where
  "ykp_udp_stop u = u\<lparr>ud_rx_running := False, ud_sock := False\<rparr>"

section \<open>Discovery\<close>

definition CAP_RELAY :: u8 where "CAP_RELAY = 0x01"
definition CAP_OTA :: u8 where "CAP_OTA = 0x40"

record discovery =
  ds_device_id :: bytes
  ds_device_type :: bytes
  ds_device_name :: bytes

definition ykp_discovery_init :: "'n nvs_driver \<Rightarrow> 'n \<Rightarrow> discovery \<Rightarrow> discovery" where
  "ykp_discovery_init d n s =
     (let s = s\<lparr>ds_device_id := (case nvs_config_get_device_id d n 9 of None \<Rightarrow> ds_device_id s | Some i \<Rightarrow> i)\<rparr>;
          s = s\<lparr>ds_device_type := (case nvs_config_get_device_type d n 16 of None \<Rightarrow> ds_device_type s | Some t \<Rightarrow> t)\<rparr>
      in s\<lparr>ds_device_name := (case nvs_config_get_str d n ''device_name'' 32 of
             None \<Rightarrow> snprintf 32 (ascii ''YKP-'' @ ds_device_id s) | Some name \<Rightarrow> name)\<rparr>)"

text \<open>
  \<open>ip_raw\<close>: what \<open>inet_pton\<close> leaves in the variable for the text of the address, which is any number
  when there is none. \<open>from_ip\<close> and \<open>from_port\<close> are the sender's; \<open>rx\<close> is the receive buffer of the parser.
\<close>

definition disc_reply :: "(bytes \<Rightarrow> u32) \<Rightarrow> discovery \<Rightarrow> bytes \<Rightarrow> u16 \<times> ykp_tlv_builder_t" where
  "disc_reply ip_raw s ip =
     (let b = ykp_tlv_builder_init (replicate 200 0) 200;
          b = snd (ykp_tlv_add_string b (tlv_code TLV_DEVICE_ID) (ds_device_id s));
          b = snd (ykp_tlv_add_string b (tlv_code TLV_VALUE_STR) (ds_device_name s));
          b = snd (ykp_tlv_add_string b (tlv_code TLV_VALUE_STR) (ds_device_type s));
          b = snd (ykp_tlv_add_string b (tlv_code TLV_FIRMWARE_VER) YKP_FIRMWARE_VERSION);
          b = snd (ykp_tlv_add_uint32 b (tlv_code TLV_IP_ADDRESS) (ip_raw ip));
          b = snd (ykp_tlv_add_uint8 b (tlv_code TLV_CAPABILITIES) (CAP_RELAY OR CAP_OTA))
      in ykp_tlv_builder_len b)"

definition ykp_discovery_handle ::
  "bool \<Rightarrow> bool \<Rightarrow> int \<Rightarrow> (bytes \<Rightarrow> u32) \<Rightarrow> udp \<Rightarrow> wifi \<Rightarrow> discovery \<Rightarrow> bytes \<Rightarrow> bytes \<Rightarrow> u16 \<Rightarrow> bytes \<Rightarrow> u16 \<Rightarrow>
   fault + bytes \<times> event list" where
  "ykp_discovery_handle calloc_ok malloc_ok sent ip_raw u w s rx data len from_ip from_port =
     bindE (ykp_packet_parse data len zero_packet rx) (\<lambda>(ok, pkt, rx).
       if \<not> ok then Inr (rx, [])
       else
         let free_payload = (if p_payload pkt \<noteq> PNull then free_ptr (p_payload pkt) else Inr ())
         in if h_service_id (p_header pkt) \<noteq> service_code SVC_DISCOVERY \<or>
               h_action_id (p_header pkt) \<noteq> disc_action_code DISC_REQUEST
            then bindE free_payload (\<lambda>_. Inr (rx, []))
            else bindE free_payload (\<lambda>_.
              bindE (wifi_manager_get_ip (replicate 20 0) 20 w) (\<lambda>ip.
              let (n, b) = disc_reply ip_raw s (cstr ip)
              in bindE (tx_packet calloc_ok malloc_ok True
                   (\<lambda>p. ykp_packet_set_header p 0 0 (Some (ds_device_id s)) (Some (ascii ''DISC''))
                         ROUTE_DIRECT SVC_DISCOVERY (disc_action_code DISC_REPLY) YKP_QOS_0 False)
                   (Some (tb_buf b, n)) 300) (\<lambda>evs.
                   Inr (rx, deliver (\<lambda>f. snd (ykp_udp_send sent u from_ip from_port f)) evs)))))"

definition ykp_discovery_start_task :: "event list" where
  "ykp_discovery_start_task = [SpawnTask ''discovery'']"

section \<open>The reply\<close>

definition disc_entries :: "discovery \<Rightarrow> u32 \<Rightarrow> (u8 \<times> cval) list" where
  "disc_entries s ip =
     [(tlv_code TLV_DEVICE_ID, VStr (ds_device_id s)), (tlv_code TLV_VALUE_STR, VStr (ds_device_name s)),
      (tlv_code TLV_VALUE_STR, VStr (ds_device_type s)), (tlv_code TLV_FIRMWARE_VER, VStr YKP_FIRMWARE_VERSION),
      (tlv_code TLV_IP_ADDRESS, VUint (ucast ip)), (tlv_code TLV_CAPABILITIES, VUint (ucast (CAP_RELAY OR CAP_OTA)))]"

definition disc_header :: "discovery \<Rightarrow> ykp_header_t" where
  "disc_header s = fresh_header 0 0 (Some (ds_device_id s)) (Some (ascii ''DISC''))
     ROUTE_DIRECT SVC_DISCOVERY (disc_action_code DISC_REPLY) YKP_QOS_0 False"

lemma entry_string: "length (entry_bytes (tlv_code t, VStr s)) \<le> 4 + length s"
  by (simp add: entry_bytes_def key_bytes_def str_bytes_def str_head_def)

lemmas string_room = str_adder.add_room [OF _ order_trans [OF entry_string]]

lemma disc_fill:
  assumes "length (ds_device_id s) \<le> 8" "length (ds_device_name s) \<le> 31" "length (ds_device_type s) \<le> 15"
  shows "tb_fill (snd (ykp_tlv_add_uint8 (snd (ykp_tlv_add_uint32 (snd (ykp_tlv_add_string (snd (ykp_tlv_add_string
      (snd (ykp_tlv_add_string (snd (ykp_tlv_add_string (ykp_tlv_builder_init (replicate 200 0) 200)
      (tlv_code TLV_DEVICE_ID) (ds_device_id s))) (tlv_code TLV_VALUE_STR) (ds_device_name s)))
      (tlv_code TLV_VALUE_STR) (ds_device_type s))) (tlv_code TLV_FIRMWARE_VER) YKP_FIRMWARE_VERSION))
      (tlv_code TLV_IP_ADDRESS) ip)) (tlv_code TLV_CAPABILITIES) (CAP_RELAY OR CAP_OTA)))
    200 (0 + 12 + 35 + 19 + 9 + 11 + 11)
    (((((([] @ [(tlv_code TLV_DEVICE_ID, VStr (ds_device_id s))]) @ [(tlv_code TLV_VALUE_STR, VStr (ds_device_name s))])
      @ [(tlv_code TLV_VALUE_STR, VStr (ds_device_type s))]) @ [(tlv_code TLV_FIRMWARE_VER, VStr YKP_FIRMWARE_VERSION)])
      @ [(tlv_code TLV_IP_ADDRESS, VUint (ucast ip))]) @ [(tlv_code TLV_CAPABILITIES, VUint (ucast (CAP_RELAY OR CAP_OTA)))])"
  by (intro u8_adder.add_fill [OF _ entry_small(1)] u32_adder.add_fill [OF _ entry_small(1)] string_room fill_init)
    (use assms in \<open>simp_all add: YKP_FIRMWARE_VERSION_def\<close>)

lemma disc_tx:
  assumes "length (ds_device_id s) \<le> 8" "length (ds_device_name s) \<le> 31" "length (ds_device_type s) \<le> 15"
  shows "tx_packet True True True (\<lambda>p. ykp_packet_set_header p 0 0 (Some (ds_device_id s)) (Some (ascii ''DISC''))
      ROUTE_DIRECT SVC_DISCOVERY (disc_action_code DISC_REPLY) YKP_QOS_0 False)
      (Some (tb_buf (snd (disc_reply f s ip)), fst (disc_reply f s ip))) 300 =
    Inr [TxFrame (plain_frame (disc_header s) (map_bytes (disc_entries s (f ip))))]"
  unfolding disc_reply_def Let_def disc_header_def
  by (subst fill_frame [OF disc_fill [OF assms, of "f ip"]]) (simp_all add: disc_entries_def)

lemma get_ip_ok:
  assumes "field_ok 20 (wf_ip w)"
  shows "\<exists>out. wifi_manager_get_ip (replicate 20 0) 20 w = Inr out \<and> cstr out = cstr (wf_ip w)"
proof -
  have "length (cstr (wf_ip w)) < 20" by (rule field_cstr [OF assms])
  then show ?thesis
    using strncpy_field_ok [of "replicate 20 0" 20 "cstr (wf_ip w)"] rd_field [OF assms]
    by (auto simp: wifi_manager_get_ip_def)
qed

section \<open>Properties\<close>

text \<open>
  What discovery does with a well-formed frame depends on its payload first: with one, the handler
  frees the static receive buffer, whatever the service and action. Without, a discovery request
  is answered by one datagram to its sender with the device's identity and address, and any
  other packet is ignored.
\<close>

lemma discovery_outcomes:
  assumes h: "length (h_source_id h) = 8" "length (h_dest_id h) = 8" "length tag = 16"
    and "length pl \<le> 512" "length rx = 512"
    and s: "length (ds_device_id s) \<le> 8" "length (ds_device_name s) \<le> 31" "length (ds_device_type s) \<le> 15"
    and w: "field_ok 20 (wf_ip w)" and "ud_sock u"
  shows "ykp_discovery_handle True True sent ip_raw u w s rx (tagged_frame h pl tag)
      (of_nat (length (tagged_frame h pl tag))) from_ip from_port =
    (if pl \<noteq> [] then Inl InvalidFree
     else Inr (rx, if h_service_id h = service_code SVC_DISCOVERY \<and> h_action_id h = disc_action_code DISC_REQUEST
       then [UdpTo from_ip from_port (plain_frame (disc_header s)
               (map_bytes (disc_entries s (ip_raw (cstr (wf_ip w))))))]
       else []))"
proof (cases "pl = []")
  case True
  obtain out where o: "wifi_manager_get_ip (replicate 20 0) 20 w = Inr out" "cstr out = cstr (wf_ip w)"
    using get_ip_ok [OF w] by blast
  have p: "ykp_packet_parse (tagged_frame h pl tag) (of_nat (length (tagged_frame h pl tag))) zero_packet rx =
      Inr (True, received h pl tag, write_at rx 0 pl)" by (rule parse_frame) (use assms in simp_all)
  have r: "p_payload (received h pl tag) = PNull" "h_service_id (p_header (received h pl tag)) = h_service_id h"
    "h_action_id (p_header (received h pl tag)) = h_action_id h" using True by (simp_all add: received_def)
  have e: "deliver (\<lambda>f. snd (ykp_udp_send sent u from_ip from_port f)) [TxFrame f] = [UdpTo from_ip from_port f]" for f
    using assms by (simp add: ykp_udp_send_def)
  show ?thesis
    unfolding ykp_discovery_handle_def p bindE_simps prod.case r o case_prod_beta Let_def disc_tx [OF s] e
    using True by (simp add: write_at_def received_def)
next
  case False
  have p: "ykp_packet_parse (tagged_frame h pl tag) (of_nat (length (tagged_frame h pl tag))) zero_packet rx =
      Inr (True, received h pl tag, write_at rx 0 pl)" by (rule parse_frame) (use assms in simp_all)
  have r: "p_payload (received h pl tag) = PStatic" using False by (simp add: received_def)
  show ?thesis unfolding ykp_discovery_handle_def p bindE_simps prod.case r Let_def
    using False by (simp add: free_ptr_def)
qed

definition disc_anon :: discovery where
  "disc_anon = \<lparr>ds_device_id = [], ds_device_type = [], ds_device_name = ascii ''YKP-''\<rparr>"

lemma discovery_outcomes_instance:
  "ykp_discovery_handle True True 0 (\<lambda>_. 0) (udp_zero\<lparr>ud_sock := True\<rparr>) wifi_zero disc_anon (replicate 512 0)
     (tagged_frame (zero_header\<lparr>h_service_id := 7, h_action_id := 1\<rparr>) [0xBF, 0xFF] (replicate 16 0))
     (of_nat (length (tagged_frame (zero_header\<lparr>h_service_id := 7, h_action_id := 1\<rparr>) [0xBF, 0xFF] (replicate 16 0)))) [] 9 =
   Inl InvalidFree"
proof -
  have f: "field_ok 20 (wf_ip wifi_zero)" by (simp add: wifi_zero_def)
  from discovery_outcomes [OF _ _ _ _ _ _ _ _ f, of "zero_header\<lparr>h_service_id := 7, h_action_id := 1\<rparr>" "replicate 16 0"
      "[0xBF, 0xFF]" "replicate 512 0" disc_anon "udp_zero\<lparr>ud_sock := True\<rparr>" 0 "\<lambda>_. 0" "[]" 9]
  show ?thesis by (simp add: zero_header_def disc_anon_def del: of_nat_add)
qed

end
