(* ===== verification/Firmware.thy ===== *)
theory Firmware
  imports Relay Ota Reports Qos Replay Session Websocket Wifi Ble_Protocol
begin

text \<open>
  The firmware put together: \<open>main/main.c\<close>. The record \<open>firmware\<close> holds the static variables of
  \<open>main.c\<close> and the state of every component it calls; \<open>fw_rx\<close> is the receive buffer of the
  parser. \<open>fenv\<close> is what one handler finds outside: the crypto library, whether the
  allocations succeed, readings of the clock and the sensors, the WebSocket client's view of the
  connection.

  The tasks of the firmware (the WebSocket client, the timer service, the connection manager, the
  main loop) run the handlers below; a handler is one step. A handler that can reach
  \<open>ykp_tlv_find\<close> is a computation of \<open>'a comp\<close>, which may not return. What is printed is left out.
\<close>

record firmware =
  fw_sec :: ykp_security_ctx_t
  fw_pool :: mbedtls_pool
  fw_session :: ykp_session_t
  fw_replay :: ykp_replay_ctx_t
  fw_qos :: ykp_qos_engine_t
  fw_rtt :: u32
  fw_device_id :: bytes
  fw_device_type :: bytes
  fw_server_url :: bytes
  fw_relay :: relay
  fw_sensor :: sensor
  fw_health :: health
  fw_ota :: ota
  fw_ws :: ws
  fw_wifi :: wifi
  fw_rx :: bytes

record fenv =
  fe_psa :: psa
  fe_calloc :: bool
  fe_malloc :: bool
  fe_timer :: bool
  fe_ota :: ota_env
  fe_ble :: bool
  fe_ws_up :: bool
  fe_sent :: int
  fe_now :: int
  fe_free_heap :: u32
  fe_min_heap :: u32
  fe_tasks :: u32
  fe_rssi :: u8
  fe_uptime :: u64
  fe_reading :: sensor_reading_t
  fe_now_sec :: u64

section \<open>Sending\<close>

definition ykp_send_packet :: "fenv \<Rightarrow> ws \<Rightarrow> bytes \<Rightarrow> event list" where
  "ykp_send_packet env w data =
     (if ykp_ws_is_connected (fe_ws_up env) w then snd (ykp_ws_send (fe_sent env) w data) else [])"

text \<open>The events of a service whose send callback is \<open>ykp_send_packet\<close>.\<close>

abbreviation via_ws :: "fenv \<Rightarrow> firmware \<Rightarrow> event list \<Rightarrow> event list" where
  "via_ws env fw evs \<equiv> deliver (ykp_send_packet env (fw_ws fw)) evs"

definition qos_timer_callback :: "fenv \<Rightarrow> firmware \<Rightarrow> firmware \<times> event list" where
  "qos_timer_callback env fw =
     (let (q, evs) = ykp_qos_tick (fw_qos fw) (fe_now env) in (fw\<lparr>fw_qos := q\<rparr>, via_ws env fw evs))"

section \<open>The handshake\<close>

definition hello_payload :: "firmware \<Rightarrow> u16 \<times> ykp_tlv_builder_t" where
  "hello_payload fw =
     (let b = ykp_tlv_builder_init (replicate 128 0) 128;
          b = snd (ykp_tlv_add_string b (tlv_code TLV_DEVICE_ID) (fw_device_id fw));
          b = snd (ykp_tlv_add_bytes b (tlv_code TLV_PUBLIC_KEY) (sc_ephemeral_public (fw_sec fw)));
          b = snd (ykp_tlv_add_string b (tlv_code TLV_FIRMWARE_VER) YKP_FIRMWARE_VERSION)
      in ykp_tlv_builder_len b)"

text \<open>
  The end of \<open>send_hello\<close> and of \<open>send_ecdh_response\<close>: the packet is sent to the server by
  \<open>ykp_ws_send\<close>, and the session enters the next state whether or not it was sent.
\<close>

definition send_security ::
  "fenv \<Rightarrow> firmware \<Rightarrow> ykp_sec_action_t \<Rightarrow> u16 \<times> ykp_tlv_builder_t \<Rightarrow> ykp_session_state_t \<Rightarrow>
   fault + firmware \<times> event list" where
  "send_security env fw action payload state =
     (if ykp_packet_alloc (fe_calloc env) = None then Inr (fw, [])
      else
        let (pid, s) = ykp_session_next_packet_id (fw_session fw) (fe_now env)
        in bindE (tx_packet (fe_calloc env) (fe_malloc env) True
             (\<lambda>p. ykp_packet_set_header p pid 0 (Some (fw_device_id fw)) (Some (ascii ''SERVER''))
                   ROUTE_CLOUD SVC_SECURITY (sec_action_code action) YKP_QOS_1 False)
             (Some (tb_buf (snd payload), fst payload)) 256) (\<lambda>evs.
             Inr (fw\<lparr>fw_session := s\<lparr>ss_state := state\<rparr>\<rparr>,
                  deliver (\<lambda>d. snd (ykp_ws_send (fe_sent env) (fw_ws fw) d)) evs)))"

definition send_hello :: "fenv \<Rightarrow> firmware \<Rightarrow> fault + firmware \<times> event list" where
  "send_hello env fw =
     (let (ok, sec, pool) = ykp_security_gen_ephemeral (fe_psa env) (fw_pool fw) (fw_sec fw);
          fw = fw\<lparr>fw_sec := sec, fw_pool := pool\<rparr>
      in if \<not> ok then Inr (fw, [])
         else send_security env fw SEC_HELLO (hello_payload fw) SESSION_STATE_HELLO_SENT)"

definition YKP_ECDSA_SIG_LEN :: nat where "YKP_ECDSA_SIG_LEN = 64"

definition ecdh_payload :: "firmware \<Rightarrow> bytes \<Rightarrow> u16 \<times> ykp_tlv_builder_t" where
  "ecdh_payload fw signature =
     (let b = ykp_tlv_builder_init (replicate 128 0) 128;
          b = snd (ykp_tlv_add_string b (tlv_code TLV_DEVICE_ID) (fw_device_id fw));
          b = snd (ykp_tlv_add_bytes b (tlv_code TLV_SIGNATURE) signature)
      in ykp_tlv_builder_len b)"

text \<open>The signature is written to an array of 64 bytes on the stack.\<close>

definition send_ecdh_response :: "fenv \<Rightarrow> firmware \<Rightarrow> fault + firmware \<times> event list" where
  "send_ecdh_response env fw =
     (case ykp_security_sign (fe_psa env) (fw_sec fw) (ss_server_nonce (fw_session fw)) of
        None \<Rightarrow> Inr (fw, [])
      | Some sig \<Rightarrow>
          bindE (wr_bytes (replicate YKP_ECDSA_SIG_LEN 0) 0 sig) (\<lambda>signature.
            send_security env fw SEC_ECDH_RESPONSE (ecdh_payload fw signature) SESSION_STATE_ECDH_SENT))"

section \<open>Incoming packets\<close>

text \<open>\<open>pkt.payload && ykp_tlv_find(pkt.payload, pkt.payload_len, type, &tlv)\<close>.\<close>

definition payload_find :: "firmware \<Rightarrow> ykp_packet_t \<Rightarrow> ykp_tlv_type_t \<Rightarrow> ykp_tlv_t option comp" where
  "payload_find fw pkt ty =
     (if p_payload pkt = PNull then retC None
      else ykp_tlv_find (payload_mem (fw_rx fw) pkt) (p_payload_len pkt) (tlv_code ty))"

definition on_challenge :: "fenv \<Rightarrow> firmware \<Rightarrow> ykp_packet_t \<Rightarrow> (firmware \<times> event list) comp" where
  "on_challenge env fw pkt =
     bindC (payload_find fw pkt TLV_NONCE) (\<lambda>nonce.
     bindC (case nonce of
              None \<Rightarrow> retC fw
            | Some tlv \<Rightarrow>
                liftC (bindE (ykp_session_store_nonce (fw_session fw) (tlv_value tlv) (tlv_length tlv)) (\<lambda>s.
                  Inr (fw\<lparr>fw_session := s\<rparr>)))) (\<lambda>fw.
     bindC (payload_find fw pkt TLV_PUBLIC_KEY) (\<lambda>key.
     bindC (case key of
              None \<Rightarrow> retC fw
            | Some tlv \<Rightarrow>
                liftC (bindE (rd_bytes (tlv_value tlv) 0 YKP_EC_PUBKEY_LEN) (\<lambda>srv_pub.
                  bindE (ykp_security_derive_session_key (fe_psa env) (fw_sec fw) srv_pub
                           (ss_server_nonce (fw_session fw)) (of_nat YKP_NONCE_LEN) (h_packet_id (p_header pkt))) (\<lambda>(ok, sec).
                    Inr (fw\<lparr>fw_sec := sec\<rparr>))))) (\<lambda>fw.
     liftC (send_ecdh_response env fw)))))"

definition on_session_active :: "fenv \<Rightarrow> firmware \<Rightarrow> ykp_packet_t \<Rightarrow> (firmware \<times> event list) comp" where
  "on_session_active env fw pkt =
     bindC (payload_find fw pkt TLV_VALUE_INT) (\<lambda>found.
     bindC (case found of
              None \<Rightarrow> retC (h_packet_id (p_header pkt))
            | Some tlv \<Rightarrow>
                liftC (bindE (ykp_tlv_read_uint32 tlv) (\<lambda>v.
                  Inr (case v of None \<Rightarrow> h_packet_id (p_header pkt) | Some i \<Rightarrow> i)))) (\<lambda>session_id.
     retC (fw\<lparr>fw_session := ykp_session_set_active (fw_session fw) (fe_now env) session_id,
              fw_sec := (fw_sec fw)\<lparr>sc_session := (sc_session (fw_sec fw))\<lparr>sk_session_id := session_id\<rparr>\<rparr>,
              fw_replay := ykp_replay_reset (fw_replay fw)\<rparr>, [])))"

text \<open>A reset of the session and a new handshake: on \<open>SEC_KEY_ROTATE\<close> and when the main loop finds rotation due.\<close>

definition reauthenticate :: "fenv \<Rightarrow> firmware \<Rightarrow> fault + firmware \<times> event list" where
  "reauthenticate env fw =
     (let (s, sec) = ykp_session_reset (fw_session fw) (fw_sec fw)
      in send_hello env (fw\<lparr>fw_session := s, fw_sec := sec\<rparr>))"

definition handle_security :: "fenv \<Rightarrow> firmware \<Rightarrow> ykp_packet_t \<Rightarrow> (firmware \<times> event list) comp" where
  "handle_security env fw pkt =
     (case sec_action_decode (h_action_id (p_header pkt)) of
        Some SEC_CHALLENGE \<Rightarrow> on_challenge env fw pkt
      | Some SEC_SESSION_ACTIVE \<Rightarrow> on_session_active env fw pkt
      | Some SEC_KEY_ROTATE \<Rightarrow> liftC (reauthenticate env fw)
      | _ \<Rightarrow> retC (fw, []))"

text \<open>The sender's id in the header has no terminator: \<open>strncpy\<close> reads it up to the first zero or to its eight bytes.\<close>

definition dispatch_service :: "fenv \<Rightarrow> firmware \<Rightarrow> ykp_packet_t \<Rightarrow> (firmware \<times> event list) comp" where
  "dispatch_service env fw pkt =
     (let h = p_header pkt
      in case service_decode (h_service_id h) of
           Some SVC_RELAY \<Rightarrow>
             liftC (bindE (relay_service_handle (fe_calloc env) (fe_malloc env) (fe_ble env) (fw_relay fw)
               (h_action_id h) (h_packet_id h) (h_session_id h) (cstr (h_source_id h))) (\<lambda>(r, evs).
               Inr (fw\<lparr>fw_relay := r\<rparr>, via_ws env fw evs)))
         | Some SVC_SENSOR \<Rightarrow>
             liftC (bindE (sensor_service_send_report (fe_calloc env) (fe_malloc env) (fw_sensor fw) (fe_reading env)
               (fe_now_sec env)) (\<lambda>evs. Inr (fw, via_ws env fw evs)))
         | Some SVC_HEALTH \<Rightarrow>
             if h_action_id h = health_action_code HEALTH_REQUEST
             then liftC (bindE (health_service_send_report (fe_calloc env) (fe_malloc env) (fw_health fw) (fe_free_heap env)
               (fe_min_heap env) (fe_tasks env) (fe_rssi env) (fe_uptime env) (fw_rtt fw)) (\<lambda>evs.
               Inr (fw, via_ws env fw evs)))
             else retC (fw, [])
         | Some SVC_OTA \<Rightarrow>
             bindC (ota_service_handle (fe_ota env) (fw_ota fw) (payload_mem (fw_rx fw) pkt) (p_payload_len pkt)
               (h_action_id h)) (\<lambda>(u, evs). retC (fw\<lparr>fw_ota := u\<rparr>, via_ws env fw evs))
         | _ \<Rightarrow> retC (fw, []))"

text \<open>
  Decryption in place: the payload is in the receive buffer. \<open>None\<close> is a payload that does not authenticate,
  \<open>raw\<close> the frame, whose header is the additional data.
\<close>

definition decrypt_payload :: "fenv \<Rightarrow> firmware \<Rightarrow> bytes \<Rightarrow> ykp_packet_t \<Rightarrow> fault + firmware option" where
  "decrypt_payload env fw raw pkt =
     (if h_flags (p_header pkt) AND YKP_FLAG_ENCRYPTED \<noteq> 0 \<and> p_payload pkt \<noteq> PNull
      then bindE (rd_bytes raw 0 YKP_HEADER_SIZE) (\<lambda>aad.
           bindE (rd_bytes (payload_mem (fw_rx fw) pkt) 0 (unat (p_payload_len pkt))) (\<lambda>ciphertext.
           case ykp_security_decrypt (fe_psa env) (sc_session (fw_sec fw)) (h_packet_id (p_header pkt))
                  aad ciphertext (p_auth_tag pkt) of
             None \<Rightarrow> Inr None
           | Some plain \<Rightarrow> bindE (wr_bytes (fw_rx fw) 0 plain) (\<lambda>rx. Inr (Some (fw\<lparr>fw_rx := rx\<rparr>)))))
      else Inr (Some fw))"

definition handle_packet :: "fenv \<Rightarrow> firmware \<Rightarrow> bytes \<Rightarrow> ykp_packet_t \<Rightarrow> (firmware \<times> event list) comp" where
  "handle_packet env fw raw pkt =
     (let h = p_header pkt
      in if h_flags h AND YKP_FLAG_ACK \<noteq> 0
         then let (q, rtt, evs) = ykp_qos_ack (fw_qos fw) (fe_now env) (fw_rtt fw) (h_packet_id h)
           in retC (fw\<lparr>fw_qos := q, fw_rtt := rtt\<rparr>, evs)
         else if h_service_id h = service_code SVC_SECURITY then handle_security env fw pkt
         else if \<not> ykp_session_is_active (fw_session fw) then retC (fw, [])
         else
           let (fresh, replay) = ykp_replay_check (fw_replay fw) (h_packet_id h);
               fw = fw\<lparr>fw_replay := replay\<rparr>
           in if \<not> fresh then retC (fw, [])
              else bindC (liftC (decrypt_payload env fw raw pkt)) (\<lambda>decrypted.
                case decrypted of None \<Rightarrow> retC (fw, []) | Some fw \<Rightarrow> dispatch_service env fw pkt))"

definition handle_incoming_packet :: "fenv \<Rightarrow> firmware \<Rightarrow> bytes \<Rightarrow> u16 \<Rightarrow> (firmware \<times> event list) comp" where
  "handle_incoming_packet env fw raw raw_len =
     bindC (liftC (ykp_packet_parse raw raw_len zero_packet (fw_rx fw))) (\<lambda>(ok, pkt, rx).
       let fw = fw\<lparr>fw_rx := rx\<rparr>
       in if \<not> ok then retC (fw, [])
          else bindC (handle_packet env fw raw pkt) (\<lambda>(fw, evs).
            bindC (liftC (if p_payload pkt \<noteq> PNull then ykp_packet_free_payload (Some pkt) else Inr (Some pkt))) (\<lambda>_.
              retC (fw, evs))))"

section \<open>Connections\<close>

definition on_ws_connected :: "fenv \<Rightarrow> firmware \<Rightarrow> fault + firmware \<times> event list" where
  "on_ws_connected env fw = bindE (send_hello env fw) (\<lambda>(fw, evs). Inr (fw, DelayMs 500 # evs))"

definition on_ws_disconnected :: "firmware \<Rightarrow> firmware" where
  "on_ws_disconnected fw =
     (let (s, sec) = ykp_session_reset (fw_session fw) (fw_sec fw) in fw\<lparr>fw_session := s, fw_sec := sec\<rparr>)"

text \<open>An event of the WebSocket client: the handler of the transport and the callback it makes.\<close>

definition ws_event_step :: "fenv \<Rightarrow> firmware \<Rightarrow> ws_event \<Rightarrow> (firmware \<times> event list) comp" where
  "ws_event_step env fw e =
     (let (w, cb) = ws_event_handler e (fw_ws fw); fw = fw\<lparr>fw_ws := w\<rparr>
      in case cb of
           None \<Rightarrow> retC (fw, [])
         | Some CbConnected \<Rightarrow> liftC (on_ws_connected env fw)
         | Some CbDisconnected \<Rightarrow> retC (on_ws_disconnected fw, [])
         | Some (CbRx data len) \<Rightarrow> handle_incoming_packet env fw data len)"

text \<open>The number of waits for the time: \<open>timeout i\<close> is whether wait \<open>i\<close> times out.\<close>

function sntp_waits :: "(nat \<Rightarrow> bool) \<Rightarrow> nat \<Rightarrow> nat" where
  "sntp_waits timeout retry =
     (if timeout retry \<and> retry + 1 < 10 then sntp_waits timeout (retry + 1) else retry + 1)"
  by auto
termination by (relation "measure (\<lambda>(_, retry). 10 - retry)") auto

text \<open>The waits of up to a second each, if SNTP starts, and the start of the client; the log line of the address is left out.\<close>

definition on_wifi_connected :: "bool \<Rightarrow> (nat \<Rightarrow> bool) \<Rightarrow> bool \<Rightarrow> firmware \<Rightarrow> event list" where
  "on_wifi_connected sntp_started timeout ws_started fw =
     (if sntp_started then replicate (sntp_waits timeout 0) (DelayMs 1000) else []) @
     snd (ykp_ws_connect ws_started (fw_ws fw))"

text \<open>An event of the Wi-Fi driver; \<open>on_wifi_disconnected\<close> only logs the reason.\<close>

definition wifi_event_step ::
  "bool \<Rightarrow> (nat \<Rightarrow> bool) \<Rightarrow> bool \<Rightarrow> firmware \<Rightarrow> wifi_event \<Rightarrow> firmware \<times> event list" where
  "wifi_event_step sntp_started timeout ws_started fw e =
     (let (w, cbs) = wifi_event_handler e (fw_wifi fw); fw = fw\<lparr>fw_wifi := w\<rparr>
      in (fw, concat (map (\<lambda>cb. case cb of OnConnect ip \<Rightarrow> on_wifi_connected sntp_started timeout ws_started fw
                                     | OnDisconnect reason \<Rightarrow> []) cbs)))"

definition MAX_FAILS :: u32 where "MAX_FAILS = 90"

text \<open>The start of \<open>connection_manager_task\<close>: the credentials are read and the connection is started.\<close>

definition connection_manager_start :: "'n nvs_driver \<Rightarrow> 'n \<Rightarrow> firmware \<Rightarrow> firmware \<times> wifi_config" where
  "connection_manager_start d n fw =
     (let (w, cfg) = wifi_manager_connect_async
            (case nvs_config_get_wifi_ssid d n 64 of None \<Rightarrow> [] | Some s \<Rightarrow> s)
            (case nvs_config_get_wifi_password d n 64 of None \<Rightarrow> [] | Some p \<Rightarrow> p) (fw_wifi fw)
      in (fw\<lparr>fw_wifi := w\<rparr>, cfg))"

text \<open>A turn of its loop: the new count of failures and the restart.\<close>

definition connection_manager_turn :: "bool \<Rightarrow> ws \<Rightarrow> u32 \<Rightarrow> u32 \<times> event list" where
  "connection_manager_turn up w fail_count =
     (if \<not> ykp_ws_is_connected up w
      then let fail_count = fail_count + 1
        in (fail_count, DelayMs 2000 # (if MAX_FAILS \<le> fail_count then [Restart] else []))
      else (0, [DelayMs 2000]))"

section \<open>Start and main loop\<close>

datatype boot = BootHalted | BootProvisioning ble | BootRunning firmware

text \<open>
  The part of \<open>app_main\<close> after provisioning. The device id given to the services is what each reads from
  flash into its own array.
\<close>

definition start_services ::
  "fenv \<Rightarrow> (bytes \<Rightarrow> bool) \<Rightarrow> bool \<Rightarrow> 'n nvs_driver \<Rightarrow> 'n \<Rightarrow> firmware \<Rightarrow> boot \<times> 'n \<times> event list" where
  "start_services env x509_ok init_ok d n fw =
     (let dev = nvs_config_get_device_id d n 9;
          fw = fw\<lparr>fw_device_id := (case dev of None \<Rightarrow> fw_device_id fw | Some i \<Rightarrow> i),
                  fw_device_type := (case nvs_config_get_device_type d n 16 of None \<Rightarrow> fw_device_type fw | Some t \<Rightarrow> t),
                  fw_server_url := nvs_config_get_server_url d n 128\<rparr>;
          (ok, sec, n) = ykp_security_init (fe_psa env) d n;
          fw = fw\<lparr>fw_sec := sec\<rparr>
      in if \<not> ok then (BootHalted, n, [Restart])
         else
           let fw = fw\<lparr>fw_session := ykp_session_init, fw_replay := ykp_replay_init (fw_replay fw),
                       fw_qos := (ykp_qos_init True)\<lparr>qe_timer := fe_timer env\<rparr>\<rparr>;
               (_, w, pem, n) = ykp_ws_init x509_ok init_ok d n (fw_server_url fw) (fw_ws fw);
               w = ykp_ws_register_disconnected_cb True (ykp_ws_register_connected_cb True (ykp_ws_register_rx_cb True w));
               dev = nvs_config_get_device_id d n 9;
               (r, evs) = relay_service_init True True dev (fw_relay fw)
           in (BootRunning (fw\<lparr>fw_ws := w, fw_relay := r, fw_sensor := sensor_service_init True dev (fw_sensor fw),
                  fw_health := health_service_init True dev (nvs_config_get_u32 d n ''restart_count'') (fw_health fw),
                  fw_ota := ota_service_init True dev (fw_ota fw)\<rparr>),
               n, evs @ [SpawnTask ''conn_mgr'']))"

definition is_provisioned :: "'n nvs_driver \<Rightarrow> 'n \<Rightarrow> bool" where
  "is_provisioned d n \<longleftrightarrow> nvs_config_get_device_id d n 9 \<noteq> None \<and> nvs_config_get_wifi_ssid d n 64 \<noteq> None \<and>
     nvs_config_get_wifi_password d n 64 \<noteq> None"

text \<open>\<open>BootProvisioning\<close>: \<open>app_main\<close> waits for the Bluetooth service to stop and then restarts.\<close>

definition app_main ::
  "fenv \<Rightarrow> ble_lib \<Rightarrow> ble_alloc \<Rightarrow> ble \<Rightarrow> (bytes \<Rightarrow> bool) \<Rightarrow> bool \<Rightarrow> 'n nvs_driver \<Rightarrow> 'n \<Rightarrow> firmware \<Rightarrow>
   boot \<times> 'n \<times> event list" where
  "app_main env x al b x509_ok init_ok d n fw =
     (let (ok, n) = nvs_config_init d n
      in if \<not> ok then (BootHalted, n, [Restart])
         else
           let (restarts, n) = nvs_config_incr_restart_count d n;
               fw = fw\<lparr>fw_device_id := (case nvs_config_get_device_id d n 9 of None \<Rightarrow> fw_device_id fw | Some i \<Rightarrow> i),
                       fw_wifi := wifi_manager_register_callbacks True True (snd (wifi_manager_init (fw_wifi fw)))\<rparr>;
               (started, b) = (if \<not> is_provisioned d n then ykp_ble_provision_start x al b else (False, b))
           in if started then (BootProvisioning b, n, [])
              else start_services env x509_ok init_ok d n fw)"

text \<open>One turn of the main loop: the firmware, the counter and the events before the delay.\<close>

definition main_loop_turn :: "fenv \<Rightarrow> firmware \<Rightarrow> u32 \<Rightarrow> fault + firmware \<times> u32 \<times> event list" where
  "main_loop_turn env fw health_loop_counter =
     bindE (if ykp_session_rotation_due (fw_session fw) \<and> ykp_ws_is_connected (fe_ws_up env) (fw_ws fw)
            then reauthenticate env fw else Inr (fw, [])) (\<lambda>(fw, evs).
       let health_loop_counter = health_loop_counter + 1
       in if 12 \<le> health_loop_counter
          then bindE (if ykp_session_is_active (fw_session fw)
                      then health_service_send_report (fe_calloc env) (fe_malloc env) (fw_health fw) (fe_free_heap env)
                             (fe_min_heap env) (fe_tasks env) (fe_rssi env) (fe_uptime env) (fw_rtt fw)
                      else Inr []) (\<lambda>report. Inr (fw, 0, evs @ via_ws env fw report @ [DelayMs 5000]))
          else Inr (fw, health_loop_counter, evs @ [DelayMs 5000]))"

end
