(* ===== verification/Dispatch.thy ===== *)
theory Dispatch
  imports Firmware
begin

text \<open>
  What the packet dispatcher of \<open>main/main.c\<close> does: the composition of the parser, the replay window,
  decryption and the services, over single frames and over sequences of frames.
\<close>

section \<open>One frame\<close>

lemma bindC_retC [simp]: "bindC m retC = m"
  by (cases m; cases "the m") (auto simp: bindC_def retC_def split: sum.splits)

definition fw_ok :: "firmware \<Rightarrow> bool" where
  "fw_ok fw \<longleftrightarrow> length (fw_rx fw) = 512 \<and> length (ss_server_nonce (fw_session fw)) = 16 \<and>
     (\<exists>S. replay_abs (fw_replay fw) S)"

text \<open>The fields a well-formed frame is made of.\<close>

definition frame_ok :: "ykp_header_t \<Rightarrow> bytes \<Rightarrow> bytes \<Rightarrow> bool" where
  "frame_ok h pl tag \<longleftrightarrow> length (h_source_id h) = 8 \<and> length (h_dest_id h) = 8 \<and> length pl \<le> 512 \<and> length tag = 16"

abbreviation on_frame :: "fenv \<Rightarrow> firmware \<Rightarrow> bytes \<Rightarrow> (firmware \<times> event list) comp" where
  "on_frame env fw raw \<equiv> handle_incoming_packet env fw raw (of_nat (length raw))"

lemma free_done:
  "bindC (liftC (if p_payload pkt \<noteq> PNull then ykp_packet_free_payload (Some pkt) else Inr (Some pkt))) (\<lambda>_. m) = m"
  by (auto simp: ykp_packet_free_payload_def free_ptr_def liftC_def)

lemma on_frame_eq:
  assumes "frame_ok h pl tag" "length (fw_rx fw) = 512"
  shows "on_frame env fw (tagged_frame h pl tag) =
    handle_packet env (fw\<lparr>fw_rx := write_at (fw_rx fw) 0 pl\<rparr>) (tagged_frame h pl tag) (received h pl tag)"
proof -
  have p: "ykp_packet_parse (tagged_frame h pl tag) (of_nat (length (tagged_frame h pl tag))) zero_packet (fw_rx fw) =
      Inr (True, received h pl tag, write_at (fw_rx fw) 0 pl)"
    by (rule parse_frame) (use assms in \<open>simp_all add: frame_ok_def\<close>)
  have r: "(\<lambda>(fw, evs). retC (fw, evs)) = retC" by (simp add: fun_eq_iff)
  show ?thesis unfolding handle_incoming_packet_def p liftC_simps bindC_simps prod.case Let_def free_done r by simp
qed

text \<open>A packet for a service in an active session.\<close>

definition service_packet :: "ykp_header_t \<Rightarrow> bool" where
  "service_packet h \<longleftrightarrow> h_flags h AND YKP_FLAG_ACK = 0 \<and> h_service_id h \<noteq> service_code SVC_SECURITY"

lemma handle_service:
  assumes "service_packet (p_header pkt)" "ykp_session_is_active (fw_session fw)" "replay_abs (fw_replay fw) S"
  shows "handle_packet env fw raw pkt =
    (let fw' = fw\<lparr>fw_replay := snd (ykp_replay_check (fw_replay fw) (h_packet_id (p_header pkt)))\<rparr>
     in if \<not> replay_spec S (h_packet_id (p_header pkt)) then retC (fw', [])
        else bindC (liftC (decrypt_payload env fw' raw pkt)) (\<lambda>decrypted.
          case decrypted of None \<Rightarrow> retC (fw', []) | Some fw \<Rightarrow> dispatch_service env fw pkt))"
  using check_refines [OF assms(3), of "h_packet_id (p_header pkt)"] assms
  by (simp add: handle_packet_def service_packet_def case_prod_beta Let_def)

lemma decrypt_plain:
  "h_flags (p_header pkt) AND YKP_FLAG_ENCRYPTED = 0 \<or> p_payload pkt = PNull \<Longrightarrow> decrypt_payload env fw raw pkt = Inr (Some fw)"
  by (auto simp: decrypt_payload_def)

section \<open>A relay command\<close>

definition relay_after :: "u8 \<Rightarrow> relay \<Rightarrow> relay" where
  "relay_after action r = r\<lparr>rl_state := (if action = 1 then True else if action = 2 then False
     else if action = 3 then \<not> rl_state r else rl_state r)\<rparr>"

lemma relay_handle_eq:
  assumes "action \<in> {1, 2, 3, 4}" "rl_send r"
  shows "relay_service_handle True True ble r action pid sid dst =
    Inr (relay_after action r, (if action = 4 then [] else set_outputs (rl_state (relay_after action r))) @
      TxFrame (plain_frame (ack_header (relay_after action r) pid sid dst) (map_bytes (ack_entries (relay_after action r)))) #
      notify_ble_sync ble (relay_after action r))"
  using assms
  by (auto simp: relay_service_handle_def relay_action_decode_def send_ack_eq relay_after_def Let_def)

lemma deliver_other:
  "deliver f (set_outputs b) = set_outputs b" "deliver f (notify_ble_sync ble r) = notify_ble_sync ble r"
  by (simp_all add: deliver_def set_outputs_def notify_ble_sync_def)

definition link_up :: "fenv \<Rightarrow> firmware \<Rightarrow> bool" where
  "link_up env fw \<longleftrightarrow> fe_ws_up env \<and> ws_client (fw_ws fw) \<and> ws_connected (fw_ws fw)"

lemma send_link_up: "link_up env fw \<Longrightarrow> ykp_send_packet env (fw_ws fw) d = [WsSend d]"
  by (simp add: link_up_def ykp_send_packet_def ykp_ws_is_connected_def ykp_ws_send_def)

lemma relay_frame:
  assumes f: "frame_ok h pl tag" "length (fw_rx fw) = 512"
    and s: "ykp_session_is_active (fw_session fw)" "replay_abs (fw_replay fw) S" "replay_spec S (h_packet_id h)"
    and h: "h_flags h AND YKP_FLAG_ACK = 0" "h_service_id h = service_code SVC_RELAY" "h_action_id h \<in> {1, 2, 3, 4}"
    and p: "h_flags h AND YKP_FLAG_ENCRYPTED = 0 \<or> pl = []"
    and e: "fe_calloc env" "fe_malloc env" "link_up env fw" "rl_send (fw_relay fw)"
  shows "on_frame env fw (tagged_frame h pl tag) =
    Some (Inr (fw\<lparr>fw_rx := write_at (fw_rx fw) 0 pl,
        fw_replay := snd (ykp_replay_check (fw_replay fw) (h_packet_id h)),
        fw_relay := relay_after (h_action_id h) (fw_relay fw)\<rparr>,
      (if h_action_id h = 4 then [] else set_outputs (rl_state (relay_after (h_action_id h) (fw_relay fw)))) @
      WsSend (plain_frame (ack_header (relay_after (h_action_id h) (fw_relay fw)) (h_packet_id h) (h_session_id h)
        (cstr (h_source_id h))) (map_bytes (ack_entries (relay_after (h_action_id h) (fw_relay fw))))) #
      notify_ble_sync (fe_ble env) (relay_after (h_action_id h) (fw_relay fw))))"
proof -
  let ?fw = "fw\<lparr>fw_rx := write_at (fw_rx fw) 0 pl\<rparr>"
  have sp: "service_packet (p_header (received h pl tag))" using h by (simp add: service_packet_def)
  have dp: "decrypt_payload env g raw (received h pl tag) = Inr (Some g)" for g raw
    by (rule decrypt_plain) (use p in auto)
  have up: "ykp_send_packet env (fw_ws fw) d = [WsSend d]" for d by (rule send_link_up [OF e(3)])
  have "service_decode (h_service_id h) = Some SVC_RELAY" by (simp add: h(2) svc.decode_code del: service_code.simps)
  then show ?thesis
    unfolding on_frame_eq [OF f] using s handle_service [OF sp, of ?fw S env "tagged_frame h pl tag"] e
    by (simp add: Let_def dp dispatch_service_def relay_handle_eq [OF h(3) e(4)] deliver_other up retC_def)
qed

text \<open>
  C5. From frame to pin: in an active session a relay command whose id is fresh, not encrypted or without
  payload, sets both outputs, is acknowledged to the server with the command's ids and the new
  state, and marks its id as seen; nothing else of the firmware changes.
\<close>

theorem relay_command_executed:
  assumes f: "frame_ok h pl tag" "length (fw_rx fw) = 512"
    and s: "ykp_session_is_active (fw_session fw)" "replay_abs (fw_replay fw) S" "replay_spec S (h_packet_id h)"
    and h: "h_flags h AND YKP_FLAG_ACK = 0" "h_service_id h = service_code SVC_RELAY" "h_action_id h \<in> {1, 2, 3, 4}"
    and p: "h_flags h AND YKP_FLAG_ENCRYPTED = 0 \<or> pl = []"
    and e: "fe_calloc env" "fe_malloc env" "link_up env fw" "rl_send (fw_relay fw)"
  shows "on_frame env fw (tagged_frame h pl tag) =
    Some (Inr (fw\<lparr>fw_rx := write_at (fw_rx fw) 0 pl,
        fw_replay := snd (ykp_replay_check (fw_replay fw) (h_packet_id h)),
        fw_relay := relay_after (h_action_id h) (fw_relay fw)\<rparr>,
      (if h_action_id h = 4 then [] else set_outputs (rl_state (relay_after (h_action_id h) (fw_relay fw)))) @
      WsSend (plain_frame (ack_header (relay_after (h_action_id h) (fw_relay fw)) (h_packet_id h) (h_session_id h)
        (cstr (h_source_id h))) (map_bytes (ack_entries (relay_after (h_action_id h) (fw_relay fw))))) #
      notify_ble_sync (fe_ble env) (relay_after (h_action_id h) (fw_relay fw))))"
  by (rule relay_frame [OF assms])

text \<open>A running firmware in an active session, and its surroundings.\<close>

definition fw_run0 :: firmware where
  "fw_run0 =
     \<lparr>fw_sec = security_ctx_zero\<lparr>sc_session := session_keys_zero\<lparr>sk_active := True\<rparr>\<rparr>,
      fw_pool = \<lparr>mp_mem = replicate 8192 0, mp_offset = 0\<rparr>,
      fw_session = ykp_session_set_active ykp_session_init 1 7,
      fw_replay = \<lparr>highest_id = 0, window_bits = 0, initialised = True\<rparr>,
      fw_qos = ykp_qos_init True, fw_rtt = 0, fw_device_id = ascii ''dev1'', fw_device_type = [], fw_server_url = [],
      fw_relay = relay_off, fw_sensor = \<lparr>sn_send = True, sn_device_id = []\<rparr>,
      fw_health = \<lparr>hs_send = True, hs_device_id = [], hs_restart_count = 0\<rparr>,
      fw_ota = \<lparr>os_state = ota_state_zero, os_send = True, os_device_id = [], os_partition = False, os_sha = None\<rparr>,
      fw_ws = ws_off\<lparr>ws_client := True, ws_connected := True\<rparr>, fw_wifi = wifi_zero, fw_rx = replicate 512 0\<rparr>"

definition env0 :: fenv where
  "env0 =
     \<lparr>fe_psa = plain_psa, fe_calloc = True, fe_malloc = True, fe_timer = True,
      fe_ota = \<lparr>oe_calloc = True, oe_malloc = True, oe_partition = True, oe_begin = True, oe_write = (\<lambda>d. True),
                oe_end = True, oe_set_boot = (\<lambda>p. p), oe_sha256 = (\<lambda>d. Some (replicate 32 0)), oe_garbage = replicate 32 0\<rparr>,
      fe_ble = False, fe_ws_up = True, fe_sent = 0, fe_now = 5, fe_free_heap = 0, fe_min_heap = 0, fe_tasks = 0,
      fe_rssi = 0, fe_uptime = 0, fe_reading = sensor_service_read 0 0 False 0, fe_now_sec = 0\<rparr>"

lemma run0_ok: "replay_abs (fw_replay fw_run0) {}" "length (fw_rx fw_run0) = 512"
  "ykp_session_is_active (fw_session fw_run0)" "link_up env0 fw_run0" "rl_send (fw_relay fw_run0)"
  "fe_calloc env0" "fe_malloc env0" "fe_psa env0 = plain_psa"
  "length (ss_server_nonce (fw_session fw_run0)) = 16"
  by (simp_all add: fw_run0_def env0_def replay_abs_def ykp_session_is_active_def ykp_session_set_active_def link_up_def
      ws_off_def relay_off_def ykp_session_init_def YKP_NONCE_LEN_def)

definition relay_on_header :: ykp_header_t where
  "relay_on_header = zero_header\<lparr>h_packet_id := 9, h_service_id := service_code SVC_RELAY, h_action_id := 1\<rparr>"

lemma relay_on_ok: "frame_ok relay_on_header [] (replicate 16 0)" "service_packet relay_on_header"
  by (simp_all add: frame_ok_def service_packet_def relay_on_header_def zero_header_def)

theorem relay_command_executed_witness:
  "\<exists>fw' f. on_frame env0 fw_run0 (tagged_frame relay_on_header [] (replicate 16 0)) =
    Some (Inr (fw', [GpioSet 4 True, GpioSet 2 True, WsSend f])) \<and> rl_state (fw_relay fw')"
proof -
  have a: "h_action_id relay_on_header = 1" "h_flags relay_on_header = 0" "h_packet_id relay_on_header = 9"
    "h_service_id relay_on_header = service_code SVC_RELAY"
    by (simp_all add: relay_on_header_def zero_header_def)
  have s: "replay_spec {} (h_packet_id relay_on_header)" by (simp add: replay_spec_def a)
  from relay_command_executed [OF relay_on_ok(1) run0_ok(2,3,1) s _ a(4) _ _ run0_ok(6,7,4,5)] show ?thesis
    by (simp add: a relay_after_def set_outputs_def notify_ble_sync_def GPIO_RELAY_OUTPUT_def GPIO_STATUS_LED_def
        env0_def [THEN arg_cong, of fe_ble])
qed

section \<open>Encrypted packets\<close>

text \<open>The services see the id, the addresses and the decrypted bytes of a packet, not its flags or its tag.\<close>

lemma dispatch_received:
  assumes "h_service_id h' = h_service_id h" "h_action_id h' = h_action_id h" "h_packet_id h' = h_packet_id h"
    "h_session_id h' = h_session_id h" "h_source_id h' = h_source_id h" "length pl' = length pl"
  shows "dispatch_service env fw (received h' pl' tag') = dispatch_service env fw (received h pl tag)"
proof -
  have pm: "payload_mem (fw_rx fw) (received h' pl' tag') = payload_mem (fw_rx fw) (received h pl tag)"
    using assms(6) by (cases "pl = []") (auto simp: payload_mem_def)
  show ?thesis unfolding dispatch_service_def Let_def pm received_sel assms ..
qed

lemma decrypt_received:
  assumes f: "frame_ok h c tag" "c \<noteq> []" "h_flags h AND YKP_FLAG_ENCRYPTED \<noteq> 0" "length (fw_rx fw) = 512"
    and rx: "take (length c) (fw_rx fw) = c"
    and a: "aad = header_bytes h (of_nat (length c))"
    and k: "ykp_security_decrypt (fe_psa env) (sc_session (fw_sec fw)) (h_packet_id h) aad c tag = r"
    and l: "\<And>p. r = Some p \<Longrightarrow> length p \<le> 512"
  shows "decrypt_payload env fw (tagged_frame h c tag) (received h c tag) =
    Inr (case r of None \<Rightarrow> None | Some p \<Rightarrow> Some (fw\<lparr>fw_rx := write_at (fw_rx fw) 0 p\<rparr>))"
proof -
  have lh: "length (header_bytes h (of_nat (length c))) = 33" using f(1) by (simp add: frame_ok_def)
  have lc: "unat (of_nat (length c) :: u16) = length c" "length c \<le> 512" using f(1) by (simp_all add: frame_ok_def)
  have 1: "rd_bytes (tagged_frame h c tag) 0 YKP_HEADER_SIZE = Inr aad"
    using lh by (simp add: tagged_frame_def size_defs slice_def a)
  have 2: "rd_bytes (payload_mem (fw_rx fw) (received h c tag)) 0 (unat (p_payload_len (received h c tag))) = Inr c"
    using f rx lc by (simp add: payload_mem_def slice_def)
  show ?thesis
    unfolding decrypt_payload_def 1 2 using f k l
    by (auto simp: bindE_def wr_bytes_def split: option.splits)
qed

lemma take_write_at_0: "take (length ys) (write_at xs 0 ys) = ys"
  by (simp add: write_at_def)

lemma write_at_twice: "length ys = length zs \<Longrightarrow> write_at (write_at xs 0 ys) 0 zs = write_at xs 0 zs"
  by (simp add: write_at_def)

text \<open>
  C4. Encryption is transparent, and optional: a packet encrypted by the server under the session key is
  handled exactly as the same packet sent in the clear with any tag, in every state of an active session.
\<close>

theorem encrypted_equals_plain:
  assumes laws: "aead_laws (fe_psa env)"
    and enc: "ykp_security_encrypt (fe_psa env) (sc_session (fw_sec fw)) (h_packet_id h)
      (header_bytes h (of_nat (length p))) p = Some (c, tag)" and p: "p \<noteq> []"
    and f: "frame_ok h p tag'" "length (fw_rx fw) = 512"
    and s: "ykp_session_is_active (fw_session fw)" "replay_abs (fw_replay fw) S" "service_packet h"
    and fl: "h_flags h AND YKP_FLAG_ENCRYPTED \<noteq> 0"
      "flags AND YKP_FLAG_ENCRYPTED = 0" "flags AND YKP_FLAG_ACK = 0"
    and fresh: "replay_spec S (h_packet_id h)"
  shows "on_frame env fw (tagged_frame h c tag) = on_frame env fw (tagged_frame (h\<lparr>h_flags := flags\<rparr>) p tag')"
proof -
  let ?h' = "h\<lparr>h_flags := flags\<rparr>"
  let ?fw = "\<lambda>pl. fw\<lparr>fw_rx := write_at (fw_rx fw) 0 pl, fw_replay := snd (ykp_replay_check (fw_replay fw) (h_packet_id h))\<rparr>"
  have d: "ykp_security_decrypt (fe_psa env) (sc_session (fw_sec fw)) (h_packet_id h)
      (header_bytes h (of_nat (length p))) c tag = Some p" "length c = length p" "length tag = 16"
    using decrypt_encrypt [OF laws enc] by simp_all
  have fc: "frame_ok h c tag" "c \<noteq> []" using f(1) d(2,3) p by (auto simp: frame_ok_def)
  have fp: "frame_ok ?h' p tag'" using f(1) by (simp add: frame_ok_def)
  have dp: "decrypt_payload env (?fw c) (tagged_frame h c tag) (received h c tag) = Inr (Some (?fw p))"
    by (subst decrypt_received [OF fc fl(1) _ _ _ , of _ "header_bytes h (of_nat (length p))" env "Some p"])
      (use f d take_write_at_0 [of c "fw_rx fw"] in \<open>simp_all add: write_at_twice frame_ok_def length_write_at\<close>)
  have "on_frame env fw (tagged_frame h c tag) = dispatch_service env (?fw p) (received h c tag)"
    unfolding on_frame_eq [OF fc(1) f(2)]
    using handle_service [of "received h c tag" "fw\<lparr>fw_rx := write_at (fw_rx fw) 0 c\<rparr>" S env] s fresh dp
    by (simp add: service_packet_def Let_def)
  also have "\<dots> = dispatch_service env (?fw p) (received ?h' p tag')"
    by (rule dispatch_received) (simp_all add: d(2))
  also have "\<dots> = on_frame env fw (tagged_frame ?h' p tag')"
    unfolding on_frame_eq [OF fp f(2)]
    using handle_service [of "received ?h' p tag'" "fw\<lparr>fw_rx := write_at (fw_rx fw) 0 p\<rparr>" S env] s fresh fl
      decrypt_plain [of "received ?h' p tag'"]
    by (simp add: service_packet_def Let_def)
  finally show ?thesis .
qed

text \<open>An encrypted command for the update service: plain and encrypted frames are handled alike.\<close>

definition ota_header :: ykp_header_t where
  "ota_header = zero_header\<lparr>h_packet_id := 9, h_service_id := service_code SVC_OTA, h_action_id := 1, h_flags := 4\<rparr>"

theorem encrypted_equals_plain_witness:
  "on_frame env0 fw_run0 (tagged_frame ota_header [0xBF, 0xFF] (replicate 16 9)) =
   on_frame env0 fw_run0 (tagged_frame (ota_header\<lparr>h_flags := 0\<rparr>) [0xBF, 0xFF] (replicate 16 7))"
proof -
  have enc: "ykp_security_encrypt (fe_psa env0) (sc_session (fw_sec fw_run0)) (h_packet_id ota_header)
      (header_bytes ota_header (of_nat (length [0xBF, 0xFF :: u8]))) [0xBF, 0xFF] = Some ([0xBF, 0xFF], replicate 16 9)"
    unfolding run0_ok(8)
    by (simp add: ykp_security_encrypt_def plain_psa_def fw_run0_def session_keys_zero_def size_defs slice_def Let_def)
  have "frame_ok ota_header [0xBF, 0xFF] (replicate 16 7)" "service_packet ota_header"
    "h_flags ota_header AND YKP_FLAG_ENCRYPTED \<noteq> 0" "replay_spec {} (h_packet_id ota_header)"
    by (simp_all add: frame_ok_def service_packet_def ota_header_def zero_header_def replay_spec_def YKP_FLAG_ACK_def
        YKP_FLAG_ENCRYPTED_def)
  moreover have "aead_laws (fe_psa env0)" unfolding run0_ok(8) by (rule plain_psa_aead)
  ultimately show ?thesis
    using encrypted_equals_plain [OF _ enc, of "replicate 16 7" "{}" 0] run0_ok by simp
qed

section \<open>What the handlers leave alone\<close>

definition keeps :: "firmware \<Rightarrow> firmware \<Rightarrow> bool" where
  "keeps fw fw' \<longleftrightarrow> fw_replay fw' = fw_replay fw \<and> fw_rx fw' = fw_rx fw"

lemma keeps_refl [simp]: "keeps fw fw"
  by (simp add: keeps_def)

lemma send_security_keeps: "send_security env fw a p st = Inr (fw', evs) \<Longrightarrow> keeps fw fw'"
  by (auto simp: send_security_def bindE_Inr_iff keeps_def split: if_splits prod.splits)

lemma send_hello_keeps: "send_hello env fw = Inr (fw', evs) \<Longrightarrow> keeps fw fw'"
  by (auto simp: send_hello_def Let_def keeps_def split: if_splits prod.splits dest: send_security_keeps)

lemma send_ecdh_keeps: "send_ecdh_response env fw = Inr (fw', evs) \<Longrightarrow> keeps fw fw'"
  by (auto simp: send_ecdh_response_def bindE_Inr_iff split: option.splits dest: send_security_keeps)

lemma reauthenticate_keeps: "reauthenticate env fw = Inr (fw', evs) \<Longrightarrow> keeps fw fw'"
  by (auto simp: reauthenticate_def keeps_def split: prod.splits dest: send_hello_keeps)

lemma liftC_Inr_iff: "liftC m = Some (Inr x) \<longleftrightarrow> m = Inr x"
  by (simp add: liftC_def)

lemma retC_iff: "retC x = Some (Inr y) \<longleftrightarrow> x = y"
  by (simp add: retC_def)

lemmas comp_iffs = liftC_Inr_iff retC_iff bindC_Some_Inr_iff bindE_Inr_iff

lemma on_challenge_keeps: "on_challenge env fw pkt = Some (Inr (fw', evs)) \<Longrightarrow> keeps fw fw'"
  unfolding on_challenge_def
  by (auto simp: comp_iffs keeps_def split: option.splits prod.splits dest!: send_ecdh_keeps)

lemma on_session_active_keeps:
  "on_session_active env fw pkt = Some (Inr (fw', evs)) \<Longrightarrow>
   fw_rx fw' = fw_rx fw \<and> fw_replay fw' = ykp_replay_reset (fw_replay fw)"
  unfolding on_session_active_def by (auto simp: comp_iffs split: option.splits)

lemma dispatch_keeps:
  assumes "dispatch_service env fw pkt = Some (Inr (fw', evs))" shows "keeps fw fw'"
proof (cases "service_decode (h_service_id (p_header pkt))")
  case (Some sv)
  then show ?thesis using assms
    by (cases sv) (auto simp: dispatch_service_def Let_def comp_iffs keeps_def split: if_splits prod.splits)
qed (use assms in \<open>simp add: dispatch_service_def Let_def retC_iff\<close>)

lemma decrypt_keeps:
  assumes "decrypt_payload env fw raw pkt = Inr (Some fw')"
  shows "fw_replay fw' = fw_replay fw \<and> length (fw_rx fw') = length (fw_rx fw)"
  using assms by (auto simp: decrypt_payload_def bindE_Inr_iff wr_bytes_def split: if_splits option.splits)

section \<open>The header in the frame\<close>

lemma parse_header:
  assumes "ykp_packet_parse raw raw_len pkt rx = Inr (True, pkt', rx')"
  shows "read_header raw = Inr (p_header pkt')"
  using assms by (auto simp: ykp_packet_parse_def bindE_Inr_iff Let_def split: if_splits)

lemma read_header_service:
  assumes "read_header raw = Inr h" shows "h_service_id h = raw ! 29" "h_action_id h = raw ! 30"
  using assms by (auto simp: read_header_def bindE_Inr_iff rd_Inr_iff)

definition activates :: "bytes \<Rightarrow> bool" where
  "activates raw \<longleftrightarrow> raw ! 29 = service_code SVC_SECURITY \<and> raw ! 30 = sec_action_code SEC_SESSION_ACTIVE"

text \<open>What any frame does to the replay window and the receive buffer.\<close>

lemma security_replay:
  assumes "handle_security env fw pkt = Some (Inr (fw', evs))"
  shows "keeps fw fw' \<or> fw_rx fw' = fw_rx fw \<and> fw_replay fw' = ykp_replay_reset (fw_replay fw) \<and>
    h_action_id (p_header pkt) = sec_action_code SEC_SESSION_ACTIVE"
proof (cases "sec_action_decode (h_action_id (p_header pkt))")
  case (Some a)
  then have c: "h_action_id (p_header pkt) = sec_action_code a" using sec_act.decode_iff by simp
  show ?thesis using assms Some c
    by (cases a) (auto simp: handle_security_def comp_iffs dest: on_challenge_keeps on_session_active_keeps reauthenticate_keeps)
qed (use assms in \<open>simp add: handle_security_def retC_iff\<close>)

lemma packet_replay:
  assumes "handle_packet env fw raw pkt = Some (Inr (fw', evs))"
  shows "length (fw_rx fw') = length (fw_rx fw) \<and>
    (fw_replay fw' = fw_replay fw \<or> (\<exists>i. fw_replay fw' = snd (ykp_replay_check (fw_replay fw) i)) \<or>
     fw_replay fw' = ykp_replay_reset (fw_replay fw) \<and> h_service_id (p_header pkt) = service_code SVC_SECURITY \<and>
       h_action_id (p_header pkt) = sec_action_code SEC_SESSION_ACTIVE)"
proof (cases "h_service_id (p_header pkt) = service_code SVC_SECURITY")
  case True
  then show ?thesis using assms security_replay [of env fw pkt fw' evs]
    by (auto simp: handle_packet_def Let_def retC_iff keeps_def split: if_splits prod.splits)
next
  case False
  then show ?thesis using assms
    by (auto simp: handle_packet_def Let_def comp_iffs keeps_def case_prod_beta simp del: service_code.simps
        split: if_splits prod.splits option.splits dest!: dispatch_keeps decrypt_keeps)
qed

lemma incoming_replay:
  assumes "handle_incoming_packet env fw raw len = Some (Inr (fw', evs))" "unat len \<le> length raw" "length (fw_rx fw) = 512"
  shows "length (fw_rx fw') = 512 \<and>
    (fw_replay fw' = fw_replay fw \<or> (\<exists>i. fw_replay fw' = snd (ykp_replay_check (fw_replay fw) i)) \<or>
     fw_replay fw' = ykp_replay_reset (fw_replay fw) \<and> activates raw)"
proof -
  obtain ok pkt rx where p: "ykp_packet_parse raw len zero_packet (fw_rx fw) = Inr (ok, pkt, rx)" "length rx = 512"
    using parse_total [OF assms(2,3)] by blast
  show ?thesis
  proof (cases ok)
    case True
    have h: "h_service_id (p_header pkt) = raw ! 29" "h_action_id (p_header pkt) = raw ! 30"
      using read_header_service [OF parse_header] p(1) True by simp_all
    have "handle_packet env (fw\<lparr>fw_rx := rx\<rparr>) raw pkt = Some (Inr (fw', evs))"
      using assms(1) True unfolding handle_incoming_packet_def p(1) liftC_simps bindC_simps prod.case Let_def free_done
      by (simp add: comp_iffs)
    from packet_replay [OF this] show ?thesis using p(2) by (auto simp: activates_def h)
  next
    case False
    then show ?thesis using assms(1) p by (auto simp: handle_incoming_packet_def retC_iff)
  qed
qed

section \<open>Rejected packets\<close>

lemma check_rejects:
  assumes "replay_abs c S" "S \<noteq> {}" "\<not> replay_spec S i" shows "ykp_replay_check c i = (False, c)"
proof -
  have "\<not> fst (ykp_replay_check c i)" using check_refines [OF assms(1)] assms(3) by simp
  moreover have "initialised c" using assms(1,2) by (auto simp: replay_abs_def)
  ultimately show ?thesis by (auto simp: ykp_replay_check_def Let_def split: if_splits)
qed

lemma rejected_frame:
  assumes f: "frame_ok h pl tag" "length (fw_rx fw) = 512" and s: "service_packet h"
    and r: "replay_abs (fw_replay fw) S" "S \<noteq> {}" "\<not> replay_spec S (h_packet_id h)"
  shows "on_frame env fw (tagged_frame h pl tag) = Some (Inr (fw\<lparr>fw_rx := write_at (fw_rx fw) 0 pl\<rparr>, []))"
  unfolding on_frame_eq [OF f] using s check_rejects [OF r]
  by (simp add: handle_packet_def service_packet_def retC_def Let_def)

lemma forged_frame:
  assumes f: "frame_ok h c tag" "c \<noteq> []" "h_flags h AND YKP_FLAG_ENCRYPTED \<noteq> 0" "length (fw_rx fw) = 512"
    and s: "ykp_session_is_active (fw_session fw)" "replay_abs (fw_replay fw) S" "service_packet h"
    and bad: "ykp_security_decrypt (fe_psa env) (sc_session (fw_sec fw)) (h_packet_id h)
      (header_bytes h (of_nat (length c))) c tag = None"
  shows "on_frame env fw (tagged_frame h c tag) =
    Some (Inr (fw\<lparr>fw_rx := write_at (fw_rx fw) 0 c, fw_replay := snd (ykp_replay_check (fw_replay fw) (h_packet_id h))\<rparr>, []))"
proof -
  let ?g = "fw\<lparr>fw_rx := write_at (fw_rx fw) 0 c, fw_replay := snd (ykp_replay_check (fw_replay fw) (h_packet_id h))\<rparr>"
  have "decrypt_payload env ?g (tagged_frame h c tag) (received h c tag) = Inr (case None of None \<Rightarrow> None | Some p \<Rightarrow> Some ?g)"
    using decrypt_received [OF f(1-3), of ?g _ env None] bad f(1,4) by (simp add: take_write_at_0 frame_ok_def)
  then show ?thesis
    unfolding on_frame_eq [OF f(1,4)]
    using handle_service [of "received h c tag" "fw\<lparr>fw_rx := write_at (fw_rx fw) 0 c\<rparr>" S env] s
    by (simp add: service_packet_def Let_def retC_def)
qed

text \<open>
  C30. The replay window is moved before a packet is authenticated: a forged packet with a fresh id is
  dropped without an effect on the services, but from then on genuine packets whose id is 64 or
  more below the forged one are dropped too, whatever they contain.
\<close>

theorem forged_packet_blocks:
  assumes f: "frame_ok h c tag" "c \<noteq> []" "h_flags h AND YKP_FLAG_ENCRYPTED \<noteq> 0" "length (fw_rx fw) = 512"
    and s: "ykp_session_is_active (fw_session fw)" "replay_abs (fw_replay fw) S" "service_packet h"
    and bad: "ykp_security_decrypt (fe_psa env) (sc_session (fw_sec fw)) (h_packet_id h)
      (header_bytes h (of_nat (length c))) c tag = None"
    and fresh: "replay_spec S (h_packet_id h)"
    and g: "frame_ok h' pl' tag'" "service_packet h'" "unat (h_packet_id h') + 64 \<le> unat (h_packet_id h)"
  shows "\<exists>fw1. on_frame env fw (tagged_frame h c tag) = Some (Inr (fw1, [])) \<and>
    fw1\<lparr>fw_rx := fw_rx fw, fw_replay := fw_replay fw\<rparr> = fw \<and>
    on_frame env' fw1 (tagged_frame h' pl' tag') = Some (Inr (fw1\<lparr>fw_rx := write_at (fw_rx fw1) 0 pl'\<rparr>, []))"
proof -
  let ?g = "fw\<lparr>fw_rx := write_at (fw_rx fw) 0 c, fw_replay := snd (ykp_replay_check (fw_replay fw) (h_packet_id h))\<rparr>"
  have r: "replay_abs (fw_replay ?g) (insert (h_packet_id h) S)"
    using check_refines [OF s(2), of "h_packet_id h"] fresh by simp
  have "\<not> replay_spec (insert (h_packet_id h) S) (h_packet_id h')" using g(3) by (auto simp: replay_spec_def)
  then have "on_frame env' ?g (tagged_frame h' pl' tag') = Some (Inr (?g\<lparr>fw_rx := write_at (fw_rx ?g) 0 pl'\<rparr>, []))"
    by (intro rejected_frame [OF g(1) _ g(2) r]) (use f in \<open>simp_all add: frame_ok_def\<close>)
  then show ?thesis using forged_frame [OF f s bad] by (intro exI [of _ ?g]) simp
qed

definition forged_header :: ykp_header_t where
  "forged_header = zero_header\<lparr>h_packet_id := 1000, h_flags := 4, h_service_id := service_code SVC_RELAY\<rparr>"

theorem forged_packet_blocks_witness:
  "\<exists>fw1. on_frame env0 fw_run0 (tagged_frame forged_header [0] (replicate 16 0)) = Some (Inr (fw1, [])) \<and>
    on_frame env0 fw1 (tagged_frame relay_on_header [] (replicate 16 0)) =
      Some (Inr (fw1\<lparr>fw_rx := write_at (fw_rx fw1) 0 []\<rparr>, []))"
proof -
  have bad: "ykp_security_decrypt (fe_psa env0) (sc_session (fw_sec fw_run0)) (h_packet_id forged_header)
      (header_bytes forged_header (of_nat (length [0 :: u8]))) [0] (replicate 16 0) = None"
    unfolding run0_ok(8) by (simp add: ykp_security_decrypt_def plain_psa_def Let_def)
  have h: "frame_ok forged_header [0] (replicate 16 0)" "h_flags forged_header AND YKP_FLAG_ENCRYPTED \<noteq> 0"
    "service_packet forged_header" "replay_spec {} (h_packet_id forged_header)"
    "unat (h_packet_id relay_on_header) + 64 \<le> unat (h_packet_id forged_header)"
    by (simp_all add: frame_ok_def service_packet_def forged_header_def relay_on_header_def zero_header_def replay_spec_def
        YKP_FLAG_ACK_def YKP_FLAG_ENCRYPTED_def)
  show ?thesis
    using forged_packet_blocks [OF h(1) _ h(2) run0_ok(2,3,1) h(3) bad h(4) relay_on_ok(1,2) h(5), of env0] by auto
qed

section \<open>Activation\<close>

text \<open>
  C31. A session is activated by anyone: in every state of the firmware, keys or no keys, a packet
  \<open>SEC_SESSION_ACTIVE\<close> with an empty payload and any tag makes the session active under the packet's id, and forgets all
  packet ids seen, so that every nonzero id is accepted again.
\<close>

theorem session_active_unauthenticated:
  assumes f: "frame_ok h [] tag" "length (fw_rx fw) = 512"
    and h: "h_flags h AND YKP_FLAG_ACK = 0" "h_service_id h = service_code SVC_SECURITY"
      "h_action_id h = sec_action_code SEC_SESSION_ACTIVE"
  shows "\<exists>fw'. on_frame env fw (tagged_frame h [] tag) = Some (Inr (fw', [])) \<and>
    ykp_session_is_active (fw_session fw') \<and> ss_session_id (fw_session fw') = h_packet_id h \<and>
    (i \<noteq> 0 \<longrightarrow> fst (ykp_replay_check (fw_replay fw') i))"
proof -
  have "sec_action_decode (h_action_id h) = Some SEC_SESSION_ACTIVE"
    unfolding h(3) by (rule sec_act.decode_code)
  moreover have "fst (ykp_replay_check (ykp_replay_reset (fw_replay fw)) i)" if "i \<noteq> 0"
    using check_refines [OF replay_abs_init, of "fw_replay fw" i] that by (simp add: ykp_replay_reset_def replay_spec_def)
  ultimately show ?thesis
    unfolding on_frame_eq [OF f] using h
    by (simp add: handle_packet_def handle_security_def on_session_active_def payload_find_def ykp_session_is_active_def
        ykp_session_set_active_def retC_def Let_def del: sec_action_code.simps service_code.simps)
qed

theorem session_active_unauthenticated_witness:
  "\<exists>fw'. on_frame env0 (fw_run0\<lparr>fw_session := ykp_session_init\<rparr>) (tagged_frame (zero_header\<lparr>h_packet_id := 5,
      h_service_id := service_code SVC_SECURITY, h_action_id := sec_action_code SEC_SESSION_ACTIVE\<rparr>) [] (replicate 16 1)) =
      Some (Inr (fw', [])) \<and> ykp_session_is_active (fw_session fw')"
proof -
  let ?h = "zero_header\<lparr>h_packet_id := 5, h_service_id := service_code SVC_SECURITY,
    h_action_id := sec_action_code SEC_SESSION_ACTIVE\<rparr>"
  have "frame_ok ?h [] (replicate 16 1)" "h_flags ?h AND YKP_FLAG_ACK = 0"
    by (simp_all add: frame_ok_def zero_header_def)
  then show ?thesis
    using session_active_unauthenticated [of ?h "replicate 16 1" "fw_run0\<lparr>fw_session := ykp_session_init\<rparr>" env0 1]
      run0_ok(2) by auto
qed

end
