(* ===== verification/Handshake.thy ===== *)
theory Handshake
  imports Dispatch Discovery
begin

text \<open>
  The handshake with the server: what \<open>HELLO\<close> announces, and what the firmware makes of the server's
  \<open>CHALLENGE\<close>. Also that no sender of the firmware faults, whatever allocations fail.
\<close>

section \<open>Senders do not fault\<close>

lemma fill_safe:
  assumes f: "tb_fill b c n kvs" and n: "n + 2 \<le> unat c" "unat c + 49 \<le> raw_size" "raw_size < 65536"
  shows "\<exists>evs. tx_packet calloc_ok malloc_ok send_set
    (\<lambda>p. ykp_packet_set_header p pid sid src dst rt sv ac qos enc)
    (Some (tb_buf (snd (ykp_tlv_builder_len b)), fst (ykp_tlv_builder_len b))) raw_size = Inr evs"
proof -
  have m: "length (map_bytes kvs) \<le> unat (tb_cap b)" "tb_holds b kvs"
    using f n(1) by (simp_all add: tb_fill_def map_bytes_def)
  note p = builder_payload [OF m(2,1)]
  have "tb_cap b = c" using f by (simp add: tb_fill_def)
  then show ?thesis using m(1) n(2,3) p by (intro tx_safe) simp_all
qed

section \<open>HELLO\<close>

lemma entry_blob: "length (entry_bytes (tlv_code t, VBytes d)) \<le> 4 + length d"
  by (simp add: entry_bytes_def key_bytes_def str_bytes_def str_head_def)

lemmas blob_room = bytes_adder.add_room [OF _ order_trans [OF entry_blob]]

definition hello_entries :: "firmware \<Rightarrow> (u8 \<times> cval) list" where
  "hello_entries fw =
     [(tlv_code TLV_DEVICE_ID, VStr (fw_device_id fw)), (tlv_code TLV_PUBLIC_KEY, VBytes (sc_ephemeral_public (fw_sec fw))),
      (tlv_code TLV_FIRMWARE_VER, VStr YKP_FIRMWARE_VERSION)]"

lemma hello_fill:
  assumes "length (fw_device_id fw) \<le> 8" "length (sc_ephemeral_public (fw_sec fw)) \<le> 65"
  shows "tb_fill (snd (ykp_tlv_add_string (snd (ykp_tlv_add_bytes (snd (ykp_tlv_add_string
      (ykp_tlv_builder_init (replicate 128 0) 128) (tlv_code TLV_DEVICE_ID) (fw_device_id fw)))
      (tlv_code TLV_PUBLIC_KEY) (sc_ephemeral_public (fw_sec fw)))) (tlv_code TLV_FIRMWARE_VER) YKP_FIRMWARE_VERSION))
    128 (0 + 12 + 69 + 9)
    ((([] @ [(tlv_code TLV_DEVICE_ID, VStr (fw_device_id fw))]) @ [(tlv_code TLV_PUBLIC_KEY, VBytes (sc_ephemeral_public (fw_sec fw)))])
      @ [(tlv_code TLV_FIRMWARE_VER, VStr YKP_FIRMWARE_VERSION)])"
  by (intro string_room blob_room fill_init) (use assms in \<open>simp_all add: YKP_FIRMWARE_VERSION_def\<close>)

definition security_header :: "firmware \<Rightarrow> u32 \<Rightarrow> ykp_sec_action_t \<Rightarrow> ykp_header_t" where
  "security_header fw pid action = fresh_header pid 0 (Some (fw_device_id fw)) (Some (ascii ''SERVER''))
     ROUTE_CLOUD SVC_SECURITY (sec_action_code action) YKP_QOS_1 False"

lemma send_security_frame:
  assumes f: "tb_fill b 128 n kvs" "n \<le> 126" and e: "fe_calloc env" "fe_malloc env" "link_up env fw"
  shows "send_security env fw action (ykp_tlv_builder_len b) st =
    (let (pid, s) = ykp_session_next_packet_id (fw_session fw) (fe_now env)
     in Inr (fw\<lparr>fw_session := s\<lparr>ss_state := st\<rparr>\<rparr>, [WsSend (plain_frame (security_header fw pid action) (map_bytes kvs))]))"
proof -
  have "snd (ykp_ws_send (fe_sent env) (fw_ws fw) d) = [WsSend d]" for d
    using e(3) by (simp add: link_up_def ykp_ws_send_def)
  moreover have "tx_packet True True True (\<lambda>p. ykp_packet_set_header p pid 0 (Some (fw_device_id fw)) (Some (ascii ''SERVER''))
      ROUTE_CLOUD SVC_SECURITY (sec_action_code action) YKP_QOS_1 False)
      (Some (tb_buf (snd (ykp_tlv_builder_len b)), fst (ykp_tlv_builder_len b))) 256 =
    Inr [TxFrame (plain_frame (security_header fw pid action) (map_bytes kvs))]" for pid
    unfolding security_header_def by (subst fill_frame [OF f(1)]) (use f(2) in simp_all)
  ultimately show ?thesis
    using e(1,2) by (simp add: send_security_def ykp_packet_alloc_def case_prod_beta Let_def)
qed

lemma into_field_whole: "length v = length f \<Longrightarrow> into_field f (Some v) = v"
  by (simp add: into_field_def write_at_def)

lemma entries_lookup:
  assumes "\<forall>kv \<in> set kvs. cval_ok (snd kv)" "length (map_bytes kvs) < 65536" "map_of kvs ty = Some v"
  shows "\<exists>tail. ykp_tlv_find (map_bytes kvs @ rest) (of_nat (length (map_bytes kvs))) ty = Some (Inr (Some (tlv_of ty v tail)))"
  using find_map [of kvs "of_nat (length (map_bytes kvs))" ty rest] assms by (simp add: tlv_lookup_def)

text \<open>
  \<open>HELLO\<close>: the frame handed to the WebSocket client parses as a security packet of this device with a
  fresh packet id, the receiver finds in it the ephemeral public key that was just generated
  and stored, and the session waits for the challenge.
\<close>

lemma hello_announces_key:
  assumes k: "psa_generate_key (fe_psa env) = Some i" "psa_export_key (fe_psa env) i = Some priv"
      "psa_export_public_key (fe_psa env) i = Some pub" "length pub = 65"
    and fw: "length (fw_device_id fw) \<le> 8" "length (sc_ephemeral_public (fw_sec fw)) = 65"
    and e: "fe_calloc env" "fe_malloc env" "link_up env fw" and rx: "length rx = 512"
  shows "\<exists>fw' f pkt rx' tail. send_hello env fw = Inr (fw', [WsSend f]) \<and>
    ss_state (fw_session fw') = SESSION_STATE_HELLO_SENT \<and> sc_ephemeral_public (fw_sec fw') = pub \<and>
    ykp_packet_parse f (of_nat (length f)) zero_packet rx = Inr (True, pkt, rx') \<and>
    h_service_id (p_header pkt) = service_code SVC_SECURITY \<and> h_action_id (p_header pkt) = sec_action_code SEC_HELLO \<and>
    h_packet_id (p_header pkt) = ss_packet_counter (fw_session fw) + 1 \<and>
    h_source_id (p_header pkt) = strncpy_field 8 (fw_device_id fw) \<and>
    ykp_tlv_find rx' (p_payload_len pkt) (tlv_code TLV_PUBLIC_KEY) =
      Some (Inr (Some (tlv_of (tlv_code TLV_PUBLIC_KEY) (VBytes pub) tail)))"
proof -
  let ?sec = "(fw_sec fw)\<lparr>sc_ephemeral_private := into_field (sc_ephemeral_private (fw_sec fw)) (Some priv),
    sc_ephemeral_public := pub\<rparr>"
  let ?fw = "fw\<lparr>fw_sec := ?sec, fw_pool := (fw_pool fw)\<lparr>mp_offset := 0\<rparr>\<rparr>"
  let ?kvs = "hello_entries ?fw" and ?pid = "ss_packet_counter (fw_session fw) + 1"
  let ?f = "plain_frame (security_header ?fw ?pid SEC_HELLO) (map_bytes ?kvs)"
  have gen: "ykp_security_gen_ephemeral (fe_psa env) (fw_pool fw) (fw_sec fw) = (True, ?sec, (fw_pool fw)\<lparr>mp_offset := 0\<rparr>)"
    using k fw(2) by (simp add: ykp_security_gen_ephemeral_def into_field_whole Let_def)
  have fill: "tb_fill (snd (ykp_tlv_add_string (snd (ykp_tlv_add_bytes (snd (ykp_tlv_add_string
      (ykp_tlv_builder_init (replicate 128 0) 128) (tlv_code TLV_DEVICE_ID) (fw_device_id ?fw)))
      (tlv_code TLV_PUBLIC_KEY) (sc_ephemeral_public (fw_sec ?fw)))) (tlv_code TLV_FIRMWARE_VER) YKP_FIRMWARE_VERSION))
      128 90 ?kvs"
    using hello_fill [of ?fw] fw(1) k(4) by (simp add: hello_entries_def)
  have up: "link_up env ?fw" using e(3) by (simp add: link_up_def)
  have send: "\<exists>s. send_hello env fw = Inr (?fw\<lparr>fw_session := s\<lparr>ss_state := SESSION_STATE_HELLO_SENT\<rparr>\<rparr>, [WsSend ?f])"
    using send_security_frame [OF fill _ e(1,2) up, of SEC_HELLO SESSION_STATE_HELLO_SENT] next_id [of "fw_session fw" "fe_now env"]
    by (auto simp: send_hello_def gen hello_payload_def Let_def case_prod_beta)
  have ok: "\<forall>kv \<in> set ?kvs. cval_ok (snd kv)" using fw(1) k(4) by (simp add: hello_entries_def YKP_FIRMWARE_VERSION_def)
  have len: "length (map_bytes ?kvs) \<le> 92" using fill by (simp add: tb_fill_def map_bytes_def)
  have parse: "ykp_packet_parse ?f (of_nat (length ?f)) zero_packet rx =
      Inr (True, received (security_header ?fw ?pid SEC_HELLO) (map_bytes ?kvs) (replicate 16 0), write_at rx 0 (map_bytes ?kvs))"
    unfolding plain_frame_tagged by (rule parse_frame) (use len rx in \<open>simp_all add: security_header_def\<close>)
  have w: "write_at rx 0 (map_bytes ?kvs) = map_bytes ?kvs @ drop (length (map_bytes ?kvs)) rx" by (simp add: write_at_def)
  have l: "length (map_bytes ?kvs) < 65536" using len by simp
  have m: "map_of ?kvs (tlv_code TLV_PUBLIC_KEY) = Some (VBytes pub)" by (simp add: hello_entries_def)
  obtain tail where "ykp_tlv_find (write_at rx 0 (map_bytes ?kvs)) (of_nat (length (map_bytes ?kvs)))
      (tlv_code TLV_PUBLIC_KEY) = Some (Inr (Some (tlv_of (tlv_code TLV_PUBLIC_KEY) (VBytes pub) tail)))"
    using entries_lookup [OF ok l m, of "drop (length (map_bytes ?kvs)) rx"] unfolding w by blast
  then show ?thesis using send parse
    by (auto simp: security_header_def fresh_header_def ykp_packet_set_header_def size_defs simp del: service_code.simps tlv_code.simps)
qed

lemma hello_announces_key_instance:
  "\<exists>fw' f. send_hello env0 fw_run0 = Inr (fw', [WsSend f]) \<and> sc_ephemeral_public (fw_sec fw') = replicate 65 2"
proof -
  have k: "psa_generate_key (fe_psa env0) = Some 0" "psa_export_key (fe_psa env0) 0 = Some (replicate 32 1)"
    "psa_export_public_key (fe_psa env0) 0 = Some (replicate 65 2)"
    unfolding run0_ok(8) by (simp_all add: plain_psa_def)
  have "length (fw_device_id fw_run0) \<le> 8" "length (sc_ephemeral_public (fw_sec fw_run0)) = 65"
    by (simp_all add: fw_run0_def security_ctx_zero_def YKP_EC_PUBKEY_LEN_def)
  from hello_announces_key [OF k _ this run0_ok(6,7,4,2)] show ?thesis by auto
qed

section \<open>CHALLENGE\<close>

lemma ecdh_fill:
  assumes "length (fw_device_id fw) \<le> 8" "length sig \<le> 64"
  shows "tb_fill (snd (ykp_tlv_add_bytes (snd (ykp_tlv_add_string
      (ykp_tlv_builder_init (replicate 128 0) 128) (tlv_code TLV_DEVICE_ID) (fw_device_id fw)))
      (tlv_code TLV_SIGNATURE) sig))
    128 (0 + 12 + 68) (([] @ [(tlv_code TLV_DEVICE_ID, VStr (fw_device_id fw))]) @ [(tlv_code TLV_SIGNATURE, VBytes sig)])"
  by (intro string_room blob_room fill_init) (use assms in simp_all)

lemma next_id_nonce: "ss_server_nonce (snd (ykp_session_next_packet_id s t)) = ss_server_nonce s"
  by (simp add: ykp_session_next_packet_id_def Let_def)

lemma send_security_safe:
  assumes "tb_fill b 128 n kvs" "n \<le> 126"
  shows "\<exists>s evs. send_security env fw action (ykp_tlv_builder_len b) st = Inr (fw\<lparr>fw_session := s\<rparr>, evs) \<and>
    ss_server_nonce s = ss_server_nonce (fw_session fw)"
proof (cases "fe_calloc env")
  case True
  obtain pid s where n: "ykp_session_next_packet_id (fw_session fw) (fe_now env) = (pid, s)" by fastforce
  then have "ss_server_nonce s = ss_server_nonce (fw_session fw)" using next_id_nonce [of "fw_session fw" "fe_now env"] by simp
  moreover obtain evs where "tx_packet (fe_calloc env) (fe_malloc env) True
      (\<lambda>p. ykp_packet_set_header p pid 0 (Some (fw_device_id fw)) (Some (ascii ''SERVER''))
        ROUTE_CLOUD SVC_SECURITY (sec_action_code action) YKP_QOS_1 False)
      (Some (tb_buf (snd (ykp_tlv_builder_len b)), fst (ykp_tlv_builder_len b))) 256 = Inr evs"
    using fill_safe [OF assms(1), of 256] assms(2) by fastforce
  ultimately show ?thesis using True by (auto simp: send_security_def ykp_packet_alloc_def n)
next
  case False
  have "fw\<lparr>fw_session := fw_session fw\<rparr> = fw" by simp
  then show ?thesis using False by (auto simp: send_security_def ykp_packet_alloc_def intro!: exI [of _ "fw_session fw"])
qed

definition sign_laws :: "psa \<Rightarrow> bool" where
  "sign_laws ops \<longleftrightarrow> (\<forall>k h s. psa_sign_hash ops k h = Some s \<longrightarrow> length s = 64)"

lemma send_ecdh_safe:
  assumes "sign_laws (fe_psa env)" "length (fw_device_id fw) \<le> 8"
  shows "\<exists>s evs. send_ecdh_response env fw = Inr (fw\<lparr>fw_session := s\<rparr>, evs) \<and>
    ss_server_nonce s = ss_server_nonce (fw_session fw)"
proof (cases "ykp_security_sign (fe_psa env) (fw_sec fw) (ss_server_nonce (fw_session fw))")
  case None
  have "fw\<lparr>fw_session := fw_session fw\<rparr> = fw" by simp
  then show ?thesis using None by (auto simp: send_ecdh_response_def intro!: exI [of _ "fw_session fw"])
next
  case (Some sig)
  then have l: "length sig = 64"
    using assms(1) by (auto simp: ykp_security_sign_def sign_laws_def split: option.splits if_splits)
  then have "wr_bytes (replicate YKP_ECDSA_SIG_LEN 0) 0 sig = Inr sig" by (simp add: YKP_ECDSA_SIG_LEN_def write_at_def)
  then show ?thesis
    using Some send_security_safe [OF ecdh_fill [OF assms(2)], of sig env fw SEC_ECDH_RESPONSE SESSION_STATE_ECDH_SENT] l
    by (simp add: send_ecdh_response_def ecdh_payload_def Let_def)
qed

text \<open>
  What the documentation of \<open>psa_raw_key_agreement\<close> says of public keys: an elliptic curve point is
  given in its uncompressed form, which starts with the byte 4; anything else is refused.
\<close>

definition ecdh_point_laws :: "psa \<Rightarrow> bool" where
  "ecdh_point_laws ops \<longleftrightarrow> (\<forall>priv pub. pub \<noteq> [] \<longrightarrow> hd pub \<noteq> 4 \<longrightarrow> psa_raw_key_agreement ops priv pub = None)"

lemma derive_refused:
  assumes "ecdh_point_laws ops" "length pub = 65" "hd pub \<noteq> 4"
  shows "ykp_security_derive_session_key ops ctx pub nonce n sid = Inr (False, ctx)"
proof -
  have "psa_raw_key_agreement ops (sc_ephemeral_private ctx) pub = None"
    using assms by (cases pub) (auto simp: ecdh_point_laws_def)
  then show ?thesis using assms(2) by (simp add: ykp_security_derive_session_key_def key_sizes)
qed

definition challenge_entries :: "bytes \<Rightarrow> bytes \<Rightarrow> (u8 \<times> cval) list" where
  "challenge_entries nonce key = [(tlv_code TLV_NONCE, VBytes nonce), (tlv_code TLV_PUBLIC_KEY, VBytes key)]"

lemma length_challenge:
  "length nonce = 16 \<Longrightarrow> length key = 65 \<Longrightarrow> length (map_bytes (challenge_entries nonce key)) = 88"
  by (simp add: challenge_entries_def map_bytes_def entry_bytes_def key_bytes_def str_bytes_def str_head_def)

lemma challenge_find:
  assumes "length nonce = 16" "length key = 65" "rx = map_bytes (challenge_entries nonce key) @ rest"
  shows "\<exists>tail. ykp_tlv_find rx 88 (tlv_code TLV_NONCE) =
      Some (Inr (Some (tlv_of (tlv_code TLV_NONCE) (VBytes nonce) tail)))"
    and "\<exists>tail. ykp_tlv_find rx 88 (tlv_code TLV_PUBLIC_KEY) =
      Some (Inr (Some (tlv_of (tlv_code TLV_PUBLIC_KEY) (VBytes key) tail)))"
  unfolding assms(3)
  using entries_lookup [of "challenge_entries nonce key" "tlv_code TLV_NONCE" "VBytes nonce" rest]
    entries_lookup [of "challenge_entries nonce key" "tlv_code TLV_PUBLIC_KEY" "VBytes key" rest]
    assms(1,2) length_challenge [OF assms(1,2)]
  by (simp_all add: challenge_entries_def)

lemma store_nonce_head:
  assumes "length nonce = 16" "length (ss_server_nonce s) = 16"
  shows "ykp_session_store_nonce s (tlv_value (tlv_of ty (VBytes nonce) tail)) (tlv_length (tlv_of ty (VBytes nonce) tail)) =
    Inr (s\<lparr>ss_server_nonce := 0x50 # take 15 nonce\<rparr>)"
proof -
  have v: "cval_bytes (VBytes nonce) = 0x50 # nonce" using assms(1) by (simp add: str_bytes_def str_head_def)
  have u: "unat (tlv_length (tlv_of ty (VBytes nonce) tail)) = 17"
    unfolding tlv_of_def by (simp add: v assms(1) del: cval_bytes.simps)
  have "take 16 (0x50 # nonce @ tail) = 0x50 # take 15 nonce" using assms(1) by (simp add: take_Cons')
  then show ?thesis using assms
    by (simp add: ykp_session_store_nonce_def u YKP_NONCE_LEN_def Let_def v slice_def write_at_def del: cval_bytes.simps)
qed

lemma key_head:
  assumes "length key = 65"
  shows "rd_bytes (tlv_value (tlv_of ty (VBytes key) tail)) 0 65 = Inr (0x58 # 65 # take 63 key)"
proof -
  have v: "cval_bytes (VBytes key) = 0x58 # 65 # key" using assms by (simp add: str_bytes_def str_head_def)
  have "take 65 (0x58 # 65 # key @ tail) = 0x58 # 65 # take 63 key" using assms by (simp add: take_Cons')
  then show ?thesis using assms by (simp add: v slice_def del: cval_bytes.simps)
qed

text \<open>
  C7. The handshake derives no key: the server's key agreement share is read with the two bytes of its
  CBOR head in front, which is not a point, so that after every well-formed challenge the session keys
  are what they were before. The nonce is stored with its head too, and it is the wrong bytes
  that the response signs.
\<close>

theorem challenge_derives_no_key:
  assumes l: "ecdh_point_laws (fe_psa env)" "sign_laws (fe_psa env)"
    and n: "length nonce = 16" "length key = 65" and pl: "pl = map_bytes (challenge_entries nonce key)"
    and f: "length (h_source_id h) = 8" "length (h_dest_id h) = 8" "length tag = 16"
    and h: "h_flags h AND YKP_FLAG_ACK = 0" "h_service_id h = service_code SVC_SECURITY"
      "h_action_id h = sec_action_code SEC_CHALLENGE"
    and fw: "length (fw_rx fw) = 512" "length (ss_server_nonce (fw_session fw)) = 16" "length (fw_device_id fw) \<le> 8"
  shows "\<exists>fw' evs. on_frame env fw (tagged_frame h pl tag) = Some (Inr (fw', evs)) \<and> fw_sec fw' = fw_sec fw \<and>
    ss_server_nonce (fw_session fw') = 0x50 # take 15 nonce"
proof -
  have len: "length pl = 88" using length_challenge [OF n] pl by simp
  then have ok: "frame_ok h pl tag" "pl \<noteq> []" using f by (auto simp: frame_ok_def)
  let ?rx = "write_at (fw_rx fw) 0 pl" and ?pkt = "received h pl tag"
  have rx: "?rx = map_bytes (challenge_entries nonce key) @ drop 88 (fw_rx fw)" using len by (simp add: write_at_def pl)
  let ?s = "(fw_session fw)\<lparr>ss_server_nonce := 0x50 # take 15 nonce\<rparr>"
  let ?fw = "fw\<lparr>fw_rx := ?rx, fw_session := ?s\<rparr>"
  have find: "payload_find g ?pkt ty = ykp_tlv_find ?rx 88 (tlv_code ty)" if "fw_rx g = ?rx" for g ty
    using that ok(2) len by (simp add: payload_find_def payload_mem_def)
  obtain t1 where t1: "ykp_tlv_find ?rx 88 (tlv_code TLV_NONCE) = Some (Inr (Some (tlv_of (tlv_code TLV_NONCE) (VBytes nonce) t1)))"
    using challenge_find(1) [OF n rx] by blast
  obtain t2 where t2: "ykp_tlv_find ?rx 88 (tlv_code TLV_PUBLIC_KEY) =
      Some (Inr (Some (tlv_of (tlv_code TLV_PUBLIC_KEY) (VBytes key) t2)))"
    using challenge_find(2) [OF n rx] by blast
  have d: "ykp_security_derive_session_key (fe_psa env) (fw_sec fw) (0x58 # 65 # take 63 key) m k sid = Inr (False, fw_sec fw)"
    for m k sid by (rule derive_refused [OF l(1)]) (use n in simp_all)
  obtain s evs where e: "send_ecdh_response env ?fw = Inr (?fw\<lparr>fw_session := s\<rparr>, evs)" "ss_server_nonce s = 0x50 # take 15 nonce"
    using send_ecdh_safe [OF l(2), of ?fw] fw(3) by auto
  have "on_challenge env (fw\<lparr>fw_rx := ?rx\<rparr>) ?pkt = Some (Inr (?fw\<lparr>fw_session := s\<rparr>, evs))"
    unfolding on_challenge_def
    by (simp add: find t1 t2 store_nonce_head [OF n(1) fw(2)] key_head [OF n(2)] d e(1) YKP_EC_PUBKEY_LEN_def del: tlv_of_sel tlv_code.simps)
  moreover have "sec_action_decode (h_action_id h) = Some SEC_CHALLENGE" unfolding h(3) by (rule sec_act.decode_code)
  ultimately have "on_frame env fw (tagged_frame h pl tag) = Some (Inr (?fw\<lparr>fw_session := s\<rparr>, evs))"
    unfolding on_frame_eq [OF ok(1) fw(1)] using h(1,2) by (simp add: handle_packet_def handle_security_def Let_def)
  then show ?thesis using e(2) by simp
qed

definition strict_env :: fenv where
  "strict_env = env0\<lparr>fe_psa := plain_psa\<lparr>psa_raw_key_agreement :=
     (\<lambda>priv pub. if pub \<noteq> [] \<and> hd pub = 4 then Some (replicate 32 3) else None)\<rparr>\<rparr>"

theorem challenge_derives_no_key_witness:
  "\<exists>fw' evs. on_frame strict_env fw_run0 (tagged_frame (zero_header\<lparr>h_service_id := service_code SVC_SECURITY,
      h_action_id := sec_action_code SEC_CHALLENGE\<rparr>)
      (map_bytes (challenge_entries (replicate 16 1) (4 # replicate 64 2))) (replicate 16 0)) = Some (Inr (fw', evs)) \<and>
    fw_sec fw' = fw_sec fw_run0"
proof -
  let ?h = "zero_header\<lparr>h_service_id := service_code SVC_SECURITY, h_action_id := sec_action_code SEC_CHALLENGE\<rparr>"
  have l: "ecdh_point_laws (fe_psa strict_env)" "sign_laws (fe_psa strict_env)"
    by (simp_all add: ecdh_point_laws_def sign_laws_def strict_env_def plain_psa_def)
  have f: "length (h_source_id ?h) = 8" "length (h_dest_id ?h) = 8" "length (replicate 16 (0 :: u8)) = 16"
    "h_flags ?h AND YKP_FLAG_ACK = 0" "length (fw_device_id fw_run0) \<le> 8"
    by (simp_all add: zero_header_def fw_run0_def)
  show ?thesis
    using challenge_derives_no_key [OF l, of "replicate 16 1" "4 # replicate 64 2" _ ?h "replicate 16 0" fw_run0] f run0_ok(2,9)
    by (auto simp del: service_code.simps sec_action_code.simps)
qed

section \<open>A challenge that is read beyond its buffer\<close>

definition edge_payload :: bytes where
  "edge_payload = map_bytes [(1, VBytes (replicate 250 0)), (2, VBytes (replicate 252 0)), (tlv_code TLV_PUBLIC_KEY, VUint 0)]"

lemma length_edge: "length edge_payload = 512"
  by (simp add: edge_payload_def map_bytes_def entry_bytes_def key_bytes_def str_bytes_def str_head_def uint_bytes_def cbor_head_def)

lemma edge_find:
  "ykp_tlv_find edge_payload 512 (tlv_code TLV_NONCE) = Some (Inr None)"
  "ykp_tlv_find edge_payload 512 (tlv_code TLV_PUBLIC_KEY) =
    Some (Inr (Some \<lparr>tlv_type = tlv_code TLV_PUBLIC_KEY, tlv_length = 1, tlv_value = [0, 0xFF]\<rparr>))"
  by code_simp+

text \<open>
  C29. The challenge handler copies 65 bytes of the public key entry whatever its length: one that lies
  at the end of a full payload makes it read beyond the receive buffer, before anything is
  authenticated and in every state of the session.
\<close>

theorem challenge_reads_outside:
  assumes f: "length (h_source_id h) = 8" "length (h_dest_id h) = 8" "length tag = 16"
    and h: "h_flags h AND YKP_FLAG_ACK = 0" "h_service_id h = service_code SVC_SECURITY"
      "h_action_id h = sec_action_code SEC_CHALLENGE"
    and fw: "length (fw_rx fw) = 512"
  shows "on_frame env fw (tagged_frame h edge_payload tag) = Some (Inl OutOfBounds)"
proof -
  have ok: "frame_ok h edge_payload tag" "edge_payload \<noteq> []" using f length_edge by (auto simp: frame_ok_def)
  have rx: "write_at (fw_rx fw) 0 edge_payload = edge_payload" using fw length_edge by (simp add: write_at_def)
  have find: "payload_find (fw\<lparr>fw_rx := edge_payload\<rparr>) (received h edge_payload tag) ty = ykp_tlv_find edge_payload 512 (tlv_code ty)" for ty
    using ok(2) length_edge by (simp add: payload_find_def payload_mem_def)
  have "on_challenge env (fw\<lparr>fw_rx := edge_payload\<rparr>) (received h edge_payload tag) = Some (Inl OutOfBounds)"
    by (simp add: on_challenge_def find edge_find rd_bytes_def YKP_EC_PUBKEY_LEN_def del: tlv_code.simps)
  moreover have "sec_action_decode (h_action_id h) = Some SEC_CHALLENGE" unfolding h(3) by (rule sec_act.decode_code)
  ultimately show ?thesis
    unfolding on_frame_eq [OF ok(1) fw] rx using h(1,2) by (simp add: handle_packet_def handle_security_def Let_def)
qed

theorem challenge_reads_outside_witness:
  "on_frame env0 fw_run0 (tagged_frame (zero_header\<lparr>h_service_id := service_code SVC_SECURITY,
    h_action_id := sec_action_code SEC_CHALLENGE\<rparr>) edge_payload (replicate 16 0)) = Some (Inl OutOfBounds)"
  by (rule challenge_reads_outside) (use run0_ok(2) in \<open>simp_all add: zero_header_def\<close>)

end
