(* ===== verification/Runs.thy ===== *)
theory Runs
  imports Handshake "HOL-Library.Sublist"
begin

text \<open>
  The firmware in time: every handler as a step of one transition relation, whatever the order in which
  the tasks run them, the connection manager over its polls, and which packets cannot cause a fault.
\<close>

section \<open>Steps\<close>

datatype fw_input = InWs fenv ws_event | InTimer fenv | InLoop fenv u32 | InButton fenv bool
  | InWifi bool "nat \<Rightarrow> bool" bool wifi_event

text \<open>
  Handlers that return without a fault. The count of the main loop is its local variable, so any value of
  it is considered.
\<close>

inductive fw_step :: "firmware \<Rightarrow> fw_input \<Rightarrow> firmware \<Rightarrow> event list \<Rightarrow> bool" where
  ws: "ws_event_step env fw e = Some (Inr (fw', evs)) \<Longrightarrow> fw_step fw (InWs env e) fw' evs"
| timer: "qos_timer_callback env fw = (fw', evs) \<Longrightarrow> fw_step fw (InTimer env) fw' evs"
| loop: "main_loop_turn env fw n = Inr (fw', n', evs) \<Longrightarrow> fw_step fw (InLoop env n) fw' evs"
| button: "button_debounce_timer_callback (fe_calloc env) (fe_malloc env) (fe_ble env) low (fe_now env) (fw_relay fw)
      (fw_session fw) = Inr (r, s, evs) \<Longrightarrow>
    fw_step fw (InButton env low) (fw\<lparr>fw_relay := r, fw_session := s\<rparr>) (via_ws env fw evs)"
| wifi: "wifi_event_step a t b fw e = (fw', evs) \<Longrightarrow> fw_step fw (InWifi a t b e) fw' evs"

inductive fw_steps :: "firmware \<Rightarrow> fw_input list \<Rightarrow> firmware \<Rightarrow> bool" where
  stop: "fw_steps fw [] fw"
| more: "fw_step fw i fw1 evs \<Longrightarrow> fw_steps fw1 is fw2 \<Longrightarrow> fw_steps fw (i # is) fw2"

text \<open>The inputs that can reset the replay window.\<close>

fun resets_window :: "fw_input \<Rightarrow> bool" where
  "resets_window (InWs env (WS_EVENT_DATA op_code raw)) = activates raw"
| "resets_window _ = False"

lemma main_loop_keeps: "main_loop_turn env fw n = Inr (fw', n', evs) \<Longrightarrow> keeps fw fw'"
  by (auto simp: main_loop_turn_def bindE_Inr_iff Let_def split: if_splits prod.splits dest: reauthenticate_keeps)

lemma on_ws_keeps:
  "on_ws_connected env fw = Inr (fw', evs) \<Longrightarrow> keeps fw fw'" "keeps fw (on_ws_disconnected fw)"
  by (auto simp: on_ws_connected_def on_ws_disconnected_def bindE_Inr_iff keeps_def split: prod.splits dest: send_hello_keeps)

lemma ws_step_cases:
  assumes "ws_event_step env fw e = Some (Inr (fw', evs))"
  shows "keeps fw fw' \<or> (\<exists>op_code raw. e = WS_EVENT_DATA op_code raw \<and>
    handle_incoming_packet env fw raw (of_nat (length raw)) = Some (Inr (fw', evs)))"
proof (cases e)
  case (WS_EVENT_DATA op_code raw)
  then show ?thesis using assms by (auto simp: ws_event_step_def retC_iff keeps_def split: if_splits)
qed (use assms in \<open>auto simp: ws_event_step_def retC_iff liftC_Inr_iff keeps_def split: if_splits dest: on_ws_keeps(1)\<close>,
     (use on_ws_keeps(2) in \<open>fastforce simp: keeps_def\<close>)+)

lemma of_nat_le: "unat (of_nat n :: u16) \<le> n"
  by (simp add: unat_of_nat take_bit_eq_mod)

text \<open>The invariant: the receive buffer has its size and the ids accepted so far stay represented.\<close>

definition seen_ok :: "u32 set \<Rightarrow> firmware \<Rightarrow> bool" where
  "seen_ok T fw \<longleftrightarrow> length (fw_rx fw) = 512 \<and> (\<exists>S. replay_abs (fw_replay fw) S \<and> T \<subseteq> S)"

lemma seen_keeps: "seen_ok T fw \<Longrightarrow> keeps fw fw' \<Longrightarrow> seen_ok T fw'"
  by (simp add: seen_ok_def keeps_def)

lemma seen_check:
  assumes "replay_abs c S" "T \<subseteq> S" shows "\<exists>S'. replay_abs (snd (ykp_replay_check c i)) S' \<and> T \<subseteq> S'"
  using check_refines [OF assms(1), of i] assms(2) by (intro exI [of _ "if replay_spec S i then insert i S else S"]) auto

lemma seen_frame:
  assumes "seen_ok T fw" "handle_incoming_packet env fw raw len = Some (Inr (fw', evs))" "unat len \<le> length raw"
    "\<not> activates raw"
  shows "seen_ok T fw'"
proof -
  obtain S where S: "replay_abs (fw_replay fw) S" "T \<subseteq> S" and rx: "length (fw_rx fw) = 512"
    using assms(1) by (auto simp: seen_ok_def)
  from incoming_replay [OF assms(2,3) rx] assms(4) show ?thesis
    using S seen_check [OF S] by (auto simp: seen_ok_def)
qed

lemma seen_step:
  assumes "fw_step fw i fw' evs" "seen_ok T fw" "\<not> resets_window i"
  shows "seen_ok T fw'"
  using assms(1)
proof cases
  case (ws env e)
  then consider "keeps fw fw'" | op_code raw where "e = WS_EVENT_DATA op_code raw"
    "handle_incoming_packet env fw raw (of_nat (length raw)) = Some (Inr (fw', evs))"
    using ws_step_cases by blast
  then show ?thesis
  proof cases
    case 2
    from seen_frame [OF assms(2) 2(2) of_nat_le] show ?thesis using assms(3) ws(1) 2(1) by simp
  qed (rule seen_keeps [OF assms(2)])
next
  case (loop env n n')
  then show ?thesis using seen_keeps [OF assms(2)] main_loop_keeps by blast
qed (use assms(2) in \<open>auto simp: seen_ok_def qos_timer_callback_def wifi_event_step_def Let_def split: prod.splits\<close>)

lemma seen_steps:
  assumes "fw_steps fw is fw'" "seen_ok T fw" "\<forall>i \<in> set is. \<not> resets_window i"
  shows "seen_ok T fw'"
  using assms by (induction rule: fw_steps.induct) (auto intro: seen_step)

section \<open>Replays\<close>

text \<open>
  C3. No replay reaches a service: once a service packet with a fresh id was handled in an active session,
  every later packet with that id, encrypted or not and for any service, is dropped without any
  effect, after every sequence of steps of all tasks in between (frames, disconnections, key
  rotations, button presses, retransmissions) that has no \<open>SEC_SESSION_ACTIVE\<close> packet.
\<close>

theorem replayed_packet_ignored:
  assumes f: "frame_ok h pl tag" "length (fw_rx fw) = 512" "service_packet h"
    and s: "ykp_session_is_active (fw_session fw)" "replay_abs (fw_replay fw) S" "replay_spec S (h_packet_id h)"
    and 1: "on_frame env fw (tagged_frame h pl tag) = Some (Inr (fw1, evs1))"
    and steps: "fw_steps fw1 is fw2" "\<forall>i \<in> set is. \<not> resets_window i"
    and again: "frame_ok h' pl' tag'" "service_packet h'" "h_packet_id h' = h_packet_id h"
  shows "on_frame env' fw2 (tagged_frame h' pl' tag') = Some (Inr (fw2\<lparr>fw_rx := write_at (fw_rx fw2) 0 pl'\<rparr>, []))"
proof -
  let ?g = "fw\<lparr>fw_rx := write_at (fw_rx fw) 0 pl, fw_replay := snd (ykp_replay_check (fw_replay fw) (h_packet_id h))\<rparr>"
  have c: "replay_abs (fw_replay ?g) (insert (h_packet_id h) S)"
    using check_refines [OF s(2), of "h_packet_id h"] s(3) by simp
  have "bindC (liftC (decrypt_payload env ?g (tagged_frame h pl tag) (received h pl tag))) (\<lambda>decrypted.
      case decrypted of None \<Rightarrow> retC (?g, []) | Some fw \<Rightarrow> dispatch_service env fw (received h pl tag)) = Some (Inr (fw1, evs1))"
    using 1 handle_service [of "received h pl tag" "fw\<lparr>fw_rx := write_at (fw_rx fw) 0 pl\<rparr>" S env "tagged_frame h pl tag"] s f(3)
    unfolding on_frame_eq [OF f(1,2)] by (simp add: service_packet_def Let_def)
  then have "fw_replay fw1 = fw_replay ?g \<and> length (fw_rx fw1) = length (fw_rx ?g)"
    by (auto simp: comp_iffs keeps_def split: option.splits dest!: dispatch_keeps decrypt_keeps)
  moreover have "length (fw_rx ?g) = 512" using f(1,2) by (simp add: frame_ok_def)
  ultimately have "seen_ok {h_packet_id h} fw1" using c by (auto simp: seen_ok_def)
  from seen_steps [OF steps(1) this steps(2)] obtain S' where
    S': "length (fw_rx fw2) = 512" "replay_abs (fw_replay fw2) S'" "h_packet_id h \<in> S'" by (auto simp: seen_ok_def)
  then have "\<not> replay_spec S' (h_packet_id h')" "S' \<noteq> {}" using again(3) by (auto simp: replay_spec_def)
  then show ?thesis by (intro rejected_frame [OF again(1) S'(1) again(2) S'(2)])
qed

lemma relay_on_frame:
  "\<exists>fw1 evs. on_frame env0 fw_run0 (tagged_frame relay_on_header [] (replicate 16 0)) = Some (Inr (fw1, evs))"
proof -
  have a: "h_action_id relay_on_header = 1" "h_flags relay_on_header = 0" "h_packet_id relay_on_header = 9"
    "h_service_id relay_on_header = service_code SVC_RELAY"
    by (simp_all add: relay_on_header_def zero_header_def)
  have s: "replay_spec {} (h_packet_id relay_on_header)" by (simp add: replay_spec_def a)
  from relay_frame [OF relay_on_ok(1) run0_ok(2,3,1) s _ a(4) _ _ run0_ok(6,7,4,5)] show ?thesis by (simp add: a)
qed

theorem replayed_packet_ignored_witness:
  "\<exists>fw1 evs. on_frame env0 fw_run0 (tagged_frame relay_on_header [] (replicate 16 0)) = Some (Inr (fw1, evs)) \<and>
    on_frame env0 fw1 (tagged_frame relay_on_header [] (replicate 16 3)) = Some (Inr (fw1\<lparr>fw_rx := write_at (fw_rx fw1) 0 []\<rparr>, []))"
proof -
  obtain fw1 evs where 1: "on_frame env0 fw_run0 (tagged_frame relay_on_header [] (replicate 16 0)) = Some (Inr (fw1, evs))"
    using relay_on_frame by blast
  have st: "fw_steps fw1 [InWs env0 WS_EVENT_ERROR] fw1"
    by (rule more [OF ws stop]) (simp add: ws_event_step_def retC_def)
  have s: "replay_spec {} (h_packet_id relay_on_header)" by (simp add: replay_spec_def relay_on_header_def)
  have f: "frame_ok relay_on_header [] (replicate 16 3)" by (simp add: frame_ok_def relay_on_header_def zero_header_def)
  from replayed_packet_ignored [OF relay_on_ok(1) run0_ok(2) relay_on_ok(2) run0_ok(3,1) s 1 st _ f relay_on_ok(2) refl, of env0]
  show ?thesis using 1 by simp
qed

section \<open>The connection manager\<close>

text \<open>The loop over a sequence of polls, each with the state of the client; it ends with the restart.\<close>

fun run_polls :: "(bool \<times> ws) list \<Rightarrow> u32 \<Rightarrow> u32 \<times> bool" where
  "run_polls [] fail_count = (fail_count, False)"
| "run_polls ((up, w) # ps) fail_count =
     (let (fail_count, evs) = connection_manager_turn up w fail_count
      in if Restart \<in> set evs then (fail_count, True) else run_polls ps fail_count)"

definition down :: "bool \<times> ws \<Rightarrow> bool" where
  "down p \<longleftrightarrow> \<not> ykp_ws_is_connected (fst p) (snd p)"

lemma turn_eq:
  assumes "c < 90"
  shows "connection_manager_turn up w (of_nat c) =
    (if down (up, w) then (of_nat (Suc c), DelayMs 2000 # (if 90 \<le> Suc c then [Restart] else [])) else (0, [DelayMs 2000]))"
proof -
  have u: "unat (of_nat (Suc c) :: u32) = Suc c" "unat (90 :: u32) = 90"
    using assms by (simp_all add: unat_of_nat take_bit_nat_eq_self del: of_nat_Suc)
  have "MAX_FAILS \<le> of_nat (Suc c) \<longleftrightarrow> 90 \<le> Suc c"
    unfolding MAX_FAILS_def word_le_nat_alt u ..
  then show ?thesis by (simp add: connection_manager_turn_def down_def Let_def add.commute)
qed

text \<open>The counter alone: whether it reaches \<open>m\<close>, started at \<open>c\<close>.\<close>

fun counts_to :: "nat \<Rightarrow> bool list \<Rightarrow> nat \<Rightarrow> bool" where
  "counts_to m [] c = False"
| "counts_to m (d # ds) c = (if d then m \<le> Suc c \<or> counts_to m ds (Suc c) else counts_to m ds 0)"

lemma run_polls_counts: "c < 90 \<Longrightarrow> snd (run_polls ps (of_nat c)) \<longleftrightarrow> counts_to 90 (map down ps) c"
proof (induction ps arbitrary: c)
  case (Cons p ps)
  obtain up w where p: "p = (up, w)" by fastforce
  have 0: "(0 :: u32) = of_nat 0" by simp
  show ?case
    unfolding p run_polls.simps turn_eq [OF Cons.prems] 0
    using Cons.IH [of "Suc c"] Cons.IH [of 0] by (auto simp del: of_nat_Suc of_nat_0)
qed simp

lemma prefix_shorter: "m \<le> n \<Longrightarrow> prefix (replicate n x) ys \<Longrightarrow> prefix (replicate m x) ys"
proof -
  assume "m \<le> n"
  then have "replicate n x = replicate m x @ replicate (n - m) x" by (simp add: replicate_add [symmetric])
  then show "prefix (replicate n x) ys \<Longrightarrow> prefix (replicate m x) ys" by (metis append_prefixD)
qed

lemma counts_to_run:
  assumes "c < m"
  shows "counts_to m ds c \<longleftrightarrow> prefix (replicate (m - c) True) ds \<or> sublist (replicate m True) ds"
  using assms
proof (induction ds arbitrary: c)
  case (Cons d ds)
  obtain k where k: "m = Suc k" using Cons.prems by (cases m) auto
  have c: "m - c = Suc (k - c)" using Cons.prems k by simp
  have s: "sublist (replicate m True) (d # ds) \<longleftrightarrow> d \<and> prefix (replicate k True) ds \<or> sublist (replicate m True) ds"
    unfolding sublist_Cons_right by (auto simp: k)
  show ?case
  proof (cases "d \<and> Suc c < m")
    case True
    have "prefix (replicate k True) ds \<Longrightarrow> prefix (replicate (k - c) True) ds" by (erule prefix_shorter [rotated]) simp
    moreover have "m - Suc c = k - c" using k by simp
    ultimately show ?thesis using True Cons.IH [of "Suc c"] s c by auto
  next
    case False
    have "prefix (replicate m True) ds \<Longrightarrow> sublist (replicate m True) ds" by (rule prefix_imp_sublist)
    then show ?thesis using False Cons.IH [of 0] Cons.prems s c by (auto simp: k)
  qed
qed simp

text \<open>
  The connection manager restarts the device exactly if the WebSocket is found down at 90 polls in a row
  (three minutes), whatever happened before; a single successful poll starts the count again.
\<close>

lemma manager_restarts_iff:
  "snd (run_polls ps 0) \<longleftrightarrow> sublist (replicate 90 True) (map down ps)"
proof -
  have "prefix (replicate 90 True) (map down ps) \<Longrightarrow> sublist (replicate 90 True) (map down ps)" by (rule prefix_imp_sublist)
  then show ?thesis using run_polls_counts [of 0 ps] counts_to_run [of 0 90 "map down ps"] by auto
qed

section \<open>Faults\<close>

lemma ack_fill:
  "tb_fill (snd (ykp_tlv_add_uint8 (ykp_tlv_builder_init (replicate 64 0) 64) (tlv_code TLV_STATE) v)) 64 (0 + 11)
    ([] @ [(tlv_code TLV_STATE, VUint (ucast v))])"
  by (intro u8_adder.add_fill [OF _ entry_small(1)] fill_init) simp_all

lemma send_ack_safe: "\<exists>evs. send_ack calloc_ok malloc_ok r pid sid dst = Inr evs"
  unfolding send_ack_def Let_def case_prod_beta by (rule fill_safe [OF ack_fill]) simp_all

lemma relay_handle_safe: "\<exists>r' evs. relay_service_handle calloc_ok malloc_ok ble r action pid sid dst = Inr (r', evs)"
proof -
  obtain ack where "send_ack calloc_ok malloc_ok r' pid sid dst = Inr (ack r')" for r'
    using send_ack_safe [of calloc_ok malloc_ok _ pid sid dst] by metis
  then show ?thesis
    by (auto simp: relay_service_handle_def Let_def split: option.splits ykp_relay_action_t.splits)
qed

lemma sensor_safe:
  assumes "length (sn_device_id s) \<le> 8"
  shows "\<exists>evs. sensor_service_send_report calloc_ok malloc_ok s r now = Inr evs"
proof -
  have dev: "length (sn_device_id s) \<le> 9" using assms by simp
  show ?thesis unfolding sensor_service_send_report_def Let_def case_prod_beta
    by (rule fill_safe [OF sensor_fill [OF dev]]) simp_all
qed

lemma health_safe:
  assumes "length (hs_device_id h) \<le> 8"
  shows "\<exists>evs. health_service_send_report calloc_ok malloc_ok h fh mh tc rssi up rtt = Inr evs"
proof (cases "hs_send h")
  case True
  have dev: "length (hs_device_id h) \<le> 9" using assms by simp
  show ?thesis unfolding health_service_send_report_def Let_def case_prod_beta
    by (simp only: True not_True_eq_False if_False) (rule fill_safe [OF health_fill [OF dev]], simp_all)
qed (simp add: health_service_send_report_def)

lemma dispatch_safe:
  assumes "h_service_id (p_header pkt) \<noteq> service_code SVC_OTA" "length (sn_device_id (fw_sensor fw)) \<le> 8"
    "length (hs_device_id (fw_health fw)) \<le> 8"
  shows "\<exists>fw' evs. dispatch_service env fw pkt = Some (Inr (fw', evs))"
proof (cases "service_decode (h_service_id (p_header pkt))")
  case (Some sv)
  let ?h = "p_header pkt"
  have "sv \<noteq> SVC_OTA" using Some assms(1) svc.decode_iff by auto
  then show ?thesis
    using Some sensor_safe [OF assms(2), of "fe_calloc env" "fe_malloc env" "fe_reading env" "fe_now_sec env"]
      health_safe [OF assms(3), of "fe_calloc env" "fe_malloc env" "fe_free_heap env" "fe_min_heap env" "fe_tasks env"
        "fe_rssi env" "fe_uptime env" "fw_rtt fw"]
      relay_handle_safe [of "fe_calloc env" "fe_malloc env" "fe_ble env" "fw_relay fw" "h_action_id ?h" "h_packet_id ?h"
        "h_session_id ?h" "cstr (h_source_id ?h)"]
    by (cases sv) (auto simp: dispatch_service_def Let_def retC_def liftC_def)
qed (simp add: dispatch_service_def Let_def retC_def)

text \<open>What the documentation of \<open>psa_aead_decrypt\<close> says of lengths: the plaintext is the ciphertext without its tag.\<close>

definition aead_decrypt_length :: "psa \<Rightarrow> bool" where
  "aead_decrypt_length ops \<longleftrightarrow> (\<forall>k iv aad c p. psa_aead_decrypt ops k iv aad c = Some p \<longrightarrow> length p + 16 = length c)"

lemma decrypt_safe:
  assumes "aead_decrypt_length (fe_psa env)" "33 \<le> length raw" "length (fw_rx fw) = 512" "pkt_wf (fw_rx fw) pkt"
    "unat (p_payload_len pkt) \<le> 512"
  shows "\<exists>r. decrypt_payload env fw raw pkt = Inr r"
proof (cases "p_payload pkt = PNull")
  case False
  let ?n = "unat (p_payload_len pkt)" and ?c = "slice 0 (unat (p_payload_len pkt)) (payload_mem (fw_rx fw) pkt)"
  have n: "?n \<le> length (payload_mem (fw_rx fw) pkt)" using assms(4) False by (simp add: pkt_wf_def)
  have tag: "length (p_auth_tag pkt) = 16" using assms(4) by (simp add: pkt_wf_def)
  have "length p \<le> 512" if "ykp_security_decrypt (fe_psa env) keys pid aad ?c (p_auth_tag pkt) = Some p" for keys pid aad p
  proof -
    have "length p + 16 = length (?c @ p_auth_tag pkt)"
      using that assms(1) unfolding aead_decrypt_length_def ykp_security_decrypt_def Let_def
      by (metis option.distinct(1))
    then show ?thesis using tag n assms(5) by simp
  qed
  then show ?thesis
    using n assms(2,3) by (auto simp: decrypt_payload_def size_defs split: option.splits)
qed (simp add: decrypt_payload_def)

text \<open>
  C6. Whatever arrives over the network, a packet that is not for the security or the update service is
  handled to its end without a fault: no byte outside an array is read or written and no static
  buffer is freed, in every state, whether allocations succeed or fail and whatever the crypto library answers.
\<close>

theorem plain_packets_never_fault:
  assumes raw: "unat len \<le> length raw" "raw ! 29 \<noteq> service_code SVC_SECURITY" "raw ! 29 \<noteq> service_code SVC_OTA"
    and fw: "length (fw_rx fw) = 512" "length (sn_device_id (fw_sensor fw)) \<le> 8" "length (hs_device_id (fw_health fw)) \<le> 8"
    and law: "aead_decrypt_length (fe_psa env)"
  shows "\<exists>fw' evs. handle_incoming_packet env fw raw len = Some (Inr (fw', evs)) \<and> length (fw_rx fw') = 512"
proof -
  obtain ok pkt rx where p: "ykp_packet_parse raw len zero_packet (fw_rx fw) = Inr (ok, pkt, rx)" "length rx = 512"
    using parse_total [OF raw(1) fw(1)] by blast
  have "\<exists>fw' evs. handle_incoming_packet env fw raw len = Some (Inr (fw', evs))"
  proof (cases ok)
    case True
    have h: "h_service_id (p_header pkt) = raw ! 29" using read_header_service [OF parse_header] p(1) True by simp
    have acc: "pkt_wf rx pkt" "unat (p_payload_len pkt) \<le> 512" "33 \<le> length raw"
      using parse_accepts [OF _ raw(1) fw(1)] p(1) True raw(1) by fastforce+
    let ?fw = "fw\<lparr>fw_rx := rx\<rparr>"
    let ?g = "?fw\<lparr>fw_replay := snd (ykp_replay_check (fw_replay ?fw) (h_packet_id (p_header pkt)))\<rparr>"
    obtain r where r: "decrypt_payload env ?g raw pkt = Inr r"
      using decrypt_safe [OF law acc(3), of ?g pkt] p(2) acc by auto
    have "\<exists>fw' evs. (case r of None \<Rightarrow> retC (?g, []) | Some fw \<Rightarrow> dispatch_service env fw pkt) = Some (Inr (fw', evs))"
    proof (cases r)
      case (Some g)
      then have "fw_sensor g = fw_sensor fw" "fw_health g = fw_health fw"
        using r by (auto simp: decrypt_payload_def bindE_Inr_iff split: if_splits option.splits)
      then show ?thesis using Some dispatch_safe [of pkt g env] h raw(3) fw(2,3) by simp
    qed (simp add: retC_def)
    then have "\<exists>fw' evs. handle_packet env ?fw raw pkt = Some (Inr (fw', evs))"
      using h raw(2) r by (cases r) (auto simp: handle_packet_def Let_def retC_def case_prod_beta simp del: service_code.simps)
    then show ?thesis
      using True unfolding handle_incoming_packet_def p(1) liftC_simps bindC_simps prod.case Let_def free_done
      by (auto simp: retC_def)
  qed (use p in \<open>simp add: handle_incoming_packet_def retC_def\<close>)
  then show ?thesis using incoming_replay [OF _ raw(1) fw(1)] by blast
qed

theorem plain_packets_never_fault_witness:
  "\<exists>fw' evs. handle_incoming_packet env0 fw_run0 (replicate 600 0x59) 600 = Some (Inr (fw', evs)) \<and> length (fw_rx fw') = 512"
proof (rule plain_packets_never_fault)
  show "length (sn_device_id (fw_sensor fw_run0)) \<le> 8" "length (hs_device_id (fw_health fw_run0)) \<le> 8"
    by (simp_all add: fw_run0_def)
  show "aead_decrypt_length (fe_psa env0)"
    unfolding run0_ok(8) by (auto simp: aead_decrypt_length_def plain_psa_def dest!: arg_cong [where f = length] split: if_splits)
qed (use run0_ok(2) in simp_all)

end
