(* ===== verification/Allocator.thy ===== *)
theory Allocator
  imports Prelude
begin

text \<open>
  The heap of the C library, as the vendored libraries use it (cJSON through its hooks, the WebSocket client
  directly). The allocator is a record: \<open>ha_ok k\<close> says whether the k-th request of the program succeeds
  (any pattern of failures can be chosen), \<open>ha_requests\<close> counts the requests,
  \<open>ha_live\<close> the blocks allocated and not yet freed, \<open>ha_junk k\<close> is what the block of the k-th
  request holds before it is written, and \<open>ha_realloc\<close> says whether the hooks of cJSON have a \<open>reallocate\<close>.
\<close>

section \<open>Requests and blocks\<close>

record hooks =
  ha_ok :: "nat \<Rightarrow> bool"
  ha_requests :: nat
  ha_live :: int
  ha_realloc :: bool
  ha_junk :: "nat \<Rightarrow> nat \<Rightarrow> u8"

definition hook_allocate :: "hooks \<Rightarrow> bool \<times> hooks" where
  "hook_allocate H =
     (if ha_ok H (ha_requests H)
      then (True, H\<lparr>ha_requests := Suc (ha_requests H), ha_live := ha_live H + 1\<rparr>)
      else (False, H\<lparr>ha_requests := Suc (ha_requests H)\<rparr>))"

definition hook_deallocate :: "hooks \<Rightarrow> hooks" where
  "hook_deallocate H = H\<lparr>ha_live := ha_live H - 1\<rparr>"

text \<open>A new block of n bytes, and a block that is resized: the bytes it had, then unspecified ones.\<close>

definition new_block :: "hooks \<Rightarrow> nat \<Rightarrow> bytes" where
  "new_block H n = map (ha_junk H (ha_requests H)) [0..<n]"

definition hook_reallocate :: "bytes \<Rightarrow> nat \<Rightarrow> hooks \<Rightarrow> bytes option \<times> hooks" where
  "hook_reallocate old n H =
     ((if ha_ok H (ha_requests H) then Some (take n (old @ drop (length old) (new_block H n))) else None),
      H\<lparr>ha_requests := Suc (ha_requests H)\<rparr>)"

text \<open>
  Two states of the allocator are related by \<open>hooks_step d\<close> when the later one has d blocks
  more, and the same pattern of failures.
\<close>

definition hooks_step :: "int \<Rightarrow> hooks \<Rightarrow> hooks \<Rightarrow> bool" where
  "hooks_step d H H' \<longleftrightarrow> ha_ok H' = ha_ok H \<and> ha_realloc H' = ha_realloc H \<and>
     ha_requests H \<le> ha_requests H' \<and> ha_live H' = ha_live H + d"

text \<open>An allocator that never fails, from now on.\<close>

definition hooks_good :: "hooks \<Rightarrow> bool" where
  "hooks_good H \<longleftrightarrow> (\<forall>k \<ge> ha_requests H. ha_ok H k)"

text \<open>The allocator of a fresh program, which never fails.\<close>

definition hooks0 :: hooks where
  "hooks0 = \<lparr>ha_ok = \<lambda>_. True, ha_requests = 0, ha_live = 0, ha_realloc = True, ha_junk = \<lambda>_ _. 0\<rparr>"

named_theorems hook_rules "how the operations change the allocator"

lemma hooks_step_refl [hook_rules, simp]: "hooks_step 0 H H"
  by (simp add: hooks_step_def)

lemma hooks_step_trans: "hooks_step d H H' \<Longrightarrow> hooks_step e H' H'' \<Longrightarrow> hooks_step (d + e) H H''"
  by (simp add: hooks_step_def)

lemma hook_allocate_step:
  "hook_allocate H = (r, H') \<Longrightarrow> hooks_step (if r then 1 else 0) H H'"
  by (auto simp: hook_allocate_def hooks_step_def split: if_splits)

lemma length_new_block [simp]: "length (new_block H n) = n"
  by (simp add: new_block_def)

lemma hook_reallocate_step:
  "hook_reallocate old n H = (r, H') \<Longrightarrow> hooks_step 0 H H' \<and>
     (case r of None \<Rightarrow> \<not> hooks_good H | Some new \<Rightarrow> length new = n \<and> take (length old) new = take n old)"
  by (auto simp: hook_reallocate_def hooks_step_def hooks_good_def min_def split: option.splits if_splits)

lemma hook_deallocate_step [hook_rules]: "hooks_step (- 1) H (hook_deallocate H)"
  by (simp add: hooks_step_def hook_deallocate_def)

lemma hook_deallocate_if:
  "hooks_step (if P then - 1 else 0) H (if P then hook_deallocate H else H)"
  using hook_deallocate_step by simp

lemma hooks_good_allocate [simp]: "hooks_good H \<Longrightarrow> fst (hook_allocate H)"
  by (simp add: hooks_good_def hook_allocate_def)

lemma hooks_good_step: "hooks_good H \<Longrightarrow> hooks_step d H H' \<Longrightarrow> hooks_good H'"
  by (simp add: hooks_good_def hooks_step_def)

text \<open>Whether a pointer to a block is counted.\<close>

definition blk :: "'a option \<Rightarrow> int" where
  "blk p = (case p of None \<Rightarrow> 0 | Some _ \<Rightarrow> 1)"

lemma blk_simps [simp]: "blk None = 0" "blk (Some x) = 1"
  by (simp_all add: blk_def)

end
