(* ===== verification/Cjson.thy ===== *)
theory Cjson
  imports Allocator Cstring Complex_Main
begin

text \<open>
  The data of cJSON (\<open>managed_components/espressif__cjson/cJSON\<close>), the JSON library the
  provisioning code parses the phone's commands with: doubles, and the items of a document.

  \<^item> A double is a rational number, an infinity or NaN; the operations round the exact
    result to 53 significant bits, half to even, as IEEE 754 does. The two zeros are one value:
    no operation of cJSON tells them apart.
  \<^item> An item is its fields and the list of its children. The fields \<open>next\<close> and \<open>prev\<close>, which
    chain the children of an item, are the order of that list; what the code does to these
    pointers when a list is edited is the subject of the theory \<open>Cjson_Heap\<close>.
\<close>

section \<open>Doubles\<close>

datatype double = Fin rat | Inf bool | NaN

definition INT_MAX :: int where "INT_MAX = 2147483647"
definition INT_MIN :: int where "INT_MIN = - 2147483648"

definition pow_rat :: "nat \<Rightarrow> int \<Rightarrow> rat" where
  "pow_rat b k = (if 0 \<le> k then of_nat b ^ nat k else 1 / of_nat b ^ nat (- k))"

text \<open>\<open>ilog b n\<close>: the largest k with \<open>b ^ k \<le> n\<close> (for a base of at least 2 and a positive n).\<close>

fun ilog :: "nat \<Rightarrow> nat \<Rightarrow> nat" where
  "ilog b n = (if b < 2 \<or> n < b then 0 else Suc (ilog b (n div b)))"

declare ilog.simps [simp del]

definition rat_log :: "nat \<Rightarrow> rat \<Rightarrow> int" where
  "rat_log b x =
     (let (n, d) = quotient_of x; k = int (ilog b (nat n)) - int (ilog b (nat d))
      in if pow_rat b k \<le> x then k else k - 1)"

definition round_even :: "rat \<Rightarrow> int" where
  "round_even q =
     (let f = floor q; r = q - of_int f
      in if r < 1 / 2 then f else if 1 / 2 < r then f + 1 else if even f then f else f + 1)"

text \<open>The double nearest to a rational number.\<close>

definition round_double :: "rat \<Rightarrow> double" where
  "round_double x =
     (if x = 0 then Fin 0
      else let e = max (rat_log 2 \<bar>x\<bar> - 52) (- 1074);
               y = of_int (round_even (\<bar>x\<bar> / pow_rat 2 e)) * pow_rat 2 e
           in if pow_rat 2 1024 \<le> y then Inf (x < 0) else Fin (if x < 0 then - y else y))"

fun d_le :: "double \<Rightarrow> double \<Rightarrow> bool" where
  "d_le NaN _ = False"
| "d_le _ NaN = False"
| "d_le (Inf s) (Inf t) = (s \<or> \<not> t)"
| "d_le (Inf s) (Fin _) = s"
| "d_le (Fin _) (Inf t) = (\<not> t)"
| "d_le (Fin x) (Fin y) = (x \<le> y)"

fun d_eq :: "double \<Rightarrow> double \<Rightarrow> bool" where
  "d_eq NaN _ = False"
| "d_eq _ NaN = False"
| "d_eq x y = (x = y)"

fun fabs :: "double \<Rightarrow> double" where
  "fabs (Fin x) = Fin \<bar>x\<bar>"
| "fabs (Inf _) = Inf False"
| "fabs NaN = NaN"

fun d_sub :: "double \<Rightarrow> double \<Rightarrow> double" where
  "d_sub (Fin x) (Fin y) = round_double (x - y)"
| "d_sub (Fin _) (Inf t) = Inf (\<not> t)"
| "d_sub (Inf s) (Fin _) = Inf s"
| "d_sub (Inf s) (Inf t) = (if s = t then NaN else Inf s)"
| "d_sub _ _ = NaN"

text \<open>\<open>DBL_EPSILON\<close> is 2 to the power -52.\<close>

fun mul_epsilon :: "double \<Rightarrow> double" where
  "mul_epsilon (Fin x) = round_double (x * pow_rat 2 (- 52))"
| "mul_epsilon (Inf s) = Inf s"
| "mul_epsilon NaN = NaN"

definition d_gt :: "double \<Rightarrow> double \<Rightarrow> bool" where
  "d_gt x y \<longleftrightarrow> d_le y x \<and> \<not> d_eq x y"

definition compare_double :: "double \<Rightarrow> double \<Rightarrow> bool" where
  "compare_double a b =
     (let maxVal = if d_gt (fabs a) (fabs b) then fabs a else fabs b
      in d_le (fabs (d_sub a b)) (mul_epsilon maxVal))"

text \<open>The conversion \<open>(int) number\<close> cuts the fraction off.\<close>

fun d_to_int :: "double \<Rightarrow> int" where
  "d_to_int (Fin x) = (if 0 \<le> x then floor x else ceiling x)"
| "d_to_int _ = 0"

definition saturate :: "double \<Rightarrow> int" where
  "saturate d =
     (if d_le (Fin (of_int INT_MAX)) d then INT_MAX
      else if d_le d (Fin (of_int INT_MIN)) then INT_MIN
      else d_to_int d)"

definition int_range :: "int \<Rightarrow> bool" where
  "int_range i \<longleftrightarrow> INT_MIN \<le> i \<and> i \<le> INT_MAX"

lemma saturate_range: "int_range (saturate d)"
proof (cases d)
  case (Fin x)
  then show ?thesis
    by (auto simp: saturate_def int_range_def INT_MAX_def INT_MIN_def; linarith)
qed (auto simp: saturate_def int_range_def INT_MAX_def INT_MIN_def)

lemma saturate_int [simp]: "int_range i \<Longrightarrow> saturate (Fin (of_int i)) = i"
  by (auto simp: saturate_def int_range_def INT_MAX_def INT_MIN_def)

section \<open>Items\<close>

text \<open>The kinds of an item (one bit each) and its two flags.\<close>

definition cJSON_Invalid :: u32 where "cJSON_Invalid = 0"
definition cJSON_False :: u32 where "cJSON_False = 1"
definition cJSON_True :: u32 where "cJSON_True = 2"
definition cJSON_NULL :: u32 where "cJSON_NULL = 4"
definition cJSON_Number :: u32 where "cJSON_Number = 8"
definition cJSON_String :: u32 where "cJSON_String = 16"
definition cJSON_Array :: u32 where "cJSON_Array = 32"
definition cJSON_Object :: u32 where "cJSON_Object = 64"
definition cJSON_Raw :: u32 where "cJSON_Raw = 128"
definition cJSON_IsReference :: u32 where "cJSON_IsReference = 256"
definition cJSON_StringIsConst :: u32 where "cJSON_StringIsConst = 512"

lemmas cjson_types = cJSON_Invalid_def cJSON_False_def cJSON_True_def cJSON_NULL_def
  cJSON_Number_def cJSON_String_def cJSON_Array_def cJSON_Object_def cJSON_Raw_def

lemmas cjson_flags = cJSON_IsReference_def cJSON_StringIsConst_def

definition CJSON_NESTING_LIMIT :: nat where "CJSON_NESTING_LIMIT = 1000"
definition CJSON_CIRCULAR_LIMIT :: nat where "CJSON_CIRCULAR_LIMIT = 10000"

record cJSON_node =
  cj_type :: u32
  cj_valuestring :: "bytes option"
  cj_valueint :: int
  cj_valuedouble :: double
  cj_string :: "bytes option"

datatype cJSON = Item (node: cJSON_node) (child: "cJSON list")

definition zero_node :: cJSON_node where
  "zero_node = \<lparr>cj_type = 0, cj_valuestring = None, cj_valueint = 0, cj_valuedouble = Fin 0,
     cj_string = None\<rparr>"

definition cJSON_New_Item :: "hooks \<Rightarrow> cJSON option \<times> hooks" where
  "cJSON_New_Item H =
     (case hook_allocate H of (r, H) \<Rightarrow> (if r then Some (Item zero_node []) else None, H))"

definition cJSON_strdup :: "bytes \<Rightarrow> hooks \<Rightarrow> bytes option \<times> hooks" where
  "cJSON_strdup s H =
     (case hook_allocate H of (r, H) \<Rightarrow> (if r then Some (cstr s) else None, H))"

text \<open>
  Whether the item owns the blocks its fields \<open>child\<close> and \<open>valuestring\<close> point to, and the
  block of its name.
\<close>

definition owns_value :: "cJSON_node \<Rightarrow> bool" where
  "owns_value n \<longleftrightarrow> cj_type n AND cJSON_IsReference = 0"

definition owns_name :: "cJSON_node \<Rightarrow> bool" where
  "owns_name n \<longleftrightarrow> cj_type n AND cJSON_StringIsConst = 0"

text \<open>The loop of \<open>cJSON_Delete\<close> over an item and the items chained behind it.\<close>

fun cJSON_Delete :: "cJSON list \<Rightarrow> hooks \<Rightarrow> hooks" where
  "cJSON_Delete [] H = H"
| "cJSON_Delete (Item n cs # sibs) H =
     (let H = if owns_value n \<and> cs \<noteq> [] then cJSON_Delete cs H else H;
          H = if owns_value n \<and> cj_valuestring n \<noteq> None then hook_deallocate H else H;
          H = if owns_name n \<and> cj_string n \<noteq> None then hook_deallocate H else H
      in cJSON_Delete sibs (hook_deallocate H))"

text \<open>The blocks of memory an item owns: itself, its strings, its children.\<close>

definition node_blocks :: "cJSON_node \<Rightarrow> int" where
  "node_blocks n = 1 + (if owns_value n \<and> cj_valuestring n \<noteq> None then 1 else 0) +
     (if owns_name n \<and> cj_string n \<noteq> None then 1 else 0)"

fun blocks :: "cJSON list \<Rightarrow> int" where
  "blocks [] = 0"
| "blocks (Item n cs # sibs) = node_blocks n + (if owns_value n then blocks cs else 0) + blocks sibs"

lemma blocks_append [simp]: "blocks (xs @ ys) = blocks xs + blocks ys"
  by (induction xs rule: blocks.induct) auto

lemma cJSON_Delete_step: "hooks_step (- blocks ts) H (cJSON_Delete ts H)"
proof (induction ts H rule: cJSON_Delete.induct)
  case (2 n cs sibs H)
  let ?a = "if owns_value n \<and> cs \<noteq> [] then cJSON_Delete cs H else H"
  let ?b = "if owns_value n \<and> cj_valuestring n \<noteq> None then hook_deallocate ?a else ?a"
  let ?c = "if owns_name n \<and> cj_string n \<noteq> None then hook_deallocate ?b else ?b"
  have a: "hooks_step (if owns_value n then - blocks cs else 0) H ?a"
    using "2.IH"(1) by (cases "cs = []") auto
  have b: "hooks_step (if owns_value n \<and> cj_valuestring n \<noteq> None then - 1 else 0) ?a ?b"
    by (rule hook_deallocate_if)
  have c: "hooks_step (if owns_name n \<and> cj_string n \<noteq> None then - 1 else 0) ?b ?c"
    by (rule hook_deallocate_if)
  have d: "hooks_step (- blocks sibs) (hook_deallocate ?c) (cJSON_Delete sibs (hook_deallocate ?c))"
    by (rule "2.IH"(2)) simp_all
  note s = hooks_step_trans [OF hooks_step_trans [OF hooks_step_trans [OF
      hooks_step_trans [OF a b] c] hook_deallocate_step] d]
  have "- blocks (Item n cs # sibs) = (if owns_value n then - blocks cs else 0) +
      (if owns_value n \<and> cj_valuestring n \<noteq> None then - 1 else 0) +
      (if owns_name n \<and> cj_string n \<noteq> None then - 1 else 0) + - 1 + - blocks sibs"
    by (simp add: node_blocks_def)
  with s show ?case by (simp only: cJSON_Delete.simps Let_def)
qed simp

section \<open>Comparison of names\<close>

definition tolower :: "u8 \<Rightarrow> u8" where
  "tolower c = (if 0x41 \<le> c \<and> c \<le> 0x5A then c + 0x20 else c)"

text \<open>
  The comparison walks over two strings with their terminators; the result is the difference
  of the first two bytes that differ.
\<close>

fun strcmp_nocase :: "bytes \<Rightarrow> bytes \<Rightarrow> int" where
  "strcmp_nocase [] [] = 0"
| "strcmp_nocase [] (b # t) = (if b = 0 then 0 else - uint (tolower b))"
| "strcmp_nocase (a # s) [] = (if a = 0 then 0 else uint (tolower a))"
| "strcmp_nocase (a # s) (b # t) =
     (if tolower a = tolower b then (if a = 0 then 0 else strcmp_nocase s t)
      else uint (tolower a) - uint (tolower b))"

definition case_insensitive_strcmp :: "bytes option \<Rightarrow> bytes option \<Rightarrow> int" where
  "case_insensitive_strcmp s t =
     (case (s, t) of (Some s, Some t) \<Rightarrow> strcmp_nocase s t | _ \<Rightarrow> 1)"

lemma tolower_0 [simp]: "tolower b = 0 \<longleftrightarrow> b = 0" "tolower 0 = 0"
proof -
  have "b + 0x20 \<noteq> 0" if "0x41 \<le> b" "b \<le> 0x5A"
  proof -
    have "unat b + 32 < 256" using that by (simp add: word_le_nat_alt)
    then have "unat (b + 0x20) = unat b + 32" using unat_add_lem [of b "0x20"] by simp
    then show ?thesis by (metis add_is_0 unat_0 zero_neq_numeral)
  qed
  then show "tolower b = 0 \<longleftrightarrow> b = 0" by (auto simp: tolower_def)
  show "tolower 0 = 0" by (simp add: tolower_def)
qed

lemma strcmp_nocase_0:
  "strcmp_nocase s t = 0 \<longleftrightarrow> map tolower (cstr s) = map tolower (cstr t)"
proof (induction s t rule: strcmp_nocase.induct)
  case (2 b t)
  then show ?case by (auto simp: cstr_def uint_0_iff)
next
  case (3 a s)
  then show ?case by (auto simp: cstr_def uint_0_iff)
next
  case (4 a s b t)
  have u: "uint (tolower a) - uint (tolower b) = 0 \<longleftrightarrow> tolower a = tolower b"
    by (simp add: word_uint_eq_iff)
  show ?case
  proof (cases "a = 0 \<or> b = 0")
    case True
    then show ?thesis using u by (auto simp: cstr_def uint_0_iff)
  next
    case False
    then show ?thesis using u "4.IH" by (auto simp: cstr_def)
  qed
qed (simp add: cstr_def)

lemma case_insensitive_strcmp_0:
  "case_insensitive_strcmp s t = 0 \<longleftrightarrow>
     (\<exists>x y. s = Some x \<and> t = Some y \<and> map tolower (cstr x) = map tolower (cstr y))"
  by (auto simp: case_insensitive_strcmp_def strcmp_nocase_0 split: option.splits)

end
