(* ===== verification/Cjson_Number.thy ===== *)
theory Cjson_Number
  imports Cjson
begin

text \<open>
  Numbers as text, the way \<open>cJSON.c\<close> reads and writes them: \<open>strtod\<close> of the C library on the
  characters a JSON number may have, and the conversions \<open>%1.15g\<close> and \<open>%1.17g\<close> of \<open>sprintf\<close>.
  Both are exact up to one rounding: to the nearest double, and to the nearest decimal with
  that many digits. The main lemma of the theory is that a 32-bit integer printed with
  \<open>%d\<close> is read back as that integer.
\<close>

section \<open>\<open>strtod\<close>\<close>

text \<open>Without \<open>ENABLE_LOCALES\<close> the decimal point is a point.\<close>

definition get_decimal_point :: u8 where
  "get_decimal_point = 0x2E"

definition is_digit :: "u8 \<Rightarrow> bool" where
  "is_digit c \<longleftrightarrow> 0x30 \<le> c \<and> c \<le> 0x39"

definition digits_value :: "bytes \<Rightarrow> nat" where
  "digits_value ds = foldl (\<lambda>n c. 10 * n + (unat c - 48)) 0 ds"

text \<open>The exponent, when one follows: its value and the number of characters it takes.\<close>

definition exponent_part :: "bytes \<Rightarrow> int \<times> nat" where
  "exponent_part t =
     (case t of
        [] \<Rightarrow> (0, 0)
      | c # u \<Rightarrow>
          if c = 0x65 \<or> c = 0x45
          then let sg = (if u \<noteq> [] \<and> (hd u = 0x2B \<or> hd u = 0x2D) then 1 else 0);
                   ds = takeWhile is_digit (drop sg u)
               in if ds = [] then (0, 0)
                  else ((if sg = 1 \<and> hd u = 0x2D then - 1 else 1) * int (digits_value ds),
                        1 + sg + length ds)
          else (0, 0))"

definition strtod :: "bytes \<Rightarrow> double \<times> nat" where
  "strtod text =
     (let s = cstr text;
          sg = (if s \<noteq> [] \<and> (hd s = 0x2B \<or> hd s = 0x2D) then 1 else 0);
          neg = (sg = 1 \<and> hd s = 0x2D);
          ip = takeWhile is_digit (drop sg s);
          u = drop (sg + length ip) s;
          dot = (if u \<noteq> [] \<and> hd u = 0x2E then 1 else 0);
          fp = (if dot = 1 then takeWhile is_digit (tl u) else []);
          p = sg + length ip + dot + length fp;
          (ex, n) = exponent_part (drop p s);
          x = of_nat (digits_value (ip @ fp)) * pow_rat 10 (ex - int (length fp))
      in if ip = [] \<and> fp = [] then (Fin 0, 0)
         else (round_double (if neg then - x else x), p + n))"

section \<open>\<open>sprintf\<close> with a precision\<close>

definition strip_zeros :: "bytes \<Rightarrow> bytes" where
  "strip_zeros ds = rev (dropWhile (\<lambda>c. c = 0x30) (rev ds))"

definition with_fraction :: "bytes \<Rightarrow> bytes \<Rightarrow> bytes" where
  "with_fraction ip fp =
     (let fp = strip_zeros fp in if fp = [] then ip else ip @ 0x2E # fp)"

definition exponent_text :: "int \<Rightarrow> bytes" where
  "exponent_text X =
     (let e = dec (nat \<bar>X\<bar>)
      in 0x65 # (if X < 0 then 0x2D else 0x2B) # (if length e < 2 then 0x30 # e else e))"

text \<open>\<open>%1.Pg\<close> of a finite number: P significant digits, without trailing zeros.\<close>

definition fmt_g :: "nat \<Rightarrow> rat \<Rightarrow> bytes" where
  "fmt_g P x =
     (if x = 0 then [0x30]
      else let a = \<bar>x\<bar>;
               X0 = rat_log 10 a;
               M0 = nat (round_even (a * pow_rat 10 (int P - 1 - X0)));
               (M, X) = (if M0 = 10 ^ P then (10 ^ (P - 1), X0 + 1) else (M0, X0));
               ds = dec M;
               body = (if - 4 \<le> X \<and> X < int P
                       then if 0 \<le> X
                            then with_fraction (take (nat X + 1) ds) (drop (nat X + 1) ds)
                            else with_fraction [0x30] (replicate (nat (- X - 1)) 0x30 @ ds)
                       else with_fraction (take 1 ds) (drop 1 ds) @ exponent_text X)
           in if x < 0 then 0x2D # body else body)"

section \<open>Integers are doubles\<close>

lemma ilog_le: "1 < b \<Longrightarrow> 0 < n \<Longrightarrow> b ^ ilog b n \<le> n"
proof (induction b n rule: ilog.induct)
  case (1 b n)
  show ?case
  proof (cases "n < b")
    case True
    then show ?thesis using 1 by (simp add: ilog.simps)
  next
    case False
    then have "0 < n div b" using 1 by (simp add: div_greater_zero_iff)
    then have "b ^ ilog b (n div b) \<le> n div b" using 1 False by simp
    then have "b * b ^ ilog b (n div b) \<le> b * (n div b)" by simp
    also have "\<dots> \<le> n" by simp
    finally show ?thesis using False 1 by (simp add: ilog.simps [of b n])
  qed
qed

lemma ilog_one [simp]: "ilog b (Suc 0) = 0"
  by (subst ilog.simps) auto

lemma rat_log_int: "0 < z \<Longrightarrow> z < 2 ^ k \<Longrightarrow> rat_log 2 (of_int z) < int k"
proof -
  assume z: "0 < z" "z < 2 ^ k"
  have q: "quotient_of (of_int z) = (z, 1)" by (simp add: quotient_of_int)
  have "(2::nat) ^ ilog 2 (nat z) \<le> nat z" using z by (intro ilog_le) auto
  also have "nat z < 2 ^ k" using z by (metis nat_less_iff of_nat_numeral of_nat_power less_imp_le)
  finally have "ilog 2 (nat z) < k" by simp
  then show ?thesis by (simp add: rat_log_def q Let_def)
qed

lemma round_even_int [simp]: "round_even (of_int z) = z"
  by (simp add: round_even_def)

lemma pow_rat_neg: "k < 0 \<Longrightarrow> pow_rat b k = 1 / of_nat b ^ nat (- k)"
  by (simp add: pow_rat_def)

lemma pow_rat_1024: "2 ^ 52 < pow_rat 2 1024"
  unfolding pow_rat_def by (simp del: power_numeral)

lemma round_double_int: "\<bar>z\<bar> < 2 ^ 52 \<Longrightarrow> round_double (of_int z) = Fin (of_int z)"
proof (cases "z = 0")
  case False
  assume z: "\<bar>z\<bar> < 2 ^ 52"
  have l: "rat_log 2 (of_int \<bar>z\<bar>) < int 52" using z False by (intro rat_log_int) auto
  define e where "e = max (rat_log 2 \<bar>of_int z\<bar> - 52) (- 1074)"
  have a: "\<bar>of_int z :: rat\<bar> = of_int \<bar>z\<bar>" by (rule of_int_abs [symmetric])
  have e: "e < 0" using l unfolding e_def a by linarith
  define j where "j = nat (- e)"
  have p: "pow_rat 2 e = 1 / 2 ^ j" unfolding j_def using e by (subst pow_rat_neg) simp_all
  have y1: "\<bar>of_int z :: rat\<bar> / pow_rat 2 e = of_int (\<bar>z\<bar> * 2 ^ j)" by (simp add: p)
  have y: "of_int (round_even (\<bar>of_int z\<bar> / pow_rat 2 e)) * pow_rat 2 e = (of_int \<bar>z\<bar> :: rat)"
    unfolding y1 round_even_int unfolding p by simp
  have x: "(of_int \<bar>z\<bar> :: rat) < of_int (2 ^ 52)" using z unfolding of_int_less_iff .
  have lt: "\<not> pow_rat 2 1024 \<le> (of_int \<bar>z\<bar> :: rat)" using less_trans [OF x] pow_rat_1024 by (simp only: of_int_power of_int_numeral not_le)
  have n: "(of_int z :: rat) \<noteq> 0" using False by simp
  have "round_double (of_int z) = Fin (if (of_int z :: rat) < 0 then - of_int \<bar>z\<bar> else of_int \<bar>z\<bar>)"
    unfolding round_double_def Let_def e_def [symmetric] y using lt n by (simp only: if_False simp_thms)
  then show ?thesis by (cases "z < 0") simp_all
qed (simp add: round_double_def)

lemma int_range_double: "int_range i \<Longrightarrow> round_double (of_int i) = Fin (of_int i)"
  by (rule round_double_int) (auto simp: int_range_def INT_MAX_def INT_MIN_def)

section \<open>Decimal integers are read back\<close>

lemma digit_byte: "d < 10 \<Longrightarrow> unat (of_nat (48 + d) :: u8) = 48 + d"
  by (rule unat_of_nat_u8) simp

lemma is_digit_unat: "is_digit c \<longleftrightarrow> 48 \<le> unat c \<and> unat c \<le> 57"
  by (simp add: is_digit_def word_le_nat_alt)

lemma is_digit_dec: "d < 10 \<Longrightarrow> is_digit (of_nat (48 + d))"
  using digit_byte [of d] by (simp add: is_digit_unat del: of_nat_add)

lemma dec_digits: "\<forall>c \<in> set (dec n). is_digit c"
proof (induction n rule: dec.induct)
  case (1 n)
  have "is_digit (of_nat (48 + n mod 10))" "n < 10 \<Longrightarrow> is_digit (of_nat (48 + n))"
    by (rule is_digit_dec; simp)+
  then show ?case using 1 unfolding dec.simps [of n] by (simp del: of_nat_add)
qed

lemma dec_not_Nil [simp]: "dec n \<noteq> []"
  by (subst dec.simps) simp

lemma digits_value_snoc: "digits_value (ds @ [c]) = 10 * digits_value ds + (unat c - 48)"
  by (simp add: digits_value_def)

lemma digits_value_dec [simp]: "digits_value (dec n) = n"
proof (induction n rule: dec.induct)
  case (1 n)
  have u: "unat (of_nat (48 + n mod 10) :: u8) = 48 + n mod 10" "n < 10 \<Longrightarrow> unat (of_nat (48 + n) :: u8) = 48 + n"
    by (rule digit_byte; simp)+
  show ?case
  proof (cases "n < 10")
    case True
    then show ?thesis using u by (simp add: dec.simps [of n] digits_value_def del: of_nat_add)
  next
    case False
    then show ?thesis using u 1 by (simp add: dec.simps [of n] digits_value_snoc del: of_nat_add)
  qed
qed

lemma takeWhile_digits [simp]: "takeWhile is_digit (dec n) = dec n"
  using dec_digits by (simp add: takeWhile_eq_all_conv)

lemma hd_dec_digit: "is_digit (hd (dec n))"
  using dec_digits dec_not_Nil list.set_sel(1) by blast

lemma not_sign: "is_digit c \<Longrightarrow> c \<noteq> 0x2B \<and> c \<noteq> 0x2D \<and> c \<noteq> 0x2E"
  by (auto simp: is_digit_unat)

lemma c_string_dec_int [simp]: "c_string (dec_int i)"
  using c_string_dec by (simp add: dec_int_def c_string_def)

lemma exponent_part_Nil [simp]: "exponent_part [] = (0, 0)"
  by (simp add: exponent_part_def)

lemma pow_rat_0 [simp]: "pow_rat b 0 = 1"
  by (simp add: pow_rat_def)

lemma strtod_dec_int: "int_range i \<Longrightarrow> strtod (dec_int i) = (Fin (of_int i), length (dec_int i))"
proof -
  assume i: "int_range i"
  have c: "cstr (dec_int i) = dec_int i" by (simp add: cstr_no_zero)
  have "round_double (of_int i) = Fin (of_int i)" using i by (rule int_range_double)
  moreover have "(of_nat (nat i) :: rat) = of_int i" if "0 \<le> i" using that by simp
  moreover have "- (of_nat (nat (- i)) :: rat) = of_int i" if "i < 0" using that by simp
  moreover have "hd (dec (nat i)) \<noteq> 0x2B" "hd (dec (nat i)) \<noteq> 0x2D"
    using not_sign [OF hd_dec_digit] by auto
  ultimately show ?thesis
    by (cases "i < 0") (simp_all add: strtod_def Let_def c, simp_all add: dec_int_def)
qed

lemma length_dec_int: "int_range i \<Longrightarrow> length (dec_int i) \<le> 11"
proof -
  assume "int_range i"
  then have "nat \<bar>i\<bar> < 10 ^ Suc 9" by (auto simp: int_range_def INT_MAX_def INT_MIN_def)
  from length_dec [OF this] show ?thesis by (auto simp: dec_int_def abs_if split: if_splits)
qed

end
