(* ===== verification/Cjson_Parse.thy ===== *)
theory Cjson_Parse
  imports Cjson_Number
begin

text \<open>
  The parser of \<open>cJSON.c\<close>, from \<open>parse_hex4\<close> to \<open>cJSON_Parse\<close>. The input is an array of
  bytes read by checked accesses; the buffer of an unescaped string has the length the
  code allocates for it, and a byte written behind it is the fault \<open>BufferOverflow\<close>.

  A function that parses returns the C result, the item it was given with the fields it set,
  and the parse buffer. The functions for arrays and objects take the function for a value
  as an argument, and \<open>parse_value\<close> ties the knot: its first argument bounds the depth of the
  recursion and \<open>None\<close> says that the bound was too small. The loops over the elements of an
  array or object are bounded by the length of the input in the same way. The theory
  \<open>Cjson_Safety\<close> shows that the bounds chosen in \<open>cJSON_ParseWithLengthOpts\<close> are enough for every input.
\<close>

section \<open>The parse buffer\<close>

record parse_buffer =
  pb_content :: bytes
  pb_length :: nat
  pb_offset :: nat
  pb_depth :: nat
  pb_hooks :: hooks

definition can_read :: "parse_buffer \<Rightarrow> nat \<Rightarrow> bool" where
  "can_read b n \<longleftrightarrow> pb_offset b + n \<le> pb_length b"

definition can_access_at_index :: "parse_buffer \<Rightarrow> nat \<Rightarrow> bool" where
  "can_access_at_index b i \<longleftrightarrow> pb_offset b + i < pb_length b"

definition at_offset :: "parse_buffer \<Rightarrow> nat \<Rightarrow> fault + u8" where
  "at_offset b i = rd (pb_content b) (pb_offset b + i)"

text \<open>\<open>can_access_at_index(buffer, 0) && buffer_at_offset(buffer)[0] == c\<close>\<close>

definition next_is :: "parse_buffer \<Rightarrow> u8 \<Rightarrow> fault + bool" where
  "next_is b c = (if can_access_at_index b 0 then bindE (at_offset b 0) (\<lambda>x. Inr (x = c)) else Inr False)"

text \<open>\<open>can_read(buffer, n) && strncmp(buffer_at_offset(buffer), word, n) == 0\<close>, n the length of the word.\<close>

definition next_word :: "parse_buffer \<Rightarrow> bytes \<Rightarrow> fault + bool" where
  "next_word b w =
     (if can_read b (length w)
      then bindE (rd_bytes (pb_content b) (pb_offset b) (length w)) (\<lambda>x. Inr (x = w))
      else Inr False)"

definition advance :: "nat \<Rightarrow> parse_buffer \<Rightarrow> parse_buffer" where
  "advance n b = b\<lparr>pb_offset := pb_offset b + n\<rparr>"

definition step_back :: "parse_buffer \<Rightarrow> parse_buffer" where
  "step_back b = b\<lparr>pb_offset := pb_offset b - 1\<rparr>"

text \<open>The loop of \<open>buffer_skip_whitespace\<close>: the offset of the first byte above 32, or the length.\<close>

function skip_ws_from :: "bytes \<Rightarrow> nat \<Rightarrow> nat \<Rightarrow> fault + nat" where
  "skip_ws_from c len i =
     (if i < len
      then bindE (rd c i) (\<lambda>x. if x \<le> 32 then skip_ws_from c len (Suc i) else Inr i)
      else Inr i)"
  by pat_completeness auto
termination by (relation "measure (\<lambda>(c, len, i). len - i)") auto

declare skip_ws_from.simps [simp del]

definition buffer_skip_whitespace :: "parse_buffer \<Rightarrow> fault + parse_buffer" where
  "buffer_skip_whitespace b =
     (if \<not> can_access_at_index b 0 then Inr b
      else bindE (skip_ws_from (pb_content b) (pb_length b) (pb_offset b)) (\<lambda>i.
        Inr (b\<lparr>pb_offset := if i = pb_length b then i - 1 else i\<rparr>)))"

definition skip_utf8_bom :: "parse_buffer \<Rightarrow> fault + parse_buffer" where
  "skip_utf8_bom b =
     (if can_access_at_index b 4
      then bindE (rd_bytes (pb_content b) (pb_offset b) 3) (\<lambda>x.
        Inr (if x = [0xEF, 0xBB, 0xBF] then advance 3 b else b))
      else Inr b)"

section \<open>Numbers\<close>

definition number_char :: "u8 \<Rightarrow> bool" where
  "number_char c \<longleftrightarrow> is_digit c \<or> c = 0x2B \<or> c = 0x2D \<or> c = 0x65 \<or> c = 0x45 \<or> c = 0x2E"

text \<open>How many characters of a number follow, and whether a decimal point is among them.\<close>

function number_span :: "bytes \<Rightarrow> nat \<Rightarrow> nat \<Rightarrow> nat \<Rightarrow> bool \<Rightarrow> fault + nat \<times> bool" where
  "number_span c len off i dot =
     (if off + i < len
      then bindE (rd c (off + i)) (\<lambda>x.
        if number_char x then number_span c len off (Suc i) (dot \<or> x = 0x2E) else Inr (i, dot))
      else Inr (i, dot))"
  by pat_completeness auto
termination by (relation "measure (\<lambda>(c, len, off, i, dot). len - (off + i))") auto

declare number_span.simps [simp del]

type_synonym parsed = "bool \<times> cJSON \<times> parse_buffer"

definition set_number :: "double \<Rightarrow> cJSON_node \<Rightarrow> cJSON_node" where
  "set_number d n = n\<lparr>cj_valuedouble := d, cj_valueint := saturate d, cj_type := cJSON_Number\<rparr>"

definition parse_number :: "cJSON \<Rightarrow> parse_buffer \<Rightarrow> fault + parsed" where
  "parse_number item b =
     bindE (number_span (pb_content b) (pb_length b) (pb_offset b) 0 False) (\<lambda>(n, has_decimal_point).
     case hook_allocate (pb_hooks b) of (r, H) \<Rightarrow>
       if \<not> r then Inr (False, item, b\<lparr>pb_hooks := H\<rparr>)
       else bindE (rd_bytes (pb_content b) (pb_offset b) n) (\<lambda>s.
         let s = (if has_decimal_point then map (\<lambda>c. if c = 0x2E then get_decimal_point else c) s else s);
             (number, after_end) = strtod s;
             b = b\<lparr>pb_hooks := hook_deallocate H\<rparr>
         in if after_end = 0 then Inr (False, item, b)
            else Inr (True, Item (set_number number (node item)) (child item), advance after_end b)))"

section \<open>Strings\<close>

definition hex_value :: "u8 \<Rightarrow> u32 option" where
  "hex_value c =
     (if 0x30 \<le> c \<and> c \<le> 0x39 then Some (ucast c - 0x30)
      else if 0x41 \<le> c \<and> c \<le> 0x46 then Some (10 + ucast c - 0x41)
      else if 0x61 \<le> c \<and> c \<le> 0x66 then Some (10 + ucast c - 0x61)
      else None)"

text \<open>The loop adds a digit and shifts before the next one; a byte that is no digit ends it with 0.\<close>

function parse_hex4_from :: "bytes \<Rightarrow> nat \<Rightarrow> nat \<Rightarrow> u32 \<Rightarrow> fault + u32" where
  "parse_hex4_from c p i h =
     (if i < 4
      then bindE (rd c (p + i)) (\<lambda>x.
        case hex_value x of
          None \<Rightarrow> Inr 0
        | Some v \<Rightarrow> parse_hex4_from c p (Suc i) (if i < 3 then push_bit 4 (h + v) else h + v))
      else Inr h)"
  by pat_completeness auto
termination by (relation "measure (\<lambda>(c, p, i, h). 4 - i)") auto

declare parse_hex4_from.simps [simp del]

definition parse_hex4 :: "bytes \<Rightarrow> nat \<Rightarrow> fault + u32" where
  "parse_hex4 c p = parse_hex4_from c p 0 0"

text \<open>The continuation bytes, written from the last to the first.\<close>

fun utf8_tail :: "nat \<Rightarrow> u32 \<Rightarrow> bytes \<Rightarrow> u32 \<times> bytes" where
  "utf8_tail 0 cp acc = (cp, acc)"
| "utf8_tail (Suc n) cp acc = utf8_tail n (drop_bit 6 cp) (ucast ((cp OR 0x80) AND 0xBF) # acc)"

definition utf8_bytes :: "nat \<Rightarrow> u32 \<Rightarrow> u32 \<Rightarrow> bytes" where
  "utf8_bytes utf8_length first_byte_mark cp =
     (let (cp, tl) = utf8_tail (utf8_length - 1) cp []
      in (if 1 < utf8_length then ucast ((cp OR first_byte_mark) AND 0xFF) else ucast (cp AND 0x7F)) # tl)"

definition utf8_encode :: "u32 \<Rightarrow> bytes option" where
  "utf8_encode cp =
     (if cp < 0x80 then Some (utf8_bytes 1 0 cp)
      else if cp < 0x800 then Some (utf8_bytes 2 0xC0 cp)
      else if cp < 0x10000 then Some (utf8_bytes 3 0xE0 cp)
      else if cp \<le> 0x10FFFF then Some (utf8_bytes 4 0xF0 cp)
      else None)"

text \<open>
  The literal at p, of a string that ends at \<open>input_end\<close>: the length of the escape sequence (0
  when it is not valid) and the bytes it stands for.
\<close>

definition utf16_literal_to_utf8 :: "bytes \<Rightarrow> nat \<Rightarrow> nat \<Rightarrow> fault + nat \<times> bytes" where
  "utf16_literal_to_utf8 c p input_end =
     (if input_end < p + 6 then Inr (0, [])
      else bindE (parse_hex4 c (p + 2)) (\<lambda>first_code.
        if 0xDC00 \<le> first_code \<and> first_code \<le> 0xDFFF then Inr (0, [])
        else bindE
          (if 0xD800 \<le> first_code \<and> first_code \<le> 0xDBFF
           then if input_end < p + 12 then Inr (0, 0)
                else bindE (rd c (p + 6)) (\<lambda>x. bindE (rd c (p + 7)) (\<lambda>y.
                  if x \<noteq> 0x5C \<or> y \<noteq> 0x75 then Inr (0, 0)
                  else bindE (parse_hex4 c (p + 8)) (\<lambda>second_code.
                    if second_code < 0xDC00 \<or> 0xDFFF < second_code then Inr (0, 0)
                    else Inr (12, 0x10000 + (push_bit 10 (first_code AND 0x3FF) OR (second_code AND 0x3FF))))))
           else Inr (6, first_code))
          (\<lambda>(sequence_length, codepoint).
            if sequence_length = 0 then Inr (0, [])
            else case utf8_encode codepoint of
                   None \<Rightarrow> Inr (0, [])
                 | Some bs \<Rightarrow> Inr (sequence_length, bs))))"

definition escape_char :: "u8 \<Rightarrow> u8 option" where
  "escape_char c =
     (if c = 0x62 then Some 8 else if c = 0x66 then Some 12 else if c = 0x6E then Some 10
      else if c = 0x72 then Some 13 else if c = 0x74 then Some 9
      else if c = 0x22 \<or> c = 0x5C \<or> c = 0x2F then Some c
      else None)"

text \<open>
  The first loop of \<open>parse_string\<close> looks for the closing quote and counts the backslashes
  that start an escape sequence; \<open>None\<close> is the input that ends behind a backslash.
\<close>

function scan_string :: "bytes \<Rightarrow> nat \<Rightarrow> nat \<Rightarrow> nat \<Rightarrow> fault + (nat \<times> nat) option" where
  "scan_string c len e skipped =
     (if e < len
      then bindE (rd c e) (\<lambda>x.
        if x = 0x22 then Inr (Some (e, skipped))
        else if x = 0x5C
             then if len \<le> e + 1 then Inr None else scan_string c len (e + 2) (Suc skipped)
             else scan_string c len (e + 1) skipped)
      else Inr (Some (e, skipped)))"
  by pat_completeness auto
termination by (relation "measure (\<lambda>(c, len, e, skipped). len - e)") auto

declare scan_string.simps [simp del]

text \<open>A write through \<open>output_pointer\<close>, into a block of n bytes.\<close>

definition emit_char :: "nat \<Rightarrow> bytes \<Rightarrow> bytes \<Rightarrow> fault + bytes" where
  "emit_char n out bs = (if length out + length bs \<le> n then Inr (out @ bs) else Inl BufferOverflow)"

text \<open>
  The second loop of \<open>parse_string\<close> copies and unescapes; it returns the C result, the
  place it stopped at and what it has written.
\<close>

function unescape_loop :: "bytes \<Rightarrow> nat \<Rightarrow> nat \<Rightarrow> nat \<Rightarrow> bytes \<Rightarrow> fault + bool \<times> nat \<times> bytes" where
  "unescape_loop c input_end n p out =
     (if p < input_end
      then bindE (rd c p) (\<lambda>x.
        if x \<noteq> 0x5C then bindE (emit_char n out [x]) (unescape_loop c input_end n (p + 1))
        else bindE (rd c (p + 1)) (\<lambda>y.
          case escape_char y of
            Some z \<Rightarrow> bindE (emit_char n out [z]) (unescape_loop c input_end n (p + 2))
          | None \<Rightarrow>
              if y = 0x75
              then bindE (utf16_literal_to_utf8 c p input_end) (\<lambda>(sequence_length, bs).
                if sequence_length = 0 then Inr (False, p, out)
                else bindE (emit_char n out bs) (unescape_loop c input_end n (p + sequence_length)))
              else Inr (False, p, out)))
      else Inr (True, p, out))"
  by pat_completeness auto
termination by (relation "measure (\<lambda>(c, input_end, n, p, out). input_end - p)") auto

declare unescape_loop.simps [simp del]

definition parse_string :: "cJSON \<Rightarrow> parse_buffer \<Rightarrow> fault + parsed" where
  "parse_string item b =
     (let start = pb_offset b + 1; failed = b\<lparr>pb_offset := start\<rparr>
      in bindE (at_offset b 0) (\<lambda>q.
        if q \<noteq> 0x22 then Inr (False, item, failed)
        else bindE (scan_string (pb_content b) (pb_length b) start 0) (\<lambda>r.
          case r of
            None \<Rightarrow> Inr (False, item, failed)
          | Some (input_end, skipped_bytes) \<Rightarrow>
              if pb_length b \<le> input_end then Inr (False, item, failed)
              else let allocation_length = input_end - pb_offset b - skipped_bytes
                   in case hook_allocate (pb_hooks b) of (ok, H) \<Rightarrow>
                     if \<not> ok then Inr (False, item, failed\<lparr>pb_hooks := H\<rparr>)
                     else bindE (unescape_loop (pb_content b) input_end (allocation_length + 1) start []) (\<lambda>(ok, p, out).
                       if \<not> ok then Inr (False, item, b\<lparr>pb_offset := p, pb_hooks := hook_deallocate H\<rparr>)
                       else bindE (emit_char (allocation_length + 1) out [0]) (\<lambda>_.
                         Inr (True,
                           Item ((node item)\<lparr>cj_type := cJSON_String, cj_valuestring := Some out\<rparr>) (child item),
                           b\<lparr>pb_offset := input_end + 1, pb_hooks := H\<rparr>))))))"

section \<open>Arrays and objects\<close>

text \<open>The \<open>do\<close> loop of \<open>parse_array\<close>: the items of the list are the ones chained so far.\<close>

primrec array_loop ::
  "(cJSON \<Rightarrow> parse_buffer \<Rightarrow> parsed comp) \<Rightarrow> nat \<Rightarrow> cJSON list \<Rightarrow> parse_buffer \<Rightarrow>
     (bool \<times> cJSON list \<times> parse_buffer) comp" where
  "array_loop pv 0 items b = None"
| "array_loop pv (Suc k) items b =
     (case cJSON_New_Item (pb_hooks b) of
        (None, H) \<Rightarrow> retC (False, items, b\<lparr>pb_hooks := H\<rparr>)
      | (Some new_item, H) \<Rightarrow>
          bindC (liftC (buffer_skip_whitespace (advance 1 (b\<lparr>pb_hooks := H\<rparr>)))) (\<lambda>b.
          bindC (pv new_item b) (\<lambda>(ok, current_item, b).
            let items = items @ [current_item]
            in if \<not> ok then retC (False, items, b)
               else bindC (liftC (buffer_skip_whitespace b)) (\<lambda>b.
                 bindC (liftC (next_is b 0x2C)) (\<lambda>comma.
                   if comma then array_loop pv k items b else retC (True, items, b))))))"

text \<open>The end of both functions: the kind and the children of the item, behind the bracket.\<close>

definition close_list :: "u32 \<Rightarrow> cJSON \<Rightarrow> cJSON list \<Rightarrow> parse_buffer \<Rightarrow> parsed" where
  "close_list kind item items b =
     (True, Item ((node item)\<lparr>cj_type := kind\<rparr>) items, advance 1 (b\<lparr>pb_depth := pb_depth b - 1\<rparr>))"

definition delete_list :: "cJSON list \<Rightarrow> parse_buffer \<Rightarrow> parse_buffer" where
  "delete_list items b = b\<lparr>pb_hooks := (if items \<noteq> [] then cJSON_Delete items (pb_hooks b) else pb_hooks b)\<rparr>"

definition parse_array :: "(cJSON \<Rightarrow> parse_buffer \<Rightarrow> parsed comp) \<Rightarrow> cJSON \<Rightarrow> parse_buffer \<Rightarrow> parsed comp" where
  "parse_array pv item b =
     (if CJSON_NESTING_LIMIT \<le> pb_depth b then retC (False, item, b)
      else let b = b\<lparr>pb_depth := pb_depth b + 1\<rparr>
      in bindC (liftC (at_offset b 0)) (\<lambda>c.
        if c \<noteq> 0x5B then retC (False, item, b)
        else bindC (liftC (buffer_skip_whitespace (advance 1 b))) (\<lambda>b.
          bindC (liftC (next_is b 0x5D)) (\<lambda>empty.
            if empty then retC (close_list cJSON_Array item [] b)
            else if \<not> can_access_at_index b 0 then retC (False, item, step_back b)
            else bindC (array_loop pv (Suc (pb_length b)) [] (step_back b)) (\<lambda>(ok, items, b).
              if \<not> ok then retC (False, item, delete_list items b)
              else bindC (liftC (next_is b 0x5D)) (\<lambda>closed.
                if closed then retC (close_list cJSON_Array item items b)
                else retC (False, item, delete_list items b)))))))"

definition swap_name :: "cJSON \<Rightarrow> cJSON" where
  "swap_name item =
     Item ((node item)\<lparr>cj_string := cj_valuestring (node item), cj_valuestring := None\<rparr>) (child item)"

primrec object_loop ::
  "(cJSON \<Rightarrow> parse_buffer \<Rightarrow> parsed comp) \<Rightarrow> nat \<Rightarrow> cJSON list \<Rightarrow> parse_buffer \<Rightarrow>
     (bool \<times> cJSON list \<times> parse_buffer) comp" where
  "object_loop pv 0 items b = None"
| "object_loop pv (Suc k) items b =
     (case cJSON_New_Item (pb_hooks b) of
        (None, H) \<Rightarrow> retC (False, items, b\<lparr>pb_hooks := H\<rparr>)
      | (Some new_item, H) \<Rightarrow>
          let b = b\<lparr>pb_hooks := H\<rparr>
          in if \<not> can_access_at_index b 1 then retC (False, items @ [new_item], b)
          else bindC (liftC (buffer_skip_whitespace (advance 1 b))) (\<lambda>b.
          bindC (liftC (parse_string new_item b)) (\<lambda>(ok, current_item, b).
            if \<not> ok then retC (False, items @ [current_item], b)
            else bindC (liftC (buffer_skip_whitespace b)) (\<lambda>b.
              let current_item = swap_name current_item
              in bindC (liftC (next_is b 0x3A)) (\<lambda>colon.
                if \<not> colon then retC (False, items @ [current_item], b)
                else bindC (liftC (buffer_skip_whitespace (advance 1 b))) (\<lambda>b.
                  bindC (pv current_item b) (\<lambda>(ok, current_item, b).
                    let items = items @ [current_item]
                    in if \<not> ok then retC (False, items, b)
                       else bindC (liftC (buffer_skip_whitespace b)) (\<lambda>b.
                         bindC (liftC (next_is b 0x2C)) (\<lambda>comma.
                           if comma then object_loop pv k items b else retC (True, items, b))))))))))"

definition parse_object :: "(cJSON \<Rightarrow> parse_buffer \<Rightarrow> parsed comp) \<Rightarrow> cJSON \<Rightarrow> parse_buffer \<Rightarrow> parsed comp" where
  "parse_object pv item b =
     (if CJSON_NESTING_LIMIT \<le> pb_depth b then retC (False, item, b)
      else let b = b\<lparr>pb_depth := pb_depth b + 1\<rparr>
      in bindC (liftC (next_is b 0x7B)) (\<lambda>opened.
        if \<not> opened then retC (False, item, b)
        else bindC (liftC (buffer_skip_whitespace (advance 1 b))) (\<lambda>b.
          bindC (liftC (next_is b 0x7D)) (\<lambda>empty.
            if empty then retC (close_list cJSON_Object item [] b)
            else if \<not> can_access_at_index b 0 then retC (False, item, step_back b)
            else bindC (object_loop pv (Suc (pb_length b)) [] (step_back b)) (\<lambda>(ok, items, b).
              if \<not> ok then retC (False, item, delete_list items b)
              else bindC (liftC (next_is b 0x7D)) (\<lambda>closed.
                if closed then retC (close_list cJSON_Object item items b)
                else retC (False, item, delete_list items b)))))))"

section \<open>Values\<close>

definition set_type :: "u32 \<Rightarrow> cJSON \<Rightarrow> cJSON" where
  "set_type kind item = Item ((node item)\<lparr>cj_type := kind\<rparr>) (child item)"

definition set_true :: "cJSON \<Rightarrow> cJSON" where
  "set_true item = Item ((node item)\<lparr>cj_type := cJSON_True, cj_valueint := 1\<rparr>) (child item)"

definition parse_with :: "(cJSON \<Rightarrow> parse_buffer \<Rightarrow> parsed comp) \<Rightarrow> cJSON \<Rightarrow> parse_buffer \<Rightarrow> parsed comp" where
  "parse_with pv item b =
     bindC (liftC (next_word b (ascii ''null''))) (\<lambda>m. if m then retC (True, set_type cJSON_NULL item, advance 4 b) else
     bindC (liftC (next_word b (ascii ''false''))) (\<lambda>m. if m then retC (True, set_type cJSON_False item, advance 5 b) else
     bindC (liftC (next_word b (ascii ''true''))) (\<lambda>m. if m then retC (True, set_true item, advance 4 b) else
     bindC (liftC (next_is b 0x22)) (\<lambda>m. if m then liftC (parse_string item b) else
     if \<not> can_access_at_index b 0 then retC (False, item, b) else
     bindC (liftC (at_offset b 0)) (\<lambda>c.
       if c = 0x2D \<or> 0x30 \<le> c \<and> c \<le> 0x39 then liftC (parse_number item b)
       else if c = 0x5B then parse_array pv item b
       else if c = 0x7B then parse_object pv item b
       else retC (False, item, b))))))"

primrec parse_value :: "nat \<Rightarrow> cJSON \<Rightarrow> parse_buffer \<Rightarrow> parsed comp" where
  "parse_value 0 item b = None"
| "parse_value (Suc n) item b = parse_with (parse_value n) item b"

section \<open>Entry points\<close>

text \<open>
  The result of parsing a document: the tree or NULL, the offset stored through
  \<open>return_parse_end\<close> (that of the error, when there is one), and the allocator. A successful
  call resets the error position, which is \<open>None\<close> then.
\<close>

record parse_result =
  pr_item :: "cJSON option"
  pr_end :: nat
  pr_error :: "nat option"
  pr_hooks :: hooks

definition parse_fail :: "cJSON option \<Rightarrow> parse_buffer \<Rightarrow> parse_result" where
  "parse_fail item b =
     (let H = (case item of None \<Rightarrow> pb_hooks b | Some t \<Rightarrow> cJSON_Delete [t] (pb_hooks b));
          position = (if pb_offset b < pb_length b then pb_offset b
                      else if 0 < pb_length b then pb_length b - 1 else 0)
      in \<lparr>pr_item = None, pr_end = position, pr_error = Some position, pr_hooks = H\<rparr>)"

definition parse_fuel :: nat where "parse_fuel = CJSON_NESTING_LIMIT + 1"

definition cJSON_ParseWithLengthOpts :: "bytes \<Rightarrow> nat \<Rightarrow> bool \<Rightarrow> hooks \<Rightarrow> parse_result comp" where
  "cJSON_ParseWithLengthOpts value buffer_length require_null_terminated H =
     (if buffer_length = 0
      then retC (parse_fail None
             \<lparr>pb_content = [], pb_length = 0, pb_offset = 0, pb_depth = 0, pb_hooks = H\<rparr>)
      else let b = \<lparr>pb_content = value, pb_length = buffer_length, pb_offset = 0, pb_depth = 0, pb_hooks = H\<rparr>
      in case cJSON_New_Item H of
        (None, H) \<Rightarrow> retC (parse_fail None (b\<lparr>pb_hooks := H\<rparr>))
      | (Some item, H) \<Rightarrow>
          bindC (liftC (skip_utf8_bom (b\<lparr>pb_hooks := H\<rparr>))) (\<lambda>b.
          bindC (liftC (buffer_skip_whitespace b)) (\<lambda>b.
          bindC (parse_value parse_fuel item b) (\<lambda>(ok, item, b).
            if \<not> ok then retC (parse_fail (Some item) b)
            else bindC (liftC (if require_null_terminated then buffer_skip_whitespace b else Inr b)) (\<lambda>b.
              bindC (liftC (if require_null_terminated then next_is b 0 else Inr True)) (\<lambda>terminated.
                if \<not> terminated then retC (parse_fail (Some item) b)
                else retC \<lparr>pr_item = Some item, pr_end = pb_offset b, pr_error = None,
                            pr_hooks = pb_hooks b\<rparr>))))))"

text \<open>A C string is its bytes, without the terminator that the parser also reads.\<close>

definition cJSON_ParseWithOpts :: "bytes \<Rightarrow> bool \<Rightarrow> hooks \<Rightarrow> parse_result comp" where
  "cJSON_ParseWithOpts value require_null_terminated H =
     cJSON_ParseWithLengthOpts (cstr value @ [0]) (length (cstr value) + 1) require_null_terminated H"

definition cJSON_Parse :: "bytes \<Rightarrow> hooks \<Rightarrow> parse_result comp" where
  "cJSON_Parse value H = cJSON_ParseWithOpts value False H"

definition cJSON_ParseWithLength :: "bytes \<Rightarrow> nat \<Rightarrow> hooks \<Rightarrow> parse_result comp" where
  "cJSON_ParseWithLength value buffer_length H = cJSON_ParseWithLengthOpts value buffer_length False H"

end
