(* ===== verification/Cjson_Safety.thy ===== *)
theory Cjson_Safety
  imports Cjson_Parse
begin

text \<open>
  The parser of \<open>cJSON.c\<close> returns on every input and under every pattern of failing
  allocations, reads only the bytes it was given, writes a string only into the block allocated
  for it, and leaks nothing: a failed call frees every block it had allocated, a successful
  one keeps exactly the blocks of the tree it returns.

  The contract between \<open>parse_value\<close> and the functions for arrays and objects, which call each
  other, is the locale \<open>value_parser\<close>.
\<close>

section \<open>Well-formed buffers\<close>

definition pb_wf :: "parse_buffer \<Rightarrow> bool" where
  "pb_wf b \<longleftrightarrow> pb_length b \<le> length (pb_content b) \<and> pb_offset b \<le> pb_length b \<and>
     pb_depth b \<le> CJSON_NESTING_LIMIT"

named_theorems pb_simps "operations of the parse buffer on a well-formed buffer"

lemma advance_simps [simp, pb_simps]:
  "pb_content (advance n b) = pb_content b" "pb_length (advance n b) = pb_length b"
  "pb_offset (advance n b) = pb_offset b + n" "pb_depth (advance n b) = pb_depth b"
  "pb_hooks (advance n b) = pb_hooks b"
  by (simp_all add: advance_def)

lemma step_back_simps [simp, pb_simps]:
  "pb_content (step_back b) = pb_content b" "pb_length (step_back b) = pb_length b"
  "pb_offset (step_back b) = pb_offset b - 1" "pb_depth (step_back b) = pb_depth b"
  "pb_hooks (step_back b) = pb_hooks b"
  by (simp_all add: step_back_def)

lemma at_offset_ok [pb_simps]:
  "pb_wf b \<Longrightarrow> can_access_at_index b i \<Longrightarrow> at_offset b i = Inr (pb_content b ! (pb_offset b + i))"
  by (simp add: at_offset_def pb_wf_def can_access_at_index_def)

lemma next_is_ok [pb_simps]:
  "pb_wf b \<Longrightarrow> next_is b c =
     Inr (can_access_at_index b 0 \<and> pb_content b ! pb_offset b = c)"
  by (simp add: next_is_def at_offset_ok)

lemma next_word_ok [pb_simps]:
  "pb_wf b \<Longrightarrow> next_word b w =
     Inr (can_read b (length w) \<and> slice (pb_offset b) (length w) (pb_content b) = w)"
  by (simp add: next_word_def pb_wf_def can_read_def)

lemma skip_ws_from_ok:
  "len \<le> length c \<Longrightarrow> i \<le> len \<Longrightarrow> \<exists>j. skip_ws_from c len i = Inr j \<and> i \<le> j \<and> j \<le> len"
proof (induction "len - i" arbitrary: i)
  case 0
  then show ?case by (subst skip_ws_from.simps) simp
next
  case (Suc k)
  then have "\<exists>j. skip_ws_from c len (Suc i) = Inr j \<and> Suc i \<le> j \<and> j \<le> len" by auto
  then show ?case using Suc.prems Suc.hyps(2) by (subst skip_ws_from.simps) auto
qed

lemma skip_ws_ok:
  assumes "pb_wf b"
  shows "\<exists>i. buffer_skip_whitespace b = Inr (b\<lparr>pb_offset := i\<rparr>) \<and> pb_offset b \<le> i \<and> i \<le> pb_length b \<and>
    (pb_offset b < pb_length b \<longrightarrow> i < pb_length b)"
proof (cases "can_access_at_index b 0")
  case False
  then show ?thesis using assms by (auto simp: buffer_skip_whitespace_def can_access_at_index_def pb_wf_def
        intro!: exI [of _ "pb_offset b"])
next
  case True
  then obtain j where "skip_ws_from (pb_content b) (pb_length b) (pb_offset b) = Inr j"
    "pb_offset b \<le> j" "j \<le> pb_length b"
    using skip_ws_from_ok assms unfolding pb_wf_def by blast
  then show ?thesis using True
    by (auto simp: buffer_skip_whitespace_def can_access_at_index_def)
qed

lemma skip_wsE:
  assumes "pb_wf b"
  obtains b' where "buffer_skip_whitespace b = Inr b'" "pb_wf b'"
    "pb_content b' = pb_content b" "pb_length b' = pb_length b" "pb_depth b' = pb_depth b"
    "pb_hooks b' = pb_hooks b" "pb_offset b \<le> pb_offset b'"
    "pb_offset b < pb_length b \<Longrightarrow> pb_offset b' < pb_length b"
proof -
  obtain i where i: "buffer_skip_whitespace b = Inr (b\<lparr>pb_offset := i\<rparr>)" "pb_offset b \<le> i"
    "i \<le> pb_length b" "pb_offset b < pb_length b \<longrightarrow> i < pb_length b"
    using skip_ws_ok [OF assms] by blast
  show thesis by (rule that [of "b\<lparr>pb_offset := i\<rparr>"]) (use i assms in \<open>auto simp: pb_wf_def\<close>)
qed

section \<open>Outcomes\<close>

definition plain :: "cJSON_node \<Rightarrow> bool" where
  "plain n \<longleftrightarrow> owns_value n \<and> owns_name n"

lemma plain_kind [simp]:
  "k \<in> {cJSON_Invalid, cJSON_False, cJSON_True, cJSON_NULL, cJSON_Number, cJSON_String, cJSON_Array,
     cJSON_Object, cJSON_Raw} \<Longrightarrow> cj_type n = k \<Longrightarrow> plain n"
  by (auto simp: plain_def owns_value_def owns_name_def cjson_types cjson_flags)

definition fresh :: "cJSON \<Rightarrow> bool" where
  "fresh it \<longleftrightarrow> plain (node it) \<and> cj_valuestring (node it) = None \<and> child it = []"

lemma fresh_new [simp]: "fresh (Item zero_node [])"
  by (auto simp: fresh_def zero_node_def plain_def owns_value_def owns_name_def)

definition outcome :: "cJSON \<Rightarrow> parse_buffer \<Rightarrow> parsed \<Rightarrow> bool" where
  "outcome item b r \<longleftrightarrow> (case r of (ok, it, b') \<Rightarrow>
     pb_content b' = pb_content b \<and> pb_length b' = pb_length b \<and>
     (if ok
      then pb_wf b' \<and> pb_offset b < pb_offset b' \<and> pb_depth b' = pb_depth b \<and> plain (node it) \<and>
        cj_string (node it) = cj_string (node item) \<and>
        hooks_step (blocks [it] - blocks [item]) (pb_hooks b) (pb_hooks b')
      else it = item \<and> hooks_step 0 (pb_hooks b) (pb_hooks b')))"

lemma blocks_plain:
  "plain (node it) \<Longrightarrow> blocks [it] = 1 + (if cj_valuestring (node it) = None then 0 else 1) +
     (if cj_string (node it) = None then 0 else 1) + blocks (child it)"
  by (cases it) (simp add: plain_def node_blocks_def)

lemma blocks_fresh:
  "fresh item \<Longrightarrow> plain m \<Longrightarrow> cj_string m = cj_string (node item) \<Longrightarrow>
   blocks [Item m cs] - blocks [item] = (if cj_valuestring m = None then 0 else 1) + blocks cs"
  using blocks_plain [of item] blocks_plain [of "Item m cs"] by (simp add: fresh_def)

lemma outcome_True:
  "fresh item \<Longrightarrow> plain m \<Longrightarrow> cj_string m = cj_string (node item) \<Longrightarrow> pb_wf b' \<Longrightarrow>
   pb_offset b < pb_offset b' \<Longrightarrow> pb_content b' = pb_content b \<Longrightarrow> pb_length b' = pb_length b \<Longrightarrow>
   pb_depth b' = pb_depth b \<Longrightarrow>
   hooks_step ((if cj_valuestring m = None then 0 else 1) + blocks cs) (pb_hooks b) (pb_hooks b') \<Longrightarrow>
   outcome item b (True, Item m cs, b')"
  unfolding outcome_def by (simp only: blocks_fresh prod.case if_True cJSON.sel simp_thms)

lemma outcome_kind:
  "pb_wf b \<Longrightarrow> can_read b n \<Longrightarrow> 0 < n \<Longrightarrow> fresh item \<Longrightarrow> plain m \<Longrightarrow>
   cj_string m = cj_string (node item) \<Longrightarrow> cj_valuestring m = None \<Longrightarrow>
   outcome item b (True, Item m (child item), advance n b)"
  by (rule outcome_True) (simp_all add: fresh_def pb_wf_def can_read_def)

lemma outcome_fail [simp]: "outcome item b (False, item, b)"
  by (simp add: outcome_def)

section \<open>Numbers\<close>

lemma number_span_ok:
  "len \<le> length c \<Longrightarrow> off + i \<le> len \<Longrightarrow>
   \<exists>n d. number_span c len off i dot = Inr (n, d) \<and> i \<le> n \<and> off + n \<le> len"
proof (induction "len - (off + i)" arbitrary: i dot)
  case 0
  then show ?case by (subst number_span.simps) simp
next
  case (Suc k)
  have "\<exists>n d. number_span c len off (Suc i) e = Inr (n, d) \<and> Suc i \<le> n \<and> off + n \<le> len" for e
    using Suc by auto
  from this [of "dot \<or> c ! (off + i) = 0x2E"] show ?case
    using Suc.prems Suc.hyps(2) by (subst number_span.simps) (auto dest: Suc_leD)
qed

lemma exponent_part_le: "snd (exponent_part t) \<le> length t"
proof (cases t)
  case (Cons c u)
  have "length (takeWhile is_digit (drop k u)) \<le> length u - k" for k
    using length_takeWhile_le [of is_digit "drop k u"] by simp
  from this [of 0] this [of 1] show ?thesis
    using Cons by (cases u) (auto simp: exponent_part_def Let_def)
qed simp

lemma strtod_le: "snd (strtod s) \<le> length s"
proof -
  let ?s = "cstr s"
  define sg where "sg = (if ?s \<noteq> [] \<and> (hd ?s = 0x2B \<or> hd ?s = 0x2D) then 1 else 0 :: nat)"
  define ip where "ip = takeWhile is_digit (drop sg ?s)"
  define u where "u = drop (sg + length ip) ?s"
  define dot where "dot = (if u \<noteq> [] \<and> hd u = 0x2E then 1 else 0 :: nat)"
  define fp where "fp = (if dot = 1 then takeWhile is_digit (tl u) else [])"
  define p where "p = sg + length ip + dot + length fp"
  have s: "length ?s \<le> length s" unfolding cstr_def by (rule length_takeWhile_le)
  have "sg \<le> length ?s" unfolding sg_def by (cases ?s) auto
  moreover have "length ip \<le> length ?s - sg"
    unfolding ip_def using length_takeWhile_le [of is_digit "drop sg ?s"] by simp
  moreover have "dot + length fp \<le> length u"
    unfolding fp_def dot_def using length_takeWhile_le [of is_digit "tl u"] by (cases u) auto
  ultimately have p: "p \<le> length ?s" unfolding p_def u_def by simp
  have "snd (exponent_part (drop p ?s)) \<le> length ?s - p"
    using exponent_part_le [of "drop p ?s"] by simp
  then have "p + snd (exponent_part (drop p ?s)) \<le> length s" using p s by simp
  moreover have "snd (strtod s) \<le> p + snd (exponent_part (drop p ?s))"
    unfolding strtod_def Let_def sg_def [symmetric] ip_def [symmetric] u_def [symmetric]
      dot_def [symmetric] fp_def [symmetric] p_def [symmetric]
    by (simp split: prod.split)
  ultimately show ?thesis by simp
qed

lemma parse_number_ok:
  assumes b: "pb_wf b" and f: "fresh item"
  shows "\<exists>r. parse_number item b = Inr r \<and> outcome item b r"
proof -
  obtain n d where n: "number_span (pb_content b) (pb_length b) (pb_offset b) 0 False = Inr (n, d)"
    "pb_offset b + n \<le> pb_length b"
    using number_span_ok [of "pb_length b" "pb_content b" "pb_offset b" 0 False] b
    unfolding pb_wf_def by auto
  obtain r H where H: "hook_allocate (pb_hooks b) = (r, H)" by fastforce
  note step = hook_allocate_step [OF H]
  show ?thesis
  proof (cases r)
    case False
    then show ?thesis using n H step by (simp add: parse_number_def outcome_def)
  next
    case True
    define s where "s = (let s = slice (pb_offset b) n (pb_content b) in
      if d then map (\<lambda>c. if c = 0x2E then get_decimal_point else c) s else s)"
    have l: "length s = n" using n b by (simp add: s_def Let_def pb_wf_def)
    obtain x m where x: "strtod s = (x, m)" by fastforce
    then have m: "m \<le> n" using strtod_le [of s] l by simp
    have st: "hooks_step 0 (pb_hooks b) (hook_deallocate H)"
      using hooks_step_trans [OF step hook_deallocate_step] True by simp
    have e: "parse_number item b =
      Inr (if m = 0 then (False, item, b\<lparr>pb_hooks := hook_deallocate H\<rparr>)
           else (True, Item (set_number x (node item)) (child item), advance m (b\<lparr>pb_hooks := hook_deallocate H\<rparr>)))"
      using n H True b x unfolding s_def by (simp add: parse_number_def pb_wf_def Let_def)
    have "plain (set_number x (node item))" by (rule plain_kind) (simp_all add: set_number_def)
    then have "outcome item b (True, Item (set_number x (node item)) (child item),
        advance m (b\<lparr>pb_hooks := hook_deallocate H\<rparr>))" if "m \<noteq> 0"
      by (intro outcome_True) (use f st m n b that in \<open>simp_all add: fresh_def pb_wf_def set_number_def\<close>)
    then show ?thesis using e st by (simp add: outcome_def)
  qed
qed

section \<open>Strings\<close>

text \<open>
  The escape sequences and bytes between p and the closing quote at e, counted as the first loop
  of \<open>parse_string\<close> counts them; the block allocated has room for one byte for each.
\<close>

function units :: "bytes \<Rightarrow> nat \<Rightarrow> nat \<Rightarrow> nat" where
  "units c e p = (if p < e then Suc (units c e (if c ! p = 0x5C then p + 2 else p + 1)) else 0)"
  by pat_completeness auto
termination by (relation "measure (\<lambda>(c, e, p). e - p)") auto

declare units.simps [simp del]

lemma units_plain: "p < e \<Longrightarrow> c ! p \<noteq> 0x5C \<Longrightarrow> units c e p = Suc (units c e (p + 1))"
  by (subst units.simps) simp

lemma units_escape: "p < e \<Longrightarrow> c ! p = 0x5C \<Longrightarrow> units c e p = Suc (units c e (p + 2))"
  by (subst units.simps) simp

lemma units_end: "e \<le> p \<Longrightarrow> units c e p = 0"
  by (subst units.simps) simp

lemma units_step: "units c e (p + 1) \<le> units c e p \<and> units c e p \<le> Suc (units c e (p + 1))"
proof (induction "e - p" arbitrary: p rule: less_induct)
  case less
  show ?case
  proof (cases "p < e")
    case True
    show ?thesis
    proof (cases "c ! p = 0x5C")
      case esc: True
      have "units c e (p + 1 + 1) \<le> units c e (p + 1) \<and> units c e (p + 1) \<le> Suc (units c e (p + 1 + 1))"
        using less [of "p + 1"] True by simp
      then show ?thesis using units_escape [OF True esc] by simp
    qed (use units_plain True in simp)
  qed (simp add: units_end)
qed

lemma units_mono: "units c e (p + k) \<le> units c e p"
proof (induction k)
  case (Suc k)
  then show ?case using units_step [of c e "p + k"] by simp
qed simp

lemma units_plain_run:
  "p + k \<le> e \<Longrightarrow> \<forall>i < k. c ! (p + i) \<noteq> 0x5C \<Longrightarrow> units c e p = k + units c e (p + k)"
proof (induction k)
  case (Suc k)
  then show ?case using units_plain [of "p + k" e c] by simp
qed simp

definition scanned :: "bytes \<Rightarrow> nat \<Rightarrow> nat \<Rightarrow> nat \<Rightarrow> (nat \<times> nat) option \<Rightarrow> bool" where
  "scanned c len p sk r \<longleftrightarrow> (case r of None \<Rightarrow> True | Some (e, sk') \<Rightarrow>
     e < len \<longrightarrow> c ! e = 0x22 \<and> p \<le> e \<and> e - p + sk = units c e p + sk')"

lemma scanned_plain:
  "scanned c len (p + 1) sk r \<Longrightarrow> c ! p \<noteq> 0x5C \<Longrightarrow> scanned c len p sk r"
  by (cases r) (auto simp: scanned_def units_plain)

lemma scanned_escape:
  "scanned c len (p + 2) (Suc sk) r \<Longrightarrow> c ! p = 0x5C \<Longrightarrow> scanned c len p sk r"
  by (cases r) (auto simp: scanned_def units_escape)

lemma scan_string_ok:
  "len \<le> length c \<Longrightarrow> \<exists>r. scan_string c len p sk = Inr r \<and> scanned c len p sk r"
proof (induction "len - p" arbitrary: p sk rule: less_induct)
  case less
  note c = less.prems
  show ?case
  proof (cases "p < len")
    case True
    consider "c ! p = 0x22" | "c ! p = 0x5C" "len \<le> p + 1" | "c ! p = 0x5C" "p + 1 < len"
      | "c ! p \<noteq> 0x22" "c ! p \<noteq> 0x5C" by linarith
    then show ?thesis
    proof cases
      case 1
      then show ?thesis using True c by (subst scan_string.simps) (simp add: units_end scanned_def)
    next
      case 2
      then show ?thesis using True c by (subst scan_string.simps) (simp add: scanned_def)
    next
      case 3
      have "len - (p + 2) < len - p" using True by simp
      from less(1) [OF this c] obtain r where r: "scan_string c len (p + 2) (Suc sk) = Inr r"
        "scanned c len (p + 2) (Suc sk) r" by blast
      have "scan_string c len p sk = Inr r"
        using True 3 c r(1) by (subst scan_string.simps) simp
      then show ?thesis using scanned_escape [OF r(2)] 3 by blast
    next
      case 4
      have "len - (p + 1) < len - p" using True by simp
      from less(1) [OF this c] obtain r where r: "scan_string c len (p + 1) sk = Inr r"
        "scanned c len (p + 1) sk r" by blast
      have "scan_string c len p sk = Inr r"
        using True 4 c r(1) by (subst scan_string.simps) simp
      then show ?thesis using scanned_plain [OF r(2)] 4 by blast
    qed
  qed (subst scan_string.simps, simp add: scanned_def)
qed

subsection \<open>Unicode escapes\<close>

lemma parse_hex4_from_ok:
  "p + 4 \<le> length c \<Longrightarrow> i \<le> 4 \<Longrightarrow>
   \<exists>v. parse_hex4_from c p i h = Inr v \<and> (v \<noteq> 0 \<longrightarrow> (\<forall>j. i \<le> j \<longrightarrow> j < 4 \<longrightarrow> hex_value (c ! (p + j)) \<noteq> None))"
proof (induction "4 - i" arbitrary: i h rule: less_induct)
  case less
  show ?case
  proof (cases "i < 4")
    case True
    show ?thesis
    proof (cases "hex_value (c ! (p + i))")
      case None
      then show ?thesis using True less.prems by (subst parse_hex4_from.simps) simp
    next
      case (Some x)
      have d: "4 - Suc i < 4 - i" using True by simp
      obtain v where v: "parse_hex4_from c p (Suc i) (if i < 3 then push_bit 4 (h + x) else h + x) = Inr v"
        "v \<noteq> 0 \<longrightarrow> (\<forall>j. Suc i \<le> j \<longrightarrow> j < 4 \<longrightarrow> hex_value (c ! (p + j)) \<noteq> None)"
        using less(1) [OF d, of "if i < 3 then push_bit 4 (h + x) else h + x"] less.prems True
        by (metis Suc_leI)
      have "parse_hex4_from c p i h = Inr v"
        using True less.prems Some v(1) by (subst parse_hex4_from.simps) simp
      moreover have "hex_value (c ! (p + j)) \<noteq> None" if "v \<noteq> 0" "i \<le> j" "j < 4" for j
        using v(2) that Some by (metis le_neq_implies_less Suc_leI option.distinct(1))
      ultimately show ?thesis by blast
    qed
  qed (subst parse_hex4_from.simps, use less.prems in simp)
qed

lemma parse_hex4_ok:
  "p + 4 \<le> length c \<Longrightarrow>
   \<exists>v. parse_hex4 c p = Inr v \<and> (v \<noteq> 0 \<longrightarrow> (\<forall>j < 4. hex_value (c ! (p + j)) \<noteq> None))"
  using parse_hex4_from_ok [of p c 0 0] by (simp add: parse_hex4_def)

lemma hex_not_backslash: "hex_value x \<noteq> None \<Longrightarrow> x \<noteq> 0x5C"
  by (auto simp: hex_value_def)

lemma length_utf8_tail: "length (snd (utf8_tail n cp acc)) = n + length acc"
  by (induction n cp acc rule: utf8_tail.induct) auto

lemma length_utf8_bytes: "0 < n \<Longrightarrow> length (utf8_bytes n m cp) = n"
  using length_utf8_tail [of "n - 1" cp "[]"] by (auto simp: utf8_bytes_def Let_def split: prod.split)

lemma length_utf8_encode:
  "utf8_encode cp = Some bs \<Longrightarrow> length bs \<le> 4 \<and> (cp < 0x80 \<longrightarrow> length bs = 1)"
  by (auto simp: utf8_encode_def length_utf8_bytes split: if_splits)

lemma units_hex:
  assumes "p + 6 \<le> e" "c ! p = 0x5C" "\<forall>j < 4. hex_value (c ! (p + 2 + j)) \<noteq> None"
  shows "units c e p = 5 + units c e (p + 6)"
proof -
  have "units c e (p + 2) = 4 + units c e (p + 2 + 4)"
    by (rule units_plain_run) (use assms hex_not_backslash in auto)
  moreover have "p < e" "p + 2 + 4 = p + 6" using assms(1) by simp_all
  ultimately show ?thesis using units_escape [OF _ assms(2)] by (simp only:)
qed

text \<open>
  A literal never writes more bytes than the characters of its escape sequence have units: four bytes
  at most for valid digits, and one byte, the code point 0, when a digit is not valid.
\<close>

lemma utf16_ok:
  assumes e: "e < length c" and p: "p < e" and bs: "c ! p = 0x5C"
  shows "\<exists>n out. utf16_literal_to_utf8 c p e = Inr (n, out) \<and> (n = 0 \<or> 6 \<le> n) \<and>
    (n \<noteq> 0 \<longrightarrow> length out + units c e (p + n) \<le> units c e p)"
proof (cases "e < p + 6")
  case True
  then show ?thesis by (simp add: utf16_literal_to_utf8_def)
next
  case False
  then have p6: "p + 6 \<le> e" by simp
  obtain v where v: "parse_hex4 c (p + 2) = Inr v"
    "v \<noteq> 0 \<Longrightarrow> \<forall>j < 4. hex_value (c ! (p + 2 + j)) \<noteq> None"
    using parse_hex4_ok [of "p + 2" c] e p6 by auto
  have u6: "5 + units c e (p + 6) = units c e p" if "v \<noteq> 0"
    using units_hex [OF p6 bs v(2) [OF that]] by simp
  have u0: "Suc (units c e (p + 6)) \<le> units c e p"
    using units_escape [OF p bs] units_mono [of c e "p + 2" 4] by (simp add: add.commute)
  have bmp: ?thesis if "\<not> (0xDC00 \<le> v \<and> v \<le> 0xDFFF)" "\<not> (0xD800 \<le> v \<and> v \<le> 0xDBFF)"
  proof (cases "utf8_encode v")
    case None
    then show ?thesis
      unfolding utf16_literal_to_utf8_def if_not_P [OF False] v(1) bindE_simps if_not_P [OF that(1)]
        if_not_P [OF that(2)] by simp
  next
    case (Some out)
    have eq: "utf16_literal_to_utf8 c p e = Inr (6, out)"
      unfolding utf16_literal_to_utf8_def if_not_P [OF False] v(1) bindE_simps if_not_P [OF that(1)]
        if_not_P [OF that(2)] by (simp add: Some)
    have "length out + units c e (p + 6) \<le> units c e p"
    proof (cases "v = 0")
      case True
      then have "length out = 1" using length_utf8_encode [OF Some] by simp
      then show ?thesis using u0 by simp
    qed (use u6 length_utf8_encode [OF Some] in simp)
    with eq show ?thesis by auto
  qed
  have pair: ?thesis if v1: "\<not> (0xDC00 \<le> v \<and> v \<le> 0xDFFF)" "0xD800 \<le> v \<and> v \<le> 0xDBFF"
  proof (cases "e < p + 12 \<or> c ! (p + 6) \<noteq> 0x5C \<or> c ! (p + 7) \<noteq> 0x75")
    case True
    then show ?thesis
      unfolding utf16_literal_to_utf8_def if_not_P [OF False] v(1) bindE_simps if_not_P [OF v1(1)]
        if_P [OF v1(2)] using e by (auto simp: rd_def)
  next
    case second: False
    then have p12: "p + 12 \<le> e" "c ! (p + 6) = 0x5C" "c ! (p + 7) = 0x75" by auto
    obtain w where w: "parse_hex4 c (p + 8) = Inr w"
      "w \<noteq> 0 \<Longrightarrow> \<forall>j < 4. hex_value (c ! (p + 8 + j)) \<noteq> None"
      using parse_hex4_ok [of "p + 8" c] e p12(1) by auto
    define cp where "cp = 0x10000 + (push_bit 10 (v AND 0x3FF) OR (w AND 0x3FF))"
    have eq: "utf16_literal_to_utf8 c p e =
        (if w < 0xDC00 \<or> 0xDFFF < w then Inr (0, [])
         else case utf8_encode cp of None \<Rightarrow> Inr (0, []) | Some bs \<Rightarrow> Inr (12, bs))"
      unfolding utf16_literal_to_utf8_def if_not_P [OF False] v(1) bindE_simps if_not_P [OF v1(1)]
        if_P [OF v1(2)] cp_def using e p12 w(1) by simp
    show ?thesis
    proof (cases "w < 0xDC00 \<or> 0xDFFF < w")
      case True
      then show ?thesis using eq by simp
    next
      case valid: False
      then have "w \<noteq> 0" by auto
      have "p + 6 + 2 = p + 8" by simp
      with w(2) [OF \<open>w \<noteq> 0\<close>] have h: "\<forall>j < 4. hex_value (c ! (p + 6 + 2 + j)) \<noteq> None"
        by (simp only:)
      have "p + 6 + 6 \<le> e" using p12(1) by simp
      from units_hex [OF this p12(2) h] have u12: "units c e (p + 6) = 5 + units c e (p + 12)"
        by (simp add: add.assoc)
      have "v \<noteq> 0" using v1(2) by auto
      then have u: "units c e p = 10 + units c e (p + 12)" using u6 u12 by simp
      show ?thesis
      proof (cases "utf8_encode cp")
        case None
        then show ?thesis using eq by simp
      next
        case (Some out)
        then show ?thesis using eq valid u length_utf8_encode [OF Some] by auto
      qed
    qed
  qed
  show ?thesis
  proof (cases "0xDC00 \<le> v \<and> v \<le> 0xDFFF")
    case True
    then show ?thesis using v(1) p6 by (simp add: utf16_literal_to_utf8_def)
  next
    case False
    then show ?thesis using bmp pair by blast
  qed
qed

subsection \<open>Unescaping\<close>

lemma emit_char_ok [simp]: "length out + length bs \<le> n \<Longrightarrow> emit_char n out bs = Inr (out @ bs)"
  by (simp add: emit_char_def)

lemma unescape_ok:
  "e < length c \<Longrightarrow> length out + units c e p \<le> m \<Longrightarrow> m \<le> n \<Longrightarrow>
   \<exists>ok q out'. unescape_loop c e n p out = Inr (ok, q, out') \<and> length out' \<le> m"
proof (induction "e - p" arbitrary: p out rule: less_induct)
  case less
  note e = less.prems(1) and m = less.prems(2) and n = less.prems(3)
  show ?case
  proof (cases "p < e")
    case True
    have IH: "\<exists>ok q out'. unescape_loop c e n (p + k) (out @ bs) = Inr (ok, q, out') \<and> length out' \<le> m"
      if "0 < k" "length bs + units c e (p + k) \<le> units c e p" for k bs
      by (rule less(1)) (use True that e m n in auto)
    have emit_char: "emit_char n out bs = Inr (out @ bs)" if "length bs + units c e (p + k) \<le> units c e p" for k bs
      using that m n by simp
    show ?thesis
    proof (cases "c ! p = 0x5C")
      case False
      have u: "length [c ! p] + units c e (p + 1) \<le> units c e p" using units_plain [OF True False] by simp
      have "unescape_loop c e n p out = unescape_loop c e n (p + 1) (out @ [c ! p])"
        by (subst unescape_loop.simps) (use True False e emit_char [OF u] in simp)
      then show ?thesis using IH [OF _ u] by simp
    next
      case esc: True
      note u2 = units_escape [OF True esc]
      show ?thesis
      proof (cases "escape_char (c ! (p + 1))")
        case (Some z)
        have u: "length [z] + units c e (p + 2) \<le> units c e p" using u2 by simp
        have "unescape_loop c e n p out = unescape_loop c e n (p + 2) (out @ [z])"
          by (subst unescape_loop.simps) (use True esc e emit_char [OF u] Some in simp)
        then show ?thesis using IH [OF _ u] by simp
      next
        case None
        show ?thesis
        proof (cases "c ! (p + 1) = 0x75")
          case False
          then show ?thesis by (subst unescape_loop.simps) (use True esc e None m in auto)
        next
          case u75: True
          obtain k bs where k: "utf16_literal_to_utf8 c p e = Inr (k, bs)" "k = 0 \<or> 6 \<le> k"
            "k \<noteq> 0 \<Longrightarrow> length bs + units c e (p + k) \<le> units c e p"
            using utf16_ok [OF e True esc] by blast
          show ?thesis
          proof (cases "k = 0")
            case k0: True
            then show ?thesis by (subst unescape_loop.simps) (use True esc e None m u75 k(1) in auto)
          next
            case False
            have "unescape_loop c e n p out = unescape_loop c e n (p + k) (out @ bs)"
              by (subst unescape_loop.simps) (use True esc e None m u75 k(1) False emit_char [OF k(3) [OF False]] in simp)
            then show ?thesis using IH [OF _ k(3) [OF False]] False by simp
          qed
        qed
      qed
    qed
  next
    case False
    then show ?thesis by (subst unescape_loop.simps) (use m in auto)
  qed
qed

lemma parse_string_ok:
  assumes b: "pb_wf b" and o: "pb_offset b < pb_length b" and f: "fresh item"
  shows "\<exists>r. parse_string item b = Inr r \<and> outcome item b r \<and>
    (fst r \<longrightarrow> child (fst (snd r)) = [] \<and> cj_valuestring (node (fst (snd r))) \<noteq> None)"
proof -
  let ?c = "pb_content b" and ?s = "Suc (pb_offset b)"
  have len: "pb_length b \<le> length ?c" using b by (simp add: pb_wf_def)
  have q: "at_offset b 0 = Inr (?c ! pb_offset b)"
    using at_offset_ok [OF b, of 0] o by (simp add: can_access_at_index_def)
  have fail: "outcome item b (False, item, b\<lparr>pb_offset := x, pb_hooks := H\<rparr>)"
    "outcome item b (False, item, b\<lparr>pb_offset := x\<rparr>)"
    if "hooks_step 0 (pb_hooks b) H" for x H using that by (simp_all add: outcome_def)
  obtain r where r: "scan_string ?c (pb_length b) ?s 0 = Inr r" "scanned ?c (pb_length b) ?s 0 r"
    using scan_string_ok [OF len] by blast
  note st = parse_string_def Let_def q bindE_simps r(1)
  show ?thesis
  proof (cases "?c ! pb_offset b \<noteq> 0x22 \<or> r = None \<or> pb_length b \<le> fst (the r)")
    case True
    then have "parse_string item b = Inr (False, item, b\<lparr>pb_offset := ?s\<rparr>)"
      by (cases r) (auto simp: st)
    then show ?thesis using fail(2) [OF hooks_step_refl] by simp
  next
    case False
    then obtain e sk where e: "r = Some (e, sk)" "e < pb_length b" "?c ! pb_offset b = 0x22"
      by (cases r) auto
    have sc: "?c ! e = 0x22" "?s \<le> e" "e - ?s = units ?c e ?s + sk"
      using r(2) e by (auto simp: scanned_def)
    define al where "al = e - pb_offset b - sk"
    have al: "al = units ?c e ?s + 1" "e - (pb_offset b + sk) = al" using sc by (simp_all add: al_def)
    obtain x H where H: "hook_allocate (pb_hooks b) = (x, H)" by fastforce
    note step = hook_allocate_step [OF H]
    show ?thesis
    proof (cases x)
      case False
      then show ?thesis using fail(1) [of H ?s] step e H by (simp add: st)
    next
      case True
      have "e < length ?c" using e(2) len by simp
      then obtain ok p out where u: "unescape_loop ?c e (al + 1) ?s [] = Inr (ok, p, out)" "length out \<le> al"
        using unescape_ok [of e ?c "[]" ?s al "al + 1"] al(1) by auto
      show ?thesis
      proof (cases ok)
        case False
        have "hooks_step 0 (pb_hooks b) (hook_deallocate H)"
          using hooks_step_trans [OF step hook_deallocate_step] True by simp
        then show ?thesis using fail(1) [of "hook_deallocate H" p] e H True u False
          by (simp add: st al(2))
      next
        case ok: True
        define it where "it = Item ((node item)\<lparr>cj_type := cJSON_String, cj_valuestring := Some out\<rparr>) (child item)"
        have "parse_string item b = Inr (True, it, b\<lparr>pb_offset := e + 1, pb_hooks := H\<rparr>)"
          using e H True u ok by (simp add: st al(2) it_def)
        moreover have "outcome item b (True, it, b\<lparr>pb_offset := e + 1, pb_hooks := H\<rparr>)"
          unfolding it_def by (rule outcome_True)
            (use f b e sc step True plain_kind [of cJSON_String] in \<open>simp_all add: fresh_def pb_wf_def\<close>)
        ultimately show ?thesis using f by (simp add: it_def fresh_def)
      qed
    qed
  qed
qed

section \<open>Arrays, objects and values\<close>

text \<open>What the functions that call \<open>parse_value\<close> rely on, in a buffer nested at least D deep.\<close>

locale value_parser =
  fixes pv :: "cJSON \<Rightarrow> parse_buffer \<Rightarrow> parsed comp"
    and D :: nat
  assumes parses: "pb_wf b \<Longrightarrow> D \<le> pb_depth b \<Longrightarrow> fresh item \<Longrightarrow>
    \<exists>r. pv item b = Some (Inr r) \<and> outcome item b r"

text \<open>What a loop over elements does to the list of items and to the buffer.\<close>

definition loop_outcome :: "cJSON list \<Rightarrow> parse_buffer \<Rightarrow> bool \<times> cJSON list \<times> parse_buffer \<Rightarrow> bool" where
  "loop_outcome items b r \<longleftrightarrow> (case r of (ok, items', b') \<Rightarrow>
     pb_content b' = pb_content b \<and> pb_length b' = pb_length b \<and>
     (ok \<longrightarrow> pb_wf b' \<and> pb_offset b \<le> pb_offset b' \<and> pb_depth b' = pb_depth b) \<and>
     hooks_step (blocks items' - blocks items) (pb_hooks b) (pb_hooks b'))"

lemma new_itemE:
  obtains H where "cJSON_New_Item H0 = (None, H)" "hooks_step 0 H0 H"
  | H where "cJSON_New_Item H0 = (Some (Item zero_node []), H)" "hooks_step 1 H0 H"
proof -
  obtain r H where H: "hook_allocate H0 = (r, H)" by fastforce
  note hook_allocate_step [OF H]
  then show thesis using that H by (cases r) (auto simp: cJSON_New_Item_def)
qed

lemma owns_zero [simp]: "owns_value zero_node" "owns_name zero_node" "cj_string zero_node = None"
  by (simp_all add: owns_value_def owns_name_def zero_node_def)

lemma blocks_new [simp]: "node_blocks zero_node = 1"
  by (simp add: node_blocks_def) (simp add: zero_node_def)

lemma loop_outcome_fail:
  "pb_content b' = pb_content b \<Longrightarrow> pb_length b' = pb_length b \<Longrightarrow>
   hooks_step (blocks items' - blocks items) (pb_hooks b) (pb_hooks b') \<Longrightarrow>
   loop_outcome items b (False, items', b')"
  by (simp add: loop_outcome_def)

text \<open>Both loops continue behind an element in the same way.\<close>

lemma loop_outcome_next:
  assumes step: "hooks_step d (pb_hooks b) (pb_hooks b')" and d: "d = blocks items' - blocks items"
    and b': "pb_content b' = pb_content b" "pb_length b' = pb_length b" "pb_depth b' = pb_depth b"
      "pb_offset b \<le> pb_offset b'"
    and l: "loop_outcome items' b' r"
  shows "loop_outcome items b r"
proof (cases r)
  case (fields ok items'' b'')
  have "hooks_step (blocks items' - blocks items + (blocks items'' - blocks items')) (pb_hooks b) (pb_hooks b'')"
    using hooks_step_trans [OF step, of "blocks items'' - blocks items'" "pb_hooks b''"] l fields d
    by (simp add: loop_outcome_def)
  then show ?thesis using l fields b' by (auto simp: loop_outcome_def)
qed

lemma swap_name_fresh:
  "plain (node it) \<Longrightarrow> child it = [] \<Longrightarrow> cj_string (node it) = None \<Longrightarrow>
   fresh (swap_name it) \<and> blocks [swap_name it] = blocks [it]"
proof -
  assume a: "plain (node it)" "child it = []" "cj_string (node it) = None"
  then have "plain (node (swap_name it))" by (simp add: swap_name_def plain_def owns_value_def owns_name_def)
  then show ?thesis using a by (simp add: fresh_def blocks_plain swap_name_def del: blocks.simps)
qed

text \<open>The name of a member, the colon, and the whitespace around them.\<close>

lemma member_name:
  assumes b: "pb_wf b" "pb_offset b < pb_length b"
  shows "(\<exists>b'. parse_string (Item zero_node []) b = Inr (False, Item zero_node [], b') \<and>
      pb_content b' = pb_content b \<and> pb_length b' = pb_length b \<and> hooks_step 0 (pb_hooks b) (pb_hooks b')) \<or>
    (\<exists>it b1 b'. parse_string (Item zero_node []) b = Inr (True, it, b1) \<and>
      buffer_skip_whitespace b1 = Inr b' \<and> pb_wf b' \<and>
      pb_content b' = pb_content b \<and> pb_length b' = pb_length b \<and> pb_depth b' = pb_depth b \<and>
      pb_offset b < pb_offset b' \<and> fresh (swap_name it) \<and>
      hooks_step (blocks [swap_name it] - 1) (pb_hooks b) (pb_hooks b'))"
proof -
  obtain ok it b1 where r: "parse_string (Item zero_node []) b = Inr (ok, it, b1)"
    "outcome (Item zero_node []) b (ok, it, b1)" "ok \<longrightarrow> child it = []"
    using parse_string_ok [OF b fresh_new] by auto
  show ?thesis
  proof (cases ok)
    case False
    then show ?thesis using r by (auto simp: outcome_def)
  next
    case True
    then have b1: "pb_wf b1" "plain (node it)" "cj_string (node it) = None"
      "hooks_step (blocks [it] - 1) (pb_hooks b) (pb_hooks b1)"
      using r(2) by (simp_all add: outcome_def)
    have sw: "fresh (swap_name it)" "blocks [swap_name it] = blocks [it]"
      using swap_name_fresh b1 True r(3) by blast+
    obtain b' where b': "buffer_skip_whitespace b1 = Inr b'" "pb_wf b'"
      "pb_content b' = pb_content b1" "pb_length b' = pb_length b1" "pb_depth b' = pb_depth b1"
      "pb_hooks b' = pb_hooks b1" "pb_offset b1 \<le> pb_offset b'"
      by (rule skip_wsE [OF b1(1)]) blast
    then show ?thesis using r True b1 sw by (auto simp: outcome_def)
  qed
qed

lemma delete_list_step: "hooks_step (- blocks items) (pb_hooks b) (pb_hooks (delete_list items b))"
  using cJSON_Delete_step [of items "pb_hooks b"] by (simp add: delete_list_def)

lemma delete_list_simps [simp]:
  "pb_content (delete_list items b) = pb_content b" "pb_length (delete_list items b) = pb_length b"
  by (simp_all add: delete_list_def)

lemma close_list_outcome:
  assumes "fresh item" "kind = cJSON_Array \<or> kind = cJSON_Object" "pb_wf b'" "can_access_at_index b' 0"
    "pb_content b' = pb_content b" "pb_length b' = pb_length b" "pb_depth b' = pb_depth b + 1"
    "pb_offset b \<le> pb_offset b'" "hooks_step (blocks items) (pb_hooks b) (pb_hooks b')"
  shows "outcome item b (close_list kind item items b')"
proof -
  have "plain ((node item)\<lparr>cj_type := kind\<rparr>)"
    by (rule plain_kind [of kind]) (use assms(2) in auto)
  then show ?thesis unfolding close_list_def
    by (intro outcome_True)
      (use assms in \<open>simp_all add: pb_wf_def can_access_at_index_def fresh_def\<close>)
qed

text \<open>
  The part that arrays and objects share: what follows the opening bracket, up to the closing
  one, for a loop over elements that keeps its contract.
\<close>

lemma bracket_ok:
  assumes b: "pb_wf b0" "pb_depth b0 < CJSON_NESTING_LIMIT" "can_access_at_index b0 0" "fresh item"
    and kind: "kind = cJSON_Array \<or> kind = cJSON_Object"
    and bd: "b = b0\<lparr>pb_depth := pb_depth b0 + 1\<rparr>"
    and loop: "\<And>b. pb_wf b \<Longrightarrow> pb_depth b = pb_depth b0 + 1 \<Longrightarrow> pb_offset b < pb_length b \<Longrightarrow>
      \<exists>r. lp (Suc (pb_length b)) [] b = Some (Inr r) \<and> loop_outcome [] b r"
  shows "\<exists>r. bindC (liftC (buffer_skip_whitespace (advance 1 b))) (\<lambda>b.
          bindC (liftC (next_is b x)) (\<lambda>empty.
            if empty then retC (close_list kind item [] b)
            else if \<not> can_access_at_index b 0 then retC (False, item, step_back b)
            else bindC (lp (Suc (pb_length b)) [] (step_back b)) (\<lambda>(ok, items, b).
              if \<not> ok then retC (False, item, delete_list items b)
              else bindC (liftC (next_is b x)) (\<lambda>closed.
                if closed then retC (close_list kind item items b)
                else retC (False, item, delete_list items b))))) = Some (Inr r) \<and> outcome item b0 r"
proof -
  have w: "pb_wf (advance 1 b)" using b bd by (simp add: pb_wf_def can_access_at_index_def)
  obtain b1 where b1: "buffer_skip_whitespace (advance 1 b) = Inr b1" "pb_wf b1"
    "pb_content b1 = pb_content b0" "pb_length b1 = pb_length b0" "pb_depth b1 = pb_depth b0 + 1"
    "pb_hooks b1 = pb_hooks b0" "pb_offset b0 < pb_offset b1"
    by (rule skip_wsE [OF w]) (auto simp: bd)
  consider "can_access_at_index b1 0 \<and> pb_content b1 ! pb_offset b1 = x" | "\<not> can_access_at_index b1 0"
    | "can_access_at_index b1 0" "pb_content b1 ! pb_offset b1 \<noteq> x" by blast
  then show ?thesis
  proof cases
    case 1
    have "outcome item b0 (close_list kind item [] b1)"
      by (rule close_list_outcome) (use b kind b1 1 in simp_all)
    then show ?thesis using b1 1 by (simp add: next_is_ok retC_def)
  next
    case 2
    have "outcome item b0 (False, item, step_back b1)" using b1 by (simp add: outcome_def)
    then show ?thesis using b1 2 by (simp add: next_is_ok retC_def)
  next
    case 3
    have w2: "pb_wf (step_back b1)" using b1(2) by (auto simp: pb_wf_def)
    have acc: "pb_offset (step_back b1) < pb_length (step_back b1)" "pb_length b1 = pb_length (step_back b1)"
      using 3 by (simp_all add: can_access_at_index_def)
    obtain ok items b2 where l: "lp (Suc (pb_length b1)) [] (step_back b1) = Some (Inr (ok, items, b2))"
      "loop_outcome [] (step_back b1) (ok, items, b2)"
      using loop [OF w2 _ acc(1)] b1 by auto
    have st: "hooks_step (blocks items) (pb_hooks b0) (pb_hooks b2)"
      "pb_content b2 = pb_content b0" "pb_length b2 = pb_length b0"
      using l(2) b1 by (simp_all add: loop_outcome_def)
    have "hooks_step 0 (pb_hooks b0) (pb_hooks (delete_list items b2))"
      using hooks_step_trans [OF st(1) delete_list_step [of items b2]] by simp
    then have f: "outcome item b0 (False, item, delete_list items b2)" using st by (simp add: outcome_def)
    show ?thesis
    proof (cases ok)
      case False
      then show ?thesis using b1 3 l f by (simp add: next_is_ok retC_def)
    next
      case True
      then have b2: "pb_wf b2" "pb_offset b1 - 1 \<le> pb_offset b2" "pb_depth b2 = pb_depth b0 + 1"
        using l(2) b1 by (auto simp: loop_outcome_def)
      show ?thesis
      proof (cases "can_access_at_index b2 0 \<and> pb_content b2 ! pb_offset b2 = x")
        case closed: True
        have "outcome item b0 (close_list kind item items b2)"
          by (rule close_list_outcome) (use b kind b1 b2 st closed in simp_all)
        then show ?thesis using b1 3 l True b2 closed by (simp add: next_is_ok retC_def)
      next
        case False
        then show ?thesis using b1 3 l True b2 f by (auto simp: next_is_ok retC_def)
      qed
    qed
  qed
qed

lemma branch_ok:
  "(c \<Longrightarrow> \<exists>r. x = Some (Inr r) \<and> Q r) \<Longrightarrow> (\<not> c \<Longrightarrow> \<exists>r. y = Some (Inr r) \<and> Q r) \<Longrightarrow>
   \<exists>r. (if c then x else y) = Some (Inr r) \<and> Q r"
  by simp

context value_parser
begin

text \<open>An element and what follows it: the item is parsed, or the loop ends in failure.\<close>

lemma element:
  assumes b: "pb_wf b" "D \<le> pb_depth b" and f: "fresh item"
  shows "(\<exists>b'. pv item b = Some (Inr (False, item, b')) \<and> pb_content b' = pb_content b \<and>
      pb_length b' = pb_length b \<and> hooks_step 0 (pb_hooks b) (pb_hooks b')) \<or>
    (\<exists>it b1 b'. pv item b = Some (Inr (True, it, b1)) \<and> buffer_skip_whitespace b1 = Inr b' \<and> pb_wf b' \<and>
      pb_content b' = pb_content b \<and> pb_length b' = pb_length b \<and> pb_depth b' = pb_depth b \<and>
      pb_offset b < pb_offset b' \<and> hooks_step (blocks [it] - blocks [item]) (pb_hooks b) (pb_hooks b'))"
proof -
  obtain ok it b1 where r: "pv item b = Some (Inr (ok, it, b1))" "outcome item b (ok, it, b1)"
    using parses [OF b f] by auto
  show ?thesis
  proof (cases ok)
    case False
    then show ?thesis using r by (auto simp: outcome_def)
  next
    case True
    then have b1: "pb_wf b1" using r(2) by (simp add: outcome_def)
    obtain b' where b': "buffer_skip_whitespace b1 = Inr b'" "pb_wf b'"
      "pb_content b' = pb_content b1" "pb_length b' = pb_length b1" "pb_depth b' = pb_depth b1"
      "pb_hooks b' = pb_hooks b1" "pb_offset b1 \<le> pb_offset b'"
      by (rule skip_wsE [OF b1]) blast
    then show ?thesis using r True by (auto simp: outcome_def)
  qed
qed

lemma array_loop_ok:
  "pb_wf b \<Longrightarrow> D \<le> pb_depth b \<Longrightarrow> pb_offset b < pb_length b \<Longrightarrow> pb_length b - pb_offset b < k \<Longrightarrow>
   \<exists>r. array_loop pv k items b = Some (Inr r) \<and> loop_outcome items b r"
proof (induction k arbitrary: items b)
  case (Suc k)
  note b = Suc.prems
  show ?case
  proof (rule new_itemE [of "pb_hooks b"])
    fix H assume H: "cJSON_New_Item (pb_hooks b) = (None, H)" "hooks_step 0 (pb_hooks b) H"
    then show ?thesis by (auto simp: retC_def intro!: loop_outcome_fail)
  next
    fix H assume H: "cJSON_New_Item (pb_hooks b) = (Some (Item zero_node []), H)" "hooks_step 1 (pb_hooks b) H"
    let ?new = "Item zero_node []"
    have w: "pb_wf (advance 1 (b\<lparr>pb_hooks := H\<rparr>))" using b by (simp add: pb_wf_def)
    obtain b1 where b1: "buffer_skip_whitespace (advance 1 (b\<lparr>pb_hooks := H\<rparr>)) = Inr b1" "pb_wf b1"
      "pb_content b1 = pb_content b" "pb_length b1 = pb_length b" "pb_depth b1 = pb_depth b"
      "pb_hooks b1 = H" "pb_offset b < pb_offset b1"
      by (rule skip_wsE [OF w]) auto
    have D: "D \<le> pb_depth b1" using b b1 by simp
    from element [OF b1(2) D fresh_new] show ?thesis
    proof (elim disjE exE conjE)
      fix b2 assume f: "pv ?new b1 = Some (Inr (False, ?new, b2))" "pb_content b2 = pb_content b1"
        "pb_length b2 = pb_length b1" "hooks_step 0 (pb_hooks b1) (pb_hooks b2)"
      have "loop_outcome items b (False, items @ [?new], b2)"
        by (rule loop_outcome_fail) (use f b1 hooks_step_trans [OF H(2) f(4) [unfolded b1(6)]] in simp_all)
      then show ?thesis using H b1 f by (simp add: retC_def)
    next
      fix it b2 b3
      assume f: "pv ?new b1 = Some (Inr (True, it, b2))" "buffer_skip_whitespace b2 = Inr b3" "pb_wf b3"
        "pb_content b3 = pb_content b1" "pb_length b3 = pb_length b1" "pb_depth b3 = pb_depth b1"
        "pb_offset b1 < pb_offset b3" "hooks_step (blocks [it] - blocks [?new]) (pb_hooks b1) (pb_hooks b3)"
      note st = hooks_step_trans [OF H(2) f(8) [unfolded b1(6)]]
      have nx: "loop_outcome items b r" if "loop_outcome (items @ [it]) b3 r" for r
        by (rule loop_outcome_next [OF st _ _ _ _ _ that]) (use f b1 in simp_all)
      show ?thesis
      proof (cases "can_access_at_index b3 0 \<and> pb_content b3 ! pb_offset b3 = 0x2C")
        case True
        have "\<exists>r. array_loop pv k (items @ [it]) b3 = Some (Inr r) \<and> loop_outcome (items @ [it]) b3 r"
          by (rule Suc.IH) (use True f b1 b in \<open>auto simp: can_access_at_index_def\<close>)
        then show ?thesis using H b1 f True nx by (auto simp: next_is_ok)
      next
        case False
        have "loop_outcome (items @ [it]) b3 (True, items @ [it], b3)" using f(3) by (simp add: loop_outcome_def)
        from nx [OF this] show ?thesis using H b1 f False by (auto simp: next_is_ok retC_def)
      qed
    qed
  qed
qed simp

lemma object_loop_ok:
  "pb_wf b \<Longrightarrow> D \<le> pb_depth b \<Longrightarrow> pb_offset b < pb_length b \<Longrightarrow> pb_length b - pb_offset b < k \<Longrightarrow>
   \<exists>r. object_loop pv k items b = Some (Inr r) \<and> loop_outcome items b r"
proof (induction k arbitrary: items b)
  case (Suc k)
  note b = Suc.prems
  let ?new = "Item zero_node []"
  show ?case
  proof (rule new_itemE [of "pb_hooks b"])
    fix H assume H: "cJSON_New_Item (pb_hooks b) = (None, H)" "hooks_step 0 (pb_hooks b) H"
    then show ?thesis by (auto simp: retC_def intro!: loop_outcome_fail)
  next
    fix H assume H: "cJSON_New_Item (pb_hooks b) = (Some ?new, H)" "hooks_step 1 (pb_hooks b) H"
    show ?thesis
    proof (cases "can_access_at_index (b\<lparr>pb_hooks := H\<rparr>) 1")
      case False
      then show ?thesis using H by (auto simp: retC_def intro!: loop_outcome_fail)
    next
      case acc: True
      have w: "pb_wf (advance 1 (b\<lparr>pb_hooks := H\<rparr>))" using b by (simp add: pb_wf_def)
      obtain b1 where b1: "buffer_skip_whitespace (advance 1 (b\<lparr>pb_hooks := H\<rparr>)) = Inr b1" "pb_wf b1"
        "pb_content b1 = pb_content b" "pb_length b1 = pb_length b" "pb_depth b1 = pb_depth b"
        "pb_hooks b1 = H" "pb_offset b < pb_offset b1" "pb_offset b1 < pb_length b1"
        by (rule skip_wsE [OF w]) (use acc in \<open>auto simp: can_access_at_index_def\<close>)
      note st = hooks_step_trans [OF H(2), unfolded b1(6) [symmetric]]
      from member_name [OF b1(2) b1(8)] show ?thesis
      proof (elim disjE exE conjE)
        fix b2 assume f: "parse_string ?new b1 = Inr (False, ?new, b2)" "pb_content b2 = pb_content b1"
          "pb_length b2 = pb_length b1" "hooks_step 0 (pb_hooks b1) (pb_hooks b2)"
        have "loop_outcome items b (False, items @ [?new], b2)"
          by (rule loop_outcome_fail) (use f b1 st [OF f(4)] in simp_all)
        then show ?thesis using H b1 f acc by (simp add: retC_def Let_def)
      next
        fix nm b2 b3
        assume f: "parse_string ?new b1 = Inr (True, nm, b2)" "buffer_skip_whitespace b2 = Inr b3" "pb_wf b3"
          "pb_content b3 = pb_content b1" "pb_length b3 = pb_length b1" "pb_depth b3 = pb_depth b1"
          "pb_offset b1 < pb_offset b3" "fresh (swap_name nm)"
          "hooks_step (blocks [swap_name nm] - 1) (pb_hooks b1) (pb_hooks b3)"
        note st3 = st [OF f(9)]
        show ?thesis
        proof (cases "can_access_at_index b3 0 \<and> pb_content b3 ! pb_offset b3 = 0x3A")
          case False
          have "loop_outcome items b (False, items @ [swap_name nm], b3)"
            by (rule loop_outcome_fail) (use f b1 st3 in simp_all)
          then show ?thesis using H b1 f acc False by (auto simp: retC_def Let_def next_is_ok)
        next
          case colon: True
          have w3: "pb_wf (advance 1 b3)" using f(3) colon by (simp add: pb_wf_def can_access_at_index_def)
          obtain b4 where b4: "buffer_skip_whitespace (advance 1 b3) = Inr b4" "pb_wf b4"
            "pb_content b4 = pb_content b3" "pb_length b4 = pb_length b3" "pb_depth b4 = pb_depth b3"
            "pb_hooks b4 = pb_hooks b3" "pb_offset b3 < pb_offset b4"
            by (rule skip_wsE [OF w3]) auto
          have D: "D \<le> pb_depth b4" using b b1 f b4 by simp
          have eq: "object_loop pv (Suc k) items b =
            bindC (pv (swap_name nm) b4) (\<lambda>(ok, current_item, b).
              let items = items @ [current_item]
              in if \<not> ok then retC (False, items, b)
                 else bindC (liftC (buffer_skip_whitespace b)) (\<lambda>b.
                   bindC (liftC (next_is b 0x2C)) (\<lambda>comma.
                     if comma then object_loop pv k items b else retC (True, items, b))))"
            using H b1 f acc colon b4 by (simp add: Let_def next_is_ok)
          from element [OF b4(2) D f(8)] show ?thesis
          proof (elim disjE exE conjE)
            fix b5 assume g: "pv (swap_name nm) b4 = Some (Inr (False, swap_name nm, b5))"
              "pb_content b5 = pb_content b4" "pb_length b5 = pb_length b4"
              "hooks_step 0 (pb_hooks b4) (pb_hooks b5)"
            have "loop_outcome items b (False, items @ [swap_name nm], b5)"
              by (rule loop_outcome_fail)
                (use g b4 f b1 hooks_step_trans [OF st3 g(4) [unfolded b4(6)]] in simp_all)
            then show ?thesis unfolding eq using g by (simp add: retC_def)
          next
            fix it b5 b6
            assume g: "pv (swap_name nm) b4 = Some (Inr (True, it, b5))" "buffer_skip_whitespace b5 = Inr b6"
              "pb_wf b6" "pb_content b6 = pb_content b4" "pb_length b6 = pb_length b4"
              "pb_depth b6 = pb_depth b4" "pb_offset b4 < pb_offset b6"
              "hooks_step (blocks [it] - blocks [swap_name nm]) (pb_hooks b4) (pb_hooks b6)"
            note st6 = hooks_step_trans [OF st3 g(8) [unfolded b4(6)]]
            have nx: "loop_outcome items b r" if "loop_outcome (items @ [it]) b6 r" for r
              by (rule loop_outcome_next [OF st6 _ _ _ _ _ that]) (use g b4 f b1 in simp_all)
            show ?thesis
            proof (cases "can_access_at_index b6 0 \<and> pb_content b6 ! pb_offset b6 = 0x2C")
              case True
              have "\<exists>r. object_loop pv k (items @ [it]) b6 = Some (Inr r) \<and> loop_outcome (items @ [it]) b6 r"
                by (rule Suc.IH) (use True g b4 f b1 b in \<open>auto simp: can_access_at_index_def\<close>)
              then show ?thesis unfolding eq using g True nx by (auto simp: next_is_ok)
            next
              case False
              have "loop_outcome (items @ [it]) b6 (True, items @ [it], b6)"
                using g(3) by (simp add: loop_outcome_def)
              from nx [OF this] show ?thesis unfolding eq using g False by (auto simp: next_is_ok retC_def)
            qed
          qed
        qed
      qed
    qed
  qed
qed simp

lemma parse_array_ok:
  assumes "pb_wf b" "D \<le> pb_depth b + 1" "can_access_at_index b 0" "fresh item"
  shows "\<exists>r. parse_array pv item b = Some (Inr r) \<and> outcome item b r"
proof (cases "CJSON_NESTING_LIMIT \<le> pb_depth b")
  case False
  define b' where "b' = b\<lparr>pb_depth := pb_depth b + 1\<rparr>"
  have c: "at_offset b' 0 = Inr (pb_content b ! pb_offset b)"
    using assms at_offset_ok [OF assms(1), of 0] by (simp add: b'_def at_offset_def)
  have f: "outcome item b (False, item, b')" by (simp add: outcome_def b'_def)
  have loop: "\<exists>r. array_loop pv (Suc (pb_length ba)) [] ba = Some (Inr r) \<and> loop_outcome [] ba r"
    if "pb_wf ba" "pb_depth ba = pb_depth b + 1" "pb_offset ba < pb_length ba" for ba
    by (rule array_loop_ok) (use that assms(2) in auto)
  have "pb_depth b < CJSON_NESTING_LIMIT" using False by simp
  note br = bracket_ok [where lp = "array_loop pv" and kind = cJSON_Array and x = "0x5D",
      OF assms(1) this assms(3,4) disjI1 [OF refl] b'_def loop]
  show ?thesis
    unfolding parse_array_def if_not_P [OF False] Let_def b'_def [symmetric] c liftC_simps bindC_simps
    using br f by (cases "pb_content b ! pb_offset b = 0x5B") (simp_all add: retC_def del: array_loop.simps)
qed (simp add: parse_array_def retC_def)

lemma parse_object_ok:
  assumes "pb_wf b" "D \<le> pb_depth b + 1" "can_access_at_index b 0" "fresh item"
  shows "\<exists>r. parse_object pv item b = Some (Inr r) \<and> outcome item b r"
proof (cases "CJSON_NESTING_LIMIT \<le> pb_depth b")
  case False
  define b' where "b' = b\<lparr>pb_depth := pb_depth b + 1\<rparr>"
  have "pb_wf b'" using assms(1) False by (simp add: pb_wf_def b'_def)
  from next_is_ok [OF this]
  have c: "next_is b' 0x7B = Inr (pb_content b ! pb_offset b = 0x7B)"
    using assms(3) by (simp add: b'_def can_access_at_index_def)
  have f: "outcome item b (False, item, b')" by (simp add: outcome_def b'_def)
  have loop: "\<exists>r. object_loop pv (Suc (pb_length ba)) [] ba = Some (Inr r) \<and> loop_outcome [] ba r"
    if "pb_wf ba" "pb_depth ba = pb_depth b + 1" "pb_offset ba < pb_length ba" for ba
    by (rule object_loop_ok) (use that assms(2) in auto)
  have "pb_depth b < CJSON_NESTING_LIMIT" using False by simp
  note br = bracket_ok [where lp = "object_loop pv" and kind = cJSON_Object and x = "0x7D",
      OF assms(1) this assms(3,4) disjI2 [OF refl] b'_def loop]
  show ?thesis
    unfolding parse_object_def if_not_P [OF False] Let_def b'_def [symmetric] c liftC_simps bindC_simps
    using br f by (cases "pb_content b ! pb_offset b = 0x7B") (simp_all add: retC_def del: object_loop.simps)
qed (simp add: parse_object_def retC_def)

lemma parse_with_ok:
  assumes b: "pb_wf b" "D \<le> pb_depth b + 1" and f: "fresh item"
  shows "\<exists>r. parse_with pv item b = Some (Inr r) \<and> outcome item b r"
proof -
  have word: "outcome item b (True, set_type k item, advance n b)"
    if "can_read b n" "0 < n" "k \<in> {cJSON_NULL, cJSON_False}" for k n
  proof -
    have "plain ((node item)\<lparr>cj_type := k\<rparr>)" by (rule plain_kind [of k]) (use that in auto)
    then show ?thesis unfolding set_type_def
      by (intro outcome_kind) (use that b f in \<open>auto simp: fresh_def\<close>)
  qed
  have true: "outcome item b (True, set_true item, advance n b)" if "can_read b n" "0 < n" for n
  proof -
    have "plain ((node item)\<lparr>cj_type := cJSON_True, cj_valueint := 1\<rparr>)" by (rule plain_kind [of cJSON_True]) auto
    then show ?thesis unfolding set_true_def
      by (intro outcome_kind) (use that b f in \<open>auto simp: fresh_def\<close>)
  qed
  show ?thesis
  proof (cases "can_access_at_index b 0")
    case False
    then show ?thesis using b by (simp add: parse_with_def next_word_ok next_is_ok retC_def can_read_def
          can_access_at_index_def)
  next
    case True
    then have o: "pb_offset b < pb_length b" by (simp add: can_access_at_index_def)
    obtain rs where rs: "parse_string item b = Inr rs" "outcome item b rs"
      using parse_string_ok [OF b(1) o f] by blast
    obtain rn where rn: "parse_number item b = Inr rn" "outcome item b rn"
      using parse_number_ok [OF b(1) f] by blast
    obtain ra where ra: "parse_array pv item b = Some (Inr ra)" "outcome item b ra"
      using parse_array_ok [OF b True f] by blast
    obtain ro where ro: "parse_object pv item b = Some (Inr ro)" "outcome item b ro"
      using parse_object_ok [OF b True f] by blast
    show ?thesis
      unfolding parse_with_def next_word_ok [OF b(1)] next_is_ok [OF b(1)] at_offset_ok [OF b(1) True]
        liftC_simps bindC_simps rs(1) rn(1) ra(1) ro(1) retC_def
      by (intro branch_ok) (use word [of 4 cJSON_NULL] word [of 5 cJSON_False] true [of 4] rs(2) rn(2) ra(2) ro(2)
          outcome_fail [of item b] True in \<open>simp_all add: eval_nat_numeral\<close>)
  qed
qed

end

text \<open>The limit on the nesting bounds the recursion: \<open>parse_value n\<close> keeps the contract in a buffer
  that is nested so deep that at most n calls can follow.\<close>

lemma value_parser_step: "value_parser pv D \<Longrightarrow> value_parser (parse_with pv) (D - 1)"
  by unfold_locales (rule value_parser.parse_with_ok, auto)

lemma value_parser_parse_value: "value_parser (parse_value n) (CJSON_NESTING_LIMIT + 1 - n)"
proof (induction n)
  case 0
  show ?case by unfold_locales (simp add: pb_wf_def)
next
  case (Suc n)
  have "parse_value (Suc n) = parse_with (parse_value n)" by (intro ext) simp
  then show ?case using value_parser_step [OF Suc] by simp
qed

interpretation pv: value_parser "parse_value n" "CJSON_NESTING_LIMIT + 1 - n" for n
  by (rule value_parser_parse_value)

section \<open>The entry points\<close>

definition document_ok :: "hooks \<Rightarrow> nat \<Rightarrow> parse_result \<Rightarrow> bool" where
  "document_ok H len r \<longleftrightarrow> (case pr_item r of
     None \<Rightarrow> pr_error r = Some (pr_end r) \<and> (0 < len \<longrightarrow> pr_end r < len) \<and> hooks_step 0 H (pr_hooks r)
   | Some t \<Rightarrow> pr_error r = None \<and> pr_end r \<le> len \<and> hooks_step (blocks [t]) H (pr_hooks r))"

lemma parse_fail_ok:
  assumes "case item of None \<Rightarrow> hooks_step 0 H (pb_hooks b) | Some t \<Rightarrow> hooks_step (blocks [t]) H (pb_hooks b)"
    "pb_length b = len"
  shows "document_ok H len (parse_fail item b)"
proof (cases item)
  case None
  then show ?thesis using assms by (simp add: parse_fail_def document_ok_def Let_def)
next
  case (Some t)
  have "hooks_step 0 H (cJSON_Delete [t] (pb_hooks b))"
    using hooks_step_trans [OF _ cJSON_Delete_step [of "[t]"], of "blocks [t]" H "pb_hooks b"] assms Some by simp
  then show ?thesis using Some assms by (simp add: parse_fail_def document_ok_def Let_def)
qed

lemma skip_utf8_bom_ok:
  assumes "pb_wf b"
  shows "\<exists>b'. skip_utf8_bom b = Inr b' \<and> pb_wf b' \<and> pb_content b' = pb_content b \<and>
    pb_length b' = pb_length b \<and> pb_depth b' = pb_depth b \<and> pb_hooks b' = pb_hooks b"
  using assms by (auto simp: skip_utf8_bom_def can_access_at_index_def pb_wf_def)

lemma parse_length_opts_ok:
  assumes len: "buffer_length \<le> length value"
  shows "\<exists>r. cJSON_ParseWithLengthOpts value buffer_length req H = Some (Inr r) \<and> document_ok H buffer_length r"
proof (cases "buffer_length = 0")
  case True
  then show ?thesis by (simp add: cJSON_ParseWithLengthOpts_def retC_def parse_fail_ok)
next
  case False
  define b where "b = \<lparr>pb_content = value, pb_length = buffer_length, pb_offset = 0, pb_depth = 0, pb_hooks = H\<rparr>"
  note st = cJSON_ParseWithLengthOpts_def if_not_P [OF False] Let_def b_def [symmetric]
  show ?thesis
  proof (rule new_itemE [of H])
    fix H1 assume "cJSON_New_Item H = (None, H1)" "hooks_step 0 H H1"
    moreover then have "document_ok H buffer_length (parse_fail None (b\<lparr>pb_hooks := H1\<rparr>))"
      by (intro parse_fail_ok) (simp_all add: b_def)
    ultimately show ?thesis unfolding st by (simp add: retC_def)
  next
    fix H1 assume n: "cJSON_New_Item H = (Some (Item zero_node []), H1)" "hooks_step 1 H H1"
    have w: "pb_wf (b\<lparr>pb_hooks := H1\<rparr>)" using len by (simp add: pb_wf_def b_def)
    obtain b1 where b1: "skip_utf8_bom (b\<lparr>pb_hooks := H1\<rparr>) = Inr b1" "pb_wf b1"
      "pb_length b1 = buffer_length" "pb_hooks b1 = H1"
      using skip_utf8_bom_ok [OF w] by (auto simp: b_def)
    obtain b2 where b2: "buffer_skip_whitespace b1 = Inr b2" "pb_wf b2"
      "pb_length b2 = buffer_length" "pb_hooks b2 = H1"
      by (rule skip_wsE [OF b1(2)]) (use b1 in auto)
    have D: "CJSON_NESTING_LIMIT + 1 - parse_fuel \<le> pb_depth b2" by (simp add: parse_fuel_def)
    obtain ok it b3 where v: "parse_value parse_fuel (Item zero_node []) b2 = Some (Inr (ok, it, b3))"
      "outcome (Item zero_node []) b2 (ok, it, b3)"
      using pv.parses [OF b2(2) D fresh_new] by auto
    have "hooks_step (blocks [it] - 1) H1 (pb_hooks b3)" "pb_length b3 = buffer_length"
      using v(2) b2 by (auto simp: outcome_def split: if_splits)
    then have h3: "hooks_step (blocks [it]) H (pb_hooks b3)" "pb_length b3 = buffer_length"
      using hooks_step_trans [OF n(2), of "blocks [it] - 1"] by simp_all
    have f3: "document_ok H buffer_length (parse_fail (Some it) b3)" by (rule parse_fail_ok) (use h3 in simp_all)
    note eq = st n(1) prod.case option.case b1(1) b2(1) v(1) liftC_simps bindC_simps
    show ?thesis
    proof (cases ok)
      case False
      then show ?thesis unfolding eq using f3 by (simp add: retC_def)
    next
      case True
      then have w3: "pb_wf b3" using v(2) by (simp add: outcome_def)
      obtain b4 where b4: "(if req then buffer_skip_whitespace b3 else Inr b3) = Inr b4" "pb_wf b4"
        "pb_length b4 = buffer_length" "pb_hooks b4 = pb_hooks b3"
        by (rule skip_wsE [OF w3], cases req) (use h3 w3 in auto)
      define t where "t \<longleftrightarrow> req \<longrightarrow> can_access_at_index b4 0 \<and> pb_content b4 ! pb_offset b4 = 0"
      have t: "(if req then next_is b4 0 else Inr True) = Inr t" using next_is_ok [OF b4(2)] by (simp add: t_def)
      have f4: "document_ok H buffer_length (parse_fail (Some it) b4)" by (rule parse_fail_ok) (use h3 b4 in simp_all)
      have g4: "document_ok H buffer_length
          \<lparr>pr_item = Some it, pr_end = pb_offset b4, pr_error = None, pr_hooks = pb_hooks b4\<rparr>"
        using h3 b4 by (simp add: document_ok_def pb_wf_def)
      show ?thesis unfolding eq using f4 g4 True by (simp add: b4(1) t retC_def)
    qed
  qed
qed

text \<open>
  C10. Parsing is total, safe and tight: for every C string and every pattern of failing
  allocations \<open>cJSON_Parse\<close> returns, without reading outside the string and its terminator and without
  writing outside a block it allocated. When it returns NULL, every block it allocated has been freed
  again and the error position points into the text; otherwise the blocks it keeps are those of
  the tree, which \<open>cJSON_Delete\<close> frees.
\<close>

theorem cjson_parse_safe:
  "\<exists>r. cJSON_Parse value H = Some (Inr r) \<and>
     (case pr_item r of
        None \<Rightarrow> ha_live (pr_hooks r) = ha_live H \<and> pr_error r = Some (pr_end r) \<and> pr_end r \<le> length (cstr value)
      | Some t \<Rightarrow> pr_error r = None \<and> ha_live (pr_hooks r) = ha_live H + blocks [t] \<and>
          ha_live (cJSON_Delete [t] (pr_hooks r)) = ha_live H)"
proof -
  obtain r where r: "cJSON_Parse value H = Some (Inr r)" "document_ok H (length (cstr value) + 1) r"
    using parse_length_opts_ok [of "length (cstr value) + 1" "cstr value @ [0]" False H]
    by (auto simp: cJSON_Parse_def cJSON_ParseWithOpts_def)
  then show ?thesis using cJSON_Delete_step [of _ "pr_hooks r"]
    by (cases "pr_item r") (auto simp: document_ok_def hooks_step_def simp del: blocks.simps cJSON_Delete.simps)
qed

end
