(* ===== verification/Cjson_Print.thy ===== *)
theory Cjson_Print
  imports Cjson_Number
begin

text \<open>
  The printer of \<open>cJSON.c\<close>, from \<open>ensure\<close> to \<open>cJSON_PrintPreallocated\<close>. The print buffer is a
  block of memory of its own length; a write outside the block is the fault \<open>BufferOverflow\<close>, a
  \<open>strlen\<close> that runs over its end the fault \<open>OutOfBounds\<close>. The functions return the C result
  and the print buffer; the printers of arrays and objects take the loop over the children as
  an argument, and \<open>print_value\<close> is recursive on the tree.
\<close>

section \<open>The print buffer\<close>

record printbuffer =
  pt_buffer :: "bytes option"
  pt_length :: nat
  pt_offset :: nat
  pt_depth :: nat
  pt_noalloc :: bool
  pt_format :: bool
  pt_hooks :: hooks

type_synonym printed = "bool \<times> printbuffer"

text \<open>Go on when the step returned true, return false otherwise.\<close>

definition andthen :: "fault + printed \<Rightarrow> (printbuffer \<Rightarrow> fault + printed) \<Rightarrow> fault + printed" where
  "andthen m f = bindE m (\<lambda>(ok, p). if ok then f p else Inr (False, p))"

text \<open>The block of a larger buffer, allocated with \<open>reallocate\<close> or copied by hand.\<close>

definition grow :: "printbuffer \<Rightarrow> bytes \<Rightarrow> nat \<Rightarrow> fault + bytes option \<times> hooks" where
  "grow p buf newsize =
     (if ha_realloc (pt_hooks p) then Inr (hook_reallocate buf newsize (pt_hooks p))
      else case hook_allocate (pt_hooks p) of (r, H) \<Rightarrow>
        if \<not> r then Inr (None, H)
        else bindE (rd_bytes buf 0 (pt_offset p + 1)) (\<lambda>old.
             bindE (wr_bytes (new_block (pt_hooks p) newsize) 0 old) (\<lambda>new.
               Inr (Some new, hook_deallocate H))))"

definition ensure :: "printbuffer \<Rightarrow> nat \<Rightarrow> fault + printed" where
  "ensure p needed =
     (case pt_buffer p of
        None \<Rightarrow> Inr (False, p)
      | Some buf \<Rightarrow>
          if 0 < pt_length p \<and> pt_length p \<le> pt_offset p then Inr (False, p)
          else if nat INT_MAX < needed then Inr (False, p)
          else let needed = needed + (pt_offset p + 1)
          in if needed \<le> pt_length p then Inr (True, p)
             else if pt_noalloc p then Inr (False, p)
             else if nat INT_MAX < needed then Inr (False, p)
             else let newsize = (if nat INT_MAX div 2 < needed then nat INT_MAX else needed * 2)
             in bindE (grow p buf newsize) (\<lambda>(r, H).
               case r of
                 None \<Rightarrow> Inr (False, p\<lparr>pt_buffer := None, pt_length := 0, pt_hooks := hook_deallocate H\<rparr>)
               | Some new \<Rightarrow> Inr (True, p\<lparr>pt_buffer := Some new, pt_length := newsize, pt_hooks := H\<rparr>)))"

text \<open>Bytes written through the pointer that \<open>ensure\<close> returned, from its i-th byte.\<close>

definition put :: "nat \<Rightarrow> bytes \<Rightarrow> printbuffer \<Rightarrow> fault + printbuffer" where
  "put i bs p =
     (case pt_buffer p of
        None \<Rightarrow> Inl NullDeref
      | Some buf \<Rightarrow> bindE (wr_bytes buf (pt_offset p + i) bs) (\<lambda>buf. Inr (p\<lparr>pt_buffer := Some buf\<rparr>)))"

definition add_offset :: "nat \<Rightarrow> printbuffer \<Rightarrow> printbuffer" where
  "add_offset n p = p\<lparr>pt_offset := pt_offset p + n\<rparr>"

definition update_offset :: "printbuffer \<Rightarrow> fault + printbuffer" where
  "update_offset p =
     (case pt_buffer p of
        None \<Rightarrow> Inr p
      | Some buf \<Rightarrow> bindE (rd_cstr (drop (pt_offset p) buf)) (\<lambda>s. Inr (add_offset (length s) p)))"

section \<open>Numbers and strings\<close>

definition number_text :: "cJSON_node \<Rightarrow> bytes" where
  "number_text n =
     (case cj_valuedouble n of
        NaN \<Rightarrow> ascii ''null''
      | Inf _ \<Rightarrow> ascii ''null''
      | Fin d \<Rightarrow>
          if d = of_int (cj_valueint n) then dec_int (cj_valueint n)
          else let s = fmt_g 15 d; (test, n) = strtod s
               in if n = 0 \<or> \<not> compare_double test (Fin d) then fmt_g 17 d else s)"

definition print_number :: "cJSON_node \<Rightarrow> printbuffer \<Rightarrow> fault + printed" where
  "print_number n p =
     (let number_buffer = number_text n; len = length number_buffer
      in if 25 < len then Inr (False, p)
         else andthen (ensure p (len + 1)) (\<lambda>p.
           bindE (put 0 (map (\<lambda>c. if c = get_decimal_point then 0x2E else c) number_buffer @ [0]) p) (\<lambda>p.
             Inr (True, add_offset len p))))"

definition escape_extra :: "u8 \<Rightarrow> nat" where
  "escape_extra c =
     (if c = 0x22 \<or> c = 0x5C \<or> c = 8 \<or> c = 12 \<or> c = 10 \<or> c = 13 \<or> c = 9 then 1
      else if c < 32 then 5 else 0)"

text \<open>The characters of one input byte; \<open>sprintf\<close> also writes a terminator behind its five.\<close>

definition escape_text :: "u8 \<Rightarrow> bytes" where
  "escape_text c =
     (if 31 < c \<and> c \<noteq> 0x22 \<and> c \<noteq> 0x5C then [c]
      else 0x5C #
        (if c = 0x5C then [0x5C] else if c = 0x22 then [0x22] else if c = 8 then [0x62]
         else if c = 12 then [0x66] else if c = 10 then [0x6E] else if c = 13 then [0x72]
         else if c = 9 then [0x74]
         else [0x75, 0x30, 0x30, hex_digit (unat c div 16), hex_digit (unat c mod 16)]))"

definition sprintf_end :: "u8 \<Rightarrow> bytes" where
  "sprintf_end c = (if length (escape_text c) = 6 then [0] else [])"

fun escape_loop :: "bytes \<Rightarrow> nat \<Rightarrow> printbuffer \<Rightarrow> fault + printbuffer" where
  "escape_loop [] i p = Inr p"
| "escape_loop (c # s) i p =
     bindE (put i (escape_text c @ sprintf_end c) p) (escape_loop s (i + length (escape_text c)))"

definition print_string_ptr :: "bytes option \<Rightarrow> printbuffer \<Rightarrow> fault + printed" where
  "print_string_ptr input p =
     (case input of
        None \<Rightarrow> andthen (ensure p 3) (\<lambda>p. bindE (put 0 [0x22, 0x22, 0] p) (\<lambda>p. Inr (True, p)))
      | Some s \<Rightarrow>
          let s = cstr s;
              escape_characters = sum_list (map escape_extra s);
              output_length = length s + escape_characters
          in andthen (ensure p (output_length + 3)) (\<lambda>p.
            if escape_characters = 0
            then bindE (put 0 (0x22 # s @ [0x22, 0]) p) (\<lambda>p. Inr (True, p))
            else bindE (put 0 [0x22] p) (\<lambda>p.
                 bindE (escape_loop s 1 p) (\<lambda>p.
                 bindE (put (output_length + 1) [0x22, 0] p) (\<lambda>p. Inr (True, p))))))"

section \<open>Arrays, objects and values\<close>

definition print_literal :: "bytes \<Rightarrow> printbuffer \<Rightarrow> fault + printed" where
  "print_literal w p =
     andthen (ensure p (length w + 1)) (\<lambda>p. bindE (put 0 (w @ [0]) p) (\<lambda>p. Inr (True, p)))"

definition print_array :: "(printbuffer \<Rightarrow> fault + printed) \<Rightarrow> printbuffer \<Rightarrow> fault + printed" where
  "print_array elements p =
     (if CJSON_NESTING_LIMIT \<le> pt_depth p then Inr (False, p)
      else andthen (ensure p 1) (\<lambda>p.
        bindE (put 0 [0x5B] p) (\<lambda>p.
        andthen (elements (add_offset 1 (p\<lparr>pt_depth := pt_depth p + 1\<rparr>))) (\<lambda>p.
        andthen (ensure p 2) (\<lambda>p.
        bindE (put 0 [0x5D, 0] p) (\<lambda>p.
          Inr (True, p\<lparr>pt_depth := pt_depth p - 1\<rparr>)))))))"

definition print_object :: "(printbuffer \<Rightarrow> fault + printed) \<Rightarrow> printbuffer \<Rightarrow> fault + printed" where
  "print_object members p =
     (if CJSON_NESTING_LIMIT \<le> pt_depth p then Inr (False, p)
      else let len = (if pt_format p then 2 else 1)
      in andthen (ensure p (len + 1)) (\<lambda>p.
        bindE (put 0 (if pt_format p then [0x7B, 0x0A] else [0x7B]) p) (\<lambda>p.
        andthen (members (add_offset len (p\<lparr>pt_depth := pt_depth p + 1\<rparr>))) (\<lambda>p.
        andthen (ensure p (if pt_format p then pt_depth p + 1 else 2)) (\<lambda>p.
        bindE (put 0 ((if pt_format p then replicate (pt_depth p - 1) 0x09 else []) @ [0x7D, 0]) p) (\<lambda>p.
          Inr (True, p\<lparr>pt_depth := pt_depth p - 1\<rparr>)))))))"

text \<open>The indentation in front of a member.\<close>

definition print_tabs :: "printbuffer \<Rightarrow> fault + printed" where
  "print_tabs p =
     (if pt_format p
      then andthen (ensure p (pt_depth p)) (\<lambda>p.
        bindE (put 0 (replicate (pt_depth p) 0x09) p) (\<lambda>p. Inr (True, add_offset (pt_depth p) p)))
      else Inr (True, p))"

definition print_colon :: "printbuffer \<Rightarrow> fault + printed" where
  "print_colon p =
     (let len = (if pt_format p then 2 else 1)
      in andthen (ensure p len) (\<lambda>p.
        bindE (put 0 (if pt_format p then [0x3A, 0x09] else [0x3A]) p) (\<lambda>p. Inr (True, add_offset len p))))"

definition print_member_end :: "bool \<Rightarrow> printbuffer \<Rightarrow> fault + printed" where
  "print_member_end sep p =
     (let len = (if pt_format p then 1 else 0) + (if sep then 1 else 0)
      in andthen (ensure p (len + 1)) (\<lambda>p.
        bindE (put 0 ((if sep then [0x2C] else []) @ (if pt_format p then [0x0A] else []) @ [0]) p) (\<lambda>p.
          Inr (True, add_offset len p))))"

definition print_comma :: "printbuffer \<Rightarrow> fault + printed" where
  "print_comma p =
     (let len = (if pt_format p then 2 else 1)
      in andthen (ensure p (len + 1)) (\<lambda>p.
        bindE (put 0 ((if pt_format p then [0x2C, 0x20] else [0x2C]) @ [0]) p) (\<lambda>p.
          Inr (True, add_offset len p))))"

definition then_update :: "(printbuffer \<Rightarrow> fault + printed) \<Rightarrow> printbuffer \<Rightarrow> fault + printed" where
  "then_update pr p = andthen (pr p) (\<lambda>p. bindE (update_offset p) (\<lambda>p. Inr (True, p)))"

definition kind_of :: "cJSON_node \<Rightarrow> u32" where
  "kind_of n = cj_type n AND 0xFF"

fun print_value :: "cJSON \<Rightarrow> printbuffer \<Rightarrow> fault + printed"
  and print_elements :: "cJSON list \<Rightarrow> printbuffer \<Rightarrow> fault + printed"
  and print_members :: "cJSON list \<Rightarrow> printbuffer \<Rightarrow> fault + printed" where
  "print_value (Item n cs) p =
     (if kind_of n = cJSON_NULL then print_literal (ascii ''null'') p
      else if kind_of n = cJSON_False then print_literal (ascii ''false'') p
      else if kind_of n = cJSON_True then print_literal (ascii ''true'') p
      else if kind_of n = cJSON_Number then print_number n p
      else if kind_of n = cJSON_Raw
           then (case cj_valuestring n of None \<Rightarrow> Inr (False, p) | Some s \<Rightarrow> print_literal (cstr s) p)
      else if kind_of n = cJSON_String then print_string_ptr (cj_valuestring n) p
      else if kind_of n = cJSON_Array then print_array (print_elements cs) p
      else if kind_of n = cJSON_Object then print_object (print_members cs) p
      else Inr (False, p))"
| "print_elements [] p = Inr (True, p)"
| "print_elements (c # cs) p =
     andthen (then_update (print_value c) p) (\<lambda>p.
       if cs \<noteq> [] then andthen (print_comma p) (print_elements cs) else print_elements cs p)"
| "print_members [] p = Inr (True, p)"
| "print_members (c # cs) p =
     andthen (print_tabs p) (\<lambda>p.
     andthen (then_update (print_string_ptr (cj_string (node c))) p) (\<lambda>p.
     andthen (print_colon p) (\<lambda>p.
     andthen (then_update (print_value c) p) (\<lambda>p.
     andthen (print_member_end (cs \<noteq> []) p) (print_members cs)))))"

section \<open>Entry points\<close>

definition default_buffer_size :: nat where "default_buffer_size = 256"

definition print_fail :: "printbuffer \<Rightarrow> bytes option \<times> hooks" where
  "print_fail p = (None, if pt_buffer p \<noteq> None then hook_deallocate (pt_hooks p) else pt_hooks p)"

text \<open>The last part of \<open>print\<close>: the text moves to a block of its length.\<close>

definition print_finish :: "printbuffer \<Rightarrow> fault + bytes option \<times> hooks" where
  "print_finish p =
     (case pt_buffer p of None \<Rightarrow> Inl NullDeref | Some buf \<Rightarrow>
      if ha_realloc (pt_hooks p)
      then (case hook_reallocate buf (pt_offset p + 1) (pt_hooks p) of
              (None, H) \<Rightarrow> Inr (print_fail (p\<lparr>pt_hooks := H\<rparr>))
            | (Some printed, H) \<Rightarrow> Inr (Some printed, H))
      else (case hook_allocate (pt_hooks p) of (r, H) \<Rightarrow>
        if \<not> r then Inr (print_fail (p\<lparr>pt_hooks := H\<rparr>))
        else bindE (rd_bytes buf 0 (min (pt_length p) (pt_offset p + 1))) (\<lambda>s.
             bindE (wr_bytes (new_block (pt_hooks p) (pt_offset p + 1)) 0 s) (\<lambda>out.
             bindE (wr_bytes out (pt_offset p) [0]) (\<lambda>out.
               Inr (Some out, hook_deallocate H))))))"

definition print :: "cJSON \<Rightarrow> bool \<Rightarrow> hooks \<Rightarrow> fault + bytes option \<times> hooks" where
  "print item fmt H0 =
     (case hook_allocate H0 of (r, H) \<Rightarrow>
      let p = \<lparr>pt_buffer = (if r then Some (new_block H0 default_buffer_size) else None),
               pt_length = default_buffer_size, pt_offset = 0, pt_depth = 0, pt_noalloc = False,
               pt_format = fmt, pt_hooks = H\<rparr>
      in if \<not> r then Inr (print_fail p)
         else bindE (print_value item p) (\<lambda>(ok, p).
           if \<not> ok then Inr (print_fail p) else bindE (update_offset p) print_finish))"

definition cJSON_Print :: "cJSON \<Rightarrow> hooks \<Rightarrow> fault + bytes option \<times> hooks" where
  "cJSON_Print item H = print item True H"

definition cJSON_PrintUnformatted :: "cJSON \<Rightarrow> hooks \<Rightarrow> fault + bytes option \<times> hooks" where
  "cJSON_PrintUnformatted item H = print item False H"

definition cJSON_PrintBuffered :: "cJSON \<Rightarrow> int \<Rightarrow> bool \<Rightarrow> hooks \<Rightarrow> fault + bytes option \<times> hooks" where
  "cJSON_PrintBuffered item prebuffer fmt H0 =
     (if prebuffer < 0 then Inr (None, H0)
      else case hook_allocate H0 of (r, H) \<Rightarrow>
        if \<not> r then Inr (None, H)
        else bindE (print_value item
               \<lparr>pt_buffer = Some (new_block H0 (nat prebuffer)), pt_length = nat prebuffer, pt_offset = 0,
                pt_depth = 0, pt_noalloc = False, pt_format = fmt, pt_hooks = H\<rparr>) (\<lambda>(ok, p).
          if \<not> ok then Inr (print_fail p)
          else Inr (pt_buffer p, pt_hooks p)))"

text \<open>The buffer of the caller is returned with what was written into it.\<close>

definition cJSON_PrintPreallocated ::
  "cJSON \<Rightarrow> bytes option \<Rightarrow> int \<Rightarrow> bool \<Rightarrow> hooks \<Rightarrow> fault + bool \<times> bytes option \<times> hooks" where
  "cJSON_PrintPreallocated item buf len fmt H =
     (if len < 0 \<or> buf = None then Inr (False, buf, H)
      else bindE (print_value item
             \<lparr>pt_buffer = buf, pt_length = nat len, pt_offset = 0, pt_depth = 0, pt_noalloc = True,
              pt_format = fmt, pt_hooks = H\<rparr>) (\<lambda>(ok, p). Inr (ok, pt_buffer p, pt_hooks p)))"

end
