(* ===== verification/Cjson_Text.thy ===== *)
theory Cjson_Text
  imports Cjson_Print
begin

text \<open>
  What the printer of \<open>cJSON.c\<close> produces. \<open>json_text\<close> is a specification: the text of a
  tree as a function of the tree, \<open>None\<close> for a tree that cannot be printed. The printer refines
  it: it writes this text, with a terminator, into its buffer, whatever blocks the allocator
  hands out; it stays inside the buffer; it fails only when the text does not exist or there is
  no memory for it. For a buffer of the caller (\<open>cJSON_PrintPreallocated\<close>) the space it needs
  is known exactly: one byte more than the text with its terminator.
\<close>

section \<open>The text of a tree\<close>

definition cat2 :: "bytes option \<Rightarrow> bytes option \<Rightarrow> bytes option" where
  "cat2 a b = (case a of None \<Rightarrow> None | Some x \<Rightarrow> (case b of None \<Rightarrow> None | Some y \<Rightarrow> Some (x @ y)))"

lemma cat2_simps [simp]:
  "cat2 (Some x) (Some y) = Some (x @ y)" "cat2 None b = None" "cat2 a None = None"
  by (simp_all add: cat2_def split: option.split)

lemma cat2_Some_iff: "cat2 a b = Some z \<longleftrightarrow> (\<exists>x y. a = Some x \<and> b = Some y \<and> z = x @ y)"
  by (auto simp: cat2_def split: option.splits)

definition quoted :: "bytes option \<Rightarrow> bytes" where
  "quoted s = (case s of None \<Rightarrow> [0x22, 0x22] | Some s \<Rightarrow> 0x22 # concat (map escape_text (cstr s)) @ [0x22])"

definition comma_text :: "bool \<Rightarrow> bytes" where
  "comma_text fmt = (if fmt then [0x2C, 0x20] else [0x2C])"

definition colon_text :: "bool \<Rightarrow> bytes" where
  "colon_text fmt = (if fmt then [0x3A, 0x09] else [0x3A])"

definition open_text :: "bool \<Rightarrow> bytes" where
  "open_text fmt = (if fmt then [0x7B, 0x0A] else [0x7B])"

definition tabs_text :: "bool \<Rightarrow> nat \<Rightarrow> bytes" where
  "tabs_text fmt d = (if fmt then replicate d 0x09 else [])"

definition end_text :: "bool \<Rightarrow> bool \<Rightarrow> bytes" where
  "end_text fmt sep = (if sep then [0x2C] else []) @ (if fmt then [0x0A] else [])"

fun json_text :: "bool \<Rightarrow> nat \<Rightarrow> cJSON \<Rightarrow> bytes option"
  and elements_text :: "bool \<Rightarrow> nat \<Rightarrow> cJSON list \<Rightarrow> bytes option"
  and members_text :: "bool \<Rightarrow> nat \<Rightarrow> cJSON list \<Rightarrow> bytes option" where
  "json_text fmt d (Item n cs) =
     (if kind_of n = cJSON_NULL then Some (ascii ''null'')
      else if kind_of n = cJSON_False then Some (ascii ''false'')
      else if kind_of n = cJSON_True then Some (ascii ''true'')
      else if kind_of n = cJSON_Number
           then (if 25 < length (number_text n) then None else Some (number_text n))
      else if kind_of n = cJSON_Raw then map_option cstr (cj_valuestring n)
      else if kind_of n = cJSON_String then Some (quoted (cj_valuestring n))
      else if kind_of n = cJSON_Array
           then (if CJSON_NESTING_LIMIT \<le> d then None
                 else cat2 (Some [0x5B]) (cat2 (elements_text fmt (d + 1) cs) (Some [0x5D])))
      else if kind_of n = cJSON_Object
           then (if CJSON_NESTING_LIMIT \<le> d then None
                 else cat2 (Some (open_text fmt))
                   (cat2 (members_text fmt (d + 1) cs) (Some (tabs_text fmt d @ [0x7D]))))
      else None)"
| "elements_text fmt d [] = Some []"
| "elements_text fmt d (c # cs) =
     cat2 (json_text fmt d c)
       (if cs \<noteq> [] then cat2 (Some (comma_text fmt)) (elements_text fmt d cs) else elements_text fmt d cs)"
| "members_text fmt d [] = Some []"
| "members_text fmt d (c # cs) =
     cat2 (Some (tabs_text fmt d)) (cat2 (Some (quoted (cj_string (node c)))) (cat2 (Some (colon_text fmt))
       (cat2 (json_text fmt d c) (cat2 (Some (end_text fmt (cs \<noteq> []))) (members_text fmt d cs)))))"

section \<open>The space in the buffer\<close>

definition int_max :: nat where "int_max = nat INT_MAX"

definition pt_wf :: "printbuffer \<Rightarrow> bool" where
  "pt_wf p \<longleftrightarrow> (\<exists>buf. pt_buffer p = Some buf \<and> pt_length p \<le> length buf \<and> pt_length p \<le> int_max \<and>
     (\<not> pt_noalloc p \<longrightarrow> length buf = pt_length p) \<and>
     (pt_offset p < pt_length p \<or>
      pt_length p = 0 \<and> pt_offset p = 0 \<and> (pt_noalloc p \<or> ha_realloc (pt_hooks p))))"

definition text_at :: "printbuffer \<Rightarrow> bytes" where
  "text_at p = take (pt_offset p) (the (pt_buffer p))"

definition cap :: "printbuffer \<Rightarrow> nat" where
  "cap p = (if pt_noalloc p then pt_length p else int_max)"

text \<open>Whether a step that needs n bytes behind the offset succeeds, as far as it is determined.\<close>

definition succeeds_iff :: "printbuffer \<Rightarrow> nat \<Rightarrow> bool \<Rightarrow> bool" where
  "succeeds_iff p n ok \<longleftrightarrow>
     (pt_noalloc p \<longrightarrow> (ok \<longleftrightarrow> pt_offset p + n \<le> cap p)) \<and>
     (hooks_good (pt_hooks p) \<longrightarrow> pt_offset p + n \<le> cap p \<longrightarrow> ok)"

definition failed :: "printbuffer \<Rightarrow> printbuffer \<Rightarrow> bool" where
  "failed p p' \<longleftrightarrow> pt_noalloc p' = pt_noalloc p \<and> (pt_noalloc p \<longrightarrow> pt_buffer p' \<noteq> None) \<and>
     hooks_step (if pt_buffer p' = None then - 1 else 0) (pt_hooks p) (pt_hooks p')"

definition kept :: "printbuffer \<Rightarrow> printbuffer \<Rightarrow> bool" where
  "kept p p' \<longleftrightarrow> pt_wf p' \<and> pt_noalloc p' = pt_noalloc p \<and> pt_format p' = pt_format p \<and>
     pt_length p \<le> pt_length p' \<and>
     (pt_noalloc p \<longrightarrow> pt_length p' = pt_length p \<and> length (the (pt_buffer p')) = length (the (pt_buffer p))) \<and>
     hooks_step 0 (pt_hooks p) (pt_hooks p')"

text \<open>
  \<open>appends k D p t\<close>: the step writes the text t at the offset and moves the offset behind it; it needs
  k bytes more than the text, and leaves the depth D. \<open>prints p t\<close>: the step writes the text
  and a terminator, and the offset is somewhere in the text.
\<close>

definition appends :: "nat \<Rightarrow> nat \<Rightarrow> printbuffer \<Rightarrow> bytes option \<Rightarrow> printed \<Rightarrow> bool" where
  "appends k D p t r \<longleftrightarrow> (case r of (ok, p') \<Rightarrow>
     (if ok
      then t \<noteq> None \<and> kept p p' \<and> pt_depth p' = D \<and> pt_offset p' = pt_offset p + length (the t) \<and>
        text_at p' = text_at p @ the t
      else failed p p') \<and>
     (t \<noteq> None \<longrightarrow> succeeds_iff p (length (the t) + k) ok))"

definition prints :: "printbuffer \<Rightarrow> bytes option \<Rightarrow> printed \<Rightarrow> bool" where
  "prints p t r \<longleftrightarrow> (case r of (ok, p') \<Rightarrow>
     (if ok
      then t \<noteq> None \<and> kept p p' \<and> pt_depth p' = pt_depth p \<and> pt_offset p \<le> pt_offset p' \<and>
        pt_offset p' \<le> pt_offset p + length (the t) \<and>
        (\<exists>rest. the (pt_buffer p') = text_at p @ the t @ 0 # rest) \<and>
        pt_offset p + length (the t) < pt_length p'
      else failed p p') \<and>
     (t \<noteq> None \<longrightarrow> succeeds_iff p (length (the t) + 2) ok))"

lemma kept_trans: "kept p q \<Longrightarrow> kept q r \<Longrightarrow> kept p r"
  using hooks_step_trans [of 0 "pt_hooks p" "pt_hooks q" 0 "pt_hooks r"] by (auto simp: kept_def)

lemma failed_trans: "kept p q \<Longrightarrow> failed q r \<Longrightarrow> failed p r"
  using hooks_step_trans [of 0 "pt_hooks p" "pt_hooks q"] by (auto simp: kept_def failed_def)

lemma succeeds_trans:
  assumes "kept p q" "pt_offset q = pt_offset p + l" "succeeds_iff q n ok"
  shows "succeeds_iff p (l + n) ok"
  using assms hooks_good_step [of "pt_hooks p" 0 "pt_hooks q"]
  by (auto simp: kept_def succeeds_iff_def cap_def add.assoc)

lemma succeeds_weaken: "succeeds_iff p n False \<Longrightarrow> n \<le> m \<Longrightarrow> succeeds_iff p m False"
  by (auto simp: succeeds_iff_def)

lemma andthen_appends:
  assumes m: "\<exists>r. m = Inr r \<and> appends k1 D1 p a r"
    and f: "\<And>p1. pt_wf p1 \<Longrightarrow> pt_depth p1 = D1 \<Longrightarrow> pt_format p1 = pt_format p \<Longrightarrow>
      \<exists>r. f p1 = Inr r \<and> appends k2 D2 p1 b r"
    and k: "\<And>x y. a = Some x \<Longrightarrow> b = Some y \<Longrightarrow> k1 \<le> length y + k2"
  shows "\<exists>r. andthen m f = Inr r \<and> appends k2 D2 p (cat2 a b) r"
proof -
  obtain ok p1 where m1: "m = Inr (ok, p1)" "appends k1 D1 p a (ok, p1)" using m by auto
  show ?thesis
  proof (cases ok)
    case False
    have "succeeds_iff p (length (the (cat2 a b)) + k2) False" if c: "cat2 a b \<noteq> None"
    proof -
      obtain x y where xy: "a = Some x" "b = Some y" using c by (cases a; cases b) auto
      then show ?thesis using m1(2) False k [OF xy]
        by (auto simp: appends_def intro: succeeds_weaken)
    qed
    then show ?thesis using m1 False by (auto simp: andthen_def appends_def)
  next
    case True
    then have k1: "kept p p1" "pt_depth p1 = D1" "a \<noteq> None" "pt_offset p1 = pt_offset p + length (the a)"
      "text_at p1 = text_at p @ the a"
      using m1(2) by (auto simp: appends_def)
    obtain ok2 p2 where f2: "f p1 = Inr (ok2, p2)" "appends k2 D2 p1 b (ok2, p2)"
      using f [of p1] k1 by (auto simp: kept_def)
    have "appends k2 D2 p (cat2 a b) (ok2, p2)"
    proof (cases b)
      case None
      then show ?thesis using f2(2) k1 failed_trans [OF k1(1)] by (auto simp: appends_def)
    next
      case (Some y)
      obtain x where x: "a = Some x" using k1(3) by auto
      have s: "succeeds_iff p (length x + (length y + k2)) ok2"
        by (rule succeeds_trans [OF k1(1)]) (use k1 x f2(2) Some in \<open>auto simp: appends_def\<close>)
      show ?thesis
        using f2(2) k1 x Some kept_trans [OF k1(1)] failed_trans [OF k1(1)] s
        by (auto simp: appends_def add.assoc split: if_splits)
    qed
    then show ?thesis using m1(1) True f2(1) by (simp add: andthen_def)
  qed
qed

text \<open>The last step may restore the depth E that the text began with.\<close>

lemma andthen_prints:
  assumes m: "\<exists>r. m = Inr r \<and> appends k1 D1 p a r"
    and f: "\<And>p1. pt_wf p1 \<Longrightarrow> pt_depth p1 = D1 \<Longrightarrow> pt_format p1 = pt_format p \<Longrightarrow>
      \<exists>r. f p1 = Inr r \<and> prints (p1\<lparr>pt_depth := E\<rparr>) b r"
    and k: "\<And>x y. a = Some x \<Longrightarrow> b = Some y \<Longrightarrow> k1 \<le> length y + 2"
    and p': "p' = p\<lparr>pt_depth := E\<rparr>"
  shows "\<exists>r. andthen m f = Inr r \<and> prints p' (cat2 a b) r"
proof -
  obtain ok p1 where m1: "m = Inr (ok, p1)" "appends k1 D1 p a (ok, p1)" using m by auto
  show ?thesis
  proof (cases ok)
    case False
    have "succeeds_iff p' (length (the (cat2 a b)) + 2) False" if c: "cat2 a b \<noteq> None"
    proof -
      obtain x y where xy: "a = Some x" "b = Some y" using c by (cases a; cases b) auto
      then have "succeeds_iff p (length (the (cat2 a b)) + 2) False" using m1(2) False k [OF xy]
        by (auto simp: appends_def intro: succeeds_weaken)
      then show ?thesis by (auto simp: p' succeeds_iff_def cap_def split: if_splits)
    qed
    moreover have "failed p' p1" using m1(2) False by (simp add: appends_def p' failed_def)
    ultimately show ?thesis using m1 False by (auto simp: andthen_def prints_def)
  next
    case True
    then have k1: "kept p p1" "pt_depth p1 = D1" "a \<noteq> None" "pt_offset p1 = pt_offset p + length (the a)"
      "text_at p1 = text_at p @ the a"
      using m1(2) by (auto simp: appends_def)
    let ?p1 = "p1\<lparr>pt_depth := E\<rparr>"
    have k1': "kept p' ?p1" "pt_offset ?p1 = pt_offset p' + length (the a)" "text_at ?p1 = text_at p' @ the a"
      using k1 by (auto simp: kept_def pt_wf_def text_at_def p')
    obtain ok2 p2 where f2: "f p1 = Inr (ok2, p2)" "prints ?p1 b (ok2, p2)"
      using f [of p1] k1 by (auto simp: kept_def)
    have "prints p' (cat2 a b) (ok2, p2)"
    proof (cases b)
      case None
      then show ?thesis using f2(2) k1 failed_trans [OF k1'(1)] by (auto simp: prints_def)
    next
      case (Some y)
      obtain x where x: "a = Some x" using k1(3) by auto
      have s: "succeeds_iff p' (length x + (length y + 2)) ok2"
        by (rule succeeds_trans [OF k1'(1)]) (use k1' x f2(2) Some in \<open>auto simp: prints_def\<close>)
      show ?thesis
        using f2(2) k1' x Some kept_trans [OF k1'(1)] failed_trans [OF k1'(1)] s p'
        by (auto simp: prints_def add.assoc split: if_splits)
    qed
    then show ?thesis using m1(1) True f2(1) by (simp add: andthen_def)
  qed
qed

section \<open>The basic steps\<close>

definition same :: "printbuffer \<Rightarrow> printbuffer \<Rightarrow> bool" where
  "same p p' \<longleftrightarrow> pt_offset p' = pt_offset p \<and> pt_depth p' = pt_depth p \<and> pt_noalloc p' = pt_noalloc p \<and>
     pt_format p' = pt_format p"

definition reserved :: "printbuffer \<Rightarrow> nat \<Rightarrow> printbuffer \<Rightarrow> bool" where
  "reserved p n p' \<longleftrightarrow> (\<exists>buf. pt_buffer p' = Some buf \<and> pt_length p' \<le> length buf \<and> pt_length p' \<le> int_max \<and>
     (\<not> pt_noalloc p \<longrightarrow> length buf = pt_length p') \<and> pt_offset p + n + 1 \<le> pt_length p' \<and>
     take (pt_offset p) buf = text_at p \<and> pt_length p \<le> pt_length p' \<and>
     (pt_noalloc p \<longrightarrow> pt_length p' = pt_length p \<and> length buf = length (the (pt_buffer p))) \<and>
     hooks_step 0 (pt_hooks p) (pt_hooks p'))"

definition new_size :: "nat \<Rightarrow> nat" where
  "new_size n = (if int_max div 2 < n then int_max else n * 2)"

lemma new_size_bounds: "n \<le> int_max \<Longrightarrow> n \<le> new_size n \<and> new_size n \<le> int_max"
  by (auto simp: new_size_def)

lemma grow_ok:
  assumes p: "pt_wf p" "pt_buffer p = Some buf" "\<not> pt_noalloc p" and n: "pt_length p < n"
  shows "\<exists>r H. grow p buf n = Inr (r, H) \<and> hooks_step 0 (pt_hooks p) H \<and>
    (case r of None \<Rightarrow> \<not> hooks_good (pt_hooks p)
     | Some new \<Rightarrow> length new = n \<and> take (pt_offset p) new = text_at p)"
proof (cases "ha_realloc (pt_hooks p)")
  case True
  obtain r H where r: "hook_reallocate buf n (pt_hooks p) = (r, H)" by fastforce
  have l: "length buf = pt_length p" "pt_offset p \<le> pt_length p" using p by (auto simp: pt_wf_def)
  have "take (pt_offset p) new = text_at p" if "take (length buf) new = take n buf" for new
  proof -
    have "take (pt_offset p) (take (length buf) new) = take (pt_offset p) (take n buf)" using that by simp
    then show ?thesis using l n p(2) by (simp add: text_at_def min_def split: if_splits)
  qed
  then show ?thesis using hook_reallocate_step [OF r] r True
    by (auto simp: grow_def split: option.splits)
next
  case False
  obtain r H where r: "hook_allocate (pt_hooks p) = (r, H)" by fastforce
  note st = hook_allocate_step [OF r]
  have l: "length buf = pt_length p" "pt_offset p < pt_length p" using p False by (auto simp: pt_wf_def)
  show ?thesis
  proof (cases r)
    case False
    then show ?thesis using \<open>\<not> ha_realloc (pt_hooks p)\<close> r st hooks_good_allocate [of "pt_hooks p"]
      by (auto simp: grow_def)
  next
    case True
    have "hooks_step 0 (pt_hooks p) (hook_deallocate H)"
      using hooks_step_trans [OF st hook_deallocate_step] True by simp
    moreover have "length (slice 0 (pt_offset p + 1) buf) \<le> n" using l n by simp
    ultimately show ?thesis using False r True l n p(2)
      by (simp add: grow_def write_at_def text_at_def slice_def)
  qed
qed

lemma ensure_ok:
  assumes p: "pt_wf p"
  shows "\<exists>ok p'. ensure p n = Inr (ok, p') \<and> (if ok then same p p' \<and> reserved p n p' else failed p p') \<and>
    succeeds_iff p (n + 1) ok"
proof -
  obtain buf where buf: "pt_buffer p = Some buf" "pt_length p \<le> length buf" "pt_length p \<le> int_max"
    "\<not> pt_noalloc p \<longrightarrow> length buf = pt_length p"
    "\<not> (0 < pt_length p \<and> pt_length p \<le> pt_offset p)"
    using p by (auto simp: pt_wf_def)
  let ?n = "n + (pt_offset p + 1)"
  have f: "failed p p" using buf by (simp add: failed_def)
  note st = ensure_def buf(1) option.case if_not_P [OF buf(5)] Let_def int_max_def [symmetric]
    new_size_def [symmetric]
  consider "int_max < n" | "n \<le> int_max" "?n \<le> pt_length p" | "n \<le> int_max" "pt_length p < ?n" "pt_noalloc p"
    | "n \<le> int_max" "int_max < ?n" "\<not> pt_noalloc p"
    | "n \<le> int_max" "pt_length p < ?n" "?n \<le> int_max" "\<not> pt_noalloc p" by linarith
  then show ?thesis
  proof cases
    case 1
    then show ?thesis unfolding st using f buf(3)
      by (auto simp: succeeds_iff_def cap_def)
  next
    case 2
    have "reserved p n p" using buf 2 by (auto simp: reserved_def text_at_def)
    then show ?thesis unfolding st using 2
      by (auto simp: succeeds_iff_def cap_def same_def)
  next
    case 3
    then show ?thesis unfolding st using f by (auto simp: succeeds_iff_def cap_def)
  next
    case 4
    then show ?thesis unfolding st using f buf(3) by (auto simp: succeeds_iff_def cap_def)
  next
    case 5
    note sz = new_size_bounds [OF 5(3)]
    have "pt_length p < new_size ?n" using sz 5(2) by simp
    from grow_ok [OF p buf(1) 5(4) this] obtain r H where
      g: "grow p buf (new_size ?n) = Inr (r, H)" "hooks_step 0 (pt_hooks p) H"
      "case r of None \<Rightarrow> \<not> hooks_good (pt_hooks p)
       | Some new \<Rightarrow> length new = new_size ?n \<and> take (pt_offset p) new = text_at p" by blast
    have eq: "ensure p n = Inr (case r of
        None \<Rightarrow> (False, p\<lparr>pt_buffer := None, pt_length := 0, pt_hooks := hook_deallocate H\<rparr>)
      | Some new \<Rightarrow> (True, p\<lparr>pt_buffer := Some new, pt_length := new_size ?n, pt_hooks := H\<rparr>))"
      unfolding st using 5 g(1) by (auto split: option.split)
    show ?thesis
    proof (cases r)
      case None
      have "hooks_step (- 1) (pt_hooks p) (hook_deallocate H)"
        using hooks_step_trans [OF g(2) hook_deallocate_step] by simp
      then show ?thesis unfolding eq using None g(3) 5(4) by (auto simp: failed_def succeeds_iff_def)
    next
      case (Some new)
      have "reserved p n (p\<lparr>pt_buffer := Some new, pt_length := new_size ?n, pt_hooks := H\<rparr>)"
        using Some g sz 5 by (auto simp: reserved_def)
      then show ?thesis unfolding eq using Some 5 by (auto simp: same_def succeeds_iff_def cap_def)
    qed
  qed
qed

lemma put_ok:
  assumes "reserved p n q" "same p q" "length bs \<le> n + 1" "i = 0"
  shows "\<exists>rest. put i bs q = Inr (q\<lparr>pt_buffer := Some (text_at p @ bs @ rest)\<rparr>) \<and>
    length (text_at p @ bs @ rest) = length (the (pt_buffer q))"
proof -
  obtain buf where buf: "pt_buffer q = Some buf" "pt_length q \<le> length buf"
    "pt_offset p + n + 1 \<le> pt_length q" "take (pt_offset p) buf = text_at p"
    using assms(1) by (auto simp: reserved_def)
  let ?rest = "drop (pt_offset p + length bs) buf"
  have o: "pt_offset q = pt_offset p" using assms(2) by (simp add: same_def)
  have fit: "pt_offset p + length bs \<le> length buf" using buf assms(3) by simp
  have "put i bs q = Inr (q\<lparr>pt_buffer := Some (text_at p @ bs @ ?rest)\<rparr>)"
    using buf o fit assms(4) by (simp add: put_def write_at_def)
  moreover have "length (text_at p @ bs @ ?rest) = length buf"
    using fit by (simp add: buf(4) [symmetric])
  ultimately show ?thesis using buf(1) by auto
qed

lemma length_text_at: "pt_wf p \<Longrightarrow> length (text_at p) = pt_offset p"
  by (auto simp: pt_wf_def text_at_def)

text \<open>Reserve, write, move the offset.\<close>

lemma reserve_appends:
  assumes p: "pt_wf p" and n: "length bs \<le> n" "length bs + length z \<le> n + 1" "k = n + 1 - length bs"
    and f: "\<And>q. pt_depth q = pt_depth p \<Longrightarrow> pt_format q = pt_format p \<Longrightarrow>
      f q = (True, q\<lparr>pt_offset := pt_offset q + length bs, pt_depth := D\<rparr>)"
    and w: "\<And>q. pt_depth q = pt_depth p \<Longrightarrow> pt_format q = pt_format p \<Longrightarrow> w q = bs @ z"
  shows "\<exists>r. andthen (ensure p n) (\<lambda>q. bindE (put 0 (w q) q) (\<lambda>q. Inr (f q))) = Inr r \<and>
    appends k D p (Some bs) r"
proof -
  obtain ok q where e: "ensure p n = Inr (ok, q)" "if ok then same p q \<and> reserved p n q else failed p q"
    "succeeds_iff p (n + 1) ok" using ensure_ok [OF p] by blast
  have k: "length bs + k = n + 1" using n by simp
  show ?thesis
  proof (cases ok)
    case False
    then show ?thesis using e k by (simp add: andthen_def appends_def)
  next
    case True
    then have q: "same p q" "reserved p n q" using e by auto
    obtain rest where put: "put 0 (bs @ z) q = Inr (q\<lparr>pt_buffer := Some (text_at p @ (bs @ z) @ rest)\<rparr>)"
      "length (text_at p @ (bs @ z) @ rest) = length (the (pt_buffer q))"
      using put_ok [OF q(2) q(1), of "bs @ z" 0] n by auto
    have wq: "w q = bs @ z" by (rule w) (use q in \<open>simp_all add: same_def\<close>)
    let ?q = "q\<lparr>pt_buffer := Some (text_at p @ (bs @ z) @ rest), pt_offset := pt_offset q + length bs, pt_depth := D\<rparr>"
    have l: "length (text_at p) = pt_offset p" by (rule length_text_at [OF p])
    have "kept p ?q" using q put(2) n(1) by (auto simp: kept_def pt_wf_def reserved_def same_def)
    moreover have "text_at ?q = text_at p @ bs"
      unfolding text_at_def [of ?q] using q l by (simp add: same_def)
    moreover have "f (q\<lparr>pt_buffer := Some (text_at p @ (bs @ z) @ rest)\<rparr>) = (True, ?q)"
      by (subst f) (use q in \<open>simp_all add: same_def\<close>)
    ultimately show ?thesis using e True k q put(1)
      by (simp add: andthen_def appends_def same_def wq)
  qed
qed

text \<open>Reserve and write a text with its terminator; w is the code that writes.\<close>

lemma reserve_prints_by:
  assumes p: "pt_wf p" and D: "p' = p\<lparr>pt_depth := D\<rparr>" and n: "n = length bs + 1" "c \<le> length bs"
    and f: "\<And>q. pt_depth q = pt_depth p \<Longrightarrow> pt_format q = pt_format p \<Longrightarrow>
      f q = (True, q\<lparr>pt_offset := pt_offset q + c, pt_depth := D\<rparr>)"
    and w: "\<And>q. reserved p n q \<Longrightarrow> same p q \<Longrightarrow>
      \<exists>rest. w q = Inr (q\<lparr>pt_buffer := Some (text_at p @ (bs @ [0]) @ rest)\<rparr>) \<and>
        length (text_at p @ (bs @ [0]) @ rest) = length (the (pt_buffer q))"
  shows "\<exists>r. andthen (ensure p n) (\<lambda>q. bindE (w q) (\<lambda>q. Inr (f q))) = Inr r \<and>
    prints p' (Some bs) r"
proof -
  obtain ok q where e: "ensure p n = Inr (ok, q)" "if ok then same p q \<and> reserved p n q else failed p q"
    "succeeds_iff p (n + 1) ok" using ensure_ok [OF p] by blast
  have s: "succeeds_iff p' (length bs + 2) ok" using e(3) n(1) by (simp add: D succeeds_iff_def cap_def)
  have ff: "failed p' x" if "failed p x" for x using that by (simp add: D failed_def)
  show ?thesis
  proof (cases ok)
    case False
    then show ?thesis using e s ff by (simp add: andthen_def prints_def)
  next
    case True
    then have q: "same p q" "reserved p n q" using e by auto
    obtain rest where put: "w q = Inr (q\<lparr>pt_buffer := Some (text_at p @ (bs @ [0]) @ rest)\<rparr>)"
      "length (text_at p @ (bs @ [0]) @ rest) = length (the (pt_buffer q))"
      using w [OF q(2) q(1)] by auto
    let ?q = "q\<lparr>pt_buffer := Some (text_at p @ (bs @ [0]) @ rest), pt_offset := pt_offset q + c, pt_depth := D\<rparr>"
    have l: "length (text_at p) = pt_offset p" by (rule length_text_at [OF p])
    have "kept p' ?q" using q put(2) n by (auto simp: kept_def pt_wf_def reserved_def same_def D)
    moreover have "f (q\<lparr>pt_buffer := Some (text_at p @ (bs @ [0]) @ rest)\<rparr>) = (True, ?q)"
      by (subst f) (use q in \<open>simp_all add: same_def\<close>)
    moreover have "text_at p' = text_at p" by (simp add: D text_at_def)
    ultimately have "prints p' (Some bs) (True, ?q)"
      using s True q n l by (auto simp: prints_def same_def reserved_def D)
    then show ?thesis using e True put(1) \<open>f _ = _\<close> by (simp add: andthen_def)
  qed
qed

lemma reserve_prints:
  assumes "pt_wf p" "p' = p\<lparr>pt_depth := D\<rparr>" "n = length bs + 1" "c \<le> length bs"
    and "\<And>q. pt_depth q = pt_depth p \<Longrightarrow> pt_format q = pt_format p \<Longrightarrow>
      f q = (True, q\<lparr>pt_offset := pt_offset q + c, pt_depth := D\<rparr>)"
    and w: "\<And>q. pt_depth q = pt_depth p \<Longrightarrow> pt_format q = pt_format p \<Longrightarrow> w q = bs @ [0]"
  shows "\<exists>r. andthen (ensure p n) (\<lambda>q. bindE (put 0 (w q) q) (\<lambda>q. Inr (f q))) = Inr r \<and>
    prints p' (Some bs) r"
proof (rule reserve_prints_by [OF assms(1-5)])
  fix q assume q: "reserved p n q" "same p q"
  then have "w q = bs @ [0]" using w by (simp add: same_def)
  then show "\<exists>rest. put 0 (w q) q = Inr (q\<lparr>pt_buffer := Some (text_at p @ (bs @ [0]) @ rest)\<rparr>) \<and>
      length (text_at p @ (bs @ [0]) @ rest) = length (the (pt_buffer q))"
    using put_ok [OF q, of "bs @ [0]" 0] assms(3) by simp
qed

text \<open>\<open>update_offset\<close> moves the offset behind the text.\<close>

lemma update_offset_text:
  assumes q: "prints p (Some x) (True, q)" and z: "c_string x" and p: "pt_wf p"
  shows "update_offset q = Inr (q\<lparr>pt_offset := pt_offset p + length x\<rparr>) \<and>
    (\<exists>rest. pt_buffer q = Some (text_at p @ x @ 0 # rest))"
proof -
  obtain rest where x: "kept p q" "pt_offset p \<le> pt_offset q" "pt_offset q \<le> pt_offset p + length x"
    "the (pt_buffer q) = text_at p @ x @ 0 # rest"
    using q by (auto simp: prints_def)
  then have b: "pt_buffer q = Some (text_at p @ x @ 0 # rest)" by (auto simp: kept_def pt_wf_def)
  have l: "length (text_at p) = pt_offset p" by (rule length_text_at [OF p])
  define d where "d = pt_offset q - pt_offset p"
  have od: "pt_offset q = pt_offset p + d" "d \<le> length x" using x(2,3) by (simp_all add: d_def)
  have dr: "drop (pt_offset q) (text_at p @ x @ 0 # rest) = drop d x @ 0 # rest"
    using od l by simp
  have "c_string (drop d x)" using z by (auto simp: c_string_def dest: in_set_dropD)
  then have "rd_cstr (drop d x @ 0 # rest) = Inr (drop d x)" by (simp add: rd_cstr_def)
  then show ?thesis using b dr od by (simp add: update_offset_def add_offset_def)
qed

lemma update_appends:
  assumes "\<exists>r. pr p = Inr r \<and> prints p t r" and z: "\<And>x. t = Some x \<Longrightarrow> c_string x"
    and p: "pt_wf p"
  shows "\<exists>r. then_update pr p = Inr r \<and> appends 2 (pt_depth p) p t r"
proof -
  obtain ok q where q: "pr p = Inr (ok, q)" "prints p t (ok, q)" using assms(1) by auto
  show ?thesis
  proof (cases ok)
    case False
    then show ?thesis using q by (simp add: then_update_def andthen_def prints_def appends_def)
  next
    case True
    then obtain x where x: "t = Some x" "kept p q" "pt_depth q = pt_depth p"
      "pt_offset p + length x < pt_length q"
      using q(2) by (auto simp: prints_def)
    obtain rest where u: "update_offset q = Inr (q\<lparr>pt_offset := pt_offset p + length x\<rparr>)"
      "pt_buffer q = Some (text_at p @ x @ 0 # rest)"
      using update_offset_text [of p x q, OF _ z [OF x(1)] p] q(2) True x(1) by auto
    let ?q = "q\<lparr>pt_offset := pt_offset p + length x\<rparr>"
    have "kept p ?q" using x(2,4) u(2) by (auto simp: kept_def pt_wf_def)
    moreover have "text_at ?q = text_at p @ x"
      unfolding text_at_def [of ?q] using u(2) length_text_at [OF p] by simp
    ultimately show ?thesis using q u x(1,3) True
      by (simp add: then_update_def andthen_def prints_def appends_def)
  qed
qed

section \<open>Numbers, strings and literals\<close>

lemma print_literal_ok: "pt_wf p \<Longrightarrow> \<exists>r. print_literal w p = Inr r \<and> prints p (Some w) r"
  unfolding print_literal_def
  by (rule reserve_prints [where c = 0 and D = "pt_depth p"]) simp_all

lemma failed_refl: "pt_wf p \<Longrightarrow> failed p p"
  by (auto simp: failed_def pt_wf_def)

lemma prints_None: "pt_wf p \<Longrightarrow> prints p None (False, p)"
  by (simp add: prints_def failed_refl)

lemma print_number_ok:
  "pt_wf p \<Longrightarrow> \<exists>r. print_number n p = Inr r \<and>
     prints p (if 25 < length (number_text n) then None else Some (number_text n)) r"
proof -
  assume p: "pt_wf p"
  have m: "map (\<lambda>c. if c = get_decimal_point then 0x2E else c) s = s" for s
    by (induction s) (simp_all add: get_decimal_point_def)
  have "\<exists>r. andthen (ensure p (length s + 1)) (\<lambda>q. bindE (put 0 (s @ [0]) q)
      (\<lambda>q. Inr (True, add_offset (length s) q))) = Inr r \<and> prints p (Some s) r" for s
    by (rule reserve_prints [where c = "length s" and D = "pt_depth p"]) (use p in \<open>simp_all add: add_offset_def\<close>)
  then show ?thesis using prints_None [OF p] by (auto simp: print_number_def Let_def m)
qed

lemma escape_plain: "escape_extra c = 0 \<Longrightarrow> escape_text c = [c]"
  by (auto simp: escape_extra_def escape_text_def word_le_nat_alt word_less_nat_alt split: if_splits)

lemma length_escape: "length (escape_text c) = Suc (escape_extra c)"
  by (auto simp: escape_extra_def escape_text_def word_le_nat_alt word_less_nat_alt)

lemma length_escapes: "length (concat (map escape_text s)) = length s + sum_list (map escape_extra s)"
  by (induction s) (simp_all add: length_escape)

lemma escapes_plain: "sum_list (map escape_extra s) = 0 \<Longrightarrow> concat (map escape_text s) = s"
  by (induction s) (simp_all add: escape_plain)

lemma put_buffer:
  "pt_buffer q = Some buf \<Longrightarrow> pt_offset q + i + length bs \<le> length buf \<Longrightarrow>
   put i bs q = Inr (q\<lparr>pt_buffer := Some (write_at buf (pt_offset q + i) bs)\<rparr>)"
  by (simp add: put_def)

lemma escape_loop_ok:
  "pt_buffer q = Some buf \<Longrightarrow> pt_offset q + i + length (concat (map escape_text s)) + 1 \<le> length buf \<Longrightarrow>
   \<exists>buf'. escape_loop s i q = Inr (q\<lparr>pt_buffer := Some buf'\<rparr>) \<and> length buf' = length buf \<and>
     take (pt_offset q + i + length (concat (map escape_text s))) buf' =
     take (pt_offset q + i) buf @ concat (map escape_text s)"
proof (induction s arbitrary: i q buf)
  case Nil
  then show ?case by (intro exI [of _ buf]) (cases q, simp)
next
  case (Cons c s)
  let ?e = "escape_text c" and ?z = "sprintf_end c" and ?o = "pt_offset q + i"
  have z: "length ?z \<le> 1" by (simp add: sprintf_end_def)
  have l: "?o + length (?e @ ?z) \<le> length buf" using Cons.prems(2) z by simp
  let ?b = "write_at buf ?o (?e @ ?z)"
  have put: "put i (?e @ ?z) q = Inr (q\<lparr>pt_buffer := Some ?b\<rparr>)"
    using put_buffer [OF Cons.prems(1), of i "?e @ ?z"] l by simp
  have t: "take (?o + length ?e) ?b = take ?o buf @ ?e" using l by (simp add: write_at_def)
  have "\<exists>buf'. escape_loop s (i + length ?e) (q\<lparr>pt_buffer := Some ?b\<rparr>) =
      Inr (q\<lparr>pt_buffer := Some ?b\<rparr>\<lparr>pt_buffer := Some buf'\<rparr>) \<and> length buf' = length ?b \<and>
      take (pt_offset (q\<lparr>pt_buffer := Some ?b\<rparr>) + (i + length ?e) + length (concat (map escape_text s))) buf' =
      take (pt_offset (q\<lparr>pt_buffer := Some ?b\<rparr>) + (i + length ?e)) ?b @ concat (map escape_text s)"
    by (rule Cons.IH) (use Cons.prems(2) l in simp_all)
  then show ?case using put t l by (auto simp: add.assoc)
qed

lemma bindE_assoc: "bindE (bindE m f) g = bindE m (\<lambda>x. bindE (f x) g)"
  by (cases m) simp_all

lemma escaped_writes:
  assumes q: "reserved p n q" "same p q" and n: "n = length t + 3" "t = concat (map escape_text s)"
    and p: "pt_wf p"
  shows "\<exists>rest. bindE (put 0 [0x22] q) (\<lambda>q. bindE (escape_loop s 1 q) (put (length t + 1) [0x22, 0])) =
      Inr (q\<lparr>pt_buffer := Some (text_at p @ ((0x22 # t @ [0x22]) @ [0]) @ rest)\<rparr>) \<and>
    length (text_at p @ ((0x22 # t @ [0x22]) @ [0]) @ rest) = length (the (pt_buffer q))"
proof -
  obtain buf where buf: "pt_buffer q = Some buf" "pt_length q \<le> length buf"
    "pt_offset p + n + 1 \<le> pt_length q" "take (pt_offset p) buf = text_at p"
    using q(1) by (auto simp: reserved_def)
  have o: "pt_offset q = pt_offset p" using q(2) by (simp add: same_def)
  let ?o = "pt_offset p"
  have l: "?o + length t + 4 \<le> length buf" using buf n by simp
  let ?b1 = "write_at buf ?o [0x22]"
  have p1: "put 0 [0x22] q = Inr (q\<lparr>pt_buffer := Some ?b1\<rparr>)"
    using put_buffer [OF buf(1), of 0 "[0x22]"] l o by simp
  have t1: "take (?o + 1) ?b1 = text_at p @ [0x22]" "length ?b1 = length buf"
    using l buf(4) length_text_at [OF p] by (simp_all add: write_at_def)
  obtain b2 where b2: "escape_loop s 1 (q\<lparr>pt_buffer := Some ?b1\<rparr>) = Inr (q\<lparr>pt_buffer := Some b2\<rparr>)"
    "length b2 = length buf" "take (?o + 1 + length t) b2 = text_at p @ [0x22] @ t"
    using escape_loop_ok [of "q\<lparr>pt_buffer := Some ?b1\<rparr>" ?b1 1 s] l o t1 n(2) by auto
  have p2: "put (length t + 1) [0x22, 0] (q\<lparr>pt_buffer := Some b2\<rparr>) =
      Inr (q\<lparr>pt_buffer := Some (write_at b2 (?o + (length t + 1)) [0x22, 0])\<rparr>)"
    using put_buffer [of "q\<lparr>pt_buffer := Some b2\<rparr>" b2 "length t + 1" "[0x22, 0]"] l o b2(2) by simp
  have w: "write_at b2 (?o + (length t + 1)) [0x22, 0] =
      text_at p @ ((0x22 # t @ [0x22]) @ [0]) @ drop (?o + (length t + 1) + 2) b2"
    using b2(3) by (simp add: write_at_def add.commute add.left_commute)
  have len: "length (write_at b2 (?o + (length t + 1)) [0x22, 0]) = length buf"
    using l b2(2) by simp
  show ?thesis
    by (rule exI [of _ "drop (?o + (length t + 1) + 2) b2"])
      (use p1 b2(1) p2 w len buf(1) in simp)
qed

lemma print_string_ok: "pt_wf p \<Longrightarrow> \<exists>r. print_string_ptr s p = Inr r \<and> prints p (Some (quoted s)) r"
proof (cases s)
  case None
  assume p: "pt_wf p"
  have "\<exists>r. andthen (ensure p 3) (\<lambda>q. bindE (put 0 ([0x22, 0x22] @ [0]) q) (\<lambda>q. Inr (True, q))) = Inr r \<and>
      prints p (Some [0x22, 0x22]) r"
    by (rule reserve_prints [where c = 0 and D = "pt_depth p"]) (use p in simp_all)
  then show ?thesis using None by (simp add: print_string_ptr_def quoted_def)
next
  case (Some u)
  assume p: "pt_wf p"
  define t where "t = concat (map escape_text (cstr u))"
  define x where "x = sum_list (map escape_extra (cstr u))"
  have l: "length (cstr u) + x = length t" by (simp add: t_def x_def length_escapes)
  show ?thesis
  proof (cases "x = 0")
    case True
    then have "t = cstr u" unfolding t_def x_def by (rule escapes_plain)
    have "\<exists>r. andthen (ensure p (length t + 3)) (\<lambda>q. bindE (put 0 ((0x22 # t @ [0x22]) @ [0]) q)
        (\<lambda>q. Inr (True, q))) = Inr r \<and> prints p (Some (0x22 # t @ [0x22])) r"
      by (rule reserve_prints [where c = 0 and D = "pt_depth p"]) (use p in simp_all)
    then show ?thesis
      unfolding print_string_ptr_def Some option.case Let_def x_def [symmetric] l if_P [OF True] quoted_def
        t_def [symmetric] by (simp add: \<open>t = cstr u\<close> [symmetric])
  next
    case False
    have "\<exists>r. andthen (ensure p (length t + 3)) (\<lambda>q. bindE
          (bindE (put 0 [0x22] q) (\<lambda>q. bindE (escape_loop (cstr u) 1 q) (put (length t + 1) [0x22, 0])))
          (\<lambda>q. Inr (True, q))) = Inr r \<and> prints p (Some (0x22 # t @ [0x22])) r"
      by (rule reserve_prints_by [where c = 0 and D = "pt_depth p"])
        (use p escaped_writes [OF _ _ _ t_def p] in \<open>simp_all del: append_Cons\<close>)
    then show ?thesis
      unfolding print_string_ptr_def Some option.case Let_def x_def [symmetric] l if_not_P [OF False] quoted_def
        t_def [symmetric] bindE_assoc .
  qed
qed

section \<open>Arrays, objects and values\<close>

lemma print_comma_ok:
  "pt_wf p \<Longrightarrow> \<exists>r. print_comma p = Inr r \<and> appends 2 (pt_depth p) p (Some (comma_text (pt_format p))) r"
  unfolding print_comma_def Let_def comma_text_def
  by (rule reserve_appends [where z = "[0]"]) (simp_all add: add_offset_def)

lemma print_colon_ok:
  "pt_wf p \<Longrightarrow> \<exists>r. print_colon p = Inr r \<and> appends 1 (pt_depth p) p (Some (colon_text (pt_format p))) r"
  unfolding print_colon_def Let_def colon_text_def
  by (rule reserve_appends [where z = "[]"]) (simp_all add: add_offset_def)

lemma print_member_end_ok:
  "pt_wf p \<Longrightarrow> \<exists>r. print_member_end sep p = Inr r \<and>
     appends 2 (pt_depth p) p (Some (end_text (pt_format p) sep)) r"
  unfolding print_member_end_def Let_def end_text_def
  by (rule reserve_appends [where z = "[0]"]) (simp_all add: add_offset_def)

lemma nothing_appends:
  "pt_wf p \<Longrightarrow> appends 0 (pt_depth p) p (Some []) (True, p)"
  by (auto simp: appends_def kept_def succeeds_iff_def cap_def pt_wf_def)

lemma print_tabs_ok:
  "pt_wf p \<Longrightarrow> \<exists>r. print_tabs p = Inr r \<and>
     appends (if pt_format p then 1 else 0) (pt_depth p) p (Some (tabs_text (pt_format p) (pt_depth p))) r"
proof (cases "pt_format p")
  case True
  assume p: "pt_wf p"
  have "\<exists>r. andthen (ensure p (pt_depth p)) (\<lambda>q. bindE (put 0 (replicate (pt_depth q) 0x09) q)
      (\<lambda>q. Inr (True, add_offset (pt_depth q) q))) = Inr r \<and>
      appends 1 (pt_depth p) p (Some (replicate (pt_depth p) 0x09)) r"
    by (rule reserve_appends [where z = "[]"]) (use p in \<open>simp_all add: add_offset_def\<close>)
  then show ?thesis using True by (simp add: print_tabs_def tabs_text_def)
qed (use nothing_appends in \<open>auto simp: print_tabs_def tabs_text_def\<close>)

definition prints_text :: "cJSON \<Rightarrow> bool" where
  "prints_text t \<longleftrightarrow> (\<forall>p. pt_wf p \<longrightarrow>
     (\<exists>r. print_value t p = Inr r \<and> prints p (json_text (pt_format p) (pt_depth p) t) r) \<and>
     (\<forall>fmt d x. json_text fmt d t = Some x \<longrightarrow> c_string x))"

lemma then_update_value:
  "prints_text c \<Longrightarrow> pt_wf p \<Longrightarrow>
   \<exists>r. then_update (print_value c) p = Inr r \<and> appends 2 (pt_depth p) p (json_text (pt_format p) (pt_depth p) c) r"
  by (rule update_appends) (auto simp: prints_text_def)

lemma c_string_Cons [simp]: "c_string (c # y) \<longleftrightarrow> c \<noteq> 0 \<and> c_string y"
  by (auto simp: c_string_def)

lemma c_string_Nil [simp]: "c_string []"
  by (simp add: c_string_def)

lemma hex_digit_nonzero: "d < 16 \<Longrightarrow> hex_digit d \<noteq> 0"
  unfolding hex_digit_def by (rule of_nat_u8_nonzero) auto

lemma c_string_quoted [simp]: "c_string (quoted s)"
proof -
  have "c_string (escape_text c)" if "c \<noteq> 0" for c
  proof -
    have "unat c div 16 < 16" using unat_lt_u8 [of c] by linarith
    then show ?thesis using that hex_digit_nonzero [of "unat c div 16"] hex_digit_nonzero [of "unat c mod 16"]
      by (simp add: escape_text_def)
  qed
  then have "c_string (concat (map escape_text u))" if "0 \<notin> set u" for u
    using that by (induction u) auto
  from this [of "cstr (the s)"] show ?thesis
    using c_string_cstr [of "the s"] by (cases s) (auto simp: quoted_def c_string_def)
qed

lemma then_update_name:
  "pt_wf p \<Longrightarrow> \<exists>r. then_update (print_string_ptr s) p = Inr r \<and> appends 2 (pt_depth p) p (Some (quoted s)) r"
  by (rule update_appends [OF print_string_ok]) auto

lemma andthen_return:
  "\<exists>r. m = Inr r \<and> appends k D p a r \<Longrightarrow> (\<And>q. f q = Inr (True, q)) \<Longrightarrow>
   \<exists>r. andthen m f = Inr r \<and> appends k D p a r"
  by (auto simp: andthen_def split: if_splits)

lemma print_elements_ok:
  "\<forall>c \<in> set cs. prints_text c \<Longrightarrow> pt_wf p \<Longrightarrow>
   \<exists>r. print_elements cs p = Inr r \<and>
     appends (if cs = [] then 0 else 2) (pt_depth p) p (elements_text (pt_format p) (pt_depth p) cs) r"
proof (induction cs arbitrary: p)
  case Nil
  then show ?case using nothing_appends by auto
next
  case (Cons c cs)
  note v = then_update_value [OF _ Cons.prems(2), of c]
  show ?case
  proof (cases "cs = []")
    case True
    have "\<exists>r. andthen (then_update (print_value c) p) (\<lambda>p. Inr (True, p)) = Inr r \<and>
        appends 2 (pt_depth p) p (json_text (pt_format p) (pt_depth p) c) r"
      by (rule andthen_return [OF v]) (use Cons.prems(1) in simp_all)
    then show ?thesis using True by (cases "json_text (pt_format p) (pt_depth p) c") auto
  next
    case False
    have "\<exists>r. andthen (then_update (print_value c) p) (\<lambda>p. andthen (print_comma p) (print_elements cs)) = Inr r \<and>
        appends 2 (pt_depth p) p (cat2 (json_text (pt_format p) (pt_depth p) c)
          (cat2 (Some (comma_text (pt_format p))) (elements_text (pt_format p) (pt_depth p) cs))) r"
    proof (rule andthen_appends [OF v])
      fix p1 assume p1: "pt_wf p1" "pt_depth p1 = pt_depth p" "pt_format p1 = pt_format p"
      show "\<exists>r. andthen (print_comma p1) (print_elements cs) = Inr r \<and>
          appends 2 (pt_depth p) p1
            (cat2 (Some (comma_text (pt_format p))) (elements_text (pt_format p) (pt_depth p) cs)) r"
      proof (rule andthen_appends)
        show "\<exists>r. print_comma p1 = Inr r \<and> appends 2 (pt_depth p) p1 (Some (comma_text (pt_format p))) r"
          using print_comma_ok [OF p1(1)] p1 by simp
        show "\<exists>r. print_elements cs p2 = Inr r \<and>
            appends 2 (pt_depth p) p2 (elements_text (pt_format p) (pt_depth p) cs) r"
          if "pt_wf p2" "pt_depth p2 = pt_depth p" "pt_format p2 = pt_format p1" for p2
          using Cons.IH [of p2] Cons.prems that p1 False by simp
      qed simp
    qed (use Cons.prems in auto)
    then show ?thesis using False by simp
  qed
qed

lemma print_members_ok:
  "\<forall>c \<in> set cs. prints_text c \<Longrightarrow> pt_wf p \<Longrightarrow>
   \<exists>r. print_members cs p = Inr r \<and>
     appends (if cs = [] then 0 else 2) (pt_depth p) p (members_text (pt_format p) (pt_depth p) cs) r"
proof (induction cs arbitrary: p)
  case Nil
  then show ?case using nothing_appends by auto
next
  case (Cons c cs)
  have c: "prints_text c" using Cons.prems by simp
  let ?f = "pt_format p" and ?d = "pt_depth p"
  have rest: "\<exists>r. print_members cs p5 = Inr r \<and>
      appends (if cs = [] then 0 else 2) ?d p5 (members_text ?f ?d cs) r"
    if "pt_wf p5" "pt_depth p5 = ?d" "pt_format p5 = ?f" for p5
    using Cons.IH [of p5] Cons.prems that by simp
  have e: "\<exists>r. andthen (print_member_end (cs \<noteq> []) p4) (print_members cs) = Inr r \<and>
      appends 2 ?d p4 (cat2 (Some (end_text ?f (cs \<noteq> []))) (members_text ?f ?d cs)) r"
    if "pt_wf p4" "pt_depth p4 = ?d" "pt_format p4 = ?f" for p4
  proof (cases "cs = []")
    case True
    have "\<exists>r. andthen (print_member_end False p4) (print_members []) = Inr r \<and>
        appends 2 ?d p4 (Some (end_text ?f False)) r"
      by (rule andthen_return) (use print_member_end_ok [OF that(1), of False] that in simp_all)
    then show ?thesis using True by simp
  next
    case False
    have "\<exists>r. print_member_end (cs \<noteq> []) p4 = Inr r \<and> appends 2 ?d p4 (Some (end_text ?f (cs \<noteq> []))) r"
      using print_member_end_ok [OF that(1)] that by simp
    then show ?thesis
      by (rule andthen_appends) (use rest that False in simp_all)
  qed
  have v: "\<exists>r. andthen (then_update (print_value c) p3) (\<lambda>p. andthen (print_member_end (cs \<noteq> []) p) (print_members cs)) = Inr r \<and>
      appends 2 ?d p3 (cat2 (json_text ?f ?d c) (cat2 (Some (end_text ?f (cs \<noteq> []))) (members_text ?f ?d cs))) r"
    if "pt_wf p3" "pt_depth p3 = ?d" "pt_format p3 = ?f" for p3
  proof -
    have "\<exists>r. then_update (print_value c) p3 = Inr r \<and> appends 2 ?d p3 (json_text ?f ?d c) r"
      using then_update_value [OF c that(1)] that by simp
    then show ?thesis by (rule andthen_appends) (use e that in simp_all)
  qed
  have co: "\<exists>r. andthen (print_colon p2) (\<lambda>p. andthen (then_update (print_value c) p)
        (\<lambda>p. andthen (print_member_end (cs \<noteq> []) p) (print_members cs))) = Inr r \<and>
      appends 2 ?d p2 (cat2 (Some (colon_text ?f)) (cat2 (json_text ?f ?d c)
        (cat2 (Some (end_text ?f (cs \<noteq> []))) (members_text ?f ?d cs)))) r"
    if "pt_wf p2" "pt_depth p2 = ?d" "pt_format p2 = ?f" for p2
  proof -
    have "\<exists>r. print_colon p2 = Inr r \<and> appends 1 ?d p2 (Some (colon_text ?f)) r"
      using print_colon_ok [OF that(1)] that by simp
    then show ?thesis by (rule andthen_appends) (use v that in simp_all)
  qed
  have na: "\<exists>r. andthen (then_update (print_string_ptr (cj_string (node c))) p1)
        (\<lambda>p. andthen (print_colon p) (\<lambda>p. andthen (then_update (print_value c) p)
        (\<lambda>p. andthen (print_member_end (cs \<noteq> []) p) (print_members cs)))) = Inr r \<and>
      appends 2 ?d p1 (cat2 (Some (quoted (cj_string (node c)))) (cat2 (Some (colon_text ?f))
        (cat2 (json_text ?f ?d c) (cat2 (Some (end_text ?f (cs \<noteq> []))) (members_text ?f ?d cs))))) r"
    if "pt_wf p1" "pt_depth p1 = ?d" "pt_format p1 = ?f" for p1
  proof -
    have "\<exists>r. then_update (print_string_ptr (cj_string (node c))) p1 = Inr r \<and>
        appends 2 ?d p1 (Some (quoted (cj_string (node c)))) r"
      using then_update_name [OF that(1)] that by simp
    then show ?thesis by (rule andthen_appends) (use co that in simp_all)
  qed
  have "\<exists>r. print_members (c # cs) p = Inr r \<and> appends 2 ?d p (members_text ?f ?d (c # cs)) r"
    unfolding print_members.simps members_text.simps
    by (rule andthen_appends [OF print_tabs_ok [OF Cons.prems(2)]]) (use na in \<open>simp_all split: if_splits\<close>)
  then show ?case by simp
qed

lemma andthen_put:
  "andthen (andthen m (\<lambda>q. bindE (w q) (\<lambda>q. Inr (True, h q)))) g = andthen m (\<lambda>q. bindE (w q) (\<lambda>q. g (h q)))"
  unfolding andthen_def bindE_assoc
  by (cases m) (auto split: prod.split simp: bindE_assoc)

lemma close_bracket:
  assumes "pt_wf p" "pt_depth p = E + 1" "bs @ [0] = w" "n = length bs + 1"
  shows "\<exists>r. andthen (ensure p n) (\<lambda>q. bindE (put 0 w q)
      (\<lambda>q. Inr (True, q\<lparr>pt_depth := pt_depth q - 1\<rparr>))) = Inr r \<and> prints (p\<lparr>pt_depth := E\<rparr>) (Some bs) r"
  by (rule reserve_prints [where c = 0]) (use assms in simp_all)

lemma print_array_ok:
  assumes cs: "\<forall>c \<in> set cs. prints_text c" and p: "pt_wf p"
  shows "\<exists>r. print_array (print_elements cs) p = Inr r \<and>
    prints p (if CJSON_NESTING_LIMIT \<le> pt_depth p then None
      else cat2 (Some [0x5B]) (cat2 (elements_text (pt_format p) (pt_depth p + 1) cs) (Some [0x5D]))) r"
proof (cases "CJSON_NESTING_LIMIT \<le> pt_depth p")
  case True
  then show ?thesis using prints_None [OF p] by (simp add: print_array_def)
next
  case False
  let ?open = "andthen (ensure p 1) (\<lambda>q. bindE (put 0 ([0x5B] @ []) q)
    (\<lambda>q. Inr (True, add_offset 1 (q\<lparr>pt_depth := pt_depth q + 1\<rparr>))))"
  let ?close = "\<lambda>p. andthen (ensure p 2) (\<lambda>q. bindE (put 0 [0x5D, 0] q)
    (\<lambda>q. Inr (True, q\<lparr>pt_depth := pt_depth q - 1\<rparr>)))"
  have opened: "\<exists>r. ?open = Inr r \<and> appends 1 (pt_depth p + 1) p (Some [0x5B]) r"
    by (rule reserve_appends [where z = "[]"]) (use p in \<open>simp_all add: add_offset_def\<close>)
  have rest: "\<exists>r. andthen (print_elements cs p1) ?close = Inr r \<and>
      prints (p1\<lparr>pt_depth := pt_depth p\<rparr>) (cat2 (elements_text (pt_format p) (pt_depth p + 1) cs) (Some [0x5D])) r"
    if p1: "pt_wf p1" "pt_depth p1 = pt_depth p + 1" "pt_format p1 = pt_format p" for p1
  proof (rule andthen_prints)
    show "\<exists>r. print_elements cs p1 = Inr r \<and> appends (if cs = [] then 0 else 2) (pt_depth p + 1) p1
        (elements_text (pt_format p) (pt_depth p + 1) cs) r"
      using print_elements_ok [OF cs p1(1)] p1 by simp
    show "\<exists>r. ?close p2 = Inr r \<and> prints (p2\<lparr>pt_depth := pt_depth p\<rparr>) (Some [0x5D]) r"
      if "pt_wf p2" "pt_depth p2 = pt_depth p + 1" for p2
      by (rule close_bracket) (use that in simp_all)
  qed simp_all
  have "\<exists>r. andthen ?open (\<lambda>p. andthen (print_elements cs p) ?close) = Inr r \<and>
      prints p (cat2 (Some [0x5B]) (cat2 (elements_text (pt_format p) (pt_depth p + 1) cs) (Some [0x5D]))) r"
    by (rule andthen_prints [OF opened rest]) (auto simp: cat2_Some_iff)
  then show ?thesis using False by (simp add: print_array_def andthen_put)
qed

lemma print_object_ok:
  assumes cs: "\<forall>c \<in> set cs. prints_text c" and p: "pt_wf p"
  shows "\<exists>r. print_object (print_members cs) p = Inr r \<and>
    prints p (if CJSON_NESTING_LIMIT \<le> pt_depth p then None
      else cat2 (Some (open_text (pt_format p))) (cat2 (members_text (pt_format p) (pt_depth p + 1) cs)
        (Some (tabs_text (pt_format p) (pt_depth p) @ [0x7D])))) r"
proof (cases "CJSON_NESTING_LIMIT \<le> pt_depth p")
  case True
  then show ?thesis using prints_None [OF p] by (simp add: print_object_def)
next
  case False
  let ?l = "if pt_format p then 2 else 1 :: nat" and ?f = "pt_format p"
  let ?open = "andthen (ensure p (?l + 1)) (\<lambda>q. bindE (put 0 (if pt_format q then [0x7B, 0x0A] else [0x7B]) q)
    (\<lambda>q. Inr (True, add_offset ?l (q\<lparr>pt_depth := pt_depth q + 1\<rparr>))))"
  let ?close = "\<lambda>p. andthen (ensure p (if pt_format p then pt_depth p + 1 else 2))
    (\<lambda>q. bindE (put 0 ((if pt_format q then replicate (pt_depth q - 1) 0x09 else []) @ [0x7D, 0]) q)
    (\<lambda>q. Inr (True, q\<lparr>pt_depth := pt_depth q - 1\<rparr>)))"
  have opened: "\<exists>r. ?open = Inr r \<and> appends 2 (pt_depth p + 1) p (Some (open_text ?f)) r"
    by (rule reserve_appends [where z = "[]"]) (use p in \<open>simp_all add: add_offset_def open_text_def\<close>)
  have rest: "\<exists>r. andthen (print_members cs p1) ?close = Inr r \<and>
      prints (p1\<lparr>pt_depth := pt_depth p\<rparr>)
        (cat2 (members_text ?f (pt_depth p + 1) cs) (Some (tabs_text ?f (pt_depth p) @ [0x7D]))) r"
    if p1: "pt_wf p1" "pt_depth p1 = pt_depth p + 1" "pt_format p1 = ?f" for p1
  proof (rule andthen_prints)
    show "\<exists>r. print_members cs p1 = Inr r \<and> appends (if cs = [] then 0 else 2) (pt_depth p + 1) p1
        (members_text ?f (pt_depth p + 1) cs) r"
      using print_members_ok [OF cs p1(1)] p1 by simp
    show "\<exists>r. ?close p2 = Inr r \<and> prints (p2\<lparr>pt_depth := pt_depth p\<rparr>) (Some (tabs_text ?f (pt_depth p) @ [0x7D])) r"
      if "pt_wf p2" "pt_depth p2 = pt_depth p + 1" "pt_format p2 = pt_format p1" for p2
      by (rule reserve_prints [where c = 0]) (use that p1 in \<open>simp_all add: tabs_text_def\<close>)
  qed simp_all
  have "\<exists>r. andthen ?open (\<lambda>p. andthen (print_members cs p) ?close) = Inr r \<and>
      prints p (cat2 (Some (open_text ?f)) (cat2 (members_text ?f (pt_depth p + 1) cs)
        (Some (tabs_text ?f (pt_depth p) @ [0x7D])))) r"
    by (rule andthen_prints [OF opened rest]) (auto simp: cat2_Some_iff)
  then show ?thesis using False by (simp add: print_object_def andthen_put Let_def del: if_split_eq1)
qed

section \<open>Terminators\<close>

lemma c_string_ascii_words [simp]:
  "c_string (ascii ''null'')" "c_string (ascii ''true'')" "c_string (ascii ''false'')"
  by (simp_all add: ascii_def)

lemma c_string_take [simp]: "c_string s \<Longrightarrow> c_string (take n s)"
  by (auto simp: c_string_def dest: in_set_takeD)

lemma c_string_drop [simp]: "c_string s \<Longrightarrow> c_string (drop n s)"
  by (auto simp: c_string_def dest: in_set_dropD)

lemma c_string_replicate [simp]: "c_string (replicate n c) \<longleftrightarrow> n = 0 \<or> c \<noteq> 0"
  by (auto simp: c_string_def)

lemma c_string_fraction [simp]: "c_string ip \<Longrightarrow> c_string fp \<Longrightarrow> c_string (with_fraction ip fp)"
  by (auto simp: with_fraction_def strip_zeros_def Let_def c_string_def dest: set_dropWhileD)

lemma c_string_exponent [simp]: "c_string (exponent_text x)"
  using c_string_dec by (simp add: exponent_text_def Let_def)

lemma c_string_fmt_g [simp]: "c_string (fmt_g P x)"
  by (simp add: fmt_g_def Let_def)

lemma c_string_number [simp]: "c_string (number_text n)"
  by (auto simp: number_text_def Let_def split: double.split prod.split)

lemma c_string_pieces [simp]:
  "c_string (comma_text f)" "c_string (colon_text f)" "c_string (open_text f)" "c_string (tabs_text f d)"
  "c_string (end_text f sep)"
  by (simp_all add: comma_text_def colon_text_def open_text_def tabs_text_def end_text_def)

lemma c_string_text:
  "json_text fmt d t = Some x \<Longrightarrow> c_string x"
  "elements_text fmt d cs = Some x \<Longrightarrow> c_string x"
  "members_text fmt d cs = Some x \<Longrightarrow> c_string x"
proof (induction fmt d t and fmt d cs and fmt d cs arbitrary: x and x and x
    rule: json_text_elements_text_members_text.induct)
  case (1 fmt d n cs)
  then show ?case by (auto simp: cat2_Some_iff split: if_splits)
next
  case (3 fmt d c cs)
  then show ?case by (auto simp: cat2_Some_iff split: if_splits)
next
  case (5 fmt d c cs)
  then show ?case by (auto simp: cat2_Some_iff)
qed simp_all

section \<open>The printer writes the text\<close>

lemma print_value_text: "prints_text t"
proof (induction t)
  case (Item n cs)
  then have cs: "\<forall>c \<in> set cs. prints_text c" by blast
  have "\<exists>r. print_value (Item n cs) p = Inr r \<and> prints p (json_text (pt_format p) (pt_depth p) (Item n cs)) r"
    if p: "pt_wf p" for p
    unfolding print_value.simps json_text.simps
    using print_literal_ok [OF p] print_number_ok [OF p] print_string_ok [OF p] print_array_ok [OF cs p]
      print_object_ok [OF cs p] prints_None [OF p]
    by (cases "cj_valuestring n") (simp_all only: if_split option.case option.map if_True if_False simp_thms, auto)
  then show ?case unfolding prints_text_def using c_string_text(1) by blast
qed

section \<open>The entry points\<close>

text \<open>
  For every allocator: the text with its terminator in a block of its own, or NULL and every
  block freed.
\<close>

definition print_result :: "bool \<Rightarrow> cJSON \<Rightarrow> hooks \<Rightarrow> bytes option \<times> hooks \<Rightarrow> bool" where
  "print_result fmt t H r \<longleftrightarrow> (case r of (out, H') \<Rightarrow>
     (case out of
        None \<Rightarrow> hooks_step 0 H H'
      | Some s \<Rightarrow> hooks_step 1 H H' \<and> (\<exists>x. json_text fmt 0 t = Some x \<and> s = x @ [0])) \<and>
     (hooks_good H \<longrightarrow> (\<forall>x. json_text fmt 0 t = Some x \<longrightarrow> length x + 2 \<le> int_max \<longrightarrow> out \<noteq> None)))"

lemma print_fail_result:
  assumes "hooks_step (if pt_buffer p = None then 0 else 1) H (pt_hooks p)"
    and "\<And>x. hooks_good H \<Longrightarrow> json_text fmt 0 t = Some x \<Longrightarrow> \<not> length x + 2 \<le> int_max"
  shows "print_result fmt t H (print_fail p)"
  using assms hooks_step_trans [OF assms(1) hook_deallocate_step]
  by (auto simp: print_result_def print_fail_def split: if_splits)

lemma print_finish_ok:
  assumes b: "pt_buffer p = Some (x @ 0 # rest)" "pt_offset p = length x"
    "length (x @ 0 # rest) = pt_length p"
    and h: "hooks_step 1 H (pt_hooks p)" and t: "json_text fmt 0 t = Some x"
  shows "\<exists>r. print_finish p = Inr r \<and> print_result fmt t H r"
proof -
  have good: "hooks_good (pt_hooks p)" if "hooks_good H" using hooks_good_step [OF that h] .
  have fail: "print_result fmt t H (print_fail (p\<lparr>pt_hooks := H'\<rparr>))"
    if "hooks_step 0 (pt_hooks p) H'" "\<not> hooks_good (pt_hooks p)" for H'
    by (rule print_fail_result) (use hooks_step_trans [OF h that(1)] b that(2) good in auto)
  have fin: "print_result fmt t H (Some (x @ [0]), H')" if "hooks_step 0 (pt_hooks p) H'" for H'
    using hooks_step_trans [OF h that] t by (simp add: print_result_def)
  show ?thesis
  proof (cases "ha_realloc (pt_hooks p)")
    case True
    obtain r H' where r: "hook_reallocate (x @ 0 # rest) (length x + 1) (pt_hooks p) = (r, H')" by fastforce
    note st = hook_reallocate_step [OF r]
    show ?thesis
    proof (cases r)
      case None
      then show ?thesis using True r st b fail [of H'] by (simp add: print_finish_def)
    next
      case (Some new)
      have l: "length new = length x + 1" "take (length (x @ 0 # rest)) new = take (length x + 1) (x @ 0 # rest)"
        using st Some by simp_all
      then have "new = x @ [0]" by simp
      then show ?thesis using True r st b Some fin [of H'] by (simp add: print_finish_def)
    qed
  next
    case False
    obtain r H' where r: "hook_allocate (pt_hooks p) = (r, H')" by fastforce
    note st = hook_allocate_step [OF r]
    show ?thesis
    proof (cases r)
      case rF: False
      then have "\<not> hooks_good (pt_hooks p)" using hooks_good_allocate [of "pt_hooks p"] r by auto
      then show ?thesis using False r rF st b fail [of H'] by (simp add: print_finish_def)
    next
      case True
      have m: "min (pt_length p) (length x + 1) = length x + 1" using b by simp
      have s: "slice 0 (Suc (length x)) (x @ 0 # rest) = x @ [0]" by (simp add: slice_def)
      have "print_finish p = Inr (Some (x @ [0]), hook_deallocate H')"
        unfolding print_finish_def b option.case if_not_P [OF False] r prod.case m
        using True by (simp add: s write_at_def)
      moreover have "hooks_step 0 (pt_hooks p) (hook_deallocate H')"
        using hooks_step_trans [OF st hook_deallocate_step] True by simp
      ultimately show ?thesis using fin by simp
    qed
  qed
qed

lemma print_ok: "\<exists>r. print t fmt H0 = Inr r \<and> print_result fmt t H0 r"
proof -
  obtain r H where a: "hook_allocate H0 = (r, H)" by fastforce
  note st = hook_allocate_step [OF a]
  define p where "p = \<lparr>pt_buffer = (if r then Some (new_block H0 default_buffer_size) else None),
      pt_length = default_buffer_size, pt_offset = 0, pt_depth = 0, pt_noalloc = False, pt_format = fmt,
      pt_hooks = H\<rparr>"
  show ?thesis
  proof (cases r)
    case False
    then have "\<not> hooks_good H0" using hooks_good_allocate [of H0] a by auto
    then have "print_result fmt t H0 (print_fail p)"
      by (intro print_fail_result) (use False st in \<open>simp_all add: p_def\<close>)
    then show ?thesis using False a by (simp add: print_def p_def)
  next
    case True
    then have p: "pt_wf p" "pt_format p = fmt" "pt_depth p = 0" "pt_offset p = 0" "pt_hooks p = H" "\<not> pt_noalloc p"
      "text_at p = []"
      by (simp_all add: p_def pt_wf_def default_buffer_size_def int_max_def INT_MAX_def text_at_def)
    have good: "hooks_good H" if "hooks_good H0" using hooks_good_step [OF that st] .
    obtain ok q where pv: "print_value t p = Inr (ok, q)" "prints p (json_text fmt 0 t) (ok, q)"
      using print_value_text [of t] p by (auto simp: prints_text_def)
    have eq: "print t fmt H0 = (if \<not> ok then Inr (print_fail q) else bindE (update_offset q) print_finish)"
      unfolding print_def a prod.case p_def [symmetric] unfolding Let_def using True pv(1) by simp
    show ?thesis
    proof (cases ok)
      case False
      have "print_result fmt t H0 (print_fail q)"
      proof (rule print_fail_result)
        have "hooks_step (1 + (if pt_buffer q = None then - 1 else 0)) H0 (pt_hooks q)"
          by (rule hooks_step_trans [of 1 H0 H]) (use st True pv(2) False p in \<open>simp_all add: prints_def failed_def\<close>)
        then show "hooks_step (if pt_buffer q = None then 0 else 1) H0 (pt_hooks q)"
          by (cases "pt_buffer q") simp_all
        show "\<not> length x + 2 \<le> int_max" if "hooks_good H0" "json_text fmt 0 t = Some x" for x
          using pv(2) False that good p by (auto simp: prints_def succeeds_iff_def cap_def)
      qed
      then show ?thesis using eq False by simp
    next
      case ok: True
      then obtain x where x: "json_text fmt 0 t = Some x" "kept p q" using pv(2) by (auto simp: prints_def)
      have "c_string x" using c_string_text(1) [OF x(1)] .
      then obtain rest where u: "update_offset q = Inr (q\<lparr>pt_offset := length x\<rparr>)" "pt_buffer q = Some (x @ 0 # rest)"
        using update_offset_text [of p x q] pv(2) ok x(1) p by auto
      have len: "length (x @ 0 # rest) = pt_length q" using x(2) u(2) p(6) by (auto simp: kept_def pt_wf_def)
      have "hooks_step 1 H0 (pt_hooks q)"
        using hooks_step_trans [OF st, of 0 "pt_hooks q"] x(2) p True by (simp add: kept_def)
      then have "\<exists>r. print_finish (q\<lparr>pt_offset := length x\<rparr>) = Inr r \<and> print_result fmt t H0 r"
        by (intro print_finish_ok [where x = x and rest = rest]) (use u len x in simp_all)
      then show ?thesis using eq ok u(1) by simp
    qed
  qed
qed

text \<open>
  C13. \<open>cJSON_PrintUnformatted\<close> and \<open>cJSON_Print\<close> write the text of the tree: for every tree and
  every pattern of failing allocations they return without a fault; the string they return is the text
  with its terminator, in the only block that stays allocated; when they return NULL nothing
  stays allocated, and then the text does not exist, is longer than an int can count or an
  allocation failed.
\<close>

theorem cjson_print_refines:
  "\<exists>out H'. (if fmt then cJSON_Print t H else cJSON_PrintUnformatted t H) = Inr (out, H') \<and>
     (case out of
        None \<Rightarrow> ha_live H' = ha_live H \<and>
          (hooks_good H \<and> json_text fmt 0 t \<noteq> None \<longrightarrow> int_max < length (the (json_text fmt 0 t)) + 2)
      | Some s \<Rightarrow> ha_live H' = ha_live H + 1 \<and> (\<exists>x. json_text fmt 0 t = Some x \<and> s = x @ [0]))"
proof -
  obtain out H' where r: "print t fmt H = Inr (out, H')" "print_result fmt t H (out, H')"
    using print_ok [of t fmt H] by auto
  have e: "(if fmt then cJSON_Print t H else cJSON_PrintUnformatted t H) = print t fmt H"
    by (simp add: cJSON_Print_def cJSON_PrintUnformatted_def)
  show ?thesis unfolding e r(1) using r(2)
    by (cases out; cases "json_text fmt 0 t") (auto simp: print_result_def hooks_step_def)
qed

theorem cjson_print_refines_witness:
  "\<exists>H'. cJSON_PrintUnformatted (Item (zero_node\<lparr>cj_type := cJSON_NULL\<rparr>) [])
       \<lparr>ha_ok = \<lambda>_. True, ha_requests = 0, ha_live = 0, ha_realloc = True, ha_junk = \<lambda>_ _. 0\<rparr> =
     Inr (Some (ascii ''null'' @ [0]), H')"
proof -
  let ?t = "Item (zero_node\<lparr>cj_type := cJSON_NULL\<rparr>) []"
  have "json_text False 0 ?t = Some (ascii ''null'')" by (simp add: kind_of_def cjson_types)
  moreover have "\<not> int_max < length (ascii ''null'') + 2" by (simp add: int_max_def INT_MAX_def ascii_def)
  ultimately show ?thesis
    using cjson_print_refines [of False ?t
        "\<lparr>ha_ok = \<lambda>_. True, ha_requests = 0, ha_live = 0, ha_realloc = True, ha_junk = \<lambda>_ _. 0\<rparr>"]
    by (auto simp: hooks_good_def split: option.splits)
qed

text \<open>
  A buffer of the caller: \<open>cJSON_PrintPreallocated\<close> never writes outside the buffer, allocates
  nothing, and succeeds exactly when the tree has a text and the buffer is at least two bytes
  longer than it, that is one byte longer than the text with its terminator; the buffer then
  holds the text.
\<close>

lemma print_preallocated_exact:
  assumes "length buf \<le> int_max"
  shows "\<exists>ok buf' H'. cJSON_PrintPreallocated t (Some buf) (int (length buf)) fmt H = Inr (ok, Some buf', H') \<and>
    ha_live H' = ha_live H \<and>
    (ok \<longleftrightarrow> (\<exists>x. json_text fmt 0 t = Some x \<and> length x + 2 \<le> length buf)) \<and>
    (ok \<longrightarrow> json_text fmt 0 t = Some (cstr buf'))"
proof -
  define p where "p = \<lparr>pt_buffer = Some buf, pt_length = length buf, pt_offset = 0, pt_depth = 0,
    pt_noalloc = True, pt_format = fmt, pt_hooks = H\<rparr>"
  have p: "pt_wf p" "pt_format p = fmt" "pt_depth p = 0" "pt_offset p = 0" "pt_hooks p = H" "pt_noalloc p"
    "text_at p = []" "cap p = length buf"
    using assms by (auto simp: p_def pt_wf_def text_at_def cap_def)
  obtain ok q where pv: "print_value t p = Inr (ok, q)" "prints p (json_text fmt 0 t) (ok, q)"
    using print_value_text [of t] p by (auto simp: prints_text_def)
  have e: "cJSON_PrintPreallocated t (Some buf) (int (length buf)) fmt H = Inr (ok, pt_buffer q, pt_hooks q)"
    using pv(1) by (simp add: cJSON_PrintPreallocated_def p_def)
  have ok: "ok \<longleftrightarrow> (\<exists>x. json_text fmt 0 t = Some x \<and> length x + 2 \<le> length buf)"
    using pv(2) p by (cases "json_text fmt 0 t") (auto simp: prints_def succeeds_iff_def)
  obtain buf' where b: "pt_buffer q = Some buf'" "ha_live (pt_hooks q) = ha_live H"
    using pv(2) p by (cases ok) (auto simp: prints_def kept_def failed_def pt_wf_def hooks_step_def)
  have "json_text fmt 0 t = Some (cstr buf')" if ok1: ok
  proof -
    obtain x rest where x: "json_text fmt 0 t = Some x" "buf' = x @ 0 # rest"
      using pv(2) ok1 p b by (auto simp: prints_def)
    then show ?thesis using c_string_text(1) [OF x(1)] by simp
  qed
  then show ?thesis using e b ok
    by (intro exI [of _ ok] exI [of _ buf'] exI [of _ "pt_hooks q"] conjI) simp_all
qed

lemma print_preallocated_exact_instance:
  "\<exists>ok buf' H'. cJSON_PrintPreallocated (Item (zero_node\<lparr>cj_type := cJSON_NULL\<rparr>) []) (Some (replicate 6 0))
      (int (length (replicate 6 (0 :: u8)))) False
      \<lparr>ha_ok = \<lambda>_. False, ha_requests = 0, ha_live = 0, ha_realloc = True, ha_junk = \<lambda>_ _. 0\<rparr> =
      Inr (ok, Some buf', H') \<and> ok \<and> cstr buf' = ascii ''null''"
proof -
  let ?t = "Item (zero_node\<lparr>cj_type := cJSON_NULL\<rparr>) []"
  have "json_text False 0 ?t = Some (ascii ''null'')"
    by (simp add: kind_of_def cjson_types)
  moreover have "length (replicate 6 (0 :: u8)) \<le> int_max" by (simp add: int_max_def INT_MAX_def)
  ultimately show ?thesis
    using print_preallocated_exact [of "replicate 6 0" ?t False
        "\<lparr>ha_ok = \<lambda>_. False, ha_requests = 0, ha_live = 0, ha_realloc = True, ha_junk = \<lambda>_ _. 0\<rparr>"]
    by fastforce
qed

text \<open>
  \<open>cJSON_PrintBuffered\<close> accepts a buffer of no bytes. When the hooks have no \<open>reallocate\<close> (custom
  hooks), the first \<open>ensure\<close> copies \<open>offset + 1\<close> bytes of it: one byte behind its end.
\<close>

lemma print_buffered_zero_reads_outside:
  assumes "kind_of n = cJSON_NULL" "hooks_good H" "\<not> ha_realloc H"
  shows "cJSON_PrintBuffered (Item n cs) 0 fmt H = Inl OutOfBounds"
proof -
  obtain r H1 where a: "hook_allocate H = (r, H1)" by fastforce
  then have r: r using hooks_good_allocate [OF assms(2)] by auto
  note st = hook_allocate_step [OF a]
  have h1: "hooks_good H1" "\<not> ha_realloc H1" using hooks_good_step [OF assms(2) st] st assms(3)
    by (simp_all add: hooks_step_def)
  obtain H2 where a2: "hook_allocate H1 = (True, H2)" using hooks_good_allocate [OF h1(1)]
    by (cases "hook_allocate H1") auto
  show ?thesis using r h1(2) a a2 assms(1)
    by (simp add: cJSON_PrintBuffered_def print_literal_def ensure_def grow_def andthen_def INT_MAX_def
        Let_def rd_bytes_def new_block_def)
qed

end
