(* ===== verification/Cjson_Reads.thy ===== *)
theory Cjson_Reads
  imports Cjson_Safety Cjson_Text
begin

text \<open>
  The parser on text the printer wrote. \<open>json\<close> is the type of JSON values, \<open>tree\<close> the cJSON tree of a
  value; \<open>reads\<close> says what is left of the input, and there is one lemma per function of the parser: numbers,
  strings with their escapes, and the loops of arrays and objects, given that their elements round-trip.
\<close>

section \<open>Values\<close>

datatype json =
  JNull
| JBool bool
| JInt int
| JString bytes
| JArray "json list"
| JObject "(bytes \<times> json) list"

definition named :: "bytes option \<Rightarrow> cJSON_node" where
  "named nm = zero_node\<lparr>cj_string := nm\<rparr>"

fun tree :: "bytes option \<Rightarrow> json \<Rightarrow> cJSON" where
  "tree nm JNull = Item ((named nm)\<lparr>cj_type := cJSON_NULL\<rparr>) []"
| "tree nm (JBool b) =
     (if b then Item ((named nm)\<lparr>cj_type := cJSON_True, cj_valueint := 1\<rparr>) []
      else Item ((named nm)\<lparr>cj_type := cJSON_False\<rparr>) [])"
| "tree nm (JInt i) =
     Item ((named nm)\<lparr>cj_valuedouble := Fin (of_int i), cj_valueint := i, cj_type := cJSON_Number\<rparr>) []"
| "tree nm (JString s) = Item ((named nm)\<lparr>cj_type := cJSON_String, cj_valuestring := Some s\<rparr>) []"
| "tree nm (JArray js) = Item ((named nm)\<lparr>cj_type := cJSON_Array\<rparr>) (map (tree None) js)"
| "tree nm (JObject ms) = Item ((named nm)\<lparr>cj_type := cJSON_Object\<rparr>) (map (\<lambda>(k, j). tree (Some k) j) ms)"

lemma name_tree [simp]: "cj_string (node (tree nm j)) = nm"
  by (cases j) (simp_all add: named_def)

fun json_ok :: "json \<Rightarrow> bool" where
  "json_ok (JInt i) = int_range i"
| "json_ok (JString s) = c_string s"
| "json_ok (JArray js) = (\<forall>j \<in> set js. json_ok j)"
| "json_ok (JObject ms) = (\<forall>(k, j) \<in> set ms. c_string k \<and> json_ok j)"
| "json_ok _ = True"

text \<open>All strings of a value, names included.\<close>

fun strings_of :: "json \<Rightarrow> bytes set" where
  "strings_of (JString s) = {s}"
| "strings_of (JArray js) = (\<Union>j \<in> set js. strings_of j)"
| "strings_of (JObject ms) = (\<Union>m \<in> set ms. insert (fst m) (strings_of (snd m)))"
| "strings_of _ = {}"

section \<open>What is left of the input\<close>

text \<open>The parser is about to read s, and no allocation fails from now on.\<close>

definition reads :: "parse_buffer \<Rightarrow> bytes \<Rightarrow> bool" where
  "reads b s \<longleftrightarrow> pb_length b = length (pb_content b) \<and> pb_offset b \<le> pb_length b \<and>
     drop (pb_offset b) (pb_content b) = s \<and> pb_depth b \<le> CJSON_NESTING_LIMIT \<and> hooks_good (pb_hooks b)"

lemma reads_wf: "reads b s \<Longrightarrow> pb_wf b"
  by (simp add: reads_def pb_wf_def)

lemma reads_length: "reads b s \<Longrightarrow> pb_length b = pb_offset b + length s"
  by (auto simp: reads_def)

lemma reads_nth: "reads b s \<Longrightarrow> i < length s \<Longrightarrow> pb_content b ! (pb_offset b + i) = s ! i"
  by (auto simp: reads_def nth_drop)

lemma reads_advance: "reads b (s @ t) \<Longrightarrow> n = length s \<Longrightarrow> reads (advance n b) t"
proof -
  assume r: "reads b (s @ t)" and n: "n = length s"
  have "drop (pb_offset b + n) (pb_content b) = drop n (s @ t)"
    using r by (simp add: reads_def drop_drop [symmetric] add.commute)
  then show ?thesis using r reads_length [OF r] n by (simp add: reads_def)
qed

lemma reads_access: "reads b s \<Longrightarrow> can_access_at_index b i \<longleftrightarrow> i < length s"
  using reads_length [of b s] by (auto simp: can_access_at_index_def)

lemma reads_at: "reads b (c # s) \<Longrightarrow> at_offset b 0 = Inr c"
  using reads_nth [of b "c # s" 0] at_offset_ok [OF reads_wf] reads_access [of b "c # s" 0] by fastforce

lemma reads_next: "reads b (c # s) \<Longrightarrow> next_is b x = Inr (c = x)"
  using reads_nth [of b "c # s" 0] next_is_ok [OF reads_wf] reads_access [of b "c # s" 0] by fastforce

lemma reads_word: "reads b s \<Longrightarrow> next_word b w = Inr (take (length w) s = w)"
proof -
  assume r: "reads b s"
  have "slice (pb_offset b) (length w) (pb_content b) = take (length w) s"
    using r by (simp add: reads_def slice_def)
  moreover have "can_read b (length w)" if "take (length w) s = w"
    using that reads_length [OF r] by (metis can_read_def length_take min.cobounded1 nat_add_left_cancel_le)
  ultimately show ?thesis using next_word_ok [OF reads_wf [OF r]] by auto
qed

lemma reads_hooks: "reads b s \<Longrightarrow> hooks_step d (pb_hooks b) H \<Longrightarrow> reads (b\<lparr>pb_hooks := H\<rparr>) s"
  using hooks_good_step by (auto simp: reads_def)

lemma reads_skip:
  assumes r: "reads b (ws @ c # s)" and ws: "\<forall>x \<in> set ws. x \<le> 32" and c: "\<not> c \<le> 32"
  shows "buffer_skip_whitespace b = Inr (advance (length ws) b)" "reads (advance (length ws) b) (c # s)"
proof -
  have go: "skip_ws_from (pb_content b) (pb_length b) (pb_offset b + i) = Inr (pb_offset b + length ws)"
    if "i \<le> length ws" for i
    using that
  proof (induction "length ws - i" arbitrary: i)
    case 0
    have "pb_content b ! (pb_offset b + i) = c" "pb_offset b + i < length (pb_content b)"
      using reads_nth [OF r, of i] reads_length [OF r] r 0 by (auto simp: nth_append reads_def)
    then show ?case using 0 c r by (subst skip_ws_from.simps) (simp add: reads_def)
  next
    case (Suc k)
    have "pb_content b ! (pb_offset b + i) = ws ! i" "pb_offset b + i < length (pb_content b)"
      using reads_nth [OF r, of i] reads_length [OF r] r Suc by (auto simp: nth_append reads_def)
    moreover have "ws ! i \<le> 32" using ws Suc by simp
    ultimately show ?case using Suc.hyps(1) [of "Suc i"] Suc.hyps(2) Suc.prems r
      by (subst skip_ws_from.simps) (simp add: reads_def)
  qed
  have l: "pb_length b = pb_offset b + length ws + Suc (length s)" using reads_length [OF r] by simp
  show "buffer_skip_whitespace b = Inr (advance (length ws) b)"
    using go [of 0] l by (simp add: buffer_skip_whitespace_def can_access_at_index_def advance_def)
  show "reads (advance (length ws) b) (c # s)" using r by (rule reads_advance) simp
qed

lemma reads_skip0:
  "reads b (c # s) \<Longrightarrow> \<not> c \<le> 32 \<Longrightarrow> buffer_skip_whitespace b = Inr b"
  using reads_skip(1) [of b "[]" c s] by (simp add: advance_def)

lemma reads_step_back:
  "reads b s \<Longrightarrow> 0 < pb_offset b \<Longrightarrow> \<exists>z. reads (step_back b) (z # s)"
  by (auto simp: reads_def Cons_nth_drop_Suc [symmetric] intro!: exI [of _ "pb_content b ! (pb_offset b - 1)"])

section \<open>Numbers\<close>

lemma number_char_dec_int: "\<forall>c \<in> set (dec_int i). number_char c \<and> c \<noteq> 0x2E"
  using dec_digits not_sign by (auto simp: dec_int_def number_char_def)

lemma number_span_text:
  assumes r: "reads b (x @ c # s)" and x: "\<forall>c \<in> set x. number_char c \<and> c \<noteq> 0x2E" and c: "\<not> number_char c"
  shows "number_span (pb_content b) (pb_length b) (pb_offset b) 0 False = Inr (length x, False)"
proof -
  have "number_span (pb_content b) (pb_length b) (pb_offset b) i False = Inr (length x, False)"
    if "i \<le> length x" for i
    using that
  proof (induction "length x - i" arbitrary: i)
    case 0
    have "pb_content b ! (pb_offset b + i) = c" "pb_offset b + i < length (pb_content b)"
      using reads_nth [OF r, of i] reads_length [OF r] r 0 by (auto simp: nth_append reads_def)
    then show ?case using 0 c r by (subst number_span.simps) (simp add: reads_def)
  next
    case (Suc k)
    have n: "pb_content b ! (pb_offset b + i) = x ! i" "pb_offset b + i < length (pb_content b)"
      using reads_nth [OF r, of i] reads_length [OF r] r Suc by (auto simp: nth_append reads_def)
    moreover have "number_char (x ! i) \<and> x ! i \<noteq> 0x2E" using x Suc by simp
    ultimately show ?case using Suc.hyps(1) [of "Suc i"] Suc.hyps(2) Suc.prems r
      by (subst number_span.simps) (simp add: reads_def)
  qed
  then show ?thesis by simp
qed

lemma parse_number_text:
  assumes r: "reads b (dec_int i @ c # s)" and i: "int_range i" and c: "\<not> number_char c"
  shows "\<exists>b'. parse_number item b = Inr (True, Item (set_number (Fin (of_int i)) (node item)) (child item), b') \<and>
    reads b' (c # s) \<and> pb_depth b' = pb_depth b"
proof -
  obtain t H where H: "hook_allocate (pb_hooks b) = (t, H)" by fastforce
  have t using r hooks_good_allocate [of "pb_hooks b"] H by (simp add: reads_def)
  have "hooks_step 0 (pb_hooks b) (hook_deallocate H)"
    using hooks_step_trans [OF hook_allocate_step [OF H] hook_deallocate_step] \<open>t\<close> by simp
  from reads_hooks [OF r this] have r': "reads (b\<lparr>pb_hooks := hook_deallocate H\<rparr>) (dec_int i @ c # s)" .
  have sl: "rd_bytes (pb_content b) (pb_offset b) (length (dec_int i)) = Inr (dec_int i)"
    using r reads_length [OF r] by (simp add: rd_bytes_def reads_def slice_def)
  have "dec_int i \<noteq> []" by (simp add: dec_int_def)
  then show ?thesis
    using number_span_text [OF r number_char_dec_int c] H \<open>t\<close> sl strtod_dec_int [OF i] reads_advance [OF r' refl]
    by (simp add: parse_number_def)
qed

section \<open>Strings\<close>

lemma escape_cases:
  assumes "c \<noteq> 0"
  obtains (plain) "escape_extra c = 0" "escape_text c = [c]" "c \<noteq> 0x22" "c \<noteq> 0x5C"
  | (simple) y where "escape_extra c = 1" "escape_text c = [0x5C, y]" "escape_char y = Some c"
  | (unicode) "escape_extra c = 5" "c < 32"
      "escape_text c = [0x5C, 0x75, 0x30, 0x30, hex_digit (unat c div 16), hex_digit (unat c mod 16)]"
proof (cases "escape_extra c = 0")
  case True
  then show thesis using plain escape_plain [OF True] by (auto simp: escape_extra_def split: if_splits)
next
  case extra: False
  show thesis
  proof (cases "c = 0x22 \<or> c = 0x5C \<or> c = 8 \<or> c = 12 \<or> c = 10 \<or> c = 13 \<or> c = 9")
    case True
    then have "\<exists>y. escape_text c = [0x5C, y] \<and> escape_char y = Some c"
      by (elim disjE) (simp_all add: escape_text_def escape_char_def)
    then show thesis using simple True by (auto simp: escape_extra_def)
  next
    case False
    then have "c < 32" using extra by (auto simp: escape_extra_def split: if_splits)
    moreover then have "\<not> 31 < c" by (simp add: word_less_nat_alt)
    ultimately show thesis using unicode False by (simp add: escape_extra_def escape_text_def)
  qed
qed

lemma hex_value_digit: "d < 16 \<Longrightarrow> hex_value (hex_digit d) = Some (of_nat d)"
proof -
  have "list_all (\<lambda>d. hex_value (hex_digit d) = Some (of_nat d)) [0..<16]" by code_simp
  then show "d < 16 \<Longrightarrow> ?thesis" by (simp add: list_all_iff)
qed

lemma parse_hex4_step:
  "i < 4 \<Longrightarrow> p + i < length c \<Longrightarrow> hex_value (c ! (p + i)) = Some v \<Longrightarrow>
   parse_hex4_from c p i h = parse_hex4_from c p (i + 1) (if i < 3 then push_bit 4 (h + v) else h + v)"
  by (subst parse_hex4_from.simps) simp

lemma parse_hex4_digits:
  assumes "p + 4 \<le> length c" "hex_value (c ! p) = Some a0" "hex_value (c ! (p + 1)) = Some a1"
    "hex_value (c ! (p + 2)) = Some a2" "hex_value (c ! (p + 3)) = Some a3"
  shows "parse_hex4 c p = Inr (push_bit 4 (push_bit 4 (push_bit 4 a0 + a1) + a2) + a3)"
proof -
  have "parse_hex4 c p = parse_hex4_from c p 1 (push_bit 4 a0)"
    unfolding parse_hex4_def using parse_hex4_step [of 0 p c a0 0] assms by simp
  also have "\<dots> = parse_hex4_from c p 2 (push_bit 4 (push_bit 4 a0 + a1))"
    using parse_hex4_step [of 1 p c a1 "push_bit 4 a0"] assms by (simp add: numeral_2_eq_2)
  also have "\<dots> = parse_hex4_from c p 3 (push_bit 4 (push_bit 4 (push_bit 4 a0 + a1) + a2))"
    using parse_hex4_step [of 2 p c a2 "push_bit 4 (push_bit 4 a0 + a1)"] assms by simp
  also have "\<dots> = parse_hex4_from c p 4 (push_bit 4 (push_bit 4 (push_bit 4 a0 + a1) + a2) + a3)"
    using parse_hex4_step [of 3 p c a3 "push_bit 4 (push_bit 4 (push_bit 4 a0 + a1) + a2)"] assms by simp
  also have "\<dots> = Inr (push_bit 4 (push_bit 4 (push_bit 4 a0 + a1) + a2) + a3)"
    by (subst parse_hex4_from.simps) simp
  finally show ?thesis .
qed

lemma drop_nth: "drop p c = x # xs \<Longrightarrow> p < length c \<and> c ! p = x \<and> drop (p + 1) c = xs"
  by (metis Cons_nth_drop_Suc Suc_eq_plus1 drop_all list.inject list.simps(3) not_le)

lemma utf16_control:
  assumes "drop p s = [0x5C, 0x75, 0x30, 0x30, hex_digit (unat c div 16), hex_digit (unat c mod 16)] @ t"
    and c: "c < 32" and e: "p + 6 \<le> e"
  shows "utf16_literal_to_utf8 s p e = Inr (6, [c])"
proof -
  note d = drop_nth [OF assms(1) [simplified]]
  note d1 = drop_nth [OF conjunct2 [OF conjunct2 [OF d]]]
  note d2 = drop_nth [OF conjunct2 [OF conjunct2 [OF d1]]]
  note d3 = drop_nth [OF conjunct2 [OF conjunct2 [OF d2]]]
  note d4 = drop_nth [OF conjunct2 [OF conjunct2 [OF d3]]]
  note d5 = drop_nth [OF conjunct2 [OF conjunct2 [OF d4]]]
  have u: "unat c < 32" using c by (simp add: word_less_nat_alt)
  have h: "hex_value 0x30 = Some 0" by (simp add: hex_value_def)
  have "16 * of_nat (unat c div 16) + of_nat (unat c mod 16) = (of_nat (16 * (unat c div 16) + unat c mod 16) :: u32)"
    by (simp only: of_nat_add of_nat_mult of_nat_numeral)
  then have v: "push_bit 4 (of_nat (unat c div 16)) + of_nat (unat c mod 16) = (ucast c :: u32)"
    by (simp add: push_bit_eq_mult mult.commute)
  have idx: "s ! (p + 2) = 0x30" "s ! (p + 2 + 1) = 0x30" "s ! (p + 2 + 2) = hex_digit (unat c div 16)"
    "s ! (p + 2 + 3) = hex_digit (unat c mod 16)" "p + 2 + 4 \<le> length s"
  proof -
    have e: "p + 1 + 1 = p + 2" "p + 2 + 1 + 1 = p + 2 + 2" "p + 2 + 2 + 1 = p + 2 + 3" by simp_all
    show "s ! (p + 2) = 0x30" "s ! (p + 2 + 1) = 0x30" "s ! (p + 2 + 2) = hex_digit (unat c div 16)"
      "s ! (p + 2 + 3) = hex_digit (unat c mod 16)"
      using d2 d3 d4 d5 unfolding e by blast+
    show "p + 2 + 4 \<le> length s" using d5 unfolding e by linarith
  qed
  have g: "unat c div 16 < 16" "unat c mod 16 < 16" using u by simp_all
  have "parse_hex4 s (p + 2) =
      Inr (push_bit 4 (push_bit 4 (push_bit 4 0 + 0) + of_nat (unat c div 16)) + of_nat (unat c mod 16))"
    by (rule parse_hex4_digits [OF idx(5)])
      (simp_all only: idx h hex_value_digit [OF g(1)] hex_value_digit [OF g(2)])
  then have hx: "parse_hex4 s (p + 2) = Inr (ucast c)"
    by (simp only: push_bit_of_0 add_0_left add_0_right v)
  have "unat c < 4294967296" by (rule order.strict_trans [OF unat_lt_u8]) simp
  then have "unat (ucast c :: u32) = unat c" by (simp add: unsigned_ucast_eq take_bit_nat_eq_self_iff)
  then have small: "(ucast c :: u32) < 0x80" "\<not> 0xD800 \<le> (ucast c :: u32)" "\<not> 0xDC00 \<le> (ucast c :: u32)"
    using u by (simp_all add: word_less_nat_alt word_le_nat_alt)
  have enc: "utf8_encode (ucast c) = Some [ucast ((ucast c :: u32) AND 0x7F)]"
    using small(1) by (simp add: utf8_encode_def utf8_bytes_def)
  have "list_all (\<lambda>n. ucast ((ucast (of_nat n :: u8) :: u32) AND 0x7F) = (of_nat n :: u8)) [0..<32]"
    by code_simp
  then have "ucast ((ucast (of_nat (unat c) :: u8) :: u32) AND 0x7F) = (of_nat (unat c) :: u8)"
    unfolding list_all_iff by (rule bspec) (use u in simp)
  then have "ucast ((ucast c :: u32) AND 0x7F) = c" by simp
  then have "utf8_encode (ucast c) = Some [c]" using enc by simp
  then show ?thesis using hx small e by (simp add: utf16_literal_to_utf8_def)
qed

lemma scan_quote:
  "drop p c = 0x22 # R \<Longrightarrow> scan_string c (length c) p sk = Inr (Some (p, sk))"
  by (drule drop_nth) (subst scan_string.simps, simp)

lemma scan_plain:
  "drop p c = a # R \<Longrightarrow> a \<noteq> 0x22 \<Longrightarrow> a \<noteq> 0x5C \<Longrightarrow>
   scan_string c (length c) p sk = scan_string c (length c) (p + 1) sk \<and> drop (p + 1) c = R"
  by (drule drop_nth) (subst scan_string.simps, simp)

lemma scan_pair:
  assumes "drop p c = 0x5C # z # R"
  shows "scan_string c (length c) p sk = scan_string c (length c) (p + 2) (Suc sk) \<and> drop (p + 2) c = R"
proof -
  have d: "p < length c" "c ! p = 0x5C" "drop (p + 1) c = z # R" using drop_nth [OF assms] by auto
  have "p + 1 < length c" "drop (p + 2) c = R" using drop_nth [OF d(3)] by simp_all
  then show ?thesis using d by (subst scan_string.simps) simp
qed

lemma hex_digit_plain: "d < 16 \<Longrightarrow> hex_digit d \<noteq> 0x22 \<and> hex_digit d \<noteq> 0x5C"
  using hex_value_digit [of d] by (auto simp: hex_value_def)

lemma control_digits: "c < 32 \<Longrightarrow> unat (c :: u8) div 16 < 16 \<and> unat c mod 16 < 16"
  by (simp add: word_less_nat_alt)

lemma scan_unicode:
  assumes "drop p c = [0x5C, 0x75, 0x30, 0x30, hex_digit (unat x div 16), hex_digit (unat x mod 16)] @ R"
    and x: "(x :: u8) < 32"
  shows "scan_string c (length c) p sk = scan_string c (length c) (p + 6) (Suc sk) \<and> drop (p + 6) c = R"
proof -
  note h = hex_digit_plain [OF conjunct1 [OF control_digits [OF x]]]
    hex_digit_plain [OF conjunct2 [OF control_digits [OF x]]]
  have a: "scan_string c (length c) p sk = scan_string c (length c) (p + 2) (Suc sk)"
    "drop (p + 2) c = [0x30, 0x30, hex_digit (unat x div 16), hex_digit (unat x mod 16)] @ R"
    using scan_pair [OF assms(1) [simplified]] by simp_all
  have b: "scan_string c (length c) (p + 2) (Suc sk) = scan_string c (length c) (p + 2 + 1) (Suc sk)"
    "drop (p + 2 + 1) c = [0x30, hex_digit (unat x div 16), hex_digit (unat x mod 16)] @ R"
    using scan_plain [OF a(2) [simplified]] by simp_all
  have c: "scan_string c (length c) (p + 2 + 1) (Suc sk) = scan_string c (length c) (p + 2 + 1 + 1) (Suc sk)"
    "drop (p + 2 + 1 + 1) c = [hex_digit (unat x div 16), hex_digit (unat x mod 16)] @ R"
    using scan_plain [OF b(2) [unfolded append_Cons]] by simp_all
  have d: "scan_string c (length c) (p + 2 + 1 + 1) (Suc sk) = scan_string c (length c) (p + 2 + 1 + 1 + 1) (Suc sk)"
    "drop (p + 2 + 1 + 1 + 1) c = [hex_digit (unat x mod 16)] @ R"
    using scan_plain [OF c(2) [unfolded append_Cons]] h by simp_all
  have e: "scan_string c (length c) (p + 2 + 1 + 1 + 1) (Suc sk) = scan_string c (length c) (p + 2 + 1 + 1 + 1 + 1) (Suc sk)"
    "drop (p + 2 + 1 + 1 + 1 + 1) c = R"
    using scan_plain [OF d(2) [unfolded append_Cons]] h by simp_all
  have "p + 2 + 1 + 1 + 1 + 1 = p + 6" by simp
  then show ?thesis using a(1) b(1) c(1) d(1) e by (simp only:)
qed

lemma scan_text:
  "drop p c = concat (map escape_text s) @ R \<Longrightarrow> c_string s \<Longrightarrow>
   \<exists>k. scan_string c (length c) p sk = scan_string c (length c) (p + length (concat (map escape_text s))) (sk + k) \<and>
     drop (p + length (concat (map escape_text s))) c = R \<and> k + length s \<le> length (concat (map escape_text s))"
proof (induction s arbitrary: p sk)
  case Nil
  then show ?case by simp
next
  case (Cons x s)
  let ?E = "concat (map escape_text s)"
  have d: "drop p c = escape_text x @ ?E @ R" using Cons.prems by simp
  have nz: "x \<noteq> 0" and s: "c_string s" using Cons.prems(2) by simp_all
  show ?case
  proof (rule escape_cases [OF nz])
    assume e: "escape_text x = [x]" "x \<noteq> 0x22" "x \<noteq> 0x5C"
    have st: "scan_string c (length c) p sk = scan_string c (length c) (p + 1) sk" "drop (p + 1) c = ?E @ R"
      using scan_plain [of p c x] d e by auto
    show ?thesis using Cons.IH [OF st(2) s, of sk] unfolding st(1) by (auto simp: e)
  next
    fix z assume e: "escape_text x = [0x5C, z]"
    have st: "scan_string c (length c) p sk = scan_string c (length c) (p + 2) (Suc sk)" "drop (p + 2) c = ?E @ R"
      using scan_pair [of p c z] d e by auto
    obtain k where k: "scan_string c (length c) (p + 2) (Suc sk) = scan_string c (length c) (p + 2 + length ?E) (Suc sk + k)"
      "drop (p + 2 + length ?E) c = R" "k + length s \<le> length ?E" using Cons.IH [OF st(2) s] by blast
    have l: "p + length (concat (map escape_text (x # s))) = p + 2 + length ?E" by (simp add: e)
    show ?thesis unfolding st(1) k(1) l using k(2,3) by (intro exI [of _ "Suc k"]) (simp add: e)
  next
    assume e: "escape_text x = [0x5C, 0x75, 0x30, 0x30, hex_digit (unat x div 16), hex_digit (unat x mod 16)]"
      and x: "x < 32"
    have st: "scan_string c (length c) p sk = scan_string c (length c) (p + 6) (Suc sk)" "drop (p + 6) c = ?E @ R"
      using scan_unicode [OF d [unfolded e] x] by auto
    obtain k where k: "scan_string c (length c) (p + 6) (Suc sk) = scan_string c (length c) (p + 6 + length ?E) (Suc sk + k)"
      "drop (p + 6 + length ?E) c = R" "k + length s \<le> length ?E" using Cons.IH [OF st(2) s] by blast
    have l: "p + length (concat (map escape_text (x # s))) = p + 6 + length ?E" by (simp add: e)
    show ?thesis unfolding st(1) k(1) l using k(2,3) by (intro exI [of _ "Suc k"]) (simp add: e)
  qed
qed

lemma scan_escapes:
  "drop p c = concat (map escape_text s) @ 0x22 # y \<Longrightarrow> c_string s \<Longrightarrow>
   \<exists>k. scan_string c (length c) p sk = Inr (Some (p + length (concat (map escape_text s)), sk + k)) \<and>
     k + length s \<le> length (concat (map escape_text s))"
  using scan_text [of p c s "0x22 # y" sk] scan_quote by metis

lemma scan_unfinished:
  assumes "drop p c = concat (map escape_text s) @ [0]" "c_string s"
  shows "\<exists>k. scan_string c (length c) p sk = Inr (Some (length c, k))"
proof -
  let ?q = "p + length (concat (map escape_text s))"
  obtain k where k: "scan_string c (length c) p sk = scan_string c (length c) ?q (sk + k)" "drop ?q c = [0]"
    using scan_text [OF assms, of sk] by blast
  have "scan_string c (length c) ?q (sk + k) = scan_string c (length c) (?q + 1) (sk + k)" "drop (?q + 1) c = []"
    using scan_plain [OF k(2)] by simp_all
  moreover have "length c = ?q + 1" using arg_cong [OF k(2), of length] by simp
  moreover have "scan_string c (length c) (length c) (sk + k) = Inr (Some (length c, sk + k))"
    by (subst scan_string.simps) simp
  ultimately show ?thesis using k(1) by simp
qed

lemma unescape_plain:
  "p < e \<Longrightarrow> p < length c \<Longrightarrow> c ! p \<noteq> 0x5C \<Longrightarrow> emit_char n out [c ! p] = Inr out' \<Longrightarrow>
   unescape_loop c e n p out = unescape_loop c e n (p + 1) out'"
  by (subst unescape_loop.simps) simp

lemma unescape_pair:
  "p < e \<Longrightarrow> p + 1 < length c \<Longrightarrow> c ! p = 0x5C \<Longrightarrow> escape_char (c ! (p + 1)) = Some z \<Longrightarrow>
   emit_char n out [z] = Inr out' \<Longrightarrow> unescape_loop c e n p out = unescape_loop c e n (p + 2) out'"
  by (subst unescape_loop.simps) simp

lemma unescape_unicode:
  "p < e \<Longrightarrow> p + 1 < length c \<Longrightarrow> c ! p = 0x5C \<Longrightarrow> c ! (p + 1) = 0x75 \<Longrightarrow>
   utf16_literal_to_utf8 c p e = Inr (k, bs) \<Longrightarrow> k \<noteq> 0 \<Longrightarrow> emit_char n out bs = Inr out' \<Longrightarrow>
   unescape_loop c e n p out = unescape_loop c e n (p + k) out'"
  by (subst unescape_loop.simps) (simp add: escape_char_def)

lemma unescape_escapes:
  "drop p c = concat (map escape_text s) @ 0x22 # y \<Longrightarrow> c_string s \<Longrightarrow>
   e = p + length (concat (map escape_text s)) \<Longrightarrow> length out + length s \<le> n \<Longrightarrow>
   unescape_loop c e n p out = Inr (True, e, out @ s)"
proof (induction s arbitrary: p out)
  case Nil
  then show ?case by (subst unescape_loop.simps) simp
next
  case (Cons x s)
  let ?E = "concat (map escape_text s)"
  have d: "drop p c = escape_text x @ ?E @ 0x22 # y" using Cons.prems by simp
  have nz: "x \<noteq> 0" and s: "c_string s" using Cons.prems(2) by simp_all
  have e: "e = p + length (escape_text x) + length ?E" using Cons.prems(3) by simp
  have em: "emit_char n out [x] = Inr (out @ [x])" using Cons.prems(4) by simp
  have "drop (p + length (escape_text x)) c = ?E @ 0x22 # y"
    using d by (metis append_eq_conv_conj drop_drop add.commute)
  from Cons.IH [OF this s e, of "out @ [x]"] Cons.prems(4)
  have IH: "unescape_loop c e n (p + length (escape_text x)) (out @ [x]) = Inr (True, e, out @ x # s)"
    by simp
  show ?case
  proof (rule escape_cases [OF nz])
    assume x: "escape_text x = [x]" "x \<noteq> 0x22" "x \<noteq> 0x5C"
    have a: "p < length c" "c ! p = x" using drop_nth [of p c x] d x by auto
    have "unescape_loop c e n p out = unescape_loop c e n (p + 1) (out @ [x])"
      by (rule unescape_plain) (use a e x em in simp_all)
    then show ?thesis using IH x by simp
  next
    fix z assume x: "escape_text x = [0x5C, z]" and z: "escape_char z = Some x"
    have a: "p < length c" "c ! p = 0x5C" "drop (p + 1) c = z # ?E @ 0x22 # y"
      using drop_nth [of p c "0x5C"] d x by auto
    have b: "p + 1 < length c" "c ! (p + 1) = z" using drop_nth [OF a(3)] by auto
    have "unescape_loop c e n p out = unescape_loop c e n (p + 2) (out @ [x])"
      by (rule unescape_pair [OF _ b(1) a(2) z [folded b(2)] em]) (simp add: e x)
    then show ?thesis using IH x by simp
  next
    assume x: "escape_text x = [0x5C, 0x75, 0x30, 0x30, hex_digit (unat x div 16), hex_digit (unat x mod 16)]"
      and x32: "x < 32"
    have a: "p < length c" "c ! p = 0x5C" "drop (p + 1) c = 0x75 # drop 2 (escape_text x) @ ?E @ 0x22 # y"
      using drop_nth [of p c "0x5C"] d x by auto
    have b: "p + 1 < length c" "c ! (p + 1) = 0x75" using drop_nth [OF a(3)] by auto
    have "utf16_literal_to_utf8 c p e = Inr (6, [x])"
      by (rule utf16_control [OF d [unfolded x] x32]) (simp add: e x)
    from unescape_unicode [OF _ b(1) a(2) b(2) this _ em]
    have "unescape_loop c e n p out = unescape_loop c e n (p + 6) (out @ [x])" by (simp add: e x)
    moreover have "p + length (escape_text x) = p + 6" by (simp add: x)
    ultimately show ?thesis using IH by simp
  qed
qed

lemma parse_string_text:
  assumes r: "reads b (quoted (Some s) @ y)" and s: "c_string s"
  shows "\<exists>b'. parse_string item b =
      Inr (True, Item ((node item)\<lparr>cj_type := cJSON_String, cj_valuestring := Some s\<rparr>) (child item), b') \<and>
    reads b' y \<and> pb_depth b' = pb_depth b \<and> pb_offset b < pb_offset b'"
proof -
  let ?E = "concat (map escape_text s)" and ?c = "pb_content b" and ?s = "pb_offset b + 1"
  have r': "reads b ((0x22 # ?E @ [0x22]) @ y)" using r s by (simp add: quoted_def cstr_no_zero)
  have len: "pb_length b = length ?c" using r by (simp add: reads_def)
  have dr: "drop ?s ?c = ?E @ 0x22 # y"
    using r' by (simp add: reads_def drop_Suc drop_tl [symmetric]) (metis drop_Suc drop_tl list.sel(3))
  obtain k where k: "scan_string ?c (pb_length b) ?s 0 = Inr (Some (?s + length ?E, k))"
    "k + length s \<le> length ?E"
    using scan_escapes [OF dr s, of 0] len by auto
  obtain t H where H: "hook_allocate (pb_hooks b) = (t, H)" by fastforce
  have t using r hooks_good_allocate [of "pb_hooks b"] H by (simp add: reads_def)
  have e: "\<not> pb_length b \<le> ?s + length ?E" using reads_length [OF r'] by simp
  define al where "al = ?s + length ?E - pb_offset b - k"
  have al: "length s + 1 \<le> al" using k(2) by (simp add: al_def)
  have u: "unescape_loop ?c (?s + length ?E) (al + 1) ?s [] = Inr (True, ?s + length ?E, s)"
    using unescape_escapes [OF dr s refl, of "[]" "al + 1"] al by simp
  have em: "emit_char (al + 1) s [0] = Inr (s @ [0])" using al by simp
  have q: "at_offset b 0 = Inr 0x22" using reads_at [of b "0x22"] r' by simp
  let ?b = "b\<lparr>pb_offset := ?s + length ?E + 1, pb_hooks := H\<rparr>"
  have "parse_string item b =
      Inr (True, Item ((node item)\<lparr>cj_type := cJSON_String, cj_valuestring := Some s\<rparr>) (child item), ?b)"
    unfolding parse_string_def Let_def q bindE_simps k(1) option.case prod.case if_not_P [OF e] H
      al_def [symmetric] using \<open>t\<close> u em by simp
  moreover have "reads (advance (length (0x22 # ?E @ [0x22])) (b\<lparr>pb_hooks := H\<rparr>)) y"
    by (rule reads_advance [OF reads_hooks [OF r' hook_allocate_step [OF H]]]) simp
  then have "reads ?b y" by (simp add: advance_def reads_def)
  ultimately show ?thesis by auto
qed

section \<open>Values\<close>

definition starts :: "bytes option \<Rightarrow> cJSON \<Rightarrow> bool" where
  "starts nm item \<longleftrightarrow> child item = [] \<and> (node item)\<lparr>cj_type := 0\<rparr> = named nm"

lemma starts_new [simp]: "starts None (Item zero_node [])"
  by (simp add: starts_def named_def zero_node_def)

lemma starts_swap: "starts (Some s) (swap_name (Item (zero_node\<lparr>cj_type := t, cj_valuestring := Some s\<rparr>) []))"
  by (simp add: starts_def swap_name_def named_def zero_node_def)

lemma starts_set:
  assumes "starts nm item"
  shows "(node item)\<lparr>cj_type := t\<rparr> = (named nm)\<lparr>cj_type := t\<rparr>"
proof -
  have "(node item)\<lparr>cj_type := t\<rparr> = (node item)\<lparr>cj_type := 0, cj_type := t\<rparr>" by simp
  then show ?thesis using assms by (simp only: starts_def)
qed

definition roundtrips :: "json \<Rightarrow> bool" where
  "roundtrips j \<longleftrightarrow> (\<forall>nm fmt d n item b x c y. json_ok j \<longrightarrow> json_text fmt d (tree nm j) = Some x \<longrightarrow>
     starts nm item \<longrightarrow> reads b (x @ c # y) \<longrightarrow> \<not> number_char c \<longrightarrow> pb_depth b = d \<longrightarrow>
     CJSON_NESTING_LIMIT < n + d \<longrightarrow>
     (\<exists>b'. parse_value n item b = Some (Inr (True, tree nm j, b')) \<and> reads b' (c # y) \<and> pb_depth b' = d))"

lemma kinds [simp]:
  "kind_of (n\<lparr>cj_type := cJSON_NULL\<rparr>) = cJSON_NULL" "kind_of (n\<lparr>cj_type := cJSON_False\<rparr>) = cJSON_False"
  "kind_of (n\<lparr>cj_type := cJSON_Number\<rparr>) = cJSON_Number" "kind_of (n\<lparr>cj_type := cJSON_Array\<rparr>) = cJSON_Array"
  "kind_of (n\<lparr>cj_type := cJSON_Object\<rparr>) = cJSON_Object"
  "kind_of (n\<lparr>cj_type := cJSON_True, cj_valueint := i\<rparr>) = cJSON_True"
  "kind_of (n\<lparr>cj_valuedouble := d, cj_valueint := i, cj_type := cJSON_Number\<rparr>) = cJSON_Number"
  "kind_of (n\<lparr>cj_type := cJSON_String, cj_valuestring := s\<rparr>) = cJSON_String"
  by (simp_all add: kind_of_def cjson_types)

lemma distinct_kinds [simp]:
  "distinct [cJSON_NULL, cJSON_False, cJSON_True, cJSON_Number, cJSON_Raw, cJSON_String, cJSON_Array, cJSON_Object]"
  by (simp add: cjson_types)

lemma kinds_differ [simp]:
  "cJSON_False \<noteq> cJSON_NULL" "cJSON_True \<noteq> cJSON_NULL" "cJSON_True \<noteq> cJSON_False"
  "cJSON_Number \<noteq> cJSON_NULL" "cJSON_Number \<noteq> cJSON_False" "cJSON_Number \<noteq> cJSON_True"
  "cJSON_String \<noteq> cJSON_NULL" "cJSON_String \<noteq> cJSON_False" "cJSON_String \<noteq> cJSON_True"
  "cJSON_String \<noteq> cJSON_Number" "cJSON_String \<noteq> cJSON_Raw"
  "cJSON_Array \<noteq> cJSON_NULL" "cJSON_Array \<noteq> cJSON_False" "cJSON_Array \<noteq> cJSON_True"
  "cJSON_Array \<noteq> cJSON_Number" "cJSON_Array \<noteq> cJSON_Raw" "cJSON_Array \<noteq> cJSON_String"
  "cJSON_Object \<noteq> cJSON_NULL" "cJSON_Object \<noteq> cJSON_False" "cJSON_Object \<noteq> cJSON_True"
  "cJSON_Object \<noteq> cJSON_Number" "cJSON_Object \<noteq> cJSON_Raw" "cJSON_Object \<noteq> cJSON_String"
  "cJSON_Object \<noteq> cJSON_Array"
  by (simp_all add: cjson_types)

lemma text_simps:
  "json_text fmt d (tree nm JNull) = Some (ascii ''null'')"
  "json_text fmt d (tree nm (JBool v)) = Some (if v then ascii ''true'' else ascii ''false'')"
  "int_range i \<Longrightarrow> json_text fmt d (tree nm (JInt i)) = Some (dec_int i)"
  "json_text fmt d (tree nm (JString s)) = Some (quoted (Some s))"
  "json_text fmt d (tree nm (JArray js)) =
     (if CJSON_NESTING_LIMIT \<le> d then None
      else cat2 (Some [0x5B]) (cat2 (elements_text fmt (d + 1) (map (tree None) js)) (Some [0x5D])))"
  "json_text fmt d (tree nm (JObject ms)) =
     (if CJSON_NESTING_LIMIT \<le> d then None
      else cat2 (Some (open_text fmt)) (cat2 (members_text fmt (d + 1) (map (\<lambda>(k, j). tree (Some k) j) ms))
             (Some (tabs_text fmt d @ [0x7D]))))"
  using length_dec_int [of i] by (simp_all add: number_text_def)

lemma hd_text:
  assumes "json_ok j" "json_text fmt d (tree nm j) = Some x"
  shows "\<exists>a t. x = a # t \<and> \<not> a \<le> 32 \<and> a \<noteq> 0x5D \<and> a \<noteq> 0xEF"
proof (cases j)
  case (JInt i)
  have d: "\<not> c \<le> 32 \<and> c \<noteq> 0x5D \<and> c \<noteq> 0xEF" if "is_digit c" for c
    using that by (auto simp: is_digit_unat word_le_nat_alt)
  have "\<exists>a t. dec n = a # t \<and> \<not> a \<le> 32 \<and> a \<noteq> 0x5D \<and> a \<noteq> 0xEF" for n
    using d [OF hd_dec_digit [of n]] by (cases "dec n") auto
  then show ?thesis using JInt assms by (auto simp: text_simps dec_int_def simp del: tree.simps json_text.simps)
qed (use assms in \<open>auto simp: text_simps ascii_def quoted_def cat2_Some_iff open_text_def
      simp del: tree.simps json_text.simps split: if_splits\<close>)

subsection \<open>The first character decides\<close>

lemma not_word: "reads b (a # t) \<Longrightarrow> w \<noteq> [] \<Longrightarrow> a \<noteq> hd w \<Longrightarrow> next_word b w = Inr False"
  by (cases w) (simp_all add: reads_word)

lemma hd_words: "hd (ascii ''null'') = 0x6E" "hd (ascii ''false'') = 0x66" "hd (ascii ''true'') = 0x74"
  "ascii ''null'' \<noteq> []" "ascii ''false'' \<noteq> []" "ascii ''true'' \<noteq> []"
  by (simp_all add: ascii_def)

lemma parse_with_first:
  assumes "reads b (a # t)" "a \<noteq> 0x6E" "a \<noteq> 0x66" "a \<noteq> 0x74"
  shows "parse_with pv item b =
    (if a = 0x22 then liftC (parse_string item b)
     else if a = 0x2D \<or> 0x30 \<le> a \<and> a \<le> 0x39 then liftC (parse_number item b)
     else if a = 0x5B then parse_array pv item b
     else if a = 0x7B then parse_object pv item b
     else retC (False, item, b))"
  using assms not_word [OF assms(1)] reads_access [OF assms(1), of 0]
  by (simp add: parse_with_def hd_words reads_next [OF assms(1)] reads_at [OF assms(1)])

lemma parse_with_null: "reads b (ascii ''null'' @ t) \<Longrightarrow>
    parse_with pv item b = retC (True, set_type cJSON_NULL item, advance 4 b)"
  by (simp add: parse_with_def reads_word)

lemma parse_with_false: "reads b (ascii ''false'' @ t) \<Longrightarrow>
    parse_with pv item b = retC (True, set_type cJSON_False item, advance 5 b)"
proof -
  assume r: "reads b (ascii ''false'' @ t)"
  have "next_word b (ascii ''null'') = Inr False"
    by (rule not_word [of b "0x66"]) (use r in \<open>simp_all add: ascii_def\<close>)
  moreover have "next_word b (ascii ''false'') = Inr True" using reads_word [OF r, of "ascii ''false''"] by simp
  ultimately show ?thesis by (simp add: parse_with_def)
qed

lemma parse_with_true: "reads b (ascii ''true'' @ t) \<Longrightarrow>
    parse_with pv item b = retC (True, set_true item, advance 4 b)"
proof -
  assume r: "reads b (ascii ''true'' @ t)"
  have "next_word b (ascii ''null'') = Inr False" "next_word b (ascii ''false'') = Inr False"
    by (rule not_word [of b "0x74"]; use r in \<open>simp add: ascii_def\<close>)+
  moreover have "next_word b (ascii ''true'') = Inr True" using reads_word [OF r, of "ascii ''true''"] by simp
  ultimately show ?thesis by (simp add: parse_with_def)
qed

lemma good_item: "reads b s \<Longrightarrow> \<exists>H. cJSON_New_Item (pb_hooks b) = (Some (Item zero_node []), H) \<and>
    reads (b\<lparr>pb_hooks := H\<rparr>) s"
proof -
  assume r: "reads b s"
  obtain t H where H: "hook_allocate (pb_hooks b) = (t, H)" by fastforce
  have t using r hooks_good_allocate [of "pb_hooks b"] H by (simp add: reads_def)
  then show ?thesis using H reads_hooks [OF r hook_allocate_step [OF H]] by (auto simp: cJSON_New_Item_def)
qed

lemma elements_length: "elements_text fmt d cs = Some x \<Longrightarrow> length cs \<le> Suc (length x)"
proof (induction cs arbitrary: x)
  case (Cons c cs)
  show ?case
  proof (cases "cs = []")
    case False
    then obtain u v where v: "elements_text fmt d cs = Some v" "x = u @ comma_text fmt @ v"
      using Cons.prems by (auto simp: cat2_Some_iff)
    then show ?thesis using Cons.IH [OF v(1)] by (simp add: comma_text_def)
  qed simp
qed simp

lemma members_length: "members_text fmt d cs = Some x \<Longrightarrow> length cs \<le> length x"
proof (induction cs arbitrary: x)
  case (Cons c cs)
  then obtain u v where v: "members_text fmt d cs = Some v" "length x \<ge> Suc (length v)"
    by (auto simp: cat2_Some_iff colon_text_def)
  then show ?case using Cons.IH [OF v(1)] by simp
qed simp

subsection \<open>Arrays\<close>

lemma array_loop_text:
  "\<forall>j \<in> set js. roundtrips j \<and> json_ok j \<Longrightarrow> js \<noteq> [] \<Longrightarrow>
   elements_text fmt d (map (tree None) js) = Some x \<Longrightarrow>
   reads b (z # ws @ x @ 0x5D # y) \<Longrightarrow> \<forall>w \<in> set ws. w \<le> 32 \<Longrightarrow> pb_depth b = d \<Longrightarrow>
   CJSON_NESTING_LIMIT < n + d \<Longrightarrow> length js \<le> k \<Longrightarrow>
   \<exists>b'. array_loop (parse_value n) k items b = Some (Inr (True, items @ map (tree None) js, b')) \<and>
     reads b' (0x5D # y) \<and> pb_depth b' = d"
proof (induction js arbitrary: x b z ws k items)
  case (Cons j js)
  obtain k' where k: "k = Suc k'" "length js \<le> k'" using Cons.prems(8) by (cases k) auto
  obtain x1 x2 where x: "json_text fmt d (tree None j) = Some x1" "x = x1 @ x2"
    "(if js \<noteq> [] then cat2 (Some (comma_text fmt)) (elements_text fmt d (map (tree None) js))
      else elements_text fmt d (map (tree None) js)) = Some x2"
    using Cons.prems(3) by (auto simp: cat2_Some_iff split: if_splits)
  have j: "json_ok j" "roundtrips j" using Cons.prems(1) by auto
  obtain a t where a: "x1 = a # t" "\<not> a \<le> 32" using hd_text [OF j(1) x(1)] by blast
  obtain H where H: "cJSON_New_Item (pb_hooks b) = (Some (Item zero_node []), H)"
    "reads (b\<lparr>pb_hooks := H\<rparr>) (z # ws @ x @ 0x5D # y)" using good_item [OF Cons.prems(4)] by blast
  define b1 where "b1 = advance (Suc 0) (b\<lparr>pb_hooks := H\<rparr>)"
  have r1: "reads b1 (ws @ a # t @ x2 @ 0x5D # y)"
    unfolding b1_def by (rule reads_advance [where s = "[z]"]) (use H(2) x(2) a in simp_all)
  define b2 where "b2 = advance (length ws) b1"
  have s1: "buffer_skip_whitespace b1 = Inr b2" "reads b2 (x1 @ x2 @ 0x5D # y)"
    using reads_skip [OF r1 Cons.prems(5) a(2)] a(1) by (simp_all add: b2_def)
  have d2: "pb_depth b2 = d" using Cons.prems(6) by (simp add: b2_def b1_def)
  obtain c r where c: "x2 @ 0x5D # y = c # r" "c = (if js = [] then 0x5D else 0x2C)"
    using x(3) by (cases "js = []"; cases fmt) (auto simp: cat2_Some_iff comma_text_def)
  have nc: "\<not> number_char c" "\<not> c \<le> 32" using c(2) by (auto simp: number_char_def is_digit_def)
  obtain b3 where b3: "parse_value n (Item zero_node []) b2 = Some (Inr (True, tree None j, b3))"
    "reads b3 (c # r)" "pb_depth b3 = d"
    using j(2) j(1) x(1) starts_new s1(2) c(1) nc(1) d2 Cons.prems(7) unfolding roundtrips_def by metis
  have eq: "array_loop (parse_value n) k items b =
    (if c = 0x2C then array_loop (parse_value n) k' (items @ [tree None j]) b3
     else retC (True, items @ [tree None j], b3))"
    using H(1) s1(1) b3(1) reads_skip0 [OF b3(2) nc(2)] reads_next [OF b3(2)]
    by (simp add: k(1) b1_def [symmetric] Let_def)
  show ?case
  proof (cases "js = []")
    case True
    then show ?thesis using eq b3 c x(3) by (simp add: retC_def)
  next
    case False
    then obtain x' where x': "elements_text fmt d (map (tree None) js) = Some x'" "x2 = comma_text fmt @ x'"
      using x(3) by (auto simp: cat2_Some_iff)
    let ?ws = "if fmt then [0x20] else [] :: bytes"
    have "reads b3 (0x2C # ?ws @ x' @ 0x5D # y)" using b3(2) c(1) x'(2) by (auto simp: comma_text_def)
    from Cons.IH [OF _ False x'(1) this _ b3(3) Cons.prems(7) k(2), of "items @ [tree None j]"] Cons.prems(1)
    show ?thesis using eq c(2) False by auto
  qed
qed simp

subsection \<open>Objects\<close>

lemma not_number_ws: "x \<le> 32 \<Longrightarrow> \<not> number_char x"
  by (auto simp: number_char_def is_digit_unat word_le_nat_alt)

lemma ws_then:
  assumes "\<forall>w \<in> set ws. w \<le> 32" "\<not> number_char c"
  shows "\<exists>a t. ws @ c # r = a # t \<and> \<not> number_char a"
  using assms not_number_ws by (cases ws) auto

lemma members_tabs:
  "members_text fmt d cs = Some x \<Longrightarrow> cs \<noteq> [] \<Longrightarrow> \<exists>x'. x = tabs_text fmt d @ x'"
  by (cases cs) (auto simp: cat2_Some_iff)

text \<open>A member up to its value, and a whole member with what follows it.\<close>

lemma object_name_text:
  assumes s: "c_string s" and r: "reads b (z # ws @ quoted (Some s) @ colon_text fmt @ a # t)"
    and ws: "\<forall>w \<in> set ws. w \<le> 32" and a: "\<not> a \<le> 32"
  shows "\<exists>b'. object_loop pv (Suc k) items b =
      bindC (pv (swap_name (Item (zero_node\<lparr>cj_type := cJSON_String, cj_valuestring := Some s\<rparr>) [])) b') (\<lambda>(ok, current_item, b).
        let items = items @ [current_item]
        in if \<not> ok then retC (False, items, b)
           else bindC (liftC (buffer_skip_whitespace b)) (\<lambda>b.
             bindC (liftC (next_is b 0x2C)) (\<lambda>comma.
               if comma then object_loop pv k items b else retC (True, items, b)))) \<and>
    reads b' (a # t) \<and> pb_depth b' = pb_depth b"
proof -
  let ?cw = "if fmt then [0x09] else [] :: bytes"
  obtain H where H: "cJSON_New_Item (pb_hooks b) = (Some (Item zero_node []), H)"
    "reads (b\<lparr>pb_hooks := H\<rparr>) (z # ws @ quoted (Some s) @ colon_text fmt @ a # t)" using good_item [OF r] by blast
  have acc: "can_access_at_index (b\<lparr>pb_hooks := H\<rparr>) (Suc 0)"
    using reads_access [OF H(2)] by (simp add: quoted_def)
  define b1 where "b1 = advance (Suc 0) (b\<lparr>pb_hooks := H\<rparr>)"
  have r1: "reads b1 (ws @ 0x22 # tl (quoted (Some s)) @ colon_text fmt @ a # t)"
    unfolding b1_def by (rule reads_advance [where s = "[z]"]) (use H(2) in \<open>simp_all add: quoted_def\<close>)
  define b2 where "b2 = advance (length ws) b1"
  have s1: "buffer_skip_whitespace b1 = Inr b2" "reads b2 (quoted (Some s) @ colon_text fmt @ a # t)"
    using reads_skip [OF r1 ws(1)] by (simp_all add: b2_def quoted_def)
  have d2: "pb_depth b2 = pb_depth b" by (simp add: b2_def b1_def)
  define nmi where "nmi = Item (zero_node\<lparr>cj_type := cJSON_String, cj_valuestring := Some s\<rparr>) []"
  obtain b3 where b3: "parse_string (Item zero_node []) b2 = Inr (True, nmi, b3)"
    "reads b3 (colon_text fmt @ a # t)" "pb_depth b3 = pb_depth b"
    using parse_string_text [OF s1(2) s, of "Item zero_node []"] d2 by (auto simp: nmi_def)
  have r3: "reads b3 (0x3A # ?cw @ a # t)" using b3(2) by (cases fmt) (simp_all add: colon_text_def)
  have s3: "buffer_skip_whitespace b3 = Inr b3" by (rule reads_skip0 [OF r3]) simp
  define b4 where "b4 = advance (Suc 0) b3"
  have r4: "reads b4 (?cw @ a # t)"
    unfolding b4_def by (rule reads_advance [where s = "[0x3A]"]) (use r3 in simp_all)
  define b5 where "b5 = advance (length ?cw) b4"
  have s5: "buffer_skip_whitespace b4 = Inr b5" "reads b5 (a # t)"
    using reads_skip [OF r4 _ a] by (simp_all add: b5_def)
  have d5: "pb_depth b5 = pb_depth b" using b3(3) by (simp add: b5_def b4_def)
  show ?thesis
    using H(1) acc s1(1) b3(1) s3 reads_next [OF r3] s5 d5
    by (intro exI [of _ b5]) (simp add: b1_def [symmetric] b4_def [symmetric] nmi_def [symmetric] Let_def)
qed

lemma object_member_text:
  assumes j: "json_ok j" "roundtrips j" "c_string s" and x: "json_text fmt d (tree (Some s) j) = Some x1"
    and r: "reads b (z # ws @ quoted (Some s) @ colon_text fmt @ x1 @ ws2 @ c2 # r2)"
    and ws: "\<forall>w \<in> set ws. w \<le> 32" "\<forall>w \<in> set ws2. w \<le> 32" and c2: "\<not> number_char c2" "\<not> c2 \<le> 32"
    and d: "pb_depth b = d" "CJSON_NESTING_LIMIT < n + d"
  shows "\<exists>b'. object_loop (parse_value n) (Suc k) items b =
      (if c2 = 0x2C then object_loop (parse_value n) k (items @ [tree (Some s) j]) b'
       else retC (True, items @ [tree (Some s) j], b')) \<and> reads b' (c2 # r2) \<and> pb_depth b' = d"
proof -
  let ?R = "ws2 @ c2 # r2"
  let ?nmi = "Item (zero_node\<lparr>cj_type := cJSON_String, cj_valuestring := Some s\<rparr>) []"
  obtain a t where a: "x1 = a # t" "\<not> a \<le> 32" using hd_text [OF j(1) x] by blast
  obtain c q where c: "?R = c # q" "\<not> number_char c" using ws_then [OF ws(2) c2(1), of r2] by auto
  have r': "reads b (z # ws @ quoted (Some s) @ colon_text fmt @ a # t @ ?R)" using r a(1) by simp
  obtain b5 where b5: "object_loop (parse_value n) (Suc k) items b =
      bindC (parse_value n (swap_name ?nmi) b5) (\<lambda>(ok, current_item, b).
        let items = items @ [current_item]
        in if \<not> ok then retC (False, items, b)
           else bindC (liftC (buffer_skip_whitespace b)) (\<lambda>b.
             bindC (liftC (next_is b 0x2C)) (\<lambda>comma.
               if comma then object_loop (parse_value n) k items b else retC (True, items, b))))"
    "reads b5 (x1 @ ?R)" "pb_depth b5 = d"
    using object_name_text [OF j(3) r' ws(1) a(2), of "parse_value n" k items] a(1) d(1) by auto
  obtain b6 where b6: "parse_value n (swap_name ?nmi) b5 = Some (Inr (True, tree (Some s) j, b6))"
    "reads b6 ?R" "pb_depth b6 = d"
    using j(1,2) x starts_swap [of s cJSON_String] b5(2,3) c d(2)
    unfolding roundtrips_def by metis
  define b7 where "b7 = advance (length ws2) b6"
  have s7: "buffer_skip_whitespace b6 = Inr b7" "reads b7 (c2 # r2)"
    using reads_skip [OF b6(2) ws(2) c2(2)] by (simp_all add: b7_def)
  have d7: "pb_depth b7 = d" using b6(3) by (simp add: b7_def)
  show ?thesis using s7 d7 b6(1) reads_next [OF s7(2)] by (intro exI [of _ b7]) (simp add: b5(1) Let_def del: object_loop.simps)
qed

lemma object_loop_text:
  "\<forall>(s, j) \<in> set ms. roundtrips j \<and> json_ok j \<and> c_string s \<Longrightarrow> ms \<noteq> [] \<Longrightarrow>
   members_text fmt d (map (\<lambda>(s, j). tree (Some s) j) ms) = Some (tabs_text fmt d @ x) \<Longrightarrow>
   reads b (z # ws @ x @ tw @ 0x7D # y) \<Longrightarrow> \<forall>w \<in> set ws. w \<le> 32 \<Longrightarrow> \<forall>w \<in> set tw. w \<le> 32 \<Longrightarrow>
   pb_depth b = d \<Longrightarrow> CJSON_NESTING_LIMIT < n + d \<Longrightarrow> length ms \<le> k \<Longrightarrow>
   \<exists>b'. object_loop (parse_value n) k items b =
       Some (Inr (True, items @ map (\<lambda>(s, j). tree (Some s) j) ms, b')) \<and>
     reads b' (0x7D # y) \<and> pb_depth b' = d"
proof (induction ms arbitrary: x b z ws k items)
  case (Cons m ms)
  obtain s j where m: "m = (s, j)" by fastforce
  obtain k' where k: "k = Suc k'" "length ms \<le> k'" using Cons.prems(9) by (cases k) auto
  have j: "json_ok j" "roundtrips j" "c_string s" using Cons.prems(1) m by auto
  obtain x1 x2 where x: "json_text fmt d (tree (Some s) j) = Some x1"
    "members_text fmt d (map (\<lambda>(s, j). tree (Some s) j) ms) = Some x2"
    "x = quoted (Some s) @ colon_text fmt @ x1 @ end_text fmt (ms \<noteq> []) @ x2"
    using Cons.prems(3) by (auto simp: cat2_Some_iff m)
  note step = object_member_text [OF j x(1) _ Cons.prems(5) _ _ _ Cons.prems(7,8), of z _ _ _ k' items]
  show ?case
  proof (cases "ms = []")
    case True
    let ?ws2 = "(if fmt then [0x0A] else []) @ tw"
    have "reads b (z # ws @ quoted (Some s) @ colon_text fmt @ x1 @ ?ws2 @ 0x7D # y)"
      using Cons.prems(4) x(2,3) True by (simp add: end_text_def)
    moreover have "\<forall>w \<in> set ?ws2. w \<le> 32" using Cons.prems(6) by auto
    ultimately show ?thesis
      using step [of ?ws2 "0x7D" y] True by (auto simp: k(1) m retC_def number_char_def is_digit_def simp del: object_loop.simps)
  next
    case False
    let ?ws = "(if fmt then [0x0A] else []) @ tabs_text fmt d :: bytes"
    obtain x3 where x3: "x2 = tabs_text fmt d @ x3" using members_tabs [OF x(2)] False by auto
    have "reads b (z # ws @ quoted (Some s) @ colon_text fmt @ x1 @ [] @ 0x2C # ?ws @ x3 @ tw @ 0x7D # y)"
      using Cons.prems(4) x(3) x3 False by (simp add: end_text_def)
    from step [OF this] obtain b7 where b7:
      "object_loop (parse_value n) k items b = object_loop (parse_value n) k' (items @ [tree (Some s) j]) b7"
      "reads b7 (0x2C # ?ws @ x3 @ tw @ 0x7D # y)" "pb_depth b7 = d"
      by (auto simp: k(1) number_char_def is_digit_def simp del: object_loop.simps)
    moreover have "\<forall>w \<in> set ?ws. w \<le> 32" by (auto simp: tabs_text_def)
    ultimately show ?thesis
      using Cons.IH [OF _ False x(2) [unfolded x3] b7(2) _ Cons.prems(6) b7(3) Cons.prems(8) k(2), of "items @ [tree (Some s) j]"]
        Cons.prems(1) m by auto
  qed
qed simp

end
