(* ===== verification/Cjson_Roundtrip.thy ===== *)
theory Cjson_Roundtrip
  imports Cjson_Reads
begin

text \<open>
  Parsing what the printer wrote gives the tree back, for every value whose numbers are 32-bit integers
  and whose strings have no NUL, formatted or not, nested as deeply as the printer allows.
\<close>

section \<open>The round trip\<close>

lemma roundtrips_value:
  assumes step: "\<And>nm fmt d n item b x c y. json_ok j \<Longrightarrow> json_text fmt d (tree nm j) = Some x \<Longrightarrow>
     starts nm item \<Longrightarrow> reads b (x @ c # y) \<Longrightarrow> \<not> number_char c \<Longrightarrow> pb_depth b = d \<Longrightarrow>
     CJSON_NESTING_LIMIT \<le> n + d \<Longrightarrow>
     \<exists>b'. parse_with (parse_value n) item b = Some (Inr (True, tree nm j, b')) \<and> reads b' (c # y) \<and> pb_depth b' = d"
  shows "roundtrips j"
  unfolding roundtrips_def
proof (intro allI impI)
  fix nm fmt d n item b x c y
  assume a: "json_ok j" "json_text fmt d (tree nm j) = Some x" "starts nm item" "reads b (x @ c # y)"
    "\<not> number_char c" "pb_depth b = d" "CJSON_NESTING_LIMIT < n + d"
  have "d \<le> CJSON_NESTING_LIMIT" using a(4,6) by (simp add: reads_def)
  then obtain m where m: "n = Suc m" using a(7) by (cases n) auto
  then have "CJSON_NESTING_LIMIT \<le> m + d" using a(7) by simp
  from step [OF a(1-6) this]
  show "\<exists>b'. parse_value n item b = Some (Inr (True, tree nm j, b')) \<and> reads b' (c # y) \<and> pb_depth b' = d"
    by (simp add: m)
qed

lemma starts_item: "starts nm item \<Longrightarrow> item = Item (node item) []"
  by (cases item) (simp add: starts_def)

lemma starts_node: "starts nm item \<Longrightarrow> \<exists>t. node item = (named nm)\<lparr>cj_type := t\<rparr>"
  by (cases "node item") (auto simp: starts_def named_def zero_node_def intro!: exI [of _ "cj_type (node item)"])

lemma set_number_starts:
  "starts nm item \<Longrightarrow> int_range i \<Longrightarrow> Item (set_number (Fin (of_int i)) (node item)) (child item) = tree nm (JInt i)"
  using starts_node [of nm item] by (auto simp: starts_def set_number_def)

lemma roundtrips_scalar:
  "roundtrips JNull" "roundtrips (JBool v)" "roundtrips (JInt i)" "roundtrips (JString s)"
proof -
  show "roundtrips JNull"
  proof (rule roundtrips_value)
    fix nm fmt d n item b x c y
    assume a: "json_text fmt d (tree nm JNull) = Some x" "starts nm item" "reads b (x @ c # y)" "pb_depth b = d"
    have r: "reads b (ascii ''null'' @ c # y)" using a(1,3) unfolding text_simps by simp
    have "set_type cJSON_NULL item = tree nm JNull"
      using starts_set [OF a(2)] a(2) by (simp add: set_type_def starts_def)
    then show "\<exists>b'. parse_with (parse_value n) item b = Some (Inr (True, tree nm JNull, b')) \<and>
        reads b' (c # y) \<and> pb_depth b' = d"
      using parse_with_null [OF r, of "parse_value n" item] reads_advance [OF r, of 4] a(4) by (simp add: retC_def)
  qed
  show "roundtrips (JBool v)"
  proof (rule roundtrips_value)
    fix nm fmt d n item b x c y
    assume a: "json_text fmt d (tree nm (JBool v)) = Some x" "starts nm item" "reads b (x @ c # y)" "pb_depth b = d"
    show "\<exists>b'. parse_with (parse_value n) item b = Some (Inr (True, tree nm (JBool v), b')) \<and>
        reads b' (c # y) \<and> pb_depth b' = d"
    proof (cases v)
      case True
      have r: "reads b (ascii ''true'' @ c # y)" using a(1,3) True unfolding text_simps by simp
      have "set_true item = tree nm (JBool v)"
        using starts_node [OF a(2)] a(2) True by (auto simp: set_true_def starts_def)
      then show ?thesis
        using parse_with_true [OF r, of "parse_value n" item] reads_advance [OF r, of 4] a(4) by (simp add: retC_def)
    next
      case False
      have r: "reads b (ascii ''false'' @ c # y)" using a(1,3) False unfolding text_simps by simp
      have "set_type cJSON_False item = tree nm (JBool v)"
        using starts_set [OF a(2)] a(2) False by (simp add: set_type_def starts_def)
      then show ?thesis
        using parse_with_false [OF r, of "parse_value n" item] reads_advance [OF r, of 5] a(4) by (simp add: retC_def)
    qed
  qed
  show "roundtrips (JInt i)"
  proof (rule roundtrips_value)
    fix nm fmt d n item b x c y
    assume a: "json_ok (JInt i)" "json_text fmt d (tree nm (JInt i)) = Some x" "starts nm item"
      "reads b (x @ c # y)" "\<not> number_char c" "pb_depth b = d"
    have i: "int_range i" using a(1) by simp
    have r: "reads b (dec_int i @ c # y)" using a(2,4) unfolding text_simps(3) [OF i] by simp
    obtain e t where e: "dec_int i = e # t" "e = 0x2D \<or> is_digit e"
      using hd_dec_digit dec_not_Nil by (cases "dec_int i") (auto simp: dec_int_def split: if_splits, metis list.sel(1))
    have fst: "e \<noteq> 0x6E" "e \<noteq> 0x66" "e \<noteq> 0x74" "e \<noteq> 0x22" "e = 0x2D \<or> 0x30 \<le> e \<and> e \<le> 0x39"
      using e(2) by (auto simp: is_digit_def)
    have "parse_with (parse_value n) item b = liftC (parse_number item b)"
      using parse_with_first [of b e "t @ c # y" "parse_value n" item] r e(1) fst by auto
    then show "\<exists>b'. parse_with (parse_value n) item b = Some (Inr (True, tree nm (JInt i), b')) \<and>
        reads b' (c # y) \<and> pb_depth b' = d"
      using parse_number_text [OF r i a(5), of item] set_number_starts [OF a(3) i] a(6) by auto
  qed
  show "roundtrips (JString s)"
  proof (rule roundtrips_value)
    fix nm fmt d n item b x c y
    assume a: "json_ok (JString s)" "json_text fmt d (tree nm (JString s)) = Some x" "starts nm item"
      "reads b (x @ c # y)" "pb_depth b = d"
    have r: "reads b (quoted (Some s) @ c # y)" using a(2,4) unfolding text_simps by simp
    have "parse_with (parse_value n) item b = liftC (parse_string item b)"
      using parse_with_first [of b "0x22" "tl (quoted (Some s)) @ c # y" "parse_value n" item] r
      by (simp add: quoted_def)
    moreover have "Item ((node item)\<lparr>cj_type := cJSON_String, cj_valuestring := Some s\<rparr>) (child item) =
        tree nm (JString s)"
      using starts_node [OF a(3)] a(3) by (auto simp: starts_def)
    ultimately show "\<exists>b'. parse_with (parse_value n) item b = Some (Inr (True, tree nm (JString s), b')) \<and>
        reads b' (c # y) \<and> pb_depth b' = d"
      using parse_string_text [OF r, of item] a(1,5) by auto
  qed
qed

lemma roundtrips_array:
  assumes IH: "\<forall>j \<in> set js. roundtrips j"
  shows "roundtrips (JArray js)"
proof (rule roundtrips_value)
  fix nm fmt d n item b x c y
  assume a: "json_ok (JArray js)" "json_text fmt d (tree nm (JArray js)) = Some x" "starts nm item"
    "reads b (x @ c # y)" "pb_depth b = d" "CJSON_NESTING_LIMIT \<le> n + d"
  obtain e where d: "\<not> CJSON_NESTING_LIMIT \<le> d" and e: "elements_text fmt (d + 1) (map (tree None) js) = Some e"
    "x = [0x5B] @ e @ [0x5D]"
    using a(2) unfolding text_simps by (auto simp: cat2_Some_iff split: if_splits)
  have r: "reads b (0x5B # e @ 0x5D # c # y)" using a(4) e(2) by simp
  define b0 where "b0 = b\<lparr>pb_depth := Suc d\<rparr>"
  have r0: "reads b0 (0x5B # e @ 0x5D # c # y)" "pb_depth b0 = d + 1"
    using r d a(5) by (simp_all add: b0_def reads_def)
  define b1 where "b1 = advance (Suc 0) b0"
  have r1: "reads b1 (e @ 0x5D # c # y)"
    unfolding b1_def by (rule reads_advance [where s = "[0x5B]"]) (use r0 in simp_all)
  have pw: "parse_with (parse_value n) item b = parse_array (parse_value n) item b"
    using parse_with_first [OF r] by simp
  have close: "\<exists>b'. retC (close_list cJSON_Array item (map (tree None) js) b2) = Some (Inr (True, tree nm (JArray js), b')) \<and>
      reads b' (c # y) \<and> pb_depth b' = d"
    if "reads b2 (0x5D # c # y)" "pb_depth b2 = d + 1" for b2
  proof -
    have "reads (advance (Suc 0) (b2\<lparr>pb_depth := d\<rparr>)) (c # y)"
      by (rule reads_advance [where s = "[0x5D]"]) (use that in \<open>simp_all add: reads_def\<close>)
    then show ?thesis using that(2) starts_set [OF a(3)] by (simp add: close_list_def retC_def)
  qed
  show "\<exists>b'. parse_with (parse_value n) item b = Some (Inr (True, tree nm (JArray js), b')) \<and>
      reads b' (c # y) \<and> pb_depth b' = d"
  proof (cases "js = []")
    case True
    then have "e = []" using e(1) by simp
    then have r1': "reads b1 (0x5D # c # y)" using r1 by simp
    have "parse_array (parse_value n) item b = retC (close_list cJSON_Array item [] b1)"
      using d a(5) reads_at [OF r0(1)] reads_skip0 [OF r1'] reads_next [OF r1']
      by (simp add: parse_array_def Let_def b0_def [symmetric] b1_def [symmetric])
    then show ?thesis using close [of b1] r1' r0(2) True pw by (simp add: b1_def)
  next
    case False
    obtain j js' where js: "js = j # js'" using False by (cases js) auto
    obtain x1 x2 where x1: "json_text fmt (d + 1) (tree None j) = Some x1" "e = x1 @ x2"
      using e(1) js by (auto simp: cat2_Some_iff split: if_splits)
    have "json_ok j" using a(1) js by simp
    then obtain h t where h: "x1 = h # t" "\<not> h \<le> 32" "h \<noteq> 0x5D" using hd_text x1(1) by blast
    have r1': "reads b1 (h # t @ x2 @ 0x5D # c # y)" using r1 x1 h by simp
    have "0 < pb_offset b1" by (simp add: b1_def)
    then obtain z where z: "reads (step_back b1) (z # [] @ e @ 0x5D # c # y)"
      using reads_step_back [OF r1] by auto
    have k: "length js \<le> Suc (pb_length b1)"
      using elements_length [OF e(1)] reads_length [OF r1] by simp
    obtain b2 where b2: "array_loop (parse_value n) (Suc (pb_length b1)) [] (step_back b1) =
        Some (Inr (True, [] @ map (tree None) js, b2))" "reads b2 (0x5D # c # y)" "pb_depth b2 = d + 1"
      using array_loop_text [OF _ False e(1) z _ _ _ k, of n "[]"] IH a(1,6) r0(2) by (auto simp: b1_def)
    have "parse_array (parse_value n) item b = retC (close_list cJSON_Array item (map (tree None) js) b2)"
      using d a(5) reads_at [OF r0(1)] reads_skip0 [OF r1' h(2)] reads_next [OF r1'] h(3)
        reads_access [OF r1', of 0] b2(1) reads_next [OF b2(2)]
      by (simp add: parse_array_def Let_def b0_def [symmetric] b1_def [symmetric] del: array_loop.simps)
    then show ?thesis using close [OF b2(2,3)] pw by simp
  qed
qed

lemma roundtrips_object:
  assumes IH: "\<forall>(s, j) \<in> set ms. roundtrips j"
  shows "roundtrips (JObject ms)"
proof (rule roundtrips_value)
  fix nm fmt d n item b x c y
  assume a: "json_ok (JObject ms)" "json_text fmt d (tree nm (JObject ms)) = Some x" "starts nm item"
    "reads b (x @ c # y)" "pb_depth b = d" "CJSON_NESTING_LIMIT \<le> n + d"
  let ?T = "map (\<lambda>(s, j). tree (Some s) j) ms" and ?nl = "if fmt then [0x0A] else [] :: bytes"
  obtain e where d: "\<not> CJSON_NESTING_LIMIT \<le> d" and e: "members_text fmt (d + 1) ?T = Some e"
    "x = open_text fmt @ e @ tabs_text fmt d @ [0x7D]"
    using a(2) unfolding text_simps by (auto simp: cat2_Some_iff split: if_splits)
  have tw: "\<forall>w \<in> set (tabs_text fmt d). w \<le> 32" by (auto simp: tabs_text_def)
  have r: "reads b (0x7B # ?nl @ e @ tabs_text fmt d @ 0x7D # c # y)"
    using a(4) e(2) by (cases fmt) (simp_all add: open_text_def)
  define b0 where "b0 = b\<lparr>pb_depth := Suc d\<rparr>"
  have r0: "reads b0 (0x7B # ?nl @ e @ tabs_text fmt d @ 0x7D # c # y)" "pb_depth b0 = d + 1"
    using r d a(5) by (simp_all add: b0_def reads_def)
  define b1 where "b1 = advance (Suc 0) b0"
  have r1: "reads b1 (?nl @ e @ tabs_text fmt d @ 0x7D # c # y)"
    unfolding b1_def by (rule reads_advance [where s = "[0x7B]"]) (use r0 in simp_all)
  have pw: "parse_with (parse_value n) item b = parse_object (parse_value n) item b"
    using parse_with_first [OF r] by simp
  have close: "\<exists>b'. retC (close_list cJSON_Object item ?T b2) = Some (Inr (True, tree nm (JObject ms), b')) \<and>
      reads b' (c # y) \<and> pb_depth b' = d"
    if "reads b2 (0x7D # c # y)" "pb_depth b2 = d + 1" for b2
  proof -
    have "reads (advance (Suc 0) (b2\<lparr>pb_depth := d\<rparr>)) (c # y)"
      by (rule reads_advance [where s = "[0x7D]"]) (use that in \<open>simp_all add: reads_def\<close>)
    then show ?thesis using that(2) starts_set [OF a(3)] by (simp add: close_list_def retC_def)
  qed
  show "\<exists>b'. parse_with (parse_value n) item b = Some (Inr (True, tree nm (JObject ms), b')) \<and>
      reads b' (c # y) \<and> pb_depth b' = d"
  proof (cases "ms = []")
    case True
    then have e0: "e = []" using e(1) by simp
    have r1': "reads b1 ((?nl @ tabs_text fmt d) @ 0x7D # c # y)" using r1 e0 by simp
    have ws: "\<forall>w \<in> set (?nl @ tabs_text fmt d). w \<le> 32" using tw by auto
    define b2 where "b2 = advance (length (?nl @ tabs_text fmt d)) b1"
    have s: "buffer_skip_whitespace b1 = Inr b2" "reads b2 (0x7D # c # y)"
      unfolding b2_def by (rule reads_skip [OF r1' ws]; simp)+
    have "parse_object (parse_value n) item b = retC (close_list cJSON_Object item [] b2)"
      using d a(5) reads_next [OF r0(1)] s(1) reads_next [OF s(2)]
      by (simp add: parse_object_def Let_def b0_def [symmetric] b1_def [symmetric])
    then show ?thesis using close [OF s(2)] r0(2) True pw by (simp add: b1_def b2_def)
  next
    case False
    obtain s j ms' where ms: "ms = (s, j) # ms'" using False by (cases ms) auto
    obtain q where q: "e = tabs_text fmt (d + 1) @ 0x22 # q"
      using e(1) ms by (auto simp: cat2_Some_iff quoted_def)
    have r1': "reads b1 ((?nl @ tabs_text fmt (d + 1)) @ 0x22 # q @ tabs_text fmt d @ 0x7D # c # y)"
      using r1 q by simp
    have ws: "\<forall>w \<in> set (?nl @ tabs_text fmt (d + 1)). w \<le> 32" by (auto simp: tabs_text_def)
    define b2 where "b2 = advance (length (?nl @ tabs_text fmt (d + 1))) b1"
    have s: "buffer_skip_whitespace b1 = Inr b2" "reads b2 (0x22 # q @ tabs_text fmt d @ 0x7D # c # y)"
      unfolding b2_def by (rule reads_skip [OF r1' ws]; simp)+
    have "0 < pb_offset b2" by (simp add: b2_def b1_def)
    then obtain z where z: "reads (step_back b2) (z # [] @ (0x22 # q) @ tabs_text fmt d @ 0x7D # c # y)"
      using reads_step_back [OF s(2)] by auto
    have all: "\<forall>(s, j) \<in> set ms. roundtrips j \<and> json_ok j \<and> c_string s" using IH a(1) by auto
    have dz: "pb_depth (step_back b2) = d + 1" using r0(2) by (simp add: b1_def b2_def)
    have kl: "length ms \<le> Suc (pb_length b2)"
    proof -
      have "length ms \<le> length e" using members_length [OF e(1)] by simp
      then show ?thesis using reads_length [OF r1] by (simp add: b2_def)
    qed
    obtain b3 where b3: "object_loop (parse_value n) (Suc (pb_length b2)) [] (step_back b2) =
        Some (Inr (True, [] @ ?T, b3))" "reads b3 (0x7D # c # y)" "pb_depth b3 = d + 1"
      using object_loop_text [OF all False e(1) [unfolded q] z _ tw dz _ kl, of n "[]"] a(6) by auto
    have "parse_object (parse_value n) item b = retC (close_list cJSON_Object item ?T b3)"
      using d a(5) reads_next [OF r0(1)] s(1) reads_next [OF s(2)] reads_access [OF s(2), of 0] b3(1)
        reads_next [OF b3(2)]
      by (simp add: parse_object_def Let_def b0_def [symmetric] b1_def [symmetric] del: object_loop.simps)
    then show ?thesis using close [OF b3(2,3)] pw by simp
  qed
qed

subsection \<open>All values\<close>

fun nesting :: "json \<Rightarrow> nat" where
  "nesting (JArray js) = 1 + foldr max (map nesting js) 0"
| "nesting (JObject ms) = 1 + foldr max (map (\<lambda>(k, j). nesting j) ms) 0"
| "nesting _ = 0"

lemma foldr_max: "x \<in> set xs \<Longrightarrow> x \<le> foldr max xs (0 :: nat)"
  by (induction xs) auto

lemma roundtrips_all: "roundtrips j"
proof (induction j)
  case (JArray js)
  then show ?case by (intro roundtrips_array) simp
next
  case (JObject ms)
  have "roundtrips j" if "(s, j) \<in> set ms" for s j
    by (rule JObject [OF that]) simp
  then show ?case by (intro roundtrips_object) auto
qed (rule roundtrips_scalar)+

lemma elements_exist: "\<forall>c \<in> set cs. json_text fmt d c \<noteq> None \<Longrightarrow> elements_text fmt d cs \<noteq> None"
  by (induction cs) auto

lemma members_exist: "\<forall>c \<in> set cs. json_text fmt d c \<noteq> None \<Longrightarrow> members_text fmt d cs \<noteq> None"
  by (induction cs) auto

lemma text_exists: "json_ok j \<Longrightarrow> d + nesting j \<le> CJSON_NESTING_LIMIT \<Longrightarrow> json_text fmt d (tree nm j) \<noteq> None"
proof (induction j arbitrary: nm d)
  case (JArray js)
  have "json_text fmt (d + 1) (tree None j) \<noteq> None" if j: "j \<in> set js" for j
  proof -
    have "nesting j \<le> foldr max (map nesting js) 0" using j by (intro foldr_max) simp
    then show ?thesis using JArray j by simp
  qed
  then have "elements_text fmt (d + 1) (map (tree None) js) \<noteq> None" by (intro elements_exist) auto
  then show ?case using JArray.prems(2) unfolding text_simps by auto
next
  case (JObject ms)
  have "json_text fmt (d + 1) (tree (Some k) j) \<noteq> None" if j: "(k, j) \<in> set ms" for k j
  proof -
    have "nesting j \<le> foldr max (map (\<lambda>(k, j). nesting j) ms) 0" using j by (intro foldr_max) force
    moreover have "j \<in> Basic_BNFs.snds (k, j)" by simp
    moreover have "json_ok j" using JObject.prems(1) j by auto
    ultimately show ?thesis using JObject.IH [OF j, of j "d + 1" "Some k"] JObject.prems(2) by simp
  qed
  then have "members_text fmt (d + 1) (map (\<lambda>(k, j). tree (Some k) j) ms) \<noteq> None"
    by (intro members_exist) auto
  then show ?case using JObject.prems(2) unfolding text_simps by auto
qed (simp_all add: text_simps del: tree.simps json_text.simps)

lemma no_bom:
  assumes r: "reads b (a # s)" and a: "a \<noteq> 0xEF"
  shows "skip_utf8_bom b = Inr b"
proof (cases "can_access_at_index b 4")
  case True
  then have "rd_bytes (pb_content b) (pb_offset b) 3 = Inr (take 3 (a # s))"
    using r reads_length [OF r] reads_access [OF r] by (simp add: rd_bytes_def reads_def slice_def)
  then show ?thesis using True a by (simp add: skip_utf8_bom_def)
qed (simp add: skip_utf8_bom_def)

lemma parse_text:
  assumes j: "json_ok j" and x: "json_text fmt 0 (tree None j) = Some x" and H: "hooks_good H"
  shows "\<exists>r. cJSON_Parse (x @ [0]) H = Some (Inr r) \<and> pr_item r = Some (tree None j)"
proof -
  have cs: "cstr (x @ [0]) = x" using c_string_text(1) [OF x] by simp
  obtain a t where a: "x = a # t" "\<not> a \<le> 32" "a \<noteq> 0xEF" using hd_text [OF j x] by auto
  define b where "b = \<lparr>pb_content = x @ [0], pb_length = length x + 1, pb_offset = 0, pb_depth = 0, pb_hooks = H\<rparr>"
  have r: "reads b (x @ [0])" using H by (simp add: b_def reads_def)
  obtain H1 where H1: "cJSON_New_Item H = (Some (Item zero_node []), H1)" "reads (b\<lparr>pb_hooks := H1\<rparr>) (x @ [0])"
    using good_item [OF r] by (auto simp: b_def)
  define b1 where "b1 = b\<lparr>pb_hooks := H1\<rparr>"
  have r1: "reads b1 (a # t @ [0])" using H1(2) a(1) by (simp add: b1_def)
  have bom: "skip_utf8_bom b1 = Inr b1" by (rule no_bom [OF r1 a(3)])
  obtain b2 where b2: "parse_value parse_fuel (Item zero_node []) b1 = Some (Inr (True, tree None j, b2))"
    "reads b2 [0]"
  proof -
    have "pb_depth b1 = 0" by (simp add: b1_def b_def)
    moreover have "CJSON_NESTING_LIMIT < parse_fuel + 0" by (simp add: parse_fuel_def)
    moreover have "\<not> number_char 0" by (simp add: number_char_def is_digit_def)
    moreover have "reads b1 (x @ 0 # [])" using r1 a(1) by simp
    ultimately show thesis
      using that roundtrips_all [of j, unfolded roundtrips_def, rule_format, OF j x starts_new] by blast
  qed
  have "\<lparr>pb_content = x @ [0], pb_length = Suc (length x), pb_offset = 0, pb_depth = 0, pb_hooks = H1\<rparr> = b1"
    by (simp add: b1_def b_def)
  then show ?thesis
    using H1(1) bom reads_skip0 [OF r1 a(2)] b2(1)
    by (simp add: cJSON_Parse_def cJSON_ParseWithOpts_def cs cJSON_ParseWithLengthOpts_def retC_def)
qed

text \<open>
  C11. Printing and parsing again gives the same tree: for every JSON value whose numbers are 32-bit
  integers and whose strings hold no NUL, \<open>cJSON_Print\<close> and \<open>cJSON_PrintUnformatted\<close> return NULL
  only when the value is nested deeper than CJSON_NESTING_LIMIT or its text is too long for an int;
  otherwise \<open>cJSON_Parse\<close> accepts the string they return and gives a tree equal to the one printed.
\<close>

theorem cjson_roundtrip:
  assumes "json_ok j" "hooks_good H"
  shows "\<exists>out H'. (if fmt then cJSON_Print (tree None j) H else cJSON_PrintUnformatted (tree None j) H) = Inr (out, H') \<and>
    (case out of
       None \<Rightarrow> CJSON_NESTING_LIMIT < nesting j \<or> int_max < length (the (json_text fmt 0 (tree None j))) + 2
     | Some s \<Rightarrow> \<exists>r. cJSON_Parse s H' = Some (Inr r) \<and> pr_item r = Some (tree None j))"
proof -
  obtain out H' where r: "print (tree None j) fmt H = Inr (out, H')" "print_result fmt (tree None j) H (out, H')"
    using print_ok [of "tree None j" fmt H] by auto
  have e: "(if fmt then cJSON_Print (tree None j) H else cJSON_PrintUnformatted (tree None j) H) = print (tree None j) fmt H"
    by (simp add: cJSON_Print_def cJSON_PrintUnformatted_def)
  show ?thesis
  proof (cases out)
    case None
    then have "CJSON_NESTING_LIMIT < nesting j \<or> int_max < length (the (json_text fmt 0 (tree None j))) + 2"
      using r(2) text_exists [OF assms(1), of 0 fmt None] assms(2)
      by (cases "json_text fmt 0 (tree None j)"; cases "nesting j \<le> CJSON_NESTING_LIMIT") (auto simp: print_result_def)
    then show ?thesis unfolding e r(1) using None by simp
  next
    case (Some s)
    then obtain x where x: "json_text fmt 0 (tree None j) = Some x" "s = x @ [0]" and st: "hooks_step 1 H H'"
      using r(2) by (auto simp: print_result_def split: option.splits)
    show ?thesis unfolding e r(1)
      using parse_text [OF assms(1) x(1) hooks_good_step [OF assms(2) st]] Some x(2) by simp
  qed
qed

theorem cjson_roundtrip_witness:
  "\<exists>out H'. cJSON_PrintUnformatted (tree None (JArray [JInt 7, JNull]))
       \<lparr>ha_ok = \<lambda>_. True, ha_requests = 0, ha_live = 0, ha_realloc = True, ha_junk = \<lambda>_ _. 0\<rparr> = Inr (out, H') \<and>
     (\<exists>s r. out = Some s \<and> cJSON_Parse s H' = Some (Inr r) \<and>
        pr_item r = Some (tree None (JArray [JInt 7, JNull])))"
proof -
  let ?j = "JArray [JInt 7, JNull]"
  have 1: "json_ok ?j" by (simp add: int_range_def INT_MAX_def INT_MIN_def)
  have 2: "nesting ?j \<le> CJSON_NESTING_LIMIT" by (simp add: CJSON_NESTING_LIMIT_def)
  have i: "int_range 7" by (simp add: int_range_def INT_MAX_def INT_MIN_def)
  have 3: "length (the (json_text False 0 (tree None ?j))) + 2 \<le> int_max"
    using length_dec_int [OF i]
    by (simp add: text_simps i CJSON_NESTING_LIMIT_def comma_text_def ascii_def int_max_def INT_MAX_def
        del: tree.simps json_text.simps)
  show ?thesis
    using cjson_roundtrip [OF 1, of "\<lparr>ha_ok = \<lambda>_. True, ha_requests = 0, ha_live = 0, ha_realloc = True, ha_junk = \<lambda>_ _. 0\<rparr>" False] 2 3
    by (auto simp: hooks_good_def split: option.splits)
qed

end
