(* ===== verification/Cjson_Minify.thy ===== *)
theory Cjson_Minify
  imports Cjson_Roundtrip
begin

text \<open>
  \<open>cJSON_Minify\<close> (\<open>cJSON.c\<close>), in place on the array that holds the string: the read position
  \<open>json\<close> runs ahead of the write position \<open>into\<close>. It is shown to be the function \<open>minify_text\<close> on the string,
  and to turn formatted text into unformatted text when no string ends in a backslash.
\<close>

section \<open>The code\<close>

function oneline_from :: "bytes \<Rightarrow> nat \<Rightarrow> fault + nat" where
  "oneline_from buf i =
     bindE (rd buf i) (\<lambda>c.
       if c = 0 then Inr i else if c = 0x0A then Inr (i + 1) else oneline_from buf (i + 1))"
  by pat_completeness auto
termination by (relation "measure (\<lambda>(buf, i). length buf - i)") (auto simp: rd_def split: if_splits)

definition skip_oneline_comment :: "bytes \<Rightarrow> nat \<Rightarrow> fault + nat" where
  "skip_oneline_comment buf input = oneline_from buf (input + 2)"

function multiline_from :: "bytes \<Rightarrow> nat \<Rightarrow> fault + nat" where
  "multiline_from buf i =
     bindE (rd buf i) (\<lambda>c.
       if c = 0 then Inr i
       else if c = 0x2A
            then bindE (rd buf (i + 1)) (\<lambda>e. if e = 0x2F then Inr (i + 2) else multiline_from buf (i + 1))
            else multiline_from buf (i + 1))"
  by pat_completeness auto
termination by (relation "measure (\<lambda>(buf, i). length buf - i)") (auto simp: rd_def split: if_splits)

definition skip_multiline_comment :: "bytes \<Rightarrow> nat \<Rightarrow> fault + nat" where
  "skip_multiline_comment buf input = multiline_from buf (input + 2)"

lemma rd_below: "rd buf i = Inr c \<Longrightarrow> i < length buf"
  by (simp add: rd_def split: if_splits)

lemma wr_length: "wr_bytes buf i bs = Inr buf' \<Longrightarrow> length buf' = length buf"
  by (auto simp: wr_bytes_def split: if_splits)

function string_from :: "bytes \<Rightarrow> nat \<Rightarrow> nat \<Rightarrow> fault + bytes \<times> nat \<times> nat" where
  "string_from buf i p =
     bindE (rd buf i) (\<lambda>c.
       if c = 0 then Inr (buf, i, p)
       else bindE (wr_bytes buf p [c]) (\<lambda>buf.
         bindE (rd buf i) (\<lambda>c.
           if c = 0x22 then bindE (wr_bytes buf p [0x22]) (\<lambda>buf. Inr (buf, i + 1, p + 1))
           else if c = 0x5C
                then bindE (rd buf (i + 1)) (\<lambda>e.
                  if e = 0x22 then bindE (wr_bytes buf (p + 1) [e]) (\<lambda>buf. string_from buf (i + 2) (p + 2))
                  else string_from buf (i + 1) (p + 1))
                else string_from buf (i + 1) (p + 1))))"
  by pat_completeness auto
termination
  by (relation "measure (\<lambda>(buf, i, p). length buf - i)") (auto dest!: rd_below wr_length)

declare oneline_from.simps [simp del] multiline_from.simps [simp del] string_from.simps [simp del]

definition minify_string :: "bytes \<Rightarrow> nat \<Rightarrow> nat \<Rightarrow> fault + bytes \<times> nat \<times> nat" where
  "minify_string buf input p =
     bindE (rd buf input) (\<lambda>c. bindE (wr_bytes buf p [c]) (\<lambda>buf. string_from buf (input + 1) (p + 1)))"

lemma oneline_le: "oneline_from buf i = Inr k \<Longrightarrow> i \<le> k"
proof (induction buf i rule: oneline_from.induct)
  case (1 buf i)
  show ?case using "1.prems" "1.IH"
    by (subst (asm) oneline_from.simps) (force simp: comp_simps split: if_splits)
qed

lemma multiline_le: "multiline_from buf i = Inr k \<Longrightarrow> i \<le> k"
proof (induction buf i rule: multiline_from.induct)
  case (1 buf i)
  show ?case using "1.prems" "1.IH"
    by (subst (asm) multiline_from.simps) (force simp: comp_simps split: if_splits)
qed

lemma string_from_le: "string_from buf i p = Inr (buf', k, q) \<Longrightarrow> i \<le> k \<and> length buf' = length buf"
proof (induction buf i p rule: string_from.induct)
  case (1 buf i p)
  show ?case using "1.prems" "1.IH"
    by (subst (asm) string_from.simps) (force simp: comp_simps dest: wr_length split: if_splits)
qed

lemma minify_string_le:
  "minify_string buf i p = Inr (buf', k, q) \<Longrightarrow> i < k \<and> length buf' = length buf"
  by (auto simp: minify_string_def comp_simps dest!: wr_length string_from_le)

function minify_from :: "bytes \<Rightarrow> nat \<Rightarrow> nat \<Rightarrow> fault + bytes" where
  "minify_from buf json into =
     bindE (rd buf json) (\<lambda>c.
       if c = 0 then wr_bytes buf into [0]
       else if c = 0x20 \<or> c = 0x09 \<or> c = 0x0D \<or> c = 0x0A then minify_from buf (json + 1) into
       else if c = 0x2F
            then bindE (rd buf (json + 1)) (\<lambda>e.
              if e = 0x2F then bindE (skip_oneline_comment buf json) (\<lambda>json. minify_from buf json into)
              else if e = 0x2A then bindE (skip_multiline_comment buf json) (\<lambda>json. minify_from buf json into)
              else minify_from buf (json + 1) into)
       else if c = 0x22
            then bindE (minify_string buf json into) (\<lambda>(buf, json, into). minify_from buf json into)
       else bindE (wr_bytes buf into [c]) (\<lambda>buf. minify_from buf (json + 1) (into + 1)))"
  by pat_completeness auto
termination
  by (relation "measure (\<lambda>(buf, json, into). length buf - json)")
    (auto simp: skip_oneline_comment_def skip_multiline_comment_def
      dest!: rd_below wr_length oneline_le multiline_le minify_string_le)

declare minify_from.simps [simp del]

text \<open>The argument is the array that holds the string; NULL is ignored.\<close>

definition cJSON_Minify :: "bytes option \<Rightarrow> fault + bytes option" where
  "cJSON_Minify json =
     (case json of None \<Rightarrow> Inr None | Some buf \<Rightarrow> bindE (minify_from buf 0 0) (\<lambda>buf. Inr (Some buf)))"

section \<open>The function on strings\<close>

fun after_line :: "bytes \<Rightarrow> bytes" where
  "after_line [] = []"
| "after_line (c # s) = (if c = 0x0A then s else after_line s)"

fun after_block :: "bytes \<Rightarrow> bytes" where
  "after_block [] = []"
| "after_block [c] = []"
| "after_block (c # e # s) = (if c = 0x2A \<and> e = 0x2F then s else after_block (e # s))"

text \<open>The rest of a string with its closing quote, and what follows it.\<close>

fun string_split :: "bytes \<Rightarrow> bytes \<times> bytes" where
  "string_split [] = ([], [])"
| "string_split (c # s) =
     (if c = 0x22 then ([0x22], s)
      else if c = 0x5C \<and> s \<noteq> [] \<and> hd s = 0x22
           then (case string_split (tl s) of (a, r) \<Rightarrow> (0x5C # 0x22 # a, r))
           else (case string_split s of (a, r) \<Rightarrow> (c # a, r)))"

lemma after_line_length: "length (after_line s) \<le> length s"
  by (induction s) auto

lemma after_block_length: "length (after_block s) \<le> length s"
  by (induction s rule: after_block.induct) auto

lemma string_split_length: "length (snd (string_split s)) \<le> length s"
  by (induction s rule: string_split.induct) (auto split: prod.splits)

function minify_text :: "bytes \<Rightarrow> bytes" where
  "minify_text [] = []"
| "minify_text (c # s) =
     (if c = 0x20 \<or> c = 0x09 \<or> c = 0x0D \<or> c = 0x0A then minify_text s
      else if c = 0x2F
           then (if s \<noteq> [] \<and> hd s = 0x2F then minify_text (after_line (tl s))
                 else if s \<noteq> [] \<and> hd s = 0x2A then minify_text (after_block (tl s))
                 else minify_text s)
      else if c = 0x22 then 0x22 # fst (string_split s) @ minify_text (snd (string_split s))
      else c # minify_text s)"
  by pat_completeness auto
termination
  by (relation "measure length")
    (auto simp: less_Suc_eq_le string_split_length intro: le_trans [OF after_line_length] le_trans [OF after_block_length])

section \<open>The code computes the function\<close>

lemma rd_drop: "drop i buf = c # s \<Longrightarrow> rd buf i = Inr c \<and> drop (i + 1) buf = s"
  by (metis Cons_nth_drop_Suc Suc_eq_plus1 drop_all list.inject list.simps(3) not_le rd_def)

lemma write_behind:
  assumes "p \<le> i" "drop i buf = c # s"
  shows "wr_bytes buf p [c] = Inr (buf[p := c])" "drop i (buf[p := c]) = c # s" "take (p + 1) (buf[p := c]) = take p buf @ [c]"
proof -
  have i: "i < length buf" "buf ! i = c" using assms(2)
    by (metis drop_all list.simps(3) not_le, metis assms(2) hd_drop_conv_nth drop_all list.sel(1) list.simps(3) not_le)
  then have p: "p < length buf" using assms(1) by simp
  show "wr_bytes buf p [c] = Inr (buf[p := c])" using p by (simp add: wr_bytes_def write_at_single)
  show "take (p + 1) (buf[p := c]) = take p buf @ [c]" using p by (simp add: take_Suc_conv_app_nth)
  show "drop i (buf[p := c]) = c # s"
  proof (cases "p = i")
    case True
    then show ?thesis using assms(2) i(2) by (metis list_update_id)
  qed (use assms in simp)
qed

lemma oneline_text:
  "drop i buf = s @ 0 # rest \<Longrightarrow> c_string s \<Longrightarrow> \<exists>k. oneline_from buf i = Inr k \<and> i \<le> k \<and> drop k buf = after_line s @ 0 # rest"
proof (induction s arbitrary: i)
  case Nil
  then show ?case using rd_drop [of i buf 0] by (subst oneline_from.simps) simp
next
  case (Cons c s)
  have d: "rd buf i = Inr c" "drop (i + 1) buf = s @ 0 # rest" using rd_drop [of i buf c] Cons.prems(1) by auto
  show ?case using Cons.IH [OF d(2)] Cons.prems(2) d by (subst oneline_from.simps) (fastforce)
qed

lemma multiline_text:
  "drop i buf = s @ 0 # rest \<Longrightarrow> c_string s \<Longrightarrow> \<exists>k. multiline_from buf i = Inr k \<and> i \<le> k \<and> drop k buf = after_block s @ 0 # rest"
proof (induction s arbitrary: i rule: after_block.induct)
  case 1
  then show ?case using rd_drop [of i buf 0] by (subst multiline_from.simps) simp
next
  case (2 c)
  have d: "rd buf i = Inr c" "drop (i + 1) buf = 0 # rest" using rd_drop [of i buf c] "2.prems"(1) by auto
  have e: "rd buf (i + 1) = Inr 0" using rd_drop [OF d(2)] by simp
  have "multiline_from buf (i + 1) = Inr (i + 1)" using e by (subst multiline_from.simps) simp
  then show ?case using d e "2.prems"(2) by (subst multiline_from.simps) simp
next
  case (3 c e s)
  have d: "rd buf i = Inr c" "drop (i + 1) buf = (e # s) @ 0 # rest" using rd_drop [of i buf c] "3.prems"(1) by auto
  have e: "rd buf (i + 1) = Inr e" "drop (i + 1 + 1) buf = s @ 0 # rest" using rd_drop [of "i + 1" buf e] d(2) by auto
  show ?case
  proof (cases "c = 0x2A \<and> e = 0x2F")
    case True
    then show ?thesis using d e by (subst multiline_from.simps) simp
  next
    case False
    obtain k where k: "multiline_from buf (i + 1) = Inr k" "i + 1 \<le> k" "drop k buf = after_block (e # s) @ 0 # rest"
      using "3.IH" [OF False d(2)] "3.prems"(2) by auto
    have "multiline_from buf i = multiline_from buf (i + 1)"
      using False d(1) e(1) "3.prems"(2) by (subst multiline_from.simps) auto
    then show ?thesis using k False by auto
  qed
qed

lemma string_text:
  "drop i buf = s @ 0 # rest \<Longrightarrow> c_string s \<Longrightarrow> p \<le> i \<Longrightarrow>
   \<exists>buf' k q. string_from buf i p = Inr (buf', k, q) \<and> q \<le> k \<and> take q buf' = take p buf @ fst (string_split s) \<and>
     drop k buf' = snd (string_split s) @ 0 # rest"
proof (induction s arbitrary: i p buf rule: string_split.induct)
  case 1
  then show ?case using rd_drop [of i buf 0] by (subst string_from.simps) simp
next
  case (2 c s)
  have d: "drop i buf = c # s @ 0 # rest" "rd buf i = Inr c" "c \<noteq> 0" "c_string s"
    using rd_drop [of i buf c] "2.prems"(1,2) by auto
  note w = write_behind [OF "2.prems"(3) d(1)]
  let ?b = "buf[p := c]"
  have r: "rd ?b i = Inr c" "drop (i + 1) ?b = s @ 0 # rest" using rd_drop [OF w(2)] by auto
  show ?case
  proof (cases "c = 0x22")
    case True
    have "wr_bytes ?b p [0x22] = Inr ?b" using write_behind(1) [OF "2.prems"(3) w(2)] True by simp
    then show ?thesis using True d w r "2.prems"(3) by (subst string_from.simps) simp
  next
    case q: False
    show ?thesis
    proof (cases "c = 0x5C \<and> s \<noteq> [] \<and> hd s = 0x22")
      case True
      then obtain s' where s': "s = 0x22 # s'" by (cases s) auto
      have r2: "rd ?b (i + 1) = Inr 0x22" "drop (i + 1 + 1) ?b = s' @ 0 # rest" using rd_drop [of "i + 1" ?b "0x22"] r(2) s' by auto
      have "p + 1 \<le> i + 1" using "2.prems"(3) by simp
      note w2 = write_behind [OF this, of ?b "0x22" "s' @ 0 # rest"]
      let ?c = "?b[p + 1 := 0x22]"
      have w2': "wr_bytes ?b (p + 1) [0x22] = Inr ?c" "drop (i + 2) ?c = s' @ 0 # rest" "take (p + 2) ?c = take p buf @ [0x5C, 0x22]"
        using w2 r(2) s' w(3) True rd_drop [of "i + 1" ?c "0x22"] by auto
      have "c_string (tl s)" "p + 2 \<le> i + 2" using d(4) s' "2.prems"(3) by simp_all
      from "2.IH"(1) [OF q True _ this(1) this(2), of ?c] w2'(2) s' obtain b' k q' where
        IH: "string_from ?c (i + 2) (p + 2) = Inr (b', k, q')" "q' \<le> k" "take q' b' = take (p + 2) ?c @ fst (string_split s')"
        "drop k b' = snd (string_split s') @ 0 # rest" by auto
      have "string_from buf i p = string_from ?c (i + 2) (p + 2)"
        using True d w r r2(1) w2'(1) by (subst string_from.simps) simp
      then show ?thesis using IH w2'(3) True s' q by (auto split: prod.splits)
    next
      case False
      have "p + 1 \<le> i + 1" using "2.prems"(3) by simp
      from "2.IH"(2) [OF q False r(2) d(4) this] obtain b' k q' where
        IH: "string_from ?b (i + 1) (p + 1) = Inr (b', k, q')" "q' \<le> k" "take q' b' = take (p + 1) ?b @ fst (string_split s)"
        "drop k b' = snd (string_split s) @ 0 # rest" by auto
      have "string_from buf i p = string_from ?b (i + 1) (p + 1)"
      proof (cases "c = 0x5C")
        case c: True
        obtain e where e: "rd ?b (i + 1) = Inr e" "e \<noteq> 0x22"
          using r(2) False c by (cases s) (auto dest: rd_drop)
        then show ?thesis using c d w r q by (subst string_from.simps) simp
      qed (use d w r q in \<open>subst string_from.simps, simp\<close>)
      then show ?thesis using IH w(3) False q by (auto split: prod.splits)
    qed
  qed
qed

lemma c_string_parts:
  "c_string s \<Longrightarrow> c_string (after_line s)" "c_string s \<Longrightarrow> c_string (after_block s)"
  "c_string s \<Longrightarrow> c_string (snd (string_split s)) \<and> c_string (fst (string_split s))"
proof -
  show "c_string s \<Longrightarrow> c_string (after_line s)" by (induction s) auto
  show "c_string s \<Longrightarrow> c_string (after_block s)" by (induction s rule: after_block.induct) auto
  show "c_string s \<Longrightarrow> c_string (snd (string_split s)) \<and> c_string (fst (string_split s))"
  proof (induction s rule: string_split.induct)
    case (2 c s)
    then show ?case by (cases s) (auto split: prod.splits)
  qed simp
qed

definition minified :: "fault + bytes \<Rightarrow> bytes \<Rightarrow> bool" where
  "minified r x \<longleftrightarrow> (\<exists>buf' junk. r = Inr buf' \<and> buf' = x @ 0 # junk)"

lemma minify_loop:
  "drop i buf = s @ 0 # rest \<Longrightarrow> c_string s \<Longrightarrow> p \<le> i \<Longrightarrow>
   minified (minify_from buf i p) (take p buf @ minify_text s)"
proof (induction s arbitrary: i p buf rule: minify_text.induct)
  case 1
  have d: "rd buf i = Inr 0" "i < length buf" using rd_drop [of i buf 0 rest] rd_below [of buf i 0] "1.prems"(1) by auto
  then have "p < length buf" using "1.prems"(3) by simp
  then have "wr_bytes buf p [0] = Inr (take p buf @ 0 # drop (p + 1) buf)" by (simp add: wr_bytes_def write_at_def)
  then show ?case using d by (subst minify_from.simps) (simp add: minified_def)
next
  case (2 c s)
  have d: "drop i buf = c # s @ 0 # rest" "rd buf i = Inr c" "drop (i + 1) buf = s @ 0 # rest" "c \<noteq> 0" "c_string s"
    using rd_drop [of i buf c] "2.prems"(1,2) by auto
  have p1: "p \<le> i + 1" using "2.prems"(3) by simp
  note w = write_behind [OF "2.prems"(3) d(1)]
  consider (space) "c = 0x20 \<or> c = 0x09 \<or> c = 0x0D \<or> c = 0x0A" | (slash) "c = 0x2F" | (quote) "c = 0x22"
    | (other) "\<not> (c = 0x20 \<or> c = 0x09 \<or> c = 0x0D \<or> c = 0x0A)" "c \<noteq> 0x2F" "c \<noteq> 0x22" by blast
  then show ?case
  proof cases
    case space
    have "minify_from buf i p = minify_from buf (i + 1) p" using space d by (subst minify_from.simps) auto
    then show ?thesis using "2.IH"(1) [OF space d(3,5) p1] space by auto
  next
    case slash
    then have ns: "\<not> (c = 0x20 \<or> c = 0x09 \<or> c = 0x0D \<or> c = 0x0A)" by simp
    show ?thesis
    proof (cases "s \<noteq> [] \<and> hd s = 0x2F")
      case True
      then obtain t where s: "s = 0x2F # t" by (cases s) auto
      have e: "rd buf (i + 1) = Inr 0x2F" "drop (i + 2) buf = t @ 0 # rest" using rd_drop [of "i + 1" buf "0x2F"] d(3) s by auto
      obtain k where k: "oneline_from buf (i + 2) = Inr k" "i + 2 \<le> k" "drop k buf = after_line t @ 0 # rest"
        using oneline_text [OF e(2)] d(5) s by auto
      have "minify_from buf i p = minify_from buf k p"
        using slash d e k by (subst minify_from.simps) (simp add: skip_oneline_comment_def)
      then show ?thesis
        using "2.IH"(2) [OF ns slash True, of k buf p] k c_string_parts(1) [of t] d(5) s p1 slash by auto
    next
      case nl: False
      show ?thesis
      proof (cases "s \<noteq> [] \<and> hd s = 0x2A")
        case True
        then obtain t where s: "s = 0x2A # t" by (cases s) auto
        have e: "rd buf (i + 1) = Inr 0x2A" "drop (i + 2) buf = t @ 0 # rest" using rd_drop [of "i + 1" buf "0x2A"] d(3) s by auto
        obtain k where k: "multiline_from buf (i + 2) = Inr k" "i + 2 \<le> k" "drop k buf = after_block t @ 0 # rest"
          using multiline_text [OF e(2)] d(5) s by auto
        have "minify_from buf i p = minify_from buf k p"
          using slash d e k by (subst minify_from.simps) (simp add: skip_multiline_comment_def)
        then show ?thesis
          using "2.IH"(3) [OF ns slash nl True, of k buf p] k c_string_parts(2) [of t] d(5) s p1 slash by auto
      next
        case nb: False
        obtain e where e: "rd buf (i + 1) = Inr e" "e \<noteq> 0x2F" "e \<noteq> 0x2A"
          using d(3) nl nb by (cases s) (auto dest: rd_drop)
        have "minify_from buf i p = minify_from buf (i + 1) p" using slash d e by (subst minify_from.simps) simp
        then show ?thesis using "2.IH"(4) [OF ns slash nl nb d(3,5) p1] slash nl nb by auto
      qed
    qed
  next
    case quote
    obtain b' k q where b': "string_from (buf[p := c]) (i + 1) (p + 1) = Inr (b', k, q)" "q \<le> k"
      "take q b' = take (p + 1) (buf[p := c]) @ fst (string_split s)" "drop k b' = snd (string_split s) @ 0 # rest"
      using string_text [of "i + 1" "buf[p := c]" s rest "p + 1"] rd_drop [OF w(2)] d(5) "2.prems"(3) by auto
    have "minify_from buf i p = minify_from b' k q"
      using quote d w(1) b'(1) by (subst minify_from.simps) (simp add: minify_string_def)
    then show ?thesis
      using "2.IH"(5) [OF _ _ quote b'(4) _ b'(2)] quote c_string_parts(3) [OF d(5)] b'(3) w(3) by simp
  next
    case other
    have "minify_from buf i p = minify_from (buf[p := c]) (i + 1) (p + 1)"
      using other d w(1) by (subst minify_from.simps) simp
    then show ?thesis
      using "2.IH"(6) [OF other, of "i + 1" "buf[p := c]" "p + 1"] rd_drop [OF w(2)] w(3) d(5) "2.prems"(3) other by simp
  qed
qed

lemma minify_refines:
  assumes "c_string s"
  shows "\<exists>junk. cJSON_Minify (Some (s @ 0 # rest)) = Inr (Some (minify_text s @ 0 # junk))"
  using minify_loop [of 0 "s @ 0 # rest" s rest 0] assms by (auto simp: minified_def cJSON_Minify_def)

section \<open>Formatted and unformatted text\<close>

definition tidy :: "bytes \<Rightarrow> bool" where
  "tidy s \<longleftrightarrow> s = [] \<or> last s \<noteq> 0x5C"

lemma split_copy:
  "c \<noteq> 0x22 \<Longrightarrow> \<not> (c = 0x5C \<and> s \<noteq> [] \<and> hd s = 0x22) \<Longrightarrow>
   string_split (c # s) = (c # fst (string_split s), snd (string_split s))"
  by (auto split: prod.splits)

lemma split_pair: "string_split (0x5C # 0x22 # s) = (0x5C # 0x22 # fst (string_split s), snd (string_split s))"
  by (auto split: prod.splits)

lemma hd_escape: "c \<noteq> 0 \<Longrightarrow> \<exists>a t. escape_text c = a # t \<and> a \<noteq> 0x22"
  by (rule escape_cases) auto

lemma split_escapes:
  "c_string s \<Longrightarrow> tidy s \<Longrightarrow>
   string_split (concat (map escape_text s) @ 0x22 # y) = (concat (map escape_text s) @ [0x22], y)"
proof (induction s)
  case (Cons x s)
  have nz: "x \<noteq> 0" "c_string s" "tidy s" using Cons.prems by (auto simp: tidy_def split: if_splits)
  let ?r = "concat (map escape_text s) @ 0x22 # y"
  note IH = Cons.IH [OF nz(2,3)]
  have hd: "x = 0x5C \<Longrightarrow> hd ?r \<noteq> 0x22"
  proof -
    assume "x = 0x5C"
    then obtain a t where s: "s = a # t" using Cons.prems(2) by (cases s) (auto simp: tidy_def)
    then show "hd ?r \<noteq> 0x22" using hd_escape [of a] nz(2) by auto
  qed
  have r: "?r \<noteq> []" by simp
  show ?case
  proof (rule escape_cases [OF nz(1)])
    assume e: "escape_text x = [x]" "x \<noteq> 0x22" "x \<noteq> 0x5C"
    show ?thesis using split_copy [of x ?r] e IH by (simp del: string_split.simps)
  next
    fix z assume e: "escape_text x = [0x5C, z]" and z: "escape_char z = Some x"
    show ?thesis
    proof (cases "z = 0x22")
      case True
      then show ?thesis using split_pair [of ?r] e IH by (simp del: string_split.simps)
    next
      case False
      have "\<not> (z = 0x5C \<and> ?r \<noteq> [] \<and> hd ?r = 0x22)" using hd z by (auto simp: escape_char_def split: if_splits)
      then have "string_split (z # ?r) = (z # fst (string_split ?r), snd (string_split ?r))"
        by (rule split_copy [OF False])
      moreover have "string_split (0x5C # z # ?r) = (0x5C # fst (string_split (z # ?r)), snd (string_split (z # ?r)))"
        by (rule split_copy) (use False in simp_all)
      ultimately show ?thesis using e IH by (simp del: string_split.simps)
    qed
  next
    assume e: "escape_text x = [0x5C, 0x75, 0x30, 0x30, hex_digit (unat x div 16), hex_digit (unat x mod 16)]"
      and x: "x < 32"
    note h = hex_digit_plain [OF conjunct1 [OF control_digits [OF x]]]
      hex_digit_plain [OF conjunct2 [OF control_digits [OF x]]]
    show ?thesis using e IH h by (simp add: split_copy del: string_split.simps)
  qed
qed simp

definition blank :: "u8 \<Rightarrow> bool" where
  "blank c \<longleftrightarrow> c = 0x20 \<or> c = 0x09 \<or> c = 0x0D \<or> c = 0x0A"

lemma minify_blank: "\<forall>c \<in> set x. blank c \<Longrightarrow> minify_text (x @ y) = minify_text y"
  by (induction x) (auto simp: blank_def)

lemma minify_plain: "\<forall>c \<in> set x. \<not> blank c \<and> c \<noteq> 0x2F \<and> c \<noteq> 0x22 \<Longrightarrow> minify_text (x @ y) = x @ minify_text y"
  by (induction x) (auto simp: blank_def)

lemma minify_quoted: "c_string s \<Longrightarrow> tidy s \<Longrightarrow> minify_text (quoted (Some s) @ y) = quoted (Some s) @ minify_text y"
  using split_escapes [of s y] by (simp add: quoted_def cstr_no_zero)

text \<open>Minifying x, whatever follows, gives y.\<close>

definition minifies :: "bytes \<Rightarrow> bytes \<Rightarrow> bool" where
  "minifies x y \<longleftrightarrow> (\<forall>z. minify_text (x @ z) = y @ minify_text z)"

lemma minifies_append: "minifies x y \<Longrightarrow> minifies x' y' \<Longrightarrow> minifies (x @ x') (y @ y')"
  by (simp add: minifies_def)

lemma minifies_syntax:
  "minifies [] []" "minifies [0x5B] [0x5B]" "minifies [0x5D] [0x5D]" "minifies [0x7D] [0x7D]"
  "minifies (open_text True) (open_text False)" "minifies (comma_text True) (comma_text False)"
  "minifies (colon_text True) (colon_text False)" "minifies (tabs_text True d) (tabs_text False d)"
  "minifies (end_text True sep) (end_text False sep)"
  using minify_blank [of "replicate d 0x09"]
  by (auto simp: minifies_def open_text_def comma_text_def colon_text_def tabs_text_def end_text_def blank_def)

lemma elements_minify:
  "\<forall>c \<in> set cs. \<forall>x. json_text True d c = Some x \<longrightarrow> (\<exists>y. json_text False d c = Some y \<and> minifies x y) \<Longrightarrow>
   elements_text True d cs = Some x \<Longrightarrow> \<exists>y. elements_text False d cs = Some y \<and> minifies x y"
proof (induction cs arbitrary: x)
  case (Cons c cs)
  obtain u v where u: "json_text True d c = Some u" "x = u @ v"
    "(if cs \<noteq> [] then cat2 (Some (comma_text True)) (elements_text True d cs) else elements_text True d cs) = Some v"
    using Cons.prems(2) by (auto simp: cat2_Some_iff)
  obtain u' where u': "json_text False d c = Some u'" "minifies u u'" using Cons.prems(1) u(1) by auto
  show ?case
  proof (cases "cs = []")
    case True
    then show ?thesis using u u' by auto
  next
    case False
    then obtain w where w: "elements_text True d cs = Some w" "v = comma_text True @ w" using u(3) by (auto simp: cat2_Some_iff)
    obtain w' where w': "elements_text False d cs = Some w'" "minifies w w'" using Cons.IH [OF _ w(1)] Cons.prems(1) by auto
    then show ?thesis
      using minifies_append [OF u'(2) minifies_append [OF minifies_syntax(6) w'(2)]] u u' w False by simp
  qed
qed (simp add: minifies_syntax)

lemma members_minify:
  "\<forall>c \<in> set cs. (\<forall>x. json_text True d c = Some x \<longrightarrow> (\<exists>y. json_text False d c = Some y \<and> minifies x y)) \<and>
     minifies (quoted (cj_string (node c))) (quoted (cj_string (node c))) \<Longrightarrow>
   members_text True d cs = Some x \<Longrightarrow> \<exists>y. members_text False d cs = Some y \<and> minifies x y"
proof (induction cs arbitrary: x)
  case (Cons c cs)
  obtain u v where u: "json_text True d c = Some u" "members_text True d cs = Some v"
    "x = tabs_text True d @ quoted (cj_string (node c)) @ colon_text True @ u @ end_text True (cs \<noteq> []) @ v"
    using Cons.prems(2) by (auto simp: cat2_Some_iff)
  obtain u' v' where u': "json_text False d c = Some u'" "minifies u u'" "members_text False d cs = Some v'" "minifies v v'"
    using Cons.IH [OF _ u(2)] Cons.prems(1) u(1) by auto
  show ?case using u'
    by (auto simp: u(3) intro!: minifies_append minifies_syntax bspec [OF Cons.prems(1), THEN conjunct2])
qed (simp add: minifies_syntax)

lemma foreign_to_blank:
  "\<forall>c \<in> set (dec_int i). \<not> blank c \<and> c \<noteq> 0x2F \<and> c \<noteq> 0x22"
  using number_char_dec_int [of i] by (auto simp: number_char_def blank_def is_digit_unat word_le_nat_alt)

lemma text_minify:
  "json_ok j \<Longrightarrow> \<forall>s \<in> strings_of j. tidy s \<Longrightarrow> json_text True d (tree nm j) = Some x \<Longrightarrow>
   \<exists>y. json_text False d (tree nm j) = Some y \<and> minifies x y"
proof (induction j arbitrary: nm d x)
  case JNull
  then show ?case unfolding text_simps by (auto simp: minifies_def ascii_def)
next
  case (JBool v)
  then show ?case unfolding text_simps by (cases v) (auto simp: minifies_def ascii_def)
next
  case (JInt i)
  then have "int_range i" by simp
  with JInt show ?case using minify_plain [OF foreign_to_blank [of i]] unfolding text_simps(3) [OF \<open>int_range i\<close>]
    by (auto simp: minifies_def)
next
  case (JString s)
  then show ?case using minify_quoted [of s] unfolding text_simps by (auto simp: minifies_def)
next
  case (JArray js)
  obtain e where e: "\<not> CJSON_NESTING_LIMIT \<le> d" "elements_text True (d + 1) (map (tree None) js) = Some e"
    "x = [0x5B] @ e @ [0x5D]"
    using JArray.prems(3) unfolding text_simps by (auto simp: cat2_Some_iff split: if_splits)
  have "\<forall>c \<in> set (map (tree None) js). \<forall>x. json_text True (d + 1) c = Some x \<longrightarrow>
      (\<exists>y. json_text False (d + 1) c = Some y \<and> minifies x y)"
    using JArray.IH JArray.prems(1,2) by auto
  from elements_minify [OF this e(2)] obtain y where y: "elements_text False (d + 1) (map (tree None) js) = Some y" "minifies e y"
    by blast
  then show ?case
    using minifies_append [OF minifies_syntax(2) minifies_append [OF y(2) minifies_syntax(3)]] e(1,3)
    unfolding text_simps by (simp del: append.simps)
next
  case (JObject ms)
  let ?T = "map (\<lambda>(s, j). tree (Some s) j) ms"
  obtain e where e: "\<not> CJSON_NESTING_LIMIT \<le> d" "members_text True (d + 1) ?T = Some e"
    "x = open_text True @ e @ tabs_text True d @ [0x7D]"
    using JObject.prems(3) unfolding text_simps by (auto simp: cat2_Some_iff split: if_splits)
  have "(\<forall>x. json_text True (d + 1) (tree (Some k) j) = Some x \<longrightarrow>
        (\<exists>y. json_text False (d + 1) (tree (Some k) j) = Some y \<and> minifies x y)) \<and>
      minifies (quoted (Some k)) (quoted (Some k))" if m: "(k, j) \<in> set ms" for k j
  proof -
    have ok: "json_ok j" "c_string k" using JObject.prems(1) m by auto
    have s: "\<forall>s \<in> strings_of j. tidy s" "tidy k" using JObject.prems(2) m by fastforce+
    have snd: "j \<in> Basic_BNFs.snds (k, j)" by simp
    show ?thesis using JObject.IH [OF m snd ok(1) s(1)] minify_quoted [OF ok(2) s(2)] unfolding minifies_def by blast
  qed
  then have "\<forall>c \<in> set ?T. (\<forall>x. json_text True (d + 1) c = Some x \<longrightarrow>
        (\<exists>y. json_text False (d + 1) c = Some y \<and> minifies x y)) \<and>
      minifies (quoted (cj_string (node c))) (quoted (cj_string (node c)))"
    unfolding set_map ball_simps(9) split_beta by (simp only: name_tree) force
  from members_minify [OF this e(2)] obtain y where y: "members_text False (d + 1) ?T = Some y" "minifies e y"
    by blast
  have "minifies x (open_text False @ y @ tabs_text False d @ [0x7D])"
    unfolding e(3) by (intro minifies_append minifies_syntax y)
  then show ?case using y(1) e(1) unfolding text_simps by simp
qed

text \<open>
  C40. \<open>cJSON_Minify\<close> undoes formatting: on the formatted text of every value none of whose strings ends in a
  backslash, followed by its terminator and anything else in the array, it stays inside the array and leaves
  the unformatted text of the value.
\<close>

theorem minify_formatted:
  assumes "json_ok j" "\<forall>s \<in> strings_of j. tidy s" "json_text True 0 (tree None j) = Some x"
  shows "\<exists>y junk. json_text False 0 (tree None j) = Some y \<and>
    cJSON_Minify (Some (x @ 0 # rest)) = Inr (Some (y @ 0 # junk))"
proof -
  obtain y where y: "json_text False 0 (tree None j) = Some y" "minifies x y" using text_minify [OF assms] by blast
  moreover have "minify_text x = y"
    using y(2) unfolding minifies_def by (metis append_Nil2 minify_text.simps(1))
  ultimately show ?thesis using minify_refines [OF c_string_text(1) [OF assms(3)], of rest] by auto
qed

theorem minify_formatted_witness:
  "\<exists>x y junk. json_text True 0 (tree None (JObject [([0x61], JNull)])) = Some x \<and>
     json_text False 0 (tree None (JObject [([0x61], JNull)])) = Some y \<and>
     cJSON_Minify (Some (x @ [0])) = Inr (Some (y @ 0 # junk)) \<and> x \<noteq> y"
proof -
  let ?j = "JObject [([0x61], JNull)]"
  have j: "json_ok ?j" "\<forall>s \<in> strings_of ?j. tidy s" by (simp_all add: c_string_def tidy_def)
  obtain x where x: "json_text True 0 (tree None ?j) = Some x" "x \<noteq> the (json_text False 0 (tree None ?j))"
    by (simp add: text_simps CJSON_NESTING_LIMIT_def open_text_def tabs_text_def colon_text_def end_text_def
        del: tree.simps json_text.simps)
  show ?thesis using minify_formatted [OF j x(1), of "[]"] x by fastforce
qed

text \<open>
  A string that ends in a backslash: in its text the closing quote follows two backslashes, and
  \<open>minify_string\<close> takes the second one and the quote for an escaped quote. What is inside and what is outside
  of strings is exchanged from there on, and blanks of later strings are removed: the value changes.
\<close>

lemma minify_corrupts:
  "\<exists>x y junk. json_text False 0 (tree None (JArray [JString [0x5C], JString [0x61, 0x20, 0x62]])) = Some x \<and>
     json_text False 0 (tree None (JArray [JString [0x5C], JString [0x61, 0x62]])) = Some y \<and>
     cJSON_Minify (Some (x @ [0])) = Inr (Some (y @ 0 # junk))"
proof -
  let ?q = "\<lambda>s. [0x5B, 0x22, 0x5C, 0x5C, 0x22, 0x2C, 0x22] @ s @ [0x22, 0x5D]"
  have t: "json_text False 0 (tree None (JArray [JString [0x5C], JString s])) = Some (?q s)"
    if "s = [0x61, 0x20, 0x62] \<or> s = [0x61, 0x62]" for s
    using that by (auto simp: text_simps CJSON_NESTING_LIMIT_def comma_text_def quoted_def cstr_def escape_text_def
        simp del: tree.simps json_text.simps)
  have "c_string (?q [0x61, 0x20, 0x62])" by (simp add: c_string_def)
  moreover have "minify_text (?q [0x61, 0x20, 0x62]) = ?q [0x61, 0x62]" by simp
  ultimately show ?thesis using minify_refines [of "?q [0x61, 0x20, 0x62]" "[]"] t by auto
qed

end
