(* ===== verification/Cjson_Items.thy ===== *)
theory Cjson_Items
  imports Cjson
begin

text \<open>
  Looking at items (\<open>cJSON.c\<close>): size and elements of arrays, members of objects, values and
  kinds. A pointer to an item is \<open>None\<close> for NULL. The case insensitive lookup is the one of the
  Bluetooth commands; both lookups are shown to be \<open>find\<close> on the list of members.
\<close>

section \<open>Elements and members\<close>

definition cJSON_GetArraySize :: "cJSON option \<Rightarrow> int" where
  "cJSON_GetArraySize array =
     (case array of None \<Rightarrow> 0 | Some a \<Rightarrow> sint (of_nat (length (child a)) :: 32 word))"

fun nth_child :: "cJSON list \<Rightarrow> nat \<Rightarrow> cJSON option" where
  "nth_child [] index = None"
| "nth_child (c # cs) index = (if 0 < index then nth_child cs (index - 1) else Some c)"

definition get_array_item :: "cJSON option \<Rightarrow> nat \<Rightarrow> cJSON option" where
  "get_array_item array index = (case array of None \<Rightarrow> None | Some a \<Rightarrow> nth_child (child a) index)"

definition cJSON_GetArrayItem :: "cJSON option \<Rightarrow> int \<Rightarrow> cJSON option" where
  "cJSON_GetArrayItem array index = (if index < 0 then None else get_array_item array (nat index))"

text \<open>
  The two loops over the members: the case sensitive one stops at a member without a name, the other
  one passes it, since a NULL name never compares equal.
\<close>

definition differs :: "bool \<Rightarrow> bytes \<Rightarrow> bytes option \<Rightarrow> bool" where
  "differs case_sensitive name s =
     (if case_sensitive then (case s of None \<Rightarrow> False | Some s \<Rightarrow> cstr name \<noteq> cstr s)
      else case_insensitive_strcmp (Some name) s \<noteq> 0)"

fun find_member :: "bool \<Rightarrow> bytes \<Rightarrow> cJSON list \<Rightarrow> cJSON option" where
  "find_member case_sensitive name [] = None"
| "find_member case_sensitive name (c # cs) =
     (if differs case_sensitive name (cj_string (node c)) then find_member case_sensitive name cs
      else if cj_string (node c) = None then None else Some c)"

definition get_object_item :: "cJSON option \<Rightarrow> bytes option \<Rightarrow> bool \<Rightarrow> cJSON option" where
  "get_object_item object name case_sensitive =
     (case (object, name) of
        (Some ob, Some name) \<Rightarrow> find_member case_sensitive name (child ob)
      | _ \<Rightarrow> None)"

definition cJSON_GetObjectItem :: "cJSON option \<Rightarrow> bytes option \<Rightarrow> cJSON option" where
  "cJSON_GetObjectItem object name = get_object_item object name False"

definition cJSON_GetObjectItemCaseSensitive :: "cJSON option \<Rightarrow> bytes option \<Rightarrow> cJSON option" where
  "cJSON_GetObjectItemCaseSensitive object name = get_object_item object name True"

definition cJSON_HasObjectItem :: "cJSON option \<Rightarrow> bytes option \<Rightarrow> bool" where
  "cJSON_HasObjectItem object name = (cJSON_GetObjectItem object name \<noteq> None)"

section \<open>Kinds and values\<close>

definition kind_is :: "u32 \<Rightarrow> cJSON option \<Rightarrow> bool" where
  "kind_is k item = (case item of None \<Rightarrow> False | Some i \<Rightarrow> cj_type (node i) AND 0xFF = k)"

definition cJSON_IsInvalid :: "cJSON option \<Rightarrow> bool" where "cJSON_IsInvalid item = kind_is cJSON_Invalid item"
definition cJSON_IsFalse :: "cJSON option \<Rightarrow> bool" where "cJSON_IsFalse item = kind_is cJSON_False item"
definition cJSON_IsTrue :: "cJSON option \<Rightarrow> bool" where "cJSON_IsTrue item = kind_is cJSON_True item"
definition cJSON_IsBool :: "cJSON option \<Rightarrow> bool" where
  "cJSON_IsBool item =
     (case item of None \<Rightarrow> False | Some i \<Rightarrow> cj_type (node i) AND (cJSON_True OR cJSON_False) \<noteq> 0)"
definition cJSON_IsNull :: "cJSON option \<Rightarrow> bool" where "cJSON_IsNull item = kind_is cJSON_NULL item"
definition cJSON_IsNumber :: "cJSON option \<Rightarrow> bool" where "cJSON_IsNumber item = kind_is cJSON_Number item"
definition cJSON_IsString :: "cJSON option \<Rightarrow> bool" where "cJSON_IsString item = kind_is cJSON_String item"
definition cJSON_IsArray :: "cJSON option \<Rightarrow> bool" where "cJSON_IsArray item = kind_is cJSON_Array item"
definition cJSON_IsObject :: "cJSON option \<Rightarrow> bool" where "cJSON_IsObject item = kind_is cJSON_Object item"
definition cJSON_IsRaw :: "cJSON option \<Rightarrow> bool" where "cJSON_IsRaw item = kind_is cJSON_Raw item"

definition cJSON_GetStringValue :: "cJSON option \<Rightarrow> bytes option" where
  "cJSON_GetStringValue item =
     (case item of Some i \<Rightarrow> if cJSON_IsString item then cj_valuestring (node i) else None | None \<Rightarrow> None)"

definition cJSON_GetNumberValue :: "cJSON option \<Rightarrow> double" where
  "cJSON_GetNumberValue item =
     (case item of Some i \<Rightarrow> if cJSON_IsNumber item then cj_valuedouble (node i) else NaN | None \<Rightarrow> NaN)"

definition cJSON_SetNumberHelper :: "cJSON_node \<Rightarrow> double \<Rightarrow> double \<times> cJSON_node" where
  "cJSON_SetNumberHelper n number =
     (number, n\<lparr>cj_valueint := saturate number, cj_valuedouble := number\<rparr>)"

text \<open>
  The new string is one of the caller's, or it points into the item's own string at an offset:
  then the two overlap, and a string that fits is refused.
\<close>

datatype text_ptr = Inside nat | Outside bytes

definition cJSON_SetValuestring ::
  "cJSON_node \<Rightarrow> text_ptr option \<Rightarrow> hooks \<Rightarrow> bytes option \<times> cJSON_node \<times> hooks" where
  "cJSON_SetValuestring n valuestring H =
     (if cj_type n AND cJSON_String = 0 \<or> cj_type n AND cJSON_IsReference \<noteq> 0 then (None, n, H)
      else case (cj_valuestring n, valuestring) of
        (Some own, Some v) \<Rightarrow>
          let s = (case v of Inside k \<Rightarrow> drop k (cstr own) | Outside s \<Rightarrow> cstr s)
          in if length s \<le> length (cstr own)
             then (case v of
                     Inside _ \<Rightarrow> (None, n, H)
                   | Outside _ \<Rightarrow> (Some s, n\<lparr>cj_valuestring := Some s\<rparr>, H))
             else (case cJSON_strdup s H of
                     (None, H) \<Rightarrow> (None, n, H)
                   | (Some copy, H) \<Rightarrow> (Some copy, n\<lparr>cj_valuestring := Some copy\<rparr>, hook_deallocate H))
      | _ \<Rightarrow> (None, n, H))"

section \<open>Lookup is find\<close>

definition same_name :: "bool \<Rightarrow> bytes \<Rightarrow> cJSON \<Rightarrow> bool" where
  "same_name case_sensitive name c \<longleftrightarrow> (\<exists>s. cj_string (node c) = Some s \<and>
     (if case_sensitive then cstr s = cstr name else map tolower (cstr s) = map tolower (cstr name)))"

lemma find_member_nocase: "find_member False name cs = List.find (same_name False name) cs"
  by (induction cs) (auto simp: differs_def same_name_def case_insensitive_strcmp_0)

lemma find_member_case:
  "\<forall>c \<in> set cs. cj_string (node c) \<noteq> None \<Longrightarrow> find_member True name cs = List.find (same_name True name) cs"
  by (induction cs) (auto simp: differs_def same_name_def)

lemma nth_child_nth: "nth_child cs i = (if i < length cs then Some (cs ! i) else None)"
  by (induction cs i rule: nth_child.induct) auto

text \<open>A string of the caller is stored, whatever its length, when memory is there; the item then reads as it.\<close>

lemma set_valuestring_stores:
  assumes "cj_type n = cJSON_String" "cj_valuestring n = Some own" "c_string s" "hooks_good H"
  shows "\<exists>H'. cJSON_SetValuestring n (Some (Outside s)) H = (Some s, n\<lparr>cj_valuestring := Some s\<rparr>, H') \<and>
    ha_live H' = ha_live H"
proof -
  obtain t H1 where a: "hook_allocate H = (t, H1)" by fastforce
  moreover have t using a hooks_good_allocate [OF assms(4)] by simp
  ultimately show ?thesis
    using assms hook_allocate_step [OF a]
    by (auto simp: cJSON_SetValuestring_def cjson_types cjson_flags cJSON_strdup_def cstr_no_zero hooks_step_def
        hook_deallocate_def Let_def)
qed

end
