(* ===== verification/Cjson_Heap.thy ===== *)
theory Cjson_Heap
  imports Cjson_Items
begin

text \<open>
  The items of \<open>cJSON.c\<close> as the pointer structure they are: cells in a heap with \<open>next\<close>, \<open>prev\<close> and \<open>child\<close>,
  and the functions that build and change lists of items. An access through NULL is \<open>Inl NullDeref\<close>, through a
  pointer to a freed cell \<open>Inl OutOfBounds\<close>, freeing a cell twice \<open>Inl InvalidFree\<close>. Strings are values;
  whether an item owns the block of a string is in its type flags. Loops along \<open>next\<close> may not end on
  a cyclic list, so they are \<open>partial_function (option)\<close>.
\<close>

section \<open>Cells\<close>

type_synonym ptr = "nat option"

record cell =
  ce_next :: ptr
  ce_prev :: ptr
  ce_child :: ptr
  ce_node :: cJSON_node

record heap =
  hp_cells :: "nat \<Rightarrow> cell option"
  hp_fresh :: nat
  hp_hooks :: hooks

definition deref :: "ptr \<Rightarrow> heap \<Rightarrow> fault + cell" where
  "deref p h = (case p of None \<Rightarrow> Inl NullDeref
     | Some a \<Rightarrow> (case hp_cells h a of None \<Rightarrow> Inl OutOfBounds | Some c \<Rightarrow> Inr c))"

definition upd :: "nat \<Rightarrow> (cell \<Rightarrow> cell) \<Rightarrow> heap \<Rightarrow> heap" where
  "upd a f h = h\<lparr>hp_cells := (hp_cells h)(a \<mapsto> f (the (hp_cells h a)))\<rparr>"

definition assign :: "ptr \<Rightarrow> (cell \<Rightarrow> cell) \<Rightarrow> heap \<Rightarrow> fault + heap" where
  "assign p f h = bindE (deref p h) (\<lambda>_. Inr (upd (the p) f h))"

definition set_next :: "ptr \<Rightarrow> ptr \<Rightarrow> heap \<Rightarrow> fault + heap" where
  "set_next p q = assign p (\<lambda>c. c\<lparr>ce_next := q\<rparr>)"

definition set_prev :: "ptr \<Rightarrow> ptr \<Rightarrow> heap \<Rightarrow> fault + heap" where
  "set_prev p q = assign p (\<lambda>c. c\<lparr>ce_prev := q\<rparr>)"

definition set_child :: "ptr \<Rightarrow> ptr \<Rightarrow> heap \<Rightarrow> fault + heap" where
  "set_child p q = assign p (\<lambda>c. c\<lparr>ce_child := q\<rparr>)"

definition set_node :: "ptr \<Rightarrow> (cJSON_node \<Rightarrow> cJSON_node) \<Rightarrow> heap \<Rightarrow> fault + heap" where
  "set_node p f = assign p (\<lambda>c. c\<lparr>ce_node := f (ce_node c)\<rparr>)"

definition zero_cell :: cell where
  "zero_cell = \<lparr>ce_next = None, ce_prev = None, ce_child = None, ce_node = zero_node\<rparr>"

definition New_Item_at :: "heap \<Rightarrow> ptr \<times> heap" where
  "New_Item_at h =
     (case hook_allocate (hp_hooks h) of (ok, H) \<Rightarrow>
       if ok
       then (Some (hp_fresh h), h\<lparr>hp_cells := (hp_cells h)(hp_fresh h \<mapsto> zero_cell),
                                  hp_fresh := hp_fresh h + 1, hp_hooks := H\<rparr>)
       else (None, h\<lparr>hp_hooks := H\<rparr>))"

definition free_string :: "bool \<Rightarrow> bytes option \<Rightarrow> heap \<Rightarrow> heap" where
  "free_string owned s h = (if owned \<and> s \<noteq> None then h\<lparr>hp_hooks := hook_deallocate (hp_hooks h)\<rparr> else h)"

definition free_cell :: "ptr \<Rightarrow> heap \<Rightarrow> fault + heap" where
  "free_cell p h = (case p of None \<Rightarrow> Inr h
     | Some a \<Rightarrow> if hp_cells h a = None then Inl InvalidFree
         else Inr (h\<lparr>hp_cells := (hp_cells h)(a := None), hp_hooks := hook_deallocate (hp_hooks h)\<rparr>))"

section \<open>Deletion\<close>

lemma bindC_mono [partial_function_mono]:
  fixes B :: "('x \<Rightarrow> 'e option) \<Rightarrow> 'b comp"
  assumes "mono_option B" "\<And>y. mono_option (\<lambda>f. C y f)"
  shows "mono_option (\<lambda>f. bindC (B f) (\<lambda>y. C y f))"
proof (unfold monotone_def, intro allI impI)
  fix f g :: "'x \<Rightarrow> 'e option" assume le: "fun_ord (flat_ord None) f g"
  have B: "flat_ord None (B f) (B g)" and C: "flat_ord None (C y f) (C y g)" for y
    using assms le by (simp_all add: monotone_def)
  show "flat_ord None (bindC (B f) (\<lambda>y. C y f)) (bindC (B g) (\<lambda>y. C y g))"
  proof (cases "B f")
    case (Some r)
    then have "B g = Some r" using B by (simp add: flat_ord_def)
    then show ?thesis using Some C by (cases r) (simp_all add: flat_ord_def)
  qed (simp add: flat_ord_def)
qed

text \<open>The item, its children and everything chained behind it.\<close>

partial_function (option) Delete_at :: "ptr \<Rightarrow> heap \<Rightarrow> heap comp" where
  "Delete_at item h =
     (if item = None then retC h
      else bindC (liftC (deref item h)) (\<lambda>c.
        bindC (if owns_value (ce_node c) \<and> ce_child c \<noteq> None then Delete_at (ce_child c) h else retC h) (\<lambda>h.
        bindC (liftC (deref item h)) (\<lambda>c'.
        bindC (liftC (free_cell item
            (free_string (owns_name (ce_node c')) (cj_string (ce_node c'))
              (free_string (owns_value (ce_node c')) (cj_valuestring (ce_node c')) h)))) (\<lambda>h.
          Delete_at (ce_next c) h)))))"

section \<open>Elements and members\<close>

partial_function (option) size_walk :: "heap \<Rightarrow> ptr \<Rightarrow> nat \<Rightarrow> nat comp" where
  "size_walk h cur count =
     (if cur = None then retC count
      else bindC (liftC (deref cur h)) (\<lambda>c. size_walk h (ce_next c) (count + 1)))"

definition GetArraySize_at :: "ptr \<Rightarrow> heap \<Rightarrow> int comp" where
  "GetArraySize_at array h =
     (if array = None then retC 0
      else bindC (liftC (deref array h)) (\<lambda>a.
        bindC (size_walk h (ce_child a) 0) (\<lambda>count. retC (sint (of_nat count :: 32 word)))))"

primrec array_walk :: "heap \<Rightarrow> ptr \<Rightarrow> nat \<Rightarrow> fault + ptr" where
  "array_walk h cur 0 = Inr cur"
| "array_walk h cur (Suc index) =
     (if cur = None then Inr None else bindE (deref cur h) (\<lambda>c. array_walk h (ce_next c) index))"

definition get_array_item_at :: "ptr \<Rightarrow> nat \<Rightarrow> heap \<Rightarrow> fault + ptr" where
  "get_array_item_at array index h =
     (if array = None then Inr None
      else bindE (deref array h) (\<lambda>a. array_walk h (ce_child a) index))"

partial_function (option) member_walk :: "heap \<Rightarrow> bool \<Rightarrow> bytes \<Rightarrow> ptr \<Rightarrow> ptr comp" where
  "member_walk h case_sensitive name cur =
     (if cur = None then retC None
      else bindC (liftC (deref cur h)) (\<lambda>c.
        if differs case_sensitive name (cj_string (ce_node c))
        then member_walk h case_sensitive name (ce_next c)
        else retC (if cj_string (ce_node c) = None then None else cur)))"

definition get_object_item_at :: "ptr \<Rightarrow> bytes option \<Rightarrow> bool \<Rightarrow> heap \<Rightarrow> ptr comp" where
  "get_object_item_at object name case_sensitive h =
     (case name of
        Some name \<Rightarrow>
          if object = None then retC None
          else bindC (liftC (deref object h)) (\<lambda>ob. member_walk h case_sensitive name (ce_child ob))
      | None \<Rightarrow> retC None)"

section \<open>Adding\<close>

definition suffix_object :: "ptr \<Rightarrow> ptr \<Rightarrow> heap \<Rightarrow> fault + heap" where
  "suffix_object prev item h = bindE (set_next prev item h) (set_prev item prev)"

definition create_reference :: "ptr \<Rightarrow> heap \<Rightarrow> fault + ptr \<times> heap" where
  "create_reference item h =
     (if item = None then Inr (None, h)
      else case New_Item_at h of
        (None, h) \<Rightarrow> Inr (None, h)
      | (Some r, h) \<Rightarrow>
          bindE (deref item h) (\<lambda>c.
          bindE (assign (Some r) (\<lambda>_. c\<lparr>ce_node := (ce_node c)\<lparr>cj_string := None,
              cj_type := cj_type (ce_node c) OR cJSON_IsReference\<rparr>, ce_next := None, ce_prev := None\<rparr>) h) (\<lambda>h.
            Inr (Some r, h))))"

definition add_item_to_array :: "ptr \<Rightarrow> ptr \<Rightarrow> heap \<Rightarrow> fault + bool \<times> heap" where
  "add_item_to_array array item h =
     (if item = None \<or> array = None \<or> array = item then Inr (False, h)
      else bindE (deref array h) (\<lambda>a.
        let child = ce_child a
        in if child = None
           then bindE (set_child array item h) (\<lambda>h.
                bindE (set_prev item item h) (\<lambda>h.
                bindE (set_next item None h) (\<lambda>h. Inr (True, h))))
           else bindE (deref child h) (\<lambda>c.
                if ce_prev c \<noteq> None
                then bindE (suffix_object (ce_prev c) item h) (\<lambda>h.
                     bindE (deref array h) (\<lambda>a.
                     bindE (set_prev (ce_child a) item h) (\<lambda>h. Inr (True, h))))
                else Inr (True, h))))"

definition cJSON_AddItemToArray :: "ptr \<Rightarrow> ptr \<Rightarrow> heap \<Rightarrow> fault + bool \<times> heap" where
  "cJSON_AddItemToArray array item h = add_item_to_array array item h"

definition add_item_to_object :: "ptr \<Rightarrow> bytes option \<Rightarrow> ptr \<Rightarrow> bool \<Rightarrow> heap \<Rightarrow> fault + bool \<times> heap" where
  "add_item_to_object object string item constant_key h =
     (case string of
        None \<Rightarrow> Inr (False, h)
      | Some s \<Rightarrow>
          if object = None \<or> item = None \<or> object = item then Inr (False, h)
          else
            let (new_key, H) = (if constant_key then (Some s, hp_hooks h) else cJSON_strdup s (hp_hooks h))
            in if new_key = None then Inr (False, h\<lparr>hp_hooks := H\<rparr>)
               else bindE (deref item h) (\<lambda>c.
                 let new_type = (if constant_key then cj_type (ce_node c) OR cJSON_StringIsConst
                                 else cj_type (ce_node c) AND NOT cJSON_StringIsConst);
                     h = free_string (owns_name (ce_node c)) (cj_string (ce_node c)) (h\<lparr>hp_hooks := H\<rparr>)
                 in bindE (set_node item (\<lambda>n. n\<lparr>cj_string := new_key, cj_type := new_type\<rparr>) h)
                      (add_item_to_array object item)))"

definition cJSON_AddItemToObject :: "ptr \<Rightarrow> bytes option \<Rightarrow> ptr \<Rightarrow> heap \<Rightarrow> fault + bool \<times> heap" where
  "cJSON_AddItemToObject object string item h = add_item_to_object object string item False h"

definition cJSON_AddItemToObjectCS :: "ptr \<Rightarrow> bytes option \<Rightarrow> ptr \<Rightarrow> heap \<Rightarrow> fault + bool \<times> heap" where
  "cJSON_AddItemToObjectCS object string item h = add_item_to_object object string item True h"

definition cJSON_AddItemReferenceToArray :: "ptr \<Rightarrow> ptr \<Rightarrow> heap \<Rightarrow> fault + bool \<times> heap" where
  "cJSON_AddItemReferenceToArray array item h =
     (if array = None then Inr (False, h)
      else bindE (create_reference item h) (\<lambda>(r, h). add_item_to_array array r h))"

definition cJSON_AddItemReferenceToObject :: "ptr \<Rightarrow> bytes option \<Rightarrow> ptr \<Rightarrow> heap \<Rightarrow> fault + bool \<times> heap" where
  "cJSON_AddItemReferenceToObject object string item h =
     (if object = None \<or> string = None then Inr (False, h)
      else bindE (create_reference item h) (\<lambda>(r, h). add_item_to_object object string r False h))"

section \<open>Detaching and deleting elements\<close>

definition cJSON_DetachItemViaPointer :: "ptr \<Rightarrow> ptr \<Rightarrow> heap \<Rightarrow> fault + ptr \<times> heap" where
  "cJSON_DetachItemViaPointer parent item h =
     (if parent = None \<or> item = None then Inr (None, h)
      else bindE (deref parent h) (\<lambda>p.
           bindE (if item \<noteq> ce_child p then bindE (deref item h) (\<lambda>i. Inr (ce_prev i = None)) else Inr False) (\<lambda>corrupt.
        if corrupt then Inr (None, h)
        else
          bindE (deref item h) (\<lambda>i.
          bindE (if item \<noteq> ce_child p then set_next (ce_prev i) (ce_next i) h else Inr h) (\<lambda>h.
          bindE (deref item h) (\<lambda>i.
          bindE (if ce_next i \<noteq> None then set_prev (ce_next i) (ce_prev i) h else Inr h) (\<lambda>h.
          bindE (deref parent h) (\<lambda>p.
          bindE (deref item h) (\<lambda>i.
          bindE (if item = ce_child p then set_child parent (ce_next i) h
                 else if ce_next i = None then set_prev (ce_child p) (ce_prev i) h
                 else Inr h) (\<lambda>h.
          bindE (set_prev item None h) (\<lambda>h.
          bindE (set_next item None h) (\<lambda>h. Inr (item, h)))))))))))))"

definition cJSON_DetachItemFromArray :: "ptr \<Rightarrow> int \<Rightarrow> heap \<Rightarrow> fault + ptr \<times> heap" where
  "cJSON_DetachItemFromArray array which h =
     (if which < 0 then Inr (None, h)
      else bindE (get_array_item_at array (nat which) h) (\<lambda>item. cJSON_DetachItemViaPointer array item h))"

definition cJSON_DeleteItemFromArray :: "ptr \<Rightarrow> int \<Rightarrow> heap \<Rightarrow> heap comp" where
  "cJSON_DeleteItemFromArray array which h =
     bindC (liftC (cJSON_DetachItemFromArray array which h)) (\<lambda>(item, h). Delete_at item h)"

definition detach_from_object :: "ptr \<Rightarrow> bytes option \<Rightarrow> bool \<Rightarrow> heap \<Rightarrow> (ptr \<times> heap) comp" where
  "detach_from_object object string case_sensitive h =
     bindC (get_object_item_at object string case_sensitive h) (\<lambda>to_detach.
       liftC (cJSON_DetachItemViaPointer object to_detach h))"

definition cJSON_DetachItemFromObject :: "ptr \<Rightarrow> bytes option \<Rightarrow> heap \<Rightarrow> (ptr \<times> heap) comp" where
  "cJSON_DetachItemFromObject object string h = detach_from_object object string False h"

definition cJSON_DetachItemFromObjectCaseSensitive :: "ptr \<Rightarrow> bytes option \<Rightarrow> heap \<Rightarrow> (ptr \<times> heap) comp" where
  "cJSON_DetachItemFromObjectCaseSensitive object string h = detach_from_object object string True h"

definition cJSON_DeleteItemFromObject :: "ptr \<Rightarrow> bytes option \<Rightarrow> heap \<Rightarrow> heap comp" where
  "cJSON_DeleteItemFromObject object string h =
     bindC (cJSON_DetachItemFromObject object string h) (\<lambda>(item, h). Delete_at item h)"

definition cJSON_DeleteItemFromObjectCaseSensitive :: "ptr \<Rightarrow> bytes option \<Rightarrow> heap \<Rightarrow> heap comp" where
  "cJSON_DeleteItemFromObjectCaseSensitive object string h =
     bindC (cJSON_DetachItemFromObjectCaseSensitive object string h) (\<lambda>(item, h). Delete_at item h)"

section \<open>Inserting and replacing\<close>

definition cJSON_InsertItemInArray :: "ptr \<Rightarrow> int \<Rightarrow> ptr \<Rightarrow> heap \<Rightarrow> fault + bool \<times> heap" where
  "cJSON_InsertItemInArray array which newitem h =
     (if which < 0 \<or> newitem = None then Inr (False, h)
      else bindE (get_array_item_at array (nat which) h) (\<lambda>after.
        if after = None then add_item_to_array array newitem h
        else
          bindE (deref array h) (\<lambda>a.
          bindE (deref after h) (\<lambda>i.
            if after \<noteq> ce_child a \<and> ce_prev i = None then Inr (False, h)
            else
              bindE (set_next newitem after h) (\<lambda>h.
              bindE (deref after h) (\<lambda>i.
              bindE (set_prev newitem (ce_prev i) h) (\<lambda>h.
              bindE (set_prev after newitem h) (\<lambda>h.
              bindE (deref array h) (\<lambda>a.
              bindE (if after = ce_child a then set_child array newitem h
                     else bindE (deref newitem h) (\<lambda>n. set_next (ce_prev n) newitem h)) (\<lambda>h.
                Inr (True, h)))))))))))"

definition cJSON_ReplaceItemViaPointer :: "ptr \<Rightarrow> ptr \<Rightarrow> ptr \<Rightarrow> heap \<Rightarrow> (bool \<times> heap) comp" where
  "cJSON_ReplaceItemViaPointer parent item replacement h =
     (if parent = None then retC (False, h)
      else bindC (liftC (deref parent h)) (\<lambda>p.
        if ce_child p = None \<or> replacement = None \<or> item = None then retC (False, h)
        else if replacement = item then retC (True, h)
        else
          bindC (liftC (
            bindE (deref item h) (\<lambda>i.
            bindE (set_next replacement (ce_next i) h) (\<lambda>h.
            bindE (deref item h) (\<lambda>i.
            bindE (set_prev replacement (ce_prev i) h) (\<lambda>h.
            bindE (deref replacement h) (\<lambda>r.
            bindE (if ce_next r \<noteq> None then set_prev (ce_next r) replacement h else Inr h) (\<lambda>h.
            bindE (deref parent h) (\<lambda>p.
            bindE (if ce_child p = item
                   then bindE (deref (ce_child p) h) (\<lambda>c.
                        bindE (if ce_prev c = ce_child p then set_prev replacement replacement h else Inr h)
                          (set_child parent replacement))
                   else bindE (deref replacement h) (\<lambda>r.
                        bindE (if ce_prev r \<noteq> None then set_next (ce_prev r) replacement h else Inr h) (\<lambda>h.
                        bindE (deref replacement h) (\<lambda>r.
                          if ce_next r = None then set_prev (ce_child p) replacement h else Inr h)))) (\<lambda>h.
            bindE (set_next item None h) (set_prev item None))))))))))) (\<lambda>h.
          bindC (Delete_at item h) (\<lambda>h. retC (True, h)))))"

definition cJSON_ReplaceItemInArray :: "ptr \<Rightarrow> int \<Rightarrow> ptr \<Rightarrow> heap \<Rightarrow> (bool \<times> heap) comp" where
  "cJSON_ReplaceItemInArray array which newitem h =
     (if which < 0 then retC (False, h)
      else bindC (liftC (get_array_item_at array (nat which) h)) (\<lambda>item.
        cJSON_ReplaceItemViaPointer array item newitem h))"

text \<open>The name given must not be the replacement's own name: that block is freed before it is copied.\<close>

definition replace_item_in_object :: "ptr \<Rightarrow> bytes option \<Rightarrow> ptr \<Rightarrow> bool \<Rightarrow> heap \<Rightarrow> (bool \<times> heap) comp" where
  "replace_item_in_object object string replacement case_sensitive h =
     (case string of
        None \<Rightarrow> retC (False, h)
      | Some s \<Rightarrow>
          if replacement = None then retC (False, h)
          else bindC (liftC (deref replacement h)) (\<lambda>r.
            let h = free_string (owns_name (ce_node r)) (cj_string (ce_node r)) h;
                (copy, H) = cJSON_strdup s (hp_hooks h)
            in bindC (liftC (set_node replacement (\<lambda>n. n\<lparr>cj_string := copy\<rparr>) (h\<lparr>hp_hooks := H\<rparr>))) (\<lambda>h.
                 if copy = None then retC (False, h)
                 else
                   bindC (liftC (set_node replacement (\<lambda>n. n\<lparr>cj_type := cj_type n AND NOT cJSON_StringIsConst\<rparr>) h)) (\<lambda>h.
                   bindC (get_object_item_at object string case_sensitive h) (\<lambda>item.
                     cJSON_ReplaceItemViaPointer object item replacement h)))))"

definition cJSON_ReplaceItemInObject :: "ptr \<Rightarrow> bytes option \<Rightarrow> ptr \<Rightarrow> heap \<Rightarrow> (bool \<times> heap) comp" where
  "cJSON_ReplaceItemInObject object string newitem h = replace_item_in_object object string newitem False h"

definition cJSON_ReplaceItemInObjectCaseSensitive :: "ptr \<Rightarrow> bytes option \<Rightarrow> ptr \<Rightarrow> heap \<Rightarrow> (bool \<times> heap) comp" where
  "cJSON_ReplaceItemInObjectCaseSensitive object string newitem h = replace_item_in_object object string newitem True h"

end
