(* ===== verification/Cjson_Create.thy ===== *)
theory Cjson_Create
  imports Cjson_Heap
begin

text \<open>
  The functions of \<open>cJSON.c\<close> that make items on the heap: the \<open>cJSON_Create\<close> and \<open>cJSON_AddXToObject\<close>
  functions, arrays from C arrays, copies, and the comparison of two items.
\<close>

section \<open>The hooks\<close>

text \<open>
  The functions a program installs are those of the C library or its own; \<open>realloc\<close> is used when both are
  the library's. What the functions return is the pattern of the allocator.
\<close>

datatype hook_fn = Libc | Custom

definition cJSON_InitHooks :: "(hook_fn option \<times> hook_fn option) option \<Rightarrow> hooks \<Rightarrow> hooks" where
  "cJSON_InitHooks fns H =
     (case fns of
        None \<Rightarrow> H\<lparr>ha_realloc := True\<rparr>
      | Some (malloc_fn, free_fn) \<Rightarrow>
          let allocate = (case malloc_fn of None \<Rightarrow> Libc | Some f \<Rightarrow> f);
              deallocate = (case free_fn of None \<Rightarrow> Libc | Some f \<Rightarrow> f)
          in H\<lparr>ha_realloc := (allocate = Libc \<and> deallocate = Libc)\<rparr>)"

definition cJSON_malloc :: "heap \<Rightarrow> bool \<times> heap" where
  "cJSON_malloc h = (case hook_allocate (hp_hooks h) of (ok, H) \<Rightarrow> (ok, h\<lparr>hp_hooks := H\<rparr>))"

text \<open>The block given is one that was allocated.\<close>

definition cJSON_free :: "heap \<Rightarrow> heap" where
  "cJSON_free h = h\<lparr>hp_hooks := hook_deallocate (hp_hooks h)\<rparr>"

section \<open>Basic items\<close>

text \<open>A new item whose fields are written when there is memory for it.\<close>

definition create_with :: "(cell \<Rightarrow> cell) \<Rightarrow> heap \<Rightarrow> ptr \<times> heap" where
  "create_with f h = (case New_Item_at h of (None, h) \<Rightarrow> (None, h) | (Some a, h) \<Rightarrow> (Some a, upd a f h))"

definition create_kind :: "u32 \<Rightarrow> heap \<Rightarrow> ptr \<times> heap" where
  "create_kind k = create_with (\<lambda>c. c\<lparr>ce_node := (ce_node c)\<lparr>cj_type := k\<rparr>\<rparr>)"

definition cJSON_CreateNull :: "heap \<Rightarrow> ptr \<times> heap" where "cJSON_CreateNull h = create_kind cJSON_NULL h"
definition cJSON_CreateTrue :: "heap \<Rightarrow> ptr \<times> heap" where "cJSON_CreateTrue h = create_kind cJSON_True h"
definition cJSON_CreateFalse :: "heap \<Rightarrow> ptr \<times> heap" where "cJSON_CreateFalse h = create_kind cJSON_False h"
definition cJSON_CreateArray :: "heap \<Rightarrow> ptr \<times> heap" where "cJSON_CreateArray h = create_kind cJSON_Array h"
definition cJSON_CreateObject :: "heap \<Rightarrow> ptr \<times> heap" where "cJSON_CreateObject h = create_kind cJSON_Object h"

definition cJSON_CreateBool :: "bool \<Rightarrow> heap \<Rightarrow> ptr \<times> heap" where
  "cJSON_CreateBool boolean h = create_kind (if boolean then cJSON_True else cJSON_False) h"

definition cJSON_CreateNumber :: "double \<Rightarrow> heap \<Rightarrow> ptr \<times> heap" where
  "cJSON_CreateNumber num h =
     create_with (\<lambda>c. c\<lparr>ce_node := (ce_node c)\<lparr>cj_type := cJSON_Number, cj_valuedouble := num,
       cj_valueint := saturate num\<rparr>\<rparr>) h"

definition cJSON_CreateStringReference :: "bytes option \<Rightarrow> heap \<Rightarrow> ptr \<times> heap" where
  "cJSON_CreateStringReference string h =
     create_with (\<lambda>c. c\<lparr>ce_node := (ce_node c)\<lparr>cj_type := cJSON_String OR cJSON_IsReference,
       cj_valuestring := string\<rparr>\<rparr>) h"

definition cJSON_CreateObjectReference :: "ptr \<Rightarrow> heap \<Rightarrow> ptr \<times> heap" where
  "cJSON_CreateObjectReference kid h =
     create_with (\<lambda>c. c\<lparr>ce_node := (ce_node c)\<lparr>cj_type := cJSON_Object OR cJSON_IsReference\<rparr>, ce_child := kid\<rparr>) h"

definition cJSON_CreateArrayReference :: "ptr \<Rightarrow> heap \<Rightarrow> ptr \<times> heap" where
  "cJSON_CreateArrayReference kid h =
     create_with (\<lambda>c. c\<lparr>ce_node := (ce_node c)\<lparr>cj_type := cJSON_Array OR cJSON_IsReference\<rparr>, ce_child := kid\<rparr>) h"

text \<open>An item with a copy of a string; \<open>cJSON_strdup\<close> of NULL is NULL without a request.\<close>

definition strdup_at :: "bytes option \<Rightarrow> heap \<Rightarrow> bytes option \<times> heap" where
  "strdup_at s h =
     (case s of None \<Rightarrow> (None, h)
      | Some s \<Rightarrow> (case cJSON_strdup s (hp_hooks h) of (copy, H) \<Rightarrow> (copy, h\<lparr>hp_hooks := H\<rparr>)))"

definition create_text :: "u32 \<Rightarrow> bytes option \<Rightarrow> heap \<Rightarrow> (ptr \<times> heap) comp" where
  "create_text k string h =
     (case create_kind k h of
        (None, h) \<Rightarrow> retC (None, h)
      | (Some a, h) \<Rightarrow>
          let (copy, h) = strdup_at string h;
              h = upd a (\<lambda>c. c\<lparr>ce_node := (ce_node c)\<lparr>cj_valuestring := copy\<rparr>\<rparr>) h
          in if copy = None then bindC (Delete_at (Some a) h) (\<lambda>h. retC (None, h)) else retC (Some a, h))"

definition cJSON_CreateString :: "bytes option \<Rightarrow> heap \<Rightarrow> (ptr \<times> heap) comp" where
  "cJSON_CreateString string h = create_text cJSON_String string h"

definition cJSON_CreateRaw :: "bytes option \<Rightarrow> heap \<Rightarrow> (ptr \<times> heap) comp" where
  "cJSON_CreateRaw raw h = create_text cJSON_Raw raw h"

section \<open>New members of an object\<close>

text \<open>The created item becomes a member; when that fails it is deleted.\<close>

definition add_created :: "ptr \<Rightarrow> bytes option \<Rightarrow> ptr \<times> heap \<Rightarrow> (ptr \<times> heap) comp" where
  "add_created object name made =
     (case made of (item, h) \<Rightarrow>
        bindC (liftC (add_item_to_object object name item False h)) (\<lambda>(added, h).
          if added then retC (item, h) else bindC (Delete_at item h) (\<lambda>h. retC (None, h))))"

definition cJSON_AddNullToObject :: "ptr \<Rightarrow> bytes option \<Rightarrow> heap \<Rightarrow> (ptr \<times> heap) comp" where
  "cJSON_AddNullToObject object name h = add_created object name (cJSON_CreateNull h)"

definition cJSON_AddTrueToObject :: "ptr \<Rightarrow> bytes option \<Rightarrow> heap \<Rightarrow> (ptr \<times> heap) comp" where
  "cJSON_AddTrueToObject object name h = add_created object name (cJSON_CreateTrue h)"

definition cJSON_AddFalseToObject :: "ptr \<Rightarrow> bytes option \<Rightarrow> heap \<Rightarrow> (ptr \<times> heap) comp" where
  "cJSON_AddFalseToObject object name h = add_created object name (cJSON_CreateFalse h)"

definition cJSON_AddBoolToObject :: "ptr \<Rightarrow> bytes option \<Rightarrow> bool \<Rightarrow> heap \<Rightarrow> (ptr \<times> heap) comp" where
  "cJSON_AddBoolToObject object name boolean h = add_created object name (cJSON_CreateBool boolean h)"

definition cJSON_AddNumberToObject :: "ptr \<Rightarrow> bytes option \<Rightarrow> double \<Rightarrow> heap \<Rightarrow> (ptr \<times> heap) comp" where
  "cJSON_AddNumberToObject object name number h = add_created object name (cJSON_CreateNumber number h)"

definition cJSON_AddStringToObject :: "ptr \<Rightarrow> bytes option \<Rightarrow> bytes option \<Rightarrow> heap \<Rightarrow> (ptr \<times> heap) comp" where
  "cJSON_AddStringToObject object name string h = bindC (cJSON_CreateString string h) (add_created object name)"

definition cJSON_AddRawToObject :: "ptr \<Rightarrow> bytes option \<Rightarrow> bytes option \<Rightarrow> heap \<Rightarrow> (ptr \<times> heap) comp" where
  "cJSON_AddRawToObject object name raw h = bindC (cJSON_CreateRaw raw h) (add_created object name)"

definition cJSON_AddObjectToObject :: "ptr \<Rightarrow> bytes option \<Rightarrow> heap \<Rightarrow> (ptr \<times> heap) comp" where
  "cJSON_AddObjectToObject object name h = add_created object name (cJSON_CreateObject h)"

definition cJSON_AddArrayToObject :: "ptr \<Rightarrow> bytes option \<Rightarrow> heap \<Rightarrow> (ptr \<times> heap) comp" where
  "cJSON_AddArrayToObject object name h = add_created object name (cJSON_CreateArray h)"

section \<open>Arrays from C arrays\<close>

text \<open>
  The loop of the four functions: \<open>left\<close> elements are still to come, the next one is number i, and p is the last
  item made (\<open>p\<close> and \<open>n\<close> of the code, which are equal between two rounds). The result says whether the loop
  ended; otherwise an item could not be made and the array has been deleted.
\<close>

primrec fill_array ::
  "('x \<Rightarrow> heap \<Rightarrow> (ptr \<times> heap) comp) \<Rightarrow> ptr \<Rightarrow> 'x list \<Rightarrow> nat \<Rightarrow> nat \<Rightarrow> ptr \<Rightarrow> heap \<Rightarrow> (bool \<times> ptr \<times> heap) comp" where
  "fill_array create a numbers i 0 p h = retC (True, p, h)"
| "fill_array create a numbers i (Suc left) p h =
     (if length numbers \<le> i then liftC (Inl OutOfBounds)
      else bindC (create (numbers ! i) h) (\<lambda>(n, h).
        if n = None then bindC (Delete_at a h) (\<lambda>h. retC (False, None, h))
        else bindC (liftC (if i = 0 then set_child a n h else suffix_object p n h)) (\<lambda>h.
          fill_array create a numbers (Suc i) left n h)))"

definition create_array_of ::
  "('x \<Rightarrow> heap \<Rightarrow> (ptr \<times> heap) comp) \<Rightarrow> 'x list option \<Rightarrow> int \<Rightarrow> heap \<Rightarrow> (ptr \<times> heap) comp" where
  "create_array_of create numbers count h =
     (case numbers of
        None \<Rightarrow> retC (None, h)
      | Some xs \<Rightarrow>
          if count < 0 then retC (None, h)
          else case cJSON_CreateArray h of
            (None, h) \<Rightarrow> retC (None, h)
          | (a, h) \<Rightarrow>
              bindC (fill_array create a xs 0 (nat count) None h) (\<lambda>(filled, n, h).
                if \<not> filled then retC (None, h)
                else bindC (liftC (deref a h)) (\<lambda>c.
                  if ce_child c \<noteq> None
                  then bindC (liftC (set_prev (ce_child c) n h)) (\<lambda>h. retC (a, h))
                  else retC (a, h))))"

definition cJSON_CreateIntArray :: "32 word list option \<Rightarrow> int \<Rightarrow> heap \<Rightarrow> (ptr \<times> heap) comp" where
  "cJSON_CreateIntArray = create_array_of (\<lambda>x h. retC (cJSON_CreateNumber (Fin (of_int (sint x))) h))"

text \<open>A \<open>float\<close> is given as the double it converts to.\<close>

definition cJSON_CreateFloatArray :: "double list option \<Rightarrow> int \<Rightarrow> heap \<Rightarrow> (ptr \<times> heap) comp" where
  "cJSON_CreateFloatArray = create_array_of (\<lambda>x h. retC (cJSON_CreateNumber x h))"

definition cJSON_CreateDoubleArray :: "double list option \<Rightarrow> int \<Rightarrow> heap \<Rightarrow> (ptr \<times> heap) comp" where
  "cJSON_CreateDoubleArray = create_array_of (\<lambda>x h. retC (cJSON_CreateNumber x h))"

definition cJSON_CreateStringArray :: "bytes option list option \<Rightarrow> int \<Rightarrow> heap \<Rightarrow> (ptr \<times> heap) comp" where
  "cJSON_CreateStringArray = create_array_of cJSON_CreateString"

section \<open>Copies\<close>

text \<open>
  The fields of the copy. A name or value is copied into a block of its own, except a constant name. The result
  says whether the copies were made; the item has what was made so far.
\<close>

definition copy_fields :: "cJSON_node \<Rightarrow> nat \<Rightarrow> heap \<Rightarrow> bool \<times> heap" where
  "copy_fields n a h =
     (let h = upd a (\<lambda>c. c\<lparr>ce_node := (ce_node c)\<lparr>cj_type := cj_type n AND NOT cJSON_IsReference,
            cj_valueint := cj_valueint n, cj_valuedouble := cj_valuedouble n\<rparr>\<rparr>) h;
          (v, h) = strdup_at (cj_valuestring n) h;
          h = upd a (\<lambda>c. c\<lparr>ce_node := (ce_node c)\<lparr>cj_valuestring := v\<rparr>\<rparr>) h
      in if cj_valuestring n \<noteq> None \<and> v = None then (False, h)
         else
           let (s, h) = (if owns_name n then strdup_at (cj_string n) h else (cj_string n, h));
               h = upd a (\<lambda>c. c\<lparr>ce_node := (ce_node c)\<lparr>cj_string := s\<rparr>\<rparr>) h
           in (\<not> (cj_string n \<noteq> None \<and> s = None), h))"

text \<open>
  The walk over the children, given the copy function for one of them; \<open>last_copy\<close> is the variable \<open>next\<close> of the
  code. It returns the last copy, or \<open>None\<close> for the outer option when a copy failed.
\<close>

partial_function (option) copy_children ::
  "(ptr \<Rightarrow> heap \<Rightarrow> (ptr \<times> heap) comp) \<Rightarrow> ptr \<Rightarrow> ptr \<Rightarrow> ptr \<Rightarrow> heap \<Rightarrow> (ptr option \<times> heap) comp" where
  "copy_children copy newitem kid last_copy h =
     (if kid = None then retC (Some last_copy, h)
      else bindC (copy kid h) (\<lambda>(newchild, h).
        if newchild = None then retC (None, h)
        else bindC (liftC (if last_copy \<noteq> None then suffix_object last_copy newchild h
                           else set_child newitem newchild h)) (\<lambda>h.
          bindC (liftC (deref kid h)) (\<lambda>c. copy_children copy newitem (ce_next c) newchild h))))"

definition fail_copy :: "ptr \<Rightarrow> heap \<Rightarrow> (ptr \<times> heap) comp" where
  "fail_copy newitem h = bindC (Delete_at newitem h) (\<lambda>h. retC (None, h))"

text \<open>
  The number is what is left of the depth: \<open>CJSON_CIRCULAR_LIMIT - depth\<close>. At the limit an item with
  children is not copied.
\<close>

primrec cJSON_Duplicate_rec :: "nat \<Rightarrow> ptr \<Rightarrow> bool \<Rightarrow> heap \<Rightarrow> (ptr \<times> heap) comp" where
  "cJSON_Duplicate_rec 0 item recurse h =
     (if item = None then retC (None, h)
      else bindC (liftC (deref item h)) (\<lambda>i.
        case New_Item_at h of
          (None, h) \<Rightarrow> retC (None, h)
        | (Some a, h) \<Rightarrow>
            (case copy_fields (ce_node i) a h of (copied, h) \<Rightarrow>
               if \<not> copied \<or> (recurse \<and> ce_child i \<noteq> None) then fail_copy (Some a) h
               else retC (Some a, h))))"
| "cJSON_Duplicate_rec (Suc levels) item recurse h =
     (if item = None then retC (None, h)
      else bindC (liftC (deref item h)) (\<lambda>i.
        case New_Item_at h of
          (None, h) \<Rightarrow> retC (None, h)
        | (Some a, h) \<Rightarrow>
            (case copy_fields (ce_node i) a h of (copied, h) \<Rightarrow>
               if \<not> copied then fail_copy (Some a) h
               else if \<not> recurse then retC (Some a, h)
               else bindC (copy_children (\<lambda>kid. cJSON_Duplicate_rec levels kid True) (Some a) (ce_child i) None h)
                 (\<lambda>(last_copy, h). case last_copy of
                    None \<Rightarrow> fail_copy (Some a) h
                  | Some l \<Rightarrow>
                      bindC (liftC (deref (Some a) h)) (\<lambda>c.
                        if ce_child c \<noteq> None
                        then bindC (liftC (set_prev (ce_child c) l h)) (\<lambda>h. retC (Some a, h))
                        else retC (Some a, h))))))"

definition cJSON_Duplicate :: "ptr \<Rightarrow> bool \<Rightarrow> heap \<Rightarrow> (ptr \<times> heap) comp" where
  "cJSON_Duplicate item recurse h = cJSON_Duplicate_rec CJSON_CIRCULAR_LIMIT item recurse h"

section \<open>Comparison\<close>

text \<open>
  The three loops of \<open>cJSON_Compare\<close> as one recursion: two items, two chains of elements, or a chain
  of members each looked up in another object.
\<close>

datatype comparison = Items_of ptr ptr | Elements_of ptr ptr | Members_of ptr ptr

partial_function (option) compare_at :: "heap \<Rightarrow> bool \<Rightarrow> comparison \<Rightarrow> bool comp" where
  "compare_at h case_sensitive job =
     (case job of
        Items_of a b \<Rightarrow>
          if a = None \<or> b = None then retC False
          else bindC (liftC (deref a h)) (\<lambda>x. bindC (liftC (deref b h)) (\<lambda>y.
            let k = cj_type (ce_node x) AND 0xFF
            in if k \<noteq> cj_type (ce_node y) AND 0xFF then retC False
               else if k \<notin> {cJSON_False, cJSON_True, cJSON_NULL, cJSON_Number, cJSON_String, cJSON_Raw, cJSON_Array, cJSON_Object}
               then retC False
               else if a = b then retC True
               else if k \<in> {cJSON_False, cJSON_True, cJSON_NULL} then retC True
               else if k = cJSON_Number then retC (compare_double (cj_valuedouble (ce_node x)) (cj_valuedouble (ce_node y)))
               else if k \<in> {cJSON_String, cJSON_Raw} then
                 retC (case (cj_valuestring (ce_node x), cj_valuestring (ce_node y)) of
                     (Some s, Some t) \<Rightarrow> cstr s = cstr t | _ \<Rightarrow> False)
               else if k = cJSON_Array then compare_at h case_sensitive (Elements_of (ce_child x) (ce_child y))
               else bindC (compare_at h case_sensitive (Members_of (ce_child x) b)) (\<lambda>same.
                 if same then compare_at h case_sensitive (Members_of (ce_child y) a) else retC False)))
      | Elements_of a b \<Rightarrow>
          if a = None \<or> b = None then retC (a = b)
          else bindC (compare_at h case_sensitive (Items_of a b)) (\<lambda>same.
            if \<not> same then retC False
            else bindC (liftC (deref a h)) (\<lambda>x. bindC (liftC (deref b h)) (\<lambda>y.
              compare_at h case_sensitive (Elements_of (ce_next x) (ce_next y)))))
      | Members_of a other \<Rightarrow>
          if a = None then retC True
          else bindC (liftC (deref a h)) (\<lambda>x.
            bindC (get_object_item_at other (cj_string (ce_node x)) case_sensitive h) (\<lambda>b.
              if b = None then retC False
              else bindC (compare_at h case_sensitive (Items_of a b)) (\<lambda>same.
                if \<not> same then retC False else compare_at h case_sensitive (Members_of (ce_next x) other)))))"

definition cJSON_Compare :: "ptr \<Rightarrow> ptr \<Rightarrow> bool \<Rightarrow> heap \<Rightarrow> bool comp" where
  "cJSON_Compare a b case_sensitive h = compare_at h case_sensitive (Items_of a b)"

end
