(* ===== verification/Cjson_Lists.thy ===== *)
theory Cjson_Lists
  imports Cjson_Create
begin

text \<open>
  The editing functions of \<open>Cjson_Heap\<close> change one list of children each: what they do to the pointers
  is appending, removing, inserting and replacing in that list, and everything else in the heap stays.
\<close>

section \<open>Reading and writing live cells\<close>

definition live :: "heap \<Rightarrow> nat \<Rightarrow> bool" where
  "live h a \<longleftrightarrow> hp_cells h a \<noteq> None"

definition cell_at :: "heap \<Rightarrow> nat \<Rightarrow> cell" where
  "cell_at h a = the (hp_cells h a)"

abbreviation nx :: "heap \<Rightarrow> nat \<Rightarrow> ptr" where "nx h a \<equiv> ce_next (cell_at h a)"
abbreviation pv :: "heap \<Rightarrow> nat \<Rightarrow> ptr" where "pv h a \<equiv> ce_prev (cell_at h a)"
abbreviation kid :: "heap \<Rightarrow> nat \<Rightarrow> ptr" where "kid h a \<equiv> ce_child (cell_at h a)"
abbreviation nd :: "heap \<Rightarrow> nat \<Rightarrow> cJSON_node" where "nd h a \<equiv> ce_node (cell_at h a)"

named_theorems heap_simps "accesses to live cells, and the cells after a write"

lemma deref_live [heap_simps]: "live h a \<Longrightarrow> deref (Some a) h = Inr (cell_at h a)"
  by (auto simp: live_def deref_def cell_at_def)

lemma set_live [heap_simps]:
  assumes "live h a"
  shows "set_next (Some a) q h = Inr (upd a (\<lambda>c. c\<lparr>ce_next := q\<rparr>) h)"
    "set_prev (Some a) q h = Inr (upd a (\<lambda>c. c\<lparr>ce_prev := q\<rparr>) h)"
    "set_child (Some a) q h = Inr (upd a (\<lambda>c. c\<lparr>ce_child := q\<rparr>) h)"
    "set_node (Some a) f h = Inr (upd a (\<lambda>c. c\<lparr>ce_node := f (ce_node c)\<rparr>) h)"
  using assms by (simp_all add: set_next_def set_prev_def set_child_def set_node_def assign_def deref_live)

lemma upd_simps [heap_simps, simp]:
  "live (upd a f h) b \<longleftrightarrow> b = a \<or> live h b"
  "cell_at (upd a f h) b = (if b = a then f (cell_at h a) else cell_at h b)"
  "hp_hooks (upd a f h) = hp_hooks h" "hp_fresh (upd a f h) = hp_fresh h"
  by (auto simp: upd_def live_def cell_at_def)

section \<open>Lists of children\<close>

definition hd_ptr :: "nat list \<Rightarrow> ptr" where
  "hd_ptr xs = (case xs of [] \<Rightarrow> None | x # _ \<Rightarrow> Some x)"

fun seg :: "heap \<Rightarrow> nat list \<Rightarrow> bool" where
  "seg h [] = True"
| "seg h [a] = True"
| "seg h (a # b # xs) = (nx h a = Some b \<and> pv h b = Some a \<and> seg h (b # xs))"

text \<open>The first element points back to the last one.\<close>

definition linked :: "heap \<Rightarrow> nat list \<Rightarrow> bool" where
  "linked h xs \<longleftrightarrow> xs = [] \<or> seg h xs \<and> nx h (last xs) = None \<and> pv h (hd xs) = Some (last xs)"

definition kids_ok :: "heap \<Rightarrow> nat \<Rightarrow> nat list \<Rightarrow> bool" where
  "kids_ok h a xs \<longleftrightarrow> live h a \<and> kid h a = hd_ptr xs \<and> linked h xs \<and> (\<forall>x \<in> set xs. live h x) \<and> distinct xs \<and> a \<notin> set xs"

lemma hd_ptr_simps [simp]: "hd_ptr [] = None" "hd_ptr (x # xs) = Some x" "hd_ptr xs = None \<longleftrightarrow> xs = []"
  "xs \<noteq> [] \<Longrightarrow> hd_ptr xs = Some (hd xs)"
  by (cases xs; simp add: hd_ptr_def)+

lemma seg_append: "seg h (us @ vs) \<longleftrightarrow> seg h us \<and> seg h vs \<and>
   (us \<noteq> [] \<and> vs \<noteq> [] \<longrightarrow> nx h (last us) = Some (hd vs) \<and> pv h (hd vs) = Some (last us))"
proof (induction us rule: induct_list012)
  case (2 x)
  then show ?case by (cases vs) auto
qed auto

lemma seg_cong:
  "(\<And>a. a \<in> set (butlast xs) \<Longrightarrow> nx h' a = nx h a) \<Longrightarrow> (\<And>a. a \<in> set (tl xs) \<Longrightarrow> pv h' a = pv h a) \<Longrightarrow>
    seg h xs \<Longrightarrow> seg h' xs"
  by (induction xs rule: induct_list012) (auto split: if_splits)

lemma seg_keep:
  assumes "seg h xs" "distinct xs"
    and "\<And>b. b \<in> set xs \<Longrightarrow> b \<noteq> last xs \<Longrightarrow> nx h' b = nx h b"
    and "\<And>b. b \<in> set xs \<Longrightarrow> b \<noteq> hd xs \<Longrightarrow> pv h' b = pv h b"
  shows "seg h' xs"
proof (rule seg_cong [OF _ _ assms(1)])
  fix b assume b: "b \<in> set (butlast xs)"
  then have "xs = butlast xs @ [last xs]" by (cases xs rule: rev_cases) auto
  then have "b \<noteq> last xs" using b assms(2) by (metis distinct_append disjoint_iff list.set_intros(1))
  then show "nx h' b = nx h b" using assms(3) b by (simp add: in_set_butlastD)
next
  fix b assume b: "b \<in> set (tl xs)"
  then show "pv h' b = pv h b" using assms(2,4) by (cases xs) auto
qed

lemma linked_cong:
  assumes "\<And>a. a \<in> set xs \<Longrightarrow> nx h' a = nx h a \<and> pv h' a = pv h a" "linked h xs"
  shows "linked h' xs"
proof (cases "xs = []")
  case False
  have "seg h' xs"
    by (rule seg_cong [of _ _ h]) (use assms False in \<open>auto simp: linked_def dest: in_set_butlastD list.set_sel(2)\<close>)
  then show ?thesis using assms False by (simp add: linked_def)
qed (simp add: linked_def)

text \<open>What an edit of the children of a leaves as it was: all but the links of the items in A.\<close>

definition edits :: "heap \<Rightarrow> nat \<Rightarrow> nat set \<Rightarrow> heap \<Rightarrow> bool" where
  "edits h a A h' \<longleftrightarrow> hp_fresh h' = hp_fresh h \<and> hp_hooks h' = hp_hooks h \<and>
     (\<forall>b. live h' b = live h b \<and> nd h' b = nd h b \<and> (b \<noteq> a \<longrightarrow> kid h' b = kid h b) \<and>
       (b \<notin> A \<longrightarrow> nx h' b = nx h b \<and> pv h' b = pv h b))"

lemma edits_refl: "edits h a A h"
  by (simp add: edits_def)

lemma edits_write:
  assumes "edits h a A h'" "live h b"
  shows "b \<in> A \<Longrightarrow> edits h a A (upd b (\<lambda>c. c\<lparr>ce_next := q\<rparr>) h')"
    "b \<in> A \<Longrightarrow> edits h a A (upd b (\<lambda>c. c\<lparr>ce_prev := q\<rparr>) h')"
    "b = a \<Longrightarrow> edits h a A (upd b (\<lambda>c. c\<lparr>ce_child := q\<rparr>) h')"
  using assms by (auto simp: edits_def)

lemmas edits_intros = edits_write edits_refl

text \<open>After an edit, it is enough to look at the links.\<close>

lemma kids_okI:
  assumes "edits h a A h'" "live h a" "\<forall>x \<in> set xs. live h x" "distinct xs" "a \<notin> set xs"
    and "kid h' a = hd_ptr xs" "seg h' xs" "xs \<noteq> []" "nx h' (last xs) = None" "pv h' (hd xs) = Some (last xs)"
  shows "kids_ok h' a xs"
  using assms by (simp add: kids_ok_def linked_def edits_def)

lemma bindE_weak: "m = m' \<Longrightarrow> bindE m f = bindE m' f"
  by simp

lemma bindC_weak: "m = m' \<Longrightarrow> bindC m f = bindC m' f"
  by simp

section \<open>The edits\<close>

lemma append_kids:
  assumes k: "kids_ok h a xs" and x: "live h x" "x \<notin> set xs" "x \<noteq> a" "nx h x = None"
  shows "\<exists>h'. add_item_to_array (Some a) (Some x) h = Inr (True, h') \<and> kids_ok h' a (xs @ [x]) \<and>
    edits h a (insert x (set xs)) h'"
proof (cases "xs = []")
  case True
  then show ?thesis using k x
    by (auto simp: add_item_to_array_def kids_ok_def linked_def heap_simps edits_def Let_def)
next
  case False
  let ?l = "last xs"
  have c: "kid h a = Some (hd xs)" "pv h (hd xs) = Some ?l" "live h (hd xs)" "live h a" "live h ?l" "hd xs \<in> set xs"
    "?l \<in> set xs" "a \<noteq> hd xs" "a \<noteq> ?l" "x \<noteq> hd xs" "x \<noteq> ?l"
    using k x False by (auto simp: kids_ok_def linked_def)
  let ?h = "upd (hd xs) (\<lambda>c. c\<lparr>ce_prev := Some x\<rparr>) (upd x (\<lambda>c. c\<lparr>ce_prev := Some ?l\<rparr>) (upd ?l (\<lambda>c. c\<lparr>ce_next := Some x\<rparr>) h))"
  have "add_item_to_array (Some a) (Some x) h = Inr (True, ?h)"
    using c k x False by (simp add: add_item_to_array_def suffix_object_def heap_simps Let_def)
  moreover have "seg ?h xs"
    by (rule seg_keep [of h]) (use k x False in \<open>auto simp: kids_ok_def linked_def\<close>)
  moreover have e: "edits h a (insert x (set xs)) ?h"
    by (intro edits_intros) (use c x in auto)
  moreover have "kids_ok ?h a (xs @ [x])"
    by (rule kids_okI [OF e]) (use k x c False \<open>seg ?h xs\<close> in \<open>auto simp: kids_ok_def seg_append\<close>)
  ultimately show ?thesis by blast
qed

text \<open>The links around one element of the list.\<close>

lemma kids_around:
  assumes "kids_ok h a (us @ x # vs)"
  shows "live h a" "live h x" "a \<noteq> x" "a \<notin> set us" "a \<notin> set vs" "x \<notin> set us" "x \<notin> set vs" "set us \<inter> set vs = {}"
    "distinct us" "distinct vs" "\<forall>y \<in> set us. live h y" "\<forall>y \<in> set vs. live h y" "seg h us" "seg h vs"
    "nx h x = hd_ptr vs" "pv h x = Some (last (if us = [] then x # vs else us))"
    "kid h a = hd_ptr (us @ [x])" "nx h (last (x # vs)) = None"
    "us \<noteq> [] \<Longrightarrow> pv h (hd us) = Some (last (x # vs))"
proof -
  have "seg h us" "seg h (x # vs)" "us \<noteq> [] \<longrightarrow> nx h (last us) = Some x \<and> pv h x = Some (last us)"
    using assms by (auto simp: kids_ok_def linked_def seg_append)
  moreover from this(2) have "seg h vs" by (cases vs) simp_all
  moreover have "nx h x = hd_ptr vs"
    using \<open>seg h (x # vs)\<close> assms by (cases vs) (auto simp: kids_ok_def linked_def)
  ultimately show "seg h us" "seg h vs" "nx h x = hd_ptr vs" "pv h x = Some (last (if us = [] then x # vs else us))"
    using assms by (auto simp: kids_ok_def linked_def)
qed (use assms in \<open>cases us; auto simp: kids_ok_def linked_def\<close>)+

lemma detach_only:
  assumes "kids_ok h a [x]"
  shows "\<exists>h'. cJSON_DetachItemViaPointer (Some a) (Some x) h = Inr (Some x, h') \<and> kids_ok h' a [] \<and>
    nx h' x = None \<and> edits h a {x} h'"
  using assms by (auto simp: cJSON_DetachItemViaPointer_def kids_ok_def linked_def heap_simps edits_def)

lemma detach_first:
  assumes k: "kids_ok h a (x # vs)" and vs: "vs \<noteq> []"
  shows "\<exists>h'. cJSON_DetachItemViaPointer (Some a) (Some x) h = Inr (Some x, h') \<and> kids_ok h' a vs \<and>
    nx h' x = None \<and> edits h a (set (x # vs)) h'"
proof -
  note f = kids_around [of h a "[]" x vs, unfolded append_Nil, OF k]
  let ?h = "upd x (\<lambda>c. c\<lparr>ce_next := None\<rparr>) (upd x (\<lambda>c. c\<lparr>ce_prev := None\<rparr>) (upd a (\<lambda>c. c\<lparr>ce_child := Some (hd vs)\<rparr>)
    (upd (hd vs) (\<lambda>c. c\<lparr>ce_prev := Some (last vs)\<rparr>) h)))"
  have c: "hd vs \<in> set vs" "hd vs \<noteq> x" "hd vs \<noteq> a" "live h (hd vs)" "last vs \<noteq> x" "last vs \<in> set vs" "last vs \<noteq> a" using vs f by auto
  have D: "cJSON_DetachItemViaPointer (Some a) (Some x) h = Inr (Some x, ?h)"
    using f vs c by (simp add: cJSON_DetachItemViaPointer_def heap_simps cong: bindE_weak)
  moreover have "seg ?h vs" by (rule seg_keep [OF f(14) f(10)]) (use f c in auto)
  moreover have e: "edits h a (set (x # vs)) ?h" by (intro edits_intros) (use f(1,2) c in simp_all)
  moreover have "nx ?h (last vs) = None" using f(18) vs c by (cases "last vs = hd vs") simp_all
  moreover have "pv ?h (hd vs) = Some (last vs)" using c by simp
  moreover have "kid ?h a = hd_ptr vs" using c f(3) vs by simp
  ultimately have "kids_ok ?h a vs" by (intro kids_okI [OF e f(1,12,10,5) _ _ vs])
  then show ?thesis using D e by (intro exI [of _ ?h]) simp
qed

lemma detach_last:
  assumes k: "kids_ok h a (us @ [x])" and us: "us \<noteq> []"
  shows "\<exists>h'. cJSON_DetachItemViaPointer (Some a) (Some x) h = Inr (Some x, h') \<and> kids_ok h' a us \<and>
    nx h' x = None \<and> edits h a (set (us @ [x])) h'"
proof -
  note f = kids_around [of h a us x "[]", OF k]
  let ?u = "last us"
  let ?h = "upd x (\<lambda>c. c\<lparr>ce_next := None\<rparr>) (upd x (\<lambda>c. c\<lparr>ce_prev := None\<rparr>)
    (upd (hd us) (\<lambda>c. c\<lparr>ce_prev := Some ?u\<rparr>) (upd ?u (\<lambda>c. c\<lparr>ce_next := None\<rparr>) h)))"
  have c: "hd us \<in> set us" "?u \<in> set us" "hd us \<noteq> x" "hd us \<noteq> a" "?u \<noteq> x" "?u \<noteq> a" "live h (hd us)" "live h ?u"
    using us f by auto
  have D: "cJSON_DetachItemViaPointer (Some a) (Some x) h = Inr (Some x, ?h)"
    using f us c by (simp add: cJSON_DetachItemViaPointer_def heap_simps cong: bindE_weak)
  moreover have "seg ?h us" by (rule seg_keep [OF f(13) f(9)]) (use f c in auto)
  moreover have e: "edits h a (set (us @ [x])) ?h" by (intro edits_intros) (use f(1,2) c in simp_all)
  moreover have "nx ?h ?u = None" "pv ?h (hd us) = Some ?u" using c by simp_all
  moreover have "kid ?h a = hd_ptr us" using c f(3,17) us by simp
  ultimately have "kids_ok ?h a us" by (intro kids_okI [OF e f(1,11,9,4) _ _ us])
  then show ?thesis using D e by (intro exI [of _ ?h]) simp
qed

lemma detach_middle:
  assumes k: "kids_ok h a (us @ x # vs)" and ne: "us \<noteq> []" "vs \<noteq> []"
  shows "\<exists>h'. cJSON_DetachItemViaPointer (Some a) (Some x) h = Inr (Some x, h') \<and> kids_ok h' a (us @ vs) \<and>
    nx h' x = None \<and> edits h a (set (us @ x # vs)) h'"
proof -
  note f = kids_around [OF k]
  let ?u = "last us" and ?v = "hd vs"
  let ?h = "upd x (\<lambda>c. c\<lparr>ce_next := None\<rparr>) (upd x (\<lambda>c. c\<lparr>ce_prev := None\<rparr>)
    (upd ?v (\<lambda>c. c\<lparr>ce_prev := Some ?u\<rparr>) (upd ?u (\<lambda>c. c\<lparr>ce_next := Some ?v\<rparr>) h)))"
  have c: "hd us \<in> set us" "?u \<in> set us" "?v \<in> set vs" "last vs \<in> set vs" "hd us \<noteq> x" "?u \<noteq> x" "?u \<noteq> a" "?v \<noteq> x" "?v \<noteq> a"
    "live h ?u" "live h ?v" using ne f by auto
  then have d: "?u \<noteq> ?v" "hd us \<noteq> ?v" "last vs \<noteq> ?u" "last vs \<noteq> x" "?v \<notin> set us" "?u \<notin> set vs" using f(7,8) by auto
  have "cJSON_DetachItemViaPointer (Some a) (Some x) h = Inr (Some x, ?h)"
    using f ne c d by (simp add: cJSON_DetachItemViaPointer_def heap_simps cong: bindE_weak)
  moreover have "seg ?h us" by (rule seg_keep [OF f(13) f(9)]) (use f(6) c d in auto)
  moreover have "seg ?h vs" by (rule seg_keep [OF f(14) f(10)]) (use f(7) c d in auto)
  ultimately have s: "seg ?h (us @ vs)" using ne c d by (simp add: seg_append)
  have e: "edits h a (set (us @ x # vs)) ?h" by (intro edits_intros) (use f(1,2) c in auto)
  then have "kids_ok ?h a (us @ vs)" by (rule kids_okI) (use s f ne c d in auto)
  moreover have "nx ?h x = None" by simp
  ultimately show ?thesis using e \<open>cJSON_DetachItemViaPointer (Some a) (Some x) h = _\<close> by blast
qed

lemma detach_kids:
  assumes "kids_ok h a (us @ x # vs)"
  shows "\<exists>h'. cJSON_DetachItemViaPointer (Some a) (Some x) h = Inr (Some x, h') \<and> kids_ok h' a (us @ vs) \<and>
    nx h' x = None \<and> edits h a (set (us @ x # vs)) h'"
proof (cases "us = []"; cases "vs = []")
  assume "us = []" "vs = []" then show ?thesis using detach_only assms by simp
next
  assume "us = []" "vs \<noteq> []" then show ?thesis using detach_first assms by simp
next
  assume "us \<noteq> []" "vs = []" then show ?thesis using detach_last [of h a us x] assms by simp
next
  assume "us \<noteq> []" "vs \<noteq> []" then show ?thesis using detach_middle assms by simp
qed

section \<open>Walking along a list\<close>

definition chain :: "heap \<Rightarrow> nat list \<Rightarrow> bool" where
  "chain h xs \<longleftrightarrow> (\<forall>x \<in> set xs. live h x) \<and> seg h xs \<and> (xs \<noteq> [] \<longrightarrow> nx h (last xs) = None)"

lemma chain_Cons: "chain h (x # vs) \<Longrightarrow> live h x \<and> nx h x = hd_ptr vs \<and> chain h vs"
  by (cases vs) (auto simp: chain_def)

lemma kids_chain: "kids_ok h a xs \<Longrightarrow> chain h xs"
  by (auto simp: kids_ok_def linked_def chain_def)

lemma array_walk_chain:
  "chain h xs \<Longrightarrow> array_walk h (hd_ptr xs) i = Inr (if i < length xs then Some (xs ! i) else None)"
proof (induction i arbitrary: xs)
  case 0
  then show ?case by (cases xs) auto
next
  case (Suc i)
  then show ?case by (cases xs) (auto dest!: chain_Cons simp: heap_simps)
qed

lemma get_array_item_kids:
  "kids_ok h a xs \<Longrightarrow> get_array_item_at (Some a) i h = Inr (if i < length xs then Some (xs ! i) else None)"
  using array_walk_chain [OF kids_chain, of h a xs i]
  by (simp add: get_array_item_at_def heap_simps kids_ok_def)

lemma size_walk_chain: "chain h xs \<Longrightarrow> size_walk h (hd_ptr xs) n = retC (n + length xs)"
proof (induction xs arbitrary: n)
  case Nil
  then show ?case by (subst size_walk.simps) simp
next
  case (Cons x xs)
  then show ?case by (subst size_walk.simps) (auto dest!: chain_Cons simp: heap_simps)
qed

lemma size_kids:
  "kids_ok h a xs \<Longrightarrow> GetArraySize_at (Some a) h = retC (sint (of_nat (length xs) :: 32 word))"
  using size_walk_chain [OF kids_chain, of h a xs 0]
  by (simp add: GetArraySize_at_def heap_simps kids_ok_def)

text \<open>The member a lookup finds: the first whose name does not differ, if it has a name.\<close>

definition first_named :: "(nat \<Rightarrow> cJSON_node) \<Rightarrow> bool \<Rightarrow> bytes \<Rightarrow> nat list \<Rightarrow> ptr" where
  "first_named N case_sensitive name xs =
     (case List.find (\<lambda>x. \<not> differs case_sensitive name (cj_string (N x))) xs of
        None \<Rightarrow> None | Some x \<Rightarrow> if cj_string (N x) = None then None else Some x)"

lemma member_walk_chain:
  "chain h xs \<Longrightarrow> member_walk h case_sensitive name (hd_ptr xs) = retC (first_named (nd h) case_sensitive name xs)"
proof (induction xs)
  case Nil
  then show ?case by (subst member_walk.simps) (simp add: first_named_def)
next
  case (Cons x xs)
  then show ?case by (subst member_walk.simps) (auto dest!: chain_Cons simp: heap_simps first_named_def)
qed

lemma get_object_item_kids:
  "kids_ok h a xs \<Longrightarrow> get_object_item_at (Some a) name case_sensitive h =
     retC (case name of None \<Rightarrow> None | Some name \<Rightarrow> first_named (nd h) case_sensitive name xs)"
  using member_walk_chain [OF kids_chain, of h a xs case_sensitive]
  by (auto simp: get_object_item_at_def heap_simps kids_ok_def split: option.split)

lemma first_named_in: "first_named N cs name xs = Some x \<Longrightarrow> x \<in> set xs"
  by (auto simp: first_named_def find_Some_iff split: option.splits if_splits)

section \<open>Inserting and replacing in a list\<close>

lemma insert_kids:
  assumes k: "kids_ok h a (us @ v # vs)" and x: "live h x" "x \<notin> set (us @ v # vs)" "x \<noteq> a"
  shows "\<exists>h'. cJSON_InsertItemInArray (Some a) (int (length us)) (Some x) h = Inr (True, h') \<and>
    kids_ok h' a (us @ x # v # vs) \<and> edits h a (insert x (set (us @ v # vs))) h'"
proof (cases "us = []")
  case True
  note f = kids_around [OF k]
  let ?h = "upd a (\<lambda>c. c\<lparr>ce_child := Some x\<rparr>) (upd v (\<lambda>c. c\<lparr>ce_prev := Some x\<rparr>)
    (upd x (\<lambda>c. c\<lparr>ce_prev := Some (last (v # vs))\<rparr>) (upd x (\<lambda>c. c\<lparr>ce_next := Some v\<rparr>) h)))"
  have c: "x \<noteq> v" "last (v # vs) \<noteq> x" "last (v # vs) \<in> set (v # vs)" "vs \<noteq> [] \<Longrightarrow> x \<noteq> last vs" using x f by (auto split: if_splits)
  have "cJSON_InsertItemInArray (Some a) 0 (Some x) h = Inr (True, ?h)"
    using f True x c get_array_item_kids [OF k, of 0]
    by (simp add: cJSON_InsertItemInArray_def heap_simps del: last.simps cong: bindE_weak)
  moreover have "seg h (v # vs)" using k True by (auto simp: kids_ok_def linked_def)
  then have "seg ?h (v # vs)" by (rule seg_keep) (use x f c in auto)
  moreover have e: "edits h a (insert x (set (us @ v # vs))) ?h" by (intro edits_intros) (use f x in auto)
  then have "kids_ok ?h a (x # v # vs)" by (rule kids_okI) (use \<open>seg ?h (v # vs)\<close> f x c True in auto)
  ultimately show ?thesis using True e by (intro exI [of _ ?h]) simp
next
  case False
  note f = kids_around [OF k]
  let ?u = "last us"
  let ?h = "upd ?u (\<lambda>c. c\<lparr>ce_next := Some x\<rparr>) (upd v (\<lambda>c. c\<lparr>ce_prev := Some x\<rparr>)
    (upd x (\<lambda>c. c\<lparr>ce_prev := Some ?u\<rparr>) (upd x (\<lambda>c. c\<lparr>ce_next := Some v\<rparr>) h)))"
  have c: "x \<noteq> v" "?u \<in> set us" "hd us \<in> set us" "last (v # vs) \<in> set (v # vs)" "a \<noteq> v" using x f False by auto
  then have d: "?u \<noteq> x" "?u \<noteq> v" "hd us \<noteq> x" "hd us \<noteq> v" "last (v # vs) \<noteq> x" "last (v # vs) \<noteq> ?u" "live h ?u" "?u \<noteq> a"
    using x f by auto
  have "cJSON_InsertItemInArray (Some a) (int (length us)) (Some x) h = Inr (True, ?h)"
    using f False x c d get_array_item_kids [OF k, of "length us"]
    by (simp add: cJSON_InsertItemInArray_def heap_simps del: last.simps cong: bindE_weak)
  moreover have "seg h (v # vs)" using k by (auto simp: kids_ok_def linked_def seg_append)
  then have "seg ?h (v # vs)" by (rule seg_keep) (use x f c d in auto)
  moreover have "seg ?h us" by (rule seg_keep [OF f(13) f(9)]) (use x f c d in auto)
  ultimately have s: "seg ?h (us @ x # v # vs)" using False c d by (simp add: seg_append)
  have e: "edits h a (insert x (set (us @ v # vs))) ?h" by (intro edits_intros) (use f x c d in auto)
  then have "kids_ok ?h a (us @ x # v # vs)" by (rule kids_okI) (use s f x c d False in auto)
  then show ?thesis using e \<open>cJSON_InsertItemInArray (Some a) _ (Some x) h = _\<close> by blast
qed

end
