(* ===== verification/Cjson_Replace.thy ===== *)
theory Cjson_Replace
  imports Cjson_Lists
begin

text \<open>
  Replacing an element of a list (\<open>cJSON_ReplaceItemViaPointer\<close>), by the place the element has: the only
  one, the first, the last, or one in the middle.
\<close>

text \<open>The writes of \<open>cJSON_ReplaceItemViaPointer\<close> before the replaced item is deleted.\<close>

lemma replace_only:
  assumes k: "kids_ok h a [x]" and y: "live h y" "y \<noteq> x" "y \<noteq> a"
  shows "\<exists>h'. cJSON_ReplaceItemViaPointer (Some a) (Some x) (Some y) h =
      bindC (Delete_at (Some x) h') (\<lambda>h. retC (True, h)) \<and>
    kids_ok h' a [y] \<and> nx h' x = None \<and> edits h a {y, x} h'"
proof -
  note f = kids_around [of h a "[]" x "[]", unfolded append_Nil, OF k]
  let ?h = "upd x (\<lambda>c. c\<lparr>ce_prev := None\<rparr>) (upd x (\<lambda>c. c\<lparr>ce_next := None\<rparr>) (upd a (\<lambda>c. c\<lparr>ce_child := Some y\<rparr>)
    (upd y (\<lambda>c. c\<lparr>ce_prev := Some y\<rparr>) (upd y (\<lambda>c. c\<lparr>ce_prev := Some x\<rparr>) (upd y (\<lambda>c. c\<lparr>ce_next := None\<rparr>) h)))))"
  have D: "cJSON_ReplaceItemViaPointer (Some a) (Some x) (Some y) h = bindC (Delete_at (Some x) ?h) (\<lambda>h. retC (True, h))"
    using f y by (simp add: cJSON_ReplaceItemViaPointer_def heap_simps cong: bindE_weak bindC_weak)
  moreover have "kids_ok ?h a [y]" "nx ?h x = None" "edits h a {y, x} ?h"
    using f y by (auto simp: kids_ok_def linked_def edits_def)
  ultimately show ?thesis by blast
qed

lemma replace_first:
  assumes k: "kids_ok h a (x # vs)" and y: "live h y" "y \<notin> set (x # vs)" "y \<noteq> a" and vs: "vs \<noteq> []"
  shows "\<exists>h'. cJSON_ReplaceItemViaPointer (Some a) (Some x) (Some y) h =
      bindC (Delete_at (Some x) h') (\<lambda>h. retC (True, h)) \<and>
    kids_ok h' a (y # vs) \<and> nx h' x = None \<and> edits h a (insert y (set (x # vs))) h'"
proof -
  note f = kids_around [of h a "[]" x vs, unfolded append_Nil, OF k]
  let ?h = "upd x (\<lambda>c. c\<lparr>ce_prev := None\<rparr>) (upd x (\<lambda>c. c\<lparr>ce_next := None\<rparr>) (upd a (\<lambda>c. c\<lparr>ce_child := Some y\<rparr>)
    (upd (hd vs) (\<lambda>c. c\<lparr>ce_prev := Some y\<rparr>) (upd y (\<lambda>c. c\<lparr>ce_prev := Some (last vs)\<rparr>)
    (upd y (\<lambda>c. c\<lparr>ce_next := Some (hd vs)\<rparr>) h)))))"
  have c: "hd vs \<in> set vs" "last vs \<in> set vs" "hd vs \<noteq> x" "hd vs \<noteq> a" "live h (hd vs)" "last vs \<noteq> x" "x \<noteq> y" "y \<notin> set vs"
    "y \<noteq> hd vs" "y \<noteq> last vs" "last vs \<noteq> a" using vs f y by auto
  have D: "cJSON_ReplaceItemViaPointer (Some a) (Some x) (Some y) h = bindC (Delete_at (Some x) ?h) (\<lambda>h. retC (True, h))"
    using f y vs c by (simp add: cJSON_ReplaceItemViaPointer_def heap_simps cong: bindE_weak bindC_weak)
  moreover have "seg ?h vs" by (rule seg_keep [OF f(14) f(10)]) (use f(7) c in auto)
  then have s: "seg ?h (y # vs)" using c vs seg_append [of ?h "[y]" vs] by simp
  have e: "edits h a (insert y (set (x # vs))) ?h" by (intro edits_intros) (use f(1,2) y c in simp_all)
  have "nx ?h (last (y # vs)) = None" using f(18) vs c by (cases "last vs = hd vs") simp_all
  moreover have "pv ?h (hd (y # vs)) = Some (last (y # vs))" using c vs by simp
  moreover have "kid ?h a = hd_ptr (y # vs)" using f(3) y(3) c by simp
  ultimately have "kids_ok ?h a (y # vs)" by (intro kids_okI [OF e f(1) _ _ _ _ s]) (use f(5,10,12) y c in simp_all)
  then show ?thesis using D e by (intro exI [of _ ?h]) simp
qed

lemma replace_last:
  assumes k: "kids_ok h a (us @ [x])" and y: "live h y" "y \<notin> set (us @ [x])" "y \<noteq> a" and us: "us \<noteq> []"
  shows "\<exists>h'. cJSON_ReplaceItemViaPointer (Some a) (Some x) (Some y) h =
      bindC (Delete_at (Some x) h') (\<lambda>h. retC (True, h)) \<and>
    kids_ok h' a (us @ [y]) \<and> nx h' x = None \<and> edits h a (insert y (set (us @ [x]))) h'"
proof -
  note f = kids_around [OF k]
  let ?u = "last us"
  let ?h = "upd x (\<lambda>c. c\<lparr>ce_prev := None\<rparr>) (upd x (\<lambda>c. c\<lparr>ce_next := None\<rparr>) (upd (hd us) (\<lambda>c. c\<lparr>ce_prev := Some y\<rparr>)
    (upd ?u (\<lambda>c. c\<lparr>ce_next := Some y\<rparr>) (upd y (\<lambda>c. c\<lparr>ce_prev := Some ?u\<rparr>) (upd y (\<lambda>c. c\<lparr>ce_next := None\<rparr>) h)))))"
  have c: "hd us \<in> set us" "?u \<in> set us" "hd us \<noteq> x" "hd us \<noteq> a" "live h (hd us)" "live h ?u" "?u \<noteq> x" "x \<noteq> y" "y \<notin> set us"
    "y \<noteq> hd us" "y \<noteq> ?u" "?u \<noteq> a" using us f y by auto
  have D: "cJSON_ReplaceItemViaPointer (Some a) (Some x) (Some y) h = bindC (Delete_at (Some x) ?h) (\<lambda>h. retC (True, h))"
    using f y us c by (simp add: cJSON_ReplaceItemViaPointer_def heap_simps cong: bindE_weak bindC_weak)
  moreover have "seg ?h us" by (rule seg_keep [OF f(13) f(9)]) (use f(6) c in auto)
  then have s: "seg ?h (us @ [y])" using us c by (simp add: seg_append)
  have e: "edits h a (insert y (set (us @ [x]))) ?h" by (intro edits_intros) (use f(1,2) y c in simp_all)
  have "nx ?h (last (us @ [y])) = None" using c by simp
  moreover have "pv ?h (hd (us @ [y])) = Some (last (us @ [y]))" using c us by simp
  moreover have "kid ?h a = hd_ptr (us @ [y])" using f(3,17) y(3) us c by simp
  ultimately have "kids_ok ?h a (us @ [y])" by (intro kids_okI [OF e f(1) _ _ _ _ s]) (use f(4,9,11) y c in simp_all)
  then show ?thesis using D e by (intro exI [of _ ?h]) simp
qed

lemma replace_middle:
  assumes k: "kids_ok h a (us @ x # vs)" and y: "live h y" "y \<notin> set (us @ x # vs)" "y \<noteq> a" and ne: "us \<noteq> []" "vs \<noteq> []"
  shows "\<exists>h'. cJSON_ReplaceItemViaPointer (Some a) (Some x) (Some y) h =
      bindC (Delete_at (Some x) h') (\<lambda>h. retC (True, h)) \<and>
    kids_ok h' a (us @ y # vs) \<and> nx h' x = None \<and> edits h a (insert y (set (us @ x # vs))) h'"
proof -
  note f = kids_around [OF k]
  let ?u = "last us" and ?v = "hd vs"
  let ?h = "upd x (\<lambda>c. c\<lparr>ce_prev := None\<rparr>) (upd x (\<lambda>c. c\<lparr>ce_next := None\<rparr>) (upd ?u (\<lambda>c. c\<lparr>ce_next := Some y\<rparr>)
    (upd ?v (\<lambda>c. c\<lparr>ce_prev := Some y\<rparr>) (upd y (\<lambda>c. c\<lparr>ce_prev := Some ?u\<rparr>) (upd y (\<lambda>c. c\<lparr>ce_next := Some ?v\<rparr>) h)))))"
  have c: "hd us \<in> set us" "?u \<in> set us" "?v \<in> set vs" "last vs \<in> set vs" "hd us \<noteq> x" "?u \<noteq> x" "?u \<noteq> a" "?v \<noteq> x" "?v \<noteq> a"
    "live h ?u" "live h ?v" "x \<noteq> y" "y \<notin> set us" "y \<notin> set vs" "y \<noteq> hd us" "y \<noteq> ?u" "y \<noteq> ?v" "y \<noteq> last vs" using ne f y by auto
  then have d: "?u \<noteq> ?v" "hd us \<noteq> ?v" "last vs \<noteq> ?u" "last vs \<noteq> x" "?v \<notin> set us" "?u \<notin> set vs" using f(7,8) by auto
  have D: "cJSON_ReplaceItemViaPointer (Some a) (Some x) (Some y) h = bindC (Delete_at (Some x) ?h) (\<lambda>h. retC (True, h))"
    using f y ne c d by (simp add: cJSON_ReplaceItemViaPointer_def heap_simps cong: bindE_weak bindC_weak)
  moreover have "seg ?h us" by (rule seg_keep [OF f(13) f(9)]) (use f(6) c d in auto)
  moreover have "seg ?h vs" by (rule seg_keep [OF f(14) f(10)]) (use f(7) c d in auto)
  ultimately have s: "seg ?h (us @ y # vs)" using ne c d seg_append [of ?h us "y # vs"] seg_append [of ?h "[y]" vs] by simp
  have e: "edits h a (insert y (set (us @ x # vs))) ?h" by (intro edits_intros) (use f(1,2) y c in simp_all)
  have "nx ?h (last (us @ y # vs)) = None" using f(18) ne c d by (cases "last vs = hd vs") simp_all
  moreover have "pv ?h (hd (us @ y # vs)) = Some (last (us @ y # vs))" using f(19) ne c d by (cases "hd us = last us") simp_all
  moreover have "kid ?h a = hd_ptr (us @ y # vs)" using f(3,17) y(3) ne c by simp
  ultimately have "kids_ok ?h a (us @ y # vs)"
    by (intro kids_okI [OF e f(1) _ _ _ _ s]) (use f(4-12) y c d in auto)
  then show ?thesis using D e by (intro exI [of _ ?h]) simp
qed

lemma replace_kids:
  assumes "kids_ok h a (us @ x # vs)" "live h y" "y \<notin> set (us @ x # vs)" "y \<noteq> a"
  shows "\<exists>h'. cJSON_ReplaceItemViaPointer (Some a) (Some x) (Some y) h =
      bindC (Delete_at (Some x) h') (\<lambda>h. retC (True, h)) \<and>
    kids_ok h' a (us @ y # vs) \<and> nx h' x = None \<and> edits h a (insert y (set (us @ x # vs))) h'"
proof (cases "us = []"; cases "vs = []")
  assume "us = []" "vs = []" then show ?thesis using replace_only [of h a x y] assms by auto
next
  assume "us = []" "vs \<noteq> []" then show ?thesis using replace_first [of h a x vs y] assms by simp
next
  assume "us \<noteq> []" "vs = []" then show ?thesis using replace_last [of h a us x y] assms by simp
next
  assume "us \<noteq> []" "vs \<noteq> []" then show ?thesis using replace_middle [of h a us x vs y] assms by simp
qed

end
