(* ===== verification/Cjson_Delete.thy ===== *)
theory Cjson_Delete
  imports Cjson_Replace
begin

text \<open>
  \<open>cJSON_Delete\<close> on the heap: it ends, faults nowhere, and frees the item, the items chained behind it and all they
  own, each block once, and nothing else.
\<close>

section \<open>The shape of what is deleted\<close>

datatype shape = Sh (sh_at: nat) (sh_kids: "shape list")

fun addrs :: "shape list \<Rightarrow> nat list" where
  "addrs [] = []"
| "addrs (Sh a cs # ts) = a # addrs cs @ addrs ts"

fun shaped :: "heap \<Rightarrow> shape list \<Rightarrow> bool" where
  "shaped h [] = True"
| "shaped h (Sh a cs # ts) =
     (live h a \<and> nx h a = hd_ptr (map sh_at ts) \<and>
      (if owns_value (nd h a) then kid h a = hd_ptr (map sh_at cs) \<and> shaped h cs else cs = []) \<and>
      shaped h ts)"

lemma shaped_cong:
  "(\<And>a. a \<in> set (addrs ts) \<Longrightarrow> hp_cells h' a = hp_cells h a) \<Longrightarrow> shaped h' ts = shaped h ts"
proof (induction ts rule: addrs.induct)
  case (2 a cs ts)
  have "hp_cells h' a = hp_cells h a" using "2.prems" by simp
  then have "live h' a = live h a" "cell_at h' a = cell_at h a" by (simp_all add: live_def cell_at_def)
  then show ?case using 2 by simp
qed simp

text \<open>The items of A are gone, with the blocks they owned.\<close>

definition gone :: "heap \<Rightarrow> nat set \<Rightarrow> heap \<Rightarrow> bool" where
  "gone h A h' \<longleftrightarrow> (\<forall>a. hp_cells h' a = (if a \<in> A then None else hp_cells h a)) \<and> hp_fresh h' = hp_fresh h \<and>
     hooks_step (- (\<Sum>a \<in> A. node_blocks (nd h a))) (hp_hooks h) (hp_hooks h')"

lemma gone_refl: "gone h {} h"
  by (simp add: gone_def)

lemma gone_trans:
  assumes "gone h A h1" "gone h1 B h2" "A \<inter> B = {}" "finite A" "finite B"
  shows "gone h (A \<union> B) h2"
proof -
  have "nd h1 b = nd h b" if "b \<in> B" for b using assms(1,3) that by (auto simp: gone_def cell_at_def)
  then have s: "(\<Sum>b \<in> B. node_blocks (nd h1 b)) = (\<Sum>b \<in> B. node_blocks (nd h b))" by simp
  note s1 = assms(1) [unfolded gone_def, THEN conjunct2, THEN conjunct2]
  note s2 = assms(2) [unfolded gone_def, THEN conjunct2, THEN conjunct2]
  have e: "- (\<Sum>a \<in> A \<union> B. node_blocks (nd h a)) = - (\<Sum>a \<in> A. node_blocks (nd h a)) + - (\<Sum>b \<in> B. node_blocks (nd h1 b))"
    using assms(3-5) s by (simp add: sum.union_disjoint)
  have "hooks_step (- (\<Sum>a \<in> A \<union> B. node_blocks (nd h a))) (hp_hooks h) (hp_hooks h2)"
    using hooks_step_trans [OF s1 s2] by (simp only: e)
  moreover have "hp_cells h2 x = (if x \<in> A \<union> B then None else hp_cells h x)" for x
    using assms(1,2) by (simp add: gone_def)
  moreover have "hp_fresh h2 = hp_fresh h" using assms(1,2) by (simp add: gone_def)
  ultimately show ?thesis by (simp add: gone_def)
qed

text \<open>An item and its strings are freed.\<close>

lemma free_item:
  assumes "live h a"
  shows "\<exists>h'. free_cell (Some a) (free_string (owns_name (nd h a)) (cj_string (nd h a))
      (free_string (owns_value (nd h a)) (cj_valuestring (nd h a)) h)) = Inr h' \<and> gone h {a} h'"
  using assms
  by (auto simp: free_cell_def free_string_def live_def gone_def hooks_step_def hook_deallocate_def node_blocks_def)

lemma delete_shaped:
  "shaped h ts \<Longrightarrow> distinct (addrs ts) \<Longrightarrow>
    \<exists>h'. Delete_at (hd_ptr (map sh_at ts)) h = Some (Inr h') \<and> gone h (set (addrs ts)) h'"
proof (induction ts arbitrary: h rule: addrs.induct)
  case 1
  show ?case by (subst Delete_at.simps) (simp add: retC_def gone_refl)
next
  case (2 a cs ts)
  let ?c = "cell_at h a"
  have l: "live h a" and n: "nx h a = hd_ptr (map sh_at ts)" and d: "a \<notin> set (addrs cs)" "a \<notin> set (addrs ts)"
    "distinct (addrs cs)" "distinct (addrs ts)" "set (addrs cs) \<inter> set (addrs ts) = {}" and ts: "shaped h ts"
    using "2.prems" by (auto split: if_splits)
  have "\<exists>h1. (if owns_value (nd h a) \<and> kid h a \<noteq> None then Delete_at (kid h a) h else retC h) = Some (Inr h1) \<and>
    gone h (set (addrs cs)) h1"
  proof (cases "owns_value (nd h a) \<and> cs \<noteq> []")
    case True
    then have "shaped h cs" "kid h a = hd_ptr (map sh_at cs)" using "2.prems" by auto
    then show ?thesis using "2.IH"(1) [of h] True d(3) by auto
  next
    case False
    then have "cs = []" "\<not> (owns_value (nd h a) \<and> kid h a \<noteq> None)" using "2.prems" by (auto split: if_splits)
    then show ?thesis using gone_refl by (auto simp: retC_def)
  qed
  then obtain h1 where h1: "(if owns_value (nd h a) \<and> kid h a \<noteq> None then Delete_at (kid h a) h else retC h) = Some (Inr h1)"
    and g1: "gone h (set (addrs cs)) h1" by blast
  have c1: "hp_cells h1 a = hp_cells h a" using g1 d by (simp add: gone_def)
  then have l1: "live h1 a" "cell_at h1 a = ?c" using l by (simp_all add: live_def cell_at_def)
  obtain h2 where h2: "free_cell (Some a) (free_string (owns_name (nd h1 a)) (cj_string (nd h1 a))
      (free_string (owns_value (nd h1 a)) (cj_valuestring (nd h1 a)) h1)) = Inr h2" and g2: "gone h1 {a} h2"
    using free_item [OF l1(1)] by blast
  have "hp_cells h2 b = hp_cells h b" if "b \<in> set (addrs ts)" for b
    using that g1 g2 d by (auto simp: gone_def disjoint_iff)
  then have "shaped h2 ts" using shaped_cong [of ts h2 h] ts by simp
  then obtain h3 where h3: "Delete_at (hd_ptr (map sh_at ts)) h2 = Some (Inr h3)" and g3: "gone h2 (set (addrs ts)) h3"
    using "2.IH"(2) d by blast
  have "gone h (set (addrs cs) \<union> {a}) h2" by (rule gone_trans [OF g1 g2]) (use d in auto)
  then have "gone h (set (addrs cs) \<union> {a} \<union> set (addrs ts)) h3" by (rule gone_trans [OF _ g3]) (use d in auto)
  moreover have "set (addrs cs) \<union> {a} \<union> set (addrs ts) = set (addrs (Sh a cs # ts))" by auto
  moreover have "Delete_at (Some a) h = Some (Inr h3)"
    using l l1 h1 h2 h3 n by (subst Delete_at.simps) (simp add: heap_simps)
  ultimately show ?case by auto
qed

end
