(* ===== verification/Cjson_Store.thy ===== *)
theory Cjson_Store
  imports Cjson_Delete
begin

text \<open>
  The heap of items as a whole. A store says which items exist, what their fields are, and which lists of
  children they have; \<open>represents\<close> relates it to a heap. Lists of different items have no element in common and no
  item is below itself, so what an item owns is a tree.
\<close>

section \<open>Stores\<close>

record store =
  st_kids :: "nat \<Rightarrow> nat list"
  st_node :: "nat \<Rightarrow> cJSON_node option"

definition below :: "(nat \<Rightarrow> nat list) \<Rightarrow> (nat \<times> nat) set" where
  "below K = {(a, b). b \<in> set (K a)}"

definition in_list :: "(nat \<Rightarrow> nat list) \<Rightarrow> nat \<Rightarrow> bool" where
  "in_list K b \<longleftrightarrow> (\<exists>a. b \<in> set (K a))"

definition disjoint_lists :: "(nat \<Rightarrow> nat list) \<Rightarrow> bool" where
  "disjoint_lists K \<longleftrightarrow> (\<forall>a b. a \<noteq> b \<longrightarrow> set (K a) \<inter> set (K b) = {})"

definition represents :: "heap \<Rightarrow> store \<Rightarrow> bool" where
  "represents h s \<longleftrightarrow>
     (\<forall>a. map_option ce_node (hp_cells h a) = st_node s a) \<and>
     (\<forall>a. if live h a \<and> owns_value (nd h a) then kids_ok h a (st_kids s a) else st_kids s a = []) \<and>
     disjoint_lists (st_kids s) \<and> acyclic (below (st_kids s)) \<and>
     (\<forall>b. live h b \<and> \<not> in_list (st_kids s) b \<longrightarrow> nx h b = None) \<and>
     (\<forall>a. live h a \<longrightarrow> a < hp_fresh h)"

lemma representsD:
  assumes "represents h s"
  shows "live h a \<longleftrightarrow> st_node s a \<noteq> None" "st_node s a = Some n \<Longrightarrow> nd h a = n"
    "live h a \<Longrightarrow> owns_value (nd h a) \<Longrightarrow> kids_ok h a (st_kids s a)"
    "\<not> (live h a \<and> owns_value (nd h a)) \<Longrightarrow> st_kids s a = []"
    "disjoint_lists (st_kids s)" "acyclic (below (st_kids s))"
    "live h a \<Longrightarrow> \<not> in_list (st_kids s) a \<Longrightarrow> nx h a = None" "live h a \<Longrightarrow> a < hp_fresh h"
    "b \<in> set (st_kids s a) \<Longrightarrow> live h b"
proof -
  have e: "map_option ce_node (hp_cells h a) = st_node s a" for a using assms by (simp add: represents_def)
  show "live h a \<longleftrightarrow> st_node s a \<noteq> None" by (simp add: live_def flip: e)
  show "st_node s a = Some n \<Longrightarrow> nd h a = n" by (auto simp: cell_at_def simp flip: e)
  have k: "if live h a \<and> owns_value (nd h a) then kids_ok h a (st_kids s a) else st_kids s a = []" for a
    using assms by (simp add: represents_def)
  show "live h a \<Longrightarrow> owns_value (nd h a) \<Longrightarrow> kids_ok h a (st_kids s a)" "\<not> (live h a \<and> owns_value (nd h a)) \<Longrightarrow> st_kids s a = []"
    using k [of a] by auto
  show "b \<in> set (st_kids s a) \<Longrightarrow> live h b" using k [of a] by (auto simp: kids_ok_def split: if_splits)
qed (use assms in \<open>auto simp: represents_def\<close>)

lemma finite_nodes: "represents h s \<Longrightarrow> finite (dom (st_node s))"
  using representsD(1,8) finite_subset [of "dom (st_node s)" "{..< hp_fresh h}"] by blast

section \<open>What is below an item\<close>

definition subtree :: "store \<Rightarrow> nat \<Rightarrow> nat set" where
  "subtree s x = (below (st_kids s))\<^sup>* `` {x}"

lemma one_parent: "disjoint_lists K \<Longrightarrow> (a, x) \<in> below K \<Longrightarrow> (b, x) \<in> below K \<Longrightarrow> a = b"
  by (auto simp: disjoint_lists_def below_def)

lemma siblings_apart:
  assumes K: "disjoint_lists K" "acyclic (below K)" and p: "x \<in> set (K p)" "y \<in> set (K p)" "x \<noteq> y"
    and d: "(x, d) \<in> (below K)\<^sup>*" "(y, d) \<in> (below K)\<^sup>*"
  shows False
proof -
  have no: "(u, p) \<notin> (below K)\<^sup>*" if "u \<in> set (K p)" for u
  proof
    assume "(u, p) \<in> (below K)\<^sup>*"
    then have "(u, u) \<in> (below K)\<^sup>+" using that by (auto simp: below_def intro: rtrancl_into_trancl1)
    then show False using K(2) by (simp add: acyclic_def)
  qed
  show False
    using d
  proof (induction rule: rtrancl_induct)
    case base
    then obtain z where "(y, z) \<in> (below K)\<^sup>*" "(z, x) \<in> below K" using p(3) by (metis rtranclE)
    then show ?case using one_parent [OF K(1), of z x p] p no by (auto simp: below_def)
  next
    case (step d' d)
    show ?case
    proof (cases "y = d")
      case True
      then have "d' = p" using one_parent [OF K(1) step(2), of p] p by (auto simp: below_def)
      then show ?thesis using step(1) no p by auto
    next
      case False
      then obtain z where "(y, z) \<in> (below K)\<^sup>*" "(z, d) \<in> below K" using step(4) by (metis rtranclE)
      then show ?thesis using one_parent [OF K(1) step(2)] step(3) by metis
    qed
  qed
qed

lemma wf_below:
  assumes "represents h s"
  shows "wf ((below (st_kids s))\<inverse>)"
proof (rule finite_acyclic_wf_converse)
  have "below (st_kids s) \<subseteq> {..< hp_fresh h} \<times> {..< hp_fresh h}"
  proof
    fix e assume "e \<in> below (st_kids s)"
    then obtain a b where e: "e = (a, b)" "b \<in> set (st_kids s a)" by (auto simp: below_def)
    then have "live h a" "live h b" using representsD(4,9) [OF assms] by (metis empty_iff empty_set)+
    then show "e \<in> {..< hp_fresh h} \<times> {..< hp_fresh h}" using e representsD(8) [OF assms] by auto
  qed
  then show "finite (below (st_kids s))" by (rule finite_subset) simp
  show "acyclic (below (st_kids s))" by (rule representsD(6) [OF assms])
qed

text \<open>The items below an item have a shape that \<open>cJSON_Delete\<close> can walk.\<close>

lemma addrs_map: "set (addrs (map (\<lambda>x. Sh x (f x)) xs)) = (\<Union>x \<in> set xs. insert x (set (addrs (f x))))"
  by (induction xs) auto

lemma addrs_distinct:
  "distinct xs \<Longrightarrow> (\<And>x. x \<in> set xs \<Longrightarrow> distinct (addrs (f x)) \<and> x \<notin> set (addrs (f x))) \<Longrightarrow>
    (\<And>x y. x \<in> set xs \<Longrightarrow> y \<in> set xs \<Longrightarrow> x \<noteq> y \<Longrightarrow> insert x (set (addrs (f x))) \<inter> insert y (set (addrs (f y))) = {}) \<Longrightarrow>
    distinct (addrs (map (\<lambda>x. Sh x (f x)) xs))"
proof (induction xs)
  case (Cons x xs)
  have "distinct (addrs (map (\<lambda>x. Sh x (f x)) xs))" by (rule Cons.IH) (use Cons.prems in auto)
  moreover have "insert x (set (addrs (f x))) \<inter> set (addrs (map (\<lambda>x. Sh x (f x)) xs)) = {}"
  proof -
    have "insert x (set (addrs (f x))) \<inter> insert y (set (addrs (f y))) = {}" if "y \<in> set xs" for y
      using Cons.prems(1) Cons.prems(3) [of x y] that by auto
    then show ?thesis unfolding addrs_map by blast
  qed
  ultimately show ?case using Cons.prems(2) [of x] by auto
qed simp

lemma shaped_map:
  "chain h xs \<Longrightarrow> (\<And>x. x \<in> set xs \<Longrightarrow> if owns_value (nd h x) then kid h x = hd_ptr (map sh_at (f x)) \<and> shaped h (f x) else f x = []) \<Longrightarrow>
    shaped h (map (\<lambda>x. Sh x (f x)) xs)"
proof (induction xs)
  case (Cons x xs)
  have "map sh_at (map (\<lambda>x. Sh x (f x)) xs) = xs" by (simp add: comp_def)
  then show ?case using chain_Cons [OF Cons.prems(1)] Cons by (simp del: map_map)
qed simp

lemma plus_kids: "(below K)\<^sup>+ `` {a} = (\<Union>x \<in> set (K a). (below K)\<^sup>* `` {x})"
  by (auto simp: below_def trancl_unfold_left Image_def relcomp_unfold)

lemma star_plus: "insert x (R\<^sup>+ `` {x}) = R\<^sup>* `` {x}"
  by (auto intro: trancl_into_rtrancl dest: rtranclD)

lemma kids_shape:
  assumes r: "represents h s"
  shows "\<exists>cs. map sh_at cs = st_kids s a \<and> shaped h cs \<and> distinct (addrs cs) \<and> set (addrs cs) = (below (st_kids s))\<^sup>+ `` {a}"
proof (induction a rule: wf_induct [OF wf_below [OF r]])
  case (1 a)
  let ?K = "st_kids s" and ?R = "below (st_kids s)"
  let ?P = "\<lambda>x cs. map sh_at cs = ?K x \<and> shaped h cs \<and> distinct (addrs cs) \<and> set (addrs cs) = ?R\<^sup>+ `` {x}"
  have "\<exists>cs. ?P x cs" if "x \<in> set (?K a)" for x
  proof -
    have "(x, a) \<in> ?R\<inverse>" using that by (simp add: below_def)
    then show ?thesis by (rule 1 [rule_format])
  qed
  then have "\<exists>f. \<forall>x \<in> set (?K a). ?P x (f x)" by (intro bchoice ballI)
  then obtain f where f0: "\<forall>x \<in> set (?K a). ?P x (f x)" by (elim exE)
  note f = bspec [OF f0]
  let ?cs = "map (\<lambda>x. Sh x (f x)) (?K a)"
  have star: "insert x (set (addrs (f x))) = ?R\<^sup>* `` {x}" if "x \<in> set (?K a)" for x
    using f [OF that] star_plus [of x ?R] by simp
  have ka: "?K a = [] \<or> kids_ok h a (?K a)" using representsD(3,4) [OF r, of a] by blast
  then have dk: "distinct (?K a)" by (auto simp: kids_ok_def)
  have "chain h (?K a)" using ka kids_chain by (elim disjE) (simp_all add: chain_def)
  then have "shaped h ?cs"
  proof (rule shaped_map)
    fix x assume x: "x \<in> set (?K a)"
    have "kid h x = hd_ptr (?K x)" if "owns_value (nd h x)"
      using representsD(3) [OF r _ that] representsD(9) [OF r x] by (simp add: kids_ok_def)
    moreover have "f x = []" if "\<not> owns_value (nd h x)"
      using representsD(4) [OF r, of x] that f [OF x] by auto
    ultimately show "if owns_value (nd h x) then kid h x = hd_ptr (map sh_at (f x)) \<and> shaped h (f x) else f x = []"
      using f [OF x] by simp
  qed
  moreover have "distinct (addrs ?cs)"
  proof (rule addrs_distinct [OF dk])
    fix x assume x: "x \<in> set (?K a)"
    have "x \<notin> ?R\<^sup>+ `` {x}" using representsD(6) [OF r] by (simp add: acyclic_def)
    then show "distinct (addrs (f x)) \<and> x \<notin> set (addrs (f x))" using f [OF x] by simp
  next
    fix x y assume "x \<in> set (?K a)" "y \<in> set (?K a)" "x \<noteq> y"
    then show "insert x (set (addrs (f x))) \<inter> insert y (set (addrs (f y))) = {}"
      using siblings_apart [OF representsD(5,6) [OF r]] star by blast
  qed
  moreover have "set (addrs ?cs) = ?R\<^sup>+ `` {a}" unfolding addrs_map plus_kids using star by simp
  ultimately show ?case by (intro exI [of _ ?cs]) (simp add: comp_def)
qed

section \<open>Deleting an item of the heap\<close>

definition prune :: "nat \<Rightarrow> store \<Rightarrow> store" where
  "prune x s = s\<lparr>st_kids := \<lambda>a. if a \<in> subtree s x then [] else st_kids s a,
     st_node := \<lambda>a. if a \<in> subtree s x then None else st_node s a\<rparr>"

text \<open>The blocks of memory the items of a store own, and the blocks that nothing in the heap accounts for.\<close>

definition store_blocks :: "store \<Rightarrow> int" where
  "store_blocks s = (\<Sum>a \<in> dom (st_node s). node_blocks (the (st_node s a)))"

definition unaccounted :: "heap \<Rightarrow> store \<Rightarrow> int" where
  "unaccounted h s = ha_live (hp_hooks h) - store_blocks s"

definition free_item_of :: "store \<Rightarrow> nat \<Rightarrow> bool" where
  "free_item_of s x \<longleftrightarrow> st_node s x \<noteq> None \<and> \<not> in_list (st_kids s) x"

lemma subtree_live:
  assumes "represents h s" "st_node s x \<noteq> None" "y \<in> subtree s x"
  shows "st_node s y \<noteq> None"
proof -
  have "(x, y) \<in> (below (st_kids s))\<^sup>*" using assms(3) by (simp add: subtree_def)
  then show ?thesis
  proof (cases rule: rtranclE)
    case (step z)
    then show ?thesis using representsD(1,9) [OF assms(1)] by (simp add: below_def)
  qed (use assms(2) in simp)
qed

lemma subtree_closed: "y \<in> subtree s x \<Longrightarrow> z \<in> set (st_kids s y) \<Longrightarrow> z \<in> subtree s x"
  by (auto simp: subtree_def below_def intro: rtrancl_into_rtrancl)

lemma subtree_parent:
  assumes "disjoint_lists (st_kids s)" "\<not> in_list (st_kids s) x" "y \<in> subtree s x" "y \<in> set (st_kids s a)"
  shows "a \<in> subtree s x"
proof -
  have "(x, y) \<in> (below (st_kids s))\<^sup>*" using assms(3) by (simp add: subtree_def)
  then show ?thesis
  proof (cases rule: rtranclE)
    case base
    then show ?thesis using assms(2,4) by (auto simp: in_list_def)
  next
    case (step z)
    then have "z = a" using one_parent [OF assms(1)] assms(4) by (simp add: below_def)
    then show ?thesis using step by (simp add: subtree_def)
  qed
qed

lemma delete_store:
  assumes r: "represents h s" and x: "free_item_of s x"
  shows "\<exists>h'. Delete_at (Some x) h = Some (Inr h') \<and> represents h' (prune x s) \<and>
    unaccounted h' (prune x s) = unaccounted h s"
proof -
  let ?K = "st_kids s" and ?D = "subtree s x"
  have xl: "live h x" "\<not> in_list ?K x" using x representsD(1) [OF r] by (simp_all add: free_item_of_def)
  obtain cs where cs: "map sh_at cs = ?K x" "shaped h cs" "distinct (addrs cs)" "set (addrs cs) = (below ?K)\<^sup>+ `` {x}"
    using kids_shape [OF r] by blast
  let ?cs = "[Sh x cs]"
  have "x \<notin> set (addrs cs)" using cs(4) representsD(6) [OF r] by (simp add: acyclic_def)
  then have d: "distinct (addrs ?cs)" using cs(3) by simp
  have D: "set (addrs ?cs) = ?D" using cs(4) star_plus [of x "below ?K"] by (simp add: subtree_def)
  have "cs = []" if "\<not> owns_value (nd h x)" using representsD(4) [OF r, of x] that cs(1) by auto
  moreover have "kid h x = hd_ptr (?K x)" if "owns_value (nd h x)"
    using representsD(3) [OF r xl(1) that] by (simp add: kids_ok_def)
  ultimately have sh: "shaped h ?cs" using xl representsD(7) [OF r xl] cs by simp
  then obtain h' where h': "Delete_at (Some x) h = Some (Inr h')" and g: "gone h ?D h'"
    using delete_shaped [OF sh d] D by auto
  have cell: "hp_cells h' a = (if a \<in> ?D then None else hp_cells h a)" for a using g by (simp add: gone_def)
  then have live: "live h' a \<longleftrightarrow> a \<notin> ?D \<and> live h a" for a by (simp add: live_def)
  have at: "cell_at h' a = cell_at h a" if "a \<notin> ?D" for a using cell that by (simp add: cell_at_def)
  have stay: "set (?K a) \<inter> ?D = {}" if "a \<notin> ?D" for a
    using subtree_parent [OF representsD(5) [OF r] xl(2)] that by blast
  let ?s = "prune x s"
  have "represents h' ?s"
    unfolding represents_def
  proof (intro conjI allI impI)
    fix a
    have "map_option ce_node (hp_cells h a) = st_node s a" using r by (simp add: represents_def)
    then show "map_option ce_node (hp_cells h' a) = st_node ?s a" by (simp add: prune_def cell)
    show "if live h' a \<and> owns_value (nd h' a) then kids_ok h' a (st_kids ?s a) else st_kids ?s a = []"
    proof (cases "a \<in> ?D")
      case False
      have "kids_ok h' a (?K a)" if "kids_ok h a (?K a)"
      proof -
        have "y \<notin> ?D" if "y \<in> set (?K a)" for y using stay [OF False] that by blast
        then have "linked h' (?K a)" using that at by (intro linked_cong [of _ h' h]) (simp_all add: kids_ok_def)
        then show ?thesis using that False at live \<open>\<And>y. y \<in> set (?K a) \<Longrightarrow> y \<notin> ?D\<close> by (simp add: kids_ok_def)
      qed
      then show ?thesis using representsD(3,4) [OF r, of a] False at live by (auto simp: prune_def)
    qed (simp add: prune_def live)
  next
    show "disjoint_lists (st_kids ?s)" using representsD(5) [OF r] by (simp add: disjoint_lists_def prune_def)
    show "acyclic (below (st_kids ?s))"
      by (rule acyclic_subset [OF representsD(6) [OF r]]) (auto simp: below_def prune_def split: if_splits)
  next
    fix b assume b: "live h' b \<and> \<not> in_list (st_kids ?s) b"
    have "\<not> in_list ?K b"
    proof
      assume "in_list ?K b"
      then obtain a where a: "b \<in> set (?K a)" by (auto simp: in_list_def)
      then have "a \<notin> ?D" using b live subtree_closed by blast
      then have "b \<in> set (st_kids ?s a)" using a by (simp add: prune_def)
      then show False using b by (auto simp: in_list_def)
    qed
    then show "nx h' b = None" using representsD(7) [OF r] b live at by simp
  next
    fix a assume "live h' a"
    then show "a < hp_fresh h'" using live representsD(8) [OF r] g by (simp add: gone_def)
  qed
  moreover have "unaccounted h' ?s = unaccounted h s"
  proof -
    have sub: "?D \<subseteq> dom (st_node s)" using subtree_live [OF r] x by (auto simp: free_item_of_def)
    have "nd h a = the (st_node s a)" if "a \<in> ?D" for a using representsD(2) [OF r] sub that by force
    then have "(\<Sum>a \<in> ?D. node_blocks (nd h a)) = (\<Sum>a \<in> ?D. node_blocks (the (st_node s a)))" by simp
    moreover have "dom (st_node ?s) = dom (st_node s) - ?D" by (auto simp: prune_def split: if_splits)
    moreover have "(\<Sum>a \<in> dom (st_node s) - ?D. node_blocks (the (st_node ?s a))) =
        (\<Sum>a \<in> dom (st_node s) - ?D. node_blocks (the (st_node s a)))"
      by (rule sum.cong) (simp_all add: prune_def)
    ultimately show ?thesis using g sum.subset_diff [OF sub finite_nodes [OF r], of "\<lambda>a. node_blocks (the (st_node s a))"]
      by (simp add: unaccounted_def store_blocks_def gone_def hooks_step_def)
  qed
  ultimately show ?thesis using h' by blast
qed

section \<open>Editing one list of the heap\<close>

definition put_kids :: "nat \<Rightarrow> nat list \<Rightarrow> store \<Rightarrow> store" where
  "put_kids a xs s = s\<lparr>st_kids := (st_kids s)(a := xs)\<rparr>"

lemma edit_store:
  assumes r: "represents h s" and e: "edits h a A h'" and k: "kids_ok h' a ys" and o: "owns_value (nd h a)"
    and A: "set (st_kids s a) \<subseteq> A" "\<And>x. x \<in> A \<Longrightarrow> x \<notin> set (st_kids s a) \<Longrightarrow> \<not> in_list (st_kids s) x"
    and ys: "set ys \<subseteq> A" "\<And>x. x \<in> A \<Longrightarrow> x \<notin> set ys \<Longrightarrow> nx h' x = None"
    and ac: "acyclic (below ((st_kids s)(a := ys)))"
  shows "represents h' (put_kids a ys s) \<and> unaccounted h' (put_kids a ys s) = unaccounted h s"
proof
  let ?K = "st_kids s" and ?s = "put_kids a ys s"
  have same: "live h' b = live h b" "nd h' b = nd h b" "b \<noteq> a \<Longrightarrow> kid h' b = kid h b"
    "b \<notin> A \<Longrightarrow> nx h' b = nx h b \<and> pv h' b = pv h b" for b using e by (simp_all add: edits_def)
  have apart: "x \<notin> A" if "x \<in> set (?K b)" "b \<noteq> a" for x b
  proof
    assume "x \<in> A"
    have "x \<notin> set (?K a)" using representsD(5) [OF r] that by (auto simp: disjoint_lists_def)
    with A(2) \<open>x \<in> A\<close> that show False by (auto simp: in_list_def)
  qed
  show "represents h' ?s"
    unfolding represents_def
  proof (intro conjI allI impI)
    fix b
    have "map_option ce_node (hp_cells h' b) = map_option ce_node (hp_cells h b)"
      using same(1,2) [of b] by (auto simp: live_def cell_at_def)
    then show "map_option ce_node (hp_cells h' b) = st_node ?s b" using r by (simp add: represents_def put_kids_def)
    show "if live h' b \<and> owns_value (nd h' b) then kids_ok h' b (st_kids ?s b) else st_kids ?s b = []"
    proof (cases "b = a")
      case True
      then show ?thesis using k o same by (simp add: put_kids_def kids_ok_def)
    next
      case False
      have "kids_ok h' b (?K b)" if "kids_ok h b (?K b)"
      proof -
        have "linked h' (?K b)"
          using that same(4) apart [OF _ False] by (intro linked_cong [of _ h' h]) (simp_all add: kids_ok_def)
        then show ?thesis using that same False by (simp add: kids_ok_def)
      qed
      then show ?thesis using representsD(3,4) [OF r, of b] same False by (simp add: put_kids_def)
    qed
  next
    show "disjoint_lists (st_kids ?s)"
      using representsD(5) [OF r] apart ys(1) by (fastforce simp: disjoint_lists_def put_kids_def)
    show "acyclic (below (st_kids ?s))" using ac by (simp add: put_kids_def)
  next
    fix b assume b: "live h' b \<and> \<not> in_list (st_kids ?s) b"
    then have nb: "b \<notin> set ys" by (auto simp: in_list_def put_kids_def split: if_splits)
    show "nx h' b = None"
    proof (cases "b \<in> A")
      case False
      have "b \<notin> set (?K c)" for c
      proof (cases "c = a")
        case False
        then have "st_kids ?s c = ?K c" by (simp add: put_kids_def)
        then show ?thesis using b by (metis in_list_def)
      qed (use A(1) False in blast)
      then have "nx h b = None" using representsD(7) [OF r, of b] b same by (simp add: in_list_def)
      then show ?thesis using same(4) [OF False] by simp
    qed (use ys(2) nb in blast)
  next
    fix b assume "live h' b"
    then show "b < hp_fresh h'" using representsD(8) [OF r] same e by (simp add: edits_def)
  qed
  show "unaccounted h' ?s = unaccounted h s" using e by (simp add: unaccounted_def store_blocks_def put_kids_def edits_def)
qed

text \<open>An item that is in no list may go into the list of a, if a is not the item or below it.\<close>

definition may_join :: "store \<Rightarrow> nat \<Rightarrow> nat \<Rightarrow> bool" where
  "may_join s a x \<longleftrightarrow> (\<exists>n. st_node s a = Some n \<and> owns_value n) \<and> free_item_of s x \<and> a \<notin> subtree s x"

lemma acyclic_join:
  assumes "represents h s" "may_join s a x" "set ys \<subseteq> insert x (set (st_kids s a))"
  shows "acyclic (below ((st_kids s)(a := ys)))"
proof -
  have "(x, a) \<notin> (below (st_kids s))\<^sup>*" using assms(2) by (simp add: may_join_def subtree_def)
  then have "acyclic (insert (a, x) (below (st_kids s)))" using representsD(6) [OF assms(1)] by simp
  then show ?thesis by (rule acyclic_subset) (use assms(3) in \<open>auto simp: below_def split: if_splits\<close>)
qed

lemma may_joinD:
  assumes "represents h s" "may_join s a x"
  shows "kids_ok h a (st_kids s a)" "owns_value (nd h a)" "live h a" "live h x" "x \<notin> set (st_kids s a)" "x \<noteq> a" "nx h x = None"
    "\<not> in_list (st_kids s) x"
proof -
  show n: "owns_value (nd h a)" "live h a"
    using assms representsD(1,2) [OF assms(1)] by (auto simp: may_join_def)
  then show "kids_ok h a (st_kids s a)" using representsD(3) [OF assms(1)] by blast
  show f: "\<not> in_list (st_kids s) x" "live h x"
    using assms representsD(1) [OF assms(1)] by (auto simp: may_join_def free_item_of_def)
  then show "nx h x = None" "x \<notin> set (st_kids s a)" using representsD(7) [OF assms(1)] by (auto simp: in_list_def)
  show "x \<noteq> a" using assms(2) by (auto simp: may_join_def subtree_def)
qed

end
