(* ===== verification/Cjson_Edits.thy ===== *)
theory Cjson_Edits
  imports Cjson_Store
begin

text \<open>
  What one edit does to a represented heap: an item joins a list, leaves it or takes another's place, is
  made or gets new fields. The heap represents the changed store, and no block is lost or freed twice.
\<close>

section \<open>Edits of a represented heap\<close>

lemma may_join_edit:
  assumes r: "represents h s" and j: "may_join s a x"
    and e: "kids_ok h' a ys" "edits h a (insert x (set (st_kids s a))) h'"
    and ys: "set ys = insert x (set (st_kids s a))"
  shows "represents h' (put_kids a ys s) \<and> unaccounted h' (put_kids a ys s) = unaccounted h s"
proof (rule edit_store [OF r e(2,1)])
  note f = may_joinD [OF r j]
  show "owns_value (nd h a)" by (rule f(2))
  show "\<not> in_list (st_kids s) y" if "y \<in> insert x (set (st_kids s a))" "y \<notin> set (st_kids s a)" for y
    using that f(8) by auto
  show "acyclic (below ((st_kids s)(a := ys)))" using acyclic_join [OF r j, of ys] ys by simp
qed (use ys in auto)

lemma append_store:
  assumes r: "represents h s" and j: "may_join s a x"
  shows "\<exists>h'. add_item_to_array (Some a) (Some x) h = Inr (True, h') \<and>
    represents h' (put_kids a (st_kids s a @ [x]) s) \<and> unaccounted h' (put_kids a (st_kids s a @ [x]) s) = unaccounted h s"
proof -
  note f = may_joinD [OF r j]
  obtain h' where "add_item_to_array (Some a) (Some x) h = Inr (True, h')" "kids_ok h' a (st_kids s a @ [x])"
    "edits h a (insert x (set (st_kids s a))) h'" using append_kids [OF f(1,4-7)] by blast
  then show ?thesis using may_join_edit [OF r j] by (intro exI [of _ h']) simp
qed

definition inserted :: "nat \<Rightarrow> 'x \<Rightarrow> 'x list \<Rightarrow> 'x list" where
  "inserted i x xs = take i xs @ x # drop i xs"

lemma insert_store:
  assumes r: "represents h s" and j: "may_join s a x"
  shows "\<exists>h'. cJSON_InsertItemInArray (Some a) (int i) (Some x) h = Inr (True, h') \<and>
    represents h' (put_kids a (inserted i x (st_kids s a)) s) \<and>
    unaccounted h' (put_kids a (inserted i x (st_kids s a)) s) = unaccounted h s"
proof (cases "i < length (st_kids s a)")
  case True
  note f = may_joinD [OF r j]
  let ?xs = "st_kids s a"
  have e: "?xs = take i ?xs @ ?xs ! i # drop (Suc i) ?xs" by (rule id_take_nth_drop [OF True])
  have d: "drop i ?xs = ?xs ! i # drop (Suc i) ?xs" using Cons_nth_drop_Suc [OF True] by simp
  have k: "kids_ok h a (take i ?xs @ ?xs ! i # drop (Suc i) ?xs)" using f(1) e by simp
  have x: "x \<notin> set (take i ?xs @ ?xs ! i # drop (Suc i) ?xs)" using f(5) e by simp
  have len: "int (length (take i ?xs)) = int i" using True by simp
  obtain h' where h': "cJSON_InsertItemInArray (Some a) (int i) (Some x) h = Inr (True, h')"
    "kids_ok h' a (inserted i x ?xs)" "edits h a (insert x (set ?xs)) h'"
    using insert_kids [OF k f(4) x f(6)] unfolding len e [symmetric] inserted_def d by blast
  have "set (inserted i x ?xs) = insert x (set ?xs)"
    by (simp add: inserted_def) (metis append_take_drop_id set_append)
  then show ?thesis using h' may_join_edit [OF r j] by (intro exI [of _ h']) simp
next
  case False
  have "cJSON_InsertItemInArray (Some a) (int i) (Some x) h = add_item_to_array (Some a) (Some x) h"
    using get_array_item_kids [OF may_joinD(1) [OF r j], of i] False by (simp add: cJSON_InsertItemInArray_def)
  then show ?thesis using append_store [OF r j] False by (simp add: inserted_def)
qed

definition removed :: "nat \<Rightarrow> 'x list \<Rightarrow> 'x list" where
  "removed i xs = take i xs @ drop (Suc i) xs"

lemma remove_store:
  assumes r: "represents h s" and k: "kids_ok h a (st_kids s a)" "owns_value (nd h a)" and i: "i < length (st_kids s a)"
    and x: "x = st_kids s a ! i" and s': "s' = put_kids a (removed i (st_kids s a)) s"
  shows "\<exists>h'. cJSON_DetachItemViaPointer (Some a) (Some x) h = Inr (Some x, h') \<and>
    represents h' s' \<and> unaccounted h' s' = unaccounted h s \<and> free_item_of s' x"
proof -
  let ?xs = "st_kids s a"
  have e: "?xs = take i ?xs @ x # drop (Suc i) ?xs" using id_take_nth_drop [OF i] x by simp
  have d: "x \<notin> set (removed i ?xs)" "set ?xs = insert x (set (removed i ?xs))"
  proof -
    have "distinct (take i ?xs @ x # drop (Suc i) ?xs)" using k(1) e by (simp add: kids_ok_def)
    then show "x \<notin> set (removed i ?xs)" by (simp add: removed_def)
    show "set ?xs = insert x (set (removed i ?xs))" by (subst e) (simp add: removed_def)
  qed
  obtain h' where h': "cJSON_DetachItemViaPointer (Some a) (Some x) h = Inr (Some x, h')" "kids_ok h' a (removed i ?xs)"
    "nx h' x = None" "edits h a (set ?xs) h'"
    using detach_kids [of h a "take i ?xs" x "drop (Suc i) ?xs"] k(1) unfolding e [symmetric] removed_def by blast
  have "represents h' s' \<and> unaccounted h' s' = unaccounted h s"
    unfolding s'
  proof (rule edit_store [OF r h'(4) h'(2) k(2)])
    show "acyclic (below ((st_kids s)(a := removed i ?xs)))"
      by (rule acyclic_subset [OF representsD(6) [OF r]]) (use d in \<open>auto simp: below_def split: if_splits\<close>)
  qed (use d h' in auto)
  moreover have "free_item_of s' x"
  proof -
    have "x \<in> set ?xs" using d by simp
    then have "x \<notin> set (st_kids s b)" if "b \<noteq> a" for b
      using representsD(5) [OF r] that by (auto simp: disjoint_lists_def)
    then have "\<not> in_list (st_kids s') x" using d by (auto simp: in_list_def s' put_kids_def)
    then show ?thesis using representsD(1,9) [OF r] \<open>x \<in> set ?xs\<close> by (simp add: free_item_of_def s' put_kids_def)
  qed
  ultimately show ?thesis using h'(1) by blast
qed

lemma swap_store:
  assumes r: "represents h s" and j: "may_join s a y" and i: "i < length (st_kids s a)" and x: "x = st_kids s a ! i"
    and s': "s' = prune x (put_kids a ((st_kids s a)[i := y]) s)"
  shows "\<exists>h'. cJSON_ReplaceItemViaPointer (Some a) (Some x) (Some y) h = Some (Inr (True, h')) \<and>
    represents h' s' \<and> unaccounted h' s' = unaccounted h s"
proof -
  note f = may_joinD [OF r j]
  let ?xs = "st_kids s a" and ?ys = "(st_kids s a)[i := y]"
  let ?s = "put_kids a ?ys s"
  have e: "?xs = take i ?xs @ x # drop (Suc i) ?xs" using id_take_nth_drop [OF i] x by simp
  have ys: "?ys = take i ?xs @ y # drop (Suc i) ?xs" by (rule upd_conv_take_nth_drop [OF i])
  have d: "distinct (take i ?xs @ x # drop (Suc i) ?xs)" using f(1) e by (simp add: kids_ok_def)
  have sx: "set ?xs = insert x (set (take i ?xs @ drop (Suc i) ?xs))" by (subst e) simp
  have sy: "set ?ys = insert y (set (take i ?xs @ drop (Suc i) ?xs))" unfolding ys by simp
  obtain h1 where h1: "cJSON_ReplaceItemViaPointer (Some a) (Some x) (Some y) h =
      bindC (Delete_at (Some x) h1) (\<lambda>h. retC (True, h))" "kids_ok h1 a ?ys" "nx h1 x = None" "edits h a (insert y (set ?xs)) h1"
    using replace_kids [of h a "take i ?xs" x "drop (Suc i) ?xs" y] f(1,4-6) unfolding e [symmetric] ys by blast
  have r1: "represents h1 ?s \<and> unaccounted h1 ?s = unaccounted h s"
  proof (rule edit_store [OF r h1(4) h1(2) f(2)])
    show "\<not> in_list (st_kids s) b" if "b \<in> insert y (set ?xs)" "b \<notin> set ?xs" for b using that f(8) by auto
    show "acyclic (below ((st_kids s)(a := ?ys)))" by (rule acyclic_join [OF r j]) (use sx sy in auto)
    show "nx h1 b = None" if "b \<in> insert y (set ?xs)" "b \<notin> set ?ys" for b
      using that sx sy h1(3) by auto
  qed (use sx sy in auto)
  have "free_item_of ?s x"
  proof -
    have x: "x \<in> set ?xs" "x \<notin> set ?ys" using sx sy d f(5) by auto
    then have "x \<notin> set (st_kids s b)" if "b \<noteq> a" for b
      using representsD(5) [OF r] that by (auto simp: disjoint_lists_def)
    then have "\<not> in_list (st_kids ?s) x" using x by (auto simp: in_list_def put_kids_def)
    then show ?thesis using representsD(1,9) [OF r] x by (simp add: free_item_of_def put_kids_def)
  qed
  then obtain h' where "Delete_at (Some x) h1 = Some (Inr h')" "represents h' s'" "unaccounted h' s' = unaccounted h1 ?s"
    using delete_store [of h1 ?s x] r1 s' by blast
  then show ?thesis using h1(1) r1 by (auto simp: retC_def)
qed

section \<open>New items and new fields\<close>

definition set_fields :: "nat \<Rightarrow> cJSON_node \<Rightarrow> store \<Rightarrow> store" where
  "set_fields x n s = s\<lparr>st_node := (st_node s)(x \<mapsto> n)\<rparr>"

lemma fresh_item:
  assumes r: "represents h s" and n: "owns_value n \<Longrightarrow> c = None"
    and h': "h' = h\<lparr>hp_cells := (hp_cells h)(hp_fresh h \<mapsto> \<lparr>ce_next = None, ce_prev = None, ce_child = c, ce_node = n\<rparr>),
      hp_fresh := hp_fresh h + 1, hp_hooks := H\<rparr>"
    and s': "s' = set_fields (hp_fresh h) n s" and H: "ha_live H = ha_live (hp_hooks h) + node_blocks n"
  shows "represents h' s' \<and> unaccounted h' s' = unaccounted h s \<and> st_node s (hp_fresh h) = None \<and> free_item_of s' (hp_fresh h)"
proof (intro conjI)
  let ?a = "hp_fresh h"
  have new: "\<not> live h ?a" using representsD(8) [OF r, of ?a] by blast
  then show none: "st_node s ?a = None" using representsD(1) [OF r] by blast
  have k: "st_kids s ?a = []" using representsD(4) [OF r] new by blast
  have nl: "\<not> in_list (st_kids s) ?a" using new representsD(9) [OF r] by (auto simp: in_list_def)
  have live: "live h' b \<longleftrightarrow> b = ?a \<or> live h b" "b \<noteq> ?a \<Longrightarrow> cell_at h' b = cell_at h b" for b
    by (auto simp: h' live_def cell_at_def)
  have at: "cell_at h' ?a = \<lparr>ce_next = None, ce_prev = None, ce_child = c, ce_node = n\<rparr>" by (simp add: h' cell_at_def)
  show "represents h' s'"
    unfolding represents_def
  proof (intro conjI allI impI)
    fix b
    have "map_option ce_node (hp_cells h b) = st_node s b" using r by (simp add: represents_def)
    then show "map_option ce_node (hp_cells h' b) = st_node s' b" by (simp add: h' s' set_fields_def)
    show "if live h' b \<and> owns_value (nd h' b) then kids_ok h' b (st_kids s' b) else st_kids s' b = []"
    proof (cases "b = ?a")
      case True
      then show ?thesis using k n live at by (simp add: s' set_fields_def kids_ok_def linked_def)
    next
      case False
      have "kids_ok h' b (st_kids s b)" if b: "kids_ok h b (st_kids s b)"
      proof -
        have "x \<noteq> ?a" if "x \<in> set (st_kids s b)" for x using b that new by (auto simp: kids_ok_def)
        then have "linked h' (st_kids s b)"
          using b live by (intro linked_cong [of _ h' h]) (simp_all add: kids_ok_def)
        then show ?thesis using b live False by (simp add: kids_ok_def)
      qed
      then show ?thesis using representsD(3,4) [OF r, of b] live False by (simp add: s' set_fields_def)
    qed
  next
    fix b assume "live h' b \<and> \<not> in_list (st_kids s') b"
    then show "nx h' b = None" using representsD(7) [OF r, of b] live at by (cases "b = ?a") (auto simp: s' set_fields_def)
  next
    fix b assume "live h' b"
    then show "b < hp_fresh h'" using representsD(8) [OF r, of b] live by (auto simp: h')
  qed (use representsD(5,6) [OF r] in \<open>simp_all add: s' set_fields_def\<close>)
  have "(\<Sum>b \<in> dom (st_node s). node_blocks (the (st_node s' b))) = (\<Sum>b \<in> dom (st_node s). node_blocks (the (st_node s b)))"
    by (rule sum.cong) (use none in \<open>auto simp: s' set_fields_def\<close>)
  then have "store_blocks s' = store_blocks s + node_blocks n"
    using none finite_nodes [OF r] by (simp add: store_blocks_def s' set_fields_def domIff)
  then show "unaccounted h' s' = unaccounted h s" using H by (simp add: unaccounted_def h')
  show "free_item_of s' ?a" using nl by (simp add: free_item_of_def s' set_fields_def)
qed

lemma new_fields:
  assumes r: "represents h s" and x: "st_node s x = Some n" and o: "owns_value n' = owns_value n"
    and h': "h' = upd x (\<lambda>c. c\<lparr>ce_node := n'\<rparr>) (h\<lparr>hp_hooks := H\<rparr>)"
    and H: "ha_live H = ha_live (hp_hooks h) + node_blocks n' - node_blocks n"
  shows "represents h' (set_fields x n' s) \<and> unaccounted h' (set_fields x n' s) = unaccounted h s"
proof
  let ?s = "set_fields x n' s"
  have xl: "live h x" "nd h x = n" using representsD(1,2) [OF r] x by simp_all
  have same: "live h' b = live h b" "nx h' b = nx h b" "pv h' b = pv h b" "kid h' b = kid h b"
    "nd h' b = (if b = x then n' else nd h b)" for b
    using xl by (auto simp: h' live_def cell_at_def upd_def)
  have ok: "kids_ok h' b xs = kids_ok h b xs" for b xs
  proof -
    have "linked h' xs = linked h xs" using linked_cong [of xs h' h] linked_cong [of xs h h'] same by metis
    then show ?thesis using same by (simp add: kids_ok_def)
  qed
  show "represents h' ?s"
    unfolding represents_def
  proof (intro conjI allI impI)
    fix b
    have "map_option ce_node (hp_cells h b) = st_node s b" using r by (simp add: represents_def)
    then show "map_option ce_node (hp_cells h' b) = st_node ?s b" by (auto simp: h' set_fields_def upd_def)
    show "if live h' b \<and> owns_value (nd h' b) then kids_ok h' b (st_kids ?s b) else st_kids ?s b = []"
      using representsD(3,4) [OF r, of b] same ok o xl by (auto simp: set_fields_def)
  next
    fix b assume "live h' b \<and> \<not> in_list (st_kids ?s) b"
    then show "nx h' b = None" using representsD(7) [OF r, of b] same by (simp add: set_fields_def)
  next
    fix b assume "live h' b"
    then show "b < hp_fresh h'" using representsD(8) [OF r, of b] same by (simp add: h' upd_def)
  qed (use representsD(5,6) [OF r] in \<open>simp_all add: set_fields_def\<close>)
  have d: "dom (st_node ?s) = dom (st_node s)" "x \<in> dom (st_node s)" using x by (auto simp: set_fields_def)
  have "(\<Sum>b \<in> dom (st_node s) - {x}. node_blocks (the (st_node ?s b))) = (\<Sum>b \<in> dom (st_node s) - {x}. node_blocks (the (st_node s b)))"
    by (rule sum.cong) (auto simp: set_fields_def)
  then have "store_blocks ?s = store_blocks s + node_blocks n' - node_blocks n"
    using sum.remove [OF finite_nodes [OF r] d(2), of "\<lambda>b. node_blocks (the (st_node ?s b))"]
      sum.remove [OF finite_nodes [OF r] d(2), of "\<lambda>b. node_blocks (the (st_node s b))"] x d(1)
    by (simp add: store_blocks_def set_fields_def)
  then show "unaccounted h' ?s = unaccounted h s" using H by (simp add: unaccounted_def h' upd_def)
qed

end
