(* ===== verification/Cjson_Calls.thy ===== *)
theory Cjson_Calls
  imports Cjson_Edits
begin

text \<open>
  The calls a program makes to build, edit, search and free items, against what it may rely on: a list
  of children is a HOL list, a lookup is a search in that list, deleting removes the item and all below it, and no
  block is lost or freed twice. A program is a function from the replies so far to the next call.
\<close>

section \<open>Calls and replies\<close>

text \<open>A truth value among the arguments says whether names are compared by case, or whether a key is constant.\<close>

datatype call =
    Create_Array
  | Create_Object
  | Create_Number double
  | Create_String bytes
  | Add_To_Array nat nat
  | Add_To_Object bool nat bytes nat
  | Add_Reference_To_Array nat nat
  | Insert_In_Array nat int nat
  | Detach_From_Array nat int
  | Detach_From_Object bool nat bytes
  | Replace_In_Array nat int nat
  | Replace_In_Object bool nat bytes nat
  | Delete_From_Array nat int
  | Delete_From_Object bool nat bytes
  | Delete_Item nat
  | Get_Array_Size nat
  | Get_Array_Item nat int
  | Get_Object_Item bool nat bytes

datatype reply = To_Item ptr | Truth bool | Count int | Freed

definition as_item :: "(ptr \<times> heap) comp \<Rightarrow> (reply \<times> heap) comp" where
  "as_item m = bindC m (\<lambda>(p, h). retC (To_Item p, h))"

definition as_truth :: "(bool \<times> heap) comp \<Rightarrow> (reply \<times> heap) comp" where
  "as_truth m = bindC m (\<lambda>(b, h). retC (Truth b, h))"

definition as_freed :: "heap comp \<Rightarrow> (reply \<times> heap) comp" where
  "as_freed m = bindC m (\<lambda>h. retC (Freed, h))"

fun exec :: "call \<Rightarrow> heap \<Rightarrow> (reply \<times> heap) comp" where
  "exec Create_Array h = as_item (retC (cJSON_CreateArray h))"
| "exec Create_Object h = as_item (retC (cJSON_CreateObject h))"
| "exec (Create_Number d) h = as_item (retC (cJSON_CreateNumber d h))"
| "exec (Create_String t) h = as_item (cJSON_CreateString (Some t) h)"
| "exec (Add_To_Array a x) h = as_truth (liftC (cJSON_AddItemToArray (Some a) (Some x) h))"
| "exec (Add_To_Object constant a k x) h = as_truth (liftC
     (if constant then cJSON_AddItemToObjectCS (Some a) (Some k) (Some x) h
      else cJSON_AddItemToObject (Some a) (Some k) (Some x) h))"
| "exec (Add_Reference_To_Array a x) h = as_truth (liftC (cJSON_AddItemReferenceToArray (Some a) (Some x) h))"
| "exec (Insert_In_Array a i x) h = as_truth (liftC (cJSON_InsertItemInArray (Some a) i (Some x) h))"
| "exec (Detach_From_Array a i) h = as_item (liftC (cJSON_DetachItemFromArray (Some a) i h))"
| "exec (Detach_From_Object by_case a k) h = as_item
     (if by_case then cJSON_DetachItemFromObjectCaseSensitive (Some a) (Some k) h
      else cJSON_DetachItemFromObject (Some a) (Some k) h)"
| "exec (Replace_In_Array a i x) h = as_truth (cJSON_ReplaceItemInArray (Some a) i (Some x) h)"
| "exec (Replace_In_Object by_case a k x) h = as_truth
     (if by_case then cJSON_ReplaceItemInObjectCaseSensitive (Some a) (Some k) (Some x) h
      else cJSON_ReplaceItemInObject (Some a) (Some k) (Some x) h)"
| "exec (Delete_From_Array a i) h = as_freed (cJSON_DeleteItemFromArray (Some a) i h)"
| "exec (Delete_From_Object by_case a k) h = as_freed
     (if by_case then cJSON_DeleteItemFromObjectCaseSensitive (Some a) (Some k) h
      else cJSON_DeleteItemFromObject (Some a) (Some k) h)"
| "exec (Delete_Item x) h = as_freed (Delete_at (Some x) h)"
| "exec (Get_Array_Size a) h = bindC (GetArraySize_at (Some a) h) (\<lambda>n. retC (Count n, h))"
| "exec (Get_Array_Item a i) h =
     as_item (if i < 0 then retC (None, h) else bindC (liftC (get_array_item_at (Some a) (nat i) h)) (\<lambda>p. retC (p, h)))"
| "exec (Get_Object_Item by_case a k) h = as_item (bindC (get_object_item_at (Some a) (Some k) by_case h) (\<lambda>p. retC (p, h)))"

section \<open>What a program may rely on\<close>

definition owner :: "store \<Rightarrow> nat \<Rightarrow> bool" where
  "owner s a \<longleftrightarrow> (\<exists>n. st_node s a = Some n \<and> owns_value n)"

text \<open>An item that is put into a list is in no other one, and the list is not below it.\<close>

fun allowed :: "call \<Rightarrow> store \<Rightarrow> bool" where
  "allowed (Add_To_Array a x) s = may_join s a x"
| "allowed (Add_To_Object constant a k x) s = may_join s a x"
| "allowed (Add_Reference_To_Array a x) s = (owner s a \<and> st_node s x \<noteq> None)"
| "allowed (Insert_In_Array a i x) s = may_join s a x"
| "allowed (Detach_From_Array a i) s = owner s a"
| "allowed (Detach_From_Object by_case a k) s = owner s a"
| "allowed (Replace_In_Array a i x) s = may_join s a x"
| "allowed (Replace_In_Object by_case a k x) s = may_join s a x"
| "allowed (Delete_From_Array a i) s = owner s a"
| "allowed (Delete_From_Object by_case a k) s = owner s a"
| "allowed (Delete_Item x) s = free_item_of s x"
| "allowed (Get_Array_Size a) s = owner s a"
| "allowed (Get_Array_Item a i) s = owner s a"
| "allowed (Get_Object_Item by_case a k) s = owner s a"
| "allowed _ s = True"

definition renamed :: "bool \<Rightarrow> bytes \<Rightarrow> cJSON_node \<Rightarrow> cJSON_node" where
  "renamed constant k n =
     (if constant then n\<lparr>cj_string := Some k, cj_type := cj_type n OR cJSON_StringIsConst\<rparr>
      else n\<lparr>cj_string := Some (cstr k), cj_type := cj_type n AND NOT cJSON_StringIsConst\<rparr>)"

definition reference_node :: "cJSON_node \<Rightarrow> cJSON_node" where
  "reference_node n = n\<lparr>cj_string := None, cj_type := cj_type n OR cJSON_IsReference\<rparr>"

definition element_of :: "store \<Rightarrow> nat \<Rightarrow> int \<Rightarrow> ptr" where
  "element_of s a i = (if 0 \<le> i \<and> nat i < length (st_kids s a) then Some (st_kids s a ! nat i) else None)"

definition member :: "store \<Rightarrow> bool \<Rightarrow> nat \<Rightarrow> bytes \<Rightarrow> ptr" where
  "member s by_case a k = first_named (\<lambda>x. the (st_node s x)) by_case k (st_kids s a)"

definition position :: "'x \<Rightarrow> 'x list \<Rightarrow> nat" where
  "position x xs = length (takeWhile (\<lambda>y. y \<noteq> x) xs)"

text \<open>The element x leaves the list of a, or y takes its place and x is freed.\<close>

definition without :: "nat \<Rightarrow> nat \<Rightarrow> store \<Rightarrow> store" where
  "without a x s = put_kids a (removed (position x (st_kids s a)) (st_kids s a)) s"

definition swapped :: "nat \<Rightarrow> nat \<Rightarrow> nat \<Rightarrow> store \<Rightarrow> store" where
  "swapped a x y s = prune x (put_kids a ((st_kids s a)[position x (st_kids s a) := y]) s)"

definition born :: "cJSON_node \<Rightarrow> store \<Rightarrow> reply \<Rightarrow> store \<Rightarrow> bool" where
  "born n s r s' \<longleftrightarrow> r = To_Item None \<and> s' = s \<or> (\<exists>a. st_node s a = None \<and> r = To_Item (Some a) \<and> s' = set_fields a n s)"

fun call_outcome :: "call \<Rightarrow> store \<Rightarrow> reply \<Rightarrow> store \<Rightarrow> bool" where
  "call_outcome Create_Array s r s' = born (zero_node\<lparr>cj_type := cJSON_Array\<rparr>) s r s'"
| "call_outcome Create_Object s r s' = born (zero_node\<lparr>cj_type := cJSON_Object\<rparr>) s r s'"
| "call_outcome (Create_Number d) s r s' = born (zero_node\<lparr>cj_type := cJSON_Number, cj_valuedouble := d, cj_valueint := saturate d\<rparr>) s r s'"
| "call_outcome (Create_String t) s r s' = born (zero_node\<lparr>cj_type := cJSON_String, cj_valuestring := Some (cstr t)\<rparr>) s r s'"
| "call_outcome (Add_To_Array a x) s r s' = (r = Truth True \<and> s' = put_kids a (st_kids s a @ [x]) s)"
| "call_outcome (Add_To_Object constant a k x) s r s' =
     (\<not> constant \<and> r = Truth False \<and> s' = s \<or>
      r = Truth True \<and> s' = put_kids a (st_kids s a @ [x]) (set_fields x (renamed constant k (the (st_node s x))) s))"
| "call_outcome (Add_Reference_To_Array a x) s r s' =
     (r = Truth False \<and> s' = s \<or>
      (\<exists>b. st_node s b = None \<and> r = Truth True \<and>
        s' = put_kids a (st_kids s a @ [b]) (set_fields b (reference_node (the (st_node s x))) s)))"
| "call_outcome (Insert_In_Array a i x) s r s' =
     (if i < 0 then r = Truth False \<and> s' = s
      else r = Truth True \<and> s' = put_kids a (inserted (nat i) x (st_kids s a)) s)"
| "call_outcome (Detach_From_Array a i) s r s' =
     (r = To_Item (element_of s a i) \<and> s' = (case element_of s a i of None \<Rightarrow> s | Some x \<Rightarrow> without a x s))"
| "call_outcome (Detach_From_Object by_case a k) s r s' =
     (r = To_Item (member s by_case a k) \<and> s' = (case member s by_case a k of None \<Rightarrow> s | Some x \<Rightarrow> without a x s))"
| "call_outcome (Replace_In_Array a i y) s r s' =
     (case element_of s a i of None \<Rightarrow> r = Truth False \<and> s' = s | Some x \<Rightarrow> r = Truth True \<and> s' = swapped a x y s)"
| "call_outcome (Replace_In_Object by_case a k y) s r s' =
     (r = Truth False \<and> s' = set_fields y ((the (st_node s y))\<lparr>cj_string := None\<rparr>) s \<or>
      (let t = set_fields y (renamed False k (the (st_node s y))) s
       in case member t by_case a k of None \<Rightarrow> r = Truth False \<and> s' = t | Some x \<Rightarrow> r = Truth True \<and> s' = swapped a x y t))"
| "call_outcome (Delete_From_Array a i) s r s' =
     (r = Freed \<and> s' = (case element_of s a i of None \<Rightarrow> s | Some x \<Rightarrow> prune x (without a x s)))"
| "call_outcome (Delete_From_Object by_case a k) s r s' =
     (r = Freed \<and> s' = (case member s by_case a k of None \<Rightarrow> s | Some x \<Rightarrow> prune x (without a x s)))"
| "call_outcome (Delete_Item x) s r s' = (r = Freed \<and> s' = prune x s)"
| "call_outcome (Get_Array_Size a) s r s' = (r = Count (sint (of_nat (length (st_kids s a)) :: 32 word)) \<and> s' = s)"
| "call_outcome (Get_Array_Item a i) s r s' = (r = To_Item (element_of s a i) \<and> s' = s)"
| "call_outcome (Get_Object_Item by_case a k) s r s' = (r = To_Item (member s by_case a k) \<and> s' = s)"

end
