(* ===== verification/Cjson_Refines.thy ===== *)
theory Cjson_Refines
  imports Cjson_Calls
begin

text \<open>
  Every call of \<open>Cjson_Calls\<close> on a heap that represents a store ends without a fault, has one of the
  outcomes stated there, and leaves a heap that represents the new store, with all blocks accounted for.
\<close>

section \<open>What a call has to satisfy\<close>

definition meets :: "store \<Rightarrow> heap \<Rightarrow> ('r \<Rightarrow> store \<Rightarrow> bool) \<Rightarrow> ('r \<times> heap) comp \<Rightarrow> bool" where
  "meets s h P m \<longleftrightarrow> (\<exists>r h' s'. m = Some (Inr (r, h')) \<and> P r s' \<and> represents h' s' \<and> unaccounted h' s' = unaccounted h s)"

lemma meetsI: "m = Some (Inr (r, h')) \<Longrightarrow> represents h' s' \<and> unaccounted h' s' = unaccounted h s \<Longrightarrow> P r s' \<Longrightarrow> meets s h P m"
  by (auto simp: meets_def)

lemma meets_as:
  "meets s h (\<lambda>p. P (To_Item p)) m \<Longrightarrow> meets s h P (as_item m)"
  "meets s h (\<lambda>b. P (Truth b)) m' \<Longrightarrow> meets s h P (as_truth m')"
  by (auto simp: meets_def as_item_def as_truth_def retC_def)

lemma represents_hooks [simp]: "represents (h\<lparr>hp_hooks := H\<rparr>) s = represents h s"
proof -
  have "live (h\<lparr>hp_hooks := H\<rparr>) = live h" "cell_at (h\<lparr>hp_hooks := H\<rparr>) = cell_at h"
    by (auto simp: live_def cell_at_def)
  then have "seg (h\<lparr>hp_hooks := H\<rparr>) xs = seg h xs" for xs by (induction xs rule: induct_list012) simp_all
  then show ?thesis
    using \<open>live _ = _\<close> \<open>cell_at _ = _\<close> by (simp add: represents_def kids_ok_def linked_def)
qed

lemma hooks_only: "represents h s \<Longrightarrow> ha_live H = ha_live (hp_hooks h) \<Longrightarrow>
    represents (h\<lparr>hp_hooks := H\<rparr>) s \<and> unaccounted (h\<lparr>hp_hooks := H\<rparr>) s = unaccounted h s"
  by (simp add: unaccounted_def)

lemma meets_same:
  "represents h s \<Longrightarrow> ha_live H = ha_live (hp_hooks h) \<Longrightarrow> P r s \<Longrightarrow> meets s h P (Some (Inr (r, h\<lparr>hp_hooks := H\<rparr>)))"
  by (rule meetsI [OF refl hooks_only]) simp_all

lemma meets_pure: "represents h s \<Longrightarrow> P r s \<Longrightarrow> meets s h P (Some (Inr (r, h)))"
  by (rule meetsI [OF refl]) simp_all

section \<open>Creating\<close>

lemma hook_allocate_cases:
  "hook_allocate H = (ok, H') \<Longrightarrow> ha_live H' = ha_live H + (if ok then 1 else 0)"
  by (auto simp: hook_allocate_def split: if_splits)

lemma New_Item_at_eq:
  "New_Item_at h = (None, h\<lparr>hp_hooks := snd (hook_allocate (hp_hooks h))\<rparr>) \<and> ha_live (snd (hook_allocate (hp_hooks h))) = ha_live (hp_hooks h) \<or>
   New_Item_at h = (Some (hp_fresh h), h\<lparr>hp_cells := (hp_cells h)(hp_fresh h \<mapsto> zero_cell), hp_fresh := hp_fresh h + 1,
     hp_hooks := snd (hook_allocate (hp_hooks h))\<rparr>) \<and> ha_live (snd (hook_allocate (hp_hooks h))) = ha_live (hp_hooks h) + 1"
  by (cases "hook_allocate (hp_hooks h)") (use hook_allocate_cases [of "hp_hooks h"] in \<open>auto simp: New_Item_at_def\<close>)

lemma create_meets:
  assumes r: "represents h s" and f: "f zero_cell = \<lparr>ce_next = None, ce_prev = None, ce_child = None, ce_node = n\<rparr>" "node_blocks n = 1"
  shows "meets s h (\<lambda>p. born n s (To_Item p)) (retC (create_with f h))"
  using New_Item_at_eq [of h]
proof (elim disjE conjE)
  let ?H = "snd (hook_allocate (hp_hooks h))"
  assume n: "New_Item_at h = (None, h\<lparr>hp_hooks := ?H\<rparr>)" and l: "ha_live ?H = ha_live (hp_hooks h)"
  show ?thesis
  proof (rule meetsI)
    show "retC (create_with f h) = Some (Inr (None, h\<lparr>hp_hooks := ?H\<rparr>))" by (simp add: create_with_def n retC_def)
  qed (use hooks_only [OF r l] in \<open>auto simp: born_def\<close>)
next
  let ?H = "snd (hook_allocate (hp_hooks h))" and ?a = "hp_fresh h"
  assume n: "New_Item_at h = (Some ?a, h\<lparr>hp_cells := (hp_cells h)(?a \<mapsto> zero_cell), hp_fresh := ?a + 1, hp_hooks := ?H\<rparr>)"
    and l: "ha_live ?H = ha_live (hp_hooks h) + 1"
  let ?h = "h\<lparr>hp_cells := (hp_cells h)(?a \<mapsto> \<lparr>ce_next = None, ce_prev = None, ce_child = None, ce_node = n\<rparr>),
      hp_fresh := ?a + 1, hp_hooks := ?H\<rparr>"
  note F = fresh_item [OF r, of n None ?h ?H "set_fields ?a n s"]
  show ?thesis
  proof (rule meetsI)
    show "retC (create_with f h) = Some (Inr (Some ?a, ?h))" by (simp add: create_with_def n retC_def upd_def f)
    show "represents ?h (set_fields ?a n s) \<and> unaccounted ?h (set_fields ?a n s) = unaccounted h s" using F f l by simp
    show "born n s (To_Item (Some ?a)) (set_fields ?a n s)" using F f l by (simp add: born_def)
  qed
qed

lemmas creators = cJSON_CreateArray_def cJSON_CreateObject_def cJSON_CreateNumber_def create_kind_def

lemma prune_new:
  assumes "st_node s a = None" "st_kids s a = []"
  shows "prune a (set_fields a n s) = s"
proof -
  have "subtree (set_fields a n s) a = {a}"
    using assms(2) star_plus [of a "below (st_kids s)"] plus_kids [of "st_kids s" a] by (simp add: subtree_def set_fields_def)
  then show ?thesis using assms by (simp add: prune_def set_fields_def fun_eq_iff)
qed

lemma strdup_cases:
  "strdup_at (Some t) h = (None, h\<lparr>hp_hooks := snd (hook_allocate (hp_hooks h))\<rparr>) \<and> ha_live (snd (hook_allocate (hp_hooks h))) = ha_live (hp_hooks h) \<or>
   strdup_at (Some t) h = (Some (cstr t), h\<lparr>hp_hooks := snd (hook_allocate (hp_hooks h))\<rparr>) \<and> ha_live (snd (hook_allocate (hp_hooks h))) = ha_live (hp_hooks h) + 1"
  by (cases "hook_allocate (hp_hooks h)")
    (use hook_allocate_cases [of "hp_hooks h"] in \<open>auto simp: strdup_at_def cJSON_strdup_def\<close>)

lemma create_cases:
  assumes r: "represents h s" and f: "f zero_cell = \<lparr>ce_next = None, ce_prev = None, ce_child = None, ce_node = n\<rparr>" "node_blocks n = 1"
  obtains (none) h1 where "create_with f h = (None, h1)" "represents h1 s \<and> unaccounted h1 s = unaccounted h s"
  | (some) a h1 where "create_with f h = (Some a, h1)" "represents h1 (set_fields a n s)"
    "unaccounted h1 (set_fields a n s) = unaccounted h s" "st_node s a = None" "st_kids s a = []"
proof -
  obtain p h1 s1 where e: "create_with f h = (p, h1)" and b: "born n s (To_Item p) s1"
    and r1: "represents h1 s1 \<and> unaccounted h1 s1 = unaccounted h s"
    using create_meets [of h s f n, OF r f] by (auto simp: meets_def retC_def)
  show ?thesis
  proof (cases p)
    case None
    then show ?thesis using none e b r1 by (simp add: born_def)
  next
    case (Some a)
    then have a: "st_node s a = None" "s1 = set_fields a n s" using b by (auto simp: born_def)
    then have "st_kids s a = []" using representsD(1,4) [OF r, of a] by blast
    then show ?thesis using some e r1 a Some by blast
  qed
qed

lemma upd_fields:
  assumes "represents h s" "st_node s x = Some n"
  shows "upd x (\<lambda>c. c\<lparr>ce_node := g (ce_node c)\<rparr>) (h\<lparr>hp_hooks := H\<rparr>) = upd x (\<lambda>c. c\<lparr>ce_node := g n\<rparr>) (h\<lparr>hp_hooks := H\<rparr>)"
  using representsD(2) [OF assms] by (simp add: upd_def cell_at_def)

lemma text_meets:
  assumes r: "represents h s" and k: "k AND cJSON_IsReference = 0" "k AND cJSON_StringIsConst = 0"
  shows "meets s h (\<lambda>p. born (zero_node\<lparr>cj_type := k, cj_valuestring := Some (cstr t)\<rparr>) s (To_Item p)) (create_text k (Some t) h)"
proof -
  let ?n = "zero_node\<lparr>cj_type := k\<rparr>"
  let ?f = "\<lambda>c. c\<lparr>ce_node := (ce_node c)\<lparr>cj_type := k\<rparr>\<rparr>"
  have f: "?f zero_cell = \<lparr>ce_next = None, ce_prev = None, ce_child = None, ce_node = ?n\<rparr>" "node_blocks ?n = 1"
    by (simp_all add: zero_cell_def node_blocks_def zero_node_def)
  show ?thesis
    using r f
  proof (cases rule: create_cases)
    case (none h1)
    then show ?thesis by (intro meetsI [of _ None h1]) (auto simp: create_text_def create_kind_def born_def retC_def)
  next
    case (some a h1)
    let ?H = "snd (hook_allocate (hp_hooks h1))"
    let ?n' = "\<lambda>v. ?n\<lparr>cj_valuestring := v\<rparr>"
    let ?h = "\<lambda>v. upd a (\<lambda>c. c\<lparr>ce_node := ?n' v\<rparr>) (h1\<lparr>hp_hooks := ?H\<rparr>)"
    have sn: "st_node (set_fields a ?n s) a = Some ?n" by (simp add: set_fields_def)
    have sf: "set_fields a n' (set_fields a ?n s) = set_fields a n' s" for n' by (simp add: set_fields_def)
    have o: "owns_value (?n' v) = owns_value ?n" for v by (simp add: owns_value_def)
    note u = upd_fields [OF some(2) sn, of "\<lambda>n. n\<lparr>cj_valuestring := v\<rparr>" ?H for v]
    note N = new_fields [OF some(2) sn o refl, of ?H, unfolded sf some(3)]
    from strdup_cases [of t h1] show ?thesis
    proof (elim disjE conjE)
      assume c: "strdup_at (Some t) h1 = (None, h1\<lparr>hp_hooks := ?H\<rparr>)" and l: "ha_live ?H = ha_live (hp_hooks h1)"
      let ?s = "set_fields a (?n' None) s"
      have R: "represents (?h None) ?s" "unaccounted (?h None) ?s = unaccounted h s"
        using N [of None] l by (simp_all add: node_blocks_def zero_node_def)
      have "\<not> in_list (st_kids s) a" using representsD(1,9) [OF r, of a] some(4) by (auto simp: in_list_def)
      then have "free_item_of ?s a" by (simp add: free_item_of_def set_fields_def)
      then obtain h2 where h2: "Delete_at (Some a) (?h None) = Some (Inr h2)"
        "represents h2 (prune a ?s)" "unaccounted h2 (prune a ?s) = unaccounted h s"
        using delete_store [OF R(1)] R(2) by auto
      have "create_text k (Some t) h = Some (Inr (None, h2))"
        using h2(1) u [of None] by (simp add: create_text_def create_kind_def some(1) c retC_def Let_def)
      then show ?thesis using h2(2,3) prune_new [OF some(4,5)] by (intro meetsI) (auto simp: born_def)
    next
      assume c: "strdup_at (Some t) h1 = (Some (cstr t), h1\<lparr>hp_hooks := ?H\<rparr>)" and l: "ha_live ?H = ha_live (hp_hooks h1) + 1"
      have "represents (?h (Some (cstr t))) (set_fields a (?n' (Some (cstr t))) s) \<and>
          unaccounted (?h (Some (cstr t))) (set_fields a (?n' (Some (cstr t))) s) = unaccounted h s"
        using N [of "Some (cstr t)"] l k by (simp add: node_blocks_def zero_node_def owns_value_def owns_name_def)
      moreover have "create_text k (Some t) h = Some (Inr (Some a, ?h (Some (cstr t))))"
        using u [of "Some (cstr t)"] by (simp add: create_text_def create_kind_def some(1) c retC_def Let_def)
      ultimately show ?thesis using some(4) by (intro meetsI) (auto simp: born_def)
    qed
  qed
qed

section \<open>Adding\<close>

lemma renamed_owns [simp]: "owns_value (renamed constant k n) = owns_value n"
proof -
  have "(t AND NOT cJSON_StringIsConst) AND cJSON_IsReference = t AND cJSON_IsReference"
    "(t OR cJSON_StringIsConst) AND cJSON_IsReference = t AND cJSON_IsReference" for t :: u32
    by (simp_all add: cjson_flags and.assoc bit.conj_disj_distrib2)
  then show ?thesis by (simp add: renamed_def owns_value_def)
qed

lemma renamed_name [simp]: "owns_name (renamed constant k n) = (\<not> constant)" "cj_string (renamed constant k n) \<noteq> None"
proof -
  have "(t AND NOT cJSON_StringIsConst) AND cJSON_StringIsConst = 0" "(t OR cJSON_StringIsConst) AND cJSON_StringIsConst = cJSON_StringIsConst" for t :: u32
    by (simp add: and.assoc, simp add: and.commute [of _ cJSON_StringIsConst] or.commute)
  then show "owns_name (renamed constant k n) = (\<not> constant)" by (simp add: renamed_def owns_name_def) (simp add: cjson_flags)
qed (simp add: renamed_def)

lemma renamed_value: "cj_valuestring (renamed constant k n) = cj_valuestring n"
  by (simp add: renamed_def)

lemma may_join_fields:
  "may_join s a x \<Longrightarrow> may_join (set_fields x n s) a x"
  by (auto simp: may_join_def free_item_of_def set_fields_def subtree_def)

lemma set_fields_kids [simp]: "st_kids (set_fields x n s) = st_kids s"
  by (simp add: set_fields_def)

lemma append_meets:
  assumes "represents h s" "may_join s a x" "P True (put_kids a (st_kids s a @ [x]) s)"
  shows "meets s h P (liftC (add_item_to_array (Some a) (Some x) h))"
  using append_store [OF assms(1,2)] assms(3) by (auto intro: meetsI)

lemma meets_from:
  "represents h1 s1 \<Longrightarrow> unaccounted h1 s1 = unaccounted h s \<Longrightarrow> meets s1 h1 P m \<Longrightarrow> meets s h P m"
  by (auto simp: meets_def)

text \<open>The new name of an item: the old block is freed when the item owns it.\<close>

lemma rename_item:
  assumes r: "represents h s" and x: "st_node s x = Some n" and o: "owns_value n' = owns_value n"
    and v: "owns_value n' \<and> cj_valuestring n' \<noteq> None \<longleftrightarrow> owns_value n \<and> cj_valuestring n \<noteq> None"
    and l: "ha_live H = ha_live (hp_hooks h) + (if owns_name n' \<and> cj_string n' \<noteq> None then 1 else 0)"
    and h1: "h1 = upd x (\<lambda>c. c\<lparr>ce_node := n'\<rparr>) (free_string (owns_name n) (cj_string n) (h\<lparr>hp_hooks := H\<rparr>))"
  shows "represents h1 (set_fields x n' s) \<and> unaccounted h1 (set_fields x n' s) = unaccounted h s"
proof -
  let ?H = "if owns_name n \<and> cj_string n \<noteq> None then hook_deallocate H else H"
  have "free_string (owns_name n) (cj_string n) (h\<lparr>hp_hooks := H\<rparr>) = h\<lparr>hp_hooks := ?H\<rparr>"
    by (auto simp: free_string_def)
  then show ?thesis
    using new_fields [OF r x o, of h1 ?H] h1 l v by (simp add: node_blocks_def hook_deallocate_def)
qed

lemma object_meets:
  assumes r: "represents h s" and j: "may_join s a x"
  shows "meets s h (\<lambda>b. call_outcome (Add_To_Object constant a k x) s (Truth b))
    (liftC (add_item_to_object (Some a) (Some k) (Some x) constant h))"
proof -
  obtain n where n: "st_node s x = Some n" using j by (auto simp: may_join_def free_item_of_def)
  have at: "live h x" "nd h x = n" using representsD(1,2) [OF r] n by simp_all
  have ax: "a \<noteq> x" using may_joinD(6) [OF r j] by simp
  let ?n' = "renamed constant k n"
  let ?go = "\<lambda>H. upd x (\<lambda>c. c\<lparr>ce_node := ?n'\<rparr>) (free_string (owns_name n) (cj_string n) (h\<lparr>hp_hooks := H\<rparr>))"
  have go: "meets s h (\<lambda>b. call_outcome (Add_To_Object constant a k x) s (Truth b)) (liftC (add_item_to_array (Some a) (Some x) (?go H)))"
    if l: "ha_live H = ha_live (hp_hooks h) + (if constant then 0 else 1)" for H
  proof (rule meets_from)
    have R: "represents (?go H) (set_fields x ?n' s) \<and> unaccounted (?go H) (set_fields x ?n' s) = unaccounted h s"
      by (rule rename_item [OF r n, of _ H]) (use l in \<open>simp_all add: renamed_value\<close>)
    then show "represents (?go H) (set_fields x ?n' s)" "unaccounted (?go H) (set_fields x ?n' s) = unaccounted h s" by simp_all
    show "meets (set_fields x ?n' s) (?go H) (\<lambda>b. call_outcome (Add_To_Object constant a k x) s (Truth b))
        (liftC (add_item_to_array (Some a) (Some x) (?go H)))"
      by (rule append_meets) (use R may_join_fields [OF j] n in simp_all)
  qed
  have node: "set_node (Some x) (\<lambda>m. m\<lparr>cj_string := cj_string ?n', cj_type := cj_type ?n'\<rparr>)
      (free_string (owns_name n) (cj_string n) (h\<lparr>hp_hooks := H\<rparr>)) = Inr (?go H)" for H
    using at by (simp add: free_string_def heap_simps live_def upd_def cell_at_def renamed_def)
  have d: "deref (Some x) h = Inr (cell_at h x)" using at by (simp add: heap_simps)
  show ?thesis
  proof (cases "constant")
    case True
    then have "add_item_to_object (Some a) (Some k) (Some x) constant h = add_item_to_array (Some a) (Some x) (?go (hp_hooks h))"
      using ax at node [of "hp_hooks h"] d by (simp add: add_item_to_object_def renamed_def)
    then show ?thesis using go [of "hp_hooks h"] True by simp
  next
    case False
    obtain ok H where a: "hook_allocate (hp_hooks h) = (ok, H)" by fastforce
    note l = hook_allocate_cases [OF a]
    show ?thesis
    proof (cases ok)
      case True
      then have "add_item_to_object (Some a) (Some k) (Some x) constant h = add_item_to_array (Some a) (Some x) (?go H)"
        using ax at node [of H] d False a by (simp add: add_item_to_object_def cJSON_strdup_def renamed_def)
      then show ?thesis using go [of H] True False l by simp
    next
      case nok: False
      then have "add_item_to_object (Some a) (Some k) (Some x) constant h = Inr (False, h\<lparr>hp_hooks := H\<rparr>)"
        using ax False a by (simp add: add_item_to_object_def cJSON_strdup_def)
      then show ?thesis using meets_same [OF r, of H _ False] l nok False by simp
    qed
  qed
qed

lemma reference_owns [simp]: "\<not> owns_value (reference_node n)" "node_blocks (reference_node n) = 1"
proof -
  have "(t OR cJSON_IsReference) AND cJSON_IsReference = cJSON_IsReference" for t :: u32
    by (simp add: and.commute [of _ cJSON_IsReference] or.commute)
  then show o: "\<not> owns_value (reference_node n)" by (simp add: reference_node_def owns_value_def) (simp add: cjson_flags)
  show "node_blocks (reference_node n) = 1" using o by (simp add: node_blocks_def) (simp add: reference_node_def)
qed

lemma fresh_joins:
  assumes r: "represents h s" and o: "owner s a" and b: "st_node s b = None"
  shows "may_join (set_fields b n s) a b"
proof -
  have k: "st_kids s b = []" "\<not> in_list (st_kids s) b"
    using representsD(1,4) [OF r, of b] representsD(9) [OF r, of b] b by (auto simp: in_list_def)
  then have "subtree (set_fields b n s) b = {b}"
    using star_plus [of b "below (st_kids s)"] plus_kids [of "st_kids s" b] by (simp add: subtree_def)
  moreover have "a \<noteq> b" using o b by (auto simp: owner_def)
  ultimately show ?thesis using o k by (auto simp: may_join_def owner_def free_item_of_def set_fields_def)
qed

lemma create_reference_at:
  assumes r: "represents h s" and x: "st_node s x = Some n" and a: "hook_allocate (hp_hooks h) = (True, H)"
  shows "\<exists>h1. create_reference (Some x) h = Inr (Some (hp_fresh h), h1) \<and> hp_hooks h1 = H \<and>
    represents h1 (set_fields (hp_fresh h) (reference_node n) s) \<and>
    unaccounted h1 (set_fields (hp_fresh h) (reference_node n) s) = unaccounted h s \<and> st_node s (hp_fresh h) = None"
proof -
  let ?b = "hp_fresh h" and ?n = "reference_node n"
  have new: "New_Item_at h = (Some ?b, h\<lparr>hp_cells := (hp_cells h)(?b \<mapsto> zero_cell), hp_fresh := ?b + 1, hp_hooks := H\<rparr>)"
    by (simp add: New_Item_at_def a)
  have at: "live h x" "nd h x = n" "x \<noteq> ?b" using representsD(1,2,8) [OF r, of x] x by auto
  let ?h = "h\<lparr>hp_cells := (hp_cells h)(?b \<mapsto> \<lparr>ce_next = None, ce_prev = None, ce_child = kid h x, ce_node = ?n\<rparr>),
      hp_fresh := ?b + 1, hp_hooks := H\<rparr>"
  have F: "represents ?h (set_fields ?b ?n s) \<and> unaccounted ?h (set_fields ?b ?n s) = unaccounted h s \<and> st_node s ?b = None"
    using fresh_item [OF r, of ?n "kid h x" ?h H "set_fields ?b ?n s"] hook_allocate_cases [OF a] by simp
  obtain c where c: "hp_cells h x = Some c" "ce_node c = n" "ce_child c = kid h x"
    using at by (auto simp: live_def cell_at_def)
  have "create_reference (Some x) h = Inr (Some ?b, ?h)"
    using c at(3) by (cases c) (simp add: create_reference_def new deref_def assign_def upd_def reference_node_def)
  then show ?thesis using F by (intro exI [of _ ?h]) simp
qed

lemma reference_meets:
  assumes r: "represents h s" and o: "owner s a" and x: "st_node s x = Some n"
  shows "meets s h (\<lambda>b. call_outcome (Add_Reference_To_Array a x) s (Truth b)) (liftC (cJSON_AddItemReferenceToArray (Some a) (Some x) h))"
proof -
  let ?P = "\<lambda>b. call_outcome (Add_Reference_To_Array a x) s (Truth b)" and ?b = "hp_fresh h"
  obtain ok H where a: "hook_allocate (hp_hooks h) = (ok, H)" by fastforce
  show ?thesis
  proof (cases ok)
    case True
    then obtain h1 where h1: "create_reference (Some x) h = Inr (Some ?b, h1)"
      "represents h1 (set_fields ?b (reference_node n) s)" "unaccounted h1 (set_fields ?b (reference_node n) s) = unaccounted h s"
      "st_node s ?b = None" using create_reference_at [OF r x, of H] a by auto
    have "meets s h ?P (liftC (add_item_to_array (Some a) (Some ?b) h1))"
      by (rule meets_from [OF _ _ append_meets]) (use h1 fresh_joins [OF r o, of ?b] x in auto)
    then show ?thesis using h1(1) by (simp add: cJSON_AddItemReferenceToArray_def)
  next
    case False
    then have "create_reference (Some x) h = Inr (None, h\<lparr>hp_hooks := H\<rparr>)"
      using a by (simp add: create_reference_def New_Item_at_def)
    then show ?thesis using meets_same [OF r, of H _ False] hook_allocate_cases [OF a] False
      by (simp add: cJSON_AddItemReferenceToArray_def add_item_to_array_def)
  qed
qed

text \<open>
  A reference whose name cannot be copied is lost: \<open>cJSON_AddItemReferenceToObject\<close> reports failure and leaves behind an
  item that is in no list and whose address the caller never gets.
\<close>

lemma reference_lost:
  assumes r: "represents h s" and o: "owner s a" and x: "st_node s x = Some n"
    and f: "ha_ok (hp_hooks h) (ha_requests (hp_hooks h))" "\<not> ha_ok (hp_hooks h) (Suc (ha_requests (hp_hooks h)))"
  shows "\<exists>h' lost. cJSON_AddItemReferenceToObject (Some a) (Some k) (Some x) h = Inr (False, h') \<and> st_node s lost = None \<and>
    represents h' (set_fields lost (reference_node n) s) \<and> ha_live (hp_hooks h') = ha_live (hp_hooks h) + 1"
proof -
  let ?b = "hp_fresh h"
  obtain H where a: "hook_allocate (hp_hooks h) = (True, H)" and H: "\<not> ha_ok H (ha_requests H)" "ha_live H = ha_live (hp_hooks h) + 1"
    using f by (simp add: hook_allocate_def)
  obtain h1 where h1: "create_reference (Some x) h = Inr (Some ?b, h1)" "hp_hooks h1 = H"
    "represents h1 (set_fields ?b (reference_node n) s)" "st_node s ?b = None" using create_reference_at [OF r x a] by blast
  have "a \<noteq> ?b" using o h1(4) by (auto simp: owner_def)
  then have "cJSON_AddItemReferenceToObject (Some a) (Some k) (Some x) h =
      Inr (False, h1\<lparr>hp_hooks := H\<lparr>ha_requests := Suc (ha_requests H)\<rparr>\<rparr>)"
    using h1(1,2) H(1)
    by (simp add: cJSON_AddItemReferenceToObject_def add_item_to_object_def cJSON_strdup_def hook_allocate_def)
  then show ?thesis using h1 H(2) by (intro exI [of _ "h1\<lparr>hp_hooks := H\<lparr>ha_requests := Suc (ha_requests H)\<rparr>\<rparr>"] exI [of _ ?b]) simp
qed

section \<open>Searching\<close>

lemma ownerD:
  "represents h s \<Longrightarrow> owner s a \<Longrightarrow> live h a \<and> owns_value (nd h a) \<and> kids_ok h a (st_kids s a)"
  using representsD(1-3) [of h s a] by (auto simp: owner_def)

lemma element_of_at:
  assumes "represents h s" "owner s a" "0 \<le> i"
  shows "get_array_item_at (Some a) (nat i) h = Inr (element_of s a i)"
  using get_array_item_kids [of h a "st_kids s a" "nat i"] ownerD [OF assms(1,2)] assms(3) by (simp add: element_of_def)

lemma first_named_cong:
  "(\<And>x. x \<in> set xs \<Longrightarrow> N x = M x) \<Longrightarrow> first_named N c k xs = first_named M c k xs"
proof (induction xs)
  case (Cons x xs)
  have "first_named N c k xs = first_named M c k xs" "N x = M x" using Cons by simp_all
  then show ?case by (simp add: first_named_def)
qed (simp add: first_named_def)

lemma member_at:
  assumes "represents h s" "owner s a"
  shows "get_object_item_at (Some a) (Some k) c h = retC (member s c a k)"
proof -
  have "nd h x = the (st_node s x)" if "x \<in> set (st_kids s a)" for x
    using representsD(1,9) [OF assms(1)] representsD(2) [OF assms(1), of x] that by (metis option.exhaust_sel)
  then show ?thesis using get_object_item_kids [of h a "st_kids s a" "Some k" c] ownerD [OF assms]
    by (simp add: member_def first_named_cong [of "st_kids s a" "nd h" "\<lambda>x. the (st_node s x)"])
qed

lemma element_of_in: "element_of s a i = Some x \<Longrightarrow> x \<in> set (st_kids s a)"
  by (auto simp: element_of_def split: if_splits)

lemma member_in: "member s c a k = Some x \<Longrightarrow> x \<in> set (st_kids s a)"
  by (auto simp: member_def dest: first_named_in)

lemma position_nth: "x \<in> set xs \<Longrightarrow> position x xs < length xs \<and> xs ! position x xs = x"
proof (induction xs)
  case (Cons y xs)
  then show ?case by (cases "y = x") (simp_all add: position_def)
qed simp

section \<open>Taking out, freeing and replacing\<close>

lemma detach_at:
  assumes "represents h s" "owner s a" "x \<in> set (st_kids s a)"
  shows "\<exists>h'. cJSON_DetachItemViaPointer (Some a) (Some x) h = Inr (Some x, h') \<and>
    represents h' (without a x s) \<and> unaccounted h' (without a x s) = unaccounted h s \<and> free_item_of (without a x s) x"
  using remove_store [OF assms(1) _ _ _ _ refl, of a "position x (st_kids s a)" x] ownerD [OF assms(1,2)] position_nth [OF assms(3)]
  by (simp add: without_def)

definition taken :: "nat \<Rightarrow> ptr \<Rightarrow> store \<Rightarrow> store" where
  "taken a p s = (case p of None \<Rightarrow> s | Some x \<Rightarrow> without a x s)"

definition freed :: "nat \<Rightarrow> ptr \<Rightarrow> store \<Rightarrow> store" where
  "freed a p s = (case p of None \<Rightarrow> s | Some x \<Rightarrow> prune x (without a x s))"

lemma detach_meets:
  assumes "represents h s" "owner s a" "\<And>x. p = Some x \<Longrightarrow> x \<in> set (st_kids s a)" "P p (taken a p s)"
  shows "meets s h P (liftC (cJSON_DetachItemViaPointer (Some a) p h))"
proof (cases p)
  case None
  then show ?thesis using assms(1,4) meets_pure [of h s P None] by (simp add: cJSON_DetachItemViaPointer_def taken_def)
next
  case (Some x)
  then show ?thesis using detach_at [OF assms(1,2) assms(3) [OF Some]] assms(4) by (auto simp: taken_def intro: meetsI)
qed

lemma delete_meets:
  assumes "represents h s" "owner s a" "\<And>x. p = Some x \<Longrightarrow> x \<in> set (st_kids s a)" "P Freed (freed a p s)"
  shows "meets s h P (as_freed (bindC (liftC (cJSON_DetachItemViaPointer (Some a) p h)) (\<lambda>(item, h). Delete_at item h)))"
proof (cases p)
  case None
  have "Delete_at None h = retC h" by (subst Delete_at.simps) simp
  then show ?thesis using None assms(1,4) meets_pure [of h s P Freed]
    by (simp add: cJSON_DetachItemViaPointer_def freed_def as_freed_def retC_def)
next
  case (Some x)
  obtain h1 where h1: "cJSON_DetachItemViaPointer (Some a) (Some x) h = Inr (Some x, h1)" "represents h1 (without a x s)"
    "unaccounted h1 (without a x s) = unaccounted h s" "free_item_of (without a x s) x"
    using detach_at [OF assms(1,2) assms(3) [OF Some]] by blast
  obtain h2 where "Delete_at (Some x) h1 = Some (Inr h2)" "represents h2 (prune x (without a x s))"
    "unaccounted h2 (prune x (without a x s)) = unaccounted h s"
    using delete_store [OF h1(2,4)] h1(3) by auto
  then show ?thesis using h1(1) Some assms(4)
    by (intro meetsI [of _ Freed h2 "prune x (without a x s)"]) (simp_all add: as_freed_def retC_def freed_def)
qed

lemma swap_meets:
  assumes r: "represents h s" and j: "may_join s a y" and p: "\<And>x. p = Some x \<Longrightarrow> x \<in> set (st_kids s a)"
    and P: "case p of None \<Rightarrow> P False s | Some x \<Rightarrow> P True (swapped a x y s)"
  shows "meets s h P (cJSON_ReplaceItemViaPointer (Some a) p (Some y) h)"
proof (cases p)
  case None
  then show ?thesis using r P meets_pure [of h s P False] may_joinD(3) [OF r j]
    by (simp add: cJSON_ReplaceItemViaPointer_def heap_simps retC_def)
next
  case (Some x)
  then show ?thesis using swap_store [OF r j _ _ refl, of "position x (st_kids s a)" x] position_nth [OF p [OF Some]] P
    by (auto simp: swapped_def intro: meetsI)
qed

lemma object_swap_meets:
  assumes r: "represents h s" and j: "may_join s a y"
  shows "meets s h (\<lambda>b. call_outcome (Replace_In_Object c a k y) s (Truth b)) (replace_item_in_object (Some a) (Some k) (Some y) c h)"
proof -
  obtain n where n: "st_node s y = Some n" using j by (auto simp: may_join_def free_item_of_def)
  have at: "live h y" "nd h y = n" using representsD(1,2) [OF r] n by simp_all
  let ?P = "\<lambda>b. call_outcome (Replace_In_Object c a k y) s (Truth b)"
  let ?h = "free_string (owns_name n) (cj_string n) h"
  obtain ok H where a: "hook_allocate (hp_hooks ?h) = (ok, H)" by fastforce
  let ?H = "if owns_name n \<and> cj_string n \<noteq> None then H\<lparr>ha_live := ha_live H + 1\<rparr> else H"
  have fs: "hp_hooks ?h = (if owns_name n \<and> cj_string n \<noteq> None then hook_deallocate (hp_hooks h) else hp_hooks h)"
    "?h\<lparr>hp_hooks := H\<rparr> = h\<lparr>hp_hooks := H\<rparr>" by (auto simp: free_string_def)
  have H0: "free_string (owns_name n) (cj_string n) (h\<lparr>hp_hooks := ?H\<rparr>) = h\<lparr>hp_hooks := H\<rparr>"
    by (auto simp: free_string_def hook_deallocate_def)
  have l0: "ha_live ?H = ha_live (hp_hooks h) + (if ok then 1 else 0)"
    using hook_allocate_cases [OF a] fs(1) by (auto simp: hook_deallocate_def)
  obtain H1 where H: "free_string (owns_name n) (cj_string n) (h\<lparr>hp_hooks := H1\<rparr>) = h\<lparr>hp_hooks := H\<rparr>"
    and l: "ha_live H1 = ha_live (hp_hooks h) + (if ok then 1 else 0)" using H0 l0 by blast
  let ?go = "\<lambda>m. upd y (\<lambda>c. c\<lparr>ce_node := m\<rparr>) (h\<lparr>hp_hooks := H\<rparr>)"
  have up: "live (?go m) y" "nd (?go m) y = m" for m by simp_all
  have d: "deref (Some y) h = Inr (cell_at h y)" using at by (simp add: heap_simps)
  have first: "set_node (Some y) (\<lambda>m. m\<lparr>cj_string := v\<rparr>) (h\<lparr>hp_hooks := H\<rparr>) = Inr (?go (n\<lparr>cj_string := v\<rparr>))" for v
    using at by (simp add: heap_simps live_def upd_def cell_at_def)
  have second: "set_node (Some y) (\<lambda>m. m\<lparr>cj_type := cj_type m AND NOT cJSON_StringIsConst\<rparr>) (?go (n\<lparr>cj_string := Some (cstr k)\<rparr>)) =
      Inr (?go (renamed False k n))"
    by (subst set_live(4) [OF up(1)]) (simp add: upd_def renamed_def)
  show ?thesis
  proof (cases ok)
    case False
    have "replace_item_in_object (Some a) (Some k) (Some y) c h = Some (Inr (False, ?go (n\<lparr>cj_string := None\<rparr>)))"
      using d at a fs(2) first [of None] False by (simp add: replace_item_in_object_def cJSON_strdup_def Let_def retC_def)
    moreover have "represents (?go (n\<lparr>cj_string := None\<rparr>)) (set_fields y (n\<lparr>cj_string := None\<rparr>) s) \<and>
        unaccounted (?go (n\<lparr>cj_string := None\<rparr>)) (set_fields y (n\<lparr>cj_string := None\<rparr>) s) = unaccounted h s"
      by (rule rename_item [OF r n, of _ H1]) (use l False in \<open>simp_all add: H owns_value_def\<close>)
    ultimately show ?thesis 
      using n by (intro meetsI [of _ False "?go (n\<lparr>cj_string := None\<rparr>)" "set_fields y (n\<lparr>cj_string := None\<rparr>) s"]) simp_all
  next
    case True
    let ?n = "renamed False k n"
    let ?s = "set_fields y ?n s"
    have R: "represents (?go ?n) ?s \<and> unaccounted (?go ?n) ?s = unaccounted h s"
      by (rule rename_item [OF r n, of _ H1]) (use l True in \<open>simp_all add: H renamed_value\<close>)
    have o: "owner ?s a" using may_join_fields [OF j] by (simp add: may_join_def owner_def)
    have "replace_item_in_object (Some a) (Some k) (Some y) c h =
        cJSON_ReplaceItemViaPointer (Some a) (member ?s c a k) (Some y) (?go ?n)"
      using d at a fs(2) first [of "Some (cstr k)"] second True member_at [OF conjunct1 [OF R] o, of k c]
      by (simp add: replace_item_in_object_def cJSON_strdup_def Let_def)
    moreover have "meets s h ?P (cJSON_ReplaceItemViaPointer (Some a) (member ?s c a k) (Some y) (?go ?n))"
      by (rule meets_from [OF _ _ swap_meets]) (use R may_join_fields [OF j] n in \<open>auto simp: Let_def dest: member_in split: option.splits\<close>)
    ultimately show ?thesis by simp
  qed
qed

section \<open>Every call\<close>

lemma create_exec:
  assumes "represents h s"
  shows "meets s h (call_outcome Create_Array s) (exec Create_Array h)" "meets s h (call_outcome Create_Object s) (exec Create_Object h)"
    "meets s h (call_outcome (Create_Number d) s) (exec (Create_Number d) h)"
    "meets s h (call_outcome (Create_String t) s) (exec (Create_String t) h)"
proof -
  have o: "call_outcome Create_Array s = born (zero_node\<lparr>cj_type := cJSON_Array\<rparr>) s"
    "call_outcome Create_Object s = born (zero_node\<lparr>cj_type := cJSON_Object\<rparr>) s"
    "call_outcome (Create_Number d) s = born (zero_node\<lparr>cj_type := cJSON_Number, cj_valuedouble := d, cj_valueint := saturate d\<rparr>) s"
    "call_outcome (Create_String t) s = born (zero_node\<lparr>cj_type := cJSON_String, cj_valuestring := Some (cstr t)\<rparr>) s"
    by (simp_all add: fun_eq_iff)
  note c = meets_as(1) [OF create_meets [OF assms]]
  show "meets s h (call_outcome Create_Array s) (exec Create_Array h)" "meets s h (call_outcome Create_Object s) (exec Create_Object h)"
    "meets s h (call_outcome (Create_Number d) s) (exec (Create_Number d) h)"
    unfolding o exec.simps creators by (rule c; simp add: zero_cell_def zero_node_def node_blocks_def)+
  show "meets s h (call_outcome (Create_String t) s) (exec (Create_String t) h)"
    unfolding o exec.simps cJSON_CreateString_def
    by (rule meets_as(1) [OF text_meets [OF assms]]) (simp_all add: cjson_types cjson_flags)
qed

lemma add_exec:
  assumes "represents h s"
  shows "may_join s a x \<Longrightarrow> meets s h (call_outcome (Add_To_Array a x) s) (exec (Add_To_Array a x) h)"
    "may_join s a x \<Longrightarrow> meets s h (call_outcome (Add_To_Object c a k x) s) (exec (Add_To_Object c a k x) h)"
    "owner s a \<Longrightarrow> st_node s x \<noteq> None \<Longrightarrow> meets s h (call_outcome (Add_Reference_To_Array a x) s) (exec (Add_Reference_To_Array a x) h)"
    "may_join s a x \<Longrightarrow> meets s h (call_outcome (Insert_In_Array a i x) s) (exec (Insert_In_Array a i x) h)"
proof -
  show "meets s h (call_outcome (Add_To_Array a x) s) (exec (Add_To_Array a x) h)" if "may_join s a x"
    using append_meets [OF assms that] by (simp add: cJSON_AddItemToArray_def meets_as)
  show "meets s h (call_outcome (Add_To_Object c a k x) s) (exec (Add_To_Object c a k x) h)" if "may_join s a x"
    using meets_as(2) [OF object_meets [OF assms that, of c k]]
    by (cases "c") (simp_all add: cJSON_AddItemToObject_def cJSON_AddItemToObjectCS_def del: call_outcome.simps)
  show "meets s h (call_outcome (Add_Reference_To_Array a x) s) (exec (Add_Reference_To_Array a x) h)"
    if "owner s a" "st_node s x \<noteq> None"
    using meets_as(2) [OF reference_meets [OF assms that(1)]] that(2) by (auto simp del: call_outcome.simps)
  show "meets s h (call_outcome (Insert_In_Array a i x) s) (exec (Insert_In_Array a i x) h)" if j: "may_join s a x"
  proof (cases "i < 0")
    case True
    then show ?thesis using meets_pure [OF assms, of _ False] by (auto simp: cJSON_InsertItemInArray_def intro!: meets_as)
  next
    case False
    then show ?thesis using insert_store [OF assms j, of "nat i"] by (auto intro!: meets_as intro: meetsI)
  qed
qed

lemma take_exec:
  assumes r: "represents h s" and o: "owner s a"
  shows "meets s h (call_outcome (Detach_From_Array a i) s) (exec (Detach_From_Array a i) h)"
    "meets s h (call_outcome (Detach_From_Object c a k) s) (exec (Detach_From_Object c a k) h)"
    "meets s h (call_outcome (Delete_From_Array a i) s) (exec (Delete_From_Array a i) h)"
    "meets s h (call_outcome (Delete_From_Object c a k) s) (exec (Delete_From_Object c a k) h)"
proof -
  have e: "cJSON_DetachItemFromArray (Some a) i h = (if i < 0 then Inr (None, h) else cJSON_DetachItemViaPointer (Some a) (element_of s a i) h)"
    using element_of_at [OF r o, of i] by (simp add: cJSON_DetachItemFromArray_def)
  have n: "cJSON_DetachItemViaPointer (Some a) None h = Inr (None, h)" by (simp add: cJSON_DetachItemViaPointer_def)
  have e': "cJSON_DetachItemFromArray (Some a) i h = cJSON_DetachItemViaPointer (Some a) (element_of s a i) h"
    using e n by (auto simp: element_of_def)
  have m: "detach_from_object (Some a) (Some k) c h = liftC (cJSON_DetachItemViaPointer (Some a) (member s c a k) h)" for c
    using member_at [OF r o, of k c] by (simp add: detach_from_object_def)
  note d = detach_meets [OF r o] and f = delete_meets [OF r o]
  show "meets s h (call_outcome (Detach_From_Array a i) s) (exec (Detach_From_Array a i) h)"
    by (auto simp: e' taken_def intro!: meets_as d dest: element_of_in)
  show "meets s h (call_outcome (Detach_From_Object c a k) s) (exec (Detach_From_Object c a k) h)"
    by (auto simp: m taken_def cJSON_DetachItemFromObject_def cJSON_DetachItemFromObjectCaseSensitive_def
        intro!: meets_as d dest: member_in)
  show "meets s h (call_outcome (Delete_From_Array a i) s) (exec (Delete_From_Array a i) h)"
    by (auto simp: e' freed_def cJSON_DeleteItemFromArray_def intro!: f dest: element_of_in)
  show "meets s h (call_outcome (Delete_From_Object c a k) s) (exec (Delete_From_Object c a k) h)"
    by (auto simp: m freed_def cJSON_DetachItemFromObject_def cJSON_DetachItemFromObjectCaseSensitive_def
        cJSON_DeleteItemFromObject_def cJSON_DeleteItemFromObjectCaseSensitive_def intro!: f dest: member_in)
qed

lemma replace_exec:
  assumes r: "represents h s" and j: "may_join s a y"
  shows "meets s h (call_outcome (Replace_In_Array a i y) s) (exec (Replace_In_Array a i y) h)"
    "meets s h (call_outcome (Replace_In_Object c a k y) s) (exec (Replace_In_Object c a k y) h)"
proof -
  have o: "owner s a" using j by (simp add: may_join_def owner_def)
  show "meets s h (call_outcome (Replace_In_Array a i y) s) (exec (Replace_In_Array a i y) h)"
  proof (cases "i < 0")
    case True
    then show ?thesis using meets_pure [OF r, of _ False]
      by (auto simp: cJSON_ReplaceItemInArray_def element_of_def retC_def intro!: meets_as)
  next
    case False
    then show ?thesis using element_of_at [OF r o, of i]
      by (auto simp: cJSON_ReplaceItemInArray_def intro!: meets_as swap_meets [OF r j] dest: element_of_in split: option.splits)
  qed
  show "meets s h (call_outcome (Replace_In_Object c a k y) s) (exec (Replace_In_Object c a k y) h)"
    using meets_as(2) [OF object_swap_meets [OF r j, of c k]]
    by (cases "c") (simp_all add: cJSON_ReplaceItemInObject_def cJSON_ReplaceItemInObjectCaseSensitive_def del: call_outcome.simps)
qed

lemma look_exec:
  assumes r: "represents h s" and o: "owner s a"
  shows "meets s h (call_outcome (Get_Array_Size a) s) (exec (Get_Array_Size a) h)"
    "meets s h (call_outcome (Get_Array_Item a i) s) (exec (Get_Array_Item a i) h)"
    "meets s h (call_outcome (Get_Object_Item c a k) s) (exec (Get_Object_Item c a k) h)"
proof -
  show "meets s h (call_outcome (Get_Array_Size a) s) (exec (Get_Array_Size a) h)"
    using size_kids [of h a "st_kids s a"] ownerD [OF r o] r by (auto simp: retC_def intro: meets_pure)
  show "meets s h (call_outcome (Get_Array_Item a i) s) (exec (Get_Array_Item a i) h)"
    using element_of_at [OF r o, of i] meets_pure [OF r, of _ "element_of s a i"]
    by (auto simp: retC_def element_of_def intro!: meets_as)
  show "meets s h (call_outcome (Get_Object_Item c a k) s) (exec (Get_Object_Item c a k) h)"
    using member_at [OF r o, of k c] meets_pure [OF r, of _ "member s c a k"] by (auto simp: retC_def intro!: meets_as)
qed

lemma delete_exec:
  assumes "represents h s" "free_item_of s x"
  shows "meets s h (call_outcome (Delete_Item x) s) (exec (Delete_Item x) h)"
  using delete_store [OF assms] by (auto simp: as_freed_def retC_def intro: meetsI)

lemma exec_meets:
  "represents h s \<Longrightarrow> allowed c s \<Longrightarrow> meets s h (call_outcome c s) (exec c h)"
  by (cases c) (simp_all only: allowed.simps create_exec add_exec take_exec replace_exec look_exec delete_exec simp_thms not_False_eq_True)

end
