(* ===== verification/Cjson_Client.thy ===== *)
theory Cjson_Client
  imports Cjson_Refines
begin

text \<open>
  Programs over the calls of \<open>Cjson_Calls\<close>. The locale \<open>simulation\<close> is the contract between an implementation of
  calls and what they are said to do; a program that keeps to the conditions of the calls never faults, and its
  replies are those of the stated outcomes. It is interpreted on the items of cJSON.
\<close>

section \<open>Programs\<close>

text \<open>A program chooses its next call by the replies so far; it makes at most n calls.\<close>

fun run_client :: "('c \<Rightarrow> 'h \<Rightarrow> ('r \<times> 'h) comp) \<Rightarrow> ('r list \<Rightarrow> 'c option) \<Rightarrow> nat \<Rightarrow> 'r list \<Rightarrow> 'h \<Rightarrow> ('r list \<times> 'h) comp" where
  "run_client ex client 0 rs h = retC (rs, h)"
| "run_client ex client (Suc n) rs h =
     (case client rs of
        None \<Rightarrow> retC (rs, h)
      | Some c \<Rightarrow> bindC (ex c h) (\<lambda>(r, h). run_client ex client n (rs @ [r]) h))"

fun client_outcome :: "('c \<Rightarrow> 's \<Rightarrow> 'r \<Rightarrow> 's \<Rightarrow> bool) \<Rightarrow> ('r list \<Rightarrow> 'c option) \<Rightarrow> nat \<Rightarrow> 'r list \<Rightarrow> 's \<Rightarrow> 'r list \<Rightarrow> 's \<Rightarrow> bool" where
  "client_outcome out client 0 rs s rs' s' = (rs' = rs \<and> s' = s)"
| "client_outcome out client (Suc n) rs s rs' s' =
     (case client rs of
        None \<Rightarrow> rs' = rs \<and> s' = s
      | Some c \<Rightarrow> \<exists>r t. out c s r t \<and> client_outcome out client n (rs @ [r]) t rs' s')"

text \<open>Whatever the outcomes of the calls before, the next call is allowed.\<close>

fun client_allowed :: "('c \<Rightarrow> 's \<Rightarrow> 'r \<Rightarrow> 's \<Rightarrow> bool) \<Rightarrow> ('c \<Rightarrow> 's \<Rightarrow> bool) \<Rightarrow> ('r list \<Rightarrow> 'c option) \<Rightarrow> nat \<Rightarrow> 'r list \<Rightarrow> 's \<Rightarrow> bool" where
  "client_allowed out ok client 0 rs s = True"
| "client_allowed out ok client (Suc n) rs s =
     (case client rs of
        None \<Rightarrow> True
      | Some c \<Rightarrow> ok c s \<and> (\<forall>r t. out c s r t \<longrightarrow> client_allowed out ok client n (rs @ [r]) t))"

locale simulation =
  fixes ex :: "'c \<Rightarrow> 'h \<Rightarrow> ('r \<times> 'h) comp"
    and out :: "'c \<Rightarrow> 's \<Rightarrow> 'r \<Rightarrow> 's \<Rightarrow> bool"
    and ok :: "'c \<Rightarrow> 's \<Rightarrow> bool"
    and rep :: "'h \<Rightarrow> 's \<Rightarrow> bool"
  assumes call_sim: "rep h s \<Longrightarrow> ok c s \<Longrightarrow> \<exists>r h' s'. ex c h = Some (Inr (r, h')) \<and> out c s r s' \<and> rep h' s'"
begin

lemma client_sim:
  "rep h s \<Longrightarrow> client_allowed out ok client n rs s \<Longrightarrow>
    \<exists>rs' h' s'. run_client ex client n rs h = Some (Inr (rs', h')) \<and> client_outcome out client n rs s rs' s' \<and> rep h' s'"
proof (induction n arbitrary: rs h s)
  case (Suc n)
  show ?case
  proof (cases "client rs")
    case (Some c)
    then obtain r h1 s1 where c: "ex c h = Some (Inr (r, h1))" "out c s r s1" "rep h1 s1"
      using call_sim [OF Suc.prems(1), of c] Suc.prems(2) by auto
    then have "client_allowed out ok client n (rs @ [r]) s1" using Suc.prems(2) Some by simp
    then show ?thesis using Suc.IH [OF c(3)] c Some by fastforce
  qed (use Suc.prems in \<open>auto simp: retC_def\<close>)
qed (auto simp: retC_def)

end

interpretation items: simulation exec call_outcome allowed "\<lambda>h s. represents h s \<and> unaccounted h s = u" for u
proof
  fix h s c
  assume "represents h s \<and> unaccounted h s = u" "allowed c s"
  then show "\<exists>r h' s'. exec c h = Some (Inr (r, h')) \<and> call_outcome c s r s' \<and> represents h' s' \<and> unaccounted h' s' = u"
    using exec_meets [of h s c] by (auto simp: meets_def)
qed

section \<open>Programs over the items of cJSON\<close>

text \<open>
  C12. A program that builds, edits, searches and deletes items through the functions of cJSON, and keeps to
  their conditions (an item is put into one list at a time and not below itself, a freed item is not used), never reads or
  writes a freed cell and never frees one twice, for every pattern of failing allocations; every call ends. Its
  replies are those of HOL lists: appending, inserting, removing, replacing, indexing and searching; deleting removes the
  item with all below it. The blocks that the items do not account for are as many as before: nothing is lost.
\<close>

theorem cjson_calls_refine:
  assumes "represents h s" "client_allowed call_outcome allowed client n [] s"
  shows "\<exists>rs h' s'. run_client exec client n [] h = Some (Inr (rs, h')) \<and> client_outcome call_outcome client n [] s rs s' \<and>
    represents h' s' \<and> unaccounted h' s' = unaccounted h s"
  using items.client_sim [of h s "unaccounted h s"] assms by blast

definition store0 :: store where
  "store0 = \<lparr>st_kids = \<lambda>a. [], st_node = \<lambda>a. None\<rparr>"

definition heap0 :: "hooks \<Rightarrow> heap" where
  "heap0 H = \<lparr>hp_cells = \<lambda>a. None, hp_fresh = 0, hp_hooks = H\<rparr>"

lemma heap0_represents: "represents (heap0 H) store0" "unaccounted (heap0 H) store0 = ha_live H"
proof -
  show "represents (heap0 H) store0"
    by (simp add: represents_def heap0_def store0_def live_def disjoint_lists_def below_def acyclic_def in_list_def)
  show "unaccounted (heap0 H) store0 = ha_live H"
    by (simp add: unaccounted_def store_blocks_def heap0_def store0_def)
qed

fun sample_client :: "reply list \<Rightarrow> call option" where
  "sample_client [] = Some Create_Array"
| "sample_client [To_Item (Some a)] = Some (Create_Number (Fin 1))"
| "sample_client [To_Item (Some a), To_Item (Some x)] = Some (Add_To_Array a x)"
| "sample_client [To_Item (Some a), To_Item (Some x), Truth True] = Some (Delete_Item a)"
| "sample_client _ = None"

lemma sample_allowed: "client_allowed call_outcome allowed sample_client 4 [] store0"
proof -
  have j: "may_join (set_fields x n' (set_fields a n store0)) a x" if "x \<noteq> a" "owns_value n" for x a n n'
    using that by (auto simp: may_join_def set_fields_def store0_def free_item_of_def in_list_def subtree_def below_def)
  have f: "free_item_of (put_kids a [x] (set_fields x n' (set_fields a n store0))) a" if "x \<noteq> a" for x a n n'
    using that by (auto simp: free_item_of_def put_kids_def set_fields_def store0_def in_list_def)
  have node: "st_node (set_fields a n s) b = (if b = a then Some n else st_node s b)" for a b n s
    by (simp add: set_fields_def)
  have k: "st_kids store0 a = []" for a by (simp add: store0_def)
  show ?thesis
    by (auto simp: eval_nat_numeral born_def k node cjson_types cjson_flags owns_value_def zero_node_def
        intro!: j f split: if_splits)
qed

theorem cjson_calls_refine_witness:
  "\<exists>rs h' s'. run_client exec sample_client 4 [] (heap0 hooks0) = Some (Inr (rs, h')) \<and>
    client_outcome call_outcome sample_client 4 [] store0 rs s' \<and> represents h' s' \<and>
    unaccounted h' s' = unaccounted (heap0 hooks0) store0"
  using cjson_calls_refine [OF heap0_represents(1) sample_allowed] .

end
