(* ===== verification/Cjson_Cut.thy ===== *)
theory Cjson_Cut
  imports Cjson_Roundtrip
begin

text \<open>
  A text that ends inside a string is not parsed: the text of an object, cut anywhere inside the string
  of one of its members, gives NULL. The members in front of it are parsed and freed again.
\<close>

definition member_text :: "bytes \<times> json \<Rightarrow> bytes" where
  "member_text m = (case m of (s, j) \<Rightarrow>
     quoted (Some s) @ [0x3A] @ the (json_text False 1 (tree (Some s) j)))"

lemma members_split:
  "members_text False 1 (map (\<lambda>(s, j). tree (Some s) j) (ms1 @ m # ms2)) = Some x \<Longrightarrow>
   \<exists>rest. x = concat (map (\<lambda>m. member_text m @ [0x2C]) ms1) @ member_text m @ rest \<and>
     (\<forall>(s, j) \<in> set ms1. json_text False 1 (tree (Some s) j) \<noteq> None)"
proof (induction ms1 arbitrary: x)
  case Nil
  obtain s j where "m = (s, j)" by fastforce
  then show ?case using Nil
    by (auto simp: cat2_Some_iff member_text_def tabs_text_def colon_text_def simp del: tree.simps json_text.simps)
next
  case (Cons a ms1)
  obtain s j where a: "a = (s, j)" by fastforce
  obtain y z where y: "json_text False 1 (tree (Some s) j) = Some y"
    "members_text False 1 (map (\<lambda>(s, j). tree (Some s) j) (ms1 @ m # ms2)) = Some z"
    "x = quoted (Some s) @ [0x3A] @ y @ [0x2C] @ z"
    using Cons.prems
    by (auto simp: a cat2_Some_iff tabs_text_def colon_text_def end_text_def simp del: tree.simps json_text.simps)
  then show ?case using Cons.IH [OF y(2)] by (auto simp: a member_text_def simp del: tree.simps json_text.simps)
qed

lemma loop_prefix:
  "\<forall>(s, j) \<in> set ms1. json_ok j \<and> c_string s \<and> json_text False 1 (tree (Some s) j) \<noteq> None \<Longrightarrow>
   reads b (z # concat (map (\<lambda>m. member_text m @ [0x2C]) ms1) @ q) \<Longrightarrow> pb_depth b = 1 \<Longrightarrow>
   CJSON_NESTING_LIMIT < n + 1 \<Longrightarrow>
   \<exists>b' z'. object_loop (parse_value n) (length ms1 + k) items b =
       object_loop (parse_value n) k (items @ map (\<lambda>(s, j). tree (Some s) j) ms1) b' \<and>
     reads b' (z' # q) \<and> pb_depth b' = 1"
proof (induction ms1 arbitrary: b z items)
  case (Cons a ms1)
  obtain s j where a: "a = (s, j)" by fastforce
  let ?Q = "concat (map (\<lambda>m. member_text m @ [0x2C]) ms1) @ q"
  obtain y where y: "json_text False 1 (tree (Some s) j) = Some y" using Cons.prems(1) a by auto
  have j: "json_ok j" "c_string s" using Cons.prems(1) a by auto
  have "reads b (z # [] @ quoted (Some s) @ colon_text False @ y @ [] @ 0x2C # ?Q)"
    using Cons.prems(2) y by (simp add: a member_text_def colon_text_def)
  from object_member_text [OF j(1) roundtrips_all j(2) y this _ _ _ _ Cons.prems(3,4), of "length ms1 + k" items]
  obtain b1 where b1: "object_loop (parse_value n) (Suc (length ms1 + k)) items b =
      object_loop (parse_value n) (length ms1 + k) (items @ [tree (Some s) j]) b1" "reads b1 (0x2C # ?Q)" "pb_depth b1 = 1"
    by (auto simp: number_char_def is_digit_def simp del: object_loop.simps tree.simps)
  from Cons.IH [OF _ b1(2,3) Cons.prems(4), of "items @ [tree (Some s) j]"] Cons.prems(1) b1(1)
  show ?case by (auto simp: a simp del: object_loop.simps tree.simps)
qed (auto simp del: object_loop.simps)

lemma parse_string_unfinished:
  assumes r: "reads b (0x22 # concat (map escape_text s) @ [0])" and s: "c_string s"
  shows "\<exists>b'. parse_string item b = Inr (False, item, b')"
proof -
  let ?c = "pb_content b"
  have len: "pb_length b = length ?c" using r by (simp add: reads_def)
  have "drop (pb_offset b + 1) ?c = concat (map escape_text s) @ [0]"
    using r by (simp add: reads_def drop_Suc drop_tl [symmetric]) (metis drop_Suc drop_tl list.sel(3))
  from scan_unfinished [OF this s, of 0] obtain k where
    "scan_string ?c (pb_length b) (pb_offset b + 1) 0 = Inr (Some (pb_length b, k))" using len by auto
  then show ?thesis using reads_at [OF r] by (simp add: parse_string_def)
qed

lemma loop_unfinished:
  assumes r: "reads b (z # quoted (Some k) @ [0x3A] @ 0x22 # concat (map escape_text s) @ [0])"
    and s: "c_string k" "c_string s" and n: "0 < n"
  shows "\<exists>items' b'. object_loop (parse_value n) (Suc l) items b = Some (Inr (False, items', b'))"
proof -
  obtain m where m: "n = Suc m" using n by (cases n) auto
  have "reads b (z # [] @ quoted (Some k) @ colon_text False @ 0x22 # concat (map escape_text s) @ [0])"
    using r by (simp add: colon_text_def)
  from object_name_text [OF s(1) this, of "parse_value n" l items] obtain b5 where
    b5: "object_loop (parse_value n) (Suc l) items b =
      bindC (parse_value n (swap_name (Item (zero_node\<lparr>cj_type := cJSON_String, cj_valuestring := Some k\<rparr>) [])) b5)
       (\<lambda>(ok, current_item, b).
        let items = items @ [current_item]
        in if \<not> ok then retC (False, items, b)
           else bindC (liftC (buffer_skip_whitespace b)) (\<lambda>b.
             bindC (liftC (next_is b 0x2C)) (\<lambda>comma.
               if comma then object_loop (parse_value n) l items b else retC (True, items, b))))"
    "reads b5 (0x22 # concat (map escape_text s) @ [0])" by auto
  let ?nmi = "swap_name (Item (zero_node\<lparr>cj_type := cJSON_String, cj_valuestring := Some k\<rparr>) [])"
  obtain b6 where b6: "parse_string ?nmi b5 = Inr (False, ?nmi, b6)"
    using parse_string_unfinished [OF b5(2) s(2)] by blast
  then have "parse_value n ?nmi b5 = Some (Inr (False, ?nmi, b6))"
    using parse_with_first [OF b5(2), of "parse_value m"] by (simp add: m)
  then show ?thesis by (simp add: b5(1) retC_def Let_def del: object_loop.simps)
qed

lemma member_text_string:
  "c_string s \<Longrightarrow> member_text (k, JString s) = quoted (Some k) @ [0x3A] @ 0x22 # concat (map escape_text s) @ [0x22]"
  unfolding member_text_def by (simp add: text_simps quoted_def cstr_no_zero del: tree.simps json_text.simps)

text \<open>The text up to a place inside the string of the member k, followed by the terminator.\<close>

lemma parse_cut_text:
  assumes ok: "\<forall>(s, j) \<in> set ms1. json_ok j \<and> c_string s \<and> json_text False 1 (tree (Some s) j) \<noteq> None" "c_string k" "c_string s"
    and H: "hooks_good H"
    and t: "t = 0x7B # concat (map (\<lambda>m. member_text m @ [0x2C]) ms1) @ quoted (Some k) @ [0x3A] @ 0x22 # concat (map escape_text s)"
      "c_string t"
  shows "\<exists>r. cJSON_Parse t H = Some (Inr r) \<and> pr_item r = None"
proof -
  define b where "b = \<lparr>pb_content = t @ [0], pb_length = length t + 1, pb_offset = 0, pb_depth = 0, pb_hooks = H\<rparr>"
  have r: "reads b (t @ [0])" using H by (simp add: b_def reads_def)
  obtain H1 where H1: "cJSON_New_Item H = (Some (Item zero_node []), H1)" "reads (b\<lparr>pb_hooks := H1\<rparr>) (t @ [0])"
    using good_item [OF r] by (auto simp: b_def)
  define b1 where "b1 = b\<lparr>pb_hooks := H1\<rparr>"
  define q where "q = tl t @ [0]"
  have r1: "reads b1 (0x7B # q)" using H1(2) t(1) by (simp add: b1_def q_def)
  have d1: "pb_depth b1 = 0" by (simp add: b1_def b_def)
  have bom: "skip_utf8_bom b1 = Inr b1" by (rule no_bom [OF r1]) simp
  define b2 where "b2 = b1\<lparr>pb_depth := Suc 0\<rparr>"
  have r2: "reads b2 (0x7B # q)" "pb_depth b2 = 1" using r1 by (simp_all add: b2_def reads_def CJSON_NESTING_LIMIT_def)
  define b3 where "b3 = advance (Suc 0) b2"
  have r3: "reads b3 q" unfolding b3_def by (rule reads_advance [where s = "[0x7B]"]) (use r2 in simp_all)
  obtain q' where q': "q = 0x22 # q'"
    using t(1) by (cases ms1) (auto simp: q_def quoted_def member_text_def split: prod.splits)
  have "0 < pb_offset b3" by (simp add: b3_def)
  then obtain z where z: "reads (step_back b3) (z # q)" using reads_step_back [OF r3] by auto
  have n: "length ms1 \<le> pb_length b3"
  proof -
    have "length ms1 \<le> length (concat (map (\<lambda>m. member_text m @ [0x2C]) ms1))" by (induction ms1) auto
    then show ?thesis using reads_length [OF r3] t(1) by (simp add: q_def)
  qed
  have z': "reads (step_back b3) (z # concat (map (\<lambda>m. member_text m @ [0x2C]) ms1) @
      (quoted (Some k) @ [0x3A] @ 0x22 # concat (map escape_text s) @ [0]))"
    using z t(1) by (simp add: q_def)
  have "pb_depth (step_back b3) = 1" using r2(2) by (simp add: b3_def)
  from loop_prefix [OF ok(1) z' this, of CJSON_NESTING_LIMIT "Suc (pb_length b3 - length ms1)" "[]"]
  obtain b4 z4 where b4: "object_loop (parse_value CJSON_NESTING_LIMIT) (Suc (pb_length b3)) [] (step_back b3) =
      object_loop (parse_value CJSON_NESTING_LIMIT) (Suc (pb_length b3 - length ms1)) (map (\<lambda>(s, j). tree (Some s) j) ms1) b4"
    "reads b4 (z4 # quoted (Some k) @ [0x3A] @ 0x22 # concat (map escape_text s) @ [0])"
    using n by (auto simp del: object_loop.simps tree.simps)
  obtain items b5 where b5: "object_loop (parse_value CJSON_NESTING_LIMIT) (Suc (pb_length b3)) [] (step_back b3) =
      Some (Inr (False, items, b5))"
    using loop_unfinished [OF b4(2) ok(2,3), of CJSON_NESTING_LIMIT] b4(1)
    by (force simp: CJSON_NESTING_LIMIT_def simp del: object_loop.simps tree.simps)
  have "parse_object (parse_value CJSON_NESTING_LIMIT) (Item zero_node []) b1 =
      retC (False, Item zero_node [], delete_list items b5)"
    using d1 reads_next [OF r2(1)] reads_skip0 [of b3 "0x22" q'] r3 q' reads_next [of b3 "0x22" q'] reads_access [OF r3, of 0] b5
    by (simp add: parse_object_def Let_def CJSON_NESTING_LIMIT_def b2_def [symmetric] b3_def [symmetric] del: object_loop.simps)
  then have "parse_value parse_fuel (Item zero_node []) b1 = retC (False, Item zero_node [], delete_list items b5)"
    using parse_with_first [OF r1] by (simp add: parse_fuel_def)
  moreover have "\<lparr>pb_content = t @ [0], pb_length = Suc (length t), pb_offset = 0, pb_depth = 0, pb_hooks = H1\<rparr> = b1"
    by (simp add: b1_def b_def)
  ultimately show ?thesis
    using H1(1) bom reads_skip0 [OF r1] t(2)
    by (simp add: cJSON_Parse_def cJSON_ParseWithOpts_def cstr_no_zero cJSON_ParseWithLengthOpts_def retC_def parse_fail_def Let_def)
qed

end
