(* ===== verification/Ble_Json.thy ===== *)
theory Ble_Json
  imports Ble_Protocol Cjson_Cut Cjson_Items
begin

text \<open>
  The provisioning service over the JSON library: the parameter \<open>parse\<close> of the Bluetooth commands is
  instantiated with the model of \<open>cJSON_Parse\<close> and \<open>cJSON_GetObjectItem\<close>. Credentials sent as JSON text
  arrive in the session, however the phone cuts the text into writes; a bar in one of the strings
  makes the line be cut inside the JSON, and the command is dropped.
\<close>

section \<open>The JSON library as the commands see it\<close>

definition fields_of :: "cJSON \<Rightarrow> cjson" where
  "fields_of i = \<lparr>js_valuestring = cj_valuestring (node i), js_valueint = word_of_int (cj_valueint (node i))\<rparr>"

definition object_view :: "cJSON \<Rightarrow> json_object" where
  "object_view t k = map_option fields_of (cJSON_GetObjectItem (Some t) (Some (ascii k)))"

definition cjson_commands :: "hooks \<Rightarrow> bytes \<Rightarrow> json_object option" where
  "cjson_commands H s =
     (case cJSON_Parse s H of
        Some (Inr r) \<Rightarrow> map_option object_view (pr_item r)
      | _ \<Rightarrow> None)"

text \<open>What the members of an object say about a name.\<close>

definition member_of :: "(bytes \<times> json) list \<Rightarrow> string \<Rightarrow> json option" where
  "member_of ms k =
     map_option snd (List.find (\<lambda>(s, j). map tolower (cstr s) = map tolower (ascii k)) ms)"

definition view_of :: "json \<Rightarrow> cjson" where
  "view_of j = fields_of (tree None j)"

lemma fields_tree [simp]: "fields_of (tree nm j) = view_of j"
  by (cases j) (simp_all add: view_of_def fields_of_def named_def)

lemma view_simps [simp]:
  "view_of (JString s) = \<lparr>js_valuestring = Some s, js_valueint = 0\<rparr>"
  "view_of (JInt i) = \<lparr>js_valuestring = None, js_valueint = word_of_int i\<rparr>"
  by (simp_all add: view_of_def fields_of_def named_def zero_node_def)

lemma object_view_members:
  assumes "c_string (ascii k)"
  shows "object_view (tree None (JObject ms)) k = map_option view_of (member_of ms k)"
proof -
  have "find_member False (ascii k) (map (\<lambda>(s, j). tree (Some s) j) ms) =
      map_option (\<lambda>(s, j). tree (Some s) j) (List.find (\<lambda>(s, j). map tolower (cstr s) = map tolower (ascii k)) ms)"
    unfolding find_member_nocase
    by (induction ms) (use assms in \<open>auto simp: same_name_def cstr_no_zero\<close>)
  moreover have "child (tree None (JObject ms)) = map (\<lambda>(s, j). tree (Some s) j) ms" by simp
  ultimately have "object_view (tree None (JObject ms)) k =
      map_option (\<lambda>m. fields_of (case m of (s, j) \<Rightarrow> tree (Some s) j))
        (List.find (\<lambda>(s, j). map tolower (cstr s) = map tolower (ascii k)) ms)"
    by (simp add: object_view_def cJSON_GetObjectItem_def get_object_item_def option.map_comp comp_def del: tree.simps)
  then show ?thesis by (simp add: member_of_def option.map_comp comp_def split_beta del: tree.simps)
qed

lemma commands_of_text:
  assumes "json_ok (JObject ms)" "hooks_good H" "json_text False 0 (tree None (JObject ms)) = Some t"
  shows "\<exists>obj. cjson_commands H t = Some obj \<and>
    (\<forall>k. c_string (ascii k) \<longrightarrow> obj k = map_option view_of (member_of ms k))"
proof -
  have t: "cstr t = t" "cstr (t @ [0]) = t" using c_string_text(1) [OF assms(3)] by (simp_all add: cstr_no_zero)
  have "cJSON_Parse t H = cJSON_Parse (t @ [0]) H" by (simp add: cJSON_Parse_def cJSON_ParseWithOpts_def t)
  with parse_text [OF assms(1,3,2)] obtain r where "cJSON_Parse t H = Some (Inr r)"
    "pr_item r = Some (tree None (JObject ms))" by metis
  then show ?thesis by (simp add: cjson_commands_def object_view_members del: tree.simps)
qed

section \<open>Characters of a text\<close>

text \<open>A byte that the text of a value can only have from one of its strings.\<close>

definition foreign :: "u8 \<Rightarrow> bool" where
  "foreign a \<longleftrightarrow> a = 0x7C \<or> a < 32"

lemma foreign_syntax:
  assumes "foreign a"
  shows "a \<notin> set (ascii ''null'')" "a \<notin> set (ascii ''true'')" "a \<notin> set (ascii ''false'')"
    "a \<notin> {0x5B, 0x5D, 0x7B, 0x7D, 0x3A, 0x2C, 0x22}"
  using assms by (auto simp: foreign_def ascii_def word_less_nat_alt)

lemma foreign_number: "foreign a \<Longrightarrow> a \<notin> set (dec_int i)"
  using number_char_dec_int [of i] by (auto simp: foreign_def number_char_def is_digit_unat word_less_nat_alt)

lemma hex_digit_foreign: "foreign a \<Longrightarrow> d < 16 \<Longrightarrow> a \<noteq> hex_digit d"
proof -
  have "list_all (\<lambda>d. 32 \<le> hex_digit d \<and> hex_digit d \<noteq> 0x7C) [0..<16]" by code_simp
  then show "foreign a \<Longrightarrow> d < 16 \<Longrightarrow> a \<noteq> hex_digit d"
    by (auto simp: list_all_iff foreign_def not_less [symmetric])
qed

lemma escape_foreign:
  assumes a: "foreign a" and c: "a \<noteq> c \<or> c < 32"
  shows "a \<notin> set (escape_text c)"
proof (cases "31 < c \<and> c \<noteq> 0x22 \<and> c \<noteq> 0x5C")
  case True
  then have "\<not> c < 32" by (simp add: word_less_nat_alt)
  then show ?thesis using True c by (simp add: escape_text_def)
next
  case False
  have d: "unat c mod 16 < 16" "31 < c \<or> unat c div 16 < 16" by (auto simp: word_less_nat_alt)
  have "a \<notin> {0x5C, 0x22, 0x62, 0x66, 0x6E, 0x72, 0x74, 0x75, 0x30}"
    using a by (auto simp: foreign_def word_less_nat_alt)
  then show ?thesis using False d hex_digit_foreign [OF a] by (auto simp: escape_text_def)
qed

lemma quoted_foreign: "foreign a \<Longrightarrow> c_string s \<Longrightarrow> a < 32 \<or> a \<notin> set s \<Longrightarrow> a \<notin> set (quoted (Some s))"
proof -
  assume a: "foreign a" and s: "c_string s" and n: "a < 32 \<or> a \<notin> set s"
  have "a \<notin> set (escape_text c)" if "c \<in> set s" for c
    by (rule escape_foreign [OF a]) (use n that in auto)
  then show ?thesis using foreign_syntax(4) [OF a] s by (auto simp: quoted_def cstr_no_zero)
qed

lemma elements_avoid:
  "\<forall>c \<in> set cs. \<forall>x. json_text False d c = Some x \<longrightarrow> a \<notin> set x \<Longrightarrow> foreign a \<Longrightarrow>
   elements_text False d cs = Some x \<Longrightarrow> a \<notin> set x"
proof (induction cs arbitrary: x)
  case (Cons c cs)
  then show ?case using foreign_syntax(4) [OF Cons.prems(2)]
    by (auto simp: cat2_Some_iff comma_text_def split: if_splits)
qed simp

lemma members_avoid:
  "\<forall>c \<in> set cs. (\<forall>x. json_text False d c = Some x \<longrightarrow> a \<notin> set x) \<and> a \<notin> set (quoted (cj_string (node c))) \<Longrightarrow>
   foreign a \<Longrightarrow> members_text False d cs = Some x \<Longrightarrow> a \<notin> set x"
proof (induction cs arbitrary: x)
  case (Cons c cs)
  then show ?case using foreign_syntax(4) [OF Cons.prems(2)]
    by (auto simp: cat2_Some_iff colon_text_def tabs_text_def end_text_def split: if_splits)
qed simp

lemma text_avoids:
  assumes a: "foreign a"
  shows "json_ok j \<Longrightarrow> \<forall>s \<in> strings_of j. a < 32 \<or> a \<notin> set s \<Longrightarrow>
    json_text False d (tree nm j) = Some x \<Longrightarrow> a \<notin> set x"
proof (induction j arbitrary: nm d x)
  case (JArray js)
  have "\<forall>c \<in> set (map (tree None) js). \<forall>x. json_text False (d + 1) c = Some x \<longrightarrow> a \<notin> set x"
    using JArray.IH JArray.prems(1,2) by auto
  from elements_avoid [OF this a] show ?case
    using JArray.prems(3) foreign_syntax(4) [OF a] unfolding text_simps by (auto simp: cat2_Some_iff split: if_splits)
next
  case (JObject ms)
  have "(\<forall>x. json_text False (d + 1) (tree (Some k) j) = Some x \<longrightarrow> a \<notin> set x) \<and> a \<notin> set (quoted (Some k))"
    if m: "(k, j) \<in> set ms" for k j
  proof -
    have ok: "json_ok j" "c_string k" using JObject.prems(1) m by auto
    have s: "\<forall>s \<in> strings_of j. a < 32 \<or> a \<notin> set s" "a < 32 \<or> a \<notin> set k" using JObject.prems(2) m by fastforce+
    have snd: "j \<in> Basic_BNFs.snds (k, j)" by simp
    show ?thesis using JObject.IH [OF m snd ok(1) s(1)] quoted_foreign [OF a ok(2) s(2)] by blast
  qed
  then have "\<forall>c \<in> set (map (\<lambda>(s, j). tree (Some s) j) ms).
      (\<forall>x. json_text False (d + 1) c = Some x \<longrightarrow> a \<notin> set x) \<and> a \<notin> set (quoted (cj_string (node c)))"
    unfolding set_map ball_simps(9) split_paired_Ball_Sigma split_beta by (simp only: name_tree) force
  from members_avoid [OF this a] show ?case
    using JObject.prems(3) foreign_syntax(4) [OF a] unfolding text_simps
    by (auto simp: cat2_Some_iff open_text_def tabs_text_def split: if_splits)
next
  case JNull
  then show ?case using foreign_syntax(1) [OF a] unfolding text_simps by auto
next
  case (JBool v)
  then show ?case using foreign_syntax(2,3) [OF a] unfolding text_simps by (auto split: if_splits)
next
  case (JInt i)
  then have "x = dec_int i" unfolding json_ok.simps text_simps by (simp add: text_simps(3) del: tree.simps json_text.simps)
  then show ?case using foreign_number [OF a] by simp
next
  case (JString s)
  then have "x = quoted (Some s)" unfolding text_simps by simp
  then show ?case using quoted_foreign [OF a, of s] JString.prems by auto
qed

section \<open>Credentials arrive\<close>

definition creds_json :: "bytes \<Rightarrow> bytes \<Rightarrow> bytes \<Rightarrow> int \<Rightarrow> int \<Rightarrow> int \<Rightarrow> json" where
  "creds_json ssid psk host port udp_port seq = JObject
     [(ascii ''cmd'', JString (ascii ''send_creds'')), (ascii ''seq'', JInt seq), (ascii ''ssid'', JString ssid),
      (ascii ''psk'', JString psk), (ascii ''host'', JString host), (ascii ''port'', JInt port),
      (ascii ''udp_port'', JInt udp_port)]"

lemma run_send_creds: "run_command x d now rnd obj (ascii ''send_creds'') seq b n =
    with_nvs n (cmd_send_creds x rnd obj seq b)"
  by (simp add: run_command_def)

lemma names_plain:
  "c_string (ascii ''cmd'')" "c_string (ascii ''seq'')" "c_string (ascii ''ssid'')" "c_string (ascii ''psk'')"
  "c_string (ascii ''host'')" "c_string (ascii ''port'')" "c_string (ascii ''udp_port'')" "c_string (ascii ''send_creds'')"
  by (simp_all add: c_string_def ascii_def)

lemma store_wifi_stores:
  assumes "session_ok s" "c_string v" "c_string w"
  shows "\<exists>s'. store_wifi \<lparr>js_valuestring = Some v, js_valueint = p\<rparr> \<lparr>js_valuestring = Some w, js_valueint = q\<rparr> s = Inr s' \<and>
    session_ok s' \<and> cstr (ps_temp_ssid s') = take 63 v \<and> cstr (ps_temp_psk s') = take 63 w"
proof -
  obtain f g where "strncpy_to (ps_temp_ssid s) 63 v = Inr f" "length f = 64" "f ! 63 = 0" "cstr f = take 63 v"
    "strncpy_to (ps_temp_psk s) 63 w = Inr g" "length g = 64" "g ! 63 = 0" "cstr g = take 63 w"
    using assms strncpy_field_ok [of "ps_temp_ssid s" 64 v] strncpy_field_ok [of "ps_temp_psk s" 64 w]
    by (auto simp: session_ok_def)
  then show ?thesis using assms(1) by (simp add: store_wifi_def item_string_def session_ok_def)
qed

lemma store_server_stores:
  assumes "session_ok s" "c_string v"
  shows "\<exists>s'. store_server rnd \<lparr>js_valuestring = Some v, js_valueint = q\<rparr> p (Some u) s = Inr s' \<and> session_ok s' \<and>
    cstr (ps_temp_host s') = take 127 v \<and> ps_temp_port s' = ucast (js_valueint p) \<and>
    ps_temp_udp_port s' = ucast (js_valueint u) \<and> ps_nonce_valid s' \<and>
    ps_temp_ssid s' = ps_temp_ssid s \<and> ps_temp_psk s' = ps_temp_psk s"
proof -
  obtain f where "strncpy_to (ps_temp_host s) 127 v = Inr f" "length f = 128" "f ! 127 = 0" "cstr f = take 127 v"
    using assms strncpy_field_ok [of "ps_temp_host s" 128 v] by (auto simp: session_ok_def)
  moreover have "field_ok 33 (snprintf_to (ps_udp_nonce s) t)" for t
    using assms by (intro snprintf_field) (simp_all add: session_ok_def field_ok_def)
  ultimately show ?thesis using assms(1) by (simp add: store_server_def item_string_def session_ok_def)
qed

lemma creds_command:
  assumes "session_ok (b_session b)" "c_string ssid" "c_string psk" "c_string host"
    and "obj ''ssid'' = Some (view_of (JString ssid))" "obj ''psk'' = Some (view_of (JString psk))"
      "obj ''host'' = Some (view_of (JString host))" "obj ''port'' = Some (view_of (JInt port))"
      "obj ''udp_port'' = Some (view_of (JInt udp_port))"
  shows "\<exists>b'. cmd_send_creds x rnd obj seq b = Inr b' \<and>
    (let s = b_session b' in cstr (ps_temp_ssid s) = take 63 ssid \<and> cstr (ps_temp_psk s) = take 63 psk \<and>
       cstr (ps_temp_host s) = take 127 host \<and> ps_temp_port s = word_of_int port \<and>
       ps_temp_udp_port s = word_of_int udp_port \<and> ps_nonce_valid s)"
proof -
  have u: "ucast (word_of_int i :: u32) = (word_of_int i :: u16)" for i
    by transfer (simp add: take_bit_take_bit)
  obtain s1 where s1: "store_wifi (view_of (JString ssid)) (view_of (JString psk)) (b_session b) = Inr s1" "session_ok s1"
    "cstr (ps_temp_ssid s1) = take 63 ssid" "cstr (ps_temp_psk s1) = take 63 psk"
    using store_wifi_stores [OF assms(1-3)] by auto
  obtain s2 where s2: "store_server rnd (view_of (JString host)) (view_of (JInt port)) (Some (view_of (JInt udp_port))) s1 = Inr s2"
    "session_ok s2" "cstr (ps_temp_host s2) = take 127 host" "ps_temp_port s2 = word_of_int port"
    "ps_temp_udp_port s2 = word_of_int udp_port" "ps_nonce_valid s2"
    "ps_temp_ssid s2 = ps_temp_ssid s1" "ps_temp_psk s2 = ps_temp_psk s1"
    using store_server_stores [OF s1(2) assms(4), of rnd 0 "view_of (JInt port)" "view_of (JInt udp_port)"]
    by (auto simp: u)
  show ?thesis using assms(5-) s1 s2
    by (simp add: cmd_send_creds_def creds_ok_def session_ok_def prov_session_update_crc_def Let_def del: view_simps)
qed

lemma creds_text:
  assumes "json_text False 0 (tree None (creds_json ssid psk host port udp_port seq)) = Some t"
    and "json_ok (creds_json ssid psk host port udp_port seq)" "0x7C \<notin> set ssid \<union> set psk \<union> set host"
  shows "0x7C \<notin> set t" "plain_text t"
proof -
  have f: "foreign 0x7C" "foreign 10" "foreign 0" by (simp_all add: foreign_def)
  have "\<forall>s \<in> strings_of (creds_json ssid psk host port udp_port seq). 0x7C \<notin> set s"
    using assms(3) by (auto simp: creds_json_def ascii_def)
  then show "0x7C \<notin> set t" using text_avoids [OF f(1) assms(2) _ assms(1)] by blast
  show "plain_text t"
    using text_avoids [OF f(2) assms(2) _ assms(1)] text_avoids [OF f(3) assms(2) _ assms(1)] by (simp add: plain_text_def)
qed

lemma creds_members:
  fixes ssid psk host port udp_port seq
  defines "ms \<equiv> [(ascii ''cmd'', JString (ascii ''send_creds'')), (ascii ''seq'', JInt seq), (ascii ''ssid'', JString ssid),
      (ascii ''psk'', JString psk), (ascii ''host'', JString host), (ascii ''port'', JInt port),
      (ascii ''udp_port'', JInt udp_port)]"
  shows "member_of ms ''cmd'' = Some (JString (ascii ''send_creds''))" "member_of ms ''seq'' = Some (JInt seq)"
    "member_of ms ''ssid'' = Some (JString ssid)" "member_of ms ''psk'' = Some (JString psk)"
    "member_of ms ''host'' = Some (JString host)" "member_of ms ''port'' = Some (JInt port)"
    "member_of ms ''udp_port'' = Some (JInt udp_port)"
  unfolding ms_def member_of_def by (simp_all add: names_plain cstr_no_zero) (simp_all add: ascii_def tolower_def)

text \<open>
  C9. Credentials sent as JSON arrive: the text that cJSON prints for a \<open>send_creds\<close> command with any network
  name, password and host without a bar, followed by a bar, the HMAC and a line feed and cut into any
  writes, leaves these credentials in the session (cut to the sizes of its fields), with the ports and a
  fresh nonce; the parser, the lookup of the members, the receive buffer and the command handler compose.
\<close>

theorem provisioning_json_arrives:
  assumes b: "session_ok (b_session b)" "b_rx_queue b = Some (ms @ [m @ [10]])" "b_rx_len b = 0" "b_rx_buffer b = Some buf0"
      "length buf0 = RX_BUF_SIZE"
    and H: "hooks_good H"
    and ok: "json_ok (creds_json ssid psk host port udp_port seq)" "0x7C \<notin> set ssid \<union> set psk \<union> set host"
    and t: "json_text False 0 (tree None (creds_json ssid psk host port udp_port seq)) = Some t"
      "concat ms @ m = t @ 0x7C # mac" "plain_text mac" "length (concat ms @ m) + 1 < RX_BUF_SIZE - 1"
  shows "\<exists>b'. json_turns x d (cjson_commands H) now rnd (Suc (length ms)) b n = Inr (b', n, []) \<and>
    (let s = b_session b' in cstr (ps_temp_ssid s) = take 63 ssid \<and> cstr (ps_temp_psk s) = take 63 psk \<and>
       cstr (ps_temp_host s) = take 127 host \<and> ps_temp_port s = word_of_int port \<and>
       ps_temp_udp_port s = word_of_int udp_port \<and> ps_nonce_valid s)"
proof -
  note tx = creds_text [OF t(1) ok]
  have h: "holding b []" using b(3-5) by (simp add: holding_def)
  have p: "plain_text (concat ms @ m)" using tx(2) t(2,3) by (auto simp: plain_text_def)
  have "split_line (concat ms @ m) = (t, Some mac)"
    using tx(1) unfolding t(2) by (auto simp: split_line_def takeWhile_append dropWhile_append)
  then obtain buf buf' where turns: "json_turns x d (cjson_commands H) now rnd (Suc (length ms)) b n =
      bindE (process_json_command x d (cjson_commands H) now rnd t (Some mac)
        (b\<lparr>b_rx_queue := Some [], b_rx_buffer := Some buf, b_rx_len := length (concat ms @ m) + 1\<rparr>) n) (rx_emptied buf')"
    using json_turns_line [OF b(2) h, of x d "cjson_commands H" now rnd n] p t(4) by (auto simp del: json_turns.simps)
  let ?b = "b\<lparr>b_rx_queue := Some [], b_rx_buffer := Some buf, b_rx_len := length (concat ms @ m) + 1\<rparr>"
  obtain obj where obj: "cjson_commands H t = Some obj"
    "\<And>k. c_string (ascii k) \<Longrightarrow> obj k = map_option view_of (member_of
      [(ascii ''cmd'', JString (ascii ''send_creds'')), (ascii ''seq'', JInt seq), (ascii ''ssid'', JString ssid),
       (ascii ''psk'', JString psk), (ascii ''host'', JString host), (ascii ''port'', JInt port),
       (ascii ''udp_port'', JInt udp_port)] k)"
    using commands_of_text [OF ok(1) [unfolded creds_json_def] H t(1) [unfolded creds_json_def]] by blast
  note mem = obj(2) [OF names_plain(1)] obj(2) [OF names_plain(2)] obj(2) [OF names_plain(3)] obj(2) [OF names_plain(4)]
    obj(2) [OF names_plain(5)] obj(2) [OF names_plain(6)] obj(2) [OF names_plain(7)]
  note mem' = mem [unfolded creds_members option.map]
  have cs: "c_string ssid" "c_string psk" "c_string host" using ok(1) by (simp_all add: creds_json_def)
  have "session_ok (b_session ?b)" using b(1) by simp
  from creds_command [OF this cs mem'(3-7)] obtain b' where b':
    "cmd_send_creds x rnd obj (word_of_int seq) ?b = Inr b'"
    "let s = b_session b' in cstr (ps_temp_ssid s) = take 63 ssid \<and> cstr (ps_temp_psk s) = take 63 psk \<and>
       cstr (ps_temp_host s) = take 127 host \<and> ps_temp_port s = word_of_int port \<and>
       ps_temp_udp_port s = word_of_int udp_port \<and> ps_nonce_valid s" by blast
  have "process_json_command x d (cjson_commands H) now rnd t (Some mac) ?b n = Inr (b', n, [])"
    using obj(1) mem'(1,2) b'(1)
    by (simp add: process_json_command_def verify_payload_hmac_def run_send_creds with_nvs_def Let_def)
  then have "json_turns x d (cjson_commands H) now rnd (Suc (length ms)) b n =
      Inr (b'\<lparr>b_rx_buffer := Some buf', b_rx_len := 0\<rparr>, n, [])"
    unfolding turns by (simp add: rx_emptied_def)
  then show ?thesis using b'(2) by simp
qed

definition creds0 :: json where
  "creds0 = creds_json [0x61] [0x62] [0x63] 443 47808 1"

lemma length_quoted: "length (quoted (Some s)) \<le> 2 + 6 * length s"
proof -
  have "length (escape_text c) \<le> 6" for c by (simp add: escape_text_def)
  then have "length (concat (map escape_text s)) \<le> 6 * length s" for s
    by (induction s) (auto intro: add_le_mono)
  from this [of "cstr s"] have "length (concat (map escape_text (cstr s))) \<le> 6 * length s"
    using length_takeWhile_le [of "\<lambda>c. c \<noteq> 0" s] by (simp add: cstr_def)
  then show ?thesis by (simp add: quoted_def)
qed

lemma creds0_text:
  "\<exists>t. json_text False 0 (tree None creds0) = Some t \<and> length t \<le> 1000"
proof -
  have i: "int_range 443" "int_range 47808" "int_range 1" by (simp_all add: int_range_def INT_MAX_def INT_MIN_def)
  have l: "length (dec_int 443) \<le> 11" "length (dec_int 47808) \<le> 11" "length (dec_int 1) \<le> 11"
    using i by (simp_all add: length_dec_int)
  note qs = length_quoted [of "ascii ''cmd''"] length_quoted [of "ascii ''send_creds''"] length_quoted [of "ascii ''seq''"] length_quoted [of "ascii ''ssid''"]
    length_quoted [of "ascii ''psk''"] length_quoted [of "ascii ''host''"] length_quoted [of "ascii ''port''"] length_quoted [of "ascii ''udp_port''"]
    length_quoted [of "[0x61]"] length_quoted [of "[0x62]"] length_quoted [of "[0x63]"]
  show ?thesis
    unfolding creds0_def creds_json_def
    using i l qs
    by (simp add: text_simps CJSON_NESTING_LIMIT_def open_text_def tabs_text_def colon_text_def end_text_def
        del: tree.simps json_text.simps)
qed

theorem provisioning_json_arrives_witness:
  "\<exists>t b'. json_text False 0 (tree None creds0) = Some t \<and>
    json_turns lib0 map_driver (cjson_commands hooks0) 0 0 2
      ((snd (ykp_ble_provision_start lib0 alloc0 ble_boot))\<lparr>b_rx_queue := Some [t, [0x7C, 0x41, 10]],
         b_rx_buffer := Some (replicate RX_BUF_SIZE 0), b_rx_len := 0\<rparr>) nvs0 = Inr (b', nvs0, []) \<and>
    cstr (ps_temp_psk (b_session b')) = [0x62]"
proof -
  let ?b = "\<lambda>t. (snd (ykp_ble_provision_start lib0 alloc0 ble_boot))\<lparr>b_rx_queue := Some [t, [0x7C, 0x41, 10]],
         b_rx_buffer := Some (replicate RX_BUF_SIZE 0), b_rx_len := 0\<rparr>"
  obtain t where t: "json_text False 0 (tree None creds0) = Some t" "length t \<le> 1000" using creds0_text by blast
  have ok: "json_ok creds0"
    using names_plain by (simp add: creds0_def creds_json_def int_range_def INT_MAX_def INT_MIN_def)
  have p: "plain_text [0x41]" by (simp add: plain_text_def)
  have b: "session_ok (b_session (?b t))" using ble_ok_session [OF started0_ok] by simp
  have h: "hooks_good hooks0" by (simp add: hooks0_def hooks_good_def)
  have l: "length (concat [t] @ [0x7C, 0x41]) + 1 < RX_BUF_SIZE - 1" using t(2) by (simp add: RX_BUF_SIZE_def)
  have q: "b_rx_queue (?b t) = Some ([t] @ [[0x7C, 0x41] @ [10]])" "concat [t] @ [0x7C, 0x41] = t @ 0x7C # [0x41]"
    "b_rx_len (?b t) = 0" "b_rx_buffer (?b t) = Some (replicate RX_BUF_SIZE 0)" "length (replicate RX_BUF_SIZE (0 :: u8)) = RX_BUF_SIZE"
    by simp_all
  have e: "Suc (length [t]) = 2" "word_of_int 443 = (443 :: u16)" by simp_all
  have n: "0x7C \<notin> set [0x61 :: u8] \<union> set [0x62] \<union> set [0x63]" by simp
  from provisioning_json_arrives [OF b q(1,3,4,5) h ok [unfolded creds0_def] n t(1) [unfolded creds0_def] q(2) p l,
      of lib0 map_driver 0 0 nvs0, unfolded e Let_def]
  show ?thesis using t(1) by (auto simp del: json_turns.simps tree.simps json_text.simps)
qed

section \<open>A bar inside a string\<close>

lemma member_avoids:
  assumes "foreign a" "\<not> a < 32" "json_ok j" "c_string s" "a \<notin> set s" "\<forall>u \<in> strings_of j. a \<notin> set u"
    "json_text False 1 (tree (Some s) j) \<noteq> None"
  shows "a \<notin> set (member_text (s, j))"
proof -
  obtain y where y: "json_text False 1 (tree (Some s) j) = Some y" using assms(7) by auto
  have "a \<notin> set y" using text_avoids [OF assms(1,3) _ y] assms(6) by blast
  then show ?thesis using y quoted_foreign [OF assms(1,4)] assms(5) foreign_syntax(4) [OF assms(1)]
    by (auto simp: member_text_def)
qed

lemma cut_at_bar:
  assumes t: "json_text False 0 (tree None (JObject (ms1 @ (k, JString s) # ms2))) = Some t"
    and ok: "json_ok (JObject (ms1 @ (k, JString s) # ms2))" "0x7C \<in> set s" "0x7C \<notin> set k"
      "\<forall>(u, j) \<in> set ms1. 0x7C \<notin> set u \<and> (\<forall>v \<in> strings_of j. 0x7C \<notin> set v)"
    and H: "hooks_good H"
  shows "cjson_commands H (takeWhile (\<lambda>c. c \<noteq> 0x7C) t) = None" "0x7C \<in> set t"
proof -
  obtain s1 s2 where s: "s = s1 @ 0x7C # s2" "0x7C \<notin> set s1" using ok(2) by (metis split_list_first)
  have f: "foreign 0x7C" "\<not> (0x7C :: u8) < 32" by (simp_all add: foreign_def)
  have cs: "c_string k" "c_string s" "c_string s1" using ok(1) s(1) by auto
  obtain e where e: "members_text False 1 (map (\<lambda>(s, j). tree (Some s) j) (ms1 @ (k, JString s) # ms2)) = Some e"
    "t = [0x7B] @ e @ [0x7D]"
    using t unfolding text_simps by (auto simp: cat2_Some_iff open_text_def tabs_text_def split: if_splits)
  obtain rest where rest: "e = concat (map (\<lambda>m. member_text m @ [0x2C]) ms1) @ member_text (k, JString s) @ rest"
    "\<forall>(s, j) \<in> set ms1. json_text False 1 (tree (Some s) j) \<noteq> None"
    using members_split [OF e(1)] by blast
  let ?p = "0x7B # concat (map (\<lambda>m. member_text m @ [0x2C]) ms1) @ quoted (Some k) @ [0x3A] @ 0x22 # concat (map escape_text s1)"
  have bar: "escape_text 0x7C = [0x7C]" by (simp add: escape_text_def)
  have tt: "t = ?p @ 0x7C # concat (map escape_text s2) @ [0x22] @ rest @ [0x7D]"
  proof -
    have "concat (map escape_text s) = concat (map escape_text s1) @ 0x7C # concat (map escape_text s2)"
      by (simp add: s(1) bar)
    then show ?thesis by (simp add: e(2) rest(1) member_text_string [OF cs(2)])
  qed
  have "0x7C \<notin> set (member_text m)" if m: "m \<in> set ms1" for m
  proof -
    obtain u j where u: "m = (u, j)" by fastforce
    show ?thesis unfolding u
      by (rule member_avoids [OF f]) (use ok(1,4) rest(2) m u in auto)
  qed
  moreover have "0x7C \<notin> set (escape_text c)" if "c \<in> set s1" for c
    by (rule escape_foreign [OF f(1)]) (use s(2) that in auto)
  ultimately have "0x7C \<notin> set ?p" using quoted_foreign [OF f(1) cs(1)] ok(3) by auto
  then have tw: "takeWhile (\<lambda>c. c \<noteq> 0x7C) t = ?p" unfolding tt by (rule takeWhile_first)
  have "c_string t" using c_string_text(1) [OF t] .
  then have cp: "c_string ?p" unfolding tt by simp
  have "\<forall>(s, j) \<in> set ms1. json_ok j \<and> c_string s \<and> json_text False 1 (tree (Some s) j) \<noteq> None"
    using ok(1) rest(2) by auto
  from parse_cut_text [OF this cs(1,3) H refl cp] obtain r where r: "cJSON_Parse ?p H = Some (Inr r)" "pr_item r = None" by blast
  show "cjson_commands H (takeWhile (\<lambda>c. c \<noteq> 0x7C) t) = None" unfolding tw cjson_commands_def r(1) by (simp add: r(2))
  show "0x7C \<in> set t" unfolding tt by simp
qed

text \<open>
  C14. A bar in a string loses the command: when the JSON text of a command has a bar in one of its strings, such
  as a Wi-Fi password, the line is split inside that string, the part in front of the bar does not
  parse, and the command is dropped without an answer: the session and the notification queue are
  unchanged and no task starts.
\<close>

theorem bar_in_string_dropped:
  assumes b: "b_rx_queue b = Some (ws @ [w @ [10]])" "b_rx_len b = 0" "b_rx_buffer b = Some buf0" "length buf0 = RX_BUF_SIZE"
    and H: "hooks_good H"
    and t: "json_text False 0 (tree None (JObject (ms1 @ (k, JString s) # ms2))) = Some t"
      "concat ws @ w = t @ 0x7C # mac" "plain_text mac" "length (concat ws @ w) + 1 < RX_BUF_SIZE - 1"
    and ok: "json_ok (JObject (ms1 @ (k, JString s) # ms2))" "0x7C \<in> set s" "0x7C \<notin> set k"
      "\<forall>(u, j) \<in> set ms1. 0x7C \<notin> set u \<and> (\<forall>v \<in> strings_of j. 0x7C \<notin> set v)"
  shows "\<exists>b'. json_turns x d (cjson_commands H) now rnd (Suc (length ws)) b n = Inr (b', n, []) \<and>
    b_session b' = b_session b \<and> b_notify_queue b' = b_notify_queue b \<and> b_rx_len b' = 0"
proof -
  have h: "holding b []" using b(2-4) by (simp add: holding_def)
  have f: "foreign 10" "foreign 0" "(10 :: u8) < 32" "(0 :: u8) < 32" by (simp_all add: foreign_def)
  have p: "plain_text (concat ws @ w)"
    using text_avoids [OF f(1) ok(1) _ t(1)] text_avoids [OF f(2) ok(1) _ t(1)] f(3,4) t(2,3)
    by (simp add: plain_text_def del: json_ok.simps tree.simps json_text.simps)
  have "fst (split_line (concat ws @ w)) = takeWhile (\<lambda>c. c \<noteq> 0x7C) t"
    unfolding t(2) split_line_def fst_conv using cut_at_bar(2) [OF t(1) ok H] by (simp add: takeWhile_append1 [of "0x7C"])
  then have "cjson_commands H (fst (split_line (concat ws @ w))) = None" using cut_at_bar(1) [OF t(1) ok H] by simp
  then show ?thesis
    using json_turns_line [OF b(1) h, of x d "cjson_commands H" now rnd n] p t(4)
    by (auto simp: process_json_command_def verify_payload_hmac_def rx_emptied_def simp del: json_turns.simps)
qed

theorem bar_in_string_dropped_witness:
  "\<exists>t b'. json_text False 0 (tree None (JObject ([(ascii ''cmd'', JString (ascii ''send_wifi''))] @
        (ascii ''psk'', JString [0x61, 0x7C, 0x62]) # []))) = Some t \<and>
    json_turns lib0 map_driver (cjson_commands hooks0) 0 0 2
      ((snd (ykp_ble_provision_start lib0 alloc0 ble_boot))\<lparr>b_rx_queue := Some [t, [0x7C, 0x41, 10]],
         b_rx_buffer := Some (replicate RX_BUF_SIZE 0), b_rx_len := 0\<rparr>) nvs0 = Inr (b', nvs0, []) \<and>
    b_session b' = b_session (snd (ykp_ble_provision_start lib0 alloc0 ble_boot))"
proof -
  let ?b = "\<lambda>t. (snd (ykp_ble_provision_start lib0 alloc0 ble_boot))\<lparr>b_rx_queue := Some [t, [0x7C, 0x41, 10]],
         b_rx_buffer := Some (replicate RX_BUF_SIZE 0), b_rx_len := 0\<rparr>"
  let ?j = "JObject ([(ascii ''cmd'', JString (ascii ''send_wifi''))] @ (ascii ''psk'', JString [0x61, 0x7C, 0x62]) # [])"
  have s: "c_string (ascii ''send_wifi'')" "c_string [0x61, 0x7C, 0x62]" by (simp_all add: ascii_def c_string_def)
  have ok: "json_ok ?j" using names_plain s by simp
  obtain t where t: "json_text False 0 (tree None ?j) = Some t" "length t \<le> 1000"
    using length_quoted [of "ascii ''cmd''"] length_quoted [of "ascii ''psk''"] length_quoted [of "ascii ''send_wifi''"]
      length_quoted [of "[0x61, 0x7C, 0x62]"]
    by (simp add: text_simps CJSON_NESTING_LIMIT_def open_text_def tabs_text_def colon_text_def end_text_def
        del: tree.simps json_text.simps)
  have h: "hooks_good hooks0" by (simp add: hooks0_def hooks_good_def)
  have q: "b_rx_queue (?b t) = Some ([t] @ [[0x7C, 0x41] @ [10]])" "b_rx_len (?b t) = 0"
    "b_rx_buffer (?b t) = Some (replicate RX_BUF_SIZE 0)" "length (replicate RX_BUF_SIZE (0 :: u8)) = RX_BUF_SIZE"
    by simp_all
  have w: "concat [t] @ [0x7C, 0x41] = t @ 0x7C # [0x41]" "plain_text [0x41]" by (simp_all add: plain_text_def)
  have l: "length (concat [t] @ [0x7C, 0x41]) + 1 < RX_BUF_SIZE - 1" using t(2) by (simp add: RX_BUF_SIZE_def)
  have n: "0x7C \<in> set [0x61, 0x7C, 0x62 :: u8]" "0x7C \<notin> set (ascii ''psk'')" by (simp_all add: ascii_def)
  have m: "\<forall>(u, j) \<in> set [(ascii ''cmd'', JString (ascii ''send_wifi''))]. 0x7C \<notin> set u \<and> (\<forall>v \<in> strings_of j. 0x7C \<notin> set v)"
    by (simp add: ascii_def)
  have e: "Suc (length [t]) = 2" by simp
  from bar_in_string_dropped [OF q h t(1) w l ok n m, of lib0 map_driver 0 0 nvs0, unfolded e]
  show ?thesis using t(1) by (auto simp del: json_turns.simps tree.simps json_text.simps)
qed

end
