(* ===== verification/Ws_Config.thy ===== *)
theory Ws_Config
  imports Allocator Cstring
begin

text \<open>
  The configuration of the vendored WebSocket client
  (\<open>managed_components/espressif__esp_websocket_client/esp_websocket_client.c\<close>): the storage it copies a program's
  configuration into, the URI, headers, and the setters. The URL parser of \<open>http_parser\<close> and the base64 encoder are
  parameters. A string of the storage is a block of its own; the certificates and the task's name are the caller's. The build
  has neither dynamic buffers nor a separate lock for sending (both options are off by default).
\<close>

section \<open>Results and settings\<close>

datatype esp_err = ESP_OK | ESP_FAIL | ESP_ERR_NO_MEM | ESP_ERR_INVALID_ARG | ESP_ERR_INVALID_STATE

definition WEBSOCKET_TCP_DEFAULT_PORT :: int where "WEBSOCKET_TCP_DEFAULT_PORT = 80"
definition WEBSOCKET_SSL_DEFAULT_PORT :: int where "WEBSOCKET_SSL_DEFAULT_PORT = 443"
definition WEBSOCKET_BUFFER_SIZE_BYTE :: int where "WEBSOCKET_BUFFER_SIZE_BYTE = 1024"
definition WEBSOCKET_RECONNECT_TIMEOUT_MS :: int where "WEBSOCKET_RECONNECT_TIMEOUT_MS = 10 * 1000"
definition tskNO_AFFINITY :: int where "tskNO_AFFINITY = 0x7FFFFFFF"
definition WEBSOCKET_TASK_CORE_ID :: int where "WEBSOCKET_TASK_CORE_ID = tskNO_AFFINITY"
definition WEBSOCKET_TASK_PRIORITY :: int where "WEBSOCKET_TASK_PRIORITY = 5"
definition WEBSOCKET_TASK_STACK :: int where "WEBSOCKET_TASK_STACK = 4 * 1024"
definition WEBSOCKET_NETWORK_TIMEOUT_MS :: int where "WEBSOCKET_NETWORK_TIMEOUT_MS = 10 * 1000"
definition WEBSOCKET_PING_INTERVAL_SEC :: u32 where "WEBSOCKET_PING_INTERVAL_SEC = 10"
definition WEBSOCKET_PINGPONG_TIMEOUT_SEC :: int where "WEBSOCKET_PINGPONG_TIMEOUT_SEC = 120"
definition WEBSOCKET_KEEP_ALIVE_IDLE :: int where "WEBSOCKET_KEEP_ALIVE_IDLE = 5"
definition WEBSOCKET_KEEP_ALIVE_INTERVAL :: int where "WEBSOCKET_KEEP_ALIVE_INTERVAL = 5"
definition WEBSOCKET_KEEP_ALIVE_COUNT :: int where "WEBSOCKET_KEEP_ALIVE_COUNT = 3"

datatype ws_transport_kind = WEBSOCKET_TRANSPORT_UNKNOWN | WEBSOCKET_TRANSPORT_OVER_TCP | WEBSOCKET_TRANSPORT_OVER_SSL

text \<open>\<open>esp_websocket_client_config_t\<close>: what a program asks for.\<close>

record ws_config =
  wc_uri :: "bytes option"
  wc_host :: "bytes option"
  wc_port :: int
  wc_username :: "bytes option"
  wc_password :: "bytes option"
  wc_path :: "bytes option"
  wc_disable_auto_reconnect :: bool
  wc_enable_close_reconnect :: bool
  wc_task_core_id_set :: bool
  wc_task_core_id :: int
  wc_task_prio :: int
  wc_task_name :: "bytes option"
  wc_task_stack :: int
  wc_buffer_size :: int
  wc_cert_pem :: "bytes option"
  wc_cert_len :: nat
  wc_client_cert :: "bytes option"
  wc_client_cert_len :: nat
  wc_client_key :: "bytes option"
  wc_client_key_len :: nat
  wc_transport :: ws_transport_kind
  wc_subprotocol :: "bytes option"
  wc_user_agent :: "bytes option"
  wc_headers :: "bytes option"
  wc_pingpong_timeout_sec :: int
  wc_disable_pingpong_discon :: bool
  wc_use_global_ca_store :: bool
  wc_crt_bundle_attach :: bool
  wc_cert_common_name :: "bytes option"
  wc_skip_cert_common_name_check :: bool
  wc_keep_alive_enable :: bool
  wc_keep_alive_idle :: int
  wc_keep_alive_interval :: int
  wc_keep_alive_count :: int
  wc_reconnect_timeout_ms :: int
  wc_network_timeout_ms :: int
  wc_ping_interval_sec :: u32
  wc_if_name :: bool
  wc_ext_transport :: bool

text \<open>\<open>websocket_config_storage_t\<close>: the client's own copy.\<close>

record ws_storage =
  cs_task_core_id :: int
  cs_task_name :: "bytes option"
  cs_task_stack :: int
  cs_task_prio :: int
  cs_uri :: "bytes option"
  cs_host :: "bytes option"
  cs_path :: "bytes option"
  cs_scheme :: "bytes option"
  cs_username :: "bytes option"
  cs_password :: "bytes option"
  cs_auth :: "bytes option"
  cs_port :: int
  cs_auto_reconnect :: bool
  cs_close_reconnect :: bool
  cs_network_timeout_ms :: int
  cs_subprotocol :: "bytes option"
  cs_user_agent :: "bytes option"
  cs_headers :: "bytes option"
  cs_pingpong_timeout_sec :: int
  cs_ping_interval_sec :: u32
  cs_cert :: "bytes option"
  cs_cert_len :: nat
  cs_client_cert :: "bytes option"
  cs_client_cert_len :: nat
  cs_client_key :: "bytes option"
  cs_client_key_len :: nat
  cs_use_global_ca_store :: bool
  cs_skip_cert_common_name_check :: bool
  cs_cert_common_name :: "bytes option"
  cs_crt_bundle_attach :: bool
  cs_ext_transport :: bool

definition empty_storage :: ws_storage where
  "empty_storage = \<lparr>cs_task_core_id = 0, cs_task_name = None, cs_task_stack = 0, cs_task_prio = 0, cs_uri = None, cs_host = None,
     cs_path = None, cs_scheme = None, cs_username = None, cs_password = None, cs_auth = None, cs_port = 0,
     cs_auto_reconnect = False, cs_close_reconnect = False, cs_network_timeout_ms = 0, cs_subprotocol = None,
     cs_user_agent = None, cs_headers = None, cs_pingpong_timeout_sec = 0, cs_ping_interval_sec = 0, cs_cert = None,
     cs_cert_len = 0, cs_client_cert = None, cs_client_cert_len = 0, cs_client_key = None, cs_client_key_len = 0,
     cs_use_global_ca_store = False, cs_skip_cert_common_name_check = False, cs_cert_common_name = None,
     cs_crt_bundle_attach = False, cs_ext_transport = False\<rparr>"

section \<open>Copying a configuration\<close>

definition strdup :: "bytes \<Rightarrow> hooks \<Rightarrow> bytes option \<times> hooks" where
  "strdup s H = (case hook_allocate H of (ok, H) \<Rightarrow> (if ok then Some s else None, H))"

definition release :: "'a option \<Rightarrow> hooks \<Rightarrow> hooks" where
  "release p H = (if p = None then H else hook_deallocate H)"

text \<open>
  A step of the configuration: it works on the storage and says whether the memory sufficed; the next step
  is made only then (\<open>ESP_WS_CLIENT_MEM_CHECK\<close>).
\<close>

type_synonym cfg_step = "ws_storage \<Rightarrow> hooks \<Rightarrow> bool \<times> ws_storage \<times> hooks"

definition cfg_then :: "cfg_step \<Rightarrow> cfg_step \<Rightarrow> cfg_step" where
  "cfg_then f g cs H = (case f cs H of (ok, cs, H) \<Rightarrow> if ok then g cs H else (False, cs, H))"

definition cfg_set :: "(ws_storage \<Rightarrow> ws_storage) \<Rightarrow> cfg_step" where
  "cfg_set f cs H = (True, f cs, H)"

text \<open>
  A string of the configuration, if given: the old copy is freed, a new one made. \<open>fld\<close> and \<open>put\<close> read and write the
  field of the storage.
\<close>

definition cfg_string ::
  "bool \<Rightarrow> (ws_storage \<Rightarrow> bytes option) \<Rightarrow> (bytes option \<Rightarrow> ws_storage \<Rightarrow> ws_storage) \<Rightarrow> bytes option \<Rightarrow> cfg_step" where
  "cfg_string free_old fld put new cs H =
     (case new of
        None \<Rightarrow> (True, cs, H)
      | Some s \<Rightarrow>
          let H = (if free_old then release (fld cs) H else H);
              (copy, H) = strdup s H
          in (copy \<noteq> None, put copy cs, H))"

definition http_auth_basic :: "(bytes \<Rightarrow> bytes) \<Rightarrow> bytes \<Rightarrow> bytes \<Rightarrow> hooks \<Rightarrow> bytes option \<times> hooks" where
  "http_auth_basic base64 username password H =
     (case strdup (username @ [0x3A] @ password) H of
        (None, H) \<Rightarrow> (None, H)
      | (Some user_info, H) \<Rightarrow>
          (case strdup (ascii ''Basic '' @ base64 user_info) H of
             (digest, H) \<Rightarrow> (digest, hook_deallocate H)))"

definition cfg_auth :: "(bytes \<Rightarrow> bytes) \<Rightarrow> cfg_step" where
  "cfg_auth base64 cs H =
     (case (cs_username cs, cs_password cs) of
        (Some u, Some p) \<Rightarrow>
          (case http_auth_basic base64 u p (release (cs_auth cs) H) of
             (auth, H) \<Rightarrow> (auth \<noteq> None, cs\<lparr>cs_auth := auth\<rparr>, H))
      | _ \<Rightarrow> (True, cs, H))"

definition cfg_task :: "ws_config \<Rightarrow> ws_storage \<Rightarrow> ws_storage" where
  "cfg_task config cs = cs\<lparr>
     cs_task_core_id := (if wc_task_core_id_set config then wc_task_core_id config else WEBSOCKET_TASK_CORE_ID),
     cs_task_prio := (if wc_task_prio config \<le> 0 then WEBSOCKET_TASK_PRIORITY else wc_task_prio config),
     cs_task_name := wc_task_name config,
     cs_task_stack := (if wc_task_stack config = 0 then WEBSOCKET_TASK_STACK else wc_task_stack config)\<rparr>"

definition cfg_timing :: "ws_config \<Rightarrow> ws_storage \<Rightarrow> ws_storage" where
  "cfg_timing config cs = cs\<lparr>
     cs_auto_reconnect := \<not> wc_disable_auto_reconnect config,
     cs_close_reconnect := wc_enable_close_reconnect config,
     cs_pingpong_timeout_sec :=
       (if wc_disable_pingpong_discon config then 0
        else if wc_pingpong_timeout_sec config \<noteq> 0 then wc_pingpong_timeout_sec config
        else WEBSOCKET_PINGPONG_TIMEOUT_SEC),
     cs_network_timeout_ms :=
       (if wc_network_timeout_ms config \<le> 0 then WEBSOCKET_NETWORK_TIMEOUT_MS else wc_network_timeout_ms config),
     cs_ping_interval_sec :=
       (if wc_ping_interval_sec config = 0 then WEBSOCKET_PING_INTERVAL_SEC else wc_ping_interval_sec config)\<rparr>"

definition set_config_steps :: "(bytes \<Rightarrow> bytes) \<Rightarrow> ws_config \<Rightarrow> cfg_step" where
  "set_config_steps base64 config =
     cfg_then (cfg_set (cfg_task config))
    (cfg_then (cfg_string False cs_host (\<lambda>v cs. cs\<lparr>cs_host := v\<rparr>) (wc_host config))
    (cfg_then (cfg_set (\<lambda>cs. if wc_port config \<noteq> 0 then cs\<lparr>cs_port := wc_port config\<rparr> else cs))
    (cfg_then (cfg_string True cs_username (\<lambda>v cs. cs\<lparr>cs_username := v\<rparr>) (wc_username config))
    (cfg_then (cfg_string True cs_password (\<lambda>v cs. cs\<lparr>cs_password := v\<rparr>) (wc_password config))
    (cfg_then (cfg_auth base64)
    (cfg_then (cfg_string True cs_uri (\<lambda>v cs. cs\<lparr>cs_uri := v\<rparr>) (wc_uri config))
    (cfg_then (cfg_string True cs_path (\<lambda>v cs. cs\<lparr>cs_path := v\<rparr>) (wc_path config))
    (cfg_then (cfg_string True cs_subprotocol (\<lambda>v cs. cs\<lparr>cs_subprotocol := v\<rparr>) (wc_subprotocol config))
    (cfg_then (cfg_string True cs_user_agent (\<lambda>v cs. cs\<lparr>cs_user_agent := v\<rparr>) (wc_user_agent config))
    (cfg_then (cfg_string True cs_headers (\<lambda>v cs. cs\<lparr>cs_headers := v\<rparr>) (wc_headers config))
     (cfg_set (cfg_timing config))))))))))))"

definition esp_websocket_client_set_config ::
  "(bytes \<Rightarrow> bytes) \<Rightarrow> ws_config \<Rightarrow> ws_storage \<Rightarrow> hooks \<Rightarrow> esp_err \<times> ws_storage \<times> hooks" where
  "esp_websocket_client_set_config base64 config cs H =
     (case set_config_steps base64 config cs H of (ok, cs, H) \<Rightarrow> (if ok then ESP_OK else ESP_ERR_NO_MEM, cs, H))"

section \<open>The URI\<close>

text \<open>What \<open>http_parser_parse_url\<close> finds: offset and length of each field; a missing field has length and offset 0.\<close>

record url =
  u_schema :: "nat \<times> nat"
  u_host :: "nat \<times> nat"
  u_path :: "nat \<times> nat"
  u_query :: "nat \<times> nat"
  u_userinfo :: "nat \<times> nat"
  u_port_off :: nat

definition part :: "bytes \<Rightarrow> nat \<times> nat \<Rightarrow> bytes" where
  "part uri f = take (snd f) (drop (fst f) uri)"

text \<open>\<open>strtol\<close> in base 10 on a port, which the parser has found to begin with a digit.\<close>

definition port_number :: "bytes \<Rightarrow> int" where
  "port_number s = foldl (\<lambda>n c. 10 * n + (uint c - 0x30)) 0 (takeWhile (\<lambda>c. 0x30 \<le> c \<and> c \<le> 0x39) s)"

definition uri_path :: "bytes \<Rightarrow> url \<Rightarrow> bytes option" where
  "uri_path uri u =
     (if snd (u_path u) = 0 \<and> snd (u_query u) = 0 then None
      else if snd (u_query u) = 0 then Some (part uri (u_path u))
      else if snd (u_path u) = 0 then Some (ascii ''/?'' @ part uri (u_query u))
      else Some (part uri (u_path u) @ ascii ''?'' @ part uri (u_query u)))"

definition field_text :: "bytes \<Rightarrow> nat \<times> nat \<Rightarrow> bytes option" where
  "field_text uri f = (if snd f = 0 then None else Some (part uri f))"

text \<open>
  The user information: a copy, cut at the first colon. When the copy of the password or of the name fails, the
  function returns without freeing it.
\<close>

definition cfg_userinfo :: "bytes option \<Rightarrow> cfg_step" where
  "cfg_userinfo info cs H =
     (case info of
        None \<Rightarrow> (True, cs, H)
      | Some s \<Rightarrow>
          (case strdup s H of
             (None, H) \<Rightarrow> (False, cs, H)
           | (Some user_info, H) \<Rightarrow>
               cfg_then
                 (cfg_string True cs_password (\<lambda>v cs. cs\<lparr>cs_password := v\<rparr>)
                   (map_option (\<lambda>k. drop (k + 1) user_info) (strchr user_info 0x3A)))
                 (cfg_then
                   (cfg_string True cs_username (\<lambda>v cs. cs\<lparr>cs_username := v\<rparr>) (Some (takeWhile (\<lambda>c. c \<noteq> 0x3A) user_info)))
                   (\<lambda>cs H. (True, cs, hook_deallocate H))) cs H))"

definition set_uri_steps :: "bytes \<Rightarrow> url \<Rightarrow> cfg_step" where
  "set_uri_steps uri u =
     cfg_then (cfg_string True cs_scheme (\<lambda>v cs. cs\<lparr>cs_scheme := v\<rparr>) (field_text uri (u_schema u)))
    (cfg_then (cfg_string True cs_host (\<lambda>v cs. cs\<lparr>cs_host := v\<rparr>) (field_text uri (u_host u)))
    (cfg_then (cfg_string True cs_path (\<lambda>v cs. cs\<lparr>cs_path := v\<rparr>) (uri_path uri u))
    (cfg_then (cfg_set (\<lambda>cs. if u_port_off u \<noteq> 0 then cs\<lparr>cs_port := port_number (drop (u_port_off u) uri)\<rparr> else cs))
     (cfg_userinfo (field_text uri (u_userinfo u))))))"

definition esp_websocket_client_set_uri ::
  "(bytes \<Rightarrow> url option) \<Rightarrow> bytes \<Rightarrow> ws_storage \<Rightarrow> hooks \<Rightarrow> esp_err \<times> ws_storage \<times> hooks" where
  "esp_websocket_client_set_uri parse uri cs H =
     (case parse uri of
        None \<Rightarrow> (ESP_FAIL, cs, H)
      | Some u \<Rightarrow> (case set_uri_steps uri u cs H of (ok, cs, H) \<Rightarrow> (if ok then ESP_OK else ESP_ERR_NO_MEM, cs, H)))"

section \<open>Headers\<close>

definition esp_websocket_client_append_header ::
  "bytes option \<Rightarrow> bytes option \<Rightarrow> ws_storage \<Rightarrow> hooks \<Rightarrow> esp_err \<times> ws_storage \<times> hooks" where
  "esp_websocket_client_append_header key value cs H =
     (case (key, value) of
        (Some key, Some value) \<Rightarrow>
          let len = length key + length value + 5;
              line = snprintf len (key @ ascii '': '' @ value @ [0x0D, 0x0A])
          in (case hook_allocate H of (ok, H) \<Rightarrow>
                if \<not> ok then (ESP_ERR_NO_MEM, cs, H)
                else (case cs_headers cs of
                        None \<Rightarrow> (ESP_OK, cs\<lparr>cs_headers := Some line\<rparr>, H)
                      | Some old \<Rightarrow> (ESP_OK, cs\<lparr>cs_headers := Some (old @ line)\<rparr>, hook_deallocate H)))
      | _ \<Rightarrow> (ESP_ERR_INVALID_ARG, cs, H))"

end
