(* ===== verification/Ws_Client.thy ===== *)
theory Ws_Client
  imports Ws_Config
begin

text \<open>
  The state of the WebSocket client (\<open>esp_websocket_client.c\<close>), its making and destruction, errors, sending and
  receiving. The transport (\<open>esp_transport\<close>), the event loop and the kernel objects are parameters: what they return is an
  argument; what is sent to the server, and the events posted to the program, are the list of effects. What the client says
  in an error message is not part of the model, only whether there is memory for it.
\<close>

section \<open>State\<close>

datatype ws_state =
    WEBSOCKET_STATE_ERROR
  | WEBSOCKET_STATE_UNKNOW
  | WEBSOCKET_STATE_INIT
  | WEBSOCKET_STATE_CONNECTED
  | WEBSOCKET_STATE_WAIT_TIMEOUT
  | WEBSOCKET_STATE_CLOSING

fun state_number :: "ws_state \<Rightarrow> int" where
  "state_number WEBSOCKET_STATE_ERROR = - 1"
| "state_number WEBSOCKET_STATE_UNKNOW = 0"
| "state_number WEBSOCKET_STATE_INIT = 1"
| "state_number WEBSOCKET_STATE_CONNECTED = 2"
| "state_number WEBSOCKET_STATE_WAIT_TIMEOUT = 3"
| "state_number WEBSOCKET_STATE_CLOSING = 4"

datatype ws_error_type =
    WEBSOCKET_ERROR_TYPE_NONE
  | WEBSOCKET_ERROR_TYPE_TCP_TRANSPORT
  | WEBSOCKET_ERROR_TYPE_PONG_TIMEOUT
  | WEBSOCKET_ERROR_TYPE_HANDSHAKE
  | WEBSOCKET_ERROR_TYPE_SERVER_CLOSE

text \<open>The opcodes of RFC 6455 and the flag of the last fragment, as \<open>esp_transport_ws.h\<close> documents them.\<close>

definition OP_CONT :: u8 where "OP_CONT = 0x00"
definition OP_TEXT :: u8 where "OP_TEXT = 0x01"
definition OP_BINARY :: u8 where "OP_BINARY = 0x02"
definition OP_CLOSE :: u8 where "OP_CLOSE = 0x08"
definition OP_PING :: u8 where "OP_PING = 0x09"
definition OP_PONG :: u8 where "OP_PONG = 0x0A"
definition OP_FIN :: u8 where "OP_FIN = 0x80"
definition OP_NONE :: u8 where "OP_NONE = 0xFF"

lemmas ws_opcodes = OP_CONT_def OP_TEXT_def OP_BINARY_def OP_CLOSE_def OP_PING_def OP_PONG_def OP_FIN_def OP_NONE_def

datatype ws_event_id =
    EV_ERROR | EV_CONNECTED | EV_DISCONNECTED | EV_DATA | EV_CLOSED | EV_BEFORE_CONNECT | EV_BEGIN | EV_FINISH

text \<open>
  Effects: an event posted to the program with the data it carries (the fields \<open>op_code\<close>, \<open>payload_len\<close>,
  \<open>payload_offset\<close>, \<open>fin\<close> and the bytes), a frame written to the transport, the transport opened or closed.
\<close>

datatype ws_effect =
    Post ws_event_id u8 int int bool bytes
  | Frame u8 bytes
  | TransportConnect
  | TransportClose

record ws_client =
  wk_config :: "ws_storage option"
  wk_event_loop :: bool
  wk_if_name :: "unit option"
  wk_keep_alive :: "(int \<times> int \<times> int) option"
  wk_lock :: bool
  wk_transport :: bool
  wk_state :: ws_state
  wk_error_type :: ws_error_type
  wk_handshake_status :: int
  wk_reconnect_tick_ms :: u64
  wk_ping_tick_ms :: u64
  wk_pingpong_tick_ms :: u64
  wk_wait_timeout_ms :: int
  wk_run :: bool
  wk_wait_for_pong :: bool
  wk_selected_for_destroying :: bool
  wk_has_bits :: bool
  wk_stopped_bit :: bool
  wk_close_sent_bit :: bool
  wk_requested_stop_bit :: bool
  wk_errormsg :: "nat option"
  wk_rx_buffer :: "bytes option"
  wk_tx_buffer :: "bytes option"
  wk_buffer_size :: int
  wk_last_fin :: bool
  wk_last_opcode :: u8
  wk_payload_len :: int
  wk_payload_offset :: int

definition zero_client :: ws_client where
  "zero_client = \<lparr>wk_config = None, wk_event_loop = False, wk_if_name = None, wk_keep_alive = None, wk_lock = False,
     wk_transport = False, wk_state = WEBSOCKET_STATE_UNKNOW, wk_error_type = WEBSOCKET_ERROR_TYPE_NONE,
     wk_handshake_status = 0, wk_reconnect_tick_ms = 0, wk_ping_tick_ms = 0, wk_pingpong_tick_ms = 0, wk_wait_timeout_ms = 0,
     wk_run = False, wk_wait_for_pong = False, wk_selected_for_destroying = False, wk_has_bits = False, wk_stopped_bit = False,
     wk_close_sent_bit = False, wk_requested_stop_bit = False, wk_errormsg = None, wk_rx_buffer = None, wk_tx_buffer = None,
     wk_buffer_size = 0, wk_last_fin = False, wk_last_opcode = 0, wk_payload_len = 0, wk_payload_offset = 0\<rparr>"

section \<open>Destruction\<close>

definition esp_websocket_client_destroy_config :: "ws_client \<Rightarrow> hooks \<Rightarrow> ws_client \<times> hooks" where
  "esp_websocket_client_destroy_config client H =
     (case wk_config client of
        None \<Rightarrow> (client, H)
      | Some cs \<Rightarrow>
          (client\<lparr>wk_config := None\<rparr>,
           hook_deallocate
            (release (cs_headers cs) (release (cs_user_agent cs) (release (cs_subprotocol cs) (release (cs_auth cs)
            (release (cs_password cs) (release (cs_username cs) (release (cs_scheme cs) (release (cs_path cs)
            (release (cs_uri cs) (release (cs_host cs) H))))))))))))"

text \<open>The client itself is freed last; nothing of it remains.\<close>

definition destroy_and_free_resources :: "ws_client \<Rightarrow> hooks \<Rightarrow> hooks" where
  "destroy_and_free_resources client H =
     (let H = release (wk_if_name client) H;
          (client, H) = esp_websocket_client_destroy_config client H;
          H = release (wk_tx_buffer client) H;
          H = release (wk_rx_buffer client) H;
          H = release (wk_errormsg client) H
      in hook_deallocate H)"

section \<open>Making a client\<close>

text \<open>Whether the kernel makes the event loop, the lock and the event group.\<close>

record ws_kernel =
  kn_event_loop :: bool
  kn_lock :: bool
  kn_bits :: bool

definition ws_alloc :: "'a \<Rightarrow> hooks \<Rightarrow> 'a option \<times> hooks" where
  "ws_alloc x H = (case hook_allocate H of (ok, H) \<Rightarrow> (if ok then Some x else None, H))"

text \<open>
  The part of \<open>esp_websocket_client_init\<close> that can fail after the client exists, step by step: each step says whether to
  go on; the first that fails makes the caller destroy the client.
\<close>

type_synonym init_step = "ws_client \<Rightarrow> hooks \<Rightarrow> bool \<times> ws_client \<times> hooks"

definition init_then :: "init_step \<Rightarrow> init_step \<Rightarrow> init_step" where
  "init_then f g c H = (case f c H of (ok, c, H) \<Rightarrow> if ok then g c H else (False, c, H))"

definition init_if_name :: "ws_config \<Rightarrow> init_step" where
  "init_if_name config c H =
     (if wc_if_name config
      then (case ws_alloc () H of (p, H) \<Rightarrow> (p \<noteq> None, c\<lparr>wk_if_name := p\<rparr>, H))
      else (True, c, H))"

definition init_config :: "init_step" where
  "init_config c H = (case ws_alloc empty_storage H of (p, H) \<Rightarrow> (p \<noteq> None, c\<lparr>wk_config := p\<rparr>, H))"

definition on_config :: "cfg_step \<Rightarrow> init_step" where
  "on_config f c H =
     (case wk_config c of
        None \<Rightarrow> (False, c, H)
      | Some cs \<Rightarrow> (case f cs H of (ok, cs, H) \<Rightarrow> (ok, c\<lparr>wk_config := Some cs\<rparr>, H)))"

definition cfg_scheme :: "bytes \<Rightarrow> cfg_step" where
  "cfg_scheme s cs H = (case strdup s H of (v, H) \<Rightarrow> (v \<noteq> None, cs\<lparr>cs_scheme := v\<rparr>, H))"

definition transport_scheme :: "ws_config \<Rightarrow> cfg_step" where
  "transport_scheme config cs H =
     (case wc_transport config of
        WEBSOCKET_TRANSPORT_OVER_TCP \<Rightarrow> cfg_scheme (ascii ''ws'') cs H
      | WEBSOCKET_TRANSPORT_OVER_SSL \<Rightarrow> cfg_scheme (ascii ''wss'') cs H
      | WEBSOCKET_TRANSPORT_UNKNOWN \<Rightarrow> (True, cs, H))"

definition ssl_settings :: "ws_config \<Rightarrow> ws_storage \<Rightarrow> ws_storage" where
  "ssl_settings config cs = cs\<lparr>cs_use_global_ca_store := wc_use_global_ca_store config,
     cs_cert := wc_cert_pem config, cs_cert_len := wc_cert_len config,
     cs_client_cert := wc_client_cert config, cs_client_cert_len := wc_client_cert_len config,
     cs_client_key := wc_client_key config, cs_client_key_len := wc_client_key_len config,
     cs_skip_cert_common_name_check := wc_skip_cert_common_name_check config,
     cs_cert_common_name := wc_cert_common_name config,
     cs_crt_bundle_attach := wc_crt_bundle_attach config, cs_ext_transport := wc_ext_transport config\<rparr>"

definition uri_settings :: "(bytes \<Rightarrow> url option) \<Rightarrow> ws_config \<Rightarrow> cfg_step" where
  "uri_settings parse config cs H =
     (case wc_uri config of
        None \<Rightarrow> (True, cs, H)
      | Some uri \<Rightarrow> (case esp_websocket_client_set_uri parse uri cs H of (e, cs, H) \<Rightarrow> (e = ESP_OK, cs, H)))"

definition default_scheme :: "cfg_step" where
  "default_scheme cs H = (if cs_scheme cs = None then cfg_scheme (ascii ''ws'') cs H else (True, cs, H))"

definition init_buffers :: "int \<Rightarrow> init_step" where
  "init_buffers buffer_size c H =
     (case ws_alloc (new_block H (nat buffer_size)) H of
        (None, H) \<Rightarrow> (False, c\<lparr>wk_rx_buffer := None\<rparr>, H)
      | (rx, H) \<Rightarrow>
          (case ws_alloc (new_block H (nat buffer_size)) H of
             (tx, H) \<Rightarrow> (tx \<noteq> None, c\<lparr>wk_rx_buffer := rx, wk_tx_buffer := tx\<rparr>, H)))"

definition reconnect_wait :: "ws_config \<Rightarrow> int" where
  "reconnect_wait config =
     (if \<not> wc_disable_auto_reconnect config \<and> wc_reconnect_timeout_ms config \<le> 0 then WEBSOCKET_RECONNECT_TIMEOUT_MS
      else wc_reconnect_timeout_ms config)"

definition effective_buffer_size :: "ws_config \<Rightarrow> int" where
  "effective_buffer_size config = (if wc_buffer_size config \<le> 0 then WEBSOCKET_BUFFER_SIZE_BYTE else wc_buffer_size config)"

definition init_ticks :: "u64 \<Rightarrow> ws_client \<Rightarrow> ws_client" where
  "init_ticks now c = c\<lparr>wk_reconnect_tick_ms := now, wk_ping_tick_ms := now, wk_wait_for_pong := False,
     wk_selected_for_destroying := False, wk_errormsg := None\<rparr>"

definition keep_alive_settings :: "ws_config \<Rightarrow> (int \<times> int \<times> int) option" where
  "keep_alive_settings config =
     (if wc_keep_alive_enable config
      then Some (if wc_keep_alive_idle config = 0 then WEBSOCKET_KEEP_ALIVE_IDLE else wc_keep_alive_idle config,
                 if wc_keep_alive_interval config = 0 then WEBSOCKET_KEEP_ALIVE_INTERVAL else wc_keep_alive_interval config,
                 if wc_keep_alive_count config = 0 then WEBSOCKET_KEEP_ALIVE_COUNT else wc_keep_alive_count config)
      else None)"

definition init_steps ::
  "(bytes \<Rightarrow> url option) \<Rightarrow> (bytes \<Rightarrow> bytes) \<Rightarrow> ws_kernel \<Rightarrow> u64 \<Rightarrow> ws_config \<Rightarrow> init_step" where
  "init_steps parse base64 kn now config =
     init_then (init_if_name config)
    (init_then (\<lambda>c H. (kn_lock kn, c\<lparr>wk_lock := kn_lock kn\<rparr>, H))
    (init_then init_config
    (init_then (on_config (transport_scheme config))
    (init_then (\<lambda>c H. (\<not> (wc_cert_common_name config \<noteq> None \<and> wc_skip_cert_common_name_check config),
                       c\<lparr>wk_wait_timeout_ms := reconnect_wait config\<rparr>, H))
    (init_then (on_config (cfg_set (ssl_settings config)))
    (init_then (on_config (uri_settings parse config))
    (init_then (on_config (\<lambda>cs H. case esp_websocket_client_set_config base64 config cs H of (e, cs, H) \<Rightarrow> (e = ESP_OK, cs, H)))
    (init_then (on_config default_scheme)
    (init_then (\<lambda>c H. init_buffers (effective_buffer_size config) (init_ticks now c) H)
     (\<lambda>c H. (kn_bits kn, c\<lparr>wk_has_bits := kn_bits kn, wk_stopped_bit := kn_bits kn,
        wk_buffer_size := (if kn_bits kn then effective_buffer_size config else wk_buffer_size c)\<rparr>, H)))))))))))"

definition esp_websocket_client_init ::
  "(bytes \<Rightarrow> url option) \<Rightarrow> (bytes \<Rightarrow> bytes) \<Rightarrow> ws_kernel \<Rightarrow> u64 \<Rightarrow> ws_config \<Rightarrow> hooks \<Rightarrow> ws_client option \<times> hooks" where
  "esp_websocket_client_init parse base64 kn now config H =
     (case ws_alloc zero_client H of
        (None, H) \<Rightarrow> (None, H)
      | (Some c, H) \<Rightarrow>
          if \<not> kn_event_loop kn then (None, hook_deallocate H)
          else (case init_steps parse base64 kn now config
                  (c\<lparr>wk_event_loop := True, wk_keep_alive := keep_alive_settings config\<rparr>) H of
                  (True, c, H) \<Rightarrow> (Some c, H)
                | (False, c, H) \<Rightarrow> (None, destroy_and_free_resources c H)))"

section \<open>Events and errors\<close>

definition dispatch :: "ws_event_id \<Rightarrow> bytes \<Rightarrow> ws_client \<Rightarrow> ws_effect" where
  "dispatch event data c = Post event (wk_last_opcode c) (wk_payload_len c) (wk_payload_offset c) (wk_last_fin c) data"

text \<open>
  The lock is held. The transport is closed; the client waits for its next attempt or stops. A message of an earlier error is freed.
\<close>

definition auto_reconnect :: "ws_client \<Rightarrow> bool" where
  "auto_reconnect c = (case wk_config c of None \<Rightarrow> False | Some cs \<Rightarrow> cs_auto_reconnect cs)"

definition abort_connection :: "u64 \<Rightarrow> ws_error_type \<Rightarrow> ws_client \<Rightarrow> hooks \<Rightarrow> esp_err \<times> ws_client \<times> hooks \<times> ws_effect list" where
  "abort_connection now error_type c H =
     (if state_number (wk_state c) < state_number WEBSOCKET_STATE_INIT then (ESP_FAIL, c, H, [])
      else
        let (c, effects) =
          (if wk_state c \<in> {WEBSOCKET_STATE_CLOSING, WEBSOCKET_STATE_UNKNOW, WEBSOCKET_STATE_WAIT_TIMEOUT} then (c, [])
           else
             let c = (if \<not> auto_reconnect c then c\<lparr>wk_run := False, wk_state := WEBSOCKET_STATE_UNKNOW\<rparr>
                      else c\<lparr>wk_reconnect_tick_ms := now, wk_state := WEBSOCKET_STATE_WAIT_TIMEOUT\<rparr>);
                 c = c\<lparr>wk_error_type := error_type\<rparr>
             in (c, [TransportClose, dispatch EV_DISCONNECTED [] c]))
        in (ESP_OK, c\<lparr>wk_errormsg := None\<rparr>, release (wk_errormsg c) H, effects))"

text \<open>A message of \<open>needed\<close> bytes with its terminator; the buffer grows when it is too small for it.\<close>

definition client_error :: "nat \<Rightarrow> ws_client \<Rightarrow> hooks \<Rightarrow> esp_err \<times> ws_client \<times> hooks \<times> ws_effect list" where
  "client_error needed c H =
     (if (case wk_errormsg c of None \<Rightarrow> 0 | Some n \<Rightarrow> n) < needed
      then (case ws_alloc needed (release (wk_errormsg c) H) of
              (None, H) \<Rightarrow> (ESP_ERR_NO_MEM, c\<lparr>wk_errormsg := None\<rparr>, H, [])
            | (p, H) \<Rightarrow> (ESP_OK, c\<lparr>wk_errormsg := p\<rparr>, H, [dispatch EV_ERROR [] c]))
      else (ESP_OK, c, H, [dispatch EV_ERROR [] c]))"

end
