(* ===== verification/Ws_Transport.thy ===== *)
theory Ws_Transport
  imports Ws_Client
begin

text \<open>
  What the WebSocket client asks of the transports when it makes them (\<open>esp_websocket_client_create_transport\<close>): the calls
  in their order, with their arguments. The transports themselves (\<open>esp_transport\<close>) are parameters: whether each is
  made, and what setting its options returns. The certificate bundle of mbedTLS is built in.
\<close>

datatype ws_setting =
    ListDestroy
  | ListInit
  | TcpInit
  | SslInit
  | WsInit
  | DefaultPort int
  | ListAdd bytes
  | KeepAlive int int int
  | InterfaceName
  | GlobalCaStore
  | CertPem bytes
  | CertDer bytes nat
  | ClientCertPem bytes
  | ClientCertDer bytes nat
  | ClientKeyPem bytes
  | ClientKeyDer bytes nat
  | CrtBundle
  | SkipCommonName
  | CommonName bytes
  | WsConfig "bytes option" "bytes option" "bytes option" "bytes option" "bytes option"

record ws_made =
  md_list :: bool
  md_base :: bool
  md_ws :: bool
  md_found :: bool
  md_config :: esp_err

definition WS_OVER_TCP_SCHEME :: bytes where "WS_OVER_TCP_SCHEME = ascii ''ws''"
definition WS_OVER_TLS_SCHEME :: bytes where "WS_OVER_TLS_SCHEME = ascii ''wss''"

text \<open>\<open>strcasecmp\<close> as the code uses it, for equality.\<close>

definition ascii_lower :: "u8 \<Rightarrow> u8" where
  "ascii_lower c = (if 0x41 \<le> c \<and> c \<le> 0x5A then c + 32 else c)"

definition strcasecmp_equal :: "bytes \<Rightarrow> bytes \<Rightarrow> bool" where
  "strcasecmp_equal s t \<longleftrightarrow> map ascii_lower s = map ascii_lower t"

definition transport_optional_settings :: "ws_made \<Rightarrow> ws_storage \<Rightarrow> esp_err \<times> ws_setting list" where
  "transport_optional_settings m cs =
     (if md_found m then (md_config m, [WsConfig (cs_path cs) (cs_subprotocol cs) (cs_user_agent cs) (cs_headers cs) (cs_auth cs)])
      else (ESP_ERR_INVALID_ARG, []))"

definition base_options :: "ws_client \<Rightarrow> ws_setting list" where
  "base_options c =
     (case wk_keep_alive c of None \<Rightarrow> [] | Some (idle, interval, count) \<Rightarrow> [KeepAlive idle interval count]) @
     (if wk_if_name c = None then [] else [InterfaceName])"

text \<open>A certificate or key, as PEM text when its length is not given.\<close>

definition cert_setting :: "(bytes \<Rightarrow> ws_setting) \<Rightarrow> (bytes \<Rightarrow> nat \<Rightarrow> ws_setting) \<Rightarrow> bytes option \<Rightarrow> nat \<Rightarrow> ws_setting list" where
  "cert_setting pem der cert len = (case cert of None \<Rightarrow> [] | Some s \<Rightarrow> [if len = 0 then pem s else der s len])"

definition ssl_options :: "ws_storage \<Rightarrow> ws_setting list" where
  "ssl_options cs =
     (if cs_use_global_ca_store cs then [GlobalCaStore] else cert_setting CertPem CertDer (cs_cert cs) (cs_cert_len cs)) @
     cert_setting ClientCertPem ClientCertDer (cs_client_cert cs) (cs_client_cert_len cs) @
     cert_setting ClientKeyPem ClientKeyDer (cs_client_key cs) (cs_client_key_len cs) @
     (if cs_crt_bundle_attach cs then [CrtBundle] else []) @
     (if cs_skip_cert_common_name_check cs then [SkipCommonName] else []) @
     (case cs_cert_common_name cs of None \<Rightarrow> [] | Some n \<Rightarrow> [CommonName n])"

text \<open>The WebSocket transport over a transport just made, and its options.\<close>

definition finish_transport :: "ws_made \<Rightarrow> ws_storage \<Rightarrow> int \<Rightarrow> bytes \<Rightarrow> ws_setting list \<Rightarrow> esp_err \<times> ws_setting list" where
  "finish_transport m cs port scheme out =
     (if \<not> md_ws m then (ESP_ERR_NO_MEM, out @ [WsInit])
      else (case transport_optional_settings m cs of (e, o1) \<Rightarrow>
        (if e = ESP_OK then ESP_OK else ESP_FAIL, out @ [WsInit, DefaultPort port, ListAdd scheme] @ o1)))"

text \<open>\<open>old\<close>: an earlier start has left a list.\<close>

definition esp_websocket_client_create_transport :: "ws_made \<Rightarrow> bool \<Rightarrow> ws_client \<Rightarrow> fault + esp_err \<times> ws_setting list" where
  "esp_websocket_client_create_transport m old c =
     (case wk_config c of
        None \<Rightarrow> Inl NullDeref
      | Some cs \<Rightarrow>
          (case cs_scheme cs of
             None \<Rightarrow> Inr (ESP_FAIL, [])
           | Some scheme \<Rightarrow>
               let out = (if old then [ListDestroy] else []) @ [ListInit]
               in if \<not> md_list m then Inr (ESP_ERR_NO_MEM, out)
                  else if strcasecmp_equal scheme WS_OVER_TCP_SCHEME then
                    (if \<not> md_base m then Inr (ESP_ERR_NO_MEM, out @ [TcpInit])
                     else Inr (finish_transport m cs WEBSOCKET_TCP_DEFAULT_PORT WS_OVER_TCP_SCHEME
                       (out @ [TcpInit, DefaultPort WEBSOCKET_TCP_DEFAULT_PORT, ListAdd (ascii ''_tcp'')] @ base_options c)))
                  else if strcasecmp_equal scheme WS_OVER_TLS_SCHEME then
                    (if \<not> md_base m then Inr (ESP_ERR_NO_MEM, out @ [SslInit])
                     else Inr (finish_transport m cs WEBSOCKET_SSL_DEFAULT_PORT WS_OVER_TLS_SCHEME
                       (out @ [SslInit, DefaultPort WEBSOCKET_SSL_DEFAULT_PORT, ListAdd (ascii ''_ssl'')] @ base_options c @ ssl_options cs)))
                  else Inr (ESP_FAIL, out)))"

text \<open>
  Made or not, a transport over TLS is set up to check the server: the name is not skipped unless the configuration says so, and the
  certificate of the configuration is the one handed on; a plain transport is never made for the scheme \<open>wss\<close>.
\<close>

lemma finish_ok:
  "finish_transport m cs port scheme o1 = (ESP_OK, out) \<Longrightarrow>
    \<exists>a b d e f. out = o1 @ [WsInit, DefaultPort port, ListAdd scheme, WsConfig a b d e f]"
  by (auto simp: finish_transport_def transport_optional_settings_def split: if_splits)

lemma base_options_set: "base_options c = [] \<or> (\<forall>x \<in> set (base_options c). x = InterfaceName \<or> (\<exists>a b d. x = KeepAlive a b d))"
  by (auto simp: base_options_def split: option.split)

lemma tls_checks_server:
  assumes "wk_config c = Some cs" "cs_scheme cs = Some s" "strcasecmp_equal s WS_OVER_TLS_SCHEME"
    and o: "\<not> cs_skip_cert_common_name_check cs" "\<not> cs_use_global_ca_store cs" "cs_cert cs = Some pem" "cs_cert_len cs = 0"
    and r: "esp_websocket_client_create_transport m old c = Inr (ESP_OK, out)"
  shows "SslInit \<in> set out \<and> CertPem pem \<in> set out \<and> SkipCommonName \<notin> set out \<and> TcpInit \<notin> set out"
proof -
  have "length s = 3" using assms(3) by (auto simp: strcasecmp_equal_def WS_OVER_TLS_SCHEME_def dest: map_eq_imp_length_eq)
  then have n: "\<not> strcasecmp_equal s WS_OVER_TCP_SCHEME"
    by (auto simp: strcasecmp_equal_def WS_OVER_TCP_SCHEME_def dest: map_eq_imp_length_eq)
  have "md_list m" "md_base m"
    using r assms(1-3) n by (auto simp: esp_websocket_client_create_transport_def Let_def split: if_splits)
  then obtain a b d e f where out: "out = ((if old then [ListDestroy] else []) @ [ListInit]) @
      [SslInit, DefaultPort WEBSOCKET_SSL_DEFAULT_PORT, ListAdd (ascii ''_ssl'')] @ base_options c @ ssl_options cs @
      [WsInit, DefaultPort WEBSOCKET_SSL_DEFAULT_PORT, ListAdd WS_OVER_TLS_SCHEME, WsConfig a b d e f]"
    using r assms(1-3) n by (auto simp: esp_websocket_client_create_transport_def Let_def dest!: finish_ok)
  have "CertPem pem \<in> set (ssl_options cs)" "SkipCommonName \<notin> set (ssl_options cs)" "TcpInit \<notin> set (ssl_options cs)"
    using o by (auto simp: ssl_options_def cert_setting_def split: option.splits)
  then show ?thesis using base_options_set [of c] unfolding out by auto
qed

end
