(* ===== verification/Ws_Memory.thy ===== *)
theory Ws_Memory
  imports Ws_Client
begin

text \<open>
  The memory of the WebSocket client: for every pattern of failing allocations and kernel calls, making a client and
  destroying it leaves no block behind, except in two cases in which the code loses one.
\<close>

section \<open>Blocks\<close>

definition storage_blocks :: "ws_storage \<Rightarrow> int" where
  "storage_blocks cs = blk (cs_headers cs) + blk (cs_user_agent cs) + blk (cs_subprotocol cs) + blk (cs_auth cs) +
     blk (cs_password cs) + blk (cs_username cs) + blk (cs_scheme cs) + blk (cs_path cs) + blk (cs_uri cs) + blk (cs_host cs)"

definition client_blocks :: "ws_client \<Rightarrow> int" where
  "client_blocks c = 1 + blk (wk_if_name c) + (case wk_config c of None \<Rightarrow> 0 | Some cs \<Rightarrow> 1 + storage_blocks cs) +
     blk (wk_tx_buffer c) + blk (wk_rx_buffer c) + blk (wk_errormsg c)"

lemma live_deallocate [simp]: "ha_live (hook_deallocate H) = ha_live H - 1"
  by (simp add: hook_deallocate_def)

lemma live_release [simp]: "ha_live (release p H) = ha_live H - blk p"
  by (cases p) (simp_all add: release_def)

lemma live_allocate: "hook_allocate H = (ok, H') \<Longrightarrow> ha_live H' = ha_live H + (if ok then 1 else 0)"
  by (auto simp: hook_allocate_def split: if_splits)

lemma live_strdup: "strdup s H = (p, H') \<Longrightarrow> ha_live H' = ha_live H + blk p"
  by (auto simp: strdup_def live_allocate split: prod.splits)

lemma live_ws_alloc: "ws_alloc x H = (p, H') \<Longrightarrow> ha_live H' = ha_live H + blk p"
  by (auto simp: ws_alloc_def live_allocate split: prod.splits)

lemma live_auth: "http_auth_basic base64 u p H = (auth, H') \<Longrightarrow> ha_live H' = ha_live H + blk auth"
  by (auto simp: http_auth_basic_def dest!: live_strdup split: prod.splits option.splits)

lemma live_destroy: "ha_live (destroy_and_free_resources c H) = ha_live H - client_blocks c"
  by (simp add: destroy_and_free_resources_def esp_websocket_client_destroy_config_def client_blocks_def storage_blocks_def
      Let_def split: option.split)

section \<open>The configuration\<close>

text \<open>A step is balanced when the blocks it makes are those that the storage has more afterwards.\<close>

definition cfg_balanced :: "cfg_step \<Rightarrow> bool" where
  "cfg_balanced f \<longleftrightarrow> (\<forall>cs H ok cs' H'. f cs H = (ok, cs', H') \<longrightarrow>
     ha_live H' - storage_blocks cs' = ha_live H - storage_blocks cs)"

named_theorems balanced "steps of the configuration that lose no block"

lemma cfg_then_balanced [balanced]: "cfg_balanced f \<Longrightarrow> cfg_balanced g \<Longrightarrow> cfg_balanced (cfg_then f g)"
  unfolding cfg_balanced_def cfg_then_def by (fastforce split: prod.splits if_splits)

lemma cfg_set_balanced [balanced]: "(\<And>cs. storage_blocks (f cs) = storage_blocks cs) \<Longrightarrow> cfg_balanced (cfg_set f)"
  by (simp add: cfg_balanced_def cfg_set_def)

lemma cfg_string_balanced [balanced]:
  "(\<And>v cs. storage_blocks (put v cs) = storage_blocks cs - blk (fld cs) + blk v) \<Longrightarrow> cfg_balanced (cfg_string True fld put new)"
  by (auto simp: cfg_balanced_def cfg_string_def Let_def dest!: live_strdup split: option.splits prod.splits)

lemma cfg_auth_balanced [balanced]: "cfg_balanced (cfg_auth base64)"
  by (auto simp: cfg_balanced_def cfg_auth_def storage_blocks_def dest!: live_auth split: option.splits prod.splits)

lemma cfg_string_None [balanced]: "cfg_balanced (cfg_string free_old fld put None)"
  by (simp add: cfg_balanced_def cfg_string_def)

lemma set_config_balanced:
  assumes "wc_host config = None"
  shows "cfg_balanced (set_config_steps base64 config)"
  unfolding set_config_steps_def assms
  by (intro balanced) (simp_all add: storage_blocks_def cfg_task_def cfg_timing_def)

lemma set_uri_balanced:
  assumes "snd (u_userinfo u) = 0"
  shows "cfg_balanced (set_uri_steps uri u)"
proof -
  have "cfg_balanced (cfg_userinfo (field_text uri (u_userinfo u)))"
    using assms by (simp add: field_text_def cfg_userinfo_def cfg_balanced_def)
  then show ?thesis unfolding set_uri_steps_def by (intro balanced) (simp_all add: storage_blocks_def)
qed

section \<open>Making and destroying\<close>

text \<open>
  A triple: from a client with P the step is balanced, and where it succeeds the client has Q.
\<close>

definition init_triple :: "(ws_client \<Rightarrow> bool) \<Rightarrow> init_step \<Rightarrow> (ws_client \<Rightarrow> bool) \<Rightarrow> bool" where
  "init_triple P f Q \<longleftrightarrow> (\<forall>c H ok c' H'. P c \<longrightarrow> f c H = (ok, c', H') \<longrightarrow>
     ha_live H' - client_blocks c' = ha_live H - client_blocks c \<and> (ok \<longrightarrow> Q c'))"

lemma init_then_triple: "init_triple P f Q \<Longrightarrow> init_triple Q g R \<Longrightarrow> init_triple P (init_then f g) R"
  unfolding init_triple_def init_then_def by (fastforce split: prod.splits if_splits)

lemma on_config_triple:
  assumes "cfg_balanced f" "\<And>c cs. P c \<Longrightarrow> P (c\<lparr>wk_config := Some cs\<rparr>)"
  shows "init_triple P (on_config f) P"
  using assms(1) assms(2)
  by (fastforce simp: init_triple_def on_config_def client_blocks_def cfg_balanced_def split: option.splits prod.splits)

definition no_buffers :: "ws_client \<Rightarrow> bool" where
  "no_buffers c \<longleftrightarrow> wk_rx_buffer c = None \<and> wk_tx_buffer c = None \<and> wk_errormsg c = None"

lemma init_steps_triple:
  assumes "wc_host config = None" "\<And>uri u. wc_uri config = Some uri \<Longrightarrow> parse uri = Some u \<Longrightarrow> snd (u_userinfo u) = 0"
  shows "init_triple (\<lambda>c. wk_if_name c = None \<and> wk_config c = None \<and> no_buffers c)
    (init_steps parse base64 kn now config) (\<lambda>c. True)"
proof -
  have 1: "init_triple (\<lambda>c. wk_if_name c = None \<and> wk_config c = None \<and> no_buffers c) (init_if_name config)
      (\<lambda>c. wk_config c = None \<and> no_buffers c)"
    by (auto simp: init_triple_def init_if_name_def client_blocks_def no_buffers_def dest!: live_ws_alloc split: prod.splits if_splits)
  have 2: "init_triple (\<lambda>c. wk_config c = None \<and> no_buffers c) (\<lambda>c H. (kn_lock kn, c\<lparr>wk_lock := kn_lock kn\<rparr>, H))
      (\<lambda>c. wk_config c = None \<and> no_buffers c)"
    by (simp add: init_triple_def client_blocks_def no_buffers_def)
  have 3: "init_triple (\<lambda>c. wk_config c = None \<and> no_buffers c) init_config
      (\<lambda>c. no_buffers c \<and> (\<exists>cs. wk_config c = Some cs \<and> cs_scheme cs = None))"
    by (auto simp: init_triple_def init_config_def client_blocks_def no_buffers_def storage_blocks_def empty_storage_def ws_alloc_def
        dest!: live_allocate split: prod.splits if_splits)
  have 4: "init_triple (\<lambda>c. no_buffers c \<and> (\<exists>cs. wk_config c = Some cs \<and> cs_scheme cs = None))
      (on_config (transport_scheme config)) no_buffers"
    by (auto simp: init_triple_def on_config_def transport_scheme_def cfg_scheme_def client_blocks_def no_buffers_def storage_blocks_def
        dest!: live_strdup split: prod.splits option.splits ws_transport_kind.splits)
  have 5: "init_triple no_buffers (\<lambda>c H. (\<not> (wc_cert_common_name config \<noteq> None \<and> wc_skip_cert_common_name_check config),
      c\<lparr>wk_wait_timeout_ms := reconnect_wait config\<rparr>, H)) no_buffers"
    by (simp add: init_triple_def client_blocks_def no_buffers_def)
  have on: "init_triple no_buffers (on_config f) no_buffers" if "cfg_balanced f" for f
    by (rule on_config_triple [OF that]) (simp add: no_buffers_def)
  have 6: "cfg_balanced (cfg_set (ssl_settings config))"
    by (rule cfg_set_balanced) (simp add: ssl_settings_def storage_blocks_def)
  have 7: "cfg_balanced (uri_settings parse config)"
  proof (cases "wc_uri config")
    case (Some uri)
    then show ?thesis using set_uri_balanced assms(2) [OF Some]
      by (fastforce simp: cfg_balanced_def uri_settings_def esp_websocket_client_set_uri_def split: option.splits prod.splits)
  qed (simp add: cfg_balanced_def uri_settings_def)
  have 8: "cfg_balanced (\<lambda>cs H. case esp_websocket_client_set_config base64 config cs H of (e, cs, H) \<Rightarrow> (e = ESP_OK, cs, H))"
    using set_config_balanced [OF assms(1), of base64]
    by (fastforce simp: cfg_balanced_def esp_websocket_client_set_config_def split: prod.splits)
  have 9: "cfg_balanced default_scheme"
    by (auto simp: cfg_balanced_def default_scheme_def cfg_scheme_def storage_blocks_def dest!: live_strdup split: prod.splits if_splits)
  have 10: "init_triple no_buffers (\<lambda>c H. init_buffers n (init_ticks now c) H) (\<lambda>c. True)" for n
    by (auto simp: init_triple_def init_buffers_def init_ticks_def client_blocks_def no_buffers_def dest!: live_ws_alloc
        split: prod.splits option.splits)
  have 11: "init_triple (\<lambda>c. True) (\<lambda>c H. (kn_bits kn, c\<lparr>wk_has_bits := kn_bits kn, wk_stopped_bit := kn_bits kn,
      wk_buffer_size := (if kn_bits kn then effective_buffer_size config else wk_buffer_size c)\<rparr>, H)) (\<lambda>c. True)"
    by (simp add: init_triple_def client_blocks_def)
  show ?thesis
    unfolding init_steps_def
    by (rule init_then_triple [OF 1 init_then_triple [OF 2 init_then_triple [OF 3 init_then_triple [OF 4 init_then_triple [OF 5
      init_then_triple [OF on [OF 6] init_then_triple [OF on [OF 7] init_then_triple [OF on [OF 8] init_then_triple [OF on [OF 9]
      init_then_triple [OF 10 11]]]]]]]]]])
qed

text \<open>
  C35. Making a WebSocket client leaks nothing, whatever allocations and kernel calls fail: if it fails every block is
  given back, and if it succeeds the destruction of the client gives them back. The configuration gives no host besides the URI, and
  the URI holds no user information.
\<close>

theorem ws_init_destroy_balanced:
  assumes "wc_host config = None" "\<And>uri u. wc_uri config = Some uri \<Longrightarrow> parse uri = Some u \<Longrightarrow> snd (u_userinfo u) = 0"
    and "esp_websocket_client_init parse base64 kn now config H = (r, H')"
  shows "ha_live (case r of None \<Rightarrow> H' | Some c \<Rightarrow> destroy_and_free_resources c H') = ha_live H"
proof -
  have t: "init_triple (\<lambda>c. wk_if_name c = None \<and> wk_config c = None \<and> no_buffers c) (init_steps parse base64 kn now config) (\<lambda>c. True)"
    by (rule init_steps_triple) (use assms(1,2) in blast)+
  obtain p H1 where a: "ws_alloc zero_client H = (p, H1)" by (meson surj_pair)
  show ?thesis
  proof (cases p)
    case None
    then show ?thesis using assms(3) a live_ws_alloc [OF a] by (auto simp: esp_websocket_client_init_def)
  next
    case (Some c)
    then have c: "c = zero_client" using a by (auto simp: ws_alloc_def split: prod.splits if_splits)
    show ?thesis
    proof (cases "kn_event_loop kn")
      case True
      let ?c = "c\<lparr>wk_event_loop := True, wk_keep_alive := keep_alive_settings config\<rparr>"
      obtain ok c2 H2 where i: "init_steps parse base64 kn now config ?c H1 = (ok, c2, H2)"
        using prod_cases3 by blast
      have f: "wk_if_name ?c = None \<and> wk_config ?c = None \<and> no_buffers ?c" "client_blocks ?c = 1"
        by (simp_all add: c zero_client_def no_buffers_def client_blocks_def)
      have "ha_live H2 - client_blocks c2 = ha_live H1 - 1"
        using t f(1) i unfolding init_triple_def f(2) [symmetric] by blast
      moreover have "(r, H') = (if ok then (Some c2, H2) else (None, destroy_and_free_resources c2 H2))"
        using assms(3) i True by (simp add: esp_websocket_client_init_def a Some split: bool.splits)
      moreover have "ha_live H1 = ha_live H + 1" using live_ws_alloc [OF a] Some by simp
      ultimately show ?thesis by (simp add: live_destroy split: if_splits)
    next
      case False
      then show ?thesis using assms(3) a Some live_ws_alloc [OF a] by (auto simp: esp_websocket_client_init_def)
    qed
  qed
qed

section \<open>A configuration like the firmware's\<close>

text \<open>\<open>ykp_ws_init\<close> sets the URI, the times, the buffer and the certificates, and leaves the rest zero.\<close>

definition ws_config0 :: ws_config where
  "ws_config0 = \<lparr>wc_uri = None, wc_host = None, wc_port = 0, wc_username = None, wc_password = None, wc_path = None,
     wc_disable_auto_reconnect = False, wc_enable_close_reconnect = False, wc_task_core_id_set = False, wc_task_core_id = 0,
     wc_task_prio = 5, wc_task_name = None, wc_task_stack = 8192, wc_buffer_size = 4096, wc_cert_pem = None, wc_cert_len = 0,
     wc_client_cert = None, wc_client_cert_len = 0, wc_client_key = None, wc_client_key_len = 0,
     wc_transport = WEBSOCKET_TRANSPORT_UNKNOWN, wc_subprotocol = None, wc_user_agent = None, wc_headers = None,
     wc_pingpong_timeout_sec = 0, wc_disable_pingpong_discon = False, wc_use_global_ca_store = False, wc_crt_bundle_attach = False,
     wc_cert_common_name = None, wc_skip_cert_common_name_check = False, wc_keep_alive_enable = False, wc_keep_alive_idle = 0,
     wc_keep_alive_interval = 0, wc_keep_alive_count = 0, wc_reconnect_timeout_ms = 5000, wc_network_timeout_ms = 10000,
     wc_ping_interval_sec = 30, wc_if_name = False, wc_ext_transport = False\<rparr>"

text \<open>The parse of \<open>wss://h\<close>.\<close>

definition url0 :: url where
  "url0 = \<lparr>u_schema = (0, 3), u_host = (6, 1), u_path = (0, 0), u_query = (0, 0), u_userinfo = (0, 0), u_port_off = 0\<rparr>"

definition kernel_ok :: ws_kernel where
  "kernel_ok = \<lparr>kn_event_loop = True, kn_lock = True, kn_bits = True\<rparr>"

lemmas init_eval = esp_websocket_client_init_def init_steps_def init_then_def init_if_name_def init_config_def on_config_def
  transport_scheme_def cfg_scheme_def uri_settings_def esp_websocket_client_set_uri_def set_uri_steps_def cfg_then_def cfg_set_def
  cfg_string_def cfg_userinfo_def field_text_def uri_path_def esp_websocket_client_set_config_def set_config_steps_def cfg_auth_def
  default_scheme_def init_buffers_def init_ticks_def ws_alloc_def strdup_def hook_allocate_def hooks0_def zero_client_def
  empty_storage_def ws_config0_def url0_def kernel_ok_def Let_def release_def hook_deallocate_def ssl_settings_def cfg_task_def
  cfg_timing_def

theorem ws_init_destroy_balanced_witness:
  "\<exists>c H'. esp_websocket_client_init (\<lambda>_. Some url0) id kernel_ok 0 (ws_config0\<lparr>wc_uri := Some (ascii ''wss://h'')\<rparr>) hooks0 =
      (Some c, H') \<and> ha_live H' = 7 \<and> ha_live (destroy_and_free_resources c H') = 0"
proof -
  obtain c H' where i: "esp_websocket_client_init (\<lambda>_. Some url0) id kernel_ok 0
      (ws_config0\<lparr>wc_uri := Some (ascii ''wss://h'')\<rparr>) hooks0 = (Some c, H')" "ha_live H' = 7"
    by (simp add: init_eval)
  have "ha_live (case Some c of None \<Rightarrow> H' | Some c \<Rightarrow> destroy_and_free_resources c H') = ha_live hooks0"
    by (rule ws_init_destroy_balanced [OF _ _ i(1)]) (auto simp: ws_config0_def url0_def)
  then show ?thesis using i by (simp add: hooks0_def)
qed

text \<open>Given twice, in the URI and in the configuration, the host's first copy is lost.\<close>

lemma host_given_twice_leaks:
  "\<exists>c H'. esp_websocket_client_init (\<lambda>_. Some url0) id kernel_ok 0
      (ws_config0\<lparr>wc_uri := Some (ascii ''wss://h''), wc_host := Some (ascii ''h'')\<rparr>) hooks0 = (Some c, H') \<and>
    ha_live (destroy_and_free_resources c H') = 1"
  by (simp add: init_eval live_destroy client_blocks_def storage_blocks_def)

end
