(* ===== verification/Ws_Transfer.thy ===== *)
theory Ws_Transfer
  imports Ws_Client
begin

text \<open>
  Sending and receiving of the WebSocket client. A message is sent in frames of at most the buffer's size; a frame read
  is given to the program in pieces, and control frames are answered. What the transport returns for each
  write is \<open>raw k\<close>, what it returns for the reads is a list: a call that needs more reads than there are has not
  returned yet (\<open>None\<close>).
\<close>

section \<open>Sending\<close>

text \<open>
  The loop: k counts the writes, \<open>need_write\<close> is the size of the next frame, \<open>txlen\<close> the size of the transmit buffer the
  bytes are copied through. The result is the error of the transport, if any, and the bytes sent.
\<close>

partial_function (option) send_loop ::
  "(nat \<Rightarrow> int) \<Rightarrow> int \<Rightarrow> nat \<Rightarrow> bool \<Rightarrow> bytes \<Rightarrow> int \<Rightarrow> nat \<Rightarrow> u8 \<Rightarrow> int \<Rightarrow> int \<Rightarrow> ws_effect list \<Rightarrow>
    (int option \<times> int \<times> ws_effect list) comp" where
  "send_loop raw buffer_size txlen contained_fin data len k opcode widx need_write out =
     (if \<not> (widx < len \<or> opcode \<noteq> 0) then retC (None, widx, out)
      else
        let too_big = (need_write > buffer_size);
            op = (if too_big then opcode AND NOT OP_FIN else if contained_fin then opcode OR OP_FIN else opcode);
            n = (if too_big then buffer_size else need_write)
        in if int (length data) < widx + n then liftC (Inl OutOfBounds)
           else if int txlen < n then liftC (Inl BufferOverflow)
           else
             let wlen = raw k; out = out @ [Frame op (take (nat n) (drop (nat widx) data))]
             in if wlen < 0 \<or> wlen = 0 \<and> n \<noteq> 0 then retC (Some wlen, widx, out)
                else send_loop raw buffer_size txlen contained_fin data len (Suc k) 0 (widx + wlen) (len - (widx + wlen)) out)"

definition is_connected :: "ws_client \<Rightarrow> bool" where
  "is_connected c \<longleftrightarrow> wk_state c = WEBSOCKET_STATE_CONNECTED"

text \<open>
  \<open>locked\<close>: whether the lock is obtained in time; \<open>msg\<close>: the size of the error message; \<open>now\<close>: the time of an error.
\<close>

definition send_with_exact_opcode ::
  "(nat \<Rightarrow> int) \<Rightarrow> bool \<Rightarrow> u64 \<Rightarrow> nat \<Rightarrow> u8 \<Rightarrow> bytes option \<Rightarrow> int \<Rightarrow> ws_client \<Rightarrow> hooks \<Rightarrow>
    (int \<times> ws_client \<times> hooks \<times> ws_effect list) comp" where
  "send_with_exact_opcode raw locked now msg opcode data len c H =
     (if len < 0 \<or> data = None \<and> 0 < len then retC (- 1, c, H, [])
      else if \<not> is_connected c then retC (- 1, c, H, [])
      else if \<not> wk_transport c then retC (- 1, c, H, [])
      else if \<not> locked then retC (- 1, c, H, [])
      else case wk_tx_buffer c of
        None \<Rightarrow> liftC (Inl NullDeref)
      | Some tx \<Rightarrow>
          bindC (send_loop raw (wk_buffer_size c) (length tx) (opcode AND OP_FIN \<noteq> 0) (case data of None \<Rightarrow> [] | Some d \<Rightarrow> d)
              len 0 opcode 0 len []) (\<lambda>(failed, sent, out).
            case failed of
              None \<Rightarrow> retC (sent, c, H, out)
            | Some wlen \<Rightarrow>
                (case client_error msg c H of (_, c, H, e1) \<Rightarrow>
                 case abort_connection now WEBSOCKET_ERROR_TYPE_TCP_TRANSPORT c H of (_, c, H, e2) \<Rightarrow>
                   retC (wlen, c, H, out @ e1 @ e2))))"

definition send_with_opcode ::
  "(nat \<Rightarrow> int) \<Rightarrow> bool \<Rightarrow> u64 \<Rightarrow> nat \<Rightarrow> u8 \<Rightarrow> bytes option \<Rightarrow> int \<Rightarrow> ws_client \<Rightarrow> hooks \<Rightarrow>
    (int \<times> ws_client \<times> hooks \<times> ws_effect list) comp" where
  "send_with_opcode raw locked now msg opcode data len c H =
     send_with_exact_opcode raw locked now msg (opcode OR OP_FIN) data len c H"

definition send_text where
  "send_text raw locked now msg data len c H = send_with_opcode raw locked now msg OP_TEXT data len c H"

definition send_text_partial where
  "send_text_partial raw locked now msg data len c H = send_with_exact_opcode raw locked now msg OP_TEXT data len c H"

definition send_cont_msg where
  "send_cont_msg raw locked now msg data len c H = send_with_exact_opcode raw locked now msg OP_CONT data len c H"

definition send_bin where
  "send_bin raw locked now msg data len c H = send_with_opcode raw locked now msg OP_BINARY data len c H"

definition send_bin_partial where
  "send_bin_partial raw locked now msg data len c H = send_with_exact_opcode raw locked now msg OP_BINARY data len c H"

definition send_fin where
  "send_fin raw locked now msg c H = send_with_exact_opcode raw locked now msg OP_FIN None 0 c H"

text \<open>
  The close frame: with a body of at least two bytes, the status code in network order and the caller's data.
\<close>

definition send_close ::
  "(nat \<Rightarrow> int) \<Rightarrow> bool \<Rightarrow> u64 \<Rightarrow> nat \<Rightarrow> int \<Rightarrow> bytes \<Rightarrow> int \<Rightarrow> ws_client \<Rightarrow> hooks \<Rightarrow>
    (int \<times> ws_client \<times> hooks \<times> ws_effect list) comp" where
  "send_close raw locked now msg code additional_data total_len c H =
     (if total_len \<ge> 2 then
        (case hook_allocate H of
           (False, H) \<Rightarrow> retC (- 1, c, H, [])
         | (True, H) \<Rightarrow>
             if int (length additional_data) < total_len - 2 then liftC (Inl OutOfBounds)
             else
               let body = [of_int (code div 256), of_int code] @ take (nat (total_len - 2)) additional_data
               in bindC (send_with_opcode raw locked now msg OP_CLOSE (Some body) total_len c H) (\<lambda>(ret, c, H, out).
                    retC (ret, c, hook_deallocate H, out)))
      else send_with_opcode raw locked now msg OP_CLOSE None total_len c H)"

section \<open>Receiving\<close>

record ws_read =
  re_len :: int
  re_data :: bytes
  re_payload_len :: int
  re_fin :: bool
  re_opcode :: u8

datatype recv_end = Recv_failed | Recv_nothing | Recv_frame

text \<open>
  The loop: a piece of the frame is read into the buffer and posted, until the whole payload has been read.
  The reads that remain are returned.
\<close>

fun recv_loop :: "nat \<Rightarrow> ws_read list \<Rightarrow> ws_client \<Rightarrow> hooks \<Rightarrow> ws_effect list \<Rightarrow>
    (recv_end \<times> ws_client \<times> hooks \<times> ws_effect list \<times> ws_read list) comp" where
  "recv_loop msg [] c H out = None"
| "recv_loop msg (r # reads) c H out =
     (if re_len r < 0
      then (case client_error msg c H of (_, c, H, e) \<Rightarrow> retC (Recv_failed, c, H, out @ e, reads))
      else case wk_rx_buffer c of
        None \<Rightarrow> liftC (Inl NullDeref)
      | Some rx \<Rightarrow>
          bindC (liftC (wr_bytes rx 0 (take (nat (re_len r)) (re_data r)))) (\<lambda>rx'.
            let c = c\<lparr>wk_rx_buffer := Some rx', wk_payload_len := re_payload_len r, wk_last_fin := re_fin r, wk_last_opcode := re_opcode r\<rparr>
            in if re_len r = 0 \<and> re_opcode r = OP_NONE then retC (Recv_nothing, c, H, out, reads)
               else
                 let out = out @ [dispatch EV_DATA (take (nat (re_len r)) rx') c];
                     c = c\<lparr>wk_payload_offset := wk_payload_offset c + re_len r\<rparr>
                 in if wk_payload_offset c < wk_payload_len c then recv_loop msg reads c H out
                    else retC (Recv_frame, c, H, out, reads)))"

text \<open>The answer to a ping has as many bytes as the ping's payload, read from the receive buffer.\<close>

definition control_frame :: "ws_client \<Rightarrow> fault + ws_client \<times> ws_effect list" where
  "control_frame c =
     (if wk_last_opcode c = OP_PING then
        (case wk_rx_buffer c of
           None \<Rightarrow> Inl NullDeref
         | Some rx \<Rightarrow>
             if int (length rx) < wk_payload_len c then Inl OutOfBounds
             else Inr (c, [Frame (OP_PONG OR OP_FIN) (take (nat (wk_payload_len c)) rx)]))
      else if wk_last_opcode c = OP_PONG then Inr (c\<lparr>wk_wait_for_pong := False\<rparr>, [])
      else if wk_last_opcode c = OP_CLOSE then Inr (c\<lparr>wk_state := WEBSOCKET_STATE_CLOSING\<rparr>, [])
      else Inr (c, []))"

definition client_recv :: "nat \<Rightarrow> ws_read list \<Rightarrow> ws_client \<Rightarrow> hooks \<Rightarrow>
    (esp_err \<times> ws_client \<times> hooks \<times> ws_effect list \<times> ws_read list) comp" where
  "client_recv msg reads c H =
     bindC (recv_loop msg reads (c\<lparr>wk_payload_offset := 0\<rparr>) H []) (\<lambda>(e, c, H, out, reads).
       case e of
         Recv_failed \<Rightarrow> retC (ESP_FAIL, c, H, out, reads)
       | Recv_nothing \<Rightarrow> retC (ESP_OK, c, H, out, reads)
       | Recv_frame \<Rightarrow> bindC (liftC (control_frame c)) (\<lambda>(c, fr). retC (ESP_OK, c, H, out @ fr, reads)))"

section \<open>A message in frames\<close>

text \<open>The frames of a message: pieces of the buffer's size, the opcode on the first, the last one marked.\<close>

function message_frames :: "nat \<Rightarrow> u8 \<Rightarrow> bytes \<Rightarrow> ws_effect list" where
  "message_frames bs op d =
     (if bs = 0 \<or> length d \<le> bs then [Frame (op OR OP_FIN) d]
      else Frame op (take bs d) # message_frames bs OP_CONT (drop bs d))"
  by pat_completeness auto
termination by (relation "measure (\<lambda>(bs, op, d). length d)") auto

declare message_frames.simps [simp del]

fun frame_data :: "ws_effect \<Rightarrow> bytes" where
  "frame_data (Frame op d) = d"
| "frame_data _ = []"

lemma message_frames_data: "concat (map frame_data (message_frames bs op d)) = d"
proof (induction bs op d rule: message_frames.induct)
  case (1 bs op d)
  then show ?case by (subst message_frames.simps) simp
qed

lemma message_frames_size: "0 < bs \<Longrightarrow> f \<in> set (message_frames bs op d) \<Longrightarrow> length (frame_data f) \<le> bs"
proof (induction bs op d rule: message_frames.induct)
  case (1 bs op d)
  then show ?case by (subst (asm) message_frames.simps) (auto split: if_splits)
qed

lemma send_loop_safe:
  assumes "0 < bs" "int (length data) = len" "int txlen = bs"
  shows "0 \<le> widx \<Longrightarrow> opcode \<noteq> 0 \<longrightarrow> widx \<le> len \<Longrightarrow>
    \<exists>f s out'. send_loop raw bs txlen fin data len k opcode widx (len - widx) out = Some (Inr (f, s, out')) \<and>
      (f = None \<longrightarrow> len \<le> s) \<and> (\<forall>w. f = Some w \<longrightarrow> w \<le> 0)"
proof (induction "nat (len - widx) + (if opcode \<noteq> 0 then 1 else 0)" arbitrary: widx opcode k out rule: less_induct)
  case less
  show ?case
  proof (cases "widx < len \<or> opcode \<noteq> 0")
    case False
    then show ?thesis by (subst send_loop.simps) (simp add: retC_def)
  next
    case True
    let ?n = "if bs < len - widx then bs else len - widx"
    have n: "0 \<le> ?n" "widx + ?n \<le> len" "?n \<le> bs" using less.prems assms(1) True by auto
    show ?thesis
    proof (cases "raw k < 0 \<or> raw k = 0 \<and> ?n \<noteq> 0")
      case stop: True
      then show ?thesis using True n assms by (subst send_loop.simps) (auto simp: Let_def retC_def)
    next
      case False
      have m: "nat (len - (widx + raw k)) + (if (0 :: u8) \<noteq> 0 then 1 else 0) < nat (len - widx) + (if opcode \<noteq> 0 then 1 else 0)"
        using False True n assms(1) less.prems by (auto split: if_splits)
      have p: "0 \<le> widx + raw k" "(0 :: u8) \<noteq> 0 \<longrightarrow> widx + raw k \<le> len" using False less.prems by auto
      obtain f s out' where r: "send_loop raw bs txlen fin data len (Suc k) 0 (widx + raw k) (len - (widx + raw k))
          (out @ [Frame (if bs < len - widx then opcode AND NOT OP_FIN else if fin then opcode OR OP_FIN else opcode)
            (take (nat ?n) (drop (nat widx) data))]) = Some (Inr (f, s, out'))"
        "f = None \<longrightarrow> len \<le> s" "\<forall>w. f = Some w \<longrightarrow> w \<le> 0"
        using less.hyps [OF m p] by blast
      have "send_loop raw bs txlen fin data len k opcode widx (len - widx) out = Some (Inr (f, s, out'))"
        using True False n assms r(1) by (subst send_loop.simps) (auto simp: Let_def split: if_splits)
      then show ?thesis using r by blast
    qed
  qed
qed

lemma fin_bits: "(op AND NOT OP_FIN) OR OP_FIN = op OR OP_FIN" "(0 :: u8) AND NOT OP_FIN = OP_CONT"
proof -
  show "(op AND NOT OP_FIN) OR OP_FIN = op OR OP_FIN" by (rule bit_word_eqI) (auto simp: bit_simps)
  show "(0 :: u8) AND NOT OP_FIN = OP_CONT" by (simp add: ws_opcodes)
qed

lemma send_loop_frames:
  assumes bs: "0 < bs" "int (length data) = len" "int txlen = bs"
  shows "0 \<le> widx \<Longrightarrow> widx \<le> len \<Longrightarrow> widx < len \<or> opcode \<noteq> 0 \<Longrightarrow>
    (\<And>j. raw (k + j) = max 0 (min bs (len - widx - int j * bs))) \<Longrightarrow>
    send_loop raw bs txlen True data len k opcode widx (len - widx) out =
      Some (Inr (None, len, out @ message_frames (nat bs) (opcode AND NOT OP_FIN) (drop (nat widx) data)))"
proof (induction "nat (len - widx)" arbitrary: widx opcode k out rule: less_induct)
  case less
  have r0: "raw k = max 0 (min bs (len - widx))" using less.prems(4) [of 0] by simp
  have ld: "length (drop (nat widx) data) = nat (len - widx)" using bs(2) less.prems(1) by auto
  show ?case
  proof (cases "bs < len - widx")
    case True
    have w: "raw k = bs" using r0 True bs(1) by simp
    have m: "nat (len - (widx + bs)) < nat (len - widx)" using True bs(1) by simp
    have rs: "raw (Suc k + j) = max 0 (min bs (len - (widx + bs) - int j * bs))" for j
      using less.prems(4) [of "Suc j"] by (simp add: algebra_simps)
    have rec: "send_loop raw bs txlen True data len (Suc k) 0 (widx + bs) (len - (widx + bs)) out' =
        Some (Inr (None, len, out' @ message_frames (nat bs) OP_CONT (drop (nat (widx + bs)) data)))" for out'
      using less.hyps [OF m, of 0 "Suc k" out'] rs less.prems True bs(1) unfolding fin_bits(2) by simp
    have d: "drop (nat (widx + bs)) data = drop (nat bs) (drop (nat widx) data)"
      using less.prems(1) bs(1) by (simp add: nat_add_distrib add.commute)
    have f: "message_frames (nat bs) (opcode AND NOT OP_FIN) (drop (nat widx) data) =
        Frame (opcode AND NOT OP_FIN) (take (nat bs) (drop (nat widx) data)) #
        message_frames (nat bs) OP_CONT (drop (nat bs) (drop (nat widx) data))"
    proof -
      have "\<not> nat (len - widx) \<le> nat bs" "nat bs \<noteq> 0" using True bs(1) by auto
      then show ?thesis using ld by (subst message_frames.simps) simp
    qed
    show ?thesis
      using True less.prems bs w by (subst send_loop.simps) (simp add: Let_def rec f d)
  next
    case False
    have w: "raw k = len - widx" using r0 False less.prems(2) by simp
    have f: "message_frames (nat bs) (opcode AND NOT OP_FIN) (drop (nat widx) data) =
        [Frame (opcode OR OP_FIN) (drop (nat widx) data)]"
    proof -
      have "nat (len - widx) \<le> nat bs" using False by simp
      then show ?thesis using ld fin_bits(1) [of opcode] by (subst message_frames.simps) simp
    qed
    have t: "take (nat (len - widx)) (drop (nat widx) data) = drop (nat widx) data" using ld by simp
    have e: "send_loop raw bs txlen True data len (Suc k) 0 len 0 out' = Some (Inr (None, len, out'))" for out'
      by (subst send_loop.simps) (simp add: retC_def)
    show ?thesis
      using False less.prems bs w t by (subst send_loop.simps) (simp add: Let_def f e)
  qed
qed

definition ws_ready :: "ws_client \<Rightarrow> bool" where
  "ws_ready c \<longleftrightarrow> is_connected c \<and> wk_transport c \<and> 0 < wk_buffer_size c \<and>
     (\<exists>tx. wk_tx_buffer c = Some tx \<and> int (length tx) = wk_buffer_size c)"

text \<open>
  C37. Sending a message through the WebSocket client: when every frame is written in full, the server gets the message
  cut into frames of the transmit buffer's size, the first with the opcode, the others as continuations, the last one marked, and the call
  returns the length; the pieces put together are the message. The client is unchanged.
\<close>

theorem ws_send_frames:
  assumes c: "ws_ready c" and op: "op AND OP_FIN = 0"
    and w: "\<And>j. raw j = max 0 (min (wk_buffer_size c) (int (length data) - int j * wk_buffer_size c))"
  shows "send_with_opcode raw True now msg op (Some data) (int (length data)) c H =
      Some (Inr (int (length data), c, H, message_frames (nat (wk_buffer_size c)) op data)) \<and>
    concat (map frame_data (message_frames (nat (wk_buffer_size c)) op data)) = data"
proof -
  obtain tx where tx: "wk_tx_buffer c = Some tx" "int (length tx) = wk_buffer_size c" "0 < wk_buffer_size c"
    "is_connected c" "wk_transport c" using c by (auto simp: ws_ready_def)
  have bits: "(op OR OP_FIN) AND NOT OP_FIN = op" "(op OR OP_FIN) AND OP_FIN \<noteq> 0" "op OR OP_FIN \<noteq> 0"
  proof -
    have f: "(op OR OP_FIN) AND OP_FIN = OP_FIN" by (simp add: and.commute or.commute)
    then show "(op OR OP_FIN) AND OP_FIN \<noteq> 0" by (simp add: OP_FIN_def)
    show "op OR OP_FIN \<noteq> 0"
    proof
      assume e: "op OR OP_FIN = 0"
      show False using f unfolding e by (simp add: OP_FIN_def)
    qed
    have "(op OR OP_FIN) AND NOT OP_FIN = (op AND OP_FIN) XOR op" by (rule bit_word_eqI) (auto simp: bit_simps)
    then show "(op OR OP_FIN) AND NOT OP_FIN = op" using op by simp
  qed
  have "send_loop raw (wk_buffer_size c) (length tx) True data (int (length data)) 0 (op OR OP_FIN) 0 (int (length data) - 0) [] =
      Some (Inr (None, int (length data), [] @ message_frames (nat (wk_buffer_size c)) ((op OR OP_FIN) AND NOT OP_FIN) (drop (nat 0) data)))"
    by (rule send_loop_frames [OF tx(3) refl tx(2)]) (use w bits(3) in \<open>simp_all\<close>)
  then show ?thesis
    using tx bits message_frames_data [of "nat (wk_buffer_size c)" op data]
    by (simp add: send_with_opcode_def send_with_exact_opcode_def retC_def)
qed

definition connected0 :: "nat \<Rightarrow> ws_client" where
  "connected0 n = zero_client\<lparr>wk_state := WEBSOCKET_STATE_CONNECTED, wk_transport := True, wk_buffer_size := int n,
     wk_tx_buffer := Some (replicate n 0), wk_rx_buffer := Some (replicate n 0), wk_config := Some empty_storage\<rparr>"

theorem ws_send_frames_witness:
  "send_with_opcode (\<lambda>j. max 0 (min 2 (3 - int j * 2))) True 0 10 OP_BINARY (Some [7, 8, 9]) 3 (connected0 2) hooks0 =
      Some (Inr (3, connected0 2, hooks0, [Frame 0x02 [7, 8], Frame 0x80 [9]])) \<and>
    concat (map frame_data [Frame 0x02 [7, 8], Frame 0x80 [9]]) = [7, 8, 9]"
proof -
  have m: "message_frames (nat (wk_buffer_size (connected0 2))) OP_BINARY [7, 8, 9] = [Frame 0x02 [7, 8], Frame 0x80 [9]]"
    by (simp add: message_frames.simps connected0_def ws_opcodes)
  have r: "ws_ready (connected0 2)" by (simp add: ws_ready_def connected0_def is_connected_def)
  show ?thesis
    using ws_send_frames [OF r, of OP_BINARY "\<lambda>j. max 0 (min 2 (3 - int j * 2))" "[7, 8, 9]" 0 10 hooks0] m
    by (simp add: connected0_def ws_opcodes)
qed

text \<open>A write that the transport does not take in full breaks the message: two of its frames are marked as the last one.\<close>

lemma short_write_splits:
  "send_with_opcode (\<lambda>j. 1) True 0 10 OP_BINARY (Some [7, 8]) 2 (connected0 4) hooks0 =
    Some (Inr (2, connected0 4, hooks0, [Frame 0x82 [7, 8], Frame 0x80 [8]]))"
proof -
  have "send_loop (\<lambda>j. 1) 4 4 True [7, 8] 2 (Suc (Suc 0)) 0 2 0 [Frame 0x82 [7, 8], Frame 0x80 [8]] =
      Some (Inr (None, 2, [Frame 0x82 [7, 8], Frame 0x80 [8]]))"
    by (subst send_loop.simps) (simp add: retC_def)
  then have "send_loop (\<lambda>j. 1) 4 4 True [7, 8] 2 (Suc 0) 0 1 1 [Frame 0x82 [7, 8]] =
      Some (Inr (None, 2, [Frame 0x82 [7, 8], Frame 0x80 [8]]))"
    by (subst send_loop.simps) (simp add: Let_def OP_FIN_def)
  then have "send_loop (\<lambda>j. 1) 4 4 True [7, 8] 2 0 0x82 0 2 [] = Some (Inr (None, 2, [Frame 0x82 [7, 8], Frame 0x80 [8]]))"
    by (subst send_loop.simps) (simp add: Let_def OP_FIN_def)
  then show ?thesis
    by (simp add: send_with_opcode_def send_with_exact_opcode_def connected0_def is_connected_def ws_opcodes retC_def)
qed

text \<open>For every behaviour of the transport the loop ends, stays in the message and in the buffer.\<close>

lemma send_returns:
  assumes "ws_ready c"
  shows "\<exists>r. send_with_exact_opcode raw locked now msg op (Some data) (int (length data)) c H = Some (Inr r)"
proof -
  obtain tx where tx: "wk_tx_buffer c = Some tx" "int (length tx) = wk_buffer_size c" "0 < wk_buffer_size c"
    using assms by (auto simp: ws_ready_def)
  obtain f s out where "send_loop raw (wk_buffer_size c) (length tx) (op AND OP_FIN \<noteq> 0) data (int (length data)) 0 op 0
      (int (length data)) [] = Some (Inr (f, s, out))"
    using send_loop_safe [where widx = 0 and opcode = op and raw = raw and fin = "op AND OP_FIN \<noteq> 0" and k = 0 and out = "[]",
        OF tx(3) refl [of "int (length data)"] tx(2)] by auto
  then show ?thesis
    by (auto simp: send_with_exact_opcode_def tx retC_def split: option.split prod.split)
qed

section \<open>What is received\<close>

text \<open>A frame in pieces, none of them longer than the buffer.\<close>

definition piece_ok :: "nat \<Rightarrow> ws_read \<Rightarrow> bool" where
  "piece_ok bs r \<longleftrightarrow> re_len r = int (length (re_data r)) \<and> length (re_data r) \<le> bs \<and> re_opcode r \<noteq> OP_NONE"

fun pieces_of :: "int \<Rightarrow> int \<Rightarrow> ws_read list \<Rightarrow> bool" where
  "pieces_of whole off [] = False"
| "pieces_of whole off [r] = (re_payload_len r = whole \<and> whole \<le> off + re_len r)"
| "pieces_of whole off (r # r' # rs) = (re_payload_len r = whole \<and> off + re_len r < whole \<and> pieces_of whole (off + re_len r) (r' # rs))"

fun posts :: "int \<Rightarrow> ws_read list \<Rightarrow> ws_effect list" where
  "posts off [] = []"
| "posts off (r # rs) = Post EV_DATA (re_opcode r) (re_payload_len r) off (re_fin r) (re_data r) # posts (off + re_len r) rs"

lemma recv_pieces:
  assumes "\<forall>r \<in> set rs. piece_ok bs r" "pieces_of whole (wk_payload_offset c) rs" "wk_rx_buffer c = Some rx" "length rx = bs"
  shows "\<exists>c'. recv_loop msg (rs @ rest) c H out = Some (Inr (Recv_frame, c', H, out @ posts (wk_payload_offset c) rs, rest)) \<and>
    wk_payload_len c' = whole \<and> wk_last_opcode c' = re_opcode (last rs) \<and>
    (\<exists>rx'. wk_rx_buffer c' = Some rx' \<and> length rx' = bs \<and> take (length (re_data (last rs))) rx' = re_data (last rs)) \<and>
    wk_state c' = wk_state c \<and> wk_run c' = wk_run c \<and> wk_config c' = wk_config c \<and> wk_transport c' = wk_transport c \<and>
    wk_errormsg c' = wk_errormsg c \<and> wk_tx_buffer c' = wk_tx_buffer c \<and> wk_buffer_size c' = wk_buffer_size c"
  using assms
proof (induction rs arbitrary: c rx out)
  case (Cons r rs)
  have p: "re_len r = int (length (re_data r))" "length (re_data r) \<le> bs" "re_opcode r \<noteq> OP_NONE"
    using Cons.prems(1) by (simp_all add: piece_ok_def)
  let ?rx = "re_data r @ drop (length (re_data r)) rx"
  have w: "wr_bytes rx 0 (re_data r) = Inr ?rx" "length ?rx = bs"
    using p(2) Cons.prems(4) by (simp_all add: wr_bytes_def write_at_def)
  show ?case
  proof (cases rs)
    case Nil
    then show ?thesis using Cons.prems p w by (auto simp: Let_def retC_def dispatch_def)
  next
    case (Cons r' rs')
    let ?c = "c\<lparr>wk_rx_buffer := Some ?rx, wk_payload_len := re_payload_len r, wk_last_fin := re_fin r,
        wk_last_opcode := re_opcode r, wk_payload_offset := wk_payload_offset c + re_len r\<rparr>"
    have pr: "re_payload_len r = whole" "wk_payload_offset c + re_len r < whole" "pieces_of whole (wk_payload_offset c + re_len r) rs"
      using Cons.prems(2) Cons by simp_all
    have step: "recv_loop msg ((r # rs) @ rest) c H out =
        recv_loop msg (rs @ rest) ?c H (out @ [Post EV_DATA (re_opcode r) (re_payload_len r) (wk_payload_offset c) (re_fin r) (re_data r)])"
      using Cons.prems(3) p w pr by (simp add: Let_def dispatch_def)
    have "\<forall>r \<in> set rs. piece_ok bs r" "pieces_of whole (wk_payload_offset ?c) rs" "wk_rx_buffer ?c = Some ?rx"
      using Cons.prems(1) pr by simp_all
    from Cons.IH [OF this w(2), of "out @ [Post EV_DATA (re_opcode r) (re_payload_len r) (wk_payload_offset c) (re_fin r) (re_data r)]"]
    show ?thesis unfolding step using Cons by (auto simp: p(1))
  qed
qed simp

text \<open>A frame of the program arrives as its pieces, in order; nothing is sent, and the client goes on.\<close>

lemma recv_data:
  assumes "\<forall>r \<in> set rs. piece_ok (length rx) r" "pieces_of whole 0 rs" "wk_rx_buffer c = Some rx"
    and "re_opcode (last rs) \<notin> {OP_PING, OP_PONG, OP_CLOSE}"
  shows "\<exists>c'. client_recv msg (rs @ rest) c H = Some (Inr (ESP_OK, c', H, posts 0 rs, rest)) \<and> wk_state c' = wk_state c \<and>
    wk_run c' = wk_run c \<and> wk_config c' = wk_config c"
  using recv_pieces [of rs "length rx" whole "c\<lparr>wk_payload_offset := 0\<rparr>" rx msg rest H "[]"] assms
  by (auto simp: client_recv_def control_frame_def retC_def)

lemma recv_ping:
  assumes "piece_ok (length rx) r" "re_payload_len r = re_len r" "re_opcode r = OP_PING" "wk_rx_buffer c = Some rx"
  shows "\<exists>c'. client_recv msg (r # rest) c H =
      Some (Inr (ESP_OK, c', H, posts 0 [r] @ [Frame (OP_PONG OR OP_FIN) (re_data r)], rest)) \<and> wk_state c' = wk_state c"
proof -
  have p: "re_len r = int (length (re_data r))" using assms(1) by (simp add: piece_ok_def)
  obtain c' rx' where r: "recv_loop msg ([r] @ rest) (c\<lparr>wk_payload_offset := 0\<rparr>) H [] =
      Some (Inr (Recv_frame, c', H, [] @ posts 0 [r], rest))" "wk_payload_len c' = re_len r" "wk_last_opcode c' = OP_PING"
    "wk_rx_buffer c' = Some rx'" "length rx' = length rx" "take (length (re_data r)) rx' = re_data r" "wk_state c' = wk_state c"
    using recv_pieces [of "[r]" "length rx" "re_len r" "c\<lparr>wk_payload_offset := 0\<rparr>" rx msg rest H "[]"] assms by auto
  have "length (re_data r) \<le> length rx" using assms(1) by (simp add: piece_ok_def)
  then show ?thesis using r p by (simp add: client_recv_def control_frame_def retC_def)
qed

text \<open>
  C38. A ping can make the client read outside its receive buffer: when the payload of the ping is longer than the buffer,
  the client, having read it piece by piece, answers with as many bytes as the payload has, from the buffer.
\<close>

theorem ws_ping_reads_outside:
  assumes "\<forall>r \<in> set rs. piece_ok (length rx) r" "pieces_of whole 0 rs" "wk_rx_buffer c = Some rx"
    and "re_opcode (last rs) = OP_PING" "int (length rx) < whole"
  shows "client_recv msg (rs @ rest) c H = Some (Inl OutOfBounds)"
  using recv_pieces [of rs "length rx" whole "c\<lparr>wk_payload_offset := 0\<rparr>" rx msg rest H "[]"] assms
  by (auto simp: client_recv_def control_frame_def)

theorem ws_ping_reads_outside_witness:
  "client_recv 10 ([\<lparr>re_len = 2, re_data = [1, 2], re_payload_len = 3, re_fin = True, re_opcode = OP_PING\<rparr>,
      \<lparr>re_len = 1, re_data = [3], re_payload_len = 3, re_fin = True, re_opcode = OP_PING\<rparr>] @ []) (connected0 2) hooks0 =
    Some (Inl OutOfBounds)"
  by (rule ws_ping_reads_outside [of _ "replicate 2 0" 3]) (simp_all add: piece_ok_def connected0_def ws_opcodes)

end
