(* ===== verification/Ws_Task.thy ===== *)
theory Ws_Task
  imports Ws_Transfer
begin

text \<open>
  The task of the WebSocket client (\<open>esp_websocket_client_task\<close>) and the calls that start, stop, close and destroy it. The
  task is cut where it takes or gives the lock, and where it can wait: \<open>task_pos\<close> says where it is, each section
  is a function. A call of the program that waits is cut at the wait. \<open>ws_step\<close> is the transition relation:
  a section of a task, a part of a call, or a message sent by any thread, in any order.
\<close>

section \<open>One turn of the task\<close>

text \<open>
  What a section is told: the readings of the clock in their order, whether the list has a transport for the scheme and
  its default port, the results of connecting (with the status of the upgrade), of polling and of reading, and the size of
  an error message.
\<close>

record ws_turn =
  tn_clock :: "nat \<Rightarrow> u64"
  tn_found :: bool
  tn_port :: int
  tn_result :: int
  tn_status :: int
  tn_poll :: int
  tn_reads :: "ws_read list"
  tn_msg :: nat

type_synonym section_result = "(ws_client \<times> hooks \<times> ws_effect list) comp"

definition ext_transport :: "ws_client \<Rightarrow> bool" where
  "ext_transport c = (case wk_config c of None \<Rightarrow> False | Some cs \<Rightarrow> cs_ext_transport cs)"

definition client_task_begin :: "ws_turn \<Rightarrow> ws_client \<Rightarrow> ws_client \<times> ws_effect list" where
  "client_task_begin e c =
     (let c = c\<lparr>wk_run := True\<rparr>;
          c = (if \<not> wk_transport c \<and> \<not> ext_transport c then c\<lparr>wk_transport := tn_found e\<rparr> else c);
          c = (if \<not> wk_transport c then c\<lparr>wk_run := False\<rparr> else c);
          c = c\<lparr>wk_config := map_option (\<lambda>cs. if cs_port cs = 0 then cs\<lparr>cs_port := tn_port e\<rparr> else cs) (wk_config c),
                wk_state := WEBSOCKET_STATE_INIT, wk_stopped_bit := False, wk_close_sent_bit := False\<rparr>
      in (c, [dispatch EV_BEGIN [] c]))"

definition fail_connection :: "ws_turn \<Rightarrow> u64 \<Rightarrow> ws_error_type \<Rightarrow> ws_client \<Rightarrow> hooks \<Rightarrow> ws_effect list \<Rightarrow> section_result" where
  "fail_connection e now error_type c H out =
     (case client_error (tn_msg e) c H of (_, c, H, e1) \<Rightarrow>
      case abort_connection now error_type c H of (_, c, H, e2) \<Rightarrow> retC (c, H, out @ e1 @ e2))"

definition receive :: "ws_turn \<Rightarrow> ws_client \<Rightarrow> hooks \<Rightarrow> ws_effect list \<Rightarrow> section_result" where
  "receive e c H out =
     bindC (client_recv (tn_msg e) (tn_reads e) c H) (\<lambda>(err, c, H, o1, _).
       if err = ESP_FAIL
       then (case abort_connection (tn_clock e 0) WEBSOCKET_ERROR_TYPE_TCP_TRANSPORT c H of
               (_, c, H, o2) \<Rightarrow> retC (c, H, out @ o1 @ o2))
       else retC (c, H, out @ o1))"

text \<open>The state \<open>INIT\<close>. Data that came with the handshake is read at once.\<close>

definition connect_section :: "ws_turn \<Rightarrow> ws_client \<Rightarrow> hooks \<Rightarrow> section_result" where
  "connect_section e c H =
     (if \<not> wk_transport c then retC (c\<lparr>wk_run := False\<rparr>, H, [])
      else
        let out = [dispatch EV_BEFORE_CONNECT [] c, TransportConnect]
        in if tn_result e < 0
           then fail_connection e (tn_clock e 0) WEBSOCKET_ERROR_TYPE_TCP_TRANSPORT (c\<lparr>wk_handshake_status := tn_status e\<rparr>) H out
           else
             let c = c\<lparr>wk_state := WEBSOCKET_STATE_CONNECTED, wk_wait_for_pong := False,
                       wk_error_type := WEBSOCKET_ERROR_TYPE_NONE, wk_payload_len := 0, wk_payload_offset := 0,
                       wk_last_fin := False, wk_last_opcode := OP_NONE\<rparr>;
                 out = out @ [dispatch EV_CONNECTED [] c]
             in if 0 < tn_poll e then receive e c H out else retC (c, H, out))"

text \<open>
  The state \<open>CONNECTED\<close>: a ping is sent when the interval is over, unless the connection is being closed; when its answer is
  overdue the connection is given up. The interval is an unsigned product of 32 bits, the timeout a signed one.
\<close>

definition ping_section :: "ws_turn \<Rightarrow> ws_client \<Rightarrow> hooks \<Rightarrow> section_result" where
  "ping_section e c H =
     (case wk_config c of
        None \<Rightarrow> liftC (Inl NullDeref)
      | Some cs \<Rightarrow>
          if wk_close_sent_bit c then retC (c, H, [])
          else
            let (c, out) =
              (if ucast (cs_ping_interval_sec cs * 1000) < tn_clock e 0 - wk_ping_tick_ms c
               then let c = c\<lparr>wk_ping_tick_ms := tn_clock e 1\<rparr>;
                        c = (if \<not> wk_wait_for_pong c \<and> cs_pingpong_timeout_sec cs \<noteq> 0
                             then c\<lparr>wk_pingpong_tick_ms := tn_clock e 2, wk_wait_for_pong := True\<rparr> else c)
                    in (c, [Frame (OP_PING OR OP_FIN) []])
               else (c, []))
            in if of_int (cs_pingpong_timeout_sec cs * 1000) < tn_clock e 3 - wk_pingpong_tick_ms c \<and> wk_wait_for_pong c
               then fail_connection e (tn_clock e 4) WEBSOCKET_ERROR_TYPE_PONG_TIMEOUT c H out
               else retC (c, H, out))"

definition wait_section :: "ws_turn \<Rightarrow> ws_client \<Rightarrow> ws_client" where
  "wait_section e c =
     (if of_int (wk_wait_timeout_ms c) < tn_clock e 0 - wk_reconnect_tick_ms c
      then c\<lparr>wk_state := WEBSOCKET_STATE_INIT, wk_reconnect_tick_ms := tn_clock e 1\<rparr> else c)"

definition echo_close :: "ws_client \<Rightarrow> ws_client \<times> ws_effect list" where
  "echo_close c = (if wk_close_sent_bit c then (c, []) else (c\<lparr>wk_close_sent_bit := True\<rparr>, [Frame (OP_CLOSE OR OP_FIN) []]))"

definition locked_section :: "ws_turn \<Rightarrow> ws_client \<Rightarrow> hooks \<Rightarrow> section_result" where
  "locked_section e c H =
     (case wk_state c of
        WEBSOCKET_STATE_INIT \<Rightarrow> connect_section e c H
      | WEBSOCKET_STATE_CONNECTED \<Rightarrow> ping_section e c H
      | WEBSOCKET_STATE_WAIT_TIMEOUT \<Rightarrow> retC (wait_section e c, H, [])
      | WEBSOCKET_STATE_CLOSING \<Rightarrow> (case echo_close c of (c, out) \<Rightarrow> retC (c, H, out))
      | _ \<Rightarrow> retC (c, H, []))"

text \<open>What was polled, once the lock is held again.\<close>

definition polled_section :: "ws_turn \<Rightarrow> int \<Rightarrow> ws_client \<Rightarrow> hooks \<Rightarrow> section_result" where
  "polled_section e read_select c H =
     (if read_select < 0 then fail_connection e (tn_clock e 0) WEBSOCKET_ERROR_TYPE_TCP_TRANSPORT c H []
      else if 0 < read_select then receive e c H []
      else retC (c, H, []))"

definition close_reconnect :: "ws_client \<Rightarrow> bool" where
  "close_reconnect c = (case wk_config c of None \<Rightarrow> False | Some cs \<Rightarrow> cs_close_reconnect cs)"

text \<open>The server has closed its side, or a second has passed. The result says whether the loop goes on.\<close>

definition closed_section :: "ws_turn \<Rightarrow> ws_client \<Rightarrow> bool \<times> ws_client \<times> ws_effect list" where
  "closed_section e c =
     (if close_reconnect c then
        let c = c\<lparr>wk_state := WEBSOCKET_STATE_WAIT_TIMEOUT, wk_error_type := WEBSOCKET_ERROR_TYPE_SERVER_CLOSE\<rparr>
        in (True,
            c\<lparr>wk_reconnect_tick_ms := tn_clock e 0, wk_stopped_bit := False, wk_close_sent_bit := False\<rparr>,
            [TransportClose, dispatch EV_CLOSED [] c])
      else
        let c = c\<lparr>wk_run := False, wk_state := WEBSOCKET_STATE_UNKNOW\<rparr> in (False, c, [dispatch EV_CLOSED [] c]))"

text \<open>The end: the client is freed when it was selected for it (\<open>None\<close>); otherwise its end is announced.\<close>

definition client_task_end :: "ws_client \<Rightarrow> hooks \<Rightarrow> ws_client option \<times> hooks \<times> ws_effect list" where
  "client_task_end c H =
     (let out = [dispatch EV_FINISH [] c, TransportClose];
          c = c\<lparr>wk_state := WEBSOCKET_STATE_UNKNOW\<rparr>
      in if wk_selected_for_destroying c then (None, destroy_and_free_resources c H, out)
         else (Some (c\<lparr>wk_stopped_bit := True\<rparr>), H, out))"

section \<open>Calls\<close>

text \<open>The first part of a start: \<open>made\<close> is the result of making the transport, \<open>task_ok\<close> whether the kernel makes the task.\<close>

definition esp_websocket_client_start :: "esp_err \<Rightarrow> bool \<Rightarrow> ws_client \<Rightarrow> esp_err \<times> ws_client" where
  "esp_websocket_client_start made task_ok c =
     (if state_number (wk_state c) \<ge> state_number WEBSOCKET_STATE_INIT then (ESP_FAIL, c)
      else
        let c = c\<lparr>wk_transport := ext_transport c\<rparr>
        in if \<not> wk_transport c \<and> made \<noteq> ESP_OK then (ESP_FAIL, c)
           else if \<not> task_ok then (ESP_FAIL, c)
           else (ESP_OK, c))"

text \<open>Its second part, after the task has been made.\<close>

definition start_clears_bits :: "ws_client \<Rightarrow> ws_client" where
  "start_clears_bits c = c\<lparr>wk_stopped_bit := False, wk_close_sent_bit := False, wk_requested_stop_bit := False\<rparr>"

definition stop_request :: "ws_client \<Rightarrow> ws_client" where
  "stop_request c = c\<lparr>wk_run := False, wk_requested_stop_bit := True\<rparr>"

definition stop_return :: "ws_client \<Rightarrow> ws_client" where
  "stop_return c = c\<lparr>wk_state := WEBSOCKET_STATE_UNKNOW\<rparr>"

text \<open>\<open>own\<close>: the call is made by the client's own task, that is, by an event handler.\<close>

definition stop_wait_task :: "bool \<Rightarrow> ws_client \<Rightarrow> esp_err \<times> ws_client" where
  "stop_wait_task own c = (if own then (ESP_FAIL, c) else (ESP_OK, stop_request c))"

definition esp_websocket_client_stop :: "bool \<Rightarrow> ws_client \<Rightarrow> esp_err \<times> ws_client" where
  "esp_websocket_client_stop own c = (if wk_stopped_bit c then (ESP_FAIL, c) else stop_wait_task own c)"

text \<open>\<open>body\<close>: the code and the data of the close frame, if it is to have one; afterwards the call waits for the end.\<close>

definition close_with_optional_body ::
  "(nat \<Rightarrow> int) \<Rightarrow> u64 \<Rightarrow> nat \<Rightarrow> bool \<Rightarrow> (int \<times> bytes \<times> int) option \<Rightarrow> ws_client \<Rightarrow> hooks \<Rightarrow>
    (esp_err \<times> ws_client \<times> hooks \<times> ws_effect list) comp" where
  "close_with_optional_body raw now msg own body c H =
     (if \<not> wk_run c then retC (ESP_FAIL, c, H, [])
      else if own then retC (ESP_FAIL, c, H, [])
      else
        bindC (case body of
                 Some (code, data, len) \<Rightarrow> send_close raw True now msg code data (len + 2) c H
               | None \<Rightarrow> send_close raw True now msg 0 [] 0 c H) (\<lambda>(_, c, H, out).
          retC (ESP_OK, c\<lparr>wk_close_sent_bit := True\<rparr>, H, out)))"

definition esp_websocket_client_close_with_code where
  "esp_websocket_client_close_with_code raw now msg own code data len c H =
     close_with_optional_body raw now msg own (Some (code, data, len)) c H"

definition esp_websocket_client_close where
  "esp_websocket_client_close raw now msg own c H = close_with_optional_body raw now msg own None c H"

definition esp_websocket_client_destroy_on_exit :: "ws_client \<Rightarrow> ws_client" where
  "esp_websocket_client_destroy_on_exit c = c\<lparr>wk_selected_for_destroying := True\<rparr>"

text \<open>Whether a destruction waits for the task first.\<close>

definition destroy_waits :: "ws_client \<Rightarrow> bool" where
  "destroy_waits c \<longleftrightarrow> wk_has_bits c \<and> \<not> wk_stopped_bit c"

text \<open>The transport's answer to new headers is \<open>answer\<close>.\<close>

definition esp_websocket_client_set_headers :: "esp_err \<Rightarrow> bytes option \<Rightarrow> ws_client \<Rightarrow> esp_err" where
  "esp_websocket_client_set_headers answer headers c =
     (if wk_state c \<noteq> WEBSOCKET_STATE_CONNECTED \<or> headers = None then ESP_ERR_INVALID_ARG else answer)"

definition get_ping_interval_sec :: "ws_client \<Rightarrow> u32" where
  "get_ping_interval_sec c = (case wk_config c of None \<Rightarrow> 0 | Some cs \<Rightarrow> cs_ping_interval_sec cs)"

definition set_ping_interval_sec :: "u32 \<Rightarrow> ws_client \<Rightarrow> esp_err \<times> ws_client" where
  "set_ping_interval_sec sec c =
     (case wk_config c of
        None \<Rightarrow> (ESP_ERR_INVALID_STATE, c)
      | Some cs \<Rightarrow>
          (ESP_OK, c\<lparr>wk_config := Some (cs\<lparr>cs_ping_interval_sec := if sec = 0 then WEBSOCKET_PING_INTERVAL_SEC else sec\<rparr>)\<rparr>))"

definition get_reconnect_timeout :: "ws_client \<Rightarrow> int" where
  "get_reconnect_timeout c = (if \<not> auto_reconnect c then - 1 else wk_wait_timeout_ms c)"

definition set_reconnect_timeout :: "int \<Rightarrow> ws_client \<Rightarrow> esp_err \<times> ws_client" where
  "set_reconnect_timeout ms c =
     (if ms \<le> 0 then (ESP_ERR_INVALID_ARG, c)
      else if \<not> auto_reconnect c then (ESP_ERR_INVALID_STATE, c)
      else (ESP_OK, c\<lparr>wk_wait_timeout_ms := ms\<rparr>))"

section \<open>The system\<close>

datatype task_pos = Task_created | Task_top | Task_unlocked | Task_polled int | Task_closing | Task_ending

text \<open>
  Where the program is in a call that waits: a start has made its task; a stop, a close or a destruction waits for the bit.
\<close>

datatype caller_pos = Caller_idle | Caller_starting | Caller_stopping | Caller_closing | Caller_destroying

text \<open>\<open>wy_client\<close> is \<open>None\<close> once the client is freed.\<close>

record ws_sys =
  wy_client :: "ws_client option"
  wy_hooks :: hooks
  wy_tasks :: "task_pos list"
  wy_caller :: caller_pos

text \<open>The section a task makes from a position: the client afterwards, if it is not freed, and the new position, if the task goes on.\<close>

definition after_lock :: "section_result \<Rightarrow> task_pos \<Rightarrow> (ws_client option \<times> hooks \<times> task_pos option \<times> ws_effect list) comp" where
  "after_lock r p = bindC r (\<lambda>(c, H, out). retC (Some c, H, Some p, out))"

fun task_section :: "ws_turn \<Rightarrow> task_pos \<Rightarrow> ws_client \<Rightarrow> hooks \<Rightarrow> (ws_client option \<times> hooks \<times> task_pos option \<times> ws_effect list) comp" where
  "task_section e Task_created c H = (case client_task_begin e c of (c, out) \<Rightarrow> retC (Some c, H, Some Task_top, out))"
| "task_section e Task_top c H =
     (if \<not> wk_run c then retC (Some c, H, Some Task_ending, []) else after_lock (locked_section e c H) Task_unlocked)"
| "task_section e Task_unlocked c H =
     retC (Some c, H,
       Some (if wk_state c = WEBSOCKET_STATE_CONNECTED then Task_polled (tn_poll e)
             else if wk_state c = WEBSOCKET_STATE_CLOSING \<and> wk_close_sent_bit c then Task_closing
             else Task_top), [])"
| "task_section e (Task_polled n) c H = after_lock (polled_section e n c H) Task_top"
| "task_section e Task_closing c H =
     (case closed_section e c of (again, c, out) \<Rightarrow> retC (Some c, H, Some (if again then Task_top else Task_ending), out))"
| "task_section e Task_ending c H = (case client_task_end c H of (c, H, out) \<Rightarrow> retC (c, H, None, out))"

text \<open>
  A step and what it sends and posts. A send is any call of \<open>send_with_exact_opcode\<close>, by any thread; a close waits until the
  task has ended or its timeout is over, and then stops the client.
\<close>

inductive ws_step :: "ws_sys \<Rightarrow> ws_effect list \<Rightarrow> ws_sys \<Rightarrow> bool" where
  task: "wy_client s = Some c \<Longrightarrow> i < length (wy_tasks s) \<Longrightarrow> task_section e (wy_tasks s ! i) c (wy_hooks s) = Some (Inr (c', H', p, out)) \<Longrightarrow>
    ws_step s out (s\<lparr>wy_client := c', wy_hooks := H',
      wy_tasks := (case p of None \<Rightarrow> take i (wy_tasks s) @ drop (Suc i) (wy_tasks s) | Some p \<Rightarrow> (wy_tasks s)[i := p])\<rparr>)"
| send: "wy_client s = Some c \<Longrightarrow> send_with_exact_opcode raw locked now msg op data len c (wy_hooks s) = Some (Inr (n, c', H', out)) \<Longrightarrow>
    ws_step s out (s\<lparr>wy_client := Some c', wy_hooks := H'\<rparr>)"
| start: "wy_client s = Some c \<Longrightarrow> wy_caller s = Caller_idle \<Longrightarrow> esp_websocket_client_start made task_ok c = (ESP_OK, c') \<Longrightarrow>
    ws_step s [] (s\<lparr>wy_client := Some c', wy_tasks := wy_tasks s @ [Task_created], wy_caller := Caller_starting\<rparr>)"
| start_fails: "wy_client s = Some c \<Longrightarrow> wy_caller s = Caller_idle \<Longrightarrow> esp_websocket_client_start made task_ok c = (r, c') \<Longrightarrow>
    r \<noteq> ESP_OK \<Longrightarrow> ws_step s [] (s\<lparr>wy_client := Some c'\<rparr>)"
| started: "wy_client s = Some c \<Longrightarrow> wy_caller s = Caller_starting \<Longrightarrow>
    ws_step s [] (s\<lparr>wy_client := Some (start_clears_bits c), wy_caller := Caller_idle\<rparr>)"
| stop: "wy_client s = Some c \<Longrightarrow> wy_caller s = Caller_idle \<Longrightarrow> esp_websocket_client_stop False c = (ESP_OK, c') \<Longrightarrow>
    ws_step s [] (s\<lparr>wy_client := Some c', wy_caller := Caller_stopping\<rparr>)"
| stopped: "wy_client s = Some c \<Longrightarrow> wy_caller s = Caller_stopping \<Longrightarrow> wk_stopped_bit c \<Longrightarrow>
    ws_step s [] (s\<lparr>wy_client := Some (stop_return c), wy_caller := Caller_idle\<rparr>)"
| close: "wy_client s = Some c \<Longrightarrow> wy_caller s = Caller_idle \<Longrightarrow>
    close_with_optional_body raw now msg False body c (wy_hooks s) = Some (Inr (ESP_OK, c', H', out)) \<Longrightarrow>
    ws_step s out (s\<lparr>wy_client := Some c', wy_hooks := H', wy_caller := Caller_closing\<rparr>)"
| closed: "wy_client s = Some c \<Longrightarrow> wy_caller s = Caller_closing \<Longrightarrow> wk_stopped_bit c \<Longrightarrow> ws_step s [] (s\<lparr>wy_caller := Caller_idle\<rparr>)"
| close_timeout: "wy_client s = Some c \<Longrightarrow> wy_caller s = Caller_closing \<Longrightarrow> \<not> wk_stopped_bit c \<Longrightarrow>
    ws_step s [] (s\<lparr>wy_client := Some (stop_request c), wy_caller := Caller_stopping\<rparr>)"
| destroy_wait: "wy_client s = Some c \<Longrightarrow> wy_caller s = Caller_idle \<Longrightarrow> destroy_waits c \<Longrightarrow>
    ws_step s [] (s\<lparr>wy_client := Some (stop_request c), wy_caller := Caller_destroying\<rparr>)"
| destroy: "wy_client s = Some c \<Longrightarrow> wy_caller s = Caller_idle \<and> \<not> destroy_waits c \<or> wy_caller s = Caller_destroying \<and> wk_stopped_bit c \<Longrightarrow>
    ws_step s [] (s\<lparr>wy_client := None, wy_hooks := destroy_and_free_resources c (wy_hooks s), wy_caller := Caller_idle\<rparr>)"
| destroy_on_exit: "wy_client s = Some c \<Longrightarrow> wy_caller s = Caller_idle \<Longrightarrow>
    ws_step s [] (s\<lparr>wy_client := Some (esp_websocket_client_destroy_on_exit c)\<rparr>)"

inductive ws_steps :: "ws_sys \<Rightarrow> ws_effect list \<Rightarrow> ws_sys \<Rightarrow> bool" where
  none: "ws_steps s [] s"
| more: "ws_steps s out s' \<Longrightarrow> ws_step s' out' s'' \<Longrightarrow> ws_steps s (out @ out') s''"

end
