(* ===== verification/Ws_Ykp.thy ===== *)
theory Ws_Ykp
  imports Ws_Task Websocket
begin

text \<open>
  The WebSocket client together with the program that uses it: the events of the client are delivered to
  \<open>ws_event_handler\<close> of \<open>transport/ykp_websocket.c\<close>. The flag \<open>s_connected\<close> follows the client
  over every interleaving, and what happens when the server closes the connection, or when a stop comes early.
\<close>

section \<open>Delivery\<close>

fun ykp_event :: "ws_effect \<Rightarrow> ws_event option" where
  "ykp_event (Post ev op plen off fin d) =
     Some (case ev of EV_CONNECTED \<Rightarrow> WS_EVENT_CONNECTED | EV_DISCONNECTED \<Rightarrow> WS_EVENT_DISCONNECTED
       | EV_DATA \<Rightarrow> WS_EVENT_DATA op d | EV_ERROR \<Rightarrow> WS_EVENT_ERROR | _ \<Rightarrow> WS_EVENT_OTHER)"
| "ykp_event (Frame op d) = None"
| "ykp_event TransportConnect = None"
| "ykp_event TransportClose = None"

fun deliver_events :: "ws_effect list \<Rightarrow> ws \<Rightarrow> ws \<times> ws_callback list" where
  "deliver_events [] w = (w, [])"
| "deliver_events (x # xs) w =
     (case ykp_event x of
        None \<Rightarrow> deliver_events xs w
      | Some ev \<Rightarrow> (case ws_event_handler ev w of (w, cb) \<Rightarrow>
          (case deliver_events xs w of (w, cbs) \<Rightarrow> (w, (case cb of None \<Rightarrow> cbs | Some f \<Rightarrow> f # cbs)))))"

text \<open>What the flag becomes, and the effects that leave it.\<close>

fun flag_after :: "bool \<Rightarrow> ws_effect list \<Rightarrow> bool" where
  "flag_after f [] = f"
| "flag_after f (Post EV_CONNECTED _ _ _ _ _ # xs) = flag_after True xs"
| "flag_after f (Post EV_DISCONNECTED _ _ _ _ _ # xs) = flag_after False xs"
| "flag_after f (_ # xs) = flag_after f xs"

fun quiet :: "ws_effect \<Rightarrow> bool" where
  "quiet (Post EV_CONNECTED _ _ _ _ _) = False"
| "quiet (Post EV_DISCONNECTED _ _ _ _ _) = False"
| "quiet _ = True"

lemma fst_deliver_events_Cons:
  "fst (deliver_events (x # xs) w) = fst (deliver_events xs (case ykp_event x of None \<Rightarrow> w | Some ev \<Rightarrow> fst (ws_event_handler ev w)))"
  by (auto split: option.splits prod.splits)

lemma deliver_append: "fst (deliver_events (xs @ ys) w) = fst (deliver_events ys (fst (deliver_events xs w)))"
proof (induction xs arbitrary: w)
  case (Cons x xs)
  then show ?case by (simp only: fst_deliver_events_Cons append_Cons)
qed simp

lemma deliver_flag: "ws_connected (fst (deliver_events xs w)) = flag_after (ws_connected w) xs"
proof (induction xs arbitrary: w)
  case (Cons x xs)
  show ?case
  proof (cases x)
    case (Post ev op plen off fin d)
    then show ?thesis using Cons by (cases ev) (simp_all add: fst_deliver_events_Cons del: deliver_events.simps)
  qed (use Cons in \<open>simp_all add: fst_deliver_events_Cons del: deliver_events.simps\<close>)
qed simp

lemma flag_after_append [simp]: "flag_after f (xs @ ys) = flag_after (flag_after f xs) ys"
  by (induction f xs rule: flag_after.induct) auto

lemma flag_after_quiet: "\<forall>x \<in> set xs. quiet x \<Longrightarrow> flag_after f xs = f"
  by (induction f xs rule: flag_after.induct) auto

section \<open>The sections\<close>

text \<open>
  An operation keeps the agreement when a connected client has its flag set afterwards. A quiet one does nothing that the flag
  follows, and does not connect.
\<close>

definition agrees :: "ws_client \<Rightarrow> bool \<Rightarrow> bool" where
  "agrees c f \<longleftrightarrow> (is_connected c \<longrightarrow> f)"

definition keeps_flag :: "ws_client \<Rightarrow> ws_client \<Rightarrow> ws_effect list \<Rightarrow> bool" where
  "keeps_flag c c' out \<longleftrightarrow> (\<forall>f. agrees c f \<longrightarrow> agrees c' (flag_after f out))"

definition quietly :: "ws_client \<Rightarrow> ws_client \<Rightarrow> ws_effect list \<Rightarrow> bool" where
  "quietly c c' out \<longleftrightarrow> (\<forall>x \<in> set out. quiet x) \<and> (is_connected c' \<longrightarrow> is_connected c)"

lemma quietly_keeps: "quietly c c' out \<Longrightarrow> keeps_flag c c' out"
  by (auto simp: quietly_def keeps_flag_def agrees_def flag_after_quiet)

lemma keeps_trans: "keeps_flag c c' out \<Longrightarrow> keeps_flag c' c'' out' \<Longrightarrow> keeps_flag c c'' (out @ out')"
  by (simp add: keeps_flag_def)

lemma keeps_disconnected: "\<not> is_connected c' \<Longrightarrow> keeps_flag c c' out"
  by (simp add: keeps_flag_def agrees_def)

lemma error_quietly: "client_error n c H = (r, c', H', out) \<Longrightarrow> quietly c c' out"
  by (auto simp: client_error_def quietly_def is_connected_def dispatch_def split: if_splits option.splits prod.splits)

lemma abort_disconnects: "abort_connection now t c H = (r, c', H', out) \<Longrightarrow> \<not> is_connected c'"
  by (auto simp: abort_connection_def is_connected_def Let_def split: if_splits prod.splits)

definition frames_only :: "ws_effect list \<Rightarrow> bool" where
  "frames_only xs \<longleftrightarrow> (\<forall>x \<in> set xs. \<exists>op d. x = Frame op d)"

lemma send_loop_frames_only:
  assumes "send_loop raw bs txlen fin data len k op widx need out = Some r"
  shows "\<forall>f s out'. r = Inr (f, s, out') \<longrightarrow> frames_only out \<longrightarrow> frames_only out'"
  using assms
proof (induction rule: send_loop.raw_induct [rotated, consumes 1, where P = "\<lambda>raw bs txlen fin data len k op widx need out r.
    \<forall>f s out'. r = Inr (f, s, out') \<longrightarrow> frames_only out \<longrightarrow> frames_only out'"])
  case (1 sl raw bs txlen fin data len k op widx need out r)
  show ?case
    using 1(2) by (auto simp: Let_def retC_def liftC_def frames_only_def split: if_splits dest!: 1(1))
qed

lemma fail_keeps:
  assumes "(case client_error n c H of (_, c, H, e1) \<Rightarrow> case abort_connection now t c H of (_, c, H, e2) \<Rightarrow> retC (x, c, H, out @ e1 @ e2)) =
    Some (Inr (y, c', H', out'))"
  shows "keeps_flag c0 c' out'"
  using assms by (auto simp: retC_def split: prod.splits dest: abort_disconnects intro!: keeps_disconnected)

lemma send_cases:
  assumes "send_with_exact_opcode raw locked now msg op data len c H = Some (Inr (n, c', H', out))"
  obtains (same) "c' = c" "frames_only out"
  | (failed) x fs where "(case client_error msg c H of (_, c, H, e1) \<Rightarrow>
      case abort_connection now WEBSOCKET_ERROR_TYPE_TCP_TRANSPORT c H of (_, c, H, e2) \<Rightarrow> retC (x, c, H, fs @ e1 @ e2)) =
    Some (Inr (n, c', H', out))"
proof (cases "len < 0 \<or> data = None \<and> 0 < len \<or> \<not> is_connected c \<or> \<not> wk_transport c \<or> \<not> locked")
  case True
  then have "c' = c \<and> out = []" using assms by (auto simp: send_with_exact_opcode_def retC_def split: if_splits)
  then show ?thesis using same by (simp add: frames_only_def)
next
  case False
  then obtain tx where tx: "wk_tx_buffer c = Some tx"
    using assms by (cases "wk_tx_buffer c") (auto simp: send_with_exact_opcode_def)
  let ?l = "send_loop raw (wk_buffer_size c) (length tx) (op AND OP_FIN \<noteq> 0) (case data of None \<Rightarrow> [] | Some d \<Rightarrow> d) len 0 op 0 len []"
  have n: "\<not> (len < 0 \<or> data = None \<and> 0 < len)" "is_connected c" "wk_transport c" locked using False by auto
  from assms have e: "bindC ?l (\<lambda>(failed, sent, out).
      case failed of None \<Rightarrow> retC (sent, c, H, out)
      | Some wlen \<Rightarrow> (case client_error msg c H of (_, c, H, e1) \<Rightarrow>
         case abort_connection now WEBSOCKET_ERROR_TYPE_TCP_TRANSPORT c H of (_, c, H, e2) \<Rightarrow> retC (wlen, c, H, out @ e1 @ e2))) =
      Some (Inr (n, c', H', out))"
    by (simp only: send_with_exact_opcode_def n tx option.case simp_thms if_False)
  obtain f s fs where l: "?l = Some (Inr (f, s, fs))" using e unfolding bindC_Some_Inr_iff by auto
  show ?thesis
  proof (cases f)
    case None
    then have "c' = c" "out = fs" using e l by (simp_all add: retC_def)
    moreover have "frames_only fs" using send_loop_frames_only [OF l] by (simp add: frames_only_def)
    ultimately show ?thesis using same by simp
  next
    case (Some w)
    show ?thesis using e unfolding l bindC_simps prod.case Some option.case by (rule failed)
  qed
qed

lemma send_keeps:
  assumes "send_with_exact_opcode raw locked now msg op data len c H = Some (Inr (n, c', H', out))"
  shows "keeps_flag c c' out"
  using assms
proof (cases rule: send_cases)
  case same
  have "quiet x" if "x \<in> set out" for x using same(2) that by (auto simp: frames_only_def)
  then show ?thesis using same(1) by (simp add: quietly_keeps quietly_def)
next
  case (failed x fs)
  then show ?thesis by (rule fail_keeps)
qed

lemma recv_loop_quietly:
  "recv_loop msg reads c H out = Some (Inr (r, c', H', out', rest)) \<Longrightarrow> \<forall>x \<in> set out. quiet x \<Longrightarrow>
    (\<forall>x \<in> set out'. quiet x) \<and> wk_state c' = wk_state c"
proof (induction msg reads c H out rule: recv_loop.induct)
  case (2 msg r reads c H out)
  show ?case
  proof (cases "re_len r < 0")
    case True
    obtain x c1 H1 o1 where e: "client_error msg c H = (x, c1, H1, o1)" by (metis prod_cases4)
    have "wk_state c1 = wk_state c" using e by (auto simp: client_error_def split: if_splits option.splits prod.splits)
    then show ?thesis using 2 True e error_quietly [OF e] by (auto simp: retC_def quietly_def)
  next
    case False
    then obtain rx rx' where rx: "wk_rx_buffer c = Some rx" "wr_bytes rx 0 (take (nat (re_len r)) (re_data r)) = Inr rx'"
      using 2(2) by (auto simp: comp_simps liftC_def split: option.splits)
    show ?thesis
    proof (cases "(re_len r = 0 \<and> re_opcode r = OP_NONE) \<or> \<not> wk_payload_offset c + re_len r < re_payload_len r")
      case True
      then show ?thesis using 2(2,3) False rx by (auto simp: Let_def retC_def dispatch_def split: if_splits)
    next
      case going: False
      show ?thesis using 2(1) [OF False rx(1) refl _ refl refl] 2(2,3) False rx going
        by (auto simp: Let_def dispatch_def)
    qed
  qed
qed simp

lemma receive_keeps:
  assumes "receive e c H out0 = Some (Inr (c', H', out))"
  shows "\<exists>o'. out = out0 @ o' \<and> keeps_flag c c' o'"
proof -
  obtain err c1 H1 o1 rest where r: "client_recv (tn_msg e) (tn_reads e) c H = Some (Inr (err, c1, H1, o1, rest))"
    using assms by (auto simp: receive_def comp_simps)
  obtain x c2 H2 o2 rest2 where l: "recv_loop (tn_msg e) (tn_reads e) (c\<lparr>wk_payload_offset := 0\<rparr>) H [] = Some (Inr (x, c2, H2, o2, rest2))"
    using r by (auto simp: client_recv_def comp_simps)
  have q: "(\<forall>x \<in> set o2. quiet x)" "wk_state c2 = wk_state c" using recv_loop_quietly [OF l] by simp_all
  have "quietly c c1 o1"
    using r q by (auto simp: client_recv_def l control_frame_def quietly_def is_connected_def retC_def split: recv_end.splits if_splits option.splits)
  then have k: "keeps_flag c c1 o1" by (rule quietly_keeps)
  show ?thesis
  proof (cases "err = ESP_FAIL")
    case True
    then obtain y c3 H3 o3 where a: "abort_connection (tn_clock e 0) WEBSOCKET_ERROR_TYPE_TCP_TRANSPORT c1 H1 = (y, c3, H3, o3)"
      by (metis prod_cases4)
    then show ?thesis using assms r True keeps_trans [OF k keeps_disconnected [OF abort_disconnects [OF a]]]
      by (auto simp: receive_def retC_def)
  next
    case False
    then show ?thesis using assms r k by (auto simp: receive_def retC_def)
  qed
qed

lemma fail_connection_keeps:
  "fail_connection e now t c H out0 = Some (Inr (c', H', out)) \<Longrightarrow> keeps_flag c0 c' out"
  by (auto simp: fail_connection_def retC_def split: prod.splits dest: abort_disconnects intro!: keeps_disconnected)

lemma connect_keeps:
  assumes "connect_section e c H = Some (Inr (c', H', out))"
  shows "keeps_flag c c' out"
proof -
  let ?c = "c\<lparr>wk_state := WEBSOCKET_STATE_CONNECTED, wk_wait_for_pong := False, wk_error_type := WEBSOCKET_ERROR_TYPE_NONE,
    wk_payload_len := 0, wk_payload_offset := 0, wk_last_fin := False, wk_last_opcode := OP_NONE\<rparr>"
  let ?out = "[dispatch EV_BEFORE_CONNECT [] c, TransportConnect] @ [dispatch EV_CONNECTED [] ?c]"
  have k: "keeps_flag c ?c ?out" by (simp add: keeps_flag_def agrees_def dispatch_def)
  consider "\<not> wk_transport c" | "wk_transport c" "tn_result e < 0" | "wk_transport c" "\<not> tn_result e < 0" "0 < tn_poll e"
    | "wk_transport c" "\<not> tn_result e < 0" "\<not> 0 < tn_poll e" by blast
  then show ?thesis
  proof cases
    case 3
    then have "receive e ?c H ?out = Some (Inr (c', H', out))" using assms by (simp add: connect_section_def Let_def)
    from receive_keeps [OF this] show ?thesis using keeps_trans [OF k] by blast
  next
    case 1
    then show ?thesis using assms by (auto simp: connect_section_def retC_def keeps_flag_def agrees_def is_connected_def)
  next
    case 2
    then show ?thesis using assms by (simp add: connect_section_def Let_def fail_connection_keeps)
  next
    case 4
    then show ?thesis using assms k by (auto simp: connect_section_def Let_def retC_def)
  qed
qed

lemma keeps_silent: "is_connected c' = is_connected c \<Longrightarrow> keeps_flag c c' []"
  by (simp add: keeps_flag_def agrees_def)

lemma ping_cases:
  assumes "ping_section e c H = Some (Inr (c', H', out))"
  obtains (silent) "c' = c" "out = []"
  | (pinged) c1 o1 where "c1 \<in> {c, c\<lparr>wk_ping_tick_ms := tn_clock e 1\<rparr>,
        c\<lparr>wk_ping_tick_ms := tn_clock e 1, wk_pingpong_tick_ms := tn_clock e 2, wk_wait_for_pong := True\<rparr>}"
      "o1 \<in> {[], [Frame (OP_PING OR OP_FIN) []]}"
      "(c' = c1 \<and> out = o1) \<or> fail_connection e (tn_clock e 4) WEBSOCKET_ERROR_TYPE_PONG_TIMEOUT c1 H o1 = Some (Inr (c', H', out))"
proof -
  obtain cs where cs: "wk_config c = Some cs" using assms by (cases "wk_config c") (auto simp: ping_section_def)
  show ?thesis
  proof (cases "wk_close_sent_bit c")
    case True
    then show ?thesis using assms cs silent by (simp add: ping_section_def retC_def)
  next
    case False
    obtain c1 o1 where p: "(if ucast (cs_ping_interval_sec cs * 1000) < tn_clock e 0 - wk_ping_tick_ms c
        then let c = c\<lparr>wk_ping_tick_ms := tn_clock e 1\<rparr>;
                 c = (if \<not> wk_wait_for_pong c \<and> cs_pingpong_timeout_sec cs \<noteq> 0
                      then c\<lparr>wk_pingpong_tick_ms := tn_clock e 2, wk_wait_for_pong := True\<rparr> else c)
             in (c, [Frame (OP_PING OR OP_FIN) []])
        else (c, [])) = (c1, o1)" by (meson surj_pair)
    have "(if of_int (cs_pingpong_timeout_sec cs * 1000) < tn_clock e 3 - wk_pingpong_tick_ms c1 \<and> wk_wait_for_pong c1
        then fail_connection e (tn_clock e 4) WEBSOCKET_ERROR_TYPE_PONG_TIMEOUT c1 H o1 else retC (c1, H, o1)) = Some (Inr (c', H', out))"
      using assms by (simp only: ping_section_def cs option.case False if_False p prod.case Let_def [of "(c1, o1)"])
    then have "(c' = c1 \<and> out = o1) \<or> fail_connection e (tn_clock e 4) WEBSOCKET_ERROR_TYPE_PONG_TIMEOUT c1 H o1 = Some (Inr (c', H', out))"
      by (auto simp: retC_def split: if_splits)
    moreover have "c1 \<in> {c, c\<lparr>wk_ping_tick_ms := tn_clock e 1\<rparr>,
        c\<lparr>wk_ping_tick_ms := tn_clock e 1, wk_pingpong_tick_ms := tn_clock e 2, wk_wait_for_pong := True\<rparr>}"
      "o1 \<in> {[], [Frame (OP_PING OR OP_FIN) []]}"
      using p by (auto simp: Let_def split: if_splits)
    ultimately show ?thesis using pinged by blast
  qed
qed

lemma ping_keeps:
  assumes "ping_section e c H = Some (Inr (c', H', out))"
  shows "keeps_flag c c' out"
  using assms
proof (cases rule: ping_cases)
  case silent
  then show ?thesis by (simp add: keeps_silent)
next
  case (pinged c1 o1)
  then have "quietly c c1 o1" by (auto simp: quietly_def is_connected_def)
  then show ?thesis using pinged(3) quietly_keeps fail_connection_keeps by blast
qed

lemma locked_keeps:
  assumes "locked_section e c H = Some (Inr (c', H', out))"
  shows "keeps_flag c c' out"
proof (cases "wk_state c")
  case WEBSOCKET_STATE_INIT
  then show ?thesis using assms by (simp add: locked_section_def connect_keeps)
next
  case WEBSOCKET_STATE_CONNECTED
  then show ?thesis using assms by (simp add: locked_section_def ping_keeps)
qed (use assms in \<open>auto simp: locked_section_def retC_def wait_section_def echo_close_def is_connected_def
    intro!: keeps_disconnected split: if_splits\<close>)

lemma polled_keeps:
  assumes "polled_section e n c H = Some (Inr (c', H', out))"
  shows "keeps_flag c c' out"
proof -
  consider "n < 0" | "0 < n" | "n = 0" by linarith
  then show ?thesis
  proof cases
    case 1
    then show ?thesis using assms by (simp add: polled_section_def fail_connection_keeps)
  next
    case 2
    then show ?thesis using assms receive_keeps [of e c H "[]" c' H' out] by (simp add: polled_section_def)
  next
    case 3
    then show ?thesis using assms by (simp add: polled_section_def retC_def keeps_silent)
  qed
qed

lemma task_section_keeps:
  assumes "task_section e p c H = Some (Inr (Some c', H', q, out))"
  shows "keeps_flag c c' out"
proof (cases p)
  case Task_created
  then have "wk_state c' = WEBSOCKET_STATE_INIT"
    using assms by (auto simp: client_task_begin_def Let_def retC_def split: if_splits)
  then show ?thesis by (simp add: keeps_disconnected is_connected_def)
next
  case Task_top
  show ?thesis
  proof (cases "wk_run c")
    case True
    then show ?thesis using assms Task_top by (auto simp: after_lock_def comp_simps retC_def locked_keeps)
  next
    case False
    then show ?thesis using assms Task_top by (auto simp: retC_def keeps_silent)
  qed
next
  case Task_unlocked
  then show ?thesis using assms by (auto simp: retC_def keeps_silent)
next
  case (Task_polled n)
  then show ?thesis using assms by (auto simp: after_lock_def comp_simps retC_def polled_keeps)
next
  case Task_closing
  then show ?thesis using assms
    by (auto simp: closed_section_def Let_def retC_def is_connected_def intro!: keeps_disconnected split: if_splits)
next
  case Task_ending
  then show ?thesis using assms
    by (auto simp: client_task_end_def Let_def retC_def is_connected_def intro!: keeps_disconnected split: if_splits)
qed

section \<open>The flag of the program\<close>

lemma send_close_keeps:
  assumes "send_close raw locked now msg code data len c H = Some (Inr (n, c', H', out))"
  shows "keeps_flag c c' out"
proof (cases "len \<ge> 2")
  case True
  then obtain body H1 H2 where
    "send_with_exact_opcode raw locked now msg (OP_CLOSE OR OP_FIN) (Some body) len c H1 = Some (Inr (n, c', H2, out)) \<or> (c' = c \<and> out = [])"
    using assms by (auto simp: send_close_def send_with_opcode_def comp_simps retC_def liftC_def split: prod.splits bool.splits if_splits)
  then show ?thesis using send_keeps keeps_silent by blast
next
  case False
  then show ?thesis using assms send_keeps by (simp add: send_close_def send_with_opcode_def)
qed

lemma close_keeps:
  assumes "close_with_optional_body raw now msg own body c H = Some (Inr (r, c', H', out))"
  shows "keeps_flag c c' out"
proof (cases "wk_run c \<and> \<not> own")
  case True
  then obtain n c1 code data len where
    "send_close raw True now msg code data len c H = Some (Inr (n, c1, H', out))" "c' = c1\<lparr>wk_close_sent_bit := True\<rparr>"
    using assms by (cases body) (auto simp: close_with_optional_body_def comp_simps retC_def)
  then show ?thesis using send_close_keeps [of raw True now msg code data len c H n c1 H' out]
    by (auto simp: keeps_flag_def agrees_def is_connected_def)
next
  case False
  then show ?thesis using assms by (auto simp: close_with_optional_body_def retC_def keeps_silent split: if_splits)
qed

lemma start_keeps: "esp_websocket_client_start made task_ok c = (r, c') \<Longrightarrow> is_connected c' = is_connected c"
  by (auto simp: esp_websocket_client_start_def Let_def is_connected_def split: if_splits)

lemma ws_step_keeps:
  assumes "ws_step s out s'" "wy_client s' = Some c'"
  shows "\<exists>c. wy_client s = Some c \<and> keeps_flag c c' out"
  using assms(1)
proof cases
  case (task c i e c1 H' p)
  then show ?thesis using task_section_keeps assms(2) by auto
next
  case (send c raw locked now msg op data len n c1 H')
  then show ?thesis using send_keeps assms(2) by auto
next
  case (start c made task_ok c1)
  then show ?thesis using keeps_silent start_keeps assms(2) by auto
next
  case (start_fails c made task_ok r c1)
  then show ?thesis using keeps_silent start_keeps assms(2) by auto
next
  case (started c)
  then show ?thesis using assms(2) by (auto intro!: keeps_silent simp: start_clears_bits_def is_connected_def)
next
  case (stop c c1)
  then show ?thesis using assms(2)
    by (auto intro!: keeps_silent simp: esp_websocket_client_stop_def stop_wait_task_def stop_request_def is_connected_def split: if_splits)
next
  case (stopped c)
  then show ?thesis using assms(2) by (auto intro!: keeps_disconnected simp: stop_return_def is_connected_def)
next
  case (close c raw now msg body c1 H')
  then show ?thesis using close_keeps assms(2) by auto
next
  case (closed c)
  then show ?thesis using assms(2) by (auto intro!: keeps_silent)
next
  case (close_timeout c)
  then show ?thesis using assms(2) by (auto intro!: keeps_silent simp: stop_request_def is_connected_def)
next
  case (destroy_wait c)
  then show ?thesis using assms(2) by (auto intro!: keeps_silent simp: stop_request_def is_connected_def)
next
  case (destroy c)
  then show ?thesis using assms(2) by auto
next
  case (destroy_on_exit c)
  then show ?thesis using assms(2) by (auto intro!: keeps_silent simp: esp_websocket_client_destroy_on_exit_def is_connected_def)
qed

lemma ws_steps_keep:
  "ws_steps s out s' \<Longrightarrow> wy_client s' = Some c' \<Longrightarrow> \<exists>c. wy_client s = Some c \<and> keeps_flag c c' out"
proof (induction arbitrary: c' rule: ws_steps.induct)
  case (none s)
  then show ?case by (simp add: keeps_silent)
next
  case (more s out s' out' s'')
  obtain c1 where c1: "wy_client s' = Some c1" "keeps_flag c1 c' out'" using ws_step_keeps [OF more(2,4)] by blast
  then show ?case using more(3) keeps_trans by blast
qed

text \<open>
  C34. The flag of \<open>ykp_websocket.c\<close> is exact where it matters: over every interleaving of the client's tasks, of messages sent by
  any thread and of calls, from a client that is not connected, \<open>ykp_ws_is_connected\<close> says that there is a connection
  exactly if the client has one.
\<close>

theorem ykp_flag_exact:
  assumes "ws_steps s out s'" "wy_client s = Some c" "\<not> is_connected c" "wy_client s' = Some c'"
  shows "ykp_ws_is_connected (is_connected c') (fst (deliver_events out w)) = is_connected c'"
  using ws_steps_keep [OF assms(1,4)] assms(2,3)
  by (auto simp: ykp_ws_is_connected_def deliver_flag keeps_flag_def agrees_def)

text \<open>A client that is about to connect, and the step that connects it.\<close>

definition connecting0 :: ws_sys where
  "connecting0 = \<lparr>wy_client = Some ((connected0 4096)\<lparr>wk_state := WEBSOCKET_STATE_INIT, wk_run := True\<rparr>), wy_hooks = hooks0,
     wy_tasks = [Task_top], wy_caller = Caller_idle\<rparr>"

definition quiet_turn :: ws_turn where
  "quiet_turn = \<lparr>tn_clock = \<lambda>_. 0, tn_found = True, tn_port = 443, tn_result = 0, tn_status = 101, tn_poll = 0, tn_reads = [], tn_msg = 80\<rparr>"

theorem ykp_flag_exact_witness:
  "\<exists>out s' c'. ws_steps connecting0 out s' \<and> wy_client s' = Some c' \<and> is_connected c' \<and>
    ykp_ws_is_connected (is_connected c') (fst (deliver_events out ws_off)) = is_connected c'"
proof -
  let ?c = "(connected0 4096)\<lparr>wk_state := WEBSOCKET_STATE_INIT, wk_run := True\<rparr>"
  obtain c' H' out where l: "locked_section quiet_turn ?c hooks0 = Some (Inr (c', H', out))" "wk_state c' = WEBSOCKET_STATE_CONNECTED"
    by (simp add: locked_section_def connect_section_def quiet_turn_def connected0_def retC_def Let_def)
  then have t: "task_section quiet_turn (wy_tasks connecting0 ! 0) ?c (wy_hooks connecting0) = Some (Inr (Some c', H', Some Task_unlocked, out))"
    by (simp add: connecting0_def after_lock_def retC_def)
  obtain s' where s: "ws_step connecting0 out s'" "wy_client s' = Some c'"
    using ws_step.task [OF _ _ t] by (simp add: connecting0_def)
  have r: "ws_steps connecting0 out s'" using ws_steps.more [OF ws_steps.none s(1)] by simp
  have "ykp_ws_is_connected (is_connected c') (fst (deliver_events out ws_off)) = is_connected c'"
    by (rule ykp_flag_exact [OF r, of ?c]) (simp_all add: connecting0_def is_connected_def s(2))
  moreover have "is_connected c'" using l(2) by (simp add: is_connected_def)
  ultimately show ?thesis using r s(2) by blast
qed

text \<open>
  A binary frame that the transport gives in several reads reaches the receive callback of the program in as many packets: the
  handler looks neither at the offset of a piece nor at the length of the payload.
\<close>

lemma deliver_pieces:
  "ws_rx_cb w \<Longrightarrow> \<forall>r \<in> set rs. re_opcode r = OP_BINARY \<and> re_data r \<noteq> [] \<Longrightarrow>
    deliver_events (posts off rs) w = (w, map (\<lambda>r. CbRx (re_data r) (of_nat (length (re_data r)))) rs)"
  by (induction rs arbitrary: off) (auto simp: OP_BINARY_def)

lemma binary_frame_in_pieces:
  assumes "\<forall>r \<in> set rs. piece_ok (length rx) r \<and> re_opcode r = OP_BINARY \<and> re_data r \<noteq> []" "pieces_of whole 0 rs"
    and "wk_rx_buffer c = Some rx" "ws_rx_cb w"
  shows "\<exists>c' out. client_recv msg (rs @ rest) c H = Some (Inr (ESP_OK, c', H, out, rest)) \<and>
    deliver_events out w = (w, map (\<lambda>r. CbRx (re_data r) (of_nat (length (re_data r)))) rs)"
proof -
  have "rs \<noteq> []" using assms(2) by auto
  then have "re_opcode (last rs) = OP_BINARY" using assms(1) by simp
  then have "re_opcode (last rs) \<notin> {OP_PING, OP_PONG, OP_CLOSE}" by (simp add: ws_opcodes)
  moreover have "\<forall>r \<in> set rs. piece_ok (length rx) r" using assms(1) by simp
  ultimately obtain c' where "client_recv msg (rs @ rest) c H = Some (Inr (ESP_OK, c', H, posts 0 rs, rest))"
    using recv_data [OF _ assms(2,3), of msg rest H] by blast
  then show ?thesis using deliver_pieces [OF assms(4), of rs 0] assms(1) by blast
qed

section \<open>A close of the server\<close>

text \<open>The task alone, one turn after the other.\<close>

fun task_run :: "ws_turn list \<Rightarrow> task_pos \<Rightarrow> ws_client \<Rightarrow> hooks \<Rightarrow> (ws_client option \<times> hooks \<times> task_pos option \<times> ws_effect list) comp" where
  "task_run [] p c H = retC (Some c, H, Some p, [])"
| "task_run (e # es) p c H =
     bindC (task_section e p c H) (\<lambda>(c, H, p, out).
       case (c, p) of
         (Some c, Some p) \<Rightarrow> bindC (task_run es p c H) (\<lambda>(c, H, p, out'). retC (c, H, p, out @ out'))
       | _ \<Rightarrow> retC (c, H, p, out))"

lemma receive_close:
  assumes "piece_ok (length rx) r" "re_payload_len r = re_len r" "re_opcode r = OP_CLOSE" "wk_rx_buffer c = Some rx"
    and "tn_reads e = r # rest"
  shows "\<exists>c'. receive e c H [] = Some (Inr (c', H, posts 0 [r])) \<and> wk_state c' = WEBSOCKET_STATE_CLOSING \<and> wk_run c' = wk_run c \<and>
    wk_config c' = wk_config c \<and> wk_selected_for_destroying c' = wk_selected_for_destroying c \<and> wk_close_sent_bit c' = wk_close_sent_bit c"
proof -
  let ?rx = "re_data r @ drop (length (re_data r)) rx"
  have p: "re_len r = int (length (re_data r))" "length (re_data r) \<le> length rx" "re_opcode r \<noteq> OP_NONE"
    using assms(1) by (simp_all add: piece_ok_def)
  have w: "wr_bytes rx 0 (re_data r) = Inr ?rx" using p(2) by (simp add: wr_bytes_def write_at_def)
  have op: "OP_CLOSE \<noteq> OP_PING" "OP_CLOSE \<noteq> OP_PONG" by (simp_all add: ws_opcodes)
  show ?thesis
    using assms p w op by (simp add: receive_def client_recv_def control_frame_def Let_def retC_def dispatch_def)
qed

text \<open>
  C33. A close of the server ends the connection for good, and the program is not told: once a connected client that is not to
  reconnect reads a close frame, its task echoes the frame, ends and stops the client, whatever the clock and the transport do;
  the events of this leave the flag of \<open>ykp_websocket.c\<close> set and call none of its callbacks, so that only the manager's
  polls of the connection notice it.
\<close>

theorem server_close_final:
  assumes c: "wk_run c" "is_connected c" "\<not> wk_close_sent_bit c" "\<not> close_reconnect c" "\<not> wk_selected_for_destroying c"
    and r: "0 < n" "wk_rx_buffer c = Some rx" "piece_ok (length rx) r" "re_payload_len r = re_len r" "re_opcode r = OP_CLOSE"
    and e: "tn_reads e1 = r # rest"
  shows "\<exists>c' out. task_run [e1, e2, e3, e4, e5] (Task_polled n) c H = Some (Inr (Some c', H, None, out)) \<and>
    wk_state c' = WEBSOCKET_STATE_UNKNOW \<and> wk_stopped_bit c' \<and> \<not> wk_run c' \<and>
    Frame (OP_CLOSE OR OP_FIN) [] \<in> set out \<and>
    deliver_events out w = (w, []) \<and> ykp_ws_is_connected (is_connected c') w = False"
proof -
  obtain c1 where 1: "receive e1 c H [] = Some (Inr (c1, H, posts 0 [r]))" "wk_state c1 = WEBSOCKET_STATE_CLOSING" "wk_run c1 = wk_run c"
    "wk_config c1 = wk_config c" "wk_selected_for_destroying c1 = wk_selected_for_destroying c" "wk_close_sent_bit c1 = wk_close_sent_bit c"
    using receive_close [OF r(3-5,2) e] by blast
  have nr: "\<not> close_reconnect c1" using c(4) 1(4) by (simp add: close_reconnect_def)
  have s1: "task_section e1 (Task_polled n) c H = Some (Inr (Some c1, H, Some Task_top, posts 0 [r]))"
    using r(1) 1(1) by (simp add: polled_section_def after_lock_def retC_def)
  let ?c2 = "c1\<lparr>wk_close_sent_bit := True\<rparr>"
  have s2: "task_section e2 Task_top c1 H = Some (Inr (Some ?c2, H, Some Task_unlocked, [Frame (OP_CLOSE OR OP_FIN) []]))"
    using c 1 by (simp add: locked_section_def echo_close_def after_lock_def retC_def)
  have s3: "task_section e3 Task_unlocked ?c2 H = Some (Inr (Some ?c2, H, Some Task_closing, []))"
    using 1(2) by (simp add: retC_def)
  let ?c4 = "?c2\<lparr>wk_run := False, wk_state := WEBSOCKET_STATE_UNKNOW\<rparr>"
  have s4: "task_section e4 Task_closing ?c2 H = Some (Inr (Some ?c4, H, Some Task_ending, [dispatch EV_CLOSED [] ?c4]))"
    using nr by (simp add: closed_section_def close_reconnect_def Let_def retC_def)
  let ?c5 = "?c4\<lparr>wk_stopped_bit := True\<rparr>"
  have s5: "task_section e5 Task_ending ?c4 H = Some (Inr (Some ?c5, H, None, [dispatch EV_FINISH [] ?c4, TransportClose]))"
    using c(5) 1(5) by (simp add: client_task_end_def Let_def retC_def)
  have "task_run [e1, e2, e3, e4, e5] (Task_polled n) c H = Some (Inr (Some ?c5, H, None,
      posts 0 [r] @ [Frame (OP_CLOSE OR OP_FIN) []] @ [dispatch EV_CLOSED [] ?c4] @ [dispatch EV_FINISH [] ?c4, TransportClose]))"
    by (simp only: task_run.simps s1 s2 s3 s4 s5 bindC_simps prod.case option.case retC_def append.simps)
  then show ?thesis
    using r(5) by (auto simp: dispatch_def ykp_ws_is_connected_def is_connected_def OP_CLOSE_def)
qed

definition close_frame :: ws_read where
  "close_frame = \<lparr>re_len = 2, re_data = [3, 0xE8], re_payload_len = 2, re_fin = True, re_opcode = OP_CLOSE\<rparr>"

definition turn0 :: "ws_read list \<Rightarrow> ws_turn" where
  "turn0 rs = \<lparr>tn_clock = \<lambda>_. 0, tn_found = True, tn_port = 443, tn_result = 0, tn_status = 101, tn_poll = 1, tn_reads = rs, tn_msg = 80\<rparr>"

definition running0 :: ws_client where
  "running0 = (connected0 4096)\<lparr>wk_run := True\<rparr>"

theorem server_close_final_witness:
  "\<exists>c' out. task_run [turn0 [close_frame], turn0 [], turn0 [], turn0 [], turn0 []] (Task_polled 1) running0 hooks0 =
      Some (Inr (Some c', hooks0, None, out)) \<and>
    wk_state c' = WEBSOCKET_STATE_UNKNOW \<and> wk_stopped_bit c' \<and> \<not> wk_run c' \<and>
    Frame (OP_CLOSE OR OP_FIN) [] \<in> set out \<and>
    deliver_events out (ws_off\<lparr>ws_connected := True\<rparr>) = (ws_off\<lparr>ws_connected := True\<rparr>, []) \<and>
    ykp_ws_is_connected (is_connected c') (ws_off\<lparr>ws_connected := True\<rparr>) = False"
  by (rule server_close_final [of _ _ "replicate 4096 0" close_frame _ "[]"])
    (simp_all add: running0_def connected0_def is_connected_def close_reconnect_def empty_storage_def zero_client_def
      close_frame_def piece_ok_def turn0_def ws_opcodes)

section \<open>A stop right after the start\<close>

text \<open>
  The program waits in a stop, and the one task of the client runs on: nothing but a close of the server, or a lost connection
  of a client that is not to reconnect, ends it.
\<close>

definition going :: "ws_client \<Rightarrow> bool" where
  "going c \<longleftrightarrow> wk_run c \<and> \<not> wk_stopped_bit c \<and> auto_reconnect c \<and> wk_transport c \<and>
     wk_state c \<in> {WEBSOCKET_STATE_INIT, WEBSOCKET_STATE_CONNECTED, WEBSOCKET_STATE_WAIT_TIMEOUT}"

definition stop_lost :: "ws_sys \<Rightarrow> bool" where
  "stop_lost s \<longleftrightarrow> (\<exists>c p. wy_client s = Some c \<and> wy_tasks s = [p] \<and> wy_caller s = Caller_stopping \<and> going c \<and>
     p \<in> {Task_top, Task_unlocked} \<union> range Task_polled)"

text \<open>The program has been given a close frame of the server.\<close>

fun close_data :: "ws_effect \<Rightarrow> bool" where
  "close_data (Post EV_DATA op plen off fin d) \<longleftrightarrow> op = OP_CLOSE"
| "close_data _ \<longleftrightarrow> False"

definition close_seen :: "ws_effect list \<Rightarrow> bool" where
  "close_seen out \<longleftrightarrow> (\<exists>x \<in> set out. close_data x)"

lemma close_seen_simps [simp]:
  "close_seen [] = False" "close_seen (x # xs) = (close_data x \<or> close_seen xs)"
  "close_seen (xs @ ys) \<longleftrightarrow> close_seen xs \<or> close_seen ys"
  by (auto simp: close_seen_def)

lemma error_going: "client_error n c H = (r, c', H', out) \<Longrightarrow> going c \<Longrightarrow> going c'"
  by (auto simp: client_error_def going_def auto_reconnect_def split: if_splits option.splits prod.splits)

lemma abort_going: "abort_connection now t c H = (r, c', H', out) \<Longrightarrow> going c \<Longrightarrow> going c'"
  by (auto simp: abort_connection_def going_def auto_reconnect_def Let_def split: if_splits option.splits prod.splits)

lemma fail_going:
  assumes "(case client_error n c H of (_, c, H, e1) \<Rightarrow> case abort_connection now t c H of (_, c, H, e2) \<Rightarrow> retC (x, c, H, out @ e1 @ e2)) =
    Some (Inr (y, c', H', out'))" "going c"
  shows "going c'"
  using assms by (auto simp: retC_def split: prod.splits dest: error_going abort_going)

lemma fail_connection_going:
  "fail_connection e now t c H out = Some (Inr (c', H', out')) \<Longrightarrow> going c \<Longrightarrow> going c'"
  by (auto simp: fail_connection_def retC_def split: prod.splits dest: error_going abort_going)

lemma send_going:
  "send_with_exact_opcode raw locked now msg op data len c H = Some (Inr (n, c', H', out)) \<Longrightarrow> going c \<Longrightarrow> going c'"
  by (erule send_cases) (auto dest: fail_going)

lemma recv_loop_going:
  "recv_loop msg reads c H out = Some (Inr (r, c', H', out', rest)) \<Longrightarrow>
    (going c \<longrightarrow> going c') \<and> (r = Recv_frame \<longrightarrow> wk_last_opcode c' = OP_CLOSE \<longrightarrow> close_seen out')"
proof (induction msg reads c H out rule: recv_loop.induct)
  case (2 msg r reads c H out)
  show ?case
  proof (cases "re_len r < 0")
    case True
    then show ?thesis using 2(2) by (auto simp: retC_def split: prod.splits dest: error_going)
  next
    case False
    then obtain rx rx' where rx: "wk_rx_buffer c = Some rx" "wr_bytes rx 0 (take (nat (re_len r)) (re_data r)) = Inr rx'"
      using 2(2) by (auto simp: comp_simps liftC_def split: option.splits)
    show ?thesis
    proof (cases "(re_len r = 0 \<and> re_opcode r = OP_NONE) \<or> \<not> wk_payload_offset c + re_len r < re_payload_len r")
      case True
      then show ?thesis using 2(2) False rx
        by (auto simp: Let_def retC_def dispatch_def going_def auto_reconnect_def split: if_splits)
    next
      case more: False
      let ?c = "c\<lparr>wk_rx_buffer := Some rx', wk_payload_len := re_payload_len r, wk_last_fin := re_fin r,
          wk_last_opcode := re_opcode r, wk_payload_offset := wk_payload_offset c + re_len r\<rparr>"
      have "going c \<Longrightarrow> going ?c" by (simp add: going_def auto_reconnect_def)
      then show ?thesis using 2(1) [OF False rx(1) refl _ refl refl] 2(2) False rx more
        by (auto simp: Let_def dispatch_def)
    qed
  qed
qed simp

lemma receive_going:
  assumes "receive e c H out = Some (Inr (c', H', out'))" "going c"
  shows "going c' \<or> close_seen out'"
proof -
  obtain err c1 H1 o1 rest where r: "client_recv (tn_msg e) (tn_reads e) c H = Some (Inr (err, c1, H1, o1, rest))"
    using assms by (auto simp: receive_def comp_simps)
  obtain x c2 H2 o2 rest2 where l: "recv_loop (tn_msg e) (tn_reads e) (c\<lparr>wk_payload_offset := 0\<rparr>) H [] = Some (Inr (x, c2, H2, o2, rest2))"
    using r by (auto simp: client_recv_def comp_simps)
  have g: "going c2" "x = Recv_frame \<Longrightarrow> wk_last_opcode c2 = OP_CLOSE \<Longrightarrow> close_seen o2"
    using recv_loop_going [OF l] assms(2) by (auto simp: going_def auto_reconnect_def)
  have "going c1 \<or> close_seen o1"
    using r g by (auto simp: client_recv_def l control_frame_def retC_def going_def auto_reconnect_def split: recv_end.splits if_splits option.splits)
  then show ?thesis
    using assms(1) r by (auto simp: receive_def retC_def dest: abort_going split: if_splits prod.splits)
qed

lemma ping_going:
  assumes "ping_section e c H = Some (Inr (c', H', out))" "going c"
  shows "going c'"
  using assms(1)
proof (cases rule: ping_cases)
  case silent
  then show ?thesis using assms(2) by simp
next
  case (pinged c1 o1)
  then have "going c1" using assms(2) by (auto simp: going_def auto_reconnect_def)
  then show ?thesis using pinged(3) fail_connection_going by blast
qed

lemma locked_going:
  assumes "locked_section e c H = Some (Inr (c', H', out))" "going c"
  shows "going c' \<or> close_seen out"
proof (cases "wk_state c")
  case WEBSOCKET_STATE_INIT
  have t: "wk_transport c" using assms(2) by (simp add: going_def)
  let ?c = "c\<lparr>wk_state := WEBSOCKET_STATE_CONNECTED, wk_wait_for_pong := False, wk_error_type := WEBSOCKET_ERROR_TYPE_NONE,
    wk_payload_len := 0, wk_payload_offset := 0, wk_last_fin := False, wk_last_opcode := OP_NONE\<rparr>"
  have g: "going ?c" "going (c\<lparr>wk_handshake_status := tn_status e\<rparr>)" using assms(2) by (simp_all add: going_def auto_reconnect_def)
  consider "tn_result e < 0" | "\<not> tn_result e < 0" "0 < tn_poll e" | "\<not> tn_result e < 0" "\<not> 0 < tn_poll e" by blast
  then show ?thesis
  proof cases
    case 1
    then show ?thesis using assms(1) t WEBSOCKET_STATE_INIT fail_connection_going [OF _ g(2)]
      by (auto simp: locked_section_def connect_section_def Let_def)
  next
    case 2
    then show ?thesis using assms(1) t WEBSOCKET_STATE_INIT receive_going [OF _ g(1)]
      by (auto simp: locked_section_def connect_section_def Let_def)
  next
    case 3
    then show ?thesis using assms(1) t WEBSOCKET_STATE_INIT g(1)
      by (auto simp: locked_section_def connect_section_def Let_def retC_def)
  qed
next
  case WEBSOCKET_STATE_CONNECTED
  then show ?thesis using ping_going assms by (simp add: locked_section_def)
next
  case WEBSOCKET_STATE_WAIT_TIMEOUT
  then show ?thesis using assms by (auto simp: locked_section_def wait_section_def retC_def going_def auto_reconnect_def split: if_splits)
qed (use assms in \<open>auto simp: going_def\<close>)

lemma task_going:
  assumes "task_section e p c H = Some (Inr (c', H', q, out))" "going c" "p \<in> {Task_top, Task_unlocked} \<union> range Task_polled"
    and "\<not> close_seen out"
  shows "\<exists>c1 q1. c' = Some c1 \<and> q = Some q1 \<and> going c1 \<and> q1 \<in> {Task_top, Task_unlocked} \<union> range Task_polled"
proof -
  have run: "wk_run c" "wk_state c \<noteq> WEBSOCKET_STATE_CLOSING" using assms(2) by (auto simp: going_def)
  consider "p = Task_top" | "p = Task_unlocked" | n where "p = Task_polled n" using assms(3) by auto
  then show ?thesis
  proof cases
    case 1
    then show ?thesis using assms locked_going run by (fastforce simp: after_lock_def comp_simps retC_def)
  next
    case 2
    then show ?thesis using assms run by (auto simp: retC_def)
  next
    case 3
    then obtain c1 where "polled_section e n c H = Some (Inr (c1, H', out))" "c' = Some c1" "q = Some Task_top"
      using assms by (auto simp: after_lock_def comp_simps retC_def)
    then show ?thesis using assms(2,4) fail_connection_going receive_going
      by (fastforce simp: polled_section_def retC_def split: if_splits)
  qed
qed

lemma stop_lost_step:
  assumes "ws_step s out s'" "stop_lost s" "\<not> close_seen out"
  shows "stop_lost s'"
proof -
  obtain c p where l: "wy_client s = Some c" "wy_tasks s = [p]" "wy_caller s = Caller_stopping" "going c"
    "p \<in> {Task_top, Task_unlocked} \<union> range Task_polled"
    using assms(2) by (auto simp: stop_lost_def)
  have "\<not> wk_stopped_bit c" using l(4) by (simp add: going_def)
  from assms(1) show ?thesis
  proof cases
    case (task c1 i e c' H' q)
    then have "c1 = c" "i = 0" using l by auto
    then show ?thesis using task task_going [OF _ l(4,5) assms(3)] l by (fastforce simp: stop_lost_def)
  next
    case (send c1 raw locked now msg op data len n c' H')
    then show ?thesis using l send_going by (auto simp: stop_lost_def)
  qed (use l \<open>\<not> wk_stopped_bit c\<close> in auto)
qed

lemma stop_lost_steps: "ws_steps s out s' \<Longrightarrow> stop_lost s \<Longrightarrow> \<not> close_seen out \<Longrightarrow> stop_lost s'"
  by (induction rule: ws_steps.induct) (auto dest: stop_lost_step)

text \<open>
  C36. A stop that comes before the new task has run is lost: for a client that reconnects by itself and has not been started
  yet, there is an order of the steps, start, stop, beginning of the task, after which the program waits in the stop and the
  task runs on; and so it stays through every further sequence of steps in which the server does not close the connection.
\<close>

theorem early_stop_lost:
  assumes c: "wy_client s = Some c" "wy_tasks s = []" "wy_caller s = Caller_idle"
    and u: "wk_state c = WEBSOCKET_STATE_UNKNOW" "auto_reconnect c"
  shows "\<exists>s1 out1. ws_steps s out1 s1 \<and> wy_caller s1 = Caller_stopping \<and>
    (\<forall>out s2. ws_steps s1 out s2 \<longrightarrow> \<not> close_seen out \<longrightarrow>
       wy_caller s2 = Caller_stopping \<and> (\<exists>c2. wy_client s2 = Some c2 \<and> wk_run c2 \<and> \<not> wk_stopped_bit c2 \<and> length (wy_tasks s2) = 1))"
proof -
  let ?c1 = "c\<lparr>wk_transport := ext_transport c\<rparr>"
  have st: "esp_websocket_client_start ESP_OK True c = (ESP_OK, ?c1)"
    using u(1) by (simp add: esp_websocket_client_start_def Let_def)
  let ?s1 = "s\<lparr>wy_client := Some ?c1, wy_tasks := wy_tasks s @ [Task_created], wy_caller := Caller_starting\<rparr>"
  have 1: "ws_step s [] ?s1" by (rule ws_step.start [OF c(1,3) st])
  let ?s2 = "?s1\<lparr>wy_client := Some (start_clears_bits ?c1), wy_caller := Caller_idle\<rparr>"
  have 2: "ws_step ?s1 [] ?s2" by (rule ws_step.started) simp_all
  let ?c3 = "stop_request (start_clears_bits ?c1)"
  let ?s3 = "?s2\<lparr>wy_client := Some ?c3, wy_caller := Caller_stopping\<rparr>"
  have 3: "ws_step ?s2 [] ?s3"
    by (rule ws_step.stop [where c = "start_clears_bits ?c1"])
      (simp_all add: esp_websocket_client_stop_def stop_wait_task_def start_clears_bits_def)
  let ?e = "\<lparr>tn_clock = \<lambda>_. 0, tn_found = True, tn_port = 80, tn_result = 0, tn_status = 0, tn_poll = 0, tn_reads = [], tn_msg = 0\<rparr>"
  obtain c4 out4 where b: "client_task_begin ?e ?c3 = (c4, out4)" by (meson surj_pair)
  let ?s4 = "?s3\<lparr>wy_client := Some c4, wy_hooks := wy_hooks ?s3, wy_tasks := [Task_top]\<rparr>"
  have "ws_step ?s3 out4 (?s3\<lparr>wy_client := Some c4, wy_hooks := wy_hooks ?s3,
      wy_tasks := (case Some Task_top of None \<Rightarrow> take 0 (wy_tasks ?s3) @ drop (Suc 0) (wy_tasks ?s3) | Some p \<Rightarrow> (wy_tasks ?s3)[0 := p])\<rparr>)"
    by (rule ws_step.task [where c = ?c3 and e = ?e]) (simp_all add: c(2) b retC_def)
  then have 4: "ws_step ?s3 out4 ?s4" by (simp add: c(2))
  have run: "ws_steps s ([] @ [] @ [] @ [] @ out4) ?s4"
    using ws_steps.more [OF ws_steps.more [OF ws_steps.more [OF ws_steps.more [OF ws_steps.none 1] 2] 3] 4] by simp
  have "going c4"
    using b u(2) by (auto simp: client_task_begin_def going_def Let_def auto_reconnect_def stop_request_def start_clears_bits_def
        ext_transport_def split: if_splits option.splits)
  then have "stop_lost ?s4" by (simp add: stop_lost_def)
  then have "stop_lost s2" if "ws_steps ?s4 out s2" "\<not> close_seen out" for out s2 using stop_lost_steps that by blast
  then have "wy_caller s2 = Caller_stopping \<and> (\<exists>c2. wy_client s2 = Some c2 \<and> wk_run c2 \<and> \<not> wk_stopped_bit c2 \<and> length (wy_tasks s2) = 1)"
    if "ws_steps ?s4 out s2" "\<not> close_seen out" for out s2 using that by (fastforce simp: stop_lost_def going_def)
  then show ?thesis using run by (intro exI [of _ ?s4] exI) auto
qed

definition stopped0 :: ws_sys where
  "stopped0 = \<lparr>wy_client = Some (zero_client\<lparr>wk_config := Some (empty_storage\<lparr>cs_auto_reconnect := True\<rparr>), wk_has_bits := True,
     wk_stopped_bit := True\<rparr>), wy_hooks = hooks0, wy_tasks = [], wy_caller = Caller_idle\<rparr>"

theorem early_stop_lost_witness:
  "\<exists>s1 out1. ws_steps stopped0 out1 s1 \<and> wy_caller s1 = Caller_stopping \<and>
    (\<forall>out s2. ws_steps s1 out s2 \<longrightarrow> \<not> close_seen out \<longrightarrow>
       wy_caller s2 = Caller_stopping \<and> (\<exists>c2. wy_client s2 = Some c2 \<and> wk_run c2 \<and> \<not> wk_stopped_bit c2 \<and> length (wy_tasks s2) = 1))"
  by (rule early_stop_lost [of _ "zero_client\<lparr>wk_config := Some (empty_storage\<lparr>cs_auto_reconnect := True\<rparr>), wk_has_bits := True,
      wk_stopped_bit := True\<rparr>"]) (simp_all add: stopped0_def zero_client_def auto_reconnect_def)

end
