(* ===== verification/Spec2Isabelle.thy ===== *)
theory Spec2Isabelle
  imports Tlv_Walk Packet Replay Qos Nvs Security Session Relay Ota Reports Legacy_Udp Ble_Protocol Websocket
    Wifi Discovery Firmware Dispatch Handshake Runs Cjson_Minify Cjson_Client Ble_Json Ws_Transport Ws_Memory Ws_Ykp
begin

text \<open>
  \<^bold>\<open>Verification of the YKP v5 device firmware\<close> (\<open>src/esp32-firmware/main\<close>, C for the ESP32).

  The firmware controls a relay and reports measurements to a cloud server. It keeps a WebSocket to
  the server; over it go binary packets (33 header bytes, a CBOR payload of type-value entries, a
  16-byte tag). The device opens with \<open>HELLO\<close>, the server answers with \<open>CHALLENGE\<close>, the device with a signature,
  and \<open>SESSION_ACTIVE\<close> starts a session in which packets pass a replay window, are
  decrypted and reach the relay, sensor, health and update services. A phone provisions the
  device over Bluetooth with JSON commands, which the vendored library cJSON
  (\<open>managed_components/espressif__cjson/cJSON/cJSON.c\<close>) parses; an older app talks to it by UDP.

  \<^bold>\<open>How the code is modelled.\<close> Every C function is one HOL function with the same branches. Static
  variables and structs are records, given and returned; machine integers are words of their
  width and wrap. Arrays are lists with their full size, and every access through a pointer
  is checked: a read or write outside is \<open>Inl OutOfBounds\<close> or \<open>Inl BufferOverflow\<close>, freeing a static buffer is
  \<open>Inl InvalidFree\<close>, a null pointer \<open>Inl NullDeref\<close>. What a function does outside its memory is a list of
  events. Loops are structural recursion or \<open>function\<close> with a measure where they end; those that may not
  end, the scan of \<open>ykp_tlv_find\<close>, the TLS handshake and the walks of cJSON along \<open>next\<close>, are \<open>partial_function (option)\<close>, so that
  "does not return" is the value \<open>None\<close>. The recursion of the JSON parser and of \<open>cJSON_Duplicate\<close> goes down on the
  depth the code itself allows (\<open>CJSON_NESTING_LIMIT\<close>, \<open>CJSON_CIRCULAR_LIMIT\<close>): at 0 the model does what the code does at
  the limit, so no result is cut off. Allocation results, clock readings, sensor values and the
  libraries (PSA crypto, flash driver, network stack, Wi-Fi driver, WebSocket client, Bluetooth
  stack) are arguments; what their documentation promises is a named
  hypothesis where a lemma needs it (\<open>nvs_laws\<close>, \<open>aead_laws\<close>, \<open>sign_laws\<close>, \<open>ecdh_point_laws\<close>, ...), each with
  a concrete instance in a witness.

  \<^bold>\<open>Theories and sources.\<close>
  \<^item> \<open>Prelude\<close>: machine types, faults, checked arrays, events, the locales \<open>machine\<close> (a step function with an
    invariant) and \<open>enum_codec\<close>. \<open>Cstring\<close>: C strings in arrays and \<open>snprintf\<close>.
  \<^item> \<open>Constants\<close>, \<open>Bytes\<close>: \<open>ykp_core/ykp_constants.h\<close> and the byte order helpers.
  \<^item> \<open>Cbor\<close>, \<open>Float16\<close>: the encoder of \<open>ykp_core/ykp_cbor.h\<close> (locale \<open>appender\<close>: an operation that appends fixed bytes or
    sets the overflow flag) and the half floats.
  \<^item> \<open>Tlv\<close>, \<open>Tlv_Walk\<close>: builder, finder and readers of \<open>ykp_core/ykp_packet.c\<close> (locale \<open>tlv_adder\<close>, one interpretation per
    \<open>ykp_tlv_add_*\<close>). Finding on an encoding is lookup in the list of entries; when the finder ends,
    when it does not, which bytes it reads.
  \<^item> \<open>Packet\<close>, \<open>Transmit\<close>: the packet functions of \<open>ykp_packet.c\<close> and the sequence every sender goes through. Serialise
    and parse are inverse; parsing is memory safe on all input.
  \<^item> \<open>Replay\<close>: \<open>ykp_replay.c\<close>. The 64-bit window refines the set of accepted ids (locale \<open>replay_guard\<close>,
    interpreted on the window): no id is accepted twice in any order of arrival.
  \<^item> \<open>Qos\<close>: \<open>ykp_qos.c\<close>, the retransmission engine: invariant of the slots, exact budget of frames, empty
    queue after four due ticks.
  \<^item> \<open>Nvs\<close>, \<open>Security\<close>, \<open>Session\<close>: \<open>config/nvs_config.c\<close>, \<open>ykp_security.c\<close> with its memory pool, \<open>ykp_session.c\<close>.
  \<^item> \<open>Relay\<close>, \<open>Ota\<close>, \<open>Reports\<close>: the services. Pins follow the state; the update
    hash covers what was written, and what \<open>OTA_COMPLETE\<close> compares is known for every history of messages.
  \<^item> \<open>Legacy_Udp\<close>: \<open>transport/legacy_udp.c\<close>, the server for the older app.
  \<^item> \<open>Ble\<close>, \<open>Ble_Safety\<close>, \<open>Ble_Protocol\<close>: \<open>config/ble_provision.c\<close>. Its tasks are cut at the points where another
    task can run; \<open>ble_step\<close> is the transition relation of callbacks, task turns and task sections, \<open>ble_reach\<close> its
    reachable states. The JSON parser is an argument there; \<open>Ble_Json\<close> puts the model of cJSON in its place.
  \<^item> \<open>Cjson\<close>, \<open>Cjson_Number\<close>, \<open>Cjson_Parse\<close>, \<open>Cjson_Print\<close>, \<open>Cjson_Items\<close>, \<open>Cjson_Minify\<close>: cJSON over trees of items. The
    allocator is a record with a pattern of failures and a count of live blocks; doubles are rationals rounded to 53 bits.
    \<open>Cjson_Safety\<close> (locale \<open>value_parser\<close>): the parser returns on every text, in bounds and without a leak. \<open>Cjson_Text\<close>: the printer
    refines the text of a tree. \<open>Cjson_Reads\<close>, \<open>Cjson_Roundtrip\<close>: parsing a printed tree gives it back. \<open>Cjson_Cut\<close>: a
    text cut inside a string is refused.
  \<^item> \<open>Cjson_Heap\<close>, \<open>Cjson_Create\<close>: the functions that build, edit, free, copy and compare items, over cells with
    \<open>next\<close>, \<open>prev\<close> and \<open>child\<close>. \<open>Cjson_Lists\<close>, \<open>Cjson_Replace\<close>: each edit is one on HOL lists. \<open>Cjson_Delete\<close>: deletion
    frees a tree of cells, each once. \<open>Cjson_Store\<close>, \<open>Cjson_Edits\<close>: the whole heap (lists without common elements, no item below
    itself) and the abstract store it represents. \<open>Cjson_Calls\<close>, \<open>Cjson_Refines\<close>, \<open>Cjson_Client\<close>: the calls, their stated
    outcomes, and programs over them (locale \<open>simulation\<close>).
  \<^item> \<open>Ws_Config\<close>, \<open>Ws_Client\<close>, \<open>Ws_Transport\<close>, \<open>Ws_Transfer\<close>, \<open>Ws_Task\<close>: the vendored WebSocket client
    (\<open>managed_components/espressif__esp_websocket_client/esp_websocket_client.c\<close>): its configuration over the allocator of
    \<open>Allocator\<close>, which cJSON shares, making and destruction, the settings of the transports, sending and receiving. Its task is
    cut where it takes the lock or waits; \<open>ws_step\<close> is the relation of task sections, sends and calls in any
    order. \<open>Ws_Memory\<close>: no block is lost. \<open>Ws_Ykp\<close>: the client with \<open>ws_event_handler\<close> as its program.
  \<^item> \<open>Websocket\<close>, \<open>Wifi\<close>, \<open>Discovery\<close>: \<open>transport/ykp_websocket.c\<close>, \<open>wifi/wifi_manager.c\<close>, \<open>transport/ykp_udp.c\<close> and
    \<open>discovery/ykp_discovery.c\<close>.
  \<^item> \<open>Firmware\<close>: \<open>main.c\<close> over all of these: the record \<open>firmware\<close> and every handler and task.
  \<^item> \<open>Dispatch\<close>, \<open>Handshake\<close>, \<open>Runs\<close>: what \<open>main.c\<close> does with a frame, with a handshake, and over sequences of steps of
    all tasks (\<open>fw_step\<close>), with the connection manager. The boot and provisioning together are in this theory.

  \<^bold>\<open>What is shown of the whole.\<close> A fresh command is executed and acknowledged (\<open>relay_command_executed\<close>); a replayed one
  never reaches a service, whatever happens in between (\<open>replayed_packet_ignored\<close>); decryption is transparent
  (\<open>encrypted_equals_plain\<close>); packets outside the security and update services cannot cause a memory fault
  (\<open>plain_packets_never_fault\<close>); the provisioning service is memory safe over every interleaving (\<open>ble_memory_safe\<close>);
  the flag of the WebSocket is exact over every interleaving (\<open>ykp_flag_exact\<close>);
  credentials sent as JSON text arrive in the session (\<open>provisioning_json_arrives\<close>); cJSON parses what it prints
  (\<open>cjson_roundtrip\<close>) and its items are lists and trees for every program that uses them (\<open>cjson_calls_refine\<close>). The
  same model shows where the code falls short: the handshake derives no key (\<open>challenge_derives_no_key\<close>),
  a challenge can be read beyond its buffer (\<open>challenge_reads_outside\<close>), five bytes hang the finder (\<open>tlv_find_hangs\<close>), the
  session is activated and the window emptied by anyone (\<open>session_active_unauthenticated\<close>), forged packets
  block genuine ones (\<open>forged_packet_blocks\<close>), a repeated \<open>OTA_COMPLETE\<close> or a failed hash compares an uninitialised
  array (\<open>ota_complete_checks_hash\<close>), a close of the server ends the connection unnoticed
  (\<open>server_close_final\<close>), a stop right after a start is lost (\<open>early_stop_lost\<close>), provisioning never stores the id the boot asks for
  (\<open>provisioning_without_id_repeats\<close>).

  \<^bold>\<open>Bounds.\<close> The sizes are those of the code: 512 payload bytes, 256 to 512 bytes per sender, 32 slots, 64 ids,
  240 encrypted bytes, 2048 and 8192 bytes of certificates, 580 bytes for a scan of ten networks. Times are
  integers; the 64-bit microsecond counter does not wrap in the life of a device.

  \<^bold>\<open>Not modelled.\<close> Log output (\<open>dump_decrypted_packet\<close>, \<open>audit_task_stack\<close>, \<open>on_wifi_disconnected\<close>), watchdog calls,
  stack sizes and priorities. Handlers of \<open>main.c\<close> are atomic steps: data races between
  two handlers on different cores are outside the model, except in the provisioning service, whose sections
  are those its mutexes protect. \<open>cJSON_Utils.c\<close>, the tests and the fuzzing of cJSON, which the
  firmware does not use; of the vendored WebSocket client the build options that are off (dynamic buffers, a separate
  lock for sending, hardware keys) and what belongs to later versions of ESP-IDF (redirects, header events); the other
  programs of the repository (backend, dashboard, Android app). In cJSON strings are values, so a string argument that lies inside an item's own block is outside the
  model (except in \<open>cJSON_SetValuestring\<close>), and locales are off, as in the build.
\<close>

section \<open>Boot and provisioning\<close>

lemma boot_unprovisioned:
  assumes d: "nvs_laws d" "nvs_accepts d" "\<And>n. nvs_flash_init d n = (NVS_ESP_OK, n)"
    and id: "nvs_config_get_device_id d n 9 = None" and b: "fst (ykp_ble_provision_start x al b)"
  shows "\<exists>n1. app_main env x al b x509_ok init_ok d n fw = (BootProvisioning (snd (ykp_ble_provision_start x al b)), n1, []) \<and>
    nvs_config_get_device_id d n1 9 = None"
proof -
  let ?n = "snd (nvs_config_incr_restart_count d n)"
  have keep: "nvs_config_get_device_id d ?n 9 = None"
    using id accepts_get_str_u32 [OF d(1,2), of "''device_id''" "''restart_count''" n]
    by (simp add: nvs_config_get_device_id_def nvs_config_incr_restart_count_def Let_def)
  then have p: "\<not> is_provisioned d ?n" by (simp add: is_provisioned_def)
  have i: "nvs_config_init d n = (True, n)" by (simp add: nvs_config_init_def d(3))
  have "app_main env x al b x509_ok init_ok d n fw = (BootProvisioning (snd (ykp_ble_provision_start x al b)), ?n, [])"
    using p b by (simp add: app_main_def i Let_def case_prod_beta)
  then show ?thesis using keep by blast
qed

text \<open>
  C32. Provisioning does not provision: a device whose flash holds no device id starts in provisioning
  mode, and after a phone has sent its credentials and committed them the restarted device is in
  provisioning mode again, since the commit stores no device id.
\<close>

theorem provisioning_without_id_repeats:
  assumes d: "nvs_laws d" "nvs_accepts d" "\<And>n. nvs_flash_init d n = (NVS_ESP_OK, n)"
    and id: "nvs_config_get_device_id d n 9 = None" and b: "fst (ykp_ble_provision_start x al b)"
    and p: "ble_ok x b1" "b_rx_queue b1 \<noteq> None"
  shows "\<exists>n1 b2 n2 n3.
    app_main env x al b x509_ok init_ok d n fw = (BootProvisioning (snd (ykp_ble_provision_start x al b)), n1, []) \<and>
    run_command x d now rnd obj (ascii ''confirm_provision'') seq b1 n1 = Inr (b2, n2, [DelayMs 1000, Restart]) \<and>
    app_main env x al b x509_ok init_ok d n2 fw = (BootProvisioning (snd (ykp_ble_provision_start x al b)), n3, [])"
proof -
  obtain n1 where 1: "app_main env x al b x509_ok init_ok d n fw =
      (BootProvisioning (snd (ykp_ble_provision_start x al b)), n1, [])" "nvs_config_get_device_id d n1 9 = None"
    using boot_unprovisioned [OF d id b, of env x509_ok init_ok fw] by blast
  obtain b2 n2 where 2: "run_command x d now rnd obj (ascii ''confirm_provision'') seq b1 n1 = Inr (b2, n2, [DelayMs 1000, Restart])"
    "nvs_config_get_str d n2 ''device_id'' 9 = nvs_config_get_str d n1 ''device_id'' 9"
    using confirm_flash [OF p d(1,2), of now rnd obj seq n1] by fastforce
  then have "nvs_config_get_device_id d n2 9 = None" using 1(2) by (simp add: nvs_config_get_device_id_def)
  from boot_unprovisioned [OF d this b, of env x509_ok init_ok fw] show ?thesis using 1(1) 2(1) by blast
qed

theorem provisioning_without_id_repeats_witness:
  "\<exists>n1 b2 n2 n3.
    app_main env0 lib0 alloc0 ble_boot (\<lambda>c. True) True map_driver nvs0 fw_run0 =
      (BootProvisioning (snd (ykp_ble_provision_start lib0 alloc0 ble_boot)), n1, []) \<and>
    run_command lib0 map_driver 0 0 Map.empty (ascii ''confirm_provision'') 1
      (snd (ykp_ble_provision_start lib0 alloc0 ble_boot)) n1 = Inr (b2, n2, [DelayMs 1000, Restart]) \<and>
    app_main env0 lib0 alloc0 ble_boot (\<lambda>c. True) True map_driver n2 fw_run0 =
      (BootProvisioning (snd (ykp_ble_provision_start lib0 alloc0 ble_boot)), n3, [])"
proof (rule provisioning_without_id_repeats [OF map_driver_laws map_driver_accepts])
  show "nvs_flash_init map_driver n = (NVS_ESP_OK, n)" for n by (simp add: map_driver_def)
  show "nvs_config_get_device_id map_driver nvs0 9 = None"
    by (simp add: nvs_config_get_device_id_def nvs_config_get_str_def map_driver_def nvs0_def open_nvs_def)
  show "fst (ykp_ble_provision_start lib0 alloc0 ble_boot)" "b_rx_queue (snd (ykp_ble_provision_start lib0 alloc0 ble_boot)) \<noteq> None"
    by (simp_all add: ykp_ble_provision_start_def start_stack_def create_sync_def sync_missing_def ble_boot_def alloc0_def
        Let_def open_session_def prov_session_clear_def prov_session_zero_def prov_session_update_crc_def)
  show "ble_ok lib0 (snd (ykp_ble_provision_start lib0 alloc0 ble_boot))" by (rule started0_ok)
qed

end
